(* ===== verification/Slop_Prelude.thy ===== *)
theory Slop_Prelude
  imports Main "HOL-Library.Word" "HOL-Library.Monad_Syntax"
begin

text \<open>
  The prelude of the slop verification library. It fixes the names of the machine types the C
  sources use, the collections of hints the component theories fill, how printf renders
  unsigned numbers, and the small calculus the whole library reasons with: a C function that
  works on a piece of mutable state and may fail to return is a function from the state to
  \<open>(result \<times> state) option\<close> (\<open>None\<close>: the call does not return), sequenced with the option
  monad's do-notation; \<open>wp\<close> is its total-correctness predicate transformer, so a fact
  \<open>wp (f s) Q\<close> always contains termination; and \<open>loop\<close> is a \<open>while\<close> loop with an iteration
  bound that \<open>wp_loop\<close> discharges from a decreasing measure.
\<close>

unbundle bit_operations_syntax

type_synonym u8 = "8 word"
type_synonym u32 = "32 word"
type_synonym u64 = "64 word"

text \<open>Hints: \<open>wp_intro\<close> holds the rules of the operations, \<open>slop_simps\<close> rewrite rules of the models.\<close>

named_theorems wp_intro \<open>total-correctness rules of the modelled operations\<close>
named_theorems slop_simps \<open>rewrite rules of the modelled operations\<close>

section \<open>Numbers as printf writes them\<close>

text \<open>\<open>%u\<close>, \<open>%d\<close> on a non-negative value, \<open>%llu\<close> and \<open>%zu\<close>: decimal digits, no leading zero.\<close>

definition digit_char :: "nat \<Rightarrow> char" where
  "digit_char d = char_of (48 + d)"

fun dec_of_nat :: "nat \<Rightarrow> string" where
  "dec_of_nat n = (if n < 10 then [digit_char n] else dec_of_nat (n div 10) @ [digit_char (n mod 10)])"

declare dec_of_nat.simps [simp del]

text \<open>One upper-case hexadecimal digit, and \<open>%02X\<close> on a byte.\<close>

definition hex_digit_upper :: "nat \<Rightarrow> char" where
  "hex_digit_upper d = (if d < 10 then char_of (48 + d) else char_of (55 + d))"

definition hex2_of_nat :: "nat \<Rightarrow> string" where
  "hex2_of_nat n = [hex_digit_upper (n div 16), hex_digit_upper (n mod 16)]"

definition digit_val :: "char \<Rightarrow> nat" where
  "digit_val c = of_char c - (48 :: nat)"

text \<open>The value of a string of decimal digits, most significant first.\<close>

definition dec_value :: "string \<Rightarrow> nat" where
  "dec_value s = foldl (\<lambda>v c. v * 10 + digit_val c) 0 s"

lemma digit_val_digit_char [simp]: "d < 10 \<Longrightarrow> digit_val (digit_char d) = d"
  by (simp add: digit_val_def digit_char_def)

lemma dec_value_snoc: "dec_value (s @ [c]) = dec_value s * 10 + digit_val c"
  by (simp add: dec_value_def)

text \<open>Reading back what printf wrote gives the number: the rendering is injective.\<close>

lemma dec_value_dec_of_nat [simp]: "dec_value (dec_of_nat n) = n"
proof (induction n rule: dec_of_nat.induct)
  case (1 n)
  show ?case
  proof (cases "n < 10")
    case True
    then show ?thesis by (simp add: dec_of_nat.simps dec_value_def)
  next
    case False
    with 1 show ?thesis by (simp add: dec_of_nat.simps [of n] dec_value_snoc)
  qed
qed

lemma dec_of_nat_inject [simp]: "dec_of_nat m = dec_of_nat n \<longleftrightarrow> m = n"
  by (metis dec_value_dec_of_nat)

lemma dec_of_nat_nonempty [simp]: "dec_of_nat n \<noteq> []"
  by (subst dec_of_nat.simps) simp

section \<open>Total correctness of state functions\<close>

definition wp :: "('a \<times> 's) option \<Rightarrow> ('a \<Rightarrow> 's \<Rightarrow> bool) \<Rightarrow> bool" where
  "wp m Q = (case m of None \<Rightarrow> False | Some (r, s) \<Rightarrow> Q r s)"

lemma wp_Some [simp]: "wp (Some (r, s)) Q = Q r s"
  by (simp add: wp_def)

lemma wp_None [simp]: "\<not> wp None Q"
  by (simp add: wp_def)

lemma wp_bind [simp]:
  "wp (Option.bind m (\<lambda>(r, s). f r s)) Q = wp m (\<lambda>r s. wp (f r s) Q)"
  by (cases m) (auto simp: wp_def split: prod.splits)

lemma wp_if [simp]:
  "wp (if b then m else m') Q = ((b \<longrightarrow> wp m Q) \<and> (\<not> b \<longrightarrow> wp m' Q))"
  by simp

lemma wp_mono: "wp m Q \<Longrightarrow> (\<And>r s. Q r s \<Longrightarrow> R r s) \<Longrightarrow> wp m R"
  by (auto simp: wp_def split: option.splits prod.splits)

lemma wp_conj: "wp m Q \<Longrightarrow> wp m R \<Longrightarrow> wp m (\<lambda>r s. Q r s \<and> R r s)"
  by (auto simp: wp_def split: option.splits prod.splits)

lemma wpD: "wp m Q \<Longrightarrow> \<exists>r s. m = Some (r, s) \<and> Q r s"
  by (auto simp: wp_def split: option.splits prod.splits)

lemma wp_SomeD: "wp m Q \<Longrightarrow> m = Some (r, s) \<Longrightarrow> Q r s"
  by simp

lemma wp_iff: "wp m Q \<longleftrightarrow> (\<exists>r s. m = Some (r, s) \<and> Q r s)"
  by (auto simp: wp_def split: option.splits prod.splits)

section \<open>Loops with a bound\<close>

text \<open>
  \<open>loop n body a s\<close> runs at most \<open>n\<close> iterations of \<open>body\<close>, which answers \<open>Inl a'\<close> to go round again with
  \<open>a'\<close> and \<open>Inr b\<close> to leave with \<open>b\<close>; running out of iterations is \<open>None\<close>.
\<close>

fun loop :: "nat \<Rightarrow> ('a \<Rightarrow> 's \<Rightarrow> (('a + 'b) \<times> 's) option) \<Rightarrow> 'a \<Rightarrow> 's \<Rightarrow> ('b \<times> 's) option" where
  "loop 0 body a s = None"
| "loop (Suc n) body a s =
     (case body a s of
        None \<Rightarrow> None
      | Some (r, s') \<Rightarrow> (case r of Inl a' \<Rightarrow> loop n body a' s' | Inr b \<Rightarrow> Some (b, s')))"

lemma wp_loop:
  assumes "I a s" and "m a s < n"
    and step: "\<And>a s. I a s \<Longrightarrow>
      wp (body a s) (\<lambda>r s'. case r of Inl a' \<Rightarrow> I a' s' \<and> m a' s' < m a s | Inr b \<Rightarrow> Q b s')"
  shows "wp (loop n body a s) Q"
  using assms(1,2)
proof (induction n arbitrary: a s)
  case 0
  then show ?case by simp
next
  case (Suc n)
  obtain r s' where body: "body a s = Some (r, s')"
    and post: "case r of Inl a' \<Rightarrow> I a' s' \<and> m a' s' < m a s | Inr b \<Rightarrow> Q b s'"
    using wpD [OF step [OF Suc.prems(1)]] by blast
  show ?case
  proof (cases r)
    case (Inl a')
    with post have inv: "I a' s'" and less: "m a' s' < m a s" by simp_all
    from less Suc.prems(2) have "m a' s' < n" by simp
    with inv have "wp (loop n body a' s') Q" by (rule Suc.IH)
    with Inl body show ?thesis by simp
  next
    case (Inr b)
    with body post show ?thesis by simp
  qed
qed

text \<open>More iterations never change the result of a loop that has ended.\<close>

lemma loop_mono: "loop n body a s = Some r \<Longrightarrow> n \<le> k \<Longrightarrow> loop k body a s = Some r"
proof (induction n arbitrary: a s k)
  case 0
  then show ?case by simp
next
  case (Suc n)
  then obtain k' where k: "k = Suc k'" and "n \<le> k'" by (cases k) auto
  with Suc show ?case
    by (auto split: option.splits prod.splits sum.splits)
qed

section \<open>Lists\<close>

lemma find_SomeD: "find P xs = Some x \<Longrightarrow> x \<in> set xs \<and> P x"
  by (induction xs) (auto split: if_splits)

text \<open>\<open>segment i j xs\<close> is the run of \<open>xs\<close> from index \<open>i\<close> up to, but not including, \<open>j\<close>.\<close>

definition segment :: "nat \<Rightarrow> nat \<Rightarrow> 'a list \<Rightarrow> 'a list" where
  "segment i j xs = take (j - i) (drop i xs)"

lemma segment_self [simp]: "segment i i xs = []"
  by (simp add: segment_def)

lemma length_segment [simp]: "length (segment i j xs) = min (j - i) (length xs - i)"
  by (simp add: segment_def min.commute)

lemma segment_append:
  assumes "i \<le> j" "j \<le> k"
  shows "segment i j xs @ segment j k xs = segment i k xs"
proof -
  have "k - i = (j - i) + (k - j)" using assms by simp
  then have "segment i k xs = take (j - i) (drop i xs) @ take (k - j) (drop (j - i) (drop i xs))"
    by (simp add: segment_def take_add)
  also have "drop (j - i) (drop i xs) = drop j xs" using assms by simp
  finally show ?thesis by (simp add: segment_def)
qed

lemma segment_Suc: "i < length xs \<Longrightarrow> segment i (Suc i) xs = [xs ! i]"
  by (simp add: segment_def take_Suc_conv_app_nth hd_drop_conv_nth take_Suc)

lemma segment_drop: "i \<le> j \<Longrightarrow> segment i j xs @ drop j xs = drop i xs"
  by (metis append_take_drop_id drop_drop le_add_diff_inverse2 segment_def)

text \<open>The least multiple of an alignment that is not below an offset.\<close>

definition pad_to :: "nat \<Rightarrow> nat \<Rightarrow> nat" where
  "pad_to n a = (n + a - 1) div a * a"

lemma pad_to_ge: "0 < a \<Longrightarrow> n \<le> pad_to n a"
proof -
  assume "0 < a"
  then have "(n + a - 1) mod a < a" by simp
  moreover have "(n + a - 1) div a * a + (n + a - 1) mod a = n + a - 1" by simp
  ultimately show ?thesis using \<open>0 < a\<close> unfolding pad_to_def by linarith
qed

lemma pad_to_less: "0 < a \<Longrightarrow> pad_to n a < n + a"
  using div_times_less_eq_dividend [of "n + a - 1" a] unfolding pad_to_def by linarith

lemma pad_to_dvd: "a dvd pad_to n a"
  by (simp add: pad_to_def)

end
