(* ===== verification/Slop_Support.thy ===== *)
theory Slop_Support
  imports Slop_Prelude
begin

text \<open>
  \<open>src/support\<close> without the hash map: \<open>srcpos.h\<close>, \<open>strview.[ch]\<close>, \<open>diag.[ch]\<close>, \<open>vec.[ch]\<close> and
  \<open>arena.[ch]\<close>. A \<open>StrView\<close> is the string of the bytes it covers. A \<open>Diag\<close> carries the lines the
  pass has printed on stderr, so that what a user sees is part of the model.
\<close>

section \<open>srcpos.h and strview.c\<close>

record srcpos =
  sp_file :: "string option"
  sp_line :: nat
  sp_col :: nat

definition strview_eq :: "string \<Rightarrow> string \<Rightarrow> bool" where
  "strview_eq v cstr \<longleftrightarrow> (if length v \<noteq> length cstr then False else v = cstr)"

definition strview_eq_view :: "string \<Rightarrow> string \<Rightarrow> bool" where
  "strview_eq_view a b \<longleftrightarrow> length a = length b \<and> a = b"

lemma strview_eq_iff [simp, slop_simps]: "strview_eq v c \<longleftrightarrow> v = c"
  by (auto simp: strview_eq_def)

lemma strview_eq_view_iff [simp, slop_simps]: "strview_eq_view a b \<longleftrightarrow> a = b"
  by (auto simp: strview_eq_view_def)

section \<open>diag.c\<close>

definition DIAG_MAX_REPORTED :: nat where "DIAG_MAX_REPORTED = 20"

record diag =
  dg_file :: string
  dg_count :: nat
  dg_reported :: nat
  dg_last_printed :: bool
  dg_stderr :: "string list"  \<comment> \<open>the lines written to stderr so far\<close>

definition diag_init :: "string \<Rightarrow> diag" where
  "diag_init file = \<lparr>dg_file = file, dg_count = 0, dg_reported = 0, dg_last_printed = False,
     dg_stderr = []\<rparr>"

definition diag_line :: "diag \<Rightarrow> srcpos \<Rightarrow> string \<Rightarrow> string \<Rightarrow> string" where
  "diag_line d pos what msg =
     (case sp_file pos of Some f \<Rightarrow> f | None \<Rightarrow> dg_file d) @ '':'' @ dec_of_nat (sp_line pos)
       @ '':'' @ dec_of_nat (sp_col pos) @ '': '' @ what @ '': '' @ msg"

definition diag_cutoff :: "diag \<Rightarrow> string" where
  "diag_cutoff d = dg_file d @ '': too many errors; further diagnostics suppressed''"

definition diag_error :: "diag \<Rightarrow> srcpos \<Rightarrow> string \<Rightarrow> diag" where
  "diag_error d pos msg =
     (let d = d\<lparr>dg_count := dg_count d + 1, dg_last_printed := False\<rparr> in
      if DIAG_MAX_REPORTED \<le> dg_reported d then
        (if dg_reported d = DIAG_MAX_REPORTED
         then d\<lparr>dg_reported := dg_reported d + 1, dg_stderr := dg_stderr d @ [diag_cutoff d]\<rparr>
         else d)
      else d\<lparr>dg_reported := dg_reported d + 1, dg_last_printed := True,
             dg_stderr := dg_stderr d @ [diag_line d pos ''error'' msg]\<rparr>)"

definition diag_note :: "diag \<Rightarrow> srcpos \<Rightarrow> string \<Rightarrow> diag" where
  "diag_note d pos msg =
     (if \<not> dg_last_printed d then d
      else d\<lparr>dg_stderr := dg_stderr d @ [diag_line d pos ''note'' msg]\<rparr>)"

definition diag_error_count :: "diag \<Rightarrow> nat" where
  "diag_error_count d = dg_count d"

lemma diag_error_count_error [simp, slop_simps]:
  "diag_error_count (diag_error d pos msg) = Suc (diag_error_count d)"
  by (simp add: diag_error_count_def diag_error_def Let_def)

lemma diag_error_count_note [simp, slop_simps]:
  "diag_error_count (diag_note d pos msg) = diag_error_count d"
  by (simp add: diag_error_count_def diag_note_def)

lemma diag_error_count_init [simp, slop_simps]: "diag_error_count (diag_init f) = 0"
  by (simp add: diag_error_count_def diag_init_def)

lemma dg_file_diag_error [simp, slop_simps]: "dg_file (diag_error d pos msg) = dg_file d"
  by (simp add: diag_error_def Let_def)

lemma dg_file_diag_note [simp, slop_simps]: "dg_file (diag_note d pos msg) = dg_file d"
  by (simp add: diag_note_def)

text \<open>A pass's reports in order: an error, or a note on the error before it.\<close>

datatype report = Error srcpos string | Note srcpos string

fun diag_report :: "diag \<Rightarrow> report \<Rightarrow> diag" where
  "diag_report d (Error pos msg) = diag_error d pos msg"
| "diag_report d (Note pos msg) = diag_note d pos msg"

definition diag_run :: "diag \<Rightarrow> report list \<Rightarrow> diag" where
  "diag_run d rs = foldl diag_report d rs"

fun is_error :: "report \<Rightarrow> bool" where
  "is_error (Error _ _) = True"
| "is_error (Note _ _) = False"

definition nerrors :: "report list \<Rightarrow> nat" where
  "nerrors rs = length (filter is_error rs)"

text \<open>
  What the header of \<open>diag.h\<close> promises, with no state: report number \<open>k\<close> of a run is printed
  verbatim exactly when it is one of the first twenty errors or a note that follows one of
  them; the twenty-first error prints the cutoff notice in its place; the rest prints nothing.
\<close>

fun printed_as :: "diag \<Rightarrow> nat \<Rightarrow> report \<Rightarrow> string list" where
  "printed_as d n (Error pos msg) =
     (if n < DIAG_MAX_REPORTED then [diag_line d pos ''error'' msg]
      else if n = DIAG_MAX_REPORTED then [diag_cutoff d] else [])"
| "printed_as d n (Note pos msg) =
     (if 0 < n \<and> n \<le> DIAG_MAX_REPORTED then [diag_line d pos ''note'' msg] else [])"

fun printed_from :: "diag \<Rightarrow> nat \<Rightarrow> report list \<Rightarrow> string list" where
  "printed_from d n [] = []"
| "printed_from d n (r # rs) = printed_as d n r @ printed_from d (n + of_bool (is_error r)) rs"

text \<open>The state after \<open>n\<close> errors, whatever was reported.\<close>

definition diag_after :: "nat \<Rightarrow> diag \<Rightarrow> bool" where
  "diag_after n d \<longleftrightarrow> dg_count d = n \<and> dg_reported d = min n (Suc DIAG_MAX_REPORTED) \<and>
     (dg_last_printed d \<longleftrightarrow> 0 < n \<and> n \<le> DIAG_MAX_REPORTED)"

lemma diag_line_cong: "dg_file d = dg_file d' \<Longrightarrow> diag_line d = diag_line d'"
  by (intro ext) (simp add: diag_line_def split: option.splits)

lemma diag_report_after:
  assumes "diag_after n d"
  shows "diag_after (n + of_bool (is_error r)) (diag_report d r)"
    and "dg_stderr (diag_report d r) = dg_stderr d @ printed_as d n r"
    and "dg_file (diag_report d r) = dg_file d"
proof -
  note defs = diag_after_def diag_error_def diag_note_def diag_line_def diag_cutoff_def
    DIAG_MAX_REPORTED_def Let_def
  show "diag_after (n + of_bool (is_error r)) (diag_report d r)"
    using assms by (cases r) (auto simp: defs split: if_splits option.splits)
  show "dg_stderr (diag_report d r) = dg_stderr d @ printed_as d n r"
    using assms by (cases r) (auto simp: defs split: if_splits option.splits)
  show "dg_file (diag_report d r) = dg_file d" by (cases r) simp_all
qed

lemma printed_as_cong: "dg_file d = dg_file d' \<Longrightarrow> printed_as d n r = printed_as d' n r"
  by (cases r) (auto simp: diag_cutoff_def diag_line_cong [of d d'])

lemma printed_from_cong: "dg_file d = dg_file d' \<Longrightarrow> printed_from d n rs = printed_from d' n rs"
  by (induction rs arbitrary: n) (auto simp: printed_as_cong [of d d'])

lemma diag_run_after:
  assumes "diag_after n d"
  shows "diag_after (n + nerrors rs) (diag_run d rs) \<and>
    dg_stderr (diag_run d rs) = dg_stderr d @ printed_from d n rs"
  using assms
proof (induction rs arbitrary: n d)
  case Nil
  then show ?case by (simp add: diag_run_def nerrors_def)
next
  case (Cons r rs)
  note step = diag_report_after [OF Cons.prems, of r]
  have "diag_run d (r # rs) = diag_run (diag_report d r) rs" by (simp add: diag_run_def)
  moreover have "n + nerrors (r # rs) = n + of_bool (is_error r) + nerrors rs"
    by (simp add: nerrors_def)
  ultimately show ?case
    using Cons.IH [OF step(1)] step(2,3)
    by (cases "is_error r") (simp_all add: printed_from_cong [OF step(3)])
qed

lemma diag_after_init: "diag_after 0 (diag_init file)"
  by (simp add: diag_after_def diag_init_def)

text \<open>
  C18. Diagnostics are cut off after twenty errors: for any sequence of reports of a pass, stderr holds the first twenty
  errors verbatim with the notes that follow each of them, then one cutoff line for the twenty-first, then
  nothing, while the count the exit status rests on includes every error.
\<close>
theorem diag_prints_first_twenty:
  "dg_stderr (diag_run (diag_init file) rs) = printed_from (diag_init file) 0 rs
   \<and> diag_error_count (diag_run (diag_init file) rs) = nerrors rs"
  using diag_run_after [OF diag_after_init, of rs "file"]
  by (simp add: diag_after_def diag_error_count_def) (simp add: diag_init_def)

end
