(* ===== verification/Slop_Tokens.thy ===== *)
theory Slop_Tokens
  imports Slop_Support
begin

text \<open>
  The token kinds of \<open>src/lexer/lexer.h\<close>. The header builds the enum, the spelling tables and the
  printable names from three lists; here the three lists are \<open>SLOP_SPECIAL_TOKENS\<close>,
  \<open>SLOP_KEYWORDS\<close> and \<open>SLOP_PUNCT\<close>, in the header's order, and \<open>token_kind\<close> is the enum, split
  into the three families it is made of. The enum's order (which the header's range tests use)
  is \<open>kind_index\<close>, made an instance of the class \<open>linorder\<close>.
\<close>

section \<open>The three lists\<close>

datatype (plugins only: code size) special =
    TOK_EOF | TOK_ERROR | TOK_IDENT | TOK_INT | TOK_FLOAT
  | TOK_CHAR | TOK_STRING

datatype (plugins only: code size) keyword =
    TOK_KW_LET | TOK_KW_FN | TOK_KW_IF | TOK_KW_ELSE | TOK_KW_WHILE
  | TOK_KW_BREAK | TOK_KW_CONTINUE | TOK_KW_RETURN | TOK_KW_STRUCT | TOK_KW_ENUM
  | TOK_KW_EXTERN | TOK_KW_MUT | TOK_KW_AS | TOK_KW_SIZEOF | TOK_KW_MATCH
  | TOK_KW_TRUE | TOK_KW_FALSE | TOK_KW_NULL | TOK_KW_I8 | TOK_KW_U8
  | TOK_KW_I32 | TOK_KW_U32 | TOK_KW_I64 | TOK_KW_U64 | TOK_KW_F32
  | TOK_KW_F64 | TOK_KW_B8 | TOK_KW_B32 | TOK_KW_B64 | TOK_KW_VOID

datatype (plugins only: code size) punct =
    TOK_SHL_EQ | TOK_SHR_EQ | TOK_ELLIPSIS | TOK_AMP_AMP | TOK_PIPE_PIPE
  | TOK_SHL | TOK_SHR | TOK_LE | TOK_GE | TOK_EQ_EQ
  | TOK_BANG_EQ | TOK_PLUS_EQ | TOK_MINUS_EQ | TOK_STAR_EQ | TOK_SLASH_EQ
  | TOK_PERCENT_EQ | TOK_AMP_EQ | TOK_PIPE_EQ | TOK_CARET_EQ | TOK_ARROW
  | TOK_FAT_ARROW | TOK_PLUS | TOK_MINUS | TOK_STAR | TOK_SLASH
  | TOK_PERCENT | TOK_BANG | TOK_AMP | TOK_PIPE | TOK_CARET
  | TOK_TILDE | TOK_LT | TOK_GT | TOK_EQ | TOK_LPAREN
  | TOK_RPAREN | TOK_LBRACE | TOK_RBRACE | TOK_LBRACKET | TOK_RBRACKET
  | TOK_DOT | TOK_COMMA | TOK_SEMI | TOK_COLON

datatype (plugins only: code size) token_kind = Special special | Keyword keyword | Punct punct

definition SLOP_SPECIAL_TOKENS :: "(special \<times> string) list" where
  "SLOP_SPECIAL_TOKENS = [
     (TOK_EOF, ''end of file''), (TOK_ERROR, ''error''), (TOK_IDENT, ''identifier''),
     (TOK_INT, ''int literal''), (TOK_FLOAT, ''float literal''), (TOK_CHAR, ''char literal''),
     (TOK_STRING, ''string literal'')]"

definition SLOP_KEYWORDS :: "(keyword \<times> string) list" where
  "SLOP_KEYWORDS = [
     (TOK_KW_LET, ''let''), (TOK_KW_FN, ''fn''), (TOK_KW_IF, ''if''), (TOK_KW_ELSE, ''else''),
     (TOK_KW_WHILE, ''while''), (TOK_KW_BREAK, ''break''), (TOK_KW_CONTINUE, ''continue''),
     (TOK_KW_RETURN, ''return''), (TOK_KW_STRUCT, ''struct''), (TOK_KW_ENUM, ''enum''),
     (TOK_KW_EXTERN, ''extern''), (TOK_KW_MUT, ''mut''), (TOK_KW_AS, ''as''),
     (TOK_KW_SIZEOF, ''sizeof''), (TOK_KW_MATCH, ''match''), (TOK_KW_TRUE, ''true''),
     (TOK_KW_FALSE, ''false''), (TOK_KW_NULL, ''null''), (TOK_KW_I8, ''i8''),
     (TOK_KW_U8, ''u8''), (TOK_KW_I32, ''i32''), (TOK_KW_U32, ''u32''), (TOK_KW_I64, ''i64''),
     (TOK_KW_U64, ''u64''), (TOK_KW_F32, ''f32''), (TOK_KW_F64, ''f64''), (TOK_KW_B8, ''b8''),
     (TOK_KW_B32, ''b32''), (TOK_KW_B64, ''b64''), (TOK_KW_VOID, ''void'')]"

definition SLOP_PUNCT :: "(punct \<times> string) list" where
  "SLOP_PUNCT = [
     (TOK_SHL_EQ, ''<<=''), (TOK_SHR_EQ, ''>>=''), (TOK_ELLIPSIS, ''...''),
     (TOK_AMP_AMP, ''&&''), (TOK_PIPE_PIPE, ''||''), (TOK_SHL, ''<<''), (TOK_SHR, ''>>''),
     (TOK_LE, ''<=''), (TOK_GE, ''>=''), (TOK_EQ_EQ, ''==''), (TOK_BANG_EQ, ''!=''),
     (TOK_PLUS_EQ, ''+=''), (TOK_MINUS_EQ, ''-=''), (TOK_STAR_EQ, ''*=''),
     (TOK_SLASH_EQ, ''/=''), (TOK_PERCENT_EQ, ''%=''), (TOK_AMP_EQ, ''&=''),
     (TOK_PIPE_EQ, ''|=''), (TOK_CARET_EQ, ''^=''), (TOK_ARROW, ''->''),
     (TOK_FAT_ARROW, ''=>''), (TOK_PLUS, ''+''), (TOK_MINUS, ''-''), (TOK_STAR, ''*''),
     (TOK_SLASH, ''/''), (TOK_PERCENT, ''%''), (TOK_BANG, ''!''), (TOK_AMP, ''&''),
     (TOK_PIPE, ''|''), (TOK_CARET, ''^''), (TOK_TILDE, ''~''), (TOK_LT, ''<''),
     (TOK_GT, ''>''), (TOK_EQ, ''=''), (TOK_LPAREN, ''(''), (TOK_RPAREN, '')''),
     (TOK_LBRACE, ''{''), (TOK_RBRACE, ''}''), (TOK_LBRACKET, ''[''), (TOK_RBRACKET, '']''),
     (TOK_DOT, ''.''), (TOK_COMMA, '',''), (TOK_SEMI, '';''), (TOK_COLON, '':'')]"

section \<open>The enum's order\<close>

definition token_kinds :: "token_kind list" where
  "token_kinds = map (Special \<circ> fst) SLOP_SPECIAL_TOKENS @ map (Keyword \<circ> fst) SLOP_KEYWORDS
     @ map (Punct \<circ> fst) SLOP_PUNCT"

text \<open>\<open>kind_index k\<close> is the C value of the enumerator \<open>k\<close>.\<close>

definition kind_index :: "token_kind \<Rightarrow> nat" where
  "kind_index k = length (takeWhile (\<lambda>x. x \<noteq> k) token_kinds)"

definition kind_names :: "string list" where
  "kind_names = map snd SLOP_SPECIAL_TOKENS @ map snd SLOP_KEYWORDS @ map snd SLOP_PUNCT"

definition token_kind_name :: "token_kind \<Rightarrow> string" where
  "token_kind_name k = kind_names ! kind_index k"

lemma special_listed: "s \<in> set (map fst SLOP_SPECIAL_TOKENS)"
  by (cases s) (simp_all add: SLOP_SPECIAL_TOKENS_def)

lemma keyword_listed: "k \<in> set (map fst SLOP_KEYWORDS)"
  by (cases k) (simp_all add: SLOP_KEYWORDS_def)

lemma punct_listed: "p \<in> set (map fst SLOP_PUNCT)"
  by (cases p) (simp_all add: SLOP_PUNCT_def)

lemma kind_listed: "k \<in> set token_kinds"
proof (cases k)
  case (Special s)
  have "Special s \<in> Special ` set (map fst SLOP_SPECIAL_TOKENS)" using special_listed by (rule imageI)
  with Special show ?thesis by (simp add: token_kinds_def image_image)
next
  case (Keyword w)
  have "Keyword w \<in> Keyword ` set (map fst SLOP_KEYWORDS)" using keyword_listed by (rule imageI)
  with Keyword show ?thesis by (simp add: token_kinds_def image_image)
next
  case (Punct p)
  have "Punct p \<in> Punct ` set (map fst SLOP_PUNCT)" using punct_listed by (rule imageI)
  with Punct show ?thesis by (simp add: token_kinds_def image_image)
qed

lemma kind_index_less: "kind_index k < length token_kinds"
proof -
  obtain ys zs where "token_kinds = ys @ k # zs" and "k \<notin> set ys"
    using kind_listed [of k] by (metis split_list_first)
  moreover from this(2) have "takeWhile (\<lambda>x. x \<noteq> k) (ys @ k # zs) = ys"
    by (induction ys) auto
  ultimately show ?thesis unfolding kind_index_def by (metis length_append less_add_same_cancel1 length_greater_0_conv list.simps(3))
qed

lemma kind_at_index [simp]: "token_kinds ! kind_index k = k"
  using kind_index_less [unfolded kind_index_def]
  by (metis (mono_tags, lifting) kind_index_def nth_length_takeWhile)

lemma kind_index_inject: "kind_index k = kind_index k' \<longleftrightarrow> k = k'"
  by (metis kind_at_index)

instantiation token_kind :: linorder
begin

definition less_eq_token_kind :: "token_kind \<Rightarrow> token_kind \<Rightarrow> bool" where
  "less_eq_token_kind k k' \<longleftrightarrow> kind_index k \<le> kind_index k'"

definition less_token_kind :: "token_kind \<Rightarrow> token_kind \<Rightarrow> bool" where
  "less_token_kind k k' \<longleftrightarrow> kind_index k < kind_index k'"

instance
  by standard (auto simp: less_eq_token_kind_def less_token_kind_def kind_index_inject)

end

definition token_is_keyword :: "token_kind \<Rightarrow> bool" where
  "token_is_keyword k \<longleftrightarrow> k \<ge> Keyword TOK_KW_LET \<and> k \<le> Keyword TOK_KW_VOID"

definition token_is_core_type :: "token_kind \<Rightarrow> bool" where
  "token_is_core_type k \<longleftrightarrow> k \<ge> Keyword TOK_KW_I8 \<and> k \<le> Keyword TOK_KW_VOID"

text \<open>The range tests pick out exactly the families they are named after.\<close>

lemma token_is_keyword_iff: "token_is_keyword k \<longleftrightarrow> (\<exists>w. k = Keyword w)"
proof -
  have "list_all (\<lambda>k. token_is_keyword k = (case k of Keyword w \<Rightarrow> True | _ \<Rightarrow> False)) token_kinds"
    by code_simp
  with kind_listed [of k] show ?thesis
    by (auto simp: list_all_iff split: token_kind.splits)
qed

lemma token_is_core_type_iff:
  "token_is_core_type k \<longleftrightarrow> k \<in> Keyword ` {TOK_KW_I8, TOK_KW_U8, TOK_KW_I32, TOK_KW_U32, TOK_KW_I64,
     TOK_KW_U64, TOK_KW_F32, TOK_KW_F64, TOK_KW_B8, TOK_KW_B32, TOK_KW_B64, TOK_KW_VOID}"
    (is "_ = (k \<in> Keyword ` ?S)")
proof -
  have "list_all (\<lambda>k. token_is_core_type k = (case k of Keyword w \<Rightarrow> w \<in> ?S | _ \<Rightarrow> False)) token_kinds"
    by code_simp
  with kind_listed [of k] show ?thesis
    by (auto simp: list_all_iff split: token_kind.splits)
qed

section \<open>Lookups in the spelling tables\<close>

definition keyword_of :: "string \<Rightarrow> keyword option" where
  "keyword_of s = map_option fst (find (\<lambda>(k, sp). length sp = length s \<and> s = sp) SLOP_KEYWORDS)"

definition punct_at :: "string \<Rightarrow> (punct \<times> string) option" where
  "punct_at rest = find (\<lambda>(k, sp). length sp \<le> length rest \<and> take (length sp) rest = sp) SLOP_PUNCT"

lemma distinct_keywords: "distinct (map snd SLOP_KEYWORDS)"
  by code_simp

lemma keyword_of_iff: "keyword_of s = Some k \<longleftrightarrow> (k, s) \<in> set SLOP_KEYWORDS"
proof
  assume "keyword_of s = Some k"
  then obtain e where e: "find (\<lambda>(k, sp). length sp = length s \<and> s = sp) SLOP_KEYWORDS = Some e" "k = fst e"
    by (auto simp: keyword_of_def)
  from e(1) have "e \<in> set SLOP_KEYWORDS" and "snd e = s"
    using find_SomeD [of _ SLOP_KEYWORDS e] by (fastforce split: prod.splits)+
  with e(2) show "(k, s) \<in> set SLOP_KEYWORDS" by (metis prod.collapse)
next
  assume mem: "(k, s) \<in> set SLOP_KEYWORDS"
  then have "find (\<lambda>(k, sp). length sp = length s \<and> s = sp) SLOP_KEYWORDS \<noteq> None"
    by (auto simp: find_None_iff)
  then obtain e where e: "find (\<lambda>(k, sp). length sp = length s \<and> s = sp) SLOP_KEYWORDS = Some e"
    by blast
  then have "e \<in> set SLOP_KEYWORDS" and "snd e = s"
    using find_SomeD [of _ SLOP_KEYWORDS e] by (fastforce split: prod.splits)+
  with mem have "e = (k, s)"
    using distinct_keywords by (metis distinct_map inj_onD snd_conv)
  with e show "keyword_of s = Some k" by (simp add: keyword_of_def)
qed

lemma keyword_of_None: "keyword_of s = None \<longleftrightarrow> s \<notin> snd ` set SLOP_KEYWORDS"
  by (metis (no_types, lifting) image_iff keyword_of_iff not_None_eq prod.collapse snd_conv)

text \<open>The table lists longer spellings first, so the first hit is the longest one.\<close>

lemma puncts_longest_first: "sorted (rev (map (length \<circ> snd) SLOP_PUNCT))"
  by code_simp

lemma punct_spelling_nonempty: "(p, sp) \<in> set SLOP_PUNCT \<Longrightarrow> sp \<noteq> []"
  by (auto simp: SLOP_PUNCT_def)

lemma punct_spelling_no_newline: "(p, sp) \<in> set SLOP_PUNCT \<Longrightarrow> CHR 0x0A \<notin> set sp"
  by (auto simp: SLOP_PUNCT_def)

lemma punct_at_Some:
  assumes "punct_at rest = Some (p, sp)"
  shows "(p, sp) \<in> set SLOP_PUNCT" and "take (length sp) rest = sp" and "length sp \<le> length rest"
  using assms by (auto simp: punct_at_def find_Some_iff) (metis nth_mem)+

lemma punct_at_longest:
  assumes "punct_at rest = Some (p, sp)" and "(q, sq) \<in> set SLOP_PUNCT"
    and "take (length sq) rest = sq"
  shows "length sq \<le> length sp"
proof -
  obtain i where i: "i < length SLOP_PUNCT" "SLOP_PUNCT ! i = (p, sp)"
    and before: "\<And>j. j < i \<Longrightarrow> \<not> (case SLOP_PUNCT ! j of (k, s) \<Rightarrow> length s \<le> length rest \<and> take (length s) rest = s)"
    using assms(1) by (auto simp: punct_at_def find_Some_iff)
  obtain j where j: "j < length SLOP_PUNCT" "SLOP_PUNCT ! j = (q, sq)"
    using assms(2) by (auto simp: in_set_conv_nth)
  have "length sq \<le> length rest" using assms(3) by (metis length_take min.cobounded1)
  with before [of j] assms(3) j have "i \<le> j" by force
  then have "(map (length \<circ> snd) SLOP_PUNCT) ! j \<le> (map (length \<circ> snd) SLOP_PUNCT) ! i"
    using sorted_rev_nth_mono [OF puncts_longest_first, of i j] j(1) by simp
  with i j show ?thesis by simp
qed

lemma punct_at_None:
  assumes "punct_at rest = None" and "(q, sq) \<in> set SLOP_PUNCT"
  shows "take (length sq) rest \<noteq> sq"
proof
  assume eq: "take (length sq) rest = sq"
  then have "length sq \<le> length rest" by (metis length_take min.cobounded1)
  with assms eq show False by (auto simp: punct_at_def find_None_iff)
qed

end
