(* ===== verification/Slop_Types.thy ===== *)
theory Slop_Types
  imports Slop_Tokens
begin

text \<open>
  \<open>src/sema/types.[ch]\<close>: the resolved types and the table that interns them. A \<open>Ty *\<close> is a reference
  (an index) into the list of the \<open>Ty\<close> objects allocated so far, so that pointer equality is
  equality of references and the fields that later passes assign are list updates. \<open>core\<close> is the
  array of singletons indexed by kind, \<open>derived\<close> the vector of the interned types. A \<open>StrView\<close> is its string, an \<open>Item *\<close> the numbers of its program
  and of the item in it.
\<close>

section \<open>Kinds and objects\<close>

datatype (plugins only: code size) ty_kind =
    TY_VOID | TY_I8 | TY_U8 | TY_I32 | TY_U32 | TY_I64 | TY_U64 | TY_F32 | TY_F64
  | TY_B8 | TY_B32 | TY_B64 | TY_PTR | TY_ARRAY | TY_STRUCT | TY_ENUM
  | TY_UNTYPED_INT | TY_UNTYPED_FLOAT | TY_UNTYPED_BOOL | TY_NULL | TY_POISON

text \<open>The C value of the enumerator.\<close>

fun ty_kind_index :: "ty_kind \<Rightarrow> nat" where
  "ty_kind_index TY_VOID = 0" | "ty_kind_index TY_I8 = 1" | "ty_kind_index TY_U8 = 2"
| "ty_kind_index TY_I32 = 3" | "ty_kind_index TY_U32 = 4" | "ty_kind_index TY_I64 = 5"
| "ty_kind_index TY_U64 = 6" | "ty_kind_index TY_F32 = 7" | "ty_kind_index TY_F64 = 8"
| "ty_kind_index TY_B8 = 9" | "ty_kind_index TY_B32 = 10" | "ty_kind_index TY_B64 = 11"
| "ty_kind_index TY_PTR = 12" | "ty_kind_index TY_ARRAY = 13" | "ty_kind_index TY_STRUCT = 14"
| "ty_kind_index TY_ENUM = 15" | "ty_kind_index TY_UNTYPED_INT = 16"
| "ty_kind_index TY_UNTYPED_FLOAT = 17" | "ty_kind_index TY_UNTYPED_BOOL = 18"
| "ty_kind_index TY_NULL = 19" | "ty_kind_index TY_POISON = 20"

definition TY__COUNT :: nat where "TY__COUNT = 21"

type_synonym tyref = nat

record field_sym =
  fs_name :: string
  fs_type :: "tyref option"
  fs_offset :: u32
  fs_pos :: srcpos

record enum_sym =
  es_name :: string
  es_value :: u64
  es_pos :: srcpos

datatype layout_state = LAYOUT_UNSTARTED | LAYOUT_IN_PROGRESS | LAYOUT_DONE

record ty =
  t_kind :: ty_kind
  t_size :: u32
  t_align :: u32
  t_elem :: "tyref option"
  t_length :: u64
  t_name :: string
  t_pos :: srcpos
  t_fields :: "field_sym list"
  t_state :: layout_state
  t_decl :: "(nat \<times> nat) option"
  t_members :: "enum_sym list"
  t_base :: "tyref option"

record type_table =
  tt_heap :: "ty list"
  tt_core :: "tyref option list"
  tt_derived :: "tyref list"

definition ty_at :: "type_table \<Rightarrow> tyref \<Rightarrow> ty" where
  "ty_at tt r = tt_heap tt ! r"

section \<open>Construction\<close>

definition PTR_SIZE :: u32 where "PTR_SIZE = 8"
definition PTR_ALIGN :: u32 where "PTR_ALIGN = 8"

definition core_layout :: "(ty_kind \<times> u32 \<times> u32) list" where
  "core_layout = [
     (TY_VOID, 0, 1), (TY_I8, 1, 1), (TY_U8, 1, 1), (TY_I32, 4, 4), (TY_U32, 4, 4), (TY_I64, 8, 8),
     (TY_U64, 8, 8), (TY_F32, 4, 4), (TY_F64, 8, 8), (TY_B8, 1, 1), (TY_B32, 4, 4), (TY_B64, 8, 8),
     (TY_UNTYPED_INT, 0, 1), (TY_UNTYPED_FLOAT, 0, 1), (TY_UNTYPED_BOOL, 0, 1),
     (TY_NULL, PTR_SIZE, PTR_ALIGN), (TY_POISON, 0, 1)]"

text \<open>\<open>arena_alloc\<close> zeroes the object; \<open>ty_new\<close> sets the kind, the alignment and the state.\<close>

definition ty_zero :: "ty_kind \<Rightarrow> ty" where
  "ty_zero kind = \<lparr>t_kind = kind, t_size = 0, t_align = 1, t_elem = None, t_length = 0, t_name = [],
     t_pos = \<lparr>sp_file = None, sp_line = 0, sp_col = 0\<rparr>, t_fields = [], t_state = LAYOUT_UNSTARTED,
     t_decl = None, t_members = [], t_base = None\<rparr>"

text \<open>The new object, after the assignments its creator makes to it, and its reference.\<close>

definition ty_new :: "ty \<Rightarrow> type_table \<Rightarrow> tyref \<times> type_table" where
  "ty_new t tt = (length (tt_heap tt), tt\<lparr>tt_heap := tt_heap tt @ [t]\<rparr>)"

definition derived_push :: "tyref \<Rightarrow> type_table \<Rightarrow> type_table" where
  "derived_push r tt = tt\<lparr>tt_derived := tt_derived tt @ [r]\<rparr>"

fun init_core :: "(ty_kind \<times> u32 \<times> u32) list \<Rightarrow> type_table \<Rightarrow> type_table" where
  "init_core [] tt = tt"
| "init_core ((kind, sz, al) # ls) tt =
     (case ty_new ((ty_zero kind)\<lparr>t_size := sz, t_align := al\<rparr>) tt of
        (r, tt) \<Rightarrow> init_core ls (tt\<lparr>tt_core := (tt_core tt)[ty_kind_index kind := Some r]\<rparr>))"

definition types_init :: type_table where
  "types_init = init_core core_layout
     \<lparr>tt_heap = [], tt_core = replicate TY__COUNT None, tt_derived = []\<rparr>"

definition types_free :: "type_table \<Rightarrow> type_table" where
  "types_free tt = tt\<lparr>tt_derived := []\<rparr>"

definition ty_core :: "type_table \<Rightarrow> ty_kind \<Rightarrow> tyref option" where
  "ty_core tt kind = tt_core tt ! ty_kind_index kind"

definition ty_from_token :: "type_table \<Rightarrow> token_kind \<Rightarrow> tyref option" where
  "ty_from_token tt kind =
     (case kind of
        Keyword TOK_KW_VOID \<Rightarrow> ty_core tt TY_VOID
      | Keyword TOK_KW_I8 \<Rightarrow> ty_core tt TY_I8
      | Keyword TOK_KW_U8 \<Rightarrow> ty_core tt TY_U8
      | Keyword TOK_KW_I32 \<Rightarrow> ty_core tt TY_I32
      | Keyword TOK_KW_U32 \<Rightarrow> ty_core tt TY_U32
      | Keyword TOK_KW_I64 \<Rightarrow> ty_core tt TY_I64
      | Keyword TOK_KW_U64 \<Rightarrow> ty_core tt TY_U64
      | Keyword TOK_KW_F32 \<Rightarrow> ty_core tt TY_F32
      | Keyword TOK_KW_F64 \<Rightarrow> ty_core tt TY_F64
      | Keyword TOK_KW_B8 \<Rightarrow> ty_core tt TY_B8
      | Keyword TOK_KW_B32 \<Rightarrow> ty_core tt TY_B32
      | Keyword TOK_KW_B64 \<Rightarrow> ty_core tt TY_B64
      | _ \<Rightarrow> None)"

definition ty_ptr :: "type_table \<Rightarrow> tyref \<Rightarrow> tyref \<times> type_table" where
  "ty_ptr tt elem =
     (case find (\<lambda>d. t_kind (ty_at tt d) = TY_PTR \<and> t_elem (ty_at tt d) = Some elem) (tt_derived tt) of
        Some d \<Rightarrow> (d, tt)
      | None \<Rightarrow>
          (case ty_new ((ty_zero TY_PTR)\<lparr>t_elem := Some elem, t_size := PTR_SIZE, t_align := PTR_ALIGN\<rparr>) tt of
             (t, tt) \<Rightarrow> (t, derived_push t tt)))"

definition ty_array :: "type_table \<Rightarrow> tyref \<Rightarrow> u64 \<Rightarrow> tyref \<times> type_table" where
  "ty_array tt elem len =
     (case find (\<lambda>d. t_kind (ty_at tt d) = TY_ARRAY \<and> t_elem (ty_at tt d) = Some elem
         \<and> t_length (ty_at tt d) = len) (tt_derived tt) of
        Some d \<Rightarrow> (d, tt)
      | None \<Rightarrow>
          (case ty_new ((ty_zero TY_ARRAY)\<lparr>t_elem := Some elem, t_length := len,
               t_size := ucast (len * ucast (t_size (ty_at tt elem))), t_align := t_align (ty_at tt elem)\<rparr>) tt of
             (t, tt) \<Rightarrow> (t, derived_push t tt)))"

definition ty_struct_new :: "type_table \<Rightarrow> string \<Rightarrow> srcpos \<Rightarrow> tyref \<times> type_table" where
  "ty_struct_new tt name pos =
     (case ty_new ((ty_zero TY_STRUCT)\<lparr>t_name := name, t_pos := pos\<rparr>) tt of
        (t, tt) \<Rightarrow> (t, derived_push t tt))"

definition ty_enum_new :: "type_table \<Rightarrow> string \<Rightarrow> tyref \<Rightarrow> srcpos \<Rightarrow> tyref \<times> type_table" where
  "ty_enum_new tt name base pos =
     (case ty_new ((ty_zero TY_ENUM)\<lparr>t_name := name, t_pos := pos, t_base := Some base,
         t_size := t_size (ty_at tt base), t_align := t_align (ty_at tt base), t_state := LAYOUT_DONE\<rparr>) tt of
        (t, tt) \<Rightarrow> (t, derived_push t tt))"

section \<open>Queries\<close>

definition ty_field :: "type_table \<Rightarrow> tyref option \<Rightarrow> string \<Rightarrow> field_sym option" where
  "ty_field tt t name =
     (case t of
        None \<Rightarrow> None
      | Some r \<Rightarrow> if t_kind (ty_at tt r) \<noteq> TY_STRUCT then None
          else find (\<lambda>f. strview_eq_view (fs_name f) name) (t_fields (ty_at tt r)))"

definition ty_is_integer :: "ty \<Rightarrow> bool" where
  "ty_is_integer t \<longleftrightarrow> (case t_kind t of
     TY_I8 \<Rightarrow> True | TY_U8 \<Rightarrow> True | TY_I32 \<Rightarrow> True | TY_U32 \<Rightarrow> True | TY_I64 \<Rightarrow> True | TY_U64 \<Rightarrow> True
   | _ \<Rightarrow> False)"

definition ty_is_signed :: "ty \<Rightarrow> bool" where
  "ty_is_signed t \<longleftrightarrow> t_kind t = TY_I8 \<or> t_kind t = TY_I32 \<or> t_kind t = TY_I64"

definition ty_is_float :: "ty \<Rightarrow> bool" where
  "ty_is_float t \<longleftrightarrow> t_kind t = TY_F32 \<or> t_kind t = TY_F64"

definition ty_is_bool :: "ty \<Rightarrow> bool" where
  "ty_is_bool t \<longleftrightarrow> t_kind t = TY_B8 \<or> t_kind t = TY_B32 \<or> t_kind t = TY_B64"

definition ty_is_numeric :: "ty \<Rightarrow> bool" where
  "ty_is_numeric t \<longleftrightarrow> ty_is_integer t \<or> ty_is_float t \<or> t_kind t = TY_UNTYPED_INT \<or> t_kind t = TY_UNTYPED_FLOAT"

definition ty_is_untyped :: "ty \<Rightarrow> bool" where
  "ty_is_untyped t \<longleftrightarrow> t_kind t = TY_UNTYPED_INT \<or> t_kind t = TY_UNTYPED_FLOAT \<or> t_kind t = TY_UNTYPED_BOOL
     \<or> t_kind t = TY_NULL"

definition ty_is_sized :: "ty \<Rightarrow> bool" where
  "ty_is_sized t \<longleftrightarrow> (case t_kind t of
     TY_VOID \<Rightarrow> False | TY_POISON \<Rightarrow> False | TY_UNTYPED_INT \<Rightarrow> False | TY_UNTYPED_FLOAT \<Rightarrow> False
   | TY_UNTYPED_BOOL \<Rightarrow> False | TY_STRUCT \<Rightarrow> t_state t = LAYOUT_DONE | _ \<Rightarrow> True)"

text \<open>The recursion through an enum's base; a cyclic chain of bases would never return.\<close>

partial_function (option) ty_int_fits :: "type_table \<Rightarrow> tyref \<Rightarrow> u64 \<Rightarrow> bool option" where
  "ty_int_fits tt r v =
     (case t_kind (ty_at tt r) of
        TY_I8 \<Rightarrow> Some (v \<le> 0x7F)
      | TY_U8 \<Rightarrow> Some (v \<le> 0xFF)
      | TY_I32 \<Rightarrow> Some (v \<le> 0x7FFFFFFF)
      | TY_U32 \<Rightarrow> Some (v \<le> 0xFFFFFFFF)
      | TY_I64 \<Rightarrow> Some (v \<le> 0x7FFFFFFFFFFFFFFF)
      | TY_U64 \<Rightarrow> Some True
      | TY_F32 \<Rightarrow> Some True
      | TY_F64 \<Rightarrow> Some True
      | TY_ENUM \<Rightarrow> (case t_base (ty_at tt r) of Some b \<Rightarrow> ty_int_fits tt b v | None \<Rightarrow> None)
      | _ \<Rightarrow> Some False)"

declare ty_int_fits.simps [code]

section \<open>Names\<close>

text \<open>\<open>append\<close>: \<open>buf\<close> is what the buffer of \<open>cap\<close> bytes holds before its terminating NUL.\<close>

definition append_cap :: "nat \<Rightarrow> string \<Rightarrow> string \<Rightarrow> string" where
  "append_cap cap buf s =
     (if cap = 0 \<or> length buf + 1 \<ge> cap then buf else buf @ take (cap - 1 - length buf) s)"

definition core_name :: "ty_kind \<Rightarrow> string" where
  "core_name k = (case k of
     TY_VOID \<Rightarrow> ''void'' | TY_I8 \<Rightarrow> ''i8'' | TY_U8 \<Rightarrow> ''u8'' | TY_I32 \<Rightarrow> ''i32'' | TY_U32 \<Rightarrow> ''u32''
   | TY_I64 \<Rightarrow> ''i64'' | TY_U64 \<Rightarrow> ''u64'' | TY_F32 \<Rightarrow> ''f32'' | TY_F64 \<Rightarrow> ''f64'' | TY_B8 \<Rightarrow> ''b8''
   | TY_B32 \<Rightarrow> ''b32'' | TY_B64 \<Rightarrow> ''b64'' | TY_UNTYPED_INT \<Rightarrow> ''integer literal''
   | TY_UNTYPED_FLOAT \<Rightarrow> ''float literal'' | TY_UNTYPED_BOOL \<Rightarrow> ''bool'' | TY_NULL \<Rightarrow> ''null''
   | _ \<Rightarrow> ''<error>'')"

partial_function (option) render :: "type_table \<Rightarrow> tyref option \<Rightarrow> nat \<Rightarrow> string \<Rightarrow> string option" where
  "render tt t cap buf =
     (case t of
        None \<Rightarrow> Some (append_cap cap buf ''<none>'')
      | Some r \<Rightarrow>
          (case t_kind (ty_at tt r) of
             TY_PTR \<Rightarrow> do { buf \<leftarrow> render tt (t_elem (ty_at tt r)) cap buf; Some (append_cap cap buf ''*'') }
           | TY_ARRAY \<Rightarrow> do {
               buf \<leftarrow> render tt (t_elem (ty_at tt r)) cap buf;
               Some (append_cap cap buf (take 31 (''['' @ dec_of_nat (unat (t_length (ty_at tt r))) @ '']''))) }
           | TY_STRUCT \<Rightarrow> Some (append_cap cap buf (t_name (ty_at tt r)))
           | TY_ENUM \<Rightarrow> Some (append_cap cap buf (t_name (ty_at tt r)))
           | k \<Rightarrow> Some (append_cap cap buf (core_name k))))"

declare render.simps [code]

definition ty_str :: "type_table \<Rightarrow> tyref option \<Rightarrow> nat \<Rightarrow> string option" where
  "ty_str tt t cap = (if cap = 0 then Some [] else render tt t cap [])"

end
