(* ===== verification/Slop_Types_Props.thy ===== *)
theory Slop_Types_Props
  imports Slop_Types
begin

text \<open>
  What the type table guarantees: interning makes reference equality the same as structural equality,
  the literal-range test is exact, a core type's token and singleton correspond, and \<open>ty_str\<close>
  writes a prefix of the type's source spelling that fits the buffer.
\<close>

section \<open>The structural type of a reference\<close>

text \<open>A type as the language means it; a struct or an enum is identified by its declaration.\<close>

datatype stype = SCore ty_kind | SPtr stype | SArr stype u64 | SNamed tyref | SBad

function stype_of :: "ty list \<Rightarrow> tyref \<Rightarrow> stype" where
  "stype_of h r =
     (case t_kind (h ! r) of
        TY_PTR \<Rightarrow> (case t_elem (h ! r) of Some e \<Rightarrow> if e < r then SPtr (stype_of h e) else SBad | None \<Rightarrow> SBad)
      | TY_ARRAY \<Rightarrow> (case t_elem (h ! r) of
            Some e \<Rightarrow> if e < r then SArr (stype_of h e) (t_length (h ! r)) else SBad | None \<Rightarrow> SBad)
      | TY_STRUCT \<Rightarrow> SNamed r
      | TY_ENUM \<Rightarrow> SNamed r
      | k \<Rightarrow> SCore k)"
  by pat_completeness auto
termination
  by (relation "measure snd") auto

declare stype_of.simps [simp del]

section \<open>The invariant\<close>

definition ncore :: nat where "ncore = length core_layout"

definition core_entry :: "ty_kind \<times> u32 \<times> u32 \<Rightarrow> ty" where
  "core_entry l = (ty_zero (fst l))\<lparr>t_size := fst (snd l), t_align := snd (snd l)\<rparr>"

text \<open>
  An interned object at reference \<open>r\<close>: a pointer or an array of an older type, a struct, or an enum
  over a type with a keyword (the first twelve).
\<close>

definition derived_ok :: "ty list \<Rightarrow> tyref \<Rightarrow> bool" where
  "derived_ok h r \<longleftrightarrow> (case t_kind (h ! r) of
     TY_PTR \<Rightarrow> (\<exists>e < r. t_elem (h ! r) = Some e) \<and> t_size (h ! r) = PTR_SIZE \<and> t_align (h ! r) = PTR_ALIGN
   | TY_ARRAY \<Rightarrow> (\<exists>e < r. t_elem (h ! r) = Some e)
   | TY_STRUCT \<Rightarrow> True
   | TY_ENUM \<Rightarrow> (\<exists>b < 12. t_base (h ! r) = Some b \<and> t_size (h ! r) = t_size (h ! b) \<and> t_align (h ! r) = t_align (h ! b)) \<and> t_decl (h ! r) = None
   | _ \<Rightarrow> False)"

definition same_shape :: "ty \<Rightarrow> ty \<Rightarrow> bool" where
  "same_shape a b \<longleftrightarrow> t_kind a = t_kind b \<and> (t_kind a = TY_PTR \<and> t_elem a = t_elem b
     \<or> t_kind a = TY_ARRAY \<and> t_elem a = t_elem b \<and> t_length a = t_length b)"

definition types_ok :: "type_table \<Rightarrow> bool" where
  "types_ok tt \<longleftrightarrow> tt_core tt = tt_core types_init
     \<and> ncore \<le> length (tt_heap tt) \<and> take ncore (tt_heap tt) = map core_entry core_layout
     \<and> tt_derived tt = [ncore..<length (tt_heap tt)]
     \<and> (\<forall>r < length (tt_heap tt). ncore \<le> r \<longrightarrow> derived_ok (tt_heap tt) r)
     \<and> (\<forall>r < length (tt_heap tt). \<forall>r' < length (tt_heap tt). same_shape (tt_heap tt ! r) (tt_heap tt ! r') \<longrightarrow> r = r')"

definition valid :: "type_table \<Rightarrow> tyref \<Rightarrow> bool" where
  "valid tt r \<longleftrightarrow> r < length (tt_heap tt)"

lemma ncore_17 [simp]: "ncore = 17"
  by (simp add: ncore_def core_layout_def)

lemma heap_init: "tt_heap types_init = map core_entry core_layout" "tt_derived types_init = []"
  by (simp_all add: types_init_def core_layout_def ty_new_def core_entry_def)

lemma core_kinds: "r < 17 \<Longrightarrow> t_kind (map core_entry core_layout ! r) \<notin> {TY_PTR, TY_ARRAY, TY_STRUCT, TY_ENUM}"
proof -
  have "list_all (\<lambda>t. t_kind t \<notin> {TY_PTR, TY_ARRAY, TY_STRUCT, TY_ENUM}) (map core_entry core_layout)"
    by (simp add: core_entry_def ty_zero_def core_layout_def)
  then show "r < 17 \<Longrightarrow> ?thesis" by (simp add: list_all_length core_layout_def)
qed

lemma types_ok_init: "types_ok types_init"
  using core_kinds by (auto simp: types_ok_def heap_init same_shape_def core_layout_def)

lemma core_heap: "types_ok tt \<Longrightarrow> r < 17 \<Longrightarrow> tt_heap tt ! r = map core_entry core_layout ! r"
  unfolding types_ok_def by (metis ncore_17 nth_take)

section \<open>Interning\<close>

lemma stype_of_core:
  assumes "types_ok tt" and "r < 17"
  shows "stype_of (tt_heap tt) r = SCore (t_kind (tt_heap tt ! r))"
  using core_kinds [OF assms(2)] core_heap [OF assms]
  by (subst stype_of.simps) (auto split: ty_kind.split)

lemma stype_of_derived:
  assumes "types_ok tt" and "valid tt r" and "17 \<le> r"
  shows "(\<exists>e < r. t_kind (tt_heap tt ! r) = TY_PTR \<and> t_elem (tt_heap tt ! r) = Some e
        \<and> stype_of (tt_heap tt) r = SPtr (stype_of (tt_heap tt) e))
    \<or> (\<exists>e < r. t_kind (tt_heap tt ! r) = TY_ARRAY \<and> t_elem (tt_heap tt ! r) = Some e
        \<and> stype_of (tt_heap tt) r = SArr (stype_of (tt_heap tt) e) (t_length (tt_heap tt ! r)))
    \<or> (t_kind (tt_heap tt ! r) \<in> {TY_STRUCT, TY_ENUM} \<and> stype_of (tt_heap tt) r = SNamed r)"
proof -
  have "derived_ok (tt_heap tt) r" using assms by (simp add: types_ok_def valid_def)
  then consider (ptr) e where "t_kind (tt_heap tt ! r) = TY_PTR" "e < r" "t_elem (tt_heap tt ! r) = Some e"
    | (arr) e where "t_kind (tt_heap tt ! r) = TY_ARRAY" "e < r" "t_elem (tt_heap tt ! r) = Some e"
    | (named) "t_kind (tt_heap tt ! r) \<in> {TY_STRUCT, TY_ENUM}"
    by (auto simp: derived_ok_def split: ty_kind.splits)
  then show ?thesis
  proof cases
    case ptr
    then have "stype_of (tt_heap tt) r = SPtr (stype_of (tt_heap tt) e)" by (subst stype_of.simps) simp
    with ptr show ?thesis by auto
  next
    case arr
    then have "stype_of (tt_heap tt) r = SArr (stype_of (tt_heap tt) e) (t_length (tt_heap tt ! r))"
      by (subst stype_of.simps) simp
    with arr show ?thesis by auto
  next
    case named
    then have "stype_of (tt_heap tt) r = SNamed r" by (subst stype_of.simps) auto
    with named show ?thesis by simp
  qed
qed

lemma core_distinct:
  assumes "types_ok tt" and "r < 17" and "r' < 17" and "t_kind (tt_heap tt ! r) = t_kind (tt_heap tt ! r')"
  shows "r = r'"
proof -
  have "distinct (map t_kind (map core_entry core_layout))"
    by (simp add: core_layout_def core_entry_def ty_zero_def)
  moreover have "length core_layout = 17" by (simp add: core_layout_def)
  moreover have "map t_kind (map core_entry core_layout) ! r = map t_kind (map core_entry core_layout) ! r'"
    using assms(2-4) core_heap [OF assms(1,2)] core_heap [OF assms(1,3)] \<open>length core_layout = 17\<close> by simp
  ultimately show ?thesis
    using assms(2,3) nth_eq_iff_index_eq [of "map t_kind (map core_entry core_layout)" r r'] by simp
qed

lemma stype_of_inject:
  "types_ok tt \<Longrightarrow> valid tt r \<Longrightarrow> valid tt r' \<Longrightarrow> stype_of (tt_heap tt) r = stype_of (tt_heap tt) r' \<Longrightarrow> r = r'"
proof (induction r arbitrary: r' rule: less_induct)
  case (less r)
  note ok = less.prems(1) and v = less.prems(2,3) and eq = less.prems(4)
  have shape: "same_shape (tt_heap tt ! r) (tt_heap tt ! r') \<Longrightarrow> r = r'"
    using ok v by (simp add: types_ok_def valid_def)
  show ?case
  proof (cases "r < 17 \<or> r' < 17")
    case True
    then show ?thesis
      using eq stype_of_core [OF ok] stype_of_derived [OF ok v(1)] stype_of_derived [OF ok v(2)]
        core_distinct [OF ok]
      by (cases "r < 17"; cases "r' < 17") auto
  next
    case False
    then have ge: "17 \<le> r" "17 \<le> r'" by simp_all
    have sub: "e < r \<Longrightarrow> e' < r' \<Longrightarrow> stype_of (tt_heap tt) e = stype_of (tt_heap tt) e' \<Longrightarrow> e = e'" for e e'
      using less.IH [OF _ ok, of e e'] v by (auto simp: valid_def)
    from stype_of_derived [OF ok v(1) ge(1)] stype_of_derived [OF ok v(2) ge(2)] eq sub shape
    show ?thesis by (auto simp: same_shape_def)
  qed
qed

lemma stype_of_append: "r < length h \<Longrightarrow> stype_of (h @ xs) r = stype_of h r"
proof (induction r rule: less_induct)
  case (less r)
  then have "(h @ xs) ! r = h ! r" by (simp add: nth_append)
  with less show ?case
    by (subst (1 2) stype_of.simps) (auto split: ty_kind.split option.split)
qed

text \<open>A table grows: every reference keeps its object.\<close>

definition extends :: "type_table \<Rightarrow> type_table \<Rightarrow> bool" where
  "extends tt tt' \<longleftrightarrow> (\<exists>xs. tt_heap tt' = tt_heap tt @ xs)"

lemma extends_stype: "extends tt tt' \<Longrightarrow> valid tt r \<Longrightarrow> stype_of (tt_heap tt') r = stype_of (tt_heap tt) r"
  by (auto simp: extends_def valid_def stype_of_append)

lemma extends_valid: "extends tt tt' \<Longrightarrow> valid tt r \<Longrightarrow> valid tt' r"
  by (auto simp: extends_def valid_def)

text \<open>The step every constructor makes when the type is new.\<close>

lemma types_ok_add:
  assumes ok: "types_ok tt" and d: "derived_ok (tt_heap tt @ [t]) (length (tt_heap tt))"
    and new: "\<And>r. valid tt r \<Longrightarrow> \<not> same_shape (tt_heap tt ! r) t"
  shows "types_ok (derived_push (length (tt_heap tt)) (tt\<lparr>tt_heap := tt_heap tt @ [t]\<rparr>))"
    (is "types_ok ?tt")
proof -
  have h: "tt_heap ?tt = tt_heap tt @ [t]" by (simp add: derived_push_def)
  have sym: "\<And>r. valid tt r \<Longrightarrow> \<not> same_shape t (tt_heap tt ! r)"
    using new unfolding same_shape_def by metis
  have "derived_ok (tt_heap tt @ [t]) r" if "r < length (tt_heap tt)" "17 \<le> r" for r
  proof -
    have old: "derived_ok (tt_heap tt) r" using ok that by (simp add: types_ok_def)
    have "(tt_heap tt @ [t]) ! b = tt_heap tt ! b" if "b \<le> r" for b
      using that \<open>r < _\<close> by (simp add: nth_append)
    with old that show ?thesis by (auto simp: derived_ok_def split: ty_kind.splits)
  qed
  then have 1: "\<forall>r < length (tt_heap ?tt). ncore \<le> r \<longrightarrow> derived_ok (tt_heap ?tt) r"
    using d by (auto simp: h less_Suc_eq)
  have 2: "\<forall>r < length (tt_heap ?tt). \<forall>r' < length (tt_heap ?tt). same_shape (tt_heap ?tt ! r) (tt_heap ?tt ! r') \<longrightarrow> r = r'"
    using ok new sym by (auto simp: h less_Suc_eq nth_append types_ok_def valid_def)
  show ?thesis
    using ok 1 2 unfolding types_ok_def by (simp add: derived_push_def)
qed

lemma find_derived:
  assumes ok: "types_ok tt" and f: "find (\<lambda>d. P (ty_at tt d)) (tt_derived tt) = r"
  shows "case r of Some d \<Rightarrow> valid tt d \<and> 17 \<le> d \<and> P (ty_at tt d) | None \<Rightarrow> (\<forall>d. valid tt d \<longrightarrow> 17 \<le> d \<longrightarrow> \<not> P (ty_at tt d))"
proof -
  have d: "set (tt_derived tt) = {d. 17 \<le> d \<and> valid tt d}" using ok by (auto simp: types_ok_def valid_def)
  show ?thesis
  proof (cases r)
    case (Some x)
    with f find_SomeD [of "\<lambda>d. P (ty_at tt d)" "tt_derived tt" x] d show ?thesis by auto
  next
    case None
    with f have "\<forall>x \<in> set (tt_derived tt). \<not> P (ty_at tt x)" by (auto simp: find_None_iff)
    with d None show ?thesis by auto
  qed
qed

lemma core_no_shape: "types_ok tt \<Longrightarrow> r < 17 \<Longrightarrow> t_kind (tt_heap tt ! r) \<notin> {TY_PTR, TY_ARRAY}"
  using core_kinds core_heap by auto

text \<open>What a constructor of the table gives its caller.\<close>

definition makes :: "type_table \<Rightarrow> stype \<Rightarrow> tyref \<times> type_table \<Rightarrow> bool" where
  "makes tt s r \<longleftrightarrow> (case r of (p, tt') \<Rightarrow>
     types_ok tt' \<and> extends tt tt' \<and> valid tt' p \<and> stype_of (tt_heap tt') p = s)"

lemma makes_new:
  assumes ok: "types_ok tt" and d: "derived_ok (tt_heap tt @ [t]) (length (tt_heap tt))"
    and new: "\<And>r. valid tt r \<Longrightarrow> \<not> same_shape (tt_heap tt ! r) t"
    and s: "stype_of (tt_heap tt @ [t]) (length (tt_heap tt)) = s"
  shows "makes tt s (case ty_new t tt of (r, tt) \<Rightarrow> (r, derived_push r tt))"
  using types_ok_add [OF ok d new] s
  by (auto simp: makes_def ty_new_def extends_def valid_def derived_push_def)

lemma ty_ptr_makes:
  assumes ok: "types_ok tt" and e: "valid tt e"
  shows "makes tt (SPtr (stype_of (tt_heap tt) e)) (ty_ptr tt e)"
proof (cases "find (\<lambda>d. t_kind (ty_at tt d) = TY_PTR \<and> t_elem (ty_at tt d) = Some e) (tt_derived tt)")
  case (Some d)
  from find_derived [OF ok this] have d: "valid tt d" "17 \<le> d" "t_kind (ty_at tt d) = TY_PTR" "t_elem (ty_at tt d) = Some e"
    by simp_all
  with stype_of_derived [OF ok d(1,2)] Some ok show ?thesis
    by (auto simp: ty_ptr_def makes_def extends_def ty_at_def)
next
  case None
  from find_derived [OF ok this]
  have no: "\<And>d. valid tt d \<Longrightarrow> 17 \<le> d \<Longrightarrow> \<not> (t_kind (ty_at tt d) = TY_PTR \<and> t_elem (ty_at tt d) = Some e)" by simp
  let ?t = "(ty_zero TY_PTR)\<lparr>t_elem := Some e, t_size := PTR_SIZE, t_align := PTR_ALIGN\<rparr>"
  have "ty_ptr tt e = (case ty_new ?t tt of (r, tt) \<Rightarrow> (r, derived_push r tt))"
    using None by (simp add: ty_ptr_def)
  moreover have "\<not> same_shape (tt_heap tt ! r) ?t" if "valid tt r" for r
    using no [OF that] core_no_shape [OF ok, of r] by (cases "r < 17") (auto simp: same_shape_def ty_zero_def ty_at_def)
  moreover have "stype_of (tt_heap tt @ [?t]) (length (tt_heap tt)) = SPtr (stype_of (tt_heap tt) e)"
    using e by (subst stype_of.simps) (simp add: ty_zero_def valid_def stype_of_append)
  ultimately show ?thesis
    using makes_new [OF ok] e by (auto simp: derived_ok_def ty_zero_def valid_def)
qed

lemma ty_array_makes:
  assumes ok: "types_ok tt" and e: "valid tt e"
  shows "makes tt (SArr (stype_of (tt_heap tt) e) n) (ty_array tt e n)"
proof (cases "find (\<lambda>d. t_kind (ty_at tt d) = TY_ARRAY \<and> t_elem (ty_at tt d) = Some e \<and> t_length (ty_at tt d) = n) (tt_derived tt)")
  case (Some d)
  from find_derived [OF ok this] have d: "valid tt d" "17 \<le> d" "t_kind (ty_at tt d) = TY_ARRAY" "t_elem (ty_at tt d) = Some e"
    "t_length (ty_at tt d) = n" by simp_all
  with stype_of_derived [OF ok d(1,2)] Some ok show ?thesis
    by (auto simp: ty_array_def makes_def extends_def ty_at_def)
next
  case None
  from find_derived [OF ok this]
  have no: "\<And>d. valid tt d \<Longrightarrow> 17 \<le> d \<Longrightarrow> \<not> (t_kind (ty_at tt d) = TY_ARRAY \<and> t_elem (ty_at tt d) = Some e \<and> t_length (ty_at tt d) = n)"
    by simp
  let ?t = "(ty_zero TY_ARRAY)\<lparr>t_elem := Some e, t_length := n,
     t_size := ucast (n * ucast (t_size (ty_at tt e))), t_align := t_align (ty_at tt e)\<rparr>"
  have "ty_array tt e n = (case ty_new ?t tt of (r, tt) \<Rightarrow> (r, derived_push r tt))"
    using None by (simp add: ty_array_def)
  moreover have "\<not> same_shape (tt_heap tt ! r) ?t" if "valid tt r" for r
    using no [OF that] core_no_shape [OF ok, of r] by (cases "r < 17") (auto simp: same_shape_def ty_zero_def ty_at_def)
  moreover have "stype_of (tt_heap tt @ [?t]) (length (tt_heap tt)) = SArr (stype_of (tt_heap tt) e) n"
    using e by (subst stype_of.simps) (simp add: ty_zero_def valid_def stype_of_append)
  ultimately show ?thesis
    using makes_new [OF ok] e by (auto simp: derived_ok_def ty_zero_def valid_def)
qed

lemma ty_named_makes:
  assumes ok: "types_ok tt"
  shows "makes tt (SNamed (length (tt_heap tt))) (ty_struct_new tt name pos)"
    and "b < 12 \<Longrightarrow> makes tt (SNamed (length (tt_heap tt))) (ty_enum_new tt name b pos)"
proof -
  have len: "17 \<le> length (tt_heap tt)" using ok by (simp add: types_ok_def)
  show "makes tt (SNamed (length (tt_heap tt))) (ty_struct_new tt name pos)"
    unfolding ty_struct_new_def
    by (rule makes_new [OF ok]) (auto simp: derived_ok_def same_shape_def ty_zero_def stype_of.simps)
  show "makes tt (SNamed (length (tt_heap tt))) (ty_enum_new tt name b pos)" if "b < 12"
    unfolding ty_enum_new_def
    by (rule makes_new [OF ok])
      (use that len in \<open>auto simp: derived_ok_def same_shape_def ty_zero_def stype_of.simps ty_at_def nth_append\<close>)
qed

text \<open>An assignment to a struct under layout.\<close>

lemma types_ok_set:
  assumes ok: "types_ok tt" and v: "valid tt r" and k: "t_kind (ty_at tt r) = TY_STRUCT" "t_kind x = TY_STRUCT"
  shows "types_ok (tt\<lparr>tt_heap := (tt_heap tt)[r := x]\<rparr>)"
proof -
  have r: "17 \<le> r"
    using k(1) core_kinds [of r] core_heap [OF ok, of r] by (cases "r < 17") (auto simp: ty_at_def)
  let ?h = "(tt_heap tt)[r := x]"
  have "take 17 ?h = take 17 (tt_heap tt)" using r by simp
  moreover have "derived_ok ?h i" if "derived_ok (tt_heap tt) i" "i < length (tt_heap tt)" for i
    using that k r by (cases "i = r") (auto simp: derived_ok_def ty_at_def nth_list_update split: ty_kind.splits)
  moreover have "same_shape (?h ! i) (?h ! j) \<Longrightarrow> same_shape (tt_heap tt ! i) (tt_heap tt ! j)" for i j
    using k v by (cases "i = r"; cases "j = r") (auto simp: same_shape_def ty_at_def valid_def)
  ultimately show ?thesis using ok by (simp add: types_ok_def)
qed

text \<open>The members of an enum are written to its type when all are known.\<close>

lemma types_ok_members:
  assumes ok: "types_ok tt" and v: "valid tt r" and k: "t_kind (ty_at tt r) = TY_ENUM"
  shows "types_ok (tt\<lparr>tt_heap := (tt_heap tt)[r := (ty_at tt r)\<lparr>t_members := es\<rparr>]\<rparr>)"
proof -
  have r: "17 \<le> r"
    using k core_kinds [of r] core_heap [OF ok, of r] by (cases "r < 17") (auto simp: ty_at_def)
  let ?h = "(tt_heap tt)[r := (ty_at tt r)\<lparr>t_members := es\<rparr>]"
  have "take 17 ?h = take 17 (tt_heap tt)" using r by simp
  moreover have "derived_ok ?h i" if d: "derived_ok (tt_heap tt) i" "i < length (tt_heap tt)" for i
  proof (cases "i = r")
    case True
    then obtain b where "b < 12" "t_base (tt_heap tt ! r) = Some b" "t_size (tt_heap tt ! r) = t_size (tt_heap tt ! b)"
      "t_align (tt_heap tt ! r) = t_align (tt_heap tt ! b)" "t_decl (tt_heap tt ! r) = None" using d(1) k by (auto simp: derived_ok_def ty_at_def)
    then show ?thesis using True d(2) k r by (auto simp: derived_ok_def ty_at_def intro!: exI [of _ b])
  next
    case False
    then show ?thesis using d r by (auto simp: derived_ok_def nth_list_update split: ty_kind.splits)
  qed
  moreover have "same_shape (?h ! i) (?h ! j) \<Longrightarrow> same_shape (tt_heap tt ! i) (tt_heap tt ! j)" for i j
    using k v by (cases "i = r"; cases "j = r") (auto simp: same_shape_def ty_at_def valid_def)
  ultimately show ?thesis using ok by (simp add: types_ok_def)
qed

text \<open>
  The tables a compilation can reach: the initial one, what the constructors make of one, and what semantic analysis
  writes later into a declared struct (its declaration, fields and layout) and a declared enum (its members).
\<close>

inductive table_reached :: "type_table \<Rightarrow> bool" where
  init: "table_reached types_init"
| ptr: "table_reached tt \<Longrightarrow> valid tt e \<Longrightarrow> table_reached (snd (ty_ptr tt e))"
| array: "table_reached tt \<Longrightarrow> valid tt e \<Longrightarrow> table_reached (snd (ty_array tt e n))"
| struct: "table_reached tt \<Longrightarrow> table_reached (snd (ty_struct_new tt name pos))"
| enum: "table_reached tt \<Longrightarrow> ty_from_token tt k = Some b \<Longrightarrow> table_reached (snd (ty_enum_new tt name b pos))"
| fill: "table_reached tt \<Longrightarrow> valid tt r \<Longrightarrow> t_kind (ty_at tt r) = TY_STRUCT \<Longrightarrow> table_reached (tt\<lparr>tt_heap := (tt_heap tt)
    [r := (ty_at tt r)\<lparr>t_decl := d, t_fields := fs, t_size := sz, t_align := al, t_state := st\<rparr>]\<rparr>)"
| members: "table_reached tt \<Longrightarrow> valid tt r \<Longrightarrow> t_kind (ty_at tt r) = TY_ENUM
    \<Longrightarrow> table_reached (tt\<lparr>tt_heap := (tt_heap tt)[r := (ty_at tt r)\<lparr>t_members := ms\<rparr>]\<rparr>)"

lemma ty_from_token_core: "types_ok tt \<Longrightarrow> ty_from_token tt k = Some b \<Longrightarrow> b < 12"
  by (auto simp: types_ok_def ty_from_token_def ty_core_def types_init_def core_layout_def ty_new_def TY__COUNT_def
      eval_nat_numeral split: token_kind.splits keyword.splits)

lemma makes_ok: "makes tt s r \<Longrightarrow> types_ok (snd r)"
  by (auto simp: makes_def split: prod.splits)

lemma table_reached_ok: "table_reached tt \<Longrightarrow> types_ok tt"
proof (induction rule: table_reached.induct)
  case init
  show ?case by (rule types_ok_init)
next
  case (ptr tt e)
  show ?case by (rule makes_ok [OF ty_ptr_makes [OF ptr(3,2)]])
next
  case (array tt e n)
  show ?case by (rule makes_ok [OF ty_array_makes [OF array(3,2)]])
next
  case (struct tt name pos)
  show ?case by (rule makes_ok [OF ty_named_makes(1) [OF struct(2)]])
next
  case (enum tt k b name pos)
  show ?case by (rule makes_ok [OF ty_named_makes(2) [OF enum(3) ty_from_token_core [OF enum(3,2)]]])
next
  case (fill tt r d fs sz al st)
  then show ?case by (intro types_ok_set) simp_all
next
  case (members tt r ms)
  then show ?case by (intro types_ok_members)
qed

text \<open>A reference is new: it was not one of the table before, and all older references denote what they did.\<close>

definition fresh :: "type_table \<Rightarrow> tyref \<Rightarrow> type_table \<Rightarrow> bool" where
  "fresh tt p tt' \<longleftrightarrow> \<not> valid tt p \<and> valid tt' p \<and> stype_of (tt_heap tt') p = SNamed p
     \<and> (\<forall>r. valid tt r \<longrightarrow> valid tt' r \<and> ty_at tt' r = ty_at tt r \<and> stype_of (tt_heap tt') r = stype_of (tt_heap tt) r)"

lemma named_fresh:
  assumes ok: "types_ok tt"
  shows "case ty_struct_new tt name pos of (p, tt') \<Rightarrow> fresh tt p tt' \<and> ty_at tt' p = (ty_zero TY_STRUCT)\<lparr>t_name := name, t_pos := pos\<rparr>"
    and "b < 12 \<Longrightarrow> case ty_enum_new tt name b pos of (p, tt') \<Rightarrow> fresh tt p tt' \<and> t_kind (ty_at tt' p) = TY_ENUM
      \<and> t_name (ty_at tt' p) = name \<and> t_pos (ty_at tt' p) = pos \<and> t_base (ty_at tt' p) = Some b
      \<and> t_size (ty_at tt' p) = t_size (ty_at tt b) \<and> t_align (ty_at tt' p) = t_align (ty_at tt b)"
proof -
  have f: "fresh tt (length (tt_heap tt)) tt'" if "makes tt (SNamed (length (tt_heap tt))) (length (tt_heap tt), tt')" for tt'
    using that extends_stype [of tt tt'] extends_valid [of tt tt']
    by (auto simp: fresh_def makes_def valid_def extends_def ty_at_def nth_append)
  show "case ty_struct_new tt name pos of (p, tt') \<Rightarrow> fresh tt p tt' \<and> ty_at tt' p = (ty_zero TY_STRUCT)\<lparr>t_name := name, t_pos := pos\<rparr>"
    using ty_named_makes(1) [OF ok, of name pos]
    by (auto simp: ty_struct_new_def ty_new_def derived_push_def ty_at_def intro: f)
  show "case ty_enum_new tt name b pos of (p, tt') \<Rightarrow> fresh tt p tt' \<and> t_kind (ty_at tt' p) = TY_ENUM
      \<and> t_name (ty_at tt' p) = name \<and> t_pos (ty_at tt' p) = pos \<and> t_base (ty_at tt' p) = Some b
      \<and> t_size (ty_at tt' p) = t_size (ty_at tt b) \<and> t_align (ty_at tt' p) = t_align (ty_at tt b)" if "b < 12"
    using ty_named_makes(2) [OF ok that, of name pos]
    by (auto simp: ty_enum_new_def ty_new_def derived_push_def ty_at_def ty_zero_def intro: f)
qed

text \<open>
  C9. Types are interned: in every table a compilation can reach, two references are equal exactly when
  they denote structurally the same type. The pointer to a type, or its array of a length, is a reference to just that
  type, in a table where every older reference still denotes what it did; a struct or an enum over a core type is a new
  reference, different from all others, with the name, position, underlying type, size and alignment it was asked for.
\<close>
theorem types_interned:
  assumes "table_reached tt" and "valid tt a" and "valid tt b"
  shows "(a = b \<longleftrightarrow> stype_of (tt_heap tt) a = stype_of (tt_heap tt) b)
    \<and> (case ty_ptr tt a of (p, tt') \<Rightarrow> stype_of (tt_heap tt') p = SPtr (stype_of (tt_heap tt) a)
         \<and> stype_of (tt_heap tt') b = stype_of (tt_heap tt) b)
    \<and> (case ty_array tt a n of (p, tt') \<Rightarrow> stype_of (tt_heap tt') p = SArr (stype_of (tt_heap tt) a) n
         \<and> stype_of (tt_heap tt') b = stype_of (tt_heap tt) b)
    \<and> (case ty_struct_new tt name pos of (p, tt') \<Rightarrow> fresh tt p tt'
         \<and> ty_at tt' p = (ty_zero TY_STRUCT)\<lparr>t_name := name, t_pos := pos\<rparr>)
    \<and> (case ty_from_token tt k of None \<Rightarrow> True | Some u \<Rightarrow> (case ty_enum_new tt name u pos of (p, tt') \<Rightarrow> fresh tt p tt'
         \<and> t_kind (ty_at tt' p) = TY_ENUM \<and> t_name (ty_at tt' p) = name \<and> t_pos (ty_at tt' p) = pos \<and> t_base (ty_at tt' p) = Some u
         \<and> t_size (ty_at tt' p) = t_size (ty_at tt u) \<and> t_align (ty_at tt' p) = t_align (ty_at tt u)))"
proof -
  have ok: "types_ok tt" using assms(1) by (rule table_reached_ok)
  have "a = b \<longleftrightarrow> stype_of (tt_heap tt) a = stype_of (tt_heap tt) b"
    using stype_of_inject [OF ok assms(2,3)] by blast
  moreover from ty_ptr_makes [OF ok assms(2)] have "case ty_ptr tt a of (p, tt') \<Rightarrow>
      stype_of (tt_heap tt') p = SPtr (stype_of (tt_heap tt) a) \<and> stype_of (tt_heap tt') b = stype_of (tt_heap tt) b"
    by (auto simp: makes_def extends_stype [OF _ assms(3)])
  moreover from ty_array_makes [OF ok assms(2), of n] have "case ty_array tt a n of (p, tt') \<Rightarrow>
      stype_of (tt_heap tt') p = SArr (stype_of (tt_heap tt) a) n \<and> stype_of (tt_heap tt') b = stype_of (tt_heap tt) b"
    by (auto simp: makes_def extends_stype [OF _ assms(3)])
  ultimately show ?thesis
    using named_fresh(1) [OF ok] named_fresh(2) [OF ok ty_from_token_core [OF ok]] by (simp split: option.split)
qed

definition node_pos :: srcpos where
  "node_pos = \<lparr>sp_file = None, sp_line = 1, sp_col = 1\<rparr>"

definition node_table :: type_table where
  "node_table = (let (p, tt) = ty_struct_new types_init ''Node'' node_pos; (q, tt) = ty_ptr tt p in
     tt\<lparr>tt_heap := (tt_heap tt)[p := (ty_at tt p)\<lparr>t_decl := Some (0, 0),
       t_fields := [\<lparr>fs_name = ''next'', fs_type = Some q, fs_offset = 0, fs_pos = node_pos\<rparr>],
       t_size := 8, t_align := 8, t_state := LAYOUT_DONE\<rparr>]\<rparr>)"

text \<open>\<open>struct Node { Node* next; }\<close>: asking for \<open>Node*\<close> again gives the reference of the field.\<close>

theorem types_interned_witness:
  "stype_of (tt_heap (snd (ty_ptr node_table 17))) (fst (ty_ptr node_table 17)) = SPtr (SNamed 17) \<and> (17 :: nat) \<noteq> 18"
proof -
  let ?t0 = "snd (ty_struct_new types_init ''Node'' node_pos)" and ?t1 = "snd (ty_ptr (snd (ty_struct_new types_init ''Node'' node_pos)) 17)"
  have l: "length (tt_heap types_init) = 17" by (simp add: heap_init core_layout_def)
  have s0: "fst (ty_struct_new types_init ''Node'' node_pos) = 17" "valid ?t0 17" "t_kind (ty_at ?t0 17) = TY_STRUCT"
    "length (tt_heap ?t0) = 18" "tt_derived ?t0 = [17]"
    using l by (simp_all add: ty_struct_new_def ty_new_def derived_push_def valid_def ty_at_def nth_append ty_zero_def heap_init(2))
  have s1: "ty_ptr ?t0 17 = (18, ?t1)" "valid ?t1 17" "t_kind (ty_at ?t1 17) = TY_STRUCT" "length (tt_heap ?t1) = 19"
    using s0 l by (auto simp: ty_ptr_def ty_new_def derived_push_def valid_def ty_at_def nth_append)
  have r1: "table_reached ?t1" by (intro table_reached.ptr table_reached.struct table_reached.init s0(2))
  have e: "node_table = ?t1\<lparr>tt_heap := (tt_heap ?t1)[17 := (ty_at ?t1 17)\<lparr>t_decl := Some (0, 0),
       t_fields := [\<lparr>fs_name = ''next'', fs_type = Some 18, fs_offset = 0, fs_pos = node_pos\<rparr>],
       t_size := 8, t_align := 8, t_state := LAYOUT_DONE\<rparr>]\<rparr>"
    using s0(1) arg_cong [OF s1(1), of fst] by (simp add: node_table_def Let_def split_def)
  have r: "table_reached node_table" unfolding e by (rule table_reached.fill [OF r1 s1(2,3)])
  have v: "valid node_table 17" "valid node_table 18" and k: "t_kind (tt_heap node_table ! 17) = TY_STRUCT"
    using s1(3,4) by (simp_all add: e valid_def ty_at_def)
  have "stype_of (tt_heap node_table) 17 = SNamed 17" using k by (subst stype_of.simps) simp
  with types_interned [OF r v, of 0] show ?thesis by (cases "ty_ptr node_table 17") simp
qed

section \<open>Literals\<close>

text \<open>The largest value of an integer kind, from its size and signedness.\<close>

definition int_max :: "ty \<Rightarrow> nat" where
  "int_max t = 2 ^ (8 * unat (t_size t) - (if ty_is_signed t then 1 else 0)) - 1"

lemma int_kinds: "types_ok tt \<Longrightarrow> r < 17 \<Longrightarrow> ty_is_integer (ty_at tt r) \<Longrightarrow>
   (t_kind (ty_at tt r), t_size (ty_at tt r)) \<in> {(TY_I8, 1), (TY_U8, 1), (TY_I32, 4), (TY_U32, 4), (TY_I64, 8), (TY_U64, 8)}"
proof -
  have "list_all (\<lambda>t. ty_is_integer t \<longrightarrow>
     (t_kind t, t_size t) \<in> {(TY_I8, 1), (TY_U8, 1), (TY_I32, 4), (TY_U32, 4), (TY_I64, 8), (TY_U64, 8)}) (map core_entry core_layout)"
    by (simp add: core_layout_def core_entry_def ty_zero_def ty_is_integer_def)
  then show "types_ok tt \<Longrightarrow> r < 17 \<Longrightarrow> ty_is_integer (ty_at tt r) \<Longrightarrow> ?thesis"
    by (simp add: list_all_length core_heap ty_at_def core_layout_def)
qed

lemma ty_int_fits_core:
  assumes "types_ok tt" and "r < 17" and "ty_is_integer (ty_at tt r)"
  shows "ty_int_fits tt r v = Some (unat v \<le> int_max (ty_at tt r))"
proof -
  have "unat v < 2 ^ LENGTH(64)" by (rule unsigned_less)
  then show ?thesis
    using int_kinds [OF assms]
    by (subst ty_int_fits.simps) (auto simp: int_max_def ty_is_signed_def word_le_nat_alt)
qed

lemma ty_int_fits_ok:
  assumes ok: "types_ok tt" and v: "valid tt r"
  shows "(ty_is_integer (ty_at tt r) \<longrightarrow> ty_int_fits tt r v = Some (unat v \<le> int_max (ty_at tt r)))
    \<and> (t_kind (ty_at tt r) = TY_ENUM \<longrightarrow> (\<exists>b. t_base (ty_at tt r) = Some b \<and> ty_int_fits tt r v = ty_int_fits tt b v))
    \<and> ty_int_fits tt r v \<noteq> None"
proof -
  have core: "ty_int_fits tt b v \<noteq> None" if "b < 17" for b
    using core_kinds [OF that] core_heap [OF ok that]
    by (subst ty_int_fits.simps) (auto simp: ty_at_def split: ty_kind.split)
  show ?thesis
  proof (cases "r < 17")
    case True
    then show ?thesis
      using ty_int_fits_core [OF ok True] core [OF True] core_kinds [OF True] core_heap [OF ok True]
      by (auto simp: ty_at_def)
  next
    case False
    then have d: "derived_ok (tt_heap tt) r" using ok v by (simp add: types_ok_def valid_def)
    show ?thesis
    proof (cases "t_kind (ty_at tt r) = TY_ENUM")
      case True
      with d obtain b where b: "b < 12" "t_base (ty_at tt r) = Some b" by (auto simp: derived_ok_def ty_at_def)
      then have "b < 17" by simp
      have "ty_int_fits tt r v = ty_int_fits tt b v" using True b by (subst ty_int_fits.simps) simp
      with True b core [OF \<open>b < 17\<close>] show ?thesis by (auto simp: ty_is_integer_def)
    next
      case False
      with d have "t_kind (ty_at tt r) \<in> {TY_PTR, TY_ARRAY, TY_STRUCT}"
        by (auto simp: derived_ok_def ty_at_def split: ty_kind.splits)
      with False show ?thesis by (subst (3) ty_int_fits.simps) (auto simp: ty_is_integer_def)
    qed
  qed
qed

text \<open>
  C15. The range test for literals is exact: for an integer type, \<open>ty_int_fits\<close> accepts a value exactly when it
  is at most the largest value of a type of that size and signedness, and for an enum it answers as
  for the enum's underlying type; it always returns.
\<close>
theorem ty_int_fits_exact:
  assumes "table_reached tt" and "valid tt r"
  shows "(ty_is_integer (ty_at tt r) \<longrightarrow> ty_int_fits tt r v = Some (unat v \<le> int_max (ty_at tt r)))
    \<and> (t_kind (ty_at tt r) = TY_ENUM \<longrightarrow> (\<exists>b. t_base (ty_at tt r) = Some b \<and> ty_int_fits tt r v = ty_int_fits tt b v))
    \<and> ty_int_fits tt r v \<noteq> None"
  by (rule ty_int_fits_ok [OF table_reached_ok [OF assms(1)] assms(2)])

theorem ty_int_fits_exact_witness:
  "ty_int_fits types_init 1 128 = Some False \<and> ty_int_fits types_init 2 128 = Some True"
proof -
  have v: "valid types_init 1" "valid types_init 2" by (simp_all add: valid_def heap_init core_layout_def)
  have k: "ty_is_integer (ty_at types_init 1)" "ty_is_integer (ty_at types_init 2)"
    "int_max (ty_at types_init 1) = 127" "int_max (ty_at types_init 2) = 255"
    by (simp_all add: ty_at_def heap_init core_layout_def core_entry_def ty_zero_def ty_is_integer_def int_max_def ty_is_signed_def)
  from ty_int_fits_exact [OF table_reached.init v(1), of 128] ty_int_fits_exact [OF table_reached.init v(2), of 128] k
  show ?thesis by simp
qed

section \<open>Tokens\<close>

lemma core_init: "tt_core types_init =
    [Some 0, Some 1, Some 2, Some 3, Some 4, Some 5, Some 6, Some 7, Some 8, Some 9, Some 10, Some 11,
     None, None, None, None, Some 12, Some 13, Some 14, Some 15, Some 16]"
  by (simp add: types_init_def core_layout_def ty_new_def TY__COUNT_def eval_nat_numeral)

lemma ty_core_init: "ty_core types_init k = (case k of
    TY_PTR \<Rightarrow> None | TY_ARRAY \<Rightarrow> None | TY_STRUCT \<Rightarrow> None | TY_ENUM \<Rightarrow> None
  | TY_UNTYPED_INT \<Rightarrow> Some 12 | TY_UNTYPED_FLOAT \<Rightarrow> Some 13 | TY_UNTYPED_BOOL \<Rightarrow> Some 14 | TY_NULL \<Rightarrow> Some 15 | TY_POISON \<Rightarrow> Some 16
  | _ \<Rightarrow> Some (ty_kind_index k))"
  by (cases k) (simp_all add: ty_core_def core_init)

lemma keyword_name: "(w, s) \<in> set SLOP_KEYWORDS \<Longrightarrow> token_kind_name (Keyword w) = s"
proof -
  have "list_all (\<lambda>(w, s). token_kind_name (Keyword w) = s) SLOP_KEYWORDS" by code_simp
  then show "(w, s) \<in> set SLOP_KEYWORDS \<Longrightarrow> ?thesis" by (auto simp: list_all_iff)
qed

text \<open>
  C17. \<open>ty_from_token\<close> gives a type for exactly the core type keywords, and it is the singleton whose spelling is the
  keyword's: the type a program names is the one diagnostics print.
\<close>
theorem ty_from_token_core_types:
  "case ty_from_token types_init k of
     None \<Rightarrow> \<not> token_is_core_type k
   | Some r \<Rightarrow> token_is_core_type k \<and> core_name (t_kind (ty_at types_init r)) = token_kind_name k"
proof -
  note names = keyword_name [of TOK_KW_I8 "''i8''"] keyword_name [of TOK_KW_U8 "''u8''"] keyword_name [of TOK_KW_I32 "''i32''"]
    keyword_name [of TOK_KW_U32 "''u32''"] keyword_name [of TOK_KW_I64 "''i64''"] keyword_name [of TOK_KW_U64 "''u64''"]
    keyword_name [of TOK_KW_F32 "''f32''"] keyword_name [of TOK_KW_F64 "''f64''"] keyword_name [of TOK_KW_B8 "''b8''"]
    keyword_name [of TOK_KW_B32 "''b32''"] keyword_name [of TOK_KW_B64 "''b64''"] keyword_name [of TOK_KW_VOID "''void''"]
  have at: "r < 17 \<Longrightarrow> t_kind (ty_at types_init r) = fst (core_layout ! r)" for r
    using ncore_17 [unfolded ncore_def] by (simp add: ty_at_def heap_init core_entry_def ty_zero_def)
  show ?thesis
  proof (cases k)
    case (Keyword w)
    then show ?thesis
      by (cases w) (simp_all add: ty_from_token_def ty_core_init token_is_core_type_iff image_iff at names SLOP_KEYWORDS_def
          core_layout_def core_name_def)
  qed (simp_all add: ty_from_token_def token_is_core_type_iff image_iff)
qed

section \<open>Names\<close>

text \<open>The spelling of a type in the source's syntax.\<close>

function spelling :: "ty list \<Rightarrow> tyref \<Rightarrow> string" where
  "spelling h r =
     (case t_kind (h ! r) of
        TY_PTR \<Rightarrow> (case t_elem (h ! r) of Some e \<Rightarrow> if e < r then spelling h e @ ''*'' else [] | None \<Rightarrow> [])
      | TY_ARRAY \<Rightarrow> (case t_elem (h ! r) of
            Some e \<Rightarrow> if e < r then spelling h e @ ''['' @ dec_of_nat (unat (t_length (h ! r))) @ '']'' else [] | None \<Rightarrow> [])
      | TY_STRUCT \<Rightarrow> t_name (h ! r)
      | TY_ENUM \<Rightarrow> t_name (h ! r)
      | k \<Rightarrow> core_name k)"
  by pat_completeness auto
termination
  by (relation "measure snd") auto

declare spelling.simps [simp del]

lemma append_cap_take:
  "append_cap cap (take (cap - 1) s) u = take (cap - 1) (s @ u)"
  by (auto simp: append_cap_def min_def)

lemma dec_of_nat_length: "n < 10 ^ k \<Longrightarrow> 0 < k \<Longrightarrow> length (dec_of_nat n) \<le> k"
proof (induction n arbitrary: k rule: dec_of_nat.induct)
  case (1 n)
  show ?case
  proof (cases "n < 10")
    case True
    with 1 show ?thesis by (simp add: dec_of_nat.simps)
  next
    case False
    with 1(2) have "k \<noteq> 1" by auto
    with 1(3) obtain j where k: "k = Suc j" "0 < j" by (cases k) auto
    have "n div 10 < 10 ^ j" using 1(2) k by (simp add: less_mult_imp_div_less mult.commute)
    with 1(1) False k have "length (dec_of_nat (n div 10)) \<le> j" by simp
    with False k show ?thesis by (subst dec_of_nat.simps) simp
  qed
qed

lemma render_spelling:
  assumes "types_ok tt"
  shows "valid tt r \<Longrightarrow> render tt (Some r) cap (take (cap - 1) pre) = Some (take (cap - 1) (pre @ spelling (tt_heap tt) r))"
proof (induction r rule: less_induct)
  case (less r)
  let ?t = "tt_heap tt ! r"
  consider (core) "r < 17" | (ptr) e where "t_kind ?t = TY_PTR" "e < r" "t_elem ?t = Some e"
    | (arr) e where "t_kind ?t = TY_ARRAY" "e < r" "t_elem ?t = Some e" | (named) "t_kind ?t \<in> {TY_STRUCT, TY_ENUM}"
    using stype_of_derived [OF assms less.prems] by (cases "r < 17") auto
  then show ?case
  proof cases
    case core
    then have k: "t_kind ?t \<notin> {TY_PTR, TY_ARRAY, TY_STRUCT, TY_ENUM}" using core_kinds core_heap [OF assms] by auto
    then have "spelling (tt_heap tt) r = core_name (t_kind ?t)" by (subst spelling.simps) (auto split: ty_kind.split)
    with k show ?thesis by (subst render.simps) (auto simp: ty_at_def append_cap_take [unfolded One_nat_def] simp del: take_append split: ty_kind.split)
  next
    case ptr
    have "spelling (tt_heap tt) r = spelling (tt_heap tt) e @ ''*''" using ptr by (subst spelling.simps) simp
    moreover have "render tt (Some e) cap (take (cap - 1) pre) = Some (take (cap - 1) (pre @ spelling (tt_heap tt) e))"
      using less.IH [OF ptr(2)] less.prems ptr(2) by (simp add: valid_def)
    ultimately show ?thesis using ptr by (subst render.simps) (simp add: ty_at_def append_cap_take [unfolded One_nat_def] del: take_append)
  next
    case arr
    have "spelling (tt_heap tt) r = spelling (tt_heap tt) e @ ''['' @ dec_of_nat (unat (t_length ?t)) @ '']''"
      using arr by (subst spelling.simps) simp
    moreover have "render tt (Some e) cap (take (cap - 1) pre) = Some (take (cap - 1) (pre @ spelling (tt_heap tt) e))"
      using less.IH [OF arr(2)] less.prems arr(2) by (simp add: valid_def)
    moreover have "length (dec_of_nat (unat (t_length ?t))) \<le> 20"
      using unsigned_less [of "t_length ?t"] by (intro dec_of_nat_length) (auto intro: less_trans)
    ultimately show ?thesis using arr by (subst render.simps) (simp add: ty_at_def append_cap_take [unfolded One_nat_def] del: take_append)
  next
    case named
    then have "spelling (tt_heap tt) r = t_name ?t" by (subst spelling.simps) auto
    with named show ?thesis by (subst render.simps) (auto simp: ty_at_def append_cap_take [unfolded One_nat_def] del: take_append)
  qed
qed

text \<open>
  C16. \<open>ty_str\<close> always returns, and what it leaves in the buffer is the type's source spelling, cut to the
  bytes the buffer has room for beside the terminating NUL.
\<close>
theorem ty_str_spelling:
  assumes "table_reached tt" and "valid tt r"
  shows "ty_str tt (Some r) cap = Some (take (cap - 1) (spelling (tt_heap tt) r))"
  using render_spelling [OF table_reached_ok [OF assms(1)] assms(2), of cap "[]"] by (simp add: ty_str_def)

theorem ty_str_spelling_witness: "ty_str types_init (Some 16) 6 = Some ''<erro''"
proof -
  have v: "valid types_init 16" by (simp add: valid_def heap_init core_layout_def)
  have "spelling (tt_heap types_init) 16 = ''<error>''"
    by (subst spelling.simps) (simp add: heap_init core_layout_def core_entry_def ty_zero_def core_name_def)
  with ty_str_spelling [OF table_reached.init v, of 6] show ?thesis by simp
qed

end
