(* ===== verification/Slop_Map.thy ===== *)
theory Slop_Map
  imports Slop_Support
begin

text \<open>
  \<open>src/support/map.[ch]\<close>: the open-addressing hash map from names to pointers that holds every
  global name of a compilation. A slot of the key array is \<open>None\<close> when its \<open>data\<close> pointer is
  NULL. Capacity, length and probe indices are 32-bit words with C's wrap-around, the hash is
  64-bit FNV-1a. The locale \<open>name_table\<close> states what a client relies on: a partial function with
  insert-if-absent; its interpretation at the end discharges the laws for the code.
\<close>

section \<open>The code\<close>

definition MAP_INITIAL_CAP :: u32 where "MAP_INITIAL_CAP = 64"

record 'v nmap =
  m_keys :: "string option list"
  m_vals :: "'v option list"
  m_cap :: u32
  m_len :: u32

definition hash_key :: "string \<Rightarrow> u64" where
  "hash_key k = foldl (\<lambda>h c. (h XOR of_char c) * 0x100000001B3) 0xCBF29CE484222325 k"

definition key_eq :: "string \<Rightarrow> string \<Rightarrow> bool" where
  "key_eq a b \<longleftrightarrow> length a = length b \<and> a = b"

definition map_init :: "'v nmap" where
  "map_init = \<lparr>m_keys = [], m_vals = [], m_cap = 0, m_len = 0\<rparr>"

definition map_free :: "'v nmap \<Rightarrow> 'v nmap" where
  "map_free m = map_init"

text \<open>The probe loop of \<open>slot_of\<close>; a full table without the key would keep it going for ever.\<close>

partial_function (option) slot_from :: "string option list \<Rightarrow> u32 \<Rightarrow> string \<Rightarrow> u32 \<Rightarrow> u32 option" where
  "slot_from keys msk key i =
     (case keys ! unat i of
        None \<Rightarrow> Some i
      | Some k \<Rightarrow> if \<not> key_eq k key then slot_from keys msk key ((i + 1) AND msk) else Some i)"

declare slot_from.simps [code]

definition slot_of :: "string option list \<Rightarrow> u32 \<Rightarrow> string \<Rightarrow> u32 option" where
  "slot_of keys cap key =
     (let msk = cap - 1; i = ucast (hash_key key) AND msk in slot_from keys msk key i)"

text \<open>The copy loop of \<open>map_grow\<close>, over the old slots in order.\<close>

fun map_rehash :: "u32 \<Rightarrow> (string option \<times> 'v option) list \<Rightarrow>
    string option list \<Rightarrow> 'v option list \<Rightarrow> (string option list \<times> 'v option list) option" where
  "map_rehash new_cap [] keys vals = Some (keys, vals)"
| "map_rehash new_cap ((None, _) # es) keys vals = map_rehash new_cap es keys vals"
| "map_rehash new_cap ((Some k, v) # es) keys vals =
     do { j \<leftarrow> slot_of keys new_cap k;
          map_rehash new_cap es (keys[unat j := Some k]) (vals[unat j := v]) }"

definition map_grow :: "'v nmap \<Rightarrow> 'v nmap option" where
  "map_grow m =
     (let new_cap = (if m_cap m \<noteq> 0 then m_cap m * 2 else MAP_INITIAL_CAP) in
      do { (keys, vals) \<leftarrow> map_rehash new_cap (zip (m_keys m) (m_vals m))
             (replicate (unat new_cap) None) (replicate (unat new_cap) None);
           Some (m\<lparr>m_keys := keys, m_vals := vals, m_cap := new_cap\<rparr>) })"

definition map_get :: "'v nmap \<Rightarrow> string \<Rightarrow> 'v option option" where
  "map_get m key =
     (if m_len m = 0 then Some None
      else do { i \<leftarrow> slot_of (m_keys m) (m_cap m) key;
                Some (if m_keys m ! unat i \<noteq> None then m_vals m ! unat i else None) })"

definition map_put :: "'v nmap \<Rightarrow> string \<Rightarrow> 'v \<Rightarrow> (bool \<times> 'v nmap) option" where
  "map_put m key v =
     do { m \<leftarrow> (if m_cap m = 0 \<or> (m_len m + 1) * 4 > m_cap m * 3 then map_grow m else Some m);
          i \<leftarrow> slot_of (m_keys m) (m_cap m) key;
          if m_keys m ! unat i \<noteq> None then Some (False, m)
          else Some (True, m\<lparr>m_keys := (m_keys m)[unat i := Some key],
                             m_vals := (m_vals m)[unat i := Some v],
                             m_len := m_len m + 1\<rparr>) }"

definition map_len :: "'v nmap \<Rightarrow> u32" where
  "map_len m = m_len m"

lemma key_eq_iff [simp, slop_simps]: "key_eq a b \<longleftrightarrow> a = b"
  by (auto simp: key_eq_def)

section \<open>Probing\<close>

text \<open>
  The capacity is \<open>2 ^ n\<close>. \<open>home n k\<close> is the slot the hash selects, and probe number \<open>d\<close> looks at
  \<open>probe n k d\<close>.
\<close>

definition home :: "nat \<Rightarrow> string \<Rightarrow> nat" where
  "home n k = unat (hash_key k) mod 2 ^ n"

definition probe :: "nat \<Rightarrow> string \<Rightarrow> nat \<Rightarrow> nat" where
  "probe n k d = (home n k + d) mod 2 ^ n"

lemma probe_less [simp]: "probe n k d < 2 ^ n"
  by (simp add: probe_def)

lemma unat_and_mask:
  assumes "n < 32"
  shows "unat ((x :: u32) AND (2 ^ n - 1)) = unat x mod 2 ^ n"
proof -
  have "x AND (2 ^ n - 1) = take_bit n x" by (simp add: take_bit_eq_mask mask_eq_exp_minus_1)
  also have "unat (take_bit n x) = take_bit n (unat x)" by (rule unsigned_take_bit_eq)
  finally show ?thesis by (simp only: take_bit_eq_mod)
qed

lemma unat_power32:
  assumes "n < 32"
  shows "unat (2 ^ n :: u32) = 2 ^ n"
proof -
  have "unat (2 ^ n :: u32) = unat (of_nat (2 ^ n) :: u32)" by simp
  also have "\<dots> = 2 ^ n"
    using assms by (simp only: unsigned_of_nat) (simp add: take_bit_nat_eq_self)
  finally show ?thesis .
qed

lemma unat_home: 
  assumes "n < 32"
  shows "unat ((ucast (hash_key k) :: u32) AND (2 ^ n - 1)) = home n k"
proof -
  have "(2::nat) ^ n dvd 2 ^ 32" using assms by (intro le_imp_power_dvd) simp
  then show ?thesis
    using assms by (simp add: unat_and_mask home_def unsigned_ucast_eq take_bit_eq_mod mod_mod_cancel)
qed

lemma unat_step:
  assumes "n < 32"
  shows "unat ((i + 1 :: u32) AND (2 ^ n - 1)) = (unat i + 1) mod 2 ^ n"
proof -
  have "(2::nat) ^ n dvd 2 ^ 32" using assms by (intro le_imp_power_dvd) simp
  then show ?thesis
    using assms by (simp add: unat_and_mask unat_word_ariths mod_mod_cancel)
qed

text \<open>The loop stops at the first probe that finds the key or an empty slot.\<close>

lemma slot_from_probe:
  assumes "n < 32" "unat i = probe n key a"
    and "\<forall>d < e. \<exists>k. keys ! probe n key (a + d) = Some k \<and> k \<noteq> key"
    and "keys ! probe n key (a + e) = None \<or> keys ! probe n key (a + e) = Some key"
  shows "\<exists>j. slot_from keys (2 ^ n - 1) key i = Some j \<and> unat j = probe n key (a + e)"
  using assms(2-4)
proof (induction e arbitrary: i a)
  case 0
  then show ?case by (auto simp: slot_from.simps)
next
  case (Suc e)
  let ?i = "(i + 1) AND (2 ^ n - 1)"
  from Suc.prems(2) obtain k where k: "keys ! unat i = Some k" "k \<noteq> key"
    using Suc.prems(1) by fastforce
  have next_i: "unat ?i = probe n key (Suc a)"
    using Suc.prems(1) assms(1) by (simp add: unat_step probe_def mod_simps)
  have "\<forall>d < e. \<exists>k. keys ! probe n key (Suc a + d) = Some k \<and> k \<noteq> key"
    using Suc.prems(2) by (metis Suc_less_eq add_Suc_shift)
  moreover have "keys ! probe n key (Suc a + e) = None \<or> keys ! probe n key (Suc a + e) = Some key"
    using Suc.prems(3) by simp
  ultimately obtain j where j: "slot_from keys (2 ^ n - 1) key ?i = Some j" "unat j = probe n key (Suc a + e)"
    using Suc.IH [OF next_i] by blast
  show ?case using k j by (subst slot_from.simps) simp
qed

text \<open>\<open>finds n keys key d\<close>: probes before number \<open>d\<close> see other keys, probe \<open>d\<close> decides.\<close>

definition finds :: "nat \<Rightarrow> string option list \<Rightarrow> string \<Rightarrow> nat \<Rightarrow> bool" where
  "finds n keys key d \<longleftrightarrow> d < 2 ^ n \<and>
     (\<forall>e < d. keys ! probe n key e \<noteq> None \<and> keys ! probe n key e \<noteq> Some key) \<and>
     (keys ! probe n key d = None \<or> keys ! probe n key d = Some key)"

lemma slot_of_finds:
  assumes "n < 32" "finds n keys key d"
  shows "\<exists>j. slot_of keys (2 ^ n) key = Some j \<and> unat j = probe n key d"
  using slot_from_probe [of n "ucast (hash_key key) AND (2 ^ n - 1)" key 0 d keys] assms
  by (force simp: slot_of_def unat_home finds_def probe_def home_def)


lemma probe_onto:
  assumes "j < 2 ^ n"
  obtains d where "d < 2 ^ n" "probe n key d = j"
proof
  have h: "home n key < 2 ^ n" by (simp add: home_def)
  let ?d = "(j + (2 ^ n - home n key)) mod 2 ^ n"
  show "?d < 2 ^ n" by simp
  have "probe n key ?d = (home n key + (j + (2 ^ n - home n key))) mod 2 ^ n"
    by (simp add: probe_def mod_add_right_eq)
  also have "home n key + (j + (2 ^ n - home n key)) = j + 2 ^ n" using h by simp
  finally show "probe n key ?d = j" using assms by simp
qed

lemma finds_exists:
  assumes "\<exists>j < 2 ^ n. keys ! j = None \<or> keys ! j = Some key"
  shows "\<exists>d. finds n keys key d"
proof -
  let ?P = "\<lambda>d. d < 2 ^ n \<and> (keys ! probe n key d = None \<or> keys ! probe n key d = Some key)"
  from assms obtain j where j: "j < 2 ^ n" "keys ! j = None \<or> keys ! j = Some key" by blast
  obtain d where "?P d" using j by (metis probe_onto)
  then have least: "?P (LEAST d. ?P d)" by (rule LeastI)
  have "keys ! probe n key e \<noteq> None \<and> keys ! probe n key e \<noteq> Some key"
    if "e < (LEAST d. ?P d)" for e
    using not_less_Least [OF that] that least by auto
  with least show ?thesis unfolding finds_def by blast
qed

lemma finds_unique: "finds n keys key d \<Longrightarrow> finds n keys key e \<Longrightarrow> d = e"
  by (metis finds_def linorder_neqE_nat)

section \<open>The table invariant\<close>

text \<open>
  Every stored key is where probing for it ends, and no stored key has a NULL value.
\<close>

definition table :: "nat \<Rightarrow> string option list \<Rightarrow> 'v option list \<Rightarrow> bool" where
  "table n keys vals \<longleftrightarrow> length keys = 2 ^ n \<and> length vals = 2 ^ n \<and>
     (\<forall>j < 2 ^ n. \<forall>k. keys ! j = Some k \<longrightarrow>
        vals ! j \<noteq> None \<and> (\<exists>d. finds n keys k d \<and> probe n k d = j))"

definition used :: "string option list \<Rightarrow> nat" where
  "used keys = length (filter (\<lambda>k. k \<noteq> None) keys)"

text \<open>The partial function a pair of arrays stands for.\<close>

fun tab :: "string option list \<Rightarrow> 'v option list \<Rightarrow> string \<Rightarrow> 'v option" where
  "tab (Some k' # ks) (v # vs) k = (if k' = k then v else tab ks vs k)"
| "tab (None # ks) (v # vs) k = tab ks vs k"
| "tab _ _ k = None"

fun injective_keys :: "string option list \<Rightarrow> bool" where
  "injective_keys [] = True"
| "injective_keys (x # xs) \<longleftrightarrow> injective_keys xs \<and> (x = None \<or> x \<notin> set xs)"

lemma tab_absent: "Some k \<notin> set keys \<Longrightarrow> tab keys vals k = None"
  by (induction keys vals k rule: tab.induct) auto

lemma injective_keysI:
  assumes "\<And>i j. i < length xs \<Longrightarrow> j < length xs \<Longrightarrow> xs ! i \<noteq> None \<Longrightarrow> xs ! i = xs ! j \<Longrightarrow> i = j"
  shows "injective_keys xs"
  using assms
proof (induction xs)
  case Nil
  then show ?case by simp
next
  case (Cons x xs)
  have "injective_keys xs"
  proof (rule Cons.IH)
    fix i j assume "i < length xs" "j < length xs" "xs ! i \<noteq> None" "xs ! i = xs ! j"
    then show "i = j" using Cons.prems [of "Suc i" "Suc j"] by simp
  qed
  moreover have "x = None \<or> x \<notin> set xs"
  proof (rule ccontr)
    assume "\<not> ?thesis"
    then obtain i where "i < length xs" "xs ! i = x" "x \<noteq> None" by (auto simp: in_set_conv_nth)
    then show False using Cons.prems [of 0 "Suc i"] by simp
  qed
  ultimately show ?case by simp
qed

lemma tab_nth:
  assumes "length vals = length keys" "j < length keys" "keys ! j = Some k" "injective_keys keys"
  shows "tab keys vals k = vals ! j"
  using assms
proof (induction keys arbitrary: vals j)
  case Nil
  then show ?case by simp
next
  case (Cons x xs)
  then obtain v vs where vals: "vals = v # vs" by (cases vals) auto
  show ?case
  proof (cases j)
    case 0
    with Cons.prems vals show ?thesis by simp
  next
    case (Suc i)
    with Cons.prems have "Some k \<in> set xs" by (auto intro: nth_mem simp: in_set_conv_nth)
    with Cons.prems have "x \<noteq> Some k" by auto
    moreover have "tab xs vs k = vs ! i"
      using Cons Suc vals by simp
    ultimately show ?thesis using Suc vals by (cases x) auto
  qed
qed

lemma tableD:
  assumes "table n keys vals" "j < 2 ^ n" "keys ! j = Some k"
  shows "vals ! j \<noteq> None" and "\<exists>d. finds n keys k d \<and> probe n k d = j"
  using assms by (simp_all add: table_def)

lemma table_injective:
  assumes "table n keys vals"
  shows "injective_keys keys"
proof (rule injective_keysI)
  fix i j assume ij: "i < length keys" "j < length keys" "keys ! i \<noteq> None" "keys ! i = keys ! j"
  have len: "length keys = 2 ^ n" using assms by (simp add: table_def)
  from ij obtain k where k: "keys ! i = Some k" "keys ! j = Some k" by auto
  obtain d where d: "finds n keys k d" "probe n k d = i"
    using tableD(2) [OF assms _ k(1)] ij len by auto
  obtain e where e: "finds n keys k e" "probe n k e = j"
    using tableD(2) [OF assms _ k(2)] ij len by auto
  show "i = j" using finds_unique [OF d(1) e(1)] d e by simp
qed

lemma table_length: "table n keys vals \<Longrightarrow> length keys = 2 ^ n \<and> length vals = 2 ^ n"
  by (simp add: table_def)

lemma used_update:
  "i < length keys \<Longrightarrow> keys ! i = None \<Longrightarrow> used (keys[i := Some k]) = Suc (used keys)"
proof (induction keys arbitrary: i)
  case Nil
  then show ?case by simp
next
  case (Cons x xs)
  then show ?case by (cases i) (auto simp: used_def)
qed

lemma used_less_free:
  assumes "used keys < length keys"
  shows "\<exists>j < length keys. keys ! j = None"
proof (rule ccontr)
  assume "\<not> ?thesis"
  then have "\<forall>k \<in> set keys. k \<noteq> None" by (auto simp: in_set_conv_nth)
  then have "filter (\<lambda>k. k \<noteq> None) keys = keys" by (simp add: filter_id_conv)
  with assms show False by (simp add: used_def)
qed

lemma used_le: "used keys \<le> length keys"
  by (simp add: used_def)

text \<open>One lookup: \<open>slot_of\<close> returns, and the slot it returns says whether the key is stored.\<close>

lemma slot_of_table:
  assumes "n < 32" "table n keys vals" "used keys < 2 ^ n"
  obtains j d where "slot_of keys (2 ^ n) key = Some j" "unat j = probe n key d" "finds n keys key d"
    "keys ! unat j = None \<longrightarrow> tab keys vals key = None"
    "keys ! unat j \<noteq> None \<longrightarrow> keys ! unat j = Some key \<and> tab keys vals key = vals ! unat j \<and> vals ! unat j \<noteq> None"
proof -
  have len: "length keys = 2 ^ n" "length vals = 2 ^ n" using assms(2) by (simp_all add: table_def)
  with assms(3) used_less_free [of keys] obtain d where d: "finds n keys key d"
    using finds_exists [of n keys key] by auto
  then obtain j where j: "slot_of keys (2 ^ n) key = Some j" "unat j = probe n key d"
    using slot_of_finds assms(1) by blast
  have absent: "tab keys vals key = None" if none: "keys ! unat j = None"
  proof (rule tab_absent)
    show "Some key \<notin> set keys"
    proof
      assume "Some key \<in> set keys"
      then obtain i where i: "i < 2 ^ n" "keys ! i = Some key" using len by (metis in_set_conv_nth)
      obtain e where e: "finds n keys key e" "probe n key e = i" using tableD(2) [OF assms(2) i] by blast
      then have "i = unat j" using finds_unique [OF d e(1)] j by simp
      with none i show False by simp
    qed
  qed
  have present: "keys ! unat j = Some key \<and> tab keys vals key = vals ! unat j \<and> vals ! unat j \<noteq> None"
    if "keys ! unat j \<noteq> None"
  proof -
    have "unat j < 2 ^ n" using j by simp
    moreover have "keys ! unat j = Some key" using d j that by (auto simp: finds_def)
    ultimately show ?thesis
      using tab_nth [of vals keys "unat j" key] tableD(1) [OF assms(2)] len table_injective [OF assms(2)]
      by simp
  qed
  show thesis using that [OF j d] absent present by blast
qed

lemma tab_update_other:
  assumes "length vals = length keys" "j < length keys" "keys ! j = None" "k' \<noteq> k"
  shows "tab (keys[j := Some k]) (vals[j := Some v]) k' = tab keys vals k'"
  using assms
proof (induction keys arbitrary: vals j)
  case Nil
  then show ?case by simp
next
  case (Cons x xs)
  then obtain w ws where vals: "vals = w # ws" by (cases vals) auto
  show ?case
  proof (cases j)
    case 0
    with Cons.prems vals show ?thesis by auto
  next
    case (Suc i)
    with Cons.prems vals have "tab (xs[i := Some k]) (ws[i := Some v]) k' = tab xs ws k'"
      by (intro Cons.IH) simp_all
    with Suc vals show ?thesis by (cases x) simp_all
  qed
qed

text \<open>One insertion into a free slot the probe ended at.\<close>

lemma table_insert:
  assumes tbl: "table n keys vals" and d: "finds n keys key d" and free: "keys ! probe n key d = None"
  defines "p \<equiv> probe n key d"
  shows "table n (keys[p := Some key]) (vals[p := Some v])"
    and "tab (keys[p := Some key]) (vals[p := Some v]) = (tab keys vals)(key \<mapsto> v)"
    and "used (keys[p := Some key]) = Suc (used keys)"
proof -
  have len: "length keys = 2 ^ n" "length vals = 2 ^ n" using tbl by (simp_all add: table_def)
  have p: "p < 2 ^ n" "keys ! p = None" using free by (simp_all add: p_def)
  have keep: "finds n (keys[p := Some key]) k e" if fnd: "finds n keys k e" "keys ! probe n k e \<noteq> None" for k e
  proof -
    have "probe n k e' \<noteq> p" if "e' \<le> e" for e'
    proof -
      have "keys ! probe n k e' \<noteq> None"
        using fnd that unfolding finds_def by (cases "e' = e") auto
      with p(2) show ?thesis by metis
    qed
    then have "keys[p := Some key] ! probe n k e' = keys ! probe n k e'" if "e' \<le> e" for e'
      using that by (metis nth_list_update_neq)
    with fnd show ?thesis by (simp add: finds_def)
  qed
  have "probe n key e \<noteq> p" if "e < d" for e
    using d p that by (auto simp: finds_def)
  then have "keys[p := Some key] ! probe n key e = keys ! probe n key e" if "e < d" for e
    using that by (metis nth_list_update_neq)
  with d p len have new: "finds n (keys[p := Some key]) key d"
    by (auto simp: finds_def p_def [symmetric])
  show tbl': "table n (keys[p := Some key]) (vals[p := Some v])"
    unfolding table_def
  proof (intro conjI allI impI)
    show "length (keys[p := Some key]) = 2 ^ n" "length (vals[p := Some v]) = 2 ^ n" using len by simp_all
    fix j k assume j: "j < 2 ^ n" "keys[p := Some key] ! j = Some k"
    show "vals[p := Some v] ! j \<noteq> None" 
      using j len tbl p by (cases "j = p") (auto simp: table_def)
    show "\<exists>e. finds n (keys[p := Some key]) k e \<and> probe n k e = j"
    proof (cases "j = p")
      case True
      then show ?thesis using new j len p by (auto simp: p_def)
    next
      case False
      then have "keys ! j = Some k" using j by simp
      with tableD(2) [OF tbl j(1)] obtain e where e: "finds n keys k e" "probe n k e = j" by blast
      with \<open>keys ! j = Some k\<close> have "finds n (keys[p := Some key]) k e" by (intro keep) simp_all
      with e show ?thesis by blast
    qed
  qed
  have "tab (keys[p := Some key]) (vals[p := Some v]) key = Some v"
    using tab_nth [of "vals[p := Some v]" "keys[p := Some key]" p key] len p table_injective [OF tbl'] by simp
  then show "tab (keys[p := Some key]) (vals[p := Some v]) = (tab keys vals)(key \<mapsto> v)"
    using tab_update_other [of vals keys p _ key v] len p by (auto simp: fun_eq_iff)
  show "used (keys[p := Some key]) = Suc (used keys)"
    using p len by (intro used_update) simp_all
qed


section \<open>Growing, inserting, looking up\<close>

lemma tab_Some_set: "tab keys vals k = Some v \<Longrightarrow> Some k \<in> set keys"
  by (metis option.distinct(1) tab_absent)

text \<open>
  Rehashing a list of old slots into a table with room for them: the loop returns, the table
  invariant holds, and the new table maps what the old slots mapped on top of what it held.
\<close>

lemma map_rehash_table:
  assumes "n < 32" "table n keys vals" "used keys + used (map fst es) < 2 ^ n"
    and "injective_keys (map fst es)" "\<forall>(k, v) \<in> set es. k \<noteq> None \<longrightarrow> v \<noteq> None \<and> k \<notin> set keys"
  shows "\<exists>keys' vals'. map_rehash (2 ^ n) es keys vals = Some (keys', vals') \<and> table n keys' vals' \<and>
    used keys' = used keys + used (map fst es) \<and>
    tab keys' vals' = tab keys vals ++ tab (map fst es) (map snd es)"
  using assms
proof (induction es arbitrary: keys vals)
  case Nil
  then show ?case by (simp add: used_def fun_eq_iff map_add_def)
next
  case (Cons e es)
  obtain ko v where e: "e = (ko, v)" by (cases e)
  show ?case
  proof (cases ko)
    case None
    have "used (map fst (e # es)) = used (map fst es)" using e None by (simp add: used_def)
    moreover have "tab (map fst (e # es)) (map snd (e # es)) = tab (map fst es) (map snd es)"
      using e None by (simp add: fun_eq_iff)
    ultimately show ?thesis using Cons.IH [OF Cons.prems(1,2)] Cons.prems e None by simp
  next
    case (Some k)
    note prems = Cons.prems [unfolded e Some]
    from prems(5) obtain w where v: "v = Some w" by auto
    have fresh: "Some k \<notin> set keys" "Some k \<notin> set (map fst es)" using prems by auto
    have used_Cons: "used (map fst ((Some k, v) # es)) = Suc (used (map fst es))" by (simp add: used_def)
    have "used keys < 2 ^ n" using prems(3) by simp
    then obtain j d where j: "slot_of keys (2 ^ n) k = Some j" "unat j = probe n k d" "finds n keys k d"
      "keys ! unat j \<noteq> None \<longrightarrow> keys ! unat j = Some k"
      using slot_of_table [OF prems(1,2)] by metis
    have "unat j < length keys" using j(2) prems(2) by (simp add: table_def)
    with fresh(1) j(4) have free: "keys ! probe n k d = None" using j(2) nth_mem by metis
    note ins = table_insert(1,2) [OF prems(2) j(3) free, where v = w, folded j(2), folded v]
      table_insert(3) [OF prems(2) j(3) free, folded j(2)]
    have fresh_es: "v' \<noteq> None \<and> k' \<notin> set (keys[unat j := Some k])"
      if "(k', v') \<in> set es" "k' \<noteq> None" for k' v'
    proof -
      have "v' \<noteq> None \<and> k' \<notin> set keys" using prems(5) that by auto
      moreover have "k' \<noteq> Some k" using that fresh(2) by force
      ultimately show ?thesis using set_update_subset_insert [of keys "unat j" "Some k"] by blast
    qed
    have "\<forall>(k', v') \<in> set es. k' \<noteq> None \<longrightarrow> v' \<noteq> None \<and> k' \<notin> set (keys[unat j := Some k])"
      using fresh_es by blast
    moreover have "used (keys[unat j := Some k]) + used (map fst es) < 2 ^ n"
      using prems(3) ins(3) used_Cons by simp
    moreover have "injective_keys (map fst es)" using prems(4) by simp
    ultimately obtain keys' vals' where IH: "map_rehash (2 ^ n) es (keys[unat j := Some k]) (vals[unat j := v]) = Some (keys', vals')"
      "table n keys' vals'" "used keys' = used (keys[unat j := Some k]) + used (map fst es)"
      "tab keys' vals' = tab (keys[unat j := Some k]) (vals[unat j := v]) ++ tab (map fst es) (map snd es)"
      using Cons.IH [OF prems(1) ins(1)] by blast
    moreover have "tab keys vals ++ tab (map fst ((Some k, v) # es)) (map snd ((Some k, v) # es))
        = tab (keys[unat j := Some k]) (vals[unat j := v]) ++ tab (map fst es) (map snd es)"
      using tab_absent [OF fresh(2), of "map snd es"] ins(2) v
      by (auto simp: fun_eq_iff map_add_def split: option.splits)
    ultimately show ?thesis unfolding e Some using j(1) ins(3) used_Cons by (simp del: tab.simps)
  qed
qed

text \<open>
  The invariant of a map: no table before the first insertion, then \<open>2 ^ n\<close> slots of which at
  most three quarters are taken. \<open>MAP_ROOM\<close> is the number of names up to which no 32-bit
  computation of the load factor wraps.
\<close>

definition map_ok :: "'v nmap \<Rightarrow> bool" where
  "map_ok m \<longleftrightarrow>
     (if m_cap m = 0 then m_keys m = [] \<and> m_vals m = [] \<and> m_len m = 0
      else \<exists>n. 6 \<le> n \<and> n \<le> 30 \<and> m_cap m = 2 ^ n \<and> table n (m_keys m) (m_vals m) \<and>
             unat (m_len m) = used (m_keys m) \<and> 4 * used (m_keys m) \<le> 3 * 2 ^ n)"

definition map_abs :: "'v nmap \<Rightarrow> string \<Rightarrow> 'v option" where
  "map_abs m = tab (m_keys m) (m_vals m)"

definition MAP_ROOM :: nat where "MAP_ROOM = 3 * 2 ^ 28"

lemma table_empty: "table n (replicate (2 ^ n) None) (replicate (2 ^ n) None)"
  by (simp add: table_def)

lemma used_empty [simp]: "used (replicate n None) = 0"
  by (simp add: used_def)

lemma tab_empty [simp]: "tab (replicate n None) vals = Map.empty"
  by (rule ext) (simp add: tab_absent)

lemma power32_ne_0: "n < 32 \<Longrightarrow> (2 ^ n :: u32) \<noteq> 0"
  by (metis unat_power32 unat_0 power_not_zero zero_neq_numeral)

lemma table_rehash:
  assumes "n < 32" "table n' keys vals" "used keys < 2 ^ n"
  shows "\<exists>keys' vals'. map_rehash (2 ^ n) (zip keys vals) (replicate (2 ^ n) None) (replicate (2 ^ n) None)
      = Some (keys', vals') \<and> table n keys' vals' \<and> used keys' = used keys \<and> tab keys' vals' = tab keys vals"
proof -
  have len: "length keys = length vals" using assms(2) by (simp add: table_def)
  have "\<forall>(k, v) \<in> set (zip keys vals). k \<noteq> None \<longrightarrow> v \<noteq> None \<and> k \<notin> set (replicate (2 ^ n) (None :: string option))"
    using tableD(1) [OF assms(2)] assms(2) by (auto simp: set_zip table_def)
  then show ?thesis
    using map_rehash_table [OF assms(1) table_empty, of "zip keys vals"] assms(3) len
      table_injective [OF assms(2)] by simp
qed

lemma map_grow_ok:
  assumes "map_ok m" "m_cap m = 0 \<or> m_cap m \<noteq> 2 ^ 30"
  obtains m' n where "map_grow m = Some m'" "map_ok m'" "map_abs m' = map_abs m" "m_len m' = m_len m"
    "m_cap m' = 2 ^ n" "6 \<le> n" "n \<le> 30" "m_cap m' \<noteq> 0"
    "m_cap m = 0 \<longrightarrow> n = 6" "m_cap m \<noteq> 0 \<longrightarrow> m_cap m = 2 ^ (n - 1)"
proof (cases "m_cap m = 0")
  case True
  with assms(1) have m: "m_keys m = []" "m_vals m = []" "m_len m = 0" by (simp_all add: map_ok_def)
  let ?m = "m\<lparr>m_keys := replicate (2 ^ 6) None, m_vals := replicate (2 ^ 6) None, m_cap := 2 ^ 6\<rparr>"
  have grow: "map_grow m = Some ?m" using True m by (simp add: map_grow_def MAP_INITIAL_CAP_def)
  have "map_ok ?m"
    using m table_empty [of 6] unfolding map_ok_def by (auto intro!: exI [of _ 6] simp: used_def)
  moreover have "map_abs ?m = map_abs m" by (simp add: map_abs_def m fun_eq_iff tab_absent)
  ultimately show ?thesis using that [OF grow, of 6] True by simp
next
  case False
  with assms(1) obtain n where n: "6 \<le> n" "n \<le> 30" "m_cap m = 2 ^ n" "table n (m_keys m) (m_vals m)"
    "unat (m_len m) = used (m_keys m)" "4 * used (m_keys m) \<le> 3 * 2 ^ n"
    by (auto simp: map_ok_def)
  with assms(2) False have lt: "n < 30" by (metis le_neq_implies_less)
  have cap: "m_cap m * 2 = 2 ^ Suc n" using n(3) by (simp add: mult.commute)
  have "0 < (2::nat) ^ n" by simp
  with n(6) have "used (m_keys m) < 2 ^ Suc n" unfolding power_Suc by linarith
  then obtain keys vals where re: "map_rehash (2 ^ Suc n) (zip (m_keys m) (m_vals m))
      (replicate (2 ^ Suc n) None) (replicate (2 ^ Suc n) None) = Some (keys, vals)"
    "table (Suc n) keys vals" "used keys = used (m_keys m)" "tab keys vals = tab (m_keys m) (m_vals m)"
    using table_rehash [OF _ n(4), of "Suc n"] lt by auto
  let ?m = "m\<lparr>m_keys := keys, m_vals := vals, m_cap := 2 ^ Suc n\<rparr>"
  have "unat (2 ^ Suc n :: u32) = 2 ^ Suc n" using lt by (intro unat_power32) simp
  then have grow: "map_grow m = Some ?m" using False re(1) by (simp add: map_grow_def cap del: power_Suc)
  have "m_cap ?m \<noteq> 0" using power32_ne_0 [of "Suc n"] lt by simp
  moreover have "map_ok ?m"
    using \<open>m_cap ?m \<noteq> 0\<close> n lt re unfolding map_ok_def by (auto intro!: exI [of _ "Suc n"])
  ultimately show ?thesis
    using that [OF grow, of "Suc n"] n lt re(4) False by (simp add: map_abs_def)
qed


text \<open>The three operations against the partial function.\<close>

lemma map_ok_init: "map_ok map_init" "map_abs map_init = Map.empty"
  by (auto simp: map_ok_def map_init_def map_abs_def fun_eq_iff)

lemma map_okE:
  assumes "map_ok m" "m_cap m \<noteq> 0"
  obtains n where "6 \<le> n" "n \<le> 30" "m_cap m = 2 ^ n" "table n (m_keys m) (m_vals m)"
    "unat (m_len m) = used (m_keys m)" "4 * used (m_keys m) \<le> 3 * 2 ^ n" "used (m_keys m) < 2 ^ n"
proof -
  from assms obtain n where n: "6 \<le> n" "n \<le> 30" "m_cap m = 2 ^ n" "table n (m_keys m) (m_vals m)"
    "unat (m_len m) = used (m_keys m)" "4 * used (m_keys m) \<le> 3 * 2 ^ n"
    by (auto simp: map_ok_def)
  have "0 < (2::nat) ^ n" by simp
  with n(6) have "used (m_keys m) < 2 ^ n" by linarith
  with n show thesis by (rule that)
qed

lemma map_get_abs:
  assumes "map_ok m"
  shows "map_get m k = Some (map_abs m k)"
proof (cases "m_len m = 0")
  case True
  have "map_abs m k = None"
  proof (cases "m_cap m = 0")
    case True
    with assms show ?thesis by (simp add: map_ok_def map_abs_def)
  next
    case False
    with assms \<open>m_len m = 0\<close> have "used (m_keys m) = 0" by (auto simp: map_ok_def)
    then have "Some k \<notin> set (m_keys m)" by (auto simp: used_def filter_empty_conv)
    then show ?thesis by (simp add: map_abs_def tab_absent)
  qed
  with True show ?thesis by (simp add: map_get_def)
next
  case False
  with assms have "m_cap m \<noteq> 0" by (auto simp: map_ok_def)
  with assms obtain n where n: "n \<le> 30" "m_cap m = 2 ^ n" "table n (m_keys m) (m_vals m)"
    "used (m_keys m) < 2 ^ n" by (metis map_okE)
  obtain j d where "slot_of (m_keys m) (2 ^ n) k = Some j"
    "m_keys m ! unat j = None \<longrightarrow> map_abs m k = None"
    "m_keys m ! unat j \<noteq> None \<longrightarrow> map_abs m k = m_vals m ! unat j"
    using slot_of_table [OF _ n(3,4), of k] n(1) unfolding map_abs_def by force
  with False n(2) show ?thesis by (auto simp: map_get_def)
qed

lemma unat_load:
  assumes "unat (l :: u32) < MAP_ROOM" "n \<le> 30"
  shows "(l + 1) * 4 > (2 ^ n :: u32) * 3 \<longleftrightarrow> 4 * (unat l + 1) > 3 * 2 ^ n"
proof -
  have "(2::nat) ^ n \<le> 2 ^ 30" using assms(2) by (intro power_increasing) simp_all
  then have "unat ((2 ^ n :: u32) * 3) = 3 * 2 ^ n"
    using assms(2) by (simp add: unat_mult_lem [THEN iffD1] unat_power32 unat_word_ariths)
  moreover have "unat ((l + 1) * 4) = 4 * (unat l + 1)"
    using assms(1) by (simp add: unat_word_ariths MAP_ROOM_def)
  ultimately show ?thesis by (simp add: word_less_nat_alt)
qed


text \<open>Inserting once the table has room: the slot found is free exactly when the key is new.\<close>

lemma map_insert_ok:
  assumes "map_ok m" "m_cap m \<noteq> 0" "4 * (unat (m_len m) + 1) \<le> 3 * unat (m_cap m)"
  shows "\<exists>j. slot_of (m_keys m) (m_cap m) k = Some j \<and>
    (if map_abs m k = None
     then m_keys m ! unat j = None \<and>
       (let m' = m\<lparr>m_keys := (m_keys m)[unat j := Some k], m_vals := (m_vals m)[unat j := Some v],
                     m_len := m_len m + 1\<rparr>
        in map_ok m' \<and> map_abs m' = (map_abs m)(k \<mapsto> v) \<and> unat (m_len m') = Suc (unat (m_len m)))
     else m_keys m ! unat j \<noteq> None)"
proof -
  obtain n where n: "6 \<le> n" "n \<le> 30" "m_cap m = 2 ^ n" "table n (m_keys m) (m_vals m)"
    "unat (m_len m) = used (m_keys m)" "used (m_keys m) < 2 ^ n"
    using map_okE [OF assms(1,2)] by metis
  have n32: "n < 32" using n(2) by simp
  obtain j d where j: "slot_of (m_keys m) (2 ^ n) k = Some j" "unat j = probe n k d" "finds n (m_keys m) k d"
    "m_keys m ! unat j = None \<longrightarrow> map_abs m k = None"
    "m_keys m ! unat j \<noteq> None \<longrightarrow> map_abs m k = m_vals m ! unat j \<and> m_vals m ! unat j \<noteq> None"
    using slot_of_table [OF n32 n(4,6), of k] unfolding map_abs_def by metis
  show ?thesis
  proof (cases "map_abs m k = None")
    case True
    with j have free: "m_keys m ! probe n k d = None" by auto
    note ins = table_insert(1,2) [OF n(4) j(3) free, where v = v, folded j(2)]
      table_insert(3) [OF n(4) j(3) free, folded j(2)]
    have cap: "unat (m_cap m) = 2 ^ n" using n(2,3) by (simp add: unat_power32)
    have "(2::nat) ^ n \<le> 2 ^ 30" using n(2) by (intro power_increasing) simp_all
    with n(6) n(5) have len: "unat (m_len m + 1) = Suc (used (m_keys m))"
      by (simp add: unat_word_ariths)
    have "4 * Suc (used (m_keys m)) \<le> 3 * 2 ^ n" using assms(3) cap n(5) by simp
    then have "map_ok (m\<lparr>m_keys := (m_keys m)[unat j := Some k], m_vals := (m_vals m)[unat j := Some v],
        m_len := m_len m + 1\<rparr>)"
      using assms(2) n len ins(1,3) unfolding map_ok_def by (auto intro!: exI [of _ n])
    then show ?thesis
      using True j(1,2) n(3,5) free len ins(2) by (simp add: map_abs_def Let_def)
  next
    case False
    with j n(3) show ?thesis by auto
  qed
qed

text \<open>The load-factor test of \<open>map_put\<close>: afterwards there is room for one more key.\<close>

lemma map_room_ok:
  assumes ok: "map_ok m" and room: "unat (m_len m) < MAP_ROOM"
  obtains m1 where
    "(if m_cap m = 0 \<or> (m_len m + 1) * 4 > m_cap m * 3 then map_grow m else Some m) = Some m1"
    "map_ok m1" "map_abs m1 = map_abs m" "m_len m1 = m_len m" "m_cap m1 \<noteq> 0"
    "4 * (unat (m_len m1) + 1) \<le> 3 * unat (m_cap m1)"
proof (cases "m_cap m = 0")
  case True
  with ok have "m_len m = 0" by (simp add: map_ok_def)
  obtain m1 n where "map_grow m = Some m1" "map_ok m1" "map_abs m1 = map_abs m" "m_len m1 = m_len m"
    "m_cap m1 = 2 ^ n" "m_cap m1 \<noteq> 0" "n = 6"
    using map_grow_ok [OF ok] True by metis
  with True that [of m1] \<open>m_len m = 0\<close> show thesis by simp
next
  case False
  obtain n where n: "6 \<le> n" "n \<le> 30" "m_cap m = 2 ^ n" "unat (m_len m) = used (m_keys m)"
    "4 * used (m_keys m) \<le> 3 * 2 ^ n"
    using map_okE [OF ok False] by metis
  have cap: "unat (m_cap m) = 2 ^ n" using n(2,3) by (simp add: unat_power32)
  show thesis
  proof (cases "4 * (unat (m_len m) + 1) > 3 * 2 ^ n")
    case True
    have "n \<noteq> 30" using True room by (auto simp: MAP_ROOM_def)
    have "m_cap m \<noteq> 2 ^ 30"
    proof
      assume "m_cap m = 2 ^ 30"
      then have "(2::nat) ^ n = 2 ^ 30" using cap by simp
      with \<open>n \<noteq> 30\<close> show False using power_inject_exp [of "2::nat" n 30] by simp
    qed
    then obtain m1 n1 where m1: "map_grow m = Some m1" "map_ok m1" "map_abs m1 = map_abs m"
      "m_len m1 = m_len m" "m_cap m1 = 2 ^ n1" "6 \<le> n1" "n1 \<le> 30" "m_cap m1 \<noteq> 0" "m_cap m = 2 ^ (n1 - 1)"
      using map_grow_ok [OF ok] False by metis
    have "unat (m_cap m) = 2 ^ (n1 - 1)" using m1(7,9) by (simp add: unat_power32)
    with cap have "(2::nat) ^ n = 2 ^ (n1 - 1)" by simp
    then have "n1 = Suc n" using m1(6) by (simp add: power_inject_exp)
    then have "unat (m_cap m1) = 2 * 2 ^ n" using m1(5,7) by (simp add: unat_power32 del: power_Suc) simp
    moreover have "4 * (unat (m_len m) + 1) \<le> 3 * (2 * 2 ^ n)"
    proof -
      have "(2::nat) ^ 6 \<le> 2 ^ n" using n(1) by (intro power_increasing) simp_all
      then show ?thesis using n(4,5) by simp
    qed
    ultimately show thesis
      using that [of m1] True m1 unat_load [OF room n(2)] n(3) by simp
  next
    case False
    then show thesis
      using that [of m] ok \<open>m_cap m \<noteq> 0\<close> cap unat_load [OF room n(2)] n(3) by simp
  qed
qed

lemma map_put_abs:
  assumes "map_ok m" "unat (m_len m) < MAP_ROOM"
  shows "\<exists>m'. map_put m k v = Some (map_abs m k = None, m') \<and> map_ok m' \<and>
    map_abs m' = (if map_abs m k = None then (map_abs m)(k \<mapsto> v) else map_abs m) \<and>
    unat (m_len m') = unat (m_len m) + (if map_abs m k = None then 1 else 0)"
proof -
  obtain m1 where m1: "(if m_cap m = 0 \<or> (m_len m + 1) * 4 > m_cap m * 3 then map_grow m else Some m) = Some m1"
    "map_ok m1" "map_abs m1 = map_abs m" "m_len m1 = m_len m" "m_cap m1 \<noteq> 0"
    "4 * (unat (m_len m1) + 1) \<le> 3 * unat (m_cap m1)"
    using map_room_ok [OF assms] by blast
  from map_insert_ok [OF m1(2,5,6), of k v] m1 show ?thesis
    unfolding map_put_def by (auto simp: Let_def split: if_splits)
qed


section \<open>The interface its clients use\<close>

text \<open>A run of insertions, with the answers of \<open>put\<close> in order.\<close>

fun put_all :: "('m \<Rightarrow> string \<Rightarrow> 'v \<Rightarrow> (bool \<times> 'm) option) \<Rightarrow> 'm \<Rightarrow> (string \<times> 'v) list \<Rightarrow> (bool list \<times> 'm) option" where
  "put_all put m [] = Some ([], m)"
| "put_all put m ((k, v) # kvs) =
     do { (b, m) \<leftarrow> put m k v; (bs, m) \<leftarrow> put_all put m kvs; Some (b # bs, m) }"

text \<open>\<open>first_use seen ks\<close> flags the keys of \<open>ks\<close> that are neither in \<open>seen\<close> nor repeated.\<close>

fun first_use :: "string set \<Rightarrow> string list \<Rightarrow> bool list" where
  "first_use seen [] = []"
| "first_use seen (k # ks) = (k \<notin> seen) # first_use (insert k seen) ks"

locale name_table =
  fixes empty :: 'm
    and get :: "'m \<Rightarrow> string \<Rightarrow> 'v option option"
    and put :: "'m \<Rightarrow> string \<Rightarrow> 'v \<Rightarrow> (bool \<times> 'm) option"
    and count :: "'m \<Rightarrow> nat"
    and abs :: "'m \<Rightarrow> string \<Rightarrow> 'v option"
    and ok :: "'m \<Rightarrow> bool"
    and room :: nat
  assumes ok_empty: "ok empty"
    and abs_empty: "abs empty = Map.empty"
    and count_empty: "count empty = 0"
    and get_abs: "ok m \<Longrightarrow> get m k = Some (abs m k)"
    and put_abs: "ok m \<Longrightarrow> count m < room \<Longrightarrow>
      \<exists>m'. put m k v = Some (abs m k = None, m') \<and> ok m' \<and>
        abs m' = (if abs m k = None then (abs m)(k \<mapsto> v) else abs m) \<and>
        count m' = count m + (if abs m k = None then 1 else 0)"
begin

lemma putE:
  assumes "ok m" "count m < room"
  obtains m' where "put m k v = Some (abs m k = None, m')" "ok m'"
    "abs m' = (if abs m k = None then (abs m)(k \<mapsto> v) else abs m)" "count m' \<le> Suc (count m)"
  using put_abs [OF assms, of k v] by (auto split: if_splits)

text \<open>The first insertion of a name is the one that counts, and every later one answers 0.\<close>

lemma put_all_first_wins:
  assumes "ok m" "count m + length kvs \<le> room"
  shows "\<exists>m'. put_all put m kvs = Some (first_use (dom (abs m)) (map fst kvs), m') \<and> ok m' \<and>
    abs m' = map_of kvs ++ abs m \<and> count m' \<le> count m + length kvs"
  using assms
proof (induction kvs arbitrary: m)
  case Nil
  then show ?case by simp
next
  case (Cons kv kvs)
  obtain k v where kv: "kv = (k, v)" by (cases kv)
  from Cons.prems have "count m < room" by simp
  then obtain m1 where m1: "put m k v = Some (abs m k = None, m1)" "ok m1"
    "abs m1 = (if abs m k = None then (abs m)(k \<mapsto> v) else abs m)" "count m1 \<le> Suc (count m)"
    using putE [OF Cons.prems(1)] by metis
  moreover from m1(4) Cons.prems(2) have "count m1 + length kvs \<le> room" by simp
  ultimately obtain m' where m': "put_all put m1 kvs = Some (first_use (dom (abs m1)) (map fst kvs), m')"
    "ok m'" "abs m' = map_of kvs ++ abs m1" "count m' \<le> count m1 + length kvs"
    using Cons.IH [of m1] by blast
  have "dom (abs m1) = insert k (dom (abs m))" using m1(3) by (auto split: if_splits)
  moreover have "map_of kvs ++ abs m1 = map_of (kv # kvs) ++ abs m"
    using m1(3) kv by (auto simp: fun_eq_iff map_add_def split: option.splits if_splits)
  ultimately show ?case using m1 m' kv by (auto simp: domIff fun_upd_def)
qed

lemma put_all_empty:
  assumes "length kvs \<le> room"
  obtains m where "put_all put empty kvs = Some (first_use {} (map fst kvs), m)" "ok m"
    "\<And>k. get m k = Some (map_of kvs k)"
  using put_all_first_wins [OF ok_empty, of kvs] assms abs_empty count_empty get_abs by auto

end

interpretation nm: name_table map_init map_get map_put "\<lambda>m. unat (map_len m)" map_abs map_ok MAP_ROOM
proof unfold_locales
  show "map_ok map_init" "map_abs map_init = Map.empty" by (rule map_ok_init)+
  show "unat (map_len map_init) = 0" by (simp add: map_init_def map_len_def)
  show "map_get m k = Some (map_abs m k)" if "map_ok m" for m :: "'b nmap" and k
    using that by (rule map_get_abs)
  show "\<exists>m'. map_put m k v = Some (map_abs m k = None, m') \<and> map_ok m' \<and>
      map_abs m' = (if map_abs m k = None then (map_abs m)(k \<mapsto> v) else map_abs m) \<and>
      unat (map_len m') = unat (map_len m) + (if map_abs m k = None then 1 else 0)"
    if "map_ok m" "unat (map_len m) < MAP_ROOM" for m :: "'b nmap" and k v
    using map_put_abs [OF that(1)] that(2) unfolding map_len_def by blast
qed

text \<open>C12. Any sequence of at most \<open>3 * 2 ^ 28\<close> insertions into a fresh map returns (every probe loop
  and every rehash ends), \<open>map_put\<close> answers 1 exactly for the first insertion of each name, and
  afterwards \<open>map_get\<close> of any name is the value its first insertion gave it, or NULL.\<close>

theorem map_insertions_first_wins:
  assumes "length kvs \<le> MAP_ROOM"
  shows "\<exists>m. put_all map_put map_init kvs = Some (first_use {} (map fst kvs), m) \<and>
    (\<forall>k. map_get m k = Some (map_of kvs k))"
  using nm.put_all_empty [OF assms] by metis

theorem map_insertions_first_wins_witness:
  "\<exists>m. put_all map_put map_init [(''a'', 1 :: nat), (''b'', 2), (''a'', 3)] = Some ([True, True, False], m) \<and>
    map_get m ''a'' = Some (Some 1)"
  using map_insertions_first_wins [of "[(''a'', 1 :: nat), (''b'', 2), (''a'', 3)]"]
  by (auto simp: MAP_ROOM_def)

end
