(* ===== verification/Slop_Scope.thy ===== *)
theory Slop_Scope
  imports Slop_Map Slop_Types
begin

text \<open>
  \<open>src/sema/scope.[ch]\<close>: the two namespaces of global names, each a hash map, and the stack of symbols with
  a mark per open block that resolves locals. Symbols are mutable objects other structures point to,
  so a \<open>Sym*\<close> is an index into the list of all symbols of the compilation; its declaration is the path to it:
  the number of the program, of the item and, for a function, of the function in the item. The locale \<open>scope_stack\<close>
  states the contract sema relies on, over the list of open frames, innermost first.
\<close>

section \<open>The code\<close>

datatype (plugins only: code size) sym_kind = SYM_FN | SYM_GLOBAL | SYM_ENUM_MEMBER | SYM_LOCAL | SYM_PARAM

record sym =
  sy_kind :: sym_kind
  sy_name :: string
  sy_pos :: srcpos
  sy_type :: "tyref option"
  sy_is_mut :: bool
  sy_value :: u64
  sy_decl :: "(nat \<times> nat \<times> nat) option"
  sy_params :: "tyref list"
  sy_is_variadic :: bool
  sy_is_extern :: bool
  sy_item :: "(nat \<times> nat) option"

type_synonym symref = nat

record globals =
  gl_types :: "tyref nmap"
  gl_values :: "symref nmap"

definition globals_init :: globals where
  "globals_init = \<lparr>gl_types = map_init, gl_values = map_init\<rparr>"

definition globals_free :: "globals \<Rightarrow> globals" where
  "globals_free g = \<lparr>gl_types = map_free (gl_types g), gl_values = map_free (gl_values g)\<rparr>"

definition globals_find_type :: "globals \<Rightarrow> string \<Rightarrow> tyref option option" where
  "globals_find_type g name = map_get (gl_types g) name"

definition globals_find_value :: "globals \<Rightarrow> string \<Rightarrow> symref option option" where
  "globals_find_value g name = map_get (gl_values g) name"

definition globals_add_type :: "globals \<Rightarrow> string \<Rightarrow> tyref \<Rightarrow> (bool \<times> globals) option" where
  "globals_add_type g name t =
     do { (b, m) \<leftarrow> map_put (gl_types g) name t; Some (b, g\<lparr>gl_types := m\<rparr>) }"

definition globals_add_value :: "globals \<Rightarrow> string \<Rightarrow> symref \<Rightarrow> (bool \<times> globals) option" where
  "globals_add_value g name s =
     do { (b, m) \<leftarrow> map_put (gl_values g) name s; Some (b, g\<lparr>gl_values := m\<rparr>) }"

record scopes =
  sc_syms :: "symref list"
  sc_marks :: "nat list"

definition current_mark :: "scopes \<Rightarrow> nat" where
  "current_mark sc = (if length (sc_marks sc) = 0 then 0 else sc_marks sc ! (length (sc_marks sc) - 1))"

definition scopes_init :: scopes where
  "scopes_init = \<lparr>sc_syms = [], sc_marks = []\<rparr>"

definition scopes_free :: "scopes \<Rightarrow> scopes" where
  "scopes_free sc = scopes_init"

definition scope_push :: "scopes \<Rightarrow> scopes" where
  "scope_push sc = sc\<lparr>sc_marks := sc_marks sc @ [length (sc_syms sc)]\<rparr>"

text \<open>Lowering \<open>len\<close> of a vector keeps its first elements.\<close>

definition scope_pop :: "scopes \<Rightarrow> scopes" where
  "scope_pop sc =
     (if length (sc_marks sc) = 0 then sc
      else sc\<lparr>sc_syms := take (current_mark sc) (sc_syms sc),
              sc_marks := take (length (sc_marks sc) - 1) (sc_marks sc)\<rparr>)"

text \<open>Both searches run \<open>i\<close> down from the top of the stack; \<open>down h syms name i n\<close> makes \<open>n\<close> steps from \<open>i\<close>.\<close>

fun down :: "sym list \<Rightarrow> symref list \<Rightarrow> string \<Rightarrow> nat \<Rightarrow> nat \<Rightarrow> symref option" where
  "down h syms name i 0 = None"
| "down h syms name i (Suc n) =
     (let s = syms ! (i - 1) in
      if strview_eq_view (sy_name (h ! s)) name then Some s else down h syms name (i - 1) n)"

definition scope_find :: "sym list \<Rightarrow> scopes \<Rightarrow> string \<Rightarrow> symref option" where
  "scope_find h sc name = (let i = length (sc_syms sc) in down h (sc_syms sc) name i i)"

definition scope_find_current :: "sym list \<Rightarrow> scopes \<Rightarrow> string \<Rightarrow> symref option" where
  "scope_find_current h sc name =
     (let start = current_mark sc; i = length (sc_syms sc) in down h (sc_syms sc) name i (i - start))"

definition scope_declare :: "scopes \<Rightarrow> symref \<Rightarrow> scopes" where
  "scope_declare sc s = sc\<lparr>sc_syms := sc_syms sc @ [s]\<rparr>"

section \<open>The two namespaces\<close>

text \<open>A run of declarations, of types (\<open>Inl\<close>) and of values (\<open>Inr\<close>), with the answers in order.\<close>

fun globals_run :: "globals \<Rightarrow> (string \<times> (tyref + symref)) list \<Rightarrow> (bool list \<times> globals) option" where
  "globals_run g [] = Some ([], g)"
| "globals_run g ((k, d) # ds) =
     do { (b, g) \<leftarrow> (case d of Inl t \<Rightarrow> globals_add_type g k t | Inr s \<Rightarrow> globals_add_value g k s);
          (bs, g) \<leftarrow> globals_run g ds;
          Some (b # bs, g) }"

text \<open>What a namespace holds after the declarations: its first of each name.\<close>

definition types_of :: "(string \<times> (tyref + symref)) list \<Rightarrow> (string \<times> tyref) list" where
  "types_of ds = List.map_filter (\<lambda>(k, d). case d of Inl t \<Rightarrow> Some (k, t) | Inr _ \<Rightarrow> None) ds"

definition values_of :: "(string \<times> (tyref + symref)) list \<Rightarrow> (string \<times> symref) list" where
  "values_of ds = List.map_filter (\<lambda>(k, d). case d of Inl _ \<Rightarrow> None | Inr s \<Rightarrow> Some (k, s)) ds"

text \<open>A declaration is accepted unless its name was declared before in the same namespace.\<close>

fun fresh_in :: "string set \<Rightarrow> string set \<Rightarrow> (string \<times> (tyref + symref)) list \<Rightarrow> bool list" where
  "fresh_in T V [] = []"
| "fresh_in T V ((k, Inl t) # ds) = (k \<notin> T) # fresh_in (insert k T) V ds"
| "fresh_in T V ((k, Inr s) # ds) = (k \<notin> V) # fresh_in T (insert k V) ds"

lemma decls_of_simps [simp]:
  "types_of [] = []" "values_of [] = []"
  "types_of ((k, Inl t) # ds) = (k, t) # types_of ds" "values_of ((k, Inl t) # ds) = values_of ds"
  "types_of ((k, Inr s) # ds) = types_of ds" "values_of ((k, Inr s) # ds) = (k, s) # values_of ds"
  by (simp_all add: types_of_def values_of_def map_filter_simps)

definition globals_ok :: "globals \<Rightarrow> nat \<Rightarrow> bool" where
  "globals_ok g n \<longleftrightarrow> map_ok (gl_types g) \<and> map_ok (gl_values g)
     \<and> unat (map_len (gl_types g)) + n \<le> MAP_ROOM \<and> unat (map_len (gl_values g)) + n \<le> MAP_ROOM"

lemma globals_add_type_ok:
  assumes "globals_ok g (Suc n)"
  shows "\<exists>m. globals_add_type g k t = Some (map_abs (gl_types g) k = None, g\<lparr>gl_types := m\<rparr>) \<and> globals_ok (g\<lparr>gl_types := m\<rparr>) n
    \<and> map_abs m = (if map_abs (gl_types g) k = None then (map_abs (gl_types g))(k \<mapsto> t) else map_abs (gl_types g))"
  using nm.put_abs [of "gl_types g" k t] assms
  by (auto simp: globals_ok_def globals_add_type_def)

lemma globals_add_value_ok:
  assumes "globals_ok g (Suc n)"
  shows "\<exists>m. globals_add_value g k s = Some (map_abs (gl_values g) k = None, g\<lparr>gl_values := m\<rparr>) \<and> globals_ok (g\<lparr>gl_values := m\<rparr>) n
    \<and> map_abs m = (if map_abs (gl_values g) k = None then (map_abs (gl_values g))(k \<mapsto> s) else map_abs (gl_values g))"
  using nm.put_abs [of "gl_values g" k s] assms
  by (auto simp: globals_ok_def globals_add_value_def)

lemma globals_run_ok:
  "globals_ok g (length ds) \<Longrightarrow>
    \<exists>g'. globals_run g ds = Some (fresh_in (dom (map_abs (gl_types g))) (dom (map_abs (gl_values g))) ds, g')
      \<and> globals_ok g' 0
      \<and> map_abs (gl_types g') = map_of (types_of ds) ++ map_abs (gl_types g)
      \<and> map_abs (gl_values g') = map_of (values_of ds) ++ map_abs (gl_values g)"
proof (induction ds arbitrary: g)
  case Nil
  then show ?case by simp
next
  case (Cons kd ds)
  obtain k d where kd: "kd = (k, d)" by (cases kd)
  have upd: "(if m k = None then m(k \<mapsto> v) else m) = Map.map_add [k \<mapsto> v] m" for m :: "string \<Rightarrow> nat option" and v
    by (auto simp: fun_eq_iff map_add_def split: option.splits)
  have assoc: "f ++ ([k \<mapsto> v] ++ m) = f(k \<mapsto> v) ++ m" for f m :: "string \<Rightarrow> nat option" and v
    by simp
  have dom: "dom (Map.map_add [k \<mapsto> v] m) = insert k (dom m)" for m :: "string \<Rightarrow> nat option" and v
    by auto
  show ?case
  proof (cases d)
    case (Inl t)
    from globals_add_type_ok [of g "length ds" k t] Cons.prems obtain m where
      m: "globals_add_type g k t = Some (map_abs (gl_types g) k = None, g\<lparr>gl_types := m\<rparr>)"
        "globals_ok (g\<lparr>gl_types := m\<rparr>) (length ds)" "map_abs m = Map.map_add [k \<mapsto> t] (map_abs (gl_types g))"
      unfolding upd by auto
    from Cons.IH [OF m(2)] m(1,3) show ?thesis
      by (auto simp: kd Inl dom assoc) (simp add: fun_upd_def)
  next
    case (Inr s)
    from globals_add_value_ok [of g "length ds" k s] Cons.prems obtain m where
      m: "globals_add_value g k s = Some (map_abs (gl_values g) k = None, g\<lparr>gl_values := m\<rparr>)"
        "globals_ok (g\<lparr>gl_values := m\<rparr>) (length ds)" "map_abs m = Map.map_add [k \<mapsto> s] (map_abs (gl_values g))"
      unfolding upd by auto
    from Cons.IH [OF m(2)] m(1,3) show ?thesis
      by (auto simp: kd Inr dom assoc) (simp add: fun_upd_def)
  qed
qed

text \<open>
  C13. Types and values are independent namespaces: after any run of at most \<open>3 * 2 ^ 28\<close> global
  declarations, each was accepted exactly if its name was new among the declarations of its own
  kind, and a lookup in either namespace gives the first declaration of the name in that namespace.
\<close>
theorem globals_namespaces:
  assumes "length ds \<le> MAP_ROOM"
  shows "\<exists>g. globals_run globals_init ds = Some (fresh_in {} {} ds, g)
    \<and> (\<forall>k. globals_find_type g k = Some (map_of (types_of ds) k))
    \<and> (\<forall>k. globals_find_value g k = Some (map_of (values_of ds) k))"
proof -
  have "globals_ok globals_init (length ds)"
    using assms by (simp add: globals_ok_def globals_init_def nm.ok_empty nm.count_empty)
  from globals_run_ok [OF this] obtain g where
    g: "globals_run globals_init ds = Some (fresh_in {} {} ds, g)" "globals_ok g 0"
      "map_abs (gl_types g) = map_of (types_of ds)" "map_abs (gl_values g) = map_of (values_of ds)"
    by (auto simp: globals_init_def nm.abs_empty)
  then show ?thesis
    by (auto simp: globals_find_type_def globals_find_value_def globals_ok_def nm.get_abs)
qed

theorem globals_namespaces_witness:
  "\<exists>g. globals_run globals_init [(''Token'', Inl 17), (''Token'', Inr 0), (''Token'', Inr 1)] = Some ([True, True, False], g)
    \<and> globals_find_type g ''Token'' = Some (Some 17) \<and> globals_find_value g ''Token'' = Some (Some 0)"
  using globals_namespaces [of "[(''Token'', Inl 17), (''Token'', Inr 0), (''Token'', Inr 1)]"]
  by (auto simp: MAP_ROOM_def)

section \<open>The contract of lexical scopes\<close>

text \<open>
  A scope stack is a list of open frames, innermost first, never empty: below the outermost open block lies the frame
  of the symbols declared before any block. A frame lists its symbols in order of declaration.
\<close>

datatype 'e scope_op = Push | Pop | Declare 'e

text \<open>The frames after one operation; popping the last frame does nothing.\<close>

fun frame_step :: "'e scope_op \<Rightarrow> 'e list list \<Rightarrow> 'e list list" where
  "frame_step Push fs = [] # fs"
| "frame_step Pop fs = (case fs of f # g # fs \<Rightarrow> g # fs | _ \<Rightarrow> fs)"
| "frame_step (Declare e) fs = (case fs of f # fs \<Rightarrow> (f @ [e]) # fs | [] \<Rightarrow> [[e]])"

text \<open>The symbol a frame gives a name: the latest declared; the stack asks its frames inward out.\<close>

definition frame_lookup :: "('e \<Rightarrow> string) \<Rightarrow> 'e list \<Rightarrow> string \<Rightarrow> 'e option" where
  "frame_lookup nam f n = find (\<lambda>e. nam e = n) (rev f)"

fun frames_lookup :: "('e \<Rightarrow> string) \<Rightarrow> 'e list list \<Rightarrow> string \<Rightarrow> 'e option" where
  "frames_lookup nam [] n = None"
| "frames_lookup nam (f # fs) n =
     (case frame_lookup nam f n of Some e \<Rightarrow> Some e | None \<Rightarrow> frames_lookup nam fs n)"

text \<open>A body that opens and closes its own blocks in pairs: \<open>depth\<close> counts those still open.\<close>

fun balanced_at :: "nat \<Rightarrow> 'e scope_op list \<Rightarrow> bool" where
  "balanced_at d [] = (d = 0)"
| "balanced_at d (Push # ops) = balanced_at (Suc d) ops"
| "balanced_at d (Pop # ops) = (0 < d \<and> balanced_at (d - 1) ops)"
| "balanced_at d (Declare e # ops) = balanced_at d ops"

locale scope_stack =
  fixes step :: "'e scope_op \<Rightarrow> 's \<Rightarrow> 's"
    and nam :: "'e \<Rightarrow> string"
    and lookup :: "'s \<Rightarrow> string \<Rightarrow> 'e option"
    and current :: "'s \<Rightarrow> string \<Rightarrow> 'e option"
    and frames :: "'s \<Rightarrow> 'e list list"
    and ok :: "'s \<Rightarrow> bool"
  assumes ok_step: "ok s \<Longrightarrow> ok (step x s)"
    and frames_step: "ok s \<Longrightarrow> frames (step x s) = frame_step x (frames s)"
    and frames_ne: "ok s \<Longrightarrow> frames s \<noteq> []"
    and frames_inject: "ok s \<Longrightarrow> ok s' \<Longrightarrow> frames s = frames s' \<Longrightarrow> s = s'"
    and lookup_frames: "ok s \<Longrightarrow> lookup s n = frames_lookup nam (frames s) n"
    and current_frames: "ok s \<Longrightarrow> current s n = frame_lookup nam (hd (frames s)) n"
begin

definition run :: "'e scope_op list \<Rightarrow> 's \<Rightarrow> 's" where
  "run ops s = foldl (\<lambda>s x. step x s) s ops"

lemma run_simps [simp]: "run [] s = s" "run (x # ops) s = run ops (step x s)"
  by (simp_all add: run_def)

lemma run_append: "run (xs @ ys) s = run ys (run xs s)"
  by (simp add: run_def)

lemma ok_run: "ok s \<Longrightarrow> ok (run ops s)"
  by (induction ops arbitrary: s) (auto simp: ok_step)

text \<open>A balanced body only touches the frames it opened, and the innermost one it found.\<close>

lemma frames_balanced:
  "ok s \<Longrightarrow> balanced_at d ops \<Longrightarrow> frames s = own @ f # fs \<Longrightarrow> length own = d \<Longrightarrow> \<exists>f'. frames (run ops s) = f' # fs"
proof (induction d ops arbitrary: s own f rule: balanced_at.induct)
  case (2 d ops)
  from 2(1) [OF ok_step [OF 2(2)], of Push "[] # own" f] 2(2-) show ?case by (simp add: frames_step)
next
  case (3 d ops)
  from 3(3-) obtain g own' where own: "own = g # own'" by (cases own) auto
  with 3(2-) have "frames (step Pop s) = own' @ f # fs"
    by (cases own') (simp_all add: frames_step)
  with own 3(1) [OF ok_step [OF 3(2)], of Pop own' f] 3(2-) show ?case by simp
next
  case (4 d e ops)
  show ?case
  proof (cases own)
    case Nil
    with 4(2-) have "frames (step (Declare e) s) = [] @ (f @ [e]) # fs" by (simp add: frames_step)
    with 4(1) [OF ok_step [OF 4(2)] _ this] Nil 4(2-) show ?thesis by simp
  next
    case (Cons g own')
    with 4(2-) have "frames (step (Declare e) s) = ((g @ [e]) # own') @ f # fs" by (simp add: frames_step)
    with 4(1) [OF ok_step [OF 4(2)] _ this] Cons 4(2-) show ?thesis by simp
  qed
qed simp

text \<open>A block leaves the state it found.\<close>

lemma block_restores:
  assumes "ok s" and "balanced_at 0 ops"
  shows "run (Push # ops @ [Pop]) s = s"
proof -
  obtain f fs where f: "frames s = f # fs" using frames_ne [OF assms(1)] by (cases "frames s") auto
  have o: "ok (step Push s)" using assms(1) by (rule ok_step)
  have "frames (step Push s) = [] @ [] # f # fs" using f assms(1) by (simp add: frames_step)
  from frames_balanced [OF o assms(2) this] obtain g where "frames (run ops (step Push s)) = g # f # fs" by auto
  then have "frames (run (Push # ops @ [Pop]) s) = frames s"
    using f ok_run [OF o] by (simp add: run_append frames_step)
  then show ?thesis by (intro frames_inject ok_run assms(1))
qed

lemma lookup_declare:
  assumes "ok s"
  shows "lookup (step (Declare e) s) n = (if nam e = n then Some e else lookup s n)"
proof -
  obtain f fs where f: "frames s = f # fs" using frames_ne [OF assms(1)] by (cases "frames s") auto
  then show ?thesis
    using assms by (simp add: lookup_frames ok_step frames_step frame_lookup_def)
qed

lemma lookup_push:
  assumes "ok s"
  shows "lookup (step Push s) n = lookup s n" and "current (step Push s) n = None"
  using assms by (simp_all add: lookup_frames current_frames ok_step frames_step frame_lookup_def)

lemma current_is_lookup: "ok s \<Longrightarrow> current s n = Some e \<Longrightarrow> lookup s n = Some e"
  using frames_ne [of s] by (cases "frames s") (simp_all add: lookup_frames current_frames)

end

section \<open>The code meets the contract\<close>

text \<open>The stack cut at its marks, the last mark first.\<close>

fun cut :: "nat list \<Rightarrow> 'e list \<Rightarrow> 'e list list" where
  "cut [] syms = [syms]"
| "cut (m # ms) syms = drop m syms # cut ms (take m syms)"

definition sc_frames :: "scopes \<Rightarrow> symref list list" where
  "sc_frames sc = cut (rev (sc_marks sc)) (sc_syms sc)"

fun marks_ok :: "nat list \<Rightarrow> nat \<Rightarrow> bool" where
  "marks_ok [] n = True"
| "marks_ok (m # ms) n = (m \<le> n \<and> marks_ok ms m)"

definition sc_ok :: "scopes \<Rightarrow> bool" where
  "sc_ok sc \<longleftrightarrow> marks_ok (rev (sc_marks sc)) (length (sc_syms sc))"

fun sc_step :: "symref scope_op \<Rightarrow> scopes \<Rightarrow> scopes" where
  "sc_step Push sc = scope_push sc"
| "sc_step Pop sc = scope_pop sc"
| "sc_step (Declare s) sc = scope_declare sc s"

lemma sc_ok_init: "sc_ok scopes_init" "sc_frames scopes_init = [[]]"
  by (simp_all add: sc_ok_def scopes_init_def sc_frames_def)

text \<open>A case split on the last mark.\<close>

lemma sc_marks_cases:
  obtains "sc_marks sc = []" "current_mark sc = 0"
    | ms m where "sc_marks sc = ms @ [m]" "current_mark sc = m"
  by (cases "sc_marks sc" rule: rev_cases) (auto simp: current_mark_def)

lemma marks_ok_mono: "marks_ok ms n \<Longrightarrow> n \<le> n' \<Longrightarrow> marks_ok ms n'"
  by (cases ms) auto

lemma sc_ok_step: "sc_ok sc \<Longrightarrow> sc_ok (sc_step x sc)"
  by (cases x; cases rule: sc_marks_cases [of sc])
    (auto simp: sc_ok_def scope_push_def scope_pop_def scope_declare_def intro: marks_ok_mono)

lemma sc_frames_step: "sc_ok sc \<Longrightarrow> sc_frames (sc_step x sc) = frame_step x (sc_frames sc)"
proof (cases x)
  case Pop
  assume "sc_ok sc"
  then show ?thesis
    by (cases rule: sc_marks_cases [of sc]) (auto simp: Pop sc_frames_def scope_pop_def sc_ok_def elim: cut.elims split: list.splits)
qed (cases rule: sc_marks_cases [of sc]; auto simp: sc_frames_def scope_push_def scope_declare_def sc_ok_def)+

lemma cut_ne [simp]: "cut ms xs \<noteq> []" "[] \<noteq> cut ms xs"
  by (cases ms; simp)+

lemma cut_inject:
  "marks_ok ms (length xs) \<Longrightarrow> marks_ok ms' (length ys) \<Longrightarrow> cut ms xs = cut ms' ys \<Longrightarrow> ms = ms' \<and> xs = ys"
proof (induction ms arbitrary: ms' xs ys)
  case Nil
  then show ?case by (cases ms') (auto elim: cut.elims)
next
  case (Cons m ms)
  then obtain m' ms2 where ms': "ms' = m' # ms2" by (cases ms') (auto elim: cut.elims)
  with Cons.prems have "ms = ms2 \<and> take m xs = take m' ys" by (intro Cons.IH) auto
  moreover from this Cons.prems ms' have "m = m'" by (metis length_take marks_ok.simps(2) min.absorb2)
  ultimately show ?case using Cons.prems ms' by (metis append_take_drop_id cut.simps(2) list.inject)
qed

lemma down_find: "i \<le> length syms \<Longrightarrow> n \<le> i \<Longrightarrow>
    down h syms name i n = find (\<lambda>s. sy_name (h ! s) = name) (rev (segment (i - n) i syms))"
proof (induction n arbitrary: i)
  case 0
  then show ?case by simp
next
  case (Suc n)
  then obtain j where i: "i = Suc j" by (cases i) auto
  have "segment (i - Suc n) i syms = segment (j - n) j syms @ segment j i syms"
    using Suc.prems by (simp add: i segment_append)
  moreover have "segment j i syms = [syms ! j]" using Suc.prems by (simp add: i segment_Suc)
  ultimately show ?case using Suc by (simp add: i)
qed

lemma find_append: "find P (xs @ ys) = (case find P xs of Some x \<Rightarrow> Some x | None \<Rightarrow> find P ys)"
  by (induction xs) auto

lemma frames_lookup_cut: "frames_lookup nam (cut ms syms) n = frame_lookup nam syms n"
proof (induction ms arbitrary: syms)
  case (Cons m ms)
  have "frame_lookup nam syms n = frame_lookup nam (take m syms @ drop m syms) n" by simp
  also have "\<dots> = frames_lookup nam (cut (m # ms) syms) n"
    unfolding frame_lookup_def rev_append find_append by (simp add: Cons frame_lookup_def split: option.split)
  finally show ?case by simp
qed (simp split: option.split)

lemma scope_find_frames:
  "scope_find h sc n = frames_lookup (\<lambda>s. sy_name (h ! s)) (sc_frames sc) n"
  by (simp add: scope_find_def down_find sc_frames_def frames_lookup_cut frame_lookup_def segment_def)

lemma scope_find_current_frames:
  "sc_ok sc \<Longrightarrow> scope_find_current h sc n = frame_lookup (\<lambda>s. sy_name (h ! s)) (hd (sc_frames sc)) n"
  by (cases rule: sc_marks_cases [of sc])
    (simp_all add: scope_find_current_def down_find sc_frames_def frame_lookup_def segment_def sc_ok_def)

interpretation sc: scope_stack sc_step "\<lambda>s. sy_name (h ! s)" "scope_find h" "scope_find_current h" sc_frames sc_ok for h
proof unfold_locales
  show "sc_frames s \<noteq> []" for s by (cases "rev (sc_marks s)") (simp_all add: sc_frames_def)
  show "s = s'" if "sc_ok s" "sc_ok s'" "sc_frames s = sc_frames s'" for s s'
    using cut_inject [of "rev (sc_marks s)" "sc_syms s" "rev (sc_marks s')" "sc_syms s'"] that
    by (simp add: sc_ok_def sc_frames_def)
qed (simp_all add: sc_ok_step sc_frames_step scope_find_frames scope_find_current_frames)

text \<open>A run of scope operations from an empty stack.\<close>

definition sc_run :: "symref scope_op list \<Rightarrow> scopes \<Rightarrow> scopes" where
  "sc_run ops sc = foldl (\<lambda>sc x. sc_step x sc) sc ops"

lemma sc_run_run: "sc_run = sc.run"
  by (simp add: fun_eq_iff sc_run_def sc.run_def)

lemma sc_reached: "sc_ok (sc_run ops scopes_init)"
  unfolding sc_run_run by (rule sc.ok_run [OF sc_ok_init(1)])

text \<open>
  C11. The scope stack implements nested scopes: after any operations the frames are those the operations
  build one by one, \<open>scope_find\<close> gives the latest symbol of the name in the innermost frame that has one,
  and \<open>scope_find_current\<close> the latest one of the innermost frame only.
\<close>
theorem scopes_refine_frames:
  "sc_frames (sc_run ops scopes_init) = foldl (\<lambda>fs x. frame_step x fs) [[]] ops
   \<and> scope_find h (sc_run ops scopes_init) n
       = frames_lookup (\<lambda>s. sy_name (h ! s)) (sc_frames (sc_run ops scopes_init)) n
   \<and> scope_find_current h (sc_run ops scopes_init) n
       = frame_lookup (\<lambda>s. sy_name (h ! s)) (hd (sc_frames (sc_run ops scopes_init))) n"
proof -
  have "sc_ok sc \<Longrightarrow> sc_frames (sc_run ops sc) = foldl (\<lambda>fs x. frame_step x fs) (sc_frames sc) ops" for sc
    by (induction ops arbitrary: sc) (simp_all add: sc_run_def sc_ok_step sc_frames_step)
  from this [OF sc_ok_init(1)] show ?thesis
    by (simp add: sc_ok_init scope_find_frames scope_find_current_frames sc_reached)
qed

text \<open>
  C10. Blocks are transparent: whatever a balanced body pushes, pops and declares between a push and its pop, the pop
  gives back exactly the stack the push found, so every lookup answers as before the block; inside
  the block the outer names are visible until redeclared, and none of them counts as a redeclaration.
\<close>
theorem scope_block_restores:
  assumes "balanced_at 0 body"
  shows "scope_pop (sc_run body (scope_push (sc_run ops scopes_init))) = sc_run ops scopes_init
   \<and> scope_find h (scope_push (sc_run ops scopes_init)) n = scope_find h (sc_run ops scopes_init) n
   \<and> scope_find_current h (scope_push (sc_run ops scopes_init)) n = None
   \<and> scope_find h (scope_declare (sc_run ops scopes_init) s) n
       = (if sy_name (h ! s) = n then Some s else scope_find h (sc_run ops scopes_init) n)"
proof -
  note ok = sc_reached [of ops]
  have "sc_run (Push # body @ [Pop]) (sc_run ops scopes_init) = sc_run ops scopes_init"
    unfolding sc_run_run by (rule sc.block_restores [OF ok [unfolded sc_run_run] assms])
  then have "scope_pop (sc_run body (scope_push (sc_run ops scopes_init))) = sc_run ops scopes_init"
    by (simp add: sc_run_def)
  with sc.lookup_push [OF ok, of h n] sc.lookup_declare [OF ok, of h s n] show ?thesis by simp
qed

theorem scope_block_restores_witness:
  "scope_pop (sc_run [Declare 1, Push, Declare 2, Pop] (scope_push (sc_run [Declare 0] scopes_init)))
     = sc_run [Declare 0] scopes_init"
proof -
  have "balanced_at 0 [Declare (1 :: nat), Push, Declare 2, Pop]" by simp
  from scope_block_restores [OF this, of "[Declare 0]" "[]" "''x''" 0] show ?thesis by blast
qed

end
