(* ===== verification/Slop_Ast.thy ===== *)
theory Slop_Ast
  imports Slop_Tokens
begin

text \<open>
  The syntax tree of \<open>src/ast/ast.h\<close>. Every struct of the header is a datatype or a record with the
  same fields; a pointer that may be NULL is an option (\<open>None\<close> is NULL), and an array with its count is
  a list. \<open>sem_type\<close> is the reference sema fills in, a reference into the type table
  (\<open>Slop_Types\<close>); the parser leaves it NULL. Doubles are their bit patterns. The constructors of \<open>ast.c\<close> return a zeroed node of a kind with its
  position; the parser's model builds the node with the fields it then sets.
\<close>

section \<open>Types\<close>

datatype ast_type =
    TYPE_CORE (ty_pos: srcpos) token_kind
  | TYPE_NAME (ty_pos: srcpos) string
  | TYPE_POINTER (ty_pos: srcpos) ast_type
  | TYPE_ARRAY (ty_pos: srcpos) ast_type u64

section \<open>Expressions\<close>

datatype expr = Expr (ex_pos: srcpos) (ex_sem: "nat option") (ex_u: expr_node)
and expr_node =
    EXPR_INT u64
  | EXPR_FLOAT u64
  | EXPR_CHAR u64
  | EXPR_STRING string
  | EXPR_BOOL bool
  | EXPR_NULL
  | EXPR_NAME string
  | EXPR_UNARY token_kind "expr option"
  | EXPR_BINARY token_kind "expr option" "expr option"
  | EXPR_CALL "expr option" "expr option list"
  | EXPR_INDEX "expr option" "expr option"
  | EXPR_FIELD "expr option" string
  | EXPR_CAST "expr option" "ast_type option"
  | EXPR_SIZEOF "ast_type option"
  | EXPR_CONV "expr option"

text \<open>\<open>expr_new\<close>, followed by the assignment of the union's member.\<close>

definition expr_new :: "srcpos \<Rightarrow> expr_node \<Rightarrow> expr" where
  "expr_new pos u = Expr pos None u"

section \<open>Statements\<close>

datatype match_label = MatchLabel (ml_pos: srcpos) (ml_is_wildcard: bool) (ml_value: "expr option")

datatype stmt =
    STMT_BLOCK srcpos block
  | STMT_VAR srcpos bool ast_type string "expr option"
  | STMT_IF srcpos "expr option" block "stmt option"
  | STMT_WHILE srcpos "expr option" block
  | STMT_MATCH srcpos "expr option" "match_arm list"
  | STMT_RETURN srcpos "expr option"
  | STMT_BREAK srcpos
  | STMT_CONTINUE srcpos
  | STMT_EXPR srcpos expr
  | STMT_ASSIGN srcpos expr token_kind "expr option"
  | STMT_EMPTY srcpos
and block = Block (b_stmts: "stmt list") (b_pos: srcpos)
and match_arm = MatchArm srcpos "match_label list" stmt

section \<open>Items\<close>

record param =
  pr_pos :: srcpos
  pr_is_mut :: bool
  pr_type :: ast_type
  pr_name :: string

record fn_decl =
  fn_pos :: srcpos
  fn_name :: string
  fn_params :: "param list"
  fn_is_variadic :: bool
  fn_ret :: ast_type
  fn_body :: block
  fn_has_body :: bool

record field =
  fd_pos :: srcpos
  fd_type :: ast_type
  fd_name :: string

record enum_member =
  em_pos :: srcpos
  em_name :: string
  em_has_value :: bool
  em_value :: u64

datatype item =
    ITEM_FN srcpos fn_decl
  | ITEM_STRUCT srcpos string "field list"
  | ITEM_ENUM srcpos string token_kind "enum_member list"
  | ITEM_GLOBAL srcpos bool ast_type string "expr option"
  | ITEM_EXTERN srcpos string "fn_decl list"

record program =
  pg_file :: string
  pg_items :: "item list"

text \<open>What a \<open>memset\<close> leaves in a position and in a block.\<close>

definition zero_pos :: srcpos where
  "zero_pos = \<lparr>sp_file = None, sp_line = 0, sp_col = 0\<rparr>"

definition zero_block :: block where
  "zero_block = Block [] zero_pos"

section \<open>Trees without holes\<close>

text \<open>
  \<open>ast.h\<close>: a child may be NULL when the parser recovered from an error. A complete tree has a child
  wherever the grammar has one; the members that are optional in the grammar (an initializer, an
  else branch, a returned value, a wildcard's value) may stay NULL.
\<close>

fun complete_expr :: "expr \<Rightarrow> bool" and complete_node :: "expr_node \<Rightarrow> bool" where
  "complete_expr (Expr pos sem u) = complete_node u"
| "complete_node (EXPR_UNARY op (Some e)) = complete_expr e"
| "complete_node (EXPR_BINARY op (Some a) (Some b)) = (complete_expr a \<and> complete_expr b)"
| "complete_node (EXPR_CALL (Some e) args) =
     (complete_expr e \<and> list_all (\<lambda>a. case a of Some a \<Rightarrow> complete_expr a | None \<Rightarrow> False) args)"
| "complete_node (EXPR_INDEX (Some e) (Some i)) = (complete_expr e \<and> complete_expr i)"
| "complete_node (EXPR_FIELD (Some e) n) = complete_expr e"
| "complete_node (EXPR_CAST (Some e) (Some t)) = complete_expr e"
| "complete_node (EXPR_SIZEOF (Some t)) = True"
| "complete_node (EXPR_CONV (Some e)) = complete_expr e"
| "complete_node (EXPR_INT v) = True"
| "complete_node (EXPR_FLOAT v) = True"
| "complete_node (EXPR_CHAR v) = True"
| "complete_node (EXPR_STRING s) = True"
| "complete_node (EXPR_BOOL b) = True"
| "complete_node EXPR_NULL = True"
| "complete_node (EXPR_NAME n) = True"
| "complete_node u = False"

definition complete_opt :: "expr option \<Rightarrow> bool" where
  "complete_opt e = (case e of Some e \<Rightarrow> complete_expr e | None \<Rightarrow> True)"

definition complete_child :: "expr option \<Rightarrow> bool" where
  "complete_child e = (case e of Some e \<Rightarrow> complete_expr e | None \<Rightarrow> False)"

fun complete_label :: "match_label \<Rightarrow> bool" where
  "complete_label (MatchLabel pos wild v) = (if wild then v = None else complete_child v)"

fun complete_stmt :: "stmt \<Rightarrow> bool" and complete_block :: "block \<Rightarrow> bool" and complete_arm :: "match_arm \<Rightarrow> bool" where
  "complete_stmt (STMT_BLOCK pos b) = complete_block b"
| "complete_stmt (STMT_VAR pos m t n i) = complete_opt i"
| "complete_stmt (STMT_IF pos c b e) =
     (complete_child c \<and> complete_block b \<and> (case e of Some s \<Rightarrow> complete_stmt s | None \<Rightarrow> True))"
| "complete_stmt (STMT_WHILE pos c b) = (complete_child c \<and> complete_block b)"
| "complete_stmt (STMT_MATCH pos e arms) = (complete_child e \<and> list_all complete_arm arms)"
| "complete_stmt (STMT_RETURN pos e) = complete_opt e"
| "complete_stmt (STMT_BREAK pos) = True"
| "complete_stmt (STMT_CONTINUE pos) = True"
| "complete_stmt (STMT_EXPR pos e) = complete_expr e"
| "complete_stmt (STMT_ASSIGN pos e op v) = (complete_expr e \<and> complete_child v)"
| "complete_stmt (STMT_EMPTY pos) = True"
| "complete_block (Block ss pos) = list_all complete_stmt ss"
| "complete_arm (MatchArm pos ls s) = (ls \<noteq> [] \<and> list_all complete_label ls \<and> complete_stmt s)"

fun complete_item :: "item \<Rightarrow> bool" where
  "complete_item (ITEM_FN pos d) = (fn_has_body d \<and> complete_block (fn_body d))"
| "complete_item (ITEM_STRUCT pos n fs) = True"
| "complete_item (ITEM_ENUM pos n b ms) = True"
| "complete_item (ITEM_GLOBAL pos m t n i) = complete_opt i"
| "complete_item (ITEM_EXTERN pos abi fns) = list_all (\<lambda>d. \<not> fn_has_body d) fns"

end
