(* ===== verification/Slop_Sema.thy ===== *)
theory Slop_Sema
  imports Slop_Scope Slop_Ast
begin

text \<open>
  \<open>src/sema/sema.c\<close>, the state and passes 2 and 3: collecting the global names, resolving types and laying out
  structs. The trees are part of the state (\<open>se_programs\<close>): sema writes the types it finds and the
  conversions it inserts into them, and the pointers it keeps to items are their paths. A function that
  returns nothing answers the state; \<open>None\<close> means that the C code does not return or reads through NULL.
\<close>

section \<open>State and messages\<close>

record sema =
  se_diag :: diag
  se_types :: type_table
  se_globals :: globals
  se_scopes :: scopes
  se_cur_fn :: "symref option"
  se_loop_depth :: nat
  se_syms :: "sym list"
  se_programs :: "program list"

definition kind :: "sema \<Rightarrow> tyref \<Rightarrow> ty_kind" where
  "kind s t = t_kind (ty_at (se_types s) t)"

definition ty_of :: "sema \<Rightarrow> tyref \<Rightarrow> ty" where
  "ty_of s t = ty_at (se_types s) t"

text \<open>The singleton of a kind that has one.\<close>

definition core :: "sema \<Rightarrow> ty_kind \<Rightarrow> tyref" where
  "core s k = (case ty_core (se_types s) k of Some t \<Rightarrow> t | None \<Rightarrow> 0)"

definition poison :: "sema \<Rightarrow> tyref" where
  "poison s = core s TY_POISON"

definition sym_at :: "sema \<Rightarrow> symref \<Rightarrow> sym" where
  "sym_at s r = se_syms s ! r"

definition sym_zero :: "sym_kind \<Rightarrow> string \<Rightarrow> srcpos \<Rightarrow> sym" where
  "sym_zero k name pos = \<lparr>sy_kind = k, sy_name = name, sy_pos = pos, sy_type = None, sy_is_mut = False, sy_value = 0,
     sy_decl = None, sy_params = [], sy_is_variadic = False, sy_is_extern = False, sy_item = None\<rparr>"

text \<open>\<open>sym_new\<close>, with the assignments its caller makes to the symbol.\<close>

definition sym_new :: "sym \<Rightarrow> sema \<Rightarrow> symref \<times> sema" where
  "sym_new y s = (length (se_syms s), s\<lparr>se_syms := se_syms s @ [y]\<rparr>)"

definition sym_set :: "symref \<Rightarrow> (sym \<Rightarrow> sym) \<Rightarrow> sema \<Rightarrow> sema" where
  "sym_set r f s = s\<lparr>se_syms := (se_syms s)[r := f (sym_at s r)]\<rparr>"

definition ty_set :: "tyref \<Rightarrow> (ty \<Rightarrow> ty) \<Rightarrow> sema \<Rightarrow> sema" where
  "ty_set r f s = s\<lparr>se_types := (se_types s)\<lparr>tt_heap := (tt_heap (se_types s))[r := f (ty_of s r)]\<rparr>\<rparr>"

definition round_up :: "u32 \<Rightarrow> u32 \<Rightarrow> u32" where
  "round_up n align = (n + align - 1) div align * align"

text \<open>The pieces of a message: text, a number, or a type as \<open>ty_str\<close> writes it into a buffer of so many bytes.\<close>

datatype piece = Txt string | Num nat | TyName nat tyref

abbreviation TyName128 :: "tyref \<Rightarrow> piece" where
  "TyName128 t \<equiv> TyName 128 t"

fun piece_text :: "sema \<Rightarrow> piece \<Rightarrow> string option" where
  "piece_text s (Txt t) = Some t"
| "piece_text s (Num n) = Some (dec_of_nat n)"
| "piece_text s (TyName cap t) = ty_str (se_types s) (Some t) cap"

fun message :: "sema \<Rightarrow> piece list \<Rightarrow> string option" where
  "message s [] = Some []"
| "message s (p # ps) = do { t \<leftarrow> piece_text s p; u \<leftarrow> message s ps; Some (t @ u) }"

definition quote :: "string \<Rightarrow> string" where
  "quote s = [CHR 0x27] @ s @ [CHR 0x27]"

definition serror :: "srcpos \<Rightarrow> piece list \<Rightarrow> sema \<Rightarrow> sema option" where
  "serror pos ps s = do { m \<leftarrow> message s ps; Some (s\<lparr>se_diag := diag_error (se_diag s) pos m\<rparr>) }"

definition snote :: "srcpos \<Rightarrow> string \<Rightarrow> sema \<Rightarrow> sema" where
  "snote pos m s = s\<lparr>se_diag := diag_note (se_diag s) pos m\<rparr>"

definition duplicate_of :: "srcpos \<Rightarrow> string \<Rightarrow> srcpos \<Rightarrow> sema \<Rightarrow> sema option" where
  "duplicate_of pos what first s =
     do { s \<leftarrow> serror pos [Txt (''duplicate '' @ what)] s; Some (snote first ''first declared here'' s) }"

text \<open>The calls on the type table and on the scopes.\<close>

definition make_ptr :: "tyref \<Rightarrow> sema \<Rightarrow> tyref \<times> sema" where
  "make_ptr t s = (let (p, tt) = ty_ptr (se_types s) t in (p, s\<lparr>se_types := tt\<rparr>))"

definition make_array :: "tyref \<Rightarrow> u64 \<Rightarrow> sema \<Rightarrow> tyref \<times> sema" where
  "make_array t n s = (let (p, tt) = ty_array (se_types s) t n in (p, s\<lparr>se_types := tt\<rparr>))"

definition add_type :: "string \<Rightarrow> tyref \<Rightarrow> sema \<Rightarrow> sema option" where
  "add_type name t s = do { (_, g) \<leftarrow> globals_add_type (se_globals s) name t; Some (s\<lparr>se_globals := g\<rparr>) }"

definition add_value :: "string \<Rightarrow> symref \<Rightarrow> sema \<Rightarrow> sema option" where
  "add_value name y s = do { (_, g) \<leftarrow> globals_add_value (se_globals s) name y; Some (s\<lparr>se_globals := g\<rparr>) }"

section \<open>Pass 2: global names\<close>

definition collect_struct :: "nat \<times> nat \<Rightarrow> srcpos \<Rightarrow> string \<Rightarrow> sema \<Rightarrow> sema option" where
  "collect_struct path pos name s =
     do { existing \<leftarrow> globals_find_type (se_globals s) name;
          case existing of
            Some t \<Rightarrow> duplicate_of pos (''declaration of type '' @ quote name) (t_pos (ty_of s t)) s
          | None \<Rightarrow>
              (let (t, tt) = ty_struct_new (se_types s) name pos;
                   s = ty_set t (\<lambda>x. x\<lparr>t_decl := Some path\<rparr>) (s\<lparr>se_types := tt\<rparr>) in
               add_type name t s) }"

text \<open>The member loop of \<open>collect_enum\<close> from a member on; \<open>next\<close> is the value the next member gets.\<close>

fun collect_members :: "tyref \<Rightarrow> tyref \<Rightarrow> u64 \<Rightarrow> enum_member list \<Rightarrow> sema \<Rightarrow> (enum_sym list \<times> sema) option" where
  "collect_members t base next [] s = Some ([], s)"
| "collect_members t base next (m # ms) s =
     do { sym \<leftarrow> globals_find_value (se_globals s) (em_name m);
          let value = (if em_has_value m then em_value m else next);
          fits \<leftarrow> ty_int_fits (se_types s) base value;
          s \<leftarrow> (if \<not> fits
                then serror (em_pos m) [Txt ''enum value '', Num (unat value), Txt '' does not fit in '', TyName 64 base] s
                else Some s);
          let next = value + 1;
          s \<leftarrow> (case sym of
                  Some y \<Rightarrow> duplicate_of (em_pos m) (''declaration of '' @ quote (em_name m)) (sy_pos (sym_at s y)) s
                | None \<Rightarrow>
                    (let (y, s) = sym_new ((sym_zero SYM_ENUM_MEMBER (em_name m) (em_pos m))
                         \<lparr>sy_type := Some t, sy_value := value\<rparr>) s in
                     add_value (em_name m) y s));
          (es, s) \<leftarrow> collect_members t base next ms s;
          Some (\<lparr>es_name = em_name m, es_value = value, es_pos = em_pos m\<rparr> # es, s) }"

definition collect_enum :: "srcpos \<Rightarrow> string \<Rightarrow> token_kind \<Rightarrow> enum_member list \<Rightarrow> sema \<Rightarrow> sema option" where
  "collect_enum pos name base_tok ms s =
     do { existing \<leftarrow> globals_find_type (se_globals s) name;
          let base = ty_from_token (se_types s) base_tok;
          (base, s) \<leftarrow> (case base of
               Some b \<Rightarrow>
                 if ty_is_integer (ty_of s b) then Some (b, s)
                 else do { s \<leftarrow> serror pos [Txt (''enum '' @ quote name @ '' needs an integer underlying type'')] s;
                           Some (core s TY_I32, s) }
             | None \<Rightarrow> do { s \<leftarrow> serror pos [Txt (''enum '' @ quote name @ '' needs an integer underlying type'')] s;
                            Some (core s TY_I32, s) });
          case existing of
            Some t \<Rightarrow> duplicate_of pos (''declaration of type '' @ quote name) (t_pos (ty_of s t)) s
          | None \<Rightarrow>
              (let (t, tt) = ty_enum_new (se_types s) name base pos in
               do { s \<leftarrow> add_type name t (s\<lparr>se_types := tt\<rparr>);
                    (es, s) \<leftarrow> collect_members t base 0 ms s;
                    Some (ty_set t (\<lambda>x. x\<lparr>t_members := es\<rparr>) s) }) }"

definition collect_fn :: "nat \<times> nat \<times> nat \<Rightarrow> fn_decl \<Rightarrow> bool \<Rightarrow> sema \<Rightarrow> sema option" where
  "collect_fn path fn is_extern s =
     do { existing \<leftarrow> globals_find_value (se_globals s) (fn_name fn);
          case existing of
            Some y \<Rightarrow> duplicate_of (fn_pos fn) (''declaration of '' @ quote (fn_name fn)) (sy_pos (sym_at s y)) s
          | None \<Rightarrow>
              (let (y, s) = sym_new ((sym_zero SYM_FN (fn_name fn) (fn_pos fn))
                   \<lparr>sy_decl := Some path, sy_is_variadic := fn_is_variadic fn, sy_is_extern := is_extern\<rparr>) s in
               add_value (fn_name fn) y s) }"

definition collect_global :: "nat \<times> nat \<Rightarrow> srcpos \<Rightarrow> bool \<Rightarrow> string \<Rightarrow> sema \<Rightarrow> sema option" where
  "collect_global path pos is_mut name s =
     do { existing \<leftarrow> globals_find_value (se_globals s) name;
          case existing of
            Some y \<Rightarrow> duplicate_of pos (''declaration of '' @ quote name) (sy_pos (sym_at s y)) s
          | None \<Rightarrow>
              (let (y, s) = sym_new ((sym_zero SYM_GLOBAL name pos)\<lparr>sy_is_mut := is_mut, sy_item := Some path\<rparr>) s in
               add_value name y s) }"

fun collect_fns :: "nat \<Rightarrow> nat \<Rightarrow> nat \<Rightarrow> fn_decl list \<Rightarrow> sema \<Rightarrow> sema option" where
  "collect_fns p i j [] s = Some s"
| "collect_fns p i j (fn # fns) s =
     do { s \<leftarrow> collect_fn (p, i, j) fn True s; collect_fns p i (j + 1) fns s }"

fun collect_item :: "nat \<Rightarrow> nat \<Rightarrow> item \<Rightarrow> sema \<Rightarrow> sema option" where
  "collect_item p i (ITEM_STRUCT pos name fs) s = collect_struct (p, i) pos name s"
| "collect_item p i (ITEM_ENUM pos name base ms) s = collect_enum pos name base ms s"
| "collect_item p i (ITEM_FN pos fn) s = collect_fn (p, i, 0) fn False s"
| "collect_item p i (ITEM_GLOBAL pos is_mut t name init) s = collect_global (p, i) pos is_mut name s"
| "collect_item p i (ITEM_EXTERN pos abi fns) s =
     do { s \<leftarrow> (if \<not> strview_eq abi ''c''
               then serror pos [Txt (''unknown ABI '' @ [CHR 0x22] @ takeWhile (\<lambda>c. c \<noteq> CHR 0x00) abi @ [CHR 0x22] @ ''; only '' @ [CHR 0x22] @ ''c''
                      @ [CHR 0x22] @ '' is implemented'')] s
               else Some s);
          collect_fns p i 0 fns s }"

fun collect_items :: "nat \<Rightarrow> nat \<Rightarrow> item list \<Rightarrow> sema \<Rightarrow> sema option" where
  "collect_items p i [] s = Some s"
| "collect_items p i (it # its) s = do { s \<leftarrow> collect_item p i it s; collect_items p (i + 1) its s }"

definition collect_program :: "nat \<Rightarrow> sema \<Rightarrow> sema option" where
  "collect_program p s = collect_items p 0 (pg_items (se_programs s ! p)) s"

section \<open>Pass 3: types and layout\<close>

text \<open>\<open>lay\<close> is \<open>layout_struct\<close>.\<close>

fun resolve_type :: "(tyref \<Rightarrow> sema \<Rightarrow> sema option) \<Rightarrow> ast_type \<Rightarrow> sema \<Rightarrow> (tyref \<times> sema) option" where
  "resolve_type lay (TYPE_CORE pos k) s =
     Some (case ty_from_token (se_types s) k of Some r \<Rightarrow> r | None \<Rightarrow> poison s, s)"
| "resolve_type lay (TYPE_NAME pos name) s =
     do { r \<leftarrow> globals_find_type (se_globals s) name;
          case r of
            Some r \<Rightarrow> Some (r, s)
          | None \<Rightarrow> do { s \<leftarrow> serror pos [Txt (''unknown type '' @ quote name)] s; Some (poison s, s) } }"
| "resolve_type lay (TYPE_POINTER pos t) s =
     do { (elem, s) \<leftarrow> resolve_type lay t s; Some (make_ptr elem s) }"
| "resolve_type lay (TYPE_ARRAY pos t len) s =
     do { (elem, s) \<leftarrow> resolve_type lay t s;
          s \<leftarrow> (if kind s elem = TY_STRUCT then lay elem s else Some s);
          if len = 0 then do { s \<leftarrow> serror pos [Txt ''array length must be greater than 0''] s; Some (poison s, s) }
          else if \<not> ty_is_sized (ty_of s elem) then
            do { s \<leftarrow> serror pos [Txt ''array element type '', TyName128 elem, Txt '' has no size''] s; Some (poison s, s) }
          else if t_size (ty_of s elem) \<noteq> 0 \<and> len > 0xFFFFFFFF div ucast (t_size (ty_of s elem)) then
            do { s \<leftarrow> serror pos [Txt ''array is too large''] s; Some (poison s, s) }
          else Some (make_array elem len s) }"

text \<open>The field loop of \<open>layout_struct\<close>; \<open>done\<close> holds the fields placed so far.\<close>

fun layout_fields :: "(tyref \<Rightarrow> sema \<Rightarrow> sema option) \<Rightarrow> field list \<Rightarrow> field_sym list \<Rightarrow> u32 \<Rightarrow> u32 \<Rightarrow> sema \<Rightarrow>
    ((field_sym list \<times> u32 \<times> u32) \<times> sema) option" where
  "layout_fields lay [] done offset align s = Some ((done, offset, align), s)"
| "layout_fields lay (f # fs) done offset align s =
     do { (ft, s) \<leftarrow> resolve_type lay (fd_type f) s;
          s \<leftarrow> (if kind s ft = TY_STRUCT then lay ft s else Some s);
          (ft, s) \<leftarrow> (if \<not> ty_is_sized (ty_of s ft)
             then do { s \<leftarrow> serror (fd_pos f) [Txt (''field '' @ quote (fd_name f) @ '' has type ''), TyName128 ft,
                              Txt '', which has no size''] s;
                       Some (poison s, s) }
             else Some (ft, s));
          s \<leftarrow> (case find (\<lambda>g. strview_eq_view (fs_name g) (fd_name f)) done of
                  Some g \<Rightarrow> duplicate_of (fd_pos f) (''field '' @ quote (fd_name f)) (fs_pos g) s
                | None \<Rightarrow> Some s);
          let offset = round_up offset (t_align (ty_of s ft));
          let done = done @ [\<lparr>fs_name = fd_name f, fs_type = Some ft, fs_offset = offset, fs_pos = fd_pos f\<rparr>];
          layout_fields lay fs done (offset + t_size (ty_of s ft))
            (if t_align (ty_of s ft) > align then t_align (ty_of s ft) else align) s }"

definition struct_fields :: "sema \<Rightarrow> nat \<times> nat \<Rightarrow> field list" where
  "struct_fields s path =
     (case map (\<lambda>p. drop (snd path) (pg_items p)) (drop (fst path) (se_programs s)) of
        (ITEM_STRUCT pos name fs # _) # _ \<Rightarrow> fs
      | _ \<Rightarrow> [])"

text \<open>\<open>n\<close> bounds the depth of structs in structs.\<close>

fun layout_struct_n :: "nat \<Rightarrow> tyref \<Rightarrow> sema \<Rightarrow> sema option" where
  "layout_struct_n 0 t s = None"
| "layout_struct_n (Suc n) t s =
     (if t_state (ty_of s t) = LAYOUT_DONE then Some s
      else if t_state (ty_of s t) = LAYOUT_IN_PROGRESS then
        do { s \<leftarrow> serror (t_pos (ty_of s t))
               [Txt (''struct '' @ quote (t_name (ty_of s t)) @ '' contains itself; use a pointer'')] s;
             Some (ty_set t (\<lambda>x. x\<lparr>t_state := LAYOUT_DONE\<rparr>) s) }
      else case t_decl (ty_of s t) of
        None \<Rightarrow> Some (ty_set t (\<lambda>x. x\<lparr>t_state := LAYOUT_DONE\<rparr>) s)
      | Some path \<Rightarrow>
          do { let s = ty_set t (\<lambda>x. x\<lparr>t_state := LAYOUT_IN_PROGRESS\<rparr>) s;
               ((fs, offset, align), s) \<leftarrow> layout_fields (layout_struct_n n) (struct_fields s path) [] 0 1 s;
               Some (ty_set t (\<lambda>x. x\<lparr>t_fields := fs, t_align := align, t_size := round_up offset align,
                       t_state := LAYOUT_DONE\<rparr>) s) })"

text \<open>Each level opens another struct of the table, so the table's length bounds the depth.\<close>

definition layout_struct :: "tyref \<Rightarrow> sema \<Rightarrow> sema option" where
  "layout_struct t s = layout_struct_n (length (tt_heap (se_types s)) + 1) t s"

definition resolve :: "ast_type \<Rightarrow> sema \<Rightarrow> (tyref \<times> sema) option" where
  "resolve t s = resolve_type layout_struct t s"

text \<open>The callers' \<open>if (t->kind == TY_STRUCT) layout_struct(s, t)\<close>.\<close>

definition layout_if_struct :: "tyref \<Rightarrow> sema \<Rightarrow> sema option" where
  "layout_if_struct t s = (if kind s t = TY_STRUCT then layout_struct t s else Some s)"

definition check_passable :: "tyref \<Rightarrow> srcpos \<Rightarrow> string \<Rightarrow> sema \<Rightarrow> (bool \<times> sema) option" where
  "check_passable t pos what s =
     (if kind s t = TY_STRUCT then
        do { s \<leftarrow> serror pos [Txt (''struct '' @ quote (t_name (ty_of s t)) @ '' cannot be '' @ what @ '' by value; pass a pointer'')] s;
             Some (False, s) }
      else if kind s t = TY_ARRAY then
        do { s \<leftarrow> serror pos [Txt ''array type '', TyName128 t, Txt ('' cannot be '' @ what @ ''; pass a pointer'')] s;
             Some (False, s) }
      else Some (True, s))"

fun resolve_params :: "param list \<Rightarrow> sema \<Rightarrow> (tyref list \<times> sema) option" where
  "resolve_params [] s = Some ([], s)"
| "resolve_params (p # ps) s =
     do { (pt, s) \<leftarrow> resolve (pr_type p) s;
          s \<leftarrow> layout_if_struct pt s;
          (pt, s) \<leftarrow> (if kind s pt = TY_VOID then
               do { s \<leftarrow> serror (pr_pos p) [Txt (''parameter '' @ quote (pr_name p) @ '' cannot have type void'')] s;
                    Some (poison s, s) }
             else do { (ok, s) \<leftarrow> check_passable pt (pr_pos p) ''passed'' s; Some (if \<not> ok then poison s else pt, s) });
          (pts, s) \<leftarrow> resolve_params ps s;
          Some (pt # pts, s) }"

definition resolve_signature :: "symref \<Rightarrow> fn_decl \<Rightarrow> sema \<Rightarrow> sema option" where
  "resolve_signature y fn s =
     do { (rt, s) \<leftarrow> resolve (fn_ret fn) s;
          let s = sym_set y (\<lambda>x. x\<lparr>sy_type := Some rt\<rparr>) s;
          s \<leftarrow> layout_if_struct rt s;
          (_, s) \<leftarrow> check_passable rt (fn_pos fn) ''returned'' s;
          (pts, s) \<leftarrow> resolve_params (fn_params fn) s;
          Some (sym_set y (\<lambda>x. x\<lparr>sy_params := pts\<rparr>) s) }"

end
