(* ===== verification/Slop_Sema_Expr.thy ===== *)
theory Slop_Sema_Expr
  imports Slop_Sema
begin

text \<open>
  \<open>src/sema/sema.c\<close>, pass 4 on expressions. An \<open>Expr **\<close> slot is an \<open>expr option\<close> that goes in and comes back
  with the types and conversions sema writes into the tree. \<open>check_expr_n\<close> has a bound on the depth of the
  recursion, which the height of the tree satisfies: a child is lower than its parent, and the one
  place that checks an operand a second time gets back a tree that is no higher.
\<close>

section \<open>Conversion rules\<close>

text \<open>The recursion runs through the underlying type of an enum.\<close>

partial_function (option) assignable :: "type_table \<Rightarrow> tyref \<Rightarrow> tyref \<Rightarrow> bool option" where
  "assignable tt from to =
     (let f = ty_at tt from; t = ty_at tt to in
      if from = to then Some True
      else if t_kind f = TY_POISON \<or> t_kind t = TY_POISON then Some True
      else case t_kind f of
        TY_UNTYPED_INT \<Rightarrow> Some (ty_is_integer t \<or> ty_is_float t \<or> t_kind t = TY_UNTYPED_FLOAT)
      | TY_UNTYPED_FLOAT \<Rightarrow> Some (ty_is_float t)
      | TY_UNTYPED_BOOL \<Rightarrow> Some (ty_is_bool t)
      | TY_NULL \<Rightarrow> Some (t_kind t = TY_PTR)
      | TY_ENUM \<Rightarrow> (case t_base f of None \<Rightarrow> None | Some b \<Rightarrow> assignable tt b to)
      | _ \<Rightarrow> Some (
          if ty_is_integer f \<and> ty_is_integer t then ty_is_signed f = ty_is_signed t \<and> t_size t > t_size f
          else if t_kind f = TY_F32 \<and> t_kind t = TY_F64 then True
          else if ty_is_bool f \<and> ty_is_bool t then t_size t > t_size f
          else False))"

declare assignable.simps [code]

definition common_type :: "type_table \<Rightarrow> tyref \<Rightarrow> tyref \<Rightarrow> tyref option option" where
  "common_type tt a b =
     (if a = b then Some (Some a)
      else do { ab \<leftarrow> assignable tt a b;
                if ab then Some (Some b)
                else do { ba \<leftarrow> assignable tt b a; Some (if ba then Some a else None) } })"

definition op_propagates :: "token_kind \<Rightarrow> bool" where
  "op_propagates op \<longleftrightarrow> op \<in> {Punct TOK_PLUS, Punct TOK_MINUS, Punct TOK_STAR, Punct TOK_SLASH, Punct TOK_PERCENT,
     Punct TOK_AMP, Punct TOK_PIPE, Punct TOK_CARET}"

definition ex_set_sem :: "tyref \<Rightarrow> expr \<Rightarrow> expr" where
  "ex_set_sem t e = Expr (ex_pos e) (Some t) (ex_u e)"

text \<open>The range check of an integer literal that takes type \<open>t\<close>.\<close>

definition literal_fits :: "srcpos \<Rightarrow> u64 \<Rightarrow> tyref \<Rightarrow> sema \<Rightarrow> sema option" where
  "literal_fits pos v t s =
     (if ty_is_integer (ty_of s t) then
        do { fits \<leftarrow> ty_int_fits (se_types s) t v;
             if \<not> fits then serror pos [Txt ''integer literal '', Num (unat v), Txt '' does not fit in '', TyName128 t] s
             else Some s }
      else Some s)"

fun retype_untyped :: "tyref \<Rightarrow> expr \<Rightarrow> sema \<Rightarrow> (expr \<times> sema) option"
  and retype_child :: "tyref \<Rightarrow> expr option \<Rightarrow> sema \<Rightarrow> (expr option \<times> sema) option" where
  "retype_untyped t (Expr pos sem u) s =
     (case u of
        EXPR_INT v \<Rightarrow> do { s \<leftarrow> literal_fits pos v t s; Some (Expr pos (Some t) u, s) }
      | EXPR_CHAR v \<Rightarrow> do { s \<leftarrow> literal_fits pos v t s; Some (Expr pos (Some t) u, s) }
      | EXPR_UNARY op a \<Rightarrow>
          if op = Punct TOK_MINUS \<or> op = Punct TOK_TILDE
          then do { (a, s) \<leftarrow> retype_child t a s; Some (Expr pos (Some t) (EXPR_UNARY op a), s) }
          else Some (Expr pos (Some t) u, s)
      | EXPR_BINARY op a b \<Rightarrow>
          if op_propagates op
          then do { (a, s) \<leftarrow> retype_child t a s; (b, s) \<leftarrow> retype_child t b s;
                    Some (Expr pos (Some t) (EXPR_BINARY op a b), s) }
          else if op = Punct TOK_SHL \<or> op = Punct TOK_SHR
          then do { (a, s) \<leftarrow> retype_child t a s; Some (Expr pos (Some t) (EXPR_BINARY op a b), s) }
          else Some (Expr pos (Some t) u, s)
      | _ \<Rightarrow> Some (Expr pos (Some t) u, s))"
| "retype_child t None s = Some (None, s)"
| "retype_child t (Some e) s = do { (e, s) \<leftarrow> retype_untyped t e s; Some (Some e, s) }"

text \<open>\<open>coerce\<close>; its \<open>target\<close> is never NULL.\<close>

definition coerce :: "expr option \<Rightarrow> tyref \<Rightarrow> sema \<Rightarrow> ((tyref \<times> expr option) \<times> sema) option" where
  "coerce slot target s =
     (case slot of
        None \<Rightarrow> Some ((target, slot), s)
      | Some e \<Rightarrow>
          (case ex_sem e of
             None \<Rightarrow> Some ((target, slot), s)
           | Some from \<Rightarrow>
               if from = target \<or> kind s from = TY_POISON \<or> kind s target = TY_POISON then Some ((target, slot), s)
               else do {
                 ok \<leftarrow> assignable (se_types s) from target;
                 if \<not> ok then
                   do { s \<leftarrow> serror (ex_pos e) [Txt ''cannot convert '', TyName128 from, Txt '' to '', TyName128 target,
                            Txt (CHR '' '' # ''implicitly; use '' @ [CHR 0x27] @ ''.as(''), TyName128 target,
                            Txt ('')'' @ [CHR 0x27])] s;
                        Some ((poison s, Some (ex_set_sem (poison s) e)), s) }
                 else if ty_is_untyped (ty_of s from) then
                   do { (e, s) \<leftarrow> retype_untyped target e s; Some ((target, Some e), s) }
                 else Some ((target, Some (Expr (ex_pos e) (Some target) (EXPR_CONV (Some e)))), s) }))"

definition default_type :: "expr \<Rightarrow> sema \<Rightarrow> (tyref \<times> sema) option" where
  "default_type e s =
     (case ex_sem e of
        None \<Rightarrow> None
      | Some t \<Rightarrow> Some (case kind s t of
          TY_UNTYPED_INT \<Rightarrow> (case ex_u e of EXPR_CHAR _ \<Rightarrow> (core s TY_U8, s) | _ \<Rightarrow> (core s TY_I32, s))
        | TY_UNTYPED_FLOAT \<Rightarrow> (core s TY_F64, s)
        | TY_UNTYPED_BOOL \<Rightarrow> (core s TY_B8, s)
        | TY_NULL \<Rightarrow> make_ptr (core s TY_VOID) s
        | _ \<Rightarrow> (t, s)))"

section \<open>Lvalues and names\<close>

definition is_lvalue :: "expr option \<Rightarrow> bool" where
  "is_lvalue e = (case e of
     None \<Rightarrow> False
   | Some e \<Rightarrow> (case ex_u e of
        EXPR_NAME _ \<Rightarrow> True
      | EXPR_INDEX _ _ \<Rightarrow> True
      | EXPR_FIELD _ _ \<Rightarrow> True
      | EXPR_UNARY op _ \<Rightarrow> op = Punct TOK_STAR
      | _ \<Rightarrow> False))"

text \<open>A name in value position: the innermost local, else the global.\<close>

definition find_name :: "sema \<Rightarrow> string \<Rightarrow> symref option option" where
  "find_name s name =
     (case scope_find (se_syms s) (se_scopes s) name of
        Some y \<Rightarrow> Some (Some y)
      | None \<Rightarrow> globals_find_value (se_globals s) name)"

text \<open>Is the base of an index or a field a pointer? Then the path goes through it.\<close>

definition through_pointer :: "sema \<Rightarrow> expr option \<Rightarrow> bool" where
  "through_pointer s e = (case e of
     Some e \<Rightarrow> (case ex_sem e of Some t \<Rightarrow> kind s t = TY_PTR | None \<Rightarrow> False)
   | None \<Rightarrow> False)"

fun lvalue_root :: "sema \<Rightarrow> expr option \<Rightarrow> symref option option" where
  "lvalue_root s None = None"
| "lvalue_root s (Some (Expr pos sem (EXPR_NAME n))) = find_name s n"
| "lvalue_root s (Some (Expr pos sem (EXPR_INDEX b i))) =
     (if through_pointer s b then Some None else lvalue_root s b)"
| "lvalue_root s (Some (Expr pos sem (EXPR_FIELD b n))) =
     (if through_pointer s b then Some None else lvalue_root s b)"
| "lvalue_root s (Some e) = Some None"

definition assign_binop :: "token_kind \<Rightarrow> token_kind" where
  "assign_binop op = (case op of
     Punct TOK_PLUS_EQ \<Rightarrow> Punct TOK_PLUS
   | Punct TOK_MINUS_EQ \<Rightarrow> Punct TOK_MINUS
   | Punct TOK_STAR_EQ \<Rightarrow> Punct TOK_STAR
   | Punct TOK_SLASH_EQ \<Rightarrow> Punct TOK_SLASH
   | Punct TOK_PERCENT_EQ \<Rightarrow> Punct TOK_PERCENT
   | Punct TOK_AMP_EQ \<Rightarrow> Punct TOK_AMP
   | Punct TOK_PIPE_EQ \<Rightarrow> Punct TOK_PIPE
   | Punct TOK_CARET_EQ \<Rightarrow> Punct TOK_CARET
   | Punct TOK_SHL_EQ \<Rightarrow> Punct TOK_SHL
   | Punct TOK_SHR_EQ \<Rightarrow> Punct TOK_SHR
   | _ \<Rightarrow> Punct TOK_EQ)"

definition is_integerish :: "ty \<Rightarrow> bool" where
  "is_integerish t \<longleftrightarrow> ty_is_integer t \<or> t_kind t = TY_UNTYPED_INT \<or> t_kind t = TY_ENUM"

section \<open>Operators\<close>

definition is_boolish :: "ty \<Rightarrow> bool" where
  "is_boolish t \<longleftrightarrow> ty_is_bool t \<or> t_kind t = TY_UNTYPED_BOOL"

text \<open>An error whose result is \<open>poison\<close>, with both slots as they are.\<close>

definition bad_op :: "srcpos \<Rightarrow> piece list \<Rightarrow> expr \<Rightarrow> expr \<Rightarrow> sema \<Rightarrow> ((tyref \<times> expr option \<times> expr option) \<times> sema) option" where
  "bad_op pos ps l r s = do { s \<leftarrow> serror pos ps s; Some ((poison s, Some l, Some r), s) }"

text \<open>Both operands to their common type \<open>c\<close>, with result \<open>t\<close>.\<close>

definition coerce_both :: "expr \<Rightarrow> expr \<Rightarrow> tyref \<Rightarrow> (sema \<Rightarrow> tyref) \<Rightarrow> sema \<Rightarrow>
    ((tyref \<times> expr option \<times> expr option) \<times> sema) option" where
  "coerce_both l r c result s =
     do { ((_, l), s) \<leftarrow> coerce (Some l) c s; ((_, r), s) \<leftarrow> coerce (Some r) c s; Some ((result s, l, r), s) }"

definition check_comparison :: "srcpos \<Rightarrow> expr \<Rightarrow> expr \<Rightarrow> tyref \<Rightarrow> tyref \<Rightarrow> sema \<Rightarrow>
    ((tyref \<times> expr option \<times> expr option) \<times> sema) option" where
  "check_comparison pos l r lt rt s =
     do { c \<leftarrow> common_type (se_types s) lt rt;
          case c of
            None \<Rightarrow> bad_op pos [Txt ''cannot compare '', TyName128 lt, Txt '' with '', TyName128 rt] l r s
          | Some c \<Rightarrow>
              if \<not> ty_is_numeric (ty_of s c) \<and> kind s c \<noteq> TY_PTR \<and> kind s c \<noteq> TY_ENUM
              then bad_op pos [Txt ''cannot compare '', TyName128 lt, Txt '' with '', TyName128 rt] l r s
              else coerce_both l r c (\<lambda>s. core s TY_UNTYPED_BOOL) s }"

definition check_arithmetic :: "token_kind \<Rightarrow> srcpos \<Rightarrow> expr \<Rightarrow> expr \<Rightarrow> tyref \<Rightarrow> tyref \<Rightarrow> sema \<Rightarrow>
    ((tyref \<times> expr option \<times> expr option) \<times> sema) option" where
  "check_arithmetic op pos l r lt rt s =
     (let defined = (if op \<in> {Punct TOK_PERCENT, Punct TOK_AMP, Punct TOK_PIPE, Punct TOK_CARET}
                     then is_integerish (ty_of s lt) \<and> is_integerish (ty_of s rt)
                     else ty_is_numeric (ty_of s lt) \<and> ty_is_numeric (ty_of s rt)) in
      if \<not> defined
      then bad_op pos [Txt (quote (token_kind_name op) @ '' is not defined for ''), TyName128 lt, Txt '' and '', TyName128 rt] l r s
      else do {
        c \<leftarrow> common_type (se_types s) lt rt;
        case c of
          None \<Rightarrow> bad_op pos [Txt (quote (token_kind_name op) @ '' has mismatched operands: ''), TyName128 lt, Txt '' and '',
                      TyName128 rt] l r s
        | Some c \<Rightarrow> coerce_both l r c (\<lambda>s. c) s })"

text \<open>The operators after the rules for pointer arithmetic.\<close>

definition check_operands :: "token_kind \<Rightarrow> srcpos \<Rightarrow> expr \<Rightarrow> expr \<Rightarrow> tyref \<Rightarrow> tyref \<Rightarrow> sema \<Rightarrow>
    ((tyref \<times> expr option \<times> expr option) \<times> sema) option" where
  "check_operands op pos l r lt rt s =
     (if op \<in> {Punct TOK_AMP_AMP, Punct TOK_PIPE_PIPE} then
        (if \<not> is_boolish (ty_of s lt)
         then bad_op pos [Txt (quote (token_kind_name op) @ '' needs a boolean left operand, not ''), TyName128 lt] l r s
         else if \<not> is_boolish (ty_of s rt)
         then bad_op pos [Txt (quote (token_kind_name op) @ '' needs a boolean right operand, not ''), TyName128 rt] l r s
         else Some ((core s TY_UNTYPED_BOOL, Some l, Some r), s))
      else if op \<in> {Punct TOK_SHL, Punct TOK_SHR} then
        (if \<not> is_integerish (ty_of s lt) \<or> \<not> is_integerish (ty_of s rt)
         then bad_op pos [Txt (quote (token_kind_name op) @ '' needs integer operands'')] l r s
         else if kind s rt = TY_UNTYPED_INT
         then do { ((_, r), s) \<leftarrow> coerce (Some r) (core s TY_I32) s; Some ((lt, Some l, r), s) }
         else Some ((lt, Some l, Some r), s))
      else if op \<in> {Punct TOK_EQ_EQ, Punct TOK_BANG_EQ} \<and> kind s lt = TY_PTR \<and> kind s rt = TY_NULL then
        do { ((_, r), s) \<leftarrow> coerce (Some r) lt s; Some ((core s TY_UNTYPED_BOOL, Some l, r), s) }
      else if op \<in> {Punct TOK_EQ_EQ, Punct TOK_BANG_EQ} \<and> kind s lt = TY_NULL \<and> kind s rt = TY_PTR then
        do { ((_, l), s) \<leftarrow> coerce (Some l) rt s; Some ((core s TY_UNTYPED_BOOL, l, Some r), s) }
      else if op \<in> {Punct TOK_EQ_EQ, Punct TOK_BANG_EQ, Punct TOK_LT, Punct TOK_LE, Punct TOK_GT, Punct TOK_GE}
      then check_comparison pos l r lt rt s
      else check_arithmetic op pos l r lt rt s)"

definition check_binary_op :: "token_kind \<Rightarrow> srcpos \<Rightarrow> expr option \<Rightarrow> expr option \<Rightarrow> sema \<Rightarrow>
    ((tyref \<times> expr option \<times> expr option) \<times> sema) option" where
  "check_binary_op op pos lslot rslot s =
     (case (lslot, rslot) of
        (Some l, Some r) \<Rightarrow>
          (case (ex_sem l, ex_sem r) of
             (Some lt, Some rt) \<Rightarrow>
               if kind s lt = TY_POISON \<or> kind s rt = TY_POISON then Some ((poison s, Some l, Some r), s)
               else if op \<in> {Punct TOK_PLUS, Punct TOK_MINUS} \<and> kind s lt = TY_PTR \<and> is_integerish (ty_of s rt) then
                 do { ((_, r), s) \<leftarrow> coerce (Some r) (if ty_is_integer (ty_of s rt) then rt else core s TY_I64) s;
                      Some ((lt, Some l, r), s) }
               else if op = Punct TOK_PLUS \<and> kind s rt = TY_PTR \<and> is_integerish (ty_of s lt) then
                 do { ((_, l), s) \<leftarrow> coerce (Some l) (if ty_is_integer (ty_of s lt) then lt else core s TY_I64) s;
                      Some ((rt, l, Some r), s) }
               else if op = Punct TOK_MINUS \<and> kind s lt = TY_PTR \<and> kind s rt = TY_PTR then
                 (if lt \<noteq> rt
                  then bad_op pos [Txt ''cannot subtract '', TyName128 rt, Txt '' from '', TyName128 lt] l r s
                  else Some ((core s TY_I64, Some l, Some r), s))
               else check_operands op pos l r lt rt s
           | _ \<Rightarrow> Some ((poison s, Some l, Some r), s))
      | _ \<Rightarrow> None)"

text \<open>The underlying type of an enum; every other type itself.\<close>

definition underlying :: "type_table \<Rightarrow> tyref \<Rightarrow> tyref option" where
  "underlying tt t = (if t_kind (ty_at tt t) = TY_ENUM then t_base (ty_at tt t) else Some t)"

definition castable :: "ty \<Rightarrow> ty \<Rightarrow> bool" where
  "castable f t =
     (if ty_is_numeric f \<and> ty_is_numeric t then True
      else if (t_kind f = TY_PTR \<or> t_kind f = TY_NULL) \<and> t_kind t = TY_PTR then True
      else if (ty_is_bool f \<or> t_kind f = TY_UNTYPED_BOOL) \<and> ty_is_numeric t then True
      else if (ty_is_bool f \<or> t_kind f = TY_UNTYPED_BOOL) \<and> ty_is_bool t then True
      else False)"

definition cast_allowed :: "type_table \<Rightarrow> tyref \<Rightarrow> tyref \<Rightarrow> bool option" where
  "cast_allowed tt from to =
     (if t_kind (ty_at tt from) = TY_POISON \<or> t_kind (ty_at tt to) = TY_POISON \<or> from = to then Some True
      else do { f \<leftarrow> underlying tt from; t \<leftarrow> underlying tt to; Some (castable (ty_at tt f) (ty_at tt t)) })"

section \<open>Expressions\<close>

text \<open>A checker takes a slot and the expected type, if any; it gives the type and the slot.\<close>

type_synonym checker = "expr option \<Rightarrow> tyref option \<Rightarrow> sema \<Rightarrow> ((tyref \<times> expr option) \<times> sema) option"

definition check_value_by :: "checker \<Rightarrow> expr option \<Rightarrow> sema \<Rightarrow> ((tyref \<times> expr option) \<times> sema) option" where
  "check_value_by ck slot s =
     do { ((t, slot), s) \<leftarrow> ck slot None s;
          if ty_is_untyped (ty_of s t)
          then (case slot of
                  None \<Rightarrow> None
                | Some e \<Rightarrow> do { (d, s) \<leftarrow> default_type e s; coerce slot d s })
          else Some ((t, slot), s) }"

text \<open>An error at \<open>pos\<close> that makes the expression \<open>poison\<close>; \<open>x\<close> is what the slots have become.\<close>

definition bad_at :: "srcpos \<Rightarrow> piece list \<Rightarrow> 'a \<Rightarrow> sema \<Rightarrow> ((tyref \<times> 'a) \<times> sema) option" where
  "bad_at pos ps x s = do { s \<leftarrow> serror pos ps s; Some ((poison s, x), s) }"

definition check_unary :: "checker \<Rightarrow> srcpos \<Rightarrow> token_kind \<Rightarrow> expr option \<Rightarrow> sema \<Rightarrow> ((tyref \<times> expr option) \<times> sema) option" where
  "check_unary ck pos op a s = (case op of
     Punct TOK_MINUS \<Rightarrow> do {
       ((t, a), s) \<leftarrow> ck a None s;
       if kind s t = TY_POISON then Some ((t, a), s)
       else if \<not> ty_is_numeric (ty_of s t) then bad_at pos [Txt ''cannot negate '', TyName128 t] a s
       else if ty_is_integer (ty_of s t) \<and> \<not> ty_is_signed (ty_of s t)
       then bad_at pos [Txt ''cannot negate '', TyName128 t, Txt '', which is unsigned''] a s
       else Some ((t, a), s) }
   | Punct TOK_TILDE \<Rightarrow> do {
       ((t, a), s) \<leftarrow> ck a None s;
       if kind s t = TY_POISON then Some ((t, a), s)
       else if \<not> is_integerish (ty_of s t)
       then bad_at pos [Txt (quote ''~'' @ '' needs an integer, not ''), TyName128 t] a s
       else Some ((t, a), s) }
   | Punct TOK_BANG \<Rightarrow> do {
       ((t, a), s) \<leftarrow> ck a None s;
       if kind s t = TY_POISON then Some ((t, a), s)
       else if \<not> is_boolish (ty_of s t)
       then bad_at pos [Txt (quote ''!'' @ '' needs a boolean, not ''), TyName128 t] a s
       else Some ((core s TY_UNTYPED_BOOL, a), s) }
   | Punct TOK_STAR \<Rightarrow> do {
       ((t, a), s) \<leftarrow> check_value_by ck a s;
       if kind s t = TY_POISON then Some ((t, a), s)
       else if kind s t \<noteq> TY_PTR then bad_at pos [Txt ''cannot dereference '', TyName128 t] a s
       else case t_elem (ty_of s t) of
         None \<Rightarrow> None
       | Some e \<Rightarrow>
           if kind s e = TY_VOID then bad_at pos [Txt ''cannot dereference void*; cast it first''] a s
           else Some ((e, a), s) }
   | Punct TOK_AMP \<Rightarrow> do {
       ((t, a), s) \<leftarrow> check_value_by ck a s;
       if kind s t = TY_POISON then Some ((t, a), s)
       else if \<not> is_lvalue a then bad_at pos [Txt ''cannot take the address of this expression''] a s
       else (let (p, s) = make_ptr t s in Some ((p, a), s)) }
   | _ \<Rightarrow> Some ((poison s, a), s))"

definition promote_vararg :: "checker \<Rightarrow> expr option \<Rightarrow> sema \<Rightarrow> (expr option \<times> sema) option" where
  "promote_vararg ck slot s =
     do { ((t, slot), s) \<leftarrow> check_value_by ck slot s;
          if kind s t = TY_F32 then do { ((_, slot), s) \<leftarrow> coerce slot (core s TY_F64) s; Some (slot, s) }
          else if kind s t = TY_I8 then do { ((_, slot), s) \<leftarrow> coerce slot (core s TY_I32) s; Some (slot, s) }
          else if kind s t = TY_U8 then do { ((_, slot), s) \<leftarrow> coerce slot (core s TY_U32) s; Some (slot, s) }
          else Some (slot, s) }"

text \<open>The argument loop of \<open>check_call\<close> from argument \<open>i\<close> on; \<open>y\<close> is the callee.\<close>

fun check_args :: "checker \<Rightarrow> sym \<Rightarrow> nat \<Rightarrow> expr option list \<Rightarrow> sema \<Rightarrow> (expr option list \<times> sema) option" where
  "check_args ck y i [] s = Some ([], s)"
| "check_args ck y i (arg # args) s =
     do { (arg, s) \<leftarrow> (if i < length (sy_params y) then
             do { ((at, arg), s) \<leftarrow> ck arg None s;
                  let p = sy_params y ! i;
                  ok \<leftarrow> (if kind s at \<noteq> TY_POISON then assignable (se_types s) at p else Some True);
                  if \<not> ok then
                    (case arg of
                       None \<Rightarrow> None
                     | Some e \<Rightarrow>
                         do { s \<leftarrow> serror (ex_pos e) [Txt ''argument '', Num (i + 1), Txt ('' of '' @ quote (sy_name y)
                                  @ '': cannot convert ''), TyName128 at, Txt '' to '', TyName128 p] s;
                              Some (arg, s) })
                  else do { ((_, arg), s) \<leftarrow> coerce arg p s; Some (arg, s) } }
           else promote_vararg ck arg s);
          (args, s) \<leftarrow> check_args ck y (i + 1) args s;
          Some (arg # args, s) }"

definition check_call :: "checker \<Rightarrow> srcpos \<Rightarrow> expr option \<Rightarrow> expr option list \<Rightarrow> sema \<Rightarrow>
    ((tyref \<times> expr option list) \<times> sema) option" where
  "check_call ck pos callee args s =
     (case callee of
        Some (Expr cpos _ (EXPR_NAME n)) \<Rightarrow>
          do { sym \<leftarrow> find_name s n;
               case sym of
                 None \<Rightarrow> bad_at cpos [Txt (''undeclared function '' @ quote n)] args s
               | Some y \<Rightarrow>
                   (let y = sym_at s y in
                    if sy_kind y \<noteq> SYM_FN then bad_at cpos [Txt (quote n @ '' is not a function'')] args s
                    else do {
                      s \<leftarrow> (if length args < length (sy_params y) then
                              serror pos [Txt (''too few arguments to '' @ quote (sy_name y) @ '': expected ''),
                                Num (length (sy_params y)), Txt '', got '', Num (length args)] s
                            else if length args > length (sy_params y) \<and> \<not> sy_is_variadic y then
                              serror pos [Txt (''too many arguments to '' @ quote (sy_name y) @ '': expected ''),
                                Num (length (sy_params y)), Txt '', got '', Num (length args)] s
                            else Some s);
                      (args, s) \<leftarrow> check_args ck y 0 args s;
                      Some ((case sy_type y of Some t \<Rightarrow> t | None \<Rightarrow> poison s, args), s) }) }
      | _ \<Rightarrow> bad_at pos [Txt (''only a function name can be called; v0 has no function '' @ ''pointers'')] args s)"

definition check_cast :: "checker \<Rightarrow> srcpos \<Rightarrow> expr option \<Rightarrow> ast_type option \<Rightarrow> sema \<Rightarrow>
    ((tyref \<times> expr option) \<times> sema) option" where
  "check_cast ck pos a ty s =
     do { (target, s) \<leftarrow> (case ty of Some ty \<Rightarrow> resolve ty s | None \<Rightarrow> Some (poison s, s));
          s \<leftarrow> layout_if_struct target s;
          ((from, a), s) \<leftarrow> ck a None s;
          becomes \<leftarrow> (if ty_is_untyped (ty_of s from) then assignable (se_types s) from target else Some False);
          if becomes then do { (a, s) \<leftarrow> retype_child target a s; Some ((target, a), s) }
          else do {
            ((from, a), s) \<leftarrow> (if ty_is_untyped (ty_of s from) then check_value_by ck a s else Some ((from, a), s));
            if \<not> ty_is_sized (ty_of s target) \<and> kind s target \<noteq> TY_POISON
            then bad_at pos [Txt ''cannot cast to '', TyName128 target] a s
            else do {
              ok \<leftarrow> cast_allowed (se_types s) from target;
              if \<not> ok then bad_at pos [Txt ''cannot convert '', TyName128 from, Txt '' to '', TyName128 target] a s
              else Some ((target, a), s) } } }"

definition check_name :: "srcpos \<Rightarrow> string \<Rightarrow> sema \<Rightarrow> (tyref \<times> sema) option" where
  "check_name pos n s =
     do { sym \<leftarrow> find_name s n;
          case sym of
            None \<Rightarrow> do { s \<leftarrow> serror pos [Txt (''undeclared name '' @ quote n)] s; Some (poison s, s) }
          | Some y \<Rightarrow>
              if sy_kind (sym_at s y) = SYM_FN
              then do { s \<leftarrow> serror pos [Txt (quote n @ '' is a function; v0 has no function pointers'')] s; Some (poison s, s) }
              else Some (case sy_type (sym_at s y) of Some t \<Rightarrow> t | None \<Rightarrow> poison s, s) }"

definition check_index :: "checker \<Rightarrow> srcpos \<Rightarrow> expr option \<Rightarrow> expr option \<Rightarrow> sema \<Rightarrow>
    ((tyref \<times> expr option \<times> expr option) \<times> sema) option" where
  "check_index ck pos base index s =
     do { ((bt, base), s) \<leftarrow> check_value_by ck base s;
          ((it, index), s) \<leftarrow> ck index None s;
          (index, s) \<leftarrow> (if kind s it = TY_UNTYPED_INT
             then do { ((_, index), s) \<leftarrow> coerce index (core s TY_I64) s; Some (index, s) }
             else if \<not> ty_is_integer (ty_of s it) \<and> kind s it \<noteq> TY_POISON
             then do { s \<leftarrow> serror pos [Txt ''index must be an integer, not '', TyName128 it] s; Some (index, s) }
             else Some (index, s));
          if kind s bt = TY_ARRAY then
            (case t_elem (ty_of s bt) of Some e \<Rightarrow> Some ((e, base, index), s) | None \<Rightarrow> None)
          else do {
            pointee \<leftarrow> (if kind s bt = TY_PTR
               then (case t_elem (ty_of s bt) of
                       Some e \<Rightarrow> Some (if kind s e \<noteq> TY_VOID then Some e else None)
                     | None \<Rightarrow> None)
               else Some None);
            case pointee of
              Some e \<Rightarrow> Some ((e, base, index), s)
            | None \<Rightarrow>
                if kind s bt = TY_POISON then Some ((bt, base, index), s)
                else bad_at pos [Txt ''cannot index '', TyName128 bt] (base, index) s } }"

definition check_field :: "checker \<Rightarrow> srcpos \<Rightarrow> expr option \<Rightarrow> string \<Rightarrow> sema \<Rightarrow> ((tyref \<times> expr option) \<times> sema) option" where
  "check_field ck pos base n s =
     do { ((bt, base), s) \<leftarrow> check_value_by ck base s;
          bt \<leftarrow> (if kind s bt = TY_PTR then t_elem (ty_of s bt) else Some bt);
          s \<leftarrow> layout_if_struct bt s;
          if kind s bt = TY_POISON then Some ((bt, base), s)
          else if kind s bt \<noteq> TY_STRUCT then bad_at pos [TyName128 bt, Txt '' has no fields''] base s
          else case ty_field (se_types s) (Some bt) n of
            None \<Rightarrow> bad_at pos [Txt (''struct '' @ quote (t_name (ty_of s bt)) @ '' has no field '' @ quote n)] base s
          | Some f \<Rightarrow> do { t \<leftarrow> fs_type f; Some ((t, base), s) } }"

definition check_sizeof :: "srcpos \<Rightarrow> ast_type option \<Rightarrow> sema \<Rightarrow> (tyref \<times> sema) option" where
  "check_sizeof pos ty s =
     do { (target, s) \<leftarrow> (case ty of Some ty \<Rightarrow> resolve ty s | None \<Rightarrow> Some (poison s, s));
          s \<leftarrow> layout_if_struct target s;
          s \<leftarrow> (if \<not> ty_is_sized (ty_of s target) \<and> kind s target \<noteq> TY_POISON
               then serror pos [Txt (quote ''sizeof'' @ '' needs a sized type, not ''), TyName128 target] s
               else Some s);
          Some (core s TY_U64, s) }"

text \<open>The \<open>switch\<close> of \<open>check_expr\<close>: the node's type and the node with its children as they have become.\<close>

definition check_node :: "checker \<Rightarrow> srcpos \<Rightarrow> tyref option \<Rightarrow> expr_node \<Rightarrow> sema \<Rightarrow> ((tyref \<times> expr_node) \<times> sema) option" where
  "check_node ck pos sem u s = (case u of
     EXPR_INT v \<Rightarrow> Some ((core s TY_UNTYPED_INT, u), s)
   | EXPR_CHAR v \<Rightarrow> Some ((core s TY_UNTYPED_INT, u), s)
   | EXPR_FLOAT v \<Rightarrow> Some ((core s TY_UNTYPED_FLOAT, u), s)
   | EXPR_BOOL b \<Rightarrow> Some ((core s TY_UNTYPED_BOOL, u), s)
   | EXPR_NULL \<Rightarrow> Some ((core s TY_NULL, u), s)
   | EXPR_STRING str \<Rightarrow> (let (p, s) = make_ptr (core s TY_U8) s in Some ((p, u), s))
   | EXPR_NAME n \<Rightarrow> do { (t, s) \<leftarrow> check_name pos n s; Some ((t, u), s) }
   | EXPR_UNARY op a \<Rightarrow> do { ((t, a), s) \<leftarrow> check_unary ck pos op a s; Some ((t, EXPR_UNARY op a), s) }
   | EXPR_BINARY op a b \<Rightarrow> do {
       ((_, a), s) \<leftarrow> ck a None s;
       ((_, b), s) \<leftarrow> ck b None s;
       ((t, a, b), s) \<leftarrow> check_binary_op op pos a b s;
       Some ((t, EXPR_BINARY op a b), s) }
   | EXPR_CALL f args \<Rightarrow> do { ((t, args), s) \<leftarrow> check_call ck pos f args s; Some ((t, EXPR_CALL f args), s) }
   | EXPR_INDEX a i \<Rightarrow> do { ((t, a, i), s) \<leftarrow> check_index ck pos a i s; Some ((t, EXPR_INDEX a i), s) }
   | EXPR_FIELD a n \<Rightarrow> do { ((t, a), s) \<leftarrow> check_field ck pos a n s; Some ((t, EXPR_FIELD a n), s) }
   | EXPR_CAST a ty \<Rightarrow> do { ((t, a), s) \<leftarrow> check_cast ck pos a ty s; Some ((t, EXPR_CAST a ty), s) }
   | EXPR_SIZEOF ty \<Rightarrow> do { (t, s) \<leftarrow> check_sizeof pos ty s; Some ((t, u), s) }
   | EXPR_CONV a \<Rightarrow> Some ((case sem of Some t \<Rightarrow> t | None \<Rightarrow> poison s, u), s))"

fun check_expr_n :: "nat \<Rightarrow> checker" where
  "check_expr_n n None expected s = Some ((poison s, None), s)"
| "check_expr_n 0 (Some e) expected s = None"
| "check_expr_n (Suc n) (Some (Expr pos sem u)) expected s =
     do { ((t, u), s) \<leftarrow> check_node (check_expr_n n) pos sem u s;
          let slot = Some (Expr pos (Some t) u);
          case expected of
            Some x \<Rightarrow> coerce slot x s
          | None \<Rightarrow> Some ((t, slot), s) }"

text \<open>The height of a tree; sema does not go below a conversion it has inserted.\<close>

fun expr_height :: "expr \<Rightarrow> nat" and node_height :: "expr_node \<Rightarrow> nat" and child_height :: "expr option \<Rightarrow> nat" where
  "expr_height (Expr pos sem u) = Suc (node_height u)"
| "node_height (EXPR_UNARY op a) = child_height a"
| "node_height (EXPR_BINARY op a b) = max (child_height a) (child_height b)"
| "node_height (EXPR_CALL f args) = fold max (map child_height args) 0"
| "node_height (EXPR_INDEX a i) = max (child_height a) (child_height i)"
| "node_height (EXPR_FIELD a n) = child_height a"
| "node_height (EXPR_CAST a t) = child_height a"
| "node_height u = 0"
| "child_height None = 0"
| "child_height (Some e) = expr_height e"

definition check_expr :: checker where
  "check_expr slot expected s = check_expr_n (child_height slot) slot expected s"

definition check_value :: "expr option \<Rightarrow> sema \<Rightarrow> ((tyref \<times> expr option) \<times> sema) option" where
  "check_value slot s = check_value_by check_expr slot s"

definition check_assign_target :: "expr option \<Rightarrow> sema \<Rightarrow> ((tyref \<times> expr option) \<times> sema) option" where
  "check_assign_target slot s =
     do { ((t, slot), s) \<leftarrow> check_value slot s;
          if kind s t = TY_POISON then Some ((t, slot), s)
          else case slot of
            None \<Rightarrow> None
          | Some e \<Rightarrow>
              if \<not> is_lvalue slot then bad_at (ex_pos e) [Txt ''cannot assign to this expression''] slot s
              else if kind s t = TY_ARRAY then bad_at (ex_pos e) [Txt ''cannot assign to a whole array''] slot s
              else do {
                root \<leftarrow> lvalue_root s slot;
                case root of
                  None \<Rightarrow> Some ((t, slot), s)
                | Some r \<Rightarrow>
                    (let y = sym_at s r in
                     if sy_kind y = SYM_FN \<or> sy_kind y = SYM_ENUM_MEMBER
                     then bad_at (ex_pos e) [Txt (''cannot assign to '' @ quote (sy_name y))] slot s
                     else if \<not> sy_is_mut y then
                       do { s \<leftarrow> serror (ex_pos e) [Txt (quote (sy_name y) @ '' is not mutable; declare it with '' @ quote ''let mut'')] s;
                            Some ((t, slot), snote (sy_pos y) ''declared here'' s) }
                     else Some ((t, slot), s)) } }"

end
