(* ===== verification/Slop_Sema_Stmt.thy ===== *)
theory Slop_Sema_Stmt
  imports Slop_Sema_Expr
begin

text \<open>
  \<open>src/sema/sema.c\<close>: pass 4 on statements and functions, the rest of pass 3 (globals, whose initializers are
  expressions) and the entry point. Every function gives back the tree it has checked.
\<close>

section \<open>Statements\<close>

text \<open>A slot that held a node still holds one.\<close>

definition node_in :: "expr option \<Rightarrow> expr \<Rightarrow> expr" where
  "node_in slot e = (case slot of Some x \<Rightarrow> x | None \<Rightarrow> e)"

definition check_condition :: "expr option \<Rightarrow> string \<Rightarrow> sema \<Rightarrow> (expr option \<times> sema) option" where
  "check_condition slot what s =
     do { ((t, slot), s) \<leftarrow> check_expr slot None s;
          if kind s t = TY_UNTYPED_BOOL then do { ((_, slot), s) \<leftarrow> coerce slot (core s TY_B8) s; Some (slot, s) }
          else if \<not> ty_is_bool (ty_of s t) \<and> kind s t \<noteq> TY_POISON then
            (case slot of
               None \<Rightarrow> None
             | Some e \<Rightarrow>
                 do { s \<leftarrow> serror (ex_pos e) [Txt (''the '' @ what @ '' must have type b8, b32 or b64, not ''), TyName128 t,
                          Txt (''; write '' @ quote ''x != 0'')] s;
                      Some (slot, s) })
          else Some (slot, s) }"

definition no_initializer :: "srcpos \<Rightarrow> string \<Rightarrow> sema \<Rightarrow> sema option" where
  "no_initializer pos name s =
     serror pos [Txt (quote name @ '' has no initializer, so it must be declared '' @ quote ''let mut'')] s"

definition check_var_decl :: "srcpos \<Rightarrow> bool \<Rightarrow> ast_type \<Rightarrow> string \<Rightarrow> expr option \<Rightarrow> sema \<Rightarrow> (expr option \<times> sema) option" where
  "check_var_decl pos is_mut ty name init s =
     do { (t, s) \<leftarrow> resolve ty s;
          s \<leftarrow> layout_if_struct t s;
          (t, s) \<leftarrow> (if \<not> ty_is_sized (ty_of s t) \<and> kind s t \<noteq> TY_POISON
             then do { s \<leftarrow> serror pos [Txt (quote name @ '' has type ''), TyName128 t, Txt '', which is not a value type''] s;
                       Some (poison s, s) }
             else Some (t, s));
          (init, s) \<leftarrow> (if init \<noteq> None then do { ((_, init), s) \<leftarrow> check_expr init (Some t) s; Some (init, s) }
             else if \<not> is_mut then do { s \<leftarrow> no_initializer pos name s; Some (init, s) }
             else Some (init, s));
          case scope_find_current (se_syms s) (se_scopes s) name of
            Some y \<Rightarrow>
              do { s \<leftarrow> serror pos [Txt (quote name @ '' is already declared in this scope'')] s;
                   Some (init, snote (sy_pos (sym_at s y)) ''first declared here'' s) }
          | None \<Rightarrow>
              (let (y, s) = sym_new ((sym_zero SYM_LOCAL name pos)\<lparr>sy_type := Some t, sy_is_mut := is_mut\<rparr>) s in
               Some (init, s\<lparr>se_scopes := scope_declare (se_scopes s) y\<rparr>)) }"

text \<open>One label of a match whose scrutinee has type \<open>st\<close>.\<close>

definition check_label :: "tyref \<Rightarrow> match_label \<Rightarrow> sema \<Rightarrow> (match_label \<times> sema) option" where
  "check_label st l s =
     (if ml_is_wildcard l then Some (l, s)
      else case ml_value l of
        None \<Rightarrow> Some (l, s)
      | Some e \<Rightarrow>
          (case ex_u e of
             EXPR_NAME n \<Rightarrow>
               do { sym \<leftarrow> globals_find_value (se_globals s) n;
                    case sym of
                      Some y \<Rightarrow>
                        if sy_kind (sym_at s y) = SYM_ENUM_MEMBER then
                          (case sy_type (sym_at s y) of
                             None \<Rightarrow> None
                           | Some t \<Rightarrow>
                               do { let l = MatchLabel (ml_pos l) (ml_is_wildcard l) (Some (ex_set_sem t e));
                                    ok \<leftarrow> (if kind s st \<noteq> TY_POISON then assignable (se_types s) t st else Some True);
                                    if \<not> ok
                                    then do { s \<leftarrow> serror (ml_pos l) [Txt ''label of type '', TyName128 t,
                                                Txt '' does not match '', TyName128 st] s;
                                              Some (l, s) }
                                    else Some (l, s) })
                        else do { s \<leftarrow> serror (ml_pos l)
                                    [Txt (quote n @ '' is not an enum member; a match label must be a constant'')] s;
                                  Some (l, s) }
                    | None \<Rightarrow> do { s \<leftarrow> serror (ml_pos l)
                                    [Txt (quote n @ '' is not an enum member; a match label must be a constant'')] s;
                                  Some (l, s) } }
           | _ \<Rightarrow>
               (let e = ex_set_sem (core s TY_UNTYPED_INT) e in
                if kind s st \<noteq> TY_POISON
                then do { (e, s) \<leftarrow> retype_untyped st e s; Some (MatchLabel (ml_pos l) (ml_is_wildcard l) (Some e), s) }
                else Some (MatchLabel (ml_pos l) (ml_is_wildcard l) (Some e), s))))"

fun check_labels :: "tyref \<Rightarrow> match_label list \<Rightarrow> sema \<Rightarrow> (match_label list \<times> sema) option" where
  "check_labels st [] s = Some ([], s)"
| "check_labels st (l # ls) s =
     do { (l, s) \<leftarrow> check_label st l s; (ls, s) \<leftarrow> check_labels st ls s; Some (l # ls, s) }"

text \<open>The head of \<open>check_match\<close>: the scrutinee and the type its labels have to match.\<close>

definition check_scrutinee :: "srcpos \<Rightarrow> expr option \<Rightarrow> sema \<Rightarrow> ((tyref \<times> expr option) \<times> sema) option" where
  "check_scrutinee pos slot s =
     do { ((t, slot), s) \<leftarrow> check_value slot s;
          if kind s t \<noteq> TY_POISON \<and> \<not> ty_is_integer (ty_of s t) \<and> kind s t \<noteq> TY_ENUM
          then bad_at pos [Txt ''match needs an integer or enum value, not '', TyName128 t] slot s
          else Some ((t, slot), s) }"

text \<open>The type a \<open>return\<close> has to give.\<close>

definition return_type :: "sema \<Rightarrow> tyref" where
  "return_type s = (case se_cur_fn s of
     Some y \<Rightarrow> (case sy_type (sym_at s y) of Some t \<Rightarrow> t | None \<Rightarrow> poison s)
   | None \<Rightarrow> poison s)"

definition check_return :: "srcpos \<Rightarrow> expr option \<Rightarrow> sema \<Rightarrow> (expr option \<times> sema) option" where
  "check_return pos v s =
     (let want = return_type s in
      if v = None then
        (if kind s want \<noteq> TY_VOID \<and> kind s want \<noteq> TY_POISON
         then do { s \<leftarrow> serror pos [Txt (quote ''return'' @ '' needs a value of type ''), TyName128 want] s; Some (v, s) }
         else Some (v, s))
      else if kind s want = TY_VOID then
        do { s \<leftarrow> serror pos [Txt (quote ''return'' @ '' with a value in a function returning void'')] s;
             ((_, v), s) \<leftarrow> check_value v s;
             Some (v, s) }
      else do { ((_, v), s) \<leftarrow> check_expr v (Some want) s; Some (v, s) })"

definition check_jump :: "srcpos \<Rightarrow> string \<Rightarrow> sema \<Rightarrow> sema option" where
  "check_jump pos what s =
     (if se_loop_depth s = 0 then serror pos [Txt (quote what @ '' outside a loop'')] s else Some s)"

definition check_assign :: "srcpos \<Rightarrow> expr option \<Rightarrow> token_kind \<Rightarrow> expr option \<Rightarrow> sema \<Rightarrow>
    ((expr option \<times> expr option) \<times> sema) option" where
  "check_assign pos target op v s =
     do { ((t, target), s) \<leftarrow> check_assign_target target s;
          if op = Punct TOK_EQ then do { ((_, v), s) \<leftarrow> check_expr v (Some t) s; Some ((target, v), s) }
          else do {
            ((_, v), s) \<leftarrow> check_expr v None s;
            ((result, target, v), s) \<leftarrow> check_binary_op (assign_binop op) pos target v s;
            ok \<leftarrow> (if kind s result \<noteq> TY_POISON \<and> kind s t \<noteq> TY_POISON then assignable (se_types s) result t else Some True);
            if \<not> ok
            then do { s \<leftarrow> serror pos [Txt (quote (token_kind_name op) @ '' produces ''), TyName128 result,
                            Txt '', which does not fit '', TyName128 t] s;
                      Some ((target, v), s) }
            else Some ((target, v), s) } }"

text \<open>\<open>if\<close> and \<open>while\<close> name themselves in the message of \<open>check_condition\<close>.\<close>

definition condition_of :: "string \<Rightarrow> string" where
  "condition_of w = ''condition of '' @ quote w"

fun check_stmt :: "stmt \<Rightarrow> sema \<Rightarrow> (stmt \<times> sema) option"
  and check_block :: "block \<Rightarrow> sema \<Rightarrow> (block \<times> sema) option"
  and check_stmts :: "stmt list \<Rightarrow> sema \<Rightarrow> (stmt list \<times> sema) option"
  and check_arms :: "tyref \<Rightarrow> match_arm list \<Rightarrow> sema \<Rightarrow> (match_arm list \<times> sema) option" where
  "check_stmt (STMT_BLOCK pos b) s = do { (b, s) \<leftarrow> check_block b s; Some (STMT_BLOCK pos b, s) }"
| "check_stmt (STMT_VAR pos is_mut ty name init) s =
     do { (init, s) \<leftarrow> check_var_decl pos is_mut ty name init s; Some (STMT_VAR pos is_mut ty name init, s) }"
| "check_stmt (STMT_IF pos c b None) s =
     do { (c, s) \<leftarrow> check_condition c (condition_of ''if'') s;
          (b, s) \<leftarrow> check_block b s;
          Some (STMT_IF pos c b None, s) }"
| "check_stmt (STMT_IF pos c b (Some e)) s =
     do { (c, s) \<leftarrow> check_condition c (condition_of ''if'') s;
          (b, s) \<leftarrow> check_block b s;
          (e, s) \<leftarrow> check_stmt e s;
          Some (STMT_IF pos c b (Some e), s) }"
| "check_stmt (STMT_WHILE pos c b) s =
     do { (c, s) \<leftarrow> check_condition c (condition_of ''while'') s;
          let s = s\<lparr>se_loop_depth := se_loop_depth s + 1\<rparr>;
          (b, s) \<leftarrow> check_block b s;
          Some (STMT_WHILE pos c b, s\<lparr>se_loop_depth := se_loop_depth s - 1\<rparr>) }"
| "check_stmt (STMT_MATCH pos e arms) s =
     do { ((t, e), s) \<leftarrow> check_scrutinee pos e s;
          (arms, s) \<leftarrow> check_arms t arms s;
          Some (STMT_MATCH pos e arms, s) }"
| "check_stmt (STMT_RETURN pos v) s = do { (v, s) \<leftarrow> check_return pos v s; Some (STMT_RETURN pos v, s) }"
| "check_stmt (STMT_BREAK pos) s = do { s \<leftarrow> check_jump pos ''break'' s; Some (STMT_BREAK pos, s) }"
| "check_stmt (STMT_CONTINUE pos) s = do { s \<leftarrow> check_jump pos ''continue'' s; Some (STMT_CONTINUE pos, s) }"
| "check_stmt (STMT_EXPR pos e) s =
     do { ((_, x), s) \<leftarrow> check_value (Some e) s; Some (STMT_EXPR pos (node_in x e), s) }"
| "check_stmt (STMT_ASSIGN pos e op v) s =
     do { ((x, v), s) \<leftarrow> check_assign pos (Some e) op v s; Some (STMT_ASSIGN pos (node_in x e) op v, s) }"
| "check_stmt (STMT_EMPTY pos) s = Some (STMT_EMPTY pos, s)"
| "check_block (Block ss pos) s =
     do { (ss, s) \<leftarrow> check_stmts ss (s\<lparr>se_scopes := scope_push (se_scopes s)\<rparr>);
          Some (Block ss pos, s\<lparr>se_scopes := scope_pop (se_scopes s)\<rparr>) }"
| "check_stmts [] s = Some ([], s)"
| "check_stmts (st # ss) s =
     do { (st, s) \<leftarrow> check_stmt st s; (ss, s) \<leftarrow> check_stmts ss s; Some (st # ss, s) }"
| "check_arms t [] s = Some ([], s)"
| "check_arms t (MatchArm pos ls body # arms) s =
     do { (ls, s) \<leftarrow> check_labels t ls s;
          (body, s) \<leftarrow> check_stmt body s;
          (arms, s) \<leftarrow> check_arms t arms s;
          Some (MatchArm pos ls body # arms, s) }"

section \<open>Return reachability\<close>

fun stmt_diverges :: "stmt \<Rightarrow> bool"
  and block_diverges :: "block \<Rightarrow> bool"
  and stmts_diverge :: "stmt list \<Rightarrow> bool"
  and arms_diverge :: "bool \<Rightarrow> match_arm list \<Rightarrow> bool" where
  "stmt_diverges (STMT_RETURN pos v) = True"
| "stmt_diverges (STMT_BREAK pos) = True"
| "stmt_diverges (STMT_CONTINUE pos) = True"
| "stmt_diverges (STMT_BLOCK pos b) = block_diverges b"
| "stmt_diverges (STMT_IF pos c b (Some e)) = (block_diverges b \<and> stmt_diverges e)"
| "stmt_diverges (STMT_MATCH pos e arms) = arms_diverge False arms"
| "stmt_diverges st = False"
| "block_diverges (Block ss pos) = stmts_diverge ss"
| "stmts_diverge [] = False"
| "stmts_diverge (st # ss) = (if stmt_diverges st then True else stmts_diverge ss)"
| "arms_diverge has_wildcard [] = has_wildcard"
| "arms_diverge has_wildcard (MatchArm pos ls body # arms) =
     (let has_wildcard = (has_wildcard \<or> list_ex ml_is_wildcard ls) in
      if \<not> stmt_diverges body then False else arms_diverge has_wildcard arms)"

section \<open>Functions\<close>

text \<open>The parameter loop of \<open>check_fn\<close>, which ends with the shorter of the two lists.\<close>

fun declare_params :: "param list \<Rightarrow> tyref list \<Rightarrow> sema \<Rightarrow> sema option" where
  "declare_params (p # ps) (t # ts) s =
     do { s \<leftarrow> (case scope_find_current (se_syms s) (se_scopes s) (pr_name p) of
            Some y \<Rightarrow> duplicate_of (pr_pos p) (''parameter '' @ quote (pr_name p)) (sy_pos (sym_at s y)) s
          | None \<Rightarrow>
              (let (y, s) = sym_new ((sym_zero SYM_PARAM (pr_name p) (pr_pos p))
                    \<lparr>sy_type := Some t, sy_is_mut := pr_is_mut p\<rparr>) s in
               Some (s\<lparr>se_scopes := scope_declare (se_scopes s) y\<rparr>)));
          declare_params ps ts s }"
| "declare_params _ _ s = Some s"

definition check_fn :: "symref \<Rightarrow> fn_decl \<Rightarrow> sema \<Rightarrow> (fn_decl \<times> sema) option" where
  "check_fn y fn s =
     (if \<not> fn_has_body fn then Some (fn, s)
      else do {
        let s = s\<lparr>se_cur_fn := Some y, se_loop_depth := 0, se_scopes := scope_push (se_scopes s)\<rparr>;
        s \<leftarrow> declare_params (fn_params fn) (sy_params (sym_at s y)) s;
        (body, s) \<leftarrow> check_block (fn_body fn) s;
        let s = s\<lparr>se_scopes := scope_pop (se_scopes s)\<rparr>;
        let fn = fn\<lparr>fn_body := body\<rparr>;
        s \<leftarrow> (case sy_type (sym_at s y) of
               None \<Rightarrow> Some s
             | Some t \<Rightarrow>
                 if kind s t \<noteq> TY_VOID \<and> kind s t \<noteq> TY_POISON \<and> \<not> block_diverges body
                 then serror (fn_pos fn) [Txt (''missing return in '' @ quote (fn_name fn) @ '', which returns ''), TyName128 t] s
                 else Some s);
        Some (fn, s\<lparr>se_cur_fn := None\<rparr>) })"

section \<open>Globals, and the passes over the programs\<close>

definition resolve_global :: "symref \<Rightarrow> srcpos \<Rightarrow> ast_type \<Rightarrow> expr option \<Rightarrow> sema \<Rightarrow> (expr option \<times> sema) option" where
  "resolve_global y pos ty init s =
     do { (t, s) \<leftarrow> resolve ty s;
          s \<leftarrow> layout_if_struct t s;
          (t, s) \<leftarrow> (if \<not> ty_is_sized (ty_of s t)
             then do { s \<leftarrow> serror pos [Txt (quote (sy_name (sym_at s y)) @ '' has type ''), TyName128 t,
                              Txt '', which is not a value type''] s;
                       Some (poison s, s) }
             else Some (t, s));
          let s = sym_set y (\<lambda>x. x\<lparr>sy_type := Some t\<rparr>) s;
          if init \<noteq> None then do { ((_, init), s) \<leftarrow> check_expr init (Some t) s; Some (init, s) }
          else if \<not> sy_is_mut (sym_at s y) then
            do { s \<leftarrow> no_initializer pos (sy_name (sym_at s y)) s; Some (init, s) }
          else Some (init, s) }"

text \<open>The symbol a declaration introduced, unless it was rejected as a duplicate.\<close>

definition own_symbol :: "sym_kind \<Rightarrow> (sym \<Rightarrow> bool) \<Rightarrow> string \<Rightarrow> sema \<Rightarrow> symref option option" where
  "own_symbol k is_it name s =
     do { sym \<leftarrow> globals_find_value (se_globals s) name;
          Some (case sym of
              Some y \<Rightarrow> if sy_kind (sym_at s y) = k \<and> is_it (sym_at s y) then Some y else None
            | None \<Rightarrow> None) }"

fun resolve_fns :: "nat \<Rightarrow> nat \<Rightarrow> nat \<Rightarrow> fn_decl list \<Rightarrow> sema \<Rightarrow> sema option" where
  "resolve_fns p i j [] s = Some s"
| "resolve_fns p i j (fn # fns) s =
     do { sym \<leftarrow> own_symbol SYM_FN (\<lambda>y. sy_decl y = Some (p, i, j)) (fn_name fn) s;
          s \<leftarrow> (case sym of Some y \<Rightarrow> resolve_signature y fn s | None \<Rightarrow> Some s);
          resolve_fns p i (j + 1) fns s }"

text \<open>One item of \<open>resolve_program\<close>; a global comes back with its initializer checked.\<close>

fun resolve_item :: "nat \<Rightarrow> nat \<Rightarrow> item \<Rightarrow> sema \<Rightarrow> (item \<times> sema) option" where
  "resolve_item p i (ITEM_STRUCT pos name fs) s =
     do { t \<leftarrow> globals_find_type (se_globals s) name;
          s \<leftarrow> (case t of
                 Some t \<Rightarrow> if t_decl (ty_of s t) = Some (p, i) then layout_struct t s else Some s
               | None \<Rightarrow> Some s);
          Some (ITEM_STRUCT pos name fs, s) }"
| "resolve_item p i (ITEM_ENUM pos name base ms) s = Some (ITEM_ENUM pos name base ms, s)"
| "resolve_item p i (ITEM_FN pos fn) s =
     do { sym \<leftarrow> own_symbol SYM_FN (\<lambda>y. sy_decl y = Some (p, i, 0)) (fn_name fn) s;
          s \<leftarrow> (case sym of Some y \<Rightarrow> resolve_signature y fn s | None \<Rightarrow> Some s);
          Some (ITEM_FN pos fn, s) }"
| "resolve_item p i (ITEM_GLOBAL pos is_mut ty name init) s =
     do { sym \<leftarrow> own_symbol SYM_GLOBAL (\<lambda>y. sy_item y = Some (p, i)) name s;
          case sym of
            Some y \<Rightarrow> do { (init, s) \<leftarrow> resolve_global y pos ty init s; Some (ITEM_GLOBAL pos is_mut ty name init, s) }
          | None \<Rightarrow> Some (ITEM_GLOBAL pos is_mut ty name init, s) }"
| "resolve_item p i (ITEM_EXTERN pos abi fns) s =
     do { s \<leftarrow> resolve_fns p i 0 fns s; Some (ITEM_EXTERN pos abi fns, s) }"

fun check_item :: "nat \<Rightarrow> nat \<Rightarrow> item \<Rightarrow> sema \<Rightarrow> (item \<times> sema) option" where
  "check_item p i (ITEM_FN pos fn) s =
     do { sym \<leftarrow> own_symbol SYM_FN (\<lambda>y. sy_decl y = Some (p, i, 0)) (fn_name fn) s;
          case sym of
            Some y \<Rightarrow> do { (fn, s) \<leftarrow> check_fn y fn s; Some (ITEM_FN pos fn, s) }
          | None \<Rightarrow> Some (ITEM_FN pos fn, s) }"
| "check_item p i it s = Some (it, s)"

text \<open>A pass over the items of program \<open>p\<close> from item \<open>i\<close> on; each item is written back to the tree.\<close>

definition item_set :: "nat \<Rightarrow> nat \<Rightarrow> item \<Rightarrow> sema \<Rightarrow> sema" where
  "item_set p i it s =
     s\<lparr>se_programs := (se_programs s)[p := (se_programs s ! p)\<lparr>pg_items := (pg_items (se_programs s ! p))[i := it]\<rparr>]\<rparr>"

fun each_item :: "(nat \<Rightarrow> nat \<Rightarrow> item \<Rightarrow> sema \<Rightarrow> (item \<times> sema) option) \<Rightarrow> nat \<Rightarrow> nat \<Rightarrow> item list \<Rightarrow> sema \<Rightarrow> sema option" where
  "each_item f p i [] s = Some s"
| "each_item f p i (it # its) s =
     do { (it, s) \<leftarrow> f p i it s; each_item f p (i + 1) its (item_set p i it s) }"

definition resolve_program :: "nat \<Rightarrow> sema \<Rightarrow> sema option" where
  "resolve_program p s = each_item resolve_item p 0 (pg_items (se_programs s ! p)) s"

definition check_program :: "nat \<Rightarrow> sema \<Rightarrow> sema option" where
  "check_program p s = each_item check_item p 0 (pg_items (se_programs s ! p)) s"

fun each_program :: "(nat \<Rightarrow> sema \<Rightarrow> sema option) \<Rightarrow> nat list \<Rightarrow> sema \<Rightarrow> sema option" where
  "each_program f [] s = Some s"
| "each_program f (p # ps) s = do { s \<leftarrow> f p s; each_program f ps s }"

section \<open>The entry point\<close>

definition sema_init :: "program list \<Rightarrow> sema" where
  "sema_init programs = \<lparr>se_diag = diag_init (if length programs > 0 then pg_file (programs ! 0) else ''<input>''),
     se_types = types_init, se_globals = globals_init, se_scopes = scopes_init, se_cur_fn = None, se_loop_depth = 0,
     se_syms = [], se_programs = programs\<rparr>"

text \<open>The number of errors, and the state with the checked trees; what is freed at the end is not read again.\<close>

definition sema_check :: "program list \<Rightarrow> (nat \<times> sema) option" where
  "sema_check programs =
     do { let ps = [0..<length programs];
          s \<leftarrow> each_program collect_program ps (sema_init programs);
          s \<leftarrow> each_program resolve_program ps s;
          s \<leftarrow> each_program check_program ps s;
          Some (diag_error_count (se_diag s), s) }"

definition sema_print_type :: "type_table \<Rightarrow> tyref \<Rightarrow> string option" where
  "sema_print_type tt t = ty_str tt (Some t) 128"

end
