(* ===== verification/Slop_Sema_Flow.thy ===== *)
theory Slop_Sema_Flow
  imports Slop_Sema_Stmt
begin

text \<open>
  What \<open>stmt_diverges\<close> decides. \<open>runs\<close> says how the execution of a statement can end when nothing is known of the
  values: a condition may go either way, a match takes some arm, or none if no arm is a wildcard. The analysis is
  exact for that semantics: a body diverges exactly when no run falls off its end.
\<close>

section \<open>How a statement ends\<close>

datatype outcome = Falls | Breaks | Continues | Returns

definition has_wildcard :: "match_arm list \<Rightarrow> bool" where
  "has_wildcard arms = list_ex (\<lambda>arm. case arm of MatchArm _ ls _ \<Rightarrow> list_ex ml_is_wildcard ls) arms"

inductive runs :: "stmt \<Rightarrow> outcome \<Rightarrow> bool"
  and runs_block :: "block \<Rightarrow> outcome \<Rightarrow> bool"
  and runs_list :: "stmt list \<Rightarrow> outcome \<Rightarrow> bool" where
  r_block: "runs_block b out \<Longrightarrow> runs (STMT_BLOCK pos b) out"
| r_var: "runs (STMT_VAR pos m t n i) Falls"
| r_then: "runs_block b out \<Longrightarrow> runs (STMT_IF pos c b e) out"
| r_no_else: "runs (STMT_IF pos c b None) Falls"
| r_else: "runs e out \<Longrightarrow> runs (STMT_IF pos c b (Some e)) out"
| r_while_end: "runs (STMT_WHILE pos c b) Falls"
| r_while_again: "runs_block b Falls \<Longrightarrow> runs (STMT_WHILE pos c b) out \<Longrightarrow> runs (STMT_WHILE pos c b) out"
| r_while_continue: "runs_block b Continues \<Longrightarrow> runs (STMT_WHILE pos c b) out \<Longrightarrow> runs (STMT_WHILE pos c b) out"
| r_while_break: "runs_block b Breaks \<Longrightarrow> runs (STMT_WHILE pos c b) Falls"
| r_while_return: "runs_block b Returns \<Longrightarrow> runs (STMT_WHILE pos c b) Returns"
| r_arm: "MatchArm apos ls body \<in> set arms \<Longrightarrow> runs body out \<Longrightarrow> runs (STMT_MATCH pos e arms) out"
| r_no_arm: "\<not> has_wildcard arms \<Longrightarrow> runs (STMT_MATCH pos e arms) Falls"
| r_return: "runs (STMT_RETURN pos v) Returns"
| r_break: "runs (STMT_BREAK pos) Breaks"
| r_continue: "runs (STMT_CONTINUE pos) Continues"
| r_expr: "runs (STMT_EXPR pos x) Falls"
| r_assign: "runs (STMT_ASSIGN pos x op v) Falls"
| r_empty: "runs (STMT_EMPTY pos) Falls"
| r_stmts: "runs_list ss out \<Longrightarrow> runs_block (Block ss pos) out"
| r_nil: "runs_list [] Falls"
| r_next: "runs st Falls \<Longrightarrow> runs_list ss out \<Longrightarrow> runs_list (st # ss) out"
| r_stop: "runs st out \<Longrightarrow> out \<noteq> Falls \<Longrightarrow> runs_list (st # ss) out"

inductive_simps runs_simps:
  "runs (STMT_BLOCK pos b) out" "runs (STMT_VAR pos m t n i) out" "runs (STMT_IF pos c b e) out"
  "runs (STMT_MATCH pos e arms) out" "runs (STMT_RETURN pos v) out" "runs (STMT_BREAK pos) out"
  "runs (STMT_CONTINUE pos) out" "runs (STMT_EXPR pos x) out" "runs (STMT_ASSIGN pos x op v) out" "runs (STMT_EMPTY pos) out"
  "runs_block (Block ss pos) out" "runs_list [] out" "runs_list (st # ss) out"

section \<open>Exactness of the analysis\<close>

text \<open>With no condition known, some run always gets to the end of what does not diverge.\<close>

lemma arms_diverge_iff:
  "arms_diverge w arms \<longleftrightarrow> (w \<or> has_wildcard arms) \<and> (\<forall>arm \<in> set arms. case arm of MatchArm _ _ body \<Rightarrow> stmt_diverges body)"
proof (induction arms arbitrary: w)
  case (Cons arm arms)
  then show ?case by (cases arm) (auto simp: has_wildcard_def)
qed (simp add: has_wildcard_def)

lemma diverges_iff:
  "stmt_diverges st \<longleftrightarrow> \<not> runs st Falls"
  "block_diverges b \<longleftrightarrow> \<not> runs_block b Falls"
  "(\<forall>st \<in> set (case arm of MatchArm _ _ body \<Rightarrow> [body]). stmt_diverges st \<longleftrightarrow> \<not> runs st Falls)"
proof (induction st and b and arm)
  case (STMT_IF pos c b e)
  then show ?case by (cases e) (auto simp: runs_simps)
next
  case (STMT_WHILE pos c b)
  show ?case by (simp add: r_while_end)
next
  case (STMT_MATCH pos e arms)
  then show ?case by (fastforce simp: runs_simps arms_diverge_iff split: match_arm.splits)
next
  case (Block ss pos)
  then have "stmts_diverge ss \<longleftrightarrow> \<not> runs_list ss Falls"
    by (induction ss) (auto simp: runs_simps)
  then show ?case by (simp add: runs_simps)
qed (auto simp: runs_simps)

text \<open>
  C25. The missing-return analysis is exact for control flow with unknown conditions: a body is found to diverge
  exactly when no execution of it reaches its end.
\<close>
theorem block_diverges_exact: "block_diverges b \<longleftrightarrow> \<not> runs_block b Falls"
  by (rule diverges_iff(2))

end
