(* ===== verification/Slop_Sema_Inv.thy ===== *)
theory Slop_Sema_Inv
  imports Slop_Sema Slop_Types_Props
begin

text \<open>
  The invariant of the semantic analysis, and what its passes keep of the state. \<open>sema_ok\<close> says that every
  reference in the state is in range, so that no message, lookup or conversion test reads outside the table; \<open>kept\<close> says
  what the analysis of an expression may change: it reports errors, adds types and lays out structs.
  While no error has been reported no field, element or symbol has an improper type.
\<close>

section \<open>Results that are a state or a value\<close>

definition ends :: "'a option \<Rightarrow> ('a \<Rightarrow> bool) \<Rightarrow> bool" where
  "ends m Q = (case m of None \<Rightarrow> False | Some x \<Rightarrow> Q x)"

lemma ends_Some [simp]: "ends (Some x) Q = Q x"
  by (simp add: ends_def)

lemma ends_None [simp]: "\<not> ends None Q"
  by (simp add: ends_def)

lemma ends_mono: "ends m Q \<Longrightarrow> (\<And>x. Q x \<Longrightarrow> R x) \<Longrightarrow> ends m R"
  by (auto simp: ends_def split: option.splits)

lemma ends_bind: "ends m P \<Longrightarrow> (\<And>x. P x \<Longrightarrow> ends (f x) Q) \<Longrightarrow> ends (Option.bind m f) Q"
  by (cases m) auto

lemma ends_wp: "wp m Q = ends m (\<lambda>(r, s). Q r s)"
  by (auto simp: wp_def ends_def split: option.splits)

lemma wp_step: "wp m P \<Longrightarrow> (\<And>r s. P r s \<Longrightarrow> wp (f r s) Q) \<Longrightarrow> wp (Option.bind m (\<lambda>(r, s). f r s)) Q"
  by (cases m) auto

lemma wp_ends: "ends m P \<Longrightarrow> (\<And>x. P x \<Longrightarrow> wp (f x) Q) \<Longrightarrow> wp (Option.bind m f) Q"
  by (cases m) auto

lemma ends_iff: "ends m Q \<longleftrightarrow> (\<exists>x. m = Some x \<and> Q x)"
  by (auto simp: ends_def split: option.splits)

section \<open>The singletons of a table\<close>

lemma core_table: "types_ok tt \<Longrightarrow> tt_core tt = tt_core types_init"
  by (simp add: types_ok_def)

lemma core_ref: "types_ok tt \<Longrightarrow> ty_core tt k = ty_core types_init k"
  by (simp add: ty_core_def core_table)

lemma core_at:
  "r < 17 \<Longrightarrow> map core_entry core_layout ! r
    = (ty_zero (fst (core_layout ! r)))\<lparr>t_size := fst (snd (core_layout ! r)), t_align := snd (snd (core_layout ! r))\<rparr>"
proof -
  have "length core_layout = 17" by (simp add: core_layout_def)
  then show "r < 17 \<Longrightarrow> ?thesis" by (simp add: core_entry_def)
qed

lemma core_kind_at: "types_ok tt \<Longrightarrow> r < 17 \<Longrightarrow> t_kind (ty_at tt r) = fst (core_layout ! r)"
  by (simp add: ty_at_def core_heap core_at ty_zero_def del: nth_map)

text \<open>A kind that only singletons have names one reference.\<close>

definition core_kind :: "ty_kind \<Rightarrow> bool" where
  "core_kind k \<longleftrightarrow> k \<notin> {TY_PTR, TY_ARRAY, TY_STRUCT, TY_ENUM}"

lemma valid_core: "types_ok tt \<Longrightarrow> r < 17 \<Longrightarrow> valid tt r"
  by (simp add: types_ok_def valid_def)

lemma kind_core:
  assumes "types_ok tt" and "valid tt r" and "core_kind (t_kind (ty_at tt r))"
  shows "ty_core tt (t_kind (ty_at tt r)) = Some r"
proof -
  have r: "r < 17"
  proof (rule ccontr)
    assume "\<not> r < 17"
    with assms have "derived_ok (tt_heap tt) r" by (simp add: types_ok_def valid_def)
    with assms(3) show False by (auto simp: derived_ok_def core_kind_def ty_at_def split: ty_kind.splits)
  qed
  have "list_all (\<lambda>i. ty_core types_init (fst (core_layout ! i)) = Some i) [0..<17]"
    by (simp add: core_layout_def ty_core_init upt_rec [of _ 17])
  with r have "ty_core types_init (fst (core_layout ! r)) = Some r" by (simp add: list_all_iff)
  then show ?thesis using r by (simp add: core_ref [OF assms(1)] core_kind_at [OF assms(1)])
qed

lemma core_is:
  assumes "types_ok (se_types s)" and "core_kind k"
  shows "valid (se_types s) (core s k)" and "kind s (core s k) = k"
proof -
  have "ty_core (se_types s) k = Some (core s k) \<and> core s k < 17 \<and> fst (core_layout ! core s k) = k"
    using assms(2) by (cases k) (simp_all add: core_def core_ref [OF assms(1)] ty_core_init core_layout_def core_kind_def)
  then show "valid (se_types s) (core s k)" "kind s (core s k) = k"
    using assms(1) by (simp_all add: valid_core kind_def core_kind_at)
qed

lemma kind_is_core:
  assumes "types_ok (se_types s)" and "valid (se_types s) r" and "core_kind k"
  shows "kind s r = k \<longleftrightarrow> r = core s k"
  using kind_core [OF assms(1,2)] core_is [OF assms(1,3)] assms(3) by (auto simp: kind_def core_def)

section \<open>Growth of the table\<close>

text \<open>What an object keeps: an enum may still get its members, a struct is fixed once it is laid out.\<close>

definition same_type :: "ty \<Rightarrow> ty \<Rightarrow> bool" where
  "same_type a b \<longleftrightarrow>
     (if t_kind a = TY_STRUCT \<and> t_state a \<noteq> LAYOUT_DONE
      then b = a\<lparr>t_size := t_size b, t_align := t_align b, t_fields := t_fields b, t_state := t_state b\<rparr>
        \<and> (t_state a = LAYOUT_IN_PROGRESS \<longrightarrow> t_state b \<noteq> LAYOUT_UNSTARTED)
      else b = a)"

definition types_grow :: "type_table \<Rightarrow> type_table \<Rightarrow> bool" where
  "types_grow tt tt' \<longleftrightarrow> length (tt_heap tt) \<le> length (tt_heap tt')
     \<and> (\<forall>r. valid tt r \<longrightarrow> same_type (ty_at tt r) (ty_at tt' r))
     \<and> (\<forall>r. valid tt' r \<and> \<not> valid tt r \<longrightarrow> t_kind (ty_at tt' r) \<in> {TY_PTR, TY_ARRAY})"

lemma same_type_refl [simp]: "same_type a a"
  by (simp add: same_type_def)

lemma same_type_struct:
  "same_type a b \<Longrightarrow> t_kind a = TY_STRUCT \<Longrightarrow>
    b = a\<lparr>t_size := t_size b, t_align := t_align b, t_fields := t_fields b, t_state := t_state b\<rparr>"
  by (simp add: same_type_def split: if_splits)

lemma same_type_keeps:
  assumes "same_type a b"
  shows "t_kind b = t_kind a" "t_elem b = t_elem a" "t_length b = t_length a" "t_base b = t_base a" "t_name b = t_name a"
    "t_decl b = t_decl a" "t_pos b = t_pos a" "t_members b = t_members a"
proof -
  have "\<exists>n al fs st. b = a\<lparr>t_size := n, t_align := al, t_fields := fs, t_state := st\<rparr>" if "t_kind a = TY_STRUCT"
    using same_type_struct [OF assms that] by blast
  then obtain n al fs st where "b = a\<lparr>t_size := n, t_align := al, t_fields := fs, t_state := st\<rparr> \<or> b = a"
    using assms unfolding same_type_def by metis
  then show "t_kind b = t_kind a" "t_elem b = t_elem a" "t_length b = t_length a" "t_base b = t_base a" "t_name b = t_name a"
    "t_decl b = t_decl a" "t_pos b = t_pos a" "t_members b = t_members a" by auto
qed

lemma same_type_state: "same_type a b \<Longrightarrow> t_state b = LAYOUT_UNSTARTED \<Longrightarrow> t_state a = LAYOUT_UNSTARTED"
  by (cases "t_state a") (auto simp: same_type_def split: if_splits)

lemma same_type_trans:
  assumes "same_type a b" "same_type b c"
  shows "same_type a c"
proof (cases "t_kind a = TY_STRUCT \<and> t_state a \<noteq> LAYOUT_DONE")
  case True
  have b: "b = a\<lparr>t_size := t_size b, t_align := t_align b, t_fields := t_fields b, t_state := t_state b\<rparr>"
    using same_type_struct [OF assms(1)] True by blast
  have c: "c = b\<lparr>t_size := t_size c, t_align := t_align c, t_fields := t_fields c, t_state := t_state c\<rparr>"
    using same_type_struct [OF assms(2)] True same_type_keeps(1) [OF assms(1)] by simp
  have "c = a\<lparr>t_size := t_size c, t_align := t_align c, t_fields := t_fields c, t_state := t_state c\<rparr>"
    by (subst c, subst b) simp
  moreover have "t_state a = LAYOUT_IN_PROGRESS \<longrightarrow> t_state c \<noteq> LAYOUT_UNSTARTED"
    using same_type_state [OF assms(1)] same_type_state [OF assms(2)] by auto
  ultimately show ?thesis using True by (simp add: same_type_def)
next
  case False
  then have "b = a" using assms(1) unfolding same_type_def by meson
  with assms(2) show ?thesis by simp
qed

lemma types_grow_refl [simp]: "types_grow tt tt"
  by (simp add: types_grow_def)

lemma types_grow_valid: "types_grow tt tt' \<Longrightarrow> valid tt r \<Longrightarrow> valid tt' r"
  by (simp add: types_grow_def valid_def)

lemma types_grow_same: "types_grow tt tt' \<Longrightarrow> valid tt r \<Longrightarrow> same_type (ty_at tt r) (ty_at tt' r)"
  by (simp add: types_grow_def)

lemma types_grow_trans:
  assumes "types_grow tt tt'" "types_grow tt' tt''"
  shows "types_grow tt tt''"
proof -
  have "t_kind (ty_at tt'' r) \<in> {TY_PTR, TY_ARRAY}" if "valid tt'' r" "\<not> valid tt r" for r
    using assms that same_type_keeps(1) [OF types_grow_same [OF assms(2), of r]]
    unfolding types_grow_def by (cases "valid tt' r") auto
  then show ?thesis
    using assms same_type_trans [OF types_grow_same [OF assms(1)] types_grow_same [OF assms(2) types_grow_valid [OF assms(1)]]]
    unfolding types_grow_def by (meson le_trans)
qed

lemmas types_grow_keeps = same_type_keeps [OF types_grow_same]

lemma types_grow_at:
  "types_grow tt tt' \<Longrightarrow> valid tt r \<Longrightarrow> t_kind (ty_at tt r) \<noteq> TY_STRUCT \<or> t_state (ty_at tt r) = LAYOUT_DONE \<Longrightarrow>
    ty_at tt' r = ty_at tt r"
  using types_grow_same [of tt tt' r] by (auto simp: same_type_def)

section \<open>The invariant\<close>

definition nerr :: "sema \<Rightarrow> nat" where
  "nerr s = diag_error_count (se_diag s)"

definition sym_ok :: "type_table \<Rightarrow> sym \<Rightarrow> bool" where
  "sym_ok tt y \<longleftrightarrow> (\<forall>t. sy_type y = Some t \<longrightarrow> valid tt t) \<and> (\<forall>t \<in> set (sy_params y). valid tt t)
     \<and> (sy_kind y = SYM_ENUM_MEMBER \<longrightarrow> sy_type y \<noteq> None)"

definition fields_ok :: "type_table \<Rightarrow> bool" where
  "fields_ok tt \<longleftrightarrow> (\<forall>r. valid tt r \<longrightarrow> (\<forall>f \<in> set (t_fields (ty_at tt r)). \<exists>t. fs_type f = Some t \<and> valid tt t))"

text \<open>A proper type is one of a value the program declares: not poison, and not the type of a literal.\<close>

definition typed_kind :: "ty_kind \<Rightarrow> bool" where
  "typed_kind k \<longleftrightarrow> k \<notin> {TY_UNTYPED_INT, TY_UNTYPED_FLOAT, TY_UNTYPED_BOOL, TY_NULL}"

definition proper :: "type_table \<Rightarrow> tyref \<Rightarrow> bool" where
  "proper tt t \<longleftrightarrow> typed_kind (t_kind (ty_at tt t)) \<and> t_kind (ty_at tt t) \<noteq> TY_POISON"

definition has_elem :: "ty \<Rightarrow> bool" where
  "has_elem t \<longleftrightarrow> t_kind t = TY_PTR \<or> t_kind t = TY_ARRAY"

definition clean_types :: "type_table \<Rightarrow> bool" where
  "clean_types tt \<longleftrightarrow> (\<forall>r. valid tt r \<longrightarrow> (\<forall>e. has_elem (ty_at tt r) \<and> t_elem (ty_at tt r) = Some e \<longrightarrow> proper tt e)
     \<and> (\<forall>f \<in> set (t_fields (ty_at tt r)). \<forall>u. fs_type f = Some u \<longrightarrow> proper tt u))"

definition clean_sym :: "type_table \<Rightarrow> sym \<Rightarrow> bool" where
  "clean_sym tt y \<longleftrightarrow> (\<forall>t. sy_type y = Some t \<longrightarrow> proper tt t) \<and> (\<forall>t \<in> set (sy_params y). proper tt t)"

text \<open>A type as the parser makes it names core types by their keywords.\<close>

fun wf_type :: "ast_type \<Rightarrow> bool" where
  "wf_type (TYPE_CORE pos k) = token_is_core_type k"
| "wf_type (TYPE_NAME pos n) = True"
| "wf_type (TYPE_POINTER pos t) = wf_type t"
| "wf_type (TYPE_ARRAY pos t n) = wf_type t"

definition structs_wf :: "sema \<Rightarrow> bool" where
  "structs_wf s \<longleftrightarrow> (\<forall>path. \<forall>f \<in> set (struct_fields s path). wf_type (fd_type f))"

lemma struct_fields_update [simp]:
  "struct_fields (s\<lparr>se_diag := d\<rparr>) = struct_fields s" "struct_fields (s\<lparr>se_types := tt\<rparr>) = struct_fields s"
  "struct_fields (s\<lparr>se_scopes := sc\<rparr>) = struct_fields s" "struct_fields (s\<lparr>se_syms := ys\<rparr>) = struct_fields s"
  "struct_fields (s\<lparr>se_cur_fn := y\<rparr>) = struct_fields s" "struct_fields (s\<lparr>se_loop_depth := n\<rparr>) = struct_fields s"
  "struct_fields (s\<lparr>se_globals := g\<rparr>) = struct_fields s"
  by (simp_all add: struct_fields_def fun_eq_iff)

lemma structs_wf_update [simp]:
  "structs_wf (s\<lparr>se_diag := d\<rparr>) = structs_wf s" "structs_wf (s\<lparr>se_types := tt\<rparr>) = structs_wf s"
  "structs_wf (s\<lparr>se_scopes := sc\<rparr>) = structs_wf s" "structs_wf (s\<lparr>se_syms := ys\<rparr>) = structs_wf s"
  "structs_wf (s\<lparr>se_cur_fn := y\<rparr>) = structs_wf s" "structs_wf (s\<lparr>se_loop_depth := n\<rparr>) = structs_wf s"
  "structs_wf (s\<lparr>se_globals := g\<rparr>) = structs_wf s"
  by (simp_all add: structs_wf_def)

definition sema_ok :: "nat \<Rightarrow> sema \<Rightarrow> bool" where
  "sema_ok n s \<longleftrightarrow> types_ok (se_types s) \<and> fields_ok (se_types s) \<and> globals_ok (se_globals s) n
     \<and> (\<forall>k t. map_abs (gl_types (se_globals s)) k = Some t \<longrightarrow> valid (se_types s) t
          \<and> kind s t \<in> {TY_STRUCT, TY_ENUM})
     \<and> (\<forall>k y. map_abs (gl_values (se_globals s)) k = Some y \<longrightarrow> y < length (se_syms s))
     \<and> structs_wf s \<and> sc_ok (se_scopes s) \<and> (\<forall>y \<in> set (sc_syms (se_scopes s)). y < length (se_syms s))
     \<and> (\<forall>y. se_cur_fn s = Some y \<longrightarrow> y < length (se_syms s))
     \<and> (\<forall>y \<in> set (se_syms s). sym_ok (se_types s) y)
     \<and> (nerr s = 0 \<longrightarrow> clean_types (se_types s) \<and> (\<forall>y \<in> set (se_syms s). clean_sym (se_types s) y))"

text \<open>What expressions, types and layouts keep.\<close>

definition kept :: "sema \<Rightarrow> sema \<Rightarrow> bool" where
  "kept s s' \<longleftrightarrow> types_grow (se_types s) (se_types s') \<and> nerr s \<le> nerr s'
     \<and> s' = s\<lparr>se_diag := se_diag s', se_types := se_types s'\<rparr>"

lemma kept_refl [simp]: "kept s s"
  by (simp add: kept_def)

lemma kept_same:
  assumes "kept s s'"
  shows "se_globals s' = se_globals s" "se_scopes s' = se_scopes s" "se_cur_fn s' = se_cur_fn s"
    "se_loop_depth s' = se_loop_depth s" "se_syms s' = se_syms s" "se_programs s' = se_programs s"
proof -
  obtain d tt where "s' = s\<lparr>se_diag := d, se_types := tt\<rparr>" using assms unfolding kept_def by metis
  then show "se_globals s' = se_globals s" "se_scopes s' = se_scopes s" "se_cur_fn s' = se_cur_fn s"
    "se_loop_depth s' = se_loop_depth s" "se_syms s' = se_syms s" "se_programs s' = se_programs s" by simp_all
qed

lemma keptD:
  assumes "kept s s'"
  shows "types_grow (se_types s) (se_types s')" "nerr s \<le> nerr s'"
  using assms by (simp_all add: kept_def)

lemma kept_trans [trans]:
  assumes "kept s s'" "kept s' s''"
  shows "kept s s''"
proof -
  obtain d tt where s': "s' = s\<lparr>se_diag := d, se_types := tt\<rparr>" using assms(1) unfolding kept_def by metis
  have "s'' = s'\<lparr>se_diag := se_diag s'', se_types := se_types s''\<rparr>" using assms(2) by (simp add: kept_def)
  then have "s'' = s\<lparr>se_diag := se_diag s'', se_types := se_types s''\<rparr>" unfolding s' by simp
  moreover have "types_grow (se_types s) (se_types s'')"
    using keptD(1) [OF assms(1)] keptD(1) [OF assms(2)] by (rule types_grow_trans)
  ultimately show ?thesis
    using keptD(2) [OF assms(1)] keptD(2) [OF assms(2)] by (simp add: kept_def)
qed

lemma kept_valid: "kept s s' \<Longrightarrow> valid (se_types s) r \<Longrightarrow> valid (se_types s') r"
  by (rule types_grow_valid [OF keptD(1)])

lemma kept_kind: "kept s s' \<Longrightarrow> valid (se_types s) r \<Longrightarrow> kind s' r = kind s r"
  unfolding kind_def by (rule types_grow_keeps(1) [OF keptD(1)])

section \<open>Messages\<close>

fun piece_ok :: "sema \<Rightarrow> piece \<Rightarrow> bool" where
  "piece_ok s (TyName cap t) = valid (se_types s) t"
| "piece_ok s p = True"

lemma message_ends:
  "types_ok (se_types s) \<Longrightarrow> list_all (piece_ok s) ps \<Longrightarrow> ends (message s ps) (\<lambda>_. True)"
proof (induction ps)
  case (Cons p ps)
  have "\<exists>t. piece_text s p = Some t"
    using Cons.prems render_spelling [of "se_types s" _ _ "[]"] by (cases p) (auto simp: ty_str_def)
  then show ?case using Cons by (auto simp: ends_iff)
qed simp

lemma sema_okD:
  assumes "sema_ok n s"
  shows "types_ok (se_types s)" "fields_ok (se_types s)" "globals_ok (se_globals s) n"
    "map_abs (gl_types (se_globals s)) k = Some t \<Longrightarrow> valid (se_types s) t \<and> kind s t \<in> {TY_STRUCT, TY_ENUM}"
    "map_abs (gl_values (se_globals s)) k = Some y \<Longrightarrow> y < length (se_syms s)"
    "sc_ok (se_scopes s)" "y \<in> set (sc_syms (se_scopes s)) \<Longrightarrow> y < length (se_syms s)"
    "se_cur_fn s = Some y \<Longrightarrow> y < length (se_syms s)"
    "y < length (se_syms s) \<Longrightarrow> sym_ok (se_types s) (sym_at s y)"
    "structs_wf s"
    "nerr s = 0 \<Longrightarrow> clean_types (se_types s)"
    "nerr s = 0 \<Longrightarrow> y < length (se_syms s) \<Longrightarrow> clean_sym (se_types s) (sym_at s y)"
  using assms by (auto simp: sema_ok_def sym_at_def)

lemma nerr_diag [simp]:
  "nerr (s\<lparr>se_diag := diag_error d pos m\<rparr>) = Suc (diag_error_count d)"
  "nerr (snote pos m s) = nerr s"
  by (simp_all add: nerr_def snote_def)

lemma sema_ok_note:
  assumes "sema_ok n s"
  shows "sema_ok n (snote pos m s)"
  using assms unfolding sema_ok_def by (simp add: kind_def) (simp add: snote_def kind_def)

lemma kept_note [simp]: "kept s (snote pos m s)"
  unfolding kept_def by simp (simp add: snote_def)

text \<open>An error keeps the state, and ends the time in which nothing is poison.\<close>

definition after_error :: "nat \<Rightarrow> sema \<Rightarrow> sema \<Rightarrow> bool" where
  "after_error n s s' \<longleftrightarrow> sema_ok n s' \<and> kept s s' \<and> 0 < nerr s' \<and> nerr s < nerr s' \<and> se_types s' = se_types s"

lemma serror_ends:
  assumes "sema_ok n s" and "list_all (piece_ok s) ps"
  shows "ends (serror pos ps s) (after_error n s)"
proof -
  obtain m where m: "message s ps = Some m"
    using message_ends [OF sema_okD(1) [OF assms(1)] assms(2)] by (auto simp: ends_iff)
  let ?s = "s\<lparr>se_diag := diag_error (se_diag s) pos m\<rparr>"
  have "nerr ?s = Suc (nerr s)" by (simp add: nerr_def)
  then have "after_error n s ?s"
    using assms(1) by (auto simp: after_error_def sema_ok_def kept_def kind_def)
  then show ?thesis by (simp add: serror_def m)
qed

lemma wp_serror:
  "sema_ok n s \<Longrightarrow> list_all (piece_ok s) ps \<Longrightarrow> (\<And>s'. after_error n s s' \<Longrightarrow> wp (f s') Q) \<Longrightarrow>
    wp (Option.bind (serror pos ps s) f) Q"
  by (rule wp_ends [OF serror_ends])

lemma ends_serror:
  "sema_ok n s \<Longrightarrow> list_all (piece_ok s) ps \<Longrightarrow> (\<And>s'. after_error n s s' \<Longrightarrow> ends (f s') Q) \<Longrightarrow>
    ends (Option.bind (serror pos ps s) f) Q"
  by (rule ends_bind [OF serror_ends])

lemma duplicate_ends:
  assumes "sema_ok n s"
  shows "ends (duplicate_of pos what first s) (after_error n s)"
  unfolding duplicate_of_def
proof (rule ends_bind [OF serror_ends [OF assms]])
  fix x assume x: "after_error n s x"
  then have "kept s (snote first ''first declared here'' x)"
    unfolding after_error_def using kept_trans kept_note by blast
  with x show "ends (Some (snote first ''first declared here'' x)) (after_error n s)"
    by (simp add: after_error_def sema_ok_note) (simp add: snote_def)
qed simp

section \<open>The type table in the state\<close>

lemma poison_ref: "types_ok (se_types s) \<Longrightarrow> ty_core (se_types s) TY_POISON = Some (poison s)"
  by (simp add: poison_def core_def core_ref ty_core_init)

lemma poison_is:
  assumes "types_ok (se_types s)"
  shows "valid (se_types s) (poison s)" "kind s (poison s) = TY_POISON"
  using core_is [OF assms, of TY_POISON] by (simp_all add: poison_def core_kind_def)

lemma kind_poison:
  "types_ok (se_types s) \<Longrightarrow> valid (se_types s) r \<Longrightarrow> kind s r = TY_POISON \<longleftrightarrow> r = poison s"
  unfolding poison_def by (rule kind_is_core) (simp_all add: core_kind_def)

text \<open>A step that leaves symbols, scopes and globals alone and adds to the table.\<close>

lemma sema_ok_types:
  assumes "sema_ok n s" and "types_ok tt" and "fields_ok tt"
    and grow: "\<And>r. valid (se_types s) r \<Longrightarrow> valid tt r \<and> t_kind (ty_at tt r) = t_kind (ty_at (se_types s) r)"
    and "nerr s = 0 \<Longrightarrow> clean_types tt"
  shows "sema_ok n (s\<lparr>se_types := tt\<rparr>)"
proof -
  have "nerr (s\<lparr>se_types := tt\<rparr>) = nerr s" by (simp add: nerr_def)
  moreover have "sym_ok tt y" if "sym_ok (se_types s) y" for y
    using that grow by (auto simp: sym_ok_def)
  moreover have "clean_sym tt y" if "sym_ok (se_types s) y" "clean_sym (se_types s) y" for y
    using that grow by (auto simp: sym_ok_def clean_sym_def proper_def)
  ultimately show ?thesis
    using assms by (auto simp: sema_ok_def kind_def)
qed

lemma core_grow:
  "types_grow (se_types s) (se_types s') \<Longrightarrow> types_ok (se_types s) \<Longrightarrow> types_ok (se_types s') \<Longrightarrow> core s' k = core s k"
  by (simp add: core_def core_ref)

lemma extends_grow:
  assumes "tt_heap tt' = tt_heap tt \<or> (tt_heap tt' = tt_heap tt @ [t] \<and> t_kind t \<in> {TY_PTR, TY_ARRAY})"
  shows "types_grow tt tt'"
  using assms by (auto simp: types_grow_def valid_def ty_at_def nth_append less_Suc_eq)

text \<open>A pointer or array type of \<open>e\<close>, found or made.\<close>

definition derived_of :: "tyref \<Rightarrow> ty \<Rightarrow> type_table \<Rightarrow> tyref \<times> type_table \<Rightarrow> bool" where
  "derived_of e t tt r \<longleftrightarrow> (case r of (p, tt') \<Rightarrow>
     types_ok tt' \<and> valid tt' p \<and> t_kind (ty_at tt' p) = t_kind t \<and> t_elem (ty_at tt' p) = Some e \<and> (t_kind t = TY_ARRAY \<longrightarrow> t_length (ty_at tt' p) = t_length t)
     \<and> (tt' = tt \<or> tt_heap tt' = tt_heap tt @ [t]))"

lemma ty_ptr_derived:
  assumes "types_ok tt" and "valid tt e"
  shows "derived_of e ((ty_zero TY_PTR)\<lparr>t_elem := Some e, t_size := PTR_SIZE, t_align := PTR_ALIGN\<rparr>) tt (ty_ptr tt e)"
proof -
  have "types_ok (snd (ty_ptr tt e))" "valid (snd (ty_ptr tt e)) (fst (ty_ptr tt e))"
    using ty_ptr_makes [OF assms] by (auto simp: makes_def)
  moreover note find_derived [OF assms(1), of "\<lambda>t. t_kind t = TY_PTR \<and> t_elem t = Some e", OF refl]
  ultimately show ?thesis
    by (cases "find (\<lambda>d. t_kind (ty_at tt d) = TY_PTR \<and> t_elem (ty_at tt d) = Some e) (tt_derived tt)")
      (auto simp: derived_of_def ty_ptr_def ty_new_def derived_push_def ty_at_def ty_zero_def
        split: prod.splits)
qed

lemma ty_array_derived:
  assumes "types_ok tt" and "valid tt e"
  shows "derived_of e ((ty_zero TY_ARRAY)\<lparr>t_elem := Some e, t_length := n,
     t_size := ucast (n * ucast (t_size (ty_at tt e))), t_align := t_align (ty_at tt e)\<rparr>) tt (ty_array tt e n)"
proof -
  have "types_ok (snd (ty_array tt e n))" "valid (snd (ty_array tt e n)) (fst (ty_array tt e n))"
    using ty_array_makes [OF assms, of n] by (auto simp: makes_def)
  moreover note find_derived [OF assms(1), of "\<lambda>t. t_kind t = TY_ARRAY \<and> t_elem t = Some e \<and> t_length t = n", OF refl]
  ultimately show ?thesis
    by (cases "find (\<lambda>d. t_kind (ty_at tt d) = TY_ARRAY \<and> t_elem (ty_at tt d) = Some e \<and> t_length (ty_at tt d) = n) (tt_derived tt)")
      (auto simp: derived_of_def ty_array_def ty_new_def derived_push_def ty_at_def ty_zero_def
        split: prod.splits)
qed

text \<open>An element is an older type.\<close>

lemma elem_valid:
  assumes "types_ok tt" "valid tt r" "has_elem (ty_at tt r)"
  shows "\<exists>e. t_elem (ty_at tt r) = Some e \<and> valid tt e"
proof (cases "r < 17")
  case True
  then show ?thesis using core_kinds [OF True] core_heap [OF assms(1) True] assms(3) by (auto simp: has_elem_def ty_at_def)
next
  case False
  with assms(1,2) have "derived_ok (tt_heap tt) r" by (simp add: types_ok_def valid_def)
  then show ?thesis using assms(2,3) by (auto simp: derived_ok_def has_elem_def valid_def ty_at_def)
qed

lemma derived_of_sema:
  assumes ok: "sema_ok n s" and d: "derived_of e t (se_types s) (p, tt')"
    and t: "t_kind t \<in> {TY_PTR, TY_ARRAY}" "t_elem t = Some e" "t_fields t = []"
    and e: "valid (se_types s) e" "nerr s = 0 \<Longrightarrow> proper (se_types s) e"
  shows "sema_ok n (s\<lparr>se_types := tt'\<rparr>)" "kept s (s\<lparr>se_types := tt'\<rparr>)"
proof -
  note T = sema_okD(1) [OF ok]
  have h: "tt' = se_types s \<or> tt_heap tt' = tt_heap (se_types s) @ [t]" and T': "types_ok tt'"
    using d by (auto simp: derived_of_def)
  then have g: "types_grow (se_types s) tt'" using t(1) by (intro extends_grow) auto
  have v: "r = length (tt_heap (se_types s))" if "valid tt' r" "\<not> valid (se_types s) r" for r
    using h that by (auto simp: valid_def)
  have at: "ty_at tt' r = (if valid (se_types s) r then ty_at (se_types s) r else t)" if "valid tt' r" for r
    using h that v [OF that] by (auto simp: valid_def ty_at_def nth_append)
  have old: "valid (se_types s) u \<Longrightarrow> valid tt' u" for u by (rule types_grow_valid [OF g])
  have "fields_ok tt'"
    unfolding fields_ok_def
  proof (intro allI impI ballI)
    fix r f assume "valid tt' r" "f \<in> set (t_fields (ty_at tt' r))"
    then show "\<exists>u. fs_type f = Some u \<and> valid tt' u"
      using sema_okD(2) [OF ok] at [of r] t(3) old by (force simp: fields_ok_def split: if_splits)
  qed
  moreover have "clean_types tt'" if z: "nerr s = 0"
  proof -
    have pr: "valid (se_types s) u \<Longrightarrow> proper (se_types s) u \<Longrightarrow> proper tt' u" for u
      using at [OF old] by (simp add: proper_def)
    note C = sema_okD(11) [OF ok z, unfolded clean_types_def]
    show ?thesis
      unfolding clean_types_def
    proof (intro allI impI conjI ballI)
      fix r e' assume r: "valid tt' r" "has_elem (ty_at tt' r) \<and> t_elem (ty_at tt' r) = Some e'"
      show "proper tt' e'"
      proof (cases "valid (se_types s) r")
        case True
        with r at [OF r(1)] C elem_valid [OF T True] show ?thesis by (auto intro: pr)
      next
        case False
        with r at [OF r(1)] t(2) have "e' = e" by auto
        with pr [OF e(1) e(2) [OF z]] show ?thesis by simp
      qed
    next
      fix r f u assume "valid tt' r" "f \<in> set (t_fields (ty_at tt' r))" "fs_type f = Some u"
      then show "proper tt' u"
        using at [of r] t(3) C sema_okD(2) [OF ok] by (fastforce simp: fields_ok_def intro: pr split: if_splits)
    qed
  qed
  ultimately show "sema_ok n (s\<lparr>se_types := tt'\<rparr>)"
    using old types_grow_keeps(1) [OF g] by (intro sema_ok_types [OF ok T']) auto
  show "kept s (s\<lparr>se_types := tt'\<rparr>)" using g by (simp add: kept_def nerr_def)
qed

lemma make_ptr_ok:
  assumes "sema_ok n s" and "valid (se_types s) e" and "nerr s = 0 \<Longrightarrow> proper (se_types s) e"
  shows "case make_ptr e s of (p, s') \<Rightarrow> sema_ok n s' \<and> kept s s' \<and> nerr s' = nerr s \<and> valid (se_types s') p
    \<and> kind s' p = TY_PTR \<and> t_elem (ty_of s' p) = Some e"
proof -
  obtain p tt where p: "ty_ptr (se_types s) e = (p, tt)" by force
  have d: "derived_of e ((ty_zero TY_PTR)\<lparr>t_elem := Some e, t_size := PTR_SIZE, t_align := PTR_ALIGN\<rparr>) (se_types s) (p, tt)"
    using ty_ptr_derived [OF sema_okD(1) [OF assms(1)] assms(2)] p by simp
  from derived_of_sema [OF assms(1) d _ _ _ assms(2,3)] d show ?thesis
    by (simp add: make_ptr_def p nerr_def derived_of_def kind_def ty_of_def ty_zero_def)
qed

lemma make_array_ok:
  assumes "sema_ok n s" and "valid (se_types s) e" and "nerr s = 0 \<Longrightarrow> proper (se_types s) e"
  shows "case make_array e len s of (p, s') \<Rightarrow> sema_ok n s' \<and> kept s s' \<and> nerr s' = nerr s \<and> valid (se_types s') p
    \<and> kind s' p = TY_ARRAY \<and> t_elem (ty_of s' p) = Some e \<and> t_length (ty_of s' p) = len"
proof -
  obtain p tt where p: "ty_array (se_types s) e len = (p, tt)" by force
  have d: "derived_of e ((ty_zero TY_ARRAY)\<lparr>t_elem := Some e, t_length := len,
      t_size := ucast (len * ucast (t_size (ty_at (se_types s) e))), t_align := t_align (ty_at (se_types s) e)\<rparr>) (se_types s) (p, tt)"
    using ty_array_derived [OF sema_okD(1) [OF assms(1)] assms(2), of len] p by simp
  from derived_of_sema [OF assms(1) d _ _ _ assms(2,3)] d show ?thesis
    by (simp add: make_array_def p nerr_def derived_of_def kind_def ty_of_def ty_zero_def)
qed

lemma ty_set_at:
  "valid (se_types s) r \<Longrightarrow> ty_of (ty_set t f s) r = (if r = t then f (ty_of s t) else ty_of s r)"
  "valid (se_types (ty_set t f s)) r = valid (se_types s) r" "nerr (ty_set t f s) = nerr s"
  by (auto simp: ty_set_def ty_of_def ty_at_def valid_def nerr_def)

lemma ty_set_ok:
  assumes ok: "sema_ok n s" and v: "valid (se_types s) t"
    and k: "kind s t = TY_STRUCT" "t_kind (f (ty_of s t)) = TY_STRUCT" "t_elem (f (ty_of s t)) = t_elem (ty_of s t)"
    and fs: "\<And>g. g \<in> set (t_fields (f (ty_of s t))) \<Longrightarrow> \<exists>u. fs_type g = Some u \<and> valid (se_types s) u \<and> (nerr s = 0 \<longrightarrow> proper (se_types s) u)"
  shows "sema_ok n (ty_set t f s)"
proof -
  note T = sema_okD(1) [OF ok]
  let ?tt = "(se_types s)\<lparr>tt_heap := (tt_heap (se_types s))[t := f (ty_of s t)]\<rparr>"
  have e: "ty_set t f s = s\<lparr>se_types := ?tt\<rparr>" by (simp add: ty_set_def)
  have T': "types_ok ?tt"
    using k by (intro types_ok_set [OF T v]) (simp_all add: kind_def ty_of_def)
  have val: "valid ?tt r = valid (se_types s) r" for r by (simp add: valid_def)
  have at: "ty_at ?tt r = (if r = t then f (ty_of s t) else ty_at (se_types s) r)" if "valid (se_types s) r" for r
    using that by (auto simp: ty_at_def valid_def)
  have fld: "\<exists>u. fs_type g = Some u \<and> valid (se_types s) u \<and> (nerr s = 0 \<longrightarrow> proper (se_types s) u)"
    if r: "valid (se_types s) r" and g: "g \<in> set (t_fields (ty_at ?tt r))" for r g
  proof (cases "r = t")
    case True
    with g at [OF r] show ?thesis by (simp add: fs)
  next
    case False
    then have "g \<in> set (t_fields (ty_at (se_types s) r))" using g at [OF r] by simp
    moreover from this r sema_okD(2) [OF ok] obtain u where "fs_type g = Some u" "valid (se_types s) u"
      unfolding fields_ok_def by blast
    ultimately show ?thesis
      using r sema_okD(11) [OF ok] \<open>g \<in> set (t_fields (ty_at (se_types s) r))\<close> by (auto simp: clean_types_def)
  qed
  then have "fields_ok ?tt" unfolding fields_ok_def val by blast
  moreover have "clean_types ?tt" if z: "nerr s = 0"
  proof -
    have pr: "proper ?tt u \<longleftrightarrow> proper (se_types s) u" if "valid (se_types s) u" for u
      using at [OF that] k by (auto simp: proper_def kind_def ty_of_def)
    note C = sema_okD(11) [OF ok z, unfolded clean_types_def]
    show ?thesis
      unfolding clean_types_def val
    proof (intro allI impI conjI ballI)
      fix r e assume r: "valid (se_types s) r" "has_elem (ty_at ?tt r) \<and> t_elem (ty_at ?tt r) = Some e"
      then have "has_elem (ty_at (se_types s) r) \<and> t_elem (ty_at (se_types s) r) = Some e"
        using at [OF r(1)] k by (auto simp: has_elem_def kind_def ty_of_def split: if_splits)
      with C r(1) elem_valid [OF T r(1)] show "proper ?tt e" by (auto simp: pr)
    next
      fix r g u assume "valid (se_types s) r" "g \<in> set (t_fields (ty_at ?tt r))" "fs_type g = Some u"
      with fld z show "proper ?tt u" using pr by fastforce
    qed
  qed
  ultimately show ?thesis
    unfolding e using val at k by (intro sema_ok_types [OF ok T']) (auto simp: kind_def)
qed

lemma ty_set_kept:
  assumes "kept s s'" and "valid (se_types s) t" and same: "same_type (ty_of s t) (f (ty_of s' t))"
  shows "kept s (ty_set t f s')"
proof -
  let ?tt = "(se_types s')\<lparr>tt_heap := (tt_heap (se_types s'))[t := f (ty_of s' t)]\<rparr>"
  have e: "ty_set t f s' = s'\<lparr>se_types := ?tt\<rparr>" by (simp add: ty_set_def)
  note g = keptD(1) [OF assms(1)]
  have at: "ty_at ?tt r = (if r = t then f (ty_of s' t) else ty_at (se_types s') r)" if "valid (se_types s') r" for r
    using that by (auto simp: ty_at_def valid_def)
  have "valid ?tt r = valid (se_types s') r" for r by (simp add: valid_def)
  then have "types_grow (se_types s) ?tt"
    using g at same assms(2) types_grow_valid [OF g] by (auto simp: types_grow_def ty_of_def)
  moreover have "s'\<lparr>se_types := ?tt\<rparr> = s\<lparr>se_diag := se_diag s', se_types := ?tt\<rparr>"
    using assms(1) unfolding kept_def by (metis sema.surjective sema.update_convs(1,2))
  ultimately show ?thesis unfolding e using keptD(2) [OF assms(1)] by (simp add: kept_def nerr_def)
qed

end
