(* ===== verification/Slop_Sema_Layout.thy ===== *)
theory Slop_Sema_Layout
  imports Slop_Sema_Inv
begin

text \<open>
  Pass 3, the types: \<open>resolve_type\<close> and \<open>layout_struct\<close> return in every state that satisfies the invariant, keep it, and
  without an error give the type the source names. Structs may contain structs to any depth: a struct
  is opened once, so the number of structs not yet started bounds the recursion.
\<close>

section \<open>What a type of the source denotes\<close>

inductive denotes :: "type_table \<Rightarrow> (string \<Rightarrow> tyref option) \<Rightarrow> ast_type \<Rightarrow> tyref \<Rightarrow> bool"
  for tt T where
  d_core: "ty_from_token tt k = Some t \<Longrightarrow> denotes tt T (TYPE_CORE pos k) t"
| d_name: "T n = Some t \<Longrightarrow> denotes tt T (TYPE_NAME pos n) t"
| d_ptr: "denotes tt T a e \<Longrightarrow> valid tt t \<Longrightarrow> t_kind (ty_at tt t) = TY_PTR \<Longrightarrow> t_elem (ty_at tt t) = Some e
    \<Longrightarrow> denotes tt T (TYPE_POINTER pos a) t"
| d_array: "denotes tt T a e \<Longrightarrow> valid tt t \<Longrightarrow> t_kind (ty_at tt t) = TY_ARRAY \<Longrightarrow> t_elem (ty_at tt t) = Some e
    \<Longrightarrow> t_length (ty_at tt t) = n \<Longrightarrow> denotes tt T (TYPE_ARRAY pos a n) t"

lemma ty_from_token_grow: "types_ok tt \<Longrightarrow> types_ok tt' \<Longrightarrow> ty_from_token tt' k = ty_from_token tt k"
  by (simp add: ty_from_token_def core_ref cong: token_kind.case_cong keyword.case_cong)

lemma denotes_grow:
  assumes "denotes tt T a t" and "types_ok tt" "types_ok tt'" and g: "types_grow tt tt'"
  shows "denotes tt' T a t"
  using assms(1)
proof induction
  case (d_core k t pos)
  then show ?case using ty_from_token_grow [OF assms(2,3)] by (intro denotes.d_core) simp
next
  case (d_ptr a e t pos)
  then show ?case using types_grow_keeps [OF g] types_grow_valid [OF g] by (intro denotes.d_ptr) auto
next
  case (d_array a e t n pos)
  then show ?case using types_grow_keeps [OF g] types_grow_valid [OF g] by (intro denotes.d_array) auto
qed (rule denotes.d_name)

lemma ty_from_token_typed:
  assumes "types_ok tt" and "ty_from_token tt k = Some t"
  shows "valid tt t" "typed_kind (t_kind (ty_at tt t))" "t_kind (ty_at tt t) \<noteq> TY_POISON"
proof -
  have k: "ty_from_token types_init k = Some t"
    using assms(2) ty_from_token_grow [OF assms(1) types_ok_init, of k] by simp
  have "t < 12"
    using k by (auto simp: ty_from_token_def ty_core_init split: token_kind.splits keyword.splits)
  then have "t < 17" "t \<in> set [0..<12]" by auto
  moreover have "list_all (\<lambda>i. typed_kind (fst (core_layout ! i)) \<and> fst (core_layout ! i) \<noteq> TY_POISON) [0..<12]"
    by (simp add: core_layout_def upt_rec typed_kind_def)
  ultimately show "valid tt t" "typed_kind (t_kind (ty_at tt t))" "t_kind (ty_at tt t) \<noteq> TY_POISON"
    using assms(1) by (auto simp: valid_core core_kind_at list_all_iff)
qed

lemma ty_from_token_wf:
  assumes "types_ok tt" and "token_is_core_type k"
  shows "\<exists>t. ty_from_token tt k = Some t"
proof -
  have "ty_from_token types_init k \<noteq> None"
    using assms(2) by (cases k) (auto simp: token_is_core_type_iff ty_from_token_def ty_core_init SLOP_KEYWORDS_def split: keyword.splits)
  then show ?thesis using ty_from_token_grow [OF assms(1) types_ok_init, of k] by auto
qed

section \<open>Layout returns\<close>

definition unstarted :: "type_table \<Rightarrow> nat" where
  "unstarted tt = card {r. valid tt r \<and> t_kind (ty_at tt r) = TY_STRUCT \<and> t_state (ty_at tt r) = LAYOUT_UNSTARTED}"

lemma unstarted_finite: "finite {r. valid tt r \<and> P r}"
  by (simp add: valid_def)

lemma unstarted_subset:
  assumes "types_grow tt tt'"
  shows "{r. valid tt' r \<and> t_kind (ty_at tt' r) = TY_STRUCT \<and> t_state (ty_at tt' r) = LAYOUT_UNSTARTED}
    \<subseteq> {r. valid tt r \<and> t_kind (ty_at tt r) = TY_STRUCT \<and> t_state (ty_at tt r) = LAYOUT_UNSTARTED}"
proof safe
  fix r assume r: "valid tt' r" "t_kind (ty_at tt' r) = TY_STRUCT" "t_state (ty_at tt' r) = LAYOUT_UNSTARTED"
  then show v: "valid tt r" using assms by (auto simp: types_grow_def)
  show "t_kind (ty_at tt r) = TY_STRUCT" using types_grow_keeps(1) [OF assms v] r by simp
  show "t_state (ty_at tt r) = LAYOUT_UNSTARTED" using same_type_state [OF types_grow_same [OF assms v]] r by simp
qed

lemma unstarted_mono: "types_grow tt tt' \<Longrightarrow> unstarted tt' \<le> unstarted tt"
  unfolding unstarted_def by (rule card_mono [OF unstarted_finite unstarted_subset])

text \<open>Opening a struct leaves one less to start.\<close>

lemma unstarted_open:
  assumes "types_grow tt tt'" and "valid tt r" "t_kind (ty_at tt r) = TY_STRUCT" "t_state (ty_at tt r) = LAYOUT_UNSTARTED"
    and "t_state (ty_at tt' r) \<noteq> LAYOUT_UNSTARTED"
  shows "unstarted tt' < unstarted tt"
  unfolding unstarted_def using unstarted_subset [OF assms(1)] assms(2-) by (intro psubset_card_mono [OF unstarted_finite]) auto

lemma unstarted_le: "unstarted tt \<le> length (tt_heap tt)"
proof -
  have "unstarted tt \<le> card {r. valid tt r}"
    unfolding unstarted_def by (intro card_mono) (auto simp: valid_def)
  then show ?thesis by (simp add: valid_def)
qed

text \<open>The contract of \<open>lay\<close> in a state with fewer than \<open>m\<close> structs to start.\<close>

definition lays :: "nat \<Rightarrow> nat \<Rightarrow> (tyref \<Rightarrow> sema \<Rightarrow> sema option) \<Rightarrow> bool" where
  "lays n m lay \<longleftrightarrow> (\<forall>t s. sema_ok n s \<and> valid (se_types s) t \<and> kind s t = TY_STRUCT \<and> unstarted (se_types s) < m \<longrightarrow>
     ends (lay t s) (\<lambda>s'. sema_ok n s' \<and> kept s s' \<and> t_state (ty_of s' t) = LAYOUT_DONE))"

definition lay_if :: "(tyref \<Rightarrow> sema \<Rightarrow> sema option) \<Rightarrow> tyref \<Rightarrow> sema \<Rightarrow> sema option" where
  "lay_if lay t s = (if kind s t = TY_STRUCT then lay t s else Some s)"

definition laid :: "nat \<Rightarrow> sema \<Rightarrow> tyref \<Rightarrow> sema \<Rightarrow> bool" where
  "laid n s t s' \<longleftrightarrow> sema_ok n s' \<and> kept s s' \<and> (kind s' t = TY_STRUCT \<longrightarrow> t_state (ty_of s' t) = LAYOUT_DONE)"

lemma lay_if_ok:
  assumes "lays n m lay" and "sema_ok n s" and "valid (se_types s) t" and "unstarted (se_types s) < m"
  shows "ends (lay_if lay t s) (laid n s t)"
proof (cases "kind s t = TY_STRUCT")
  case True
  with assms have "ends (lay t s) (\<lambda>s'. sema_ok n s' \<and> kept s s' \<and> t_state (ty_of s' t) = LAYOUT_DONE)"
    unfolding lays_def by blast
  then show ?thesis using True by (auto simp: lay_if_def laid_def elim: ends_mono)
next
  case False
  with assms show ?thesis by (simp add: lay_if_def laid_def)
qed

text \<open>What resolving a type gives.\<close>

definition resolved :: "nat \<Rightarrow> sema \<Rightarrow> ast_type \<Rightarrow> tyref \<Rightarrow> sema \<Rightarrow> bool" where
  "resolved n s a t s' \<longleftrightarrow> sema_ok n s' \<and> kept s s' \<and> valid (se_types s') t \<and> typed_kind (kind s' t)
     \<and> (nerr s' = 0 \<longrightarrow> proper (se_types s') t \<and> denotes (se_types s') (map_abs (gl_types (se_globals s'))) a t)"

lemma resolved_error:
  assumes "kept s s'" "after_error n s' x"
  shows "resolved n s a (poison x) x"
  using assms poison_is [OF sema_okD(1), of n x] kept_trans by (auto simp: after_error_def resolved_def typed_kind_def)

lemma bad_type:
  assumes "kept s s'" and "sema_ok n s'" and "list_all (piece_ok s') ps"
  shows "wp (Option.bind (serror pos ps s') (\<lambda>s. Some (poison s, s))) (resolved n s a)"
  by (rule wp_ends [OF serror_ends [OF assms(2,3)]]) (simp add: resolved_error [OF assms(1)])

lemma proper_kept: "kept s s' \<Longrightarrow> valid (se_types s) t \<Longrightarrow> proper (se_types s') t \<longleftrightarrow> proper (se_types s) t"
  using kept_kind [of s s' t] by (simp add: proper_def kind_def)

lemma resolve_type_ok:
  assumes lay: "lays n m lay"
  shows "sema_ok n s \<Longrightarrow> unstarted (se_types s) < m \<Longrightarrow> wf_type a \<Longrightarrow> wp (resolve_type lay a s) (resolved n s a)"
proof (induction a arbitrary: s)
  case (TYPE_CORE pos k)
  then obtain t where t: "ty_from_token (se_types s) k = Some t"
    using ty_from_token_wf [OF sema_okD(1)] by fastforce
  with TYPE_CORE(1) ty_from_token_typed [OF sema_okD(1) [OF TYPE_CORE(1)] t] show ?case
    by (simp add: resolved_def kind_def d_core proper_def)
next
  case (TYPE_NAME pos name)
  note ok = TYPE_NAME(1)
  have r: "globals_find_type (se_globals s) name = Some (map_abs (gl_types (se_globals s)) name)"
    using sema_okD(3) [OF ok] by (simp add: globals_find_type_def globals_ok_def nm.get_abs)
  show ?case
  proof (cases "map_abs (gl_types (se_globals s)) name")
    case None
    then show ?thesis using bad_type [OF kept_refl ok] by (simp add: r)
  next
    case (Some t)
    from sema_okD(4) [OF ok Some] have "proper (se_types s) t" "typed_kind (kind s t)"
      by (auto simp: typed_kind_def proper_def kind_def)
    with sema_okD(4) [OF ok Some] ok Some show ?thesis
      by (simp add: r resolved_def d_name)
  qed
next
  case (TYPE_POINTER pos a)
  show ?case
    unfolding resolve_type.simps
  proof (rule wp_step [OF TYPE_POINTER.IH])
    fix e s' assume e: "resolved n s a e s'"
    then have ok: "sema_ok n s'" "valid (se_types s') e" "nerr s' = 0 \<Longrightarrow> proper (se_types s') e" by (simp_all add: resolved_def)
    obtain p s'' where p: "make_ptr e s' = (p, s'')" by force
    from make_ptr_ok [OF ok] p have m: "sema_ok n s''" "kept s' s''" "nerr s'' = nerr s'" "valid (se_types s'') p"
      "kind s'' p = TY_PTR" "t_elem (ty_of s'' p) = Some e" by simp_all
    have "proper (se_types s'') p" using m(5) by (simp add: proper_def kind_def typed_kind_def)
    moreover have "denotes (se_types s'') (map_abs (gl_types (se_globals s''))) (TYPE_POINTER pos a) p" if "nerr s' = 0"
      using e that m kept_same(1) [OF m(2)]
      by (intro d_ptr denotes_grow [OF _ sema_okD(1) [OF ok(1)] sema_okD(1) [OF m(1)] keptD(1) [OF m(2)]])
        (auto simp: resolved_def kind_def ty_of_def)
    ultimately show "wp (Some (make_ptr e s')) (resolved n s (TYPE_POINTER pos a))"
      using e m kept_trans [of s s' s''] by (simp add: p resolved_def typed_kind_def)
  qed (use TYPE_POINTER.prems in auto)
next
  case (TYPE_ARRAY pos a len)
  show ?case
    unfolding resolve_type.simps
  proof (rule wp_step [OF TYPE_ARRAY.IH])
    fix e s' assume e: "resolved n s a e s'"
    then have ok: "sema_ok n s'" "kept s s'" "valid (se_types s') e" by (simp_all add: resolved_def)
    have u: "unstarted (se_types s') < m"
      using unstarted_mono [OF keptD(1) [OF ok(2)]] TYPE_ARRAY.prems(2) by simp
    show "wp (do { s \<leftarrow> (if kind s' e = TY_STRUCT then lay e s' else Some s');
          if len = 0 then do { s \<leftarrow> serror pos [Txt ''array length must be greater than 0''] s; Some (poison s, s) }
          else if \<not> ty_is_sized (ty_of s e) then
            do { s \<leftarrow> serror pos [Txt ''array element type '', TyName128 e, Txt '' has no size''] s; Some (poison s, s) }
          else if t_size (ty_of s e) \<noteq> 0 \<and> len > 0xFFFFFFFF div ucast (t_size (ty_of s e)) then
            do { s \<leftarrow> serror pos [Txt ''array is too large''] s; Some (poison s, s) }
          else Some (make_array e len s) }) (resolved n s (TYPE_ARRAY pos a len))"
      unfolding lay_if_def [symmetric]
    proof (rule wp_ends [OF lay_if_ok [OF lay ok(1,3) u]])
      fix x assume x: "laid n s' e x"
      then have X: "sema_ok n x" "kept s' x" "kept s x" using ok kept_trans by (auto simp: laid_def)
      have ve: "valid (se_types x) e" by (rule kept_valid [OF X(2) ok(3)])
      have ne: "proper (se_types x) e" if "nerr x = 0"
        using e that keptD(2) [OF X(2)] proper_kept [OF X(2) ok(3)] by (simp add: resolved_def)
      obtain p s'' where p: "make_array e len x = (p, s'')" by force
      from make_array_ok [OF X(1) ve ne, of len] p have m: "sema_ok n s''" "kept x s''" "nerr s'' = nerr x" "valid (se_types s'') p"
        "kind s'' p = TY_ARRAY" "t_elem (ty_of s'' p) = Some e" "t_length (ty_of s'' p) = len" by simp_all
      have np: "proper (se_types s'') p" using m(5) by (simp add: proper_def kind_def typed_kind_def)
      have "denotes (se_types s'') (map_abs (gl_types (se_globals s''))) (TYPE_ARRAY pos a len) p" if "nerr s'' = 0"
        using e that m X kept_same(1) [OF m(2)] kept_same(1) [OF X(2)] keptD(2) [OF X(2)]
        by (intro d_array denotes_grow [OF _ sema_okD(1) [OF ok(1)] sema_okD(1) [OF m(1)]
              types_grow_trans [OF keptD(1) [OF X(2)] keptD(1) [OF m(2)]]])
          (auto simp: resolved_def kind_def ty_of_def)
      then have "wp (Some (make_array e len x)) (resolved n s (TYPE_ARRAY pos a len))"
        using m np kept_trans [OF X(3) m(2)] by (simp add: p resolved_def typed_kind_def)
      then show "wp (if len = 0 then do { s \<leftarrow> serror pos [Txt ''array length must be greater than 0''] x; Some (poison s, s) }
          else if \<not> ty_is_sized (ty_of x e) then
            do { s \<leftarrow> serror pos [Txt ''array element type '', TyName128 e, Txt '' has no size''] x; Some (poison s, s) }
          else if t_size (ty_of x e) \<noteq> 0 \<and> len > 0xFFFFFFFF div ucast (t_size (ty_of x e)) then
            do { s \<leftarrow> serror pos [Txt ''array is too large''] x; Some (poison s, s) }
          else Some (make_array e len x)) (resolved n s (TYPE_ARRAY pos a len))"
        using bad_type [OF X(3,1)] ve by simp
    qed
  qed (use TYPE_ARRAY.prems in auto)
qed

text \<open>The fields placed so far have types, and none is poison before the first error.\<close>

definition fields_in :: "sema \<Rightarrow> field_sym list \<Rightarrow> bool" where
  "fields_in s fs \<longleftrightarrow> (\<forall>g \<in> set fs. \<exists>u. fs_type g = Some u \<and> valid (se_types s) u \<and> (nerr s = 0 \<longrightarrow> proper (se_types s) u))"

lemma fields_in_kept:
  assumes "fields_in s fs" "kept s s'"
  shows "fields_in s' fs"
  unfolding fields_in_def
proof
  fix g assume "g \<in> set fs"
  with assms(1) obtain u where "fs_type g = Some u" "valid (se_types s) u" "nerr s = 0 \<longrightarrow> proper (se_types s) u"
    unfolding fields_in_def by blast
  moreover from this have "valid (se_types s') u" "proper (se_types s') u \<longleftrightarrow> proper (se_types s) u"
    using kept_valid [OF assms(2), of u] proper_kept [OF assms(2), of u] by simp_all
  moreover have "nerr s' = 0 \<Longrightarrow> nerr s = 0" using keptD(2) [OF assms(2)] by simp
  ultimately show "\<exists>u. fs_type g = Some u \<and> valid (se_types s') u \<and> (nerr s' = 0 \<longrightarrow> proper (se_types s') u)" by auto
qed

lemma layout_fields_ok:
  assumes lay: "lays n m lay"
  shows "sema_ok n s \<Longrightarrow> unstarted (se_types s) < m \<Longrightarrow> list_all (\<lambda>f. wf_type (fd_type f)) fs \<Longrightarrow> fields_in s done \<Longrightarrow>
    wp (layout_fields lay fs done off al s) (\<lambda>(gs, off', al') s'. sema_ok n s' \<and> kept s s' \<and> fields_in s' gs)"
proof (induction fs arbitrary: s "done" off al)
  case Nil
  then show ?case by simp
next
  case (Cons f fs)
  note ok = Cons.prems(1)
  show ?case
    unfolding layout_fields.simps
  proof (rule wp_step [OF resolve_type_ok [OF lay ok Cons.prems(2)]])
    show "wf_type (fd_type f)" using Cons.prems(3) by simp
    fix ft s1 assume r: "resolved n s (fd_type f) ft s1"
    then have s1: "sema_ok n s1" "kept s s1" "valid (se_types s1) ft" "typed_kind (kind s1 ft)" by (simp_all add: resolved_def)
    have u1: "unstarted (se_types s1) < m"
      using unstarted_mono [OF keptD(1) [OF s1(2)]] Cons.prems(2) by simp
    show "wp (do { s \<leftarrow> (if kind s1 ft = TY_STRUCT then lay ft s1 else Some s1);
          (ft, s) \<leftarrow> (if \<not> ty_is_sized (ty_of s ft)
             then do { s \<leftarrow> serror (fd_pos f) [Txt (''field '' @ quote (fd_name f) @ '' has type ''), TyName128 ft,
                              Txt '', which has no size''] s;
                       Some (poison s, s) }
             else Some (ft, s));
          s \<leftarrow> (case find (\<lambda>g. strview_eq_view (fs_name g) (fd_name f)) done of
                  Some g \<Rightarrow> duplicate_of (fd_pos f) (''field '' @ quote (fd_name f)) (fs_pos g) s
                | None \<Rightarrow> Some s);
          let offset = round_up off (t_align (ty_of s ft));
          let done = done @ [\<lparr>fs_name = fd_name f, fs_type = Some ft, fs_offset = offset, fs_pos = fd_pos f\<rparr>];
          layout_fields lay fs done (offset + t_size (ty_of s ft))
            (if t_align (ty_of s ft) > al then t_align (ty_of s ft) else al) s })
        (\<lambda>(gs, off', al') s'. sema_ok n s' \<and> kept s s' \<and> fields_in s' gs)"
      unfolding lay_if_def [symmetric]
    proof (rule wp_ends [OF lay_if_ok [OF lay s1(1,3) u1]], rule wp_step)
      fix s2 assume l: "laid n s1 ft s2"
      then have s2: "sema_ok n s2" "kept s1 s2" "kept s s2" "valid (se_types s2) ft"
        using kept_trans [OF s1(2)] kept_valid [OF _ s1(3)] by (auto simp: laid_def)
      let ?P = "\<lambda>ft s3. sema_ok n s3 \<and> kept s s3 \<and> valid (se_types s3) ft \<and> (nerr s3 = 0 \<longrightarrow> proper (se_types s3) ft)"
      show "wp (if \<not> ty_is_sized (ty_of s2 ft)
             then do { s \<leftarrow> serror (fd_pos f) [Txt (''field '' @ quote (fd_name f) @ '' has type ''), TyName128 ft,
                              Txt '', which has no size''] s2;
                       Some (poison s, s) }
             else Some (ft, s2)) ?P"
      proof (cases "ty_is_sized (ty_of s2 ft)")
        case True
        then have "proper (se_types s2) ft"
          using s1(4) kept_kind [OF s2(2) s1(3)] by (auto simp: ty_is_sized_def kind_def ty_of_def proper_def)
        then show ?thesis using True s2 by simp
      next
        case False
        show ?thesis
          unfolding if_P [OF False]
        proof (rule wp_serror [OF s2(1)])
          fix s' assume e: "after_error n s2 s'"
          then have "sema_ok n s'" "kept s s'" "0 < nerr s'" using kept_trans [OF s2(3)] by (auto simp: after_error_def)
          then show "wp (Some (poison s', s')) ?P" using poison_is(1) [OF sema_okD(1)] by simp
        qed (use s2(4) in simp)
      qed
      fix ft3 s3 assume s3: "?P ft3 s3"
      have "ends (case find (\<lambda>g. strview_eq_view (fs_name g) (fd_name f)) done of
                  Some g \<Rightarrow> duplicate_of (fd_pos f) (''field '' @ quote (fd_name f)) (fs_pos g) s3
                | None \<Rightarrow> Some s3) (\<lambda>s4. sema_ok n s4 \<and> kept s3 s4)"
        using s3 by (cases "find (\<lambda>g. strview_eq_view (fs_name g) (fd_name f)) done")
          (auto simp: after_error_def intro: ends_mono [OF duplicate_ends])
      then show "wp (do { s \<leftarrow> (case find (\<lambda>g. strview_eq_view (fs_name g) (fd_name f)) done of
                  Some g \<Rightarrow> duplicate_of (fd_pos f) (''field '' @ quote (fd_name f)) (fs_pos g) s3
                | None \<Rightarrow> Some s3);
          let offset = round_up off (t_align (ty_of s ft3));
          let done = done @ [\<lparr>fs_name = fd_name f, fs_type = Some ft3, fs_offset = offset, fs_pos = fd_pos f\<rparr>];
          layout_fields lay fs done (offset + t_size (ty_of s ft3))
            (if t_align (ty_of s ft3) > al then t_align (ty_of s ft3) else al) s })
        (\<lambda>(gs, off', al') s'. sema_ok n s' \<and> kept s s' \<and> fields_in s' gs)"
      proof (rule wp_ends)
        fix s4 assume s4: "sema_ok n s4 \<and> kept s3 s4"
        then have k4: "kept s s4" using s3 kept_trans by blast
        let ?g = "\<lparr>fs_name = fd_name f, fs_type = Some ft3, fs_offset = round_up off (t_align (ty_of s4 ft3)), fs_pos = fd_pos f\<rparr>"
        have "fields_in s4 done" using fields_in_kept [OF Cons.prems(4) k4] by blast
        moreover have "fields_in s4 [?g]"
          using s3 s4 fields_in_kept [of s3 "[?g]" s4] by (simp add: fields_in_def)
        ultimately have "fields_in s4 (done @ [?g])" by (auto simp: fields_in_def)
        moreover have "unstarted (se_types s4) < m" using unstarted_mono [OF keptD(1) [OF k4]] Cons.prems(2) by simp
        ultimately have "wp (layout_fields lay fs (done @ [?g]) o' a' s4)
            (\<lambda>(gs, off', al') s'. sema_ok n s' \<and> kept s4 s' \<and> fields_in s' gs)" for o' a'
          by (intro Cons.IH) (use Cons.prems(3) s4 in auto)
        then show "wp (let offset = round_up off (t_align (ty_of s4 ft3));
            done = done @ [\<lparr>fs_name = fd_name f, fs_type = Some ft3, fs_offset = offset, fs_pos = fd_pos f\<rparr>] in
          layout_fields lay fs done (offset + t_size (ty_of s4 ft3))
            (if t_align (ty_of s4 ft3) > al then t_align (ty_of s4 ft3) else al) s4)
          (\<lambda>(gs, off', al') s'. sema_ok n s' \<and> kept s s' \<and> fields_in s' gs)"
          unfolding Let_def by (rule wp_mono) (auto intro: kept_trans [OF k4])
      qed
    qed
  qed
qed

lemma layout_struct_n_ok: "lays n m (layout_struct_n m)"
proof (induction m)
  case 0
  then show ?case by (simp add: lays_def)
next
  case (Suc m)
  show ?case
    unfolding lays_def
  proof (intro allI impI, elim conjE)
    fix t s assume ok: "sema_ok n s" and v: "valid (se_types s) t" and k: "kind s t = TY_STRUCT"
      and u: "unstarted (se_types s) < Suc m"
    let ?Q = "\<lambda>s'. sema_ok n s' \<and> kept s s' \<and> t_state (ty_of s' t) = LAYOUT_DONE"
    have kt: "t_kind (ty_of s t) = TY_STRUCT" using k by (simp add: kind_def ty_of_def)
    have set_state: "sema_ok n (ty_set t (\<lambda>x. x\<lparr>t_state := st\<rparr>) s') \<and> kept s (ty_set t (\<lambda>x. x\<lparr>t_state := st\<rparr>) s')
        \<and> ty_of (ty_set t (\<lambda>x. x\<lparr>t_state := st\<rparr>) s') t = (ty_of s' t)\<lparr>t_state := st\<rparr>"
      if s': "sema_ok n s'" "kept s s'" "se_types s' = se_types s" "st \<noteq> LAYOUT_UNSTARTED" "t_state (ty_of s t) \<noteq> LAYOUT_DONE" for s' st
    proof (intro conjI)
      have same: "ty_of s' t = ty_of s t" "valid (se_types s') t" "kind s' t = TY_STRUCT" using s'(3) v k by (simp_all add: ty_of_def kind_def)
      show "sema_ok n (ty_set t (\<lambda>x. x\<lparr>t_state := st\<rparr>) s')"
      proof (rule ty_set_ok [OF s'(1) same(2,3)])
        fix g assume "g \<in> set (t_fields ((ty_of s' t)\<lparr>t_state := st\<rparr>))"
        then have g: "g \<in> set (t_fields (ty_at (se_types s') t))" by (simp add: ty_of_def)
        then obtain w where "fs_type g = Some w" "valid (se_types s') w"
          using sema_okD(2) [OF s'(1)] same(2) unfolding fields_ok_def by blast
        with g same(2) sema_okD(11) [OF s'(1)]
        show "\<exists>u. fs_type g = Some u \<and> valid (se_types s') u \<and> (nerr s' = 0 \<longrightarrow> proper (se_types s') u)"
          by (auto simp: clean_types_def)
      qed (use same kt in auto)
      show "kept s (ty_set t (\<lambda>x. x\<lparr>t_state := st\<rparr>) s')"
        by (rule ty_set_kept [OF s'(2) v]) (use s'(4,5) same kt in \<open>auto simp: same_type_def\<close>)
      show "ty_of (ty_set t (\<lambda>x. x\<lparr>t_state := st\<rparr>) s') t = (ty_of s' t)\<lparr>t_state := st\<rparr>"
        using ty_set_at(1) [OF same(2)] by simp
    qed
    consider (1) "t_state (ty_of s t) = LAYOUT_DONE" | (2) "t_state (ty_of s t) = LAYOUT_IN_PROGRESS"
      | (3) "t_state (ty_of s t) = LAYOUT_UNSTARTED" by (cases "t_state (ty_of s t)") auto
    then show "ends (layout_struct_n (Suc m) t s) ?Q"
    proof cases
      case 1
      then show ?thesis using ok by simp
    next
      case 2
      then have "layout_struct_n (Suc m) t s = Option.bind (serror (t_pos (ty_of s t))
          [Txt (''struct '' @ quote (t_name (ty_of s t)) @ '' contains itself; use a pointer'')] s)
          (\<lambda>s. Some (ty_set t (\<lambda>x. x\<lparr>t_state := LAYOUT_DONE\<rparr>) s))" by simp
      also have "ends \<dots> ?Q"
        by (rule ends_serror [OF ok]) (use 2 set_state in \<open>auto simp: after_error_def\<close>)
      finally show ?thesis .
    next
      case 3
      show ?thesis
      proof (cases "t_decl (ty_of s t)")
        case None
        then show ?thesis using 3 set_state [OF ok] by simp
      next
        case (Some path)
        let ?s1 = "ty_set t (\<lambda>x. x\<lparr>t_state := LAYOUT_IN_PROGRESS\<rparr>) s"
        have s1: "sema_ok n ?s1" "kept s ?s1" "ty_of ?s1 t = (ty_of s t)\<lparr>t_state := LAYOUT_IN_PROGRESS\<rparr>"
          using set_state [OF ok, of LAYOUT_IN_PROGRESS] 3 by auto
        have "unstarted (se_types ?s1) < unstarted (se_types s)"
          using unstarted_open [OF keptD(1) [OF s1(2)] v] 3 s1(3) kt by (simp add: ty_of_def)
        then have u1: "unstarted (se_types ?s1) < m" using u by simp
        have wf: "list_all (\<lambda>f. wf_type (fd_type f)) (struct_fields ?s1 path)"
          using sema_okD(10) [OF s1(1)] unfolding structs_wf_def list_all_iff by blast
        have "wp (layout_fields (layout_struct_n m) (struct_fields ?s1 path) [] 0 1 ?s1)
            (\<lambda>(gs, off', al') s'. sema_ok n s' \<and> kept ?s1 s' \<and> fields_in s' gs)"
          by (rule layout_fields_ok [OF Suc.IH s1(1) u1 wf]) (simp add: fields_in_def)
        then obtain gs off al s2 where s2: "layout_fields (layout_struct_n m) (struct_fields ?s1 path) [] 0 1 ?s1 = Some ((gs, off, al), s2)"
            "sema_ok n s2" "kept ?s1 s2" "fields_in s2 gs" by (auto dest!: wpD)
        have k2: "kept s s2" using s1(2) s2(3) by (rule kept_trans)
        let ?f = "\<lambda>x. x\<lparr>t_fields := gs, t_align := al, t_size := round_up off al, t_state := LAYOUT_DONE\<rparr>"
        have v2: "valid (se_types s2) t" by (rule kept_valid [OF k2 v])
        have kk: "kind s2 t = TY_STRUCT" using kept_kind [OF k2 v] k by simp
        have "sema_ok n (ty_set t ?f s2)"
          using s2(4) kk by (intro ty_set_ok [OF s2(2) v2 kk]) (auto simp: fields_in_def kind_def ty_of_def)
        moreover have "same_type (ty_of s t) (?f (ty_of s2 t))"
        proof -
          obtain a b c d where "ty_of s2 t = (ty_of s t)\<lparr>t_size := a, t_align := b, t_fields := c, t_state := d\<rparr>"
            using same_type_struct [OF types_grow_same [OF keptD(1) [OF k2] v]] kt unfolding ty_of_def by blast
          then have "?f (ty_of s2 t) = ?f (ty_of s t)" by simp
          then show ?thesis using kt 3 by (simp add: same_type_def)
        qed
        then have "kept s (ty_set t ?f s2)" by (rule ty_set_kept [OF k2 v])
        ultimately show ?thesis
          using 3 Some s2(1) ty_set_at(1) [OF v2, of t ?f] by (simp add: Let_def)
      qed
    qed
  qed
qed

lemma layout_struct_ok:
  assumes "sema_ok n s" "valid (se_types s) t" "kind s t = TY_STRUCT"
  shows "ends (layout_struct t s) (\<lambda>s'. sema_ok n s' \<and> kept s s' \<and> t_state (ty_of s' t) = LAYOUT_DONE)"
  unfolding layout_struct_def using layout_struct_n_ok [of n "length (tt_heap (se_types s)) + 1"] assms unstarted_le [of "se_types s"]
  by (simp add: lays_def)

lemma lays_layout_struct: "lays n m layout_struct"
  using layout_struct_ok by (auto simp: lays_def)

lemma layout_if_struct_ok:
  assumes "sema_ok n s" "valid (se_types s) t"
  shows "ends (layout_if_struct t s) (laid n s t)"
  using lay_if_ok [OF lays_layout_struct assms lessI] by (simp add: layout_if_struct_def lay_if_def)

lemma resolve_ok: "sema_ok n s \<Longrightarrow> wf_type a \<Longrightarrow> wp (resolve a s) (resolved n s a)"
  unfolding resolve_def by (rule resolve_type_ok [OF lays_layout_struct _ lessI])

end
