(* ===== verification/Slop_Sema_Typing.thy ===== *)
theory Slop_Sema_Typing
  imports Slop_Sema_Layout Slop_Sema_Expr
begin

text \<open>
  The type system of the language as a judgement on checked trees: every node carries its type, and \<open>typed tt T G e t\<close>
  says that the tree \<open>e\<close> has type \<open>t\<close> in the table \<open>tt\<close> when the type names mean \<open>T\<close> and the value names mean \<open>G\<close>.
  Conversions are nodes of the tree (\<open>EXPR_CONV\<close>). A constant expression of integer literals takes the type
  of its context as a whole, so the integer operators may end up at a float type in it; \<open>born\<close> says
  where.
\<close>

section \<open>Conversions\<close>

definition widens :: "ty \<Rightarrow> ty \<Rightarrow> bool" where
  "widens f t \<longleftrightarrow>
     (if ty_is_integer f \<and> ty_is_integer t then ty_is_signed f = ty_is_signed t \<and> t_size t > t_size f
      else if t_kind f = TY_F32 \<and> t_kind t = TY_F64 then True
      else if ty_is_bool f \<and> ty_is_bool t then t_size t > t_size f
      else False)"

definition basic_assigns :: "ty \<Rightarrow> ty \<Rightarrow> bool" where
  "basic_assigns f t = (case t_kind f of
     TY_UNTYPED_INT \<Rightarrow> ty_is_integer t \<or> ty_is_float t \<or> t_kind t = TY_UNTYPED_FLOAT
   | TY_UNTYPED_FLOAT \<Rightarrow> ty_is_float t
   | TY_UNTYPED_BOOL \<Rightarrow> ty_is_bool t
   | TY_NULL \<Rightarrow> t_kind t = TY_PTR
   | _ \<Rightarrow> widens f t)"

text \<open>The implicit conversions: an enum converts as its underlying type does.\<close>

definition assigns :: "type_table \<Rightarrow> tyref \<Rightarrow> tyref \<Rightarrow> bool" where
  "assigns tt from to \<longleftrightarrow>
     from = to \<or> t_kind (ty_at tt from) = TY_POISON \<or> t_kind (ty_at tt to) = TY_POISON
     \<or> (if t_kind (ty_at tt from) = TY_ENUM
        then (let b = the (t_base (ty_at tt from)) in
              b = to \<or> t_kind (ty_at tt b) = TY_POISON \<or> basic_assigns (ty_at tt b) (ty_at tt to))
        else basic_assigns (ty_at tt from) (ty_at tt to))"

lemma enum_base:
  assumes "types_ok tt" "valid tt r" "t_kind (ty_at tt r) = TY_ENUM"
  shows "\<exists>b < 17. t_base (ty_at tt r) = Some b \<and> core_kind (t_kind (ty_at tt b)) \<and> proper tt b"
proof -
  have "\<not> r < 17" using core_kinds [of r] core_heap [OF assms(1), of r] assms(3) by (auto simp: ty_at_def)
  with assms have "derived_ok (tt_heap tt) r" by (simp add: types_ok_def valid_def)
  with assms(3) obtain b where b: "b < 12" "t_base (ty_at tt r) = Some b" by (auto simp: derived_ok_def ty_at_def)
  have "list_all (\<lambda>i. core_kind (fst (core_layout ! i)) \<and> typed_kind (fst (core_layout ! i)) \<and> fst (core_layout ! i) \<noteq> TY_POISON) [0..<12]"
    by (simp add: core_layout_def upt_rec typed_kind_def core_kind_def)
  moreover have "b \<in> set [0..<12]" "b < 17" using b(1) by auto
  ultimately show ?thesis using b(2) core_kind_at [OF assms(1)] by (auto simp: proper_def list_all_iff)
qed

lemma assignable_basic:
  assumes "t_kind (ty_at tt from) \<noteq> TY_ENUM"
  shows "assignable tt from to = Some (assigns tt from to)"
  using assms
  by (subst assignable.simps) (auto simp: assigns_def basic_assigns_def widens_def Let_def split: ty_kind.split)

lemma assignable_eq:
  assumes "types_ok tt" "valid tt from"
  shows "assignable tt from to = Some (assigns tt from to)"
proof (cases "t_kind (ty_at tt from) = TY_ENUM")
  case False
  then show ?thesis by (rule assignable_basic)
next
  case True
  from enum_base [OF assms True] obtain b where b: "b < 17" "t_base (ty_at tt from) = Some b" "core_kind (t_kind (ty_at tt b))" by blast
  then have "t_kind (ty_at tt b) \<noteq> TY_ENUM" by (auto simp: core_kind_def)
  from assignable_basic [OF this, of to] this True b(2) show ?thesis
    by (subst assignable.simps) (auto simp: assigns_def Let_def)
qed

text \<open>The rules look at kinds and at the sizes of scalars, which no step changes.\<close>

lemma basic_assigns_same:
  assumes "same_type f f'" "same_type t t'"
  shows "basic_assigns f' t' = basic_assigns f t"
proof -
  have "t_kind f' = t_kind f" "t_kind t' = t_kind t" using assms same_type_keeps(1) by blast+
  moreover have "t_kind f = TY_STRUCT \<or> f' = f" "t_kind t = TY_STRUCT \<or> t' = t" using assms by (auto simp: same_type_def split: if_splits)
  ultimately show ?thesis
    by (auto simp: basic_assigns_def widens_def ty_is_integer_def ty_is_bool_def ty_is_float_def ty_is_signed_def split: ty_kind.split)
qed

lemma assigns_grow:
  assumes g: "types_grow tt tt'" and ok: "types_ok tt" and v: "valid tt a" "valid tt b"
  shows "assigns tt' a b = assigns tt a b"
proof -
  have base: "valid tt (the (t_base (ty_at tt a)))" if "t_kind (ty_at tt a) = TY_ENUM"
    using enum_base [OF ok v(1) that] valid_core [OF ok] by auto
  show ?thesis
    unfolding assigns_def types_grow_keeps(1,4) [OF g v(1)] types_grow_keeps(1) [OF g v(2)]
    using basic_assigns_same [OF types_grow_same [OF g] types_grow_same [OF g v(2)]] v base types_grow_keeps(1) [OF g]
    by (auto simp: Let_def)
qed

section \<open>The judgement\<close>

text \<open>Expressions whose type is that of an untyped integer before a context gives them another.\<close>

fun born :: "expr \<Rightarrow> bool" and born_opt :: "expr option \<Rightarrow> bool" where
  "born (Expr pos sem (EXPR_INT v)) = True"
| "born (Expr pos sem (EXPR_CHAR v)) = True"
| "born (Expr pos sem (EXPR_UNARY op a)) = ((op = Punct TOK_MINUS \<or> op = Punct TOK_TILDE) \<and> born_opt a)"
| "born (Expr pos sem (EXPR_BINARY op a b)) =
     (op_propagates op \<and> born_opt a \<and> born_opt b \<or> (op = Punct TOK_SHL \<or> op = Punct TOK_SHR) \<and> born_opt a)"
| "born (Expr pos sem u) = False"
| "born_opt None = False"
| "born_opt (Some e) = born e"

definition literal_ok :: "type_table \<Rightarrow> u64 \<Rightarrow> tyref \<Rightarrow> bool" where
  "literal_ok tt v t \<longleftrightarrow> ty_is_numeric (ty_at tt t) \<and> (ty_is_integer (ty_at tt t) \<longrightarrow> unat v \<le> int_max (ty_at tt t))"

definition logic_ops :: "token_kind set" where
  "logic_ops = {Punct TOK_AMP_AMP, Punct TOK_PIPE_PIPE}"

definition shift_ops :: "token_kind set" where
  "shift_ops = {Punct TOK_SHL, Punct TOK_SHR}"

definition compare_ops :: "token_kind set" where
  "compare_ops = {Punct TOK_EQ_EQ, Punct TOK_BANG_EQ, Punct TOK_LT, Punct TOK_LE, Punct TOK_GT, Punct TOK_GE}"

definition bit_ops :: "token_kind set" where
  "bit_ops = {Punct TOK_PERCENT, Punct TOK_AMP, Punct TOK_PIPE, Punct TOK_CARET}"

definition arith_ops :: "token_kind set" where
  "arith_ops = {Punct TOK_PLUS, Punct TOK_MINUS, Punct TOK_STAR, Punct TOK_SLASH}"

text \<open>An integer type, or any numeric type for an expression of literals.\<close>

definition integral :: "type_table \<Rightarrow> tyref \<Rightarrow> bool \<Rightarrow> bool" where
  "integral tt t const \<longleftrightarrow> is_integerish (ty_at tt t) \<or> const \<and> ty_is_numeric (ty_at tt t)"

text \<open>What an argument beyond the parameters may have: sub-int and float types are promoted.\<close>

definition vararg_ok :: "type_table \<Rightarrow> tyref \<Rightarrow> bool" where
  "vararg_ok tt t \<longleftrightarrow> typed_kind (t_kind (ty_at tt t)) \<and> t_kind (ty_at tt t) \<notin> {TY_F32, TY_I8, TY_U8}"

inductive typed :: "type_table \<Rightarrow> (string \<Rightarrow> tyref option) \<Rightarrow> (string \<Rightarrow> sym option) \<Rightarrow> expr \<Rightarrow> tyref \<Rightarrow> bool"
  and node :: "type_table \<Rightarrow> (string \<Rightarrow> tyref option) \<Rightarrow> (string \<Rightarrow> sym option) \<Rightarrow> expr_node \<Rightarrow> tyref \<Rightarrow> bool"
  for tt T G where
  typed: "node tt T G u t \<Longrightarrow> valid tt t \<Longrightarrow> t_kind (ty_at tt t) \<noteq> TY_POISON \<Longrightarrow> typed tt T G (Expr pos (Some t) u) t"
| n_int: "literal_ok tt v t \<Longrightarrow> node tt T G (EXPR_INT v) t"
| n_char: "literal_ok tt v t \<Longrightarrow> node tt T G (EXPR_CHAR v) t"
| n_float: "ty_is_float (ty_at tt t) \<or> t_kind (ty_at tt t) = TY_UNTYPED_FLOAT \<Longrightarrow> node tt T G (EXPR_FLOAT v) t"
| n_bool: "is_boolish (ty_at tt t) \<Longrightarrow> node tt T G (EXPR_BOOL b) t"
| n_null: "t_kind (ty_at tt t) \<in> {TY_NULL, TY_PTR} \<Longrightarrow> node tt T G EXPR_NULL t"
| n_string: "t_kind (ty_at tt t) = TY_PTR \<Longrightarrow> t_elem (ty_at tt t) = Some e \<Longrightarrow> valid tt e \<Longrightarrow> t_kind (ty_at tt e) = TY_U8
    \<Longrightarrow> node tt T G (EXPR_STRING str) t"
| n_name: "G n = Some y \<Longrightarrow> sy_kind y \<noteq> SYM_FN \<Longrightarrow> sy_type y = Some t \<Longrightarrow> typed_kind (t_kind (ty_at tt t))
    \<Longrightarrow> node tt T G (EXPR_NAME n) t"
| n_neg: "typed tt T G a t \<Longrightarrow> ty_is_numeric (ty_at tt t)
    \<Longrightarrow> (ty_is_integer (ty_at tt t) \<longrightarrow> ty_is_signed (ty_at tt t) \<or> born a) \<Longrightarrow> node tt T G (EXPR_UNARY (Punct TOK_MINUS) (Some a)) t"
| n_tilde: "typed tt T G a t \<Longrightarrow> integral tt t (born a) \<Longrightarrow> node tt T G (EXPR_UNARY (Punct TOK_TILDE) (Some a)) t"
| n_bang: "typed tt T G a ta \<Longrightarrow> is_boolish (ty_at tt ta) \<Longrightarrow> is_boolish (ty_at tt t)
    \<Longrightarrow> node tt T G (EXPR_UNARY (Punct TOK_BANG) (Some a)) t"
| n_deref: "typed tt T G a ta \<Longrightarrow> t_kind (ty_at tt ta) = TY_PTR \<Longrightarrow> t_elem (ty_at tt ta) = Some t \<Longrightarrow> t_kind (ty_at tt t) \<noteq> TY_VOID
    \<Longrightarrow> typed_kind (t_kind (ty_at tt t)) \<Longrightarrow> node tt T G (EXPR_UNARY (Punct TOK_STAR) (Some a)) t"
| n_addr: "typed tt T G a ta \<Longrightarrow> is_lvalue (Some a) \<Longrightarrow> t_kind (ty_at tt t) = TY_PTR \<Longrightarrow> t_elem (ty_at tt t) = Some ta
    \<Longrightarrow> node tt T G (EXPR_UNARY (Punct TOK_AMP) (Some a)) t"
| n_ptr_offset: "op \<in> {Punct TOK_PLUS, Punct TOK_MINUS} \<Longrightarrow> typed tt T G a t \<Longrightarrow> t_kind (ty_at tt t) = TY_PTR
    \<Longrightarrow> typed tt T G b tb \<Longrightarrow> ty_is_integer (ty_at tt tb) \<Longrightarrow> node tt T G (EXPR_BINARY op (Some a) (Some b)) t"
| n_offset_ptr: "typed tt T G a ta \<Longrightarrow> ty_is_integer (ty_at tt ta) \<Longrightarrow> typed tt T G b t \<Longrightarrow> t_kind (ty_at tt t) = TY_PTR
    \<Longrightarrow> node tt T G (EXPR_BINARY (Punct TOK_PLUS) (Some a) (Some b)) t"
| n_ptr_diff: "typed tt T G a p \<Longrightarrow> typed tt T G b p \<Longrightarrow> t_kind (ty_at tt p) = TY_PTR \<Longrightarrow> t_kind (ty_at tt t) = TY_I64
    \<Longrightarrow> node tt T G (EXPR_BINARY (Punct TOK_MINUS) (Some a) (Some b)) t"
| n_logic: "op \<in> logic_ops \<Longrightarrow> typed tt T G a ta \<Longrightarrow> is_boolish (ty_at tt ta) \<Longrightarrow> typed tt T G b tb \<Longrightarrow> is_boolish (ty_at tt tb)
    \<Longrightarrow> is_boolish (ty_at tt t) \<Longrightarrow> node tt T G (EXPR_BINARY op (Some a) (Some b)) t"
| n_shift: "op \<in> shift_ops \<Longrightarrow> typed tt T G a t \<Longrightarrow> integral tt t (born a) \<Longrightarrow> typed tt T G b tb \<Longrightarrow> is_integerish (ty_at tt tb)
    \<Longrightarrow> node tt T G (EXPR_BINARY op (Some a) (Some b)) t"
| n_compare: "op \<in> compare_ops \<Longrightarrow> typed tt T G a c \<Longrightarrow> typed tt T G b c
    \<Longrightarrow> ty_is_numeric (ty_at tt c) \<or> t_kind (ty_at tt c) \<in> {TY_PTR, TY_ENUM} \<Longrightarrow> is_boolish (ty_at tt t)
    \<Longrightarrow> node tt T G (EXPR_BINARY op (Some a) (Some b)) t"
| n_arith: "op \<in> arith_ops \<Longrightarrow> typed tt T G a t \<Longrightarrow> typed tt T G b t
    \<Longrightarrow> ty_is_numeric (ty_at tt t) \<Longrightarrow> node tt T G (EXPR_BINARY op (Some a) (Some b)) t"
| n_bits: "op \<in> bit_ops \<Longrightarrow> typed tt T G a t \<Longrightarrow> typed tt T G b t \<Longrightarrow> integral tt t (born a \<and> born b)
    \<Longrightarrow> node tt T G (EXPR_BINARY op (Some a) (Some b)) t"
| n_call: "G n = Some y \<Longrightarrow> sy_kind y = SYM_FN \<Longrightarrow> sy_type y = Some t \<Longrightarrow> typed_kind (t_kind (ty_at tt t))
    \<Longrightarrow> length (sy_params y) \<le> length args \<Longrightarrow> sy_is_variadic y \<or> length args = length (sy_params y)
    \<Longrightarrow> length ts = length args \<Longrightarrow> (\<And>i. i < length args \<Longrightarrow> \<exists>e. args ! i = Some e \<and> typed tt T G e (ts ! i)
          \<and> (if i < length (sy_params y) then ts ! i = sy_params y ! i else vararg_ok tt (ts ! i)))
    \<Longrightarrow> node tt T G (EXPR_CALL (Some (Expr cpos csem (EXPR_NAME n))) args) t"
| n_index: "typed tt T G a ta \<Longrightarrow> t_kind (ty_at tt ta) = TY_ARRAY \<or> t_kind (ty_at tt ta) = TY_PTR \<and> t_kind (ty_at tt t) \<noteq> TY_VOID
    \<Longrightarrow> t_elem (ty_at tt ta) = Some t \<Longrightarrow> typed_kind (t_kind (ty_at tt t)) \<Longrightarrow> typed tt T G i ti \<Longrightarrow> ty_is_integer (ty_at tt ti)
    \<Longrightarrow> node tt T G (EXPR_INDEX (Some a) (Some i)) t"
| n_field: "typed tt T G a ta \<Longrightarrow> (if t_kind (ty_at tt ta) = TY_PTR then t_elem (ty_at tt ta) = Some r else r = ta)
    \<Longrightarrow> t_kind (ty_at tt r) = TY_STRUCT \<Longrightarrow> t_state (ty_at tt r) = LAYOUT_DONE \<Longrightarrow> valid tt r
    \<Longrightarrow> find (\<lambda>f. fs_name f = n) (t_fields (ty_at tt r)) = Some f \<Longrightarrow> fs_type f = Some t \<Longrightarrow> typed_kind (t_kind (ty_at tt t))
    \<Longrightarrow> node tt T G (EXPR_FIELD (Some a) n) t"
| n_cast: "denotes tt T ty t \<Longrightarrow> ty_is_sized (ty_at tt t) \<Longrightarrow> typed_kind (t_kind (ty_at tt t)) \<Longrightarrow> typed tt T G a ta
    \<Longrightarrow> cast_allowed tt ta t = Some True \<Longrightarrow> node tt T G (EXPR_CAST (Some a) (Some ty)) t"
| n_sizeof: "denotes tt T ty r \<Longrightarrow> valid tt r \<Longrightarrow> ty_is_sized (ty_at tt r) \<Longrightarrow> t_kind (ty_at tt t) = TY_U64
    \<Longrightarrow> node tt T G (EXPR_SIZEOF (Some ty)) t"
| n_conv: "typed tt T G a ta \<Longrightarrow> assigns tt ta t \<Longrightarrow> typed_kind (t_kind (ty_at tt ta)) \<Longrightarrow> typed_kind (t_kind (ty_at tt t))
    \<Longrightarrow> node tt T G (EXPR_CONV (Some a)) t"

section \<open>The judgement and growth\<close>

lemma typedD:
  assumes "typed tt T G e t"
  shows "ex_sem e = Some t" "valid tt t" "t_kind (ty_at tt t) \<noteq> TY_POISON" "node tt T G (ex_u e) t"
  using assms by (auto elim: typed.cases)

text \<open>The predicates on types read the kind only.\<close>

lemma kind_preds:
  assumes "t_kind a = t_kind b"
  shows "ty_is_integer a = ty_is_integer b" "ty_is_signed a = ty_is_signed b" "ty_is_float a = ty_is_float b"
    "ty_is_bool a = ty_is_bool b" "ty_is_numeric a = ty_is_numeric b" "ty_is_untyped a = ty_is_untyped b"
    "is_integerish a = is_integerish b" "is_boolish a = is_boolish b" "castable a c = castable b c" "castable c a = castable c b"
  using assms
  by (simp_all add: ty_is_integer_def ty_is_signed_def ty_is_float_def ty_is_bool_def ty_is_numeric_def ty_is_untyped_def
      is_integerish_def is_boolish_def castable_def)

lemma cast_allowed_grow:
  assumes g: "types_grow tt tt'" and ok: "types_ok tt" and v: "valid tt a" "valid tt b"
  shows "cast_allowed tt' a b = cast_allowed tt a b"
proof -
  have base: "t_kind (ty_at tt' c) = t_kind (ty_at tt c)" if "underlying tt d = Some c" "valid tt d" for c d
    using that enum_base [OF ok that(2)] valid_core [OF ok] types_grow_keeps(1) [OF g]
    by (auto simp: underlying_def split: if_splits)
  have und: "underlying tt' d = underlying tt d" if "valid tt d" for d
    using types_grow_keeps(1,4) [OF g that] by (simp add: underlying_def)
  show ?thesis
    using kind_preds(9,10) [OF base] und v types_grow_keeps(1) [OF g]
    by (auto simp: cast_allowed_def split: bind_split)
qed

lemma literal_ok_same: "same_type (ty_at tt t) (ty_at tt' t) \<Longrightarrow> literal_ok tt' v t = literal_ok tt v t"
  using kind_preds [OF same_type_keeps(1), of "ty_at tt t" "ty_at tt' t"]
  by (cases "t_kind (ty_at tt t) = TY_STRUCT") (auto simp: literal_ok_def same_type_def ty_is_integer_def)

lemma sized_same: "same_type a b \<Longrightarrow> ty_is_sized a \<Longrightarrow> ty_is_sized b"
  by (cases "t_kind a") (auto simp: same_type_def ty_is_sized_def split: if_splits)

lemma typed_grow:
  assumes g: "types_grow tt tt'" and ok: "types_ok tt" "types_ok tt'"
  shows "typed tt T G e t \<Longrightarrow> typed tt' T G e t"
    and "node tt T G u t \<Longrightarrow> valid tt t \<Longrightarrow> node tt' T G u t"
proof (induction rule: typed_node.inducts)
  note V = types_grow_valid [OF g] and S = types_grow_same [OF g]
  note K = same_type_keeps [OF S] and P = kind_preds [OF same_type_keeps(1) [OF S]] and D = typedD(2)
  {
    case (typed u t pos)
    then show ?case using V K by (intro typed_node.typed) auto
  next
    case (n_int v t)
    then show ?case using literal_ok_same [OF S] by (intro typed_node.n_int) simp
  next
    case (n_char v t)
    then show ?case using literal_ok_same [OF S] by (intro typed_node.n_char) simp
  next
    case (n_float t v)
    then show ?case using P K by (intro typed_node.n_float) simp
  next
    case (n_bool t b)
    then show ?case using P by (intro typed_node.n_bool) simp
  next
    case (n_null t)
    then show ?case using K by (intro typed_node.n_null) simp
  next
    case (n_string t e str)
    then show ?case using K V by (intro typed_node.n_string [of _ _ e]) simp_all
  next
    case (n_name n y t)
    then show ?case using K by (intro typed_node.n_name) simp_all
  next
    case (n_neg a t)
    then show ?case using P by (intro typed_node.n_neg) simp_all
  next
    case (n_tilde a t)
    then show ?case using P by (intro typed_node.n_tilde) (simp_all add: integral_def)
  next
    case (n_bang a ta t)
    have v: "valid tt ta" using n_bang D by blast+
    with n_bang show ?case by (intro typed_node.n_bang [of _ _ _ _ ta]) (simp_all add: P K )
  next
    case (n_deref a ta t)
    have v: "valid tt ta" using n_deref D by blast+
    with n_deref show ?case by (intro typed_node.n_deref [of _ _ _ _ ta]) (simp_all add: P K )
  next
    case (n_addr a ta t)
    have v: "valid tt ta" using n_addr D by blast+
    with n_addr show ?case by (intro typed_node.n_addr [of _ _ _ _ ta]) (simp_all add: P K )
  next
    case (n_ptr_offset op a t b tb)
    have v: "valid tt tb" using n_ptr_offset D by blast+
    with n_ptr_offset show ?case by (intro typed_node.n_ptr_offset [of _ _ _ _ _ _ _ tb]) (simp_all add: P K )
  next
    case (n_offset_ptr a ta b t)
    have v: "valid tt ta" using n_offset_ptr D by blast+
    with n_offset_ptr show ?case by (intro typed_node.n_offset_ptr [of _ _ _ _ ta]) (simp_all add: P K )
  next
    case (n_ptr_diff a p b t)
    have v: "valid tt p" using n_ptr_diff D by blast+
    with n_ptr_diff show ?case by (intro typed_node.n_ptr_diff [of _ _ _ _ p]) (simp_all add: P K )
  next
    case (n_logic op a ta b tb t)
    have v: "valid tt ta" "valid tt tb" using n_logic D by blast+
    with n_logic show ?case by (intro typed_node.n_logic [of _ _ _ _ _ ta _ tb]) (simp_all add: P K )
  next
    case (n_shift op a t b tb)
    have v: "valid tt tb" using n_shift D by blast+
    with n_shift show ?case by (intro typed_node.n_shift [of _ _ _ _ _ _ _ tb]) (simp_all add: P K integral_def)
  next
    case (n_compare op a c b t)
    have v: "valid tt c" using n_compare D by blast+
    with n_compare show ?case by (intro typed_node.n_compare [of _ _ _ _ _ c]) (simp_all add: P K )
  next
    case (n_arith op a t b)
    then show ?case using P by (intro typed_node.n_arith) simp_all
  next
    case (n_bits op a t b)
    then show ?case using P by (intro typed_node.n_bits) (simp_all add: integral_def)
  next
    case (n_call n y t args ts cpos csem)
    have va: "vararg_ok tt' r = vararg_ok tt r" if "valid tt r" for r
      using K [OF that] by (simp add: vararg_ok_def)
    show ?case
    proof (rule typed_node.n_call [where n = n and y = y and ts = ts])
      show "G n = Some y" "sy_kind y = SYM_FN" "sy_type y = Some t" "length (sy_params y) \<le> length args"
        "sy_is_variadic y \<or> length args = length (sy_params y)" "length ts = length args"
        using n_call by blast+
      show "typed_kind (t_kind (ty_at tt' t))" using n_call K by simp
      fix i assume "i < length args"
      with n_call obtain e where e: "args ! i = Some e" "typed tt T G e (ts ! i)" "typed tt' T G e (ts ! i)"
        "if i < length (sy_params y) then ts ! i = sy_params y ! i else vararg_ok tt (ts ! i)" by meson
      with va [OF D [OF e(2)]] show "\<exists>e. args ! i = Some e \<and> typed tt' T G e (ts ! i)
          \<and> (if i < length (sy_params y) then ts ! i = sy_params y ! i else vararg_ok tt' (ts ! i))" by auto
    qed
  next
    case (n_index a ta t i ti)
    have "valid tt ta" "valid tt ti" using n_index D by blast+
    with n_index show ?case using K P by (intro typed_node.n_index [of _ _ _ _ ta _ _ ti]) auto
  next
    case (n_field a ta r n f t)
    have "valid tt ta" using n_field D by blast
    moreover have "ty_at tt' r = ty_at tt r" using n_field types_grow_at [OF g] by simp
    ultimately show ?case using n_field K V by (intro typed_node.n_field [of _ _ _ _ ta r _ f]) auto
  next
    case (n_cast ty t a ta)
    have "valid tt ta" using n_cast D by blast
    with n_cast show ?case
      using cast_allowed_grow [OF g ok(1)] denotes_grow [OF _ ok g] sized_same [OF S] K
      by (intro typed_node.n_cast [of _ _ _ _ _ _ ta]) auto
  next
    case (n_sizeof ty r t)
    then show ?case using denotes_grow [OF _ ok g] sized_same [OF S] K V by (intro typed_node.n_sizeof [of _ _ _ r]) auto
  next
    case (n_conv a ta t)
    have "valid tt ta" using n_conv D by blast
    with n_conv show ?case using assigns_grow [OF g ok(1)] K by (intro typed_node.n_conv [of _ _ _ _ ta]) auto
  }
qed

text \<open>What still has the type of an untyped integer consists of literals.\<close>

lemma untyped_born:
  "typed tt T G e t \<Longrightarrow> t_kind (ty_at tt t) = TY_UNTYPED_INT \<Longrightarrow> born e"
  "node tt T G u t \<Longrightarrow> t_kind (ty_at tt t) = TY_UNTYPED_INT \<Longrightarrow> born (Expr pos sem u)"
  by (induction arbitrary: and pos sem rule: typed_node.inducts)
    (auto simp: typed_kind_def ty_is_float_def is_boolish_def ty_is_bool_def arith_ops_def shift_ops_def bit_ops_def op_propagates_def)

section \<open>Implicit conversions keep the value\<close>

text \<open>The values of an integer kind.\<close>

definition int_values :: "ty \<Rightarrow> int set" where
  "int_values t = (if ty_is_signed t then {- (2 ^ (8 * unat (t_size t) - 1)) ..< 2 ^ (8 * unat (t_size t) - 1)}
     else {0 ..< 2 ^ (8 * unat (t_size t))})"

lemma widens_values:
  assumes "widens f t" "ty_is_integer f" "ty_is_integer t"
  shows "int_values f \<subseteq> int_values t"
proof -
  have s: "ty_is_signed f = ty_is_signed t" "t_size f < t_size t" using assms by (auto simp: widens_def)
  then have "unat (t_size f) \<le> unat (t_size t)" by (simp add: word_less_nat_alt)
  then have e: "8 * unat (t_size f) - 1 \<le> 8 * unat (t_size t) - 1" "8 * unat (t_size f) \<le> 8 * unat (t_size t)" by simp_all
  have "(2::int) ^ (8 * unat (t_size f) - 1) \<le> 2 ^ (8 * unat (t_size t) - 1)"
    "(2::int) ^ (8 * unat (t_size f)) \<le> 2 ^ (8 * unat (t_size t))"
    using e by (auto intro: power_increasing)
  then show ?thesis using s by (auto simp: int_values_def)
qed

text \<open>
  C26. Whether a type converts to another without a cast is always decided, and an implicit conversion between integer
  types is a widening: every value of the source type is one of the target.
\<close>
theorem implicit_conversion_keeps_value:
  assumes "types_ok tt" and "valid tt f"
  shows "\<exists>b. assignable tt f t = Some b
    \<and> (b \<and> ty_is_integer (ty_at tt f) \<and> ty_is_integer (ty_at tt t) \<longrightarrow> int_values (ty_at tt f) \<subseteq> int_values (ty_at tt t))"
proof -
  have "int_values (ty_at tt f) \<subseteq> int_values (ty_at tt t)"
    if "assigns tt f t" "ty_is_integer (ty_at tt f)" "ty_is_integer (ty_at tt t)"
  proof (cases "f = t")
    case False
    with that have "widens (ty_at tt f) (ty_at tt t)"
      by (auto simp: assigns_def basic_assigns_def ty_is_integer_def split: ty_kind.splits)
    then show ?thesis using that(2,3) by (rule widens_values)
  qed simp
  then show ?thesis using assignable_eq [OF assms] by auto
qed

theorem implicit_conversion_keeps_value_witness:
  "\<exists>b. assignable types_init 1 5 = Some b
    \<and> (b \<and> ty_is_integer (ty_at types_init 1) \<and> ty_is_integer (ty_at types_init 5) \<longrightarrow>
       int_values (ty_at types_init 1) \<subseteq> int_values (ty_at types_init 5))"
proof -
  have "valid types_init 1" by (simp add: valid_def heap_init core_layout_def)
  from implicit_conversion_keeps_value [OF types_ok_init this] show ?thesis .
qed

end
