(* ===== verification/Slop_Sema_Retype.thy ===== *)
theory Slop_Sema_Retype
  imports Slop_Sema_Typing
begin

text \<open>
  Trees as sema handles them, and the first of its operations on them: a tree of untyped literals takes the
  type of its context. \<open>tree_ok\<close> is what the parser guarantees, \<open>strip\<close> forgets what sema adds, and \<open>has_type\<close> is
  the judgement of \<open>Slop_Sema_Typing\<close> in a state. \<open>retype_untyped\<close> returns, changes types only, and without an
  error the tree has the new type.
\<close>

section \<open>Trees\<close>

definition unary_ops :: "token_kind set" where
  "unary_ops = {Punct TOK_MINUS, Punct TOK_TILDE, Punct TOK_BANG, Punct TOK_STAR, Punct TOK_AMP}"

definition binary_ops :: "token_kind set" where
  "binary_ops = arith_ops \<union> bit_ops \<union> shift_ops \<union> compare_ops \<union> logic_ops"

text \<open>A tree with all its children, with operators and core types of the grammar; a conversion, which only sema
  makes, has a type of the table.\<close>

fun tree_ok :: "type_table \<Rightarrow> expr \<Rightarrow> bool" and node_ok :: "type_table \<Rightarrow> expr_node \<Rightarrow> bool"
  and child_ok :: "type_table \<Rightarrow> expr option \<Rightarrow> bool" where
  "tree_ok tt (Expr pos sem u) = (node_ok tt u \<and> ((\<exists>a. u = EXPR_CONV a) \<longrightarrow> (\<exists>t. sem = Some t \<and> valid tt t)))"
| "node_ok tt (EXPR_UNARY op a) = (op \<in> unary_ops \<and> child_ok tt a)"
| "node_ok tt (EXPR_BINARY op a b) = (op \<in> binary_ops \<and> child_ok tt a \<and> child_ok tt b)"
| "node_ok tt (EXPR_CALL f args) = list_all (child_ok tt) args"
| "node_ok tt (EXPR_INDEX a i) = (child_ok tt a \<and> child_ok tt i)"
| "node_ok tt (EXPR_FIELD a n) = child_ok tt a"
| "node_ok tt (EXPR_CAST a ty) = (child_ok tt a \<and> (case ty of Some ty \<Rightarrow> wf_type ty | None \<Rightarrow> False))"
| "node_ok tt (EXPR_SIZEOF ty) = (case ty of Some ty \<Rightarrow> wf_type ty | None \<Rightarrow> False)"
| "node_ok tt (EXPR_CONV a) = child_ok tt a"
| "node_ok tt u = True"
| "child_ok tt None = False"
| "child_ok tt (Some e) = tree_ok tt e"

lemma child_okD: "child_ok tt a \<Longrightarrow> \<exists>e. a = Some e \<and> tree_ok tt e"
  by (cases a) auto

text \<open>The tree as the source has it: no types, no conversions.\<close>

fun strip :: "expr \<Rightarrow> expr" and strip_node :: "expr_node \<Rightarrow> expr_node" and strip_child :: "expr option \<Rightarrow> expr option" where
  "strip (Expr pos sem u) = (case u of EXPR_CONV (Some e) \<Rightarrow> strip e | _ \<Rightarrow> Expr pos None (strip_node u))"
| "strip_node (EXPR_UNARY op a) = EXPR_UNARY op (strip_child a)"
| "strip_node (EXPR_BINARY op a b) = EXPR_BINARY op (strip_child a) (strip_child b)"
| "strip_node (EXPR_CALL f args) = EXPR_CALL f (map strip_child args)"
| "strip_node (EXPR_INDEX a i) = EXPR_INDEX (strip_child a) (strip_child i)"
| "strip_node (EXPR_FIELD a n) = EXPR_FIELD (strip_child a) n"
| "strip_node (EXPR_CAST a ty) = EXPR_CAST (strip_child a) ty"
| "strip_node u = u"
| "strip_child None = None"
| "strip_child (Some e) = Some (strip e)"

lemma tree_ok_grow:
  "types_grow tt tt' \<Longrightarrow> tree_ok tt e \<Longrightarrow> tree_ok tt' e"
  "types_grow tt tt' \<Longrightarrow> node_ok tt u \<Longrightarrow> node_ok tt' u"
  "types_grow tt tt' \<Longrightarrow> child_ok tt a \<Longrightarrow> child_ok tt' a"
proof (induction tt e and tt u and tt a rule: tree_ok_node_ok_child_ok.induct)
qed (auto simp: list_all_iff types_grow_valid)

text \<open>Every conversion in the tree is well typed already; the parser makes none.\<close>

fun convs :: "type_table \<Rightarrow> (string \<Rightarrow> tyref option) \<Rightarrow> (string \<Rightarrow> sym option) \<Rightarrow> expr \<Rightarrow> bool"
  and convs_node :: "type_table \<Rightarrow> (string \<Rightarrow> tyref option) \<Rightarrow> (string \<Rightarrow> sym option) \<Rightarrow> expr_node \<Rightarrow> bool"
  and convs_child :: "type_table \<Rightarrow> (string \<Rightarrow> tyref option) \<Rightarrow> (string \<Rightarrow> sym option) \<Rightarrow> expr option \<Rightarrow> bool" where
  "convs tt T G (Expr pos sem u) =
     (case u of EXPR_CONV a \<Rightarrow> (\<exists>t. typed tt T G (Expr pos sem (EXPR_CONV a)) t) | _ \<Rightarrow> convs_node tt T G u)"
| "convs_node tt T G (EXPR_UNARY op a) = convs_child tt T G a"
| "convs_node tt T G (EXPR_BINARY op a b) = (convs_child tt T G a \<and> convs_child tt T G b)"
| "convs_node tt T G (EXPR_CALL f args) = list_all (convs_child tt T G) args"
| "convs_node tt T G (EXPR_INDEX a i) = (convs_child tt T G a \<and> convs_child tt T G i)"
| "convs_node tt T G (EXPR_FIELD a n) = convs_child tt T G a"
| "convs_node tt T G (EXPR_CAST a ty) = convs_child tt T G a"
| "convs_node tt T G u = True"
| "convs_child tt T G None = True"
| "convs_child tt T G (Some e) = convs tt T G e"

lemma convs_typed: "typed tt T G e t \<Longrightarrow> convs tt T G e"
proof -
  have "typed tt T G e t \<Longrightarrow> convs tt T G e"
    and "node tt T G u t \<Longrightarrow> convs_node tt T G u" for e u t
  proof (induction rule: typed_node.inducts)
    case (typed u t pos)
    then show ?case by (cases u) (auto intro: typed_node.typed)
  next
    case (n_call n y t args ts cpos csem)
    have "convs_child tt T G (args ! i)" if "i < length args" for i
      using n_call that by fastforce
    then show ?case by (simp add: list_all_length)
  qed simp_all
  then show "typed tt T G e t \<Longrightarrow> convs tt T G e" by blast
qed

inductive_simps node_simps:
  "node tt T G (EXPR_INT v) t" "node tt T G (EXPR_CHAR v) t" "node tt T G (EXPR_FLOAT v) t" "node tt T G (EXPR_BOOL b) t"
  "node tt T G EXPR_NULL t" "node tt T G (EXPR_STRING str) t" "node tt T G (EXPR_NAME n) t" "node tt T G (EXPR_UNARY op a) t"
  "node tt T G (EXPR_BINARY op a b) t" "node tt T G (EXPR_CALL f args) t" "node tt T G (EXPR_INDEX a i) t"
  "node tt T G (EXPR_FIELD a n) t" "node tt T G (EXPR_CAST a ty) t" "node tt T G (EXPR_SIZEOF ty) t" "node tt T G (EXPR_CONV a) t"

section \<open>The judgement in a state\<close>

definition names :: "sema \<Rightarrow> string \<Rightarrow> sym option" where
  "names s n = (case find_name s n of Some (Some y) \<Rightarrow> Some (sym_at s y) | _ \<Rightarrow> None)"

definition type_names :: "sema \<Rightarrow> string \<Rightarrow> tyref option" where
  "type_names s = map_abs (gl_types (se_globals s))"

definition has_type :: "sema \<Rightarrow> expr \<Rightarrow> tyref \<Rightarrow> bool" where
  "has_type s e t \<longleftrightarrow> typed (se_types s) (type_names s) (names s) e t"

definition has_node :: "sema \<Rightarrow> expr_node \<Rightarrow> tyref \<Rightarrow> bool" where
  "has_node s u t \<longleftrightarrow> node (se_types s) (type_names s) (names s) u t"

definition has_convs :: "sema \<Rightarrow> expr \<Rightarrow> bool" where
  "has_convs s = convs (se_types s) (type_names s) (names s)"

text \<open>Every name a body can see has a type: the passes before have resolved it.\<close>

definition bound :: "sema \<Rightarrow> bool" where
  "bound s \<longleftrightarrow> (\<forall>n y. names s n = Some y \<longrightarrow> sy_type y \<noteq> None)"

lemma find_name_ends:
  assumes "sema_ok n s"
  shows "\<exists>y. find_name s x = Some y \<and> (\<forall>r. y = Some r \<longrightarrow> r < length (se_syms s))"
proof (cases "scope_find (se_syms s) (se_scopes s) x")
  case None
  then have "find_name s x = Some (map_abs (gl_values (se_globals s)) x)"
    using sema_okD(3) [OF assms] by (simp add: find_name_def globals_find_value_def globals_ok_def nm.get_abs)
  then show ?thesis using sema_okD(5) [OF assms] by auto
next
  case (Some r)
  then have "r \<in> set (sc_syms (se_scopes s))"
    using find_SomeD by (force simp: scope_find_def down_find segment_def)
  then show ?thesis using Some sema_okD(7) [OF assms] by (auto simp: find_name_def)
qed

lemma kept_names: "kept s s' \<Longrightarrow> names s' = names s" "kept s s' \<Longrightarrow> type_names s' = type_names s" "kept s s' \<Longrightarrow> bound s' = bound s"
proof -
  assume k: "kept s s'"
  show n: "names s' = names s" by (auto simp: fun_eq_iff names_def find_name_def sym_at_def kept_same [OF k] split: option.split)
  show "type_names s' = type_names s" by (simp add: type_names_def kept_same [OF k])
  show "bound s' = bound s" by (simp add: bound_def n)
qed

lemma has_type_kept:
  assumes "kept s s'" "sema_ok n s" "sema_ok n s'" "has_type s e t"
  shows "has_type s' e t"
  using typed_grow(1) [OF keptD(1) [OF assms(1)] sema_okD(1) [OF assms(2)] sema_okD(1) [OF assms(3)]] assms(4)
  by (simp add: has_type_def kept_names [OF assms(1)])

lemma has_convs_kept:
  assumes "kept s s'" "sema_ok n s" "sema_ok n s'" "has_convs s e"
  shows "has_convs s' e"
proof -
  note g = typed_grow(1) [OF keptD(1) [OF assms(1)] sema_okD(1) [OF assms(2)] sema_okD(1) [OF assms(3)]]
  have "convs (se_types s) T G e \<Longrightarrow> convs (se_types s') T G e"
    "convs_node (se_types s) T G u \<Longrightarrow> convs_node (se_types s') T G u"
    "convs_child (se_types s) T G a \<Longrightarrow> convs_child (se_types s') T G a" for T G e u a
    by (induction e and u and a rule: strip_strip_node_strip_child.induct)
      (auto simp: list_all_iff split: expr_node.splits intro: g)
  then show ?thesis using assms(4) by (simp add: has_convs_def kept_names [OF assms(1)])
qed

lemma has_typeD:
  assumes "has_type s e t"
  shows "ex_sem e = Some t" "valid (se_types s) t" "kind s t \<noteq> TY_POISON" "has_node s (ex_u e) t" "has_convs s e"
  using typedD [OF assms [unfolded has_type_def]] convs_typed [OF assms [unfolded has_type_def]]
  by (simp_all add: has_node_def has_convs_def kind_def)

section \<open>Literals take a type\<close>

lemma literal_fits_ok:
  assumes ok: "sema_ok n s" and v: "valid (se_types s) t"
  shows "ends (literal_fits pos x t s) (\<lambda>s'. sema_ok n s' \<and> kept s s'
    \<and> (nerr s' = 0 \<longrightarrow> ty_is_integer (ty_of s t) \<longrightarrow> unat x \<le> int_max (ty_of s t)))"
proof -
  from ty_int_fits_ok [OF sema_okD(1) [OF ok] v, of x] obtain b where b: "ty_int_fits (se_types s) t x = Some b"
    "ty_is_integer (ty_of s t) \<longrightarrow> b = (unat x \<le> int_max (ty_of s t))" by (auto simp: ty_of_def)
  have e: "ends (serror pos ps s) (\<lambda>s'. sema_ok n s' \<and> kept s s' \<and> 0 < nerr s')" if "list_all (piece_ok s) ps" for ps
    by (rule ends_mono [OF serror_ends [OF ok that]]) (simp add: after_error_def)
  show ?thesis
    using b(2) ok ends_mono [OF e [of "[Txt ''integer literal '', Num (unat x), Txt '' does not fit in '', TyName128 t]"]] v
    by (auto simp: literal_fits_def b(1))
qed

text \<open>A tree whose nodes have got the type \<open>tg\<close> where they take it.\<close>

definition retyped :: "type_table \<Rightarrow> tyref \<Rightarrow> expr \<Rightarrow> expr \<Rightarrow> bool" where
  "retyped tt tg e e' \<longleftrightarrow> ex_sem e' = Some tg \<and> ex_pos e' = ex_pos e \<and> tree_ok tt e' \<and> expr_height e' = expr_height e
     \<and> strip e' = strip e \<and> born e' = born e"

definition retype_post :: "nat \<Rightarrow> sema \<Rightarrow> tyref \<Rightarrow> expr \<Rightarrow> expr \<Rightarrow> sema \<Rightarrow> bool" where
  "retype_post n s tg e e' s' \<longleftrightarrow> sema_ok n s' \<and> kept s s' \<and> retyped (se_types s') tg e e'
     \<and> (nerr s' = 0 \<longrightarrow> (\<forall>t. has_type s e t \<and> ty_is_untyped (ty_of s t) \<and> basic_assigns (ty_of s t) (ty_of s tg) \<longrightarrow> has_type s' e' tg))"

lemma basic_assigns_proper: "ty_is_untyped f \<Longrightarrow> basic_assigns f t \<Longrightarrow> t_kind t \<noteq> TY_POISON"
  by (auto simp: ty_is_untyped_def basic_assigns_def ty_is_integer_def ty_is_float_def ty_is_bool_def)

lemma basic_assigns_numeric:
  assumes "ty_is_untyped f" "ty_is_numeric f" "basic_assigns f t"
  shows "ty_is_numeric t" "ty_is_integer t \<Longrightarrow> t_kind f = TY_UNTYPED_INT"
  using assms by (auto simp: ty_is_untyped_def ty_is_numeric_def basic_assigns_def ty_is_integer_def ty_is_float_def)

text \<open>The nodes below which \<open>retype_untyped\<close> goes, or whose value it checks.\<close>

fun retypes :: "expr_node \<Rightarrow> bool" where
  "retypes (EXPR_INT v) = True"
| "retypes (EXPR_CHAR v) = True"
| "retypes (EXPR_UNARY op a) = (op = Punct TOK_MINUS \<or> op = Punct TOK_TILDE)"
| "retypes (EXPR_BINARY op a b) = (op_propagates op \<or> op = Punct TOK_SHL \<or> op = Punct TOK_SHR)"
| "retypes u = False"

lemma untyped_plain:
  assumes "node tt T G u t" "ty_is_untyped (ty_at tt t)" "basic_assigns (ty_at tt t) (ty_at tt tg)" "\<not> retypes u"
  shows "node tt T G u tg"
proof -
  have bool: "is_boolish (ty_at tt t) \<Longrightarrow> is_boolish (ty_at tt tg)" "t_kind (ty_at tt t) = TY_NULL \<Longrightarrow> t_kind (ty_at tt tg) = TY_PTR"
    "t_kind (ty_at tt t) = TY_UNTYPED_FLOAT \<Longrightarrow> ty_is_float (ty_at tt tg)"
    using assms(2,3) by (auto simp: is_boolish_def basic_assigns_def ty_is_untyped_def ty_is_bool_def)
  show ?thesis
    using assms(1,2,4) bool
    by cases (auto intro: typed_node.intros simp: ty_is_untyped_def typed_kind_def ty_is_float_def arith_ops_def bit_ops_def shift_ops_def op_propagates_def)
qed

text \<open>A node keeps its shape, and the judgement for it follows from that for its children.\<close>

lemma retype_node:
  assumes "sema_ok n s'" "kept s s'" "valid (se_types s) tg"
    and "node_ok (se_types s') u'" "node_height u' = node_height u" "\<And>e. u \<noteq> EXPR_CONV e" "\<And>e. u' \<noteq> EXPR_CONV e" "strip_node u' = strip_node u"
    and "born (Expr pos (Some tg) u') = born (Expr pos sem u)"
    and "\<And>t. nerr s' = 0 \<Longrightarrow> has_node s u t \<Longrightarrow> ty_is_untyped (ty_of s t) \<Longrightarrow> basic_assigns (ty_of s t) (ty_of s tg)
      \<Longrightarrow> valid (se_types s) t \<Longrightarrow> has_node s' u' tg"
  shows "retype_post n s tg (Expr pos sem u) (Expr pos (Some tg) u') s'"
proof -
  have "has_type s' (Expr pos (Some tg) u') tg" if "nerr s' = 0" "has_type s (Expr pos sem u) t" "ty_is_untyped (ty_of s t)"
      "basic_assigns (ty_of s t) (ty_of s tg)" for t
  proof -
    have "has_node s' u' tg" using assms(10) that has_typeD [OF that(2)] by simp
    moreover have "t_kind (ty_at (se_types s') tg) \<noteq> TY_POISON"
      using basic_assigns_proper [OF that(3,4)] kept_kind [OF assms(2,3)] by (simp add: kind_def ty_of_def)
    ultimately show ?thesis
      using kept_valid [OF assms(2,3)] by (simp add: has_type_def has_node_def typed)
  qed
  then show ?thesis
    using assms(1-9) by (auto simp: retype_post_def retyped_def split: expr_node.split)
qed

lemma retype_untyped_ok:
  assumes "sema_ok n s" "valid (se_types s) tg" "tree_ok (se_types s) e"
  shows "wp (retype_untyped tg e s) (retype_post n s tg e)"
  using assms
proof (induction "size e" arbitrary: e s rule: less_induct)
  case less
  obtain pos sem u where e: "e = Expr pos sem u" by (cases e)
  note ok = less.prems(1) and v = less.prems(2)
  have child: "wp (retype_child tg a s1) (\<lambda>a' s2. \<exists>c c'. a = Some c \<and> a' = Some c' \<and> retype_post n s1 tg c c' s2)"
    if "child_ok (se_types s) a" "\<And>c. a = Some c \<Longrightarrow> size c < size e" "sema_ok n s1" "kept s s1" for a s1
  proof -
    from child_okD [OF tree_ok_grow(3) [OF keptD(1) [OF that(4)] that(1)]]
    obtain c where c: "a = Some c" "tree_ok (se_types s1) c" by blast
    show ?thesis
      unfolding c(1) retype_child.simps
      by (rule wp_step [OF less.hyps [OF that(2) [OF c(1)] that(3) kept_valid [OF that(4) v] c(2)]]) simp
  qed
  have plain: "retype_post n s tg e (Expr pos (Some tg) u) s"
    if "node_ok (se_types s) u" "\<And>t. has_node s u t \<Longrightarrow> ty_is_untyped (ty_of s t) \<Longrightarrow> basic_assigns (ty_of s t) (ty_of s tg)
      \<Longrightarrow> has_node s u tg"
  proof (cases "\<exists>a. u = EXPR_CONV a")
    case True
    have "\<not> (has_type s e t \<and> ty_is_untyped (ty_of s t))" for t
      using True by (auto simp: e has_type_def node_simps typed_kind_def ty_is_untyped_def ty_of_def elim!: typed.cases)
    with True that(1) ok v show ?thesis by (auto simp: e retype_post_def retyped_def)
  next
    case False
    then show ?thesis unfolding e using that by (intro retype_node ok v) (auto, (cases u; simp)+)
  qed
  have tgs: "same_type (ty_of s tg) (ty_of s1 tg)" if "kept s s1" for s1
    using types_grow_same [OF keptD(1) [OF that] v] by (simp add: ty_of_def)
  have ub: "t_kind (ty_of s t) = TY_UNTYPED_INT \<Longrightarrow> born c" if "has_type s c t" for c t
    using untyped_born(1) [OF that [unfolded has_type_def]] by (simp add: ty_of_def)
  have int_lit: "is_integerish f \<Longrightarrow> ty_is_untyped f \<Longrightarrow> t_kind f = TY_UNTYPED_INT" for f
    by (auto simp: is_integerish_def ty_is_untyped_def ty_is_integer_def)
  have num_int: "is_integerish f \<Longrightarrow> ty_is_untyped f \<Longrightarrow> ty_is_numeric f" for f
    using int_lit [of f] by (simp add: ty_is_numeric_def)
  have lit: "wp (do { s \<leftarrow> literal_fits pos x tg s; Some (Expr pos (Some tg) u, s) }) (retype_post n s tg e)"
    if "\<And>t tt T G. node tt T G u t \<longleftrightarrow> literal_ok tt x t" "u = EXPR_INT x \<or> u = EXPR_CHAR x" for x
  proof (rule wp_ends [OF literal_fits_ok [OF ok v]])
    fix s1 assume s1: "sema_ok n s1 \<and> kept s s1 \<and> (nerr s1 = 0 \<longrightarrow> ty_is_integer (ty_of s tg) \<longrightarrow> unat x \<le> int_max (ty_of s tg))"
    have "retype_post n s tg e (Expr pos (Some tg) u) s1"
      unfolding e
    proof (rule retype_node)
      fix t assume a: "nerr s1 = 0" "has_node s u t" "ty_is_untyped (ty_of s t)" "basic_assigns (ty_of s t) (ty_of s tg)"
      then have "literal_ok (se_types s) x tg"
        using s1 basic_assigns_numeric(1) [OF a(3) _ a(4)] by (auto simp: literal_ok_def has_node_def that(1) ty_of_def)
      then show "has_node s1 u tg"
        using literal_ok_same [of "se_types s" tg "se_types s1" x] tgs [of s1] s1 by (simp add: has_node_def that(1) ty_of_def)
    qed (use s1 v that(2) in auto)
    then show "wp (Some (Expr pos (Some tg) u, s1)) (retype_post n s tg e)" by simp
  qed
  show ?case
  proof (cases u)
    case (EXPR_INT x)
    with lit [of x] show ?thesis by (auto simp: e node_simps)
  next
    case (EXPR_CHAR x)
    with lit [of x] show ?thesis by (auto simp: e node_simps)
  next
    case (EXPR_UNARY op a)
    show ?thesis
    proof (cases "op = Punct TOK_MINUS \<or> op = Punct TOK_TILDE")
      case False
      have "retype_post n s tg e (Expr pos (Some tg) u) s"
        using less.prems(3) untyped_plain False by (intro plain) (auto simp: e EXPR_UNARY has_node_def ty_of_def)
      with False show ?thesis by (simp add: e EXPR_UNARY)
    next
      case True
      have "wp (do { (a, s) \<leftarrow> retype_child tg a s; Some (Expr pos (Some tg) (EXPR_UNARY op a), s) }) (retype_post n s tg e)"
      proof (rule wp_step [OF child [OF _ _ ok kept_refl]])
        fix a' s1 assume "\<exists>c c'. a = Some c \<and> a' = Some c' \<and> retype_post n s tg c c' s1"
        then obtain c c' where c: "a = Some c" "a' = Some c'" "retype_post n s tg c c' s1" by blast
        then have c': "sema_ok n s1" "kept s s1" "retyped (se_types s1) tg c c'" by (simp_all add: retype_post_def)
        have "retype_post n s tg e (Expr pos (Some tg) (EXPR_UNARY op a')) s1"
          unfolding e EXPR_UNARY c(1,2)
        proof (rule retype_node [OF c'(1,2) v])
          fix t assume a: "nerr s1 = 0" "has_node s (EXPR_UNARY op (Some c)) t" "ty_is_untyped (ty_of s t)"
            "basic_assigns (ty_of s t) (ty_of s tg)"
          from a(2) True have ct: "has_type s c t" and num: "ty_is_numeric (ty_of s t)"
            using num_int [OF _ a(3)] by (auto simp: has_node_def node_simps has_type_def integral_def ty_of_def)
          from c(3) a ct have t': "has_type s1 c' tg" by (auto simp: retype_post_def)
          note N = basic_assigns_numeric [OF a(3) num a(4)]
          have "born c' \<or> \<not> ty_is_integer (ty_of s tg)" "op = Punct TOK_TILDE \<Longrightarrow> born c'"
            using N(2) ub [OF ct] a(2,3) c'(3) by (auto simp: retyped_def ty_of_def has_node_def node_simps integral_def int_lit)
          then show "has_node s1 (EXPR_UNARY op (Some c')) tg"
            using True t' N(1) kind_preds [OF same_type_keeps(1) [OF tgs [OF c'(2)]]]
            by (auto simp: has_node_def has_type_def node_simps integral_def ty_of_def)
        qed (use c'(3) less.prems(3) in \<open>auto simp: retyped_def e EXPR_UNARY c\<close>)
        then show "wp (Some (Expr pos (Some tg) (EXPR_UNARY op a'), s1)) (retype_post n s tg e)" by simp
      qed (use less.prems(3) in \<open>auto simp: e EXPR_UNARY\<close>)
      with True show ?thesis by (auto simp: e EXPR_UNARY)
    qed
  next
    case (EXPR_BINARY op a b)
    consider (both) "op_propagates op" | (left) "op = Punct TOK_SHL \<or> op = Punct TOK_SHR" "\<not> op_propagates op"
      | (none) "\<not> retypes u" using EXPR_BINARY by auto
    then show ?thesis
    proof cases
      case none
      have "retype_post n s tg e (Expr pos (Some tg) u) s"
        using less.prems(3) untyped_plain none by (intro plain) (auto simp: e has_node_def ty_of_def)
      with none show ?thesis by (simp add: e EXPR_BINARY)
    next
      case both
      have "wp (do { (a, s) \<leftarrow> retype_child tg a s; (b, s) \<leftarrow> retype_child tg b s;
          Some (Expr pos (Some tg) (EXPR_BINARY op a b), s) }) (retype_post n s tg e)"
      proof (rule wp_step [OF child [OF _ _ ok kept_refl]])
        fix a' s1 assume "\<exists>c c'. a = Some c \<and> a' = Some c' \<and> retype_post n s tg c c' s1"
        then obtain c c' where c: "a = Some c" "a' = Some c'" "retype_post n s tg c c' s1" by blast
        then have c': "sema_ok n s1" "kept s s1" "retyped (se_types s1) tg c c'" by (simp_all add: retype_post_def)
        show "wp (do { (b, s) \<leftarrow> retype_child tg b s1; Some (Expr pos (Some tg) (EXPR_BINARY op a' b), s) }) (retype_post n s tg e)"
        proof (rule wp_step [OF child [OF _ _ c'(1,2)]])
          fix b' s2 assume "\<exists>d d'. b = Some d \<and> b' = Some d' \<and> retype_post n s1 tg d d' s2"
          then obtain d d' where d: "b = Some d" "b' = Some d'" "retype_post n s1 tg d d' s2" by blast
          then have d': "sema_ok n s2" "kept s1 s2" "kept s s2" "retyped (se_types s2) tg d d'" using kept_trans [OF c'(2)] by (simp_all add: retype_post_def)
          have "retype_post n s tg e (Expr pos (Some tg) (EXPR_BINARY op a' b')) s2"
            unfolding e EXPR_BINARY c(1,2) d(1,2)
          proof (rule retype_node [OF d'(1,3) v])
            fix t assume a: "nerr s2 = 0" "has_node s (EXPR_BINARY op (Some c) (Some d)) t" "ty_is_untyped (ty_of s t)"
              "basic_assigns (ty_of s t) (ty_of s tg)" "valid (se_types s) t"
            from a(2,3) both have ct: "has_type s c t" "has_type s d t" and num: "ty_is_numeric (ty_of s t)"
              and op: "op \<in> arith_ops \<or> op \<in> bit_ops \<and> born c \<and> born d"
              using num_int [OF _ a(3)] int_lit [OF _ a(3)] ub
              by (auto simp: has_node_def node_simps has_type_def integral_def ty_of_def ty_is_untyped_def op_propagates_def
                  logic_ops_def shift_ops_def compare_ops_def)
            have z: "nerr s1 = 0" using keptD(2) [OF d'(2)] a(1) by simp
            have at: "ty_of s1 t = ty_of s t"
              using types_grow_at [OF keptD(1) [OF c'(2)] a(5)] a(3) by (auto simp: ty_of_def ty_is_untyped_def)
            have "has_type s1 c' tg" using c(3) a ct z by (auto simp: retype_post_def)
            then have t1: "has_type s2 c' tg" by (rule has_type_kept [OF d'(2) c'(1) d'(1)])
            have "has_type s1 d t" by (rule has_type_kept [OF c'(2) ok c'(1) ct(2)])
            then have t2: "has_type s2 d' tg"
              using d(3) a at basic_assigns_same [OF _ tgs [OF c'(2)], of "ty_of s t"] by (auto simp: retype_post_def)
            show "has_node s2 (EXPR_BINARY op (Some c') (Some d')) tg"
              using op t1 t2 basic_assigns_numeric(1) [OF a(3) num a(4)] c'(3) d'(4)
                kind_preds [OF same_type_keeps(1) [OF tgs [OF d'(3)]]]
              by (auto simp: has_node_def has_type_def node_simps integral_def ty_of_def retyped_def)
          qed (use c'(3) d'(4) less.prems(3) tree_ok_grow(1) [OF keptD(1) [OF d'(2)]] in \<open>auto simp: retyped_def e EXPR_BINARY c d\<close>)
          then show "wp (Some (Expr pos (Some tg) (EXPR_BINARY op a' b'), s2)) (retype_post n s tg e)" by simp
        qed (use less.prems(3) in \<open>auto simp: e EXPR_BINARY\<close>)
      qed (use less.prems(3) in \<open>auto simp: e EXPR_BINARY\<close>)
      with both show ?thesis by (simp add: e EXPR_BINARY)
    next
      case left
      have "wp (do { (a, s) \<leftarrow> retype_child tg a s; Some (Expr pos (Some tg) (EXPR_BINARY op a b), s) }) (retype_post n s tg e)"
      proof (rule wp_step [OF child [OF _ _ ok kept_refl]])
        fix a' s1 assume "\<exists>c c'. a = Some c \<and> a' = Some c' \<and> retype_post n s tg c c' s1"
        then obtain c c' where c: "a = Some c" "a' = Some c'" "retype_post n s tg c c' s1" by blast
        then have c': "sema_ok n s1" "kept s s1" "retyped (se_types s1) tg c c'" by (simp_all add: retype_post_def)
        obtain d where d: "b = Some d" "tree_ok (se_types s) d" using less.prems(3) child_okD by (auto simp: e EXPR_BINARY)
        have "retype_post n s tg e (Expr pos (Some tg) (EXPR_BINARY op a' b)) s1"
          unfolding e EXPR_BINARY c(1,2) d(1)
        proof (rule retype_node [OF c'(1,2) v])
          fix t assume a: "nerr s1 = 0" "has_node s (EXPR_BINARY op (Some c) (Some d)) t" "ty_is_untyped (ty_of s t)"
            "basic_assigns (ty_of s t) (ty_of s tg)" "valid (se_types s) t"
          from a(2,3) left obtain td where ct: "has_type s c t" "has_type s d td" "is_integerish (ty_of s td)"
            and num: "ty_is_numeric (ty_of s t)" and born: "born c"
            using num_int [OF _ a(3)] int_lit [OF _ a(3)] ub
            by (auto simp: has_node_def node_simps has_type_def integral_def ty_of_def logic_ops_def arith_ops_def bit_ops_def compare_ops_def)
          have t1: "has_type s1 c' tg" using c(3) a ct by (auto simp: retype_post_def)
          have t2: "has_type s1 d td" by (rule has_type_kept [OF c'(2) ok c'(1) ct(2)])
          have "is_integerish (ty_of s1 td)"
            using ct(3) kind_preds(7) [OF types_grow_keeps(1) [OF keptD(1) [OF c'(2)] has_typeD(2) [OF ct(2)]]] by (simp add: ty_of_def)
          moreover have "integral (se_types s1) tg (born c')"
            using born c'(3) basic_assigns_numeric(1) [OF a(3) num a(4)] kind_preds(5) [OF same_type_keeps(1) [OF tgs [OF c'(2)]]]
            by (simp add: integral_def retyped_def ty_of_def)
          moreover have "op \<in> shift_ops" using left(1) by (auto simp: shift_ops_def)
          ultimately show "has_node s1 (EXPR_BINARY op (Some c') (Some d)) tg"
            using t1 t2 unfolding has_node_def has_type_def ty_of_def by (intro n_shift)
        qed (use c'(3) d left(2) less.prems(3) tree_ok_grow(1) [OF keptD(1) [OF c'(2)]] in \<open>auto simp: retyped_def e EXPR_BINARY c\<close>)
        then show "wp (Some (Expr pos (Some tg) (EXPR_BINARY op a' b), s1)) (retype_post n s tg e)" by simp
      qed (use less.prems(3) in \<open>auto simp: e EXPR_BINARY\<close>)
      with left show ?thesis by (auto simp: e EXPR_BINARY)
    qed
  qed (use plain untyped_plain less.prems(3) in \<open>auto simp: e has_node_def ty_of_def\<close>)
qed

end
