(* ===== verification/Slop_Sema_Check.thy ===== *)
theory Slop_Sema_Check
  imports Slop_Sema_Retype
begin

text \<open>
  What \<open>check_expr\<close> guarantees: on every tree the parser can build it returns, changes nothing of the tree but types
  and conversions, and keeps the invariant; and when no error has been reported the tree it leaves is
  well typed. The operations are proved one by one against the contract \<open>good_checker\<close> of the recursive call.
\<close>

section \<open>Conversions\<close>

lemma after_errorD:
  assumes "after_error n s s'"
  shows "sema_ok n s'" "kept s s'" "0 < nerr s'" "valid (se_types s') (poison s')"
  using assms poison_is(1) [OF sema_okD(1)] unfolding after_error_def by blast+

lemma kept_tree: "kept s s' \<Longrightarrow> tree_ok (se_types s) e \<Longrightarrow> tree_ok (se_types s') e"
  "kept s s' \<Longrightarrow> child_ok (se_types s) a \<Longrightarrow> child_ok (se_types s') a"
  "kept s s' \<Longrightarrow> list_all (child_ok (se_types s)) args \<Longrightarrow> list_all (child_ok (se_types s')) args"
  using tree_ok_grow [OF keptD(1), of s s'] by (auto simp: list_all_iff)

text \<open>A tree that has become another one, of a type, in a later state.\<close>

definition becomes :: "nat \<Rightarrow> sema \<Rightarrow> expr \<Rightarrow> tyref \<Rightarrow> expr \<Rightarrow> sema \<Rightarrow> bool" where
  "becomes n s e t e' s' \<longleftrightarrow> sema_ok n s' \<and> kept s s' \<and> valid (se_types s') t \<and> tree_ok (se_types s') e' \<and> expr_height e' \<le> expr_height e
     \<and> strip e' = strip e \<and> (\<exists>u. ex_sem e' = Some u \<and> valid (se_types s') u)"

lemma becomes_ok: "becomes n s e t e' s' \<Longrightarrow> sema_ok n s'" "becomes n s e t e' s' \<Longrightarrow> kept s s'"
  "becomes n s e t e' s' \<Longrightarrow> tree_ok (se_types s') e'" "becomes n s e t e' s' \<Longrightarrow> valid (se_types s') t"
  by (simp_all add: becomes_def)

lemma becomes_trans:
  assumes "becomes n s e t e' s'" "becomes n s' e' u e'' s''"
  shows "becomes n s e u e'' s''"
  using assms kept_trans [of s s' s''] by (auto simp: becomes_def)

lemma becomes_later:
  assumes "becomes n s e t e' s'" "kept s' s''" "sema_ok n s''" "valid (se_types s'') u"
  shows "becomes n s e u e' s''"
  using assms kept_trans [of s s' s''] kept_valid [OF assms(2)] kept_tree(1) [OF assms(2)] by (auto simp: becomes_def)

lemma nerr_zero: "kept s s' \<Longrightarrow> nerr s' = 0 \<Longrightarrow> nerr s = 0"
  using keptD(2) [of s s'] by simp

lemma strip_sem: "strip (Expr pos sem u) = strip (Expr pos sem' u)"
  by (cases u) simp_all

lemma ex_set_sem_same [simp]:
  "tree_ok tt e \<Longrightarrow> valid tt t \<Longrightarrow> tree_ok tt (ex_set_sem t e)" "expr_height (ex_set_sem t e) = expr_height e" "strip (ex_set_sem t e) = strip e"
  "ex_sem (ex_set_sem t e) = Some t"
  using strip_sem by (cases e; simp add: ex_set_sem_def)+

lemma conv_typed:
  assumes ok: "types_ok tt" and a: "assigns tt f t" "typed_kind (t_kind (ty_at tt f))" "t_kind (ty_at tt f) \<noteq> TY_POISON"
    "t_kind (ty_at tt t) \<noteq> TY_POISON" "valid tt f" "f \<noteq> t"
  shows "typed_kind (t_kind (ty_at tt t))"
proof -
  have w: "basic_assigns x y \<Longrightarrow> typed_kind (t_kind x) \<Longrightarrow> typed_kind (t_kind y)" for x y
    by (auto simp: basic_assigns_def typed_kind_def widens_def ty_is_integer_def ty_is_bool_def split: ty_kind.splits if_splits)
  show ?thesis
  proof (cases "t_kind (ty_at tt f) = TY_ENUM")
    case True
    from enum_base [OF ok a(5) True] w a True show ?thesis by (auto simp: assigns_def Let_def proper_def)
  next
    case False
    with w a show ?thesis by (auto simp: assigns_def)
  qed
qed

text \<open>\<open>coerce\<close> to a type gives the tree that type, or reports an error.\<close>

definition coerced :: "nat \<Rightarrow> sema \<Rightarrow> expr \<Rightarrow> tyref \<Rightarrow> tyref \<times> expr option \<Rightarrow> sema \<Rightarrow> bool" where
  "coerced n s e tg r s' \<longleftrightarrow> (case r of (t, slot) \<Rightarrow> \<exists>e'. slot = Some e' \<and> becomes n s e t e' s'
     \<and> (nerr s' = 0 \<and> kind s tg \<noteq> TY_POISON \<longrightarrow> t = tg \<and> (\<forall>from. has_type s e from \<longrightarrow> has_type s' e' tg)))"

lemma coerce_ok:
  assumes ok: "sema_ok n s" and e: "tree_ok (se_types s) e" "ex_sem e = Some from" "valid (se_types s) from" and tg: "valid (se_types s) tg"
  shows "wp (coerce (Some e) tg s) (coerced n s e tg)"
proof -
  note T = sema_okD(1) [OF ok]
  have ident: "becomes n s e t e s" if "valid (se_types s) t" for t using ok e that by (simp add: becomes_def)
  have as: "assignable (se_types s) from tg = Some (assigns (se_types s) from tg)"
    by (rule assignable_eq [OF T e(3)])
  have fty: "t = from" if "has_type s e t" for t using has_typeD(1) [OF that] e(2) by simp
  consider (same) "from = tg" | (poison) "from \<noteq> tg" "kind s from = TY_POISON \<or> kind s tg = TY_POISON"
    | (bad) "from \<noteq> tg" "kind s from \<noteq> TY_POISON" "kind s tg \<noteq> TY_POISON" "\<not> assigns (se_types s) from tg"
    | (literal) "from \<noteq> tg" "kind s from \<noteq> TY_POISON" "kind s tg \<noteq> TY_POISON" "assigns (se_types s) from tg"
        "ty_is_untyped (ty_of s from)"
    | (conv) "from \<noteq> tg" "kind s from \<noteq> TY_POISON" "kind s tg \<noteq> TY_POISON" "assigns (se_types s) from tg"
        "\<not> ty_is_untyped (ty_of s from)" by blast
  then show ?thesis
  proof cases
    case same
    then show ?thesis using e ident [OF tg] fty by (auto simp: coerce_def coerced_def)
  next
    case poison
    then show ?thesis
      using e(2) ident [OF tg] fty has_typeD(3) [of s e] by (auto simp: coerce_def coerced_def)
  next
    case bad
    have "wp (do { s \<leftarrow> serror (ex_pos e) [Txt ''cannot convert '', TyName128 from, Txt '' to '', TyName128 tg,
            Txt (CHR '' '' # ''implicitly; use '' @ [CHR 0x27] @ ''.as(''), TyName128 tg, Txt ('')'' @ [CHR 0x27])] s;
          Some ((poison s, Some (ex_set_sem (poison s) e)), s) }) (coerced n s e tg)"
    proof (rule wp_serror [OF ok])
      fix s' assume a: "after_error n s s'"
      then have "becomes n s e (poison s') (ex_set_sem (poison s') e) s'"
        using after_errorD [OF a] e kept_tree(1) by (simp add: becomes_def)
      with a show "wp (Some ((poison s', Some (ex_set_sem (poison s') e)), s')) (coerced n s e tg)"
        by (simp add: coerced_def after_error_def)
    qed (use e tg in simp)
    with bad show ?thesis by (simp add: coerce_def e(2) as)
  next
    case literal
    have ba: "basic_assigns (ty_of s from) (ty_of s tg)"
      using literal by (auto simp: assigns_def ty_of_def kind_def ty_is_untyped_def)
    have "wp (do { (e, s) \<leftarrow> retype_untyped tg e s; Some ((tg, Some e), s) }) (coerced n s e tg)"
    proof (rule wp_step [OF retype_untyped_ok [OF ok tg e(1)]])
      fix e' s' assume p: "retype_post n s tg e e' s'"
      then have "becomes n s e tg e' s'"
        using kept_valid [of s s', OF _ tg] by (auto simp: retype_post_def retyped_def becomes_def)
      moreover have "has_type s' e' tg" if "nerr s' = 0" "has_type s e t" for t
        using p that literal(5) ba fty [OF that(2)] by (auto simp: retype_post_def)
      ultimately show "wp (Some ((tg, Some e'), s')) (coerced n s e tg)" by (auto simp: coerced_def)
    qed
    with literal show ?thesis by (simp add: coerce_def e(2) as)
  next
    case conv
    have "has_type s (Expr (ex_pos e) (Some tg) (EXPR_CONV (Some e))) tg" if t: "has_type s e t"
      for t
    proof -
      have tk: "typed_kind (t_kind (ty_at (se_types s) from))" using conv(5) by (simp add: typed_kind_def ty_is_untyped_def ty_of_def)
      from conv_typed [OF T conv(4) tk _ _ e(3) conv(1)] conv(2,3)
      have "typed_kind (t_kind (ty_at (se_types s) tg))" by (simp add: kind_def)
      then show ?thesis
        unfolding has_type_def
        by (intro typed_node.typed typed_node.n_conv [OF t [unfolded fty [OF t] has_type_def] conv(4) tk])
          (use tg conv(3) in \<open>auto simp: kind_def\<close>)
    qed
    moreover have "becomes n s e tg (Expr (ex_pos e) (Some tg) (EXPR_CONV (Some e))) s"
      using ok e tg by (cases e) (auto simp: becomes_def)
    ultimately show ?thesis using conv by (auto simp: coerce_def e(2) as coerced_def)
  qed
qed

section \<open>The contract of the recursive call\<close>

definition checked :: "nat \<Rightarrow> sema \<Rightarrow> expr \<Rightarrow> tyref \<times> expr option \<Rightarrow> sema \<Rightarrow> bool" where
  "checked n s e r s' \<longleftrightarrow> (case r of (t, slot) \<Rightarrow> \<exists>e'. slot = Some e' \<and> becomes n s e t e' s' \<and> ex_sem e' = Some t
     \<and> (nerr s' = 0 \<and> bound s \<and> has_convs s e \<longrightarrow> has_type s' e' t))"

definition good_checker :: "nat \<Rightarrow> nat \<Rightarrow> checker \<Rightarrow> bool" where
  "good_checker n h ck \<longleftrightarrow> (\<forall>s e. sema_ok n s \<and> tree_ok (se_types s) e \<and> expr_height e \<le> h \<longrightarrow> wp (ck (Some e) None s) (checked n s e))"

lemma wp_pair:
  assumes "wp m (\<lambda>(a, b) s. P a b s)" and "\<And>a b s. P a b s \<Longrightarrow> wp (f a b s) Q"
  shows "wp (Option.bind m (\<lambda>((a, b), s). f a b s)) Q"
  using assms(1) by (rule wp_step) (auto simp: assms(2))

lemma wp_cond: "(b \<Longrightarrow> wp m Q) \<Longrightarrow> (\<not> b \<Longrightarrow> wp m' Q) \<Longrightarrow> wp (if b then m else m') Q"
  by simp

lemma bind_checker:
  assumes "good_checker n h ck" "sema_ok n s" "child_ok (se_types s) a" "child_height a \<le> h"
    and Q: "\<And>e e' t s'. a = Some e \<Longrightarrow> tree_ok (se_types s) e \<Longrightarrow> checked n s e (t, Some e') s' \<Longrightarrow> wp (f t (Some e') s') Q"
  shows "wp (Option.bind (ck a None s) (\<lambda>((t, a), s). f t a s)) Q"
proof -
  from child_okD [OF assms(3)] obtain e where e: "a = Some e" "tree_ok (se_types s) e" by blast
  with assms(1,2,4) have "wp (ck (Some e) None s) (checked n s e)" by (auto simp: good_checker_def)
  then have "wp (ck (Some e) None s) (\<lambda>(t, a) s'. checked n s e (t, a) s')" by (rule wp_mono) auto
  then show ?thesis
    unfolding e(1) by (rule wp_pair) (use Q [OF e] in \<open>auto simp: checked_def\<close>)
qed

lemma bind_coerce:
  assumes "sema_ok n s" "tree_ok (se_types s) e" "ex_sem e = Some from" "valid (se_types s) from" "valid (se_types s) tg"
    and Q: "\<And>t e' s'. coerced n s e tg (t, Some e') s' \<Longrightarrow> wp (f t (Some e') s') Q"
  shows "wp (Option.bind (coerce (Some e) tg s) (\<lambda>((t, a), s). f t a s)) Q"
proof -
  have "wp (coerce (Some e) tg s) (\<lambda>(t, a) s'. coerced n s e tg (t, a) s')"
    by (rule wp_mono [OF coerce_ok [OF assms(1-5)]]) auto
  then show ?thesis by (rule wp_pair) (use Q in \<open>auto simp: coerced_def\<close>)
qed

text \<open>The type a literal gets without a context.\<close>

lemma default_type_ok:
  assumes ok: "sema_ok n s" and e: "ex_sem e = Some t" "valid (se_types s) t"
  shows "wp (default_type e s) (\<lambda>d s'. sema_ok n s' \<and> kept s s' \<and> nerr s' = nerr s \<and> valid (se_types s') d
    \<and> typed_kind (kind s' d) \<and> (kind s t \<noteq> TY_POISON \<longrightarrow> kind s' d \<noteq> TY_POISON))"
proof -
  note T = sema_okD(1) [OF ok]
  note C = core_is [OF T]
  have vp: "proper (se_types s) (core s TY_VOID)" using C(2) [of TY_VOID] by (simp add: proper_def core_kind_def typed_kind_def kind_def)
  have p: "case make_ptr (core s TY_VOID) s of (p, s') \<Rightarrow> sema_ok n s' \<and> kept s s' \<and> nerr s' = nerr s \<and> valid (se_types s') p
    \<and> kind s' p = TY_PTR \<and> t_elem (ty_of s' p) = Some (core s TY_VOID)"
    by (rule make_ptr_ok [OF ok]) (use C(1) vp in \<open>simp_all add: core_kind_def\<close>)
  show ?thesis
    using p e ok C [of TY_U8] C [of TY_I32] C [of TY_F64] C [of TY_B8]
    by (auto simp: default_type_def core_kind_def typed_kind_def split: ty_kind.split expr_node.split)
qed

text \<open>A value: literals have got their type.\<close>

definition valued :: "nat \<Rightarrow> sema \<Rightarrow> expr \<Rightarrow> tyref \<times> expr option \<Rightarrow> sema \<Rightarrow> bool" where
  "valued n s e r s' \<longleftrightarrow> (case r of (t, slot) \<Rightarrow> \<exists>e'. slot = Some e' \<and> becomes n s e t e' s'
     \<and> (nerr s' = 0 \<longrightarrow> typed_kind (kind s' t)) \<and> (nerr s' = 0 \<and> bound s \<and> has_convs s e \<longrightarrow> has_type s' e' t))"

lemma check_value_by_ok:
  assumes ck: "good_checker n h ck" and s: "sema_ok n s" "child_ok (se_types s) a" "child_height a \<le> h"
    and Q: "\<And>e e' t s'. a = Some e \<Longrightarrow> tree_ok (se_types s) e \<Longrightarrow> valued n s e (t, Some e') s' \<Longrightarrow> Q (t, Some e') s'"
  shows "wp (check_value_by ck a s) Q"
  unfolding check_value_by_def
proof (rule bind_checker [OF ck s])
  fix e e' t s1 assume e: "a = Some e" "tree_ok (se_types s) e" and c: "checked n s e (t, Some e') s1"
  then have b: "becomes n s e t e' s1" by (simp add: checked_def)
  have u: "ex_sem e' = Some t" "valid (se_types s1) t" using c becomes_ok(4) [OF b] by (simp_all add: checked_def)
  show "wp (if ty_is_untyped (ty_of s1 t)
          then (case Some e' of None \<Rightarrow> None | Some e \<Rightarrow> do { (d, s) \<leftarrow> default_type e s1; coerce (Some e') d s })
          else Some ((t, Some e'), s1)) Q"
  proof (cases "ty_is_untyped (ty_of s1 t)")
    case False
    then have "typed_kind (kind s1 t)" by (simp add: ty_is_untyped_def typed_kind_def kind_def ty_of_def)
    with c have "valued n s e (t, Some e') s1" by (simp add: valued_def checked_def)
    with False Q [OF e] show ?thesis by simp
  next
    case True
    have "wp (do { (d, s) \<leftarrow> default_type e' s1; coerce (Some e') d s }) Q"
    proof (rule wp_step [OF default_type_ok [OF becomes_ok(1) [OF b] u]])
      fix d s2 assume d: "sema_ok n s2 \<and> kept s1 s2 \<and> nerr s2 = nerr s1 \<and> valid (se_types s2) d \<and> typed_kind (kind s2 d)
        \<and> (kind s1 t \<noteq> TY_POISON \<longrightarrow> kind s2 d \<noteq> TY_POISON)"
      then have d': "sema_ok n s2" "kept s1 s2" "valid (se_types s2) d" "typed_kind (kind s2 d)" "kind s2 d \<noteq> TY_POISON"
        using True by (auto simp: ty_is_untyped_def ty_of_def kind_def)
      show "wp (coerce (Some e') d s2) Q"
      proof (rule wp_mono [OF coerce_ok])
        show "sema_ok n s2" "tree_ok (se_types s2) e'" "ex_sem e' = Some t" "valid (se_types s2) t" "valid (se_types s2) d"
          using d' u kept_tree(1) [OF d'(2) becomes_ok(3) [OF b]] kept_valid [OF d'(2)] by simp_all
        fix r s3 assume r: "coerced n s2 e' d r s3"
        then obtain t' e'' where r': "r = (t', Some e'')" "becomes n s2 e' t' e'' s3" by (auto simp: coerced_def split: prod.splits)
        have k: "kept s2 s3" using r'(2) by (rule becomes_ok(2))
        have "becomes n s e t' e'' s3"
          by (rule becomes_trans [OF becomes_later [OF b d'(2,1) kept_valid [OF d'(2) u(2)]] r'(2)])
        moreover have "typed_kind (kind s3 t')" if z: "nerr s3 = 0"
          using r r'(1) z d' kept_kind [OF k d'(3)] by (auto simp: coerced_def)
        moreover have "has_type s3 e'' t'" if z: "nerr s3 = 0" "bound s" "has_convs s e"
        proof -
          have z2: "nerr s1 = 0" using nerr_zero [OF k z(1)] d by simp
          have "has_type s1 e' t" using c z z2 by (simp add: checked_def)
          then have "has_type s2 e' t" by (rule has_type_kept [OF d'(2) becomes_ok(1) [OF b] d'(1)])
          then show ?thesis using r r'(1) z(1) d'(5) by (auto simp: coerced_def)
        qed
        ultimately show "Q r s3" unfolding r'(1) by (intro Q [OF e]) (simp add: valued_def)
      qed
    qed
    with True show ?thesis by simp
  qed
qed

lemma bind_value:
  assumes "good_checker n h ck" "sema_ok n s" "child_ok (se_types s) a" "child_height a \<le> h"
    and Q: "\<And>e e' t s'. a = Some e \<Longrightarrow> tree_ok (se_types s) e \<Longrightarrow> valued n s e (t, Some e') s' \<Longrightarrow> wp (f t (Some e') s') Q"
  shows "wp (Option.bind (check_value_by ck a s) (\<lambda>((t, a), s). f t a s)) Q"
proof (rule wp_pair)
  show "wp (check_value_by ck a s) (\<lambda>(t, x) s'. \<exists>e e'. a = Some e \<and> tree_ok (se_types s) e \<and> x = Some e' \<and> valued n s e (t, Some e') s')"
    by (rule check_value_by_ok [OF assms(1-4)]) simp
qed (use Q in blast)

section \<open>Nodes\<close>

text \<open>A node that has become another of type \<open>t\<close>.\<close>

definition noded :: "nat \<Rightarrow> sema \<Rightarrow> expr_node \<Rightarrow> tyref \<Rightarrow> expr_node \<Rightarrow> sema \<Rightarrow> bool" where
  "noded n s u t u' s' \<longleftrightarrow> sema_ok n s' \<and> kept s s' \<and> valid (se_types s') t \<and> node_ok (se_types s') u' \<and> node_height u' \<le> node_height u
     \<and> strip_node u' = strip_node u
     \<and> (nerr s' = 0 \<and> bound s \<and> convs_node (se_types s) (type_names s) (names s) u \<longrightarrow> kind s' t \<noteq> TY_POISON \<and> has_node s' u' t)"

lemma bad_at_ok:
  assumes "sema_ok n s" "list_all (piece_ok s) ps" "\<And>s'. after_error n s s' \<Longrightarrow> Q (poison s', x) s'"
  shows "wp (bad_at pos ps x s) Q"
  unfolding bad_at_def by (rule wp_serror [OF assms(1,2)]) (simp add: assms(3))

lemma noded_unary:
  assumes b: "becomes n s e t0 e' s1" and s2: "sema_ok n s2" "kept s1 s2" "valid (se_types s2) t" and op: "op \<in> unary_ops"
    and "nerr s2 = 0 \<Longrightarrow> bound s \<Longrightarrow> has_convs s e \<Longrightarrow> kind s2 t \<noteq> TY_POISON \<and> has_node s2 (EXPR_UNARY op (Some e')) t"
  shows "noded n s (EXPR_UNARY op (Some e)) t (EXPR_UNARY op (Some e')) s2"
  using assms kept_trans [OF becomes_ok(2) [OF b] s2(2)] kept_tree(1) [OF s2(2)] by (auto simp: noded_def becomes_def has_convs_def)

lemma noded_unary_error:
  assumes b: "becomes n s e t0 e' s1" and op: "op \<in> unary_ops" and "after_error n s1 s2"
  shows "noded n s (EXPR_UNARY op (Some e)) (poison s2) (EXPR_UNARY op (Some e')) s2"
  using after_errorD [OF assms(3)] by (intro noded_unary [OF b _ _ _ op]) simp_all

lemma has_type_kind: "has_type s e t \<Longrightarrow> t_kind (ty_at (se_types s) t) \<noteq> TY_POISON"
  using has_typeD(3) [of s e t] by (simp add: kind_def)

lemma check_unary_ok:
  assumes ck: "good_checker n h ck" and s: "sema_ok n s" "child_ok (se_types s) a" "child_height a \<le> h" and op: "op \<in> unary_ops"
  shows "wp (check_unary ck pos op a s) (\<lambda>(t, a') s'. noded n s (EXPR_UNARY op a) t (EXPR_UNARY op a') s')"
proof -
  let ?Q = "\<lambda>(t, a') s'. noded n s (EXPR_UNARY op a) t (EXPR_UNARY op a') s'"
  have bad: "wp (bad_at pos ps (Some e') s1) ?Q" if "a = Some e" "becomes n s e t e' s1" "list_all (piece_ok s1) ps" for e t e' s1 ps
    using noded_unary_error [OF that(2) op] that(1) by (intro bad_at_ok [OF becomes_ok(1) [OF that(2)] that(3)]) simp
  have keep: "noded n s (EXPR_UNARY op a) t (EXPR_UNARY op (Some e')) s1" if "a = Some e" "becomes n s e t0 e' s1" "valid (se_types s1) t"
      "nerr s1 = 0 \<Longrightarrow> bound s \<Longrightarrow> has_convs s e \<Longrightarrow> kind s1 t \<noteq> TY_POISON \<and> has_node s1 (EXPR_UNARY op (Some e')) t"
      for e t0 e' s1 t
    unfolding that(1) by (rule noded_unary [OF that(2) becomes_ok(1) [OF that(2)] kept_refl that(3) op that(4)])
  have C: "valid (se_types x) (core x TY_UNTYPED_BOOL)" "kind x (core x TY_UNTYPED_BOOL) = TY_UNTYPED_BOOL" if "sema_ok n x" for x
    using core_is [OF sema_okD(1) [OF that], of TY_UNTYPED_BOOL] by (simp_all add: core_kind_def)
  note N = has_node_def node_simps has_type_def ty_of_def kind_def
  from op consider "op = Punct TOK_MINUS" | "op = Punct TOK_TILDE" | "op = Punct TOK_BANG" | "op = Punct TOK_STAR" | "op = Punct TOK_AMP"
    by (auto simp: unary_ops_def)
  then show ?thesis
  proof cases
    case 1
    show ?thesis
      unfolding check_unary_def 1 token_kind.case punct.case
    proof (rule bind_checker [OF ck s], goal_cases)
      case (1 e e' t s1)
      then have b: "becomes n s e t e' s1" by (simp add: checked_def)
      show ?case
        using 1(3) bad [OF 1(1) b] keep [OF 1(1) b becomes_ok(4) [OF b]] becomes_ok(4) [OF b] has_type_kind \<open>op = _\<close>
        by (auto simp: checked_def N)
    qed
  next
    case 2
    show ?thesis
      unfolding check_unary_def 2 token_kind.case punct.case
    proof (rule bind_checker [OF ck s], goal_cases)
      case (1 e e' t s1)
      then have b: "becomes n s e t e' s1" by (simp add: checked_def)
      show ?case
        using 1(3) bad [OF 1(1) b] keep [OF 1(1) b becomes_ok(4) [OF b]] becomes_ok(4) [OF b] has_type_kind \<open>op = _\<close>
        by (auto simp: checked_def N integral_def)
    qed
  next
    case 3
    show ?thesis
      unfolding check_unary_def 3 token_kind.case punct.case
    proof (rule bind_checker [OF ck s], goal_cases)
      case (1 e e' t s1)
      then have b: "becomes n s e t e' s1" by (simp add: checked_def)
      show ?case
        using 1(3) bad [OF 1(1) b] keep [OF 1(1) b becomes_ok(4) [OF b]] keep [OF 1(1) b C(1) [OF becomes_ok(1) [OF b]]]
          becomes_ok(4) [OF b] has_type_kind C(2) [OF becomes_ok(1) [OF b]] \<open>op = _\<close>
        by (auto simp: checked_def N is_boolish_def)
    qed
  next
    case 4
    show ?thesis
      unfolding check_unary_def 4 token_kind.case punct.case
    proof (rule bind_value [OF ck s], goal_cases)
      case (1 e e' t s1)
      then have b: "becomes n s e t e' s1" by (simp add: valued_def)
      note ok = becomes_ok(1) [OF b] and v = becomes_ok(4) [OF b]
      have pe: "\<exists>x. t_elem (ty_of s1 t) = Some x \<and> valid (se_types s1) x \<and> (nerr s1 = 0 \<longrightarrow> proper (se_types s1) x)" if "kind s1 t = TY_PTR"
        using elem_valid [OF sema_okD(1) [OF ok] v] sema_okD(11) [OF ok] v that
        by (auto simp: clean_types_def has_elem_def kind_def ty_of_def)
      have "noded n s (EXPR_UNARY op a) x (EXPR_UNARY op (Some e')) s1"
        if x: "kind s1 t = TY_PTR" "t_elem (ty_of s1 t) = Some x" "kind s1 x \<noteq> TY_VOID" for x
      proof (rule keep [OF 1(1) b])
        show "valid (se_types s1) x" using pe x by auto
        assume "nerr s1 = 0" "bound s" "has_convs s e"
        then have "has_type s1 e' t" "proper (se_types s1) x" using 1(3) pe x by (auto simp: valued_def)
        then show "kind s1 x \<noteq> TY_POISON \<and> has_node s1 (EXPR_UNARY op (Some e')) x"
          using x by (auto simp: N proper_def \<open>op = _\<close>)
      qed
      then show ?case
        using 1(3) bad [OF 1(1) b] keep [OF 1(1) b v] v has_type_kind pe \<open>op = _\<close>
        by (auto simp: valued_def kind_def)
    qed
  next
    case 5
    show ?thesis
      unfolding check_unary_def 5 token_kind.case punct.case
    proof (rule bind_value [OF ck s], goal_cases)
      case (1 e e' t s1)
      then have b: "becomes n s e t e' s1" by (simp add: valued_def)
      note ok = becomes_ok(1) [OF b] and v = becomes_ok(4) [OF b]
      obtain p s2 where p: "make_ptr t s1 = (p, s2)" by force
      have "wp (Some ((p, Some e'), s2)) ?Q" if "kind s1 t \<noteq> TY_POISON" "is_lvalue (Some e')"
      proof -
        have "nerr s1 = 0 \<Longrightarrow> proper (se_types s1) t" using 1(3) that by (simp add: valued_def proper_def kind_def)
        from make_ptr_ok [OF ok v this] p have m: "sema_ok n s2" "kept s1 s2" "nerr s2 = nerr s1" "valid (se_types s2) p"
          "kind s2 p = TY_PTR" "t_elem (ty_of s2 p) = Some t" by simp_all
        have "noded n s (EXPR_UNARY op (Some e)) p (EXPR_UNARY op (Some e')) s2"
        proof (rule noded_unary [OF b m(1,2,4) op])
          assume z: "nerr s2 = 0" "bound s" "has_convs s e"
          then have "has_type s1 e' t" using 1(3) m(3) by (simp add: valued_def)
          then have "has_type s2 e' t" by (rule has_type_kept [OF m(2) ok m(1)])
          then show "kind s2 p \<noteq> TY_POISON \<and> has_node s2 (EXPR_UNARY op (Some e')) p"
            using m(5,6) that(2) by (auto simp: N 5)
        qed
        then show ?thesis by (simp add: 1(1))
      qed
      moreover have "noded n s (EXPR_UNARY op a) t (EXPR_UNARY op (Some e')) s1" if "kind s1 t = TY_POISON"
        using 1(3) that has_typeD(3) by (intro keep [OF 1(1) b v]) (auto simp: valued_def)
      ultimately show ?case
        using bad [OF 1(1) b] v \<open>op = _\<close> by (simp add: p)
    qed
  qed
qed

section \<open>Binary operators\<close>

text \<open>Two checked operands that have become \<open>l'\<close> and \<open>r'\<close> under an operator of type \<open>t\<close>.\<close>

definition operand :: "sema \<Rightarrow> expr \<Rightarrow> tyref \<Rightarrow> bool" where
  "operand s e t \<longleftrightarrow> tree_ok (se_types s) e \<and> ex_sem e = Some t \<and> valid (se_types s) t"

definition bin :: "nat \<Rightarrow> sema \<Rightarrow> token_kind \<Rightarrow> expr \<Rightarrow> expr \<Rightarrow> tyref \<times> expr option \<times> expr option \<Rightarrow> sema \<Rightarrow> bool" where
  "bin n s op l r res s' \<longleftrightarrow> (case res of (t, a, b) \<Rightarrow> \<exists>l' r'. a = Some l' \<and> b = Some r' \<and> becomes n s l t l' s' \<and> becomes n s r t r' s'
     \<and> (\<forall>lt rt. nerr s' = 0 \<and> has_type s l lt \<and> has_type s r rt \<longrightarrow>
          kind s' t \<noteq> TY_POISON \<and> has_node s' (EXPR_BINARY op (Some l') (Some r')) t))"

lemma becomes_self: "sema_ok n s \<Longrightarrow> operand s e u \<Longrightarrow> valid (se_types s) t \<Longrightarrow> becomes n s e t e s"
  by (simp add: becomes_def operand_def)

lemma becomes_later_self:
  "sema_ok n s' \<Longrightarrow> kept s s' \<Longrightarrow> operand s e u \<Longrightarrow> valid (se_types s') t \<Longrightarrow> becomes n s e t e s'"
  using kept_valid [of s s' u] kept_tree(1) by (simp add: becomes_def operand_def)

lemma bin_bad:
  assumes "sema_ok n s" "operand s l lt" "operand s r rt" "list_all (piece_ok s) ps"
  shows "wp (bad_op pos ps l r s) (bin n s op l r)"
  unfolding bad_op_def
proof (rule wp_serror [OF assms(1,4)])
  fix s' assume "after_error n s s'"
  note E = after_errorD [OF this]
  show "wp (Some ((poison s', Some l, Some r), s')) (bin n s op l r)"
    using becomes_later_self [OF E(1,2) assms(2) E(4)] becomes_later_self [OF E(1,2) assms(3) E(4)] E(3) by (simp add: bin_def)
qed

lemma bin_keep:
  assumes "sema_ok n s" "operand s l lt" "operand s r rt" "valid (se_types s) t"
    and "nerr s = 0 \<Longrightarrow> has_type s l lt \<Longrightarrow> has_type s r rt \<Longrightarrow> kind s t \<noteq> TY_POISON \<and> has_node s (EXPR_BINARY op (Some l) (Some r)) t"
  shows "bin n s op l r (t, Some l, Some r) s"
  using becomes_self [OF assms(1,2,4)] becomes_self [OF assms(1,3,4)] assms(2,3,5) has_typeD(1)
  by (auto simp: bin_def operand_def)

text \<open>One operand takes a type that is not poison.\<close>

lemma bin_right:
  assumes ok: "sema_ok n s" and l: "operand s l lt" and r: "operand s r rt" and tg: "valid (se_types s) tg" "kind s tg \<noteq> TY_POISON"
    and t: "\<And>s'. sema_ok n s' \<Longrightarrow> kept s s' \<Longrightarrow> valid (se_types s') (t s')"
    and ty: "\<And>s' r'. sema_ok n s' \<Longrightarrow> kept s s' \<Longrightarrow> has_type s' l lt \<Longrightarrow> has_type s r rt \<Longrightarrow> has_type s' r' tg \<Longrightarrow>
      kind s' (t s') \<noteq> TY_POISON \<and> has_node s' (EXPR_BINARY op (Some l) (Some r')) (t s')"
  shows "wp (do { ((_, r), s) \<leftarrow> coerce (Some r) tg s; Some ((t s, Some l, r), s) }) (bin n s op l r)"
proof (rule bind_coerce [OF ok _ _ _ tg(1)])
  fix u r' s' assume c: "coerced n s r tg (u, Some r') s'"
  then have b: "becomes n s r u r' s'" by (simp add: coerced_def)
  note k = becomes_ok(1,2) [OF b]
  have vt: "valid (se_types s') (t s')" by (rule t [OF k])
  have "has_type s' r' tg" if "nerr s' = 0" "has_type s r x" for x using c that tg(2) by (auto simp: coerced_def)
  moreover have "has_type s' l x" if "has_type s l x" for x by (rule has_type_kept [OF k(2) ok k(1) that])
  moreover have "becomes n s r (t s') r' s'" by (rule becomes_later [OF b kept_refl k(1) vt])
  moreover have "x = lt" if "has_type s l x" for x using has_typeD(1) [OF that] l by (simp add: operand_def)
  moreover have "x = rt" if "has_type s r x" for x using has_typeD(1) [OF that] r by (simp add: operand_def)
  ultimately show "wp (Some ((t s', Some l, Some r'), s')) (bin n s op l r)"
    using becomes_later_self [OF k l vt] ty [OF k] by (simp add: bin_def) blast
qed (use r in \<open>auto simp: operand_def\<close>)

lemma bin_left:
  assumes ok: "sema_ok n s" and l: "operand s l lt" and r: "operand s r rt" and tg: "valid (se_types s) tg" "kind s tg \<noteq> TY_POISON"
    and t: "\<And>s'. sema_ok n s' \<Longrightarrow> kept s s' \<Longrightarrow> valid (se_types s') (t s')"
    and ty: "\<And>s' l'. sema_ok n s' \<Longrightarrow> kept s s' \<Longrightarrow> has_type s' r rt \<Longrightarrow> has_type s l lt \<Longrightarrow> has_type s' l' tg \<Longrightarrow>
      kind s' (t s') \<noteq> TY_POISON \<and> has_node s' (EXPR_BINARY op (Some l') (Some r)) (t s')"
  shows "wp (do { ((_, l), s) \<leftarrow> coerce (Some l) tg s; Some ((t s, l, Some r), s) }) (bin n s op l r)"
proof (rule bind_coerce [OF ok _ _ _ tg(1)])
  fix u l' s' assume c: "coerced n s l tg (u, Some l') s'"
  then have b: "becomes n s l u l' s'" by (simp add: coerced_def)
  note k = becomes_ok(1,2) [OF b]
  have vt: "valid (se_types s') (t s')" by (rule t [OF k])
  have "has_type s' l' tg" if "nerr s' = 0" "has_type s l x" for x using c that tg(2) by (auto simp: coerced_def)
  moreover have "has_type s' r x" if "has_type s r x" for x by (rule has_type_kept [OF k(2) ok k(1) that])
  moreover have "becomes n s l (t s') l' s'" by (rule becomes_later [OF b kept_refl k(1) vt])
  moreover have "x = lt" if "has_type s l x" for x using has_typeD(1) [OF that] l by (simp add: operand_def)
  moreover have "x = rt" if "has_type s r x" for x using has_typeD(1) [OF that] r by (simp add: operand_def)
  ultimately show "wp (Some ((t s', Some l', Some r), s')) (bin n s op l r)"
    using becomes_later_self [OF k r vt] ty [OF k] by (simp add: bin_def) blast
qed (use l in \<open>auto simp: operand_def\<close>)

lemma bin_both:
  assumes ok: "sema_ok n s" and l: "operand s l lt" and r: "operand s r rt" and c: "valid (se_types s) c" "kind s c \<noteq> TY_POISON"
    and t: "\<And>s'. sema_ok n s' \<Longrightarrow> kept s s' \<Longrightarrow> valid (se_types s') (res s')"
    and ty: "\<And>s' l' r'. sema_ok n s' \<Longrightarrow> kept s s' \<Longrightarrow> has_type s l lt \<Longrightarrow> has_type s r rt \<Longrightarrow> has_type s' l' c \<Longrightarrow> has_type s' r' c \<Longrightarrow>
      kind s' (res s') \<noteq> TY_POISON \<and> has_node s' (EXPR_BINARY op (Some l') (Some r')) (res s')"
  shows "wp (coerce_both l r c res s) (bin n s op l r)"
  unfolding coerce_both_def
proof (rule bind_coerce [OF ok _ _ _ c(1)])
  fix u l' s1 assume cl: "coerced n s l c (u, Some l') s1"
  then have bl: "becomes n s l u l' s1" by (simp add: coerced_def)
  note k1 = becomes_ok(1,2) [OF bl]
  have vr: "tree_ok (se_types s1) r" "ex_sem r = Some rt" "valid (se_types s1) rt" using r kept_valid [OF k1(2)] kept_tree(1) [OF k1(2)] by (auto simp: operand_def)
  show "wp (do { ((_, r), s) \<leftarrow> coerce (Some r) c s1; Some ((res s, Some l', r), s) }) (bin n s op l r)"
  proof (rule bind_coerce [OF k1(1) vr kept_valid [OF k1(2) c(1)]])
    fix v r' s2 assume cr: "coerced n s1 r c (v, Some r') s2"
    then have br: "becomes n s1 r v r' s2" by (simp add: coerced_def)
    note k2 = becomes_ok(1,2) [OF br]
    have k: "kept s s2" using k1(2) k2(2) by (rule kept_trans)
    have vt: "valid (se_types s2) (res s2)" by (rule t [OF k2(1) k])
    have b1: "becomes n s l (res s2) l' s2" by (rule becomes_later [OF bl k2(2,1) vt])
    have b2: "becomes n s r (res s2) r' s2"
      using br kept_trans [OF k1(2) k2(2)] vt by (auto simp: becomes_def)
    have "kind s2 (res s2) \<noteq> TY_POISON \<and> has_node s2 (EXPR_BINARY op (Some l') (Some r')) (res s2)"
      if z: "nerr s2 = 0" "has_type s l x" "has_type s r y" for x y
    proof -
      have xy: "x = lt" "y = rt" using has_typeD(1) [OF z(2)] has_typeD(1) [OF z(3)] l r by (simp_all add: operand_def)
      have "has_type s1 l' c" using cl z nerr_zero [OF k2(2)] c(2) by (auto simp: coerced_def)
      then have 1: "has_type s2 l' c" by (rule has_type_kept [OF k2(2) k1(1) k2(1)])
      have "has_type s1 r y" by (rule has_type_kept [OF k1(2) ok k1(1) z(3)])
      then have "has_type s2 r' c" using cr z(1) c(2) kept_kind [OF k1(2) c(1)] by (auto simp: coerced_def)
      with 1 z xy show ?thesis by (intro ty [OF k2(1) k]) auto
    qed
    then show "wp (Some ((res s2, Some l', Some r'), s2)) (bin n s op l r)"
      using b1 b2 by (simp add: bin_def) blast
  qed
qed (use l in \<open>auto simp: operand_def\<close>)

lemma common_type_ok:
  assumes "types_ok tt" "valid tt a" "valid tt b"
  shows "ends (common_type tt a b) (\<lambda>c. \<forall>x. c = Some x \<longrightarrow> x = a \<or> x = b)"
  using assms by (simp add: common_type_def assignable_eq)

lemma bool_ref:
  assumes "sema_ok n s"
  shows "valid (se_types s) (core s TY_UNTYPED_BOOL)" "kind s (core s TY_UNTYPED_BOOL) = TY_UNTYPED_BOOL"
  using core_is [OF sema_okD(1) [OF assms], of TY_UNTYPED_BOOL] by (simp_all add: core_kind_def)

lemma check_comparison_ok:
  assumes ok: "sema_ok n s" and l: "operand s l lt" and r: "operand s r rt" and np: "kind s lt \<noteq> TY_POISON" "kind s rt \<noteq> TY_POISON"
    and op: "op \<in> compare_ops"
  shows "wp (check_comparison pos l r lt rt s) (bin n s op l r)"
  unfolding check_comparison_def
proof (rule wp_ends [OF common_type_ok [OF sema_okD(1) [OF ok]]])
  show v: "valid (se_types s) lt" "valid (se_types s) rt" using l r by (simp_all add: operand_def)
  fix co assume c: "\<forall>x. co = Some x \<longrightarrow> x = lt \<or> x = rt"
  have bad: "wp (bad_op pos [Txt ''cannot compare '', TyName128 lt, Txt '' with '', TyName128 rt] l r s) (bin n s op l r)"
    using v by (intro bin_bad [OF ok l r]) simp
  have "wp (coerce_both l r c (\<lambda>s. core s TY_UNTYPED_BOOL) s) (bin n s op l r)"
    if c': "co = Some c" "ty_is_numeric (ty_of s c) \<or> kind s c = TY_PTR \<or> kind s c = TY_ENUM" for c
  proof (rule bin_both [OF ok l r])
    show vc: "valid (se_types s) c" "kind s c \<noteq> TY_POISON" using c c'(1) v np by auto
    fix s' l' r' assume s': "sema_ok n s'" "kept s s'" and t: "has_type s' l' c" "has_type s' r' c"
    have "kind s' c = kind s c" by (rule kept_kind [OF s'(2) vc(1)])
    then have "ty_is_numeric (ty_of s' c) \<or> kind s' c \<in> {TY_PTR, TY_ENUM}"
      using c'(2) kind_preds(5) [of "ty_of s' c" "ty_of s c"] by (auto simp: kind_def ty_of_def)
    then show "kind s' (core s' TY_UNTYPED_BOOL) \<noteq> TY_POISON \<and> has_node s' (EXPR_BINARY op (Some l') (Some r')) (core s' TY_UNTYPED_BOOL)"
      using bool_ref [OF s'(1)] op t by (auto simp: has_node_def has_type_def kind_def ty_of_def is_boolish_def intro!: n_compare [of op _ _ _ l' c r'])
  qed (use bool_ref in auto)
  with bad show "wp (case co of None \<Rightarrow> bad_op pos [Txt ''cannot compare '', TyName128 lt, Txt '' with '', TyName128 rt] l r s
      | Some c \<Rightarrow> if \<not> ty_is_numeric (ty_of s c) \<and> kind s c \<noteq> TY_PTR \<and> kind s c \<noteq> TY_ENUM
              then bad_op pos [Txt ''cannot compare '', TyName128 lt, Txt '' with '', TyName128 rt] l r s
              else coerce_both l r c (\<lambda>s. core s TY_UNTYPED_BOOL) s) (bin n s op l r)"
    by (auto split: option.split)
qed

lemma check_arithmetic_ok:
  assumes ok: "sema_ok n s" and l: "operand s l lt" and r: "operand s r rt" and np: "kind s lt \<noteq> TY_POISON" "kind s rt \<noteq> TY_POISON"
    and op: "op \<in> arith_ops \<union> bit_ops"
  shows "wp (check_arithmetic op pos l r lt rt s) (bin n s op l r)"
proof -
  have v: "valid (se_types s) lt" "valid (se_types s) rt" using l r by (simp_all add: operand_def)
  have bad: "wp (bad_op pos [Txt x, TyName128 lt, Txt y, TyName128 rt] l r s) (bin n s op l r)" for x y
    using v by (intro bin_bad [OF ok l r]) simp
  have node: "wp (coerce_both l r c (\<lambda>s. c) s) (bin n s op l r)"
    if c: "c = lt \<or> c = rt" and num: "op \<in> bit_ops \<longrightarrow> is_integerish (ty_of s c)" "op \<notin> bit_ops \<longrightarrow> ty_is_numeric (ty_of s c)" for c
  proof (rule bin_both [OF ok l r])
    show vc: "valid (se_types s) c" "kind s c \<noteq> TY_POISON" using c v np by auto
    fix s' l' r' assume s': "sema_ok n s'" "kept s s'" and t: "has_type s' l' c" "has_type s' r' c"
    have k: "t_kind (ty_of s' c) = t_kind (ty_of s c)" using kept_kind [OF s'(2) vc(1)] by (simp add: kind_def ty_of_def)
    show "kind s' c \<noteq> TY_POISON \<and> has_node s' (EXPR_BINARY op (Some l') (Some r')) c"
    proof (cases "op \<in> bit_ops")
      case True
      then have "integral (se_types s') c (born l' \<and> born r')" using num(1) kind_preds(7) [OF k] by (simp add: integral_def ty_of_def)
      with True t has_typeD(3) show ?thesis by (auto simp: has_node_def has_type_def intro: n_bits)
    next
      case False
      then have "ty_is_numeric (ty_at (se_types s') c)" using num(2) kind_preds(5) [OF k] by (simp add: ty_of_def)
      with False op t has_typeD(3) show ?thesis by (auto simp: has_node_def has_type_def intro: n_arith)
    qed
  qed (use kept_valid c v in auto)
  have "wp (do { c \<leftarrow> common_type (se_types s) lt rt;
        case c of None \<Rightarrow> bad_op pos [Txt (quote (token_kind_name op) @ '' has mismatched operands: ''), TyName128 lt, Txt '' and '',
                      TyName128 rt] l r s
        | Some c \<Rightarrow> coerce_both l r c (\<lambda>s. c) s }) (bin n s op l r)"
    if "op \<in> bit_ops \<longrightarrow> is_integerish (ty_of s lt) \<and> is_integerish (ty_of s rt)"
      "op \<notin> bit_ops \<longrightarrow> ty_is_numeric (ty_of s lt) \<and> ty_is_numeric (ty_of s rt)"
    by (rule wp_ends [OF common_type_ok [OF sema_okD(1) [OF ok] v]]) (use bad node that in \<open>auto split: option.split\<close>)
  then show ?thesis using bad by (simp add: check_arithmetic_def Let_def bit_ops_def)
qed

lemma check_operands_ok:
  assumes ok: "sema_ok n s" and l: "operand s l lt" and r: "operand s r rt" and np: "kind s lt \<noteq> TY_POISON" "kind s rt \<noteq> TY_POISON"
    and op: "op \<in> binary_ops"
  shows "wp (check_operands op pos l r lt rt s) (bin n s op l r)"
proof -
  have v: "valid (se_types s) lt" "valid (se_types s) rt" using l r by (simp_all add: operand_def)
  have bad: "list_all (piece_ok s) ps \<Longrightarrow> wp (bad_op pos ps l r s) (bin n s op l r)" for ps by (rule bin_bad [OF ok l r])
  note B = bool_ref [OF ok]
  have boolish: "is_boolish (ty_of x (core x TY_UNTYPED_BOOL))" if "sema_ok n x" for x
    using bool_ref(2) [OF that] by (simp add: is_boolish_def kind_def ty_of_def)
  consider (logic) "op \<in> logic_ops" | (shift) "op \<in> shift_ops" | (compare) "op \<in> compare_ops" | (arith) "op \<in> arith_ops \<union> bit_ops"
    using op by (auto simp: binary_ops_def)
  then show ?thesis
  proof cases
    case logic
    have "bin n s op l r (core s TY_UNTYPED_BOOL, Some l, Some r) s" if "is_boolish (ty_of s lt)" "is_boolish (ty_of s rt)"
      by (rule bin_keep [OF ok l r B(1)])
        (use logic that B(2) boolish [OF ok] in \<open>auto simp: has_node_def has_type_def ty_of_def intro: n_logic\<close>)
    with bad v logic show ?thesis by (auto simp: check_operands_def logic_ops_def)
  next
    case shift
    then have nl: "op \<notin> {Punct TOK_AMP_AMP, Punct TOK_PIPE_PIPE}" by (auto simp: shift_ops_def)
    have I32: "valid (se_types s) (core s TY_I32)" "kind s (core s TY_I32) = TY_I32"
      using core_is [OF sema_okD(1) [OF ok], of TY_I32] by (simp_all add: core_kind_def)
    have ilt: "is_integerish (ty_of s lt) \<Longrightarrow> integral (se_types x) lt b" if "kept s x" for x b
      using kind_preds(7) [OF types_grow_keeps(1) [OF keptD(1) [OF that] v(1)]] by (simp add: integral_def ty_of_def)
    have "wp (do { ((_, r), s) \<leftarrow> coerce (Some r) (core s TY_I32) s; Some ((lt, Some l, r), s) }) (bin n s op l r)"
      if i: "is_integerish (ty_of s lt)"
    proof (rule bin_right [OF ok l r I32(1)])
      fix s' r' assume s': "sema_ok n s'" "kept s s'" "has_type s' l lt" "has_type s' r' (core s TY_I32)"
      have "is_integerish (ty_at (se_types s') (core s TY_I32))"
        using kept_kind [OF s'(2) I32(1)] I32(2) by (simp add: is_integerish_def ty_is_integer_def kind_def)
      with s' i shift show "kind s' lt \<noteq> TY_POISON \<and> has_node s' (EXPR_BINARY op (Some l) (Some r')) lt"
        using has_typeD(3) [OF s'(3)] by (auto simp: has_node_def has_type_def intro: n_shift ilt)
    qed (use I32 v kept_valid in auto)
    moreover have "bin n s op l r (lt, Some l, Some r) s" if "is_integerish (ty_of s lt)" "is_integerish (ty_of s rt)"
      by (rule bin_keep [OF ok l r v(1)])
        (use shift that np ilt [OF kept_refl] in \<open>auto simp: has_node_def has_type_def ty_of_def intro: n_shift\<close>)
    ultimately show ?thesis using bad v shift nl by (auto simp: check_operands_def shift_ops_def)
  next
    case compare
    then have nl: "op \<notin> {Punct TOK_AMP_AMP, Punct TOK_PIPE_PIPE}" "op \<notin> {Punct TOK_SHL, Punct TOK_SHR}" by (auto simp: compare_ops_def)
    have ptr: "kind x (core x TY_UNTYPED_BOOL) \<noteq> TY_POISON \<and> has_node x (EXPR_BINARY op (Some a) (Some b)) (core x TY_UNTYPED_BOOL)"
      if "sema_ok n x" "has_type x a p" "has_type x b p" "kind x p = TY_PTR" for x a b p
      using that compare bool_ref(2) [OF that(1)]
      by (auto simp: has_node_def has_type_def kind_def is_boolish_def intro!: n_compare [of op _ _ _ a p b])
    have "wp (do { ((_, r), s) \<leftarrow> coerce (Some r) lt s; Some ((core s TY_UNTYPED_BOOL, Some l, r), s) }) (bin n s op l r)"
      if "kind s lt = TY_PTR"
      by (rule bin_right [OF ok l r v(1) np(1) bool_ref(1)]) (use ptr kept_kind [OF _ v(1)] that in auto)
    moreover have "wp (do { ((_, l), s) \<leftarrow> coerce (Some l) rt s; Some ((core s TY_UNTYPED_BOOL, l, Some r), s) }) (bin n s op l r)"
      if "kind s rt = TY_PTR"
      by (rule bin_left [OF ok l r v(2) np(2) bool_ref(1)]) (use ptr kept_kind [OF _ v(2)] that in auto)
    ultimately show ?thesis
      using check_comparison_ok [OF ok l r np compare] nl compare by (auto simp: check_operands_def compare_ops_def)
  next
    case arith
    then have "op \<notin> {Punct TOK_AMP_AMP, Punct TOK_PIPE_PIPE}" "op \<notin> {Punct TOK_SHL, Punct TOK_SHR}"
      "op \<notin> {Punct TOK_EQ_EQ, Punct TOK_BANG_EQ}"
      "op \<notin> {Punct TOK_EQ_EQ, Punct TOK_BANG_EQ, Punct TOK_LT, Punct TOK_LE, Punct TOK_GT, Punct TOK_GE}"
      by (auto simp: arith_ops_def bit_ops_def)
    with check_arithmetic_ok [OF ok l r np arith] show ?thesis by (simp add: check_operands_def)
  qed
qed

lemma check_binary_op_ok:
  assumes ok: "sema_ok n s" and l: "operand s l lt" and r: "operand s r rt" and op: "op \<in> binary_ops"
  shows "wp (check_binary_op op pos (Some l) (Some r) s) (bin n s op l r)"
proof -
  have v: "valid (se_types s) lt" "valid (se_types s) rt" and sem: "ex_sem l = Some lt" "ex_sem r = Some rt"
    using l r by (simp_all add: operand_def)
  have I64: "valid (se_types s) (core s TY_I64)" "kind s (core s TY_I64) = TY_I64"
    using core_is [OF sema_okD(1) [OF ok], of TY_I64] by (simp_all add: core_kind_def)
  define index where "index t = (if ty_is_integer (ty_of s t) then t else core s TY_I64)" for t
  have ix: "valid (se_types s) (index t)" "kind s (index t) \<noteq> TY_POISON" "kept s x \<Longrightarrow> ty_is_integer (ty_at (se_types x) (index t))"
    if "valid (se_types s) t" for t x
  proof -
    have i: "ty_is_integer (ty_of s (index t))" using I64(2) by (simp add: index_def ty_is_integer_def kind_def ty_of_def)
    then show "valid (se_types s) (index t)" "kind s (index t) \<noteq> TY_POISON"
      using that I64(1) by (auto simp: index_def ty_is_integer_def kind_def ty_of_def)
    then show "ty_is_integer (ty_at (se_types x) (index t))" if "kept s x"
      using i kind_preds(1) [OF types_grow_keeps(1) [OF keptD(1) [OF that]]] by (simp add: ty_of_def)
  qed
  have "wp (do { ((_, r), s) \<leftarrow> coerce (Some r) (index rt) s; Some ((lt, Some l, r), s) }) (bin n s op l r)"
    if "op \<in> {Punct TOK_PLUS, Punct TOK_MINUS}" "kind s lt = TY_PTR"
  proof (rule bin_right [OF ok l r ix(1,2) [OF v(2)]])
    fix s' r' assume s': "sema_ok n s'" "kept s s'" "has_type s' l lt" "has_type s' r' (index rt)"
    then show "kind s' lt \<noteq> TY_POISON \<and> has_node s' (EXPR_BINARY op (Some l) (Some r')) lt"
      using that kept_kind [OF s'(2) v(1)] ix(3) [OF v(2) s'(2)]
      by (auto simp: has_node_def has_type_def kind_def intro: n_ptr_offset)
  qed (use kept_valid [OF _ v(1)] in auto)
  moreover have "wp (do { ((_, l), s) \<leftarrow> coerce (Some l) (index lt) s; Some ((rt, l, Some r), s) }) (bin n s op l r)"
    if "op = Punct TOK_PLUS" "kind s rt = TY_PTR"
  proof (rule bin_left [OF ok l r ix(1,2) [OF v(1)]])
    fix s' l' assume s': "sema_ok n s'" "kept s s'" "has_type s' r rt" "has_type s' l' (index lt)"
    then show "kind s' rt \<noteq> TY_POISON \<and> has_node s' (EXPR_BINARY op (Some l') (Some r)) rt"
      using that kept_kind [OF s'(2) v(2)] ix(3) [OF v(1) s'(2)]
      by (auto simp: has_node_def has_type_def kind_def intro: n_offset_ptr)
  qed (use kept_valid [OF _ v(2)] in auto)
  moreover have "bin n s op l r (core s TY_I64, Some l, Some r) s" if "op = Punct TOK_MINUS" "kind s lt = TY_PTR" "lt = rt"
    by (rule bin_keep [OF ok l r I64(1)])
      (use that I64(2) in \<open>auto simp: has_node_def has_type_def kind_def intro: n_ptr_diff\<close>)
  moreover have "bin n s op l r (poison s, Some l, Some r) s" if "kind s lt = TY_POISON \<or> kind s rt = TY_POISON"
    using that has_typeD(3) by (intro bin_keep [OF ok l r] poison_is(1) sema_okD(1) [OF ok]) auto
  moreover have "wp (bad_op pos [Txt ''cannot subtract '', TyName128 rt, Txt '' from '', TyName128 lt] l r s) (bin n s op l r)"
    using v by (intro bin_bad [OF ok l r]) simp
  ultimately show ?thesis
    using check_operands_ok [OF ok l r _ _ op]
    by (auto simp: check_binary_op_def sem index_def [symmetric])
qed

section \<open>Calls, casts and accesses\<close>

lemma promote_vararg_ok:
  assumes ck: "good_checker n h ck" and s: "sema_ok n s" "child_ok (se_types s) a" "child_height a \<le> h"
  shows "wp (promote_vararg ck a s) (\<lambda>a' s'. \<exists>e e' t. a = Some e \<and> a' = Some e' \<and> becomes n s e t e' s'
    \<and> (nerr s' = 0 \<and> bound s \<and> has_convs s e \<longrightarrow> has_type s' e' t \<and> vararg_ok (se_types s') t))"
    (is "wp _ ?Q")
  unfolding promote_vararg_def
proof (rule bind_value [OF ck s], goal_cases)
  case (1 e e' t s1)
  then have b: "becomes n s e t e' s1" by (simp add: valued_def)
  note ok = becomes_ok(1) [OF b] and v = becomes_ok(4) [OF b]
  obtain u where u: "ex_sem e' = Some u" "valid (se_types s1) u" using b by (auto simp: becomes_def)
  have co: "wp (do { ((_, slot), s) \<leftarrow> coerce (Some e') (core s1 k) s1; Some (slot, s) }) ?Q"
    if k: "core_kind k" "typed_kind k" "k \<notin> {TY_F32, TY_I8, TY_U8, TY_POISON}" for k
  proof (rule bind_coerce [OF ok becomes_ok(3) [OF b] u core_is(1) [OF sema_okD(1) [OF ok] k(1)]])
    fix w e'' s2 assume c: "coerced n s1 e' (core s1 k) (w, Some e'') s2"
    then have b2: "becomes n s1 e' w e'' s2" by (simp add: coerced_def)
    have kk: "kind s1 (core s1 k) = k" "kind s2 (core s1 k) = k"
      using core_is [OF sema_okD(1) [OF ok] k(1)] kept_kind [OF becomes_ok(2) [OF b2]] by simp_all
    have "has_type s2 e'' w \<and> vararg_ok (se_types s2) w" if z: "nerr s2 = 0" "bound s" "has_convs s e"
    proof -
      have "has_type s1 e' t" using 1(3) z nerr_zero [OF becomes_ok(2) [OF b2]] by (simp add: valued_def)
      then have "w = core s1 k" "has_type s2 e'' (core s1 k)" using c z(1) kk(1) k(3) by (auto simp: coerced_def)
      then show ?thesis using kk(2) k(2,3) by (simp add: vararg_ok_def kind_def)
    qed
    with becomes_trans [OF b b2] 1(1) show "wp (Some (Some e'', s2)) ?Q" by auto
  qed
  have "wp (Some (Some e', s1)) ?Q" if "kind s1 t \<notin> {TY_F32, TY_I8, TY_U8}"
    using 1(1,3) that b by (auto simp: valued_def vararg_ok_def kind_def)
  then show ?case using co [of TY_F64] co [of TY_I32] co [of TY_U32] by (simp add: core_kind_def typed_kind_def)
qed

text \<open>A slot whose tree has been checked.\<close>

definition slot_kept :: "type_table \<Rightarrow> expr option \<Rightarrow> expr option \<Rightarrow> bool" where
  "slot_kept tt a a' \<longleftrightarrow> (\<exists>e e'. a = Some e \<and> a' = Some e' \<and> tree_ok tt e' \<and> expr_height e' \<le> expr_height e \<and> strip e' = strip e)"

fun args_typed :: "sema \<Rightarrow> sym \<Rightarrow> nat \<Rightarrow> expr option list \<Rightarrow> bool" where
  "args_typed s y i [] = True"
| "args_typed s y i (a # as) \<longleftrightarrow>
     (\<exists>e t. a = Some e \<and> has_type s e t \<and> (if i < length (sy_params y) then t = sy_params y ! i else vararg_ok (se_types s) t))
     \<and> args_typed s y (Suc i) as"

lemma args_typed_nth:
  "args_typed s y i as \<Longrightarrow> \<exists>ts. length ts = length as \<and> (\<forall>j < length as. \<exists>e. as ! j = Some e \<and> has_type s e (ts ! j)
     \<and> (if i + j < length (sy_params y) then ts ! j = sy_params y ! (i + j) else vararg_ok (se_types s) (ts ! j)))"
proof (induction as arbitrary: i)
  case (Cons a as)
  from Cons.prems Cons.IH [of "Suc i"] obtain e t ts where
    e: "a = Some e" "has_type s e t" "if i < length (sy_params y) then t = sy_params y ! i else vararg_ok (se_types s) t"
    and ts: "length ts = length as" "\<forall>j < length as. \<exists>e. as ! j = Some e \<and> has_type s e (ts ! j)
     \<and> (if Suc i + j < length (sy_params y) then ts ! j = sy_params y ! (Suc i + j) else vararg_ok (se_types s) (ts ! j))"
    by auto
  have "\<exists>e. (a # as) ! j = Some e \<and> has_type s e ((t # ts) ! j)
      \<and> (if i + j < length (sy_params y) then (t # ts) ! j = sy_params y ! (i + j) else vararg_ok (se_types s) ((t # ts) ! j))"
    if "j < length (a # as)" for j
    using e ts(2) that by (cases j) auto
  with ts(1) show ?case by (intro exI [of _ "t # ts"]) simp
qed simp

lemma vararg_kept: "kept s s' \<Longrightarrow> valid (se_types s) t \<Longrightarrow> vararg_ok (se_types s') t = vararg_ok (se_types s) t"
  using kept_kind [of s s' t] by (simp add: vararg_ok_def kind_def)

lemma check_arg_ok:
  assumes ck: "good_checker n h ck" and s: "sema_ok n s" "child_ok (se_types s) a" "child_height a \<le> h"
    and p: "valid (se_types s) p" "nerr s = 0 \<longrightarrow> proper (se_types s) p" and ps: "\<And>at. list_all (\<lambda>x. x = TyName128 at \<or> x = TyName128 p \<or> (\<exists>t. x = Txt t) \<or> (\<exists>m. x = Num m)) (ps at)"
  shows "wp (do { ((at, arg), s) \<leftarrow> ck a None s;
                  ok \<leftarrow> (if kind s at \<noteq> TY_POISON then assignable (se_types s) at p else Some True);
                  if \<not> ok then
                    (case arg of
                       None \<Rightarrow> None
                     | Some e \<Rightarrow> do { s \<leftarrow> serror (ex_pos e) (ps at) s; Some (arg, s) })
                  else do { ((_, arg), s) \<leftarrow> coerce arg p s; Some (arg, s) } })
      (\<lambda>a' s'. \<exists>e e' t. a = Some e \<and> a' = Some e' \<and> becomes n s e t e' s'
        \<and> (nerr s' = 0 \<and> bound s \<and> has_convs s e \<longrightarrow> has_type s' e' p))" (is "wp _ ?Q")
proof (rule bind_checker [OF ck s], goal_cases)
  case (1 e e' t s1)
  then have b: "becomes n s e t e' s1" by (simp add: checked_def)
  note ok = becomes_ok(1) [OF b] and k = becomes_ok(2) [OF b] and v = becomes_ok(4) [OF b]
  have vp: "valid (se_types s1) p" by (rule kept_valid [OF k p(1)])
  have u: "ex_sem e' = Some t" using 1(3) by (simp add: checked_def)
  have bad: "wp (do { s \<leftarrow> serror (ex_pos e') (ps t) s1; Some (Some e', s) }) ?Q"
  proof (rule wp_serror [OF ok])
    show "list_all (piece_ok s1) (ps t)" using ps [of t] v vp by (auto simp: list_all_iff)
    fix s2 assume "after_error n s1 s2"
    note E = after_errorD [OF this]
    have "becomes n s e t e' s2" by (rule becomes_later [OF b E(2,1) kept_valid [OF E(2) v]])
    with 1(1) E(3) show "wp (Some (Some e', s2)) ?Q" by auto
  qed
  have good: "wp (do { ((_, arg), s) \<leftarrow> coerce (Some e') p s1; Some (arg, s) }) ?Q"
  proof (rule bind_coerce [OF ok becomes_ok(3) [OF b] u v vp])
    fix w e'' s2 assume c: "coerced n s1 e' p (w, Some e'') s2"
    then have b2: "becomes n s1 e' w e'' s2" by (simp add: coerced_def)
    have "has_type s2 e'' p" if z: "nerr s2 = 0" "bound s" "has_convs s e"
    proof -
      have z1: "nerr s1 = 0" "nerr s = 0" using nerr_zero [OF becomes_ok(2) [OF b2] z(1)] nerr_zero [OF k] by simp_all
      have "has_type s1 e' t" using 1(3) z z1 by (simp add: checked_def)
      moreover have "kind s1 p \<noteq> TY_POISON" using p z1 kept_kind [OF k p(1)] by (simp add: proper_def kind_def)
      ultimately show ?thesis using c z(1) by (auto simp: coerced_def)
    qed
    with becomes_trans [OF b b2] 1(1) show "wp (Some (Some e'', s2)) ?Q" by auto
  qed
  have "ends (if kind s1 t \<noteq> TY_POISON then assignable (se_types s1) t p else Some True) (\<lambda>_. True)"
    using assignable_eq [OF sema_okD(1) [OF ok] v] by simp
  then show ?case by (rule wp_ends) (use bad good in auto)
qed

lemma check_args_ok:
  assumes ck: "good_checker n h ck"
  shows "sema_ok n s \<Longrightarrow> list_all (child_ok (se_types s)) args \<Longrightarrow> list_all (\<lambda>a. child_height a \<le> h) args \<Longrightarrow> sym_ok (se_types s) y \<Longrightarrow>
    (nerr s = 0 \<longrightarrow> clean_sym (se_types s) y) \<Longrightarrow>
    wp (check_args ck y i args s) (\<lambda>args' s'. sema_ok n s' \<and> kept s s' \<and> list_all2 (slot_kept (se_types s')) args args'
      \<and> (nerr s' = 0 \<and> bound s \<and> list_all (convs_child (se_types s) (type_names s) (names s)) args \<longrightarrow> args_typed s' y i args'))"
proof (induction args arbitrary: i s)
  case Nil
  then show ?case by simp
next
  case (Cons a args)
  note ok = Cons.prems(1)
  have ca: "child_ok (se_types s) a" "child_height a \<le> h" using Cons.prems(2,3) by simp_all
  let ?P = "\<lambda>a' s'. \<exists>e e' t. a = Some e \<and> a' = Some e' \<and> becomes n s e t e' s' \<and> (nerr s' = 0 \<and> bound s \<and> has_convs s e \<longrightarrow>
    (\<exists>t. has_type s' e' t \<and> (if i < length (sy_params y) then t = sy_params y ! i else vararg_ok (se_types s') t)))"
  have step: "wp (if i < length (sy_params y) then
             do { ((at, arg), s) \<leftarrow> ck a None s;
                  let p = sy_params y ! i;
                  ok \<leftarrow> (if kind s at \<noteq> TY_POISON then assignable (se_types s) at p else Some True);
                  if \<not> ok then
                    (case arg of
                       None \<Rightarrow> None
                     | Some e \<Rightarrow>
                         do { s \<leftarrow> serror (ex_pos e) [Txt ''argument '', Num (i + 1), Txt ('' of '' @ quote (sy_name y)
                                  @ '': cannot convert ''), TyName128 at, Txt '' to '', TyName128 p] s;
                              Some (arg, s) })
                  else do { ((_, arg), s) \<leftarrow> coerce arg p s; Some (arg, s) } }
           else promote_vararg ck a s) ?P"
  proof (cases "i < length (sy_params y)")
    case True
    have p: "valid (se_types s) (sy_params y ! i)" "nerr s = 0 \<longrightarrow> proper (se_types s) (sy_params y ! i)"
      using Cons.prems(4,5) True by (auto simp: sym_ok_def clean_sym_def)
    show ?thesis
      unfolding if_P [OF True] Let_def
      by (rule wp_mono [OF check_arg_ok [OF ck ok ca p]]) (use True in auto)
  next
    case False
    show ?thesis
      unfolding if_not_P [OF False]
      by (rule wp_mono [OF promote_vararg_ok [OF ck ok ca]]) (use False in auto)
  qed
  show ?case
    unfolding check_args.simps
  proof (rule wp_step [OF step])
    fix a' s1 assume "?P a' s1"
    then obtain e e' t where e: "a = Some e" "a' = Some e'" "becomes n s e t e' s1"
      and ty: "nerr s1 = 0 \<and> bound s \<and> has_convs s e \<longrightarrow>
        (\<exists>t. has_type s1 e' t \<and> (if i < length (sy_params y) then t = sy_params y ! i else vararg_ok (se_types s1) t))" by blast
    note ok1 = becomes_ok(1) [OF e(3)] and k = becomes_ok(2) [OF e(3)]
    have y: "sym_ok (se_types s1) y" "nerr s1 = 0 \<longrightarrow> clean_sym (se_types s1) y"
      using Cons.prems(4,5) kept_valid [OF k] nerr_zero [OF k] proper_kept [OF k] by (auto simp: sym_ok_def clean_sym_def)
    have "wp (check_args ck y (i + 1) args s1) (\<lambda>args' s'. sema_ok n s' \<and> kept s1 s' \<and> list_all2 (slot_kept (se_types s')) args args'
      \<and> (nerr s' = 0 \<and> bound s1 \<and> list_all (convs_child (se_types s1) (type_names s1) (names s1)) args \<longrightarrow> args_typed s' y (i + 1) args'))"
      by (rule Cons.IH [OF ok1]) (use Cons.prems y kept_tree(3) [OF k] in auto)
    then show "wp (do { (args, s) \<leftarrow> check_args ck y (i + 1) args s1; Some (a' # args, s) })
       (\<lambda>args' s'. sema_ok n s' \<and> kept s s' \<and> list_all2 (slot_kept (se_types s')) (a # args) args'
      \<and> (nerr s' = 0 \<and> bound s \<and> list_all (convs_child (se_types s) (type_names s) (names s)) (a # args) \<longrightarrow> args_typed s' y i args'))"
    proof (rule wp_step)
      fix args' s2 assume r: "sema_ok n s2 \<and> kept s1 s2 \<and> list_all2 (slot_kept (se_types s2)) args args'
        \<and> (nerr s2 = 0 \<and> bound s1 \<and> list_all (convs_child (se_types s1) (type_names s1) (names s1)) args \<longrightarrow> args_typed s2 y (i + 1) args')"
      have sk: "slot_kept (se_types s2) a a'" using e r kept_tree(1) by (auto simp: slot_kept_def becomes_def)
      have "args_typed s2 y i (a' # args')" if z: "nerr s2 = 0" "bound s"
        "list_all (convs_child (se_types s) (type_names s) (names s)) (a # args)"
      proof -
        have k2: "kept s1 s2" using r by blast
        from ty nerr_zero [OF k2 z(1)] z(2,3) obtain t where t: "has_type s1 e' t"
          "if i < length (sy_params y) then t = sy_params y ! i else vararg_ok (se_types s1) t"
          by (auto simp: e(1) has_convs_def)
        have "has_type s2 e' t" by (rule has_type_kept [OF k2 ok1 _ t(1)]) (use r in blast)
        moreover have "if i < length (sy_params y) then t = sy_params y ! i else vararg_ok (se_types s2) t"
          using t(2) vararg_kept [OF k2 has_typeD(2) [OF t(1)]] by auto
        moreover have "list_all (convs_child (se_types s1) (type_names s1) (names s1)) args"
          using z(3) has_convs_kept [OF k ok ok1] by (auto simp: list_all_iff has_convs_def elim!: convs_child.elims)
        ultimately show ?thesis using r z(1,2) kept_names(3) [OF k] by (auto simp: e(2))
      qed
      then show "wp (Some (a' # args', s2)) (\<lambda>args' s'. sema_ok n s' \<and> kept s s' \<and> list_all2 (slot_kept (se_types s')) (a # args) args'
      \<and> (nerr s' = 0 \<and> bound s \<and> list_all (convs_child (se_types s) (type_names s) (names s)) (a # args) \<longrightarrow> args_typed s' y i args'))"
        using r sk kept_trans [OF k] by auto
    qed
  qed
qed

lemma noded_error:
  assumes "kept s s1" "after_error n s1 s2" "node_ok (se_types s2) u'" "node_height u' \<le> node_height u" "strip_node u' = strip_node u"
  shows "noded n s u (poison s2) u' s2"
  using after_errorD [OF assms(2)] kept_trans [OF assms(1)] assms(3-) by (auto simp: noded_def)

lemma fold_max_le: "list_all2 (\<lambda>a b. f b \<le> f a) xs ys \<Longrightarrow> m' \<le> m \<Longrightarrow> fold max (map f ys) m' \<le> fold max (map f xs) (m :: nat)"
proof (induction xs ys arbitrary: m m' rule: list_all2_induct)
  case (Cons x xs y ys)
  then have "max (f y) m' \<le> max (f x) m" by (simp add: max.coboundedI1 max.coboundedI2)
  from Cons.IH [OF this] show ?case by simp
qed simp

lemma slots_kept:
  assumes "list_all2 (slot_kept tt) args args'"
  shows "node_ok tt (EXPR_CALL f args')" "node_height (EXPR_CALL f args') \<le> node_height (EXPR_CALL f args)"
    "strip_node (EXPR_CALL f args') = strip_node (EXPR_CALL f args)" "length args' = length args"
proof -
  have "list_all2 (\<lambda>a b. child_height b \<le> child_height a) args args'"
    using assms by (rule list_all2_mono) (auto simp: slot_kept_def)
  then show "node_height (EXPR_CALL f args') \<le> node_height (EXPR_CALL f args)" by (simp add: fold_max_le)
  show "node_ok tt (EXPR_CALL f args')"
    using assms by (fastforce simp: list_all_length list_all2_conv_all_nth slot_kept_def)
  show "strip_node (EXPR_CALL f args') = strip_node (EXPR_CALL f args)"
    using assms by (fastforce simp: list_all2_conv_all_nth slot_kept_def intro!: nth_equalityI)
  show "length args' = length args" using assms by (simp add: list_all2_lengthD)
qed

lemma fold_max_bound: "fold max (map f xs) m \<le> h \<Longrightarrow> list_all (\<lambda>x. f x \<le> h) xs \<and> m \<le> (h :: nat)"
  by (induction xs arbitrary: m) (auto, fastforce+)

lemma check_call_ok:
  assumes ck: "good_checker n h ck" and ok: "sema_ok n s" and args: "list_all (child_ok (se_types s)) args" "node_height (EXPR_CALL callee args) \<le> h"
  shows "wp (check_call ck pos callee args s) (\<lambda>(t, args') s'. noded n s (EXPR_CALL callee args) t (EXPR_CALL callee args') s')"
    (is "wp _ ?Q")
proof -
  have bad: "wp (bad_at p [Txt x] args s) ?Q" for p x
    by (rule bad_at_ok [OF ok]) (use args(1) in \<open>auto simp: after_error_def list_all_iff intro!: noded_error [OF kept_refl] intro: kept_tree(2)\<close>)
  show ?thesis
  proof (cases "\<exists>cpos csem nm. callee = Some (Expr cpos csem (EXPR_NAME nm))")
    case False
    then have "check_call ck pos callee args s = bad_at pos [Txt (''only a function name can be called; v0 has no function '' @ ''pointers'')] args s"
      by (auto simp: check_call_def split: option.split expr.split expr_node.split)
    with bad show ?thesis by simp
  next
    case True
    then obtain cpos csem nm where callee: "callee = Some (Expr cpos csem (EXPR_NAME nm))" by blast
    obtain yo where yo: "find_name s nm = Some yo" "\<forall>r. yo = Some r \<longrightarrow> r < length (se_syms s)"
      using find_name_ends [OF ok] by blast
    show ?thesis
    proof (cases yo)
      case None
      with bad yo show ?thesis by (simp add: check_call_def callee)
    next
      case (Some r)
      let ?y = "sym_at s r"
      have r: "r < length (se_syms s)" using yo(2) Some by simp
      have name: "names s nm = Some ?y" by (simp add: names_def yo(1) Some)
      have y: "sym_ok (se_types s) ?y" "nerr s = 0 \<Longrightarrow> clean_sym (se_types s) ?y"
        using sema_okD(9) [OF ok r] sema_okD(12) [OF ok _ r] by simp_all
      let ?count = "if length args < length (sy_params ?y) then
                              serror pos [Txt (''too few arguments to '' @ quote (sy_name ?y) @ '': expected ''),
                                Num (length (sy_params ?y)), Txt '', got '', Num (length args)] s
                            else if length args > length (sy_params ?y) \<and> \<not> sy_is_variadic ?y then
                              serror pos [Txt (''too many arguments to '' @ quote (sy_name ?y) @ '': expected ''),
                                Num (length (sy_params ?y)), Txt '', got '', Num (length args)] s
                            else Some s"
      let ?arity = "length (sy_params ?y) \<le> length args \<and> (sy_is_variadic ?y \<or> length args = length (sy_params ?y))"
      have count: "ends ?count (\<lambda>s1. sema_ok n s1 \<and> kept s s1 \<and> se_types s1 = se_types s \<and> (nerr s1 = 0 \<longrightarrow> ?arity))"
      proof -
        have e: "ends (serror pos ps s) (\<lambda>s1. sema_ok n s1 \<and> kept s s1 \<and> se_types s1 = se_types s \<and> 0 < nerr s1)"
          if "list_all (piece_ok s) ps" for ps
          by (rule ends_mono [OF serror_ends [OF ok that]]) (simp add: after_error_def)
        show ?thesis using ok by (auto intro!: e)
      qed
      have call: "wp (do { (args, s) \<leftarrow> check_args ck ?y 0 args s1; Some ((case sy_type ?y of Some t \<Rightarrow> t | None \<Rightarrow> poison s, args), s) }) ?Q"
        if fn: "sy_kind ?y = SYM_FN" and s1: "sema_ok n s1" "kept s s1" "se_types s1 = se_types s" "nerr s1 = 0 \<longrightarrow> ?arity" for s1
      proof (rule wp_step [OF check_args_ok [OF ck s1(1) kept_tree(3) [OF s1(2) args(1)]]])
        show "list_all (\<lambda>a. child_height a \<le> h) args" using fold_max_bound [of child_height args 0 h] args(2) by simp
        show "sym_ok (se_types s1) ?y" "nerr s1 = 0 \<longrightarrow> clean_sym (se_types s1) ?y" using y s1(3) nerr_zero [OF s1(2)] by auto
        fix args' s2 assume a: "sema_ok n s2 \<and> kept s1 s2 \<and> list_all2 (slot_kept (se_types s2)) args args'
          \<and> (nerr s2 = 0 \<and> bound s1 \<and> list_all (convs_child (se_types s1) (type_names s1) (names s1)) args \<longrightarrow> args_typed s2 ?y 0 args')"
        then have k: "kept s s2" and ok2: "sema_ok n s2" and sl: "list_all2 (slot_kept (se_types s2)) args args'" using kept_trans [OF s1(2)] by auto
        let ?t = "case sy_type ?y of Some t \<Rightarrow> t | None \<Rightarrow> poison s2"
        have vt: "valid (se_types s2) ?t"
          using y(1) kept_valid [OF k] poison_is(1) [OF sema_okD(1) [OF ok2]] by (auto simp: sym_ok_def split: option.split)
        have "kind s2 ?t \<noteq> TY_POISON \<and> has_node s2 (EXPR_CALL callee args') ?t"
          if z: "nerr s2 = 0" "bound s" "convs_node (se_types s) (type_names s) (names s) (EXPR_CALL callee args)"
        proof -
          obtain t where t: "sy_type ?y = Some t" using z(2) name by (auto simp: bound_def)
          have vt: "valid (se_types s) t" using y(1) t by (simp add: sym_ok_def)
          have "proper (se_types s) t" using y(2) nerr_zero [OF k z(1)] t by (simp add: clean_sym_def)
          then have pr: "proper (se_types s2) t" using proper_kept [OF k vt] by simp
          have "args_typed s2 ?y 0 args'"
            using a z kept_names [OF s1(2)] s1(3) by (auto simp: list_all_iff)
          from args_typed_nth [OF this, unfolded add_0] obtain ts where ts: "length ts = length args'"
            "\<forall>j < length args'. \<exists>e. args' ! j = Some e \<and> has_type s2 e (ts ! j)
              \<and> (if j < length (sy_params ?y) then ts ! j = sy_params ?y ! j else vararg_ok (se_types s2) (ts ! j))" by blast
          have "node (se_types s2) (type_names s2) (names s2) (EXPR_CALL callee args') t"
            unfolding callee
          proof (rule n_call [where y = ?y and ts = ts])
            show "names s2 nm = Some ?y" using name kept_names(1) [OF k] by simp
            show "typed_kind (t_kind (ty_at (se_types s2) t))" using pr by (simp add: proper_def)
            show "length (sy_params ?y) \<le> length args'" "sy_is_variadic ?y \<or> length args' = length (sy_params ?y)"
              using s1(4) nerr_zero [of s1 s2] a z(1) slots_kept(4) [OF sl] by auto
            fix i assume "i < length args'"
            with ts(2) show "\<exists>e. args' ! i = Some e \<and> typed (se_types s2) (type_names s2) (names s2) e (ts ! i) \<and>
              (if i < length (sy_params ?y) then ts ! i = sy_params ?y ! i else vararg_ok (se_types s2) (ts ! i))"
              by (auto simp: has_type_def)
          qed (use fn t ts in simp_all)
          with pr t show ?thesis by (simp add: has_node_def proper_def kind_def)
        qed
        then have "noded n s (EXPR_CALL callee args) ?t (EXPR_CALL callee args') s2"
          using ok2 k vt slots_kept [OF sl] by (simp add: noded_def)
        then show "wp (Some ((?t, args'), s2)) ?Q" by simp
      qed
      have "wp (do { s \<leftarrow> ?count; (args, s) \<leftarrow> check_args ck ?y 0 args s;
          Some ((case sy_type ?y of Some t \<Rightarrow> t | None \<Rightarrow> poison s, args), s) }) ?Q" if "sy_kind ?y = SYM_FN"
        by (rule wp_ends [OF count], rule call [OF that]) simp_all
      then have "wp (if sy_kind ?y \<noteq> SYM_FN then bad_at cpos [Txt (quote nm @ '' is not a function'')] args s
          else do { s \<leftarrow> ?count; (args, s) \<leftarrow> check_args ck ?y 0 args s;
            Some ((case sy_type ?y of Some t \<Rightarrow> t | None \<Rightarrow> poison s, args), s) }) ?Q"
        by (intro wp_cond bad) blast
      then show ?thesis
        by (simp only: check_call_def callee option.case expr.case expr_node.case yo(1) Some bind.bind_lunit Let_def)
    qed
  qed
qed

lemma check_name_ok:
  assumes ok: "sema_ok n s"
  shows "wp (check_name pos nm s) (\<lambda>t s'. noded n s (EXPR_NAME nm) t (EXPR_NAME nm) s')"
proof -
  obtain yo where yo: "find_name s nm = Some yo" "\<forall>r. yo = Some r \<longrightarrow> r < length (se_syms s)"
    using find_name_ends [OF ok] by blast
  have bad: "wp (do { s \<leftarrow> serror pos [Txt x] s; Some (poison s, s) }) (\<lambda>t s'. noded n s (EXPR_NAME nm) t (EXPR_NAME nm) s')" for x
    by (rule wp_serror [OF ok]) (auto intro: noded_error [OF kept_refl])
  show ?thesis
  proof (cases yo)
    case None
    with bad yo show ?thesis by (simp add: check_name_def)
  next
    case (Some r)
    let ?y = "sym_at s r"
    have r: "r < length (se_syms s)" using yo(2) Some by simp
    have name: "names s nm = Some ?y" by (simp add: names_def yo(1) Some)
    have y: "sym_ok (se_types s) ?y" "nerr s = 0 \<Longrightarrow> clean_sym (se_types s) ?y"
      using sema_okD(9) [OF ok r] sema_okD(12) [OF ok _ r] by simp_all
    have "noded n s (EXPR_NAME nm) (case sy_type ?y of Some t \<Rightarrow> t | None \<Rightarrow> poison s) (EXPR_NAME nm) s" if fn: "sy_kind ?y \<noteq> SYM_FN"
    proof -
      have "kind s t \<noteq> TY_POISON \<and> has_node s (EXPR_NAME nm) t" if "nerr s = 0" "sy_type ?y = Some t" for t
        using y(2) [OF that(1)] that(2) name fn by (auto simp: has_node_def clean_sym_def proper_def kind_def intro: n_name)
      then show ?thesis
        using ok y(1) name poison_is(1) [OF sema_okD(1) [OF ok]]
        by (auto simp: noded_def sym_ok_def bound_def split: option.split)
    qed
    then show ?thesis using bad yo(1) Some by (auto simp: check_name_def)
  qed
qed

lemma sized_ref:
  assumes "ty_is_sized (ty_of s t)" "typed_kind (kind s t)"
  shows "proper (se_types s) t"
  using assms by (auto simp: ty_is_sized_def proper_def kind_def ty_of_def)

lemma laid_resolved:
  assumes "resolved n s ty t s1" "laid n s1 t s2"
  shows "sema_ok n s2" "kept s s2" "valid (se_types s2) t" "typed_kind (kind s2 t)"
    "nerr s2 = 0 \<Longrightarrow> proper (se_types s2) t \<and> denotes (se_types s2) (type_names s2) ty t"
proof -
  have r: "sema_ok n s1" "kept s s1" "valid (se_types s1) t" "typed_kind (kind s1 t)"
    "nerr s1 = 0 \<Longrightarrow> proper (se_types s1) t \<and> denotes (se_types s1) (type_names s1) ty t"
    using assms(1) by (simp_all add: resolved_def type_names_def)
  have l: "sema_ok n s2" "kept s1 s2" using assms(2) by (simp_all add: laid_def)
  show "sema_ok n s2" by (rule l(1))
  show "kept s s2" using r(2) l(2) by (rule kept_trans)
  show "valid (se_types s2) t" by (rule kept_valid [OF l(2) r(3)])
  show "typed_kind (kind s2 t)" using r(4) kept_kind [OF l(2) r(3)] by simp
  assume "nerr s2 = 0"
  with r(5) nerr_zero [OF l(2)] show "proper (se_types s2) t \<and> denotes (se_types s2) (type_names s2) ty t"
    using proper_kept [OF l(2) r(3)] denotes_grow [OF _ sema_okD(1) [OF r(1)] sema_okD(1) [OF l(1)] keptD(1) [OF l(2)]]
      kept_names(2) [OF l(2)] by auto
qed

lemma resolve_child:
  assumes ok: "sema_ok n s" and ty: "case ty of Some ty \<Rightarrow> wf_type ty | None \<Rightarrow> False"
    and Q: "\<And>a t s1 s2. ty = Some a \<Longrightarrow> resolved n s a t s1 \<Longrightarrow> laid n s1 t s2 \<Longrightarrow> wp (f t s2) Q"
  shows "wp (do { (t, s) \<leftarrow> (case ty of Some ty \<Rightarrow> resolve ty s | None \<Rightarrow> Some (poison s, s)); s \<leftarrow> layout_if_struct t s; f t s }) Q"
proof -
  obtain a where a: "ty = Some a" "wf_type a" using ty by (cases ty) auto
  show ?thesis
    unfolding a(1) option.case
  proof (rule wp_step [OF resolve_ok [OF ok a(2)]])
    fix t s1 assume r: "resolved n s a t s1"
    then have "sema_ok n s1" "valid (se_types s1) t" by (simp_all add: resolved_def)
    from layout_if_struct_ok [OF this] show "wp (do { s \<leftarrow> layout_if_struct t s1; f t s }) Q"
      by (rule wp_ends) (rule Q [OF a(1) r])
  qed
qed

lemma check_sizeof_ok:
  assumes ok: "sema_ok n s" and ty: "case ty of Some ty \<Rightarrow> wf_type ty | None \<Rightarrow> False"
  shows "wp (check_sizeof pos ty s) (\<lambda>t s'. noded n s (EXPR_SIZEOF ty) t (EXPR_SIZEOF ty) s')"
  unfolding check_sizeof_def
proof (rule resolve_child [OF ok ty])
  fix a t s1 s2 assume a: "ty = Some a" "resolved n s a t s1" "laid n s1 t s2"
  note r = laid_resolved [OF a(2,3)]
  have "ends (if \<not> ty_is_sized (ty_of s2 t) \<and> kind s2 t \<noteq> TY_POISON
      then serror pos [Txt (quote ''sizeof'' @ '' needs a sized type, not ''), TyName128 t] s2 else Some s2)
    (\<lambda>s3. sema_ok n s3 \<and> kept s2 s3 \<and> (nerr s3 = 0 \<longrightarrow> ty_is_sized (ty_of s2 t) \<or> kind s2 t = TY_POISON))"
    (is "ends ?m _")
  proof -
    have "ends (serror pos [Txt (quote ''sizeof'' @ '' needs a sized type, not ''), TyName128 t] s2)
        (\<lambda>s3. sema_ok n s3 \<and> kept s2 s3 \<and> 0 < nerr s3)"
      by (rule ends_mono [OF serror_ends [OF r(1)]]) (use r(3) in \<open>auto simp: after_error_def\<close>)
    with r(1) show ?thesis by auto
  qed
  then show "wp (do { s \<leftarrow> ?m; Some (core s TY_U64, s) }) (\<lambda>t s'. noded n s (EXPR_SIZEOF ty) t (EXPR_SIZEOF ty) s')"
  proof (rule wp_ends)
    fix s3 assume s3: "sema_ok n s3 \<and> kept s2 s3 \<and> (nerr s3 = 0 \<longrightarrow> ty_is_sized (ty_of s2 t) \<or> kind s2 t = TY_POISON)"
    then have k: "kept s2 s3" and ok3: "sema_ok n s3" by blast+
    have u64: "valid (se_types s3) (core s3 TY_U64)" "kind s3 (core s3 TY_U64) = TY_U64"
      using core_is [OF sema_okD(1) [OF ok3], of TY_U64] by (simp_all add: core_kind_def)
    have "has_node s3 (EXPR_SIZEOF ty) (core s3 TY_U64)" if z: "nerr s3 = 0"
    proof -
      have p: "proper (se_types s2) t" "denotes (se_types s2) (type_names s2) a t" using r(5) nerr_zero [OF k z] by simp_all
      then have "ty_is_sized (ty_of s2 t)" using s3 z by (auto simp: proper_def kind_def)
      then have "ty_is_sized (ty_at (se_types s3) t)"
        using sized_same [OF types_grow_same [OF keptD(1) [OF k] r(3)]] by (simp add: ty_of_def)
      then show ?thesis
        using denotes_grow [OF p(2) sema_okD(1) [OF r(1)] sema_okD(1) [OF ok3] keptD(1) [OF k]] u64 kept_valid [OF k r(3)]
        by (auto simp: has_node_def a(1) kept_names(2) [OF k] kind_def intro: n_sizeof)
    qed
    then show "wp (Some (core s3 TY_U64, s3)) (\<lambda>t s'. noded n s (EXPR_SIZEOF ty) t (EXPR_SIZEOF ty) s')"
      using ok3 kept_trans [OF r(2) k] u64 ty by (simp add: noded_def)
  qed
qed

text \<open>The element of a pointer or an array.\<close>

lemma elem_ref:
  assumes "sema_ok n s" "valid (se_types s) t" "kind s t = TY_PTR \<or> kind s t = TY_ARRAY"
  shows "\<exists>e. t_elem (ty_of s t) = Some e \<and> valid (se_types s) e \<and> (nerr s = 0 \<longrightarrow> proper (se_types s) e)"
proof -
  have h: "has_elem (ty_at (se_types s) t)" using assms(3) by (auto simp: has_elem_def kind_def)
  from elem_valid [OF sema_okD(1) [OF assms(1)] assms(2) h] obtain e where "t_elem (ty_of s t) = Some e" "valid (se_types s) e"
    by (auto simp: ty_of_def)
  then show ?thesis using sema_okD(11) [OF assms(1)] assms(2) h by (auto simp: clean_types_def ty_of_def)
qed

lemma check_field_ok:
  assumes ck: "good_checker n h ck" and s: "sema_ok n s" "child_ok (se_types s) a" "child_height a \<le> h"
  shows "wp (check_field ck pos a nm s) (\<lambda>(t, a') s'. noded n s (EXPR_FIELD a nm) t (EXPR_FIELD a' nm) s')" (is "wp _ ?Q")
  unfolding check_field_def
proof (rule bind_value [OF ck s])
  fix e e' t s1 assume e: "a = Some e" "tree_ok (se_types s) e" and c: "valued n s e (t, Some e') s1"
  then have b: "becomes n s e t e' s1" by (simp add: valued_def)
  note ok = becomes_ok(1) [OF b] and v = becomes_ok(4) [OF b]
  have elem: "ends (if kind s1 t = TY_PTR then t_elem (ty_of s1 t) else Some t)
    (\<lambda>r. valid (se_types s1) r \<and> (if t_kind (ty_at (se_types s1) t) = TY_PTR then t_elem (ty_at (se_types s1) t) = Some r else r = t)
       \<and> (nerr s1 = 0 \<longrightarrow> kind s1 t \<noteq> TY_POISON \<longrightarrow> kind s1 r \<noteq> TY_POISON))"
    using elem_ref [OF ok v] v by (auto simp: kind_def ty_of_def proper_def)
  have post: "?Q (u, Some e') s3" if "sema_ok n s3" "kept s1 s3" "valid (se_types s3) u"
    "nerr s3 = 0 \<Longrightarrow> bound s \<Longrightarrow> has_convs s e \<Longrightarrow> kind s3 u \<noteq> TY_POISON \<and> has_node s3 (EXPR_FIELD (Some e') nm) u" for u s3
    using b that kept_trans [OF becomes_ok(2) [OF b] that(2)] kept_tree(1) [OF that(2)] by (auto simp: noded_def becomes_def e(1) has_convs_def)
  show "wp (do { bt \<leftarrow> (if kind s1 t = TY_PTR then t_elem (ty_of s1 t) else Some t);
          s \<leftarrow> layout_if_struct bt s1;
          if kind s bt = TY_POISON then Some ((bt, Some e'), s)
          else if kind s bt \<noteq> TY_STRUCT then bad_at pos [TyName128 bt, Txt '' has no fields''] (Some e') s
          else case ty_field (se_types s) (Some bt) nm of
            None \<Rightarrow> bad_at pos [Txt (''struct '' @ quote (t_name (ty_of s bt)) @ '' has no field '' @ quote nm)] (Some e') s
          | Some f \<Rightarrow> do { t \<leftarrow> fs_type f; Some ((t, Some e'), s) } }) ?Q"
  proof (rule wp_ends [OF elem], rule wp_ends)
    fix r assume r: "valid (se_types s1) r \<and> (if t_kind (ty_at (se_types s1) t) = TY_PTR then t_elem (ty_at (se_types s1) t) = Some r else r = t)
       \<and> (nerr s1 = 0 \<longrightarrow> kind s1 t \<noteq> TY_POISON \<longrightarrow> kind s1 r \<noteq> TY_POISON)"
    then have vr: "valid (se_types s1) r" by blast
    show "ends (layout_if_struct r s1) (laid n s1 r)" by (rule layout_if_struct_ok [OF ok vr])
    fix s2 assume l: "laid n s1 r s2"
    then have s2: "sema_ok n s2" "kept s1 s2" "kind s2 r = TY_STRUCT \<longrightarrow> t_state (ty_of s2 r) = LAYOUT_DONE" by (simp_all add: laid_def)
    note vr2 = kept_valid [OF s2(2) vr]
    have bad: "wp (bad_at pos ps (Some e') s2) ?Q" if "list_all (piece_ok s2) ps" for ps
    proof (rule bad_at_ok [OF s2(1) that])
      fix s3 assume "after_error n s2 s3"
      note E = after_errorD [OF this]
      show "?Q (poison s3, Some e') s3" by (rule post [OF E(1) kept_trans [OF s2(2) E(2)] E(4)]) (use E(3) in simp)
    qed
    have poisoned: "?Q (r, Some e') s2" if "kind s2 r = TY_POISON"
    proof (rule post [OF s2(1,2) vr2])
      assume "nerr s2 = 0" "bound s" "has_convs s e"
      then have "has_type s1 e' t" "nerr s1 = 0" using c nerr_zero [OF s2(2)] by (simp_all add: valued_def)
      then have "kind s1 r \<noteq> TY_POISON" using r has_typeD(3) by blast
      with that kept_kind [OF s2(2) vr] show "kind s2 r \<noteq> TY_POISON \<and> has_node s2 (EXPR_FIELD (Some e') nm) r" by simp
    qed
    have found: "\<exists>u. fs_type f = Some u \<and> ?Q (u, Some e') s2"
      if k: "kind s2 r = TY_STRUCT" and f: "ty_field (se_types s2) (Some r) nm = Some f" for f
    proof -
      have fnd: "find (\<lambda>f. fs_name f = nm) (t_fields (ty_at (se_types s2) r)) = Some f"
        using f k by (simp add: ty_field_def kind_def)
      then have fin: "f \<in> set (t_fields (ty_at (se_types s2) r))" using find_SomeD by fast
      then obtain u where u: "fs_type f = Some u" "valid (se_types s2) u"
        using sema_okD(2) [OF s2(1)] vr2 unfolding fields_ok_def by blast
      have "?Q (u, Some e') s2"
      proof (rule post [OF s2(1,2) u(2)])
        assume z: "nerr s2 = 0" "bound s" "has_convs s e"
        then have "has_type s1 e' t" using c nerr_zero [OF s2(2)] by (simp add: valued_def)
        then have t: "has_type s2 e' t" by (rule has_type_kept [OF s2(2) ok s2(1)])
        have "proper (se_types s2) u" using sema_okD(11) [OF s2(1) z(1)] vr2 fin u(1) by (auto simp: clean_types_def)
        then show "kind s2 u \<noteq> TY_POISON \<and> has_node s2 (EXPR_FIELD (Some e') nm) u"
          using t r k fnd u s2(3) vr2 types_grow_keeps(1,2) [OF keptD(1) [OF s2(2)] v]
          by (auto simp: has_node_def has_type_def proper_def kind_def ty_of_def intro!: n_field [where r = r and ta = t and f = f])
      qed
      with u show ?thesis by blast
    qed
    show "wp (if kind s2 r = TY_POISON then Some ((r, Some e'), s2)
          else if kind s2 r \<noteq> TY_STRUCT then bad_at pos [TyName128 r, Txt '' has no fields''] (Some e') s2
          else case ty_field (se_types s2) (Some r) nm of
            None \<Rightarrow> bad_at pos [Txt (''struct '' @ quote (t_name (ty_of s2 r)) @ '' has no field '' @ quote nm)] (Some e') s2
          | Some f \<Rightarrow> do { t \<leftarrow> fs_type f; Some ((t, Some e'), s2) }) ?Q"
    proof (intro wp_cond bad)
      show "list_all (piece_ok s2) [TyName128 r, Txt '' has no fields'']" using vr2 by simp
      show "wp (Some ((r, Some e'), s2)) ?Q" if "kind s2 r = TY_POISON" using poisoned [OF that] by simp
      assume "\<not> kind s2 r \<noteq> TY_STRUCT"
      then have k: "kind s2 r = TY_STRUCT" by simp
      show "wp (case ty_field (se_types s2) (Some r) nm of
            None \<Rightarrow> bad_at pos [Txt (''struct '' @ quote (t_name (ty_of s2 r)) @ '' has no field '' @ quote nm)] (Some e') s2
          | Some f \<Rightarrow> do { t \<leftarrow> fs_type f; Some ((t, Some e'), s2) }) ?Q"
      proof (cases "ty_field (se_types s2) (Some r) nm")
        case None
        have "wp (bad_at pos [Txt (''struct '' @ quote (t_name (ty_of s2 r)) @ '' has no field '' @ quote nm)] (Some e') s2) ?Q"
          by (rule bad) simp
        with None show ?thesis by simp
      next
        case (Some f)
        from found [OF k this] Some show ?thesis by auto
      qed
    qed
  qed
qed

text \<open>The index operand: an integer, with \<open>i64\<close> as the type of a literal.\<close>

lemma index_operand:
  assumes c: "checked n s e (t, Some e') s1"
  shows "wp (if kind s1 t = TY_UNTYPED_INT
             then do { ((_, index), s) \<leftarrow> coerce (Some e') (core s1 TY_I64) s1; Some (index, s) }
             else if \<not> ty_is_integer (ty_of s1 t) \<and> kind s1 t \<noteq> TY_POISON
             then do { s \<leftarrow> serror pos [Txt ''index must be an integer, not '', TyName128 t] s1; Some (Some e', s) }
             else Some (Some e', s1))
      (\<lambda>i s2. \<exists>i' u. i = Some i' \<and> becomes n s e u i' s2
        \<and> (nerr s2 = 0 \<and> bound s \<and> has_convs s e \<longrightarrow> has_type s2 i' u \<and> ty_is_integer (ty_at (se_types s2) u)))" (is "wp _ ?Q")
proof -
  have b: "becomes n s e t e' s1" and u: "ex_sem e' = Some t" using c by (simp_all add: checked_def)
  note ok = becomes_ok(1) [OF b] and v = becomes_ok(4) [OF b]
  have I64: "valid (se_types s1) (core s1 TY_I64)" "kind s1 (core s1 TY_I64) = TY_I64"
    using core_is [OF sema_okD(1) [OF ok], of TY_I64] by (simp_all add: core_kind_def)
  show ?thesis
  proof (intro wp_cond)
    show "wp (do { ((_, index), s) \<leftarrow> coerce (Some e') (core s1 TY_I64) s1; Some (index, s) }) ?Q"
    proof (rule bind_coerce [OF ok becomes_ok(3) [OF b] u v I64(1)])
      fix w e'' s2 assume c2: "coerced n s1 e' (core s1 TY_I64) (w, Some e'') s2"
      then have b2: "becomes n s1 e' w e'' s2" by (simp add: coerced_def)
      have "has_type s2 e'' w \<and> ty_is_integer (ty_at (se_types s2) w)" if z: "nerr s2 = 0" "bound s" "has_convs s e"
      proof -
        have "has_type s1 e' t" using c z nerr_zero [OF becomes_ok(2) [OF b2]] by (simp add: checked_def)
        then have "w = core s1 TY_I64" "has_type s2 e'' w" using c2 z(1) I64(2) by (auto simp: coerced_def)
        then show ?thesis using kept_kind [OF becomes_ok(2) [OF b2] I64(1)] I64(2) by (simp add: ty_is_integer_def kind_def)
      qed
      with becomes_trans [OF b b2] show "wp (Some (Some e'', s2)) ?Q" by auto
    qed
    show "wp (do { s \<leftarrow> serror pos [Txt ''index must be an integer, not '', TyName128 t] s1; Some (Some e', s) }) ?Q"
    proof (rule wp_serror [OF ok])
      fix s2 assume "after_error n s1 s2"
      note E = after_errorD [OF this]
      from becomes_later [OF b E(2,1) kept_valid [OF E(2) v]] E(3) show "wp (Some (Some e', s2)) ?Q" by auto
    qed (use v in simp)
    assume "\<not> (\<not> ty_is_integer (ty_of s1 t) \<and> kind s1 t \<noteq> TY_POISON)"
    then show "wp (Some (Some e', s1)) ?Q"
      using b c has_typeD(3) by (auto simp: checked_def ty_of_def)
  qed
qed

lemma check_index_ok:
  assumes ck: "good_checker n h ck" and s: "sema_ok n s" "child_ok (se_types s) a" "child_height a \<le> h" and i: "child_ok (se_types s) i" "child_height i \<le> h"
  shows "wp (check_index ck pos a i s) (\<lambda>(t, a', i') s'. noded n s (EXPR_INDEX a i) t (EXPR_INDEX a' i') s')" (is "wp _ ?Q")
  unfolding check_index_def
proof (rule bind_value [OF ck s])
  fix e e' t s1 assume e: "a = Some e" "tree_ok (se_types s) e" and c: "valued n s e (t, Some e') s1"
  then have b: "becomes n s e t e' s1" by (simp add: valued_def)
  note ok = becomes_ok(1) [OF b] and v = becomes_ok(4) [OF b] and k1 = becomes_ok(2) [OF b]
  show "wp (do { ((it, index), s) \<leftarrow> ck i None s1;
          (index, s) \<leftarrow> (if kind s it = TY_UNTYPED_INT
             then do { ((_, index), s) \<leftarrow> coerce index (core s TY_I64) s; Some (index, s) }
             else if \<not> ty_is_integer (ty_of s it) \<and> kind s it \<noteq> TY_POISON
             then do { s \<leftarrow> serror pos [Txt ''index must be an integer, not '', TyName128 it] s; Some (index, s) }
             else Some (index, s));
          if kind s t = TY_ARRAY then
            (case t_elem (ty_of s t) of Some e \<Rightarrow> Some ((e, Some e', index), s) | None \<Rightarrow> None)
          else do {
            pointee \<leftarrow> (if kind s t = TY_PTR
               then (case t_elem (ty_of s t) of
                       Some e \<Rightarrow> Some (if kind s e \<noteq> TY_VOID then Some e else None)
                     | None \<Rightarrow> None)
               else Some None);
            case pointee of
              Some e \<Rightarrow> Some ((e, Some e', index), s)
            | None \<Rightarrow>
                if kind s t = TY_POISON then Some ((t, Some e', index), s)
                else bad_at pos [Txt ''cannot index '', TyName128 t] (Some e', index) s } }) ?Q"
  proof (rule bind_checker [OF ck ok kept_tree(2) [OF k1 i(1)] i(2)], rule wp_step [OF index_operand])
    fix d d' it s2 assume d: "i = Some d" "tree_ok (se_types s1) d" and "checked n s1 d (it, Some d') s2"
    then show "checked n s1 d (it, Some d') s2" by blast
    fix index s3 assume "\<exists>i' u. index = Some i' \<and> becomes n s1 d u i' s3
        \<and> (nerr s3 = 0 \<and> bound s1 \<and> has_convs s1 d \<longrightarrow> has_type s3 i' u \<and> ty_is_integer (ty_at (se_types s3) u))"
    then obtain d'' u where ix: "index = Some d''" "becomes n s1 d u d'' s3"
      "nerr s3 = 0 \<and> bound s1 \<and> has_convs s1 d \<longrightarrow> has_type s3 d'' u \<and> ty_is_integer (ty_at (se_types s3) u)" by blast
    note ok3 = becomes_ok(1) [OF ix(2)] and k13 = becomes_ok(2) [OF ix(2)]
    have vt: "valid (se_types s3) t" by (rule kept_valid [OF k13 v])
    have post: "?Q (r, Some e', Some d'') s4" if p: "sema_ok n s4" "kept s3 s4" "valid (se_types s4) r"
      "nerr s4 = 0 \<Longrightarrow> has_type s3 e' t \<Longrightarrow> has_type s3 d'' u \<Longrightarrow> ty_is_integer (ty_at (se_types s3) u)
        \<Longrightarrow> kind s4 r \<noteq> TY_POISON \<and> has_node s4 (EXPR_INDEX (Some e') (Some d'')) r" for r s4
    proof -
      have "kind s4 r \<noteq> TY_POISON \<and> has_node s4 (EXPR_INDEX (Some e') (Some d'')) r"
        if z: "nerr s4 = 0" "bound s" "has_convs s e" "has_convs s d"
      proof -
        have z3: "nerr s3 = 0" "nerr s1 = 0" using nerr_zero [OF \<open>kept s3 s4\<close> z(1)] nerr_zero [OF k13] by simp_all
        have "has_type s1 e' t" using c z z3 by (simp add: valued_def)
        then have 1: "has_type s3 e' t" by (rule has_type_kept [OF k13 ok ok3])
        have "has_convs s1 d" by (rule has_convs_kept [OF k1 s(1) ok z(4)])
        then have "has_type s3 d'' u \<and> ty_is_integer (ty_at (se_types s3) u)" using ix(3) z3 z(2) kept_names(3) [OF k1] by simp
        with 1 z(1) show ?thesis by (intro p(4)) auto
      qed
      then show ?thesis
        using b ix(2) p(1-3) kept_trans [OF kept_trans [OF k1 k13] p(2)] kept_tree(1) [OF p(2)] kept_tree(1) [OF k13] by (auto simp: noded_def becomes_def e(1) d(1) has_convs_def)
    qed
    have elem: "?Q (r, Some e', Some d'') s3" if r: "t_elem (ty_of s3 t) = Some r" "kind s3 t = TY_ARRAY \<or> kind s3 t = TY_PTR \<and> kind s3 r \<noteq> TY_VOID" for r
    proof (rule post [OF ok3 kept_refl])
      from elem_ref [OF ok3 vt] r have p: "valid (se_types s3) r" "nerr s3 = 0 \<longrightarrow> proper (se_types s3) r" by auto
      then show "valid (se_types s3) r" by blast
      assume "nerr s3 = 0" "has_type s3 e' t" "has_type s3 d'' u" "ty_is_integer (ty_at (se_types s3) u)"
      with p r show "kind s3 r \<noteq> TY_POISON \<and> has_node s3 (EXPR_INDEX (Some e') (Some d'')) r"
        by (auto simp: has_node_def has_type_def proper_def kind_def ty_of_def intro!: n_index [where ta = t and ti = u])
    qed
    have poisoned: "?Q (t, Some e', Some d'') s3" if "kind s3 t = TY_POISON"
      by (rule post [OF ok3 kept_refl vt]) (use that has_typeD(3) in blast)
    have bad: "wp (bad_at pos [Txt ''cannot index '', TyName128 t] (Some e', Some d'') s3) ?Q"
    proof (rule bad_at_ok [OF ok3])
      show "list_all (piece_ok s3) [Txt ''cannot index '', TyName128 t]" using vt by simp
      fix s4 assume "after_error n s3 s4"
      note E = after_errorD [OF this]
      show "?Q (poison s4, Some e', Some d'') s4" by (rule post [OF E(1,2,4)]) (use E(3) in simp)
    qed
    from elem_ref [OF ok3 vt] elem poisoned bad
    show "wp (if kind s3 t = TY_ARRAY then
            (case t_elem (ty_of s3 t) of Some e \<Rightarrow> Some ((e, Some e', index), s3) | None \<Rightarrow> None)
          else do {
            pointee \<leftarrow> (if kind s3 t = TY_PTR
               then (case t_elem (ty_of s3 t) of
                       Some e \<Rightarrow> Some (if kind s3 e \<noteq> TY_VOID then Some e else None)
                     | None \<Rightarrow> None)
               else Some None);
            case pointee of
              Some e \<Rightarrow> Some ((e, Some e', index), s3)
            | None \<Rightarrow>
                if kind s3 t = TY_POISON then Some ((t, Some e', index), s3)
                else bad_at pos [Txt ''cannot index '', TyName128 t] (Some e', index) s3 }) ?Q"
      by (auto simp: ix(1))
  qed
qed

end
