(* ===== verification/Slop_Sema_Tree.thy ===== *)
theory Slop_Sema_Tree
  imports Slop_Sema_Check Slop_Sema_Stmt
begin

text \<open>
  Casts, the \<open>switch\<close> of \<open>check_expr\<close>, and \<open>check_expr\<close> itself: it returns on every tree the parser can build,
  keeps the invariant of sema, changes nothing of the tree but types and conversions, and when no error has been
  reported the tree it leaves is well typed.
\<close>

section \<open>Casts\<close>

lemma untyped_assigns_sized:
  assumes "ty_is_untyped f" "basic_assigns f t" "typed_kind (t_kind t)"
  shows "ty_is_sized t"
  using assms by (auto simp: basic_assigns_def ty_is_untyped_def typed_kind_def ty_is_sized_def ty_is_integer_def
      ty_is_float_def ty_is_bool_def split: ty_kind.splits)

lemma noded_cast:
  assumes k: "kept s s2" and b: "becomes n s2 e x e' s'" and ty: "wf_type ty" and v: "valid (se_types s') t"
    and d: "nerr s2 = 0 \<Longrightarrow> denotes (se_types s2) (type_names s2) ty tg" and ok: "sema_ok n s2"
    and good: "nerr s' = 0 \<Longrightarrow> bound s2 \<Longrightarrow> has_convs s2 e \<Longrightarrow> t = tg \<and> proper (se_types s') t \<and> ty_is_sized (ty_of s' t)
      \<and> (\<exists>ta. has_type s' e' ta \<and> cast_allowed (se_types s') ta t = Some True)"
    and s: "sema_ok n s" "tree_ok (se_types s) e"
  shows "noded n s (EXPR_CAST (Some e) (Some ty)) t (EXPR_CAST (Some e') (Some ty)) s'"
proof -
  note kb = becomes_ok(2) [OF b] and okb = becomes_ok(1) [OF b]
  have "kind s' t \<noteq> TY_POISON \<and> has_node s' (EXPR_CAST (Some e') (Some ty)) t"
    if z: "nerr s' = 0" "bound s" "has_convs s e"
  proof -
    have c: "has_convs s2 e" by (rule has_convs_kept [OF k s(1) ok z(3)])
    have d': "denotes (se_types s') (type_names s') ty tg"
      using denotes_grow [OF d sema_okD(1) [OF ok] sema_okD(1) [OF okb] keptD(1) [OF kb]] nerr_zero [OF kb z(1)]
      by (simp add: kept_names(2) [OF kb])
    show ?thesis
      using good [OF z(1) _ c] z(2) kept_names(3) [OF k] d'
      by (auto simp: has_node_def has_type_def proper_def kind_def ty_of_def intro: n_cast)
  qed
  then show ?thesis
    using b ty v kept_trans [OF k kb] by (auto simp: noded_def becomes_def has_convs_def)
qed

lemma cast_allowed_ends:
  assumes ok: "sema_ok n s" and v: "valid (se_types s) a" "valid (se_types s) b"
  shows "\<exists>r. cast_allowed (se_types s) a b = Some r"
proof -
  have "\<exists>u. underlying (se_types s) t = Some u" if "valid (se_types s) t" for t
    using enum_base [OF sema_okD(1) [OF ok] that] by (auto simp: underlying_def)
  from this [OF v(1)] this [OF v(2)] show ?thesis by (auto simp: cast_allowed_def)
qed

lemma check_cast_ok:
  assumes ck: "good_checker n h ck" and s: "sema_ok n s" "child_ok (se_types s) a" "child_height a \<le> h"
    and ty: "case ty of Some ty \<Rightarrow> wf_type ty | None \<Rightarrow> False"
  shows "wp (check_cast ck pos a ty s) (\<lambda>(t, a') s'. noded n s (EXPR_CAST a ty) t (EXPR_CAST a' ty) s')" (is "wp _ ?Q")
  unfolding check_cast_def
proof (rule resolve_child [OF s(1) ty])
  fix aty tg s1 s2 assume a: "ty = Some aty" "resolved n s aty tg s1" "laid n s1 tg s2"
  note r = laid_resolved [OF a(2,3)]
  show "wp (do { ((from, a), s) \<leftarrow> ck a None s2;
          becomes \<leftarrow> (if ty_is_untyped (ty_of s from) then assignable (se_types s) from tg else Some False);
          if becomes then do { (a, s) \<leftarrow> retype_child tg a s; Some ((tg, a), s) }
          else do {
            ((from, a), s) \<leftarrow> (if ty_is_untyped (ty_of s from) then check_value_by ck a s else Some ((from, a), s));
            if \<not> ty_is_sized (ty_of s tg) \<and> kind s tg \<noteq> TY_POISON
            then bad_at pos [Txt ''cannot cast to '', TyName128 tg] a s
            else do {
              ok \<leftarrow> cast_allowed (se_types s) from tg;
              if \<not> ok then bad_at pos [Txt ''cannot convert '', TyName128 from, Txt '' to '', TyName128 tg] a s
              else Some ((tg, a), s) } } }) ?Q"
  proof (rule bind_checker [OF ck r(1) kept_tree(2) [OF r(2) s(2)] s(3)])
    fix e e' fr s3 assume e: "a = Some e" "tree_ok (se_types s2) e" and c: "checked n s2 e (fr, Some e') s3"
    then have b: "becomes n s2 e fr e' s3" by (simp add: checked_def)
    note ok = becomes_ok(1) [OF b] and v = becomes_ok(4) [OF b] and k = becomes_ok(2) [OF b]
    note as = assignable_eq [OF sema_okD(1) [OF ok] v, of tg]
    have et: "tree_ok (se_types s) e" using s(2) e(1) by simp
    have post: "?Q (t, Some e'') s'" if p: "becomes n s2 e x e'' s'" "valid (se_types s') t"
        "nerr s' = 0 \<Longrightarrow> bound s2 \<Longrightarrow> has_convs s2 e \<Longrightarrow> t = tg \<and> proper (se_types s') t \<and> ty_is_sized (ty_of s' t)
          \<and> (\<exists>ta. has_type s' e'' ta \<and> cast_allowed (se_types s') ta t = Some True)" for x t e'' s'
      using noded_cast [OF r(2) p(1) _ p(2) _ r(1) p(3) s(1) et, of aty] r(5) ty by (simp add: a(1) e(1))
    have vt: "kept s3 s' \<Longrightarrow> valid (se_types s') tg" for s' by (rule kept_valid [OF _ kept_valid [OF k r(3)]])
    have pt: "kept s2 s' \<Longrightarrow> nerr s' = 0 \<Longrightarrow> proper (se_types s') tg" for s'
      using r(3,5) nerr_zero [of s2 s'] proper_kept [of s2 s' tg] by simp
    show "wp (do { becomes \<leftarrow> (if ty_is_untyped (ty_of s3 fr) then assignable (se_types s3) fr tg else Some False);
          if becomes then do { (a, s) \<leftarrow> retype_child tg (Some e') s3; Some ((tg, a), s) }
          else do {
            ((fr, a), s) \<leftarrow> (if ty_is_untyped (ty_of s3 fr) then check_value_by ck (Some e') s3 else Some ((fr, Some e'), s3));
            if \<not> ty_is_sized (ty_of s tg) \<and> kind s tg \<noteq> TY_POISON
            then bad_at pos [Txt ''cannot cast to '', TyName128 tg] a s
            else do {
              ok \<leftarrow> cast_allowed (se_types s) fr tg;
              if \<not> ok then bad_at pos [Txt ''cannot convert '', TyName128 fr, Txt '' to '', TyName128 tg] a s
              else Some ((tg, a), s) } } }) ?Q"
    proof (cases "ty_is_untyped (ty_of s3 fr) \<and> assigns (se_types s3) fr tg")
      case True
      have "wp (do { (x, s) \<leftarrow> retype_untyped tg e' s3; Some ((tg, Some x), s) }) ?Q"
      proof (rule wp_step [OF retype_untyped_ok [OF ok vt [OF kept_refl] becomes_ok(3) [OF b]]])
        fix e'' s4 assume p: "retype_post n s3 tg e' e'' s4"
        then have p': "sema_ok n s4" "kept s3 s4" "retyped (se_types s4) tg e' e''" by (simp_all add: retype_post_def)
        note k4 = kept_trans [OF k p'(2)]
        have "becomes n s3 e' tg e'' s4"
          using p' vt [OF p'(2)] by (auto simp: becomes_def retyped_def)
        note b4 = becomes_trans [OF b this]
        have "?Q (tg, Some e'') s4"
        proof (rule post [OF b4 vt [OF p'(2)]])
          assume z: "nerr s4 = 0" "bound s2" "has_convs s2 e"
          note z3 = nerr_zero [OF p'(2) z(1)]
          have h: "has_type s3 e' fr" using c z z3 by (simp add: checked_def)
          have pr: "proper (se_types s4) tg" "proper (se_types s3) tg" by (rule pt [OF k4 z(1)], rule pt [OF k z3])
          have "basic_assigns (ty_of s3 fr) (ty_of s3 tg)"
            using True has_typeD(3) [OF h] pr(2) by (auto simp: assigns_def ty_of_def kind_def ty_is_untyped_def proper_def typed_kind_def)
          then have t: "has_type s4 e'' tg" "ty_is_sized (ty_of s3 tg)"
            using p z(1) h True pr(2) untyped_assigns_sized by (auto simp: retype_post_def proper_def ty_of_def)
          moreover have "ty_is_sized (ty_of s4 tg)"
            using sized_same [OF types_grow_same [OF keptD(1) [OF p'(2)] vt [OF kept_refl]]] t(2) by (simp add: ty_of_def)
          moreover have "cast_allowed (se_types s4) tg tg = Some True" by (simp add: cast_allowed_def)
          ultimately show "tg = tg \<and> proper (se_types s4) tg \<and> ty_is_sized (ty_of s4 tg)
            \<and> (\<exists>ta. has_type s4 e'' ta \<and> cast_allowed (se_types s4) ta tg = Some True)" using pr(1) by blast
        qed
        then show "wp (Some ((tg, Some e''), s4)) ?Q" by simp
      qed
      then have "wp (do { (a, s) \<leftarrow> retype_child tg (Some e') s3; Some ((tg, a), s) }) ?Q"
        by (cases "retype_untyped tg e' s3") auto
      with True show ?thesis by (simp add: as)
    next
      case False
      define known where "known = (\<lambda>(fr, a) s'. \<exists>e''. a = Some e'' \<and> becomes n s2 e fr e'' s'
        \<and> kept s3 s' \<and> (nerr s' = 0 \<and> bound s2 \<and> has_convs s2 e \<longrightarrow> has_type s' e'' fr))"
      have "wp (if ty_is_untyped (ty_of s3 fr) then check_value_by ck (Some e') s3 else Some ((fr, Some e'), s3)) known"
      proof (rule wp_cond)
        have h: "child_ok (se_types s3) (Some e')" "child_height (Some e') \<le> h"
          using b s(3) e(1) by (simp_all add: becomes_def)
        show "wp (check_value_by ck (Some e') s3) known"
        proof (rule check_value_by_ok [OF ck ok h])
          fix d e'' t s4 assume d: "Some e' = Some d" "valued n s3 d (t, Some e'') s4"
          then have b4: "becomes n s3 e' t e'' s4" by (simp add: valued_def)
          have "has_type s4 e'' t" if z: "nerr s4 = 0" "bound s2" "has_convs s2 e"
          proof -
            have "has_type s3 e' fr" using c z nerr_zero [OF becomes_ok(2) [OF b4] z(1)] by (simp add: checked_def)
            then have "has_convs s3 e'" by (rule has_typeD(5))
            then show ?thesis using d z kept_names(3) [OF k] by (simp add: valued_def)
          qed
          then show "known (t, Some e'') s4"
            using becomes_trans [OF b b4] becomes_ok(2) [OF b4] by (simp add: known_def)
        qed
        show "wp (Some ((fr, Some e'), s3)) known"
          using b c by (auto simp: known_def checked_def)
      qed
      then have "wp (do { ((fr, a), s) \<leftarrow> (if ty_is_untyped (ty_of s3 fr) then check_value_by ck (Some e') s3 else Some ((fr, Some e'), s3));
            if \<not> ty_is_sized (ty_of s tg) \<and> kind s tg \<noteq> TY_POISON
            then bad_at pos [Txt ''cannot cast to '', TyName128 tg] a s
            else do {
              ok \<leftarrow> cast_allowed (se_types s) fr tg;
              if \<not> ok then bad_at pos [Txt ''cannot convert '', TyName128 fr, Txt '' to '', TyName128 tg] a s
              else Some ((tg, a), s) } }) ?Q"
      proof (rule wp_pair [where P = "\<lambda>fr a s. known (fr, a) s", OF wp_mono])
        fix f x s4 assume "known (f, x) s4"
        then obtain e'' where kn: "x = Some e''" "becomes n s2 e f e'' s4" "kept s3 s4"
          "nerr s4 = 0 \<and> bound s2 \<and> has_convs s2 e \<longrightarrow> has_type s4 e'' f" by (auto simp: known_def)
        note ok4 = becomes_ok(1) [OF kn(2)] and v4 = becomes_ok(4) [OF kn(2)] and vt4 = vt [OF kn(3)] and k4 = becomes_ok(2) [OF kn(2)]
        have bad: "wp (bad_at pos ps (Some e'') s4) ?Q" if "list_all (piece_ok s4) ps" for ps
        proof (rule bad_at_ok [OF ok4 that])
          fix s5 assume "after_error n s4 s5"
          note E = after_errorD [OF this]
          show "?Q (poison s5, Some e'') s5"
            by (rule post [OF becomes_later [OF kn(2) E(2,1,4)] E(4)]) (use E(3) in simp)
        qed
        have good: "?Q (tg, Some e'') s4" if g: "ty_is_sized (ty_of s4 tg) \<or> kind s4 tg = TY_POISON" "cast_allowed (se_types s4) f tg = Some True"
        proof (rule post [OF kn(2) vt4])
          assume z: "nerr s4 = 0" "bound s2" "has_convs s2 e"
          then show "tg = tg \<and> proper (se_types s4) tg \<and> ty_is_sized (ty_of s4 tg)
            \<and> (\<exists>ta. has_type s4 e'' ta \<and> cast_allowed (se_types s4) ta tg = Some True)"
            using pt [OF k4 z(1)] g kn(4) by (auto simp: proper_def kind_def)
        qed
        have "\<exists>r. cast_allowed (se_types s4) f tg = Some r"
          using cast_allowed_ends [OF ok4 v4 vt4] .
        then show "wp (if \<not> ty_is_sized (ty_of s4 tg) \<and> kind s4 tg \<noteq> TY_POISON
            then bad_at pos [Txt ''cannot cast to '', TyName128 tg] x s4
            else do {
              ok \<leftarrow> cast_allowed (se_types s4) f tg;
              if \<not> ok then bad_at pos [Txt ''cannot convert '', TyName128 f, Txt '' to '', TyName128 tg] x s4
              else Some ((tg, x), s4) }) ?Q"
          using bad good v4 vt4 by (auto simp: kn(1))
      qed auto
      with False show ?thesis by (auto simp: as)
    qed
  qed
qed

section \<open>Nodes\<close>

lemma noded_leaf:
  assumes "sema_ok n s'" "kept s s'" "valid (se_types s') t" "node_ok (se_types s') u" "nerr s' = 0 \<Longrightarrow> kind s' t \<noteq> TY_POISON \<and> has_node s' u t"
  shows "noded n s u t u s'"
  using assms by (simp add: noded_def)

lemma noded_binary:
  assumes l: "checked n s a (lt, Some a1) s1" and r: "checked n s1 b (rt, Some b1) s2"
    and x: "bin n s2 op a1 b1 (t, a', b') s3" and s: "sema_ok n s" "tree_ok (se_types s) a" "tree_ok (se_types s) b" "op \<in> binary_ops"
  shows "noded n s (EXPR_BINARY op (Some a) (Some b)) t (EXPR_BINARY op a' b') s3"
proof -
  have bl: "becomes n s a lt a1 s1" and br: "becomes n s1 b rt b1 s2" using l r by (simp_all add: checked_def)
  obtain a2 b2 where x': "a' = Some a2" "b' = Some b2" "becomes n s2 a1 t a2 s3" "becomes n s2 b1 t b2 s3"
    "\<And>lt rt. nerr s3 = 0 \<Longrightarrow> has_type s2 a1 lt \<Longrightarrow> has_type s2 b1 rt \<Longrightarrow>
      kind s3 t \<noteq> TY_POISON \<and> has_node s3 (EXPR_BINARY op (Some a2) (Some b2)) t"
    using x by (auto simp: bin_def)
  note k1 = becomes_ok(2) [OF bl] and k2 = becomes_ok(2) [OF br] and k3 = becomes_ok(2) [OF x'(3)]
  have "kind s3 t \<noteq> TY_POISON \<and> has_node s3 (EXPR_BINARY op (Some a2) (Some b2)) t"
    if z: "nerr s3 = 0" "bound s" "has_convs s a" "has_convs s b"
  proof (rule x'(5) [OF z(1)])
    have z2: "nerr s2 = 0" "nerr s1 = 0" using nerr_zero [OF k3 z(1)] nerr_zero [OF k2] by simp_all
    have "has_type s1 a1 lt" using l z z2 by (simp add: checked_def)
    then show "has_type s2 a1 lt" by (rule has_type_kept [OF k2 becomes_ok(1) [OF bl] becomes_ok(1) [OF br]])
    have "has_convs s1 b" by (rule has_convs_kept [OF k1 s(1) becomes_ok(1) [OF bl] z(4)])
    then show "has_type s2 b1 rt" using r z z2 kept_names(3) [OF k1] by (simp add: checked_def)
  qed
  then show ?thesis
    using bl br x'(1-4) kept_trans [OF kept_trans [OF k1 k2] k3] s(4) by (auto simp: noded_def becomes_def has_convs_def)
qed

lemma check_binary_ok:
  assumes ck: "good_checker n h ck" and s: "sema_ok n s" and u: "node_ok (se_types s) (EXPR_BINARY op a b)" "node_height (EXPR_BINARY op a b) \<le> h"
  shows "wp (do { ((_, a), s) \<leftarrow> ck a None s; ((_, b), s) \<leftarrow> ck b None s; ((t, a, b), s) \<leftarrow> check_binary_op op pos a b s;
       Some ((t, EXPR_BINARY op a b), s) }) (\<lambda>(t, u') s'. noded n s (EXPR_BINARY op a b) t u' s')" (is "wp _ ?Q")
proof (rule bind_checker [OF ck s])
  show "child_ok (se_types s) a" "child_height a \<le> h" using u by simp_all
  fix e e' lt s1 assume e: "a = Some e" "tree_ok (se_types s) e" and l: "checked n s e (lt, Some e') s1"
  then have b1: "becomes n s e lt e' s1" by (simp add: checked_def)
  note k1 = becomes_ok(2) [OF b1] and ok1 = becomes_ok(1) [OF b1]
  obtain d where d: "b = Some d" "tree_ok (se_types s) d" using u(1) by (auto dest: child_okD)
  show "wp (do { ((_, b), s) \<leftarrow> ck b None s1; ((t, a, b), s) \<leftarrow> check_binary_op op pos (Some e') b s;
       Some ((t, EXPR_BINARY op a b), s) }) ?Q"
  proof (rule bind_checker [OF ck ok1])
    show "child_ok (se_types s1) b" "child_height b \<le> h" using u kept_tree(2) [OF k1] by simp_all
    fix d1 d' rt s2 assume "b = Some d1" "checked n s1 d1 (rt, Some d') s2"
    then have r: "checked n s1 d (rt, Some d') s2" by (simp add: d(1))
    then have b2: "becomes n s1 d rt d' s2" by (simp add: checked_def)
    have op: "operand s2 e' lt" "operand s2 d' rt"
      using l r becomes_ok(3,4) [OF b1] becomes_ok(3,4) [OF b2] kept_tree(1) [OF becomes_ok(2) [OF b2]] kept_valid [OF becomes_ok(2) [OF b2]]
      by (auto simp: operand_def checked_def)
    have "wp (check_binary_op op pos (Some e') (Some d') s2) (\<lambda>(t, a, b) s3. bin n s2 op e' d' (t, a, b) s3)"
      by (rule wp_mono [OF check_binary_op_ok [OF becomes_ok(1) [OF b2] op]]) (use u(1) in auto)
    then show "wp (do { ((t, a, b), s) \<leftarrow> check_binary_op op pos (Some e') (Some d') s2; Some ((t, EXPR_BINARY op a b), s) }) ?Q"
      by (rule wp_step) (use noded_binary [OF l r _ s e(2) d(2)] u(1) in \<open>auto simp: e(1) d(1)\<close>)

  qed
qed

lemma check_node_ok:
  assumes ck: "good_checker n h ck" and s: "sema_ok n s" and u: "node_ok (se_types s) u" "node_height u \<le> h" "\<And>a. u \<noteq> EXPR_CONV a"
  shows "wp (check_node ck pos sem u s) (\<lambda>(t, u') s'. noded n s u t u' s')" (is "wp _ ?Q")
proof -
  have C: "valid (se_types s) (core s k)" "kind s (core s k) = k" if "core_kind k" for k
    using core_is [OF sema_okD(1) [OF s] that] .
  have leaf: "?Q (core s k, u) s" if "core_kind k" "k \<noteq> TY_POISON" "has_node s u (core s k)" for k
    using noded_leaf [OF s kept_refl C(1) [OF that(1)] u(1)] C(2) [OF that(1)] that by simp
  have lit: "literal_ok (se_types s) v (core s TY_UNTYPED_INT)" for v
    using C(2) [of TY_UNTYPED_INT] by (simp add: core_kind_def literal_ok_def kind_def ty_is_numeric_def ty_is_integer_def)
  note K = C(2) [unfolded core_kind_def kind_def]
  show ?thesis
  proof (cases u)
    case (EXPR_INT v)
    then show ?thesis using leaf [of TY_UNTYPED_INT] lit by (simp add: check_node_def core_kind_def has_node_def n_int)
  next
    case (EXPR_CHAR v)
    then show ?thesis using leaf [of TY_UNTYPED_INT] lit by (simp add: check_node_def core_kind_def has_node_def n_char)
  next
    case (EXPR_FLOAT v)
    then show ?thesis using leaf [of TY_UNTYPED_FLOAT] K by (simp add: check_node_def core_kind_def has_node_def n_float)
  next
    case (EXPR_BOOL b)
    then show ?thesis using leaf [of TY_UNTYPED_BOOL] K by (simp add: check_node_def core_kind_def has_node_def n_bool is_boolish_def)
  next
    case EXPR_NULL
    then show ?thesis using leaf [of TY_NULL] K by (simp add: check_node_def core_kind_def has_node_def n_null)
  next
    case (EXPR_STRING str)
    have u8: "core_kind TY_U8" by (simp add: core_kind_def)
    have "proper (se_types s) (core s TY_U8)" using C(2) [OF u8] by (simp add: proper_def kind_def typed_kind_def)
    then have p: "case make_ptr (core s TY_U8) s of (p, s') \<Rightarrow> sema_ok n s' \<and> kept s s' \<and> nerr s' = nerr s \<and> valid (se_types s') p
        \<and> kind s' p = TY_PTR \<and> t_elem (ty_of s' p) = Some (core s TY_U8)"
      by (intro make_ptr_ok [OF s C(1) [OF u8]])
    have "noded n s u p u s'" if "make_ptr (core s TY_U8) s = (p, s')" for p s'
    proof (rule noded_leaf)
      have p': "sema_ok n s'" "kept s s'" "valid (se_types s') p" "kind s' p = TY_PTR" "t_elem (ty_of s' p) = Some (core s TY_U8)"
        using p that by auto
      then show "sema_ok n s'" "kept s s'" "valid (se_types s') p" by blast+
      show "kind s' p \<noteq> TY_POISON \<and> has_node s' u p"
        using p' kept_valid [OF p'(2) C(1) [OF u8]] kept_kind [OF p'(2) C(1) [OF u8]] C(2) [OF u8]
        by (auto simp: EXPR_STRING has_node_def kind_def ty_of_def intro: n_string)
    qed (simp add: EXPR_STRING)
    then show ?thesis by (auto simp: check_node_def EXPR_STRING Let_def split: prod.split)
  next
    case (EXPR_NAME nm)
    then show ?thesis
      using wp_step [OF check_name_ok [OF s, of pos nm], of "\<lambda>t s. Some ((t, EXPR_NAME nm), s)" ?Q] by (simp add: check_node_def)
  next
    case (EXPR_UNARY op a)
    show ?thesis
      unfolding check_node_def EXPR_UNARY expr_node.case
      by (rule wp_step [OF check_unary_ok [OF ck s]]) (use u in \<open>auto simp: EXPR_UNARY\<close>)
  next
    case (EXPR_BINARY op a b)
    then show ?thesis using check_binary_ok [OF ck s] u by (simp add: check_node_def)
  next
    case (EXPR_CALL f args)
    show ?thesis
      unfolding check_node_def EXPR_CALL expr_node.case
      by (rule wp_step [OF check_call_ok [OF ck s]]) (use u in \<open>auto simp: EXPR_CALL\<close>)
  next
    case (EXPR_INDEX a i)
    show ?thesis
      unfolding check_node_def EXPR_INDEX expr_node.case
      by (rule wp_step [OF check_index_ok [OF ck s]]) (use u in \<open>auto simp: EXPR_INDEX\<close>)
  next
    case (EXPR_FIELD a nm)
    show ?thesis
      unfolding check_node_def EXPR_FIELD expr_node.case
      by (rule wp_step [OF check_field_ok [OF ck s]]) (use u in \<open>auto simp: EXPR_FIELD\<close>)
  next
    case (EXPR_CAST a ty)
    show ?thesis
      unfolding check_node_def EXPR_CAST expr_node.case
      by (rule wp_step [OF check_cast_ok [OF ck s]]) (use u in \<open>auto simp: EXPR_CAST\<close>)
  next
    case (EXPR_SIZEOF ty)
    show ?thesis
      unfolding check_node_def EXPR_SIZEOF expr_node.case
      by (rule wp_step [OF check_sizeof_ok [OF s]]) (use u in \<open>auto simp: EXPR_SIZEOF\<close>)
  next
    case (EXPR_CONV a)
    with u(3) show ?thesis by blast
  qed
qed

section \<open>Expressions\<close>

lemma check_expr_n_good: "good_checker n h (check_expr_n h)"
  unfolding good_checker_def
proof (induction h)
  case 0
  have "\<not> expr_height e \<le> 0" for e by (cases e) simp
  then show ?case by blast
next
  case (Suc h)
  show ?case
  proof (intro allI impI)
    fix s e assume a: "sema_ok n s \<and> tree_ok (se_types s) e \<and> expr_height e \<le> Suc h"
    obtain pos sem u where e: "e = Expr pos sem u" by (cases e)
    show "wp (check_expr_n (Suc h) (Some e) None s) (checked n s e)"
    proof (cases "\<exists>a. u = EXPR_CONV a")
      case True
      then obtain c t where c: "u = EXPR_CONV c" "sem = Some t" "valid (se_types s) t" using a by (auto simp: e)
      have "has_type s e t" if "has_convs s e" using that by (auto simp: has_convs_def e c has_type_def elim: typed.cases)
      moreover have "becomes n s e t e s" using a c by (simp add: becomes_def e)
      ultimately show ?thesis by (simp add: e c check_node_def checked_def)
    next
      case False
      have "wp (do { ((t, u), s) \<leftarrow> check_node (check_expr_n h) pos sem u s; Some ((t, Some (Expr pos (Some t) u)), s) }) (checked n s e)"
      proof (rule wp_pair [where P = "\<lambda>t u' s'. noded n s u t u' s'"])
        show "wp (check_node (check_expr_n h) pos sem u s) (\<lambda>(t, u') s'. noded n s u t u' s')"
          by (rule check_node_ok) (use Suc a False in \<open>auto simp: good_checker_def e\<close>)
        fix t u' s' assume p: "noded n s u t u' s'"
        have "has_type s' (Expr pos (Some t) u') t" if "nerr s' = 0" "bound s" "has_convs s e"
        proof -
          have "convs_node (se_types s) (type_names s) (names s) u"
            using that(3) False by (cases u) (auto simp: has_convs_def e)
          with p that show ?thesis by (auto simp: noded_def has_type_def has_node_def kind_def intro: typed)
        qed
        moreover have "\<nexists>a. u' = EXPR_CONV a"
          using p False by (cases u; cases u') (auto simp: noded_def)
        ultimately show "wp (Some ((t, Some (Expr pos (Some t) u')), s')) (checked n s e)"
          using p False by (cases u; cases u') (auto simp: noded_def checked_def becomes_def e)
      qed
      then show ?thesis by (simp add: e Let_def)
    qed
  qed
qed

lemma check_expr_n_expected:
  "check_expr_n h (Some e) (Some tg) s = do { ((t, slot), s) \<leftarrow> check_expr_n h (Some e) None s; coerce slot tg s }"
  by (cases h; cases e) (simp_all add: Let_def split: bind_split)

text \<open>The result of \<open>check_expr\<close> with an expected type, which is a type a declaration can have.\<close>

definition checked_as :: "nat \<Rightarrow> sema \<Rightarrow> expr \<Rightarrow> tyref option \<Rightarrow> tyref \<times> expr option \<Rightarrow> sema \<Rightarrow> bool" where
  "checked_as n s e expected r s' \<longleftrightarrow> (case r of (t, slot) \<Rightarrow> \<exists>e'. slot = Some e' \<and> becomes n s e t e' s'
     \<and> (nerr s' = 0 \<and> bound s \<and> has_convs s e \<longrightarrow> has_type s' e' t \<and> (expected = None \<or> expected = Some t)))"

definition expectable :: "sema \<Rightarrow> tyref option \<Rightarrow> bool" where
  "expectable s expected \<longleftrightarrow>
     (\<forall>tg. expected = Some tg \<longrightarrow> valid (se_types s) tg \<and> (nerr s = 0 \<longrightarrow> kind s tg \<noteq> TY_POISON))"

lemma check_expr_ok:
  assumes ok: "sema_ok n s" and e: "tree_ok (se_types s) e" and x: "expectable s expected"
  shows "wp (check_expr (Some e) expected s) (checked_as n s e expected)"
proof (cases expected)
  case None
  have "wp (check_expr_n (expr_height e) (Some e) None s) (checked n s e)"
    using check_expr_n_good [of n "expr_height e"] ok e by (auto simp: good_checker_def)
  then show ?thesis
    unfolding check_expr_def child_height.simps None
    by (rule wp_mono) (auto simp: checked_as_def checked_def)
next
  case (Some tg)
  have h: "child_ok (se_types s) (Some e)" "child_height (Some e) \<le> expr_height e" using e by simp_all
  have x': "valid (se_types s) tg" "nerr s = 0 \<longrightarrow> kind s tg \<noteq> TY_POISON" using x Some by (simp_all add: expectable_def)
  show ?thesis
    unfolding check_expr_def child_height.simps Some check_expr_n_expected
  proof (rule bind_checker [OF check_expr_n_good ok h])
    fix d e' t s1 assume "Some e = Some d" "checked n s d (t, Some e') s1"
    then have c: "checked n s e (t, Some e') s1" by simp
    then have b: "becomes n s e t e' s1" and u: "ex_sem e' = Some t" by (simp_all add: checked_def)
    note ok1 = becomes_ok(1) [OF b] and k = becomes_ok(2) [OF b]
    show "wp (coerce (Some e') tg s1) (checked_as n s e (Some tg))"
    proof (rule wp_mono [OF coerce_ok [OF ok1 becomes_ok(3) [OF b] u becomes_ok(4) [OF b] kept_valid [OF k x'(1)]]])
      fix r s2 assume r: "coerced n s1 e' tg r s2"
      then obtain t' e'' where r': "r = (t', Some e'')" "becomes n s1 e' t' e'' s2"
        "nerr s2 = 0 \<and> kind s1 tg \<noteq> TY_POISON \<longrightarrow> t' = tg \<and> (\<forall>fr. has_type s1 e' fr \<longrightarrow> has_type s2 e'' tg)"
        by (auto simp: coerced_def)
      have "has_type s2 e'' t' \<and> t' = tg" if z: "nerr s2 = 0" "bound s" "has_convs s e"
      proof -
        have z1: "nerr s1 = 0" "nerr s = 0" using nerr_zero [OF becomes_ok(2) [OF r'(2)] z(1)] nerr_zero [OF k] by simp_all
        then have "has_type s1 e' t" "kind s1 tg \<noteq> TY_POISON" using c z x' kept_kind [OF k x'(1)] by (simp_all add: checked_def)
        with r'(3) z(1) show ?thesis by blast
      qed
      with becomes_trans [OF b r'(2)] show "checked_as n s e (Some tg) r s2" by (auto simp: checked_as_def r'(1))
    qed
  qed
qed

section \<open>The trees of the source\<close>

text \<open>The trees a program has before sema: every child present, operators and core types of the grammar, no
  conversion.\<close>

fun source_expr :: "expr \<Rightarrow> bool" and source_node :: "expr_node \<Rightarrow> bool" and source_child :: "expr option \<Rightarrow> bool" where
  "source_expr (Expr pos sem u) = source_node u"
| "source_node (EXPR_UNARY op a) = (op \<in> unary_ops \<and> source_child a)"
| "source_node (EXPR_BINARY op a b) = (op \<in> binary_ops \<and> source_child a \<and> source_child b)"
| "source_node (EXPR_CALL f args) = list_all source_child args"
| "source_node (EXPR_INDEX a i) = (source_child a \<and> source_child i)"
| "source_node (EXPR_FIELD a n) = source_child a"
| "source_node (EXPR_CAST a ty) = (source_child a \<and> (case ty of Some ty \<Rightarrow> wf_type ty | None \<Rightarrow> False))"
| "source_node (EXPR_SIZEOF ty) = (case ty of Some ty \<Rightarrow> wf_type ty | None \<Rightarrow> False)"
| "source_node (EXPR_CONV a) = False"
| "source_node u = True"
| "source_child None = False"
| "source_child (Some e) = source_expr e"

lemma source_tree:
  "source_expr e \<Longrightarrow> tree_ok tt e \<and> convs tt T G e"
  "source_node u \<Longrightarrow> node_ok tt u \<and> convs_node tt T G u \<and> (\<forall>a. u \<noteq> EXPR_CONV a)"
  "source_child a \<Longrightarrow> child_ok tt a \<and> convs_child tt T G a"
  by (induction e and u and a rule: source_expr_source_node_source_child.induct) (auto simp: list_all_iff split: expr_node.split)

lemma check_source_ok:
  assumes "sema_ok n s" "source_expr e" "expectable s expected"
  shows "\<exists>t e' s'. check_expr (Some e) expected s = Some ((t, Some e'), s') \<and> sema_ok n s' \<and> kept s s' \<and> strip e' = strip e
    \<and> valid (se_types s') t \<and> tree_ok (se_types s') e'
    \<and> (nerr s' = 0 \<and> bound s \<longrightarrow> has_type s' e' t \<and> (expected = None \<or> expected = Some t))"
proof -
  have "tree_ok (se_types s) e" "has_convs s e" using source_tree(1) [OF assms(2)] by (auto simp: has_convs_def)
  with check_expr_ok [OF assms(1) _ assms(3), of e] show ?thesis
    by (auto simp: wp_def checked_as_def becomes_def split: option.splits)
qed

section \<open>The initial state\<close>

lemma sema_init_ok:
  assumes "structs_wf (sema_init ps)" "n \<le> MAP_ROOM"
  shows "sema_ok n (sema_init ps)" "nerr (sema_init ps) = 0" "bound (sema_init ps)"
proof -
  have h: "ty_at types_init r \<in> set (map core_entry core_layout)" if "r < length (tt_heap types_init)" for r
    using that by (simp add: ty_at_def heap_init)
  have "\<forall>t \<in> set (map core_entry core_layout). t_fields t = [] \<and> \<not> has_elem t"
    by (simp add: core_layout_def core_entry_def ty_zero_def has_elem_def)
  then have f: "t_fields (ty_at types_init r) = [] \<and> \<not> has_elem (ty_at types_init r)" if "valid types_init r" for r
    using h [of r] that by (simp add: valid_def) fastforce
  show "sema_ok n (sema_init ps)"
    using assms f
    by (simp add: sema_ok_def sema_init_def types_ok_init fields_ok_def clean_types_def globals_ok_def globals_init_def nm.ok_empty
        nm.count_empty nm.abs_empty scopes_init_def sc_ok_def)
  show "nerr (sema_init ps) = 0" by (simp add: nerr_def sema_init_def diag_init_def diag_error_count_def)
  show "bound (sema_init ps)"
    by (simp add: bound_def names_def find_name_def sema_init_def scopes_init_def scope_find_def globals_find_value_def globals_init_def
        nm.get_abs nm.ok_empty nm.abs_empty)
qed

section \<open>Properties\<close>

text \<open>\<open>7 + 'a'\<close> with \<open>i32\<close> expected.\<close>

definition sum_example :: expr where
  "sum_example = Expr zero_pos None (EXPR_BINARY (Punct TOK_PLUS) (Some (Expr zero_pos None (EXPR_INT 7)))
     (Some (Expr zero_pos None (EXPR_CHAR 97))))"

lemma sum_example_ok:
  "sema_ok 0 (sema_init [])" "source_expr sum_example" "expectable (sema_init []) (Some (core (sema_init []) TY_I32))"
  "bound (sema_init [])"
proof -
  have "structs_wf (sema_init [])" by (simp add: structs_wf_def struct_fields_def sema_init_def)
  from sema_init_ok [OF this, of 0] show s: "sema_ok 0 (sema_init [])" and "bound (sema_init [])" by simp_all
  show "source_expr sum_example" by (simp add: sum_example_def binary_ops_def arith_ops_def)
  show "expectable (sema_init []) (Some (core (sema_init []) TY_I32))"
    using core_is [OF sema_okD(1) [OF s(1)], of TY_I32] by (simp add: expectable_def core_kind_def)
qed


text \<open>
  C24. \<open>check_expr\<close> returns on every tree the parser can build, in every state the passes can reach: the slot
  still holds a tree, which is the old one but for types and conversions, and the state keeps its invariant with all
  types and symbols it had.
\<close>
theorem check_expr_returns:
  assumes "sema_ok n s" and "source_expr e" and "expectable s expected"
  shows "\<exists>t e' s'. check_expr (Some e) expected s = Some ((t, Some e'), s') \<and> strip e' = strip e
    \<and> sema_ok n s' \<and> kept s s' \<and> valid (se_types s') t"
  using check_source_ok [OF assms] by blast

theorem check_expr_returns_witness:
  "\<exists>t e' s'. check_expr (Some sum_example) (Some (core (sema_init []) TY_I32)) (sema_init []) = Some ((t, Some e'), s')
    \<and> strip e' = strip sum_example"
  using check_expr_returns [OF sum_example_ok(1-3)] by blast



end
