(* ===== verification/Slop_Sema_Body.thy ===== *)
theory Slop_Sema_Body
  imports Slop_Sema_Tree
begin

text \<open>
  Pass 4 on statements and functions. \<open>wt_stmt\<close> says when a checked statement is well typed: it takes the meaning of
  the names in scope to the one after the statement. Checking the statements of a source tree returns, changes
  nothing of them but types and conversions, gives every block its scope back, and what it leaves is well typed when no
  error has been reported.
\<close>

section \<open>The trees of the source\<close>

definition source_opt :: "expr option \<Rightarrow> bool" where
  "source_opt e \<longleftrightarrow> (case e of Some e \<Rightarrow> source_expr e | None \<Rightarrow> True)"

definition compound_ops :: "token_kind set" where
  "compound_ops = {Punct TOK_PLUS_EQ, Punct TOK_MINUS_EQ, Punct TOK_STAR_EQ, Punct TOK_SLASH_EQ, Punct TOK_PERCENT_EQ,
     Punct TOK_AMP_EQ, Punct TOK_PIPE_EQ, Punct TOK_CARET_EQ, Punct TOK_SHL_EQ, Punct TOK_SHR_EQ}"

text \<open>A label is a wildcard, a name or a literal.\<close>

fun label_node :: "expr_node \<Rightarrow> bool" where
  "label_node (EXPR_NAME n) = True"
| "label_node (EXPR_INT v) = True"
| "label_node (EXPR_CHAR v) = True"
| "label_node u = False"

fun source_label :: "match_label \<Rightarrow> bool" where
  "source_label (MatchLabel pos wild v) = (wild \<or> (case v of Some e \<Rightarrow> label_node (ex_u e) | None \<Rightarrow> False))"

fun source_stmt :: "stmt \<Rightarrow> bool" and source_block :: "block \<Rightarrow> bool" and source_arm :: "match_arm \<Rightarrow> bool" where
  "source_stmt (STMT_BLOCK pos b) = source_block b"
| "source_stmt (STMT_VAR pos m t n i) = (wf_type t \<and> source_opt i)"
| "source_stmt (STMT_IF pos c b e) =
     (source_child c \<and> source_block b \<and> (case e of Some s \<Rightarrow> source_stmt s | None \<Rightarrow> True))"
| "source_stmt (STMT_WHILE pos c b) = (source_child c \<and> source_block b)"
| "source_stmt (STMT_MATCH pos e arms) = (source_child e \<and> list_all source_arm arms)"
| "source_stmt (STMT_RETURN pos e) = source_opt e"
| "source_stmt (STMT_BREAK pos) = True"
| "source_stmt (STMT_CONTINUE pos) = True"
| "source_stmt (STMT_EXPR pos e) = source_expr e"
| "source_stmt (STMT_ASSIGN pos e op v) = (source_expr e \<and> source_child v \<and> (op = Punct TOK_EQ \<or> op \<in> compound_ops))"
| "source_stmt (STMT_EMPTY pos) = True"
| "source_block (Block ss pos) = list_all source_stmt ss"
| "source_arm (MatchArm pos ls s) = (list_all source_label ls \<and> source_stmt s)"

text \<open>The statement as the source has it.\<close>

fun strip_label :: "match_label \<Rightarrow> match_label" where
  "strip_label (MatchLabel pos wild v) = MatchLabel pos wild (strip_child v)"

fun strip_stmt :: "stmt \<Rightarrow> stmt" and strip_block :: "block \<Rightarrow> block" and strip_arm :: "match_arm \<Rightarrow> match_arm" where
  "strip_stmt (STMT_BLOCK pos b) = STMT_BLOCK pos (strip_block b)"
| "strip_stmt (STMT_VAR pos m t n i) = STMT_VAR pos m t n (strip_child i)"
| "strip_stmt (STMT_IF pos c b e) = STMT_IF pos (strip_child c) (strip_block b) (map_option strip_stmt e)"
| "strip_stmt (STMT_WHILE pos c b) = STMT_WHILE pos (strip_child c) (strip_block b)"
| "strip_stmt (STMT_MATCH pos e arms) = STMT_MATCH pos (strip_child e) (map strip_arm arms)"
| "strip_stmt (STMT_RETURN pos e) = STMT_RETURN pos (strip_child e)"
| "strip_stmt (STMT_EXPR pos e) = STMT_EXPR pos (strip e)"
| "strip_stmt (STMT_ASSIGN pos e op v) = STMT_ASSIGN pos (strip e) op (strip_child v)"
| "strip_stmt s = s"
| "strip_block (Block ss pos) = Block (map strip_stmt ss) pos"
| "strip_arm (MatchArm pos ls s) = MatchArm pos (map strip_label ls) (strip_stmt s)"

section \<open>Well-typed statements\<close>

definition condition_typed :: "type_table \<Rightarrow> (string \<Rightarrow> tyref option) \<Rightarrow> (string \<Rightarrow> sym option) \<Rightarrow> expr option \<Rightarrow> bool" where
  "condition_typed tt T G c \<longleftrightarrow> (\<exists>e t. c = Some e \<and> typed tt T G e t \<and> ty_is_bool (ty_at tt t))"

definition local_sym :: "string \<Rightarrow> srcpos \<Rightarrow> tyref \<Rightarrow> bool \<Rightarrow> sym" where
  "local_sym name pos t is_mut = (sym_zero SYM_LOCAL name pos)\<lparr>sy_type := Some t, sy_is_mut := is_mut\<rparr>"

text \<open>The variable at the root of a place, unless the path goes through a pointer.\<close>

definition is_pointer :: "type_table \<Rightarrow> expr option \<Rightarrow> bool" where
  "is_pointer tt e = (case e of
     Some e \<Rightarrow> (case ex_sem e of Some t \<Rightarrow> t_kind (ty_at tt t) = TY_PTR | None \<Rightarrow> False)
   | None \<Rightarrow> False)"

fun root_name :: "type_table \<Rightarrow> expr option \<Rightarrow> string option" where
  "root_name tt (Some (Expr pos sem (EXPR_NAME n))) = Some n"
| "root_name tt (Some (Expr pos sem (EXPR_INDEX b i))) = (if is_pointer tt b then None else root_name tt b)"
| "root_name tt (Some (Expr pos sem (EXPR_FIELD b n))) = (if is_pointer tt b then None else root_name tt b)"
| "root_name tt e = None"

definition writable :: "type_table \<Rightarrow> (string \<Rightarrow> sym option) \<Rightarrow> expr \<Rightarrow> bool" where
  "writable tt G e \<longleftrightarrow> is_lvalue (Some e) \<and> (\<forall>n y. root_name tt (Some e) = Some n \<and> G n = Some y \<longrightarrow>
     sy_kind y \<notin> {SYM_FN, SYM_ENUM_MEMBER} \<and> sy_is_mut y)"

text \<open>A place that may be assigned to, and is no array.\<close>

definition target_typed :: "type_table \<Rightarrow> (string \<Rightarrow> tyref option) \<Rightarrow> (string \<Rightarrow> sym option) \<Rightarrow> expr \<Rightarrow> tyref \<Rightarrow> bool" where
  "target_typed tt T G e t \<longleftrightarrow> typed tt T G e t \<and> typed_kind (t_kind (ty_at tt t)) \<and> t_kind (ty_at tt t) \<noteq> TY_ARRAY \<and> writable tt G e"

text \<open>A label for a scrutinee of type \<open>t\<close>: an enum member that converts to it, or a literal of that type; the value of a
  literal is bounded by an integer type, and not by an enum.\<close>

fun label_typed :: "type_table \<Rightarrow> (string \<Rightarrow> sym option) \<Rightarrow> tyref \<Rightarrow> match_label \<Rightarrow> bool" where
  "label_typed tt V t (MatchLabel pos wild v) \<longleftrightarrow> wild \<or> (case v of None \<Rightarrow> False | Some e \<Rightarrow> (case ex_u e of
       EXPR_NAME n \<Rightarrow> (\<exists>y u. V n = Some y \<and> sy_kind y = SYM_ENUM_MEMBER \<and> sy_type y = Some u \<and> ex_sem e = Some u \<and> assigns tt u t)
     | EXPR_INT x \<Rightarrow> ex_sem e = Some t \<and> (ty_is_integer (ty_at tt t) \<longrightarrow> unat x \<le> int_max (ty_at tt t))
     | EXPR_CHAR x \<Rightarrow> ex_sem e = Some t \<and> (ty_is_integer (ty_at tt t) \<longrightarrow> unat x \<le> int_max (ty_at tt t))
     | _ \<Rightarrow> False))"

text \<open>
  The table, the type names and the global names are fixed, as is the function's result type \<open>R\<close>; \<open>lp\<close> says whether
  a loop is open. The body of a match arm is a statement of the scope the match stands in, so a variable an arm declares
  is visible after it.
\<close>

inductive wt_stmt :: "type_table \<Rightarrow> (string \<Rightarrow> tyref option) \<Rightarrow> (string \<Rightarrow> sym option) \<Rightarrow> tyref \<Rightarrow> bool \<Rightarrow> (string \<Rightarrow> sym option)
    \<Rightarrow> stmt \<Rightarrow> (string \<Rightarrow> sym option) \<Rightarrow> bool"
  and wt_block :: "type_table \<Rightarrow> (string \<Rightarrow> tyref option) \<Rightarrow> (string \<Rightarrow> sym option) \<Rightarrow> tyref \<Rightarrow> bool \<Rightarrow> (string \<Rightarrow> sym option)
    \<Rightarrow> block \<Rightarrow> bool"
  and wt_stmts :: "type_table \<Rightarrow> (string \<Rightarrow> tyref option) \<Rightarrow> (string \<Rightarrow> sym option) \<Rightarrow> tyref \<Rightarrow> bool \<Rightarrow> (string \<Rightarrow> sym option)
    \<Rightarrow> stmt list \<Rightarrow> (string \<Rightarrow> sym option) \<Rightarrow> bool"
  and wt_arms :: "type_table \<Rightarrow> (string \<Rightarrow> tyref option) \<Rightarrow> (string \<Rightarrow> sym option) \<Rightarrow> tyref \<Rightarrow> bool \<Rightarrow> tyref \<Rightarrow> (string \<Rightarrow> sym option)
    \<Rightarrow> match_arm list \<Rightarrow> (string \<Rightarrow> sym option) \<Rightarrow> bool"
  for tt T V R where
  wt_block: "wt_block tt T V R lp G b \<Longrightarrow> wt_stmt tt T V R lp G (STMT_BLOCK pos b) G"
| wt_var: "denotes tt T a t \<Longrightarrow> ty_is_sized (ty_at tt t) \<Longrightarrow> proper tt t \<Longrightarrow> valid tt t \<Longrightarrow> \<forall>e. i = Some e \<longrightarrow> typed tt T G e t
    \<Longrightarrow> i = None \<longrightarrow> m \<Longrightarrow> wt_stmt tt T V R lp G (STMT_VAR pos m a n i) (G(n \<mapsto> local_sym n pos t m))"
| wt_if: "condition_typed tt T G c \<Longrightarrow> wt_block tt T V R lp G b \<Longrightarrow> wt_stmt tt T V R lp G (STMT_IF pos c b None) G"
| wt_if_else: "condition_typed tt T G c \<Longrightarrow> wt_block tt T V R lp G b \<Longrightarrow> wt_stmt tt T V R lp G e G'
    \<Longrightarrow> wt_stmt tt T V R lp G (STMT_IF pos c b (Some e)) G'"
| wt_while: "condition_typed tt T G c \<Longrightarrow> wt_block tt T V R True G b \<Longrightarrow> wt_stmt tt T V R lp G (STMT_WHILE pos c b) G"
| wt_match: "typed tt T G e t \<Longrightarrow> ty_is_integer (ty_at tt t) \<or> t_kind (ty_at tt t) = TY_ENUM \<Longrightarrow> wt_arms tt T V R lp t G arms G'
    \<Longrightarrow> wt_stmt tt T V R lp G (STMT_MATCH pos (Some e) arms) G'"
| wt_return: "typed tt T G v R \<Longrightarrow> t_kind (ty_at tt R) \<noteq> TY_VOID \<Longrightarrow> wt_stmt tt T V R lp G (STMT_RETURN pos (Some v)) G"
| wt_return_void: "t_kind (ty_at tt R) = TY_VOID \<Longrightarrow> wt_stmt tt T V R lp G (STMT_RETURN pos None) G"
| wt_break: "lp \<Longrightarrow> wt_stmt tt T V R lp G (STMT_BREAK pos) G"
| wt_continue: "lp \<Longrightarrow> wt_stmt tt T V R lp G (STMT_CONTINUE pos) G"
| wt_expr: "typed tt T G e t \<Longrightarrow> typed_kind (t_kind (ty_at tt t)) \<Longrightarrow> wt_stmt tt T V R lp G (STMT_EXPR pos e) G"
| wt_assign: "target_typed tt T G e t \<Longrightarrow> typed tt T G v t \<Longrightarrow> wt_stmt tt T V R lp G (STMT_ASSIGN pos e (Punct TOK_EQ) (Some v)) G"
| wt_compound: "op \<in> compound_ops \<Longrightarrow> target_typed tt T G e0 t \<Longrightarrow> strip e = strip e0
    \<Longrightarrow> node tt T G (EXPR_BINARY (assign_binop op) (Some e) (Some v)) r \<Longrightarrow> valid tt r \<Longrightarrow> assigns tt r t
    \<Longrightarrow> wt_stmt tt T V R lp G (STMT_ASSIGN pos e op (Some v)) G"
| wt_empty: "wt_stmt tt T V R lp G (STMT_EMPTY pos) G"
| wt_braces: "wt_stmts tt T V R lp G ss G' \<Longrightarrow> wt_block tt T V R lp G (Block ss pos)"
| wt_no_stmt: "wt_stmts tt T V R lp G [] G"
| wt_more: "wt_stmt tt T V R lp G s G' \<Longrightarrow> wt_stmts tt T V R lp G' ss G'' \<Longrightarrow> wt_stmts tt T V R lp G (s # ss) G''"
| wt_no_arm: "wt_arms tt T V R lp t G [] G"
| wt_arm: "list_all (label_typed tt V t) ls \<Longrightarrow> wt_stmt tt T V R lp G s G' \<Longrightarrow> wt_arms tt T V R lp t G' arms G''
    \<Longrightarrow> wt_arms tt T V R lp t G (MatchArm pos ls s # arms) G''"

section \<open>The judgement and growth\<close>

lemma is_pointer_grow:
  assumes g: "types_grow tt tt'" and t: "typed tt T G e t"
  shows "is_pointer tt' (Some e) = is_pointer tt (Some e)"
  using types_grow_keeps(1) [OF g typedD(2) [OF t]] typedD(1) [OF t] by (simp add: is_pointer_def)

lemma root_name_grow:
  assumes g: "types_grow tt tt'"
  shows "typed tt T G e t \<Longrightarrow> root_name tt' (Some e) = root_name tt (Some e)"
proof (induction "size e" arbitrary: e t rule: less_induct)
  case less
  obtain pos sem u where e: "e = Expr pos sem u" by (cases e)
  note n = typedD(4) [OF less.prems]
  show ?case
  proof (cases u)
    case (EXPR_INDEX b i)
    then obtain a ta where a: "b = Some a" "typed tt T G a ta" using n by (auto simp: e node_simps)
    have "root_name tt' (Some a) = root_name tt (Some a)" using less.hyps [OF _ a(2)] by (simp add: e EXPR_INDEX a(1))
    then show ?thesis using is_pointer_grow [OF g a(2)] by (simp add: e EXPR_INDEX a(1))
  next
    case (EXPR_FIELD b nm)
    then obtain a ta where a: "b = Some a" "typed tt T G a ta" using n by (auto simp: e node_simps)
    have "root_name tt' (Some a) = root_name tt (Some a)" using less.hyps [OF _ a(2)] by (simp add: e EXPR_FIELD a(1))
    then show ?thesis using is_pointer_grow [OF g a(2)] by (simp add: e EXPR_FIELD a(1))
  qed (simp_all add: e)
qed

lemma label_typed_grow:
  assumes g: "types_grow tt tt'" and ok: "types_ok tt" and t: "valid tt t" "t_kind (ty_at tt t) \<noteq> TY_STRUCT"
    and V: "\<And>n y u. V n = Some y \<Longrightarrow> sy_type y = Some u \<Longrightarrow> valid tt u"
    and l: "label_typed tt V t l"
  shows "label_typed tt' V t l"
proof -
  have at: "ty_at tt' t = ty_at tt t" by (rule types_grow_at [OF g t(1)]) (use t(2) in simp)
  have "assigns tt' u t = assigns tt u t" if "V n = Some y" "sy_type y = Some u" for n y u
    by (rule assigns_grow [OF g ok V [OF that] t(1)])
  then show ?thesis using l by (cases l) (auto simp: at split: option.splits expr_node.splits)
qed

lemma target_grow:
  assumes g: "types_grow tt tt'" and ok: "types_ok tt" "types_ok tt'" and t: "target_typed tt T G e t"
  shows "target_typed tt' T G e t"
proof -
  have e: "typed tt T G e t" using t by (simp add: target_typed_def)
  show ?thesis
    using t typed_grow(1) [OF g ok e] types_grow_keeps(1) [OF g typedD(2) [OF e]] root_name_grow [OF g e]
    unfolding target_typed_def writable_def by auto
qed

lemma condition_grow:
  assumes g: "types_grow tt tt'" and ok: "types_ok tt" "types_ok tt'" and c: "condition_typed tt T G c"
  shows "condition_typed tt' T G c"
proof -
  obtain e t where e: "c = Some e" "typed tt T G e t" "ty_is_bool (ty_at tt t)" using c by (auto simp: condition_typed_def)
  have "ty_is_bool (ty_at tt' t)" using e(3) kind_preds(4) [OF types_grow_keeps(1) [OF g typedD(2) [OF e(2)]]] by simp
  then show ?thesis using typed_grow(1) [OF g ok e(2)] e(1) by (auto simp: condition_typed_def)
qed

lemma wt_grow:
  assumes g: "types_grow tt tt'" and ok: "types_ok tt" "types_ok tt'" and R: "valid tt R"
    and V: "\<And>n y u. V n = Some y \<Longrightarrow> sy_type y = Some u \<Longrightarrow> valid tt u"
  shows "wt_stmt tt T V R lp G s G' \<Longrightarrow> wt_stmt tt' T V R lp G s G'"
    and "wt_block tt T V R lp G b \<Longrightarrow> wt_block tt' T V R lp G b"
    and "wt_stmts tt T V R lp G ss G' \<Longrightarrow> wt_stmts tt' T V R lp G ss G'"
    and "wt_arms tt T V R lp t G arms G' \<Longrightarrow> valid tt t \<Longrightarrow> t_kind (ty_at tt t) \<noteq> TY_STRUCT \<Longrightarrow> wt_arms tt' T V R lp t G arms G'"
proof (induction rule: wt_stmt_wt_block_wt_stmts_wt_arms.inducts)
  note W = wt_stmt_wt_block_wt_stmts_wt_arms.intros and K = types_grow_keeps(1) [OF g] and D = typedD(2)
    and TG = typed_grow(1) [OF g ok] and P = kind_preds [OF types_grow_keeps(1) [OF g]]
  {
    case (wt_block lp G b pos)
    then show ?case by (intro W)
  next
    case (wt_var a t G i m lp pos n)
    show ?case
    proof (rule W(2))
      show "denotes tt' T a t" by (rule denotes_grow [OF wt_var(1) ok g])
      show "ty_is_sized (ty_at tt' t)" by (rule sized_same [OF types_grow_same [OF g wt_var(4)] wt_var(2)])
      show "proper tt' t" using wt_var(3) K [OF wt_var(4)] by (simp add: proper_def)
      show "valid tt' t" by (rule types_grow_valid [OF g wt_var(4)])
    qed (use wt_var TG in auto)
  next
    case (wt_if G c lp b pos)
    then show ?case using condition_grow [OF g ok] by (intro W) auto
  next
    case (wt_if_else G c lp b e G' pos)
    then show ?case using condition_grow [OF g ok] by (intro W) auto
  next
    case (wt_while G c b lp pos)
    then show ?case using condition_grow [OF g ok] by (intro W) auto
  next
    case (wt_match G e t lp arms G' pos)
    have v: "valid tt t" using D [OF wt_match(1)] .
    have "t_kind (ty_at tt t) \<noteq> TY_STRUCT" using wt_match(2) by (auto simp: ty_is_integer_def)
    with wt_match v TG show ?case by (intro W(6) [of _ _ _ e t]) (auto simp: P(1) [OF v] K [OF v])
  next
    case (wt_return G v lp pos)
    then show ?case using TG K [OF R] by (intro W) auto
  next
    case (wt_return_void lp G pos)
    then show ?case using K [OF R] by (intro W) auto
  next
    case (wt_expr G e t lp pos)
    then show ?case using TG K [OF D [OF wt_expr(1)]] by (intro W(11) [of _ _ _ e t]) auto
  next
    case (wt_assign G e t v lp pos)
    then show ?case using TG target_grow [OF g ok] by (intro W(12) [of _ _ _ e t]) auto
  next
    case (wt_compound op G e0 t e v r lp pos)
    have v: "valid tt t" using wt_compound D by (auto simp: target_typed_def)
    show ?case
      using wt_compound(1,2,6) typed_grow(2) [OF g ok wt_compound(4,5)] types_grow_valid [OF g wt_compound(5)]
        target_grow [OF g ok wt_compound(3)] assigns_grow [OF g ok(1) wt_compound(5) v]
      by (intro W(13) [of _ _ _ _ e0 t]) auto
  next
    case (wt_arm t ls lp G s G' arms G'' pos)
    then show ?case using label_typed_grow [OF g ok(1) _ _ V] by (intro W) (auto simp: list_all_iff)
  }
qed (intro wt_stmt_wt_block_wt_stmts_wt_arms.intros; assumption)+

section \<open>What statements keep of the state\<close>

lemma scope_find_eq: "scope_find h sc n = find (\<lambda>s. sy_name (h ! s) = n) (rev (sc_syms sc))"
  by (simp add: scope_find_def down_find segment_def)

definition moved :: "sema \<Rightarrow> sema \<Rightarrow> bool" where
  "moved s s' \<longleftrightarrow> types_grow (se_types s) (se_types s') \<and> nerr s \<le> nerr s' \<and> se_globals s' = se_globals s
     \<and> se_cur_fn s' = se_cur_fn s \<and> se_loop_depth s' = se_loop_depth s \<and> se_programs s' = se_programs s
     \<and> (\<exists>ys. se_syms s' = se_syms s @ ys) \<and> (\<exists>vs. sc_syms (se_scopes s') = sc_syms (se_scopes s) @ vs)
     \<and> sc_marks (se_scopes s') = sc_marks (se_scopes s)"

lemma kept_moved: "kept s s' \<Longrightarrow> moved s s'"
  using kept_same [of s s'] keptD [of s s'] by (simp add: moved_def)

lemma moved_trans: "moved s s' \<Longrightarrow> moved s' s'' \<Longrightarrow> moved s s''"
  unfolding moved_def using types_grow_trans by (auto intro: le_trans)

lemma moved_refl [simp]: "moved s s"
  by (simp add: moved_def)

definition global_values :: "sema \<Rightarrow> string \<Rightarrow> sym option" where
  "global_values s n = map_option (sym_at s) (map_abs (gl_values (se_globals s)) n)"

lemma names_eq:
  "sema_ok n s \<Longrightarrow> names s x = (case find (\<lambda>r. sy_name (sym_at s r) = x) (rev (sc_syms (se_scopes s))) of
     Some r \<Rightarrow> Some (sym_at s r) | None \<Rightarrow> global_values s x)"
  using sema_okD(3) [of n s]
  by (auto simp: names_def find_name_def scope_find_eq sym_at_def global_values_def globals_find_value_def globals_ok_def nm.get_abs split: option.splits)

lemma moved_sym: "moved s s' \<Longrightarrow> y < length (se_syms s) \<Longrightarrow> sym_at s' y = sym_at s y"
  by (auto simp: moved_def sym_at_def nth_append)

lemma find_same:
  assumes "\<And>x. x \<in> set xs \<Longrightarrow> P x = Q x"
  shows "find P xs = find Q xs"
  using assms by (induction xs) auto

lemma moved_values: "sema_ok n s \<Longrightarrow> moved s s' \<Longrightarrow> global_values s' = global_values s"
proof (rule ext)
  fix x assume a: "sema_ok n s" "moved s s'"
  then have "map_abs (gl_values (se_globals s')) x = map_abs (gl_values (se_globals s)) x" by (simp add: moved_def)
  then show "global_values s' x = global_values s x"
    using moved_sym [OF a(2) sema_okD(5) [OF a(1)]] by (cases "map_abs (gl_values (se_globals s)) x") (simp_all add: global_values_def)
qed

lemma moved_names:
  assumes ok: "sema_ok n s" "sema_ok n' s'" and m: "moved s s'" and sc: "sc_syms (se_scopes s') = sc_syms (se_scopes s)"
  shows "names s' = names s"
proof (rule ext)
  fix x
  let ?f = "\<lambda>s. find (\<lambda>r. sy_name (sym_at s r) = x) (rev (sc_syms (se_scopes s)))"
  have "sym_at s' r = sym_at s r" if "r \<in> set (sc_syms (se_scopes s))" for r
    by (rule moved_sym [OF m sema_okD(7) [OF ok(1) that]])
  then have f: "?f s' = ?f s" unfolding sc by (intro find_same) simp
  have "sym_at s' r = sym_at s r" if "?f s = Some r" for r
    using find_SomeD [OF that] moved_sym [OF m sema_okD(7) [OF ok(1)]] by simp
  then show "names s' x = names s x"
    unfolding names_eq [OF ok(1)] names_eq [OF ok(2)] f moved_values [OF ok(1) m] by (simp split: option.split)
qed

lemma moved_type_names: "moved s s' \<Longrightarrow> type_names s' = type_names s"
  by (simp add: moved_def type_names_def)

text \<open>Pass 4 works on a function whose type is known, and every name it can see has a type.\<close>

definition body_ready :: "nat \<Rightarrow> sema \<Rightarrow> bool" where
  "body_ready n s \<longleftrightarrow> sema_ok n s \<and> bound s \<and> (\<exists>y t. se_cur_fn s = Some y \<and> sy_type (sym_at s y) = Some t)"

lemma moved_return:
  assumes "body_ready n s" "moved s s'"
  shows "return_type s' = return_type s" "(\<exists>y t. se_cur_fn s' = Some y \<and> sy_type (sym_at s' y) = Some t)"
proof -
  obtain y t where y: "se_cur_fn s = Some y" "sy_type (sym_at s y) = Some t" using assms(1) by (auto simp: body_ready_def)
  have "sym_at s' y = sym_at s y" using moved_sym [OF assms(2) sema_okD(8)] y assms(1) by (auto simp: body_ready_def)
  moreover have "se_cur_fn s' = se_cur_fn s" using assms(2) by (simp add: moved_def)
  ultimately show "return_type s' = return_type s" "(\<exists>y t. se_cur_fn s' = Some y \<and> sy_type (sym_at s' y) = Some t)"
    using y by (simp_all add: return_type_def)
qed

lemma ready_kept:
  assumes "body_ready n s" "kept s s'" "sema_ok n s'"
  shows "body_ready n s'"
  using assms moved_return(2) [OF assms(1) kept_moved [OF assms(2)]] kept_names(3) [OF assms(2)] by (simp add: body_ready_def)

lemma return_type_ok:
  assumes "body_ready n s"
  shows "valid (se_types s) (return_type s)" "nerr s = 0 \<Longrightarrow> kind s (return_type s) \<noteq> TY_POISON"
proof -
  obtain y t where y: "se_cur_fn s = Some y" "sy_type (sym_at s y) = Some t" and ok: "sema_ok n s"
    using assms by (auto simp: body_ready_def)
  have l: "y < length (se_syms s)" by (rule sema_okD(8) [OF ok y(1)])
  have r: "return_type s = t" using y by (simp add: return_type_def)
  show "valid (se_types s) (return_type s)" using sema_okD(9) [OF ok l] y(2) r by (simp add: sym_ok_def)
  show "kind s (return_type s) \<noteq> TY_POISON" if "nerr s = 0"
  proof -
    have "clean_sym (se_types s) (sym_at s y)" using ok that l by (simp add: sema_ok_def sym_at_def)
    then show ?thesis using y(2) r by (simp add: clean_sym_def proper_def kind_def)
  qed
qed

section \<open>Scopes\<close>

lemma sema_ok_scopes:
  assumes "sema_ok n s" "sc_ok sc" "set (sc_syms sc) \<subseteq> {..<length (se_syms s)}"
  shows "sema_ok n (s\<lparr>se_scopes := sc\<rparr>)"
  using assms by (auto simp: sema_ok_def kind_def nerr_def)

lemma push_ok:
  assumes "body_ready n s"
  shows "body_ready n (s\<lparr>se_scopes := scope_push (se_scopes s)\<rparr>)"
    and "names (s\<lparr>se_scopes := scope_push (se_scopes s)\<rparr>) = names s"
proof -
  let ?s = "s\<lparr>se_scopes := scope_push (se_scopes s)\<rparr>"
  have ok: "sema_ok n s" and b: "bound s" using assms by (simp_all add: body_ready_def)
  have "sc_ok (scope_push (se_scopes s))" using sc_ok_step [OF sema_okD(6) [OF ok], of Push] by simp
  moreover have "sc_syms (scope_push (se_scopes s)) = sc_syms (se_scopes s)" by (simp add: scope_push_def)
  ultimately have ok': "sema_ok n ?s" using sema_okD(7) [OF ok] by (intro sema_ok_scopes [OF ok]) auto
  have at: "sym_at ?s = sym_at s" by (simp add: fun_eq_iff sym_at_def)
  show n: "names ?s = names s"
  proof (rule ext)
    fix x
    show "names ?s x = names s x"
      unfolding names_eq [OF ok] names_eq [OF ok'] global_values_def at by (simp add: scope_push_def cong: option.case_cong)
  qed
  then show "body_ready n ?s" using ok' b assms by (simp add: body_ready_def bound_def sym_at_def)
qed

lemma pop_ok:
  assumes r: "body_ready n s" and m: "moved (s\<lparr>se_scopes := scope_push (se_scopes s)\<rparr>) s'" and r': "body_ready n s'"
  shows "body_ready n (s'\<lparr>se_scopes := scope_pop (se_scopes s')\<rparr>)" "moved s (s'\<lparr>se_scopes := scope_pop (se_scopes s')\<rparr>)"
    "names (s'\<lparr>se_scopes := scope_pop (se_scopes s')\<rparr>) = names s"
proof -
  let ?p = "s'\<lparr>se_scopes := scope_pop (se_scopes s')\<rparr>"
  obtain vs where v: "sc_syms (se_scopes s') = sc_syms (se_scopes s) @ vs"
    "sc_marks (se_scopes s') = sc_marks (se_scopes s) @ [length (sc_syms (se_scopes s))]"
    using m by (auto simp: moved_def scope_push_def)
  have pop: "scope_pop (se_scopes s') = se_scopes s"
    using v by (cases "se_scopes s"; cases "se_scopes s'") (simp add: scope_pop_def current_mark_def)
  have ok: "sema_ok n s" "sema_ok n s'" and b: "bound s" using r r' by (simp_all add: body_ready_def)
  obtain ys where ys: "se_syms s' = se_syms s @ ys" using m by (auto simp: moved_def)
  have ok': "sema_ok n ?p"
    unfolding pop using sema_okD(6,7) [OF ok(1)] ys by (intro sema_ok_scopes [OF ok(2)]) fastforce+
  show mv: "moved s ?p" using m unfolding pop by (simp add: moved_def nerr_def)
  show n: "names ?p = names s" by (rule moved_names [OF ok(1) ok' mv]) (simp add: pop)
  then have "bound ?p" using b by (simp add: bound_def)
  then show "body_ready n ?p" using ok' moved_return(2) [OF r mv] by (simp add: body_ready_def)
qed

text \<open>A local variable or parameter is declared.\<close>

definition declare_sym :: "sym \<Rightarrow> sema \<Rightarrow> sema" where
  "declare_sym y s = s\<lparr>se_syms := se_syms s @ [y], se_scopes := scope_declare (se_scopes s) (length (se_syms s))\<rparr>"

lemma declare_ok:
  assumes r: "body_ready n s" and y: "sy_type y = Some t" "valid (se_types s) t" "nerr s = 0 \<Longrightarrow> proper (se_types s) t"
    "sy_params y = []" 
  shows "body_ready n (declare_sym y s)" "moved s (declare_sym y s)" "names (declare_sym y s) = (names s)(sy_name y \<mapsto> y)"
proof -
  let ?d = "declare_sym y s"
  have ok: "sema_ok n s" and b: "bound s" using r by (simp_all add: body_ready_def)
  have "sc_ok (scope_declare (se_scopes s) (length (se_syms s)))"
    using sc_ok_step [OF sema_okD(6) [OF ok], of "Declare (length (se_syms s))"] by simp
  moreover have "sym_ok (se_types s) y" "nerr s = 0 \<Longrightarrow> clean_sym (se_types s) y" using y by (simp_all add: sym_ok_def clean_sym_def)
  moreover have "struct_fields ?d = struct_fields s" by (simp add: fun_eq_iff struct_fields_def declare_sym_def)
  moreover have "nerr ?d = nerr s" by (simp add: nerr_def declare_sym_def)
  ultimately have ok': "sema_ok n ?d"
    using ok by (auto simp: sema_ok_def declare_sym_def kind_def scope_declare_def structs_wf_def less_Suc_eq)
  show mv: "moved s ?d" by (simp add: moved_def declare_sym_def scope_declare_def nerr_def)
  have old: "sym_at ?d r = sym_at s r" if "r < length (se_syms s)" for r by (rule moved_sym [OF mv that])
  have new: "sym_at ?d (length (se_syms s)) = y" by (simp add: sym_at_def declare_sym_def)
  show n: "names ?d = (names s)(sy_name y \<mapsto> y)"
  proof (rule ext)
    fix x
    let ?f = "\<lambda>s. find (\<lambda>r. sy_name (sym_at s r) = x) (rev (sc_syms (se_scopes s)))"
    have f: "find (\<lambda>r. sy_name (sym_at ?d r) = x) (rev (sc_syms (se_scopes s))) = ?f s"
      by (rule find_same) (use old sema_okD(7) [OF ok] in simp)
    have sc: "rev (sc_syms (se_scopes ?d)) = length (se_syms s) # rev (sc_syms (se_scopes s))"
      by (simp add: declare_sym_def scope_declare_def)
    have "sym_at ?d r = sym_at s r" if "?f s = Some r" for r
      using find_SomeD [OF that] old [OF sema_okD(7) [OF ok]] by simp
    then show "names ?d x = ((names s)(sy_name y \<mapsto> y)) x"
      unfolding names_eq [OF ok] names_eq [OF ok'] sc moved_values [OF ok mv]
      by (simp add: new f split: option.split)
  qed
  have "bound ?d" using b y(1) by (auto simp: bound_def n)
  then show "body_ready n ?d" using ok' moved_return(2) [OF r mv] by (simp add: body_ready_def)
qed

end
