(* ===== verification/Slop_Sema_Stmt_Sound.thy ===== *)
theory Slop_Sema_Stmt_Sound
  imports Slop_Sema_Body
begin

text \<open>
  Checking statements: every function of pass 4 returns on source trees and keeps the state as \<open>moved\<close> says; a statement
  it accepts satisfies \<open>wt_stmt\<close>.
\<close>

section \<open>Expressions of a statement\<close>

lemma check_expr_good: "good_checker n h check_expr"
  unfolding good_checker_def
proof (intro allI impI)
  fix s e assume a: "sema_ok n s \<and> tree_ok (se_types s) e \<and> expr_height e \<le> h"
  then show "wp (check_expr (Some e) None s) (checked n s e)"
    using check_expr_n_good [of n "expr_height e"] by (auto simp: good_checker_def check_expr_def)
qed

text \<open>The result of checking \<open>e\<close>.\<close>

definition got :: "nat \<Rightarrow> sema \<Rightarrow> expr \<Rightarrow> expr \<Rightarrow> tyref \<Rightarrow> sema \<Rightarrow> bool" where
  "got n s e e' t s' \<longleftrightarrow> sema_ok n s' \<and> kept s s' \<and> strip e' = strip e \<and> tree_ok (se_types s') e' \<and> valid (se_types s') t
     \<and> (\<exists>u. ex_sem e' = Some u \<and> valid (se_types s') u) \<and> (nerr s' = 0 \<longrightarrow> has_type s' e' t)"

lemma gotD:
  assumes "got n s e e' t s'"
  shows "sema_ok n s'" "kept s s'" "strip e' = strip e" "tree_ok (se_types s') e'" "valid (se_types s') t" "nerr s' = 0 \<Longrightarrow> has_type s' e' t"
  using assms by (simp_all add: got_def)

lemma becomes_got: "becomes n s e t e' s' \<Longrightarrow> (nerr s' = 0 \<Longrightarrow> has_type s' e' t) \<Longrightarrow> got n s e e' t s'"
  by (simp add: becomes_def got_def)

lemma source_convs: "source_expr e \<Longrightarrow> has_convs s e" "source_expr e \<Longrightarrow> tree_ok tt e"
  using source_tree(1) by (auto simp: has_convs_def)

lemma check_any:
  assumes "body_ready n s" "source_expr e"
  obtains t e' s' where "check_expr (Some e) None s = Some ((t, Some e'), s')" "got n s e e' t s'" "ex_sem e' = Some t"
proof -
  have b: "sema_ok n s" "bound s" using assms(1) by (simp_all add: body_ready_def)
  have "wp (check_expr (Some e) None s) (checked n s e)"
    using check_expr_good [of n "expr_height e"] b source_convs(2) [OF assms(2)] by (simp add: good_checker_def)
  from wpD [OF this] obtain t e' s' where r: "check_expr (Some e) None s = Some ((t, Some e'), s')" "checked n s e (t, Some e') s'"
    by (auto simp: checked_def)
  have "got n s e e' t s'" "ex_sem e' = Some t"
    using r(2) b(2) source_convs(1) [OF assms(2)] by (auto simp: checked_def intro: becomes_got)
  with r(1) show thesis by (rule that)
qed

lemma check_as:
  assumes "body_ready n s" "source_expr e" "expectable s (Some tg)"
  obtains t e' s' where "check_expr (Some e) (Some tg) s = Some ((t, Some e'), s')" "got n s e e' t s'" "nerr s' = 0 \<longrightarrow> t = tg"
proof -
  have b: "sema_ok n s" "bound s" using assms(1) by (simp_all add: body_ready_def)
  from wpD [OF check_expr_ok [OF b(1) source_convs(2) [OF assms(2)] assms(3)]]
  obtain t e' s' where r: "check_expr (Some e) (Some tg) s = Some ((t, Some e'), s')" "checked_as n s e (Some tg) (t, Some e') s'"
    by (auto simp: checked_as_def)
  have "got n s e e' t s'" "nerr s' = 0 \<longrightarrow> t = tg"
    using r(2) b(2) source_convs(1) [OF assms(2)] by (auto simp: checked_as_def intro: becomes_got)
  with r(1) show thesis by (rule that)
qed

lemma check_val:
  assumes "body_ready n s" "source_expr e"
  obtains t e' s' where "check_value (Some e) s = Some ((t, Some e'), s')" "got n s e e' t s'" "nerr s' = 0 \<longrightarrow> typed_kind (kind s' t)"
proof -
  have b: "sema_ok n s" "bound s" using assms(1) by (simp_all add: body_ready_def)
  have c: "child_ok (se_types s) (Some e)" "child_height (Some e) \<le> expr_height e" using source_convs(2) [OF assms(2)] by simp_all
  have "wp (check_value_by check_expr (Some e) s) (\<lambda>(t, a) s'. \<exists>e'. a = Some e' \<and> valued n s e (t, Some e') s')"
    by (rule check_value_by_ok [OF check_expr_good b(1) c]) simp
  from wpD [OF this] obtain t e' s' where r: "check_value (Some e) s = Some ((t, Some e'), s')" "valued n s e (t, Some e') s'"
    by (auto simp: check_value_def)
  have "got n s e e' t s'" "nerr s' = 0 \<longrightarrow> typed_kind (kind s' t)"
    using r(2) b(2) source_convs(1) [OF assms(2)] by (auto simp: valued_def intro: becomes_got)
  with r(1) show thesis by (rule that)
qed

lemma got_ready: "body_ready n s \<Longrightarrow> got n s e e' t s' \<Longrightarrow> body_ready n s'"
  using ready_kept gotD(1,2) by blast

lemma got_moved: "got n s e e' t s' \<Longrightarrow> moved s s'"
  using kept_moved gotD(2) by blast

lemma got_typed:
  assumes "body_ready n s" "got n s e e' t s'" "nerr s' = 0"
  shows "typed (se_types s') (type_names s) (names s) e' t"
  using gotD(6) [OF assms(2,3)] kept_names(1,2) [OF gotD(2) [OF assms(2)]] by (simp add: has_type_def)

text \<open>An error that ends a step: the state goes on, and nothing is claimed of types any more.\<close>

lemma error_step:
  assumes "body_ready n s" "list_all (piece_ok s) ps"
  shows "\<exists>s'. serror pos ps s = Some s' \<and> body_ready n s' \<and> kept s s' \<and> 0 < nerr s'"
proof -
  have ok: "sema_ok n s" using assms(1) by (simp add: body_ready_def)
  obtain s' where s: "serror pos ps s = Some s'" "after_error n s s'" using serror_ends [OF ok assms(2)] by (auto simp: ends_iff)
  note E = after_errorD [OF s(2)]
  show ?thesis using s(1) ready_kept [OF assms(1) E(2,1)] E(2,3) by blast
qed

section \<open>Conditions\<close>

definition cond_post :: "nat \<Rightarrow> sema \<Rightarrow> expr option \<Rightarrow> expr option \<Rightarrow> sema \<Rightarrow> bool" where
  "cond_post n s c c' s' \<longleftrightarrow> body_ready n s' \<and> kept s s' \<and> strip_child c' = strip_child c
     \<and> (nerr s' = 0 \<longrightarrow> condition_typed (se_types s') (type_names s) (names s) c')"

lemma check_condition_ok:
  assumes r: "body_ready n s" and c: "source_child c"
  shows "wp (check_condition c w s) (cond_post n s c)"
proof -
  obtain e where e: "c = Some e" "source_expr e" using c by (cases c) auto
  obtain t e' s1 where k: "check_expr (Some e) None s = Some ((t, Some e'), s1)" "got n s e e' t s1" "ex_sem e' = Some t"
    by (rule check_any [OF r e(2)])
  note g = gotD [OF k(2)] and r1 = got_ready [OF r k(2)]
  show ?thesis
  proof (cases "kind s1 t = TY_UNTYPED_BOOL")
    case True
    have b8: "valid (se_types s1) (core s1 TY_B8)" "kind s1 (core s1 TY_B8) = TY_B8"
      using core_is [OF sema_okD(1) [OF g(1)], of TY_B8] by (simp_all add: core_kind_def)
    from wpD [OF coerce_ok [OF g(1,4) k(3) g(5) b8(1)]] obtain t2 e2 s2 where
      x: "coerce (Some e') (core s1 TY_B8) s1 = Some ((t2, Some e2), s2)" "coerced n s1 e' (core s1 TY_B8) (t2, Some e2) s2"
      by (auto simp: coerced_def)
    have b: "becomes n s1 e' t2 e2 s2" using x(2) by (simp add: coerced_def)
    have "condition_typed (se_types s2) (type_names s) (names s) (Some e2)" if z: "nerr s2 = 0"
    proof -
      have "has_type s1 e' t" using g(6) nerr_zero [OF becomes_ok(2) [OF b] z] by blast
      then have "has_type s2 e2 (core s1 TY_B8)" using x(2) z b8(2) by (auto simp: coerced_def)
      moreover have "ty_is_bool (ty_at (se_types s2) (core s1 TY_B8))"
        using kept_kind [OF becomes_ok(2) [OF b] b8(1)] b8(2) by (simp add: ty_is_bool_def kind_def)
      ultimately show ?thesis
        using kept_names(1,2) [OF kept_trans [OF g(2) becomes_ok(2) [OF b]]] by (auto simp: condition_typed_def has_type_def)
    qed
    then show ?thesis
      using b g(3) ready_kept [OF r1 becomes_ok(2) [OF b] becomes_ok(1) [OF b]] kept_trans [OF g(2) becomes_ok(2) [OF b]]
      by (simp add: check_condition_def e(1) k(1) True x(1) cond_post_def becomes_def)
  next
    case False
    show ?thesis
    proof (cases "\<not> ty_is_bool (ty_of s1 t) \<and> kind s1 t \<noteq> TY_POISON")
      case True
      let ?ps = "[Txt (''the '' @ w @ '' must have type b8, b32 or b64, not ''), TyName128 t, Txt (''; write '' @ quote ''x != 0'')]"
      obtain s2 where x: "serror (ex_pos e') ?ps s1 = Some s2" "body_ready n s2" "kept s1 s2" "0 < nerr s2"
        using error_step [OF r1, of ?ps] g(5) by auto
      then show ?thesis
        using False True kept_trans [OF g(2) x(3)] g(3) by (simp add: check_condition_def e(1) k(1) cond_post_def)
    next
      case f: False
      have "condition_typed (se_types s1) (type_names s) (names s) (Some e')" if z: "nerr s1 = 0"
        using got_typed [OF r k(2) z] has_typeD(3) [OF g(6) [OF z]] f by (auto simp: condition_typed_def ty_of_def)
      then show ?thesis
        using False f g r1 by (auto simp: check_condition_def e(1) k(1) cond_post_def)
    qed
  qed
qed

section \<open>Declarations\<close>

lemma resolve_laid:
  assumes "sema_ok n s" "wf_type a"
  obtains t s1 s2 where "resolve a s = Some (t, s1)" "layout_if_struct t s1 = Some s2" "sema_ok n s2" "kept s s2"
    "valid (se_types s2) t" "typed_kind (kind s2 t)" "nerr s2 = 0 \<longrightarrow> proper (se_types s2) t \<and> denotes (se_types s2) (type_names s2) a t"
    "kind s2 t = TY_STRUCT \<longrightarrow> t_state (ty_of s2 t) = LAYOUT_DONE"
proof -
  obtain t s1 where r: "resolve a s = Some (t, s1)" "resolved n s a t s1" using wpD [OF resolve_ok [OF assms]] by blast
  then obtain s2 where l: "layout_if_struct t s1 = Some s2" "laid n s1 t s2"
    using layout_if_struct_ok [of n s1 t] by (auto simp: resolved_def ends_iff)
  have d: "kind s2 t = TY_STRUCT \<longrightarrow> t_state (ty_of s2 t) = LAYOUT_DONE" using l(2) by (simp add: laid_def)
  show thesis by (rule that [OF r(1) l(1) laid_resolved(1-4) [OF r(2) l(2)] _ d]) (use laid_resolved(5) [OF r(2) l(2)] in blast)
qed

definition var_post :: "nat \<Rightarrow> sema \<Rightarrow> ast_type \<Rightarrow> srcpos \<Rightarrow> bool \<Rightarrow> string \<Rightarrow> expr option \<Rightarrow> expr option \<Rightarrow> sema \<Rightarrow> bool" where
  "var_post n s a pos m name i i' s' \<longleftrightarrow> body_ready n s' \<and> moved s s' \<and> strip_child i' = strip_child i
     \<and> (nerr s' = 0 \<longrightarrow> (\<forall>lp. wt_stmt (se_types s') (type_names s) (global_values s) (return_type s) lp (names s) (STMT_VAR pos m a name i') (names s')))"

text \<open>The initializer, when there is one: the variable's type is expected.\<close>

definition init_step :: "nat \<Rightarrow> sema \<Rightarrow> bool \<Rightarrow> tyref \<Rightarrow> expr option \<Rightarrow> expr option \<Rightarrow> sema \<Rightarrow> bool" where
  "init_step n s m t i i' s' \<longleftrightarrow> body_ready n s' \<and> kept s s' \<and> strip_child i' = strip_child i
     \<and> (nerr s' = 0 \<longrightarrow> (\<forall>e. i' = Some e \<longrightarrow> typed (se_types s') (type_names s) (names s) e t) \<and> (i' = None \<longrightarrow> m))"

lemma var_init_ok:
  assumes r: "body_ready n s" and i: "source_opt i" and t: "expectable s (Some t)"
  shows "wp (if i \<noteq> None then do { ((_, i), s) \<leftarrow> check_expr i (Some t) s; Some (i, s) }
             else if \<not> m then do { s \<leftarrow> no_initializer pos name s; Some (i, s) }
             else Some (i, s)) (init_step n s m t i)"
proof (cases i)
  case None
  let ?ps = "[Txt (quote name @ '' has no initializer, so it must be declared '' @ quote ''let mut'')]"
  obtain s' where "no_initializer pos name s = Some s'" "body_ready n s'" "kept s s'" "0 < nerr s'"
    using error_step [OF r, of ?ps pos] by (auto simp: no_initializer_def)
  then show ?thesis using None r by (simp add: init_step_def)
next
  case (Some e)
  then have e: "source_expr e" using i by (simp add: source_opt_def)
  obtain u e' s' where x: "check_expr (Some e) (Some t) s = Some ((u, Some e'), s')" "got n s e e' u s'" "nerr s' = 0 \<longrightarrow> u = t"
    by (rule check_as [OF r e t])
  then show ?thesis
    using Some got_ready [OF r x(2)] gotD(2,3) [OF x(2)] got_typed [OF r x(2)] by (auto simp: init_step_def)
qed

lemma check_var_decl_ok:
  assumes r: "body_ready n s" and a: "wf_type a" and i: "source_opt i"
  shows "wp (check_var_decl pos m a name i s) (var_post n s a pos m name i)"
proof -
  have ok: "sema_ok n s" using r by (simp add: body_ready_def)
  obtain t s1 s2 where x: "resolve a s = Some (t, s1)" "layout_if_struct t s1 = Some s2" "sema_ok n s2" "kept s s2"
    "valid (se_types s2) t" "typed_kind (kind s2 t)" "nerr s2 = 0 \<longrightarrow> proper (se_types s2) t \<and> denotes (se_types s2) (type_names s2) a t"
    "kind s2 t = TY_STRUCT \<longrightarrow> t_state (ty_of s2 t) = LAYOUT_DONE"
    by (rule resolve_laid [OF ok a])
  note r2 = ready_kept [OF r x(4,3)]
  let ?bad = "\<not> ty_is_sized (ty_of s2 t) \<and> kind s2 t \<noteq> TY_POISON"
  have "\<exists>t3 s3. (if ?bad then do { s \<leftarrow> serror pos [Txt (quote name @ '' has type ''), TyName128 t, Txt '', which is not a value type''] s2;
                       Some (poison s, s) } else Some (t, s2)) = Some (t3, s3)
      \<and> body_ready n s3 \<and> kept s2 s3 \<and> valid (se_types s3) t3 \<and> (nerr s3 = 0 \<longrightarrow> t3 = t \<and> s3 = s2 \<and> \<not> ?bad)"
  proof (cases ?bad)
    case True
    let ?ps = "[Txt (quote name @ '' has type ''), TyName128 t, Txt '', which is not a value type'']"
    obtain s3 where "serror pos ?ps s2 = Some s3" "body_ready n s3" "kept s2 s3" "0 < nerr s3"
      using error_step [OF r2, of ?ps] x(5) by auto
    moreover from this have "valid (se_types s3) (poison s3)" using poison_is(1) [OF sema_okD(1)] by (auto simp: body_ready_def)
    ultimately show ?thesis using True by auto
  next
    case False
    then show ?thesis using r2 x(5) by auto
  qed
  then obtain t3 s3 where y: "(if ?bad then do { s \<leftarrow> serror pos [Txt (quote name @ '' has type ''), TyName128 t, Txt '', which is not a value type''] s2;
                       Some (poison s, s) } else Some (t, s2)) = Some (t3, s3)"
    "body_ready n s3" "kept s2 s3" "valid (se_types s3) t3" "nerr s3 = 0 \<longrightarrow> t3 = t \<and> s3 = s2 \<and> \<not> ?bad" by (elim exE conjE) iprover
  have k3: "kept s s3" using x(4) y(3) by (rule kept_trans)
  have p3: "proper (se_types s3) t3 \<and> denotes (se_types s3) (type_names s) a t3 \<and> ty_is_sized (ty_of s3 t3)" if "nerr s3 = 0"
    using y(5) x(7) that kept_names(2) [OF x(4)] by (auto simp: proper_def kind_def)
  have "expectable s3 (Some t3)" using y(4) p3 by (auto simp: expectable_def proper_def kind_def)
  from wpD [OF var_init_ok [OF y(2) i this, of m pos name]] obtain i' s4 where
    z: "(if i \<noteq> None then do { ((_, i), s) \<leftarrow> check_expr i (Some t3) s3; Some (i, s) }
             else if \<not> m then do { s \<leftarrow> no_initializer pos name s3; Some (i, s) }
             else Some (i, s3)) = Some (i', s4)" and st: "init_step n s3 m t3 i i' s4" by blast
  have r4: "body_ready n s4" "kept s3 s4" "strip_child i' = strip_child i" using st by (simp_all add: init_step_def)
  have k4: "kept s s4" using k3 r4(2) by (rule kept_trans)
  note v4 = kept_valid [OF r4(2) y(4)]
  have head: "check_var_decl pos m a name i s = (case scope_find_current (se_syms s4) (se_scopes s4) name of
            Some q \<Rightarrow>
              do { s \<leftarrow> serror pos [Txt (quote name @ '' is already declared in this scope'')] s4;
                   Some (i', snote (sy_pos (sym_at s q)) ''first declared here'' s) }
          | None \<Rightarrow>
              (let (q, s) = sym_new ((sym_zero SYM_LOCAL name pos)\<lparr>sy_type := Some t3, sy_is_mut := m\<rparr>) s4 in
               Some (i', s\<lparr>se_scopes := scope_declare (se_scopes s) q\<rparr>)))"
    unfolding check_var_decl_def by (simp only: x(1,2) Option.bind.bind_lunit prod.case y(1) z)
  show ?thesis
  proof (cases "scope_find_current (se_syms s4) (se_scopes s4) name")
    case (Some q)
    let ?ps = "[Txt (quote name @ '' is already declared in this scope'')]"
    obtain s5 where e: "serror pos ?ps s4 = Some s5" "body_ready n s5" "kept s4 s5" "0 < nerr s5"
      using error_step [OF r4(1), of ?ps] by auto
    let ?s = "snote (sy_pos (sym_at s5 q)) ''first declared here'' s5"
    have "kept s ?s" using kept_trans [OF kept_trans [OF k4 e(3)] kept_note] .
    moreover have "body_ready n ?s"
      using e(2) by (intro ready_kept [OF e(2) kept_note] sema_ok_note) (simp add: body_ready_def)
    ultimately show ?thesis using e(4) r4(3) by (simp add: head Some e(1) var_post_def kept_moved)
  next
    case None
    let ?d = "declare_sym (local_sym name pos t3 m) s4"
    have "sy_type (local_sym name pos t3 m) = Some t3" "sy_params (local_sym name pos t3 m) = []" "sy_name (local_sym name pos t3 m) = name"
      by (simp_all add: local_sym_def sym_zero_def)
    moreover have "nerr s4 = 0 \<Longrightarrow> proper (se_types s4) t3"
      using p3 nerr_zero [OF r4(2)] proper_kept [OF r4(2) y(4)] by simp
    ultimately have d: "body_ready n ?d" "moved s4 ?d" "names ?d = (names s4)(name \<mapsto> local_sym name pos t3 m)"
      using declare_ok [OF r4(1) _ v4] by auto
    have tt: "se_types ?d = se_types s4" by (simp add: declare_sym_def)
    have "wt_stmt (se_types ?d) (type_names s) (global_values s) (return_type s) lp (names s) (STMT_VAR pos m a name i') (names ?d)" if "nerr ?d = 0" for lp
    proof -
      have z4: "nerr s4 = 0" using that by (simp add: declare_sym_def nerr_def)
      have z3: "nerr s3 = 0" by (rule nerr_zero [OF r4(2) z4])
      note p = p3 [OF z3]
      have ok34: "types_ok (se_types s3)" "types_ok (se_types s4)" using y(2) r4(1) sema_okD(1) by (auto simp: body_ready_def)
      have "denotes (se_types s4) (type_names s) a t3" using denotes_grow [OF _ ok34 keptD(1) [OF r4(2)]] p by blast
      moreover have "ty_is_sized (ty_at (se_types s4) t3)"
        using sized_same [OF types_grow_same [OF keptD(1) [OF r4(2)] y(4)]] p by (simp add: ty_of_def)
      moreover have "proper (se_types s4) t3" using p proper_kept [OF r4(2) y(4)] by simp
      ultimately show ?thesis
        unfolding d(3) tt kept_names(1) [OF k4] using v4 st z4 kept_names(1,2) [OF k3] kept_names(1) [OF k4]
        by (intro wt_stmt_wt_block_wt_stmts_wt_arms.wt_var) (auto simp: init_step_def)
    qed
    moreover have "moved s ?d" using kept_moved [OF k4] d(2) by (rule moved_trans)
    moreover have "check_var_decl pos m a name i s = Some (i', ?d)"
      by (simp add: head None sym_new_def declare_sym_def local_sym_def)
    ultimately show ?thesis using d(1) r4(3) by (simp add: var_post_def)
  qed
qed

section \<open>Match labels\<close>

definition label_post :: "nat \<Rightarrow> sema \<Rightarrow> tyref \<Rightarrow> match_label \<Rightarrow> match_label \<Rightarrow> sema \<Rightarrow> bool" where
  "label_post n s st l l' s' \<longleftrightarrow> body_ready n s' \<and> kept s s' \<and> strip_label l' = strip_label l
     \<and> (nerr s' = 0 \<longrightarrow> label_typed (se_types s') (global_values s) st l')"

lemma label_error:
  assumes r: "body_ready n s" and p: "list_all (piece_ok s) ps" and l: "strip_label l' = strip_label l"
  shows "wp (do { s \<leftarrow> serror pos ps s; Some (l', s) }) (label_post n s st l)"
  using error_step [OF r p, of pos] l by (auto simp: label_post_def)

lemma check_label_ok:
  assumes r: "body_ready n s" and l: "source_label l" and st: "valid (se_types s) st" "nerr s = 0 \<Longrightarrow> kind s st \<noteq> TY_POISON"
  shows "wp (check_label st l s) (label_post n s st l)"
proof -
  have ok: "sema_ok n s" using r by (simp add: body_ready_def)
  obtain pos wild v where l': "l = MatchLabel pos wild v" by (cases l)
  show ?thesis
  proof (cases wild)
    case True
    then show ?thesis using r by (simp add: check_label_def l' label_post_def)
  next
    case False
    then obtain p sem u where e: "v = Some (Expr p sem u)" "label_node u"
      using l by (cases v; cases "the v") (auto simp: l')
    have lit: "wp (if kind s st \<noteq> TY_POISON then do { (e, s) \<leftarrow> retype_untyped st (Expr p (Some x) w) s; Some (MatchLabel pos False (Some e), s) }
        else Some (MatchLabel pos False (Some (Expr p (Some x) w)), s)) (label_post n s st l)"
      if w: "w = EXPR_INT k \<or> w = EXPR_CHAR k" "u = w" for w k x
    proof (cases "kind s st = TY_POISON")
      case True
      then show ?thesis using r st(2) w by (auto simp: label_post_def l' e False)
    next
      case ks: False
      obtain s' where f: "literal_fits p k st s = Some s'" "sema_ok n s'" "kept s s'"
        "nerr s' = 0 \<longrightarrow> ty_is_integer (ty_of s st) \<longrightarrow> unat k \<le> int_max (ty_of s st)"
        using literal_fits_ok [OF ok st(1), of p k] by (auto simp: ends_iff)
      have at: "ty_is_integer (ty_of s' st) \<Longrightarrow> ty_of s' st = ty_of s st"
      proof -
        assume "ty_is_integer (ty_of s' st)"
        then have "kind s st \<noteq> TY_STRUCT" using kept_kind [OF f(3) st(1)] by (auto simp: ty_is_integer_def ty_of_def kind_def)
        then show ?thesis using types_grow_at [OF keptD(1) [OF f(3)] st(1)] by (simp add: ty_of_def kind_def)
      qed
      show ?thesis
        using ks w f(1) f(4) at ready_kept [OF r f(3,2)] f(3) by (auto simp: label_post_def l' e False ty_of_def)
    qed
    show ?thesis
    proof (cases u)
      case (EXPR_NAME nm)
      let ?msg = "[Txt (quote nm @ '' is not an enum member; a match label must be a constant'')]"
      have find: "globals_find_value (se_globals s) nm = Some (map_abs (gl_values (se_globals s)) nm)"
        using sema_okD(3) [OF ok] by (simp add: globals_find_value_def globals_ok_def nm.get_abs)
      have bad: "wp (do { s \<leftarrow> serror pos ?msg s; Some (l, s) }) (label_post n s st l)"
        by (rule label_error [OF r]) simp_all
      show ?thesis
      proof (cases "map_abs (gl_values (se_globals s)) nm")
        case None
        then show ?thesis using bad by (simp add: check_label_def l' e EXPR_NAME False find)
      next
        case (Some y)
        have y: "y < length (se_syms s)" by (rule sema_okD(5) [OF ok Some])
        show ?thesis
        proof (cases "sy_kind (sym_at s y) = SYM_ENUM_MEMBER")
          case k: True
          then obtain t where t: "sy_type (sym_at s y) = Some t" "valid (se_types s) t"
            using sema_okD(9) [OF ok y] by (auto simp: sym_ok_def)
          let ?l = "MatchLabel pos False (Some (ex_set_sem t (Expr p sem u)))"
          have strip: "strip_label ?l = strip_label l" by (simp add: l' e False)
          have bad2: "wp (do { s \<leftarrow> serror pos [Txt ''label of type '', TyName128 t, Txt '' does not match '', TyName128 st] s; Some (?l, s) })
              (label_post n s st l)"
            using st(1) t(2) by (intro label_error [OF r _ strip]) simp
          have good: "label_post n s st l ?l s" if "kind s st = TY_POISON \<or> assigns (se_types s) t st"
          proof -
            have "label_typed (se_types s) (global_values s) st ?l" if "nerr s = 0"
              using k t(1) Some \<open>kind s st = TY_POISON \<or> assigns (se_types s) t st\<close> st(2) [OF that]
              by (simp add: global_values_def EXPR_NAME ex_set_sem_def)
            then show ?thesis using r strip by (simp add: label_post_def)
          qed
          show ?thesis
            using good bad2 assignable_eq [OF sema_okD(1) [OF ok] t(2), of st] k t(1) Some
            by (auto simp: check_label_def l' e EXPR_NAME False find Let_def)
        next
          case k: False
          then show ?thesis using bad Some by (simp add: check_label_def l' e EXPR_NAME False find)
        qed
      qed
    next
      case (EXPR_INT k)
      then show ?thesis using lit [of u k] by (simp add: check_label_def l' e False ex_set_sem_def Let_def)
    next
      case (EXPR_CHAR k)
      then show ?thesis using lit [of u k] by (simp add: check_label_def l' e False ex_set_sem_def Let_def)
    qed (use e(2) in auto)
  qed
qed

text \<open>A type labels can be checked against stays one.\<close>

definition label_ready :: "sema \<Rightarrow> tyref \<Rightarrow> bool" where
  "label_ready s t \<longleftrightarrow> valid (se_types s) t \<and> (nerr s = 0 \<longrightarrow> ty_is_integer (ty_of s t) \<or> kind s t = TY_ENUM)"

lemma label_ready_moved: "moved s s' \<Longrightarrow> label_ready s t \<Longrightarrow> label_ready s' t"
proof -
  assume m: "moved s s'" and l: "label_ready s t"
  have g: "types_grow (se_types s) (se_types s')" using m by (simp add: moved_def)
  have v: "valid (se_types s) t" using l by (simp add: label_ready_def)
  note k = types_grow_keeps(1) [OF g v]
  show "label_ready s' t"
    using l m types_grow_valid [OF g v] by (simp add: label_ready_def moved_def ty_of_def kind_def k kind_preds(1) [OF k])
qed

lemma label_ready_kind:
  "label_ready s t \<Longrightarrow> nerr s = 0 \<Longrightarrow> kind s t \<noteq> TY_POISON \<and> t_kind (ty_at (se_types s) t) \<noteq> TY_STRUCT"
  by (auto simp: label_ready_def kind_def ty_of_def ty_is_integer_def)

lemma global_valid:
  assumes "sema_ok n s" "global_values s x = Some y" "sy_type y = Some u"
  shows "valid (se_types s) u"
proof -
  obtain r where r: "map_abs (gl_values (se_globals s)) x = Some r" "y = sym_at s r" using assms(2) by (auto simp: global_values_def)
  have "sym_ok (se_types s) y" unfolding r(2) by (rule sema_okD(9) [OF assms(1) sema_okD(5) [OF assms(1) r(1)]])
  then show ?thesis using assms(3) by (simp add: sym_ok_def)
qed

lemma labels_grow:
  assumes ok: "sema_ok n s" "sema_ok n' s'" and m: "moved s s'" and t: "label_ready s t" and z: "nerr s' = 0"
    and l: "list_all (label_typed (se_types s) (global_values s) t) ls"
  shows "list_all (label_typed (se_types s') (global_values s) t) ls"
proof -
  have g: "types_grow (se_types s) (se_types s')" "nerr s = 0" using m z by (simp_all add: moved_def)
  have v: "valid (se_types s) t" using t by (simp add: label_ready_def)
  show ?thesis
    using label_typed_grow [OF g(1) sema_okD(1) [OF ok(1)] v _ global_valid [OF ok(1)]] label_ready_kind [OF t g(2)] l
    by (auto simp: list_all_iff)
qed

lemma check_labels_ok:
  "body_ready n s \<Longrightarrow> list_all source_label ls \<Longrightarrow> label_ready s t \<Longrightarrow>
   wp (check_labels t ls s) (\<lambda>ls' s'. body_ready n s' \<and> kept s s' \<and> map strip_label ls' = map strip_label ls
     \<and> (nerr s' = 0 \<longrightarrow> list_all (label_typed (se_types s') (global_values s) t) ls'))"
proof (induction ls arbitrary: s)
  case (Cons l ls)
  have ok: "sema_ok n s" using Cons.prems(1) by (simp add: body_ready_def)
  have v: "valid (se_types s) t" using Cons.prems(3) by (simp add: label_ready_def)
  have "wp (check_label t l s) (label_post n s t l)"
    by (rule check_label_ok [OF Cons.prems(1) _ v]) (use Cons.prems(2) label_ready_kind [OF Cons.prems(3)] in simp_all)
  from wpD [OF this] obtain l' s1 where x: "check_label t l s = Some (l', s1)" "label_post n s t l l' s1" by blast
  have r1: "body_ready n s1" "kept s s1" "strip_label l' = strip_label l" using x(2) by (simp_all add: label_post_def)
  note m1 = kept_moved [OF r1(2)]
  have "list_all source_label ls" using Cons.prems(2) by simp
  from wpD [OF Cons.IH [OF r1(1) this label_ready_moved [OF m1 Cons.prems(3)]]] obtain ls' s2 where
    y: "check_labels t ls s1 = Some (ls', s2)" "body_ready n s2" "kept s1 s2" "map strip_label ls' = map strip_label ls"
    "nerr s2 = 0 \<longrightarrow> list_all (label_typed (se_types s2) (global_values s1) t) ls'" by (elim exE conjE) iprover
  have gv: "global_values s1 = global_values s" by (rule moved_values [OF ok m1])
  have "label_typed (se_types s2) (global_values s) t l'" if "nerr s2 = 0"
  proof -
    have "label_typed (se_types s1) (global_values s1) t l'" using x(2) nerr_zero [OF y(3) that] gv by (simp add: label_post_def)
    then show ?thesis
      using labels_grow [OF _ _ kept_moved [OF y(3)] label_ready_moved [OF m1 Cons.prems(3)] that, of n n "[l']"] r1(1) y(2) gv
      by (simp add: body_ready_def)
  qed
  then show ?case using x(1) y r1(3) kept_trans [OF r1(2) y(3)] gv by simp
qed simp

section \<open>Match heads, returns and jumps\<close>

lemma check_scrutinee_ok:
  assumes r: "body_ready n s" and c: "source_child c"
  shows "wp (check_scrutinee pos c s) (\<lambda>(t, c') s'. body_ready n s' \<and> kept s s' \<and> strip_child c' = strip_child c \<and> label_ready s' t
     \<and> (\<exists>e'. c' = Some e' \<and> (nerr s' = 0 \<longrightarrow> typed (se_types s') (type_names s) (names s) e' t)))"
proof -
  obtain e where e: "c = Some e" "source_expr e" using c by (cases c) auto
  obtain t e' s1 where k: "check_value (Some e) s = Some ((t, Some e'), s1)" "got n s e e' t s1"
    "nerr s1 = 0 \<longrightarrow> typed_kind (kind s1 t)" by (rule check_val [OF r e(2)])
  note g = gotD [OF k(2)] and r1 = got_ready [OF r k(2)]
  show ?thesis
  proof (cases "kind s1 t \<noteq> TY_POISON \<and> \<not> ty_is_integer (ty_of s1 t) \<and> kind s1 t \<noteq> TY_ENUM")
    case True
    let ?ps = "[Txt ''match needs an integer or enum value, not '', TyName128 t]"
    obtain s2 where x: "serror pos ?ps s1 = Some s2" "body_ready n s2" "kept s1 s2" "0 < nerr s2"
      using error_step [OF r1, of ?ps pos] g(5) by auto
    have "valid (se_types s2) (poison s2)" using x(2) poison_is(1) [OF sema_okD(1)] by (auto simp: body_ready_def)
    then show ?thesis
      using True x kept_trans [OF g(2) x(3)] g(3) by (simp add: check_scrutinee_def e(1) k(1) bad_at_def label_ready_def)
  next
    case False
    have "ty_is_integer (ty_of s1 t) \<or> kind s1 t = TY_ENUM" if "nerr s1 = 0" using False has_typeD(3) [OF g(6) [OF that]] by auto
    then have "label_ready s1 t" using g(5) by (simp add: label_ready_def)
    moreover have "check_scrutinee pos c s = Some ((t, Some e'), s1)" using False by (auto simp: check_scrutinee_def e(1) k(1))
    ultimately show ?thesis
      using g(2,3) r1 got_typed [OF r k(2)] by (simp add: e(1))
  qed
qed

text \<open>What a statement that declares nothing leaves.\<close>

definition flat_post :: "nat \<Rightarrow> sema \<Rightarrow> (expr option \<Rightarrow> stmt) \<Rightarrow> expr option \<Rightarrow> expr option \<Rightarrow> sema \<Rightarrow> bool" where
  "flat_post n s f v v' s' \<longleftrightarrow> body_ready n s' \<and> kept s s' \<and> strip_child v' = strip_child v
     \<and> (nerr s' = 0 \<longrightarrow> (\<forall>lp. wt_stmt (se_types s') (type_names s) (global_values s) (return_type s) lp (names s) (f v') (names s)))"

lemma check_return_ok:
  assumes r: "body_ready n s" and v: "source_opt v"
  shows "wp (check_return pos v s) (flat_post n s (STMT_RETURN pos) v)"
proof -
  note R = return_type_ok [OF r]
  note W = wt_stmt_wt_block_wt_stmts_wt_arms.intros(7,8)
  show ?thesis
  proof (cases v)
    case None
    show ?thesis
    proof (cases "kind s (return_type s) \<noteq> TY_VOID \<and> kind s (return_type s) \<noteq> TY_POISON")
      case True
      let ?ps = "[Txt (quote ''return'' @ '' needs a value of type ''), TyName128 (return_type s)]"
      obtain s1 where "serror pos ?ps s = Some s1" "body_ready n s1" "kept s s1" "0 < nerr s1"
        using error_step [OF r, of ?ps pos] R(1) by auto
      then show ?thesis using True None by (simp add: check_return_def Let_def flat_post_def)
    next
      case False
      then have "t_kind (ty_at (se_types s) (return_type s)) = TY_VOID" if "nerr s = 0" using R(2) [OF that] by (simp add: kind_def)
      then show ?thesis using False None r W(2) by (auto simp: check_return_def Let_def flat_post_def)
    qed
  next
    case (Some e)
    then have e: "source_expr e" using v by (simp add: source_opt_def)
    show ?thesis
    proof (cases "kind s (return_type s) = TY_VOID")
      case True
      let ?ps = "[Txt (quote ''return'' @ '' with a value in a function returning void'')]"
      obtain s1 where x: "serror pos ?ps s = Some s1" "body_ready n s1" "kept s s1" "0 < nerr s1"
        using error_step [OF r, of ?ps pos] by auto
      obtain t e' s2 where k: "check_value (Some e) s1 = Some ((t, Some e'), s2)" "got n s1 e e' t s2"
        "nerr s2 = 0 \<longrightarrow> typed_kind (kind s2 t)" by (rule check_val [OF x(2) e])
      have "0 < nerr s2" using keptD(2) [OF gotD(2) [OF k(2)]] x(4) by simp
      then show ?thesis
        using True Some x(1) k(1) got_ready [OF x(2) k(2)] gotD(3) [OF k(2)] kept_trans [OF x(3) gotD(2) [OF k(2)]]
        by (simp add: check_return_def Let_def flat_post_def)
    next
      case False
      have "expectable s (Some (return_type s))" using R by (simp add: expectable_def)
      from check_as [OF r e this] obtain t e' s1 where k: "check_expr (Some e) (Some (return_type s)) s = Some ((t, Some e'), s1)"
        "got n s e e' t s1" "nerr s1 = 0 \<longrightarrow> t = return_type s" .
      have "t_kind (ty_at (se_types s1) (return_type s)) \<noteq> TY_VOID"
        using False kept_kind [OF gotD(2) [OF k(2)] R(1)] by (simp add: kind_def)
      then show ?thesis
        using False Some k(1,3) got_ready [OF r k(2)] gotD(2,3) [OF k(2)] W(1) [OF got_typed [OF r k(2)]]
        by (auto simp: check_return_def Let_def flat_post_def)
    qed
  qed
qed

lemma check_jump_ok:
  assumes r: "body_ready n s"
  shows "\<exists>s'. check_jump pos w s = Some s' \<and> body_ready n s' \<and> kept s s' \<and> (nerr s' = 0 \<longrightarrow> se_loop_depth s \<noteq> 0)"
  using error_step [OF r, of "[Txt (quote w @ '' outside a loop'')]" pos] r by (auto simp: check_jump_def)

section \<open>Assignments\<close>

lemma root_name_finds:
  assumes ok: "sema_ok n s"
  shows "tree_ok (se_types s) e \<Longrightarrow> \<exists>q. lvalue_root s (Some e) = Some q \<and> (\<forall>y. q = Some y \<longrightarrow> y < length (se_syms s))
     \<and> (\<forall>x y. root_name (se_types s) (Some e) = Some x \<longrightarrow> names s x = Some y \<longrightarrow> (\<exists>r. q = Some r \<and> sym_at s r = y))"
proof (induction "size e" arbitrary: e rule: less_induct)
  case less
  obtain pos sem u where e: "e = Expr pos sem u" by (cases e)
  have p: "is_pointer (se_types s) b = through_pointer s b" for b by (simp add: is_pointer_def through_pointer_def kind_def split: option.split)
  show ?case
  proof (cases u)
    case (EXPR_NAME x)
    obtain y where y: "find_name s x = Some y" "\<forall>r. y = Some r \<longrightarrow> r < length (se_syms s)" using find_name_ends [OF ok] by blast
    then show ?thesis by (auto simp: e EXPR_NAME names_def split: option.splits)
  next
    case (EXPR_INDEX b i)
    then obtain c where c: "b = Some c" "tree_ok (se_types s) c" using less.prems child_okD by (auto simp: e)
    from less.hyps [OF _ c(2)] show ?thesis by (simp add: e EXPR_INDEX c(1) p)
  next
    case (EXPR_FIELD b x)
    then obtain c where c: "b = Some c" "tree_ok (se_types s) c" using less.prems child_okD by (auto simp: e)
    from less.hyps [OF _ c(2)] show ?thesis by (simp add: e EXPR_FIELD c(1) p)
  qed (simp_all add: e)
qed

definition target_post :: "nat \<Rightarrow> sema \<Rightarrow> expr \<Rightarrow> tyref \<times> expr option \<Rightarrow> sema \<Rightarrow> bool" where
  "target_post n s e r s' \<longleftrightarrow> (case r of (t, slot) \<Rightarrow> \<exists>e'. slot = Some e' \<and> body_ready n s' \<and> kept s s' \<and> strip e' = strip e
     \<and> tree_ok (se_types s') e' \<and> valid (se_types s') t \<and> (\<exists>u. ex_sem e' = Some u \<and> valid (se_types s') u)
     \<and> (nerr s' = 0 \<longrightarrow> target_typed (se_types s') (type_names s) (names s) e' t \<and> ex_sem e' = Some t))"

lemma check_assign_target_ok:
  assumes r: "body_ready n s" and e: "source_expr e"
  shows "wp (check_assign_target (Some e) s) (target_post n s e)"
proof -
  obtain t e' s1 where k: "check_value (Some e) s = Some ((t, Some e'), s1)" "got n s e e' t s1"
    "nerr s1 = 0 \<longrightarrow> typed_kind (kind s1 t)" by (rule check_val [OF r e])
  note g = gotD [OF k(2)] and r1 = got_ready [OF r k(2)]
  have ok1: "sema_ok n s1" by (rule g(1))
  have u: "\<exists>u. ex_sem e' = Some u \<and> valid (se_types s1) u" using k(2) by (simp add: got_def)
  have later: "target_post n s e (t', Some e') s2" if "body_ready n s2" "kept s1 s2" "valid (se_types s2) t'" "0 < nerr s2" for t' s2
    using that g(3) kept_trans [OF g(2) that(2)] kept_tree(1) [OF that(2) g(4)] u kept_valid [OF that(2)]
    by (auto simp: target_post_def)
  have bad: "wp (bad_at pos ps (Some e') s1) (target_post n s e)" if ps: "list_all (piece_ok s1) ps" for pos ps
  proof -
    obtain s2 where x: "serror pos ps s1 = Some s2" "body_ready n s2" "kept s1 s2" "0 < nerr s2" using error_step [OF r1 ps] by blast
    have "valid (se_types s2) (poison s2)" using x(2) poison_is(1) [OF sema_okD(1)] by (auto simp: body_ready_def)
    then show ?thesis using later [OF x(2,3) _ x(4)] by (simp add: bad_at_def x(1))
  qed
  have good: "target_post n s e (t, Some e') s1" if "nerr s1 = 0 \<Longrightarrow> target_typed (se_types s1) (type_names s) (names s) e' t"
    using that g r1 u has_typeD(1) [OF g(6)] by (auto simp: target_post_def)
  show ?thesis
  proof (cases "kind s1 t = TY_POISON")
    case True
    then have "nerr s1 \<noteq> 0" using has_typeD(3) [OF g(6)] by blast
    then show ?thesis using True good by (simp add: check_assign_target_def k(1))
  next
    case np: False
    show ?thesis
    proof (cases "is_lvalue (Some e') \<and> kind s1 t \<noteq> TY_ARRAY")
      case False
      then show ?thesis using np bad by (auto simp: check_assign_target_def k(1))
    next
      case lv: True
      obtain q where q: "lvalue_root s1 (Some e') = Some q" "\<forall>y. q = Some y \<longrightarrow> y < length (se_syms s1)"
        "\<forall>x y. root_name (se_types s1) (Some e') = Some x \<longrightarrow> names s1 x = Some y \<longrightarrow> (\<exists>r. q = Some r \<and> sym_at s1 r = y)"
        using root_name_finds [OF ok1 g(4)] by (elim exE conjE) iprover
      have tt: "target_typed (se_types s1) (type_names s) (names s) e' t"
        if "nerr s1 = 0" "\<forall>r. q = Some r \<longrightarrow> sy_kind (sym_at s1 r) \<notin> {SYM_FN, SYM_ENUM_MEMBER} \<and> sy_is_mut (sym_at s1 r)"
        using that lv k(3) got_typed [OF r k(2) that(1)] q(3) kept_names(1) [OF g(2)]
        by (auto simp: target_typed_def writable_def kind_def)
      have run: "check_assign_target (Some e) s = (case q of None \<Rightarrow> Some ((t, Some e'), s1)
         | Some r \<Rightarrow> (let y = sym_at s1 r in
              if sy_kind y = SYM_FN \<or> sy_kind y = SYM_ENUM_MEMBER then bad_at (ex_pos e') [Txt (''cannot assign to '' @ quote (sy_name y))] (Some e') s1
              else if \<not> sy_is_mut y then
                do { s \<leftarrow> serror (ex_pos e') [Txt (quote (sy_name y) @ '' is not mutable; declare it with '' @ quote ''let mut'')] s1;
                     Some ((t, Some e'), snote (sy_pos y) ''declared here'' s) }
              else Some ((t, Some e'), s1)))"
        using np lv q(1) by (simp add: check_assign_target_def k(1))
      show ?thesis
      proof (cases q)
        case None
        then show ?thesis using good tt by (simp add: run)
      next
        case (Some y)
        show ?thesis
        proof (cases "\<not> sy_is_mut (sym_at s1 y) \<and> sy_kind (sym_at s1 y) \<notin> {SYM_FN, SYM_ENUM_MEMBER}")
          case True
          let ?ps = "[Txt (quote (sy_name (sym_at s1 y)) @ '' is not mutable; declare it with '' @ quote ''let mut'')]"
          obtain s2 where x: "serror (ex_pos e') ?ps s1 = Some s2" "body_ready n s2" "kept s1 s2" "0 < nerr s2"
            using error_step [OF r1, of ?ps] by auto
          have k2: "kept s2 (snote (sy_pos (sym_at s1 y)) ''declared here'' s2)" by (rule kept_note)
          have "body_ready n (snote (sy_pos (sym_at s1 y)) ''declared here'' s2)"
            using x(2) by (intro ready_kept [OF x(2) k2] sema_ok_note) (simp add: body_ready_def)
          then show ?thesis
            using True Some later [OF _ kept_trans [OF x(3) k2]] kept_valid [OF kept_trans [OF x(3) k2] g(5)] x(1,4) by (simp add: run)
        next
          case False
          then show ?thesis using Some good tt bad by (auto simp: run Let_def)
        qed
      qed
    qed
  qed
qed

definition assign_post :: "nat \<Rightarrow> sema \<Rightarrow> srcpos \<Rightarrow> expr \<Rightarrow> token_kind \<Rightarrow> expr option \<Rightarrow> expr option \<times> expr option \<Rightarrow> sema \<Rightarrow> bool" where
  "assign_post n s pos e op v r s' \<longleftrightarrow> (case r of (x, v') \<Rightarrow> \<exists>e'. x = Some e' \<and> strip e' = strip e \<and> strip_child v' = strip_child v
     \<and> body_ready n s' \<and> kept s s' \<and> (nerr s' = 0 \<longrightarrow> (\<forall>lp. wt_stmt (se_types s') (type_names s) (global_values s) (return_type s) lp
          (names s) (STMT_ASSIGN pos e' op v') (names s))))"

lemma target_kept:
  assumes "kept s s'" "sema_ok n s" "sema_ok n s'" "target_typed (se_types s) T G e t"
  shows "target_typed (se_types s') T G e t"
  by (rule target_grow [OF keptD(1) [OF assms(1)] sema_okD(1) [OF assms(2)] sema_okD(1) [OF assms(3)] assms(4)])

lemma compound_binary: "op \<in> compound_ops \<Longrightarrow> assign_binop op \<in> binary_ops"
  by (auto simp: compound_ops_def assign_binop_def binary_ops_def arith_ops_def bit_ops_def shift_ops_def)

lemma check_assign_ok:
  assumes r: "body_ready n s" and e: "source_expr e" and v: "source_child v" and op: "op = Punct TOK_EQ \<or> op \<in> compound_ops"
  shows "wp (check_assign pos (Some e) op v s) (assign_post n s pos e op v)"
proof -
  obtain w where w: "v = Some w" "source_expr w" using v by (cases v) auto
  from wpD [OF check_assign_target_ok [OF r e]] obtain t e' s1 where
    k: "check_assign_target (Some e) s = Some ((t, Some e'), s1)" "target_post n s e (t, Some e') s1" by (auto simp: target_post_def)
  have g: "body_ready n s1" "kept s s1" "strip e' = strip e" "tree_ok (se_types s1) e'" "valid (se_types s1) t"
    "nerr s1 = 0 \<longrightarrow> target_typed (se_types s1) (type_names s) (names s) e' t \<and> ex_sem e' = Some t"
    using k(2) by (simp_all add: target_post_def)
  obtain u where u: "ex_sem e' = Some u" "valid (se_types s1) u" using k(2) by (auto simp: target_post_def)
  have ok1: "sema_ok n s1" using g(1) by (simp add: body_ready_def)
  note N1 = kept_names(1,2) [OF g(2)]
  show ?thesis
  proof (cases "op = Punct TOK_EQ")
    case True
    have "expectable s1 (Some t)"
      using g(5,6) by (auto simp: expectable_def target_typed_def kind_def dest: typedD(3))
    from check_as [OF g(1) w(2) this] obtain t2 w' s2 where x: "check_expr (Some w) (Some t) s1 = Some ((t2, Some w'), s2)"
      "got n s1 w w' t2 s2" "nerr s2 = 0 \<longrightarrow> t2 = t" .
    note g2 = gotD [OF x(2)]
    have "wt_stmt (se_types s2) (type_names s) (global_values s) (return_type s) lp (names s) (STMT_ASSIGN pos e' op (Some w')) (names s)"
      if z: "nerr s2 = 0" for lp
    proof -
      have "target_typed (se_types s2) (type_names s) (names s) e' t"
        using target_kept [OF g2(2) ok1 g2(1)] g(6) nerr_zero [OF g2(2) z] by blast
      moreover have "typed (se_types s2) (type_names s) (names s) w' t" using got_typed [OF g(1) x(2) z] x(3) z N1 by simp
      ultimately show ?thesis unfolding True by (rule wt_stmt_wt_block_wt_stmts_wt_arms.wt_assign)
    qed
    then show ?thesis
      using True k(1) x(1) g(3) g2(3) w(1) got_ready [OF g(1) x(2)] kept_trans [OF g(2) g2(2)] by (simp add: check_assign_def assign_post_def)
  next
    case False
    then have c: "op \<in> compound_ops" using op by blast
    obtain t2 w' s2 where x: "check_expr (Some w) None s1 = Some ((t2, Some w'), s2)" "got n s1 w w' t2 s2" "ex_sem w' = Some t2"
      by (rule check_any [OF g(1) w(2)])
    note g2 = gotD [OF x(2)] and r2 = got_ready [OF g(1) x(2)]
    have l: "operand s2 e' u" using kept_tree(1) [OF g2(2) g(4)] u kept_valid [OF g2(2)] by (simp add: operand_def)
    have rr: "operand s2 w' t2" using g2(4,5) x(3) by (simp add: operand_def)
    from wpD [OF check_binary_op_ok [OF g2(1) l rr compound_binary [OF c], of pos]] obtain res a b s3 where
      y: "check_binary_op (assign_binop op) pos (Some e') (Some w') s2 = Some ((res, a, b), s3)"
        "bin n s2 (assign_binop op) e' w' (res, a, b) s3" by (metis prod.exhaust)
    then obtain l' r' where lr: "a = Some l'" "b = Some r'" "becomes n s2 e' res l' s3" "becomes n s2 w' res r' s3"
      "\<forall>lt rt. nerr s3 = 0 \<and> has_type s2 e' lt \<and> has_type s2 w' rt \<longrightarrow>
          kind s3 res \<noteq> TY_POISON \<and> has_node s3 (EXPR_BINARY (assign_binop op) (Some l') (Some r')) res"
      by (auto simp: bin_def)
    have ok3: "sema_ok n s3" and k3: "kept s2 s3" "valid (se_types s3) res" using becomes_ok [OF lr(3)] by simp_all
    have k13: "kept s s3" using kept_trans [OF kept_trans [OF g(2) g2(2)] k3(1)] .
    have r3: "body_ready n s3" by (rule ready_kept [OF r2 k3(1) ok3])
    have st: "strip l' = strip e" "strip r' = strip w" using lr(3,4) g(3) g2(3) by (simp_all add: becomes_def)
    have vt: "valid (se_types s3) t" using kept_valid [OF k3(1) kept_valid [OF g2(2) g(5)]] .
    note as = assignable_eq [OF sema_okD(1) [OF ok3] k3(2), of t]
    have good: "assign_post n s pos e op v (Some l', Some r') s3"
      if c3: "kind s3 res = TY_POISON \<or> kind s3 t = TY_POISON \<or> assigns (se_types s3) res t"
    proof -
      have "wt_stmt (se_types s3) (type_names s) (global_values s) (return_type s) lp (names s) (STMT_ASSIGN pos l' op (Some r')) (names s)"
        if z: "nerr s3 = 0" for lp
      proof -
        have z2: "nerr s2 = 0" "nerr s1 = 0" using nerr_zero [OF k3(1) z] nerr_zero [OF g2(2)] by blast+
        have t1: "target_typed (se_types s1) (type_names s) (names s) e' t" using g(6) z2 by blast
        then have "has_type s1 e' t" using N1 by (simp add: has_type_def target_typed_def)
        then have "has_type s2 e' t" by (rule has_type_kept [OF g2(2) ok1 g2(1)])
        then have nd: "kind s3 res \<noteq> TY_POISON" "has_node s3 (EXPR_BINARY (assign_binop op) (Some l') (Some r')) res"
          using lr(5) z g2(6) [OF z2(1)] by blast+
        have "kind s3 t \<noteq> TY_POISON"
          using kept_kind [OF kept_trans [OF g2(2) k3(1)] g(5)] has_typeD(3) [OF \<open>has_type s1 e' t\<close>] by simp
        then have "assigns (se_types s3) res t" using c3 nd(1) by blast
        moreover have "target_typed (se_types s3) (type_names s) (names s) e' t"
          using target_kept [OF k3(1) g2(1) ok3 target_kept [OF g2(2) ok1 g2(1) t1]] .
        ultimately show ?thesis
          using nd(2) k3(2) lr(3) kept_names(1,2) [OF k13] c
          by (intro wt_stmt_wt_block_wt_stmts_wt_arms.wt_compound [where r = res]) (auto simp: has_node_def becomes_def)
      qed
      then show ?thesis using r3 k13 st w(1) by (simp add: assign_post_def)
    qed
    show ?thesis
    proof (cases "kind s3 res = TY_POISON \<or> kind s3 t = TY_POISON \<or> assigns (se_types s3) res t")
      case True
      then show ?thesis using good False k(1) x(1) y(1) w(1) as by (auto simp: check_assign_def lr(1,2))
    next
      case bad: False
      let ?ps = "[Txt (quote (token_kind_name op) @ '' produces ''), TyName128 res, Txt '', which does not fit '', TyName128 t]"
      obtain s4 where z: "serror pos ?ps s3 = Some s4" "body_ready n s4" "kept s3 s4" "0 < nerr s4"
        using error_step [OF r3, of ?ps pos] k3(2) vt by auto
      then show ?thesis
        using bad False k(1) x(1) y(1) w(1) as st kept_trans [OF k13 z(3)] by (simp add: check_assign_def assign_post_def lr(1,2))
    qed
  qed
qed

section \<open>Statements\<close>

definition wt_in :: "sema \<Rightarrow> type_table \<Rightarrow> (string \<Rightarrow> sym option) \<Rightarrow> stmt \<Rightarrow> (string \<Rightarrow> sym option) \<Rightarrow> bool" where
  "wt_in s tt G st G' \<longleftrightarrow> wt_stmt tt (type_names s) (global_values s) (return_type s) (se_loop_depth s \<noteq> 0) G st G'"

definition stmt_post :: "nat \<Rightarrow> sema \<Rightarrow> stmt \<Rightarrow> stmt \<Rightarrow> sema \<Rightarrow> bool" where
  "stmt_post n s st st' s' \<longleftrightarrow> body_ready n s' \<and> moved s s' \<and> strip_stmt st' = strip_stmt st
     \<and> (nerr s' = 0 \<longrightarrow> wt_stmt (se_types s') (type_names s) (global_values s) (return_type s) (se_loop_depth s \<noteq> 0) (names s) st' (names s'))"

definition block_post :: "nat \<Rightarrow> sema \<Rightarrow> block \<Rightarrow> block \<Rightarrow> sema \<Rightarrow> bool" where
  "block_post n s b b' s' \<longleftrightarrow> body_ready n s' \<and> moved s s' \<and> strip_block b' = strip_block b \<and> names s' = names s
     \<and> (nerr s' = 0 \<longrightarrow> wt_block (se_types s') (type_names s) (global_values s) (return_type s) (se_loop_depth s \<noteq> 0) (names s) b')"

definition stmts_post :: "nat \<Rightarrow> sema \<Rightarrow> stmt list \<Rightarrow> stmt list \<Rightarrow> sema \<Rightarrow> bool" where
  "stmts_post n s ss ss' s' \<longleftrightarrow> body_ready n s' \<and> moved s s' \<and> map strip_stmt ss' = map strip_stmt ss
     \<and> (nerr s' = 0 \<longrightarrow> wt_stmts (se_types s') (type_names s) (global_values s) (return_type s) (se_loop_depth s \<noteq> 0) (names s) ss' (names s'))"

definition arms_post :: "nat \<Rightarrow> sema \<Rightarrow> tyref \<Rightarrow> match_arm list \<Rightarrow> match_arm list \<Rightarrow> sema \<Rightarrow> bool" where
  "arms_post n s t arms arms' s' \<longleftrightarrow> body_ready n s' \<and> moved s s' \<and> map strip_arm arms' = map strip_arm arms
     \<and> (nerr s' = 0 \<longrightarrow> wt_arms (se_types s') (type_names s) (global_values s) (return_type s) (se_loop_depth s \<noteq> 0) t (names s) arms' (names s'))"

lemma ready_ok: "body_ready n s \<Longrightarrow> sema_ok n s"
  by (simp add: body_ready_def)

lemma moved_nerr: "moved s s' \<Longrightarrow> nerr s' = 0 \<Longrightarrow> nerr s = 0"
  by (simp add: moved_def)

text \<open>What a statement was found to be stays true while the table grows.\<close>

lemma wt_later:
  assumes r: "body_ready n s" "body_ready n s1" "body_ready n s2" and m: "moved s s1" "moved s1 s2"
  shows "wt_stmt (se_types s1) (type_names s) (global_values s) (return_type s) lp G st G'
      \<Longrightarrow> wt_stmt (se_types s2) (type_names s) (global_values s) (return_type s) lp G st G'"
    and "wt_block (se_types s1) (type_names s) (global_values s) (return_type s) lp G b
      \<Longrightarrow> wt_block (se_types s2) (type_names s) (global_values s) (return_type s) lp G b"
    and "condition_typed (se_types s1) T G c \<Longrightarrow> condition_typed (se_types s2) T G c"
    and "typed (se_types s1) T G e t \<Longrightarrow> typed (se_types s2) T G e t"
proof -
  have g: "types_grow (se_types s1) (se_types s2)" using m(2) by (simp add: moved_def)
  note ok = sema_okD(1) [OF ready_ok [OF r(2)]] sema_okD(1) [OF ready_ok [OF r(3)]]
  have R: "valid (se_types s1) (return_type s)" using return_type_ok(1) [OF r(2)] moved_return(1) [OF r(1) m(1)] by simp
  have V: "valid (se_types s1) u" if "global_values s x = Some y" "sy_type y = Some u" for x y u
    using global_valid [OF ready_ok [OF r(2)] _ that(2)] that(1) moved_values [OF ready_ok [OF r(1)] m(1)] by simp
  note G = wt_grow [OF g ok R V]
  show "wt_stmt (se_types s1) (type_names s) (global_values s) (return_type s) lp G st G'
      \<Longrightarrow> wt_stmt (se_types s2) (type_names s) (global_values s) (return_type s) lp G st G'" by (rule G(1))
  show "wt_block (se_types s1) (type_names s) (global_values s) (return_type s) lp G b
      \<Longrightarrow> wt_block (se_types s2) (type_names s) (global_values s) (return_type s) lp G b" by (rule G(2))
  show "condition_typed (se_types s1) T G c \<Longrightarrow> condition_typed (se_types s2) T G c" by (rule condition_grow [OF g ok])
  show "typed (se_types s1) T G e t \<Longrightarrow> typed (se_types s2) T G e t" by (rule typed_grow(1) [OF g ok])
qed

text \<open>The static context of \<open>s\<close> and of a later state are the same.\<close>

lemma moved_context:
  assumes "body_ready n s" "moved s s'"
  shows "type_names s' = type_names s" "global_values s' = global_values s" "return_type s' = return_type s" "se_loop_depth s' = se_loop_depth s"
  using moved_type_names [OF assms(2)] moved_values [OF ready_ok [OF assms(1)] assms(2)] moved_return(1) [OF assms] assms(2)
  by (simp_all add: moved_def)

lemma loop_depth_same [simp]:
  "body_ready n (s\<lparr>se_loop_depth := k\<rparr>) = body_ready n s" "names (s\<lparr>se_loop_depth := k\<rparr>) = names s"
  "type_names (s\<lparr>se_loop_depth := k\<rparr>) = type_names s" "global_values (s\<lparr>se_loop_depth := k\<rparr>) = global_values s"
  "return_type (s\<lparr>se_loop_depth := k\<rparr>) = return_type s" "nerr (s\<lparr>se_loop_depth := k\<rparr>) = nerr s"
proof -
  have at: "sym_at (s\<lparr>se_loop_depth := k\<rparr>) = sym_at s" by (simp add: fun_eq_iff sym_at_def)
  have ok: "sema_ok n (s\<lparr>se_loop_depth := k\<rparr>) = sema_ok n s" by (simp add: sema_ok_def kind_def nerr_def)
  show n: "names (s\<lparr>se_loop_depth := k\<rparr>) = names s" by (rule ext) (simp add: names_def find_name_def at cong: option.case_cong)
  show "body_ready n (s\<lparr>se_loop_depth := k\<rparr>) = body_ready n s" by (simp add: body_ready_def ok bound_def n at)
  show "type_names (s\<lparr>se_loop_depth := k\<rparr>) = type_names s" "global_values (s\<lparr>se_loop_depth := k\<rparr>) = global_values s"
    by (simp_all add: type_names_def fun_eq_iff global_values_def at)
  show "return_type (s\<lparr>se_loop_depth := k\<rparr>) = return_type s" "nerr (s\<lparr>se_loop_depth := k\<rparr>) = nerr s"
    by (simp_all add: return_type_def poison_def core_def at nerr_def cong: option.case_cong)
qed

lemma while_ok:
  assumes r: "body_ready n s" and b: "block_post n (s\<lparr>se_loop_depth := se_loop_depth s + 1\<rparr>) b b' s'"
  shows "body_ready n (s'\<lparr>se_loop_depth := se_loop_depth s' - 1\<rparr>)" "moved s (s'\<lparr>se_loop_depth := se_loop_depth s' - 1\<rparr>)"
    "strip_block b' = strip_block b" "names s' = names s"
    "nerr s' = 0 \<Longrightarrow> wt_block (se_types s') (type_names s) (global_values s) (return_type s) True (names s) b'"
  using b by (simp_all add: block_post_def) (simp add: moved_def nerr_def)

text \<open>The contract of \<open>check_stmt\<close>, and what the lists of statements and of arms make of it.\<close>

definition stmt_checks :: "nat \<Rightarrow> stmt \<Rightarrow> bool" where
  "stmt_checks n st \<longleftrightarrow> (\<forall>s. body_ready n s \<and> source_stmt st \<longrightarrow> wp (check_stmt st s) (stmt_post n s st))"

definition block_checks :: "nat \<Rightarrow> block \<Rightarrow> bool" where
  "block_checks n b \<longleftrightarrow> (\<forall>s. body_ready n s \<and> source_block b \<longrightarrow> wp (check_block b s) (block_post n s b))"

lemma stmt_checksE:
  assumes "stmt_checks n st" "body_ready n s" "source_stmt st"
  obtains st' s' where "check_stmt st s = Some (st', s')" "body_ready n s'" "moved s s'" "strip_stmt st' = strip_stmt st"
    "nerr s' = 0 \<longrightarrow> wt_stmt (se_types s') (type_names s) (global_values s) (return_type s) (se_loop_depth s \<noteq> 0) (names s) st' (names s')"
proof -
  have "wp (check_stmt st s) (stmt_post n s st)" using assms by (simp add: stmt_checks_def)
  from wpD [OF this] that show thesis by (auto simp: stmt_post_def)
qed

lemma block_checksE:
  assumes "block_checks n b" "body_ready n s" "source_block b"
  obtains b' s' where "check_block b s = Some (b', s')" "block_post n s b b' s'"
proof -
  have "wp (check_block b s) (block_post n s b)" using assms by (simp add: block_checks_def)
  from wpD [OF this] that show thesis by blast
qed

lemma check_stmts_ok:
  "\<forall>st \<in> set ss. stmt_checks n st \<Longrightarrow> body_ready n s \<Longrightarrow> list_all source_stmt ss \<Longrightarrow> wp (check_stmts ss s) (stmts_post n s ss)"
proof (induction ss arbitrary: s)
  case Nil
  then show ?case by (simp add: stmts_post_def wt_stmt_wt_block_wt_stmts_wt_arms.wt_no_stmt)
next
  case (Cons st ss)
  note r = Cons.prems(2)
  have "stmt_checks n st" "source_stmt st" using Cons.prems by simp_all
  from stmt_checksE [OF this(1) r this(2)] obtain st' s1 where x: "check_stmt st s = Some (st', s1)" "body_ready n s1" "moved s s1"
    "strip_stmt st' = strip_stmt st"
    "nerr s1 = 0 \<longrightarrow> wt_stmt (se_types s1) (type_names s) (global_values s) (return_type s) (se_loop_depth s \<noteq> 0) (names s) st' (names s1)" .
  have "wp (check_stmts ss s1) (stmts_post n s1 ss)" using Cons x(2) by simp
  from wpD [OF this] obtain ss' s2 where y: "check_stmts ss s1 = Some (ss', s2)" "stmts_post n s1 ss ss' s2" by blast
  have y': "body_ready n s2" "moved s1 s2" "map strip_stmt ss' = map strip_stmt ss" using y(2) by (simp_all add: stmts_post_def)
  have "wt_stmts (se_types s2) (type_names s) (global_values s) (return_type s) (se_loop_depth s \<noteq> 0) (names s) (st' # ss') (names s2)"
    if z: "nerr s2 = 0"
  proof (rule wt_stmt_wt_block_wt_stmts_wt_arms.wt_more)
    show "wt_stmt (se_types s2) (type_names s) (global_values s) (return_type s) (se_loop_depth s \<noteq> 0) (names s) st' (names s1)"
      using wt_later(1) [OF r x(2) y'(1) x(3) y'(2)] x(5) moved_nerr [OF y'(2) z] by blast
    show "wt_stmts (se_types s2) (type_names s) (global_values s) (return_type s) (se_loop_depth s \<noteq> 0) (names s1) ss' (names s2)"
      using y(2) z moved_context [OF r x(3)] by (simp add: stmts_post_def)
  qed
  then show ?case using x(1,4) y(1) y' moved_trans [OF x(3) y'(2)] by (simp add: stmts_post_def)
qed

lemma check_block_ok:
  assumes ss: "\<forall>st \<in> set ss. stmt_checks n st"
  shows "block_checks n (Block ss pos)"
  unfolding block_checks_def
proof (intro allI impI, elim conjE)
  fix s assume r: "body_ready n s" and src: "source_block (Block ss pos)"
  let ?s = "s\<lparr>se_scopes := scope_push (se_scopes s)\<rparr>"
  note p = push_ok [OF r]
  have "wp (check_stmts ss ?s) (stmts_post n ?s ss)" using check_stmts_ok [OF ss p(1)] src by simp
  from wpD [OF this] obtain ss' s' where x: "check_stmts ss ?s = Some (ss', s')" "stmts_post n ?s ss ss' s'" by blast
  have x': "body_ready n s'" "moved ?s s'" "map strip_stmt ss' = map strip_stmt ss" using x(2) by (simp_all add: stmts_post_def)
  note q = pop_ok [OF r x'(2,1)]
  have c: "type_names ?s = type_names s" "global_values ?s = global_values s" "return_type ?s = return_type s"
    by (simp_all add: type_names_def fun_eq_iff global_values_def sym_at_def return_type_def poison_def core_def map_option_case cong: option.case_cong)
  have "wt_block (se_types s') (type_names s) (global_values s) (return_type s) (se_loop_depth s \<noteq> 0) (names s) (Block ss' pos)" if "nerr s' = 0"
    using x(2) that by (intro wt_stmt_wt_block_wt_stmts_wt_arms.wt_braces [where G' = "names s'"]) (simp add: stmts_post_def c p(2))
  then show "wp (check_block (Block ss pos) s) (block_post n s (Block ss pos))"
    using x(1) x'(3) q by (simp add: block_post_def nerr_def)
qed

lemma check_arms_ok:
  "\<forall>arm \<in> set arms. (case arm of MatchArm pos ls body \<Rightarrow> stmt_checks n body) \<Longrightarrow> body_ready n s \<Longrightarrow> list_all source_arm arms
   \<Longrightarrow> label_ready s t \<Longrightarrow> wp (check_arms t arms s) (arms_post n s t arms)"
proof (induction arms arbitrary: s)
  case Nil
  then show ?case by (simp add: arms_post_def wt_stmt_wt_block_wt_stmts_wt_arms.wt_no_arm)
next
  case (Cons arm arms)
  obtain pos ls body where arm: "arm = MatchArm pos ls body" by (cases arm)
  note r = Cons.prems(2) and lr = Cons.prems(4)
  have src: "list_all source_label ls" "source_stmt body" "stmt_checks n body" using Cons.prems by (simp_all add: arm)
  from wpD [OF check_labels_ok [OF r src(1) lr]] obtain ls' s1 where
    x: "check_labels t ls s = Some (ls', s1)" "body_ready n s1" "kept s s1" "map strip_label ls' = map strip_label ls"
      "nerr s1 = 0 \<longrightarrow> list_all (label_typed (se_types s1) (global_values s) t) ls'" by (elim exE conjE) iprover
  note m1 = kept_moved [OF x(3)]
  from stmt_checksE [OF src(3) x(2) src(2)] obtain body' s2 where y: "check_stmt body s1 = Some (body', s2)" "body_ready n s2"
    "moved s1 s2" "strip_stmt body' = strip_stmt body"
    "nerr s2 = 0 \<longrightarrow> wt_stmt (se_types s2) (type_names s1) (global_values s1) (return_type s1) (se_loop_depth s1 \<noteq> 0) (names s1) body' (names s2)" .
  note m2 = moved_trans [OF m1 y(3)]
  have "list_all source_arm arms" using Cons.prems(3) by simp
  then have "wp (check_arms t arms s2) (arms_post n s2 t arms)"
    using Cons.IH [OF _ y(2)] Cons.prems(1) label_ready_moved [OF m2 lr] by simp
  from wpD [OF this] obtain arms' s3 where z: "check_arms t arms s2 = Some (arms', s3)" "arms_post n s2 t arms arms' s3" by blast
  have z': "body_ready n s3" "moved s2 s3" "map strip_arm arms' = map strip_arm arms" using z(2) by (simp_all add: arms_post_def)
  note m13 = moved_trans [OF y(3) z'(2)]
  have "wt_arms (se_types s3) (type_names s) (global_values s) (return_type s) (se_loop_depth s \<noteq> 0) t (names s)
      (MatchArm pos ls' body' # arms') (names s3)" if e: "nerr s3 = 0"
  proof (rule wt_stmt_wt_block_wt_stmts_wt_arms.wt_arm)
    have e2: "nerr s2 = 0" "nerr s1 = 0" using moved_nerr [OF z'(2) e] moved_nerr [OF m13 e] .
    have gv: "global_values s1 = global_values s" using moved_context [OF r m1] by simp
    show "list_all (label_typed (se_types s3) (global_values s) t) ls'"
      using labels_grow [OF ready_ok [OF x(2)] ready_ok [OF z'(1)] m13 label_ready_moved [OF m1 lr] e] x(5) e2(2) gv by simp
    have "wt_stmt (se_types s2) (type_names s) (global_values s) (return_type s) (se_loop_depth s \<noteq> 0) (names s) body' (names s2)"
      using y(5) e2(1) moved_context [OF r m1] kept_names(1) [OF x(3)] by simp
    then show "wt_stmt (se_types s3) (type_names s) (global_values s) (return_type s) (se_loop_depth s \<noteq> 0) (names s) body' (names s2)"
      by (rule wt_later(1) [OF r y(2) z'(1) m2 z'(2)])
    show "wt_arms (se_types s3) (type_names s) (global_values s) (return_type s) (se_loop_depth s \<noteq> 0) t (names s2) arms' (names s3)"
      using z(2) e moved_context [OF r m2] by (simp add: arms_post_def)
  qed
  then show ?case
    using x(1,4) y(1,4) z(1) z' moved_trans [OF m2 z'(2)] by (simp add: arms_post_def arm)
qed

lemma flat_stmt:
  assumes r: "body_ready n s" and w: "wp m (flat_post n s f v)" and st: "\<And>v'. strip_child v' = strip_child v \<Longrightarrow> strip_stmt (f v') = strip_stmt (f v)"
  shows "wp (do { (v, s) \<leftarrow> m; Some (f v, s) }) (stmt_post n s (f v))"
proof -
  obtain v' s' where x: "m = Some (v', s')" "flat_post n s f v v' s'" using wpD [OF w] by blast
  then show ?thesis
    using st [of v'] kept_moved [of s s'] kept_names(1) [of s s'] by (simp add: flat_post_def stmt_post_def)
qed

lemma stmt_sound:
  "stmt_checks n st" "block_checks n b" "case arm of MatchArm pos ls body \<Rightarrow> stmt_checks n body"
proof (induction st and b and arm)
  note W = wt_stmt_wt_block_wt_stmts_wt_arms.intros
  {
    case (STMT_BLOCK pos b)
    show ?case
      unfolding stmt_checks_def
    proof (intro allI impI, elim conjE)
      fix s assume r: "body_ready n s" and src: "source_stmt (STMT_BLOCK pos b)"
      from block_checksE [OF STMT_BLOCK r] src obtain b' s' where "check_block b s = Some (b', s')" "block_post n s b b' s'" by auto
      then show "wp (check_stmt (STMT_BLOCK pos b) s) (stmt_post n s (STMT_BLOCK pos b))"
        using W(1) by (simp add: block_post_def stmt_post_def)
    qed
  next
    case (STMT_VAR pos m a name i)
    show ?case
      unfolding stmt_checks_def
    proof (intro allI impI, elim conjE)
      fix s assume r: "body_ready n s" and src: "source_stmt (STMT_VAR pos m a name i)"
      then have "wp (check_var_decl pos m a name i s) (var_post n s a pos m name i)" by (intro check_var_decl_ok) simp_all
      from wpD [OF this] show "wp (check_stmt (STMT_VAR pos m a name i) s) (stmt_post n s (STMT_VAR pos m a name i))"
        by (auto simp: var_post_def stmt_post_def)
    qed
  next
    case (STMT_IF pos c b e)
    show ?case
      unfolding stmt_checks_def
    proof (intro allI impI, elim conjE)
      fix s assume r: "body_ready n s" and src: "source_stmt (STMT_IF pos c b e)"
      then have sc: "source_child c" and sb: "source_block b" by simp_all
      from wpD [OF check_condition_ok [OF r sc]] obtain c' s1 where x: "check_condition c (condition_of ''if'') s = Some (c', s1)"
        "cond_post n s c c' s1" by blast
      then have x': "body_ready n s1" "kept s s1" "strip_child c' = strip_child c" by (simp_all add: cond_post_def)
      note m1 = kept_moved [OF x'(2)]
      from block_checksE [OF STMT_IF(1) x'(1) sb] obtain b' s2 where y: "check_block b s1 = Some (b', s2)" "block_post n s1 b b' s2" .
      have y': "body_ready n s2" "moved s1 s2" "strip_block b' = strip_block b" "names s2 = names s1" using y(2) by (simp_all add: block_post_def)
      note m2 = moved_trans [OF m1 y'(2)] and n1 = kept_names(1) [OF x'(2)]
      have c2: "condition_typed (se_types s2) (type_names s) (names s) c'" if "nerr s2 = 0"
        using wt_later(3) [OF r x'(1) y'(1) m1 y'(2)] x(2) moved_nerr [OF y'(2) that] by (simp add: cond_post_def)
      have b2: "wt_block (se_types s2) (type_names s) (global_values s) (return_type s) (se_loop_depth s \<noteq> 0) (names s) b'" if "nerr s2 = 0"
        using y(2) that moved_context [OF r m1] n1 by (simp add: block_post_def)
      show "wp (check_stmt (STMT_IF pos c b e) s) (stmt_post n s (STMT_IF pos c b e))"
      proof (cases e)
        case None
        then show ?thesis
          using x(1) y(1) x'(3) y' m2 n1 W(3) [OF c2 b2] by (simp add: stmt_post_def)
      next
        case (Some el)
        have "stmt_checks n el" "source_stmt el" using STMT_IF(2) src Some by simp_all
        from stmt_checksE [OF this(1) y'(1) this(2)] obtain e' s3 where z: "check_stmt el s2 = Some (e', s3)" "body_ready n s3" "moved s2 s3"
          "strip_stmt e' = strip_stmt el"
          "nerr s3 = 0 \<longrightarrow> wt_stmt (se_types s3) (type_names s2) (global_values s2) (return_type s2) (se_loop_depth s2 \<noteq> 0) (names s2) e' (names s3)" .
        have "wt_stmt (se_types s3) (type_names s) (global_values s) (return_type s) (se_loop_depth s \<noteq> 0) (names s) (STMT_IF pos c' b' (Some e')) (names s3)"
          if e3: "nerr s3 = 0"
        proof (rule W(4))
          have e2: "nerr s2 = 0" by (rule moved_nerr [OF z(3) e3])
          show "condition_typed (se_types s3) (type_names s) (names s) c'" by (rule wt_later(3) [OF r y'(1) z(2) m2 z(3) c2 [OF e2]])
          show "wt_block (se_types s3) (type_names s) (global_values s) (return_type s) (se_loop_depth s \<noteq> 0) (names s) b'"
            by (rule wt_later(2) [OF r y'(1) z(2) m2 z(3) b2 [OF e2]])
          show "wt_stmt (se_types s3) (type_names s) (global_values s) (return_type s) (se_loop_depth s \<noteq> 0) (names s) e' (names s3)"
            using z(5) e3 moved_context [OF r m2] y'(4) n1 by simp
        qed
        then show ?thesis using Some x(1) y(1) z x'(3) y'(3) moved_trans [OF m2 z(3)] by (simp add: stmt_post_def)
      qed
    qed
  next
    case (STMT_WHILE pos c b)
    show ?case
      unfolding stmt_checks_def
    proof (intro allI impI, elim conjE)
      fix s assume r: "body_ready n s" and src: "source_stmt (STMT_WHILE pos c b)"
      then have sc: "source_child c" and sb: "source_block b" by simp_all
      from wpD [OF check_condition_ok [OF r sc]] obtain c' s1 where x: "check_condition c (condition_of ''while'') s = Some (c', s1)"
        "cond_post n s c c' s1" by blast
      then have x': "body_ready n s1" "kept s s1" "strip_child c' = strip_child c" by (simp_all add: cond_post_def)
      note m1 = kept_moved [OF x'(2)]
      have rl: "body_ready n (s1\<lparr>se_loop_depth := se_loop_depth s1 + 1\<rparr>)" using x'(1) by simp
      from block_checksE [OF STMT_WHILE rl sb] obtain b' s2 where y: "check_block b (s1\<lparr>se_loop_depth := se_loop_depth s1 + 1\<rparr>) = Some (b', s2)"
        "block_post n (s1\<lparr>se_loop_depth := se_loop_depth s1 + 1\<rparr>) b b' s2" .
      let ?s = "s2\<lparr>se_loop_depth := se_loop_depth s2 - 1\<rparr>"
      note w = while_ok [OF x'(1) y(2)]
      note m2 = moved_trans [OF m1 w(2)]
      have "wt_stmt (se_types ?s) (type_names s) (global_values s) (return_type s) (se_loop_depth s \<noteq> 0) (names s) (STMT_WHILE pos c' b') (names s)"
        if e: "nerr s2 = 0"
      proof (rule W(5))
        have "nerr s1 = 0" using moved_nerr [OF w(2)] e by simp
        then show "condition_typed (se_types ?s) (type_names s) (names s) c'"
          using wt_later(3) [OF r x'(1) w(1) m1 w(2)] x(2) by (simp add: cond_post_def)
        show "wt_block (se_types ?s) (type_names s) (global_values s) (return_type s) True (names s) b'"
          using w(5) [OF e] moved_context [OF r m1] kept_names(1) [OF x'(2)] by simp
      qed
      then show "wp (check_stmt (STMT_WHILE pos c b) s) (stmt_post n s (STMT_WHILE pos c b))"
        using x(1) y(1) w(1,3,4) x'(3) m2 kept_names(1) [OF x'(2)] by (simp add: stmt_post_def)
    qed
  next
    case (STMT_MATCH pos c arms)
    show ?case
      unfolding stmt_checks_def
    proof (intro allI impI, elim conjE)
      fix s assume r: "body_ready n s" and src: "source_stmt (STMT_MATCH pos c arms)"
      then have sc: "source_child c" and sa: "list_all source_arm arms" by simp_all
      from wpD [OF check_scrutinee_ok [OF r sc, of pos]] obtain t e' s1 where x: "check_scrutinee pos c s = Some ((t, Some e'), s1)"
        "body_ready n s1" "kept s s1" "strip_child (Some e') = strip_child c" "label_ready s1 t"
        "nerr s1 = 0 \<longrightarrow> typed (se_types s1) (type_names s) (names s) e' t" by auto
      note m1 = kept_moved [OF x(3)]
      have "\<forall>arm \<in> set arms. (case arm of MatchArm pos ls body \<Rightarrow> stmt_checks n body)"
        using STMT_MATCH by (auto split: match_arm.split)
      from wpD [OF check_arms_ok [OF this x(2) sa x(5)]] obtain arms' s2 where
        y: "check_arms t arms s1 = Some (arms', s2)" "arms_post n s1 t arms arms' s2" by blast
      have y': "body_ready n s2" "moved s1 s2" "map strip_arm arms' = map strip_arm arms" using y(2) by (simp_all add: arms_post_def)
      have "wt_stmt (se_types s2) (type_names s) (global_values s) (return_type s) (se_loop_depth s \<noteq> 0) (names s) (STMT_MATCH pos (Some e') arms') (names s2)"
        if e: "nerr s2 = 0"
      proof (rule W(6))
        have e1: "nerr s1 = 0" by (rule moved_nerr [OF y'(2) e])
        show "typed (se_types s2) (type_names s) (names s) e' t" using wt_later(4) [OF r x(2) y'(1) m1 y'(2)] x(6) e1 by blast
        show "ty_is_integer (ty_at (se_types s2) t) \<or> t_kind (ty_at (se_types s2) t) = TY_ENUM"
          using label_ready_moved [OF y'(2) x(5)] e by (simp add: label_ready_def ty_of_def kind_def)
        show "wt_arms (se_types s2) (type_names s) (global_values s) (return_type s) (se_loop_depth s \<noteq> 0) t (names s) arms' (names s2)"
          using y(2) e moved_context [OF r m1] kept_names(1) [OF x(3)] by (simp add: arms_post_def)
      qed
      then show "wp (check_stmt (STMT_MATCH pos c arms) s) (stmt_post n s (STMT_MATCH pos c arms))"
        using x(1,4) y(1) y' moved_trans [OF m1 y'(2)] by (simp add: stmt_post_def)
    qed
  next
    case (STMT_RETURN pos v)
    show ?case
      unfolding stmt_checks_def check_stmt.simps
      by (intro allI impI, elim conjE, rule flat_stmt, assumption, rule check_return_ok) simp_all
  next
    case (STMT_BREAK pos)
    show ?case
      unfolding stmt_checks_def
      using check_jump_ok [of n _ pos "''break''"] kept_moved kept_names(1) by (fastforce simp: stmt_post_def intro: W(9))
  next
    case (STMT_CONTINUE pos)
    show ?case
      unfolding stmt_checks_def
      using check_jump_ok [of n _ pos "''continue''"] kept_moved kept_names(1) by (fastforce simp: stmt_post_def intro: W(10))
  next
    case (STMT_EXPR pos e)
    show ?case
      unfolding stmt_checks_def
    proof (intro allI impI, elim conjE)
      fix s assume r: "body_ready n s" and src: "source_stmt (STMT_EXPR pos e)"
      then have "source_expr e" by simp
      from check_val [OF r this] obtain t e' s' where x: "check_value (Some e) s = Some ((t, Some e'), s')" "got n s e e' t s'"
        "nerr s' = 0 \<longrightarrow> typed_kind (kind s' t)" .
      note g = gotD [OF x(2)]
      show "wp (check_stmt (STMT_EXPR pos e) s) (stmt_post n s (STMT_EXPR pos e))"
        using x(1,3) g(3) got_ready [OF r x(2)] got_moved [OF x(2)] got_typed [OF r x(2)] kept_names(1) [OF g(2)]
        by (auto simp: stmt_post_def node_in_def kind_def intro!: W(11))
    qed
  next
    case (STMT_ASSIGN pos e op v)
    show ?case
      unfolding stmt_checks_def
    proof (intro allI impI, elim conjE)
      fix s assume r: "body_ready n s" and src: "source_stmt (STMT_ASSIGN pos e op v)"
      then have "wp (check_assign pos (Some e) op v s) (assign_post n s pos e op v)" by (intro check_assign_ok) simp_all
      from wpD [OF this] show "wp (check_stmt (STMT_ASSIGN pos e op v) s) (stmt_post n s (STMT_ASSIGN pos e op v))"
        by (auto simp: assign_post_def stmt_post_def node_in_def kept_moved kept_names(1))
    qed
  next
    case (STMT_EMPTY pos)
    show ?case using W(14) by (simp add: stmt_checks_def stmt_post_def)
  next
    case (Block ss pos)
    then show ?case by (intro check_block_ok) blast
  next
    case (MatchArm pos ls s)
    then show ?case by simp
  }
qed

end
