(* ===== verification/Slop_Sema_Collect.thy ===== *)
theory Slop_Sema_Collect
  imports Slop_Sema_Stmt_Sound
begin

text \<open>
  Pass 2 on whole programs: the items of the source and the functions and globals they declare, and what the global
  names stand for when the pass is over. The pass returns if the programs declare at most \<open>MAP_ROOM\<close> names; every
  global name is then an enum member or the function or global at its place; without an error every item has the name
  it declares.
\<close>

section \<open>The items of the source\<close>

definition source_fn :: "fn_decl \<Rightarrow> bool" where
  "source_fn fn \<longleftrightarrow> wf_type (fn_ret fn) \<and> list_all (\<lambda>p. wf_type (pr_type p)) (fn_params fn)
     \<and> (fn_has_body fn \<longrightarrow> source_block (fn_body fn))"

fun literal_node :: "expr_node \<Rightarrow> bool" where
  "literal_node (EXPR_INT v) = True"
| "literal_node (EXPR_CHAR v) = True"
| "literal_node (EXPR_FLOAT v) = True"
| "literal_node (EXPR_BOOL b) = True"
| "literal_node EXPR_NULL = True"
| "literal_node (EXPR_STRING s) = True"
| "literal_node u = False"

fun source_item :: "item \<Rightarrow> bool" where
  "source_item (ITEM_FN pos fn) = source_fn fn"
| "source_item (ITEM_STRUCT pos name fs) = list_all (\<lambda>f. wf_type (fd_type f)) fs"
| "source_item (ITEM_ENUM pos name b ms) = True"
| "source_item (ITEM_GLOBAL pos m t name init) = (wf_type t \<and> (case init of Some e \<Rightarrow> literal_node (ex_u e) | None \<Rightarrow> True))"
| "source_item (ITEM_EXTERN pos abi fns) = list_all source_fn fns"

definition source_programs :: "program list \<Rightarrow> bool" where
  "source_programs ps \<longleftrightarrow> list_all (\<lambda>p. list_all source_item (pg_items p)) ps"

text \<open>How many names an item declares at most.\<close>

fun item_names :: "item \<Rightarrow> nat" where
  "item_names (ITEM_FN pos fn) = 1"
| "item_names (ITEM_STRUCT pos name fs) = 1"
| "item_names (ITEM_ENUM pos name b ms) = length ms + 1"
| "item_names (ITEM_GLOBAL pos m t name init) = 1"
| "item_names (ITEM_EXTERN pos abi fns) = length fns"

definition program_names :: "program \<Rightarrow> nat" where
  "program_names p = sum_list (map item_names (pg_items p))"

definition declared_names :: "program list \<Rightarrow> nat" where
  "declared_names ps = sum_list (map program_names ps)"

text \<open>The functions and globals of an item, and those of the programs by their place.\<close>

datatype (plugins only: code size) entity = Fn_entity fn_decl bool | Global_entity bool ast_type string

fun entities :: "item \<Rightarrow> entity list" where
  "entities (ITEM_FN pos fn) = [Fn_entity fn False]"
| "entities (ITEM_GLOBAL pos m t name init) = [Global_entity m t name]"
| "entities (ITEM_EXTERN pos abi fns) = map (\<lambda>fn. Fn_entity fn True) fns"
| "entities it = []"

fun entity_name :: "entity \<Rightarrow> string" where
  "entity_name (Fn_entity fn ext) = fn_name fn"
| "entity_name (Global_entity m t name) = name"

type_synonym place = "nat \<times> nat \<times> nat"

definition entity_at :: "program list \<Rightarrow> place \<Rightarrow> entity option" where
  "entity_at ps pl = (case pl of (p, i, j) \<Rightarrow>
     if p < length ps \<and> i < length (pg_items (ps ! p)) \<and> j < length (entities (pg_items (ps ! p) ! i))
     then Some (entities (pg_items (ps ! p) ! i) ! j) else None)"

text \<open>The symbol of the entity at a place.\<close>

fun stands_for :: "sym \<Rightarrow> place \<Rightarrow> entity \<Rightarrow> bool" where
  "stands_for y pl (Fn_entity fn ext) \<longleftrightarrow> sy_kind y = SYM_FN \<and> sy_name y = fn_name fn \<and> sy_decl y = Some pl
     \<and> sy_is_variadic y = fn_is_variadic fn \<and> sy_is_extern y = ext"
| "stands_for y pl (Global_entity m t name) \<longleftrightarrow> sy_kind y = SYM_GLOBAL \<and> sy_name y = name
     \<and> sy_item y = Some (fst pl, fst (snd pl)) \<and> snd (snd pl) = 0 \<and> sy_is_mut y = m"

definition value_names :: "sema \<Rightarrow> string \<Rightarrow> symref option" where
  "value_names s = map_abs (gl_values (se_globals s))"

definition owns :: "sema \<Rightarrow> place \<Rightarrow> entity \<Rightarrow> symref \<Rightarrow> bool" where
  "owns s pl d y \<longleftrightarrow> value_names s (entity_name d) = Some y \<and> stands_for (sym_at s y) pl d"

text \<open>Every global name is an enum member's or that of an entity of the programs.\<close>

definition values_own :: "program list \<Rightarrow> sema \<Rightarrow> bool" where
  "values_own ps s \<longleftrightarrow> (\<forall>x y. value_names s x = Some y \<longrightarrow> sy_name (sym_at s y) = x \<and>
     (sy_kind (sym_at s y) = SYM_ENUM_MEMBER
      \<or> (\<exists>pl d. entity_at ps pl = Some d \<and> entity_name d = x \<and> stands_for (sym_at s y) pl d)))"

text \<open>What the names of an item stand for.\<close>

fun item_known :: "sema \<Rightarrow> nat \<Rightarrow> nat \<Rightarrow> item \<Rightarrow> bool" where
  "item_known s p i (ITEM_STRUCT pos name fs) \<longleftrightarrow>
     (\<exists>t. type_names s name = Some t \<and> kind s t = TY_STRUCT \<and> t_decl (ty_of s t) = Some (p, i))"
| "item_known s p i (ITEM_ENUM pos name b ms) \<longleftrightarrow>
     (\<exists>t. type_names s name = Some t \<and> kind s t = TY_ENUM \<and> t_base (ty_of s t) = ty_from_token (se_types s) b
       \<and> (\<forall>m \<in> set ms. \<exists>y. value_names s (em_name m) = Some y \<and> sy_kind (sym_at s y) = SYM_ENUM_MEMBER
             \<and> sy_type (sym_at s y) = Some t))"
| "item_known s p i (ITEM_EXTERN pos abi fns) \<longleftrightarrow> abi = ''c'' \<and> (\<forall>j < length fns. \<exists>y. owns s (p, i, j) (Fn_entity (fns ! j) True) y)"
| "item_known s p i (ITEM_FN pos fn) \<longleftrightarrow> (\<exists>y. owns s (p, i, 0) (Fn_entity fn False) y)"
| "item_known s p i (ITEM_GLOBAL pos m t name init) \<longleftrightarrow> (\<exists>y. owns s (p, i, 0) (Global_entity m t name) y)"

section \<open>What every pass keeps\<close>

definition sym_shape :: "sym \<Rightarrow> sym" where
  "sym_shape y = y\<lparr>sy_type := None, sy_params := []\<rparr>"

lemma sym_shapeD:
  assumes "sym_shape a = sym_shape b"
  shows "sy_kind a = sy_kind b" "sy_name a = sy_name b" "sy_decl a = sy_decl b" "sy_item a = sy_item b" "sy_is_mut a = sy_is_mut b"
    "sy_is_variadic a = sy_is_variadic b" "sy_is_extern a = sy_is_extern b" "sy_pos a = sy_pos b" "sy_value a = sy_value b"
  using assms by (cases a; cases b; simp add: sym_shape_def)+

lemma stands_for_shape: "sym_shape a = sym_shape b \<Longrightarrow> stands_for a pl d = stands_for b pl d"
  using sym_shapeD [of a b] by (cases d) simp_all

text \<open>Names stay, and symbols and types change only in what a pass finds out about them.\<close>

definition continues :: "sema \<Rightarrow> sema \<Rightarrow> bool" where
  "continues s s' \<longleftrightarrow> nerr s \<le> nerr s' \<and> type_names s \<subseteq>\<^sub>m type_names s' \<and> value_names s \<subseteq>\<^sub>m value_names s'
     \<and> length (se_syms s) \<le> length (se_syms s')
     \<and> (\<forall>y < length (se_syms s). sym_shape (sym_at s' y) = sym_shape (sym_at s y)
          \<and> (sy_kind (sym_at s y) = SYM_ENUM_MEMBER \<longrightarrow> sy_type (sym_at s' y) = sy_type (sym_at s y)))
     \<and> (\<forall>t. valid (se_types s) t \<longrightarrow> valid (se_types s') t \<and> kind s' t = kind s t \<and> t_decl (ty_of s' t) = t_decl (ty_of s t)
          \<and> t_base (ty_of s' t) = t_base (ty_of s t))"

lemma continues_refl [simp]: "continues s s"
  by (simp add: continues_def)

lemma continuesD:
  assumes "continues s s'"
  shows "nerr s \<le> nerr s'" "type_names s x = Some t \<Longrightarrow> type_names s' x = Some t" "value_names s x = Some y \<Longrightarrow> value_names s' x = Some y"
    "y < length (se_syms s) \<Longrightarrow> y < length (se_syms s')"
    "y < length (se_syms s) \<Longrightarrow> sym_shape (sym_at s' y) = sym_shape (sym_at s y)"
    "y < length (se_syms s) \<Longrightarrow> sy_kind (sym_at s y) = SYM_ENUM_MEMBER \<Longrightarrow> sy_type (sym_at s' y) = sy_type (sym_at s y)"
    "valid (se_types s) u \<Longrightarrow> valid (se_types s') u \<and> kind s' u = kind s u \<and> t_decl (ty_of s' u) = t_decl (ty_of s u)
       \<and> t_base (ty_of s' u) = t_base (ty_of s u)"
  using assms by (auto simp: continues_def map_le_def dom_def)

lemma continues_trans:
  assumes "continues s s'" "continues s' s''"
  shows "continues s s''"
proof -
  note A = continuesD [OF assms(1)] and B = continuesD [OF assms(2)]
  have "type_names s \<subseteq>\<^sub>m type_names s''" "value_names s \<subseteq>\<^sub>m value_names s''"
    using assms map_le_trans unfolding continues_def by blast+
  then show ?thesis
    using A B sym_shapeD(1) [OF A(5)] unfolding continues_def
    by (auto intro: le_trans) (metis assms continues_def le_trans)+
qed

lemma owned:
  assumes "sema_ok n s" "value_names s x = Some y"
  shows "y < length (se_syms s)"
  using sema_okD(5) [OF assms(1)] assms(2) by (simp add: value_names_def)

lemma owns_continues:
  assumes "sema_ok n s" "continues s s'" "owns s pl d y"
  shows "owns s' pl d y"
  using assms(3) continuesD(3,5) [OF assms(2)] owned [OF assms(1)] stands_for_shape
  unfolding owns_def by blast

lemma item_known_continues:
  assumes ok: "sema_ok n s" "sema_ok n' s'" and c: "continues s s'" and k: "item_known s p i it"
  shows "item_known s' p i it"
proof -
  note C = continuesD [OF c]
  have T: "valid (se_types s) t" if "type_names s x = Some t" for x t
    using sema_okD(4) [OF ok(1)] that by (simp add: type_names_def)
  have "ty_core (se_types s') = ty_core (se_types s)"
    using core_table [OF sema_okD(1) [OF ok(1)]] core_table [OF sema_okD(1) [OF ok(2)]] by (simp add: fun_eq_iff ty_core_def)
  then have tok: "ty_from_token (se_types s') b = ty_from_token (se_types s) b" for b
    unfolding ty_from_token_def by metis
  show ?thesis
  proof (cases it)
    case (ITEM_STRUCT pos name fs)
    then show ?thesis using k C(2,7) T by force
  next
    case (ITEM_ENUM pos name b ms)
    then obtain t where t: "type_names s name = Some t" "kind s t = TY_ENUM" "t_base (ty_of s t) = ty_from_token (se_types s) b"
      and m: "\<forall>m \<in> set ms. \<exists>y. value_names s (em_name m) = Some y \<and> sy_kind (sym_at s y) = SYM_ENUM_MEMBER \<and> sy_type (sym_at s y) = Some t"
      using k by auto
    have "\<exists>y. value_names s' (em_name m) = Some y \<and> sy_kind (sym_at s' y) = SYM_ENUM_MEMBER \<and> sy_type (sym_at s' y) = Some t"
      if mm: "m \<in> set ms" for m
    proof -
      obtain y where y: "value_names s (em_name m) = Some y" "sy_kind (sym_at s y) = SYM_ENUM_MEMBER" "sy_type (sym_at s y) = Some t"
        using m mm by blast
      show ?thesis using C(3) [OF y(1)] C(6) [OF owned [OF ok(1) y(1)] y(2)] sym_shapeD(1) [OF C(5) [OF owned [OF ok(1) y(1)]]] y by auto
    qed
    then show ?thesis using C(2) [OF t(1)] C(7) [OF T [OF t(1)]] t ITEM_ENUM tok by auto
  qed (use k owns_continues [OF ok(1) c] in \<open>fastforce+\<close>)
qed

lemma kept_continues: "kept s s' \<Longrightarrow> continues s s'"
  using types_grow_keeps [OF keptD(1)] kept_same [of s s'] keptD [of s s']
  by (auto simp: continues_def type_names_def value_names_def kind_def ty_of_def sym_at_def kept_valid)

lemma sema_ok_less: "sema_ok n s \<Longrightarrow> m \<le> n \<Longrightarrow> sema_ok m s"
  by (auto simp: sema_ok_def globals_ok_def)

section \<open>New types and symbols\<close>

lemma sema_ok_add_type:
  assumes ok: "sema_ok n s" and tt: "types_ok tt" "tt_heap tt = tt_heap (se_types s) @ [t]" and t: "t_fields t = []" "\<not> has_elem t"
  shows "sema_ok n (s\<lparr>se_types := tt\<rparr>)"
proof -
  have v: "valid tt r \<longleftrightarrow> valid (se_types s) r \<or> r = length (tt_heap (se_types s))" for r
    by (auto simp: valid_def tt(2))
  have old: "ty_at tt r = ty_at (se_types s) r" if "valid (se_types s) r" for r
    using that by (simp add: ty_at_def valid_def tt(2) nth_append)
  have new: "ty_at tt (length (tt_heap (se_types s))) = t" by (simp add: ty_at_def tt(2))
  have pr: "proper tt u = proper (se_types s) u" if "valid (se_types s) u" for u using old [OF that] by (simp add: proper_def)
  show ?thesis
  proof (rule sema_ok_types [OF ok tt(1)])
    show "fields_ok tt"
      using sema_okD(2) [OF ok] unfolding fields_ok_def v by (auto simp: old new t(1))
    show "clean_types tt" if z: "nerr s = 0"
      unfolding clean_types_def
    proof (intro allI impI conjI ballI)
      note C = sema_okD(11) [OF ok z, unfolded clean_types_def]
      fix r e assume r: "valid tt r" "has_elem (ty_at tt r) \<and> t_elem (ty_at tt r) = Some e"
      then have "valid (se_types s) r" using v new t(2) by auto
      then show "proper tt e" using elem_valid [OF sema_okD(1) [OF ok]] C r(2) old pr by fastforce
    next
      note C = sema_okD(11) [OF ok z, unfolded clean_types_def]
      fix r f u assume r: "valid tt r" "f \<in> set (t_fields (ty_at tt r))" "fs_type f = Some u"
      then have "valid (se_types s) r" using v new t(1) by auto
      then show "proper tt u" using sema_okD(2) [OF ok] C r(2,3) old pr by (fastforce simp: fields_ok_def)
    qed
  qed (use v old in auto)
qed

lemma struct_new:
  assumes "types_ok tt"
  obtains x tt' where "ty_struct_new tt name pos = (length (tt_heap tt), tt')" "types_ok tt'" "tt_heap tt' = tt_heap tt @ [x]"
    "t_kind x = TY_STRUCT" "t_fields x = []" "t_elem x = None"
proof -
  have "types_ok (snd (ty_struct_new tt name pos))" by (rule makes_ok [OF ty_named_makes(1) [OF assms]])
  with that show thesis by (simp add: ty_struct_new_def ty_new_def derived_push_def ty_zero_def)
qed

lemma enum_new:
  assumes "types_ok tt" "b < 12"
  obtains x tt' where "ty_enum_new tt name b pos = (length (tt_heap tt), tt')" "types_ok tt'" "tt_heap tt' = tt_heap tt @ [x]"
    "t_kind x = TY_ENUM" "t_fields x = []" "t_base x = Some b"
proof -
  have "types_ok (snd (ty_enum_new tt name b pos))" by (rule makes_ok [OF ty_named_makes(2) [OF assms]])
  with that show thesis by (simp add: ty_enum_new_def ty_new_def derived_push_def ty_zero_def)
qed

text \<open>A global name gets a new symbol, or a type.\<close>

definition value_added :: "string \<Rightarrow> sym \<Rightarrow> sema \<Rightarrow> sema \<Rightarrow> bool" where
  "value_added x y s s' \<longleftrightarrow> s' = s\<lparr>se_syms := se_syms s @ [y], se_globals := se_globals s'\<rparr>
     \<and> value_names s' = (value_names s)(x \<mapsto> length (se_syms s)) \<and> type_names s' = type_names s"

lemma add_value_ends:
  assumes ok: "sema_ok (Suc k) s" and y: "sym_ok (se_types s) y" "nerr s = 0 \<Longrightarrow> clean_sym (se_types s) y"
    and new: "value_names s x = None"
  shows "ends (case sym_new y s of (r, s) \<Rightarrow> add_value x r s) (\<lambda>s'. sema_ok k s' \<and> value_added x y s s')"
proof -
  obtain m where m: "globals_add_value (se_globals s) x (length (se_syms s)) = Some (True, se_globals s\<lparr>gl_values := m\<rparr>)"
    "globals_ok (se_globals s\<lparr>gl_values := m\<rparr>) k" "map_abs m = (map_abs (gl_values (se_globals s)))(x \<mapsto> length (se_syms s))"
    using globals_add_value_ok [OF sema_okD(3) [OF ok], of x "length (se_syms s)"] new by (auto simp: value_names_def)
  let ?s = "s\<lparr>se_syms := se_syms s @ [y], se_globals := se_globals s\<lparr>gl_values := m\<rparr>\<rparr>"
  have "sema_ok k ?s"
    using ok m(2,3) y by (auto simp: sema_ok_def nerr_def kind_def less_Suc_eq)
  moreover have "value_added x y s ?s" by (simp add: value_added_def value_names_def type_names_def m(3))
  ultimately show ?thesis by (simp add: sym_new_def add_value_def m(1))
qed

lemma value_addedD:
  assumes "value_added x y s s'"
  shows "se_types s' = se_types s" "se_programs s' = se_programs s" "se_cur_fn s' = se_cur_fn s" "se_scopes s' = se_scopes s"
    "se_loop_depth s' = se_loop_depth s" "nerr s' = nerr s" "se_syms s' = se_syms s @ [y]"
    "value_names s' = (value_names s)(x \<mapsto> length (se_syms s))" "type_names s' = type_names s"
proof -
  obtain g where "s' = s\<lparr>se_syms := se_syms s @ [y], se_globals := g\<rparr>" using assms unfolding value_added_def by metis
  then show "se_types s' = se_types s" "se_programs s' = se_programs s" "se_cur_fn s' = se_cur_fn s" "se_scopes s' = se_scopes s"
    "se_loop_depth s' = se_loop_depth s" "nerr s' = nerr s" "se_syms s' = se_syms s @ [y]" by (simp_all add: nerr_def)
  show "value_names s' = (value_names s)(x \<mapsto> length (se_syms s))" "type_names s' = type_names s"
    using assms by (simp_all add: value_added_def)
qed

lemma value_added_sym:
  assumes "value_added x y s s'"
  shows "sym_at s' (length (se_syms s)) = y" "r < length (se_syms s) \<Longrightarrow> sym_at s' r = sym_at s r"
  using value_addedD(7) [OF assms] by (simp_all add: sym_at_def nth_append)

lemma value_added_continues:
  "value_added x y s s' \<Longrightarrow> value_names s x = None \<Longrightarrow> continues s s'"
  using value_addedD [of x y s s'] value_added_sym(2) [of x y s s']
  by (auto simp: continues_def kind_def ty_of_def map_le_def)

lemma values_own_add:
  assumes ok: "sema_ok n s" and v: "value_added x y s s'" and own: "values_own ps s"
    and y: "sy_name y = x" "sy_kind y = SYM_ENUM_MEMBER \<or> (\<exists>pl d. entity_at ps pl = Some d \<and> entity_name d = x \<and> stands_for y pl d)"
  shows "values_own ps s'"
  using own y value_addedD(8) [OF v] value_added_sym [OF v] owned [OF ok] by (fastforce simp: values_own_def)

definition type_added :: "string \<Rightarrow> tyref \<Rightarrow> sema \<Rightarrow> sema \<Rightarrow> bool" where
  "type_added x t s s' \<longleftrightarrow> s' = s\<lparr>se_globals := se_globals s'\<rparr> \<and> type_names s' = (type_names s)(x \<mapsto> t) \<and> value_names s' = value_names s"

lemma add_type_ends:
  assumes ok: "sema_ok (Suc k) s" and t: "valid (se_types s) t" "kind s t \<in> {TY_STRUCT, TY_ENUM}" and new: "type_names s x = None"
  shows "ends (add_type x t s) (\<lambda>s'. sema_ok k s' \<and> type_added x t s s')"
proof -
  obtain m where m: "globals_add_type (se_globals s) x t = Some (True, se_globals s\<lparr>gl_types := m\<rparr>)"
    "globals_ok (se_globals s\<lparr>gl_types := m\<rparr>) k" "map_abs m = (map_abs (gl_types (se_globals s)))(x \<mapsto> t)"
    using globals_add_type_ok [OF sema_okD(3) [OF ok], of x t] new by (auto simp: type_names_def)
  let ?s = "s\<lparr>se_globals := se_globals s\<lparr>gl_types := m\<rparr>\<rparr>"
  have "sema_ok k ?s" using ok m(2,3) t by (auto simp: sema_ok_def nerr_def kind_def)
  moreover have "type_added x t s ?s" by (simp add: type_added_def value_names_def type_names_def m(3))
  ultimately show ?thesis by (simp add: add_type_def m(1))
qed

lemma type_addedD:
  assumes "type_added x t s s'"
  shows "se_types s' = se_types s" "se_programs s' = se_programs s" "se_cur_fn s' = se_cur_fn s" "se_scopes s' = se_scopes s"
    "se_loop_depth s' = se_loop_depth s" "nerr s' = nerr s" "se_syms s' = se_syms s"
    "type_names s' = (type_names s)(x \<mapsto> t)" "value_names s' = value_names s"
proof -
  obtain g where "s' = s\<lparr>se_globals := g\<rparr>" using assms unfolding type_added_def by metis
  then show "se_types s' = se_types s" "se_programs s' = se_programs s" "se_cur_fn s' = se_cur_fn s" "se_scopes s' = se_scopes s"
    "se_loop_depth s' = se_loop_depth s" "nerr s' = nerr s" "se_syms s' = se_syms s" by (simp_all add: nerr_def)
  show "type_names s' = (type_names s)(x \<mapsto> t)" "value_names s' = value_names s"
    using assms by (simp_all add: type_added_def)
qed

lemma type_added_continues: "type_added x t s s' \<Longrightarrow> type_names s x = None \<Longrightarrow> continues s s'"
  using type_addedD [of x t s s'] by (auto simp: continues_def kind_def ty_of_def map_le_def sym_at_def)

section \<open>Pass 2\<close>

definition collecting :: "program list \<Rightarrow> nat \<Rightarrow> sema \<Rightarrow> bool" where
  "collecting ps k s \<longleftrightarrow> sema_ok k s \<and> se_programs s = ps \<and> se_cur_fn s = None \<and> se_scopes s = scopes_init \<and> se_loop_depth s = 0
     \<and> values_own ps s"

definition collects :: "program list \<Rightarrow> nat \<Rightarrow> sema \<Rightarrow> sema \<Rightarrow> bool" where
  "collects ps k s s' \<longleftrightarrow> collecting ps k s' \<and> continues s s'"

lemma collects_trans: "collects ps k s s' \<Longrightarrow> collects ps k' s' s'' \<Longrightarrow> collects ps k' s s''"
  using continues_trans by (auto simp: collects_def)

lemma collecting_less: "collecting ps n s \<Longrightarrow> m \<le> n \<Longrightarrow> collecting ps m s"
  using sema_ok_less by (auto simp: collecting_def)

lemma values_own_same:
  "value_names s' = value_names s \<Longrightarrow> se_syms s' = se_syms s \<Longrightarrow> values_own ps s \<Longrightarrow> values_own ps s'"
  by (simp add: values_own_def sym_at_def)

lemma kept_collects:
  assumes "collecting ps n s" "kept s s'" "sema_ok n s'"
  shows "collects ps n s s'"
proof -
  note K = kept_same [OF assms(2)]
  have "values_own ps s'" using assms(1) K by (auto intro: values_own_same simp: collecting_def value_names_def)
  then show ?thesis using assms K kept_continues [OF assms(2)] by (simp add: collects_def collecting_def)
qed

lemma error_collects: "collecting ps n s \<Longrightarrow> after_error n s s' \<Longrightarrow> collects ps n s s' \<and> 0 < nerr s'"
  using kept_collects by (simp add: after_error_def)

lemma find_value: "sema_ok n s \<Longrightarrow> globals_find_value (se_globals s) x = Some (value_names s x)"
  using sema_okD(3) [of n s] by (simp add: globals_find_value_def globals_ok_def nm.get_abs value_names_def)

lemma find_type: "sema_ok n s \<Longrightarrow> globals_find_type (se_globals s) x = Some (type_names s x)"
  using sema_okD(3) [of n s] by (simp add: globals_find_type_def globals_ok_def nm.get_abs type_names_def)

text \<open>A new global name, of a function, a global or an enum member.\<close>

lemma value_ends:
  assumes c: "collecting ps (Suc k) s" and y: "sym_ok (se_types s) y" "nerr s = 0 \<Longrightarrow> clean_sym (se_types s) y" "sy_name y = x"
    and own: "sy_kind y = SYM_ENUM_MEMBER \<or> (\<exists>pl d. entity_at ps pl = Some d \<and> entity_name d = x \<and> stands_for y pl d)"
  shows "ends (case value_names s x of Some r \<Rightarrow> duplicate_of pos what (sy_pos (sym_at s r)) s
      | None \<Rightarrow> (case sym_new y s of (r, s) \<Rightarrow> add_value x r s))
    (\<lambda>s'. collects ps k s s' \<and> se_types s' = se_types s
      \<and> (nerr s' = 0 \<longrightarrow> (\<exists>r. value_names s' x = Some r \<and> sym_at s' r = y)))"
proof -
  have ok: "sema_ok (Suc k) s" using c by (simp add: collecting_def)
  show ?thesis
  proof (cases "value_names s x")
    case None
    show ?thesis
      unfolding None option.case
    proof (rule ends_mono [OF add_value_ends [OF ok y(1,2) None]])
      fix s' assume a: "sema_ok k s' \<and> value_added x y s s'"
      then have v: "value_added x y s s'" by simp
      have "values_own ps s'" using c by (intro values_own_add [OF ok v _ y(3) own]) (simp add: collecting_def)
      then have "collects ps k s s'"
        using a c value_addedD [OF v] value_added_continues [OF v None] by (simp add: collects_def collecting_def)
      then show "collects ps k s s' \<and> se_types s' = se_types s
          \<and> (nerr s' = 0 \<longrightarrow> (\<exists>r. value_names s' x = Some r \<and> sym_at s' r = y))"
        using value_addedD(1,8) [OF v] value_added_sym(1) [OF v] by simp
    qed
  next
    case (Some r)
    have "ends (duplicate_of pos what (sy_pos (sym_at s r)) s) (\<lambda>s'. collects ps k s s' \<and> se_types s' = se_types s \<and> 0 < nerr s')"
      by (rule ends_mono [OF duplicate_ends [OF ok]])
        (use error_collects [OF c] collecting_less [of ps "Suc k" _ k] in \<open>force simp: after_error_def collects_def\<close>)
    then show ?thesis unfolding Some option.case by (rule ends_mono) simp
  qed
qed

lemma collect_fn_ends:
  assumes c: "collecting ps (Suc k) s" and d: "entity_at ps pl = Some (Fn_entity fn ext)"
  shows "ends (collect_fn pl fn ext s)
    (\<lambda>s'. collects ps k s s' \<and> (nerr s' = 0 \<longrightarrow> (\<exists>y. owns s' pl (Fn_entity fn ext) y)))"
proof -
  have ok: "sema_ok (Suc k) s" using c by (simp add: collecting_def)
  let ?y = "(sym_zero SYM_FN (fn_name fn) (fn_pos fn))\<lparr>sy_decl := Some pl, sy_is_variadic := fn_is_variadic fn, sy_is_extern := ext\<rparr>"
  have y: "sym_ok (se_types s) ?y" "clean_sym (se_types s) ?y" "sy_name ?y = fn_name fn" "stands_for ?y pl (Fn_entity fn ext)"
    by (simp_all add: sym_ok_def clean_sym_def sym_zero_def)
  have "ends (case value_names s (fn_name fn) of
        Some r \<Rightarrow> duplicate_of (fn_pos fn) (''declaration of '' @ quote (fn_name fn)) (sy_pos (sym_at s r)) s
      | None \<Rightarrow> (case sym_new ?y s of (r, s) \<Rightarrow> add_value (fn_name fn) r s))
    (\<lambda>s'. collects ps k s s' \<and> se_types s' = se_types s \<and> (nerr s' = 0 \<longrightarrow> (\<exists>r. value_names s' (fn_name fn) = Some r \<and> sym_at s' r = ?y)))"
    by (rule value_ends [OF c y(1-3)]) (intro disjI2 exI [of _ pl] exI [of _ "Fn_entity fn ext"], use y(4) d in simp)
  then show ?thesis
    unfolding collect_fn_def find_value [OF ok] Option.bind.simps Let_def
    by (rule ends_mono) (use y(4) in \<open>auto simp: owns_def\<close>)
qed

lemma collect_global_ends:
  assumes c: "collecting ps (Suc k) s" and d: "entity_at ps (p, i, 0) = Some (Global_entity m t name)"
  shows "ends (collect_global (p, i) pos m name s)
    (\<lambda>s'. collects ps k s s' \<and> (nerr s' = 0 \<longrightarrow> (\<exists>y. owns s' (p, i, 0) (Global_entity m t name) y)))"
proof -
  have ok: "sema_ok (Suc k) s" using c by (simp add: collecting_def)
  let ?y = "(sym_zero SYM_GLOBAL name pos)\<lparr>sy_is_mut := m, sy_item := Some (p, i)\<rparr>"
  have y: "sym_ok (se_types s) ?y" "clean_sym (se_types s) ?y" "sy_name ?y = name" "stands_for ?y (p, i, 0) (Global_entity m t name)"
    by (simp_all add: sym_ok_def clean_sym_def sym_zero_def)
  have "ends (case value_names s name of
        Some r \<Rightarrow> duplicate_of pos (''declaration of '' @ quote name) (sy_pos (sym_at s r)) s
      | None \<Rightarrow> (case sym_new ?y s of (r, s) \<Rightarrow> add_value name r s))
    (\<lambda>s'. collects ps k s s' \<and> se_types s' = se_types s \<and> (nerr s' = 0 \<longrightarrow> (\<exists>r. value_names s' name = Some r \<and> sym_at s' r = ?y)))"
    by (rule value_ends [OF c y(1-3)]) (intro disjI2 exI [of _ "(p, i, 0)"] exI [of _ "Global_entity m t name"], use y(4) d in simp)
  then show ?thesis
    unfolding collect_global_def find_value [OF ok] Option.bind.simps Let_def
    by (rule ends_mono) (use y(4) in \<open>auto simp: owns_def\<close>)
qed

lemma collect_fns_ends:
  assumes "\<And>l. l < length fns \<Longrightarrow> entity_at ps (p, i, j + l) = Some (Fn_entity (fns ! l) True)"
    and "collecting ps (length fns + k) s"
  shows "ends (collect_fns p i j fns s)
    (\<lambda>s'. collects ps k s s' \<and> (nerr s' = 0 \<longrightarrow> (\<forall>l < length fns. \<exists>y. owns s' (p, i, j + l) (Fn_entity (fns ! l) True) y)))"
  using assms
proof (induction fns arbitrary: j s)
  case Nil
  then show ?case by (simp add: collects_def)
next
  case (Cons fn fns)
  have c: "collecting ps (Suc (length fns + k)) s" using Cons.prems(2) by simp
  have d: "entity_at ps (p, i, j) = Some (Fn_entity fn True)" using Cons.prems(1) [of 0] by simp
  have next_ps: "entity_at ps (p, i, j + 1 + l) = Some (Fn_entity (fns ! l) True)" if "l < length fns" for l
    using Cons.prems(1) [of "Suc l"] that by simp
  show ?case
    unfolding collect_fns.simps
  proof (rule ends_bind [OF collect_fn_ends [OF c d]])
    fix s1 assume s1: "collects ps (length fns + k) s s1 \<and> (nerr s1 = 0 \<longrightarrow> (\<exists>y. owns s1 (p, i, j) (Fn_entity fn True) y))"
    then have c1: "collecting ps (length fns + k) s1" by (simp add: collects_def)
    have ok1: "sema_ok (length fns + k) s1" using c1 by (simp add: collecting_def)
    show "ends (collect_fns p i (j + 1) fns s1)
      (\<lambda>s'. collects ps k s s' \<and> (nerr s' = 0 \<longrightarrow>
         (\<forall>l < length (fn # fns). \<exists>y. owns s' (p, i, j + l) (Fn_entity ((fn # fns) ! l) True) y)))"
    proof (rule ends_mono [OF Cons.IH [OF next_ps c1]])
      fix s' assume s': "collects ps k s1 s' \<and> (nerr s' = 0 \<longrightarrow>
         (\<forall>l < length fns. \<exists>y. owns s' (p, i, j + 1 + l) (Fn_entity (fns ! l) True) y))"
      then have q: "continues s1 s'" by (simp add: collects_def)
      have "\<exists>y. owns s' (p, i, j + l) (Fn_entity ((fn # fns) ! l) True) y" if z: "nerr s' = 0" "l < length (fn # fns)" for l
      proof (cases l)
        case 0
        have "nerr s1 = 0" using continuesD(1) [OF q] z(1) by simp
        then obtain y where "owns s1 (p, i, j) (Fn_entity fn True) y" using s1 by blast
        from owns_continues [OF ok1 q this] 0 show ?thesis by auto
      next
        case (Suc l')
        then show ?thesis using s' z by auto
      qed
      then show "collects ps k s s' \<and> (nerr s' = 0 \<longrightarrow>
         (\<forall>l < length (fn # fns). \<exists>y. owns s' (p, i, j + l) (Fn_entity ((fn # fns) ! l) True) y))"
        using s1 s' collects_trans by blast
    qed simp
  qed
qed

lemma collect_struct_ends:
  assumes c: "collecting ps (Suc k) s"
  shows "ends (collect_struct (p, i) pos name s) (\<lambda>s'. collects ps k s s' \<and> (nerr s' = 0 \<longrightarrow>
    (\<exists>t. type_names s' name = Some t \<and> kind s' t = TY_STRUCT \<and> t_decl (ty_of s' t) = Some (p, i))))"
proof -
  have ok: "sema_ok (Suc k) s" using c by (simp add: collecting_def)
  show ?thesis
  proof (cases "type_names s name")
    case (Some t)
    have "ends (duplicate_of pos (''declaration of type '' @ quote name) (t_pos (ty_of s t)) s) (\<lambda>s'. collects ps k s s' \<and> 0 < nerr s')"
      by (rule ends_mono [OF duplicate_ends [OF ok]])
        (use error_collects [OF c] collecting_less [of ps "Suc k" _ k] in \<open>force simp: after_error_def collects_def\<close>)
    then show ?thesis
      unfolding collect_struct_def find_type [OF ok] Option.bind.simps Some option.case by (rule ends_mono) simp
  next
    case None
    from struct_new [OF sema_okD(1) [OF ok], of name pos]
    obtain x tt where n: "ty_struct_new (se_types s) name pos = (length (tt_heap (se_types s)), tt)" "types_ok tt"
      "tt_heap tt = tt_heap (se_types s) @ [x]" "t_kind x = TY_STRUCT" "t_fields x = []" "t_elem x = None" .
    let ?t = "length (tt_heap (se_types s))" and ?s1 = "s\<lparr>se_types := tt\<rparr>"
    let ?s2 = "ty_set ?t (\<lambda>x. x\<lparr>t_decl := Some (p, i)\<rparr>) ?s1"
    have ok1: "sema_ok (Suc k) ?s1" by (rule sema_ok_add_type [OF ok n(2,3,5)]) (simp add: has_elem_def n(4))
    have t1: "valid tt ?t" "ty_of ?s1 ?t = x" by (simp_all add: valid_def n(3) ty_of_def ty_at_def)
    have ok2: "sema_ok (Suc k) ?s2"
      by (rule ty_set_ok [OF ok1]) (use t1 n(4-6) in \<open>simp_all add: kind_def ty_of_def\<close>)
    have at2: "ty_of ?s2 r = (if r = ?t then x\<lparr>t_decl := Some (p, i)\<rparr> else ty_of s r)" if "valid tt r" for r
      using that ty_set_at(1) [of ?s1 r ?t] t1(2) by (auto simp: ty_of_def ty_at_def n(3) nth_append valid_def)
    have v2: "valid (se_types ?s2) r = valid tt r" for r by (simp add: ty_set_at(2))
    have t2: "valid (se_types ?s2) ?t" "kind ?s2 ?t \<in> {TY_STRUCT, TY_ENUM}"
      using v2 t1(1) at2 [OF t1(1)] n(4) by (simp_all add: kind_def ty_of_def)
    have new2: "type_names ?s2 name = None" using None by (simp add: type_names_def ty_set_def)
    have c2: "continues s ?s2"
      using at2 by (auto simp: continues_def ty_set_def type_names_def value_names_def nerr_def sym_at_def kind_def ty_of_def valid_def n(3))
    have g: "ends (add_type name ?t ?s2) (\<lambda>s'. collects ps k s s' \<and> (nerr s' = 0 \<longrightarrow>
        (\<exists>t. type_names s' name = Some t \<and> kind s' t = TY_STRUCT \<and> t_decl (ty_of s' t) = Some (p, i))))"
    proof (rule ends_mono [OF add_type_ends [OF ok2 t2 new2]])
      fix s' assume a: "sema_ok k s' \<and> type_added name ?t ?s2 s'"
      then have A: "type_added name ?t ?s2 s'" by simp
      note D = type_addedD [OF A]
      have same: "value_names ?s2 = value_names s" "se_syms ?s2 = se_syms s" by (simp_all add: ty_set_def value_names_def)
      have "values_own ps s'" using c by (intro values_own_same [OF _ _, of s' s]) (simp_all add: D same collecting_def)
      moreover have "continues s s'" by (rule continues_trans [OF c2 type_added_continues [OF A new2]])
      ultimately have "collects ps k s s'" using c a by (simp add: collects_def collecting_def D) (simp add: ty_set_def)
      then show "collects ps k s s' \<and> (nerr s' = 0 \<longrightarrow>
          (\<exists>t. type_names s' name = Some t \<and> kind s' t = TY_STRUCT \<and> t_decl (ty_of s' t) = Some (p, i)))"
        using at2 [OF t1(1)] n(4) by (simp add: D kind_def ty_of_def)
    qed
    show ?thesis
      unfolding collect_struct_def find_type [OF ok] Option.bind.simps None option.case n(1) Let_def prod.case by (rule g)
  qed
qed

text \<open>The members of an enum are written to its type when all are known.\<close>

lemma set_members_ok:
  assumes c: "collecting ps n s" and v: "valid (se_types s) t" and k: "kind s t = TY_ENUM"
  shows "collects ps n s (ty_set t (\<lambda>x. x\<lparr>t_members := es\<rparr>) s)"
proof -
  have ok: "sema_ok n s" using c by (simp add: collecting_def)
  let ?tt = "(se_types s)\<lparr>tt_heap := (tt_heap (se_types s))[t := (ty_of s t)\<lparr>t_members := es\<rparr>]\<rparr>"
  have e: "ty_set t (\<lambda>x. x\<lparr>t_members := es\<rparr>) s = s\<lparr>se_types := ?tt\<rparr>" by (simp add: ty_set_def)
  have T: "types_ok ?tt" using types_ok_members [OF sema_okD(1) [OF ok] v] k by (simp add: kind_def ty_of_def)
  have val: "valid ?tt r = valid (se_types s) r" for r by (simp add: valid_def)
  have at: "ty_at ?tt r = (if r = t then (ty_of s t)\<lparr>t_members := es\<rparr> else ty_at (se_types s) r)" if "valid (se_types s) r" for r
    using that by (auto simp: ty_at_def valid_def)
  have same: "t_kind (ty_at ?tt r) = t_kind (ty_at (se_types s) r)" "t_fields (ty_at ?tt r) = t_fields (ty_at (se_types s) r)"
    "t_elem (ty_at ?tt r) = t_elem (ty_at (se_types s) r)" "t_decl (ty_at ?tt r) = t_decl (ty_at (se_types s) r)"
    "t_base (ty_at ?tt r) = t_base (ty_at (se_types s) r)" if "valid (se_types s) r" for r
    using at [OF that] by (simp_all add: ty_of_def)
  have pr: "proper ?tt r = proper (se_types s) r" if "valid (se_types s) r" for r
    using same(1) [OF that] by (simp add: proper_def)
  have "sema_ok n (s\<lparr>se_types := ?tt\<rparr>)"
  proof (rule sema_ok_types [OF ok T])
    show "fields_ok ?tt" using sema_okD(2) [OF ok] by (simp add: fields_ok_def val same)
    show "clean_types ?tt" if z: "nerr s = 0"
      unfolding clean_types_def val
    proof (intro allI impI conjI ballI)
      note C = sema_okD(11) [OF ok z, unfolded clean_types_def]
      fix r u assume r: "valid (se_types s) r" "has_elem (ty_at ?tt r) \<and> t_elem (ty_at ?tt r) = Some u"
      then have "has_elem (ty_at (se_types s) r)" "t_elem (ty_at (se_types s) r) = Some u"
        using same [OF r(1)] by (simp_all add: has_elem_def)
      then show "proper ?tt u" using elem_valid [OF sema_okD(1) [OF ok] r(1)] C r(1) pr by auto
    next
      note C = sema_okD(11) [OF ok z, unfolded clean_types_def]
      fix r f u assume r: "valid (se_types s) r" "f \<in> set (t_fields (ty_at ?tt r))" "fs_type f = Some u"
      then have f: "f \<in> set (t_fields (ty_at (se_types s) r))" using same [OF r(1)] by simp
      then have "valid (se_types s) u" using sema_okD(2) [OF ok] r(1,3) by (fastforce simp: fields_ok_def)
      then show "proper ?tt u" using C r(1,3) f pr by auto
    qed
  qed (use same val in auto)
  moreover have "values_own ps (s\<lparr>se_types := ?tt\<rparr>)"
    by (rule values_own_same [of _ s]) (use c in \<open>simp_all add: collecting_def value_names_def\<close>)
  moreover have "continues s (s\<lparr>se_types := ?tt\<rparr>)"
    using same by (simp add: continues_def type_names_def value_names_def nerr_def sym_at_def kind_def ty_of_def val valid_def)
  ultimately show ?thesis using c unfolding e by (simp add: collects_def collecting_def)
qed

lemma collect_members_ends:
  assumes "collecting ps (length ms + k) s" "valid (se_types s) t" "kind s t = TY_ENUM" "valid (se_types s) b"
  shows "ends (collect_members t b next ms s) (\<lambda>(es, s'). collects ps k s s' \<and> se_types s' = se_types s \<and>
    (nerr s' = 0 \<longrightarrow> (\<forall>m \<in> set ms. \<exists>y. value_names s' (em_name m) = Some y \<and> sy_kind (sym_at s' y) = SYM_ENUM_MEMBER
       \<and> sy_type (sym_at s' y) = Some t)))"
  using assms
proof (induction ms arbitrary: "next" s)
  case Nil
  then show ?case by (simp add: collects_def)
next
  case (Cons m ms)
  have c: "collecting ps (Suc (length ms + k)) s" using Cons.prems(1) by simp
  then have ok: "sema_ok (Suc (length ms + k)) s" by (simp add: collecting_def)
  let ?v = "if em_has_value m then em_value m else next"
  let ?y = "(sym_zero SYM_ENUM_MEMBER (em_name m) (em_pos m))\<lparr>sy_type := Some t, sy_value := ?v\<rparr>"
  obtain fits where f: "ty_int_fits (se_types s) b ?v = Some fits"
    using ty_int_fits_ok [OF sema_okD(1) [OF ok] Cons.prems(4), of ?v] by blast
  have one: "ends (if \<not> fits
                then serror (em_pos m) [Txt ''enum value '', Num (unat ?v), Txt '' does not fit in '', TyName 64 b] s
                else Some s) (\<lambda>s'. collecting ps (Suc (length ms + k)) s' \<and> continues s s' \<and> se_types s' = se_types s
                  \<and> value_names s' = value_names s)"
  proof (cases fits)
    case False
    have "ends (serror (em_pos m) [Txt ''enum value '', Num (unat ?v), Txt '' does not fit in '', TyName 64 b] s) (after_error (Suc (length ms + k)) s)"
      by (rule serror_ends [OF ok]) (simp add: Cons.prems(4))
    then have "ends (serror (em_pos m) [Txt ''enum value '', Num (unat ?v), Txt '' does not fit in '', TyName 64 b] s)
      (\<lambda>s'. collecting ps (Suc (length ms + k)) s' \<and> continues s s' \<and> se_types s' = se_types s \<and> value_names s' = value_names s)"
    proof (rule ends_mono)
      fix s' assume a: "after_error (Suc (length ms + k)) s s'"
      then have "value_names s' = value_names s" using kept_same(1) [of s s'] by (simp add: after_error_def value_names_def)
      then show "collecting ps (Suc (length ms + k)) s' \<and> continues s s' \<and> se_types s' = se_types s \<and> value_names s' = value_names s"
        using error_collects [OF c a] a by (simp add: collects_def after_error_def)
    qed
    with False show ?thesis by simp
  qed (use c in simp)
  show ?case
    unfolding collect_members.simps find_value [OF ok] Option.bind.simps Let_def f
  proof (rule ends_bind [OF one])
    fix s1 assume s1: "collecting ps (Suc (length ms + k)) s1 \<and> continues s s1 \<and> se_types s1 = se_types s \<and> value_names s1 = value_names s"
    have t1: "kind s1 t = TY_ENUM" "valid (se_types s1) t" using s1 Cons.prems(2,3) by (simp_all add: kind_def)
    have "ends (case value_names s1 (em_name m) of
          Some y \<Rightarrow> duplicate_of (em_pos m) (''declaration of '' @ quote (em_name m)) (sy_pos (sym_at s1 y)) s1
        | None \<Rightarrow> (case sym_new ?y s1 of (y, s) \<Rightarrow> add_value (em_name m) y s))
      (\<lambda>s'. collects ps (length ms + k) s1 s' \<and> se_types s' = se_types s1
        \<and> (nerr s' = 0 \<longrightarrow> (\<exists>r. value_names s' (em_name m) = Some r \<and> sym_at s' r = ?y)))"
      using s1 t1 by (intro value_ends)
        (simp_all add: sym_ok_def clean_sym_def sym_zero_def proper_def kind_def typed_kind_def)
    then show "ends (do { s \<leftarrow> (case value_names s (em_name m) of
          Some y \<Rightarrow> duplicate_of (em_pos m) (''declaration of '' @ quote (em_name m)) (sy_pos (sym_at s1 y)) s1
        | None \<Rightarrow> (case sym_new ?y s1 of (y, s) \<Rightarrow> add_value (em_name m) y s));
          (es, s) \<leftarrow> collect_members t b (?v + 1) ms s;
          Some (\<lparr>es_name = em_name m, es_value = ?v, es_pos = em_pos m\<rparr> # es, s) })
      (\<lambda>(es, s'). collects ps k s s' \<and> se_types s' = se_types s \<and>
        (nerr s' = 0 \<longrightarrow> (\<forall>m \<in> set (m # ms). \<exists>y. value_names s' (em_name m) = Some y \<and> sy_kind (sym_at s' y) = SYM_ENUM_MEMBER
           \<and> sy_type (sym_at s' y) = Some t)))"
      unfolding conjunct2 [OF conjunct2 [OF conjunct2 [OF s1]], symmetric]
    proof (rule ends_bind)
      fix s2 assume s2: "collects ps (length ms + k) s1 s2 \<and> se_types s2 = se_types s1
        \<and> (nerr s2 = 0 \<longrightarrow> (\<exists>r. value_names s2 (em_name m) = Some r \<and> sym_at s2 r = ?y))"
      then have c2: "collecting ps (length ms + k) s2" "continues s s2"
        using s1 continues_trans by (auto simp: collects_def)
      have ok2: "sema_ok (length ms + k) s2" using c2(1) by (simp add: collecting_def)
      have t2: "valid (se_types s2) t" "kind s2 t = TY_ENUM" "valid (se_types s2) b"
        using s2 s1 Cons.prems(2-4) by (simp_all add: kind_def)
      show "ends (do { (es, s) \<leftarrow> collect_members t b (?v + 1) ms s2;
            Some (\<lparr>es_name = em_name m, es_value = ?v, es_pos = em_pos m\<rparr> # es, s) })
        (\<lambda>(es, s'). collects ps k s s' \<and> se_types s' = se_types s \<and>
          (nerr s' = 0 \<longrightarrow> (\<forall>m \<in> set (m # ms). \<exists>y. value_names s' (em_name m) = Some y \<and> sy_kind (sym_at s' y) = SYM_ENUM_MEMBER
             \<and> sy_type (sym_at s' y) = Some t)))"
      proof (rule ends_bind [OF Cons.IH [OF c2(1) t2]])
        fix r :: "enum_sym list \<times> sema" assume "case r of (es, s') \<Rightarrow> collects ps k s2 s' \<and> se_types s' = se_types s2 \<and>
          (nerr s' = 0 \<longrightarrow> (\<forall>m \<in> set ms. \<exists>y. value_names s' (em_name m) = Some y \<and> sy_kind (sym_at s' y) = SYM_ENUM_MEMBER
             \<and> sy_type (sym_at s' y) = Some t))"
        then obtain es s' where r: "r = (es, s')" and s': "collects ps k s2 s'" "se_types s' = se_types s2"
          "nerr s' = 0 \<longrightarrow> (\<forall>m \<in> set ms. \<exists>y. value_names s' (em_name m) = Some y \<and> sy_kind (sym_at s' y) = SYM_ENUM_MEMBER
             \<and> sy_type (sym_at s' y) = Some t)" by (cases r) auto
        then have q: "continues s2 s'" by (simp add: collects_def)
        have "\<exists>y. value_names s' (em_name m) = Some y \<and> sy_kind (sym_at s' y) = SYM_ENUM_MEMBER \<and> sy_type (sym_at s' y) = Some t"
          if z: "nerr s' = 0"
        proof -
          obtain r where r: "value_names s2 (em_name m) = Some r" "sym_at s2 r = ?y"
            using s2 continuesD(1) [OF q] z by auto
          then have k: "sy_kind (sym_at s2 r) = SYM_ENUM_MEMBER" "sy_type (sym_at s2 r) = Some t" by (simp_all add: sym_zero_def)
          note l = owned [OF ok2 r(1)]
          show ?thesis
            using continuesD(3) [OF q r(1)] continuesD(6) [OF q l k(1)] sym_shapeD(1) [OF continuesD(5) [OF q l]] k by simp
        qed
        then show "ends (case r of (es, s) \<Rightarrow> Some (\<lparr>es_name = em_name m, es_value = ?v, es_pos = em_pos m\<rparr> # es, s))
          (\<lambda>(es, s'). collects ps k s s' \<and> se_types s' = se_types s \<and>
            (nerr s' = 0 \<longrightarrow> (\<forall>m \<in> set (m # ms). \<exists>y. value_names s' (em_name m) = Some y \<and> sy_kind (sym_at s' y) = SYM_ENUM_MEMBER
               \<and> sy_type (sym_at s' y) = Some t)))"
          using s' s2 s1 continues_trans [OF c2(2) q] by (auto simp: collects_def r)
      qed
    qed
  qed
qed

definition enum_base :: "srcpos \<Rightarrow> string \<Rightarrow> token_kind \<Rightarrow> sema \<Rightarrow> (tyref \<times> sema) option" where
  "enum_base pos name tok s = (case ty_from_token (se_types s) tok of
     Some b \<Rightarrow>
       if ty_is_integer (ty_of s b) then Some (b, s)
       else do { s \<leftarrow> serror pos [Txt (''enum '' @ quote name @ '' needs an integer underlying type'')] s; Some (core s TY_I32, s) }
   | None \<Rightarrow> do { s \<leftarrow> serror pos [Txt (''enum '' @ quote name @ '' needs an integer underlying type'')] s; Some (core s TY_I32, s) })"

lemma enum_base_ends:
  assumes c: "collecting ps n s"
  shows "ends (enum_base pos name tok s) (\<lambda>(b, s'). collects ps n s s' \<and> se_types s' = se_types s \<and> type_names s' = type_names s
    \<and> b < 12 \<and> (nerr s' = 0 \<longrightarrow> ty_from_token (se_types s) tok = Some b))"
proof -
  have ok: "sema_ok n s" using c by (simp add: collecting_def)
  have i32: "core s' TY_I32 < 12" if "sema_ok n s'" for s'
    by (simp add: core_def core_ref [OF sema_okD(1) [OF that]] ty_core_init)
  have bad: "ends (do { s \<leftarrow> serror pos [Txt (''enum '' @ quote name @ '' needs an integer underlying type'')] s; Some (core s TY_I32, s) })
    (\<lambda>(b, s'). collects ps n s s' \<and> se_types s' = se_types s \<and> type_names s' = type_names s
      \<and> b < 12 \<and> (nerr s' = 0 \<longrightarrow> ty_from_token (se_types s) tok = Some b))"
  proof (rule ends_serror [OF ok])
    fix s' assume a: "after_error n s s'"
    then have "type_names s' = type_names s" using kept_same(1) [of s s'] by (simp add: after_error_def type_names_def)
    then show "ends (Some (core s' TY_I32, s')) (\<lambda>(b, s'). collects ps n s s' \<and> se_types s' = se_types s \<and> type_names s' = type_names s
      \<and> b < 12 \<and> (nerr s' = 0 \<longrightarrow> ty_from_token (se_types s) tok = Some b))"
      using error_collects [OF c a] a i32 by (simp add: after_error_def)
  qed simp
  show ?thesis
  proof (cases "ty_from_token (se_types s) tok")
    case None
    with bad show ?thesis by (simp add: enum_base_def)
  next
    case (Some b)
    with bad ty_from_token_core [OF sema_okD(1) [OF ok] Some] c show ?thesis by (simp add: enum_base_def collects_def)
  qed
qed

lemma collect_enum_ends:
  assumes c: "collecting ps (Suc (length ms + k)) s"
  shows "ends (collect_enum pos name tok ms s) (\<lambda>s'. collects ps k s s' \<and> (nerr s' = 0 \<longrightarrow> item_known s' p i (ITEM_ENUM pos name tok ms)))"
proof -
  have ok: "sema_ok (Suc (length ms + k)) s" using c by (simp add: collecting_def)
  show ?thesis
    unfolding collect_enum_def find_type [OF ok] Option.bind.simps Let_def enum_base_def [symmetric]
  proof (rule ends_bind [OF enum_base_ends [OF c]])
    fix r :: "tyref \<times> sema"
    assume "case r of (b, s') \<Rightarrow> collects ps (Suc (length ms + k)) s s' \<and> se_types s' = se_types s \<and> type_names s' = type_names s
      \<and> b < 12 \<and> (nerr s' = 0 \<longrightarrow> ty_from_token (se_types s) tok = Some b)"
    then obtain b s1 where r: "r = (b, s1)" and q1: "collects ps (Suc (length ms + k)) s s1" "type_names s1 = type_names s"
      and b: "b < 12" "nerr s1 = 0 \<longrightarrow> ty_from_token (se_types s1) tok = Some b" by (cases r) auto
    have c1: "collecting ps (Suc (length ms + k)) s1" using q1 by (simp add: collects_def)
    then have ok1: "sema_ok (Suc (length ms + k)) s1" by (simp add: collecting_def)
    show "ends (case r of (b, s1) \<Rightarrow> (case type_names s name of
        Some t \<Rightarrow> duplicate_of pos (''declaration of type '' @ quote name) (t_pos (ty_of s1 t)) s1
      | None \<Rightarrow> (case ty_enum_new (se_types s1) name b pos of (t, tt) \<Rightarrow>
         do { s \<leftarrow> add_type name t (s1\<lparr>se_types := tt\<rparr>);
              (es, s) \<leftarrow> collect_members t b 0 ms s;
              Some (ty_set t (\<lambda>x. x\<lparr>t_members := es\<rparr>) s) })))
      (\<lambda>s'. collects ps k s s' \<and> (nerr s' = 0 \<longrightarrow> item_known s' p i (ITEM_ENUM pos name tok ms)))"
    proof (cases "type_names s name")
      case (Some t)
      have "ends (duplicate_of pos (''declaration of type '' @ quote name) (t_pos (ty_of s1 t)) s1) (\<lambda>s'. collects ps k s s' \<and> 0 < nerr s')"
      proof (rule ends_mono [OF duplicate_ends [OF ok1]])
        fix s' assume "after_error (Suc (length ms + k)) s1 s'"
        then show "collects ps k s s' \<and> 0 < nerr s'"
          using error_collects [OF c1] collecting_less [of ps "Suc (length ms + k)" s' k] collects_trans [OF q1(1), of _ s']
          by (auto simp: collects_def)
      qed
      then show ?thesis unfolding r Some prod.case option.case by (rule ends_mono) simp
    next
      case None
      from enum_new [OF sema_okD(1) [OF ok1] b(1), of name pos]
      obtain x tt where n: "ty_enum_new (se_types s1) name b pos = (length (tt_heap (se_types s1)), tt)" "types_ok tt"
        "tt_heap tt = tt_heap (se_types s1) @ [x]" "t_kind x = TY_ENUM" "t_fields x = []" "t_base x = Some b" .
      let ?t = "length (tt_heap (se_types s1))" and ?s2 = "s1\<lparr>se_types := tt\<rparr>"
      have ok2: "sema_ok (Suc (length ms + k)) ?s2" by (rule sema_ok_add_type [OF ok1 n(2,3,5)]) (simp add: has_elem_def n(4))
      have t2: "valid (se_types ?s2) ?t" "kind ?s2 ?t \<in> {TY_STRUCT, TY_ENUM}" "ty_of ?s2 ?t = x"
        by (simp_all add: valid_def n(3,4) kind_def ty_of_def ty_at_def)
      have new2: "type_names ?s2 name = None" using None q1(2) by (simp add: type_names_def)
      have c2: "continues s1 ?s2"
        by (auto simp: continues_def type_names_def value_names_def nerr_def sym_at_def kind_def ty_of_def valid_def n(3) ty_at_def nth_append)
      show ?thesis
        unfolding r None n(1) prod.case option.case
      proof (rule ends_bind [OF add_type_ends [OF ok2 t2(1,2) new2]])
        fix s3 assume a: "sema_ok (length ms + k) s3 \<and> type_added name ?t ?s2 s3"
        then have A: "type_added name ?t ?s2 s3" by simp
        note D = type_addedD [OF A]
        have "values_own ps s3"
          by (rule values_own_same [of _ s1]) (use c1 in \<open>simp_all add: D collecting_def, simp add: value_names_def\<close>)
        then have c3: "collecting ps (length ms + k) s3" using c1 a by (simp add: collecting_def D)
        have q3: "continues s1 s3" by (rule continues_trans [OF c2 type_added_continues [OF A new2]])
        have t3: "valid (se_types s3) ?t" "kind s3 ?t = TY_ENUM" "valid (se_types s3) b" "t_base (ty_of s3 ?t) = Some b"
          using t2 n(4,6) b(1) valid_core [OF n(2), of b] by (simp_all add: D kind_def ty_of_def)
        show "ends (do { (es, s) \<leftarrow> collect_members ?t b 0 ms s3; Some (ty_set ?t (\<lambda>x. x\<lparr>t_members := es\<rparr>) s) })
          (\<lambda>s'. collects ps k s s' \<and> (nerr s' = 0 \<longrightarrow> item_known s' p i (ITEM_ENUM pos name tok ms)))"
        proof (rule ends_bind [OF collect_members_ends [OF c3 t3(1-3)]])
          fix r :: "enum_sym list \<times> sema"
          assume "case r of (es, s') \<Rightarrow> collects ps k s3 s' \<and> se_types s' = se_types s3 \<and>
            (nerr s' = 0 \<longrightarrow> (\<forall>m \<in> set ms. \<exists>y. value_names s' (em_name m) = Some y \<and> sy_kind (sym_at s' y) = SYM_ENUM_MEMBER
             \<and> sy_type (sym_at s' y) = Some ?t))"
          then obtain es s4 where r: "r = (es, s4)" and s4: "collects ps k s3 s4" "se_types s4 = se_types s3"
            "nerr s4 = 0 \<longrightarrow> (\<forall>m \<in> set ms. \<exists>y. value_names s4 (em_name m) = Some y \<and> sy_kind (sym_at s4 y) = SYM_ENUM_MEMBER
             \<and> sy_type (sym_at s4 y) = Some ?t)" by (cases r) auto
          let ?s5 = "ty_set ?t (\<lambda>x. x\<lparr>t_members := es\<rparr>) s4"
          have c4: "collecting ps k s4" "continues s1 s4" using s4(1) continues_trans [OF q3] by (auto simp: collects_def)
          have t4: "valid (se_types s4) ?t" "kind s4 ?t = TY_ENUM" using t3 s4(2) by (simp_all add: kind_def)
          have q5: "collects ps k s4 ?s5" by (rule set_members_ok [OF c4(1) t4])
          have "item_known ?s5 p i (ITEM_ENUM pos name tok ms)" if z: "nerr ?s5 = 0"
          proof -
            have z4: "nerr s4 = 0" "nerr s1 = 0" using q5 c4(2) z by (auto simp: collects_def continues_def)
            have "type_names s4 name = Some ?t"
              using continuesD(2) [of s3 s4 name ?t] s4(1) D(8) by (simp add: collects_def)
            moreover have "t_base (ty_of s4 ?t) = ty_from_token (se_types s4) tok"
            proof -
              have "ty_core (se_types s4) = ty_core (se_types s1)"
                using core_table [OF sema_okD(1) [OF ok1]] core_table [OF n(2)] by (simp add: fun_eq_iff ty_core_def s4(2) D)
              then have "ty_from_token (se_types s4) tok = ty_from_token (se_types s1) tok" unfolding ty_from_token_def by metis
              then show ?thesis using b(2) z4(2) t3(4) by (simp add: ty_of_def s4(2))
            qed
            ultimately have k4: "item_known s4 p i (ITEM_ENUM pos name tok ms)" using t4(2) s4(3) z4(1) by auto
            show ?thesis
              by (rule item_known_continues [OF _ _ _ k4]) (use q5 c4(1) in \<open>auto simp: collects_def collecting_def\<close>)
          qed
          moreover have "collects ps k s ?s5"
            using collects_trans [OF q1(1), of k ?s5] q5 continues_trans [OF c4(2)] by (auto simp: collects_def)
          ultimately show "ends (case r of (es, s) \<Rightarrow> Some (ty_set ?t (\<lambda>x. x\<lparr>t_members := es\<rparr>) s))
            (\<lambda>s'. collects ps k s s' \<and> (nerr s' = 0 \<longrightarrow> item_known s' p i (ITEM_ENUM pos name tok ms)))"
            by (simp add: r del: item_known.simps)
        qed
      qed
    qed
  qed
qed

lemma entity_of_item:
  "p < length ps \<Longrightarrow> i < length (pg_items (ps ! p)) \<Longrightarrow> j < length (entities (pg_items (ps ! p) ! i)) \<Longrightarrow>
    entity_at ps (p, i, j) = Some (entities (pg_items (ps ! p) ! i) ! j)"
  by (simp add: entity_at_def)

lemma collect_item_ends:
  assumes at: "p < length ps" "i < length (pg_items (ps ! p))" "pg_items (ps ! p) ! i = it" and c: "collecting ps (item_names it + k) s"
  shows "ends (collect_item p i it s) (\<lambda>s'. collects ps k s s' \<and> (nerr s' = 0 \<longrightarrow> item_known s' p i it))"
proof -
  have d: "entity_at ps (p, i, j) = Some (entities it ! j)" if "j < length (entities it)" for j
    using entity_of_item [OF at(1,2)] that at(3) by simp
  show ?thesis
  proof (cases it)
    case (ITEM_FN pos fn)
    then show ?thesis using collect_fn_ends [of ps k s "(p, i, 0)" fn False] c d [of 0] by simp
  next
    case (ITEM_STRUCT pos name fs)
    then show ?thesis using collect_struct_ends [of ps k s p i pos name] c by simp
  next
    case (ITEM_ENUM pos name b ms)
    then show ?thesis using collect_enum_ends [of ps ms k s pos name b p i] c by simp
  next
    case (ITEM_GLOBAL pos m t name init)
    then show ?thesis using collect_global_ends [of ps k s p i m t name pos] c d [of 0] by simp
  next
    case (ITEM_EXTERN pos abi fns)
    let ?e = "[Txt (''unknown ABI '' @ [CHR 0x22] @ takeWhile (\<lambda>c. c \<noteq> CHR 0x00) abi @ [CHR 0x22] @ ''; only '' @ [CHR 0x22] @ ''c''
      @ [CHR 0x22] @ '' is implemented'')]"
    have c': "collecting ps (length fns + k) s" and ok: "sema_ok (length fns + k) s"
      using c by (simp_all add: ITEM_EXTERN collecting_def)
    have d': "entity_at ps (p, i, 0 + l) = Some (Fn_entity (fns ! l) True)" if "l < length fns" for l
      using d [of l] that by (simp add: ITEM_EXTERN)
    have one: "ends (if \<not> strview_eq abi ''c'' then serror pos ?e s else Some s)
      (\<lambda>s'. collects ps (length fns + k) s s' \<and> (nerr s' = 0 \<longrightarrow> abi = ''c''))"
    proof (cases "strview_eq abi ''c''")
      case False
      have "ends (serror pos ?e s) (\<lambda>s'. collects ps (length fns + k) s s' \<and> (nerr s' = 0 \<longrightarrow> abi = ''c''))"
        by (rule ends_mono [OF serror_ends [OF ok]]) (auto dest: error_collects [OF c'])
      with False show ?thesis by simp
    qed (use c' in \<open>simp add: collects_def strview_eq_def\<close>)
    have "ends (collect_item p i (ITEM_EXTERN pos abi fns) s)
      (\<lambda>s'. collects ps k s s' \<and> (nerr s' = 0 \<longrightarrow> item_known s' p i (ITEM_EXTERN pos abi fns)))"
      unfolding collect_item.simps
    proof (rule ends_bind [OF one])
      fix s1 assume s1: "collects ps (length fns + k) s s1 \<and> (nerr s1 = 0 \<longrightarrow> abi = ''c'')"
      then have c1: "collecting ps (length fns + k) s1" by (simp add: collects_def)
      show "ends (collect_fns p i 0 fns s1) (\<lambda>s'. collects ps k s s' \<and> (nerr s' = 0 \<longrightarrow> item_known s' p i (ITEM_EXTERN pos abi fns)))"
      proof (rule ends_mono [OF collect_fns_ends [OF d' c1]])
        fix s' assume s': "collects ps k s1 s' \<and> (nerr s' = 0 \<longrightarrow> (\<forall>l < length fns. \<exists>y. owns s' (p, i, 0 + l) (Fn_entity (fns ! l) True) y))"
        then have "nerr s1 \<le> nerr s'" by (simp add: collects_def continues_def)
        then show "collects ps k s s' \<and> (nerr s' = 0 \<longrightarrow> item_known s' p i (ITEM_EXTERN pos abi fns))"
          using s1 s' collects_trans [of ps "length fns + k" s s1 k s'] by auto
      qed
    qed
    then show ?thesis by (simp only: ITEM_EXTERN)
  qed
qed

lemma collect_items_ends:
  assumes "p < length ps" "i + length its = length (pg_items (ps ! p))" "\<And>l. l < length its \<Longrightarrow> pg_items (ps ! p) ! (i + l) = its ! l"
    and "collecting ps (sum_list (map item_names its) + k) s"
  shows "ends (collect_items p i its s)
    (\<lambda>s'. collects ps k s s' \<and> (nerr s' = 0 \<longrightarrow> (\<forall>l < length its. item_known s' p (i + l) (its ! l))))"
  using assms
proof (induction its arbitrary: i s)
  case Nil
  then show ?case by (simp add: collects_def)
next
  case (Cons it its)
  let ?k = "sum_list (map item_names its) + k"
  have c: "collecting ps (item_names it + ?k) s" using Cons.prems(4) by (simp add: add.assoc)
  have at: "i < length (pg_items (ps ! p))" "pg_items (ps ! p) ! i = it" using Cons.prems(2) Cons.prems(3) [of 0] by simp_all
  show ?case
    unfolding collect_items.simps
  proof (rule ends_bind [OF collect_item_ends [OF Cons.prems(1) at c]])
    fix s1 assume s1: "collects ps ?k s s1 \<and> (nerr s1 = 0 \<longrightarrow> item_known s1 p i it)"
    then have c1: "collecting ps ?k s1" by (simp add: collects_def)
    have ok1: "sema_ok ?k s1" using c1 by (simp add: collecting_def)
    have "ends (collect_items p (i + 1) its s1)
      (\<lambda>s'. collects ps k s1 s' \<and> (nerr s' = 0 \<longrightarrow> (\<forall>l < length its. item_known s' p (i + 1 + l) (its ! l))))"
      by (rule Cons.IH [OF Cons.prems(1) _ _ c1]) (use Cons.prems(2) Cons.prems(3) [of "Suc l" for l] in auto)
    then show "ends (collect_items p (i + 1) its s1) (\<lambda>s'. collects ps k s s' \<and>
      (nerr s' = 0 \<longrightarrow> (\<forall>l < length (it # its). item_known s' p (i + l) ((it # its) ! l))))"
    proof (rule ends_mono)
      fix s' assume s': "collects ps k s1 s' \<and> (nerr s' = 0 \<longrightarrow> (\<forall>l < length its. item_known s' p (i + 1 + l) (its ! l)))"
      then have q: "continues s1 s'" "sema_ok k s'" by (simp_all add: collects_def collecting_def)
      have "item_known s' p (i + l) ((it # its) ! l)" if z: "nerr s' = 0" "l < length (it # its)" for l
      proof (cases l)
        case 0
        then show ?thesis using item_known_continues [OF ok1 q(2,1)] s1 z continuesD(1) [OF q(1)] by simp
      next
        case (Suc l')
        then show ?thesis using s' z by auto
      qed
      then show "collects ps k s s' \<and> (nerr s' = 0 \<longrightarrow> (\<forall>l < length (it # its). item_known s' p (i + l) ((it # its) ! l)))"
        using s1 s' collects_trans by blast
    qed
  qed
qed

definition program_known :: "program list \<Rightarrow> sema \<Rightarrow> nat \<Rightarrow> bool" where
  "program_known ps s p \<longleftrightarrow> (\<forall>i < length (pg_items (ps ! p)). item_known s p i (pg_items (ps ! p) ! i))"

lemma collect_program_ends:
  assumes "p < length ps" "collecting ps (program_names (ps ! p) + k) s"
  shows "ends (collect_program p s) (\<lambda>s'. collects ps k s s' \<and> (nerr s' = 0 \<longrightarrow> program_known ps s' p))"
proof -
  have ps: "se_programs s = ps" using assms(2) by (simp add: collecting_def)
  show ?thesis
    using collect_items_ends [of p ps 0 "pg_items (ps ! p)" k s] assms
    by (simp add: collect_program_def ps program_known_def program_names_def)
qed

lemma program_known_continues:
  "sema_ok n s \<Longrightarrow> sema_ok n' s' \<Longrightarrow> continues s s' \<Longrightarrow> program_known ps s p \<Longrightarrow> program_known ps s' p"
  using item_known_continues by (auto simp: program_known_def)

lemma collect_each_ends:
  assumes "\<And>p. p \<in> set qs \<Longrightarrow> p < length ps" "collecting ps (sum_list (map (\<lambda>p. program_names (ps ! p)) qs) + k) s"
  shows "ends (each_program collect_program qs s) (\<lambda>s'. collects ps k s s' \<and> (nerr s' = 0 \<longrightarrow> (\<forall>p \<in> set qs. program_known ps s' p)))"
  using assms
proof (induction qs arbitrary: s)
  case Nil
  then show ?case by (simp add: collects_def)
next
  case (Cons p qs)
  let ?k = "sum_list (map (\<lambda>p. program_names (ps ! p)) qs) + k"
  have c: "collecting ps (program_names (ps ! p) + ?k) s" using Cons.prems(2) by (simp add: add.assoc)
  show ?case
    unfolding each_program.simps
  proof (rule ends_bind [OF collect_program_ends [OF _ c]])
    fix s1 assume s1: "collects ps ?k s s1 \<and> (nerr s1 = 0 \<longrightarrow> program_known ps s1 p)"
    then have c1: "collecting ps ?k s1" "sema_ok ?k s1" by (simp_all add: collects_def collecting_def)
    have "ends (each_program collect_program qs s1) (\<lambda>s'. collects ps k s1 s' \<and> (nerr s' = 0 \<longrightarrow> (\<forall>p \<in> set qs. program_known ps s' p)))"
      by (rule Cons.IH [OF _ c1(1)]) (use Cons.prems(1) in simp)
    then show "ends (each_program collect_program qs s1)
      (\<lambda>s'. collects ps k s s' \<and> (nerr s' = 0 \<longrightarrow> (\<forall>p \<in> set (p # qs). program_known ps s' p)))"
    proof (rule ends_mono)
      fix s' assume s': "collects ps k s1 s' \<and> (nerr s' = 0 \<longrightarrow> (\<forall>p \<in> set qs. program_known ps s' p))"
      then have q: "continues s1 s'" "sema_ok k s'" by (simp_all add: collects_def collecting_def)
      then have "nerr s' = 0 \<Longrightarrow> program_known ps s' p"
        using s1 program_known_continues [OF c1(2) q(2,1)] continuesD(1) [OF q(1)] by simp
      then show "collects ps k s s' \<and> (nerr s' = 0 \<longrightarrow> (\<forall>p \<in> set (p # qs). program_known ps s' p))"
        using s' collects_trans [OF conjunct1 [OF s1] conjunct1 [OF s']] by simp
    qed
  qed (use Cons.prems(1) in simp)
qed

section \<open>The pass over all programs\<close>

lemma struct_fields_nth:
  "struct_fields s path = (if fst path < length (se_programs s) \<and> snd path < length (pg_items (se_programs s ! fst path))
     then (case pg_items (se_programs s ! fst path) ! snd path of ITEM_STRUCT pos name fs \<Rightarrow> fs | _ \<Rightarrow> []) else [])"
proof (cases "fst path < length (se_programs s)")
  case True
  then have d: "drop (fst path) (se_programs s) = se_programs s ! fst path # drop (Suc (fst path)) (se_programs s)"
    by (simp add: Cons_nth_drop_Suc)
  show ?thesis
  proof (cases "snd path < length (pg_items (se_programs s ! fst path))")
    case True
    then have "drop (snd path) (pg_items (se_programs s ! fst path))
        = pg_items (se_programs s ! fst path) ! snd path # drop (Suc (snd path)) (pg_items (se_programs s ! fst path))"
      by (simp add: Cons_nth_drop_Suc)
    then show ?thesis using True \<open>fst path < length (se_programs s)\<close> by (simp add: struct_fields_def d split: item.split)
  qed (use True in \<open>simp add: struct_fields_def d\<close>)
qed (simp add: struct_fields_def)

lemma source_structs:
  assumes "source_programs ps"
  shows "structs_wf (sema_init ps)"
proof -
  have "wf_type (fd_type f)" if f: "f \<in> set (struct_fields (sema_init ps) path)" for path f
  proof -
    let ?it = "pg_items (ps ! fst path) ! snd path"
    have at: "fst path < length ps \<and> snd path < length (pg_items (ps ! fst path))"
    proof (rule ccontr)
      assume "\<not> (fst path < length ps \<and> snd path < length (pg_items (ps ! fst path)))"
      then have "struct_fields (sema_init ps) path = []" unfolding struct_fields_nth by (auto simp: sema_init_def)
      with f show False by simp
    qed
    then have "f \<in> set (case ?it of ITEM_STRUCT pos name fs \<Rightarrow> fs | _ \<Rightarrow> [])"
      using f unfolding struct_fields_nth by (simp add: sema_init_def)
    moreover have "source_item ?it" using assms at by (simp add: source_programs_def list_all_length)
    ultimately show ?thesis by (cases ?it) (auto simp: list_all_iff)
  qed
  then show ?thesis by (simp add: structs_wf_def)
qed

lemma collecting_init:
  assumes "source_programs ps" "n \<le> MAP_ROOM"
  shows "collecting ps n (sema_init ps)"
proof -
  have "sema_ok n (sema_init ps)" by (rule sema_init_ok(1) [OF source_structs [OF assms(1)] assms(2)])
  moreover have "values_own ps (sema_init ps)"
    by (simp add: values_own_def value_names_def sema_init_def globals_init_def nm.abs_empty)
  ultimately show ?thesis by (simp add: collecting_def sema_init_def)
qed

lemma collect_programs_ends:
  assumes "source_programs ps" "declared_names ps \<le> MAP_ROOM"
  shows "ends (each_program collect_program [0..<length ps] (sema_init ps))
    (\<lambda>s. collecting ps 0 s \<and> (nerr s = 0 \<longrightarrow> (\<forall>p < length ps. program_known ps s p)))"
proof -
  have "map (\<lambda>p. program_names (ps ! p)) [0..<length ps] = map program_names ps" by (rule nth_equalityI) simp_all
  then have c: "collecting ps (sum_list (map (\<lambda>p. program_names (ps ! p)) [0..<length ps]) + 0) (sema_init ps)"
    using collecting_init [OF assms(1)] assms(2) by (simp add: declared_names_def)
  show ?thesis
    by (rule ends_mono [OF collect_each_ends [OF _ c]]) (auto simp: collects_def)
qed

end
