(* ===== verification/Slop_Sema_Resolve.thy ===== *)
theory Slop_Sema_Resolve
  imports Slop_Sema_Collect
begin

text \<open>
  Pass 3 on whole programs. It returns; afterwards every global name has a type, and without an error the type of a
  function or global and those of the parameters are the ones its declaration denotes, structs are laid out and
  the initializer of a global is a literal of the global's type. The trees change in nothing but these initializers.
\<close>

section \<open>Literals\<close>

lemma literal_source: "literal_node u \<Longrightarrow> source_node u" "literal_node u \<Longrightarrow> node_height u = 0"
  by (cases u; simp)+

lemma literal_typed:
  assumes ok: "sema_ok n s" and u: "literal_node u" and c: "check_node ck pos sem u s = Some ((t, u'), s')"
  shows "u' = u \<and> kept s s' \<and> kind s' t \<noteq> TY_POISON \<and> has_node s' u t"
proof -
  note C = core_is [OF sema_okD(1) [OF ok]]
  have K: "t_kind (ty_at (se_types s) (core s k)) = k" if "core_kind k" for k using C(2) [OF that] by (simp add: kind_def)
  show ?thesis
  proof (cases u)
    case (EXPR_INT v)
    then show ?thesis using c K [of TY_UNTYPED_INT] by (auto simp: check_node_def core_kind_def has_node_def kind_def node_simps literal_ok_def ty_is_numeric_def ty_is_integer_def)
  next
    case (EXPR_CHAR v)
    then show ?thesis using c K [of TY_UNTYPED_INT] by (auto simp: check_node_def core_kind_def has_node_def kind_def node_simps literal_ok_def ty_is_numeric_def ty_is_integer_def)
  next
    case (EXPR_FLOAT v)
    then show ?thesis using c K [of TY_UNTYPED_FLOAT] by (auto simp: check_node_def core_kind_def has_node_def kind_def node_simps)
  next
    case (EXPR_BOOL b)
    then show ?thesis using c K [of TY_UNTYPED_BOOL] by (auto simp: check_node_def core_kind_def has_node_def kind_def node_simps is_boolish_def)
  next
    case EXPR_NULL
    then show ?thesis using c K [of TY_NULL] by (auto simp: check_node_def core_kind_def has_node_def kind_def node_simps)
  next
    case (EXPR_STRING str)
    have u8: "core_kind TY_U8" by (simp add: core_kind_def)
    have "proper (se_types s) (core s TY_U8)" using C(2) [OF u8] by (simp add: proper_def kind_def typed_kind_def)
    then have p: "case make_ptr (core s TY_U8) s of (p, s') \<Rightarrow> sema_ok n s' \<and> kept s s' \<and> nerr s' = nerr s \<and> valid (se_types s') p
        \<and> kind s' p = TY_PTR \<and> t_elem (ty_of s' p) = Some (core s TY_U8)"
      by (intro make_ptr_ok [OF ok C(1) [OF u8]])
    obtain q s1 where m: "make_ptr (core s TY_U8) s = (q, s1)" by force
    then have p': "kept s s1" "kind s1 q = TY_PTR" "t_elem (ty_of s1 q) = Some (core s TY_U8)" using p by auto
    have e: "t = q" "u' = u" "s' = s1" using c m EXPR_STRING by (auto simp: check_node_def Let_def)
    show ?thesis
      using p' kept_valid [OF p'(1) C(1) [OF u8]] kept_kind [OF p'(1) C(1) [OF u8]] C(2) [OF u8]
      by (auto simp: EXPR_STRING e has_node_def kind_def ty_of_def intro: n_string)
  qed (use u in simp_all)
qed

lemma check_literal_ok:
  assumes ok: "sema_ok n s" and lit: "literal_node (ex_u e)" and x: "expectable s (Some tg)"
  obtains t e' s' where "check_expr (Some e) (Some tg) s = Some ((t, Some e'), s')" "becomes n s e t e' s'"
    "nerr s' = 0 \<longrightarrow> t = tg \<and> has_type s' e' tg"
proof -
  obtain pos sem u where e: "e = Expr pos sem u" by (cases e)
  have l: "literal_node u" using lit by (simp add: e)
  have "source_expr e" using literal_source(1) [OF l] by (simp add: e)
  note tree = source_tree(1) [OF this]
  from wpD [OF check_expr_ok [OF ok conjunct1 [OF tree] x]]
  obtain t e' s' where r: "check_expr (Some e) (Some tg) s = Some ((t, Some e'), s')" "becomes n s e t e' s'"
    by (auto simp: checked_as_def)
  have "tree_ok (se_types s) e" "expr_height e \<le> Suc 0" using tree literal_source(2) [OF l] by (simp_all add: e)
  then have "wp (check_expr_n (Suc 0) (Some e) None s) (checked n s e)"
    using check_expr_n_good [of n "Suc 0"] ok unfolding good_checker_def by blast
  from wpD [OF this] obtain t0 e0 s1 where r0: "check_expr_n (Suc 0) (Some e) None s = Some ((t0, Some e0), s1)"
    "becomes n s e t0 e0 s1" by (auto simp: checked_def)
  then obtain u0 where c: "check_node (check_expr_n 0) pos sem u s = Some ((t0, u0), s1)" "e0 = Expr pos (Some t0) u0"
    by (auto simp: e Let_def split: bind_splits)
  note b = becomes_ok [OF r0(2)]
  have "has_type s1 e0 t0"
    using literal_typed [OF ok l c(1)] b(4) by (auto simp: c(2) has_type_def has_node_def kind_def intro: typed)
  note h0 = this
  have tg1: "valid (se_types s1) tg" using kept_valid [OF b(2)] x by (simp add: expectable_def)
  have "coerce (Some e0) tg s1 = Some ((t, Some e'), s')"
    using r(1) r0(1) literal_source(2) [OF l] by (simp add: check_expr_def e check_expr_n_expected del: check_expr_n.simps)
  with wpD [OF coerce_ok [OF b(1,3) _ b(4) tg1]] have co: "coerced n s1 e0 tg (t, Some e') s'" by (auto simp: c(2))
  have "t = tg \<and> has_type s' e' tg" if z: "nerr s' = 0"
  proof -
    have "becomes n s1 e0 t e' s'" using co by (simp add: coerced_def)
    note k1 = becomes_ok(2) [OF this]
    have "nerr s = 0" using nerr_zero [OF b(2)] nerr_zero [OF k1 z] by simp
    then have "kind s1 tg \<noteq> TY_POISON" using x kept_kind [OF b(2)] by (simp add: expectable_def)
    then show ?thesis using co z h0 by (auto simp: coerced_def)
  qed
  with r show thesis by (intro that) auto
qed

text \<open>A literal means the same everywhere.\<close>

definition const_typed :: "type_table \<Rightarrow> expr \<Rightarrow> tyref \<Rightarrow> bool" where
  "const_typed tt e t \<longleftrightarrow> (\<forall>T G. typed tt T G e t)"

lemma strip_conv [simp]: "strip (Expr pos sem (EXPR_CONV (Some a))) = strip a"
  by simp

lemma literal_anywhere:
  "typed tt T G e t \<Longrightarrow> literal_node (ex_u (strip e)) \<Longrightarrow> typed tt T' G' e t"
proof (induction "size e" arbitrary: e t rule: less_induct)
  case less
  obtain pos sem u where e: "e = Expr pos sem u" by (cases e)
  note n = typedD(4) [OF less.prems(1)]
  have "node tt T' G' u t"
  proof (cases u)
    case (EXPR_CONV a)
    then obtain b f where a: "a = Some b" "typed tt T G b f" "assigns tt f t" "typed_kind (t_kind (ty_at tt f))"
      using n by (auto simp: e node_simps)
    have "typed tt T' G' b f" by (rule less.hyps [OF _ a(2)]) (use less.prems(2) in \<open>simp_all add: e EXPR_CONV a(1)\<close>)
    then show ?thesis using a n by (auto simp: e EXPR_CONV node_simps)
  qed (use n less.prems(2) in \<open>simp_all add: e node_simps\<close>)
  then show ?case using typedD [OF less.prems(1)] by (auto simp: e intro: typed)
qed

section \<open>What pass 3 keeps\<close>

text \<open>The programs but for what sema writes into them.\<close>

fun strip_item :: "item \<Rightarrow> item" where
  "strip_item (ITEM_FN pos fn) = ITEM_FN pos (fn\<lparr>fn_body := strip_block (fn_body fn)\<rparr>)"
| "strip_item (ITEM_GLOBAL pos m t name init) = ITEM_GLOBAL pos m t name (strip_child init)"
| "strip_item it = it"

definition strip_program :: "program \<Rightarrow> program" where
  "strip_program p = p\<lparr>pg_items := map strip_item (pg_items p)\<rparr>"

definition shaped :: "program list \<Rightarrow> sema \<Rightarrow> bool" where
  "shaped ps s \<longleftrightarrow> map strip_program (se_programs s) = map strip_program ps"

lemma shapedD:
  assumes "shaped ps s"
  shows "length (se_programs s) = length ps"
    "p < length ps \<Longrightarrow> map strip_item (pg_items (se_programs s ! p)) = map strip_item (pg_items (ps ! p))"
    "p < length ps \<Longrightarrow> length (pg_items (se_programs s ! p)) = length (pg_items (ps ! p))"
    "p < length ps \<Longrightarrow> i < length (pg_items (ps ! p)) \<Longrightarrow> strip_item (pg_items (se_programs s ! p) ! i) = strip_item (pg_items (ps ! p) ! i)"
proof -
  show l: "length (se_programs s) = length ps" using assms by (auto simp: shaped_def dest: map_eq_imp_length_eq)
  have q: "strip_program (se_programs s ! p) = strip_program (ps ! p)" if "p < length ps" for p
    using assms l that unfolding shaped_def by (metis nth_map)
  show m: "map strip_item (pg_items (se_programs s ! p)) = map strip_item (pg_items (ps ! p))" if "p < length ps" for p
    using arg_cong [OF q [OF that], of pg_items] by (simp add: strip_program_def)
  show n: "length (pg_items (se_programs s ! p)) = length (pg_items (ps ! p))" if "p < length ps" for p
    using map_eq_imp_length_eq [OF m [OF that]] .
  show "strip_item (pg_items (se_programs s ! p) ! i) = strip_item (pg_items (ps ! p) ! i)"
    if "p < length ps" "i < length (pg_items (ps ! p))" for p i
    using m [OF that(1)] n [OF that(1)] that(2) by (metis nth_map)
qed

text \<open>Writing an item back that differs in nothing else keeps the shape, and the fields of structs.\<close>

lemma item_set_at:
  "p < length (se_programs s) \<Longrightarrow> i < length (pg_items (se_programs s ! p)) \<Longrightarrow>
    pg_items (se_programs (item_set p i it s) ! q) ! j
      = (if q = p \<and> j = i then it else pg_items (se_programs s ! q) ! j)"
  by (cases "q = p") (auto simp: item_set_def nth_list_update)

lemma item_set_shaped:
  assumes sh: "shaped ps s" and at: "p < length ps" "i < length (pg_items (ps ! p))"
    and it: "strip_item it = strip_item (pg_items (ps ! p) ! i)"
  shows "shaped ps (item_set p i it s)"
proof -
  note D = shapedD [OF sh]
  have "strip_program (se_programs (item_set p i it s) ! q) = strip_program (ps ! q)" if q: "q < length ps" for q
  proof (cases "q = p")
    case True
    have "map strip_item ((pg_items (se_programs s ! p))[i := it]) = map strip_item (pg_items (ps ! p))"
      using D(2) [OF at(1)] it at(2) by (simp add: map_update) (metis length_map list_update_id nth_map)
    moreover have "strip_program (se_programs s ! p) = strip_program (ps ! p)"
      using sh D(1) q True unfolding shaped_def by (metis nth_map)
    ultimately show ?thesis using True D(1) q by (cases "se_programs s ! p"; cases "ps ! p") (simp add: strip_program_def item_set_def)
  next
    case False
    then show ?thesis using sh D(1) q unfolding shaped_def item_set_def by (simp) (metis nth_map)
  qed
  then show ?thesis using D(1) by (simp add: shaped_def list_eq_iff_nth_eq) (simp add: item_set_def)
qed

lemma strip_item_fields:
  "strip_item a = strip_item b \<Longrightarrow> (case a of ITEM_STRUCT pos name fs \<Rightarrow> fs | _ \<Rightarrow> []) = (case b of ITEM_STRUCT pos name fs \<Rightarrow> fs | _ \<Rightarrow> [])"
  by (cases a; cases b) simp_all

lemma shaped_fields:
  assumes "shaped ps s"
  shows "struct_fields s = struct_fields (sema_init ps)"
proof
  fix path
  note D = shapedD [OF assms]
  have i: "se_programs (sema_init ps) = ps" by (simp add: sema_init_def)
  show "struct_fields s path = struct_fields (sema_init ps) path"
  proof (cases "fst path < length ps")
    case True
    then show ?thesis unfolding struct_fields_nth i D(1) using strip_item_fields [OF D(4) [OF True]] D(3) [OF True] by simp
  qed (simp add: struct_fields_nth i D(1))
qed

lemma item_set_ok:
  assumes "sema_ok n s" "shaped ps s" "p < length ps" "i < length (pg_items (ps ! p))" "strip_item it = strip_item (pg_items (ps ! p) ! i)"
  shows "sema_ok n (item_set p i it s)"
proof -
  have "structs_wf (item_set p i it s)"
    using sema_okD(10) [OF assms(1)] shaped_fields [OF assms(2)] shaped_fields [OF item_set_shaped [OF assms(2-5)]]
    by (simp add: structs_wf_def)
  then show ?thesis using assms(1) by (simp add: sema_ok_def item_set_def kind_def nerr_def)
qed

text \<open>Symbols change only at the places \<open>P\<close>, and only in their types.\<close>

definition sym_place :: "sym \<Rightarrow> place option" where
  "sym_place y = (case sy_kind y of
     SYM_FN \<Rightarrow> sy_decl y
   | SYM_GLOBAL \<Rightarrow> map_option (\<lambda>(p, i). (p, i, 0)) (sy_item y)
   | _ \<Rightarrow> None)"

lemma stands_for_place: "stands_for y pl d \<Longrightarrow> sym_place y = Some pl"
  by (cases d) (auto simp: sym_place_def prod_eq_iff)

definition settles :: "place set \<Rightarrow> sema \<Rightarrow> sema \<Rightarrow> bool" where
  "settles P s s' \<longleftrightarrow> types_grow (se_types s) (se_types s') \<and> nerr s \<le> nerr s' \<and> se_globals s' = se_globals s
     \<and> se_cur_fn s' = se_cur_fn s \<and> se_scopes s' = se_scopes s \<and> se_loop_depth s' = se_loop_depth s
     \<and> length (se_syms s') = length (se_syms s)
     \<and> (\<forall>y < length (se_syms s). sym_shape (sym_at s' y) = sym_shape (sym_at s y)
          \<and> (sym_place (sym_at s y) \<in> Some ` P \<or> sym_at s' y = sym_at s y))"

lemma settlesD:
  assumes "settles P s s'"
  shows "types_grow (se_types s) (se_types s')" "nerr s \<le> nerr s'" "value_names s' = value_names s" "type_names s' = type_names s"
    "length (se_syms s') = length (se_syms s)" "y < length (se_syms s) \<Longrightarrow> sym_shape (sym_at s' y) = sym_shape (sym_at s y)"
    "y < length (se_syms s) \<Longrightarrow> sym_place (sym_at s y) \<notin> Some ` P \<Longrightarrow> sym_at s' y = sym_at s y"
  using assms by (auto simp: settles_def value_names_def type_names_def)

lemma sym_place_shape: "sym_shape a = sym_shape b \<Longrightarrow> sym_place a = sym_place b"
  using sym_shapeD [of a b] by (simp add: sym_place_def split: sym_kind.split)

lemma settles_refl [simp]: "settles P s s"
  by (simp add: settles_def)

lemma settles_trans:
  assumes "settles P s s'" "settles P s' s''"
  shows "settles P s s''"
proof -
  have "sym_shape (sym_at s'' y) = sym_shape (sym_at s y) \<and> (sym_place (sym_at s y) \<in> Some ` P \<or> sym_at s'' y = sym_at s y)"
    if y: "y < length (se_syms s)" for y
  proof -
    note A = settlesD [OF assms(1)] and B = settlesD [OF assms(2)]
    have y': "y < length (se_syms s')" using A(5) y by simp
    show ?thesis using A(6,7) [OF y] B(6,7) [OF y'] sym_place_shape [OF A(6) [OF y]] by metis
  qed
  then show ?thesis
    using assms types_grow_trans by (auto simp: settles_def intro: le_trans)
qed

lemma settles_wider: "settles P s s' \<Longrightarrow> P \<subseteq> Q \<Longrightarrow> settles Q s s'"
  unfolding settles_def by blast

lemma kept_settles: "kept s s' \<Longrightarrow> settles P s s'"
  using keptD [of s s'] kept_same [of s s'] by (simp add: settles_def sym_at_def)

lemma settles_continues: "settles P s s' \<Longrightarrow> continues s s'"
  using settlesD [of P s s'] types_grow_keeps [of "se_types s" "se_types s'"] types_grow_valid [of "se_types s" "se_types s'"]
  by (fastforce simp: continues_def kind_def ty_of_def sym_place_def)

lemma sym_set_at:
  "y < length (se_syms s) \<Longrightarrow> sym_at (sym_set y f s) r = (if r = y then f (sym_at s y) else sym_at s r)"
  "se_types (sym_set y f s) = se_types s" "nerr (sym_set y f s) = nerr s" "se_programs (sym_set y f s) = se_programs s"
  "type_names (sym_set y f s) = type_names s" "value_names (sym_set y f s) = value_names s"
  by (auto simp: sym_set_def sym_at_def nerr_def type_names_def value_names_def)

lemma sym_set_ok:
  assumes ok: "sema_ok n s" and y: "y < length (se_syms s)" "sym_ok (se_types s) (f (sym_at s y))"
    "nerr s = 0 \<Longrightarrow> clean_sym (se_types s) (f (sym_at s y))"
  shows "sema_ok n (sym_set y f s)"
  using ok y by (auto simp: sema_ok_def sym_set_def kind_def nerr_def dest!: subsetD [OF set_update_subset_insert])

lemma sym_set_settles:
  assumes "y < length (se_syms s)" "sym_place (sym_at s y) \<in> Some ` P" "sym_shape (f (sym_at s y)) = sym_shape (sym_at s y)"
  shows "settles P s (sym_set y f s)"
  using assms sym_set_at(1) [OF assms(1)] sym_set_at(3)
  by (simp add: settles_def) (simp add: sym_set_def)

definition resolving :: "program list \<Rightarrow> nat \<Rightarrow> sema \<Rightarrow> bool" where
  "resolving ps n s \<longleftrightarrow> sema_ok n s \<and> shaped ps s \<and> se_cur_fn s = None \<and> se_scopes s = scopes_init \<and> se_loop_depth s = 0
     \<and> values_own ps s"

lemma resolving_start: "collecting ps n s \<Longrightarrow> resolving ps n s"
  by (simp add: resolving_def collecting_def shaped_def)

lemma settles_own:
  assumes "sema_ok n s" "settles P s s'" "values_own ps s"
  shows "values_own ps s'"
  unfolding values_own_def
proof (intro allI impI)
  fix x y assume v: "value_names s' x = Some y"
  note D = settlesD [OF assms(2)]
  have v': "value_names s x = Some y" using v D(3) by simp
  note sh = D(6) [OF owned [OF assms(1) v']]
  show "sy_name (sym_at s' y) = x \<and> (sy_kind (sym_at s' y) = SYM_ENUM_MEMBER
      \<or> (\<exists>pl d. entity_at ps pl = Some d \<and> entity_name d = x \<and> stands_for (sym_at s' y) pl d))"
    using assms(3) v' sym_shapeD(1,2) [OF sh] stands_for_shape [OF sh] unfolding values_own_def by metis
qed

lemma resolving_step:
  assumes r: "resolving ps n s" and ok: "sema_ok n s'" and m: "settles P s s'" and ps: "se_programs s' = se_programs s"
  shows "resolving ps n s'"
proof -
  have "values_own ps s'" using settles_own [OF _ m] r by (auto simp: resolving_def)
  then show ?thesis using assms by (simp add: resolving_def settles_def shaped_def)
qed

lemma item_set_same:
  "se_types (item_set p i it s) = se_types s" "nerr (item_set p i it s) = nerr s" "sym_at (item_set p i it s) = sym_at s"
  "type_names (item_set p i it s) = type_names s" "value_names (item_set p i it s) = value_names s" "se_syms (item_set p i it s) = se_syms s"
  by (simp_all add: item_set_def nerr_def fun_eq_iff sym_at_def type_names_def value_names_def)

lemma item_set_resolving:
  assumes r: "resolving ps n s" and at: "p < length ps" "i < length (pg_items (ps ! p))" "strip_item it = strip_item (pg_items (ps ! p) ! i)"
  shows "resolving ps n (item_set p i it s)" "settles P s (item_set p i it s)"
proof -
  show "settles P s (item_set p i it s)" using item_set_same(2,3) by (simp add: settles_def) (simp add: item_set_def)
  have "values_own ps (item_set p i it s)" using r by (simp add: resolving_def values_own_def item_set_same)
  then show "resolving ps n (item_set p i it s)"
    using r item_set_ok [OF _ _ at] item_set_shaped [OF _ at] by (simp add: resolving_def) (simp add: item_set_def)
qed

section \<open>Signatures\<close>

definition param_typed :: "type_table \<Rightarrow> (string \<Rightarrow> tyref option) \<Rightarrow> param \<Rightarrow> tyref \<Rightarrow> bool" where
  "param_typed tt T p t \<longleftrightarrow> denotes tt T (pr_type p) t \<and> t_kind (ty_at tt t) \<notin> {TY_VOID, TY_STRUCT, TY_ARRAY}"

text \<open>The types of a function's symbol are the declared ones; structs and arrays are not passed by value.\<close>

definition fn_typed :: "type_table \<Rightarrow> (string \<Rightarrow> tyref option) \<Rightarrow> fn_decl \<Rightarrow> sym \<Rightarrow> bool" where
  "fn_typed tt T fn y \<longleftrightarrow> (\<exists>rt. sy_type y = Some rt \<and> denotes tt T (fn_ret fn) rt \<and> t_kind (ty_at tt rt) \<notin> {TY_STRUCT, TY_ARRAY})
     \<and> list_all2 (param_typed tt T) (fn_params fn) (sy_params y)"

definition global_typed :: "type_table \<Rightarrow> (string \<Rightarrow> tyref option) \<Rightarrow> ast_type \<Rightarrow> sym \<Rightarrow> bool" where
  "global_typed tt T a y \<longleftrightarrow> (\<exists>t. sy_type y = Some t \<and> denotes tt T a t \<and> ty_is_sized (ty_at tt t))"

fun entity_typed :: "type_table \<Rightarrow> (string \<Rightarrow> tyref option) \<Rightarrow> entity \<Rightarrow> sym \<Rightarrow> bool" where
  "entity_typed tt T (Fn_entity fn ext) y = fn_typed tt T fn y"
| "entity_typed tt T (Global_entity m a name) y = global_typed tt T a y"

lemma param_typed_grow:
  "types_grow tt tt' \<Longrightarrow> types_ok tt \<Longrightarrow> types_ok tt' \<Longrightarrow> valid tt t \<Longrightarrow> param_typed tt T p t \<Longrightarrow> param_typed tt' T p t"
  using types_grow_keeps(1) [of tt tt' t] by (auto simp: param_typed_def intro: denotes_grow)

lemma params_typed_grow:
  assumes "types_grow tt tt'" "types_ok tt" "types_ok tt'"
  shows "list_all2 (param_typed tt T) ps ts \<Longrightarrow> \<forall>t \<in> set ts. valid tt t \<Longrightarrow> list_all2 (param_typed tt' T) ps ts"
  using param_typed_grow [OF assms] by (simp add: list_all2_conv_all_nth)

lemma entity_typed_grow:
  assumes g: "types_grow tt tt'" and ok: "types_ok tt" "types_ok tt'" and y: "sym_ok tt y" and e: "entity_typed tt T d y"
  shows "entity_typed tt' T d y"
proof (cases d)
  case (Fn_entity fn ext)
  then obtain rt where r: "sy_type y = Some rt" "denotes tt T (fn_ret fn) rt" "t_kind (ty_at tt rt) \<notin> {TY_STRUCT, TY_ARRAY}"
    "list_all2 (param_typed tt T) (fn_params fn) (sy_params y)" using e by (auto simp: fn_typed_def)
  have "valid tt rt" using y r(1) by (simp add: sym_ok_def)
  then show ?thesis
    using r denotes_grow [OF r(2) ok g] types_grow_keeps(1) [OF g] params_typed_grow [OF g ok r(4)] y
    by (simp add: Fn_entity fn_typed_def sym_ok_def)
next
  case (Global_entity m a name)
  then obtain t where t: "sy_type y = Some t" "denotes tt T a t" "ty_is_sized (ty_at tt t)" using e by (auto simp: global_typed_def)
  have "valid tt t" using y t(1) by (simp add: sym_ok_def)
  then show ?thesis
    using t denotes_grow [OF t(2) ok g] sized_same [OF types_grow_same [OF g]] by (simp add: Global_entity global_typed_def)
qed

lemma check_passable_ok:
  assumes ok: "sema_ok n s" and t: "valid (se_types s) t"
  shows "wp (check_passable t pos what s) (\<lambda>b s'. sema_ok n s' \<and> kept s s' \<and> (if b then s' = s \<and> kind s t \<notin> {TY_STRUCT, TY_ARRAY} else 0 < nerr s'))"
proof -
  have err: "wp (do { s \<leftarrow> serror pos ps s; Some (False, s) }) (\<lambda>b s'. sema_ok n s' \<and> kept s s'
      \<and> (if b then s' = s \<and> kind s t \<notin> {TY_STRUCT, TY_ARRAY} else 0 < nerr s'))" if "list_all (piece_ok s) ps" for ps
    by (rule wp_serror [OF ok that]) (simp add: after_error_def)
  show ?thesis
    using ok t err [of "[Txt (''struct '' @ quote (t_name (ty_of s t)) @ '' cannot be '' @ what @ '' by value; pass a pointer'')]"]
      err [of "[Txt ''array type '', TyName128 t, Txt ('' cannot be '' @ what @ ''; pass a pointer'')]"]
    by (simp add: check_passable_def)
qed

definition params_post :: "nat \<Rightarrow> sema \<Rightarrow> param list \<Rightarrow> tyref list \<Rightarrow> sema \<Rightarrow> bool" where
  "params_post n s ps ts s' \<longleftrightarrow> sema_ok n s' \<and> kept s s' \<and> (\<forall>t \<in> set ts. valid (se_types s') t)
     \<and> (nerr s' = 0 \<longrightarrow> (\<forall>t \<in> set ts. proper (se_types s') t) \<and> list_all2 (param_typed (se_types s') (type_names s)) ps ts)"

definition param_post :: "nat \<Rightarrow> sema \<Rightarrow> param \<Rightarrow> tyref \<Rightarrow> sema \<Rightarrow> bool" where
  "param_post n s p t s' \<longleftrightarrow> sema_ok n s' \<and> kept s s' \<and> valid (se_types s') t
     \<and> (nerr s' = 0 \<longrightarrow> proper (se_types s') t \<and> param_typed (se_types s') (type_names s) p t)"

lemma kept_type_names: "kept s s' \<Longrightarrow> type_names s' = type_names s"
  using kept_same(1) [of s s'] by (simp add: type_names_def)

text \<open>A type that has been resolved and, if it is a struct, laid out.\<close>

definition placed :: "nat \<Rightarrow> sema \<Rightarrow> ast_type \<Rightarrow> tyref \<Rightarrow> sema \<Rightarrow> bool" where
  "placed n s a t s' \<longleftrightarrow> sema_ok n s' \<and> kept s s' \<and> valid (se_types s') t \<and> typed_kind (kind s' t)
     \<and> (nerr s' = 0 \<longrightarrow> proper (se_types s') t \<and> denotes (se_types s') (type_names s) a t)"

lemma resolved_placed: "resolved n s a t s' \<Longrightarrow> placed n s a t s'"
  using kept_same(1) [of s s'] by (auto simp: resolved_def placed_def type_names_def)

lemma placed_laid:
  assumes p: "placed n s a t s1" and l: "laid n s1 t s2"
  shows "placed n s a t s2"
proof -
  have k: "kept s1 s2" and ok: "sema_ok n s1" "sema_ok n s2" using p l by (simp_all add: laid_def placed_def)
  have v: "valid (se_types s1) t" using p by (simp add: placed_def)
  show ?thesis
    using p ok k kept_trans [of s s1 s2] kept_valid [OF k v] kept_kind [OF k v] nerr_zero [OF k]
      denotes_grow [OF _ sema_okD(1) [OF ok(1)] sema_okD(1) [OF ok(2)] keptD(1) [OF k]] kept_type_names [OF k]
    by (auto simp: placed_def proper_def kind_def)
qed

text \<open>One step of \<open>resolve_params\<close>.\<close>

definition resolve_param :: "param \<Rightarrow> sema \<Rightarrow> (tyref \<times> sema) option" where
  "resolve_param p s = do { (pt, s) \<leftarrow> resolve (pr_type p) s;
     s \<leftarrow> layout_if_struct pt s;
     (if kind s pt = TY_VOID then
          do { s \<leftarrow> serror (pr_pos p) [Txt (''parameter '' @ quote (pr_name p) @ '' cannot have type void'')] s;
               Some (poison s, s) }
        else do { (ok, s) \<leftarrow> check_passable pt (pr_pos p) ''passed'' s; Some (if \<not> ok then poison s else pt, s) }) }"

lemma resolve_params_step:
  "resolve_params (p # ps) s = do { (pt, s) \<leftarrow> resolve_param p s; (pts, s) \<leftarrow> resolve_params ps s; Some (pt # pts, s) }"
  by (cases "resolve (pr_type p) s") (auto simp: resolve_param_def)

lemma resolve_param_ok:
  assumes ok: "sema_ok n s" and wf: "wf_type (pr_type p)"
  shows "wp (resolve_param p s) (param_post n s p)"
  unfolding resolve_param_def
proof (rule wp_step [OF resolve_ok [OF ok wf]])
  fix t s1 assume "resolved n s (pr_type p) t s1"
  then have p1: "placed n s (pr_type p) t s1" by (rule resolved_placed)
  then have ok1: "sema_ok n s1" "valid (se_types s1) t" by (simp_all add: placed_def)
  show "wp (do { s \<leftarrow> layout_if_struct t s1;
          (if kind s t = TY_VOID then
               do { s \<leftarrow> serror (pr_pos p) [Txt (''parameter '' @ quote (pr_name p) @ '' cannot have type void'')] s;
                    Some (poison s, s) }
             else do { (ok, s) \<leftarrow> check_passable t (pr_pos p) ''passed'' s; Some (if \<not> ok then poison s else t, s) }) }) (param_post n s p)"
  proof (rule wp_ends [OF layout_if_struct_ok [OF ok1]])
    fix s2 assume "laid n s1 t s2"
    with p1 have p2: "placed n s (pr_type p) t s2" by (rule placed_laid)
    then have s2: "sema_ok n s2" "kept s s2" "valid (se_types s2) t" by (simp_all add: placed_def)
    have bad: "param_post n s p (poison x) x" if "sema_ok n x" "kept s2 x" "0 < nerr x" for x
      using that kept_trans [OF s2(2)] poison_is(1) [OF sema_okD(1)] by (simp add: param_post_def)
    show "wp (if kind s2 t = TY_VOID then
               do { s \<leftarrow> serror (pr_pos p) [Txt (''parameter '' @ quote (pr_name p) @ '' cannot have type void'')] s2;
                    Some (poison s, s) }
             else do { (ok, s) \<leftarrow> check_passable t (pr_pos p) ''passed'' s2; Some (if \<not> ok then poison s else t, s) }) (param_post n s p)"
    proof (rule wp_cond)
      show "wp (do { s \<leftarrow> serror (pr_pos p) [Txt (''parameter '' @ quote (pr_name p) @ '' cannot have type void'')] s2;
                    Some (poison s, s) }) (param_post n s p)"
        by (rule wp_serror [OF s2(1)]) (use bad in \<open>simp_all add: after_error_def\<close>)
      assume nv: "kind s2 t \<noteq> TY_VOID"
      show "wp (do { (ok, s) \<leftarrow> check_passable t (pr_pos p) ''passed'' s2; Some (if \<not> ok then poison s else t, s) }) (param_post n s p)"
      proof (rule wp_step [OF check_passable_ok [OF s2(1,3)]])
        fix b x assume x: "sema_ok n x \<and> kept s2 x \<and> (if b then x = s2 \<and> kind s2 t \<notin> {TY_STRUCT, TY_ARRAY} else 0 < nerr x)"
        show "wp (Some (if \<not> b then poison x else t, x)) (param_post n s p)"
        proof (cases b)
          case True
          then show ?thesis using x nv p2 by (simp add: param_post_def placed_def param_typed_def kind_def)
        qed (use x bad in simp)
      qed
    qed
  qed
qed

lemma param_post_later:
  assumes p: "param_post n s p t s1" and k: "kept s1 s2" "sema_ok n s2"
  shows "param_post n s p t s2"
proof -
  have ok: "sema_ok n s1" and v: "valid (se_types s1) t" using p by (simp_all add: param_post_def)
  note g = keptD(1) [OF k(1)] and T = sema_okD(1) [OF ok] sema_okD(1) [OF k(2)]
  show ?thesis
    using p k kept_trans [of s s1 s2] kept_valid [OF k(1) v] proper_kept [OF k(1) v] param_typed_grow [OF g T v] nerr_zero [OF k(1)]
    by (auto simp: param_post_def)
qed

lemma resolve_params_ok:
  "sema_ok n s \<Longrightarrow> list_all (\<lambda>p. wf_type (pr_type p)) ps \<Longrightarrow> wp (resolve_params ps s) (params_post n s ps)"
proof (induction ps arbitrary: s)
  case Nil
  then show ?case by (simp add: params_post_def)
next
  case (Cons p ps)
  have wf: "wf_type (pr_type p)" "list_all (\<lambda>p. wf_type (pr_type p)) ps" using Cons.prems(2) by simp_all
  show ?case
    unfolding resolve_params_step
  proof (rule wp_step [OF resolve_param_ok [OF Cons.prems(1) wf(1)]])
    fix t s1 assume p: "param_post n s p t s1"
    then have ok1: "sema_ok n s1" "kept s s1" by (simp_all add: param_post_def)
    show "wp (do { (pts, s) \<leftarrow> resolve_params ps s1; Some (t # pts, s) }) (params_post n s (p # ps))"
    proof (rule wp_step [OF Cons.IH [OF ok1(1) wf(2)]])
      fix ts s2 assume q: "params_post n s1 ps ts s2"
      then have k: "kept s1 s2" "sema_ok n s2" by (simp_all add: params_post_def)
      have "param_post n s p t s2" by (rule param_post_later [OF p k])
      then show "wp (Some (t # ts, s2)) (params_post n s (p # ps))"
        using q kept_type_names [OF ok1(2)] by (auto simp: params_post_def param_post_def)
    qed
  qed
qed

definition signed :: "program list \<Rightarrow> nat \<Rightarrow> place \<Rightarrow> symref \<Rightarrow> entity \<Rightarrow> sema \<Rightarrow> sema \<Rightarrow> bool" where
  "signed ps n pl y d s s' \<longleftrightarrow> resolving ps n s' \<and> settles {pl} s s' \<and> se_programs s' = se_programs s \<and> sy_type (sym_at s' y) \<noteq> None
     \<and> (nerr s' = 0 \<longrightarrow> entity_typed (se_types s') (type_names s') d (sym_at s' y))"

lemma resolve_signature_ok:
  assumes r: "resolving ps n s" and y: "y < length (se_syms s)" "stands_for (sym_at s y) pl (Fn_entity fn ext)" and src: "source_fn fn"
  shows "ends (resolve_signature y fn s) (signed ps n pl y (Fn_entity fn ext) s)"
proof -
  have ok: "sema_ok n s" using r by (simp add: resolving_def)
  have wf: "wf_type (fn_ret fn)" "list_all (\<lambda>p. wf_type (pr_type p)) (fn_params fn)" using src by (simp_all add: source_fn_def)
  from wpD [OF resolve_ok [OF ok wf(1)]] obtain rt s1 where s1: "resolve (fn_ret fn) s = Some (rt, s1)" "resolved n s (fn_ret fn) rt s1"
    by auto
  have p1: "placed n s (fn_ret fn) rt s1" by (rule resolved_placed [OF s1(2)])
  then have q1: "sema_ok n s1" "kept s s1" "valid (se_types s1) rt" by (simp_all add: placed_def)
  note same1 = kept_same(5) [OF q1(2)]
  have y1: "y < length (se_syms s1)" "sym_at s1 y = sym_at s y" using y(1) same1 by (simp_all add: sym_at_def)
  have pl: "sym_place (sym_at s y) \<in> Some ` {pl}" "sy_kind (sym_at s y) = SYM_FN" using stands_for_place [OF y(2)] y(2) by simp_all
  let ?f = "\<lambda>x. x\<lparr>sy_type := Some rt\<rparr>"
  let ?s2 = "sym_set y ?f s1"
  have yok: "sym_ok (se_types s1) (sym_at s1 y)" by (rule sema_okD(9) [OF q1(1) y1(1)])
  have ok2: "sema_ok n ?s2"
  proof (rule sym_set_ok [OF q1(1) y1(1)])
    show "sym_ok (se_types s1) (?f (sym_at s1 y))" using yok q1(3) by (simp add: sym_ok_def)
    assume z: "nerr s1 = 0"
    have "proper (se_types s1) rt" using p1 z by (simp add: placed_def)
    then show "clean_sym (se_types s1) (?f (sym_at s1 y))" using sema_okD(12) [OF q1(1) z y1(1)] by (simp add: clean_sym_def)
  qed
  have m2: "settles {pl} s ?s2"
    by (rule settles_trans [OF kept_settles [OF q1(2)] sym_set_settles [OF y1(1)]]) (use pl y1(2) in \<open>simp_all add: sym_shape_def\<close>)
  note at2 = sym_set_at(1) [OF y1(1)]
  have v2: "valid (se_types ?s2) rt" using q1(3) by (simp add: sym_set_at(2))
  from layout_if_struct_ok [OF ok2 v2] obtain s3 where s3: "layout_if_struct rt ?s2 = Some s3" "laid n ?s2 rt s3" by (auto simp: ends_iff)
  then have q3: "sema_ok n s3" "kept ?s2 s3" by (simp_all add: laid_def)
  have v3: "valid (se_types s3) rt" by (rule kept_valid [OF q3(2) v2])
  from wpD [OF check_passable_ok [OF q3(1) v3]] obtain b s4 where s4: "check_passable rt (fn_pos fn) ''returned'' s3 = Some (b, s4)"
    "sema_ok n s4" "kept s3 s4" "if b then s4 = s3 \<and> kind s3 rt \<notin> {TY_STRUCT, TY_ARRAY} else 0 < nerr s4" by blast
  from wpD [OF resolve_params_ok [OF s4(2) wf(2)]] obtain ts s5 where s5: "resolve_params (fn_params fn) s4 = Some (ts, s5)"
    "params_post n s4 (fn_params fn) ts s5" by auto
  then have q5: "sema_ok n s5" "kept s4 s5" by (simp_all add: params_post_def)
  have k5: "kept ?s2 s5" by (rule kept_trans [OF kept_trans [OF q3(2) s4(3)] q5(2)])
  have sy5: "se_syms s5 = se_syms ?s2" by (rule kept_same(5) [OF k5])
  have y5: "y < length (se_syms s5)" "sym_at s5 y = ?f (sym_at s y)"
    using y1 at2 [of ?f y] sy5 by (simp_all add: sym_at_def) (simp_all add: sym_set_def)
  let ?g = "\<lambda>x. x\<lparr>sy_params := ts\<rparr>"
  let ?s6 = "sym_set y ?g s5"
  have ok6: "sema_ok n ?s6"
  proof (rule sym_set_ok [OF q5(1) y5(1)])
    show "sym_ok (se_types s5) (?g (sym_at s5 y))"
      using sema_okD(9) [OF q5(1) y5(1)] s5(2) by (simp add: sym_ok_def params_post_def)
    assume z: "nerr s5 = 0"
    then show "clean_sym (se_types s5) (?g (sym_at s5 y))"
      using sema_okD(12) [OF q5(1) z y5(1)] s5(2) by (simp add: clean_sym_def params_post_def)
  qed
  have pl5: "sym_place (sym_at s5 y) \<in> Some ` {pl}"
    using pl(1) sym_place_shape [of "?f (sym_at s y)" "sym_at s y"] by (simp add: y5(2) sym_shape_def)
  have m6: "settles {pl} s ?s6"
    by (rule settles_trans [OF settles_trans [OF m2 kept_settles [OF k5]] sym_set_settles [OF y5(1) pl5]]) (simp add: sym_shape_def)
  have y6: "sym_at ?s6 y = (sym_at s y)\<lparr>sy_type := Some rt, sy_params := ts\<rparr>" using sym_set_at(1) [OF y5(1), of ?g y] y5(2) by simp
  have pg: "se_programs ?s6 = se_programs s"
    using kept_same(6) [OF k5] kept_same(6) [OF q1(2)] by (simp add: sym_set_at(4))
  have tn: "type_names s5 = type_names s" "type_names s4 = type_names s"
    using kept_type_names [OF k5] kept_type_names [OF q1(2)] kept_type_names [OF kept_trans [OF q3(2) s4(3)]] by (simp_all add: sym_set_at(5))
  have "fn_typed (se_types s5) (type_names s) fn (sym_at ?s6 y)" if z: "nerr s5 = 0"
  proof -
    have z': "nerr s4 = 0" "nerr s1 = 0"
      using nerr_zero [OF q5(2) z] nerr_zero [OF k5 z] by (simp_all add: sym_set_at(3))
    have b: "kind s3 rt \<notin> {TY_STRUCT, TY_ARRAY}" using s4(4) z'(1) by (cases b) auto
    have "kind s5 rt = kind s3 rt" by (rule kept_kind [OF kept_trans [OF s4(3) q5(2)] v3])
    moreover have "denotes (se_types s5) (type_names s) (fn_ret fn) rt"
      using denotes_grow [OF _ sema_okD(1) [OF q1(1)] sema_okD(1) [OF q5(1)]] keptD(1) [OF k5] p1 z'(2) by (simp add: placed_def sym_set_at(2))
    ultimately show ?thesis using b s5(2) z by (simp add: fn_typed_def y6 kind_def params_post_def tn)
  qed
  then have "signed ps n pl y (Fn_entity fn ext) s ?s6"
    using resolving_step [OF r ok6 m6 pg] m6 pg tn by (simp add: signed_def y6 sym_set_at(2,3,5))
  then show ?thesis by (simp add: resolve_signature_def s1(1) s3(1) s4(1) s5(1) Let_def)
qed

text \<open>The initializer of a global, as pass 3 leaves it.\<close>

definition init_typed :: "type_table \<Rightarrow> bool \<Rightarrow> sym \<Rightarrow> expr option \<Rightarrow> bool" where
  "init_typed tt m y init \<longleftrightarrow> (case init of
     Some e \<Rightarrow> \<exists>t. sy_type y = Some t \<and> const_typed tt e t
   | None \<Rightarrow> m)"

definition global_post :: "program list \<Rightarrow> nat \<Rightarrow> place \<Rightarrow> symref \<Rightarrow> entity \<Rightarrow> bool \<Rightarrow> expr option \<Rightarrow> sema \<Rightarrow> expr option \<Rightarrow> sema \<Rightarrow> bool" where
  "global_post ps n pl y d m init s init' s' \<longleftrightarrow> signed ps n pl y d s s' \<and> strip_child init' = strip_child init
     \<and> (nerr s' = 0 \<longrightarrow> init_typed (se_types s') m (sym_at s' y) init')"

lemma const_typedI:
  assumes "has_type s e t" "literal_node (ex_u (strip e))"
  shows "const_typed (se_types s) e t"
  using assms literal_anywhere by (auto simp: const_typed_def has_type_def)

lemma strip_literal: "literal_node (ex_u e) \<Longrightarrow> literal_node (ex_u (strip e))"
  by (cases e; cases "ex_u e") simp_all

text \<open>The type of a global is poison if it has no values.\<close>

lemma global_type_ok:
  assumes ok: "sema_ok n s" and wf: "wf_type a"
  shows "wp (do { (t, s) \<leftarrow> resolve a s;
          s \<leftarrow> layout_if_struct t s;
          (if \<not> ty_is_sized (ty_of s t)
             then do { s \<leftarrow> serror pos [Txt (quote (sy_name (sym_at s y)) @ '' has type ''), TyName128 t, Txt '', which is not a value type''] s;
                       Some (poison s, s) }
             else Some (t, s)) })
    (\<lambda>t s'. sema_ok n s' \<and> kept s s' \<and> valid (se_types s') t \<and> (nerr s' = 0 \<longrightarrow> proper (se_types s') t
        \<and> denotes (se_types s') (type_names s) a t \<and> ty_is_sized (ty_at (se_types s') t)))" (is "wp _ ?Q")
proof (rule wp_step [OF resolve_ok [OF ok wf]])
  fix t s1 assume "resolved n s a t s1"
  then have p1: "placed n s a t s1" by (rule resolved_placed)
  then have q1: "sema_ok n s1" "valid (se_types s1) t" by (simp_all add: placed_def)
  show "wp (do { s \<leftarrow> layout_if_struct t s1;
          (if \<not> ty_is_sized (ty_of s t)
             then do { s \<leftarrow> serror pos [Txt (quote (sy_name (sym_at s y)) @ '' has type ''), TyName128 t, Txt '', which is not a value type''] s;
                       Some (poison s, s) }
             else Some (t, s)) }) ?Q"
  proof (rule wp_ends [OF layout_if_struct_ok [OF q1]])
    fix s2 assume "laid n s1 t s2"
    with p1 have p2: "placed n s a t s2" by (rule placed_laid)
    then have q2: "sema_ok n s2" "kept s s2" "valid (se_types s2) t" by (simp_all add: placed_def)
    show "wp (if \<not> ty_is_sized (ty_of s2 t)
             then do { s \<leftarrow> serror pos [Txt (quote (sy_name (sym_at s2 y)) @ '' has type ''), TyName128 t, Txt '', which is not a value type''] s2;
                       Some (poison s, s) }
             else Some (t, s2)) ?Q"
    proof (rule wp_cond)
      show "wp (do { s \<leftarrow> serror pos [Txt (quote (sy_name (sym_at s2 y)) @ '' has type ''), TyName128 t, Txt '', which is not a value type''] s2;
                       Some (poison s, s) }) ?Q"
      proof (rule wp_serror [OF q2(1)])
        fix x assume x: "after_error n s2 x"
        then have "kept s x" using kept_trans [OF q2(2)] by (simp add: after_error_def)
        then show "wp (Some (poison x, x)) ?Q" using after_errorD [OF x] by simp
      qed (use q2(3) in simp)
    qed (use p2 in \<open>simp add: placed_def ty_of_def\<close>)
  qed
qed

lemma resolve_global_ok:
  assumes r: "resolving ps n s" and y: "y < length (se_syms s)" "stands_for (sym_at s y) pl (Global_entity m a name)"
    and wf: "wf_type a" and lit: "case init of Some e \<Rightarrow> literal_node (ex_u e) | None \<Rightarrow> True"
  shows "wp (resolve_global y pos a init s) (global_post ps n pl y (Global_entity m a name) m init s)"
proof -
  have ok: "sema_ok n s" using r by (simp add: resolving_def)
  let ?d = "Global_entity m a name"
  let ?T = "\<lambda>t s'. sema_ok n s' \<and> kept s s' \<and> valid (se_types s') t \<and> (nerr s' = 0 \<longrightarrow> proper (se_types s') t
        \<and> denotes (se_types s') (type_names s) a t \<and> ty_is_sized (ty_at (se_types s') t))"
  have step: "resolve_global y pos a init s = do { (t, s) \<leftarrow> do { (t, s) \<leftarrow> resolve a s;
          s \<leftarrow> layout_if_struct t s;
          (if \<not> ty_is_sized (ty_of s t)
             then do { s \<leftarrow> serror pos [Txt (quote (sy_name (sym_at s y)) @ '' has type ''), TyName128 t, Txt '', which is not a value type''] s;
                       Some (poison s, s) }
             else Some (t, s)) };
          let s = sym_set y (\<lambda>x. x\<lparr>sy_type := Some t\<rparr>) s;
          if init \<noteq> None then do { ((_, init), s) \<leftarrow> check_expr init (Some t) s; Some (init, s) }
          else if \<not> sy_is_mut (sym_at s y) then
            do { s \<leftarrow> no_initializer pos (sy_name (sym_at s y)) s; Some (init, s) }
          else Some (init, s) }"
    by (cases "resolve a s") (auto simp: resolve_global_def)
  show ?thesis
    unfolding step
  proof (rule wp_step [OF global_type_ok [OF ok wf]])
    fix t s1 assume t: "?T t s1"
    then have q1: "sema_ok n s1" "kept s s1" "valid (se_types s1) t" by simp_all
    have y1: "y < length (se_syms s1)" "sym_at s1 y = sym_at s y" using y(1) kept_same(5) [OF q1(2)] by (simp_all add: sym_at_def)
    have pl: "sym_place (sym_at s1 y) \<in> Some ` {pl}" using stands_for_place [OF y(2)] y1(2) by simp
    let ?f = "\<lambda>x. x\<lparr>sy_type := Some t\<rparr>"
    let ?s2 = "sym_set y ?f s1"
    have ok2: "sema_ok n ?s2"
    proof (rule sym_set_ok [OF q1(1) y1(1)])
      show "sym_ok (se_types s1) (?f (sym_at s1 y))" using sema_okD(9) [OF q1(1) y1(1)] q1(3) by (simp add: sym_ok_def)
      assume z: "nerr s1 = 0"
      then show "clean_sym (se_types s1) (?f (sym_at s1 y))" using sema_okD(12) [OF q1(1) z y1(1)] t by (simp add: clean_sym_def)
    qed
    have m2: "settles {pl} s ?s2"
      by (rule settles_trans [OF kept_settles [OF q1(2)] sym_set_settles [OF y1(1) pl]]) (simp add: sym_shape_def)
    have y2: "sym_at ?s2 y = (sym_at s y)\<lparr>sy_type := Some t\<rparr>" using sym_set_at(1) [OF y1(1), of ?f y] y1(2) by simp
    have pg2: "se_programs ?s2 = se_programs s" using kept_same(6) [OF q1(2)] by (simp add: sym_set_at(4))
    have signed: "signed ps n pl y ?d s s' \<and> sym_at s' y = sym_at ?s2 y" if "kept ?s2 s'" "sema_ok n s'" for s'
    proof -
      have m: "settles {pl} s s'" by (rule settles_trans [OF m2 kept_settles [OF that(1)]])
      have pg: "se_programs s' = se_programs s" using kept_same(6) [OF that(1)] pg2 by simp
      have ys: "sym_at s' y = sym_at ?s2 y" using kept_same(5) [OF that(1)] by (simp add: sym_at_def)
      have g: "types_grow (se_types s1) (se_types s')" using keptD(1) [OF that(1)] by (simp add: sym_set_at(2))
      have "entity_typed (se_types s') (type_names s') ?d (sym_at s' y)" if z: "nerr s' = 0"
      proof -
        have "nerr s1 = 0" using nerr_zero [OF \<open>kept ?s2 s'\<close> z] by (simp add: sym_set_at(3))
        then have "denotes (se_types s1) (type_names s) a t" "ty_is_sized (ty_at (se_types s1) t)" using t by simp_all
        then show ?thesis
          using denotes_grow [OF _ sema_okD(1) [OF q1(1)] sema_okD(1) [OF \<open>sema_ok n s'\<close>] g] sized_same [OF types_grow_same [OF g q1(3)]]
            settlesD(4) [OF m] by (simp add: global_typed_def ys y2)
      qed
      then show ?thesis using resolving_step [OF r that(2) m pg] m pg by (simp add: signed_def ys y2)
    qed
    have mut: "sy_is_mut (sym_at ?s2 y) = m" using y(2) by (simp add: y2)
    show "wp (let s = ?s2 in
          if init \<noteq> None then do { ((_, init), s) \<leftarrow> check_expr init (Some t) s; Some (init, s) }
          else if \<not> sy_is_mut (sym_at s y) then
            do { s \<leftarrow> no_initializer pos (sy_name (sym_at s y)) s; Some (init, s) }
          else Some (init, s)) (global_post ps n pl y ?d m init s)"
    proof (cases init)
      case (Some e)
      then have l: "literal_node (ex_u e)" using lit by simp
      have x: "expectable ?s2 (Some t)"
        using t by (simp add: expectable_def sym_set_at(2,3) kind_def) (simp add: proper_def)
      from check_literal_ok [OF ok2 l x] obtain u e' s' where c: "check_expr (Some e) (Some t) ?s2 = Some ((u, Some e'), s')"
        "becomes n ?s2 e u e' s'" "nerr s' = 0 \<longrightarrow> u = t \<and> has_type s' e' t" .
      note b = becomes_ok(1,2) [OF c(2)]
      have st: "strip e' = strip e" using c(2) by (simp add: becomes_def)
      have "init_typed (se_types s') m (sym_at s' y) (Some e')" if "nerr s' = 0"
        using const_typedI [of s' e' t] c(3) that strip_literal [OF l] signed [OF b(2,1)] by (simp add: st init_typed_def y2)
      then show ?thesis using signed [OF b(2,1)] st by (simp add: Some c(1) global_post_def)
    next
      case None
      show ?thesis
      proof (cases m)
        case True
        then show ?thesis using signed [OF kept_refl ok2] mut by (simp add: None global_post_def init_typed_def)
      next
        case False
        have "wp (do { s \<leftarrow> no_initializer pos (sy_name (sym_at ?s2 y)) ?s2; Some (init, s) }) (global_post ps n pl y ?d m init s)"
          unfolding no_initializer_def
          by (rule wp_serror [OF ok2]) (use signed in \<open>auto simp: after_error_def global_post_def None\<close>)
        then show ?thesis using False mut by (simp add: None Let_def)
      qed
    qed
  qed
qed

section \<open>What is known after an item\<close>

text \<open>The entities at the places \<open>D\<close> have their types.\<close>

definition settled :: "program list \<Rightarrow> place set \<Rightarrow> sema \<Rightarrow> bool" where
  "settled ps D s \<longleftrightarrow> (\<forall>pl \<in> D. \<forall>d y. entity_at ps pl = Some d \<and> owns s pl d y \<longrightarrow> sy_type (sym_at s y) \<noteq> None
     \<and> (nerr s = 0 \<longrightarrow> entity_typed (se_types s) (type_names s) d (sym_at s y)))"

lemma owns_settles:
  assumes "sema_ok n s" "settles P s s'"
  shows "owns s' pl d y = owns s pl d y"
proof -
  note D = settlesD [OF assms(2)]
  have "stands_for (sym_at s' y) pl d = stands_for (sym_at s y) pl d" if "value_names s (entity_name d) = Some y"
    by (rule stands_for_shape [OF D(6) [OF owned [OF assms(1) that]]])
  then show ?thesis unfolding owns_def D(3) by blast
qed

lemma settled_settles:
  assumes ok: "sema_ok n s" "sema_ok n' s'" and m: "settles P s s'" and new: "D \<inter> P = {}" and d: "settled ps D s"
  shows "settled ps D s'"
  unfolding settled_def
proof (intro ballI allI impI, elim conjE)
  fix pl e y assume pl: "pl \<in> D" and e: "entity_at ps pl = Some e" "owns s' pl e y"
  note M = settlesD [OF m]
  have o: "owns s pl e y" using e(2) owns_settles [OF ok(1) m] by simp
  then have st: "value_names s (entity_name e) = Some y" "stands_for (sym_at s y) pl e" by (simp_all add: owns_def)
  note y = owned [OF ok(1) st(1)] stands_for_place [OF st(2)]
  have s: "sym_at s' y = sym_at s y" by (rule M(7) [OF y(1)]) (use y(2) pl new in auto)
  have D: "sy_type (sym_at s y) \<noteq> None" "nerr s = 0 \<longrightarrow> entity_typed (se_types s) (type_names s) e (sym_at s y)"
    using d pl e(1) o unfolding settled_def by blast+
  show "sy_type (sym_at s' y) \<noteq> None \<and> (nerr s' = 0 \<longrightarrow> entity_typed (se_types s') (type_names s') e (sym_at s' y))"
    using D M(2,4) entity_typed_grow [OF M(1) sema_okD(1) [OF ok(1)] sema_okD(1) [OF ok(2)] sema_okD(9) [OF ok(1) y(1)]]
    by (simp add: s)
qed

lemma settled_Un: "settled ps D s \<Longrightarrow> settled ps E s \<Longrightarrow> settled ps (D \<union> E) s"
  by (auto simp: settled_def)

lemma settled_mono: "settled ps D s \<Longrightarrow> E \<subseteq> D \<Longrightarrow> settled ps E s"
  by (auto simp: settled_def)

text \<open>\<open>own_symbol\<close> finds the symbol of the entity at a place if there is one.\<close>

lemma entity_unique: "stands_for y pl d \<Longrightarrow> stands_for y pl' d' \<Longrightarrow> pl' = pl"
  using stands_for_place [of y pl d] stands_for_place [of y pl' d'] by simp

lemma own_fn:
  assumes ok: "sema_ok n s" and own: "values_own ps s" and d: "entity_at ps pl = Some (Fn_entity fn ext)"
  obtains r where "own_symbol SYM_FN (\<lambda>y. sy_decl y = Some pl) (fn_name fn) s = Some r"
    "r = None \<longrightarrow> (\<forall>y. \<not> owns s pl (Fn_entity fn ext) y)"
    "\<forall>y. r = Some y \<longrightarrow> y < length (se_syms s) \<and> owns s pl (Fn_entity fn ext) y"
proof -
  let ?r = "case value_names s (fn_name fn) of
      Some y \<Rightarrow> if sy_kind (sym_at s y) = SYM_FN \<and> sy_decl (sym_at s y) = Some pl then Some y else None
    | None \<Rightarrow> None"
  have "owns s pl (Fn_entity fn ext) y" if y: "value_names s (fn_name fn) = Some y" "sy_kind (sym_at s y) = SYM_FN"
    "sy_decl (sym_at s y) = Some pl" for y
  proof -
    obtain pl' d' where d': "entity_at ps pl' = Some d'" "stands_for (sym_at s y) pl' d'"
      using own y unfolding values_own_def by fastforce
    have "pl' = pl" using stands_for_place [OF d'(2)] y(2,3) by (simp add: sym_place_def)
    then have "d' = Fn_entity fn ext" using d'(1) d by simp
    then show ?thesis using d'(2) y(1) \<open>pl' = pl\<close> by (simp add: owns_def)
  qed
  then have A: "\<forall>y. ?r = Some y \<longrightarrow> y < length (se_syms s) \<and> owns s pl (Fn_entity fn ext) y"
    using owned [OF ok] by (auto split: option.splits if_splits)
  have B: "?r = None \<longrightarrow> (\<forall>y. \<not> owns s pl (Fn_entity fn ext) y)" by (auto simp: owns_def)
  have C: "own_symbol SYM_FN (\<lambda>y. sy_decl y = Some pl) (fn_name fn) s = Some ?r"
    by (simp add: own_symbol_def find_value [OF ok])
  show thesis by (rule that [OF C B A])
qed

lemma own_global:
  assumes ok: "sema_ok n s" and own: "values_own ps s" and d: "entity_at ps (p, i, 0) = Some (Global_entity m a name)"
  obtains r where "own_symbol SYM_GLOBAL (\<lambda>y. sy_item y = Some (p, i)) name s = Some r"
    "r = None \<longrightarrow> (\<forall>y. \<not> owns s (p, i, 0) (Global_entity m a name) y)"
    "\<forall>y. r = Some y \<longrightarrow> y < length (se_syms s) \<and> owns s (p, i, 0) (Global_entity m a name) y"
proof -
  let ?r = "case value_names s name of
      Some y \<Rightarrow> if sy_kind (sym_at s y) = SYM_GLOBAL \<and> sy_item (sym_at s y) = Some (p, i) then Some y else None
    | None \<Rightarrow> None"
  have "owns s (p, i, 0) (Global_entity m a name) y" if y: "value_names s name = Some y" "sy_kind (sym_at s y) = SYM_GLOBAL"
    "sy_item (sym_at s y) = Some (p, i)" for y
  proof -
    obtain pl' d' where d': "entity_at ps pl' = Some d'" "stands_for (sym_at s y) pl' d'"
      using own y unfolding values_own_def by fastforce
    have "pl' = (p, i, 0)" using stands_for_place [OF d'(2)] y(2,3) by (simp add: sym_place_def)
    then have "d' = Global_entity m a name" using d'(1) d by simp
    then show ?thesis using d'(2) y(1) \<open>pl' = (p, i, 0)\<close> by (simp add: owns_def)
  qed
  then have A: "\<forall>y. ?r = Some y \<longrightarrow> y < length (se_syms s) \<and> owns s (p, i, 0) (Global_entity m a name) y"
    using owned [OF ok] by (auto split: option.splits if_splits)
  have B: "?r = None \<longrightarrow> (\<forall>y. \<not> owns s (p, i, 0) (Global_entity m a name) y)" by (auto simp: owns_def)
  have C: "own_symbol SYM_GLOBAL (\<lambda>y. sy_item y = Some (p, i)) name s = Some ?r"
    by (simp add: own_symbol_def find_value [OF ok])
  show thesis by (rule that [OF C B A])
qed

text \<open>A step of pass 3 that settles the places \<open>P\<close>.\<close>

definition resolves :: "program list \<Rightarrow> nat \<Rightarrow> place set \<Rightarrow> sema \<Rightarrow> sema \<Rightarrow> bool" where
  "resolves ps n P s s' \<longleftrightarrow> resolving ps n s' \<and> settles P s s' \<and> se_programs s' = se_programs s \<and> settled ps P s'"

lemma settled_one:
  assumes e: "entity_at ps pl = Some d" and o: "owns s' pl d y"
    and t: "sy_type (sym_at s' y) \<noteq> None" "nerr s' = 0 \<longrightarrow> entity_typed (se_types s') (type_names s') d (sym_at s' y)"
  shows "settled ps {pl} s'"
  using assms by (auto simp: settled_def owns_def)

lemma resolve_own_fn:
  assumes r: "resolving ps n s" and d: "entity_at ps pl = Some (Fn_entity fn ext)" and src: "source_fn fn"
  obtains sym s' where "own_symbol SYM_FN (\<lambda>y. sy_decl y = Some pl) (fn_name fn) s = Some sym"
    "(case sym of Some y \<Rightarrow> resolve_signature y fn s | None \<Rightarrow> Some s) = Some s'" "resolves ps n {pl} s s'"
proof -
  have ok: "sema_ok n s" and own: "values_own ps s" using r by (simp_all add: resolving_def)
  from own_fn [OF ok own d] obtain sym where sym: "own_symbol SYM_FN (\<lambda>y. sy_decl y = Some pl) (fn_name fn) s = Some sym"
    "sym = None \<longrightarrow> (\<forall>y. \<not> owns s pl (Fn_entity fn ext) y)"
    "\<forall>y. sym = Some y \<longrightarrow> y < length (se_syms s) \<and> owns s pl (Fn_entity fn ext) y" .
  show thesis
  proof (cases sym)
    case None
    have "settled ps {pl} s" using sym(2) d None by (simp add: settled_def)
    then show thesis using that [OF sym(1), of s] r by (simp add: None resolves_def)
  next
    case (Some y)
    then have y: "y < length (se_syms s)" "owns s pl (Fn_entity fn ext) y" using sym(3) by simp_all
    then have st: "stands_for (sym_at s y) pl (Fn_entity fn ext)" by (simp add: owns_def)
    from resolve_signature_ok [OF r y(1) st src] obtain s' where s': "resolve_signature y fn s = Some s'"
      "signed ps n pl y (Fn_entity fn ext) s s'" by (auto simp: ends_iff)
    then have m: "settles {pl} s s'" by (simp add: signed_def)
    have o: "owns s' pl (Fn_entity fn ext) y" using y(2) owns_settles [OF ok m] by simp
    have "settled ps {pl} s'" by (rule settled_one [OF d o]) (use s'(2) in \<open>simp_all add: signed_def\<close>)
    then show thesis using that [OF sym(1), of s'] s' by (simp add: Some resolves_def signed_def)
  qed
qed

lemma resolves_seq:
  assumes a: "resolves ps n P s s1" and b: "resolves ps n Q s1 s2" and new: "P \<inter> Q = {}"
  shows "resolves ps n (P \<union> Q) s s2"
proof -
  have ok: "sema_ok n s1" "sema_ok n s2" using a b by (simp_all add: resolves_def resolving_def)
  have "settled ps P s2" by (rule settled_settles [OF ok _ new]) (use a b in \<open>simp_all add: resolves_def\<close>)
  then show ?thesis
    using a b settled_Un settles_trans [OF settles_wider [of P s s1 "P \<union> Q"] settles_wider [of Q s1 s2 "P \<union> Q"]]
    by (simp add: resolves_def)
qed

definition places :: "nat \<Rightarrow> nat \<Rightarrow> nat \<Rightarrow> place set" where
  "places p i j = {(p, i, l) | l. j \<le> l}"

lemma places_step: "places p i j = {(p, i, j)} \<union> places p i (j + 1)"
  by (auto simp: places_def Suc_le_eq le_neq_implies_less)

lemma no_entity_settled: "(\<And>pl. pl \<in> P \<Longrightarrow> entity_at ps pl = None) \<Longrightarrow> settled ps P s"
  by (auto simp: settled_def)

lemma resolve_fns_ok:
  assumes "resolving ps n s" "\<And>l. l < length fns \<Longrightarrow> entity_at ps (p, i, j + l) = Some (Fn_entity (fns ! l) True)"
    "\<And>l. length fns \<le> l \<Longrightarrow> entity_at ps (p, i, j + l) = None" "list_all source_fn fns"
  shows "ends (resolve_fns p i j fns s) (resolves ps n (places p i j) s)"
  using assms
proof (induction fns arbitrary: j s)
  case Nil
  have "settled ps (places p i j) s"
    by (rule no_entity_settled) (use Nil(3) in \<open>auto simp: places_def dest: le_Suc_ex\<close>)
  then show ?case using Nil(1) by (simp add: resolves_def)
next
  case (Cons fn fns)
  have d: "entity_at ps (p, i, j) = Some (Fn_entity fn True)" using Cons.prems(2) [of 0] by simp
  from Cons.prems(4) have src: "source_fn fn" "list_all source_fn fns" by simp_all
  from resolve_own_fn [OF Cons.prems(1) d src(1)] obtain sym s1 where
    s1: "own_symbol SYM_FN (\<lambda>y. sy_decl y = Some (p, i, j)) (fn_name fn) s = Some sym"
    "(case sym of Some y \<Rightarrow> resolve_signature y fn s | None \<Rightarrow> Some s) = Some s1" "resolves ps n {(p, i, j)} s s1" .
  have "ends (resolve_fns p i (j + 1) fns s1) (resolves ps n (places p i (j + 1)) s1)"
  proof (rule Cons.IH)
    show "resolving ps n s1" using s1(3) by (simp add: resolves_def)
    show "entity_at ps (p, i, j + 1 + l) = Some (Fn_entity (fns ! l) True)" if "l < length fns" for l
      using Cons.prems(2) [of "Suc l"] that by simp
    show "entity_at ps (p, i, j + 1 + l) = None" if "length fns \<le> l" for l
      using Cons.prems(3) [of "Suc l"] that by simp
  qed (rule src(2))
  then obtain s2 where s2: "resolve_fns p i (j + 1) fns s1 = Some s2" "resolves ps n (places p i (j + 1)) s1 s2"
    by (auto simp: ends_iff)
  have "resolves ps n (places p i j) s s2"
    unfolding places_step [of p i j] by (rule resolves_seq [OF s1(3) s2(2)]) (simp add: places_def)
  then show ?case using s1 s2(1) by simp
qed

section \<open>Items\<close>

fun fn_source :: "item \<Rightarrow> bool" where
  "fn_source (ITEM_FN pos fn) = source_fn fn"
| "fn_source it = True"

fun item_resolved :: "sema \<Rightarrow> nat \<Rightarrow> nat \<Rightarrow> item \<Rightarrow> bool" where
  "item_resolved s p i (ITEM_STRUCT pos name fs) \<longleftrightarrow>
     (\<forall>t. type_names s name = Some t \<and> t_decl (ty_of s t) = Some (p, i) \<longrightarrow> t_state (ty_of s t) = LAYOUT_DONE)"
| "item_resolved s p i (ITEM_GLOBAL pos m a name init) \<longleftrightarrow>
     (nerr s = 0 \<longrightarrow> (\<forall>y. owns s (p, i, 0) (Global_entity m a name) y \<longrightarrow> init_typed (se_types s) m (sym_at s y) init))"
| "item_resolved s p i it = True"

lemma item_resolved_settles:
  assumes ok: "sema_ok n s" "sema_ok n' s'" and m: "settles P s s'" and new: "\<And>j. (p, i, j) \<notin> P" and r: "item_resolved s p i it"
  shows "item_resolved s' p i it"
proof -
  note M = settlesD [OF m] and T = sema_okD(1) [OF ok(1)] sema_okD(1) [OF ok(2)]
  show ?thesis
  proof (cases it)
    case (ITEM_STRUCT pos name fs)
    have "t_state (ty_of s' t) = LAYOUT_DONE" if t: "type_names s name = Some t" "t_decl (ty_of s' t) = Some (p, i)" for t
    proof -
      have v: "valid (se_types s) t" using sema_okD(4) [OF ok(1)] t(1) by (simp add: type_names_def)
      have "t_decl (ty_of s t) = Some (p, i)" using types_grow_keeps(6) [OF M(1) v] t(2) by (simp add: ty_of_def)
      then have "t_state (ty_of s t) = LAYOUT_DONE" using r t(1) by (simp add: ITEM_STRUCT)
      then show ?thesis using types_grow_at [OF M(1) v] by (simp add: ty_of_def)
    qed
    then show ?thesis by (simp add: ITEM_STRUCT M(4))
  next
    case (ITEM_GLOBAL pos m' a name init)
    let ?d = "Global_entity m' a name"
    have "init_typed (se_types s') m' (sym_at s' y) init" if z: "nerr s' = 0" "owns s' (p, i, 0) ?d y" for y
    proof -
      have o: "owns s (p, i, 0) ?d y" using z(2) owns_settles [OF ok(1) m] by simp
      then have st: "value_names s (entity_name ?d) = Some y" "stands_for (sym_at s y) (p, i, 0) ?d" by (simp_all add: owns_def)
      have "sym_at s' y = sym_at s y" by (rule M(7) [OF owned [OF ok(1) st(1)]]) (use stands_for_place [OF st(2)] new in auto)
      moreover have "init_typed (se_types s) m' (sym_at s y) init" using r o z(1) M(2) by (simp add: ITEM_GLOBAL)
      ultimately show ?thesis using typed_grow(1) [OF M(1) T] by (auto simp: init_typed_def const_typed_def split: option.splits)
    qed
    then show ?thesis by (simp add: ITEM_GLOBAL)
  qed simp_all
qed

definition item_post :: "program list \<Rightarrow> nat \<Rightarrow> nat \<Rightarrow> nat \<Rightarrow> item \<Rightarrow> sema \<Rightarrow> item \<Rightarrow> sema \<Rightarrow> bool" where
  "item_post ps n p i it s it' s' \<longleftrightarrow> resolves ps n (places p i 0) s s' \<and> strip_item it' = strip_item it \<and> item_resolved s' p i it'
     \<and> (fn_source it \<longrightarrow> fn_source it')"

lemma enum_plain:
  assumes "sema_ok n s" "valid (se_types s) t" "kind s t = TY_ENUM"
  shows "t_decl (ty_of s t) = None"
proof -
  have "\<not> t < 17" using core_kinds [of t] core_heap [OF sema_okD(1) [OF assms(1)], of t] assms(3) by (auto simp: kind_def ty_at_def)
  then have "derived_ok (tt_heap (se_types s)) t" using sema_okD(1) [OF assms(1)] assms(2) by (simp add: types_ok_def valid_def)
  then show ?thesis using assms(3) by (simp add: derived_ok_def kind_def ty_of_def ty_at_def)
qed

lemma resolve_struct_ok:
  assumes r: "resolving ps n s" and e: "\<And>j. entity_at ps (p, i, j) = None"
  shows "wp (resolve_item p i (ITEM_STRUCT pos name fs) s) (item_post ps n p i (ITEM_STRUCT pos name fs) s)"
proof -
  have ok: "sema_ok n s" using r by (simp add: resolving_def)
  have none: "settled ps (places p i 0) x" for x by (rule no_entity_settled) (use e in \<open>auto simp: places_def\<close>)
  show ?thesis
  proof (cases "\<exists>t. type_names s name = Some t \<and> t_decl (ty_of s t) = Some (p, i)")
    case True
    then obtain t where t: "type_names s name = Some t" "t_decl (ty_of s t) = Some (p, i)" by blast
    have v: "valid (se_types s) t" "kind s t \<in> {TY_STRUCT, TY_ENUM}" using sema_okD(4) [OF ok] t(1) by (simp_all add: type_names_def)
    then have k: "kind s t = TY_STRUCT" using enum_plain [OF ok v(1)] t(2) by auto
    from layout_struct_ok [OF ok v(1) k] obtain s' where s': "layout_struct t s = Some s'" "sema_ok n s'" "kept s s'"
      "t_state (ty_of s' t) = LAYOUT_DONE" by (auto simp: ends_iff)
    have m: "settles (places p i 0) s s'" by (rule kept_settles [OF s'(3)])
    have "resolves ps n (places p i 0) s s'"
      using resolving_step [OF r s'(2) m kept_same(6) [OF s'(3)]] m none kept_same(6) [OF s'(3)] by (simp add: resolves_def)
    then show ?thesis using t s'(1,4) kept_type_names [OF s'(3)] by (simp add: find_type [OF ok] item_post_def)
  next
    case False
    have "(case type_names s name of Some t \<Rightarrow> if t_decl (ty_of s t) = Some (p, i) then layout_struct t s else Some s | None \<Rightarrow> Some s) = Some s"
      using False by (auto split: option.split)
    then show ?thesis using r none by (simp add: find_type [OF ok] item_post_def resolves_def) (use False in blast)
  qed
qed

lemma resolve_item_ok:
  assumes r: "resolving ps n s" and at: "p < length ps" "i < length (pg_items (ps ! p))" "pg_items (ps ! p) ! i = it" and src: "source_item it"
  shows "wp (resolve_item p i it s) (item_post ps n p i it s)"
proof -
  have e: "entity_at ps (p, i, j) = (if j < length (entities it) then Some (entities it ! j) else None)" for j
    using at by (simp add: entity_at_def)
  have pl: "places p i 0 = {(p, i, 0)} \<union> places p i 1" using places_step [of p i 0] by simp
  have one: "resolves ps n (places p i 0) s s'" if "resolves ps n {(p, i, 0)} s s'" "length (entities it) = 1" for s'
    unfolding pl
  proof (rule resolves_seq [OF that(1)])
    have "settled ps (places p i 1) s'" by (rule no_entity_settled) (use e that(2) in \<open>auto simp: places_def\<close>)
    then show "resolves ps n (places p i 1) s' s'" using that(1) by (simp add: resolves_def)
  qed (simp add: places_def)
  show ?thesis
  proof (cases it)
    case (ITEM_FN pos fn)
    have "entity_at ps (p, i, 0) = Some (Fn_entity fn False)" "source_fn fn" using e src by (simp_all add: ITEM_FN)
    from resolve_own_fn [OF r this] obtain sym s' where s': "own_symbol SYM_FN (\<lambda>y. sy_decl y = Some (p, i, 0)) (fn_name fn) s = Some sym"
      "(case sym of Some y \<Rightarrow> resolve_signature y fn s | None \<Rightarrow> Some s) = Some s'" "resolves ps n {(p, i, 0)} s s'" .
    then show ?thesis using one [OF s'(3)] by (simp add: ITEM_FN item_post_def)
  next
    case (ITEM_STRUCT pos name fs)
    then show ?thesis using resolve_struct_ok [OF r] e by simp
  next
    case (ITEM_ENUM pos name b ms)
    have "settled ps (places p i 0) s" by (rule no_entity_settled) (use e in \<open>auto simp: places_def ITEM_ENUM\<close>)
    then show ?thesis using r by (simp add: ITEM_ENUM item_post_def resolves_def)
  next
    case (ITEM_EXTERN pos abi fns)
    have "ends (resolve_fns p i 0 fns s) (resolves ps n (places p i 0) s)"
      by (rule resolve_fns_ok [OF r]) (use e src in \<open>simp_all add: ITEM_EXTERN\<close>)
    then show ?thesis by (auto simp: ITEM_EXTERN item_post_def ends_iff)
  next
    case (ITEM_GLOBAL pos m a name init)
    let ?d = "Global_entity m a name"
    have ok: "sema_ok n s" and own: "values_own ps s" using r by (simp_all add: resolving_def)
    have d: "entity_at ps (p, i, 0) = Some ?d" using e by (simp add: ITEM_GLOBAL)
    from own_global [OF ok own d] obtain sym where sym: "own_symbol SYM_GLOBAL (\<lambda>y. sy_item y = Some (p, i)) name s = Some sym"
      "sym = None \<longrightarrow> (\<forall>y. \<not> owns s (p, i, 0) ?d y)" "\<forall>y. sym = Some y \<longrightarrow> y < length (se_syms s) \<and> owns s (p, i, 0) ?d y" .
    show ?thesis
    proof (cases sym)
      case None
      have "settled ps {(p, i, 0)} s" using sym(2) d None by (simp add: settled_def)
      then have "resolves ps n (places p i 0) s s" using r by (intro one) (simp_all add: resolves_def ITEM_GLOBAL)
      then show ?thesis using sym None by (simp add: ITEM_GLOBAL item_post_def)
    next
      case (Some y)
      then have y: "y < length (se_syms s)" "owns s (p, i, 0) ?d y" using sym(3) by simp_all
      have st: "stands_for (sym_at s y) (p, i, 0) ?d" using y(2) by (simp add: owns_def)
      have wf: "wf_type a" "case init of Some e \<Rightarrow> literal_node (ex_u e) | None \<Rightarrow> True" using src by (simp_all add: ITEM_GLOBAL)
      from wpD [OF resolve_global_ok [OF r y(1) st wf, of pos]] obtain init' s' where
        s': "resolve_global y pos a init s = Some (init', s')" "global_post ps n (p, i, 0) y ?d m init s init' s'" by auto
      then have g: "signed ps n (p, i, 0) y ?d s s'" "strip_child init' = strip_child init"
        "nerr s' = 0 \<longrightarrow> init_typed (se_types s') m (sym_at s' y) init'" by (simp_all add: global_post_def)
      then have m: "settles {(p, i, 0)} s s'" by (simp add: signed_def)
      have o: "owns s' (p, i, 0) ?d y" using y(2) owns_settles [OF ok m] by simp
      have "settled ps {(p, i, 0)} s'" by (rule settled_one [OF d o]) (use g(1) in \<open>simp_all add: signed_def\<close>)
      then have "resolves ps n (places p i 0) s s'" using g(1) by (intro one) (simp_all add: resolves_def signed_def ITEM_GLOBAL)
      moreover have "z = y" if "owns s' (p, i, 0) ?d z" for z using that o by (simp add: owns_def)
      ultimately show ?thesis using sym Some s'(1) g(2,3) by (auto simp: ITEM_GLOBAL item_post_def)
    qed
  qed
qed

section \<open>Programs\<close>

definition item_at :: "sema \<Rightarrow> nat \<Rightarrow> nat \<Rightarrow> item" where
  "item_at s p i = pg_items (se_programs s ! p) ! i"

definition items_resolved :: "sema \<Rightarrow> nat \<Rightarrow> nat set \<Rightarrow> bool" where
  "items_resolved s p I \<longleftrightarrow> (\<forall>i \<in> I. item_resolved s p i (item_at s p i) \<and> fn_source (item_at s p i))"

text \<open>The pass over the items of program \<open>p\<close> from item \<open>i\<close> on.\<close>

definition from_item :: "nat \<Rightarrow> nat \<Rightarrow> place set" where
  "from_item p i = {(p, k, j) | k j. i \<le> k}"

lemma from_item_step: "from_item p i = places p i 0 \<union> from_item p (Suc i)" "places p i 0 \<inter> from_item p (Suc i) = {}"
  by (auto simp: from_item_def places_def Suc_le_eq le_neq_implies_less)

definition each_post :: "program list \<Rightarrow> nat \<Rightarrow> nat \<Rightarrow> nat \<Rightarrow> sema \<Rightarrow> sema \<Rightarrow> bool" where
  "each_post ps n p i s s' \<longleftrightarrow> resolving ps n s' \<and> settles (from_item p i) s s' \<and> settled ps (from_item p i) s'
     \<and> items_resolved s' p {i..<length (pg_items (ps ! p))}
     \<and> (\<forall>q k. \<not> (q = p \<and> i \<le> k) \<longrightarrow> item_at s' q k = item_at s q k)"

lemma item_resolved_same:
  "item_resolved (item_set p i it s) q k d = item_resolved s q k d"
  by (cases d) (simp_all add: item_set_same owns_def ty_of_def)

lemma settled_same: "settled ps P (item_set p i it s) = settled ps P s"
  by (simp add: settled_def owns_def item_set_same)

lemma each_item_ok:
  assumes "resolving ps n s" "p < length ps" "i + length its = length (pg_items (ps ! p))"
    "\<And>l. l < length its \<Longrightarrow> pg_items (ps ! p) ! (i + l) = its ! l" "list_all source_item its"
  shows "ends (each_item resolve_item p i its s) (each_post ps n p i s)"
  using assms
proof (induction its arbitrary: i s)
  case Nil
  have "settled ps (from_item p i) s"
    by (rule no_entity_settled) (use Nil(3) in \<open>auto simp: from_item_def entity_at_def\<close>)
  then show ?case using Nil(1,3) by (simp add: each_post_def items_resolved_def)
next
  case (Cons it its)
  note r = Cons.prems(1) and p = Cons.prems(2)
  have at: "i < length (pg_items (ps ! p))" "pg_items (ps ! p) ! i = it" using Cons.prems(3) Cons.prems(4) [of 0] by simp_all
  have src: "source_item it" "list_all source_item its" using Cons.prems(5) by simp_all
  from wpD [OF resolve_item_ok [OF r p at src(1)]] obtain it' s1 where s1: "resolve_item p i it s = Some (it', s1)"
    "item_post ps n p i it s it' s1" by auto
  have "fn_source it" using src(1) by (cases it) simp_all
  with s1(2) have q1: "resolves ps n (places p i 0) s s1" and it': "strip_item it' = strip_item (pg_items (ps ! p) ! i)"
    "item_resolved s1 p i it'" "fn_source it'" by (simp_all add: item_post_def at(2))
  let ?s2 = "item_set p i it' s1"
  have r1: "resolving ps n s1" using q1 by (simp add: resolves_def)
  note I = item_set_resolving [OF r1 p at(1) it'(1)]
  have sh: "shaped ps s1" using r1 by (simp add: resolving_def)
  have bound: "p < length (se_programs s1)" "i < length (pg_items (se_programs s1 ! p))"
    using shapedD(1,3) [OF sh] p at(1) by simp_all
  have item2: "item_at ?s2 q k = (if q = p \<and> k = i then it' else item_at s q k)" for q k
    using item_set_at [OF bound] q1 by (simp add: item_at_def resolves_def)
  have "settled ps (places p i 0) ?s2"
    using q1 by (simp add: settled_same resolves_def)
  then have q2: "settles (places p i 0) s ?s2" "settled ps (places p i 0) ?s2"
    using settles_trans [OF _ I(2)] q1 by (simp_all add: resolves_def)
  have "ends (each_item resolve_item p (i + 1) its ?s2) (each_post ps n p (i + 1) ?s2)"
  proof (rule Cons.IH [OF I(1) p])
    show "i + 1 + length its = length (pg_items (ps ! p))" using Cons.prems(3) by simp
    show "pg_items (ps ! p) ! (i + 1 + l) = its ! l" if "l < length its" for l using Cons.prems(4) [of "Suc l"] that by simp
  qed (rule src(2))
  then obtain s3 where s3: "each_item resolve_item p (i + 1) its ?s2 = Some s3" "each_post ps n p (i + 1) ?s2 s3" by (auto simp: ends_iff)
  then have m3: "settles (from_item p (Suc i)) ?s2 s3" and ok3: "sema_ok n s3" by (simp_all add: each_post_def resolving_def)
  have ok2: "sema_ok n ?s2" using I(1) by (simp add: resolving_def)
  note new = from_item_step(2) [of p i]
  have "settles (from_item p i) s s3"
    unfolding from_item_step(1) [of p i] by (rule settles_trans [OF settles_wider [OF q2(1)] settles_wider [OF m3]]) auto
  moreover have "settled ps (from_item p i) s3"
    unfolding from_item_step(1) [of p i]
    using settled_Un [OF settled_settles [OF ok2 ok3 m3 new q2(2)]] s3(2) by (simp add: each_post_def)
  moreover have "item_at s3 q k = item_at s q k" if "\<not> (q = p \<and> i \<le> k)" for q k
    using s3(2) that item2 by (auto simp: each_post_def)
  moreover have "items_resolved s3 p {i..<length (pg_items (ps ! p))}"
  proof -
    have "item_resolved s3 p i it'"
      by (rule item_resolved_settles [OF ok2 ok3 m3]) (use it'(2) in \<open>simp_all add: from_item_def item_resolved_same\<close>)
    moreover have "item_at s3 p i = it'" using s3(2) item2 by (simp add: each_post_def)
    ultimately have "items_resolved s3 p (insert i {Suc i..<length (pg_items (ps ! p))})"
      using s3(2) it'(3) by (simp add: each_post_def items_resolved_def)
    moreover have "insert i {Suc i..<length (pg_items (ps ! p))} = {i..<length (pg_items (ps ! p))}" using at(1) by auto
    ultimately show ?thesis by (simp only:)
  qed
  ultimately have "each_post ps n p i s s3" using s3(2) by (simp add: each_post_def)
  then show ?case using s1(1) s3(1) by simp
qed

definition program_resolved :: "program list \<Rightarrow> sema \<Rightarrow> nat \<Rightarrow> bool" where
  "program_resolved ps s p \<longleftrightarrow> settled ps (from_item p 0) s \<and> items_resolved s p {..<length (pg_items (ps ! p))}"

lemma resolve_program_ok:
  assumes r: "resolving ps n s" and p: "p < length ps" and same: "\<And>k. item_at s p k = pg_items (ps ! p) ! k" and src: "source_programs ps"
  shows "ends (resolve_program p s) (each_post ps n p 0 s)"
proof -
  have sh: "shaped ps s" using r by (simp add: resolving_def)
  have eq: "pg_items (se_programs s ! p) = pg_items (ps ! p)"
    using shapedD(3) [OF sh p] same by (intro nth_equalityI) (simp_all add: item_at_def)
  show ?thesis
    unfolding resolve_program_def eq
    by (rule each_item_ok [OF r p]) (use src p in \<open>simp_all add: source_programs_def list_all_length\<close>)
qed

lemma items_resolved_settles:
  assumes "sema_ok n s" "sema_ok n' s'" "settles (from_item p 0) s s'" "q \<noteq> p" "\<And>k. item_at s' q k = item_at s q k" "items_resolved s q I"
  shows "items_resolved s' q I"
  using item_resolved_settles [OF assms(1-3), of q] assms(4-6) by (auto simp: items_resolved_def from_item_def)

lemma resolve_each_ok:
  assumes "resolving ps n s" "source_programs ps" "distinct qs" "\<And>p. p \<in> set qs \<Longrightarrow> p < length ps"
    "\<And>p k. p \<in> set qs \<Longrightarrow> item_at s p k = pg_items (ps ! p) ! k"
  shows "ends (each_program resolve_program qs s) (\<lambda>s'. resolving ps n s' \<and> settles UNIV s s'
    \<and> (\<forall>p \<in> set qs. program_resolved ps s' p) \<and> (\<forall>D. settled ps D s \<and> (\<forall>p \<in> set qs. D \<inter> from_item p 0 = {}) \<longrightarrow> settled ps D s')
    \<and> (\<forall>q I. q \<notin> set qs \<and> items_resolved s q I \<longrightarrow> items_resolved s' q I))"
  using assms
proof (induction qs arbitrary: s)
  case Nil
  then show ?case by simp
next
  case (Cons p qs)
  have p: "p < length ps" "p \<notin> set qs" using Cons.prems(3,4) by simp_all
  have "ends (resolve_program p s) (each_post ps n p 0 s)"
    by (rule resolve_program_ok [OF Cons.prems(1) p(1)]) (use Cons.prems(2,5) in auto)
  then obtain s1 where s1: "resolve_program p s = Some s1" "each_post ps n p 0 s s1" by (auto simp: ends_iff)
  then have r1: "resolving ps n s1" and m1: "settles (from_item p 0) s s1" and d1: "settled ps (from_item p 0) s1"
    and i1: "items_resolved s1 p {..<length (pg_items (ps ! p))}" and o1: "\<And>q k. q \<noteq> p \<Longrightarrow> item_at s1 q k = item_at s q k"
    by (simp_all add: each_post_def lessThan_atLeast0)
  have ok: "sema_ok n s" "sema_ok n s1" using Cons.prems(1) r1 by (simp_all add: resolving_def)
  have "item_at s1 q k = pg_items (ps ! q) ! k" if "q \<in> set qs" for q k
    using o1 [of q k] Cons.prems(5) [of q k] that p(2) by (cases "q = p") simp_all
  with Cons.IH [OF r1 Cons.prems(2)] Cons.prems(3,4) obtain s2 where
    s2: "each_program resolve_program qs s1 = Some s2" "resolving ps n s2" "settles UNIV s1 s2" "\<forall>p \<in> set qs. program_resolved ps s2 p"
      "\<forall>D. settled ps D s1 \<and> (\<forall>p \<in> set qs. D \<inter> from_item p 0 = {}) \<longrightarrow> settled ps D s2"
      "\<forall>q I. q \<notin> set qs \<and> items_resolved s1 q I \<longrightarrow> items_resolved s2 q I"
    unfolding ends_iff by auto
  have apart: "from_item p 0 \<inter> from_item q 0 = {}" if "q \<in> set qs" for q using that p(2) by (auto simp: from_item_def)
  have "program_resolved ps s2 p" using s2(5,6) d1 i1 p(2) apart by (simp add: program_resolved_def)
  moreover have "settles UNIV s s2" by (rule settles_trans [OF settles_wider [OF m1] s2(3)]) simp
  moreover have "settled ps D s2" if "settled ps D s" "D \<inter> from_item p 0 = {}" "\<forall>q \<in> set qs. D \<inter> from_item q 0 = {}" for D
    using s2(5) settled_settles [OF ok m1 that(2,1)] that(3) by blast
  moreover have "items_resolved s2 q I" if "q \<noteq> p" "q \<notin> set qs" "items_resolved s q I" for q I
    using s2(6) items_resolved_settles [OF ok m1 that(1) o1 [OF that(1)] that(3)] that(2) by blast
  ultimately show ?case using s1(1) s2(1,2,4) by simp
qed

text \<open>After the pass every global name has a type.\<close>

lemma all_settled:
  assumes r: "resolving ps n s" and all: "\<And>p. p < length ps \<Longrightarrow> program_resolved ps s p"
  shows "bound s"
proof -
  have ok: "sema_ok n s" and own: "values_own ps s" and sc: "se_scopes s = scopes_init" using r by (simp_all add: resolving_def)
  have "sy_type (sym_at s y) \<noteq> None" if v: "value_names s x = Some y" for x y
  proof (cases "sy_kind (sym_at s y) = SYM_ENUM_MEMBER")
    case True
    then show ?thesis using sema_okD(9) [OF ok owned [OF ok v]] by (simp add: sym_ok_def)
  next
    case False
    then obtain pl d where d: "entity_at ps pl = Some d" "entity_name d = x" "stands_for (sym_at s y) pl d"
      using own v unfolding values_own_def by blast
    obtain p i j where pl: "pl = (p, i, j)" by (cases pl)
    have "p < length ps" using d(1) by (simp add: pl entity_at_def split: if_splits)
    then have "settled ps (from_item p 0) s" using all by (simp add: program_resolved_def)
    then show ?thesis using d v unfolding settled_def owns_def by (auto simp: pl from_item_def)
  qed
  then show ?thesis
    unfolding bound_def names_eq [OF ok] using sc by (auto simp: global_values_def value_names_def scopes_init_def)
qed

end
