(* ===== verification/Slop_Sema_Program.thy ===== *)
theory Slop_Sema_Program
  imports Slop_Sema_Resolve
begin

text \<open>
  Pass 4 on whole programs, and \<open>sema_check\<close>. It returns on all programs of source trees, changes nothing of them but
  types and conversions, and when it reports no error the programs are well typed: every item, signature, initializer
  and body.
\<close>

section \<open>Parameters\<close>

definition param_sym :: "param \<Rightarrow> tyref \<Rightarrow> sym" where
  "param_sym p t = (sym_zero SYM_PARAM (pr_name p) (pr_pos p))\<lparr>sy_type := Some t, sy_is_mut := pr_is_mut p\<rparr>"

fun param_env :: "(string \<Rightarrow> sym option) \<Rightarrow> param list \<Rightarrow> tyref list \<Rightarrow> string \<Rightarrow> sym option" where
  "param_env G (p # ps) (t # ts) = param_env (G(pr_name p \<mapsto> param_sym p t)) ps ts"
| "param_env G ps ts = G"

lemma scope_find_bottom:
  "current_mark sc = 0 \<Longrightarrow> scope_find_current h sc n = find (\<lambda>s. sy_name (h ! s) = n) (rev (sc_syms sc))"
  by (simp add: scope_find_current_def down_find segment_def Let_def)

definition local_names :: "sema \<Rightarrow> string set" where
  "local_names s = (\<lambda>r. sy_name (sym_at s r)) ` set (sc_syms (se_scopes s))"

lemma scope_find_free:
  "current_mark (se_scopes s) = 0 \<Longrightarrow> scope_find_current (se_syms s) (se_scopes s) n = None \<longleftrightarrow> n \<notin> local_names s"
  by (auto simp: scope_find_bottom find_None_iff local_names_def sym_at_def)

definition params_declared :: "nat \<Rightarrow> sema \<Rightarrow> param list \<Rightarrow> tyref list \<Rightarrow> sema \<Rightarrow> bool" where
  "params_declared n s ps ts s' \<longleftrightarrow> body_ready n s' \<and> moved s s' \<and> (nerr s' = 0 \<longrightarrow> names s' = param_env (names s) ps ts
     \<and> (length ps = length ts \<longrightarrow> distinct (map pr_name ps) \<and> set (map pr_name ps) \<inter> local_names s = {}))"

lemma declare_params_ok:
  assumes "body_ready n s" "\<forall>t \<in> set ts. valid (se_types s) t" "nerr s = 0 \<Longrightarrow> \<forall>t \<in> set ts. proper (se_types s) t"
    "current_mark (se_scopes s) = 0"
  shows "ends (declare_params ps ts s) (params_declared n s ps ts)"
  using assms
proof (induction ps ts s rule: declare_params.induct)
  case (1 p ps t ts s)
  note r = 1(2)
  have ok: "sema_ok n s" using r by (simp add: body_ready_def)
  let ?step = "\<lambda>s1. body_ready n s1 \<and> moved s s1 \<and> current_mark (se_scopes s1) = 0
    \<and> (nerr s1 = 0 \<longrightarrow> s1 = declare_sym (param_sym p t) s \<and> pr_name p \<notin> local_names s)"
  have "ends (case scope_find_current (se_syms s) (se_scopes s) (pr_name p) of
            Some y \<Rightarrow> duplicate_of (pr_pos p) (''parameter '' @ quote (pr_name p)) (sy_pos (sym_at s y)) s
          | None \<Rightarrow>
              (let (y, s) = sym_new ((sym_zero SYM_PARAM (pr_name p) (pr_pos p))
                    \<lparr>sy_type := Some t, sy_is_mut := pr_is_mut p\<rparr>) s in
               Some (s\<lparr>se_scopes := scope_declare (se_scopes s) y\<rparr>))) ?step"
  proof (cases "scope_find_current (se_syms s) (se_scopes s) (pr_name p)")
    case (Some y)
    have "ends (duplicate_of (pr_pos p) (''parameter '' @ quote (pr_name p)) (sy_pos (sym_at s y)) s) ?step"
    proof (rule ends_mono [OF duplicate_ends [OF ok]])
      fix x assume x: "after_error n s x"
      note X = after_errorD [OF x]
      show "?step x" using ready_kept [OF r X(2,1)] kept_moved [OF X(2)] X(3) kept_same(2) [OF X(2)] 1(5) by simp
    qed
    with Some show ?thesis by simp
  next
    case None
    let ?y = "param_sym p t"
    have y: "sy_type ?y = Some t" "sy_params ?y = []" by (simp_all add: param_sym_def sym_zero_def)
    have "valid (se_types s) t" "nerr s = 0 \<Longrightarrow> proper (se_types s) t" using 1(3,4) by simp_all
    note D = declare_ok(1,2) [OF r y(1) this y(2)]
    have "pr_name p \<notin> local_names s" using None scope_find_free [OF 1(5)] by simp
    moreover have "current_mark (se_scopes (declare_sym ?y s)) = 0" using 1(5)
      by (simp add: declare_sym_def scope_declare_def current_mark_def split: if_splits)
    ultimately have "?step (declare_sym ?y s)" using D by simp
    with None show ?thesis by (simp add: sym_new_def declare_sym_def param_sym_def)
  qed
  then obtain s1 where s1: "(case scope_find_current (se_syms s) (se_scopes s) (pr_name p) of
            Some y \<Rightarrow> duplicate_of (pr_pos p) (''parameter '' @ quote (pr_name p)) (sy_pos (sym_at s y)) s
          | None \<Rightarrow>
              (let (y, s) = sym_new ((sym_zero SYM_PARAM (pr_name p) (pr_pos p))
                    \<lparr>sy_type := Some t, sy_is_mut := pr_is_mut p\<rparr>) s in
               Some (s\<lparr>se_scopes := scope_declare (se_scopes s) y\<rparr>))) = Some s1" "?step s1" by (auto simp: ends_iff)
  have g: "types_grow (se_types s) (se_types s1)" and le: "nerr s \<le> nerr s1" using s1(2) by (simp_all add: moved_def)
  have "ends (declare_params ps ts s1) (params_declared n s1 ps ts)"
  proof (rule 1(1) [OF s1(1)])
    show "body_ready n s1" "current_mark (se_scopes s1) = 0" using s1(2) by simp_all
    show "\<forall>u \<in> set ts. valid (se_types s1) u" using 1(3) types_grow_valid [OF g] by simp
    show "\<forall>u \<in> set ts. proper (se_types s1) u" if "nerr s1 = 0"
      using 1(3,4) that le types_grow_keeps(1) [OF g] by (auto simp: proper_def)
  qed
  then obtain s2 where s2: "declare_params ps ts s1 = Some s2" "params_declared n s1 ps ts s2" by (auto simp: ends_iff)
  have "params_declared n s (p # ps) (t # ts) s2"
  proof -
    have m: "moved s s2" using s1(2) s2(2) moved_trans by (auto simp: params_declared_def)
    have "names s2 = param_env (names s) (p # ps) (t # ts)
        \<and> (length ps = length ts \<longrightarrow> distinct (map pr_name (p # ps)) \<and> set (map pr_name (p # ps)) \<inter> local_names s = {})"
      if z: "nerr s2 = 0"
    proof -
      have z1: "nerr s1 = 0" "nerr s = 0" using s2(2) z le moved_nerr [of s1 s2] by (simp_all add: params_declared_def)
      then have e: "s1 = declare_sym (param_sym p t) s" "pr_name p \<notin> local_names s" using s1(2) by simp_all
      have n: "names s1 = (names s)(pr_name p \<mapsto> param_sym p t)"
        using declare_ok(3) [OF r, of "param_sym p t" t] 1(3,4) z1 by (simp add: e(1) param_sym_def sym_zero_def)
      have "sym_at s1 y = sym_at s y" if "y < length (se_syms s)" for y using that by (simp add: e(1) declare_sym_def sym_at_def nth_append)
      then have "local_names s1 = insert (pr_name p) (local_names s)"
        using sema_okD(7) [OF ok] by (auto simp: local_names_def e(1) declare_sym_def scope_declare_def sym_at_def param_sym_def sym_zero_def)
      then show ?thesis using s2(2) z n e(2) by (auto simp: params_declared_def)
    qed
    then show ?thesis using s2(2) m by (simp add: params_declared_def)
  qed
  then show ?case by (simp only: declare_params.simps s1(1) Option.bind.simps s2(1) ends_Some)
qed (simp_all add: params_declared_def)

section \<open>Functions\<close>

definition body_typed :: "type_table \<Rightarrow> (string \<Rightarrow> tyref option) \<Rightarrow> (string \<Rightarrow> sym option) \<Rightarrow> sym \<Rightarrow> fn_decl \<Rightarrow> bool" where
  "body_typed tt T V y fn \<longleftrightarrow> distinct (map pr_name (fn_params fn)) \<and> (\<exists>rt. sy_type y = Some rt
     \<and> wt_block tt T V rt False (param_env V (fn_params fn) (sy_params y)) (fn_body fn)
     \<and> (t_kind (ty_at tt rt) \<noteq> TY_VOID \<longrightarrow> block_diverges (fn_body fn)))"

definition advances :: "sema \<Rightarrow> sema \<Rightarrow> bool" where
  "advances s s' \<longleftrightarrow> types_grow (se_types s) (se_types s') \<and> nerr s \<le> nerr s' \<and> se_globals s' = se_globals s
     \<and> (\<exists>ys. se_syms s' = se_syms s @ ys)"

lemma advances_refl [simp]: "advances s s"
  by (simp add: advances_def)

lemma advances_trans: "advances s s' \<Longrightarrow> advances s' s'' \<Longrightarrow> advances s s''"
  using types_grow_trans by (auto simp: advances_def intro: le_trans)

lemma moved_advances: "moved s s' \<Longrightarrow> advances s s'"
  by (simp add: moved_def advances_def)

lemma advances_same:
  assumes "sema_ok n s" "advances s s'"
  shows "type_names s' = type_names s" "value_names s' = value_names s" "global_values s' = global_values s"
    "y < length (se_syms s) \<Longrightarrow> sym_at s' y = sym_at s y" "owns s' pl d z = owns s pl d z"
proof -
  show a: "type_names s' = type_names s" "value_names s' = value_names s"
    using assms(2) by (simp_all add: advances_def type_names_def value_names_def)
  show b: "sym_at s' y = sym_at s y" if "y < length (se_syms s)" for y
    using assms(2) that by (auto simp: advances_def sym_at_def nth_append)
  show "global_values s' = global_values s"
  proof
    fix x
    show "global_values s' x = global_values s x"
      using a(2) b owned [OF assms(1), of x] by (cases "value_names s x") (simp_all add: global_values_def value_names_def)
  qed
  show "owns s' pl d z = owns s pl d z"
    using a(2) b owned [OF assms(1)] unfolding owns_def by metis
qed

lemma advances_own:
  assumes "sema_ok n s" "advances s s'" "values_own ps s"
  shows "values_own ps s'"
  unfolding values_own_def
proof (intro allI impI)
  fix x y assume v: "value_names s' x = Some y"
  then have v': "value_names s x = Some y" using advances_same(2) [OF assms(1,2)] by simp
  show "sy_name (sym_at s' y) = x \<and> (sy_kind (sym_at s' y) = SYM_ENUM_MEMBER
      \<or> (\<exists>pl d. entity_at ps pl = Some d \<and> entity_name d = x \<and> stands_for (sym_at s' y) pl d))"
    using assms(3) v' unfolding values_own_def advances_same(4) [OF assms(1,2) owned [OF assms(1) v']] by blast
qed

definition ready_bodies :: "program list \<Rightarrow> nat \<Rightarrow> sema \<Rightarrow> bool" where
  "ready_bodies ps n s \<longleftrightarrow> resolving ps n s \<and> bound s"

lemma ready_names:
  assumes "ready_bodies ps n s"
  shows "names s = global_values s"
proof
  have ok: "sema_ok n s" and "se_scopes s = scopes_init" using assms by (simp_all add: ready_bodies_def resolving_def)
  then show "names s x = global_values s x" for x by (simp add: names_eq [OF ok] scopes_init_def)
qed

text \<open>What bodies are typed by stays.\<close>

lemma body_typed_advances:
  assumes ok: "sema_ok n s" "sema_ok n' s'" and a: "advances s s'" and y: "sym_ok (se_types s) y"
    and b: "body_typed (se_types s) (type_names s) (global_values s) y fn"
  shows "body_typed (se_types s') (type_names s') (global_values s') y fn"
proof -
  have g: "types_grow (se_types s) (se_types s')" using a by (simp add: advances_def)
  obtain rt where rt: "sy_type y = Some rt"
    "wt_block (se_types s) (type_names s) (global_values s) rt False (param_env (global_values s) (fn_params fn) (sy_params y)) (fn_body fn)"
    "t_kind (ty_at (se_types s) rt) \<noteq> TY_VOID \<longrightarrow> block_diverges (fn_body fn)" using b by (auto simp: body_typed_def)
  have v: "valid (se_types s) rt" using y rt(1) by (simp add: sym_ok_def)
  have V: "valid (se_types s) u" if "global_values s x = Some z" "sy_type z = Some u" for x z u by (rule global_valid [OF ok(1) that])
  show ?thesis
    using b rt wt_grow(2) [OF g sema_okD(1) [OF ok(1)] sema_okD(1) [OF ok(2)] v V rt(2)] types_grow_keeps(1) [OF g v]
      advances_same [OF ok(1) a] by (auto simp: body_typed_def)
qed

text \<open>\<open>check_fn\<close> on the function of the entity at a place.\<close>

definition fn_post :: "program list \<Rightarrow> nat \<Rightarrow> symref \<Rightarrow> fn_decl \<Rightarrow> sema \<Rightarrow> fn_decl \<Rightarrow> sema \<Rightarrow> bool" where
  "fn_post ps n y fn s fn' s' \<longleftrightarrow> ready_bodies ps n s' \<and> advances s s' \<and> se_programs s' = se_programs s
     \<and> fn' = fn\<lparr>fn_body := fn_body fn'\<rparr> \<and> strip_block (fn_body fn') = strip_block (fn_body fn)
     \<and> (fn_has_body fn \<and> nerr s' = 0 \<longrightarrow> body_typed (se_types s') (type_names s) (global_values s) (sym_at s y) fn')"

lemma pop_scopes:
  assumes "moved (s\<lparr>se_scopes := scope_push (se_scopes s)\<rparr>) s'"
  shows "scope_pop (se_scopes s') = se_scopes s"
proof -
  obtain vs where "sc_syms (se_scopes s') = sc_syms (se_scopes s) @ vs"
    "sc_marks (se_scopes s') = sc_marks (se_scopes s) @ [length (sc_syms (se_scopes s))]"
    using assms by (auto simp: moved_def scope_push_def)
  then show ?thesis by (cases "se_scopes s"; cases "se_scopes s'") (simp add: scope_pop_def current_mark_def)
qed

lemma global_values_cur [simp]: "global_values (s\<lparr>se_cur_fn := c\<rparr>) = global_values s" "global_values (s\<lparr>se_scopes := sc\<rparr>) = global_values s"
  "type_names (s\<lparr>se_cur_fn := c\<rparr>) = type_names s" "type_names (s\<lparr>se_scopes := sc\<rparr>) = type_names s"
  "sym_at (s\<lparr>se_cur_fn := c\<rparr>) = sym_at s" "sym_at (s\<lparr>se_scopes := sc\<rparr>) = sym_at s" "sym_at (s\<lparr>se_loop_depth := k\<rparr>) = sym_at s"
  "nerr (s\<lparr>se_cur_fn := c\<rparr>) = nerr s" "nerr (s\<lparr>se_scopes := sc\<rparr>) = nerr s"
  "kind (s\<lparr>se_cur_fn := c\<rparr>) = kind s" "kind (s\<lparr>se_scopes := sc\<rparr>) = kind s" "names (s\<lparr>se_cur_fn := c\<rparr>) = names s"
proof -
  show at: "sym_at (s\<lparr>se_cur_fn := c\<rparr>) = sym_at s" "sym_at (s\<lparr>se_scopes := sc\<rparr>) = sym_at s" "sym_at (s\<lparr>se_loop_depth := k\<rparr>) = sym_at s"
    by (simp_all add: fun_eq_iff sym_at_def)
  show "global_values (s\<lparr>se_cur_fn := c\<rparr>) = global_values s" "global_values (s\<lparr>se_scopes := sc\<rparr>) = global_values s"
    by (simp_all add: fun_eq_iff global_values_def at)
  show "names (s\<lparr>se_cur_fn := c\<rparr>) = names s"
    by (rule ext) (simp add: names_def find_name_def at cong: option.case_cong)
qed (simp_all add: fun_eq_iff type_names_def nerr_def kind_def)

lemma missing_return_ok:
  assumes r: "body_ready n s" and v: "valid (se_types s) t"
  obtains s' where "(if kind s t \<noteq> TY_VOID \<and> kind s t \<noteq> TY_POISON \<and> \<not> block_diverges body
        then serror pos [Txt (''missing return in '' @ quote name @ '', which returns ''), TyName128 t] s else Some s) = Some s'"
    "body_ready n s'" "kept s s'" "nerr s' = 0 \<longrightarrow> kind s t \<in> {TY_VOID, TY_POISON} \<or> block_diverges body"
proof (cases "kind s t \<noteq> TY_VOID \<and> kind s t \<noteq> TY_POISON \<and> \<not> block_diverges body")
  case True
  have "list_all (piece_ok s) [Txt (''missing return in '' @ quote name @ '', which returns ''), TyName128 t]" using v by simp
  from error_step [OF r this, of pos] obtain s' where
    "serror pos [Txt (''missing return in '' @ quote name @ '', which returns ''), TyName128 t] s = Some s'" "body_ready n s'" "kept s s'" "0 < nerr s'"
    by blast
  then show thesis using that [of s'] True by simp
next
  case False
  show thesis by (rule that [OF if_not_P [OF False] r]) (use False in auto)
qed

lemma check_fn_ok:
  assumes r: "ready_bodies ps n s" and y: "y < length (se_syms s)" "value_names s (fn_name fn) = Some y"
    and ft: "nerr s = 0 \<longrightarrow> fn_typed (se_types s) (type_names s) fn (sym_at s y)" and src: "source_fn fn"
  shows "wp (check_fn y fn s) (fn_post ps n y fn s)"
proof (cases "fn_has_body fn")
  case False
  then show ?thesis using r by (simp add: check_fn_def fn_post_def)
next
  case True
  have ok: "sema_ok n s" and b: "bound s" and res: "resolving ps n s" using r by (simp_all add: ready_bodies_def resolving_def)
  have st: "se_cur_fn s = None" "se_scopes s = scopes_init" "se_loop_depth s = 0" using res by (simp_all add: resolving_def)
  have "names s (fn_name fn) = Some (sym_at s y)" using y(2) by (simp add: ready_names [OF r] global_values_def value_names_def)
  then obtain rt where rt: "sy_type (sym_at s y) = Some rt" using b by (auto simp: bound_def)
  note yok = sema_okD(9) [OF ok y(1)]
  have vrt: "valid (se_types s) rt" using yok rt by (simp add: sym_ok_def)
  let ?A = "s\<lparr>se_cur_fn := Some y, se_loop_depth := 0\<rparr>"
  have "sema_ok n ?A" using ok y(1) by (simp add: sema_ok_def kind_def nerr_def)
  moreover have nA: "names ?A = names s" by simp
  ultimately have rA: "body_ready n ?A" using b rt by (auto simp: body_ready_def bound_def)
  let ?B = "?A\<lparr>se_scopes := scope_push (se_scopes ?A)\<rparr>"
  note P = push_ok [OF rA]
  have "ends (declare_params (fn_params fn) (sy_params (sym_at ?B y)) ?B) (params_declared n ?B (fn_params fn) (sy_params (sym_at ?B y)))"
  proof (rule declare_params_ok [OF P(1)])
    show "\<forall>t \<in> set (sy_params (sym_at ?B y)). valid (se_types ?B) t" using yok by (simp add: sym_ok_def)
    show "\<forall>t \<in> set (sy_params (sym_at ?B y)). proper (se_types ?B) t" if "nerr ?B = 0"
      using sema_okD(12) [OF ok _ y(1)] that by (simp add: clean_sym_def)
    show "current_mark (se_scopes ?B) = 0" by (simp add: st(2) scope_push_def scopes_init_def current_mark_def)
  qed
  then obtain C where C: "declare_params (fn_params fn) (sy_params (sym_at s y)) ?B = Some C"
    "params_declared n ?B (fn_params fn) (sy_params (sym_at s y)) C" by (auto simp: ends_iff)
  then have rC: "body_ready n C" and mC: "moved ?B C" by (simp_all add: params_declared_def)
  have "source_block (fn_body fn)" using src True by (simp add: source_fn_def)
  from block_checksE [OF stmt_sound(2) rC this] obtain body D where D: "check_block (fn_body fn) C = Some (body, D)" "block_post n C (fn_body fn) body D" .
  then have rD: "body_ready n D" and mCD: "moved C D" and sb: "strip_block body = strip_block (fn_body fn)" by (simp_all add: block_post_def)
  have mD: "moved ?B D" by (rule moved_trans [OF mC mCD])
  let ?E = "D\<lparr>se_scopes := scope_pop (se_scopes D)\<rparr>"
  note E = pop_ok [OF rA mD rD]
  have sE: "sym_at ?E y = sym_at s y" using moved_sym [OF E(2), of y] y(1) by simp
  have gE: "types_grow (se_types s) (se_types ?E)" using E(2) by (simp add: moved_def)
  have vE: "valid (se_types ?E) rt" by (rule types_grow_valid [OF gE vrt])
  let ?fn = "fn\<lparr>fn_body := body\<rparr>"
  obtain F where F: "(if kind ?E rt \<noteq> TY_VOID \<and> kind ?E rt \<noteq> TY_POISON \<and> \<not> block_diverges body
        then serror (fn_pos ?fn) [Txt (''missing return in '' @ quote (fn_name ?fn) @ '', which returns ''), TyName128 rt] ?E else Some ?E) = Some F"
    "body_ready n F" "kept ?E F" "nerr F = 0 \<longrightarrow> kind ?E rt \<in> {TY_VOID, TY_POISON} \<or> block_diverges body"
    by (rule missing_return_ok [OF E(1) vE, of body "fn_pos ?fn" "fn_name ?fn"]) (rule that)
  let ?G = "F\<lparr>se_cur_fn := None\<rparr>"
  have run: "check_fn y fn s = Some (?fn, ?G)"
    using C(1) D(1) F(1) True rt sE by (simp add: check_fn_def Let_def split del: if_split)
  have mF: "moved ?A F" by (rule moved_trans [OF E(2) kept_moved [OF F(3)]])
  have adv: "advances s ?G" using mF by (simp add: moved_def advances_def nerr_def)
  have pg: "se_programs ?G = se_programs s" using mF by (simp add: moved_def)
  have okF: "sema_ok n F" using F(2) by (simp add: body_ready_def)
  then have okG: "sema_ok n ?G" by (simp add: sema_ok_def kind_def nerr_def)
  have scF: "se_scopes F = scopes_init" "se_loop_depth F = 0"
    using kept_same(2,4) [OF F(3)] pop_scopes [OF mD] E(2) st by (simp_all add: moved_def)
  have "values_own ps ?G" by (rule advances_own [OF ok adv]) (use res in \<open>simp add: resolving_def\<close>)
  moreover have "shaped ps ?G" using res pg by (simp add: resolving_def shaped_def)
  ultimately have "resolving ps n ?G" using okG scF by (simp add: resolving_def)
  moreover have "bound ?G" using F(2) by (simp add: body_ready_def bound_def)
  ultimately have rG: "ready_bodies ps n ?G" by (simp add: ready_bodies_def)
  have "body_typed (se_types F) (type_names s) (global_values s) (sym_at s y) ?fn" if z: "nerr F = 0"
  proof -
    have zs: "nerr s = 0" "nerr C = 0" "nerr D = 0"
      using z adv moved_nerr [of D D] keptD(2) [OF F(3)] mCD by (simp_all add: advances_def moved_def nerr_def)
    have len: "length (fn_params fn) = length (sy_params (sym_at s y))" using ft zs(1) by (auto simp: fn_typed_def dest: list_all2_lengthD)
    have nC: "names C = param_env (global_values s) (fn_params fn) (sy_params (sym_at s y))" "distinct (map pr_name (fn_params fn))"
      using C(2) zs(2) len P(2) ready_names [OF r] by (simp_all add: params_declared_def)
    have ctx: "type_names C = type_names s" "global_values C = global_values s" "return_type C = rt" "se_loop_depth C = 0"
    proof -
      note X = moved_context [OF P(1) mC]
      show "type_names C = type_names s" "global_values C = global_values s" "se_loop_depth C = 0" using X by simp_all
      have "return_type ?B = rt" using rt by (simp add: return_type_def)
      then show "return_type C = rt" using X(3) by simp
    qed
    have wtD: "wt_block (se_types D) (type_names s) (global_values s) rt False (param_env (global_values s) (fn_params fn) (sy_params (sym_at s y))) body"
      using D(2) zs(3) by (simp add: block_post_def ctx nC(1))
    have g: "types_grow (se_types D) (se_types F)" using keptD(1) [OF F(3)] by simp
    have okD: "sema_ok n D" using rD by (simp add: body_ready_def)
    have gv: "global_values D = global_values s" using moved_context(2) [OF rC mCD] ctx(2) by simp
    have vD: "valid (se_types D) rt" using vE by simp
    have V: "valid (se_types D) u" if "global_values s x = Some w" "sy_type w = Some u" for x w u
      by (rule global_valid [OF okD]) (use that gv in auto)
    have "wt_block (se_types F) (type_names s) (global_values s) rt False (param_env (global_values s) (fn_params fn) (sy_params (sym_at s y))) body"
      by (rule wt_grow(2) [OF g sema_okD(1) [OF okD] sema_okD(1) [OF okF] vD V wtD])
    moreover have "t_kind (ty_at (se_types F) rt) \<noteq> TY_VOID \<longrightarrow> block_diverges body"
    proof -
      have "kind ?E rt \<noteq> TY_POISON"
        using sema_okD(12) [OF ok zs(1) y(1)] rt types_grow_keeps(1) [OF gE vrt] by (simp add: clean_sym_def proper_def kind_def)
      moreover have "kind F rt = kind ?E rt" by (rule kept_kind [OF F(3) vE])
      ultimately show ?thesis using F(4) z by (auto simp: kind_def)
    qed
    ultimately show ?thesis using nC(2) rt by (simp add: body_typed_def)
  qed
  then have "fn_post ps n y fn s ?fn ?G" using rG adv pg sb by (simp add: fn_post_def)
  then show ?thesis by (simp add: run)
qed

section \<open>Well-typed programs\<close>

text \<open>The declaration of an item: its name is its own, and what it declares has the types it says.\<close>

fun decl_typed :: "sema \<Rightarrow> nat \<Rightarrow> nat \<Rightarrow> item \<Rightarrow> bool" where
  "decl_typed s p i (ITEM_STRUCT pos name fs) \<longleftrightarrow> (\<exists>t. type_names s name = Some t \<and> kind s t = TY_STRUCT
     \<and> t_decl (ty_of s t) = Some (p, i) \<and> t_state (ty_of s t) = LAYOUT_DONE)"
| "decl_typed s p i (ITEM_ENUM pos name b ms) \<longleftrightarrow> item_known s p i (ITEM_ENUM pos name b ms)"
| "decl_typed s p i (ITEM_GLOBAL pos m a name init) \<longleftrightarrow> (\<exists>y. owns s (p, i, 0) (Global_entity m a name) y
     \<and> global_typed (se_types s) (type_names s) a (sym_at s y) \<and> init_typed (se_types s) m (sym_at s y) init)"
| "decl_typed s p i (ITEM_FN pos fn) \<longleftrightarrow> (\<exists>y. owns s (p, i, 0) (Fn_entity fn False) y
     \<and> fn_typed (se_types s) (type_names s) fn (sym_at s y))"
| "decl_typed s p i (ITEM_EXTERN pos abi fns) \<longleftrightarrow> abi = ''c'' \<and> (\<forall>j < length fns. \<exists>y. owns s (p, i, j) (Fn_entity (fns ! j) True) y
     \<and> fn_typed (se_types s) (type_names s) (fns ! j) (sym_at s y))"

text \<open>The body of a function.\<close>

fun item_checked :: "sema \<Rightarrow> nat \<Rightarrow> nat \<Rightarrow> item \<Rightarrow> bool" where
  "item_checked s p i (ITEM_FN pos fn) \<longleftrightarrow> fn_has_body fn \<longrightarrow> (\<forall>y. owns s (p, i, 0) (Fn_entity fn False) y \<longrightarrow>
     body_typed (se_types s) (type_names s) (global_values s) (sym_at s y) fn)"
| "item_checked s p i it \<longleftrightarrow> True"

definition program_typed :: "sema \<Rightarrow> bool" where
  "program_typed s \<longleftrightarrow> (\<forall>p < length (se_programs s). \<forall>i < length (pg_items (se_programs s ! p)).
     decl_typed s p i (item_at s p i) \<and> item_checked s p i (item_at s p i))"

lemma advances_continues:
  assumes "sema_ok n s" "advances s s'"
  shows "continues s s'"
proof -
  have g: "types_grow (se_types s) (se_types s')" using assms(2) by (simp add: advances_def)
  then show ?thesis
    using assms(2) advances_same [OF assms] types_grow_keeps [OF g] types_grow_valid [OF g]
    by (auto simp: continues_def advances_def kind_def ty_of_def)
qed

lemma owns_sym: "sema_ok n s \<Longrightarrow> owns s pl d y \<Longrightarrow> y < length (se_syms s)"
  using owned by (auto simp: owns_def)

lemma decl_typed_advances:
  assumes ok: "sema_ok n s" "sema_ok n' s'" and a: "advances s s'" and d: "decl_typed s p i it"
  shows "decl_typed s' p i it"
proof -
  have g: "types_grow (se_types s) (se_types s')" using a by (simp add: advances_def)
  note T = sema_okD(1) [OF ok(1)] sema_okD(1) [OF ok(2)] and S = advances_same [OF ok(1) a]
  have fn: "\<exists>y. owns s' pl d y \<and> fn_typed (se_types s') (type_names s') fn (sym_at s' y)"
    if ex: "\<exists>y. owns s pl d y \<and> fn_typed (se_types s) (type_names s) fn (sym_at s y)" for pl d fn
  proof -
    obtain y where y: "owns s pl d y" "fn_typed (se_types s) (type_names s) fn (sym_at s y)" using ex by blast
    note l = owns_sym [OF ok(1) y(1)]
    have "entity_typed (se_types s') (type_names s) (Fn_entity fn False) (sym_at s y)"
      by (rule entity_typed_grow [OF g T sema_okD(9) [OF ok(1) l]]) (simp add: y(2))
    then show ?thesis using y(1) S(1,4,5) l by auto
  qed
  show ?thesis
  proof (cases it)
    case (ITEM_STRUCT pos name fs)
    then obtain t where t: "type_names s name = Some t" "kind s t = TY_STRUCT" "t_decl (ty_of s t) = Some (p, i)" "t_state (ty_of s t) = LAYOUT_DONE"
      using d by auto
    have v: "valid (se_types s) t" using sema_okD(4) [OF ok(1)] t(1) by (simp add: type_names_def)
    then have "ty_of s' t = ty_of s t" using types_grow_at [OF g v] t(4) by (simp add: ty_of_def)
    then show ?thesis using t S(1) by (simp add: ITEM_STRUCT kind_def ty_of_def)
  next
    case (ITEM_ENUM pos name b ms)
    then show ?thesis
      using item_known_continues [OF ok advances_continues [OF ok(1) a], of p i it] d by (simp del: item_known.simps)
  next
    case (ITEM_GLOBAL pos m a' name init)
    then obtain y where y: "owns s (p, i, 0) (Global_entity m a' name) y" "global_typed (se_types s) (type_names s) a' (sym_at s y)"
      "init_typed (se_types s) m (sym_at s y) init" using d by auto
    note l = owns_sym [OF ok(1) y(1)]
    have "entity_typed (se_types s') (type_names s) (Global_entity m a' name) (sym_at s y)"
      by (rule entity_typed_grow [OF g T sema_okD(9) [OF ok(1) l]]) (simp add: y(2))
    moreover have "init_typed (se_types s') m (sym_at s y) init"
      using y(3) typed_grow(1) [OF g T] by (auto simp: init_typed_def const_typed_def split: option.splits)
    ultimately show ?thesis using y(1) S(1,4,5) l by (auto simp: ITEM_GLOBAL)
  qed (use d fn in auto)
qed

lemma item_checked_advances:
  assumes ok: "sema_ok n s" "sema_ok n' s'" and a: "advances s s'" and c: "item_checked s p i it"
  shows "item_checked s' p i it"
proof (cases it)
  case (ITEM_FN pos fn)
  have "body_typed (se_types s') (type_names s') (global_values s') (sym_at s' y) fn"
    if "fn_has_body fn" "owns s' (p, i, 0) (Fn_entity fn False) y" for y
  proof -
    have o: "owns s (p, i, 0) (Fn_entity fn False) y" using that(2) advances_same(5) [OF ok(1) a] by simp
    note l = owns_sym [OF ok(1) o]
    have "body_typed (se_types s) (type_names s) (global_values s) (sym_at s y) fn" using c o that(1) by (simp add: ITEM_FN)
    then show ?thesis using body_typed_advances [OF ok a sema_okD(9) [OF ok(1) l]] advances_same(4) [OF ok(1) a l] by simp
  qed
  then show ?thesis by (simp add: ITEM_FN)
qed simp_all

text \<open>After pass 3.\<close>

lemma strip_fn:
  assumes "strip_item (ITEM_FN pos fn) = strip_item it"
  obtains fn0 where "it = ITEM_FN pos fn0" "fn_name fn = fn_name fn0" "fn_params fn = fn_params fn0" "fn_ret fn = fn_ret fn0"
    "fn_is_variadic fn = fn_is_variadic fn0" "fn_has_body fn = fn_has_body fn0"
proof -
  obtain fn0 where e: "it = ITEM_FN pos fn0" "fn\<lparr>fn_body := strip_block (fn_body fn)\<rparr> = fn0\<lparr>fn_body := strip_block (fn_body fn0)\<rparr>"
    using assms by (cases it) auto
  have "fn_name fn = fn_name fn0" "fn_params fn = fn_params fn0" "fn_ret fn = fn_ret fn0"
    "fn_is_variadic fn = fn_is_variadic fn0" "fn_has_body fn = fn_has_body fn0"
    using e(2) by (cases fn; cases fn0; simp)+
  with e(1) show thesis by (rule that)
qed

lemma decl_typed_fn:
  assumes "strip_item (ITEM_FN pos fn) = strip_item it"
  shows "decl_typed s p i (ITEM_FN pos fn) = decl_typed s p i it"
proof -
  obtain fn0 where "it = ITEM_FN pos fn0" "fn_name fn = fn_name fn0" "fn_params fn = fn_params fn0" "fn_ret fn = fn_ret fn0"
    "fn_is_variadic fn = fn_is_variadic fn0" "fn_has_body fn = fn_has_body fn0" by (rule strip_fn [OF assms])
  then show ?thesis by (simp add: owns_def fn_typed_def)
qed

lemma decl_typed_resolved:
  assumes ok: "sema_ok n s" and z: "nerr s = 0" and k: "item_known s p i it" and d: "settled ps (from_item p 0) s"
    and e: "\<And>j. j < length (entities it) \<Longrightarrow> entity_at ps (p, i, j) = Some (entities it ! j)"
    and it': "strip_item it' = strip_item it" "item_resolved s p i it'"
  shows "decl_typed s p i it'"
proof -
  have ty: "entity_typed (se_types s) (type_names s) d' (sym_at s y)"
    if "entity_at ps (p, i, j) = Some d'" "owns s (p, i, j) d' y" for j d' y
    using d that z unfolding settled_def from_item_def by blast
  show ?thesis
  proof (cases it)
    case (ITEM_GLOBAL pos m a name init)
    then obtain init' where it'': "it' = ITEM_GLOBAL pos m a name init'" using it'(1) by (cases it') auto
    obtain y where y: "owns s (p, i, 0) (Global_entity m a name) y" using k by (auto simp: ITEM_GLOBAL)
    have "entity_at ps (p, i, 0) = Some (Global_entity m a name)" using e [of 0] by (simp add: ITEM_GLOBAL)
    from ty [OF this y] show ?thesis using y it'(2) z by (auto simp: it'')
  next
    case (ITEM_STRUCT pos name fs)
    then have "it' = it" using it'(1) by (cases it') auto
    then show ?thesis using k it'(2) by (auto simp: ITEM_STRUCT)
  next
    case (ITEM_ENUM pos name b ms)
    then have "it' = it" using it'(1) by (cases it') auto
    then show ?thesis using k by (simp add: ITEM_ENUM)
  next
    case (ITEM_EXTERN pos abi fns)
    then have i: "it' = it" using it'(1) by (cases it') auto
    have "\<exists>y. owns s (p, i, j) (Fn_entity (fns ! j) True) y \<and> fn_typed (se_types s) (type_names s) (fns ! j) (sym_at s y)"
      if j: "j < length fns" for j
    proof -
      obtain y where y: "owns s (p, i, j) (Fn_entity (fns ! j) True) y" using k j by (auto simp: ITEM_EXTERN)
      have "entity_at ps (p, i, j) = Some (Fn_entity (fns ! j) True)" using e [of j] j by (simp add: ITEM_EXTERN)
      from ty [OF this y] y show ?thesis by auto
    qed
    then show ?thesis using k by (simp add: i ITEM_EXTERN)
  next
    case (ITEM_FN pos fn)
    obtain y where y: "owns s (p, i, 0) (Fn_entity fn False) y" using k by (auto simp: ITEM_FN)
    have "entity_at ps (p, i, 0) = Some (Fn_entity fn False)" using e [of 0] by (simp add: ITEM_FN)
    from ty [OF this y] y have "decl_typed s p i it" by (auto simp: ITEM_FN)
    moreover obtain fn' where f: "it' = ITEM_FN pos fn'" using it'(1) by (cases it') (auto simp: ITEM_FN)
    ultimately show ?thesis using decl_typed_fn [of pos fn' it s p i] it'(1) by (simp only: f)
  qed
qed

section \<open>Pass 4\<close>

definition checks_item :: "program list \<Rightarrow> nat \<Rightarrow> nat \<Rightarrow> nat \<Rightarrow> item \<Rightarrow> sema \<Rightarrow> item \<Rightarrow> sema \<Rightarrow> bool" where
  "checks_item ps n p i it s it' s' \<longleftrightarrow> ready_bodies ps n s' \<and> advances s s' \<and> se_programs s' = se_programs s
     \<and> strip_item it' = strip_item it \<and> (nerr s' = 0 \<longrightarrow> decl_typed s' p i it' \<and> item_checked s' p i it')"

lemma check_item_ok:
  assumes r: "ready_bodies ps n s" and at: "p < length ps" "i < length (pg_items (ps ! p))"
    and it: "strip_item it = strip_item (pg_items (ps ! p) ! i)" "fn_source it" and d: "nerr s = 0 \<longrightarrow> decl_typed s p i it"
  shows "wp (check_item p i it s) (checks_item ps n p i it s)"
proof (cases "\<exists>pos fn. it = ITEM_FN pos fn")
  case False
  then have "check_item p i it s = Some (it, s)" "item_checked s p i it" by (cases it; simp)+
  then show ?thesis using r d by (simp add: checks_item_def)
next
  case True
  then obtain pos fn where f: "it = ITEM_FN pos fn" by blast
  obtain fn0 where f0: "pg_items (ps ! p) ! i = ITEM_FN pos fn0" "fn_name fn = fn_name fn0" "fn_params fn = fn_params fn0"
    "fn_ret fn = fn_ret fn0" "fn_is_variadic fn = fn_is_variadic fn0" "fn_has_body fn = fn_has_body fn0"
    by (rule strip_fn [OF it(1) [unfolded f]])
  have res: "resolving ps n s" and ok: "sema_ok n s" and own: "values_own ps s" using r by (simp_all add: ready_bodies_def resolving_def)
  have e: "entity_at ps (p, i, 0) = Some (Fn_entity fn0 False)" using entity_of_item [OF at, of 0] by (simp add: f0(1))
  have same: "owns s (p, i, 0) (Fn_entity fn0 False) y = owns s (p, i, 0) (Fn_entity fn False) y" for y
    using f0 by (simp add: owns_def)
  from own_fn [OF ok own e] obtain sym where sym: "own_symbol SYM_FN (\<lambda>y. sy_decl y = Some (p, i, 0)) (fn_name fn0) s = Some sym"
    "sym = None \<longrightarrow> (\<forall>y. \<not> owns s (p, i, 0) (Fn_entity fn0 False) y)"
    "\<forall>y. sym = Some y \<longrightarrow> y < length (se_syms s) \<and> owns s (p, i, 0) (Fn_entity fn0 False) y" .
  show ?thesis
  proof (cases sym)
    case None
    then have "nerr s \<noteq> 0" using sym(2) d same by (auto simp: f)
    then show ?thesis using r sym(1) None by (simp add: f f0(2) checks_item_def)
  next
    case (Some y)
    then have y: "y < length (se_syms s)" "owns s (p, i, 0) (Fn_entity fn False) y" using sym(3) same by simp_all
    have v: "value_names s (fn_name fn) = Some y" using y(2) by (simp add: owns_def)
    have ft: "nerr s = 0 \<longrightarrow> fn_typed (se_types s) (type_names s) fn (sym_at s y)"
      using d y(2) by (auto simp: f owns_def)
    have src: "source_fn fn" using it(2) by (simp add: f)
    from wpD [OF check_fn_ok [OF r y(1) v ft src]] obtain fn' s' where c: "check_fn y fn s = Some (fn', s')" "fn_post ps n y fn s fn' s'"
      by auto
    then have q: "ready_bodies ps n s'" "advances s s'" "se_programs s' = se_programs s" by (simp_all add: fn_post_def)
    have h: "fn_name fn' = fn_name fn" "fn_params fn' = fn_params fn" "fn_is_variadic fn' = fn_is_variadic fn"
      "fn_has_body fn' = fn_has_body fn" "strip_item (ITEM_FN pos fn') = strip_item (ITEM_FN pos fn)"
    proof -
      obtain b where b: "fn' = fn\<lparr>fn_body := b\<rparr>" "strip_block b = strip_block (fn_body fn)" using c(2) unfolding fn_post_def by metis
      show "fn_name fn' = fn_name fn" "fn_params fn' = fn_params fn" "fn_is_variadic fn' = fn_is_variadic fn"
        "fn_has_body fn' = fn_has_body fn" "strip_item (ITEM_FN pos fn') = strip_item (ITEM_FN pos fn)" using b by simp_all
    qed
    have ok': "sema_ok n s'" using q(1) by (simp add: ready_bodies_def resolving_def)
    have "decl_typed s' p i (ITEM_FN pos fn') \<and> item_checked s' p i (ITEM_FN pos fn')" if z: "nerr s' = 0"
    proof
      have "nerr s = 0" using z q(2) by (simp add: advances_def)
      then show "decl_typed s' p i (ITEM_FN pos fn')"
        using decl_typed_advances [OF ok ok' q(2)] d decl_typed_fn [OF h(5)] by (simp only: f)
      have "sym_at s' u = sym_at s y" if "owns s' (p, i, 0) (Fn_entity fn' False) u" for u
        using that advances_same(2,4) [OF ok q(2)] v y(1) h(1) by (simp add: owns_def)
      then show "item_checked s' p i (ITEM_FN pos fn')"
        using c(2) z h(4) advances_same(1,3) [OF ok q(2)] by (simp add: fn_post_def)
    qed
    then show ?thesis using sym(1) Some c(1) q h(5) by (simp add: f f0(2) checks_item_def del: decl_typed.simps item_checked.simps strip_item.simps)
  qed
qed

lemma owns_item_set [simp]: "owns (item_set p i it s) = owns s"
  by (simp add: owns_def fun_eq_iff item_set_same)

lemma global_values_item_set [simp]: "global_values (item_set p i it s) = global_values s"
  by (simp add: fun_eq_iff global_values_def item_set_same(3)) (simp add: item_set_def)

lemma item_set_ready:
  assumes r: "ready_bodies ps n s" and at: "p < length ps" "i < length (pg_items (ps ! p))" "strip_item it = strip_item (pg_items (ps ! p) ! i)"
  shows "ready_bodies ps n (item_set p i it s)" "advances s (item_set p i it s)"
proof -
  have res: "resolving ps n s" using r by (simp add: ready_bodies_def)
  note I = item_set_resolving(1) [OF res at]
  have "names (item_set p i it s) = names s"
    using res I by (auto simp: fun_eq_iff names_eq resolving_def item_set_same scopes_init_def)
  then show "ready_bodies ps n (item_set p i it s)" using r I by (simp add: ready_bodies_def bound_def)
  show "advances s (item_set p i it s)" using item_set_same(1,2,6) by (simp add: advances_def) (simp add: item_set_def)
qed

lemma decl_typed_item_set [simp]: "decl_typed (item_set q j d s) p i it = decl_typed s p i it"
  by (cases it) (simp_all add: item_set_same kind_def ty_of_def)

lemma item_checked_item_set [simp]: "item_checked (item_set q j d s) p i it = item_checked s p i it"
  by (cases it) (simp_all add: item_set_same)

definition items_typed :: "sema \<Rightarrow> nat \<Rightarrow> nat set \<Rightarrow> bool" where
  "items_typed s p I \<longleftrightarrow> (\<forall>i \<in> I. decl_typed s p i (item_at s p i))"

definition items_checked :: "sema \<Rightarrow> nat \<Rightarrow> nat set \<Rightarrow> bool" where
  "items_checked s p I \<longleftrightarrow> (\<forall>i \<in> I. decl_typed s p i (item_at s p i) \<and> item_checked s p i (item_at s p i))"

definition checks_from :: "program list \<Rightarrow> nat \<Rightarrow> nat \<Rightarrow> nat \<Rightarrow> sema \<Rightarrow> sema \<Rightarrow> bool" where
  "checks_from ps n p i s s' \<longleftrightarrow> ready_bodies ps n s' \<and> advances s s' \<and> (\<forall>q k. \<not> (q = p \<and> i \<le> k) \<longrightarrow> item_at s' q k = item_at s q k)
     \<and> (nerr s' = 0 \<longrightarrow> items_checked s' p {i..<length (pg_items (ps ! p))})"

lemma check_each_item_ok:
  assumes "ready_bodies ps n s" "p < length ps" "i + length its = length (pg_items (ps ! p))"
    "\<And>l. l < length its \<Longrightarrow> item_at s p (i + l) = its ! l" "list_all fn_source its"
    "nerr s = 0 \<longrightarrow> items_typed s p {i..<length (pg_items (ps ! p))}"
  shows "ends (each_item check_item p i its s) (checks_from ps n p i s)"
  using assms
proof (induction its arbitrary: i s)
  case Nil
  then show ?case by (simp add: checks_from_def items_checked_def)
next
  case (Cons it its)
  note r = Cons.prems(1) and p = Cons.prems(2)
  have i: "i < length (pg_items (ps ! p))" "item_at s p i = it" using Cons.prems(3) Cons.prems(4) [of 0] by simp_all
  have sh: "shaped ps s" and ok: "sema_ok n s" using r by (simp_all add: ready_bodies_def resolving_def)
  have st: "strip_item it = strip_item (pg_items (ps ! p) ! i)" using shapedD(4) [OF sh p i(1)] i(2) by (simp add: item_at_def)
  have fs: "fn_source it" "list_all fn_source its" using Cons.prems(5) by simp_all
  have d: "nerr s = 0 \<longrightarrow> decl_typed s p i it" using Cons.prems(6) i by (auto simp: items_typed_def)
  from wpD [OF check_item_ok [OF r p i(1) st fs(1) d]] obtain it' s1 where c: "check_item p i it s = Some (it', s1)"
    "checks_item ps n p i it s it' s1" by auto
  then have q1: "ready_bodies ps n s1" "advances s s1" "se_programs s1 = se_programs s" "strip_item it' = strip_item (pg_items (ps ! p) ! i)"
    "nerr s1 = 0 \<longrightarrow> decl_typed s1 p i it' \<and> item_checked s1 p i it'" using st by (simp_all add: checks_item_def)
  let ?s2 = "item_set p i it' s1"
  note I = item_set_ready [OF q1(1) p i(1) q1(4)]
  have a2: "advances s ?s2" by (rule advances_trans [OF q1(2) I(2)])
  have ok2: "sema_ok n ?s2" using I(1) by (simp add: ready_bodies_def resolving_def)
  have sh1: "shaped ps s1" using q1(1) by (simp add: ready_bodies_def resolving_def)
  have bnd: "p < length (se_programs s1)" "i < length (pg_items (se_programs s1 ! p))" using shapedD(1,3) [OF sh1] p i(1) by simp_all
  have item2: "item_at ?s2 q k = (if q = p \<and> k = i then it' else item_at s q k)" for q k
    using item_set_at [OF bnd] q1(3) by (simp add: item_at_def)
  have "ends (each_item check_item p (i + 1) its ?s2) (checks_from ps n p (i + 1) ?s2)"
  proof (rule Cons.IH [OF I(1) p])
    show "i + 1 + length its = length (pg_items (ps ! p))" using Cons.prems(3) by simp
    show "item_at ?s2 p (i + 1 + l) = its ! l" if "l < length its" for l using Cons.prems(4) [of "Suc l"] that item2 by simp
    show "nerr ?s2 = 0 \<longrightarrow> items_typed ?s2 p {i + 1..<length (pg_items (ps ! p))}"
    proof
      assume "nerr ?s2 = 0"
      then have "items_typed s p {i..<length (pg_items (ps ! p))}" using Cons.prems(6) a2 by (simp add: advances_def)
      then show "items_typed ?s2 p {i + 1..<length (pg_items (ps ! p))}"
        using decl_typed_advances [OF ok ok2 a2, of p] item2 by (simp add: items_typed_def del: decl_typed_item_set)
    qed
  qed (rule fs(2))
  then obtain s3 where s3: "each_item check_item p (i + 1) its ?s2 = Some s3" "checks_from ps n p (i + 1) ?s2 s3" by (auto simp: ends_iff)
  then have q3: "ready_bodies ps n s3" "advances ?s2 s3" and i3: "\<And>q k. \<not> (q = p \<and> i + 1 \<le> k) \<Longrightarrow> item_at s3 q k = item_at ?s2 q k"
    by (simp_all add: checks_from_def)
  have ok3: "sema_ok n s3" using q3(1) by (simp add: ready_bodies_def resolving_def)
  have "items_checked s3 p {i..<length (pg_items (ps ! p))}" if z: "nerr s3 = 0"
  proof -
    have z2: "nerr ?s2 = 0" using q3(2) z by (simp add: advances_def)
    have "decl_typed ?s2 p i it' \<and> item_checked ?s2 p i it'" using q1(5) z2 item_set_same(2) by simp
    then have "decl_typed s3 p i it' \<and> item_checked s3 p i it'"
      using decl_typed_advances [OF ok2 ok3 q3(2)] item_checked_advances [OF ok2 ok3 q3(2)] by blast
    moreover have "item_at s3 p i = it'" using i3 item2 by simp
    ultimately have "items_checked s3 p (insert i {Suc i..<length (pg_items (ps ! p))})"
      using s3(2) z by (simp add: checks_from_def items_checked_def)
    moreover have "insert i {Suc i..<length (pg_items (ps ! p))} = {i..<length (pg_items (ps ! p))}" using i(1) by auto
    ultimately show ?thesis by (simp only:)
  qed
  moreover have "item_at s3 q k = item_at s q k" if "\<not> (q = p \<and> i \<le> k)" for q k using that i3 item2 by auto
  ultimately have "checks_from ps n p i s s3" using q3(1) advances_trans [OF a2 q3(2)] by (simp add: checks_from_def)
  then show ?case using c(1) s3(1) by (simp del: check_item.simps)
qed

lemma check_program_ok:
  assumes r: "ready_bodies ps n s" and p: "p < length ps" and src: "\<And>i. i < length (pg_items (ps ! p)) \<Longrightarrow> fn_source (item_at s p i)"
    and d: "nerr s = 0 \<longrightarrow> items_typed s p {..<length (pg_items (ps ! p))}"
  shows "ends (check_program p s) (checks_from ps n p 0 s)"
proof -
  have "shaped ps s" using r by (simp add: ready_bodies_def resolving_def)
  note len = shapedD(3) [OF this p]
  show ?thesis
    unfolding check_program_def
    by (rule check_each_item_ok [OF r p])
      (use len src d in \<open>simp_all add: item_at_def list_all_length lessThan_atLeast0\<close>)
qed

lemma items_checked_advances:
  assumes "sema_ok n s" "sema_ok n' s'" "advances s s'" "\<And>k. item_at s' q k = item_at s q k" "items_checked s q I"
  shows "items_checked s' q I"
  using decl_typed_advances [OF assms(1-3)] item_checked_advances [OF assms(1-3)] assms(4,5) by (simp add: items_checked_def)

lemma items_typed_advances:
  assumes "sema_ok n s" "sema_ok n' s'" "advances s s'" "\<And>k. item_at s' q k = item_at s q k" "items_typed s q I"
  shows "items_typed s' q I"
  using decl_typed_advances [OF assms(1-3)] assms(4,5) by (simp add: items_typed_def)

lemma check_programs_ok:
  assumes "ready_bodies ps n s" "distinct qs" "\<And>p. p \<in> set qs \<Longrightarrow> p < length ps"
    "\<And>p i. p \<in> set qs \<Longrightarrow> i < length (pg_items (ps ! p)) \<Longrightarrow> fn_source (item_at s p i)"
    "nerr s = 0 \<longrightarrow> (\<forall>p \<in> set qs. items_typed s p {..<length (pg_items (ps ! p))})"
  shows "ends (each_program check_program qs s) (\<lambda>s'. ready_bodies ps n s' \<and> advances s s'
    \<and> (\<forall>q k. q \<notin> set qs \<longrightarrow> item_at s' q k = item_at s q k)
    \<and> (nerr s' = 0 \<longrightarrow> (\<forall>p \<in> set qs. items_checked s' p {..<length (pg_items (ps ! p))})))"
  using assms
proof (induction qs arbitrary: s)
  case Nil
  then show ?case by simp
next
  case (Cons p qs)
  have p: "p < length ps" "p \<notin> set qs" using Cons.prems(2,3) by simp_all
  have "ends (check_program p s) (checks_from ps n p 0 s)"
    by (rule check_program_ok [OF Cons.prems(1) p(1)]) (use Cons.prems(4,5) in auto)
  then obtain s1 where s1: "check_program p s = Some s1" "checks_from ps n p 0 s s1" by (auto simp: ends_iff)
  then have r1: "ready_bodies ps n s1" and a1: "advances s s1" and o1: "\<And>q k. q \<noteq> p \<Longrightarrow> item_at s1 q k = item_at s q k"
    and c1: "nerr s1 = 0 \<longrightarrow> items_checked s1 p {..<length (pg_items (ps ! p))}"
    by (simp_all add: checks_from_def lessThan_atLeast0)
  have ok: "sema_ok n s" "sema_ok n s1" using Cons.prems(1) r1 by (simp_all add: ready_bodies_def resolving_def)
  have q1: "item_at s1 q k = item_at s q k" if "q \<in> set qs" for q k
    by (rule o1) (use that p(2) in auto)
  have "items_typed s1 q {..<length (pg_items (ps ! q))}" if "nerr s1 = 0" "q \<in> set qs" for q
    using items_typed_advances [OF ok a1 q1 [OF that(2)]] Cons.prems(5) that a1 by (simp add: advances_def)
  then have "ends (each_program check_program qs s1) (\<lambda>s'. ready_bodies ps n s' \<and> advances s1 s'
      \<and> (\<forall>q k. q \<notin> set qs \<longrightarrow> item_at s' q k = item_at s1 q k)
      \<and> (nerr s' = 0 \<longrightarrow> (\<forall>p \<in> set qs. items_checked s' p {..<length (pg_items (ps ! p))})))"
    by (intro Cons.IH [OF r1]) (use Cons.prems(2-4) q1 in auto)
  then obtain s2 where s2: "each_program check_program qs s1 = Some s2" "ready_bodies ps n s2" "advances s1 s2"
    "\<forall>q k. q \<notin> set qs \<longrightarrow> item_at s2 q k = item_at s1 q k"
    "nerr s2 = 0 \<longrightarrow> (\<forall>p \<in> set qs. items_checked s2 p {..<length (pg_items (ps ! p))})"
    unfolding ends_iff by (elim exE conjE) iprover
  have ok2: "sema_ok n s2" using s2(2) by (simp add: ready_bodies_def resolving_def)
  have "items_checked s2 p {..<length (pg_items (ps ! p))}" if "nerr s2 = 0"
    by (rule items_checked_advances [OF ok(2) ok2 s2(3)]) (use s2(3,4) p(2) c1 that in \<open>auto simp: advances_def\<close>)
  moreover have "item_at s2 q k = item_at s q k" if "q \<notin> set (p # qs)" for q k using s2(4) o1 that by simp
  ultimately show ?case using s1(1) s2(1,2,5) advances_trans [OF a1 s2(3)] by simp
qed

section \<open>The whole analysis\<close>

lemma pass3_typed:
  assumes r: "resolving ps n s" and z: "nerr s = 0" and p: "p < length ps" and k: "program_known ps s p" and d: "program_resolved ps s p"
  shows "items_typed s p {..<length (pg_items (ps ! p))}"
proof -
  have ok: "sema_ok n s" and sh: "shaped ps s" using r by (simp_all add: resolving_def)
  have "decl_typed s p i (item_at s p i)" if i: "i < length (pg_items (ps ! p))" for i
  proof (rule decl_typed_resolved [OF ok z])
    show "item_known s p i (pg_items (ps ! p) ! i)" using k i by (simp add: program_known_def)
    show "settled ps (from_item p 0) s" "item_resolved s p i (item_at s p i)" using d i by (simp_all add: program_resolved_def items_resolved_def)
    show "strip_item (item_at s p i) = strip_item (pg_items (ps ! p) ! i)" using shapedD(4) [OF sh p i] by (simp add: item_at_def)
  qed (rule entity_of_item [OF p i])
  then show ?thesis by (simp add: items_typed_def)
qed

lemma sema_check_ok:
  assumes src: "source_programs ps" and room: "declared_names ps \<le> MAP_ROOM"
  obtains s where "sema_check ps = Some (nerr s, s)" "sema_ok 0 s" "map strip_program (se_programs s) = map strip_program ps"
    "nerr s = 0 \<longrightarrow> program_typed s"
proof -
  let ?ps = "[0..<length ps]"
  from collect_programs_ends [OF src room] obtain s1 where s1: "each_program collect_program ?ps (sema_init ps) = Some s1"
    "collecting ps 0 s1" "nerr s1 = 0 \<longrightarrow> (\<forall>p < length ps. program_known ps s1 p)" by (auto simp: ends_iff)
  note r1 = resolving_start [OF s1(2)]
  have same: "item_at s1 p k = pg_items (ps ! p) ! k" for p k using s1(2) by (simp add: collecting_def item_at_def)
  have "ends (each_program resolve_program ?ps s1) (\<lambda>s'. resolving ps 0 s' \<and> settles UNIV s1 s'
    \<and> (\<forall>p \<in> set ?ps. program_resolved ps s' p) \<and> (\<forall>D. settled ps D s1 \<and> (\<forall>p \<in> set ?ps. D \<inter> from_item p 0 = {}) \<longrightarrow> settled ps D s')
    \<and> (\<forall>q I. q \<notin> set ?ps \<and> items_resolved s1 q I \<longrightarrow> items_resolved s' q I))"
    by (rule resolve_each_ok [OF r1 src]) (use same in simp_all)
  then obtain s2 where s2: "each_program resolve_program ?ps s1 = Some s2" "resolving ps 0 s2" "settles UNIV s1 s2"
    "\<forall>p < length ps. program_resolved ps s2 p" unfolding ends_iff by auto
  have ok: "sema_ok 0 s1" "sema_ok 0 s2" using r1 s2(2) by (simp_all add: resolving_def)
  have b2: "ready_bodies ps 0 s2" using all_settled [OF s2(2)] s2(2,4) by (simp add: ready_bodies_def)
  have fs: "fn_source (item_at s2 p i)" if "p < length ps" "i < length (pg_items (ps ! p))" for p i
    using s2(4) that by (simp add: program_resolved_def items_resolved_def)
  have d2: "items_typed s2 p {..<length (pg_items (ps ! p))}" if z: "nerr s2 = 0" and p: "p < length ps" for p
  proof -
    have "program_known ps s1 p" using s1(3) settlesD(2) [OF s2(3)] z p by simp
    then have "program_known ps s2 p" by (rule program_known_continues [OF ok settles_continues [OF s2(3)]])
    then show ?thesis using pass3_typed [OF s2(2) z p] s2(4) p by blast
  qed
  have "ends (each_program check_program ?ps s2) (\<lambda>s'. ready_bodies ps 0 s' \<and> advances s2 s'
    \<and> (\<forall>q k. q \<notin> set ?ps \<longrightarrow> item_at s' q k = item_at s2 q k)
    \<and> (nerr s' = 0 \<longrightarrow> (\<forall>p \<in> set ?ps. items_checked s' p {..<length (pg_items (ps ! p))})))"
    by (rule check_programs_ok [OF b2]) (use fs d2 in auto)
  then obtain s3 where s3: "each_program check_program ?ps s2 = Some s3" "ready_bodies ps 0 s3"
    "nerr s3 = 0 \<longrightarrow> (\<forall>p < length ps. items_checked s3 p {..<length (pg_items (ps ! p))})" unfolding ends_iff by auto
  have sh: "shaped ps s3" and ok3: "sema_ok 0 s3" using s3(2) by (simp_all add: ready_bodies_def resolving_def)
  have "nerr s3 = 0 \<longrightarrow> program_typed s3"
    using s3(3) shapedD(1,3) [OF sh] by (simp add: program_typed_def items_checked_def)
  moreover have "sema_check ps = Some (nerr s3, s3)" by (simp add: sema_check_def s1(1) s2(1) s3(1) nerr_def)
  ultimately show thesis using that ok3 sh by (simp add: shaped_def)
qed

section \<open>Properties\<close>

text \<open>\<open>fn id(i32 n) -> i32 { return n; }\<close>, with the positions of its nodes.\<close>

definition id_fn :: "(nat \<Rightarrow> srcpos) \<Rightarrow> fn_decl" where
  "id_fn at = \<lparr>fn_pos = at 0, fn_name = ''id'',
     fn_params = [\<lparr>pr_pos = at 1, pr_is_mut = False, pr_type = TYPE_CORE (at 1) (Keyword TOK_KW_I32), pr_name = ''n''\<rparr>],
     fn_is_variadic = False, fn_ret = TYPE_CORE (at 2) (Keyword TOK_KW_I32),
     fn_body = Block [STMT_RETURN (at 4) (Some (Expr (at 5) None (EXPR_NAME ''n'')))] (at 3), fn_has_body = True\<rparr>"

definition id_program :: "string \<Rightarrow> (nat \<Rightarrow> srcpos) \<Rightarrow> program list" where
  "id_program file at = [\<lparr>pg_file = file, pg_items = [ITEM_FN (at 0) (id_fn at)]\<rparr>]"

lemma id_source: "source_programs (id_program file at)" "declared_names (id_program file at) \<le> MAP_ROOM"
proof -
  have "token_is_core_type (Keyword TOK_KW_I32)" by code_simp
  then show "source_programs (id_program file at)" "declared_names (id_program file at) \<le> MAP_ROOM"
    by (simp_all add: id_program_def id_fn_def source_programs_def source_fn_def declared_names_def program_names_def MAP_ROOM_def
        source_opt_def)
qed


text \<open>
  C5. Semantic analysis always ends: on every list of programs the parser can build that declare at most \<open>MAP_ROOM\<close>
  names, whatever errors they have, the three passes return, and the trees they leave are the ones of the source but for
  types and conversions.
\<close>
theorem sema_check_returns:
  assumes "source_programs ps" and "declared_names ps \<le> MAP_ROOM"
  shows "\<exists>s. sema_check ps = Some (nerr s, s) \<and> map strip_program (se_programs s) = map strip_program ps"
  by (rule sema_check_ok [OF assms]) blast

theorem sema_check_returns_witness:
  "\<exists>s. sema_check (id_program ''a.slop'' (\<lambda>_. zero_pos)) = Some (nerr s, s) \<and> map strip_program (se_programs s) = map strip_program (id_program ''a.slop'' (\<lambda>_. zero_pos))"
  by (rule sema_check_returns [OF id_source])



end
