(* ===== verification/Slop_Lexer.thy ===== *)
theory Slop_Lexer
  imports Slop_Tokens
begin

text \<open>
  The lexer, \<open>src/lexer/lexer.c\<close>. The pointers \<open>cur\<close> and \<open>line_start\<close> of the C state are offsets
  into \<open>src\<close>, \<open>end\<close> is the length of the source, and the text of a token is the view of the bytes
  from its start offset to \<open>cur\<close>. \<open>strtod\<close> is the C library's: a parameter that gives the bits of
  the double. The lexer's string pool only owns the decoded bytes; here they are values.
  The 32-bit counters \<open>line\<close>, \<open>col\<close>, \<open>len\<close> and \<open>errors\<close> are naturals (sources below 2 GiB).
\<close>

section \<open>State and tokens\<close>

datatype token_val = Ival u64 | Fval u64 | Str string | Err string

record token =
  tk_kind :: token_kind
  tk_pos :: nat
  tk_text :: string
  tk_line :: nat
  tk_col :: nat
  tk_val :: token_val

record lexer =
  lx_file :: string
  lx_src :: string
  lx_cur :: nat
  lx_line_start :: nat
  lx_line :: nat
  lx_errors :: nat

definition lexer_init :: "string option \<Rightarrow> string \<Rightarrow> lexer" where
  "lexer_init file src = \<lparr>lx_file = (case file of Some f \<Rightarrow> f | None \<Rightarrow> ''<input>''),
     lx_src = src, lx_cur = 0, lx_line_start = 0, lx_line = 1, lx_errors = 0\<rparr>"

text \<open>Reading through the cursor: \<open>lx->cur == lx->end\<close>, \<open>lx->cur[k]\<close> and the bytes left.\<close>

definition at_end :: "lexer \<Rightarrow> bool" where
  "at_end lx \<longleftrightarrow> lx_cur lx \<ge> length (lx_src lx)"

definition char_at :: "lexer \<Rightarrow> nat \<Rightarrow> char" where
  "char_at lx k = lx_src lx ! (lx_cur lx + k)"

definition left :: "lexer \<Rightarrow> nat" where
  "left lx = length (lx_src lx) - lx_cur lx"

definition bump :: "lexer \<Rightarrow> lexer" where
  "bump lx = lx\<lparr>lx_cur := lx_cur lx + 1\<rparr>"

definition advance_by :: "nat \<Rightarrow> lexer \<Rightarrow> lexer" where
  "advance_by k lx = lx\<lparr>lx_cur := lx_cur lx + k\<rparr>"

section \<open>Character classes\<close>

abbreviation newline :: char where "newline \<equiv> CHR 0x0A"

definition code :: "char \<Rightarrow> nat" where
  "code c = of_char c"

definition is_digit :: "char \<Rightarrow> bool" where
  "is_digit c \<longleftrightarrow> code c \<ge> code CHR ''0'' \<and> code c \<le> code CHR ''9''"

definition is_hex_digit :: "char \<Rightarrow> bool" where
  "is_hex_digit c \<longleftrightarrow> is_digit c \<or> (code c \<ge> code CHR ''a'' \<and> code c \<le> code CHR ''f'') \<or>
     (code c \<ge> code CHR ''A'' \<and> code c \<le> code CHR ''F'')"

definition hex_val :: "char \<Rightarrow> nat" where
  "hex_val c = (if is_digit c then code c - code CHR ''0''
     else (code c OR 0x20) - code CHR ''a'' + 10)"

definition is_ident_start :: "char \<Rightarrow> bool" where
  "is_ident_start c \<longleftrightarrow> (code c \<ge> code CHR ''a'' \<and> code c \<le> code CHR ''z'') \<or>
     (code c \<ge> code CHR ''A'' \<and> code c \<le> code CHR ''Z'') \<or> c = CHR ''_''"

definition is_ident_cont :: "char \<Rightarrow> bool" where
  "is_ident_cont c \<longleftrightarrow> is_ident_start c \<or> is_digit c"

section \<open>Scanning\<close>

text \<open>The loop \<open>while (cur != end && p(*cur)) cur++\<close> the scanner uses everywhere.\<close>

function scan_while :: "(char \<Rightarrow> bool) \<Rightarrow> lexer \<Rightarrow> lexer" where
  "scan_while p lx = (if \<not> at_end lx \<and> p (char_at lx 0) then scan_while p (bump lx) else lx)"
  by pat_completeness auto
termination
  by (relation "measure (\<lambda>(p, lx). left lx)") (auto simp: at_end_def left_def bump_def)

function skip_trivia :: "lexer \<Rightarrow> lexer" where
  "skip_trivia lx =
     (if at_end lx then lx
      else let c = char_at lx 0 in
        if c = newline
        then skip_trivia (lx\<lparr>lx_cur := lx_cur lx + 1, lx_line := lx_line lx + 1,
                             lx_line_start := lx_cur lx + 1\<rparr>)
        else if c = CHR '' '' \<or> c = CHR 0x09 \<or> c = CHR 0x0D then skip_trivia (bump lx)
        else if c = CHR ''#'' then skip_trivia (scan_while (\<lambda>c. c \<noteq> newline) (bump lx))
        else lx)"
  by pat_completeness auto

lemmas scan_while_unfold = scan_while.simps

declare scan_while.simps [simp del]

lemma scan_while_frame:
  "lx_src (scan_while p lx) = lx_src lx" "lx_line (scan_while p lx) = lx_line lx"
  "lx_line_start (scan_while p lx) = lx_line_start lx" "lx_errors (scan_while p lx) = lx_errors lx"
  "lx_file (scan_while p lx) = lx_file lx" "lx_cur lx \<le> lx_cur (scan_while p lx)"
  by (induction p lx rule: scan_while.induct; subst scan_while.simps; force simp: bump_def)+

declare scan_while_frame [simp]

termination skip_trivia
proof (relation "measure left", goal_cases)
  case (4 lx c)
  have "left (scan_while (\<lambda>c. c \<noteq> newline) (bump lx)) \<le> left (bump lx)"
    using scan_while_frame(6) [of "bump lx" "\<lambda>c. c \<noteq> newline"] by (simp add: left_def diff_le_mono2)
  also have "\<dots> < left lx" using 4(1) by (auto simp: left_def bump_def at_end_def)
  finally show ?case by simp
qed (auto simp: at_end_def left_def bump_def)

declare skip_trivia.simps [simp del]

definition finish :: "lexer \<Rightarrow> token \<Rightarrow> token_kind \<Rightarrow> token" where
  "finish lx t kind = t\<lparr>tk_kind := kind, tk_text := segment (tk_pos t) (lx_cur lx) (lx_src lx)\<rparr>"

definition error_at :: "lexer \<Rightarrow> token \<Rightarrow> string \<Rightarrow> token \<times> lexer" where
  "error_at lx t msg =
     ((finish lx t (Special TOK_ERROR))\<lparr>tk_val := Err (takeWhile (\<lambda>c. c \<noteq> CHR 0x00) (take 255 msg))\<rparr>,
      lx\<lparr>lx_errors := lx_errors lx + 1\<rparr>)"

section \<open>Literals\<close>

text \<open>One element of a character or string literal: the decoded byte, or the message.\<close>

definition scan_char_unit :: "lexer \<Rightarrow> (string + char) \<times> lexer" where
  "scan_char_unit lx =
     (if at_end lx \<or> char_at lx 0 = newline then (Inl ''unterminated literal'', lx)
      else let c = char_at lx 0; lx = bump lx in
        if c \<noteq> CHR 0x5C then (Inr c, lx)
        else if at_end lx \<or> char_at lx 0 = newline then (Inl ''unterminated escape sequence'', lx)
        else let e = char_at lx 0; lx = bump lx in
          if e = CHR ''n'' then (Inr newline, lx)
          else if e = CHR ''r'' then (Inr (CHR 0x0D), lx)
          else if e = CHR ''t'' then (Inr (CHR 0x09), lx)
          else if e = CHR ''0'' then (Inr (CHR 0x00), lx)
          else if e = CHR 0x5C then (Inr (CHR 0x5C), lx)
          else if e = CHR 0x27 then (Inr (CHR 0x27), lx)
          else if e = CHR 0x22 then (Inr (CHR 0x22), lx)
          else if e = CHR ''x'' then
            (if left lx < 2 \<or> \<not> is_hex_digit (char_at lx 0) \<or> \<not> is_hex_digit (char_at lx 1)
             then (Inl (CHR 0x5C # ''x needs exactly two hex digits''), lx)
             else (Inr (char_of (hex_val (char_at lx 0) * 16 + hex_val (char_at lx 1))),
                   advance_by 2 lx))
          else (Inl (''unknown escape sequence '' @ [CHR 0x27, CHR 0x5C, e, CHR 0x27]), lx))"

definition lex_char :: "lexer \<Rightarrow> token \<Rightarrow> token \<times> lexer" where
  "lex_char lx t =
     (let lx = bump lx in
      if \<not> at_end lx \<and> char_at lx 0 = CHR 0x27
      then error_at (bump lx) t ''empty character literal''
      else case scan_char_unit lx of
        (Inl errbuf, lx) \<Rightarrow> error_at lx t errbuf
      | (Inr ch, lx) \<Rightarrow>
          if at_end lx \<or> char_at lx 0 \<noteq> CHR 0x27
          then error_at lx t ''unterminated character literal''
          else let lx = bump lx in
            ((finish lx t (Special TOK_CHAR))\<lparr>tk_val := Ival (word_of_nat (code ch))\<rparr>, lx))"

text \<open>The loop of \<open>lex_string\<close>; \<open>buf\<close> holds the bytes decoded so far.\<close>

lemma scan_char_unit_progress: "scan_char_unit lx = (Inr ch, lx') \<Longrightarrow> left lx' < left lx"
  by (auto simp: scan_char_unit_def Let_def bump_def advance_by_def left_def at_end_def split: if_splits)

function string_loop :: "lexer \<Rightarrow> token \<Rightarrow> string \<Rightarrow> token \<times> lexer" where
  "string_loop lx t buf =
     (if at_end lx \<or> char_at lx 0 = newline
      then error_at lx t ''unterminated string literal''
      else if char_at lx 0 = CHR 0x22
      then let lx = bump lx in ((finish lx t (Special TOK_STRING))\<lparr>tk_val := Str buf\<rparr>, lx)
      else case scan_char_unit lx of
        (Inl errbuf, lx) \<Rightarrow> error_at lx t errbuf
      | (Inr ch, lx) \<Rightarrow> string_loop lx t (buf @ [ch]))"
  by pat_completeness auto
termination
  by (relation "measure (\<lambda>(lx, t, buf). left lx)")
    (auto dest: scan_char_unit_progress [OF sym] scan_char_unit_progress)

declare string_loop.simps [simp del]

definition lex_string :: "lexer \<Rightarrow> token \<Rightarrow> token \<times> lexer" where
  "lex_string lx t = string_loop (bump lx) t []"

text \<open>
  The digit loops of \<open>lex_number\<close>: \<open>v\<close> wraps at 64 bits as in C, and the sticky \<open>overflow\<close> flag is
  set by the test \<open>v > (UINT64_MAX - d) / base\<close> made before each step.
\<close>

function digits_loop :: "(char \<Rightarrow> bool) \<Rightarrow> (char \<Rightarrow> nat) \<Rightarrow> u64 \<Rightarrow> lexer \<Rightarrow> u64 \<Rightarrow> bool \<Rightarrow> u64 \<times> bool \<times> lexer" where
  "digits_loop isd val base lx v overflow =
     (if \<not> at_end lx \<and> isd (char_at lx 0)
      then let d = word_of_nat (val (char_at lx 0)) in
        digits_loop isd val base (bump lx) (v * base + d) (if v > (- 1 - d) div base then True else overflow)
      else (v, overflow, lx))"
  by pat_completeness auto
termination
  by (relation "measure (\<lambda>(_, _, _, lx, _, _). left lx)") (auto simp: at_end_def left_def bump_def)

declare digits_loop.simps [simp del]

text \<open>The end of \<open>lex_number\<close> both integer forms share.\<close>

definition finish_int :: "lexer \<Rightarrow> token \<Rightarrow> u64 \<Rightarrow> bool \<Rightarrow> token \<times> lexer" where
  "finish_int lx t v overflow =
     (if \<not> at_end lx \<and> is_ident_cont (char_at lx 0)
      then error_at (bump lx) t ''unexpected character after integer literal''
      else if overflow then error_at lx t ''integer literal does not fit in 64 bits''
      else ((finish lx t (Special TOK_INT))\<lparr>tk_val := Ival v\<rparr>, lx))"

definition lex_number :: "(string \<Rightarrow> u64) \<Rightarrow> lexer \<Rightarrow> token \<Rightarrow> token \<times> lexer" where
  "lex_number strtod lx t =
     (if left lx \<ge> 2 \<and> char_at lx 0 = CHR ''0'' \<and> char_at lx 1 = CHR ''x''
      then let lx = advance_by 2 lx in
        if at_end lx \<or> \<not> is_hex_digit (char_at lx 0)
        then error_at lx t (''expected hex digits after '' @ [CHR 0x27] @ ''0x'' @ [CHR 0x27])
        else case digits_loop is_hex_digit hex_val 16 lx 0 False of
          (v, overflow, lx) \<Rightarrow> finish_int lx t v overflow
      else case digits_loop is_digit (\<lambda>c. code c - code CHR ''0'') 10 lx 0 False of
        (v, overflow, lx) \<Rightarrow>
          if left lx \<ge> 2 \<and> char_at lx 0 = CHR ''.'' \<and> is_digit (char_at lx 1)
          then let lx = scan_while is_digit (advance_by 2 lx) in
            if \<not> at_end lx \<and> is_ident_cont (char_at lx 0)
            then error_at (bump lx) t ''unexpected character after float literal''
            else let copy = segment (tk_pos t) (lx_cur lx) (lx_src lx) in
              ((finish lx t (Special TOK_FLOAT))\<lparr>tk_val := Fval (strtod copy)\<rparr>, lx)
          else finish_int lx t v overflow)"

definition lex_ident :: "lexer \<Rightarrow> token \<Rightarrow> token \<times> lexer" where
  "lex_ident lx t =
     (let lx = scan_while is_ident_cont lx; text = segment (tk_pos t) (lx_cur lx) (lx_src lx) in
      case keyword_of text of
        Some k \<Rightarrow> (finish lx t (Keyword k), lx)
      | None \<Rightarrow> (finish lx t (Special TOK_IDENT), lx))"

section \<open>The next token\<close>

definition lexer_next :: "(string \<Rightarrow> u64) \<Rightarrow> lexer \<Rightarrow> token \<times> lexer" where
  "lexer_next strtod lx =
     (let lx = skip_trivia lx;
          t = \<lparr>tk_kind = Special TOK_EOF, tk_pos = lx_cur lx, tk_text = [], tk_line = lx_line lx,
               tk_col = lx_cur lx - lx_line_start lx + 1, tk_val = Ival 0\<rparr> in
      if at_end lx then (t, lx)
      else let c = char_at lx 0 in
        if is_ident_start c then lex_ident lx t
        else if is_digit c then lex_number strtod lx t
        else if c = CHR 0x27 then lex_char lx t
        else if c = CHR 0x22 then lex_string lx t
        else case punct_at (drop (lx_cur lx) (lx_src lx)) of
          Some (p, sp) \<Rightarrow> let lx = advance_by (length sp) lx in (finish lx t (Punct p), lx)
        | None \<Rightarrow> let lx = bump lx in
            if code c \<ge> 0x20 \<and> code c < 0x7f
            then error_at lx t (''unexpected character '' @ [CHR 0x27, c, CHR 0x27])
            else error_at lx t (''unexpected byte 0x'' @ hex2_of_nat (code c)))"

section \<open>What a scanner step keeps\<close>

text \<open>
  \<open>stays_on_line lx lx'\<close>: the scanner moved forward inside the source, over no newline, and touched
  nothing but the cursor and the error count.
\<close>

definition stays_on_line :: "lexer \<Rightarrow> lexer \<Rightarrow> bool" where
  "stays_on_line lx lx' \<longleftrightarrow> lx_file lx' = lx_file lx \<and> lx_src lx' = lx_src lx \<and> lx_line lx' = lx_line lx
     \<and> lx_line_start lx' = lx_line_start lx \<and> lx_cur lx \<le> lx_cur lx'
     \<and> lx_cur lx' \<le> length (lx_src lx) \<and> newline \<notin> set (segment (lx_cur lx) (lx_cur lx') (lx_src lx))"

definition in_source :: "lexer \<Rightarrow> bool" where
  "in_source lx \<longleftrightarrow> lx_cur lx \<le> length (lx_src lx)"

lemma stays_refl: "in_source lx \<Longrightarrow> stays_on_line lx lx"
  by (simp add: stays_on_line_def in_source_def)

lemma stays_trans: "stays_on_line a b \<Longrightarrow> stays_on_line b c \<Longrightarrow> stays_on_line a c"
  using segment_append [of "lx_cur a" "lx_cur b" "lx_cur c" "lx_src a"]
  by (auto simp: stays_on_line_def) (metis Un_iff set_append)

lemma stays_in_source: "stays_on_line lx lx' \<Longrightarrow> in_source lx'"
  by (simp add: stays_on_line_def in_source_def)

lemma stays_advance: "\<not> at_end lx \<Longrightarrow> char_at lx 0 \<noteq> newline \<Longrightarrow> stays_on_line lx (bump lx)"
  by (auto simp: stays_on_line_def bump_def at_end_def char_at_def segment_Suc)

lemma stays_errors: "stays_on_line lx (lx'\<lparr>lx_errors := e\<rparr>) = stays_on_line lx lx'"
  by (simp add: stays_on_line_def)

lemma class_not_newline:
  "is_digit c \<Longrightarrow> c \<noteq> newline" "is_hex_digit c \<Longrightarrow> c \<noteq> newline"
  "is_ident_start c \<Longrightarrow> c \<noteq> newline" "is_ident_cont c \<Longrightarrow> c \<noteq> newline"
  by (auto simp: is_digit_def is_hex_digit_def is_ident_start_def is_ident_cont_def code_def)

lemma stays_scan_while:
  assumes "in_source lx" and "\<And>c. p c \<Longrightarrow> c \<noteq> newline"
  shows "stays_on_line lx (scan_while p lx)"
  using assms
proof (induction p lx rule: scan_while.induct)
  case (1 p lx)
  show ?case
  proof (cases "\<not> at_end lx \<and> p (char_at lx 0)")
    case True
    with 1(3) have "stays_on_line lx (bump lx)" by (blast intro: stays_advance)
    moreover from this have "stays_on_line (bump lx) (scan_while p (bump lx))"
      using 1(1) [OF True stays_in_source] 1(3) by blast
    ultimately show ?thesis using True by (subst scan_while.simps) (auto intro: stays_trans)
  next
    case False
    with 1(2) show ?thesis by (subst scan_while.simps) (auto intro: stays_refl)
  qed
qed

text \<open>\<open>scan_while\<close> is the longest run.\<close>

lemma scan_while_cur:
  "in_source lx \<Longrightarrow> lx_cur (scan_while p lx) = lx_cur lx + length (takeWhile p (drop (lx_cur lx) (lx_src lx)))"
proof (induction p lx rule: scan_while.induct)
  case (1 p lx)
  show ?case
  proof (cases "at_end lx")
    case True
    then show ?thesis by (subst scan_while.simps) (simp add: at_end_def)
  next
    case False
    then have d: "drop (lx_cur lx) (lx_src lx) = char_at lx 0 # drop (Suc (lx_cur lx)) (lx_src lx)"
      by (simp add: char_at_def at_end_def Cons_nth_drop_Suc)
    have "in_source (bump lx)" using False by (simp add: in_source_def bump_def at_end_def)
    with False d 1 show ?thesis by (subst scan_while.simps) (auto simp: bump_def)
  qed
qed

lemma scan_while_eq: "scan_while p lx = lx\<lparr>lx_cur := lx_cur (scan_while p lx)\<rparr>"
  by (intro lexer.equality) simp_all

lemma stays_scan_char_unit:
  assumes "scan_char_unit lx = (r, lx')" and "in_source lx"
  shows "stays_on_line lx lx'"
proof -
  have two: "stays_on_line lx (advance_by 2 lx)"
    if "in_source lx" "left lx \<ge> 2" "is_hex_digit (char_at lx 0)" "is_hex_digit (char_at lx 1)" for lx
  proof -
    have a: "advance_by 2 lx = bump (bump lx)" by (simp add: bump_def advance_by_def)
    have "stays_on_line lx (bump lx)"
      using that class_not_newline by (intro stays_advance) (auto simp: left_def at_end_def)
    moreover have "stays_on_line (bump lx) (bump (bump lx))"
      using that class_not_newline(2) [OF that(4)]
      by (intro stays_advance) (auto simp: left_def at_end_def bump_def char_at_def)
    ultimately show ?thesis unfolding a by (rule stays_trans)
  qed
  show ?thesis
  proof (cases "at_end lx \<or> char_at lx 0 = newline")
    case True
    with assms show ?thesis by (auto simp: scan_char_unit_def intro: stays_refl)
  next
    case False
    define l1 where "l1 = bump lx"
    have s1: "stays_on_line lx l1" using False unfolding l1_def by (blast intro: stays_advance)
    show ?thesis
    proof (cases "char_at lx 0 \<noteq> CHR 0x5C \<or> at_end l1 \<or> char_at l1 0 = newline")
      case True
      with False assms s1 show ?thesis
        by (auto simp: scan_char_unit_def Let_def l1_def [symmetric] split: if_splits)
    next
      case False2: False
      define l2 where "l2 = bump l1"
      have s2: "stays_on_line lx l2"
        using False2 s1 unfolding l2_def by (blast intro: stays_advance stays_trans)
      from assms(1) False False2 have "lx' = l2 \<or> (lx' = advance_by 2 l2 \<and> left l2 \<ge> 2
          \<and> is_hex_digit (char_at l2 0) \<and> is_hex_digit (char_at l2 1))"
        by (auto simp: scan_char_unit_def Let_def l1_def [symmetric] l2_def [symmetric] split: if_splits)
      with s2 two [OF stays_in_source [OF s2]] show ?thesis by (blast intro: stays_trans)
    qed
  qed
qed

section \<open>Every scanning routine takes a token\<close>

text \<open>
  \<open>takes lx t r\<close>: the routine moved on, on the same line, past at least one byte; the token has the position of
  \<open>t\<close>, its text is what lies between that position and the new cursor, it is not the end of the
  file, and the error count went up exactly when the token is an error.
\<close>

definition takes :: "lexer \<Rightarrow> token \<Rightarrow> token \<times> lexer \<Rightarrow> bool" where
  "takes lx t r \<longleftrightarrow> (case r of (t', lx') \<Rightarrow>
     stays_on_line lx lx' \<and> lx_cur lx < lx_cur lx'
     \<and> tk_pos t' = tk_pos t \<and> tk_line t' = tk_line t \<and> tk_col t' = tk_col t
     \<and> tk_text t' = segment (tk_pos t) (lx_cur lx') (lx_src lx)
     \<and> tk_kind t' \<noteq> Special TOK_EOF
     \<and> lx_errors lx' = lx_errors lx + (if tk_kind t' = Special TOK_ERROR then 1 else 0))"

lemma stays_scan_char_unit_errors:
  "scan_char_unit lx = (r, lx') \<Longrightarrow> lx_errors lx' = lx_errors lx"
  by (auto simp: scan_char_unit_def Let_def bump_def advance_by_def split: if_splits)

lemma takes_error:
  "stays_on_line lx lx' \<Longrightarrow> lx_cur lx < lx_cur lx' \<Longrightarrow> lx_errors lx' = lx_errors lx
   \<Longrightarrow> takes lx t (error_at lx' t msg)"
  by (auto simp: takes_def error_at_def finish_def stays_on_line_def)

lemma takes_finish:
  "stays_on_line lx lx' \<Longrightarrow> lx_cur lx < lx_cur lx' \<Longrightarrow> lx_errors lx' = lx_errors lx
   \<Longrightarrow> k \<noteq> Special TOK_EOF \<Longrightarrow> k \<noteq> Special TOK_ERROR \<Longrightarrow> takes lx t (finish lx' t k, lx')"
  "stays_on_line lx lx' \<Longrightarrow> lx_cur lx < lx_cur lx' \<Longrightarrow> lx_errors lx' = lx_errors lx
   \<Longrightarrow> k \<noteq> Special TOK_EOF \<Longrightarrow> k \<noteq> Special TOK_ERROR \<Longrightarrow> takes lx t ((finish lx' t k)\<lparr>tk_val := v\<rparr>, lx')"
  by (auto simp: takes_def finish_def stays_on_line_def)

lemma takes_later:
  "takes lx' t r \<Longrightarrow> stays_on_line lx lx' \<Longrightarrow> lx_errors lx' = lx_errors lx \<Longrightarrow> takes lx t r"
  by (auto simp: takes_def stays_on_line_def intro: stays_trans)
    (metis Un_iff segment_append less_imp_le set_append)

lemma cur_bump [simp]: "lx_cur (bump lx) = Suc (lx_cur lx)"
  by (simp add: bump_def)

lemma errors_bump [simp]: "lx_errors (bump lx) = lx_errors lx"
  by (simp add: bump_def)

lemma stays_cur: "stays_on_line lx lx' \<Longrightarrow> lx_cur lx \<le> lx_cur lx'"
  by (simp add: stays_on_line_def)

lemma stays_bump2: "stays_on_line lx lx' \<Longrightarrow> \<not> at_end lx' \<Longrightarrow> char_at lx' 0 \<noteq> newline \<Longrightarrow> stays_on_line lx (bump lx')"
  by (blast intro: stays_trans stays_advance)

lemma takes_lex_char:
  assumes "\<not> at_end lx" and "char_at lx 0 = CHR 0x27"
  shows "takes lx t (lex_char lx t)"
proof -
  have s1: "stays_on_line lx (bump lx)" using assms by (intro stays_advance) auto
  show ?thesis
  proof (cases "\<not> at_end (bump lx) \<and> char_at (bump lx) 0 = CHR 0x27")
    case True
    then have "stays_on_line lx (bump (bump lx))" using s1 by (intro stays_bump2 [of lx "bump lx"]) auto
    with True show ?thesis by (simp add: lex_char_def takes_error)
  next
    case False
    obtain r l2 where r: "scan_char_unit (bump lx) = (r, l2)" by fastforce
    have s2: "stays_on_line (bump lx) l2" and e2: "lx_errors l2 = lx_errors lx"
      using stays_scan_char_unit [OF r] stays_in_source [OF s1] stays_scan_char_unit_errors [OF r] by auto
    have s: "stays_on_line lx l2" using s1 s2 by (rule stays_trans)
    have less: "lx_cur lx < lx_cur l2" using stays_cur [OF s2] by simp
    have "\<not> at_end l2 \<and> char_at l2 0 = CHR 0x27 \<Longrightarrow> stays_on_line lx (bump l2)"
      using s by (intro stays_bump2) auto
    with False r s less e2 show ?thesis
      by (auto simp: lex_char_def Let_def takes_error takes_finish split: sum.splits)
  qed
qed

lemma takes_string_loop:
  assumes "stays_on_line lx0 lx" and "lx_cur lx0 < lx_cur lx" and "lx_errors lx = lx_errors lx0"
  shows "takes lx0 t (string_loop lx t buf)"
  using assms
proof (induction lx t buf rule: string_loop.induct)
  case (1 lx t buf)
  show ?case
  proof (cases "at_end lx \<or> char_at lx 0 = newline \<or> char_at lx 0 = CHR 0x22")
    case True
    have "\<not> at_end lx \<Longrightarrow> char_at lx 0 = CHR 0x22 \<Longrightarrow> stays_on_line lx0 (bump lx)"
      using 1(2) by (intro stays_bump2) auto
    with True 1(2-) show ?thesis
      by (subst string_loop.simps) (auto simp: Let_def takes_error takes_finish)
  next
    case False
    obtain r l2 where r: "scan_char_unit lx = (r, l2)" by fastforce
    have s2: "stays_on_line lx l2" and e2: "lx_errors l2 = lx_errors lx"
      using stays_scan_char_unit [OF r] stays_in_source [OF 1(2)] stays_scan_char_unit_errors [OF r] by auto
    have s: "stays_on_line lx0 l2" using 1(2) s2 by (rule stays_trans)
    have less: "lx_cur lx0 < lx_cur l2" using stays_cur [OF s2] 1(3) by simp
    show ?thesis
    proof (cases r)
      case (Inl msg)
      with False r s less e2 1(4) show ?thesis
        by (subst string_loop.simps) (simp add: takes_error)
    next
      case (Inr ch)
      with 1(1) False r s less e2 1(4) have "takes lx0 t (string_loop l2 t (buf @ [ch]))" by simp
      with False r Inr show ?thesis by (subst string_loop.simps) simp
    qed
  qed
qed

lemma takes_lex_string:
  assumes "\<not> at_end lx" and "char_at lx 0 = CHR 0x22"
  shows "takes lx t (lex_string lx t)"
  unfolding lex_string_def using assms by (intro takes_string_loop stays_advance) auto

lemma stays_digits_loop:
  assumes "digits_loop isd val base lx v ov = (v', ov', lx')" and "in_source lx"
    and "\<And>c. isd c \<Longrightarrow> c \<noteq> newline"
  shows "stays_on_line lx lx' \<and> lx_errors lx' = lx_errors lx \<and> lx' = scan_while isd lx"
  using assms
proof (induction isd val base lx v ov rule: digits_loop.induct)
  case (1 isd val base lx v ov)
  show ?case
  proof (cases "\<not> at_end lx \<and> isd (char_at lx 0)")
    case True
    then have s: "stays_on_line lx (bump lx)" using 1(4) by (blast intro: stays_advance)
    let ?d = "word_of_nat (val (char_at lx 0)) :: u64"
    have "digits_loop isd val base (bump lx) (v * base + ?d) (if v > (- 1 - ?d) div base then True else ov)
        = (v', ov', lx')"
      using 1(2) True by (subst (asm) digits_loop.simps) (simp add: Let_def)
    from 1(1) [OF True refl this stays_in_source [OF s] 1(4)]
    have "stays_on_line (bump lx) lx' \<and> lx_errors lx' = lx_errors (bump lx)
        \<and> lx' = scan_while isd (bump lx)" by blast
    with s True show ?thesis by (subst scan_while.simps) (auto intro: stays_trans)
  next
    case False
    with 1(2,3) show ?thesis
      by (subst scan_while.simps, subst (asm) digits_loop.simps) (auto intro: stays_refl)
  qed
qed

lemma takes_finish_int:
  assumes "stays_on_line lx lx'" and "lx_cur lx < lx_cur lx'" and "lx_errors lx' = lx_errors lx"
  shows "takes lx t (finish_int lx' t v ov)"
proof (cases "\<not> at_end lx' \<and> is_ident_cont (char_at lx' 0)")
  case True
  then have "stays_on_line lx (bump lx')"
    using assms(1) class_not_newline(4) by (blast intro: stays_bump2)
  with True assms show ?thesis by (simp add: finish_int_def takes_error)
next
  case False
  with assms show ?thesis by (auto simp: finish_int_def takes_error takes_finish)
qed

lemma stays_two:
  assumes "left lx \<ge> 2" and "char_at lx 0 \<noteq> newline" and "char_at lx 1 \<noteq> newline"
  shows "stays_on_line lx (advance_by 2 lx)"
proof -
  have "advance_by 2 lx = bump (bump lx)" by (simp add: advance_by_def bump_def)
  moreover have "stays_on_line lx (bump lx)" using assms by (intro stays_advance) (auto simp: left_def at_end_def)
  moreover from this have "stays_on_line lx (bump (bump lx))"
    using assms by (elim stays_bump2) (auto simp: left_def at_end_def bump_def char_at_def)
  ultimately show ?thesis by simp
qed

lemma advance_by_fields [simp]:
  "lx_cur (advance_by k lx) = lx_cur lx + k" "lx_errors (advance_by k lx) = lx_errors lx"
  "lx_src (advance_by k lx) = lx_src lx"
  by (simp_all add: advance_by_def)

lemma bump_src [simp]: "lx_src (bump lx) = lx_src lx"
  by (simp add: bump_def)

lemma scan_while_moves:
  "\<not> at_end lx \<Longrightarrow> p (char_at lx 0) \<Longrightarrow> lx_cur lx < lx_cur (scan_while p lx)"
  using scan_while_frame(6) [of "bump lx" p] by (subst scan_while.simps) auto

lemma takes_lex_number:
  assumes "\<not> at_end lx" and "is_digit (char_at lx 0)"
  shows "takes lx t (lex_number strtod lx t)"
proof (cases "left lx \<ge> 2 \<and> char_at lx 0 = CHR ''0'' \<and> char_at lx 1 = CHR ''x''")
  case True
  then have s: "stays_on_line lx (advance_by 2 lx)" by (intro stays_two) auto
  obtain v ov l2 where d: "digits_loop is_hex_digit hex_val 16 (advance_by 2 lx) 0 False = (v, ov, l2)"
    by (metis prod_cases3)
  have s2: "stays_on_line (advance_by 2 lx) l2" "lx_errors l2 = lx_errors lx"
    using stays_digits_loop [OF d stays_in_source [OF s] class_not_newline(2)] by auto
  have "lx_cur lx < lx_cur l2" using stays_cur [OF s2(1)] by simp
  with True s s2 d show ?thesis
    by (auto simp: lex_number_def Let_def intro!: takes_error takes_finish_int intro: stays_trans)
next
  case False
  obtain v ov l2 where d: "digits_loop is_digit (\<lambda>c. code c - code CHR ''0'') 10 lx 0 False = (v, ov, l2)"
    by (metis prod_cases3)
  have "in_source lx" using assms(1) by (simp add: in_source_def at_end_def)
  from stays_digits_loop [OF d this class_not_newline(1)]
  have s: "stays_on_line lx l2" "lx_errors l2 = lx_errors lx" "l2 = scan_while is_digit lx" by auto
  have less: "lx_cur lx < lx_cur l2" unfolding s(3) using assms by (rule scan_while_moves)
  show ?thesis
  proof (cases "left l2 \<ge> 2 \<and> char_at l2 0 = CHR ''.'' \<and> is_digit (char_at l2 1)")
    case False2: False
    have "takes lx t (finish_int l2 t v ov)" using s(1) less s(2) by (rule takes_finish_int)
    with False False2 d show ?thesis by (auto simp: lex_number_def)
  next
    case True
    then have "stays_on_line l2 (advance_by 2 l2)" by (intro stays_two) (auto simp: class_not_newline)
    with s(1) have s4: "stays_on_line lx (advance_by 2 l2)" by (rule stays_trans)
    define l3 where "l3 = scan_while is_digit (advance_by 2 l2)"
    have "stays_on_line (advance_by 2 l2) l3"
      unfolding l3_def using stays_in_source [OF s4] class_not_newline(1) by (rule stays_scan_while)
    with s4 have s5: "stays_on_line lx l3" by (rule stays_trans)
    have e3: "lx_errors l3 = lx_errors lx" and c3: "lx_cur lx < lx_cur l3"
      using s(2) less scan_while_frame(6) [of "advance_by 2 l2" is_digit] by (simp_all add: l3_def)
    have "\<not> at_end l3 \<Longrightarrow> is_ident_cont (char_at l3 0) \<Longrightarrow> stays_on_line lx (bump l3)"
      using s5 class_not_newline(4) by (blast intro: stays_bump2)
    with False True d s5 e3 c3 show ?thesis
      by (auto simp: lex_number_def Let_def l3_def [symmetric] intro!: takes_error takes_finish)
  qed
qed

lemma takes_lex_ident:
  assumes "\<not> at_end lx" and "is_ident_start (char_at lx 0)"
  shows "takes lx t (lex_ident lx t)"
proof -
  have "in_source lx" using assms(1) by (simp add: in_source_def at_end_def)
  then have "stays_on_line lx (scan_while is_ident_cont lx)"
    using class_not_newline(4) by (rule stays_scan_while)
  moreover have "lx_cur lx < lx_cur (scan_while is_ident_cont lx)"
    using assms by (intro scan_while_moves) (auto simp: is_ident_cont_def)
  ultimately show ?thesis
    by (auto simp: lex_ident_def Let_def intro!: takes_finish split: option.splits)
qed

section \<open>White space and comments\<close>

lemma skip_trivia_src [simp]: "lx_src (skip_trivia lx) = lx_src lx"
  by (induction lx rule: skip_trivia.induct; subst skip_trivia.simps) (simp add: Let_def bump_def)

lemma skip_trivia_errors [simp]: "lx_errors (skip_trivia lx) = lx_errors lx"
  by (induction lx rule: skip_trivia.induct; subst skip_trivia.simps) (simp add: Let_def bump_def)

text \<open>The bytes between tokens: blanks, newlines and comments, a comment reaching to the end of its line.\<close>

function is_trivia :: "string \<Rightarrow> bool" where
  "is_trivia [] = True"
| "is_trivia (c # cs) =
     (if c = CHR ''#'' then is_trivia (dropWhile (\<lambda>c. c \<noteq> newline) cs)
      else c \<in> {newline, CHR '' '', CHR 0x09, CHR 0x0D} \<and> is_trivia cs)"
  by pat_completeness auto
termination
  by (relation "measure length") (auto simp: le_imp_less_Suc length_dropWhile_le)

declare is_trivia.simps(2) [simp del]

lemma drop_cur: "\<not> at_end lx \<Longrightarrow> drop (lx_cur lx) (lx_src lx) = char_at lx 0 # drop (Suc (lx_cur lx)) (lx_src lx)"
  by (simp add: char_at_def at_end_def Cons_nth_drop_Suc)

lemma segment_Cons:
  "\<not> at_end lx \<Longrightarrow> lx_cur lx < j \<Longrightarrow>
   segment (lx_cur lx) j (lx_src lx) = char_at lx 0 # segment (Suc (lx_cur lx)) j (lx_src lx)"
  by (simp add: segment_def drop_cur take_Cons')

text \<open>
  \<open>well_placed lx\<close> says that the line counter and the line's start are the ones of the cursor: the line
  is one more than the newlines before it, and the line starts after the last of them.
\<close>

definition line_at :: "string \<Rightarrow> nat \<Rightarrow> nat" where
  "line_at src i = 1 + count_list (take i src) newline"

definition col_at :: "string \<Rightarrow> nat \<Rightarrow> nat" where
  "col_at src i = 1 + length (takeWhile (\<lambda>c. c \<noteq> newline) (rev (take i src)))"

definition well_placed :: "lexer \<Rightarrow> bool" where
  "well_placed lx \<longleftrightarrow> in_source lx \<and> lx_line lx = line_at (lx_src lx) (lx_cur lx)
     \<and> lx_line_start lx \<le> lx_cur lx \<and> lx_cur lx - lx_line_start lx + 1 = col_at (lx_src lx) (lx_cur lx)"

lemma well_placed_init: "well_placed (lexer_init f src)"
  by (simp add: well_placed_def lexer_init_def in_source_def line_at_def col_at_def)

lemma segment_same_line:
  assumes "newline \<notin> set (segment i j src)" and "i \<le> j" and "j \<le> length src"
  shows "line_at src j = line_at src i" and "col_at src j = col_at src i + (j - i)"
proof -
  have t: "take j src = take i src @ segment i j src"
    using assms(2) by (simp add: segment_def flip: take_add)
  with assms(1) show "line_at src j = line_at src i"
    by (simp add: line_at_def)
  have "takeWhile (\<lambda>c. c \<noteq> newline) (rev (segment i j src) @ rev (take i src))
      = rev (segment i j src) @ takeWhile (\<lambda>c. c \<noteq> newline) (rev (take i src))"
    using assms(1) by (intro takeWhile_append2) auto
  with t assms(2,3) show "col_at src j = col_at src i + (j - i)"
    by (simp add: col_at_def)
qed

lemma well_placed_stays:
  assumes "well_placed lx" and "stays_on_line lx lx'"
  shows "well_placed lx'"
  using assms segment_same_line [of "lx_cur lx" "lx_cur lx'" "lx_src lx"]
  by (auto simp: well_placed_def stays_on_line_def in_source_def)

lemma well_placed_newline:
  assumes "well_placed lx" and "\<not> at_end lx" and "char_at lx 0 = newline"
  shows "well_placed (lx\<lparr>lx_cur := lx_cur lx + 1, lx_line := lx_line lx + 1, lx_line_start := lx_cur lx + 1\<rparr>)"
proof -
  have "take (Suc (lx_cur lx)) (lx_src lx) = take (lx_cur lx) (lx_src lx) @ [newline]"
    using assms(2,3) by (simp add: at_end_def char_at_def take_Suc_conv_app_nth)
  with assms show ?thesis
    by (simp add: well_placed_def in_source_def at_end_def line_at_def col_at_def)
qed

text \<open>What \<open>skip_trivia\<close> does: it stops at the first byte of a token or at the end of the source.\<close>

definition trivia_start :: "char \<Rightarrow> bool" where
  "trivia_start c \<longleftrightarrow> c \<in> {newline, CHR '' '', CHR 0x09, CHR 0x0D, CHR ''#''}"

lemma skip_trivia_comment:
  assumes "stays_on_line lx (bump lx)" and "\<not> at_end lx" and "char_at lx 0 = CHR ''#''"
    and l: "l = scan_while (\<lambda>c. c \<noteq> newline) (bump lx)" and j: "lx_cur l \<le> j"
    and "is_trivia (segment (lx_cur l) j (lx_src lx))"
  shows "is_trivia (segment (lx_cur lx) j (lx_src lx))"
proof -
  let ?p = "\<lambda>c. c \<noteq> newline" and ?src = "lx_src lx"
  have s: "stays_on_line (bump lx) l"
    unfolding l using stays_in_source [OF assms(1)] by (rule stays_scan_while) simp
  have le: "lx_cur (bump lx) \<le> lx_cur l" using stays_cur [OF s] .
  have split: "segment (Suc (lx_cur lx)) j ?src = segment (Suc (lx_cur lx)) (lx_cur l) ?src @ segment (lx_cur l) j ?src"
    using le j by (simp add: segment_append)
  have pre: "\<forall>c \<in> set (segment (Suc (lx_cur lx)) (lx_cur l) ?src). ?p c"
    using s by (auto simp: stays_on_line_def)
  have "dropWhile ?p (drop (lx_cur l) ?src) = drop (lx_cur l) ?src"
  proof -
    have "drop (lx_cur l) ?src = dropWhile ?p (drop (lx_cur (bump lx)) ?src)"
      using scan_while_cur [OF stays_in_source [OF assms(1)], of ?p]
      by (metis l add.commute bump_src drop_drop dropWhile_eq_drop)
    then show ?thesis by simp
  qed
  then have "dropWhile ?p (segment (lx_cur l) j ?src) = segment (lx_cur l) j ?src"
    by (auto simp: dropWhile_eq_self_iff segment_def hd_take)
  with split pre have "dropWhile ?p (segment (Suc (lx_cur lx)) j ?src) = segment (lx_cur l) j ?src"
    by (simp add: dropWhile_append2)
  moreover have "lx_cur lx < j" using le j by simp
  ultimately show ?thesis
    using assms(2,3,6) by (simp add: segment_Cons is_trivia.simps(2))
qed

lemma skip_trivia_spec:
  "well_placed lx \<Longrightarrow> well_placed (skip_trivia lx) \<and> lx_cur lx \<le> lx_cur (skip_trivia lx)
     \<and> is_trivia (segment (lx_cur lx) (lx_cur (skip_trivia lx)) (lx_src lx))
     \<and> (at_end (skip_trivia lx) \<or> \<not> trivia_start (char_at (skip_trivia lx) 0))"
proof (induction lx rule: skip_trivia.induct)
  case (1 lx)
  consider (stop) "at_end lx \<or> \<not> trivia_start (char_at lx 0)"
    | (nl) "\<not> at_end lx" "char_at lx 0 = newline"
    | (blank) "\<not> at_end lx" "char_at lx 0 \<in> {CHR '' '', CHR 0x09, CHR 0x0D}"
    | (comment) "\<not> at_end lx" "char_at lx 0 = CHR ''#''"
    by (auto simp: trivia_start_def)
  then show ?case
  proof cases
    case stop
    then have "skip_trivia lx = lx" by (subst skip_trivia.simps) (auto simp: trivia_start_def)
    with stop 1(4) show ?thesis by simp
  next
    case nl
    let ?l = "lx\<lparr>lx_cur := lx_cur lx + 1, lx_line := lx_line lx + 1, lx_line_start := lx_cur lx + 1\<rparr>"
    have e: "skip_trivia lx = skip_trivia ?l" using nl by (subst skip_trivia.simps) simp
    have "well_placed ?l" using 1(4) nl by (rule well_placed_newline)
    from 1(1) [OF nl(1) refl nl(2) this] nl show ?thesis
      unfolding e by (auto simp: segment_Cons is_trivia.simps(2))
  next
    case blank
    have e: "skip_trivia lx = skip_trivia (bump lx)" using blank by (subst skip_trivia.simps) auto
    have "char_at lx 0 \<noteq> newline" using blank(2) by auto
    then have "well_placed (bump lx)" using 1(4) blank(1) by (blast intro: well_placed_stays stays_advance)
    from 1(2) [OF blank(1) refl \<open>char_at lx 0 \<noteq> newline\<close> _ this] blank show ?thesis
      unfolding e by (auto simp: segment_Cons is_trivia.simps(2))
  next
    case comment
    let ?l = "scan_while (\<lambda>c. c \<noteq> newline) (bump lx)"
    have e: "skip_trivia lx = skip_trivia ?l" using comment by (subst skip_trivia.simps) auto
    have s1: "stays_on_line lx (bump lx)" using comment by (intro stays_advance) auto
    have s2: "stays_on_line (bump lx) ?l" using stays_in_source [OF s1] by (rule stays_scan_while) simp
    have "well_placed ?l" using 1(4) stays_trans [OF s1 s2] by (rule well_placed_stays)
    with 1(3) [OF comment(1) refl] comment(2)
    have ih: "well_placed (skip_trivia ?l)" "lx_cur ?l \<le> lx_cur (skip_trivia ?l)"
      "is_trivia (segment (lx_cur ?l) (lx_cur (skip_trivia ?l)) (lx_src lx))"
      "at_end (skip_trivia ?l) \<or> \<not> trivia_start (char_at (skip_trivia ?l) 0)" by auto
    have "lx_cur lx \<le> lx_cur ?l" using stays_cur [OF stays_trans [OF s1 s2]] .
    with ih skip_trivia_comment [OF s1 comment refl ih(2,3)] show ?thesis unfolding e by simp
  qed
qed

lemma takes_lexer_next:
  assumes "well_placed lx" and "lexer_next strtod lx = (t, lx')"
  defines "l \<equiv> skip_trivia lx"
  shows "tk_pos t = lx_cur l" and "tk_line t = lx_line l" and "tk_col t = lx_cur l - lx_line_start l + 1"
    and "if at_end l then lx' = l \<and> tk_kind t = Special TOK_EOF \<and> tk_text t = []
         else (\<exists>t0. tk_pos t0 = lx_cur l \<and> takes l t0 (t, lx'))"
proof -
  define t0 where "t0 = \<lparr>tk_kind = Special TOK_EOF, tk_pos = lx_cur l, tk_text = [], tk_line = lx_line l,
       tk_col = lx_cur l - lx_line_start l + 1, tk_val = Ival 0\<rparr>"
  have notnl: "\<not> at_end l \<Longrightarrow> char_at l 0 \<noteq> newline"
    using skip_trivia_spec [OF assms(1)] by (auto simp: l_def trivia_start_def)
  have t: "if at_end l then (t, lx') = (t0, l) else takes l t0 (t, lx')"
  proof (cases "at_end l")
    case True
    with assms(2) show ?thesis by (auto simp: lexer_next_def Let_def l_def t0_def)
  next
    case False
    note n = assms(2) [symmetric, unfolded lexer_next_def Let_def, folded l_def, folded t0_def]
    have bump: "stays_on_line l (bump l)" using False notnl by (intro stays_advance) auto
    have punct: "stays_on_line l (advance_by (length sp) l) \<and> lx_cur l < lx_cur (advance_by (length sp) l)"
      if "punct_at (drop (lx_cur l) (lx_src l)) = Some (p, sp)" for p sp
    proof -
      note sp = punct_at_Some [OF that]
      have "set (segment (lx_cur l) (lx_cur l + length sp) (lx_src l)) = set sp"
        using sp(2) by (simp add: segment_def)
      then show ?thesis
        using sp False punct_spelling_no_newline [OF sp(1)] punct_spelling_nonempty [OF sp(1)]
        by (auto simp: stays_on_line_def advance_by_def at_end_def)
    qed
    have "takes l t0 (t, lx')"
      unfolding n using False bump punct
      by (auto simp: takes_lex_ident takes_lex_number takes_lex_char takes_lex_string takes_error takes_finish
          split: option.splits)
    with False show ?thesis by simp
  qed
  then show "tk_pos t = lx_cur l" "tk_line t = lx_line l" "tk_col t = lx_cur l - lx_line_start l + 1"
    by (auto simp: takes_def t0_def split: if_splits)
  show "if at_end l then lx' = l \<and> tk_kind t = Special TOK_EOF \<and> tk_text t = []
         else (\<exists>t0. tk_pos t0 = lx_cur l \<and> takes l t0 (t, lx'))"
    using t by (auto simp: t0_def split: if_splits intro!: exI [of _ t0])
qed

section \<open>Lexing everything\<close>

lemma lexer_next_src: "lexer_next strtod lx = (t, lx') \<Longrightarrow> well_placed lx \<Longrightarrow> lx_src lx' = lx_src lx"
  using takes_lexer_next(4) [of lx strtod t lx']
  by (auto simp: takes_def stays_on_line_def split: if_splits)

lemma lexer_next_well_placed:
  "well_placed lx \<Longrightarrow> lexer_next strtod lx = (t, lx') \<Longrightarrow> well_placed lx'"
  using takes_lexer_next(4) [of lx strtod t lx'] skip_trivia_spec [of lx]
  by (auto simp: takes_def split: if_splits dest: well_placed_stays)

lemma lexer_next_progress:
  assumes "well_placed lx" and "lexer_next strtod lx = (t, lx')" and "tk_kind t \<noteq> Special TOK_EOF"
  shows "left lx' < left lx"
proof -
  have "takes (skip_trivia lx) t0 (t, lx') \<Longrightarrow> left lx' < left lx" for t0
    using skip_trivia_spec [OF assms(1)] by (auto simp: takes_def stays_on_line_def left_def)
  with takes_lexer_next(4) [OF assms(1,2)] assms(3) show ?thesis by (auto split: if_splits)
qed

text \<open>
  The loop of \<open>lexer_lex_all\<close>, with a bound on its turns; \<open>lexer_lex_all\<close> gives it one turn more than
  the bytes left. Running out of turns would show as \<open>None\<close>; \<open>lex_loop_total\<close> proves it never does.
\<close>

fun lex_loop :: "(string \<Rightarrow> u64) \<Rightarrow> nat \<Rightarrow> lexer \<Rightarrow> (token list \<times> lexer) option" where
  "lex_loop strtod 0 lx = None"
| "lex_loop strtod (Suc n) lx =
     (case lexer_next strtod lx of (t, lx') \<Rightarrow>
        if tk_kind t = Special TOK_EOF then Some ([t], lx')
        else (case lex_loop strtod n lx' of None \<Rightarrow> None | Some (ts, lx'') \<Rightarrow> Some (t # ts, lx'')))"

definition lexer_lex_all :: "(string \<Rightarrow> u64) \<Rightarrow> lexer \<Rightarrow> (token list \<times> nat \<times> lexer) option" where
  "lexer_lex_all strtod lx =
     (case lex_loop strtod (left lx + 1) lx of
        None \<Rightarrow> None
      | Some (ts, lx') \<Rightarrow> Some (ts, lx_errors lx', lx'))"

lemma lex_loop_total: "well_placed lx \<Longrightarrow> left lx < n \<Longrightarrow> \<exists>ts lx'. lex_loop strtod n lx = Some (ts, lx')"
proof (induction n arbitrary: lx)
  case 0
  then show ?case by simp
next
  case (Suc n)
  obtain t lx' where n: "lexer_next strtod lx = (t, lx')" by fastforce
  show ?case
  proof (cases "tk_kind t = Special TOK_EOF")
    case False
    from lexer_next_progress [OF Suc.prems(1) n False] Suc.prems(2) have "left lx' < n" by simp
    with Suc.IH [OF lexer_next_well_placed [OF Suc.prems(1) n]]
    obtain ts l2 where "lex_loop strtod n lx' = Some (ts, l2)" by blast
    with n False show ?thesis by simp
  qed (simp add: n)
qed

text \<open>
  What the token list says about the source from offset \<open>i\<close> on: trivia, then the token, then the rest,
  each token on the line and in the column of its first byte, and the list ends with the one
  end-of-file token, after the last byte.
\<close>

fun tiles :: "string \<Rightarrow> nat \<Rightarrow> token list \<Rightarrow> bool" where
  "tiles src i [] = False"
| "tiles src i (t # ts) =
     (i \<le> tk_pos t \<and> is_trivia (segment i (tk_pos t) src)
      \<and> tk_text t = segment (tk_pos t) (tk_pos t + length (tk_text t)) src
      \<and> tk_line t = line_at src (tk_pos t) \<and> tk_col t = col_at src (tk_pos t)
      \<and> (if ts = [] then tk_kind t = Special TOK_EOF \<and> tk_pos t = length src \<and> tk_text t = []
         else tk_kind t \<noteq> Special TOK_EOF \<and> tk_text t \<noteq> [] \<and> tiles src (tk_pos t + length (tk_text t)) ts))"

definition error_tokens :: "token list \<Rightarrow> nat" where
  "error_tokens ts = length (filter (\<lambda>t. tk_kind t = Special TOK_ERROR) ts)"

lemma lex_loop_tiles:
  "well_placed lx \<Longrightarrow> lex_loop strtod n lx = Some (ts, lx') \<Longrightarrow>
   tiles (lx_src lx) (lx_cur lx) ts \<and> lx_errors lx' = lx_errors lx + error_tokens ts"
proof (induction n arbitrary: lx ts)
  case 0
  then show ?case by simp
next
  case (Suc n)
  obtain t l1 where n: "lexer_next strtod lx = (t, l1)" by fastforce
  define l where "l = skip_trivia lx"
  note tk = takes_lexer_next [OF Suc.prems(1) n, folded l_def]
  have sp: "well_placed l" "lx_cur lx \<le> lx_cur l" "is_trivia (segment (lx_cur lx) (lx_cur l) (lx_src lx))"
    and src: "lx_src l = lx_src lx" "lx_errors l = lx_errors lx"
    using skip_trivia_spec [OF Suc.prems(1)] by (simp_all add: l_def)
  have place: "tk_line t = line_at (lx_src lx) (tk_pos t)" "tk_col t = col_at (lx_src lx) (tk_pos t)"
    using tk(1-3) sp(1) src by (simp_all add: well_placed_def)
  show ?case
  proof (cases "at_end l")
    case True
    with tk(4) have "l1 = l" "tk_kind t = Special TOK_EOF" "tk_text t = []" by simp_all
    moreover from True sp(1) have "lx_cur l = length (lx_src l)"
      by (simp add: at_end_def well_placed_def in_source_def)
    ultimately show ?thesis
      using Suc.prems(2) n sp src place tk(1) by (auto simp: error_tokens_def)
  next
    case False
    with tk(4) obtain t0 where p0: "tk_pos t0 = lx_cur l" and takes: "takes l t0 (t, l1)" by auto
    then have t: "tk_text t = segment (tk_pos t) (lx_cur l1) (lx_src lx)" "tk_kind t \<noteq> Special TOK_EOF"
      and cur: "lx_cur l < lx_cur l1" "lx_cur l1 \<le> length (lx_src lx)"
      and err: "lx_errors l1 = lx_errors lx + (if tk_kind t = Special TOK_ERROR then 1 else 0)"
      using src tk(1) by (simp_all add: takes_def stays_on_line_def)
    have len: "tk_pos t + length (tk_text t) = lx_cur l1" "tk_text t \<noteq> []"
      using cur tk(1) by (auto simp: t(1) segment_def)
    from Suc.prems(2) n t(2) obtain ts' where rest: "lex_loop strtod n l1 = Some (ts', lx')" "ts = t # ts'"
      by (auto split: option.splits)
    from Suc.IH [OF lexer_next_well_placed [OF Suc.prems(1) n] rest(1)]
    have ih: "tiles (lx_src lx) (lx_cur l1) ts'" "lx_errors lx' = lx_errors l1 + error_tokens ts'"
      using lexer_next_src [OF n Suc.prems(1)] by simp_all
    from ih(1) have "ts' \<noteq> []" by (cases ts') auto
    with ih rest(2) len t err place sp tk(1) show ?thesis by (simp add: error_tokens_def)
  qed
qed

lemma tiles_source:
  "tiles src i ts \<Longrightarrow> i \<le> length src \<Longrightarrow>
   \<exists>gaps. length gaps = length ts \<and> (\<forall>g \<in> set gaps. is_trivia g)
     \<and> drop i src = concat (map2 (@) gaps (map tk_text ts))"
proof (induction ts arbitrary: i)
  case (Cons t ts)
  let ?g = "segment i (tk_pos t) src"
  show ?case
  proof (cases "ts = []")
    case True
    with Cons.prems have "drop i src = ?g @ tk_text t" and "is_trivia ?g"
      by (auto simp: segment_def)
    with True show ?thesis by (intro exI [of _ "[?g]"]) simp
  next
    case False
    let ?j = "tk_pos t + length (tk_text t)"
    have tx: "tk_text t = segment (tk_pos t) ?j src" and ne: "tk_text t \<noteq> []" using Cons.prems False by simp_all
    then have "?j \<le> length src"
      using length_segment [of "tk_pos t" ?j src] by (cases "?j \<le> length src") auto
    with Cons.IH [of ?j] Cons.prems False obtain gaps where
      gaps: "length gaps = length ts" "\<forall>g \<in> set gaps. is_trivia g"
        "drop ?j src = concat (map2 (@) gaps (map tk_text ts))" by auto
    have "drop i src = ?g @ drop (tk_pos t) src" using Cons.prems by (simp add: segment_drop)
    also have "drop (tk_pos t) src = tk_text t @ drop ?j src"
      by (subst (1) tx) (simp add: segment_drop)
    finally show ?thesis
      using gaps Cons.prems by (intro exI [of _ "?g # gaps"]) simp
  qed
qed simp

end
