(* ===== verification/Slop_Parser.thy ===== *)
theory Slop_Parser
  imports Slop_Ast Slop_Lexer
begin

text \<open>
  The parser, \<open>src/parser/parser.c\<close>. Every routine is a state function
  \<open>parser \<Rightarrow> (result \<times> parser) option\<close> over the C struct \<open>Parser\<close>; NULL results are \<open>None\<close> inside the
  result. The arena only owns the nodes, which are values here. A C loop is \<open>loop\<close> with as many
  turns as tokens are left. The recursion is cut where the C code counts its depth: the expression
  routines take the routine for a nested expression as an argument, and \<open>parse_expr\<close> and
  \<open>parse_stmt\<close> close the recursion with \<open>MAX_NESTING + 1 - depth\<close> levels, after which the C code
  reports an error instead of recursing. \<open>Slop_Parser_Sound\<close> proves that no bound is ever met.
\<close>

section \<open>State and token access\<close>

definition MAX_NESTING :: nat where "MAX_NESTING = 200"

record parser =
  ps_toks :: "token list"
  ps_pos :: nat
  ps_file :: string
  ps_diag :: diag
  ps_depth :: nat

type_synonym 'a parse = "parser \<Rightarrow> ('a \<times> parser) option"

definition is_assign_op :: "token_kind \<Rightarrow> bool" where
  "is_assign_op k \<longleftrightarrow> (case k of
     Punct TOK_EQ \<Rightarrow> True | Punct TOK_PLUS_EQ \<Rightarrow> True | Punct TOK_MINUS_EQ \<Rightarrow> True
   | Punct TOK_STAR_EQ \<Rightarrow> True | Punct TOK_SLASH_EQ \<Rightarrow> True | Punct TOK_PERCENT_EQ \<Rightarrow> True
   | Punct TOK_AMP_EQ \<Rightarrow> True | Punct TOK_PIPE_EQ \<Rightarrow> True | Punct TOK_CARET_EQ \<Rightarrow> True
   | Punct TOK_SHL_EQ \<Rightarrow> True | Punct TOK_SHR_EQ \<Rightarrow> True | _ \<Rightarrow> False)"

definition cur_tok :: "parser \<Rightarrow> token" where
  "cur_tok p = ps_toks p ! ps_pos p"

definition cur :: "parser \<Rightarrow> token_kind" where
  "cur p = tk_kind (cur_tok p)"

definition here :: "parser \<Rightarrow> srcpos" where
  "here p = \<lparr>sp_file = Some (ps_file p), sp_line = tk_line (cur_tok p), sp_col = tk_col (cur_tok p)\<rparr>"

text \<open>The members of a token's union; the lexer sets the one that goes with the kind.\<close>

definition tok_ival :: "token \<Rightarrow> u64" where
  "tok_ival t = (case tk_val t of Ival v \<Rightarrow> v | _ \<Rightarrow> 0)"

definition tok_fval :: "token \<Rightarrow> u64" where
  "tok_fval t = (case tk_val t of Fval v \<Rightarrow> v | _ \<Rightarrow> 0)"

definition intern_string :: "token \<Rightarrow> string" where
  "intern_string t = (case tk_val t of Str s \<Rightarrow> s | _ \<Rightarrow> [])"

definition tok_err :: "token \<Rightarrow> string" where
  "tok_err t = (case tk_val t of Err s \<Rightarrow> s | _ \<Rightarrow> [])"

definition tok_view :: "token \<Rightarrow> string" where
  "tok_view t = tk_text t"

definition at :: "parser \<Rightarrow> token_kind \<Rightarrow> bool" where
  "at p k \<longleftrightarrow> cur p = k"

definition p_error :: "srcpos \<Rightarrow> string \<Rightarrow> parser \<Rightarrow> parser" where
  "p_error pos msg p = p\<lparr>ps_diag := diag_error (ps_diag p) pos msg\<rparr>"

function skip_error_tokens :: "parser \<Rightarrow> parser" where
  "skip_error_tokens p =
     (if cur p = Special TOK_ERROR \<and> ps_pos p + 1 < length (ps_toks p)
      then skip_error_tokens ((p_error (here p) (tok_err (cur_tok p)) p)\<lparr>ps_pos := ps_pos p + 1\<rparr>)
      else p)"
  by pat_completeness auto
termination
  by (relation "measure (\<lambda>p. length (ps_toks p) - ps_pos p)") (auto simp: p_error_def)

declare skip_error_tokens.simps [simp del]

definition advance :: "token parse" where
  "advance p = Some (cur_tok p,
     if ps_pos p + 1 < length (ps_toks p) then skip_error_tokens (p\<lparr>ps_pos := ps_pos p + 1\<rparr>) else p)"

definition accept :: "token_kind \<Rightarrow> bool parse" where
  "accept k p = (if at p k then do { (_, p) \<leftarrow> advance p; Some (True, p) } else Some (False, p))"

section \<open>Diagnostics\<close>

text \<open>\<open>snprintf\<close> into a buffer of \<open>n\<close> bytes keeps \<open>n - 1\<close> of them.\<close>

definition describe_kind :: "token_kind \<Rightarrow> nat \<Rightarrow> string" where
  "describe_kind k n = take (n - 1)
     (if k > Special TOK_STRING then [CHR 0x27] @ token_kind_name k @ [CHR 0x27] else token_kind_name k)"

definition describe_current :: "parser \<Rightarrow> nat \<Rightarrow> string" where
  "describe_current p n =
     (let t = cur_tok p in
      if tk_kind t = Special TOK_IDENT
      then take (n - 1) (''identifier '' @ [CHR 0x27] @ tk_text t @ [CHR 0x27])
      else if tk_kind t = Special TOK_INT \<or> tk_kind t = Special TOK_FLOAT
      then take (n - 1) ([CHR 0x27] @ tk_text t @ [CHR 0x27])
      else describe_kind (tk_kind t) n)"

definition error_unexpected :: "string \<Rightarrow> unit parse" where
  "error_unexpected expected p =
     Some ((), p_error (here p) (''expected '' @ expected @ '', found '' @ describe_current p 80) p)"

definition expect :: "token_kind \<Rightarrow> bool parse" where
  "expect k p =
     (if at p k then do { (_, p) \<leftarrow> advance p; Some (True, p) }
      else do { (_, p) \<leftarrow> error_unexpected (describe_kind k 48) p; Some (False, p) })"

definition expect_ident :: "string option parse" where
  "expect_ident p =
     (if at p (Special TOK_IDENT) then do { (t, p) \<leftarrow> advance p; Some (Some (tok_view t), p) }
      else do { (_, p) \<leftarrow> error_unexpected ''identifier'' p; Some (None, p) })"

section \<open>Recovery\<close>

text \<open>The number of turns any loop over the tokens can take.\<close>

definition turns :: "parser \<Rightarrow> nat" where
  "turns p = Suc (length (ps_toks p) - ps_pos p)"

definition stmt_boundary :: "token_kind \<Rightarrow> bool" where
  "stmt_boundary k \<longleftrightarrow> (case k of
     Punct TOK_RBRACE \<Rightarrow> True | Punct TOK_LBRACE \<Rightarrow> True | Keyword TOK_KW_LET \<Rightarrow> True
   | Keyword TOK_KW_IF \<Rightarrow> True | Keyword TOK_KW_WHILE \<Rightarrow> True | Keyword TOK_KW_MATCH \<Rightarrow> True
   | Keyword TOK_KW_RETURN \<Rightarrow> True | Keyword TOK_KW_BREAK \<Rightarrow> True | Keyword TOK_KW_CONTINUE \<Rightarrow> True
   | Keyword TOK_KW_FN \<Rightarrow> True | Keyword TOK_KW_STRUCT \<Rightarrow> True | Keyword TOK_KW_ENUM \<Rightarrow> True
   | Keyword TOK_KW_EXTERN \<Rightarrow> True | _ \<Rightarrow> False)"

definition sync_stmt :: "unit parse" where
  "sync_stmt p = loop (turns p) (\<lambda>_ p.
     if at p (Special TOK_EOF) then Some (Inr (), p)
     else do {
       (semi, p) \<leftarrow> accept (Punct TOK_SEMI) p;
       if semi then Some (Inr (), p)
       else if stmt_boundary (cur p) then Some (Inr (), p)
       else do { (_, p) \<leftarrow> advance p; Some (Inl (), p) } }) () p"

definition sync_member :: "unit parse" where
  "sync_member p = loop (turns p) (\<lambda>_ p.
     if at p (Special TOK_EOF) then Some (Inr (), p)
     else do {
       (semi, p) \<leftarrow> accept (Punct TOK_SEMI) p;
       if semi then Some (Inr (), p)
       else do {
         (comma, p) \<leftarrow> accept (Punct TOK_COMMA) p;
         if comma then Some (Inr (), p)
         else if at p (Punct TOK_RBRACE) then Some (Inr (), p)
         else do { (_, p) \<leftarrow> advance p; Some (Inl (), p) } } }) () p"

definition item_boundary :: "token_kind \<Rightarrow> bool" where
  "item_boundary k \<longleftrightarrow> (case k of
     Keyword TOK_KW_FN \<Rightarrow> True | Keyword TOK_KW_STRUCT \<Rightarrow> True | Keyword TOK_KW_ENUM \<Rightarrow> True
   | Keyword TOK_KW_LET \<Rightarrow> True | Keyword TOK_KW_EXTERN \<Rightarrow> True | _ \<Rightarrow> False)"

definition sync_item :: "unit parse" where
  "sync_item p = loop (turns p) (\<lambda>_ p.
     if at p (Special TOK_EOF) then Some (Inr (), p)
     else if item_boundary (cur p) then Some (Inr (), p)
     else do { (_, p) \<leftarrow> advance p; Some (Inl (), p) }) () p"

section \<open>Types\<close>

definition type_suffixes :: "srcpos \<Rightarrow> ast_type \<Rightarrow> ast_type parse" where
  "type_suffixes pos t p = loop (turns p) (\<lambda>t p. do {
     (star, p) \<leftarrow> accept (Punct TOK_STAR) p;
     if star then Some (Inl (TYPE_POINTER pos t), p)
     else do {
       (lb, p) \<leftarrow> accept (Punct TOK_LBRACKET) p;
       if lb then do {
         (len, p) \<leftarrow> (if at p (Special TOK_INT) then do { (i, p) \<leftarrow> advance p; Some (tok_ival i, p) }
           else do { (_, p) \<leftarrow> error_unexpected ''an integer literal as the array length'' p; Some (0, p) });
         (_, p) \<leftarrow> expect (Punct TOK_RBRACKET) p;
         Some (Inl (TYPE_ARRAY pos t len), p) }
       else Some (Inr t, p) } }) t p"

definition parse_type :: "ast_type option parse" where
  "parse_type p =
     (let pos = here p in
      if token_is_core_type (cur p) then do {
        (k, p) \<leftarrow> advance p;
        (t, p) \<leftarrow> type_suffixes pos (TYPE_CORE pos (tk_kind k)) p;
        Some (Some t, p) }
      else if at p (Special TOK_IDENT) then do {
        (n, p) \<leftarrow> advance p;
        (t, p) \<leftarrow> type_suffixes pos (TYPE_NAME pos (tok_view n)) p;
        Some (Some t, p) }
      else do { (_, p) \<leftarrow> error_unexpected ''a type'' p; Some (None, p) })"

section \<open>Expressions\<close>

definition make_binary :: "token_kind \<Rightarrow> srcpos \<Rightarrow> expr option \<Rightarrow> expr option \<Rightarrow> expr" where
  "make_binary op pos lhs rhs = expr_new pos (EXPR_BINARY op lhs rhs)"

text \<open>\<open>pe\<close> is \<open>parse_expr\<close>, one level deeper.\<close>

definition parse_primary :: "expr option parse \<Rightarrow> expr option parse" where
  "parse_primary pe p =
     (let pos = here p in
      case cur p of
        Special TOK_INT \<Rightarrow> do { (t, p) \<leftarrow> advance p; Some (Some (expr_new pos (EXPR_INT (tok_ival t))), p) }
      | Special TOK_FLOAT \<Rightarrow> do { (t, p) \<leftarrow> advance p; Some (Some (expr_new pos (EXPR_FLOAT (tok_fval t))), p) }
      | Special TOK_CHAR \<Rightarrow> do { (t, p) \<leftarrow> advance p; Some (Some (expr_new pos (EXPR_CHAR (tok_ival t))), p) }
      | Special TOK_STRING \<Rightarrow> do { (t, p) \<leftarrow> advance p; Some (Some (expr_new pos (EXPR_STRING (intern_string t))), p) }
      | Keyword TOK_KW_TRUE \<Rightarrow> do { (t, p) \<leftarrow> advance p;
          Some (Some (expr_new pos (EXPR_BOOL (tk_kind t = Keyword TOK_KW_TRUE))), p) }
      | Keyword TOK_KW_FALSE \<Rightarrow> do { (t, p) \<leftarrow> advance p;
          Some (Some (expr_new pos (EXPR_BOOL (tk_kind t = Keyword TOK_KW_TRUE))), p) }
      | Keyword TOK_KW_NULL \<Rightarrow> do { (_, p) \<leftarrow> advance p; Some (Some (expr_new pos EXPR_NULL), p) }
      | Special TOK_IDENT \<Rightarrow> do { (t, p) \<leftarrow> advance p; Some (Some (expr_new pos (EXPR_NAME (tok_view t))), p) }
      | Punct TOK_LPAREN \<Rightarrow> do {
          (_, p) \<leftarrow> advance p;
          (e, p) \<leftarrow> pe p;
          (_, p) \<leftarrow> expect (Punct TOK_RPAREN) p;
          Some (e, p) }
      | _ \<Rightarrow> do { (_, p) \<leftarrow> error_unexpected ''an expression'' p; Some (None, p) })"

definition parse_args :: "expr option parse \<Rightarrow> expr option list parse" where
  "parse_args pe p =
     (if at p (Punct TOK_RPAREN) then Some ([], p)
      else loop (turns p) (\<lambda>args p. do {
        (a, p) \<leftarrow> pe p;
        (comma, p) \<leftarrow> accept (Punct TOK_COMMA) p;
        if comma then Some (Inl (args @ [a]), p) else Some (Inr (args @ [a]), p) }) [] p)"

text \<open>The loop of \<open>parse_postfix\<close> over the operators after \<open>e\<close>.\<close>

definition postfix_ops :: "expr option parse \<Rightarrow> expr \<Rightarrow> expr option parse" where
  "postfix_ops pe e p = loop (turns p) (\<lambda>e p.
         let pos = here p in do {
         (lp, p) \<leftarrow> accept (Punct TOK_LPAREN) p;
         if lp then do {
           (args, p) \<leftarrow> parse_args pe p;
           (_, p) \<leftarrow> expect (Punct TOK_RPAREN) p;
           Some (Inl (expr_new pos (EXPR_CALL (Some e) args)), p) }
         else do {
           (lb, p) \<leftarrow> accept (Punct TOK_LBRACKET) p;
           if lb then do {
             (i, p) \<leftarrow> pe p;
             (_, p) \<leftarrow> expect (Punct TOK_RBRACKET) p;
             Some (Inl (expr_new pos (EXPR_INDEX (Some e) i)), p) }
           else do {
             (dot, p) \<leftarrow> accept (Punct TOK_DOT) p;
             if dot then do {
               (as, p) \<leftarrow> accept (Keyword TOK_KW_AS) p;
               if as then do {
                 (ok, p) \<leftarrow> expect (Punct TOK_LPAREN) p;
                 (ty, p) \<leftarrow> (if ok then do {
                     (ty, p) \<leftarrow> parse_type p;
                     (_, p) \<leftarrow> expect (Punct TOK_RPAREN) p;
                     Some (ty, p) } else Some (None, p));
                 Some (Inl (expr_new pos (EXPR_CAST (Some e) ty)), p) }
               else do {
                 (name, p) \<leftarrow> expect_ident p;
                 Some (Inl (expr_new pos (EXPR_FIELD (Some e) (case name of Some n \<Rightarrow> n | None \<Rightarrow> []))), p) } }
             else Some (Inr (Some e), p) } } }) e p"

definition parse_postfix :: "expr option parse \<Rightarrow> expr option parse" where
  "parse_postfix pe p = do {
     (e, p) \<leftarrow> parse_primary pe p;
     case e of
       None \<Rightarrow> Some (None, p)
     | Some e \<Rightarrow> postfix_ops pe e p }"

definition is_unary_op :: "token_kind \<Rightarrow> bool" where
  "is_unary_op k \<longleftrightarrow> (case k of Punct TOK_MINUS \<Rightarrow> True | Punct TOK_BANG \<Rightarrow> True | Punct TOK_TILDE \<Rightarrow> True
     | Punct TOK_STAR \<Rightarrow> True | Punct TOK_AMP \<Rightarrow> True | _ \<Rightarrow> False)"

text \<open>\<open>n\<close> bounds the prefix operators in a row; each one is a token.\<close>

fun parse_unary_n :: "nat \<Rightarrow> expr option parse \<Rightarrow> expr option parse" where
  "parse_unary_n 0 pe p = None"
| "parse_unary_n (Suc n) pe p =
     (let pos = here p in
      if is_unary_op (cur p) then do {
        (op, p) \<leftarrow> advance p;
        (e, p) \<leftarrow> parse_unary_n n pe p;
        Some (Some (expr_new pos (EXPR_UNARY (tk_kind op) e)), p) }
      else if cur p = Keyword TOK_KW_SIZEOF then do {
        (_, p) \<leftarrow> advance p;
        (ok, p) \<leftarrow> expect (Punct TOK_LPAREN) p;
        (ty, p) \<leftarrow> (if ok then do {
            (ty, p) \<leftarrow> parse_type p;
            (_, p) \<leftarrow> expect (Punct TOK_RPAREN) p;
            Some (ty, p) } else Some (None, p));
        Some (Some (expr_new pos (EXPR_SIZEOF ty)), p) }
      else parse_postfix pe p)"

definition parse_unary :: "expr option parse \<Rightarrow> expr option parse" where
  "parse_unary pe p = parse_unary_n (turns p) pe p"

text \<open>The loop of every level of the precedence ladder: \<open>ops\<close> are its operators, \<open>sub\<close> the next level.\<close>

definition binary_level :: "punct list \<Rightarrow> expr option parse \<Rightarrow> expr option parse" where
  "binary_level ops sub p = do {
     (lhs, p) \<leftarrow> sub p;
     loop (turns p) (\<lambda>lhs p.
       if \<exists>op \<in> set ops. at p (Punct op) then
         let pos = here p in do {
         (op, p) \<leftarrow> advance p;
         (rhs, p) \<leftarrow> sub p;
         Some (Inl (Some (make_binary (tk_kind op) pos lhs rhs)), p) }
       else Some (Inr lhs, p)) lhs p }"

definition parse_mul :: "expr option parse \<Rightarrow> expr option parse" where
  "parse_mul pe = binary_level [TOK_STAR, TOK_SLASH, TOK_PERCENT] (parse_unary pe)"

definition parse_add :: "expr option parse \<Rightarrow> expr option parse" where
  "parse_add pe = binary_level [TOK_PLUS, TOK_MINUS] (parse_mul pe)"

definition parse_shift :: "expr option parse \<Rightarrow> expr option parse" where
  "parse_shift pe = binary_level [TOK_SHL, TOK_SHR] (parse_add pe)"

definition parse_bitand :: "expr option parse \<Rightarrow> expr option parse" where
  "parse_bitand pe = binary_level [TOK_AMP] (parse_shift pe)"

definition parse_bitxor :: "expr option parse \<Rightarrow> expr option parse" where
  "parse_bitxor pe = binary_level [TOK_CARET] (parse_bitand pe)"

definition parse_bitor :: "expr option parse \<Rightarrow> expr option parse" where
  "parse_bitor pe = binary_level [TOK_PIPE] (parse_bitxor pe)"

definition parse_relational :: "expr option parse \<Rightarrow> expr option parse" where
  "parse_relational pe = binary_level [TOK_LT, TOK_LE, TOK_GT, TOK_GE] (parse_bitor pe)"

definition parse_equality :: "expr option parse \<Rightarrow> expr option parse" where
  "parse_equality pe = binary_level [TOK_EQ_EQ, TOK_BANG_EQ] (parse_relational pe)"

definition parse_logical_and :: "expr option parse \<Rightarrow> expr option parse" where
  "parse_logical_and pe = binary_level [TOK_AMP_AMP] (parse_equality pe)"

definition parse_logical_or :: "expr option parse \<Rightarrow> expr option parse" where
  "parse_logical_or pe = binary_level [TOK_PIPE_PIPE] (parse_logical_and pe)"

fun parse_expr_n :: "nat \<Rightarrow> expr option parse" where
  "parse_expr_n 0 p = None"
| "parse_expr_n (Suc n) p =
     (if ps_depth p \<ge> MAX_NESTING then Some (None, p_error (here p) ''expression nests too deeply'' p)
      else do {
        (e, p) \<leftarrow> parse_logical_or (parse_expr_n n) (p\<lparr>ps_depth := ps_depth p + 1\<rparr>);
        Some (e, p\<lparr>ps_depth := ps_depth p - 1\<rparr>) })"

definition parse_expr :: "expr option parse" where
  "parse_expr p = parse_expr_n (Suc MAX_NESTING - ps_depth p) p"

definition is_literal_start :: "token_kind \<Rightarrow> bool" where
  "is_literal_start k \<longleftrightarrow> (case k of Special TOK_INT \<Rightarrow> True | Special TOK_FLOAT \<Rightarrow> True | Special TOK_CHAR \<Rightarrow> True
     | Special TOK_STRING \<Rightarrow> True | Keyword TOK_KW_TRUE \<Rightarrow> True | Keyword TOK_KW_FALSE \<Rightarrow> True
     | Keyword TOK_KW_NULL \<Rightarrow> True | _ \<Rightarrow> False)"

definition parse_literal :: "expr option parse" where
  "parse_literal p =
     (if is_literal_start (cur p) then parse_primary parse_expr p
      else do { (_, p) \<leftarrow> error_unexpected ''a literal (v0 has no constant expressions)'' p; Some (None, p) })"

end
