(* ===== verification/Slop_Parser_Decl.thy ===== *)
theory Slop_Parser_Decl
  imports Slop_Parser
begin

text \<open>
  The statements, the items and the driver of \<open>src/parser/parser.c\<close>. As for expressions, the routines
  that contain statements take \<open>parse_stmt\<close> as the argument \<open>ps\<close> and \<open>parse_stmt\<close> closes the recursion by
  the nesting depth; \<open>else if\<close> chains, which the C code follows without counting depth, are bounded by
  the tokens left.
\<close>

section \<open>Statements\<close>

text \<open>Recovery must always make progress: a turn that consumed nothing skips a token.\<close>

definition ensure_progress :: "nat \<Rightarrow> unit parse" where
  "ensure_progress before p =
     (if ps_pos p = before then do { (_, p) \<leftarrow> advance p; Some ((), p) } else Some ((), p))"

text \<open>The loop of a braced list: \<open>one\<close> parses an element or answers \<open>None\<close>, \<open>sync\<close> recovers.\<close>

definition braced_list :: "'a option parse \<Rightarrow> unit parse \<Rightarrow> 'a list parse" where
  "braced_list one sync p = loop (turns p) (\<lambda>xs p.
     if \<not> at p (Punct TOK_RBRACE) \<and> \<not> at p (Special TOK_EOF) then do {
       let before = ps_pos p;
       (x, p) \<leftarrow> one p;
       (xs, p) \<leftarrow> (case x of
           Some x \<Rightarrow> Some (xs @ [x], p)
         | None \<Rightarrow> do { (_, p) \<leftarrow> sync p; Some (xs, p) });
       (_, p) \<leftarrow> ensure_progress before p;
       Some (Inl xs, p) }
     else Some (Inr xs, p)) [] p"

definition parse_block :: "stmt option parse \<Rightarrow> block parse" where
  "parse_block ps p =
     (let pos = here p in do {
      (ok, p) \<leftarrow> expect (Punct TOK_LBRACE) p;
      if \<not> ok then Some (Block [] pos, p)
      else do {
        (stmts, p) \<leftarrow> braced_list ps sync_stmt p;
        (_, p) \<leftarrow> expect (Punct TOK_RBRACE) p;
        Some (Block stmts pos, p) } })"

definition parse_block_stmt :: "stmt option parse \<Rightarrow> stmt option parse" where
  "parse_block_stmt ps p =
     (let pos = here p in do {
      (b, p) \<leftarrow> parse_block ps p;
      Some (Some (STMT_BLOCK pos b), p) })"

text \<open>The initializer of a declaration, NULL when there is none.\<close>

definition parse_init :: "expr option parse" where
  "parse_init p = do {
     (eq, p) \<leftarrow> accept (Punct TOK_EQ) p;
     if eq then parse_expr p else Some (None, p) }"

definition parse_var_decl :: "stmt option parse" where
  "parse_var_decl p =
     (let pos = here p in do {
      (_, p) \<leftarrow> advance p;
      (is_mut, p) \<leftarrow> accept (Keyword TOK_KW_MUT) p;
      (ty, p) \<leftarrow> parse_type p;
      case ty of None \<Rightarrow> Some (None, p)
      | Some ty \<Rightarrow> do {
          (name, p) \<leftarrow> expect_ident p;
          case name of None \<Rightarrow> Some (None, p)
          | Some name \<Rightarrow> do {
              (init, p) \<leftarrow> parse_init p;
              (_, p) \<leftarrow> expect (Punct TOK_SEMI) p;
              Some (Some (STMT_VAR pos is_mut ty name init), p) } } })"

fun parse_if_n :: "nat \<Rightarrow> stmt option parse \<Rightarrow> stmt option parse" where
  "parse_if_n 0 ps p = None"
| "parse_if_n (Suc n) ps p =
     (let pos = here p in do {
      (_, p) \<leftarrow> advance p;
      (cond, p) \<leftarrow> parse_expr p;
      (then_block, p) \<leftarrow> parse_block ps p;
      (els, p) \<leftarrow> accept (Keyword TOK_KW_ELSE) p;
      (else_stmt, p) \<leftarrow>
        (if \<not> els then Some (None, p)
         else if at p (Keyword TOK_KW_IF) then parse_if_n n ps p
         else if at p (Punct TOK_LBRACE) then parse_block_stmt ps p
         else do {
           (_, p) \<leftarrow> error_unexpected
             ([CHR 0x27] @ ''{'' @ [CHR 0x27] @ '' or '' @ [CHR 0x27] @ ''if'' @ [CHR 0x27] @ '' after ''
               @ [CHR 0x27] @ ''else'' @ [CHR 0x27]) p;
           Some (None, p) });
      Some (Some (STMT_IF pos cond then_block else_stmt), p) })"

definition parse_if :: "stmt option parse \<Rightarrow> stmt option parse" where
  "parse_if ps p = parse_if_n (turns p) ps p"

definition parse_while :: "stmt option parse \<Rightarrow> stmt option parse" where
  "parse_while ps p =
     (let pos = here p in do {
      (_, p) \<leftarrow> advance p;
      (cond, p) \<leftarrow> parse_expr p;
      (body, p) \<leftarrow> parse_block ps p;
      Some (Some (STMT_WHILE pos cond body), p) })"

definition parse_match_label :: "match_label option parse" where
  "parse_match_label p =
     (let pos = here p in
      if at p (Special TOK_IDENT) then do {
        (t, p) \<leftarrow> advance p;
        if strview_eq (tok_view t) ''_'' then Some (Some (MatchLabel pos True None), p)
        else Some (Some (MatchLabel pos False (Some (expr_new pos (EXPR_NAME (tok_view t))))), p) }
      else if at p (Special TOK_INT) \<or> at p (Special TOK_CHAR) then do {
        let is_int = at p (Special TOK_INT);
        (t, p) \<leftarrow> advance p;
        Some (Some (MatchLabel pos False
          (Some (expr_new pos (if is_int then EXPR_INT (tok_ival t) else EXPR_CHAR (tok_ival t))))), p) }
      else do {
        (_, p) \<leftarrow> error_unexpected
          (''a match label (integer, character, name or '' @ [CHR 0x27] @ ''_'' @ [CHR 0x27] @ '')'') p;
        Some (None, p) })"

definition parse_match_labels :: "match_label list option parse" where
  "parse_match_labels p = loop (turns p) (\<lambda>labels p. do {
     (label, p) \<leftarrow> parse_match_label p;
     case label of None \<Rightarrow> Some (Inr None, p)
     | Some label \<Rightarrow> do {
         (comma, p) \<leftarrow> accept (Punct TOK_COMMA) p;
         if comma then Some (Inl (labels @ [label]), p) else Some (Inr (Some (labels @ [label])), p) } }) [] p"

definition parse_match_arm :: "stmt option parse \<Rightarrow> match_arm option parse" where
  "parse_match_arm ps p =
     (let pos = here p in do {
      (labels, p) \<leftarrow> parse_match_labels p;
      case labels of None \<Rightarrow> Some (None, p)
      | Some labels \<Rightarrow> do {
          (ok, p) \<leftarrow> expect (Punct TOK_FAT_ARROW) p;
          if \<not> ok then Some (None, p)
          else do {
            (body, p) \<leftarrow> ps p;
            Some (map_option (MatchArm pos labels) body, p) } } })"

definition parse_match :: "stmt option parse \<Rightarrow> stmt option parse" where
  "parse_match ps p =
     (let pos = here p in do {
      (_, p) \<leftarrow> advance p;
      (scrutinee, p) \<leftarrow> parse_expr p;
      (ok, p) \<leftarrow> expect (Punct TOK_LBRACE) p;
      if \<not> ok then Some (Some (STMT_MATCH pos scrutinee []), p)
      else do {
        (arms, p) \<leftarrow> braced_list (parse_match_arm ps) sync_stmt p;
        (_, p) \<leftarrow> expect (Punct TOK_RBRACE) p;
        Some (Some (STMT_MATCH pos scrutinee arms), p) } })"

definition parse_return :: "stmt option parse" where
  "parse_return p =
     (let pos = here p in do {
      (_, p) \<leftarrow> advance p;
      (v, p) \<leftarrow> (if \<not> at p (Punct TOK_SEMI) then parse_expr p else Some (None, p));
      (_, p) \<leftarrow> expect (Punct TOK_SEMI) p;
      Some (Some (STMT_RETURN pos v), p) })"

definition parse_expr_stmt :: "stmt option parse" where
  "parse_expr_stmt p =
     (let pos = here p in do {
      (e, p) \<leftarrow> parse_expr p;
      case e of None \<Rightarrow> Some (None, p)
      | Some e \<Rightarrow> do {
          (s, p) \<leftarrow>
            (if is_assign_op (cur p) then
               let pos = here p in do {
               (op, p) \<leftarrow> advance p;
               (v, p) \<leftarrow> parse_expr p;
               Some (STMT_ASSIGN pos e (tk_kind op) v, p) }
             else Some (STMT_EXPR pos e, p));
          (_, p) \<leftarrow> expect (Punct TOK_SEMI) p;
          Some (Some s, p) } })"

text \<open>\<open>break;\<close> and \<open>continue;\<close>.\<close>

definition parse_jump :: "(srcpos \<Rightarrow> stmt) \<Rightarrow> stmt option parse" where
  "parse_jump mk p =
     (let pos = here p in do {
      (_, p) \<leftarrow> advance p;
      (_, p) \<leftarrow> expect (Punct TOK_SEMI) p;
      Some (Some (mk pos), p) })"

definition parse_stmt_body :: "stmt option parse \<Rightarrow> stmt option parse" where
  "parse_stmt_body ps p =
     (case cur p of
        Punct TOK_LBRACE \<Rightarrow> parse_block_stmt ps p
      | Keyword TOK_KW_LET \<Rightarrow> parse_var_decl p
      | Keyword TOK_KW_IF \<Rightarrow> parse_if ps p
      | Keyword TOK_KW_WHILE \<Rightarrow> parse_while ps p
      | Keyword TOK_KW_MATCH \<Rightarrow> parse_match ps p
      | Keyword TOK_KW_RETURN \<Rightarrow> parse_return p
      | Keyword TOK_KW_BREAK \<Rightarrow> parse_jump STMT_BREAK p
      | Keyword TOK_KW_CONTINUE \<Rightarrow> parse_jump STMT_CONTINUE p
      | Punct TOK_SEMI \<Rightarrow> (let pos = here p in do { (_, p) \<leftarrow> advance p; Some (Some (STMT_EMPTY pos), p) })
      | _ \<Rightarrow> parse_expr_stmt p)"

fun parse_stmt_n :: "nat \<Rightarrow> stmt option parse" where
  "parse_stmt_n 0 p = None"
| "parse_stmt_n (Suc n) p =
     (if ps_depth p \<ge> MAX_NESTING then Some (None, p_error (here p) ''statement nests too deeply'' p)
      else do {
        (s, p) \<leftarrow> parse_stmt_body (parse_stmt_n n) (p\<lparr>ps_depth := ps_depth p + 1\<rparr>);
        Some (s, p\<lparr>ps_depth := ps_depth p - 1\<rparr>) })"

definition parse_stmt :: "stmt option parse" where
  "parse_stmt p = parse_stmt_n (Suc MAX_NESTING - ps_depth p) p"

section \<open>Items\<close>

text \<open>
  The parameter loop of \<open>parse_fn_decl\<close>, past the opening parenthesis: the parameters and whether a
  \<open>...\<close> was accepted, or \<open>None\<close> where the C code gives up.
\<close>

definition parse_params :: "bool \<Rightarrow> (param list \<times> bool) option parse" where
  "parse_params is_extern p =
     (if at p (Punct TOK_RPAREN) then Some (Some ([], False), p)
      else loop (turns p) (\<lambda>params p.
        if at p (Punct TOK_ELLIPSIS) then
          let pos = here p in do {
          (_, p) \<leftarrow> advance p;
          if is_extern then Some (Inr (Some (params, True)), p)
          else Some (Inr (Some (params, False)),
            p_error pos ([CHR 0x27] @ ''...'' @ [CHR 0x27] @ '' is only allowed in an extern declaration'') p) }
        else
          let pos = here p in do {
          (is_mut, p) \<leftarrow> accept (Keyword TOK_KW_MUT) p;
          (ty, p) \<leftarrow> parse_type p;
          case ty of None \<Rightarrow> Some (Inr None, p)
          | Some ty \<Rightarrow> do {
              (name, p) \<leftarrow> expect_ident p;
              case name of None \<Rightarrow> Some (Inr None, p)
              | Some name \<Rightarrow> do {
                  let params = params @ [\<lparr>pr_pos = pos, pr_is_mut = is_mut, pr_type = ty, pr_name = name\<rparr>];
                  (comma, p) \<leftarrow> accept (Punct TOK_COMMA) p;
                  if comma then Some (Inl params, p) else Some (Inr (Some (params, False)), p) } } }) [] p)"

text \<open>A missing result type is a synthesized \<open>void\<close> at the declaration's position.\<close>

definition parse_ret :: "srcpos \<Rightarrow> ast_type option parse" where
  "parse_ret pos p = do {
     (arrow, p) \<leftarrow> accept (Punct TOK_ARROW) p;
     if arrow then parse_type p else Some (Some (TYPE_CORE pos (Keyword TOK_KW_VOID)), p) }"

definition parse_fn_decl :: "bool \<Rightarrow> fn_decl option parse" where
  "parse_fn_decl is_extern p =
     (let pos = here p in do {
      (ok, p) \<leftarrow> expect (Keyword TOK_KW_FN) p;
      if \<not> ok then Some (None, p) else do {
      (name, p) \<leftarrow> expect_ident p;
      case name of None \<Rightarrow> Some (None, p) | Some name \<Rightarrow> do {
      (ok, p) \<leftarrow> expect (Punct TOK_LPAREN) p;
      if \<not> ok then Some (None, p) else do {
      (params, p) \<leftarrow> parse_params is_extern p;
      case params of None \<Rightarrow> Some (None, p) | Some (params, is_variadic) \<Rightarrow> do {
      (ok, p) \<leftarrow> expect (Punct TOK_RPAREN) p;
      if \<not> ok then Some (None, p) else do {
      (ret, p) \<leftarrow> parse_ret pos p;
      case ret of None \<Rightarrow> Some (None, p) | Some ret \<Rightarrow>
      (let fn = (\<lambda>body has_body. \<lparr>fn_pos = pos, fn_name = name, fn_params = params,
             fn_is_variadic = is_variadic, fn_ret = ret, fn_body = body, fn_has_body = has_body\<rparr>) in
      if is_extern then do {
        (ok, p) \<leftarrow> expect (Punct TOK_SEMI) p;
        Some (if ok then Some (fn zero_block False) else None, p) }
      else do {
        (body, p) \<leftarrow> parse_block parse_stmt p;
        Some (Some (fn body True), p) }) } } } } } })"

definition parse_field :: "field option parse" where
  "parse_field p =
     (let pos = here p in do {
      (ty, p) \<leftarrow> parse_type p;
      case ty of None \<Rightarrow> Some (None, p)
      | Some ty \<Rightarrow> do {
          (name, p) \<leftarrow> expect_ident p;
          case name of None \<Rightarrow> Some (None, p)
          | Some name \<Rightarrow> do {
              (ok, p) \<leftarrow> expect (Punct TOK_SEMI) p;
              Some (if ok then Some \<lparr>fd_pos = pos, fd_type = ty, fd_name = name\<rparr> else None, p) } } })"

definition parse_struct :: "item option parse" where
  "parse_struct p =
     (let pos = here p in do {
      (_, p) \<leftarrow> advance p;
      (name, p) \<leftarrow> expect_ident p;
      case name of None \<Rightarrow> Some (None, p)
      | Some name \<Rightarrow> do {
          (ok, p) \<leftarrow> expect (Punct TOK_LBRACE) p;
          if \<not> ok then Some (None, p)
          else do {
            (fields, p) \<leftarrow> braced_list parse_field sync_member p;
            (_, p) \<leftarrow> expect (Punct TOK_RBRACE) p;
            Some (Some (ITEM_STRUCT pos name fields), p) } } })"

text \<open>One member after its name was seen: the member, and whether a comma followed it.\<close>

definition parse_member :: "(enum_member \<times> bool) option parse" where
  "parse_member p =
     (let pos = here p in do {
       (name, p) \<leftarrow> expect_ident p;
       case name of
         None \<Rightarrow> do { (_, p) \<leftarrow> sync_member p; Some (None, p) }
       | Some name \<Rightarrow> do {
           (eq, p) \<leftarrow> accept (Punct TOK_EQ) p;
           (v, p) \<leftarrow> (if \<not> eq then Some (None, p)
             else if at p (Special TOK_INT) then do { (t, p) \<leftarrow> advance p; Some (Some (tok_ival t), p) }
             else do { (_, p) \<leftarrow> error_unexpected ''a non-negative integer literal'' p; Some (None, p) });
           let m = \<lparr>em_pos = pos, em_name = name, em_has_value = (v \<noteq> None),
               em_value = (case v of Some v \<Rightarrow> v | None \<Rightarrow> 0)\<rparr>;
           (comma, p) \<leftarrow> accept (Punct TOK_COMMA) p;
           Some (Some (m, comma), p) } })"

text \<open>The loop of \<open>parse_enum\<close>, which a member without a comma after it ends.\<close>

definition parse_members :: "enum_member list parse" where
  "parse_members p = loop (turns p) (\<lambda>ms p.
     if \<not> at p (Punct TOK_RBRACE) \<and> \<not> at p (Special TOK_EOF) then do {
       let before = ps_pos p;
       (r, p) \<leftarrow> parse_member p;
       case r of
         Some (m, False) \<Rightarrow> Some (Inr (ms @ [m]), p)
       | _ \<Rightarrow> do {
           (_, p) \<leftarrow> ensure_progress before p;
           Some (Inl (case r of Some (m, _) \<Rightarrow> ms @ [m] | None \<Rightarrow> ms), p) } }
     else Some (Inr ms, p)) [] p"

definition parse_base :: "token_kind parse" where
  "parse_base p = do {
     (colon, p) \<leftarrow> accept (Punct TOK_COLON) p;
     if \<not> colon then Some (Keyword TOK_KW_I32, p)
     else if token_is_core_type (cur p) then do { (t, p) \<leftarrow> advance p; Some (tk_kind t, p) }
     else do {
       (_, p) \<leftarrow> error_unexpected (''a core type as the enum'' @ [CHR 0x27] @ ''s underlying type'') p;
       Some (Keyword TOK_KW_I32, p) } }"

definition parse_enum :: "item option parse" where
  "parse_enum p =
     (let pos = here p in do {
      (_, p) \<leftarrow> advance p;
      (name, p) \<leftarrow> expect_ident p;
      case name of None \<Rightarrow> Some (None, p)
      | Some name \<Rightarrow> do {
          (base, p) \<leftarrow> parse_base p;
          (ok, p) \<leftarrow> expect (Punct TOK_LBRACE) p;
          if \<not> ok then Some (None, p)
          else do {
            (members, p) \<leftarrow> parse_members p;
            (_, p) \<leftarrow> expect (Punct TOK_RBRACE) p;
            Some (Some (ITEM_ENUM pos name base members), p) } } })"

definition parse_global :: "item option parse" where
  "parse_global p =
     (let pos = here p in do {
      (_, p) \<leftarrow> advance p;
      (is_mut, p) \<leftarrow> accept (Keyword TOK_KW_MUT) p;
      (ty, p) \<leftarrow> parse_type p;
      case ty of None \<Rightarrow> Some (None, p)
      | Some ty \<Rightarrow> do {
          (name, p) \<leftarrow> expect_ident p;
          case name of None \<Rightarrow> Some (None, p)
          | Some name \<Rightarrow> do {
              (eq, p) \<leftarrow> accept (Punct TOK_EQ) p;
              if eq then do {
                (init, p) \<leftarrow> parse_literal p;
                case init of None \<Rightarrow> Some (None, p)
                | Some init \<Rightarrow> do {
                    (_, p) \<leftarrow> expect (Punct TOK_SEMI) p;
                    Some (Some (ITEM_GLOBAL pos is_mut ty name (Some init)), p) } }
              else do {
                (_, p) \<leftarrow> expect (Punct TOK_SEMI) p;
                Some (Some (ITEM_GLOBAL pos is_mut ty name None), p) } } } })"

definition parse_extern :: "item option parse" where
  "parse_extern p =
     (let pos = here p in do {
      (_, p) \<leftarrow> advance p;
      if \<not> at p (Special TOK_STRING) then do {
        (_, p) \<leftarrow> error_unexpected (''an ABI string after '' @ [CHR 0x27] @ ''extern'' @ [CHR 0x27]) p;
        Some (None, p) }
      else do {
        (t, p) \<leftarrow> advance p;
        let abi = intern_string t;
        (ok, p) \<leftarrow> expect (Punct TOK_LBRACE) p;
        if \<not> ok then Some (None, p)
        else do {
          (fns, p) \<leftarrow> braced_list (parse_fn_decl True) sync_member p;
          (_, p) \<leftarrow> expect (Punct TOK_RBRACE) p;
          Some (Some (ITEM_EXTERN pos abi fns), p) } } })"

definition parse_item :: "item option parse" where
  "parse_item p =
     (case cur p of
        Keyword TOK_KW_FN \<Rightarrow> (let pos = here p in do {
          (fn, p) \<leftarrow> parse_fn_decl False p;
          Some (map_option (ITEM_FN pos) fn, p) })
      | Keyword TOK_KW_STRUCT \<Rightarrow> parse_struct p
      | Keyword TOK_KW_ENUM \<Rightarrow> parse_enum p
      | Keyword TOK_KW_LET \<Rightarrow> parse_global p
      | Keyword TOK_KW_EXTERN \<Rightarrow> parse_extern p
      | _ \<Rightarrow> do {
          (_, p) \<leftarrow> error_unexpected
            (''an item ('' @ [CHR 0x27] @ ''fn'' @ [CHR 0x27] @ '', '' @ [CHR 0x27] @ ''struct'' @ [CHR 0x27]
              @ '', '' @ [CHR 0x27] @ ''enum'' @ [CHR 0x27] @ '', '' @ [CHR 0x27] @ ''let'' @ [CHR 0x27]
              @ '' or '' @ [CHR 0x27] @ ''extern'' @ [CHR 0x27] @ '')'') p;
          Some (None, p) })"

section \<open>The driver\<close>

definition parse_items :: "item list parse" where
  "parse_items p = loop (turns p) (\<lambda>items p.
     if \<not> at p (Special TOK_EOF) then do {
       let before = ps_pos p;
       (it, p) \<leftarrow> parse_item p;
       (items, p) \<leftarrow> (case it of
           Some it \<Rightarrow> Some (items @ [it], p)
         | None \<Rightarrow> do { (_, p) \<leftarrow> sync_item p; Some (items, p) });
       (_, p) \<leftarrow> ensure_progress before p;
       Some (Inl items, p) }
     else Some (Inr items, p)) [] p"

text \<open>The program, the number of errors and what the parse printed on stderr.\<close>

definition parse_program :: "token list \<Rightarrow> string \<Rightarrow> (program \<times> nat \<times> string list) option" where
  "parse_program toks file =
     (if toks = [] then Some (\<lparr>pg_file = file, pg_items = []\<rparr>, 0, [])
      else do {
        let p = skip_error_tokens \<lparr>ps_toks = toks, ps_pos = 0, ps_file = file,
          ps_diag = diag_init file, ps_depth = 0\<rparr>;
        (items, p) \<leftarrow> parse_items p;
        Some (\<lparr>pg_file = file, pg_items = items\<rparr>, diag_error_count (ps_diag p), dg_stderr (ps_diag p)) })"

end
