(* ===== verification/Slop_Grammar.thy ===== *)
theory Slop_Grammar
  imports Slop_Ast Slop_Lexer
begin

text \<open>
  The language of GRAMMAR.md (sections 2 to 5), as derivations: which token lists derive which tree.
  The rules are the document's productions, stated with no reference to the parser. Expressions
  are stratified by the precedence table: level 1 is \<open>||\<close>, level 10 is \<open>* / %\<close>, all binary levels
  left-associative, level 11 prefix operators and \<open>sizeof\<close>, level 12 the postfix operators and level 13 primaries. A node's
  position is the one the code gives it: its operator token for a binary or postfix node, its first token otherwise.
  There are no NULL children in a derived tree.
\<close>

definition tok_pos :: "string \<Rightarrow> token \<Rightarrow> srcpos" where
  "tok_pos f t = \<lparr>sp_file = Some f, sp_line = tk_line t, sp_col = tk_col t\<rparr>"

abbreviation is_punct :: "punct \<Rightarrow> token \<Rightarrow> bool" where
  "is_punct k t \<equiv> tk_kind t = Punct k"

abbreviation is_word :: "keyword \<Rightarrow> token \<Rightarrow> bool" where
  "is_word k t \<equiv> tk_kind t = Keyword k"

abbreviation is_special :: "special \<Rightarrow> token \<Rightarrow> bool" where
  "is_special k t \<equiv> tk_kind t = Special k"

definition int_of :: "token \<Rightarrow> u64" where
  "int_of t = (case tk_val t of Ival v \<Rightarrow> v | _ \<Rightarrow> 0)"

definition float_of :: "token \<Rightarrow> u64" where
  "float_of t = (case tk_val t of Fval v \<Rightarrow> v | _ \<Rightarrow> 0)"

definition str_of :: "token \<Rightarrow> string" where
  "str_of t = (case tk_val t of Str s \<Rightarrow> s | _ \<Rightarrow> [])"

section \<open>Types\<close>

inductive g_type :: "string \<Rightarrow> ast_type \<Rightarrow> token list \<Rightarrow> bool" for f where
  core: "token_is_core_type (tk_kind t) \<Longrightarrow> g_type f (TYPE_CORE (tok_pos f t) (tk_kind t)) [t]"
| name: "is_special TOK_IDENT t \<Longrightarrow> g_type f (TYPE_NAME (tok_pos f t) (tk_text t)) [t]"
| pointer: "g_type f T ts \<Longrightarrow> is_punct TOK_STAR s \<Longrightarrow> g_type f (TYPE_POINTER (ty_pos T) T) (ts @ [s])"
| array: "g_type f T ts \<Longrightarrow> is_punct TOK_LBRACKET l \<Longrightarrow> is_special TOK_INT n \<Longrightarrow> is_punct TOK_RBRACKET r \<Longrightarrow>
    g_type f (TYPE_ARRAY (ty_pos T) T (int_of n)) (ts @ [l, n, r])"

section \<open>Expressions\<close>

text \<open>The precedence table, tightest last.\<close>

definition level_ops :: "nat \<Rightarrow> punct list" where
  "level_ops n = (case n of
     Suc 0 \<Rightarrow> [TOK_PIPE_PIPE]
   | Suc (Suc 0) \<Rightarrow> [TOK_AMP_AMP]
   | Suc (Suc (Suc 0)) \<Rightarrow> [TOK_EQ_EQ, TOK_BANG_EQ]
   | Suc (Suc (Suc (Suc 0))) \<Rightarrow> [TOK_LT, TOK_LE, TOK_GT, TOK_GE]
   | Suc (Suc (Suc (Suc (Suc 0)))) \<Rightarrow> [TOK_PIPE]
   | Suc (Suc (Suc (Suc (Suc (Suc 0))))) \<Rightarrow> [TOK_CARET]
   | Suc (Suc (Suc (Suc (Suc (Suc (Suc 0)))))) \<Rightarrow> [TOK_AMP]
   | Suc (Suc (Suc (Suc (Suc (Suc (Suc (Suc 0))))))) \<Rightarrow> [TOK_SHL, TOK_SHR]
   | Suc (Suc (Suc (Suc (Suc (Suc (Suc (Suc (Suc 0)))))))) \<Rightarrow> [TOK_PLUS, TOK_MINUS]
   | Suc (Suc (Suc (Suc (Suc (Suc (Suc (Suc (Suc (Suc 0))))))))) \<Rightarrow> [TOK_STAR, TOK_SLASH, TOK_PERCENT]
   | _ \<Rightarrow> [])"

definition prefix_op :: "punct \<Rightarrow> bool" where
  "prefix_op p \<longleftrightarrow> p \<in> {TOK_MINUS, TOK_BANG, TOK_TILDE, TOK_STAR, TOK_AMP}"

inductive g_expr :: "string \<Rightarrow> nat \<Rightarrow> expr \<Rightarrow> token list \<Rightarrow> bool"
  and g_args :: "string \<Rightarrow> expr option list \<Rightarrow> token list \<Rightarrow> bool" for f where
  up: "g_expr f (Suc n) e ts \<Longrightarrow> g_expr f n e ts"
| binary: "g_expr f n a xs \<Longrightarrow> is_punct op t \<Longrightarrow> op \<in> set (level_ops n) \<Longrightarrow> g_expr f (Suc n) b ys \<Longrightarrow>
    g_expr f n (expr_new (tok_pos f t) (EXPR_BINARY (Punct op) (Some a) (Some b))) (xs @ [t] @ ys)"
| prefix: "is_punct op t \<Longrightarrow> prefix_op op \<Longrightarrow> g_expr f 11 e xs \<Longrightarrow>
    g_expr f 11 (expr_new (tok_pos f t) (EXPR_UNARY (Punct op) (Some e))) ([t] @ xs)"
| sizeof: "is_word TOK_KW_SIZEOF t \<Longrightarrow> is_punct TOK_LPAREN l \<Longrightarrow> g_type f T xs \<Longrightarrow> is_punct TOK_RPAREN r \<Longrightarrow>
    g_expr f 11 (expr_new (tok_pos f t) (EXPR_SIZEOF (Some T))) ([t, l] @ xs @ [r])"
| call0: "g_expr f 12 e xs \<Longrightarrow> is_punct TOK_LPAREN l \<Longrightarrow> is_punct TOK_RPAREN r \<Longrightarrow>
    g_expr f 12 (expr_new (tok_pos f l) (EXPR_CALL (Some e) [])) (xs @ [l, r])"
| call: "g_expr f 12 e xs \<Longrightarrow> is_punct TOK_LPAREN l \<Longrightarrow> g_args f as ys \<Longrightarrow> is_punct TOK_RPAREN r \<Longrightarrow>
    g_expr f 12 (expr_new (tok_pos f l) (EXPR_CALL (Some e) as)) (xs @ [l] @ ys @ [r])"
| index: "g_expr f 12 e xs \<Longrightarrow> is_punct TOK_LBRACKET l \<Longrightarrow> g_expr f 1 i ys \<Longrightarrow> is_punct TOK_RBRACKET r \<Longrightarrow>
    g_expr f 12 (expr_new (tok_pos f l) (EXPR_INDEX (Some e) (Some i))) (xs @ [l] @ ys @ [r])"
| field: "g_expr f 12 e xs \<Longrightarrow> is_punct TOK_DOT d \<Longrightarrow> is_special TOK_IDENT n \<Longrightarrow>
    g_expr f 12 (expr_new (tok_pos f d) (EXPR_FIELD (Some e) (tk_text n))) (xs @ [d, n])"
| cast: "g_expr f 12 e xs \<Longrightarrow> is_punct TOK_DOT d \<Longrightarrow> is_word TOK_KW_AS a \<Longrightarrow> is_punct TOK_LPAREN l \<Longrightarrow>
    g_type f T ys \<Longrightarrow> is_punct TOK_RPAREN r \<Longrightarrow>
    g_expr f 12 (expr_new (tok_pos f d) (EXPR_CAST (Some e) (Some T))) (xs @ [d, a, l] @ ys @ [r])"
| int: "is_special TOK_INT t \<Longrightarrow> g_expr f 13 (expr_new (tok_pos f t) (EXPR_INT (int_of t))) [t]"
| float: "is_special TOK_FLOAT t \<Longrightarrow> g_expr f 13 (expr_new (tok_pos f t) (EXPR_FLOAT (float_of t))) [t]"
| char: "is_special TOK_CHAR t \<Longrightarrow> g_expr f 13 (expr_new (tok_pos f t) (EXPR_CHAR (int_of t))) [t]"
| string: "is_special TOK_STRING t \<Longrightarrow> g_expr f 13 (expr_new (tok_pos f t) (EXPR_STRING (str_of t))) [t]"
| true: "is_word TOK_KW_TRUE t \<Longrightarrow> g_expr f 13 (expr_new (tok_pos f t) (EXPR_BOOL True)) [t]"
| false: "is_word TOK_KW_FALSE t \<Longrightarrow> g_expr f 13 (expr_new (tok_pos f t) (EXPR_BOOL False)) [t]"
| null: "is_word TOK_KW_NULL t \<Longrightarrow> g_expr f 13 (expr_new (tok_pos f t) EXPR_NULL) [t]"
| ident: "is_special TOK_IDENT t \<Longrightarrow> g_expr f 13 (expr_new (tok_pos f t) (EXPR_NAME (tk_text t))) [t]"
| paren: "is_punct TOK_LPAREN l \<Longrightarrow> g_expr f 1 e xs \<Longrightarrow> is_punct TOK_RPAREN r \<Longrightarrow> g_expr f 13 e ([l] @ xs @ [r])"
| one_arg: "g_expr f 1 e xs \<Longrightarrow> g_args f [Some e] xs"
| more_args: "g_args f as xs \<Longrightarrow> is_punct TOK_COMMA c \<Longrightarrow> g_expr f 1 e ys \<Longrightarrow>
    g_args f (as @ [Some e]) (xs @ [c] @ ys)"

text \<open>The literals a global initializer may be.\<close>

definition literal_tok :: "token \<Rightarrow> bool" where
  "literal_tok t \<longleftrightarrow> tk_kind t \<in> {Special TOK_INT, Special TOK_FLOAT, Special TOK_CHAR, Special TOK_STRING,
     Keyword TOK_KW_TRUE, Keyword TOK_KW_FALSE, Keyword TOK_KW_NULL}"

definition g_literal :: "string \<Rightarrow> expr \<Rightarrow> token list \<Rightarrow> bool" where
  "g_literal f e ts \<longleftrightarrow> (\<exists>t. ts = [t] \<and> literal_tok t) \<and> g_expr f 13 e ts"

section \<open>Statements\<close>

inductive g_label :: "string \<Rightarrow> match_label \<Rightarrow> token list \<Rightarrow> bool" for f where
  wildcard: "is_special TOK_IDENT t \<Longrightarrow> tk_text t = ''_'' \<Longrightarrow> g_label f (MatchLabel (tok_pos f t) True None) [t]"
| name: "is_special TOK_IDENT t \<Longrightarrow> tk_text t \<noteq> ''_'' \<Longrightarrow>
    g_label f (MatchLabel (tok_pos f t) False (Some (expr_new (tok_pos f t) (EXPR_NAME (tk_text t))))) [t]"
| int: "is_special TOK_INT t \<Longrightarrow>
    g_label f (MatchLabel (tok_pos f t) False (Some (expr_new (tok_pos f t) (EXPR_INT (int_of t))))) [t]"
| char: "is_special TOK_CHAR t \<Longrightarrow>
    g_label f (MatchLabel (tok_pos f t) False (Some (expr_new (tok_pos f t) (EXPR_CHAR (int_of t))))) [t]"

inductive g_labels :: "string \<Rightarrow> match_label list \<Rightarrow> token list \<Rightarrow> bool" for f where
  one: "g_label f l xs \<Longrightarrow> g_labels f [l] xs"
| more: "g_labels f ls xs \<Longrightarrow> is_punct TOK_COMMA c \<Longrightarrow> g_label f l ys \<Longrightarrow> g_labels f (ls @ [l]) (xs @ [c] @ ys)"

definition assign_op :: "token_kind \<Rightarrow> bool" where
  "assign_op k \<longleftrightarrow> k \<in> Punct ` {TOK_EQ, TOK_PLUS_EQ, TOK_MINUS_EQ, TOK_STAR_EQ, TOK_SLASH_EQ, TOK_PERCENT_EQ,
     TOK_AMP_EQ, TOK_PIPE_EQ, TOK_CARET_EQ, TOK_SHL_EQ, TOK_SHR_EQ}"

inductive g_mut :: "bool \<Rightarrow> token list \<Rightarrow> bool" where
  "g_mut False []"
| "is_word TOK_KW_MUT t \<Longrightarrow> g_mut True [t]"

inductive g_init :: "string \<Rightarrow> expr option \<Rightarrow> token list \<Rightarrow> bool" for f where
  "g_init f None []"
| "is_punct TOK_EQ t \<Longrightarrow> g_expr f 1 e ts \<Longrightarrow> g_init f (Some e) ([t] @ ts)"

inductive g_stmt :: "string \<Rightarrow> stmt \<Rightarrow> token list \<Rightarrow> bool"
  and g_block :: "string \<Rightarrow> block \<Rightarrow> token list \<Rightarrow> bool"
  and g_stmts :: "string \<Rightarrow> stmt list \<Rightarrow> token list \<Rightarrow> bool"
  and g_if :: "string \<Rightarrow> stmt \<Rightarrow> token list \<Rightarrow> bool"
  and g_arm :: "string \<Rightarrow> match_arm \<Rightarrow> token list \<Rightarrow> bool"
  and g_arms :: "string \<Rightarrow> match_arm list \<Rightarrow> token list \<Rightarrow> bool" for f where
  block: "g_block f b ts \<Longrightarrow> g_stmt f (STMT_BLOCK (b_pos b) b) ts"
| var: "is_word TOK_KW_LET l \<Longrightarrow> g_mut m xs \<Longrightarrow> g_type f T ys \<Longrightarrow> is_special TOK_IDENT n \<Longrightarrow>
    g_init f i zs \<Longrightarrow> is_punct TOK_SEMI s \<Longrightarrow>
    g_stmt f (STMT_VAR (tok_pos f l) m T (tk_text n) i) ([l] @ xs @ ys @ [n] @ zs @ [s])"
| if_stmt: "g_if f s ts \<Longrightarrow> g_stmt f s ts"
| while_stmt: "is_word TOK_KW_WHILE w \<Longrightarrow> g_expr f 1 c xs \<Longrightarrow> g_block f b ys \<Longrightarrow>
    g_stmt f (STMT_WHILE (tok_pos f w) (Some c) b) ([w] @ xs @ ys)"
| match: "is_word TOK_KW_MATCH m \<Longrightarrow> g_expr f 1 e xs \<Longrightarrow> is_punct TOK_LBRACE l \<Longrightarrow> g_arms f as ys \<Longrightarrow>
    is_punct TOK_RBRACE r \<Longrightarrow> g_stmt f (STMT_MATCH (tok_pos f m) (Some e) as) ([m] @ xs @ [l] @ ys @ [r])"
| return0: "is_word TOK_KW_RETURN t \<Longrightarrow> is_punct TOK_SEMI s \<Longrightarrow>
    g_stmt f (STMT_RETURN (tok_pos f t) None) [t, s]"
| return: "is_word TOK_KW_RETURN t \<Longrightarrow> g_expr f 1 e xs \<Longrightarrow> is_punct TOK_SEMI s \<Longrightarrow>
    g_stmt f (STMT_RETURN (tok_pos f t) (Some e)) ([t] @ xs @ [s])"
| break_stmt: "is_word TOK_KW_BREAK t \<Longrightarrow> is_punct TOK_SEMI s \<Longrightarrow> g_stmt f (STMT_BREAK (tok_pos f t)) [t, s]"
| continue_stmt: "is_word TOK_KW_CONTINUE t \<Longrightarrow> is_punct TOK_SEMI s \<Longrightarrow> g_stmt f (STMT_CONTINUE (tok_pos f t)) [t, s]"
| empty: "is_punct TOK_SEMI s \<Longrightarrow> g_stmt f (STMT_EMPTY (tok_pos f s)) [s]"
| expr: "g_expr f 1 e ([t] @ xs) \<Longrightarrow> is_punct TOK_SEMI s \<Longrightarrow> g_stmt f (STMT_EXPR (tok_pos f t) e) ([t] @ xs @ [s])"
| assign: "g_expr f 1 e xs \<Longrightarrow> assign_op (tk_kind op) \<Longrightarrow> g_expr f 1 v ys \<Longrightarrow> is_punct TOK_SEMI s \<Longrightarrow>
    g_stmt f (STMT_ASSIGN (tok_pos f op) e (tk_kind op) (Some v)) (xs @ [op] @ ys @ [s])"
| braces: "is_punct TOK_LBRACE l \<Longrightarrow> g_stmts f ss xs \<Longrightarrow> is_punct TOK_RBRACE r \<Longrightarrow>
    g_block f (Block ss (tok_pos f l)) ([l] @ xs @ [r])"
| no_stmt: "g_stmts f [] []"
| more_stmts: "g_stmts f ss xs \<Longrightarrow> g_stmt f s ys \<Longrightarrow> g_stmts f (ss @ [s]) (xs @ ys)"
| if_only: "is_word TOK_KW_IF i \<Longrightarrow> g_expr f 1 c xs \<Longrightarrow> g_block f b ys \<Longrightarrow>
    g_if f (STMT_IF (tok_pos f i) (Some c) b None) ([i] @ xs @ ys)"
| if_else: "is_word TOK_KW_IF i \<Longrightarrow> g_expr f 1 c xs \<Longrightarrow> g_block f b ys \<Longrightarrow> is_word TOK_KW_ELSE e \<Longrightarrow> g_block f b' zs \<Longrightarrow>
    g_if f (STMT_IF (tok_pos f i) (Some c) b (Some (STMT_BLOCK (b_pos b') b'))) ([i] @ xs @ ys @ [e] @ zs)"
| else_if: "is_word TOK_KW_IF i \<Longrightarrow> g_expr f 1 c xs \<Longrightarrow> g_block f b ys \<Longrightarrow> is_word TOK_KW_ELSE e \<Longrightarrow> g_if f s zs \<Longrightarrow>
    g_if f (STMT_IF (tok_pos f i) (Some c) b (Some s)) ([i] @ xs @ ys @ [e] @ zs)"
| arm: "g_labels f ls xs \<Longrightarrow> is_punct TOK_FAT_ARROW a \<Longrightarrow> g_stmt f s ys \<Longrightarrow>
    g_arm f (MatchArm (tok_pos f (hd xs)) ls s) (xs @ [a] @ ys)"
| no_arm: "g_arms f [] []"
| more_arms: "g_arms f as xs \<Longrightarrow> g_arm f a ys \<Longrightarrow> g_arms f (as @ [a]) (xs @ ys)"

section \<open>Items\<close>

inductive g_param :: "string \<Rightarrow> param \<Rightarrow> token list \<Rightarrow> bool" for f where
  "g_mut m xs \<Longrightarrow> g_type f T ys \<Longrightarrow> is_special TOK_IDENT n \<Longrightarrow> ts = xs @ ys @ [n] \<Longrightarrow>
   g_param f \<lparr>pr_pos = tok_pos f (hd ts), pr_is_mut = m, pr_type = T, pr_name = tk_text n\<rparr> ts"

text \<open>Parameters, each one followed by its comma.\<close>

inductive g_params_c :: "string \<Rightarrow> param list \<Rightarrow> token list \<Rightarrow> bool" for f where
  none: "g_params_c f [] []"
| more: "g_params_c f ps xs \<Longrightarrow> g_param f p ys \<Longrightarrow> is_punct TOK_COMMA c \<Longrightarrow> g_params_c f (ps @ [p]) (xs @ ys @ [c])"

text \<open>A whole list: empty, ending in a parameter, or (extern only) ending in \<open>...\<close>.\<close>

inductive g_params :: "string \<Rightarrow> bool \<Rightarrow> param list \<Rightarrow> bool \<Rightarrow> token list \<Rightarrow> bool" for f x where
  none: "g_params f x [] False []"
| last: "g_params_c f ps xs \<Longrightarrow> g_param f p ys \<Longrightarrow> g_params f x (ps @ [p]) False (xs @ ys)"
| dots: "x \<Longrightarrow> g_params_c f ps xs \<Longrightarrow> is_punct TOK_ELLIPSIS d \<Longrightarrow> g_params f x ps True (xs @ [d])"

inductive g_ret :: "string \<Rightarrow> srcpos \<Rightarrow> ast_type \<Rightarrow> token list \<Rightarrow> bool" for f p where
  void: "g_ret f p (TYPE_CORE p (Keyword TOK_KW_VOID)) []"
| arrow: "is_punct TOK_ARROW a \<Longrightarrow> g_type f T ts \<Longrightarrow> g_ret f p T ([a] @ ts)"

inductive g_fn :: "string \<Rightarrow> bool \<Rightarrow> fn_decl \<Rightarrow> token list \<Rightarrow> bool" for f where
  body: "is_word TOK_KW_FN k \<Longrightarrow> is_special TOK_IDENT n \<Longrightarrow> is_punct TOK_LPAREN l \<Longrightarrow> g_params f False ps v xs \<Longrightarrow>
    is_punct TOK_RPAREN r \<Longrightarrow> g_ret f (tok_pos f k) T ys \<Longrightarrow> g_block f b zs \<Longrightarrow>
    g_fn f False \<lparr>fn_pos = tok_pos f k, fn_name = tk_text n, fn_params = ps, fn_is_variadic = v, fn_ret = T,
      fn_body = b, fn_has_body = True\<rparr> ([k, n, l] @ xs @ [r] @ ys @ zs)"
| extern: "is_word TOK_KW_FN k \<Longrightarrow> is_special TOK_IDENT n \<Longrightarrow> is_punct TOK_LPAREN l \<Longrightarrow> g_params f True ps v xs \<Longrightarrow>
    is_punct TOK_RPAREN r \<Longrightarrow> g_ret f (tok_pos f k) T ys \<Longrightarrow> is_punct TOK_SEMI s \<Longrightarrow>
    g_fn f True \<lparr>fn_pos = tok_pos f k, fn_name = tk_text n, fn_params = ps, fn_is_variadic = v, fn_ret = T,
      fn_body = zero_block, fn_has_body = False\<rparr> ([k, n, l] @ xs @ [r] @ ys @ [s])"

inductive g_field :: "string \<Rightarrow> field \<Rightarrow> token list \<Rightarrow> bool" for f where
  "g_type f T xs \<Longrightarrow> is_special TOK_IDENT n \<Longrightarrow> is_punct TOK_SEMI s \<Longrightarrow>
   g_field f \<lparr>fd_pos = ty_pos T, fd_type = T, fd_name = tk_text n\<rparr> (xs @ [n, s])"

inductive g_member :: "string \<Rightarrow> enum_member \<Rightarrow> token list \<Rightarrow> bool" for f where
  implicit: "is_special TOK_IDENT n \<Longrightarrow>
    g_member f \<lparr>em_pos = tok_pos f n, em_name = tk_text n, em_has_value = False, em_value = 0\<rparr> [n]"
| explicit: "is_special TOK_IDENT n \<Longrightarrow> is_punct TOK_EQ e \<Longrightarrow> is_special TOK_INT i \<Longrightarrow>
    g_member f \<lparr>em_pos = tok_pos f n, em_name = tk_text n, em_has_value = True, em_value = int_of i\<rparr> [n, e, i]"

inductive g_members_c :: "string \<Rightarrow> enum_member list \<Rightarrow> token list \<Rightarrow> bool" for f where
  none: "g_members_c f [] []"
| more: "g_members_c f ms xs \<Longrightarrow> g_member f m ys \<Longrightarrow> is_punct TOK_COMMA c \<Longrightarrow> g_members_c f (ms @ [m]) (xs @ ys @ [c])"

text \<open>The comma after the last member is optional.\<close>

inductive g_members :: "string \<Rightarrow> enum_member list \<Rightarrow> token list \<Rightarrow> bool" for f where
  trailing: "g_members_c f ms xs \<Longrightarrow> g_members f ms xs"
| last: "g_members_c f ms xs \<Longrightarrow> g_member f m ys \<Longrightarrow> g_members f (ms @ [m]) (xs @ ys)"

inductive g_base :: "token_kind \<Rightarrow> token list \<Rightarrow> bool" where
  default_base: "g_base (Keyword TOK_KW_I32) []"
| given: "is_punct TOK_COLON c \<Longrightarrow> token_is_core_type (tk_kind t) \<Longrightarrow> g_base (tk_kind t) [c, t]"

text \<open>A sequence of \<open>G\<close>s.\<close>

inductive g_many :: "('a \<Rightarrow> token list \<Rightarrow> bool) \<Rightarrow> 'a list \<Rightarrow> token list \<Rightarrow> bool" for G where
  none: "g_many G [] []"
| more: "g_many G as xs \<Longrightarrow> G a ys \<Longrightarrow> g_many G (as @ [a]) (xs @ ys)"

inductive g_ginit :: "string \<Rightarrow> expr option \<Rightarrow> token list \<Rightarrow> bool" for f where
  none: "g_ginit f None []"
| some: "is_punct TOK_EQ t \<Longrightarrow> g_literal f e ts \<Longrightarrow> g_ginit f (Some e) ([t] @ ts)"

inductive g_item :: "string \<Rightarrow> item \<Rightarrow> token list \<Rightarrow> bool" for f where
  fn: "g_fn f False d ts \<Longrightarrow> g_item f (ITEM_FN (fn_pos d) d) ts"
| struct: "is_word TOK_KW_STRUCT k \<Longrightarrow> is_special TOK_IDENT n \<Longrightarrow> is_punct TOK_LBRACE l \<Longrightarrow>
    g_many (g_field f) fs xs \<Longrightarrow> is_punct TOK_RBRACE r \<Longrightarrow>
    g_item f (ITEM_STRUCT (tok_pos f k) (tk_text n) fs) ([k, n, l] @ xs @ [r])"
| enum: "is_word TOK_KW_ENUM k \<Longrightarrow> is_special TOK_IDENT n \<Longrightarrow> g_base b ys \<Longrightarrow> is_punct TOK_LBRACE l \<Longrightarrow>
    g_members f ms xs \<Longrightarrow> is_punct TOK_RBRACE r \<Longrightarrow>
    g_item f (ITEM_ENUM (tok_pos f k) (tk_text n) b ms) ([k, n] @ ys @ [l] @ xs @ [r])"
| global: "is_word TOK_KW_LET k \<Longrightarrow> g_mut m xs \<Longrightarrow> g_type f T ys \<Longrightarrow> is_special TOK_IDENT n \<Longrightarrow> g_ginit f i zs \<Longrightarrow>
    is_punct TOK_SEMI s \<Longrightarrow> g_item f (ITEM_GLOBAL (tok_pos f k) m T (tk_text n) i) ([k] @ xs @ ys @ [n] @ zs @ [s])"
| extern: "is_word TOK_KW_EXTERN k \<Longrightarrow> is_special TOK_STRING a \<Longrightarrow> is_punct TOK_LBRACE l \<Longrightarrow>
    g_many (g_fn f True) ds xs \<Longrightarrow> is_punct TOK_RBRACE r \<Longrightarrow>
    g_item f (ITEM_EXTERN (tok_pos f k) (str_of a) ds) ([k, a, l] @ xs @ [r])"

definition g_program :: "string \<Rightarrow> program \<Rightarrow> token list \<Rightarrow> bool" where
  "g_program f prog ts \<longleftrightarrow> pg_file prog = f \<and> g_many (g_item f) (pg_items prog) ts"

lemma g_expr_up: "g_expr f n e ts \<Longrightarrow> m \<le> n \<Longrightarrow> g_expr f m e ts"
proof (induction n)
  case (Suc n)
  then show ?case by (cases "m = Suc n") (auto intro: g_expr_g_args.up)
qed simp

lemma g_type_nonempty: "g_type f T ts \<Longrightarrow> ts \<noteq> []"
  by (induction rule: g_type.induct) auto

text \<open>A type's node position is its first token's.\<close>

lemma g_type_pos: "g_type f T ts \<Longrightarrow> ty_pos T = tok_pos f (hd ts)"
  by (induction rule: g_type.induct) (auto dest: g_type_nonempty)

lemma g_expr_nonempty:
  "g_expr f n e ts \<Longrightarrow> ts \<noteq> []" "g_args f as ts \<Longrightarrow> ts \<noteq> []"
  by (induction rule: g_expr_g_args.inducts) auto

section \<open>What a derivation says of its tree and its tokens\<close>

lemma g_expr_complete:
  "g_expr f n e ts \<Longrightarrow> complete_expr e"
  "g_args f as ts \<Longrightarrow> list_all (\<lambda>a. case a of Some a \<Rightarrow> complete_expr a | None \<Rightarrow> False) as"
  by (induction rule: g_expr_g_args.inducts) (auto simp: expr_new_def)

lemma g_literal_complete: "g_literal f e ts \<Longrightarrow> complete_expr e"
  by (auto simp: g_literal_def dest: g_expr_complete(1))

lemma g_init_complete: "g_init f i ts \<Longrightarrow> complete_opt i" "g_ginit f i ts \<Longrightarrow> complete_opt i"
  by (auto simp: complete_opt_def elim!: g_init.cases g_ginit.cases dest: g_expr_complete(1) g_literal_complete)

lemma g_label_complete: "g_label f l ts \<Longrightarrow> complete_label l"
  by (auto simp: complete_child_def expr_new_def elim!: g_label.cases)

lemma g_labels_complete: "g_labels f ls ts \<Longrightarrow> ls \<noteq> [] \<and> list_all complete_label ls"
  by (induction rule: g_labels.induct) (auto dest: g_label_complete)

lemma g_stmt_complete:
  "g_stmt f s ts \<Longrightarrow> complete_stmt s" "g_block f b ts \<Longrightarrow> complete_block b" "g_stmts f ss ts \<Longrightarrow> list_all complete_stmt ss"
  "g_if f s ts \<Longrightarrow> complete_stmt s" "g_arm f a ts \<Longrightarrow> complete_arm a" "g_arms f as ts \<Longrightarrow> list_all complete_arm as"
  by (induction rule: g_stmt_g_block_g_stmts_g_if_g_arm_g_arms.inducts)
    (auto simp: complete_child_def complete_opt_def dest: g_expr_complete(1) g_init_complete(1) g_labels_complete split: option.splits)

lemma g_many_all: "g_many G xs ts \<Longrightarrow> (\<And>x ts. G x ts \<Longrightarrow> P x) \<Longrightarrow> list_all P xs"
  by (induction rule: g_many.induct) auto

lemma g_item_complete: "g_item f i ts \<Longrightarrow> complete_item i"
  by (auto elim!: g_item.cases g_fn.cases dest: g_stmt_complete(2) g_init_complete(2)
      intro!: g_many_all [where G = "g_fn f True"])

lemma g_program_complete: "g_program f prog ts \<Longrightarrow> list_all complete_item (pg_items prog)"
  unfolding g_program_def by (blast intro: g_many_all g_item_complete)

text \<open>No error token takes part in a derivation.\<close>

abbreviation no_error :: "token list \<Rightarrow> bool" where
  "no_error ts \<equiv> list_all (\<lambda>t. tk_kind t \<noteq> Special TOK_ERROR) ts"

lemma core_type_kind: "token_is_core_type k \<Longrightarrow> k \<noteq> Special s"
  by (auto simp: token_is_core_type_iff)

lemma g_type_no_error: "g_type f T ts \<Longrightarrow> no_error ts"
  by (induction rule: g_type.induct) (auto dest: core_type_kind)

lemma g_expr_no_error: "g_expr f n e ts \<Longrightarrow> no_error ts" "g_args f as ts \<Longrightarrow> no_error ts"
  by (induction rule: g_expr_g_args.inducts) (auto dest: g_type_no_error)

lemma g_opt_no_error: "g_mut m ts \<Longrightarrow> no_error ts" "g_init f i ts \<Longrightarrow> no_error ts" "g_ginit f i ts \<Longrightarrow> no_error ts"
  by (auto elim!: g_mut.cases g_init.cases g_ginit.cases dest: g_expr_no_error(1) simp: g_literal_def literal_tok_def)

lemma g_label_no_error: "g_label f l ts \<Longrightarrow> no_error ts"
  by (auto elim!: g_label.cases)

lemma g_labels_no_error: "g_labels f ls ts \<Longrightarrow> no_error ts"
  by (induction rule: g_labels.induct) (auto dest: g_label_no_error)

lemma assign_op_kind: "assign_op k \<Longrightarrow> k \<noteq> Special s"
  by (auto simp: assign_op_def)

lemma g_stmt_no_error:
  "g_stmt f s ts \<Longrightarrow> no_error ts" "g_block f b ts \<Longrightarrow> no_error ts" "g_stmts f ss ts \<Longrightarrow> no_error ts"
  "g_if f s ts \<Longrightarrow> no_error ts" "g_arm f a ts \<Longrightarrow> no_error ts" "g_arms f as ts \<Longrightarrow> no_error ts"
  by (induction rule: g_stmt_g_block_g_stmts_g_if_g_arm_g_arms.inducts)
    (auto dest: g_expr_no_error(1) g_type_no_error g_opt_no_error(1,2) g_labels_no_error assign_op_kind)

lemma g_params_no_error: "g_params f x ps v ts \<Longrightarrow> no_error ts"
proof -
  have p: "g_param f p ts \<Longrightarrow> no_error ts" for p ts
    by (auto elim!: g_param.cases dest: g_type_no_error g_opt_no_error(1))
  have c: "g_params_c f ps ts \<Longrightarrow> no_error ts" for ps ts
    by (induction rule: g_params_c.induct) (auto dest: p)
  show "g_params f x ps v ts \<Longrightarrow> no_error ts" by (auto elim!: g_params.cases dest: p c)
qed

lemma g_fn_no_error: "g_fn f x d ts \<Longrightarrow> no_error ts"
  by (auto elim!: g_fn.cases g_ret.cases dest: g_params_no_error g_type_no_error g_stmt_no_error(2))

lemma g_members_no_error: "g_members f ms ts \<Longrightarrow> no_error ts"
proof -
  have m: "g_member f m ts \<Longrightarrow> no_error ts" for m ts by (auto elim!: g_member.cases)
  have c: "g_members_c f ms ts \<Longrightarrow> no_error ts" for ms ts
    by (induction rule: g_members_c.induct) (auto dest: m)
  show "g_members f ms ts \<Longrightarrow> no_error ts" by (auto elim!: g_members.cases dest: m c)
qed

lemma g_many_no_error: "g_many G xs ts \<Longrightarrow> (\<And>x ts. G x ts \<Longrightarrow> no_error ts) \<Longrightarrow> no_error ts"
  by (induction rule: g_many.induct) auto

lemma g_item_no_error: "g_item f i ts \<Longrightarrow> no_error ts"
proof (induction rule: g_item.induct)
  case (struct k n l fs xs r)
  have "g_field f d ys \<Longrightarrow> no_error ys" for d ys by (auto elim!: g_field.cases dest: g_type_no_error)
  from g_many_no_error [OF struct(4) this] struct show ?case by simp
next
  case (extern k a l ds xs r)
  from g_many_no_error [OF extern(4) g_fn_no_error] extern show ?case by simp
qed (auto elim!: g_base.cases dest: g_fn_no_error g_members_no_error g_type_no_error g_opt_no_error(1,3) core_type_kind)

lemma g_program_no_error: "g_program f prog ts \<Longrightarrow> no_error ts"
  unfolding g_program_def by (blast intro: g_many_no_error g_item_no_error)

end
