(* ===== verification/Slop_Parser_Logic.thy ===== *)
theory Slop_Parser_Logic
  imports Slop_Parser_Decl Slop_Grammar
begin

text \<open>
  The contract every routine of the parser keeps, and the rules that compose it. \<open>parses c G f\<close>
  says of the routine \<open>f\<close>, started in the context \<open>c\<close> (the file and the nesting depth) on a well-formed parser state: it returns; the token
  array, the file and the depth are unchanged; the cursor never moves back and stays on the
  array; the error count never falls; and if it reported no error, the tokens it consumed are in
  the language \<open>G r\<close> of its result \<open>r\<close>. Languages are predicates on token lists, so that an error is the
  empty language and a sequence of calls is concatenation.
\<close>

section \<open>Well-formed states\<close>

definition pwf :: "parser \<Rightarrow> bool" where
  "pwf p \<longleftrightarrow> ps_pos p < length (ps_toks p) \<and> tk_kind (last (ps_toks p)) = Special TOK_EOF \<and> ps_depth p \<le> MAX_NESTING"

definition togo :: "parser \<Rightarrow> nat" where
  "togo p = length (ps_toks p) - ps_pos p"

definition nerr :: "parser \<Rightarrow> nat" where
  "nerr p = diag_error_count (ps_diag p)"

definition later :: "parser \<Rightarrow> parser \<Rightarrow> bool" where
  "later p p' \<longleftrightarrow> ps_toks p' = ps_toks p \<and> ps_file p' = ps_file p \<and> ps_depth p' = ps_depth p
     \<and> ps_pos p \<le> ps_pos p' \<and> ps_pos p' < length (ps_toks p) \<and> nerr p \<le> nerr p'"

definition eaten :: "parser \<Rightarrow> parser \<Rightarrow> token list" where
  "eaten p p' = segment (ps_pos p) (ps_pos p') (ps_toks p)"

lemma turns_togo: "turns p = Suc (togo p)"
  by (simp add: turns_def togo_def)

lemma later_refl: "pwf p \<Longrightarrow> later p p"
  by (simp add: later_def pwf_def)

lemma later_trans: "later p q \<Longrightarrow> later q r \<Longrightarrow> later p r"
  by (auto simp: later_def)

lemma later_togo: "later p p' \<Longrightarrow> togo p' \<le> togo p"
  by (auto simp: later_def togo_def)

lemma later_pwf: "later p p' \<Longrightarrow> pwf p \<Longrightarrow> pwf p'"
  by (auto simp: later_def pwf_def)

section \<open>Languages of tokens\<close>

type_synonym lang = "token list \<Rightarrow> bool"

definition followed_by :: "lang \<Rightarrow> lang \<Rightarrow> lang" where
  "followed_by P G ts \<longleftrightarrow> (\<exists>xs ys. ts = xs @ ys \<and> P xs \<and> G ys)"

definition nothing :: lang where
  "nothing ts \<longleftrightarrow> ts = []"

definition never :: lang where
  "never ts \<longleftrightarrow> False"

definition the_token :: "token \<Rightarrow> lang" where
  "the_token t ts \<longleftrightarrow> ts = [t]"

definition opt_lang :: "('a \<Rightarrow> lang) \<Rightarrow> 'a option \<Rightarrow> lang" where
  "opt_lang G r ts \<longleftrightarrow> (\<exists>x. r = Some x \<and> G x ts)"

lemma followed_by_nothing [simp]: "followed_by nothing G = G"
  by (intro ext) (simp add: followed_by_def nothing_def)

lemma followed_by_nothing_right [simp]: "followed_by P nothing = P"
  by (intro ext) (simp add: followed_by_def nothing_def)

lemma followed_by_never [simp]: "followed_by P never = never" "followed_by never P = never"
  by (intro ext; simp add: followed_by_def never_def)+

lemma followed_by_assoc: "followed_by (followed_by P G) H = followed_by P (followed_by G H)"
  by (intro ext) (auto simp: followed_by_def; metis append.assoc)

lemma opt_lang_None [simp]: "opt_lang G None = never"
  by (intro ext) (simp add: opt_lang_def never_def)

lemma opt_lang_Some [simp]: "opt_lang G (Some x) = G x"
  by (intro ext) (simp add: opt_lang_def)

text \<open>What is known when control is at \<open>p\<close> and the routine was entered at \<open>p0\<close>.\<close>

definition trk :: "parser \<Rightarrow> parser \<Rightarrow> lang \<Rightarrow> bool" where
  "trk p0 p P \<longleftrightarrow> later p0 p \<and> pwf p \<and> (nerr p = nerr p0 \<longrightarrow> P (eaten p0 p))"

definition ctx :: "parser \<Rightarrow> string \<times> nat" where
  "ctx p = (ps_file p, ps_depth p)"

definition parses :: "string \<times> nat \<Rightarrow> ('a \<Rightarrow> lang) \<Rightarrow> 'a parse \<Rightarrow> bool" where
  "parses c G f \<longleftrightarrow> (\<forall>p. pwf p \<longrightarrow> ctx p = c \<longrightarrow> wp (f p) (\<lambda>r p'. trk p p' (G r)))"

lemma trk_start: "pwf p \<Longrightarrow> trk p p nothing"
  by (simp add: trk_def later_refl eaten_def nothing_def)

lemma trk_seq: "trk p0 p P \<Longrightarrow> trk p p' G \<Longrightarrow> trk p0 p' (followed_by P G)"
proof -
  assume a: "trk p0 p P" "trk p p' G"
  then have l: "later p0 p" "later p p'" by (simp_all add: trk_def)
  then have "eaten p0 p' = eaten p0 p @ eaten p p'"
    by (simp add: eaten_def later_def segment_append)
  moreover have "nerr p' = nerr p0 \<Longrightarrow> nerr p = nerr p0 \<and> nerr p' = nerr p"
    using l by (simp add: later_def)
  ultimately show ?thesis
    using a later_trans [OF l] by (auto simp: trk_def followed_by_def)
qed

lemma trk_mono: "trk p0 p P \<Longrightarrow> (\<And>ts. P ts \<Longrightarrow> R ts) \<Longrightarrow> trk p0 p R"
  by (simp add: trk_def)

lemma trk_never: "trk p0 p never \<Longrightarrow> trk p0 p R"
  by (erule trk_mono) (simp add: never_def)

lemma trk_right: "trk p0 p (followed_by P G) \<Longrightarrow> (\<And>ts. G ts \<Longrightarrow> H ts) \<Longrightarrow> trk p0 p (followed_by P H)"
  by (erule trk_mono) (auto simp: followed_by_def)

lemma trk_pwf: "trk p0 p P \<Longrightarrow> pwf p"
  by (simp add: trk_def)

lemma trk_later: "trk p0 p P \<Longrightarrow> later p0 p"
  by (simp add: trk_def)

lemma trk_ctx: "trk p0 p P \<Longrightarrow> ctx p = ctx p0"
  by (simp add: trk_def later_def ctx_def)

text \<open>The position the code takes at a token.\<close>

lemma here_tok_pos: "trk p0 p P \<Longrightarrow> ctx p0 = c \<Longrightarrow> here p = tok_pos (fst c) (cur_tok p)"
  using trk_ctx [of p0 p P] by (auto simp: here_def tok_pos_def ctx_def)

lemma parsesI:
  "(\<And>p. trk p p nothing \<Longrightarrow> ctx p = c \<Longrightarrow> wp (f p) (\<lambda>r p'. trk p p' (G r))) \<Longrightarrow> parses c G f"
  by (simp add: parses_def trk_start)

text \<open>The first token a routine consumes is the one it was entered at.\<close>

lemma trk_hd: "trk p q P \<Longrightarrow> trk p q (\<lambda>ts. P ts \<and> (ts \<noteq> [] \<longrightarrow> hd ts = cur_tok p))"
  by (auto simp: trk_def eaten_def segment_def cur_tok_def pwf_def later_def hd_drop_conv_nth hd_take)

text \<open>The rule for a call, from what is known of it at its own start.\<close>

lemma wp_then:
  assumes "wp (f p) (\<lambda>r p'. trk p p' (G r))" and "trk p0 p P"
    and "\<And>r p'. later p p' \<Longrightarrow> trk p0 p' (followed_by P (G r)) \<Longrightarrow> Q r p'"
  shows "wp (f p) Q"
  using assms(1) by (rule wp_mono) (rule assms(3); simp add: trk_later trk_seq [OF assms(2)])

lemma wp_call:
  assumes "parses c G f" and "trk p0 p P" and "ctx p0 = c"
    and "\<And>r p'. later p p' \<Longrightarrow> trk p0 p' (followed_by P (G r)) \<Longrightarrow> Q r p'"
  shows "wp (f p) Q"
  by (rule wp_then [OF _ assms(2,4)]) (use assms(1-3) in \<open>auto simp: parses_def trk_pwf trk_ctx\<close>)

lemma parses_mono: "parses c G f \<Longrightarrow> (\<And>r ts. G r ts \<Longrightarrow> H r ts) \<Longrightarrow> parses c H f"
  unfolding parses_def by (blast intro: wp_mono trk_mono)

section \<open>Token access\<close>

lemma p_error_fields [simp]:
  "ps_toks (p_error pos msg p) = ps_toks p" "ps_pos (p_error pos msg p) = ps_pos p"
  "ps_file (p_error pos msg p) = ps_file p" "ps_depth (p_error pos msg p) = ps_depth p"
  "nerr (p_error pos msg p) = Suc (nerr p)"
  by (simp_all add: p_error_def nerr_def)

lemma nerr_upd [simp]: "nerr (p\<lparr>ps_pos := i\<rparr>) = nerr p" "nerr (p\<lparr>ps_depth := i\<rparr>) = nerr p"
  by (simp_all add: nerr_def)

lemma skip_error_tokens_spec:
  "pwf p \<Longrightarrow> later p (skip_error_tokens p) \<and> (nerr (skip_error_tokens p) = nerr p \<longrightarrow> skip_error_tokens p = p)"
proof (induction p rule: skip_error_tokens.induct)
  case (1 p)
  let ?p = "(p_error (here p) (tok_err (cur_tok p)) p)\<lparr>ps_pos := ps_pos p + 1\<rparr>"
  show ?case
  proof (cases "cur p = Special TOK_ERROR \<and> ps_pos p + 1 < length (ps_toks p)")
    case True
    then have e: "skip_error_tokens p = skip_error_tokens ?p" by (subst skip_error_tokens.simps) simp
    have w: "pwf ?p" and l: "later p ?p" using True 1(2) by (simp_all add: pwf_def later_def)
    from 1(1) [OF True w] have ih: "later ?p (skip_error_tokens ?p)" by blast
    with l have "later p (skip_error_tokens ?p)" by (rule later_trans)
    moreover have "nerr (skip_error_tokens ?p) > nerr p" using ih by (simp add: later_def)
    ultimately show ?thesis unfolding e by simp
  next
    case False
    then have "skip_error_tokens p = p" by (subst skip_error_tokens.simps) auto
    with 1(2) show ?thesis by (simp add: later_refl)
  qed
qed

text \<open>A token other than the end of the file is never the last one.\<close>

lemma not_eof_not_last: "pwf p \<Longrightarrow> cur p \<noteq> Special TOK_EOF \<Longrightarrow> ps_pos p + 1 < length (ps_toks p)"
proof (rule ccontr)
  assume w: "pwf p" "cur p \<noteq> Special TOK_EOF" and "\<not> ps_pos p + 1 < length (ps_toks p)"
  then have "ps_pos p = length (ps_toks p) - 1" and "ps_toks p \<noteq> []" by (auto simp: pwf_def)
  with w show False by (simp add: pwf_def cur_def cur_tok_def last_conv_nth)
qed

lemma wp_advance:
  assumes "trk p0 p P" and "cur p \<noteq> Special TOK_EOF"
    and "\<And>p'. later p p' \<Longrightarrow> togo p' < togo p \<Longrightarrow> ps_pos p < ps_pos p'
      \<Longrightarrow> trk p0 p' (followed_by P (the_token (cur_tok p))) \<Longrightarrow> Q (cur_tok p) p'"
  shows "wp (advance p) Q"
proof -
  have w: "pwf p" using assms(1) by (rule trk_pwf)
  have lt: "ps_pos p + 1 < length (ps_toks p)" using w assms(2) by (rule not_eof_not_last)
  let ?p = "p\<lparr>ps_pos := ps_pos p + 1\<rparr>" let ?p' = "skip_error_tokens ?p"
  have w1: "pwf ?p" and l1: "later p ?p" using w lt by (simp_all add: pwf_def later_def)
  note s = skip_error_tokens_spec [OF w1]
  have l: "later p ?p'" using l1 s by (blast intro: later_trans)
  have pos: "ps_pos p < ps_pos ?p'" using s by (simp add: later_def)
  have t: "trk p ?p' (the_token (cur_tok p))"
    using l later_pwf [OF l w] s lt by (auto simp: trk_def eaten_def the_token_def cur_tok_def segment_Suc)
  have less: "togo ?p' < togo p" using pos lt l by (auto simp: togo_def later_def)
  show ?thesis
    unfolding advance_def using lt assms(3) [OF l less pos trk_seq [OF assms(1) t]] by simp
qed

lemma wp_accept:
  assumes "trk p0 p P" and "k \<noteq> Special TOK_EOF"
    and "\<And>p'. cur p = k \<Longrightarrow> later p p' \<Longrightarrow> togo p' < togo p \<Longrightarrow> ps_pos p < ps_pos p'
      \<Longrightarrow> trk p0 p' (followed_by P (the_token (cur_tok p))) \<Longrightarrow> Q True p'"
    and "cur p \<noteq> k \<Longrightarrow> Q False p"
  shows "wp (accept k p) Q"
  unfolding accept_def at_def using assms(2-4)
  by (auto intro!: wp_advance [OF assms(1)])

lemma wp_error_unexpected:
  assumes "trk p0 p P"
    and "\<And>p'. later p p' \<Longrightarrow> ps_pos p' = ps_pos p \<Longrightarrow> trk p0 p' never \<Longrightarrow> Q () p'"
  shows "wp (error_unexpected s p) Q"
proof -
  let ?p = "p_error (here p) (''expected '' @ s @ '', found '' @ describe_current p 80) p"
  have w: "pwf p" using assms(1) by (rule trk_pwf)
  have l: "later p ?p" using w by (simp add: later_def pwf_def)
  have "trk p ?p never" using l later_pwf [OF l w] by (simp add: trk_def)
  from trk_seq [OF assms(1) this] have "trk p0 ?p never" by simp
  with l show ?thesis unfolding error_unexpected_def by (simp add: assms(2))
qed

lemma wp_p_error:
  assumes "trk p0 p P"
  shows "trk p0 (p_error pos msg p) never" and "later p (p_error pos msg p)"
proof -
  let ?p = "p_error pos msg p"
  have w: "pwf p" using assms(1) by (rule trk_pwf)
  show l: "later p ?p" using w by (simp add: later_def pwf_def)
  have "trk p ?p never" using l later_pwf [OF l w] by (simp add: trk_def)
  from trk_seq [OF assms(1) this] show "trk p0 ?p never" by simp
qed

text \<open>\<open>expect\<close> succeeds on the token asked for, and reports an error otherwise.\<close>

lemma wp_expect:
  assumes "trk p0 p P" and "k \<noteq> Special TOK_EOF"
    and "\<And>p'. cur p = k \<Longrightarrow> later p p' \<Longrightarrow> togo p' < togo p \<Longrightarrow> ps_pos p < ps_pos p'
      \<Longrightarrow> trk p0 p' (followed_by P (the_token (cur_tok p))) \<Longrightarrow> Q True p'"
    and "\<And>p'. later p p' \<Longrightarrow> trk p0 p' never \<Longrightarrow> Q False p'"
  shows "wp (expect k p) Q"
  unfolding expect_def at_def using assms(2-4)
  by (auto intro!: wp_advance [OF assms(1)] wp_error_unexpected [OF assms(1)])

lemma wp_expect_ident:
  assumes "trk p0 p P"
    and "\<And>p'. cur p = Special TOK_IDENT \<Longrightarrow> later p p' \<Longrightarrow> togo p' < togo p \<Longrightarrow> ps_pos p < ps_pos p'
      \<Longrightarrow> trk p0 p' (followed_by P (the_token (cur_tok p))) \<Longrightarrow> Q (Some (tk_text (cur_tok p))) p'"
    and "\<And>p'. later p p' \<Longrightarrow> trk p0 p' never \<Longrightarrow> Q None p'"
  shows "wp (expect_ident p) Q"
  unfolding expect_ident_def at_def using assms(2-3)
  by (auto simp: tok_view_def intro!: wp_advance [OF assms(1)] wp_error_unexpected [OF assms(1)])

section \<open>Loops and recovery\<close>

text \<open>The rule for a loop over the tokens: every turn that goes round again consumes one.\<close>

lemma wp_token_loop:
  assumes "trk p0 p (L a)" and "J a"
    and "\<And>a p. trk p0 p (L a) \<Longrightarrow> J a \<Longrightarrow> wp (body a p) (\<lambda>r p'. case r of
        Inl a' \<Rightarrow> J a' \<and> trk p0 p' (L a') \<and> togo p' < togo p
      | Inr b \<Rightarrow> Q b p')"
  shows "wp (loop (turns p) body a p) Q"
proof (rule wp_loop [where I = "\<lambda>a p. J a \<and> trk p0 p (L a)" and m = "\<lambda>_ p. togo p"])
  fix a p assume "J a \<and> trk p0 p (L a)"
  then have "wp (body a p) (\<lambda>r p'. case r of Inl a' \<Rightarrow> J a' \<and> trk p0 p' (L a') \<and> togo p' < togo p | Inr b \<Rightarrow> Q b p')"
    using assms(3) by blast
  then show "wp (body a p) (\<lambda>r p'. case r of
      Inl a' \<Rightarrow> (J a' \<and> trk p0 p' (L a')) \<and> togo p' < togo p | Inr b \<Rightarrow> Q b p')"
    by (rule wp_mono) (auto split: sum.splits)
qed (use assms in \<open>auto simp: turns_togo\<close>)

text \<open>A token consumed, then a call: still fewer tokens to go.\<close>

lemma togo_less_later: "togo q < togo p \<Longrightarrow> later q r \<Longrightarrow> togo r < togo p"
  by (drule later_togo) simp

definition anything :: lang where
  "anything ts \<longleftrightarrow> True"

lemma trk_anything: "trk p0 p P \<Longrightarrow> trk p0 p anything"
  by (erule trk_mono) (simp add: anything_def)

text \<open>The recovery routines skip tokens, nothing else.\<close>

lemma parses_sync_stmt: "parses c (\<lambda>_. anything) sync_stmt"
proof (rule parsesI)
  fix p assume t: "trk p p nothing"
  show "wp (sync_stmt p) (\<lambda>r p'. trk p p' anything)"
    unfolding sync_stmt_def at_def
    by (rule wp_token_loop [where L = "\<lambda>_. anything" and J = "\<lambda>_. True", OF trk_anything [OF t]])
      (auto intro!: wp_accept wp_advance dest: later_togo trk_anything)
qed

lemma parses_sync_member: "parses c (\<lambda>_. anything) sync_member"
proof (rule parsesI)
  fix p assume t: "trk p p nothing"
  show "wp (sync_member p) (\<lambda>r p'. trk p p' anything)"
    unfolding sync_member_def at_def
    by (rule wp_token_loop [where L = "\<lambda>_. anything" and J = "\<lambda>_. True", OF trk_anything [OF t]])
      (auto intro!: wp_accept wp_advance dest: later_togo trk_anything)
qed

lemma parses_sync_item: "parses c (\<lambda>_. anything) sync_item"
proof (rule parsesI)
  fix p assume t: "trk p p nothing"
  show "wp (sync_item p) (\<lambda>r p'. trk p p' anything)"
    unfolding sync_item_def at_def
    by (rule wp_token_loop [where L = "\<lambda>_. anything" and J = "\<lambda>_. True", OF trk_anything [OF t]])
      (auto intro!: wp_advance dest: later_togo trk_anything)
qed

text \<open>The step that makes recovery progress, where the element consumed nothing.\<close>

lemma wp_progress:
  assumes "trk p q' P" and "later q q'" and "cur q \<noteq> Special TOK_EOF" and "ps_pos q' = ps_pos q \<Longrightarrow> trk p q' never"
    and "\<And>r. trk p r P \<Longrightarrow> togo r < togo q \<Longrightarrow> Q () r"
  shows "wp (ensure_progress (ps_pos q) q') Q"
proof (cases "ps_pos q' = ps_pos q")
  case True
  have same: "togo q' = togo q" using True assms(2) by (simp add: togo_def later_def)
  have "cur q' \<noteq> Special TOK_EOF" using True assms(2,3) by (simp add: cur_def cur_tok_def later_def)
  with True same show ?thesis
    by (auto simp: ensure_progress_def intro!: wp_advance [OF assms(4)] assms(5) intro: trk_never)
next
  case False
  then have "togo q' < togo q" using assms(2) trk_pwf [OF assms(1)] by (auto simp: later_def togo_def)
  with False show ?thesis using assms(1,5) by (simp add: ensure_progress_def)
qed

lemma trk_stuck:
  assumes "trk q q' (opt_lang G r)" and "\<And>x. \<not> G x []" and "ps_pos q' = ps_pos q"
  shows "trk q q' never"
  using assms by (auto simp: trk_def eaten_def opt_lang_def never_def)

text \<open>One element of a list and the recovery after it.\<close>

lemma wp_element:
  assumes one: "parses c (opt_lang G) one" and sync: "parses c (\<lambda>_. anything) sync" and ne: "\<And>x. \<not> G x []"
    and q: "trk p q L" "ctx p = c" "cur q \<noteq> Special TOK_EOF"
    and add: "\<And>x r. trk p r (followed_by L (G x)) \<Longrightarrow> togo r < togo q \<Longrightarrow> Q (xs @ [x]) r"
    and keep: "\<And>r. trk p r never \<Longrightarrow> togo r < togo q \<Longrightarrow> Q xs r"
    and err: "\<And>x r. trk p r never \<Longrightarrow> togo r < togo q \<Longrightarrow> Q (xs @ [x]) r"
  shows "wp (one q) (\<lambda>x q1. wp (case x of Some x \<Rightarrow> Some (xs @ [x], q1) | None \<Rightarrow> do { (_, p) \<leftarrow> sync q1; Some (xs, p) })
     (\<lambda>xs q2. wp (ensure_progress (ps_pos q) q2) (\<lambda>_ r. Q xs r)))"
proof -
  have "wp (one q) (\<lambda>r q'. trk q q' (opt_lang G r))"
    using one trk_pwf [OF q(1)] trk_ctx [OF q(1)] q(2) by (simp add: parses_def)
  then show ?thesis
  proof (rule wp_mono)
    fix x q1 assume x: "trk q q1 (opt_lang G x)"
    have t: "trk p q1 (followed_by L (opt_lang G x))" using q(1) x by (rule trk_seq)
    have l: "later q q1" using x by (rule trk_later)
    show "wp (case x of Some x \<Rightarrow> Some (xs @ [x], q1) | None \<Rightarrow> do { (_, p) \<leftarrow> sync q1; Some (xs, p) })
     (\<lambda>xs q2. wp (ensure_progress (ps_pos q) q2) (\<lambda>_ r. Q xs r))"
    proof (cases x)
      case None
      then have "trk p q1 never" using t by simp
      then show ?thesis
        unfolding None using l q(2,3)
        by (auto intro!: wp_call [OF sync] wp_progress keep dest: later_trans)
    next
      case (Some y)
      show ?thesis
      proof (cases "ps_pos q1 = ps_pos q")
        case True
        then have "trk q q1 never" using x ne by (blast intro: trk_stuck)
        from trk_seq [OF q(1) this] have "trk p q1 never" by simp
        then show ?thesis unfolding Some using l q(3) by (auto intro!: wp_progress err)
      next
        case False
        then have "togo q1 < togo q" using l by (auto simp: later_def togo_def)
        with False show ?thesis unfolding Some using t Some by (auto simp: ensure_progress_def intro!: add)
      qed
    qed
  qed
qed

text \<open>A braced list is a sequence of its elements.\<close>

lemma parses_braced_list:
  assumes one: "parses c (opt_lang G) one" and sync: "parses c (\<lambda>_. anything) sync" and ne: "\<And>x. \<not> G x []"
  shows "parses c (g_many G) (braced_list one sync)"
proof (rule parsesI)
  fix p assume t: "trk p p nothing" and c: "ctx p = c"
  have start: "trk p p (g_many G [])" using t by (rule trk_mono) (simp add: nothing_def g_many.none)
  have more: "trk p q (followed_by (g_many G xs) (G x)) \<Longrightarrow> trk p q (g_many G (xs @ [x]))" for q xs x
    by (erule trk_mono) (auto simp: followed_by_def intro: g_many.more)
  show "wp (braced_list one sync p) (\<lambda>r p'. trk p p' (g_many G r))"
    unfolding braced_list_def at_def
    by (rule wp_token_loop [where L = "g_many G" and J = "\<lambda>_. True", OF start TrueI])
      (auto simp: Let_def intro!: wp_element [OF one sync ne _ c] more intro: trk_never)
qed

end
