(* ===== verification/Slop_Parser_Sound.thy ===== *)
theory Slop_Parser_Sound
  imports Slop_Parser_Logic
begin

text \<open>
  Every routine of the parser keeps the contract \<open>parses\<close> with the language of its production in
  \<open>Slop_Grammar\<close>: it returns, and a tree it builds without an error is derived by the grammar from
  exactly the tokens it consumed. The expression levels are proved against the interface
  \<open>nested_expr\<close> of the routine for nested expressions, which \<open>parse_expr\<close> then implements.
\<close>

declare cur_def [simp]

lemma tok_int_of [simp]: "tok_ival t = int_of t" "tok_fval t = float_of t" "intern_string t = str_of t" "tok_view t = tk_text t"
  by (simp_all add: tok_ival_def int_of_def tok_fval_def float_of_def intern_string_def str_of_def tok_view_def)

lemma core_type_not_special [simp]: "\<not> token_is_core_type (Special s)"
  by (simp add: token_is_core_type_iff image_iff)

lemma core_type_not_eof: "token_is_core_type k \<Longrightarrow> k \<noteq> Special s"
  by auto

lemmas lang_defs = followed_by_def the_token_def nothing_def opt_lang_def never_def

section \<open>Types\<close>

lemma wp_type_suffixes:
  assumes "trk p0 p (g_type f T)" and "ty_pos T = pos"
  shows "wp (type_suffixes pos T p) (\<lambda>T' p'. trk p0 p' (g_type f T'))"
proof -
  have ptr: "trk p0 p (followed_by (g_type f T) (the_token s)) \<Longrightarrow> is_punct TOK_STAR s \<Longrightarrow>
      trk p0 p (g_type f (TYPE_POINTER (ty_pos T) T))" for T s p
    by (erule trk_mono) (auto simp: lang_defs intro: g_type.pointer)
  have arr: "trk p0 p (followed_by (followed_by (followed_by (g_type f T) (the_token l)) (the_token n)) (the_token r)) \<Longrightarrow>
      is_punct TOK_LBRACKET l \<Longrightarrow> is_special TOK_INT n \<Longrightarrow> is_punct TOK_RBRACKET r \<Longrightarrow>
      trk p0 p (g_type f (TYPE_ARRAY (ty_pos T) T (int_of n)))" for T l n r p
    by (erule trk_mono) (auto simp: lang_defs intro: g_type.array)
  show ?thesis
    unfolding type_suffixes_def at_def
    by (rule wp_token_loop [where L = "g_type f" and J = "\<lambda>T. ty_pos T = pos", OF assms])
      (auto intro!: wp_accept wp_advance wp_expect wp_error_unexpected
        dest!: later_togo dest: trk_never intro: ptr arr)
qed

lemma parses_type: "parses c (opt_lang (g_type (fst c))) parse_type"
proof (rule parsesI)
  fix p assume t: "trk p p nothing" and c: "ctx p = c"
  have core: "trk p p' (followed_by nothing (the_token (cur_tok p))) \<Longrightarrow> token_is_core_type (tk_kind (cur_tok p)) \<Longrightarrow>
      trk p p' (g_type (fst c) (TYPE_CORE (tok_pos (fst c) (cur_tok p)) (tk_kind (cur_tok p))))" for p'
    by (erule trk_mono) (auto simp: lang_defs intro: g_type.core)
  have name: "trk p p' (followed_by nothing (the_token (cur_tok p))) \<Longrightarrow> is_special TOK_IDENT (cur_tok p) \<Longrightarrow>
      trk p p' (g_type (fst c) (TYPE_NAME (tok_pos (fst c) (cur_tok p)) (tk_text (cur_tok p))))" for p'
    by (erule trk_mono) (auto simp: lang_defs intro: g_type.name)
  show "wp (parse_type p) (\<lambda>r p'. trk p p' (opt_lang (g_type (fst c)) r))"
    unfolding parse_type_def at_def Let_def
    by (auto simp: here_tok_pos [OF t c] simp del: followed_by_nothing
        intro!: wp_advance [OF t] wp_type_suffixes wp_error_unexpected [OF t] wp_mono [OF wp_type_suffixes] core name
        dest: trk_never core_type_not_eof)
qed

section \<open>Expressions\<close>

text \<open>The arguments of a call, and those read so far with the comma after them.\<close>

definition args_lang :: "string \<Rightarrow> expr option list \<Rightarrow> lang" where
  "args_lang f as ts \<longleftrightarrow> (as = [] \<and> ts = []) \<or> g_args f as ts"

definition args_comma :: "string \<Rightarrow> expr option list \<Rightarrow> lang" where
  "args_comma f as ts \<longleftrightarrow> (as = [] \<and> ts = []) \<or> (\<exists>xs t. g_args f as xs \<and> is_punct TOK_COMMA t \<and> ts = xs @ [t])"

text \<open>The interface of the routine for nested expressions.\<close>

locale nested_expr =
  fixes pe :: "expr option parse" and c :: "string \<times> nat"
  assumes pe: "parses c (opt_lang (g_expr (fst c) 1)) pe"
begin

lemma primary: "parses c (opt_lang (g_expr (fst c) 13)) (parse_primary pe)"
proof (rule parsesI)
  fix p assume t: "trk p p nothing" and c: "ctx p = c"
  let ?f = "fst c" and ?t = "cur_tok p"
  have leaf: "wp (advance p) (\<lambda>r p'. r = ?t \<and> trk p p' (g_expr ?f 13 e))"
    if "g_expr ?f 13 e [?t]" "cur p \<noteq> Special TOK_EOF" for e
    using that by (intro wp_advance [OF t]) (auto elim!: trk_mono simp: lang_defs)
  have paren: "trk p p' (followed_by (followed_by (the_token l) (opt_lang (g_expr ?f 1) r)) (the_token q)) \<Longrightarrow>
      is_punct TOK_LPAREN l \<Longrightarrow> is_punct TOK_RPAREN q \<Longrightarrow> trk p p' (opt_lang (g_expr ?f 13) r)" for p' l q r
    by (erule trk_mono) (auto simp: lang_defs intro: g_expr_g_args.paren [simplified])
  have lp: "wp (advance p) (\<lambda>_ p'. wp (pe p') (\<lambda>r p'. wp (expect (Punct TOK_RPAREN) p')
      (\<lambda>_ p'. trk p p' (opt_lang (g_expr ?f 13) r))))" if "cur p = Punct TOK_LPAREN"
    using that by (auto intro!: wp_advance [OF t] wp_call [OF pe _ c] wp_expect intro: paren dest: trk_never)
  note leaves = wp_mono [OF leaf [OF g_expr_g_args.int]] wp_mono [OF leaf [OF g_expr_g_args.float]]
    wp_mono [OF leaf [OF g_expr_g_args.char]] wp_mono [OF leaf [OF g_expr_g_args.string]]
    wp_mono [OF leaf [OF g_expr_g_args.true]] wp_mono [OF leaf [OF g_expr_g_args.false]]
    wp_mono [OF leaf [OF g_expr_g_args.null]] wp_mono [OF leaf [OF g_expr_g_args.ident]]
  show "wp (parse_primary pe p) (\<lambda>r p'. trk p p' (opt_lang (g_expr ?f 13) r))"
    unfolding parse_primary_def Let_def here_tok_pos [OF t c]
    by (cases "cur p" rule: token_kind.exhaust)
      (auto split: special.split keyword.split punct.split intro: leaves lp wp_error_unexpected [OF t])
qed

lemma args: "parses c (args_lang (fst c)) (parse_args pe)"
proof (rule parsesI)
  fix p assume t: "trk p p nothing" and c: "ctx p = c"
  have more: "trk p q (followed_by (args_comma (fst c) as) (opt_lang (g_expr (fst c) 1) e)) \<Longrightarrow> trk p q (g_args (fst c) (as @ [e]))"
    for q as e
    by (erule trk_mono) (auto simp: lang_defs args_comma_def intro: g_expr_g_args.one_arg [simplified] g_expr_g_args.more_args [simplified])
  have comma: "trk p q (followed_by (g_args (fst c) as) (the_token t)) \<Longrightarrow> is_punct TOK_COMMA t \<Longrightarrow> trk p q (args_comma (fst c) as)"
    for q as t
    by (erule trk_mono) (auto simp: lang_defs args_comma_def)
  have all: "trk p q (g_args (fst c) as) \<Longrightarrow> trk p q (args_lang (fst c) as)" for q as
    by (erule trk_mono) (simp add: args_lang_def)
  have start: "trk p p (args_comma (fst c) [])" using t by (rule trk_mono) (simp add: nothing_def args_comma_def)
  show "wp (parse_args pe p) (\<lambda>r p'. trk p p' (args_lang (fst c) r))"
  proof (cases "at p (Punct TOK_RPAREN)")
    case True
    with t show ?thesis by (auto simp: parse_args_def elim!: trk_mono simp: nothing_def args_lang_def)
  next
    case False
    have "wp (loop (turns p) (\<lambda>args p. do {
        (a, p) \<leftarrow> pe p;
        (comma, p) \<leftarrow> accept (Punct TOK_COMMA) p;
        if comma then Some (Inl (args @ [a]), p) else Some (Inr (args @ [a]), p) }) [] p)
      (\<lambda>r p'. trk p p' (args_lang (fst c) r))"
    proof (rule wp_token_loop [where L = "args_comma (fst c)" and J = "\<lambda>_. True", OF start TrueI])
      fix as q assume q: "trk p q (args_comma (fst c) as)"
      show "wp (do {
          (a, p) \<leftarrow> pe q;
          (comma, p) \<leftarrow> accept (Punct TOK_COMMA) p;
          if comma then Some (Inl (as @ [a]), p) else Some (Inr (as @ [a]), p) })
        (\<lambda>r p'. case r of Inl a' \<Rightarrow> True \<and> trk p p' (args_comma (fst c) a') \<and> togo p' < togo q
           | Inr b \<Rightarrow> trk p p' (args_lang (fst c) b))"
        by (auto intro!: wp_call [OF pe q c] wp_accept [OF more] comma all dest!: later_togo dest: more)
    qed
    with False show ?thesis by (simp add: parse_args_def)
  qed
qed

text \<open>One postfix operator after \<open>e\<close>.\<close>

lemma postfix_steps:
  "trk p q (followed_by (followed_by (followed_by (g_expr f 12 e) (the_token l)) (args_lang f as)) (the_token r)) \<Longrightarrow>
     is_punct TOK_LPAREN l \<Longrightarrow> is_punct TOK_RPAREN r \<Longrightarrow>
     trk p q (g_expr f 12 (expr_new (tok_pos f l) (EXPR_CALL (Some e) as)))"
  "trk p q (followed_by (followed_by (followed_by (g_expr f 12 e) (the_token l)) (opt_lang (g_expr f 1) i)) (the_token r)) \<Longrightarrow>
     is_punct TOK_LBRACKET l \<Longrightarrow> is_punct TOK_RBRACKET r \<Longrightarrow>
     trk p q (g_expr f 12 (expr_new (tok_pos f l) (EXPR_INDEX (Some e) i)))"
  "trk p q (followed_by (followed_by (g_expr f 12 e) (the_token d)) (the_token n)) \<Longrightarrow>
     is_punct TOK_DOT d \<Longrightarrow> is_special TOK_IDENT n \<Longrightarrow>
     trk p q (g_expr f 12 (expr_new (tok_pos f d) (EXPR_FIELD (Some e) (tk_text n))))"
  "trk p q (followed_by (followed_by (followed_by (followed_by (followed_by (g_expr f 12 e) (the_token d)) (the_token a))
       (the_token l)) (opt_lang (g_type f) T)) (the_token r)) \<Longrightarrow>
     is_punct TOK_DOT d \<Longrightarrow> is_word TOK_KW_AS a \<Longrightarrow> is_punct TOK_LPAREN l \<Longrightarrow> is_punct TOK_RPAREN r \<Longrightarrow>
     trk p q (g_expr f 12 (expr_new (tok_pos f d) (EXPR_CAST (Some e) T)))"
  by (erule trk_mono; auto simp: lang_defs args_lang_def intro: g_expr_g_args.call0 [simplified] g_expr_g_args.call [simplified]
      g_expr_g_args.index [simplified] g_expr_g_args.field [simplified] g_expr_g_args.cast [simplified])+

lemma postfix_ops:
  assumes q: "trk p q (g_expr (fst c) 12 e)" and c: "ctx p = c"
  shows "wp (postfix_ops pe e q) (\<lambda>r p'. trk p p' (opt_lang (g_expr (fst c) 12) r))"
  unfolding postfix_ops_def
proof (rule wp_token_loop [where L = "g_expr (fst c) 12" and J = "\<lambda>_. True", OF q TrueI], goal_cases)
  case (1 e q)
  note pos = here_tok_pos [OF 1(1) c]
  show ?case
    unfolding Let_def pos
    by (auto intro!: wp_accept wp_expect wp_expect_ident wp_call [OF args _ c] wp_call [OF pe _ c]
        wp_call [OF parses_type _ c] 1(1) dest!: later_togo dest: trk_never intro: postfix_steps)
qed

lemma postfix: "parses c (opt_lang (g_expr (fst c) 12)) (parse_postfix pe)"
proof (rule parsesI)
  fix p assume t: "trk p p nothing" and c: "ctx p = c"
  have up: "trk p q (g_expr (fst c) 13 e) \<Longrightarrow> trk p q (g_expr (fst c) 12 e)" for q e
    by (erule trk_mono) (rule g_expr_up, auto)
  show "wp (parse_postfix pe p) (\<lambda>r p'. trk p p' (opt_lang (g_expr (fst c) 12) r))"
    unfolding parse_postfix_def
    by (auto intro!: wp_call [OF primary t c] postfix_ops up c split: option.split)
qed

lemma unary_steps:
  "trk p q (followed_by (the_token t) (opt_lang (g_expr f 11) e)) \<Longrightarrow> is_unary_op (tk_kind t) \<Longrightarrow>
     trk p q (opt_lang (g_expr f 11) (Some (expr_new (tok_pos f t) (EXPR_UNARY (tk_kind t) e))))"
  "trk p q (followed_by (followed_by (followed_by (the_token t) (the_token l)) (opt_lang (g_type f) T)) (the_token r)) \<Longrightarrow>
     is_word TOK_KW_SIZEOF t \<Longrightarrow> is_punct TOK_LPAREN l \<Longrightarrow> is_punct TOK_RPAREN r \<Longrightarrow>
     trk p q (g_expr f 11 (expr_new (tok_pos f t) (EXPR_SIZEOF T)))"
proof -
  have op: "\<exists>op. tk_kind t = Punct op \<and> prefix_op op" if "is_unary_op (tk_kind t)"
    using that by (auto simp: is_unary_op_def prefix_op_def split: token_kind.splits punct.splits)
  show "trk p q (followed_by (the_token t) (opt_lang (g_expr f 11) e)) \<Longrightarrow> is_unary_op (tk_kind t) \<Longrightarrow>
     trk p q (opt_lang (g_expr f 11) (Some (expr_new (tok_pos f t) (EXPR_UNARY (tk_kind t) e))))"
    by (erule trk_mono) (auto simp: lang_defs dest!: op intro: g_expr_g_args.prefix [simplified])
  show "trk p q (followed_by (followed_by (followed_by (the_token t) (the_token l)) (opt_lang (g_type f) T)) (the_token r)) \<Longrightarrow>
     is_word TOK_KW_SIZEOF t \<Longrightarrow> is_punct TOK_LPAREN l \<Longrightarrow> is_punct TOK_RPAREN r \<Longrightarrow>
     trk p q (g_expr f 11 (expr_new (tok_pos f t) (EXPR_SIZEOF T)))"
    by (erule trk_mono) (auto simp: lang_defs intro: g_expr_g_args.sizeof [simplified])
qed

lemma unary_n:
  "trk p p nothing \<Longrightarrow> ctx p = c \<Longrightarrow> togo p < n \<Longrightarrow>
   wp (parse_unary_n n pe p) (\<lambda>r p'. trk p p' (opt_lang (g_expr (fst c) 11) r))"
proof (induction n arbitrary: p)
  case 0
  then show ?case by simp
next
  case (Suc n)
  note t = Suc.prems(1) and c = Suc.prems(2)
  have rec: "wp (parse_unary_n n pe q) (\<lambda>r p'. trk q p' (opt_lang (g_expr (fst c) 11) r))"
    if "trk p q P" "togo q < togo p" for q P
    using that Suc.prems(3) trk_ctx [OF that(1)] c by (intro Suc.IH trk_start trk_pwf [OF that(1)]) auto
  have up: "trk p q (opt_lang (g_expr (fst c) 12) e) \<Longrightarrow> trk p q (opt_lang (g_expr (fst c) 11) e)" for q e
    by (erule trk_mono) (auto simp: lang_defs, rule g_expr_up, auto)
  consider (op) "is_unary_op (cur p)" "cur p \<noteq> Special TOK_EOF" | (sizeof) "cur p = Keyword TOK_KW_SIZEOF" "\<not> is_unary_op (cur p)"
    | (other) "\<not> is_unary_op (cur p)" "cur p \<noteq> Keyword TOK_KW_SIZEOF"
    by (cases "is_unary_op (cur p)"; cases "cur p") (auto simp: is_unary_op_def)
  then show ?case
  proof cases
    case op
    then show ?thesis
      using unary_steps(1) [of p _ "cur_tok p" "fst c"]
      by (auto simp: here_tok_pos [OF t c] intro!: wp_advance [OF t] wp_then [OF rec])
  next
    case sizeof
    then show ?thesis
      by (auto simp: here_tok_pos [OF t c] intro!: wp_advance [OF t] wp_expect wp_call [OF parses_type _ c]
          intro: unary_steps(2) dest: trk_never)
  next
    case other
    then show ?thesis by (auto intro!: wp_call [OF postfix t c] up)
  qed
qed

lemma unary: "parses c (opt_lang (g_expr (fst c) 11)) (parse_unary pe)"
  unfolding parse_unary_def by (rule parsesI, rule unary_n) (auto simp: turns_togo)

lemma level:
  assumes sub: "parses c (opt_lang (g_expr (fst c) (Suc n))) sub" and ops: "ops = level_ops n"
  shows "parses c (opt_lang (g_expr (fst c) n)) (binary_level ops sub)"
proof (rule parsesI)
  fix p assume t: "trk p p nothing" and c: "ctx p = c"
  let ?L = "opt_lang (g_expr (fst c) n)"
  have up: "trk p q (opt_lang (g_expr (fst c) (Suc n)) e) \<Longrightarrow> trk p q (?L e)" for q e
    by (erule trk_mono) (auto simp: lang_defs intro: g_expr_g_args.up)
  have step: "trk p q (followed_by (followed_by (?L a) (the_token t)) (opt_lang (g_expr (fst c) (Suc n)) b)) \<Longrightarrow>
      tk_kind t = Punct op \<Longrightarrow> op \<in> set ops \<Longrightarrow>
      trk p q (?L (Some (make_binary (Punct op) (tok_pos (fst c) t) a b)))" for q a b t op
    by (erule trk_mono) (auto simp: lang_defs make_binary_def ops intro: g_expr_g_args.binary [simplified])
  show "wp (binary_level ops sub p) (\<lambda>r p'. trk p p' (?L r))"
    unfolding binary_level_def at_def
  proof (simp, rule wp_call [OF sub t c], rule wp_token_loop [where L = ?L and J = "\<lambda>_. True", OF up TrueI], simp, goal_cases)
    case (1 r q a q')
    note pos = here_tok_pos [OF 1(3) c]
    show ?case
      using step 1(3) by (auto simp: Let_def pos intro!: wp_advance [OF 1(3)] wp_call [OF sub _ c] dest!: later_togo)
  qed
qed

lemmas ladder = parse_mul_def parse_add_def parse_shift_def parse_bitand_def parse_bitxor_def parse_bitor_def
  parse_relational_def parse_equality_def parse_logical_and_def parse_logical_or_def

text \<open>The whole ladder.\<close>

lemma logical_or: "parses c (opt_lang (g_expr (fst c) 1)) (parse_logical_or pe)"
proof -
  have "(11 :: nat) = Suc (Suc (Suc (Suc (Suc (Suc (Suc (Suc (Suc (Suc (Suc 0))))))))))" by simp
  then have u: "parses c (opt_lang (g_expr (fst c) (Suc (Suc (Suc (Suc (Suc (Suc (Suc (Suc (Suc (Suc (Suc 0)))))))))))))
      (parse_unary pe)"
    using unary by metis
  show ?thesis
    unfolding ladder One_nat_def by (intro level u) (simp_all add: level_ops_def)
qed

end

section \<open>The nesting limit\<close>

text \<open>\<open>parse_expr\<close> with any bound above the levels the depth counter leaves keeps the contract.\<close>

lemma parse_expr_n: "parses (f, d) (opt_lang (g_expr f 1)) (parse_expr_n n)" if "MAX_NESTING < d + n"
  using that
proof (induction n arbitrary: d)
  case 0
  then show ?case by (auto simp: parses_def pwf_def ctx_def)
next
  case (Suc n)
  show ?case
  proof (rule parsesI)
    fix p assume t: "trk p p nothing" and c: "ctx p = (f, d)"
    show "wp (parse_expr_n (Suc n) p) (\<lambda>r p'. trk p p' (opt_lang (g_expr f 1) r))"
    proof (cases "ps_depth p \<ge> MAX_NESTING")
      case True
      with t show ?thesis by (auto intro: wp_p_error)
    next
      case False
      let ?p = "p\<lparr>ps_depth := ps_depth p + 1\<rparr>"
      have "nested_expr (parse_expr_n n) (f, Suc d)"
        using Suc.IH [of "Suc d"] Suc.prems by (intro nested_expr.intro) simp
      note lo = nested_expr.logical_or [OF this]
      have w: "pwf ?p" and cc: "ctx ?p = (f, Suc d)"
        using trk_pwf [OF t] c False by (simp_all add: pwf_def ctx_def)
      have "wp (parse_logical_or (parse_expr_n n) ?p) (\<lambda>r p'. trk ?p p' (opt_lang (g_expr f 1) r))"
        using lo w cc by (simp add: parses_def)
      moreover have "trk ?p q P \<Longrightarrow> trk p (q\<lparr>ps_depth := ps_depth q - 1\<rparr>) P" for q P
        by (auto simp: trk_def later_def pwf_def eaten_def)
      ultimately show ?thesis using False by (auto elim!: wp_mono)
    qed
  qed
qed

lemma parses_expr: "parses c (opt_lang (g_expr (fst c) 1)) parse_expr"
proof (rule parsesI)
  fix p assume t: "trk p p nothing" and c: "ctx p = c"
  have "parses (ps_file p, ps_depth p) (opt_lang (g_expr (ps_file p) 1)) (parse_expr_n (Suc MAX_NESTING - ps_depth p))"
    by (rule parse_expr_n) (use trk_pwf [OF t] in \<open>simp add: pwf_def\<close>)
  then have "wp (parse_expr_n (Suc MAX_NESTING - ps_depth p) p) (\<lambda>r p'. trk p p' (opt_lang (g_expr (ps_file p) 1) r))"
    using trk_pwf [OF t] by (simp add: parses_def ctx_def)
  then show "wp (parse_expr p) (\<lambda>r p'. trk p p' (opt_lang (g_expr (fst c) 1) r))"
    using c by (auto simp: parse_expr_def ctx_def)
qed

text \<open>The interface, on the parser itself.\<close>

interpretation ex: nested_expr parse_expr c for c
  by (rule nested_expr.intro) (rule parses_expr)

lemma parses_literal: "parses c (opt_lang (g_literal (fst c))) parse_literal"
proof (rule parsesI)
  fix p assume t: "trk p p nothing" and c: "ctx p = c"
  let ?f = "fst c" and ?t = "cur_tok p"
  have leaf: "wp (advance p) (\<lambda>r p'. r = ?t \<and> trk p p' (g_literal ?f e))"
    if "g_expr ?f 13 e [?t]" "literal_tok ?t" for e
    using that by (intro wp_advance [OF t]) (auto elim!: trk_mono simp: lang_defs literal_tok_def g_literal_def)
  note leaves = wp_mono [OF leaf [OF g_expr_g_args.int]] wp_mono [OF leaf [OF g_expr_g_args.float]]
    wp_mono [OF leaf [OF g_expr_g_args.char]] wp_mono [OF leaf [OF g_expr_g_args.string]]
    wp_mono [OF leaf [OF g_expr_g_args.true]] wp_mono [OF leaf [OF g_expr_g_args.false]]
    wp_mono [OF leaf [OF g_expr_g_args.null]]
  show "wp (parse_literal p) (\<lambda>r p'. trk p p' (opt_lang (g_literal ?f) r))"
  proof (cases "is_literal_start (cur p)")
    case True
    then have "literal_tok ?t"
      by (auto simp: is_literal_start_def literal_tok_def split: token_kind.splits special.splits keyword.splits)
    with True show ?thesis
      unfolding parse_literal_def parse_primary_def Let_def here_tok_pos [OF t c] is_literal_start_def
      by (cases "cur p" rule: token_kind.exhaust)
        (auto split: special.splits keyword.splits intro: leaves)
  next
    case False
    then show ?thesis by (auto simp: parse_literal_def intro: wp_error_unexpected [OF t])
  qed
qed

end
