(* ===== verification/Slop_Parser_Stmt_Sound.thy ===== *)
theory Slop_Parser_Stmt_Sound
  imports Slop_Parser_Sound
begin

text \<open>
  The contract of the statement routines. They are proved against the interface \<open>nested_stmt\<close> of the
  routine for nested statements, which \<open>parse_stmt\<close> implements.
\<close>

declare One_nat_def [simp del]

lemma g_many_stmts: "g_many (g_stmt f) ss ts \<Longrightarrow> g_stmts f ss ts"
  by (induction rule: g_many.induct) (auto intro: g_stmt_g_block_g_stmts_g_if_g_arm_g_arms.intros)

lemma g_many_arms: "g_many (g_arm f) ss ts \<Longrightarrow> g_arms f ss ts"
  by (induction rule: g_many.induct) (auto intro: g_stmt_g_block_g_stmts_g_if_g_arm_g_arms.intros)

lemmas g_stmt_intros = g_stmt_g_block_g_stmts_g_if_g_arm_g_arms.intros

text \<open>Derived phrases are never empty, and a block's position is its first token's.\<close>

lemma g_label_nonempty: "g_label f l ts \<Longrightarrow> ts \<noteq> []"
  by (erule g_label.cases) auto

lemma g_labels_nonempty: "g_labels f ls ts \<Longrightarrow> ts \<noteq> []"
  by (induction rule: g_labels.induct) (auto dest: g_label_nonempty)

lemma g_stmt_nonempty:
  "g_stmt f s ts \<Longrightarrow> ts \<noteq> []" "g_block f b ts \<Longrightarrow> ts \<noteq> []" "g_stmts f ss ts \<Longrightarrow> True"
  "g_if f s ts \<Longrightarrow> ts \<noteq> []" "g_arm f a ts \<Longrightarrow> ts \<noteq> []" "g_arms f as ts \<Longrightarrow> True"
  by (induction rule: g_stmt_g_block_g_stmts_g_if_g_arm_g_arms.inducts) auto

lemma g_stmt_not_nil: "\<not> g_stmt f s []" "\<not> g_arm f a []"
  using g_stmt_nonempty by blast+

lemma g_block_pos: "g_block f b ts \<Longrightarrow> b_pos b = tok_pos f (hd ts)"
  by (erule g_block.cases) auto

section \<open>Statements without nested statements\<close>

text \<open>\<open>mut\<close> and \<open>= e\<close>, which may be absent.\<close>

lemma wp_accept_mut:
  assumes "trk p0 p P"
    and "\<And>m p'. later p p' \<Longrightarrow> trk p0 p' (followed_by P (g_mut m)) \<Longrightarrow> Q m p'"
  shows "wp (accept (Keyword TOK_KW_MUT) p) Q"
proof (rule wp_accept [OF assms(1)])
  show "Keyword TOK_KW_MUT \<noteq> Special TOK_EOF" by simp
  fix p' assume k: "cur p = Keyword TOK_KW_MUT" and l: "later p p'"
    and t: "trk p0 p' (followed_by P (the_token (cur_tok p)))"
  from t have "trk p0 p' (followed_by P (g_mut True))"
    by (rule trk_right) (use k in \<open>auto simp: lang_defs intro: g_mut.intros\<close>)
  with l show "Q True p'" by (rule assms(2))
next
  have "trk p0 p (followed_by P (g_mut False))"
    using assms(1) by (rule trk_mono) (auto simp: lang_defs intro: g_mut.intros)
  then show "Q False p" by (intro assms(2)) (auto intro: later_refl trk_pwf assms(1))
qed

lemma parses_init:
  "parses c (g_init (fst c)) parse_init"
proof (rule parsesI)
  fix p assume t: "trk p p nothing" and c: "ctx p = c"
  have some: "trk p q (followed_by (the_token t) (opt_lang (g_expr (fst c) 1) r)) \<Longrightarrow> is_punct TOK_EQ t \<Longrightarrow>
      trk p q (g_init (fst c) r)" for q t r
    by (erule trk_mono) (auto simp: lang_defs intro: g_init.intros [simplified])
  have none: "trk p p (g_init (fst c) None)"
    using t by (rule trk_mono) (auto simp: lang_defs intro: g_init.intros)
  show "wp (parse_init p) (\<lambda>r p'. trk p p' (g_init (fst c) r))"
    unfolding parse_init_def by (auto intro!: wp_accept [OF t] wp_call [OF parses_expr _ c] none some)
qed

lemma parses_var_decl:
  assumes t: "trk p p nothing" and c: "ctx p = c" and k: "cur p = Keyword TOK_KW_LET"
  shows "wp (parse_var_decl p) (\<lambda>r p'. trk p p' (opt_lang (g_stmt (fst c)) r))"
proof -
  let ?f = "fst c"
  have var: "trk p q (followed_by (followed_by (followed_by (followed_by (followed_by (the_token (cur_tok p)) (g_mut m)) (g_type ?f T))
      (the_token n)) (g_init ?f i)) (the_token s)) \<Longrightarrow> is_special TOK_IDENT n \<Longrightarrow> is_punct TOK_SEMI s \<Longrightarrow>
   trk p q (g_stmt ?f (STMT_VAR (tok_pos ?f (cur_tok p)) m T (tk_text n) i))" for q m T n i s
    by (erule trk_mono) (use k in \<open>auto simp: lang_defs intro: g_stmt_intros(2) [simplified]\<close>)
  show ?thesis
    unfolding parse_var_decl_def Let_def here_tok_pos [OF t c] using k
    by (auto intro!: wp_advance [OF t] wp_accept_mut wp_call [OF parses_type _ c] wp_expect_ident
        wp_call [OF parses_init _ c] wp_expect split: option.split dest: trk_never intro: var)
qed

lemma parses_return:
  assumes t: "trk p p nothing" and c: "ctx p = c" and k: "cur p = Keyword TOK_KW_RETURN"
  shows "wp (parse_return p) (\<lambda>r p'. trk p p' (opt_lang (g_stmt (fst c)) r))"
proof -
  let ?f = "fst c"
  have ret: "trk p q (followed_by (followed_by (the_token (cur_tok p)) (opt_lang (g_expr ?f 1) e)) (the_token s)) \<Longrightarrow>
      is_punct TOK_SEMI s \<Longrightarrow> trk p q (g_stmt ?f (STMT_RETURN (tok_pos ?f (cur_tok p)) e))" for q e s
    by (erule trk_mono) (use k in \<open>auto simp: lang_defs intro: g_stmt_intros(7) [simplified]\<close>)
  have ret0: "trk p q (followed_by (the_token (cur_tok p)) (the_token s)) \<Longrightarrow>
      is_punct TOK_SEMI s \<Longrightarrow> trk p q (g_stmt ?f (STMT_RETURN (tok_pos ?f (cur_tok p)) None))" for q s
    by (erule trk_mono) (use k in \<open>auto simp: lang_defs intro: g_stmt_intros(6) [simplified]\<close>)
  show ?thesis
    unfolding parse_return_def Let_def here_tok_pos [OF t c] at_def using k
    by (auto intro!: wp_advance [OF t] wp_call [OF parses_expr _ c] wp_expect dest: trk_never intro: ret ret0)
qed

lemma parses_jump:
  assumes t: "trk p p nothing" and c: "ctx p = c"
    and k: "cur p = Keyword TOK_KW_BREAK \<and> mk = STMT_BREAK \<or> cur p = Keyword TOK_KW_CONTINUE \<and> mk = STMT_CONTINUE"
  shows "wp (parse_jump mk p) (\<lambda>r p'. trk p p' (opt_lang (g_stmt (fst c)) r))"
proof -
  let ?f = "fst c"
  have jump: "trk p q (followed_by (the_token (cur_tok p)) (the_token s)) \<Longrightarrow>
      is_punct TOK_SEMI s \<Longrightarrow> trk p q (opt_lang (g_stmt ?f) (Some (mk (tok_pos ?f (cur_tok p)))))" for q s
    by (erule trk_mono) (use k in \<open>auto simp: lang_defs intro: g_stmt_intros(8,9) [simplified]\<close>)
  have "cur p \<noteq> Special TOK_EOF" using k by auto
  then show ?thesis
    unfolding parse_jump_def Let_def here_tok_pos [OF t c]
    by (auto intro!: wp_advance [OF t] wp_expect dest: trk_never intro: jump [simplified])
qed

lemma parses_expr_stmt: "parses c (opt_lang (g_stmt (fst c))) parse_expr_stmt"
proof (rule parsesI)
  fix p assume t: "trk p p nothing" and c: "ctx p = c"
  let ?f = "fst c"
  have expr: "trk p q (followed_by (g_expr ?f 1 e) (the_token s)) \<Longrightarrow> is_punct TOK_SEMI s \<Longrightarrow>
      trk p q (g_stmt ?f (STMT_EXPR (tok_pos ?f (cur_tok p)) e))" for q e s
  proof (drule trk_hd, erule trk_mono)
    fix ts assume s: "is_punct TOK_SEMI s" and "followed_by (g_expr ?f 1 e) (the_token s) ts \<and> (ts \<noteq> [] \<longrightarrow> hd ts = cur_tok p)"
    then obtain xs where xs: "g_expr ?f 1 e xs" "ts = xs @ [s]" "hd ts = cur_tok p" by (auto simp: lang_defs)
    with g_expr_nonempty(1) [OF xs(1)] obtain ys where "xs = [cur_tok p] @ ys" by (cases xs) auto
    with xs s show "g_stmt ?f (STMT_EXPR (tok_pos ?f (cur_tok p)) e) ts" using g_stmt_intros(11) by fastforce
  qed
  have assign: "trk p q (followed_by (followed_by (followed_by (g_expr ?f 1 e) (the_token t)) (opt_lang (g_expr ?f 1) v)) (the_token s)) \<Longrightarrow>
      assign_op (tk_kind t) \<Longrightarrow> is_punct TOK_SEMI s \<Longrightarrow> trk p q (g_stmt ?f (STMT_ASSIGN (tok_pos ?f t) e (tk_kind t) v))" for q e t v s
    by (erule trk_mono) (auto simp: lang_defs intro: g_stmt_intros(12) [simplified])
  have op: "is_assign_op k \<Longrightarrow> assign_op k" "is_assign_op k \<Longrightarrow> k \<noteq> Special TOK_EOF" for k
    by (auto simp: is_assign_op_def assign_op_def split: token_kind.splits punct.splits)
  show "wp (parse_expr_stmt p) (\<lambda>r p'. trk p p' (opt_lang (g_stmt ?f) r))"
    unfolding parse_expr_stmt_def Let_def here_tok_pos [OF t c]
    by (auto simp: here_tok_pos [OF _ c] intro!: wp_advance wp_call [OF parses_expr _ c] wp_call [OF parses_expr t c] wp_expect
        split: option.split dest: trk_never op(2) intro: expr assign [OF _ op(1)])
qed

section \<open>Statements with nested statements\<close>

lemma parses_match_label: "parses c (opt_lang (g_label (fst c))) parse_match_label"
proof (rule parsesI)
  fix p assume t: "trk p p nothing" and c: "ctx p = c"
  let ?f = "fst c" and ?t = "cur_tok p"
  have leaf: "trk p q (the_token ?t) \<Longrightarrow> g_label ?f l [?t] \<Longrightarrow> trk p q (g_label ?f l)" for q l
    by (erule trk_mono) (simp add: lang_defs)
  show "wp (parse_match_label p) (\<lambda>r p'. trk p p' (opt_lang (g_label ?f) r))"
    unfolding parse_match_label_def Let_def here_tok_pos [OF t c] at_def
    by (auto intro!: wp_advance [OF t] wp_error_unexpected [OF t] leaf g_label.intros)
qed

definition labels_comma :: "string \<Rightarrow> match_label list \<Rightarrow> lang" where
  "labels_comma f ls ts \<longleftrightarrow> (ls = [] \<and> ts = []) \<or> (\<exists>xs t. g_labels f ls xs \<and> is_punct TOK_COMMA t \<and> ts = xs @ [t])"

lemma parses_match_labels: "parses c (opt_lang (g_labels (fst c))) parse_match_labels"
proof (rule parsesI)
  fix p assume t: "trk p p nothing" and c: "ctx p = c"
  let ?f = "fst c"
  have start: "trk p p (labels_comma ?f [])" using t by (rule trk_mono) (simp add: nothing_def labels_comma_def)
  have one: "trk p q (followed_by (labels_comma ?f ls) (g_label ?f l)) \<Longrightarrow> trk p q (g_labels ?f (ls @ [l]))" for q ls l
    by (erule trk_mono) (auto simp: lang_defs labels_comma_def intro: g_labels.one g_labels.more [simplified])
  have comma: "trk p q (followed_by (g_labels ?f ls) (the_token t)) \<Longrightarrow> is_punct TOK_COMMA t \<Longrightarrow> trk p q (labels_comma ?f ls)" for q ls t
    by (erule trk_mono) (auto simp: lang_defs labels_comma_def)
  show "wp (parse_match_labels p) (\<lambda>r p'. trk p p' (opt_lang (g_labels ?f) r))"
    unfolding parse_match_labels_def
  proof (rule wp_token_loop [where L = "labels_comma ?f" and J = "\<lambda>_. True", OF start TrueI], goal_cases)
    case (1 ls q)
    show ?case
      by (auto intro!: wp_call [OF parses_match_label 1(1) c] wp_accept [OF one] comma split: option.split
          dest!: later_togo dest: one trk_never)
  qed
qed

text \<open>The interface of the routine for nested statements.\<close>

locale nested_stmt =
  fixes ps :: "stmt option parse" and c :: "string \<times> nat"
  assumes ps: "parses c (opt_lang (g_stmt (fst c))) ps"
begin

lemma block: "parses c (g_block (fst c)) (parse_block ps)"
proof (rule parsesI)
  fix p assume t: "trk p p nothing" and c: "ctx p = c"
  let ?f = "fst c"
  note stmts = parses_braced_list [OF ps parses_sync_stmt g_stmt_not_nil(1)]
  have step: "trk p q (followed_by (followed_by (the_token l) (g_many (g_stmt ?f) ss)) (the_token r)) \<Longrightarrow>
      is_punct TOK_LBRACE l \<Longrightarrow> is_punct TOK_RBRACE r \<Longrightarrow> trk p q (g_block ?f (Block ss (tok_pos ?f l)))" for q l ss r
    by (erule trk_mono) (auto simp: lang_defs intro: g_stmt_intros(13) [simplified] dest!: g_many_stmts)
  show "wp (parse_block ps p) (\<lambda>r p'. trk p p' (g_block ?f r))"
    unfolding parse_block_def Let_def here_tok_pos [OF t c]
    by (auto intro!: wp_expect [OF t] wp_expect wp_call [OF stmts _ c] dest: trk_never intro: step)
qed

definition block_stmt :: "string \<Rightarrow> stmt \<Rightarrow> lang" where
  "block_stmt f s ts \<longleftrightarrow> (\<exists>b. s = STMT_BLOCK (b_pos b) b \<and> g_block f b ts)"

lemma block_stmt: "parses c (opt_lang (block_stmt (fst c))) (parse_block_stmt ps)"
proof (rule parsesI)
  fix p assume t: "trk p p nothing" and c: "ctx p = c"
  let ?f = "fst c"
  have step: "trk p q (g_block ?f b) \<Longrightarrow> trk p q (block_stmt ?f (STMT_BLOCK (tok_pos ?f (cur_tok p)) b))" for q b
    by (drule trk_hd, erule trk_mono) (auto simp: block_stmt_def g_block_pos dest: g_stmt_nonempty(2))
  show "wp (parse_block_stmt ps p) (\<lambda>r p'. trk p p' (opt_lang (block_stmt ?f) r))"
    unfolding parse_block_stmt_def Let_def here_tok_pos [OF t c]
    by (auto intro!: wp_call [OF block t c] step)
qed

lemma while_stmt:
  assumes t: "trk p p nothing" and c: "ctx p = c" and k: "cur p = Keyword TOK_KW_WHILE"
  shows "wp (parse_while ps p) (\<lambda>r p'. trk p p' (opt_lang (g_stmt (fst c)) r))"
proof -
  let ?f = "fst c"
  have step: "trk p q (followed_by (followed_by (the_token (cur_tok p)) (opt_lang (g_expr ?f 1) e)) (g_block ?f b)) \<Longrightarrow>
      trk p q (g_stmt ?f (STMT_WHILE (tok_pos ?f (cur_tok p)) e b))" for q e b
    by (erule trk_mono) (use k in \<open>auto simp: lang_defs intro: g_stmt_intros(4) [simplified]\<close>)
  show ?thesis
    unfolding parse_while_def Let_def here_tok_pos [OF t c] using k
    by (auto intro!: wp_advance [OF t] wp_call [OF parses_expr _ c] wp_call [OF block _ c] intro: step)
qed

lemma match_arm: "parses c (opt_lang (g_arm (fst c))) (parse_match_arm ps)"
proof (rule parsesI)
  fix p assume t: "trk p p nothing" and c: "ctx p = c"
  let ?f = "fst c"
  have step: "trk p q (g_arm ?f (MatchArm (tok_pos ?f (cur_tok p)) ls s))"
    if "trk p q (followed_by (followed_by (g_labels ?f ls) (the_token a)) (g_stmt ?f s))" "is_punct TOK_FAT_ARROW a" for q ls a s
    using trk_hd [OF that(1)]
  proof (rule trk_mono)
    fix ts assume "followed_by (followed_by (g_labels ?f ls) (the_token a)) (g_stmt ?f s) ts \<and> (ts \<noteq> [] \<longrightarrow> hd ts = cur_tok p)"
    then obtain xs ys where x: "g_labels ?f ls xs" "g_stmt ?f s ys" "ts = xs @ [a] @ ys" "hd ts = cur_tok p"
      by (auto simp: lang_defs)
    moreover have "hd xs = hd ts" using x(3) g_labels_nonempty [OF x(1)] by (cases xs) auto
    ultimately show "g_arm ?f (MatchArm (tok_pos ?f (cur_tok p)) ls s) ts"
      using that(2) g_stmt_intros(19) [of ?f ls xs a s ys] by simp
  qed
  have step': "trk p q (followed_by (followed_by (g_labels ?f ls) (the_token a)) (opt_lang (g_stmt ?f) r)) \<Longrightarrow>
      is_punct TOK_FAT_ARROW a \<Longrightarrow>
      trk p q (opt_lang (g_arm ?f) (map_option (MatchArm (tok_pos ?f (cur_tok p)) ls) r))" for q ls a r
    by (cases r) (auto intro: step dest: trk_never)
  show "wp (parse_match_arm ps p) (\<lambda>r p'. trk p p' (opt_lang (g_arm ?f) r))"
    unfolding parse_match_arm_def Let_def here_tok_pos [OF t c]
    by (auto intro!: wp_call [OF parses_match_labels t c] wp_expect wp_call [OF ps _ c] split: option.split
        dest: trk_never intro: step')
qed

lemma match_stmt:
  assumes t: "trk p p nothing" and c: "ctx p = c" and k: "cur p = Keyword TOK_KW_MATCH"
  shows "wp (parse_match ps p) (\<lambda>r p'. trk p p' (opt_lang (g_stmt (fst c)) r))"
proof -
  let ?f = "fst c"
  note arms = parses_braced_list [OF match_arm parses_sync_stmt g_stmt_not_nil(2)]
  have step: "trk p q (followed_by (followed_by (followed_by (followed_by (the_token (cur_tok p)) (opt_lang (g_expr ?f 1) e))
      (the_token l)) (g_many (g_arm ?f) as)) (the_token r)) \<Longrightarrow> is_punct TOK_LBRACE l \<Longrightarrow> is_punct TOK_RBRACE r \<Longrightarrow>
      trk p q (g_stmt ?f (STMT_MATCH (tok_pos ?f (cur_tok p)) e as))" for q e l as r
    by (erule trk_mono) (use k in \<open>auto simp: lang_defs intro: g_stmt_intros(5) [simplified] dest!: g_many_arms\<close>)
  show ?thesis
    unfolding parse_match_def Let_def here_tok_pos [OF t c] using k
    by (auto intro!: wp_advance [OF t] wp_call [OF parses_expr _ c] wp_expect wp_call [OF arms _ c]
        dest: trk_never intro: step)
qed

lemma if_n:
  "trk p p nothing \<Longrightarrow> ctx p = c \<Longrightarrow> cur p = Keyword TOK_KW_IF \<Longrightarrow> togo p < n \<Longrightarrow>
   wp (parse_if_n n ps p) (\<lambda>r p'. trk p p' (opt_lang (g_if (fst c)) r))"
proof (induction n arbitrary: p)
  case 0
  then show ?case by simp
next
  case (Suc n)
  note t = Suc.prems(1) and c = Suc.prems(2) and k = Suc.prems(3)
  let ?f = "fst c" and ?i = "cur_tok p"
  let ?P = "\<lambda>e b. followed_by (followed_by (the_token ?i) (opt_lang (g_expr ?f 1) e)) (g_block ?f b)"
  have rec: "wp (parse_if_n n ps q) (\<lambda>r p'. trk q p' (opt_lang (g_if ?f) r))"
    if "trk p q P" "togo q < togo p" "cur q = Keyword TOK_KW_IF" for q P
    using that Suc.prems(4) trk_ctx [OF that(1)] c by (intro Suc.IH trk_start trk_pwf [OF that(1)]) auto
  have none: "trk p q (?P e b) \<Longrightarrow> trk p q (g_if ?f (STMT_IF (tok_pos ?f ?i) e b None))" for q e b
    by (erule trk_mono) (use k in \<open>auto simp: lang_defs intro: g_stmt_intros(16) [simplified]\<close>)
  have els: "trk p q (followed_by (followed_by (?P e b) (the_token t)) (opt_lang (block_stmt ?f) s)) \<Longrightarrow> is_word TOK_KW_ELSE t \<Longrightarrow>
      trk p q (g_if ?f (STMT_IF (tok_pos ?f ?i) e b s))" for q e b t s
    by (erule trk_mono) (use k in \<open>auto simp: lang_defs block_stmt_def intro: g_stmt_intros(17) [simplified]\<close>)
  have elif: "trk p q (followed_by (followed_by (?P e b) (the_token t)) (opt_lang (g_if ?f) s)) \<Longrightarrow> is_word TOK_KW_ELSE t \<Longrightarrow>
      trk p q (g_if ?f (STMT_IF (tok_pos ?f ?i) e b s))" for q e b t s
    by (erule trk_mono) (use k in \<open>auto simp: lang_defs intro: g_stmt_intros(18) [simplified]\<close>)
  show ?case
    unfolding parse_if_n.simps Let_def here_tok_pos [OF t c] at_def using k
    by (auto intro!: wp_advance [OF t] wp_call [OF parses_expr _ c] wp_call [OF block _ c] wp_accept
        wp_call [OF block_stmt _ c] wp_error_unexpected wp_then [OF rec] none
        dest: trk_never dest!: later_togo intro: els elif)
qed

lemma stmt_body: "parses c (opt_lang (g_stmt (fst c))) (parse_stmt_body ps)"
proof (rule parsesI)
  fix p assume t: "trk p p nothing" and c: "ctx p = c"
  let ?f = "fst c"
  have if_stmt: "trk p q (opt_lang (g_if ?f) s) \<Longrightarrow> trk p q (opt_lang (g_stmt ?f) s)" for q s
    by (erule trk_mono) (auto simp: opt_lang_def intro: g_stmt_intros(3))
  have blk: "trk p q (opt_lang (block_stmt ?f) s) \<Longrightarrow> trk p q (opt_lang (g_stmt ?f) s)" for q s
    by (erule trk_mono) (auto simp: opt_lang_def block_stmt_def intro: g_stmt_intros(1))
  have empty: "trk p q (the_token s) \<Longrightarrow> is_punct TOK_SEMI s \<Longrightarrow> trk p q (g_stmt ?f (STMT_EMPTY (tok_pos ?f s)))" for q s
    by (erule trk_mono) (auto simp: lang_defs intro: g_stmt_intros(10))
  have 1: "wp (parse_if ps p) (\<lambda>r p'. trk p p' (opt_lang (g_stmt ?f) r))" if "cur p = Keyword TOK_KW_IF"
    unfolding parse_if_def by (rule wp_mono [OF if_n [OF t c that]]) (auto simp: turns_togo intro: if_stmt)
  have 2: "wp (parse_block_stmt ps p) (\<lambda>r p'. trk p p' (opt_lang (g_stmt ?f) r))"
    by (auto intro!: wp_call [OF block_stmt t c] blk)
  have 3: "wp (parse_expr_stmt p) (\<lambda>r p'. trk p p' (opt_lang (g_stmt ?f) r))"
    by (auto intro!: wp_call [OF parses_expr_stmt t c])
  have 4: "cur p = Punct TOK_SEMI \<Longrightarrow> wp (advance p) (\<lambda>_ p'. trk p p' (g_stmt ?f (STMT_EMPTY (tok_pos ?f (cur_tok p)))))"
    by (auto intro!: wp_advance [OF t] empty)
  note ks = parses_var_decl [OF t c] while_stmt [OF t c] match_stmt [OF t c] parses_return [OF t c] parses_jump [OF t c]
  show "wp (parse_stmt_body ps p) (\<lambda>r p'. trk p p' (opt_lang (g_stmt ?f) r))"
  proof (cases "cur p")
    case (Punct k)
    then show ?thesis
      by (cases k) (auto simp: parse_stmt_body_def Let_def here_tok_pos [OF t c] 2 3 simp del: cur_def dest: 4)
  next
    case (Keyword k)
    then show ?thesis by (cases k) (auto simp: parse_stmt_body_def 3 simp del: cur_def intro: 1 ks)
  next
    case (Special k)
    then show ?thesis by (auto simp: parse_stmt_body_def 3 simp del: cur_def)
  qed
qed

end

section \<open>Closing the recursion\<close>

lemma parse_stmt_n: "parses (f, d) (opt_lang (g_stmt f)) (parse_stmt_n n)" if "MAX_NESTING < d + n"
  using that
proof (induction n arbitrary: d)
  case 0
  then show ?case by (auto simp: parses_def pwf_def ctx_def)
next
  case (Suc n)
  show ?case
  proof (rule parsesI)
    fix p assume t: "trk p p nothing" and c: "ctx p = (f, d)"
    show "wp (parse_stmt_n (Suc n) p) (\<lambda>r p'. trk p p' (opt_lang (g_stmt f) r))"
    proof (cases "ps_depth p \<ge> MAX_NESTING")
      case True
      with t show ?thesis by (auto intro: wp_p_error)
    next
      case False
      let ?p = "p\<lparr>ps_depth := ps_depth p + 1\<rparr>"
      have "nested_stmt (parse_stmt_n n) (f, Suc d)"
        using Suc.IH [of "Suc d"] Suc.prems by (intro nested_stmt.intro) simp
      note lo = nested_stmt.stmt_body [OF this]
      have w: "pwf ?p" and cc: "ctx ?p = (f, Suc d)"
        using trk_pwf [OF t] c False by (simp_all add: pwf_def ctx_def)
      have "wp (parse_stmt_body (parse_stmt_n n) ?p) (\<lambda>r p'. trk ?p p' (opt_lang (g_stmt f) r))"
        using lo w cc by (simp add: parses_def)
      moreover have "trk ?p q P \<Longrightarrow> trk p (q\<lparr>ps_depth := ps_depth q - 1\<rparr>) P" for q P
        by (auto simp: trk_def later_def pwf_def eaten_def)
      ultimately show ?thesis using False by (auto elim!: wp_mono)
    qed
  qed
qed

lemma parses_stmt: "parses c (opt_lang (g_stmt (fst c))) parse_stmt"
proof (rule parsesI)
  fix p assume t: "trk p p nothing" and c: "ctx p = c"
  have "parses (ps_file p, ps_depth p) (opt_lang (g_stmt (ps_file p))) (parse_stmt_n (Suc MAX_NESTING - ps_depth p))"
    by (rule parse_stmt_n) (use trk_pwf [OF t] in \<open>simp add: pwf_def\<close>)
  then have "wp (parse_stmt_n (Suc MAX_NESTING - ps_depth p) p) (\<lambda>r p'. trk p p' (opt_lang (g_stmt (ps_file p)) r))"
    using trk_pwf [OF t] by (simp add: parses_def ctx_def)
  then show "wp (parse_stmt p) (\<lambda>r p'. trk p p' (opt_lang (g_stmt (fst c)) r))"
    using c by (auto simp: parse_stmt_def ctx_def)
qed

text \<open>The interface, on the parser itself.\<close>

interpretation st: nested_stmt parse_stmt c for c
  by (rule nested_stmt.intro) (rule parses_stmt)

end
