(* ===== verification/Slop_Lexer_Props.thy ===== *)
theory Slop_Lexer_Props
  imports Slop_Lexer
begin

text \<open>
  What the lexer of \<open>Slop_Lexer\<close> guarantees: the token list tiles the source, words and punctuators
  are the longest ones, and an integer literal is either exact or reported.
\<close>

section \<open>The token list is the source\<close>

lemma lexer_lex_all_ok:
  "\<exists>ts lx. lexer_lex_all strtod (lexer_init f src) = Some (ts, error_tokens ts, lx)
     \<and> tiles src 0 ts
     \<and> (\<exists>gaps. length gaps = length ts \<and> list_all is_trivia gaps
          \<and> src = concat (map2 (@) gaps (map tk_text ts)))"
proof -
  let ?i = "lexer_init f src"
  have i: "lx_src ?i = src" "lx_cur ?i = 0" "lx_errors ?i = 0" by (simp_all add: lexer_init_def)
  obtain ts lx where l: "lex_loop strtod (left ?i + 1) ?i = Some (ts, lx)"
    using lex_loop_total [OF well_placed_init] by fastforce
  from lex_loop_tiles [OF well_placed_init l] i
  have t: "tiles src 0 ts" "lx_errors lx = error_tokens ts" by simp_all
  from tiles_source [OF t(1)] have "\<exists>gaps. length gaps = length ts \<and> list_all is_trivia gaps
          \<and> src = concat (map2 (@) gaps (map tk_text ts))" by (simp add: list_all_iff)
  with l t show ?thesis by (simp add: lexer_lex_all_def)
qed

text \<open>
  C6. \<open>lexer_lex_all\<close> always returns. Its tokens tile the source: the source is their texts in order with
  nothing between them but white space and comments; each token carries the line and column of its
  first byte; the list ends with the only end-of-file token; and the number it returns is the
  number of error tokens in the list.
\<close>
theorem lexer_lex_all_tiles:
  "\<exists>ts lx. lexer_lex_all strtod (lexer_init f src) = Some (ts, error_tokens ts, lx)
     \<and> tiles src 0 ts
     \<and> (\<exists>gaps. length gaps = length ts \<and> list_all is_trivia gaps
          \<and> src = concat (map2 (@) gaps (map tk_text ts)))"
  by (rule lexer_lex_all_ok)

section \<open>Words and punctuators\<close>

lemma scan_ident_text:
  assumes "in_source l"
  shows "segment (lx_cur l) (lx_cur (scan_while p l)) (lx_src l) = takeWhile p (drop (lx_cur l) (lx_src l))"
  using assms by (simp add: scan_while_cur segment_def takeWhile_eq_take [symmetric])

lemma finish_kind [simp]: "tk_kind (finish l t k) = k"
  by (simp add: finish_def)

lemma error_kind [simp]: "tk_kind (fst (error_at l t msg)) = Special TOK_ERROR"
  by (simp add: error_at_def)

lemma error_kindD: "(t', l') = error_at l t m \<Longrightarrow> tk_kind t' = Special TOK_ERROR"
  by (metis error_kind fst_conv)

lemma finish_int_kind: "tk_kind (fst (finish_int l t v ov)) \<in> {Special TOK_INT, Special TOK_ERROR}"
  by (simp add: finish_int_def)

lemma lex_number_kind: "tk_kind (fst (lex_number strtod l t)) \<in> {Special TOK_INT, Special TOK_FLOAT, Special TOK_ERROR}"
proof -
  obtain v ov l2 where h: "digits_loop is_hex_digit hex_val 16 (advance_by 2 l) 0 False = (v, ov, l2)"
    by (metis prod_cases3)
  obtain w ow l3 where d: "digits_loop is_digit (\<lambda>c. code c - code CHR ''0'') 10 l 0 False = (w, ow, l3)"
    by (metis prod_cases3)
  show ?thesis
    unfolding lex_number_def Let_def h d prod.case
    using finish_int_kind [of l2 t v ov] finish_int_kind [of l3 t w ow] by auto
qed

lemma lex_char_kind: "tk_kind (fst (lex_char l t)) \<in> {Special TOK_CHAR, Special TOK_ERROR}"
  by (simp add: lex_char_def Let_def split: prod.split sum.split)

lemma string_loop_kind: "tk_kind (fst (string_loop l t buf)) \<in> {Special TOK_STRING, Special TOK_ERROR}"
proof (induction l t buf rule: string_loop.induct)
  case (1 l t buf)
  then show ?case
    by (subst string_loop.simps) (auto simp: Let_def split: prod.split sum.split)
qed

lemma lexer_next_cases:
  assumes "lexer_next strtod lx = (t, lx')"
  defines "l \<equiv> skip_trivia lx"
  obtains (eof) "at_end l" "tk_kind t = Special TOK_EOF"
  | (word) t0 where "\<not> at_end l" "is_ident_start (char_at l 0)" "tk_pos t0 = lx_cur l" "(t, lx') = lex_ident l t0"
  | (lit) "\<not> at_end l" "tk_kind t \<in> Special ` {TOK_INT, TOK_FLOAT, TOK_CHAR, TOK_STRING, TOK_ERROR}"
  | (punct) t0 p sp where "\<not> at_end l" "punct_at (drop (lx_cur l) (lx_src l)) = Some (p, sp)"
      "tk_pos t0 = lx_cur l" "t = finish (advance_by (length sp) l) t0 (Punct p)"
proof -
  define t0 where "t0 = \<lparr>tk_kind = Special TOK_EOF, tk_pos = lx_cur l, tk_text = [], tk_line = lx_line l,
       tk_col = lx_cur l - lx_line_start l + 1, tk_val = Ival 0\<rparr>"
  have p0: "tk_pos t0 = lx_cur l" by (simp add: t0_def)
  note n = assms(1) [unfolded lexer_next_def Let_def, folded l_def, folded t0_def]
  let ?c = "char_at l 0"
  show ?thesis
  proof (cases "at_end l")
    case True
    with n have "tk_kind t = Special TOK_EOF" by (auto simp: t0_def)
    with True show ?thesis by (rule eof)
  next
    case False
    show ?thesis
    proof (cases "is_ident_start ?c")
      case True
      with n False show ?thesis by (intro word [OF False True p0]) simp
    next
      case noword: False
      show ?thesis
      proof (cases "is_digit ?c \<or> ?c = CHR 0x27 \<or> ?c = CHR 0x22 \<or> punct_at (drop (lx_cur l) (lx_src l)) = None")
        case True
        with n False noword have "(t, lx') = lex_number strtod l t0 \<or> (t, lx') = lex_char l t0
            \<or> (t, lx') = string_loop (bump l) t0 [] \<or> (\<exists>m. (t, lx') = error_at (bump l) t0 m)"
          by (auto simp: lex_string_def split: if_splits) metis+
        then have "tk_kind t \<in> Special ` {TOK_INT, TOK_FLOAT, TOK_CHAR, TOK_STRING, TOK_ERROR}"
          using lex_number_kind [of strtod l t0] lex_char_kind [of l t0] string_loop_kind [of "bump l" t0 "[]"]
          by (elim disjE exE) (drule error_kindD, simp | drule arg_cong [where f = fst], auto)+
        with False show ?thesis by (rule lit)
      next
        case nolit: False
        then obtain p sp where pa: "punct_at (drop (lx_cur l) (lx_src l)) = Some (p, sp)" by auto
        with n False noword nolit show ?thesis by (intro punct [OF False pa p0]) auto
      qed
    qed
  qed
qed

lemma lexer_next_munch:
  assumes "well_placed lx" and "lexer_next strtod lx = (t, lx')" and rest_def: "rest = drop (tk_pos t) (lx_src lx)"
  shows "case tk_kind t of
      Punct p \<Rightarrow> (p, tk_text t) \<in> set SLOP_PUNCT \<and> take (length (tk_text t)) rest = tk_text t
        \<and> list_all (\<lambda>(q, sq). take (length sq) rest = sq \<longrightarrow> length sq \<le> length (tk_text t)) SLOP_PUNCT
    | Keyword k \<Rightarrow> tk_text t = takeWhile is_ident_cont rest \<and> (k, tk_text t) \<in> set SLOP_KEYWORDS
    | Special s \<Rightarrow> s = TOK_IDENT \<longrightarrow> tk_text t = takeWhile is_ident_cont rest \<and> is_ident_start (hd rest)
        \<and> tk_text t \<notin> snd ` set SLOP_KEYWORDS"
proof -
  define l where "l = skip_trivia lx"
  have ins: "in_source l" and src: "lx_src l = lx_src lx"
    using skip_trivia_spec [OF assms(1)] by (simp_all add: l_def well_placed_def)
  have rest: "rest = drop (lx_cur l) (lx_src l)"
    using takes_lexer_next(1) [OF assms(1,2)] by (simp add: rest_def l_def)
  from assms(2) show ?thesis
  proof (cases rule: lexer_next_cases)
    case eof
    then show ?thesis by simp
  next
    case (word t0)
    note word = word [folded l_def]
    have d: "rest = char_at l 0 # drop (Suc (lx_cur l)) (lx_src l)"
      unfolding rest using word(1) by (rule drop_cur)
    from word(4) have t: "t = fst (lex_ident l t0)" by (metis fst_conv)
    show ?thesis
      unfolding t lex_ident_def Let_def rest using ins word(2,3)
      by (auto simp: d [unfolded rest] finish_def scan_ident_text keyword_of_iff keyword_of_None split: option.splits)
  next
    case lit
    then show ?thesis by auto
  next
    case (punct t0 p sp)
    note punct = punct [folded l_def, folded rest]
    note sp = punct_at_Some [OF punct(2)]
    from punct(3,4) have "tk_text t = sp" and "tk_kind t = Punct p"
      using sp(2) by (simp_all add: finish_def segment_def rest)
    with sp punct_at_longest [OF punct(2)] show ?thesis by (auto simp: list_all_iff)
  qed
qed

text \<open>
  C7. Maximal munch and keyword recognition. A punctuator token is the longest spelling of the table that
  the source has at that place; a word is the whole run of identifier characters there, and it is
  the keyword with that spelling when the table has one and an identifier otherwise.
\<close>
theorem lexer_next_maximal_munch:
  assumes "well_placed lx" and "lexer_next strtod lx = (t, lx')" and rest_def: "rest = drop (tk_pos t) (lx_src lx)"
  shows "case tk_kind t of
      Punct p \<Rightarrow> (p, tk_text t) \<in> set SLOP_PUNCT \<and> take (length (tk_text t)) rest = tk_text t
        \<and> list_all (\<lambda>(q, sq). take (length sq) rest = sq \<longrightarrow> length sq \<le> length (tk_text t)) SLOP_PUNCT
    | Keyword k \<Rightarrow> tk_text t = takeWhile is_ident_cont rest \<and> (k, tk_text t) \<in> set SLOP_KEYWORDS
    | Special s \<Rightarrow> s = TOK_IDENT \<longrightarrow> tk_text t = takeWhile is_ident_cont rest \<and> is_ident_start (hd rest)
        \<and> tk_text t \<notin> snd ` set SLOP_KEYWORDS"
  using assms by (rule lexer_next_munch)

theorem lexer_next_maximal_munch_witness:
  "tk_kind (fst (lexer_next (\<lambda>_. 0) (lexer_init None '' <<= x''))) = Punct TOK_SHL_EQ
   \<and> list_all (\<lambda>(q, sq). take (length sq) ''<<= x'' = sq \<longrightarrow> length sq \<le> 3) SLOP_PUNCT"
proof -
  obtain t lx where n: "lexer_next (\<lambda>_. 0) (lexer_init None '' <<= x'') = (t, lx)" by fastforce
  have v: "tk_kind (fst (lexer_next (\<lambda>_. 0) (lexer_init None '' <<= x''))) = Punct TOK_SHL_EQ"
    "tk_pos (fst (lexer_next (\<lambda>_. 0) (lexer_init None '' <<= x''))) = 1"
    "tk_text (fst (lexer_next (\<lambda>_. 0) (lexer_init None '' <<= x''))) = ''<<=''"
    by code_simp+
  with n have "tk_kind t = Punct TOK_SHL_EQ" "tk_pos t = 1" "tk_text t = ''<<=''" by simp_all
  with lexer_next_maximal_munch [OF well_placed_init n refl] v(1) show ?thesis
    by (simp add: lexer_init_def numeral_3_eq_3)
qed

section \<open>Integer literals\<close>

text \<open>The number a run of digits stands for, with the digit values of \<open>val\<close>.\<close>

definition radix_value :: "(char \<Rightarrow> nat) \<Rightarrow> nat \<Rightarrow> string \<Rightarrow> nat" where
  "radix_value val base s = foldl (\<lambda>v c. v * base + val c) 0 s"

lemma unat_max_minus: "d < 2 ^ 64 \<Longrightarrow> unat (- 1 - word_of_nat d :: u64) = 2 ^ 64 - 1 - d"
proof -
  have m: "unat (- 1 :: u64) = 2 ^ 64 - 1" by (simp add: unsigned_minus_1_eq_mask mask_eq_exp_minus_1)
  assume "d < 2 ^ 64"
  then have d: "unat (word_of_nat d :: u64) = d" by (simp add: unat_of_nat)
  have "(word_of_nat d :: u64) \<le> - 1" by (simp add: word_le_nat_alt m d) (use \<open>d < 2 ^ 64\<close> in simp)
  then show ?thesis using m d by (simp add: unat_sub)
qed

text \<open>The test made before a step fails exactly when the step leaves 64 bits.\<close>

lemma overflow_test:
  assumes "d < base" and "base \<le> 16" and "base > 0"
  shows "v > (- 1 - word_of_nat d) div word_of_nat base \<longleftrightarrow> unat (v :: u64) * base + d \<ge> 2 ^ 64"
proof -
  have b: "unat (word_of_nat base :: u64) = base"
    using assms by (simp add: unat_of_nat)
  have "v > (- 1 - word_of_nat d) div word_of_nat base \<longleftrightarrow> (2 ^ 64 - 1 - d) div base < unat v"
    using assms by (simp add: word_less_nat_alt unat_div b unat_max_minus)
  also have "\<dots> \<longleftrightarrow> 2 ^ 64 - 1 - d < unat v * base"
    using assms(3) by (rule div_less_iff_less_mult)
  finally show ?thesis using assms by auto
qed

lemma digits_loop_value:
  assumes "digits_loop isd val base lx v ov = (v', ov', lx')" and "in_source lx"
    and "base = word_of_nat b" and "\<And>c. isd c \<Longrightarrow> val c < b" and "b \<le> 16" and "b > 0"
    and "\<not> ov \<Longrightarrow> unat v = n" and "ov \<Longrightarrow> n \<ge> 2 ^ 64"
  defines "m \<equiv> foldl (\<lambda>v c. v * b + val c) n (takeWhile isd (drop (lx_cur lx) (lx_src lx)))"
  shows "(\<not> ov' \<longrightarrow> unat v' = m) \<and> (ov' \<longleftrightarrow> m \<ge> 2 ^ 64)"
  using assms unfolding m_def
proof (induction isd val base lx v ov arbitrary: n rule: digits_loop.induct)
  case (1 isd val base lx v ov)
  show ?case
  proof (cases "\<not> at_end lx \<and> isd (char_at lx 0)")
    case True
    let ?d = "val (char_at lx 0)"
    have d: "?d < b" using True 1(5) by blast
    have du: "unat (word_of_nat ?d :: u64) = ?d" "unat (word_of_nat b :: u64) = b"
      using d 1(6) by (simp_all add: unat_of_nat)
    let ?ov = "if v > (- 1 - word_of_nat ?d) div base then True else ov"
    have step: "digits_loop isd val base (bump lx) (v * base + word_of_nat ?d) ?ov = (v', ov', lx')"
      using 1(2) True by (subst (asm) digits_loop.simps) (simp add: Let_def)
    have test: "v > (- 1 - word_of_nat ?d) div base \<longleftrightarrow> unat v * b + ?d \<ge> 2 ^ 64"
      unfolding 1(4) using d 1(6,7) by (rule overflow_test)
    have val: "unat (v * base + word_of_nat ?d) = n * b + ?d" if "\<not> ?ov"
    proof -
      from that have "\<not> ov" "unat v * b + ?d < 2 ^ 64" using test by (auto split: if_splits)
      with 1(8) show ?thesis
        by (simp add: 1(4) unat_add_lem [THEN iffD1] unat_mult_lem [THEN iffD1] du)
    qed
    have big: "n * b + ?d \<ge> 2 ^ 64" if ?ov
    proof (cases ov)
      case True
      with 1(9) have "2 ^ 64 \<le> n" by blast
      also have "n \<le> n * b" using 1(7) by simp
      finally show ?thesis by simp
    next
      case False
      with that test 1(8) show ?thesis by (auto split: if_splits)
    qed
    have src: "in_source (bump lx)" using True by (simp add: in_source_def bump_def at_end_def)
    have "drop (lx_cur lx) (lx_src lx) = char_at lx 0 # drop (lx_cur (bump lx)) (lx_src (bump lx))"
      using True by (simp add: drop_cur)
    with 1(1) [OF True refl step src 1(4-7) val big] True show ?thesis by simp
  next
    case False
    then have "takeWhile isd (drop (lx_cur lx) (lx_src lx)) = []"
      by (cases "at_end lx") (simp_all add: at_end_def drop_cur)
    moreover have "unat v < 2 ^ LENGTH(64)" by (rule unsigned_less)
    ultimately show ?thesis using False 1(2,8,9)
      by (subst (asm) digits_loop.simps) auto
  qed
qed

text \<open>The literals of the grammar, \<open>[0-9]+\<close> and \<open>0x[0-9a-fA-F]+\<close>, and the number one denotes.\<close>

abbreviation dec_val :: "char \<Rightarrow> nat" where
  "dec_val c \<equiv> code c - code CHR ''0''"

definition int_literal :: "string \<Rightarrow> bool" where
  "int_literal s \<longleftrightarrow> (if take 2 s = ''0x'' then drop 2 s \<noteq> [] \<and> list_all is_hex_digit (drop 2 s)
     else s \<noteq> [] \<and> list_all is_digit s)"

definition literal_value :: "string \<Rightarrow> nat" where
  "literal_value s = (if take 2 s = ''0x'' then radix_value hex_val 16 (drop 2 s) else radix_value dec_val 10 s)"

lemma digit_vals: "is_digit c \<Longrightarrow> dec_val c < 10" "is_hex_digit c \<Longrightarrow> hex_val c < 16"
proof -
  show "is_digit c \<Longrightarrow> dec_val c < 10" by (auto simp: is_digit_def code_def)
  assume "is_hex_digit c"
  moreover have "n \<in> {97, 98, 99, 100, 101, 102}" if "97 \<le> n" "n \<le> 102" for n :: nat
    using that by simp presburger
  moreover have "n \<in> {65, 66, 67, 68, 69, 70}" if "65 \<le> n" "n \<le> 70" for n :: nat
    using that by simp presburger
  ultimately have "is_digit c \<or> code c \<in> {97, 98, 99, 100, 101, 102} \<or> code c \<in> {65, 66, 67, 68, 69, 70}"
    unfolding is_hex_digit_def by (auto simp: code_def)
  then show "hex_val c < 16"
    by (elim disjE) (auto simp: hex_val_def is_digit_def code_def)
qed

text \<open>The byte after a literal that ends there: not part of a word, and not the dot of a fraction.\<close>

definition literal_ends :: "string \<Rightarrow> bool" where
  "literal_ends r \<longleftrightarrow> r = [] \<or> \<not> is_ident_cont (hd r) \<and> hd r \<noteq> CHR ''.''"

lemma at_end_drop: "at_end l \<longleftrightarrow> drop (lx_cur l) (lx_src l) = []"
  by (simp add: at_end_def)

lemma char_at_drop: "lx_cur l + k < length (lx_src l) \<Longrightarrow> char_at l k = drop (lx_cur l) (lx_src l) ! k"
  by (simp add: char_at_def)

lemma char_at_hd: "\<not> at_end l \<Longrightarrow> char_at l 0 = hd (drop (lx_cur l) (lx_src l))"
  by (simp add: drop_cur)

lemma left_drop: "left l = length (drop (lx_cur l) (lx_src l))"
  by (simp add: left_def)

lemma takeWhile_prefix:
  "list_all p ds \<Longrightarrow> r = [] \<or> \<not> p (hd r) \<Longrightarrow> takeWhile p (ds @ r) = ds"
  by (cases r) (auto simp: list_all_iff takeWhile_append2)

lemma digits_loop_end:
  assumes "digits_loop isd val base lx 0 False = (v, ov, l2)" and "in_source lx"
    and "\<And>c. isd c \<Longrightarrow> c \<noteq> newline"
    and "drop (lx_cur lx) (lx_src lx) = ds @ r" and "list_all isd ds" and "r = [] \<or> \<not> isd (hd r)"
  shows "lx_cur l2 = lx_cur lx + length ds" and "lx_src l2 = lx_src lx" and "drop (lx_cur l2) (lx_src l2) = r"
proof -
  have l2: "l2 = scan_while isd lx" using stays_digits_loop [OF assms(1-3)] by blast
  show c: "lx_cur l2 = lx_cur lx + length ds"
    using scan_while_cur [OF assms(2), of isd] takeWhile_prefix [OF assms(5,6)] assms(4) by (simp add: l2)
  show src: "lx_src l2 = lx_src lx" by (simp add: l2)
  have "drop (lx_cur l2) (lx_src l2) = drop (length ds) (drop (lx_cur lx) (lx_src lx))"
    by (simp add: c src add.commute)
  then show "drop (lx_cur l2) (lx_src l2) = r" using assms(4) by simp
qed

lemma finish_int_ends:
  assumes "drop (lx_cur l) (lx_src l) = r" and "literal_ends r"
  shows "finish_int l t v ov = (if ov then error_at l t ''integer literal does not fit in 64 bits''
      else ((finish l t (Special TOK_INT))\<lparr>tk_val := Ival v\<rparr>, l))"
  using assms by (auto simp: finish_int_def literal_ends_def at_end_drop char_at_hd)

lemma lex_number_int:
  assumes "in_source l" and d: "drop (lx_cur l) (lx_src l) = s @ r" and "int_literal s" and "literal_ends r"
    and "tk_pos t = lx_cur l"
  shows "\<exists>v l2. lex_number strtod l t = finish_int l2 t v (literal_value s \<ge> 2 ^ 64)
      \<and> (literal_value s < 2 ^ 64 \<longrightarrow> unat v = literal_value s)
      \<and> lx_cur l2 = lx_cur l + length s \<and> lx_src l2 = lx_src l \<and> drop (lx_cur l2) (lx_src l2) = r"
proof (cases "take 2 s = ''0x''")
  case True
  then obtain hs where s: "s = ''0x'' @ hs" by (metis append_take_drop_id)
  with assms(3) have hs: "hs \<noteq> []" "list_all is_hex_digit hs" by (simp_all add: int_literal_def)
  let ?l = "advance_by 2 l"
  have d2: "drop (lx_cur ?l) (lx_src ?l) = hs @ r"
    using arg_cong [OF d, of "drop 2"] s by (simp add: add.commute)
  have len: "lx_cur l + 2 < length (lx_src l)" using arg_cong [OF d, of length] s hs(1) by (cases hs) auto
  obtain v ov l2 where h: "digits_loop is_hex_digit hex_val 16 ?l 0 False = (v, ov, l2)" by (metis prod_cases3)
  have r: "r = [] \<or> \<not> is_hex_digit (hd r)"
    using assms(4) by (auto simp: literal_ends_def is_ident_cont_def is_ident_start_def is_hex_digit_def code_def)
  have ins: "in_source ?l" using len by (simp add: in_source_def)
  note e = digits_loop_end [OF h ins class_not_newline(2) d2 hs(2) r]
  have tw: "takeWhile is_hex_digit (drop (lx_cur ?l) (lx_src ?l)) = hs"
    unfolding d2 using hs(2) r by (rule takeWhile_prefix)
  have v: "(\<not> ov \<longrightarrow> unat v = literal_value s) \<and> (ov \<longleftrightarrow> literal_value s \<ge> 2 ^ 64)"
    using digits_loop_value [OF h ins, of 16 0, unfolded tw] digit_vals(2) s
    by (simp add: literal_value_def radix_value_def)
  have c: "char_at l 0 = CHR ''0''" "char_at l 1 = CHR ''x''" "left l \<ge> 2"
    using len d s by (simp_all add: char_at_drop left_def)
  have "\<not> at_end ?l" "is_hex_digit (char_at ?l 0)"
    using len hs d2 by (auto simp: at_end_def char_at_hd at_end_drop neq_Nil_conv)
  with c h e v s show ?thesis
    by (intro exI [of _ v] exI [of _ l2]) (auto simp: lex_number_def not_le)
next
  case False
  with assms(3) have s: "s \<noteq> []" "list_all is_digit s" by (simp_all add: int_literal_def)
  obtain v ov l2 where h: "digits_loop is_digit dec_val 10 l 0 False = (v, ov, l2)" by (metis prod_cases3)
  have r: "r = [] \<or> \<not> is_digit (hd r)"
    using assms(4) by (auto simp: literal_ends_def is_ident_cont_def)
  note e = digits_loop_end [OF h assms(1) class_not_newline(1) d s(2) r]
  have tw: "takeWhile is_digit (drop (lx_cur l) (lx_src l)) = s"
    unfolding d using s(2) r by (rule takeWhile_prefix)
  have v: "(\<not> ov \<longrightarrow> unat v = literal_value s) \<and> (ov \<longleftrightarrow> literal_value s \<ge> 2 ^ 64)"
    using digits_loop_value [OF h assms(1), of 10 0, unfolded tw] digit_vals(1) False
    by (simp add: literal_value_def radix_value_def)
  have nox: "\<not> (left l \<ge> 2 \<and> char_at l 0 = CHR ''0'' \<and> char_at l 1 = CHR ''x'')"
  proof
    assume x: "left l \<ge> 2 \<and> char_at l 0 = CHR ''0'' \<and> char_at l 1 = CHR ''x''"
    then have "(s @ r) ! 1 = CHR ''x''" unfolding d [symmetric] by (auto simp: left_def char_at_def)
    moreover have "\<not> is_digit CHR ''x''" "is_ident_cont CHR ''x''" by code_simp+
    moreover have "2 \<le> length (s @ r)" using x unfolding d [symmetric] by (simp add: left_def)
    ultimately show False
      using s assms(4) by (cases s; cases "tl s"; cases r) (auto simp: literal_ends_def left_def)
  qed
  have "\<not> (left l2 \<ge> 2 \<and> char_at l2 0 = CHR ''.'' \<and> is_digit (char_at l2 1))"
  proof (cases "at_end l2")
    case False
    then show ?thesis using e(3) assms(4) by (auto simp: char_at_hd literal_ends_def at_end_drop)
  qed (simp add: left_def at_end_def)
  with nox h e v show ?thesis
    by (intro exI [of _ v] exI [of _ l2]) (auto simp: lex_number_def not_le)
qed

lemma skip_trivia_stop: "\<not> at_end lx \<Longrightarrow> \<not> trivia_start (char_at lx 0) \<Longrightarrow> skip_trivia lx = lx"
  by (subst skip_trivia.simps) (simp add: Let_def trivia_start_def)

text \<open>
  C8. Integer literals are exact. Lexing a decimal or hexadecimal literal gives an integer token with the
  literal's text, and the 64-bit value of the token is the number the literal denotes; the literal
  is reported as not fitting in exactly the cases where that number is \<open>2^64\<close> or more.
\<close>
theorem int_literal_exact:
  assumes "well_placed lx" and "drop (lx_cur lx) (lx_src lx) = s @ r"
    and "int_literal s" and "literal_ends r" and t: "lexer_next strtod lx = (t, lx')"
  shows "tk_text t = s \<and> (if literal_value s < 2 ^ 64
      then tk_kind t = Special TOK_INT \<and> (\<exists>v. tk_val t = Ival v \<and> unat v = literal_value s)
      else tk_kind t = Special TOK_ERROR \<and> tk_val t = Err ''integer literal does not fit in 64 bits'')"
proof -
  have ins: "in_source lx" using assms(1) by (simp add: well_placed_def)
  have hd: "s \<noteq> []" "is_digit (hd s)"
    using assms(3) by (cases s; auto simp: int_literal_def is_digit_def code_def split: if_splits)+
  then have ne: "\<not> at_end lx" using assms(2) by (simp add: at_end_drop)
  then have c: "is_digit (char_at lx 0)" using assms(2) hd by (simp add: char_at_hd)
  then have cls: "\<not> trivia_start (char_at lx 0)" "\<not> is_ident_start (char_at lx 0)"
    by (auto simp: trivia_start_def is_digit_def is_ident_start_def code_def)
  define t0 where "t0 = \<lparr>tk_kind = Special TOK_EOF, tk_pos = lx_cur lx, tk_text = [], tk_line = lx_line lx,
       tk_col = lx_cur lx - lx_line_start lx + 1, tk_val = Ival 0\<rparr>"
  have n: "lexer_next strtod lx = lex_number strtod lx t0"
    using ne c cls by (simp add: lexer_next_def Let_def skip_trivia_stop t0_def)
  have p0: "tk_pos t0 = lx_cur lx" by (simp add: t0_def)
  obtain v l2 where l: "lex_number strtod lx t0 = finish_int l2 t0 v (literal_value s \<ge> 2 ^ 64)"
    "literal_value s < 2 ^ 64 \<longrightarrow> unat v = literal_value s" "lx_cur l2 = lx_cur lx + length s"
    "lx_src l2 = lx_src lx" "drop (lx_cur l2) (lx_src l2) = r"
    using lex_number_int [OF ins assms(2-4) p0] by blast
  have tx: "segment (tk_pos t0) (lx_cur l2) (lx_src l2) = s"
    using l(3,4) assms(2) by (simp add: segment_def p0)
  note f = finish_int_ends [OF l(5) assms(4), of t0 v "literal_value s \<ge> 2 ^ 64"]
  have "t = fst (finish_int l2 t0 v (literal_value s \<ge> 2 ^ 64))"
    using t n l(1) by (metis fst_conv)
  then show ?thesis
    unfolding f using l(2) tx by (auto simp: error_at_def finish_def)
qed

theorem int_literal_exact_witness:
  "tk_text (fst (lexer_next (\<lambda>_. 0) (lexer_init None ''0xFF;''))) = ''0xFF''
   \<and> literal_value ''0xFF'' = 255
   \<and> (\<exists>v. tk_val (fst (lexer_next (\<lambda>_. 0) (lexer_init None ''0xFF;''))) = Ival v \<and> unat v = 255)"
proof -
  have v: "literal_value ''0xFF'' = 255" by code_simp
  have lit: "int_literal ''0xFF''" "literal_ends '';''" by code_simp+
  have d: "drop (lx_cur (lexer_init None ''0xFF;'')) (lx_src (lexer_init None ''0xFF;'')) = ''0xFF'' @ '';''"
    by (simp add: lexer_init_def)
  obtain t lx where "lexer_next (\<lambda>_. 0) (lexer_init None ''0xFF;'') = (t, lx)" by fastforce
  from int_literal_exact [OF well_placed_init d lit this] this v show ?thesis by simp
qed

section \<open>The end of the file\<close>

lemma lexer_next_eof_idem:
  assumes "well_placed lx" and "lexer_next strtod lx = (t, lx')" and "tk_kind t = Special TOK_EOF"
  shows "lexer_next strtod lx' = (t, lx')"
proof -
  have e: "at_end (skip_trivia lx) \<and> lx' = skip_trivia lx"
    using takes_lexer_next(4) [OF assms(1,2)] assms(3) by (auto simp: takes_def split: if_splits)
  then have s: "skip_trivia (skip_trivia lx) = skip_trivia lx" by (subst skip_trivia.simps) simp
  from e assms(2) s show ?thesis by (auto simp: lexer_next_def Let_def)
qed

end
