(* ===== verification/Slop_Parser_Props.thy ===== *)
theory Slop_Parser_Props
  imports Slop_Parser_Stmt_Sound Slop_Lexer_Props
begin

text \<open>
  The contract of the item routines and of \<open>parse_program\<close>, and the parser's properties: the parse of
  any token array returns, and a parse that reports no error derives its tree from all of the tokens.
\<close>

section \<open>Functions\<close>

definition params_lang :: "string \<Rightarrow> bool \<Rightarrow> (param list \<times> bool) \<Rightarrow> lang" where
  "params_lang f x r ts \<longleftrightarrow> g_params f x (fst r) (snd r) ts"

lemma parses_params: "parses c (opt_lang (params_lang (fst c) x)) (parse_params x)"
proof (rule parsesI)
  fix p assume t: "trk p p nothing" and c: "ctx p = c"
  let ?f = "fst c"
  have none: "trk p p (params_lang ?f x ([], False))"
    using t by (rule trk_mono) (auto simp: params_lang_def lang_defs intro: g_params.none)
  have start: "trk p p (g_params_c ?f [])" using t by (rule trk_mono) (auto simp: nothing_def intro: g_params_c.none)
  have dots: "trk p q (followed_by (g_params_c ?f ps) (the_token d)) \<Longrightarrow> is_punct TOK_ELLIPSIS d \<Longrightarrow>
      trk p q (params_lang ?f True (ps, True))" for q ps d
    by (erule trk_mono) (auto simp: lang_defs params_lang_def intro: g_params.dots)
  let ?prm = "\<lambda>q m T n. \<lparr>pr_pos = tok_pos ?f (cur_tok q), pr_is_mut = m, pr_type = T, pr_name = tk_text n\<rparr>"
  have prm: "trk p r (followed_by (g_params_c ?f ps) (g_param ?f (?prm q m T n)))"
    if "trk p q (g_params_c ?f ps)" "trk q r (followed_by (followed_by (g_mut m) (g_type ?f T)) (the_token n))" "is_special TOK_IDENT n"
    for q r ps m T n
    using trk_seq [OF that(1) trk_hd [OF that(2)]]
  proof (rule trk_right)
    fix ts assume "followed_by (followed_by (g_mut m) (g_type ?f T)) (the_token n) ts \<and> (ts \<noteq> [] \<longrightarrow> hd ts = cur_tok q)"
    then obtain xs ys where "g_mut m xs" "g_type ?f T ys" "ts = xs @ ys @ [n]" "hd ts = cur_tok q"
      by (auto simp: lang_defs)
    then show "g_param ?f (?prm q m T n) ts" using that(3) g_param.intros [of m xs ?f T ys n ts] by simp
  qed
  have last: "trk p q (followed_by (g_params_c ?f ps) (g_param ?f a)) \<Longrightarrow> trk p q (params_lang ?f x (ps @ [a], False))" for q ps a
    by (erule trk_mono) (auto simp: followed_by_def params_lang_def intro: g_params.last)
  have comma: "trk p q (followed_by (followed_by (g_params_c ?f ps) (g_param ?f a)) (the_token t)) \<Longrightarrow> is_punct TOK_COMMA t \<Longrightarrow>
      trk p q (g_params_c ?f (ps @ [a]))" for q ps a t
    by (erule trk_mono) (auto simp: lang_defs intro: g_params_c.more [simplified])
  show "wp (parse_params x p) (\<lambda>r p'. trk p p' (opt_lang (params_lang ?f x) r))"
  proof (cases "at p (Punct TOK_RPAREN)")
    case True
    then show ?thesis using none by (simp add: parse_params_def)
  next
    case False
    show ?thesis
      unfolding parse_params_def if_not_P [OF False]
    proof (rule wp_token_loop [where L = "g_params_c ?f" and J = "\<lambda>_. True", OF start TrueI], goal_cases)
      case (1 ps q)
      have cq: "ctx q = c" using trk_ctx [OF 1(1)] c by simp
      have q0: "trk q q nothing" using trk_pwf [OF 1(1)] by (rule trk_start)
      have qq: "trk p r (followed_by (g_params_c ?f ps) P)" if "trk q r P" for r P using 1(1) that by (rule trk_seq)
      have never: "trk q r never \<Longrightarrow> trk p r P" for r P using qq by (metis followed_by_never(1) trk_never)
      note prm' = prm [OF 1(1)]
      have fin: "wp (accept (Punct TOK_COMMA) r) (\<lambda>b s.
            (b \<longrightarrow> trk p s (g_params_c ?f (ps @ [?prm q m T n])) \<and> togo s < togo q) \<and>
            (\<not> b \<longrightarrow> trk p s (params_lang ?f x (ps @ [?prm q m T n], False))))"
        if "trk q r (followed_by (followed_by (g_mut m) (g_type ?f T)) (the_token n))" "is_special TOK_IDENT n"
          "togo r < togo q" for r m T n
        using that by (auto intro!: wp_accept [OF prm'] last prm' intro: comma)
      show ?case
        unfolding Let_def here_tok_pos [OF 1(1) c] at_def
        by (auto intro!: wp_advance [OF 1(1)] wp_accept_mut [OF q0] wp_call [OF parses_type _ cq] wp_expect_ident wp_mono [OF fin]
            wp_p_error(1) split: option.split dest: never trk_never intro: dots wp_p_error(1) trk_never dest!: later_togo)
    qed
  qed
qed

lemma parses_ret: "parses c (opt_lang (g_ret (fst c) pos)) (parse_ret pos)"
proof (rule parsesI)
  fix p assume t: "trk p p nothing" and c: "ctx p = c"
  have some: "trk p q (followed_by (the_token t) (opt_lang (g_type (fst c)) r)) \<Longrightarrow> is_punct TOK_ARROW t \<Longrightarrow>
      trk p q (opt_lang (g_ret (fst c) pos) r)" for q t r
    by (erule trk_mono) (auto simp: lang_defs intro: g_ret.arrow [simplified])
  have none: "trk p p (g_ret (fst c) pos (TYPE_CORE pos (Keyword TOK_KW_VOID)))"
    using t by (rule trk_mono) (auto simp: lang_defs intro: g_ret.void)
  show "wp (parse_ret pos p) (\<lambda>r p'. trk p p' (opt_lang (g_ret (fst c) pos) r))"
    unfolding parse_ret_def by (auto intro!: wp_accept [OF t] wp_call [OF parses_type _ c] none some)
qed

lemma fn_steps:
  "trk p q (followed_by (followed_by (followed_by (followed_by (followed_by (followed_by (followed_by (the_token k) (the_token n)) (the_token l))
      (params_lang f False (ps, v))) (the_token r)) (g_ret f (tok_pos f k) T)) (g_block f b)) nothing) \<Longrightarrow>
   is_word TOK_KW_FN k \<Longrightarrow> is_special TOK_IDENT n \<Longrightarrow> is_punct TOK_LPAREN l \<Longrightarrow> is_punct TOK_RPAREN r \<Longrightarrow>
   trk p q (g_fn f False \<lparr>fn_pos = tok_pos f k, fn_name = tk_text n, fn_params = ps, fn_is_variadic = v, fn_ret = T,
      fn_body = b, fn_has_body = True\<rparr>)"
  "trk p q (followed_by (followed_by (followed_by (followed_by (followed_by (followed_by (followed_by (the_token k) (the_token n)) (the_token l))
      (params_lang f True (ps, v))) (the_token r)) (g_ret f (tok_pos f k) T)) (the_token s)) nothing) \<Longrightarrow>
   is_word TOK_KW_FN k \<Longrightarrow> is_special TOK_IDENT n \<Longrightarrow> is_punct TOK_LPAREN l \<Longrightarrow> is_punct TOK_RPAREN r \<Longrightarrow> is_punct TOK_SEMI s \<Longrightarrow>
   trk p q (g_fn f True \<lparr>fn_pos = tok_pos f k, fn_name = tk_text n, fn_params = ps, fn_is_variadic = v, fn_ret = T,
      fn_body = zero_block, fn_has_body = False\<rparr>)"
  by (erule trk_mono; auto simp: lang_defs params_lang_def intro: g_fn.body [simplified] g_fn.extern [simplified])+

lemma parses_fn_decl: "parses c (opt_lang (g_fn (fst c) x)) (parse_fn_decl x)"
proof (rule parsesI)
  fix p assume t: "trk p p nothing" and c: "ctx p = c"
  let ?f = "fst c"
  note steps = fn_steps [of p _ "cur_tok p" _ _ ?f, simplified]
  show "wp (parse_fn_decl x p) (\<lambda>r p'. trk p p' (opt_lang (g_fn ?f x) r))"
    unfolding parse_fn_decl_def Let_def here_tok_pos [OF t c]
    by (cases x)
      (auto intro!: wp_expect [OF t] wp_expect wp_expect_ident wp_call [OF parses_params _ c] wp_call [OF parses_ret _ c]
        wp_call [OF st.block _ c] split: option.split prod.split dest: trk_never intro: steps)
qed

lemma g_fn_not_nil: "\<not> g_fn f x d []"
  by (auto elim: g_fn.cases)

section \<open>The other items\<close>

lemma g_field_not_nil: "\<not> g_field f d []"
  by (auto elim: g_field.cases)

lemma parses_field: "parses c (opt_lang (g_field (fst c))) parse_field"
proof (rule parsesI)
  fix p assume t: "trk p p nothing" and c: "ctx p = c"
  let ?f = "fst c"
  have step: "trk p q (followed_by (followed_by (g_type ?f T) (the_token n)) (the_token s)) \<Longrightarrow> is_special TOK_IDENT n \<Longrightarrow>
      is_punct TOK_SEMI s \<Longrightarrow> trk p q (g_field ?f \<lparr>fd_pos = tok_pos ?f (cur_tok p), fd_type = T, fd_name = tk_text n\<rparr>)" for q T n s
  proof (drule trk_hd, erule trk_mono)
    fix ts assume k: "is_special TOK_IDENT n" "is_punct TOK_SEMI s"
      and "followed_by (followed_by (g_type ?f T) (the_token n)) (the_token s) ts \<and> (ts \<noteq> [] \<longrightarrow> hd ts = cur_tok p)"
    then obtain xs where x: "g_type ?f T xs" "ts = xs @ [n, s]" "hd ts = cur_tok p" by (auto simp: lang_defs)
    then have "ty_pos T = tok_pos ?f (cur_tok p)" using g_type_pos [OF x(1)] g_type_nonempty [OF x(1)] by (cases xs) auto
    with g_field.intros [OF x(1) k] x(2) show "g_field ?f \<lparr>fd_pos = tok_pos ?f (cur_tok p), fd_type = T, fd_name = tk_text n\<rparr> ts"
      by simp
  qed
  show "wp (parse_field p) (\<lambda>r p'. trk p p' (opt_lang (g_field ?f) r))"
    unfolding parse_field_def Let_def here_tok_pos [OF t c]
    by (auto intro!: wp_call [OF parses_type t c] wp_expect_ident wp_expect split: option.split dest: trk_never intro: step)
qed

lemma parses_struct:
  assumes t: "trk p p nothing" and c: "ctx p = c" and k: "cur p = Keyword TOK_KW_STRUCT"
  shows "wp (parse_struct p) (\<lambda>r p'. trk p p' (opt_lang (g_item (fst c)) r))"
proof -
  let ?f = "fst c"
  note fields = parses_braced_list [OF parses_field parses_sync_member g_field_not_nil]
  have step: "trk p q (followed_by (followed_by (followed_by (followed_by (the_token (cur_tok p)) (the_token n)) (the_token l))
      (g_many (g_field ?f) fs)) (the_token r)) \<Longrightarrow> is_special TOK_IDENT n \<Longrightarrow> is_punct TOK_LBRACE l \<Longrightarrow> is_punct TOK_RBRACE r \<Longrightarrow>
      trk p q (g_item ?f (ITEM_STRUCT (tok_pos ?f (cur_tok p)) (tk_text n) fs))" for q n l fs r
    by (erule trk_mono) (use k in \<open>auto simp: lang_defs intro: g_item.struct [simplified]\<close>)
  show ?thesis
    unfolding parse_struct_def Let_def here_tok_pos [OF t c] using k
    by (auto intro!: wp_advance [OF t] wp_expect_ident wp_expect wp_call [OF fields _ c] split: option.split
        dest: trk_never intro: step)
qed

lemma parses_global:
  assumes t: "trk p p nothing" and c: "ctx p = c" and k: "cur p = Keyword TOK_KW_LET"
  shows "wp (parse_global p) (\<lambda>r p'. trk p p' (opt_lang (g_item (fst c)) r))"
proof -
  let ?f = "fst c"
  let ?P = "\<lambda>m T n. followed_by (followed_by (followed_by (the_token (cur_tok p)) (g_mut m)) (g_type ?f T)) (the_token n)"
  have none: "trk p q (followed_by (?P m T n) (the_token s)) \<Longrightarrow> is_special TOK_IDENT n \<Longrightarrow> is_punct TOK_SEMI s \<Longrightarrow>
      trk p q (g_item ?f (ITEM_GLOBAL (tok_pos ?f (cur_tok p)) m T (tk_text n) None))" for q m T n s
    by (erule trk_mono) (use k in \<open>auto simp: lang_defs intro: g_item.global [simplified] g_ginit.none
        g_item.global [OF _ _ _ _ g_ginit.none, simplified]\<close>)
  have some: "trk p q (followed_by (followed_by (followed_by (?P m T n) (the_token e)) (g_literal ?f i)) (the_token s)) \<Longrightarrow>
      is_special TOK_IDENT n \<Longrightarrow> is_punct TOK_EQ e \<Longrightarrow> is_punct TOK_SEMI s \<Longrightarrow>
      trk p q (g_item ?f (ITEM_GLOBAL (tok_pos ?f (cur_tok p)) m T (tk_text n) (Some i)))" for q m T n e i s
    by (erule trk_mono) (use k in \<open>auto simp: lang_defs intro: g_item.global [OF _ _ _ _ g_ginit.some, simplified]\<close>)
  show ?thesis
    unfolding parse_global_def Let_def here_tok_pos [OF t c] using k
    by (auto intro!: wp_advance [OF t] wp_accept_mut wp_call [OF parses_type _ c] wp_expect_ident wp_accept
        wp_call [OF parses_literal _ c] wp_expect split: option.split dest: trk_never intro: none some)
qed

lemma parses_extern:
  assumes t: "trk p p nothing" and c: "ctx p = c" and k: "cur p = Keyword TOK_KW_EXTERN"
  shows "wp (parse_extern p) (\<lambda>r p'. trk p p' (opt_lang (g_item (fst c)) r))"
proof -
  let ?f = "fst c"
  note fns = parses_braced_list [OF parses_fn_decl parses_sync_member g_fn_not_nil]
  have step: "trk p q (followed_by (followed_by (followed_by (followed_by (the_token (cur_tok p)) (the_token a)) (the_token l))
      (g_many (g_fn ?f True) fs)) (the_token r)) \<Longrightarrow> is_special TOK_STRING a \<Longrightarrow> is_punct TOK_LBRACE l \<Longrightarrow> is_punct TOK_RBRACE r \<Longrightarrow>
      trk p q (g_item ?f (ITEM_EXTERN (tok_pos ?f (cur_tok p)) (str_of a) fs))" for q a l fs r
    by (erule trk_mono) (use k in \<open>auto simp: lang_defs intro: g_item.extern [simplified]\<close>)
  show ?thesis
    unfolding parse_extern_def Let_def here_tok_pos [OF t c] at_def using k
    by (auto intro!: wp_advance wp_advance [OF t] wp_error_unexpected wp_expect wp_call [OF fns _ c] split: option.split
        dest: trk_never intro: step)
qed

section \<open>Enums\<close>

lemma parses_base: "parses c g_base parse_base"
proof (rule parsesI)
  fix p assume t: "trk p p nothing" and c: "ctx p = c"
  have dflt: "trk p p (g_base (Keyword TOK_KW_I32))"
    using t by (rule trk_mono) (auto simp: lang_defs intro: g_base.default_base)
  have given: "trk p q (followed_by (the_token c) (the_token b)) \<Longrightarrow> is_punct TOK_COLON c \<Longrightarrow> token_is_core_type (tk_kind b) \<Longrightarrow>
      trk p q (g_base (tk_kind b))" for q c b
    by (erule trk_mono) (auto simp: lang_defs intro: g_base.given)
  show "wp (parse_base p) (\<lambda>r p'. trk p p' (g_base r))"
    unfolding parse_base_def
    by (auto intro!: wp_accept [OF t] wp_advance wp_error_unexpected dflt dest: trk_never core_type_not_eof intro: given)
qed

definition member_lang :: "string \<Rightarrow> (enum_member \<times> bool) \<Rightarrow> lang" where
  "member_lang f r ts \<longleftrightarrow> (if snd r then \<exists>xs t. g_member f (fst r) xs \<and> is_punct TOK_COMMA t \<and> ts = xs @ [t]
     else g_member f (fst r) ts)"

lemma member_not_nil: "\<not> member_lang f r []"
  by (auto simp: member_lang_def elim: g_member.cases)

lemma parses_member: "parses c (opt_lang (member_lang (fst c))) parse_member"
proof (rule parsesI)
  fix p assume t: "trk p p nothing" and c: "ctx p = c"
  let ?f = "fst c" and ?n = "cur_tok p"
  have impl: "trk p q (the_token ?n) \<Longrightarrow> is_special TOK_IDENT ?n \<Longrightarrow> trk p q (g_member ?f
      \<lparr>em_pos = tok_pos ?f ?n, em_name = tk_text ?n, em_has_value = False, em_value = 0\<rparr>)" for q
    by (erule trk_mono) (auto simp: lang_defs intro: g_member.implicit)
  have expl: "trk p q (followed_by (followed_by (the_token ?n) (the_token e)) (the_token i)) \<Longrightarrow> is_special TOK_IDENT ?n \<Longrightarrow>
      is_punct TOK_EQ e \<Longrightarrow> is_special TOK_INT i \<Longrightarrow> trk p q (g_member ?f
      \<lparr>em_pos = tok_pos ?f ?n, em_name = tk_text ?n, em_has_value = True, em_value = int_of i\<rparr>)" for q e i
    by (erule trk_mono) (auto simp: lang_defs intro: g_member.explicit)
  have comma: "trk p q (followed_by (g_member ?f m) (the_token t)) \<Longrightarrow> is_punct TOK_COMMA t \<Longrightarrow> trk p q (member_lang ?f (m, True))" for q m t
    by (erule trk_mono) (auto simp: lang_defs member_lang_def)
  have plain: "trk p q (g_member ?f m) \<Longrightarrow> trk p q (member_lang ?f (m, False))" for q m
    by (erule trk_mono) (simp add: member_lang_def)
  have fin: "trk p q (g_member ?f m) \<Longrightarrow> wp (accept (Punct TOK_COMMA) q) (\<lambda>b r. trk p r (member_lang ?f (m, b)))" for q m
    by (auto intro!: wp_accept plain intro: comma)
  show "wp (parse_member p) (\<lambda>r p'. trk p p' (opt_lang (member_lang ?f) r))"
    unfolding parse_member_def Let_def here_tok_pos [OF t c] at_def
    by (auto intro!: wp_expect_ident [OF t] wp_call [OF parses_sync_member _ c] wp_accept [where k = "Punct TOK_EQ"]
        wp_advance wp_error_unexpected fin) (auto intro: impl expl trk_never)
qed

lemma parses_members: "parses c (g_members (fst c)) parse_members"
proof (rule parsesI)
  fix p assume t: "trk p p nothing" and c: "ctx p = c"
  let ?f = "fst c"
  have start: "trk p p (g_members_c ?f [])" using t by (rule trk_mono) (simp add: nothing_def g_members_c.none)
  have trailing: "trk p q (g_members_c ?f ms) \<Longrightarrow> trk p q (g_members ?f ms)" for q ms
    by (erule trk_mono) (rule g_members.trailing)
  have last: "trk p q (followed_by (g_members_c ?f ms) (member_lang ?f (m, False))) \<Longrightarrow> trk p q (g_members ?f (ms @ [m]))" for q ms m
    by (erule trk_mono) (auto simp: followed_by_def member_lang_def intro: g_members.last)
  have more: "trk p q (followed_by (g_members_c ?f ms) (member_lang ?f (m, True))) \<Longrightarrow> trk p q (g_members_c ?f (ms @ [m]))" for q ms m
    by (erule trk_mono) (auto simp: followed_by_def member_lang_def intro: g_members_c.more [simplified])
  show "wp (parse_members p) (\<lambda>r p'. trk p p' (g_members ?f r))"
    unfolding parse_members_def at_def
  proof (rule wp_token_loop [where L = "g_members_c ?f" and J = "\<lambda>_. True", OF start TrueI], goal_cases)
    case (1 ms q)
    have "wp (parse_member q) (\<lambda>r q1. wp (case r of
         Some (m, False) \<Rightarrow> Some (Inr (ms @ [m]), q1)
       | _ \<Rightarrow> do {
           (_, p) \<leftarrow> ensure_progress (ps_pos q) q1;
           Some (Inl (case r of Some (m, _) \<Rightarrow> ms @ [m] | None \<Rightarrow> ms), p) })
       (\<lambda>r p'. case r of Inl a' \<Rightarrow> True \<and> trk p p' (g_members_c ?f a') \<and> togo p' < togo q | Inr b \<Rightarrow> trk p p' (g_members ?f b)))"
      if e: "cur q \<noteq> Special TOK_EOF"
    proof (rule wp_mono [of _ "\<lambda>r q1. trk q q1 (opt_lang (member_lang ?f) r)"], goal_cases)
      case 1
      then show ?case using parses_member [of c] trk_pwf [OF \<open>trk p q _\<close>] trk_ctx [OF \<open>trk p q _\<close>] c by (simp add: parses_def)
    next
      case (2 r q1)
      have tr: "trk p q1 (followed_by (g_members_c ?f ms) (opt_lang (member_lang ?f) r))" using \<open>trk p q _\<close> 2 by (rule trk_seq)
      have l: "later q q1" using 2 by (rule trk_later)
      have stuck: "ps_pos q1 = ps_pos q \<Longrightarrow> trk p q1 never"
        using trk_seq [OF \<open>trk p q _\<close> trk_stuck [OF 2 member_not_nil]] by simp
      show ?case
      proof (cases r)
        case None
        then show ?thesis using tr l e by (auto intro!: wp_progress intro: trk_never)
      next
        case (Some mb)
        then show ?thesis using tr l e stuck
          by (cases mb; cases "snd mb") (auto intro!: wp_progress [OF more] intro: last)
      qed
    qed
    with 1 show ?case by (auto simp: Let_def intro: trailing)
  qed
qed

lemma parses_enum:
  assumes t: "trk p p nothing" and c: "ctx p = c" and k: "cur p = Keyword TOK_KW_ENUM"
  shows "wp (parse_enum p) (\<lambda>r p'. trk p p' (opt_lang (g_item (fst c)) r))"
proof -
  let ?f = "fst c"
  have step: "trk p q (followed_by (followed_by (followed_by (followed_by (followed_by (the_token (cur_tok p)) (the_token n)) (g_base b)) (the_token l))
      (g_members ?f ms)) (the_token r)) \<Longrightarrow> is_special TOK_IDENT n \<Longrightarrow> is_punct TOK_LBRACE l \<Longrightarrow> is_punct TOK_RBRACE r \<Longrightarrow>
      trk p q (g_item ?f (ITEM_ENUM (tok_pos ?f (cur_tok p)) (tk_text n) b ms))" for q n b l ms r
    by (erule trk_mono) (use k in \<open>auto simp: lang_defs intro: g_item.enum [simplified]\<close>)
  show ?thesis
    unfolding parse_enum_def Let_def here_tok_pos [OF t c] using k
    by (auto intro!: wp_advance [OF t] wp_expect_ident wp_call [OF parses_base _ c] wp_expect wp_call [OF parses_members _ c]
        split: option.split dest: trk_never intro: step)
qed

section \<open>Programs\<close>

lemma parses_item: "parses c (opt_lang (g_item (fst c))) parse_item"
proof (rule parsesI)
  fix p assume t: "trk p p nothing" and c: "ctx p = c"
  let ?f = "fst c"
  have fn: "trk p q (opt_lang (g_fn ?f False) r) \<Longrightarrow> trk p q (opt_lang (g_item ?f) (map_option (ITEM_FN (tok_pos ?f (cur_tok p))) r))" for q r
    by (drule trk_hd, erule trk_mono) (auto simp: opt_lang_def elim!: g_fn.cases intro: g_item.fn [of f d for f d, OF g_fn.body, simplified])
  have 1: "wp (parse_fn_decl False p) (\<lambda>r p'. trk p p' (opt_lang (g_item ?f) (map_option (ITEM_FN (tok_pos ?f (cur_tok p))) r)))"
    by (auto intro!: wp_call [OF parses_fn_decl t c] fn)
  have 2: "wp (error_unexpected m p) (\<lambda>_ p'. trk p p' never)" for m
    by (auto intro: wp_error_unexpected [OF t])
  note ks = parses_struct [OF t c] parses_enum [OF t c] parses_global [OF t c] parses_extern [OF t c]
  show "wp (parse_item p) (\<lambda>r p'. trk p p' (opt_lang (g_item ?f) r))"
  proof (cases "cur p")
    case (Keyword k)
    then show ?thesis by (cases k) (auto simp: parse_item_def Let_def here_tok_pos [OF t c] 1 2 simp del: cur_def intro: ks)
  qed (auto simp: parse_item_def 2 simp del: cur_def)
qed

lemma g_item_not_nil: "\<not> g_item f i []"
  by (auto elim!: g_item.cases g_fn.cases)

lemma wp_parse_items:
  assumes t: "trk p p nothing" and c: "ctx p = c"
  shows "wp (parse_items p) (\<lambda>r p'. trk p p' (g_many (g_item (fst c)) r) \<and> cur p' = Special TOK_EOF)"
proof -
  let ?f = "fst c"
  have start: "trk p p (g_many (g_item ?f) [])" using t by (rule trk_mono) (simp add: nothing_def g_many.none)
  have more: "trk p q (followed_by (g_many (g_item ?f) xs) (g_item ?f x)) \<Longrightarrow> trk p q (g_many (g_item ?f) (xs @ [x]))" for q xs x
    by (erule trk_mono) (auto simp: followed_by_def intro: g_many.more)
  show ?thesis
    unfolding parse_items_def at_def
    by (rule wp_token_loop [where L = "g_many (g_item ?f)" and J = "\<lambda>_. True", OF start TrueI])
      (auto simp: Let_def intro!: wp_element [OF parses_item parses_sync_item g_item_not_nil _ c] more intro: trk_never)
qed

lemma parse_program_ok:
  assumes "toks \<noteq> []" and "tk_kind (last toks) = Special TOK_EOF"
    and "Special TOK_EOF \<notin> tk_kind ` set (butlast toks)"
  shows "\<exists>prog n out. parse_program toks file = Some (prog, n, out)
    \<and> (n = 0 \<longrightarrow> g_program file prog (butlast toks) \<and> list_all complete_item (pg_items prog))"
proof -
  let ?init = "\<lparr>ps_toks = toks, ps_pos = 0, ps_file = file, ps_diag = diag_init file, ps_depth = 0\<rparr>"
  let ?p = "skip_error_tokens ?init"
  have w0: "pwf ?init" and n0: "nerr ?init = 0" using assms by (simp_all add: pwf_def nerr_def)
  note s = skip_error_tokens_spec [OF w0]
  have w: "pwf ?p" and c: "ctx ?p = (file, 0)"
    using s later_pwf [OF _ w0] by (auto simp: ctx_def later_def)
  from wpD [OF wp_parse_items [OF trk_start [OF w] c]] obtain items q where
    r: "parse_items ?p = Some (items, q)" and t: "trk ?p q (g_many (g_item file) items)" and e: "cur q = Special TOK_EOF"
    by auto
  have run: "parse_program toks file =
      Some (\<lparr>pg_file = file, pg_items = items\<rparr>, nerr q, dg_stderr (ps_diag q))"
    using r assms(1) by (simp add: parse_program_def nerr_def)
  have "g_program file \<lparr>pg_file = file, pg_items = items\<rparr> (butlast toks)" if "nerr q = 0"
  proof -
    have l: "later ?p q" "pwf q" using t by (auto simp: trk_def)
    then have "nerr ?p = nerr ?init" using s n0 that by (simp add: later_def)
    then have p: "?p = ?init" using s by simp
    have m: "g_many (g_item file) items (eaten ?p q)" using t that p n0 by (simp add: trk_def)
    have "ps_toks q = toks" "ps_pos q < length toks" using l p by (simp_all add: later_def)
    have "ps_pos q = length toks - 1"
    proof (rule ccontr)
      assume "ps_pos q \<noteq> length toks - 1"
      then have "ps_pos q < length (butlast toks)" using \<open>ps_pos q < length toks\<close> by simp
      then have "tk_kind (butlast toks ! ps_pos q) \<in> tk_kind ` set (butlast toks)" by auto
      moreover have "butlast toks ! ps_pos q = toks ! ps_pos q" using \<open>ps_pos q < length (butlast toks)\<close> by (rule nth_butlast)
      ultimately show False using e assms(3) \<open>ps_toks q = toks\<close> by (simp add: cur_tok_def)
    qed
    then have "eaten ?p q = butlast toks" using p by (simp add: eaten_def segment_def butlast_conv_take)
    with m show ?thesis by (simp add: g_program_def)
  qed
  with run show ?thesis using g_program_complete by fastforce
qed

text \<open>
  C2. The parser is total and sound. On a token array that ends in its only end-of-file token,
  \<open>parse_program\<close> returns; and when it reports no error, the program it built is derived by the
  grammar from exactly the tokens before the end of the file, with every operator's precedence and
  associativity and every node's position as the grammar gives them, and no child of the tree is missing.
\<close>
theorem parse_program_sound:
  assumes "toks \<noteq> []" and "tk_kind (last toks) = Special TOK_EOF"
    and "Special TOK_EOF \<notin> tk_kind ` set (butlast toks)"
  shows "\<exists>prog n out. parse_program toks file = Some (prog, n, out)
    \<and> (n = 0 \<longrightarrow> g_program file prog (butlast toks) \<and> list_all complete_item (pg_items prog))"
  using assms by (rule parse_program_ok)

text \<open>A small program, lexed.\<close>

definition sample_tokens :: "token list" where
  "sample_tokens = (case lexer_lex_all (\<lambda>_. 0) (lexer_init None ''fn f() { g = 1 + 2 * 3; }'') of
     Some (ts, _) \<Rightarrow> ts | None \<Rightarrow> [])"

theorem parse_program_sound_witness:
  "\<exists>prog n out. parse_program sample_tokens ''a.slop'' = Some (prog, n, out) \<and> n = 0
     \<and> g_program ''a.slop'' prog (butlast sample_tokens) \<and> list_all complete_item (pg_items prog)"
proof -
  have ok: "sample_tokens \<noteq> []" "tk_kind (last sample_tokens) = Special TOK_EOF"
    by code_simp+
  have "list_all (\<lambda>t. tk_kind t \<noteq> Special TOK_EOF) (butlast sample_tokens)" by code_simp
  then have one: "Special TOK_EOF \<notin> tk_kind ` set (butlast sample_tokens)" by (auto simp: list_all_iff)
  have run: "(case parse_program sample_tokens ''a.slop'' of Some (_, n, _) \<Rightarrow> n = 0 | None \<Rightarrow> False)" by code_simp
  from parse_program_sound [OF ok one, of "''a.slop''"] obtain prog n out where
    p: "parse_program sample_tokens ''a.slop'' = Some (prog, n, out)"
    "n = 0 \<longrightarrow> g_program ''a.slop'' prog (butlast sample_tokens) \<and> list_all complete_item (pg_items prog)" by blast
  with run show ?thesis by simp
qed

end
