(* ===== verification/Slop_Lexemes.thy ===== *)
theory Slop_Lexemes
  imports Slop_Lexer_Props
begin

text \<open>
  The lexical grammar of \<open>GRAMMAR.md\<close> (section 1), written from the document: the spelling of every keyword and
  punctuator, identifiers, the four kinds of literal with their values. \<open>lexeme\<close> says which kind and value a text
  has in front of which rest of the source. Every token of the lexer that is not an error token is the lexeme of
  its text.
\<close>

section \<open>The lexical grammar\<close>

primrec keyword_text :: "keyword \<Rightarrow> string" where
  "keyword_text TOK_KW_LET = ''let''" | "keyword_text TOK_KW_FN = ''fn''" | "keyword_text TOK_KW_IF = ''if''"
| "keyword_text TOK_KW_ELSE = ''else''" | "keyword_text TOK_KW_WHILE = ''while''"
| "keyword_text TOK_KW_BREAK = ''break''" | "keyword_text TOK_KW_CONTINUE = ''continue''"
| "keyword_text TOK_KW_RETURN = ''return''" | "keyword_text TOK_KW_STRUCT = ''struct''"
| "keyword_text TOK_KW_ENUM = ''enum''" | "keyword_text TOK_KW_EXTERN = ''extern''"
| "keyword_text TOK_KW_MUT = ''mut''" | "keyword_text TOK_KW_AS = ''as''"
| "keyword_text TOK_KW_SIZEOF = ''sizeof''" | "keyword_text TOK_KW_MATCH = ''match''"
| "keyword_text TOK_KW_TRUE = ''true''" | "keyword_text TOK_KW_FALSE = ''false''"
| "keyword_text TOK_KW_NULL = ''null''" | "keyword_text TOK_KW_I8 = ''i8''" | "keyword_text TOK_KW_U8 = ''u8''"
| "keyword_text TOK_KW_I32 = ''i32''" | "keyword_text TOK_KW_U32 = ''u32''" | "keyword_text TOK_KW_I64 = ''i64''"
| "keyword_text TOK_KW_U64 = ''u64''" | "keyword_text TOK_KW_F32 = ''f32''" | "keyword_text TOK_KW_F64 = ''f64''"
| "keyword_text TOK_KW_B8 = ''b8''" | "keyword_text TOK_KW_B32 = ''b32''" | "keyword_text TOK_KW_B64 = ''b64''"
| "keyword_text TOK_KW_VOID = ''void''"

primrec punct_text :: "punct \<Rightarrow> string" where
  "punct_text TOK_SHL_EQ = ''<<=''" | "punct_text TOK_SHR_EQ = ''>>=''" | "punct_text TOK_ELLIPSIS = ''...''"
| "punct_text TOK_AMP_AMP = ''&&''" | "punct_text TOK_PIPE_PIPE = ''||''" | "punct_text TOK_SHL = ''<<''"
| "punct_text TOK_SHR = ''>>''" | "punct_text TOK_LE = ''<=''" | "punct_text TOK_GE = ''>=''"
| "punct_text TOK_EQ_EQ = ''==''" | "punct_text TOK_BANG_EQ = ''!=''" | "punct_text TOK_PLUS_EQ = ''+=''"
| "punct_text TOK_MINUS_EQ = ''-=''" | "punct_text TOK_STAR_EQ = ''*=''" | "punct_text TOK_SLASH_EQ = ''/=''"
| "punct_text TOK_PERCENT_EQ = ''%=''" | "punct_text TOK_AMP_EQ = ''&=''" | "punct_text TOK_PIPE_EQ = ''|=''"
| "punct_text TOK_CARET_EQ = ''^=''" | "punct_text TOK_ARROW = ''->''" | "punct_text TOK_FAT_ARROW = ''=>''"
| "punct_text TOK_PLUS = ''+''" | "punct_text TOK_MINUS = ''-''" | "punct_text TOK_STAR = ''*''"
| "punct_text TOK_SLASH = ''/''" | "punct_text TOK_PERCENT = ''%''" | "punct_text TOK_BANG = ''!''"
| "punct_text TOK_AMP = ''&''" | "punct_text TOK_PIPE = ''|''" | "punct_text TOK_CARET = ''^''"
| "punct_text TOK_TILDE = ''~''" | "punct_text TOK_LT = ''<''" | "punct_text TOK_GT = ''>''"
| "punct_text TOK_EQ = ''=''" | "punct_text TOK_LPAREN = ''(''" | "punct_text TOK_RPAREN = '')''"
| "punct_text TOK_LBRACE = ''{''" | "punct_text TOK_RBRACE = ''}''" | "punct_text TOK_LBRACKET = ''[''"
| "punct_text TOK_RBRACKET = '']''" | "punct_text TOK_DOT = ''.''" | "punct_text TOK_COMMA = '',''"
| "punct_text TOK_SEMI = '';''" | "punct_text TOK_COLON = '':''"

text \<open>\<open>prefix_of s r\<close>: the source goes on with \<open>s\<close>. A word ends where the next byte is not one of an identifier.\<close>

abbreviation prefix_of :: "string \<Rightarrow> string \<Rightarrow> bool" where
  "prefix_of s r \<equiv> take (length s) r = s"

definition word_ends :: "string \<Rightarrow> bool" where
  "word_ends r \<longleftrightarrow> r = [] \<or> \<not> is_ident_cont (hd r)"

definition is_identifier :: "string \<Rightarrow> bool" where
  "is_identifier s \<longleftrightarrow> s \<noteq> [] \<and> is_ident_start (hd s) \<and> list_all is_ident_cont s \<and> s \<notin> range keyword_text"

definition float_literal :: "string \<Rightarrow> bool" where
  "float_literal s \<longleftrightarrow> (\<exists>ds es. s = ds @ ''.'' @ es \<and> ds \<noteq> [] \<and> es \<noteq> [] \<and> list_all is_digit ds \<and> list_all is_digit es)"

text \<open>One element of a character or string literal between quotes \<open>q\<close>, and the byte it stands for.\<close>

definition escapes :: "(char \<times> char) list" where
  "escapes = [(CHR ''n'', CHR 0x0A), (CHR ''r'', CHR 0x0D), (CHR ''t'', CHR 0x09), (CHR ''0'', CHR 0x00),
     (CHR 0x5C, CHR 0x5C), (CHR 0x27, CHR 0x27), (CHR 0x22, CHR 0x22)]"

inductive char_unit :: "char \<Rightarrow> string \<Rightarrow> char \<Rightarrow> bool" for q :: char where
  plain: "c \<notin> {q, CHR 0x5C, newline} \<Longrightarrow> char_unit q [c] c"
| escape: "(e, c) \<in> set escapes \<Longrightarrow> char_unit q [CHR 0x5C, e] c"
| hex: "is_hex_digit a \<Longrightarrow> is_hex_digit b \<Longrightarrow> char_unit q [CHR 0x5C, CHR ''x'', a, b] (char_of (hex_val a * 16 + hex_val b))"

inductive char_units :: "char \<Rightarrow> string \<Rightarrow> string \<Rightarrow> bool" for q :: char where
  none: "char_units q [] []"
| more: "char_unit q u c \<Longrightarrow> char_units q us cs \<Longrightarrow> char_units q (u @ us) (c # cs)"

inductive lexeme :: "(string \<Rightarrow> u64) \<Rightarrow> string \<Rightarrow> string \<Rightarrow> token_kind \<Rightarrow> token_val \<Rightarrow> bool"
  for strtod :: "string \<Rightarrow> u64" where
  lx_keyword: "word_ends r \<Longrightarrow> lexeme strtod (keyword_text k) r (Keyword k) v"
| lx_ident: "is_identifier s \<Longrightarrow> word_ends r \<Longrightarrow> lexeme strtod s r (Special TOK_IDENT) v"
| lx_punct: "\<forall>q. prefix_of (punct_text q) (punct_text p @ r) \<longrightarrow> length (punct_text q) \<le> length (punct_text p)
    \<Longrightarrow> lexeme strtod (punct_text p) r (Punct p) v"
| lx_int: "int_literal s \<Longrightarrow> literal_value s < 2 ^ 64 \<Longrightarrow> word_ends r
    \<Longrightarrow> take 2 s = ''0x'' \<or> \<not> (\<exists>d r'. r = CHR ''.'' # d # r' \<and> is_digit d)
    \<Longrightarrow> lexeme strtod s r (Special TOK_INT) (Ival (word_of_nat (literal_value s)))"
| lx_float: "float_literal s \<Longrightarrow> word_ends r \<Longrightarrow> lexeme strtod s r (Special TOK_FLOAT) (Fval (strtod s))"
| lx_char: "char_unit (CHR 0x27) u c
    \<Longrightarrow> lexeme strtod ([CHR 0x27] @ u @ [CHR 0x27]) r (Special TOK_CHAR) (Ival (word_of_nat (code c)))"
| lx_string: "char_units (CHR 0x22) us cs
    \<Longrightarrow> lexeme strtod ([CHR 0x22] @ us @ [CHR 0x22]) r (Special TOK_STRING) (Str cs)"
| lx_eof: "lexeme strtod [] [] (Special TOK_EOF) v"

lemma keyword_table: "(k, s) \<in> set SLOP_KEYWORDS \<longleftrightarrow> s = keyword_text k"
  by (cases k) (simp_all add: SLOP_KEYWORDS_def)

lemma punct_table: "(p, s) \<in> set SLOP_PUNCT \<longleftrightarrow> s = punct_text p"
  by (cases p) (simp_all add: SLOP_PUNCT_def)

section \<open>What the scanner reads\<close>

abbreviation ahead :: "lexer \<Rightarrow> string" where
  "ahead lx \<equiv> drop (lx_cur lx) (lx_src lx)"

definition moves :: "lexer \<Rightarrow> string \<Rightarrow> lexer \<Rightarrow> bool" where
  "moves lx u lx' \<longleftrightarrow> lx_src lx' = lx_src lx \<and> ahead lx = u @ ahead lx' \<and> lx_cur lx' = lx_cur lx + length u"

lemma moves_refl: "moves lx [] lx"
  by (simp add: moves_def)

lemma moves_trans: "moves lx u l1 \<Longrightarrow> moves l1 v l2 \<Longrightarrow> moves lx (u @ v) l2"
  by (simp add: moves_def)

lemma moves_bump: "\<not> at_end lx \<Longrightarrow> moves lx [char_at lx 0] (bump lx)"
  by (simp add: moves_def drop_cur)

lemma moves_two: "2 \<le> left lx \<Longrightarrow> moves lx [char_at lx 0, char_at lx 1] (advance_by 2 lx)"
proof -
  assume "2 \<le> left lx"
  then have "\<not> at_end lx" "\<not> at_end (bump lx)" by (auto simp: left_def at_end_def bump_def)
  from moves_trans [OF moves_bump moves_bump, OF this] show ?thesis
    by (simp add: moves_def char_at_def bump_def advance_by_def)
qed

lemma moves_errors [simp]: "moves lx u (lx'\<lparr>lx_errors := e\<rparr>) = moves lx u lx'"
  by (simp add: moves_def)

lemma moves_scan_while: "moves lx (takeWhile p (ahead lx)) (scan_while p lx)"
proof (induction p lx rule: scan_while.induct)
  case (1 p lx)
  show ?case
  proof (cases "\<not> at_end lx \<and> p (char_at lx 0)")
    case True
    with moves_trans [OF moves_bump, OF _ 1 [OF True]] show ?thesis
      by (subst scan_while.simps) (simp add: drop_cur)
  next
    case False
    then have "takeWhile p (ahead lx) = []"
      by (cases "at_end lx") (simp_all add: at_end_def drop_cur)
    moreover have "scan_while p lx = lx" using False by (subst scan_while.simps) auto
    ultimately show ?thesis by (simp add: moves_refl)
  qed
qed

lemma scan_while_stops: "ahead (scan_while p lx) = dropWhile p (ahead lx)"
  using moves_scan_while [of lx p] by (metis moves_def same_append_eq takeWhile_dropWhile_id)

lemma finish_text: "moves l u lx' \<Longrightarrow> tk_pos t = lx_cur l \<Longrightarrow> tk_text (finish lx' t k) = u"
  by (simp add: moves_def finish_def segment_def)

text \<open>\<open>spells\<close>: the routine, started at the first byte of a token, reports an error or moves over a lexeme.\<close>

definition spells :: "(string \<Rightarrow> u64) \<Rightarrow> lexer \<Rightarrow> token \<times> lexer \<Rightarrow> bool" where
  "spells strtod lx r \<longleftrightarrow> (case r of (t, lx') \<Rightarrow> tk_kind t \<noteq> Special TOK_ERROR \<longrightarrow>
     moves lx (tk_text t) lx' \<and> lexeme strtod (tk_text t) (ahead lx') (tk_kind t) (tk_val t))"

lemma spells_error: "spells strtod lx (error_at l t msg)"
  by (simp add: spells_def error_at_def)

lemma spells_finish:
  assumes "moves lx u lx'" and "tk_pos t = lx_cur lx"
  shows "lexeme strtod u (ahead lx') k (tk_val t) \<Longrightarrow> spells strtod lx (finish lx' t k, lx')"
    and "lexeme strtod u (ahead lx') k v \<Longrightarrow> spells strtod lx ((finish lx' t k)\<lparr>tk_val := v\<rparr>, lx')"
  using finish_text [OF assms] assms(1) by (simp_all add: spells_def)
   (simp_all add: finish_def)

lemma word_ends_drop: "word_ends (dropWhile is_ident_cont r)"
  using hd_dropWhile [of is_ident_cont r] by (auto simp: word_ends_def)

lemma spells_ident:
  assumes "\<not> at_end lx" and "is_ident_start (char_at lx 0)" and "tk_pos t = lx_cur lx"
  shows "spells strtod lx (lex_ident lx t)"
proof -
  let ?l = "scan_while is_ident_cont lx" and ?u = "takeWhile is_ident_cont (ahead lx)"
  have m: "moves lx ?u ?l" by (rule moves_scan_while)
  have u: "segment (tk_pos t) (lx_cur ?l) (lx_src lx) = ?u"
    using finish_text [OF m assms(3), of undefined] by (simp add: finish_def)
  have e: "word_ends (ahead ?l)" unfolding scan_while_stops by (rule word_ends_drop)
  show ?thesis
  proof (cases "keyword_of ?u")
    case None
    then have "?u \<notin> range keyword_text" by (auto simp: keyword_of_None keyword_table [symmetric] image_iff)
    moreover have "?u \<noteq> []" "is_ident_start (hd ?u)"
      using assms(1,2) by (simp_all add: drop_cur is_ident_cont_def)
    ultimately have "is_identifier ?u"
      by (auto simp: is_identifier_def list_all_iff dest: set_takeWhileD)
    from lx_ident [OF this e] None show ?thesis
      by (simp add: lex_ident_def Let_def u spells_finish [OF m assms(3)])
  next
    case (Some k)
    then have "?u = keyword_text k" by (simp add: keyword_of_iff keyword_table)
    with lx_keyword [OF e] have "lexeme strtod ?u (ahead ?l) (Keyword k) (tk_val t)" by metis
    with Some show ?thesis by (simp add: lex_ident_def Let_def u spells_finish [OF m assms(3)])
  qed
qed

lemma spells_punct:
  assumes "punct_at (ahead lx) = Some (p, sp)" and "tk_pos t = lx_cur lx"
  shows "spells strtod lx (finish (advance_by (length sp) lx) t (Punct p), advance_by (length sp) lx)"
proof -
  note sp = punct_at_Some [OF assms(1)]
  let ?l = "advance_by (length sp) lx"
  have m: "moves lx sp ?l"
    using sp(2) append_take_drop_id [of "length sp" "ahead lx"] by (simp add: moves_def advance_by_def add.commute)
  have s: "sp = punct_text p" using sp(1) by (simp add: punct_table)
  have a: "ahead lx = punct_text p @ ahead ?l" using m s by (simp add: moves_def)
  have "\<forall>q. prefix_of (punct_text q) (punct_text p @ ahead ?l) \<longrightarrow> length (punct_text q) \<le> length (punct_text p)"
  proof (intro allI impI)
    fix q
    assume "prefix_of (punct_text q) (punct_text p @ ahead ?l)"
    then have "prefix_of (punct_text q) (ahead lx)" unfolding a .
    then show "length (punct_text q) \<le> length (punct_text p)"
      using punct_at_longest [OF assms(1), of q "punct_text q"] by (simp add: punct_table s)
  qed
  from lx_punct [OF this] have "lexeme strtod sp (ahead ?l) (Punct p) (tk_val t)" unfolding s .
  then show ?thesis by (rule spells_finish(1) [OF m assms(2)])
qed

text \<open>Character and string literals.\<close>

lemma char_units_snoc: "char_units q us cs \<Longrightarrow> char_unit q u c \<Longrightarrow> char_units q (us @ u) (cs @ [c])"
proof (induction rule: char_units.induct)
  case none
  then show ?case using more [OF none char_units.none] by simp
next
  case (more v d us cs)
  then show ?case using char_units.more [OF more(1) more(3) [OF more(4)]] by simp
qed

lemma unit_moves:
  assumes "scan_char_unit lx = (Inr ch, lx')" and "char_at lx 0 \<noteq> q"
  shows "\<exists>u. moves lx u lx' \<and> char_unit q u ch"
proof -
  have a: "\<not> at_end lx" "char_at lx 0 \<noteq> newline" using assms(1) by (auto simp: scan_char_unit_def split: if_splits)
  note m1 = moves_bump [OF a(1)]
  show ?thesis
  proof (cases "char_at lx 0 = CHR 0x5C")
    case False
    with assms(1) a have "ch = char_at lx 0" "lx' = bump lx" by (simp_all add: scan_char_unit_def Let_def)
    with m1 plain [of "char_at lx 0" q] a(2) assms(2) False show ?thesis by auto
  next
    case True
    let ?l = "bump lx" and ?e = "char_at (bump lx) 0"
    have b: "\<not> at_end ?l" using assms(1) a True by (auto simp: scan_char_unit_def Let_def split: if_splits)
    have m2: "moves lx [CHR 0x5C, ?e] (bump ?l)" using moves_trans [OF m1 moves_bump [OF b]] True by simp
    show ?thesis
    proof (cases "?e = CHR ''x''")
      case False
      with assms(1) a b True have "lx' = bump ?l" "(?e, ch) \<in> set escapes"
        by (auto simp: scan_char_unit_def Let_def escapes_def split: if_splits)
      with m2 escape [of ?e ch q] show ?thesis by auto
    next
      case x: True
      let ?m = "bump ?l"
      have h: "2 \<le> left ?m" "is_hex_digit (char_at ?m 0)" "is_hex_digit (char_at ?m 1)"
        "ch = char_of (hex_val (char_at ?m 0) * 16 + hex_val (char_at ?m 1))" "lx' = advance_by 2 ?m"
        using assms(1) a b True x by (auto simp: scan_char_unit_def Let_def split: if_splits)
      have "moves lx [CHR 0x5C, CHR ''x'', char_at ?m 0, char_at ?m 1] lx'"
        using moves_trans [OF m2 moves_two [OF h(1)]] h(5) x by simp
      with hex [OF h(2,3), of q] h(4) show ?thesis by auto
    qed
  qed
qed

lemma spells_char:
  assumes "\<not> at_end lx" and "char_at lx 0 = CHR 0x27" and "tk_pos t = lx_cur lx"
  shows "spells strtod lx (lex_char lx t)"
proof -
  let ?l = "bump lx"
  obtain r l2 where r: "scan_char_unit ?l = (r, l2)" by fastforce
  show ?thesis
  proof (cases "(\<not> at_end ?l \<and> char_at ?l 0 = CHR 0x27) \<or> (\<exists>m. r = Inl m) \<or> at_end l2 \<or> char_at l2 0 \<noteq> CHR 0x27")
    case True
    with r show ?thesis by (auto simp: lex_char_def Let_def spells_error split: sum.split)
  next
    case False
    then obtain ch where ch: "r = Inr ch" by (cases r) auto
    have "\<not> at_end ?l" using r ch by (auto simp: scan_char_unit_def split: if_splits)
    with False r ch obtain u where u: "moves ?l u l2" "char_unit (CHR 0x27) u ch"
      using unit_moves [of ?l ch l2 "CHR 0x27"] by auto
    have m: "moves lx ([CHR 0x27] @ u @ [CHR 0x27]) (bump l2)"
      using moves_trans [OF moves_bump [OF assms(1)] moves_trans [OF u(1) moves_bump]] False assms(2) by simp
    note f = spells_finish(2) [OF m assms(3) lx_char [OF u(2)]]
    have "lex_char lx t = ((finish (bump l2) t (Special TOK_CHAR))\<lparr>tk_val := Ival (word_of_nat (code ch))\<rparr>, bump l2)"
      using False r ch by (auto simp: lex_char_def Let_def)
    with f show ?thesis by simp
  qed
qed

lemma spells_string_loop:
  assumes "moves lx0 (CHR 0x22 # us) lx" and "char_units (CHR 0x22) us buf" and "tk_pos t = lx_cur lx0"
  shows "spells strtod lx0 (string_loop lx t buf)"
  using assms
proof (induction lx t buf arbitrary: us rule: string_loop.induct)
  case (1 lx t buf)
  obtain r l2 where r: "scan_char_unit lx = (r, l2)" by fastforce
  consider (bad) "at_end lx \<or> char_at lx 0 = newline"
    | (quote) "\<not> at_end lx" "char_at lx 0 = CHR 0x22"
    | (unit) "\<not> at_end lx" "char_at lx 0 \<noteq> newline" "char_at lx 0 \<noteq> CHR 0x22" by blast
  then show ?case
  proof cases
    case bad
    then show ?thesis by (subst string_loop.simps) (simp add: spells_error)
  next
    case quote
    have m: "moves lx0 ([CHR 0x22] @ us @ [CHR 0x22]) (bump lx)"
      using moves_trans [OF 1(2) moves_bump [OF quote(1)]] quote(2) by simp
    have "string_loop lx t buf = ((finish (bump lx) t (Special TOK_STRING))\<lparr>tk_val := Str buf\<rparr>, bump lx)"
      using quote by (subst string_loop.simps) (simp add: Let_def)
    with spells_finish(2) [OF m 1(4) lx_string [OF 1(3)]] show ?thesis by simp
  next
    case unit
    show ?thesis
    proof (cases r)
      case (Inl m)
      with unit r show ?thesis by (subst string_loop.simps) (simp add: spells_error)
    next
      case (Inr ch)
      with unit r obtain u where u: "moves lx u l2" "char_unit (CHR 0x22) u ch"
        using unit_moves [of lx ch l2 "CHR 0x22"] by auto
      have "moves lx0 (CHR 0x22 # (us @ u)) l2" using moves_trans [OF 1(2) u(1)] by simp
      moreover have "char_units (CHR 0x22) (us @ u) (buf @ [ch])" using 1(3) u(2) by (rule char_units_snoc)
      ultimately have "spells strtod lx0 (string_loop l2 t (buf @ [ch]))"
        using 1(1) unit r Inr 1(4) by auto
      with unit r Inr show ?thesis by (subst string_loop.simps) simp
    qed
  qed
qed

lemma spells_string:
  assumes "\<not> at_end lx" and "char_at lx 0 = CHR 0x22" and "tk_pos t = lx_cur lx"
  shows "spells strtod lx (lex_string lx t)"
  unfolding lex_string_def
  using moves_bump [OF assms(1)] assms(2,3) by (intro spells_string_loop [where us = "[]"]) (auto intro: char_units.none)

text \<open>Numbers.\<close>

lemma moves_in_source:
  assumes m: "moves lx u lx'" and i: "in_source lx"
  shows "in_source lx'"
proof -
  have "ahead lx = u @ ahead lx'" "lx_cur lx' = lx_cur lx + length u" "lx_src lx' = lx_src lx"
    using m by (simp_all add: moves_def)
  note m = this
  from m(1) have "length (ahead lx) = length u + length (ahead lx')" by (simp only: length_append)
  then have "length (lx_src lx) - lx_cur lx = length u + (length (lx_src lx) - (lx_cur lx + length u))"
    unfolding length_drop m(2,3) .
  then show ?thesis using i by (simp add: in_source_def m(2,3))
qed

lemma digits_loop_moves:
  assumes "digits_loop isd val (word_of_nat b) lx 0 False = (v, ov, l2)" and "in_source lx"
    and "\<And>c. isd c \<Longrightarrow> c \<noteq> newline" and "\<And>c. isd c \<Longrightarrow> val c < b" and "b \<le> 16" and "b > 0"
  defines "ds \<equiv> takeWhile isd (ahead lx)"
  shows "moves lx ds l2" and "l2 = scan_while isd lx" and "ahead l2 = dropWhile isd (ahead lx)"
    and "\<not> ov \<longrightarrow> v = word_of_nat (radix_value val b ds) \<and> radix_value val b ds < 2 ^ 64"
proof -
  show l2: "l2 = scan_while isd lx" using stays_digits_loop [OF assms(1-3)] by simp
  then show "moves lx ds l2" unfolding ds_def by (simp only: moves_scan_while)
  show "ahead l2 = dropWhile isd (ahead lx)" unfolding l2 by (rule scan_while_stops)
  have "(\<not> ov \<longrightarrow> unat v = radix_value val b ds) \<and> (ov \<longleftrightarrow> 2 ^ 64 \<le> radix_value val b ds)"
    using digits_loop_value [OF assms(1,2) refl assms(4-6), of 0] by (simp add: radix_value_def ds_def)
  moreover have "v = word_of_nat (unat v)" by simp
  ultimately show "\<not> ov \<longrightarrow> v = word_of_nat (radix_value val b ds) \<and> radix_value val b ds < 2 ^ 64"
    by (metis not_le)
qed

lemma spells_finish_int:
  assumes m: "moves lx s l" and "tk_pos t = lx_cur lx" and "int_literal s"
    and v: "\<not> ov \<longrightarrow> v = word_of_nat (literal_value s) \<and> literal_value s < 2 ^ 64"
    and "take 2 s = ''0x'' \<or> \<not> (\<exists>d r'. ahead l = CHR ''.'' # d # r' \<and> is_digit d)"
  shows "spells strtod lx (finish_int l t v ov)"
proof (cases "ov \<or> (\<not> at_end l \<and> is_ident_cont (char_at l 0))")
  case True
  then show ?thesis by (auto simp: finish_int_def spells_error)
next
  case False
  then have "word_ends (ahead l)" by (auto simp: word_ends_def at_end_drop char_at_hd)
  with lx_int [OF assms(3) _ this assms(5)] v False
  have "lexeme strtod s (ahead l) (Special TOK_INT) (Ival v)" by auto
  from spells_finish(2) [OF m assms(2) this] False show ?thesis by (auto simp: finish_int_def)
qed

lemma dot_digit:
  "2 \<le> left l \<and> char_at l 0 = CHR ''.'' \<and> is_digit (char_at l 1) \<longleftrightarrow> (\<exists>d r'. ahead l = CHR ''.'' # d # r' \<and> is_digit d)"
proof (cases "2 \<le> left l")
  case True
  then have "ahead l = [char_at l 0, char_at l 1] @ ahead (advance_by 2 l)" using moves_two by (simp add: moves_def)
  with True show ?thesis by auto
next
  case False
  then have "length (ahead l) < 2" by (simp only: left_drop not_le)
  moreover have "2 \<le> length (ahead l)" if "ahead l = CHR ''.'' # d # r" for d r unfolding that by simp
  ultimately show ?thesis using False by (meson not_le)
qed

lemma int_literal_hex: "hs \<noteq> [] \<Longrightarrow> list_all is_hex_digit hs \<Longrightarrow> int_literal (''0x'' @ hs)"
  and literal_value_hex: "literal_value (''0x'' @ hs) = radix_value hex_val 16 hs"
  by (simp_all add: int_literal_def literal_value_def)

lemma not_hex_prefix: "list_all is_digit s \<Longrightarrow> take 2 s \<noteq> ''0x''"
proof
  assume "list_all is_digit s" and x: "take 2 s = ''0x''"
  then have "is_digit CHR ''x''" unfolding list_all_iff by (metis in_set_takeD list.set_intros(1,2))
  then show False by (simp add: is_digit_def code_def)
qed

lemma int_literal_dec:
  assumes "list_all is_digit s" and "s \<noteq> []"
  shows "int_literal s" "literal_value s = radix_value dec_val 10 s"
  using assms not_hex_prefix [OF assms(1)] by (simp_all add: int_literal_def literal_value_def)

lemma list_all_takeWhile: "list_all p (takeWhile p xs)"
  by (auto simp: list_all_iff dest: set_takeWhileD)

lemma spells_hex:
  assumes "2 \<le> left lx" "char_at lx 0 = CHR ''0''" "char_at lx 1 = CHR ''x''" and "tk_pos t = lx_cur lx" and "in_source lx"
  shows "spells strtod lx (lex_number strtod lx t)"
proof -
  let ?l = "advance_by 2 lx"
  note m = moves_two [OF assms(1), unfolded assms(2,3)]
  show ?thesis
  proof (cases "at_end ?l \<or> \<not> is_hex_digit (char_at ?l 0)")
    case True
    then show ?thesis using assms(1-3) by (auto simp: lex_number_def Let_def spells_error)
  next
    case False
    obtain v ov l2 where h: "digits_loop is_hex_digit hex_val 16 ?l 0 False = (v, ov, l2)" by (metis prod_cases3)
    have s: "in_source ?l" using moves_in_source [OF m assms(5)] .
    let ?hs = "takeWhile is_hex_digit (ahead ?l)"
    have h': "digits_loop is_hex_digit hex_val (word_of_nat 16) ?l 0 False = (v, ov, l2)" using h by simp
    note d = digits_loop_moves [OF h' s class_not_newline(2) digit_vals(2)]
    have "ahead ?l = char_at ?l 0 # drop (Suc (lx_cur ?l)) (lx_src ?l)" using False by (intro drop_cur) simp
    then have ne: "?hs \<noteq> []" using False by (metis list.distinct(1) takeWhile.simps(2))
    have mv: "moves lx (''0x'' @ ?hs) l2" using moves_trans [OF m d(1)] by simp
    have v: "\<not> ov \<longrightarrow> v = word_of_nat (literal_value (''0x'' @ ?hs)) \<and> literal_value (''0x'' @ ?hs) < 2 ^ 64"
      unfolding literal_value_hex using d(4) by simp
    have "spells strtod lx (finish_int l2 t v ov)"
      by (rule spells_finish_int [OF mv assms(4) int_literal_hex [OF ne list_all_takeWhile] v]) simp
    with assms(1-3) False h show ?thesis by (simp add: lex_number_def Let_def)
  qed
qed

lemma spells_dec:
  assumes "\<not> at_end lx" "is_digit (char_at lx 0)" and nox: "\<not> (2 \<le> left lx \<and> char_at lx 0 = CHR ''0'' \<and> char_at lx 1 = CHR ''x'')"
    and pos: "tk_pos t = lx_cur lx" and "in_source lx"
  shows "spells strtod lx (lex_number strtod lx t)"
proof -
  obtain v ov l2 where h: "digits_loop is_digit dec_val 10 lx 0 False = (v, ov, l2)" by (metis prod_cases3)
  then have h': "digits_loop is_digit dec_val (word_of_nat 10) lx 0 False = (v, ov, l2)" by simp
  let ?ds = "takeWhile is_digit (ahead lx)"
  note d = digits_loop_moves [OF h' assms(5) class_not_newline(1) digit_vals(1)]
  have ne: "?ds \<noteq> []" using assms(1,2) by (simp add: drop_cur)
  note lit = int_literal_dec [OF list_all_takeWhile ne]
  show ?thesis
  proof (cases "2 \<le> left l2 \<and> char_at l2 0 = CHR ''.'' \<and> is_digit (char_at l2 1)")
    case False
    have v: "\<not> ov \<longrightarrow> v = word_of_nat (literal_value ?ds) \<and> literal_value ?ds < 2 ^ 64"
      unfolding lit(2) using d(4) by simp
    have "spells strtod lx (finish_int l2 t v ov)"
      using False unfolding dot_digit by (intro spells_finish_int [OF d(1) pos lit(1) v]) simp_all
    then show ?thesis unfolding lex_number_def if_not_P [OF nox] h prod.case if_not_P [OF False] .
  next
    case True
    let ?l = "advance_by 2 l2"
    let ?l3 = "scan_while is_digit ?l" and ?es = "takeWhile is_digit (ahead ?l)"
    let ?s = "?ds @ ''.'' @ char_at l2 1 # ?es"
    have m: "moves lx ?s ?l3"
      using moves_trans [OF d(1) moves_trans [OF moves_two moves_scan_while]] True by simp
    show ?thesis
    proof (cases "\<not> at_end ?l3 \<and> is_ident_cont (char_at ?l3 0)")
      case e: True
      show ?thesis
        unfolding lex_number_def if_not_P [OF nox] h prod.case if_P [OF True] Let_def if_P [OF e] by (rule spells_error)
    next
      case e: False
      then have w: "word_ends (ahead ?l3)" by (auto simp: word_ends_def at_end_drop char_at_hd simp del: scan_while_frame)
      have fl: "float_literal ?s"
        unfolding float_literal_def using True ne list_all_takeWhile [of is_digit]
        by (intro exI [of _ ?ds] exI [of _ "char_at l2 1 # ?es"]) auto
      have c: "segment (tk_pos t) (lx_cur ?l3) (lx_src ?l3) = ?s"
        using finish_text [OF m pos, of undefined] by (simp add: finish_def del: scan_while_frame)
      have "lex_number strtod lx t = ((finish ?l3 t (Special TOK_FLOAT))\<lparr>tk_val := Fval (strtod ?s)\<rparr>, ?l3)"
        unfolding lex_number_def if_not_P [OF nox] h prod.case if_P [OF True] Let_def if_not_P [OF e] c ..
      with spells_finish(2) [OF m pos lx_float [OF fl w, of strtod]] show ?thesis by simp
    qed
  qed
qed

section \<open>Every token is the lexeme of its text\<close>

lemma lexer_next_spells:
  assumes "well_placed lx" and "lexer_next strtod lx = (t, lx')"
  shows "spells strtod (skip_trivia lx) (t, lx') \<and> tk_pos t = lx_cur (skip_trivia lx)"
proof -
  define l where "l = skip_trivia lx"
  define t0 where "t0 = \<lparr>tk_kind = Special TOK_EOF, tk_pos = lx_cur l, tk_text = [], tk_line = lx_line l,
       tk_col = lx_cur l - lx_line_start l + 1, tk_val = Ival 0\<rparr>"
  have p0: "tk_pos t0 = lx_cur l" by (simp add: t0_def)
  have ins: "in_source l" using skip_trivia_spec [OF assms(1)] by (simp add: l_def well_placed_def)
  note n = assms(2) [symmetric, unfolded lexer_next_def Let_def, folded l_def, folded t0_def]
  have "spells strtod l (t, lx')"
  proof (cases "at_end l")
    case True
    then have "ahead l = []" by (simp add: at_end_drop)
    with n True lx_eof [of strtod "tk_val t0"] show ?thesis by (simp add: spells_def t0_def moves_refl)
  next
    case False
    have num: "is_digit (char_at l 0) \<Longrightarrow> spells strtod l (lex_number strtod l t0)"
      using spells_hex [OF _ _ _ p0 ins] spells_dec [OF False _ _ p0 ins] by blast
    show ?thesis
      unfolding n using False p0 num
      by (auto simp: spells_ident spells_char spells_string spells_punct spells_error split: option.split)
  qed
  with takes_lexer_next(1) [OF assms] show ?thesis by (simp add: l_def)
qed

text \<open>\<open>spelled strtod src t\<close>: the kind and the value of a token are those of its text in the source.\<close>

definition spelled :: "(string \<Rightarrow> u64) \<Rightarrow> string \<Rightarrow> token \<Rightarrow> bool" where
  "spelled strtod src t \<longleftrightarrow>
     lexeme strtod (tk_text t) (drop (tk_pos t + length (tk_text t)) src) (tk_kind t) (tk_val t)"

lemma lex_loop_spelled:
  "well_placed lx \<Longrightarrow> lex_loop strtod n lx = Some (ts, lx') \<Longrightarrow> t \<in> set ts \<Longrightarrow> tk_kind t \<noteq> Special TOK_ERROR
    \<Longrightarrow> spelled strtod (lx_src lx) t"
proof (induction n arbitrary: lx ts)
  case 0
  then show ?case by simp
next
  case (Suc n)
  obtain u l1 where u: "lexer_next strtod lx = (u, l1)" by fastforce
  have one: "spelled strtod (lx_src lx) u" if "tk_kind u \<noteq> Special TOK_ERROR"
    using lexer_next_spells [OF Suc.prems(1) u] that by (auto simp: spells_def spelled_def moves_def)
  show ?case
  proof (cases "t = u")
    case True
    with one Suc.prems(4) show ?thesis by simp
  next
    case False
    with Suc.prems(2,3) u obtain ts' where r: "lex_loop strtod n l1 = Some (ts', lx')" "t \<in> set ts'"
      by (auto split: if_splits option.splits)
    from Suc.IH [OF lexer_next_well_placed [OF Suc.prems(1) u] r Suc.prems(4)] show ?thesis
      by (simp add: lexer_next_src [OF u Suc.prems(1)])
  qed
qed

lemma lexer_lex_all_spelled:
  assumes "lexer_lex_all strtod (lexer_init f src) = Some (ts, n, lx)" and "t \<in> set ts" and "tk_kind t \<noteq> Special TOK_ERROR"
  shows "spelled strtod src t"
proof -
  obtain m where "lex_loop strtod m (lexer_init f src) = Some (ts, lx)"
    using assms(1) unfolding lexer_lex_all_def by (auto simp del: lex_loop.simps split: option.splits)
  from lex_loop_spelled [OF well_placed_init this assms(2,3)] show ?thesis by (simp add: lexer_init_def)
qed

end
