(* ===== verification/Slop_Front_End.thy ===== *)
theory Slop_Front_End
  imports Slop_Parser_Props Slop_Lexemes
begin

text \<open>
  The lexer and the parser together, as \<open>driver/main.c\<close> runs them: \<open>lexer_lex_all\<close> on the file's bytes, then
  \<open>parse_program\<close> on the token array.
\<close>

lemma tiles_eof: "tiles src i ts \<Longrightarrow> ts \<noteq> [] \<and> tk_kind (last ts) = Special TOK_EOF \<and> Special TOK_EOF \<notin> tk_kind ` set (butlast ts)
     \<and> tk_text (last ts) = [] \<and> list_all (\<lambda>t. tk_text t \<noteq> []) (butlast ts)"
  by (induction src i ts rule: tiles.induct) (auto split: if_splits)

definition front_end :: "(string \<Rightarrow> u64) \<Rightarrow> string \<Rightarrow> string \<Rightarrow> (program \<times> nat \<times> string list) option" where
  "front_end strtod file src =
     (case lexer_lex_all strtod (lexer_init (Some file) src) of
        None \<Rightarrow> None
      | Some (toks, _, _) \<Rightarrow> parse_program toks file)"

text \<open>
  \<open>is_source\<close>: the source is the program. Its bytes are the tokens \<open>toks\<close> with trivia between them, each token has the
  kind and the value its text has in the lexical grammar, these are the tokens the lexer gives, and all of them but the
  end of the file derive the program.
\<close>

definition is_source :: "(string \<Rightarrow> u64) \<Rightarrow> string \<Rightarrow> string \<Rightarrow> program \<Rightarrow> bool" where
  "is_source strtod file src prog \<longleftrightarrow> (\<exists>toks lx. lexer_lex_all strtod (lexer_init (Some file) src) = Some (toks, 0, lx)
     \<and> tiles src 0 toks \<and> list_all (spelled strtod src) toks
     \<and> g_program file prog (butlast toks) \<and> list_all complete_item (pg_items prog))"

lemma front_end_ok:
  obtains toks lx prog n out where
    "lexer_lex_all strtod (lexer_init (Some file) src) = Some (toks, error_tokens toks, lx)" "tiles src 0 toks"
    "\<forall>t \<in> set toks. tk_kind t = Special TOK_ERROR \<or> spelled strtod src t"
    "front_end strtod file src = Some (prog, n, out)"
    "n = 0 \<Longrightarrow> error_tokens toks = 0" "n = 0 \<Longrightarrow> g_program file prog (butlast toks)"
    "n = 0 \<Longrightarrow> list_all complete_item (pg_items prog)"
proof -
  obtain ts lx where l: "lexer_lex_all strtod (lexer_init (Some file) src) = Some (ts, error_tokens ts, lx)"
    and t: "tiles src 0 ts"
    using lexer_lex_all_ok [of strtod "Some file" src] by blast
  have e: "ts \<noteq> []" "tk_kind (last ts) = Special TOK_EOF" "Special TOK_EOF \<notin> tk_kind ` set (butlast ts)"
    using tiles_eof [OF t] by auto
  obtain prog n out where p: "parse_program ts file = Some (prog, n, out)"
    and s: "n = 0 \<longrightarrow> g_program file prog (butlast ts) \<and> list_all complete_item (pg_items prog)"
    using parse_program_ok [OF e] by blast
  have none: "error_tokens ts = 0" if "n = 0"
  proof -
    have "no_error (butlast ts @ [last ts])" using s that g_program_no_error [of "file" prog "butlast ts"] e(2) by simp
    then have "no_error ts" using e(1) by simp
    then show ?thesis by (auto simp: error_tokens_def list_all_iff filter_empty_conv)
  qed
  show ?thesis
    by (rule that [OF l t, of prog n out]) (use lexer_lex_all_spelled [OF l] l p s none in \<open>auto simp: front_end_def\<close>)
qed

lemma front_end_source:
  assumes "front_end strtod file src = Some (prog, 0, out)"
  shows "is_source strtod file src prog"
proof -
  obtain toks lx prog' n out' where f:
    "lexer_lex_all strtod (lexer_init (Some file) src) = Some (toks, error_tokens toks, lx)" "tiles src 0 toks"
    "\<forall>t \<in> set toks. tk_kind t = Special TOK_ERROR \<or> spelled strtod src t"
    "front_end strtod file src = Some (prog', n, out')"
    "n = 0 \<Longrightarrow> error_tokens toks = 0" "n = 0 \<Longrightarrow> g_program file prog' (butlast toks)"
    "n = 0 \<Longrightarrow> list_all complete_item (pg_items prog')"
    using front_end_ok [of strtod "file" src] by metis
  with assms have g: "error_tokens toks = 0" "g_program file prog (butlast toks)" "list_all complete_item (pg_items prog)"
    by simp_all
  from g(1) have "\<forall>t \<in> set toks. tk_kind t \<noteq> Special TOK_ERROR" by (simp add: error_tokens_def filter_empty_conv)
  with f(3) have "list_all (spelled strtod src) toks" by (auto simp: list_all_iff)
  with f(1,2) g show ?thesis unfolding is_source_def by auto
qed

text \<open>
  C1. Whatever bytes a source file holds, lexing and parsing it end. The lexer's tokens tile the source with white space
  and comments between them, and every token that is not reported as an error has the kind and the value its text has
  in the lexical grammar of \<open>GRAMMAR.md\<close>. If no error is reported, the lexer saw no malformed token either, and these very
  tokens, up to the end of the file, derive the program that is returned, which has no holes.
\<close>
theorem front_end_sound:
  "\<exists>toks lx prog n out.
     lexer_lex_all strtod (lexer_init (Some file) src) = Some (toks, error_tokens toks, lx) \<and> tiles src 0 toks
     \<and> (\<forall>t \<in> set toks. tk_kind t = Special TOK_ERROR \<or> spelled strtod src t)
     \<and> front_end strtod file src = Some (prog, n, out)
     \<and> (n = 0 \<longrightarrow> error_tokens toks = 0 \<and> g_program file prog (butlast toks) \<and> list_all complete_item (pg_items prog))"
  by (rule front_end_ok [of strtod "file" src]) (intro exI conjI; assumption | blast)+

theorem front_end_sound_witness:
  "\<exists>toks lx prog out. lexer_lex_all (\<lambda>_. 0) (lexer_init (Some ''a.slop'') ''let i32 x; # one'') = Some (toks, 0, lx)
     \<and> front_end (\<lambda>_. 0) ''a.slop'' ''let i32 x; # one'' = Some (prog, 0, out) \<and> g_program ''a.slop'' prog (butlast toks)
     \<and> length toks = 5"
proof -
  have run: "(case front_end (\<lambda>_. 0) ''a.slop'' ''let i32 x; # one'' of Some (_, n, _) \<Rightarrow> n = 0 | None \<Rightarrow> False)"
    "(case lexer_lex_all (\<lambda>_. 0) (lexer_init (Some ''a.slop'') ''let i32 x; # one'') of Some (ts, _, _) \<Rightarrow> length ts = 5 | None \<Rightarrow> False)"
    by code_simp+
  obtain toks lx prog n out where
    f: "lexer_lex_all (\<lambda>_. 0) (lexer_init (Some ''a.slop'') ''let i32 x; # one'') = Some (toks, error_tokens toks, lx)"
      "front_end (\<lambda>_. 0) ''a.slop'' ''let i32 x; # one'' = Some (prog, n, out)"
      "n = 0 \<longrightarrow> error_tokens toks = 0 \<and> g_program ''a.slop'' prog (butlast toks) \<and> list_all complete_item (pg_items prog)"
    using front_end_sound [of "\<lambda>_. 0" "''a.slop''" "''let i32 x; # one''"] by (elim exE conjE) iprover
  with run have "n = 0" "length toks = 5" by simp_all
  with f show ?thesis by auto
qed

end
