(* ===== verification/Slop_Ast_Dump.thy ===== *)
theory Slop_Ast_Dump
  imports Slop_Lexer_Props Slop_Ast
begin

text \<open>
  \<open>src/ast/ast_dump.c\<close>: the indented rendering of a tree. Each function gives the bytes it writes to
  \<open>out\<close>. The printer of sema types is the callback \<open>ast_dump\<close> is given; how printf writes a double
  with \<open>%g\<close> is a parameter. The last section shows that a quoted string is a string literal of the
  language with the same bytes.
\<close>

section \<open>Strings and types\<close>

text \<open>\<open>print_view\<close> on a name of the tree; the parser sets every name, and a view never set has no bytes.\<close>

definition print_view :: "string \<Rightarrow> string" where
  "print_view v = (if v = [] then ''<none>'' else v)"

definition isprint :: "char \<Rightarrow> bool" where
  "isprint c \<longleftrightarrow> 0x20 \<le> code c \<and> code c \<le> 0x7E"

definition quoted_char :: "char \<Rightarrow> string" where
  "quoted_char c =
     (if c = newline then [CHR 0x5C, CHR ''n'']
      else if c = CHR 0x0D then [CHR 0x5C, CHR ''r'']
      else if c = CHR 0x09 then [CHR 0x5C, CHR ''t'']
      else if c = CHR 0x22 then [CHR 0x5C, CHR 0x22]
      else if c = CHR 0x5C then [CHR 0x5C, CHR 0x5C]
      else if isprint c then [c]
      else [CHR 0x5C, CHR ''x''] @ hex2_of_nat (code c))"

definition print_quoted :: "string \<Rightarrow> string" where
  "print_quoted v = [CHR 0x22] @ concat (map quoted_char v) @ [CHR 0x22]"

fun print_type :: "ast_type \<Rightarrow> string" where
  "print_type (TYPE_CORE pos k) = token_kind_name k"
| "print_type (TYPE_NAME pos n) = print_view n"
| "print_type (TYPE_POINTER pos t) = print_type t @ ''*''"
| "print_type (TYPE_ARRAY pos t n) = print_type t @ ''['' @ dec_of_nat (unat n) @ '']''"

definition ast_print_type :: "ast_type option \<Rightarrow> string" where
  "ast_print_type t = (case t of None \<Rightarrow> ''<error-type>'' | Some t \<Rightarrow> print_type t)"

definition indent :: "nat \<Rightarrow> string" where
  "indent depth = concat (replicate depth ''  '')"

definition op_str :: "token_kind \<Rightarrow> string" where
  "op_str op = token_kind_name op"

section \<open>Expressions\<close>

record dumper =
  du_type :: "(nat \<Rightarrow> string) option"
  du_g :: "u64 \<Rightarrow> string"

definition endline :: "dumper \<Rightarrow> expr \<Rightarrow> string" where
  "endline du e =
     (case (du_type du, ex_sem e) of (Some pr, Some t) \<Rightarrow> '' : '' @ pr t | _ \<Rightarrow> []) @ [newline]"

text \<open>What follows the indent of a node, its children included; a child that is NULL is an error marker.\<close>

fun dump_child :: "dumper \<Rightarrow> nat \<Rightarrow> expr option \<Rightarrow> string"
  and dump_expr :: "dumper \<Rightarrow> nat \<Rightarrow> expr \<Rightarrow> string"
  and dump_node :: "dumper \<Rightarrow> nat \<Rightarrow> string \<Rightarrow> expr_node \<Rightarrow> string" where
  "dump_child du depth None = indent depth @ ''<error-expr>'' @ [newline]"
| "dump_child du depth (Some e) = dump_expr du depth e"
| "dump_expr du depth (Expr pos sem u) = indent depth @ dump_node du depth (endline du (Expr pos sem u)) u"
| "dump_node du depth el (EXPR_INT v) = ''int '' @ dec_of_nat (unat v) @ el"
| "dump_node du depth el (EXPR_FLOAT v) = ''float '' @ du_g du v @ el"
| "dump_node du depth el (EXPR_CHAR v) = ''char '' @ dec_of_nat (unat v) @ el"
| "dump_node du depth el (EXPR_STRING s) = ''string '' @ print_quoted s @ el"
| "dump_node du depth el (EXPR_BOOL b) = ''bool '' @ (if b then ''true'' else ''false'') @ el"
| "dump_node du depth el EXPR_NULL = ''null'' @ el"
| "dump_node du depth el (EXPR_NAME n) = ''name '' @ print_view n @ el"
| "dump_node du depth el (EXPR_UNARY op a) = ''unary '' @ op_str op @ el @ dump_child du (depth + 1) a"
| "dump_node du depth el (EXPR_BINARY op a b) =
     ''binary '' @ op_str op @ el @ dump_child du (depth + 1) a @ dump_child du (depth + 1) b"
| "dump_node du depth el (EXPR_CALL f args) =
     ''call ('' @ dec_of_nat (length args) @ '' arg'' @ (if length args = 1 then [] else ''s'') @ '')'' @ el
       @ dump_child du (depth + 1) f @ concat (map (dump_child du (depth + 1)) args)"
| "dump_node du depth el (EXPR_INDEX a i) =
     ''index'' @ el @ dump_child du (depth + 1) a @ dump_child du (depth + 1) i"
| "dump_node du depth el (EXPR_FIELD a n) = ''field .'' @ print_view n @ el @ dump_child du (depth + 1) a"
| "dump_node du depth el (EXPR_CAST a t) = ''cast to '' @ ast_print_type t @ el @ dump_child du (depth + 1) a"
| "dump_node du depth el (EXPR_SIZEOF t) = ''sizeof '' @ ast_print_type t @ el"
| "dump_node du depth el (EXPR_CONV a) = ''conv'' @ el @ dump_child du (depth + 1) a"

section \<open>Statements\<close>

text \<open>One label; its value is an integer, a character or a name (\<open>ast.h\<close>).\<close>

definition dump_label :: "match_label \<Rightarrow> string" where
  "dump_label l =
     (if ml_is_wildcard l then ''_''
      else case ml_value l of
        None \<Rightarrow> ''<error>''
      | Some e \<Rightarrow> (case ex_u e of
            EXPR_NAME n \<Rightarrow> print_view n
          | EXPR_INT v \<Rightarrow> dec_of_nat (unat v)
          | EXPR_CHAR v \<Rightarrow> dec_of_nat (unat v)
          | _ \<Rightarrow> dec_of_nat 0))"

fun dump_labels :: "nat \<Rightarrow> match_label list \<Rightarrow> string" where
  "dump_labels j [] = []"
| "dump_labels j (l # ls) = (if j = 0 then '' '' else '','') @ dump_label l @ dump_labels (j + 1) ls"

definition line :: "nat \<Rightarrow> string \<Rightarrow> string" where
  "line depth s = indent depth @ s @ [newline]"

fun dump_stmt :: "dumper \<Rightarrow> nat \<Rightarrow> stmt \<Rightarrow> string"
  and dump_block :: "dumper \<Rightarrow> nat \<Rightarrow> block \<Rightarrow> string"
  and dump_arm :: "dumper \<Rightarrow> nat \<Rightarrow> match_arm \<Rightarrow> string" where
  "dump_stmt du depth (STMT_BLOCK pos b) = dump_block du depth b"
| "dump_stmt du depth (STMT_VAR pos m t n i) =
     line depth (''let '' @ (if m then ''mut '' else []) @ print_type t @ '' '' @ print_view n)
       @ (case i of Some e \<Rightarrow> dump_expr du (depth + 1) e | None \<Rightarrow> [])"
| "dump_stmt du depth (STMT_IF pos c b e) =
     line depth ''if'' @ dump_child du (depth + 1) c @ dump_block du (depth + 1) b
       @ (case e of Some s \<Rightarrow> line depth ''else'' @ dump_stmt du (depth + 1) s | None \<Rightarrow> [])"
| "dump_stmt du depth (STMT_WHILE pos c b) =
     line depth ''while'' @ dump_child du (depth + 1) c @ dump_block du (depth + 1) b"
| "dump_stmt du depth (STMT_MATCH pos e arms) =
     line depth (''match ('' @ dec_of_nat (length arms) @ '' arms)'') @ dump_child du (depth + 1) e
       @ concat (map (dump_arm du depth) arms)"
| "dump_stmt du depth (STMT_RETURN pos v) =
     line depth ''return'' @ (case v of Some e \<Rightarrow> dump_expr du (depth + 1) e | None \<Rightarrow> [])"
| "dump_stmt du depth (STMT_BREAK pos) = line depth ''break''"
| "dump_stmt du depth (STMT_CONTINUE pos) = line depth ''continue''"
| "dump_stmt du depth (STMT_EXPR pos e) = line depth ''expr'' @ dump_expr du (depth + 1) e"
| "dump_stmt du depth (STMT_ASSIGN pos e op v) =
     line depth (''assign '' @ op_str op) @ dump_expr du (depth + 1) e @ dump_child du (depth + 1) v"
| "dump_stmt du depth (STMT_EMPTY pos) = line depth ''empty''"
| "dump_block du depth (Block ss pos) =
     line depth (''block ('' @ dec_of_nat (length ss) @ '')'') @ concat (map (dump_stmt du (depth + 1)) ss)"
| "dump_arm du depth (MatchArm pos ls s) =
     line (depth + 1) (''arm'' @ dump_labels 0 ls) @ dump_stmt du (depth + 2) s"

section \<open>Items\<close>

fun dump_params :: "nat \<Rightarrow> param list \<Rightarrow> string" where
  "dump_params i [] = []"
| "dump_params i (p # ps) =
     (if i \<noteq> 0 then '', '' else []) @ (if pr_is_mut p then ''mut '' else []) @ print_type (pr_type p) @ '' ''
       @ print_view (pr_name p) @ dump_params (i + 1) ps"

definition dump_signature :: "nat \<Rightarrow> fn_decl \<Rightarrow> string" where
  "dump_signature depth f =
     line depth (''fn '' @ print_view (fn_name f) @ ''('' @ dump_params 0 (fn_params f)
       @ (if fn_is_variadic f then (if length (fn_params f) \<noteq> 0 then '', ...'' else ''...'') else [])
       @ '') -> '' @ print_type (fn_ret f))"

fun dump_item :: "dumper \<Rightarrow> nat \<Rightarrow> item \<Rightarrow> string" where
  "dump_item du depth (ITEM_FN pos f) = dump_signature depth f @ dump_block du (depth + 1) (fn_body f)"
| "dump_item du depth (ITEM_STRUCT pos n fs) =
     line depth (''struct '' @ print_view n)
       @ concat (map (\<lambda>f. line (depth + 1) (print_type (fd_type f) @ '' '' @ print_view (fd_name f))) fs)"
| "dump_item du depth (ITEM_ENUM pos n b ms) =
     line depth (''enum '' @ print_view n @ '' : '' @ op_str b)
       @ concat (map (\<lambda>m. line (depth + 1) (print_view (em_name m)
             @ (if em_has_value m then '' = '' @ dec_of_nat (unat (em_value m)) else []))) ms)"
| "dump_item du depth (ITEM_GLOBAL pos m t n i) =
     line depth (''let '' @ (if m then ''mut '' else []) @ print_type t @ '' '' @ print_view n)
       @ (case i of Some e \<Rightarrow> dump_expr du (depth + 1) e | None \<Rightarrow> [])"
| "dump_item du depth (ITEM_EXTERN pos abi fns) =
     line depth (''extern '' @ print_quoted abi) @ concat (map (dump_signature (depth + 1)) fns)"

definition ast_dump :: "dumper \<Rightarrow> program option \<Rightarrow> string" where
  "ast_dump du prog = (case prog of
     None \<Rightarrow> ''<no program>'' @ [newline]
   | Some p \<Rightarrow> ''program '' @ pg_file p @ '' ('' @ dec_of_nat (length (pg_items p)) @ '' items)'' @ [newline]
       @ concat (map (dump_item du 1) (pg_items p)))"

section \<open>Quoting and lexing\<close>

text \<open>What the scanner has not read yet.\<close>

definition rest :: "lexer \<Rightarrow> string" where
  "rest lx = drop (lx_cur lx) (lx_src lx)"

lemma rest_bump [simp]: "rest (bump lx) = tl (rest lx)"
  by (simp add: rest_def bump_def drop_Suc tl_drop)

lemma rest_advance [simp]: "rest (advance_by k lx) = drop k (rest lx)"
  by (simp add: rest_def advance_by_def add.commute)

lemma rest_Cons:
  assumes "rest lx = c # r"
  shows "\<not> at_end lx" and "char_at lx 0 = c" and "left lx = Suc (length r)"
    and "r = d # r' \<Longrightarrow> char_at lx 1 = d"
proof -
  have l: "lx_cur lx < length (lx_src lx)" using assms by (metis drop_eq_Nil2 list.distinct(1) not_le rest_def)
  then show "\<not> at_end lx" by (simp add: at_end_def)
  show "left lx = Suc (length r)" using assms by (metis left_drop length_Cons rest_def)
  have n: "char_at lx k = (c # r) ! k" if "k \<le> length r" for k
  proof -
    have "lx_cur lx + k < length (lx_src lx)"
      using that l arg_cong [OF assms, of length] by (simp add: rest_def)
    then show ?thesis by (simp add: char_at_drop rest_def [symmetric] assms)
  qed
  show "char_at lx 0 = c" using n [of 0] by simp
  show "r = d # r' \<Longrightarrow> char_at lx 1 = d" using n [of 1] by simp
qed

lemma bump_advance: "bump lx = advance_by 1 lx" "advance_by j (advance_by k lx) = advance_by (k + j) lx"
  by (simp_all add: bump_def advance_by_def)

text \<open>The two digits of an escape give the byte back.\<close>

lemma hex_digit_upper_val: "d < 16 \<Longrightarrow> is_hex_digit (hex_digit_upper d) \<and> hex_val (hex_digit_upper d) = d"
proof -
  assume "d < 16"
  then have "d < 10 \<or> d \<in> {10, 11, 12, 13, 14, 15}" by auto
  then show ?thesis
    by (auto simp: is_hex_digit_def is_digit_def hex_val_def hex_digit_upper_def code_def)
qed

lemma hex2_char:
  "is_hex_digit (hex_digit_upper (code c div 16))" "is_hex_digit (hex_digit_upper (code c mod 16))"
  "char_of (hex_val (hex_digit_upper (code c div 16)) * 16 + hex_val (hex_digit_upper (code c mod 16))) = c"
proof -
  have "code c < 256" by (simp add: code_def)
  then have lt: "code c div 16 < 16" "code c mod 16 < 16" by auto
  then show "is_hex_digit (hex_digit_upper (code c div 16))" "is_hex_digit (hex_digit_upper (code c mod 16))"
    by (simp_all add: hex_digit_upper_val)
  show "char_of (hex_val (hex_digit_upper (code c div 16)) * 16 + hex_val (hex_digit_upper (code c mod 16))) = c"
    using lt by (simp add: hex_digit_upper_val code_def)
qed

definition escapes :: "(char \<times> char) set" where
  "escapes = {(CHR ''n'', newline), (CHR ''r'', CHR 0x0D), (CHR ''t'', CHR 0x09), (CHR 0x22, CHR 0x22), (CHR 0x5C, CHR 0x5C)}"

lemma quoted_char_cases:
  "quoted_char c = [c] \<and> c \<noteq> newline \<and> c \<noteq> CHR 0x5C
   \<or> (\<exists>e. quoted_char c = [CHR 0x5C, e] \<and> (e, c) \<in> escapes)
   \<or> quoted_char c = [CHR 0x5C, CHR ''x'', hex_digit_upper (code c div 16), hex_digit_upper (code c mod 16)]"
  unfolding quoted_char_def hex2_of_nat_def escapes_def by (simp split: if_split)

lemma scan_quoted:
  assumes "rest lx = quoted_char c @ r"
  shows "scan_char_unit lx = (Inr c, advance_by (length (quoted_char c)) lx)"
proof -
  consider (plain) "quoted_char c = [c]" "c \<noteq> newline" "c \<noteq> CHR 0x5C"
    | (esc) e where "quoted_char c = [CHR 0x5C, e]" "(e, c) \<in> escapes"
    | (hex) "quoted_char c = [CHR 0x5C, CHR ''x'', hex_digit_upper (code c div 16), hex_digit_upper (code c mod 16)]"
    using quoted_char_cases [of c] by blast
  then show ?thesis
  proof cases
    case plain
    with assms rest_Cons [of lx c r] show ?thesis by (simp add: scan_char_unit_def Let_def bump_advance)
  next
    case esc
    with assms have 1: "rest lx = CHR 0x5C # e # r" by simp
    then have 2: "rest (bump lx) = e # r" by simp
    from esc rest_Cons(1,2) [OF 1] rest_Cons(1,2) [OF 2] show ?thesis
      by (auto simp: scan_char_unit_def Let_def bump_advance escapes_def)
  next
    case hex
    let ?a = "hex_digit_upper (code c div 16)" and ?b = "hex_digit_upper (code c mod 16)"
    from hex assms have 1: "rest lx = CHR 0x5C # CHR ''x'' # ?a # ?b # r" by simp
    then have 2: "rest (bump lx) = CHR ''x'' # ?a # ?b # r" by simp
    then have 3: "rest (bump (bump lx)) = ?a # ?b # r" by simp
    from hex rest_Cons(1,2) [OF 1] rest_Cons(1,2) [OF 2] rest_Cons [OF 3] hex2_char [of c] show ?thesis
      by (simp add: scan_char_unit_def Let_def) (simp add: bump_advance)
  qed
qed

lemma quoted_char_hd: "quoted_char c \<noteq> []" "hd (quoted_char c) \<noteq> newline" "hd (quoted_char c) \<noteq> CHR 0x22"
  by (auto simp: quoted_char_def)

lemma string_loop_quoted:
  "rest lx = concat (map quoted_char s) @ CHR 0x22 # r \<Longrightarrow>
    string_loop lx t buf = (let lx' = advance_by (Suc (length (concat (map quoted_char s)))) lx in
      ((finish lx' t (Special TOK_STRING))\<lparr>tk_val := Str (buf @ s)\<rparr>, lx'))"
proof (induction s arbitrary: lx buf)
  case Nil
  with rest_Cons [of lx "CHR 0x22" r] show ?case
    by (subst string_loop.simps) (simp add: Let_def bump_advance)
next
  case (Cons c s)
  obtain d u where q: "quoted_char c = d # u" "d \<noteq> newline" "d \<noteq> CHR 0x22"
    using quoted_char_hd [of c] by (cases "quoted_char c") auto
  from Cons.prems q rest_Cons(1,2) [of lx d] have d: "\<not> at_end lx" "char_at lx 0 = d" by auto
  have s: "scan_char_unit lx = (Inr c, advance_by (length (quoted_char c)) lx)"
    using Cons.prems by (intro scan_quoted) simp
  have "rest (advance_by (length (quoted_char c)) lx) = concat (map quoted_char s) @ CHR 0x22 # r"
    using Cons.prems by simp
  from Cons.IH [OF this] d q s show ?case
    by (subst string_loop.simps) (simp add: Let_def bump_advance add.assoc)
qed

text \<open>
  C14. Quoting is the inverse of lexing: wherever the scanner meets the rendering the dump gives a string, whatever
  bytes the string holds, the next token is one string literal that spans exactly the rendering and
  whose decoded value is the string.
\<close>
theorem print_quoted_lexes:
  assumes "rest lx = print_quoted s @ r"
  shows "case lexer_next strtod lx of (t, lx') \<Rightarrow>
    tk_kind t = Special TOK_STRING \<and> tk_val t = Str s \<and> tk_text t = print_quoted s \<and> rest lx' = r
      \<and> lx_errors lx' = lx_errors lx"
proof -
  have q: "rest lx = CHR 0x22 # concat (map quoted_char s) @ CHR 0x22 # r"
    using assms by (simp add: print_quoted_def)
  define t0 where "t0 = \<lparr>tk_kind = Special TOK_EOF, tk_pos = lx_cur lx, tk_text = [], tk_line = lx_line lx,
       tk_col = lx_cur lx - lx_line_start lx + 1, tk_val = Ival 0\<rparr>"
  define k where "k = Suc (Suc (length (concat (map quoted_char s))))"
  have 0: "\<not> at_end lx" "char_at lx 0 = CHR 0x22" using rest_Cons [OF q] by simp_all
  then have "lexer_next strtod lx = lex_string lx t0"
    by (simp add: lexer_next_def Let_def skip_trivia_stop trivia_start_def is_ident_start_def is_digit_def code_def t0_def)
  also have "\<dots> = ((finish (advance_by k lx) t0 (Special TOK_STRING))\<lparr>tk_val := Str s\<rparr>, advance_by k lx)"
    using string_loop_quoted [of "bump lx" s r t0 "[]"] q
    by (simp add: lex_string_def Let_def bump_advance k_def)
  moreover have "segment (lx_cur lx) (lx_cur lx + k) (lx_src lx) = print_quoted s"
    using q by (simp add: segment_def rest_def [symmetric] k_def print_quoted_def)
  moreover have "rest (advance_by k lx) = r" using q by (simp add: k_def)
  ultimately show ?thesis by (simp add: finish_def t0_def advance_by_def)
qed

theorem print_quoted_lexes_witness:
  "tk_val (fst (lexer_next (\<lambda>_. 0) (lexer_init None (print_quoted [CHR ''a'', CHR 0x22, CHR 0x00] @ '';''))))
     = Str [CHR ''a'', CHR 0x22, CHR 0x00]
   \<and> print_quoted [CHR ''a'', CHR 0x22, CHR 0x00] = [CHR 0x22, CHR ''a'', CHR 0x5C, CHR 0x22, CHR 0x5C, CHR ''x'', CHR ''0'', CHR ''0'', CHR 0x22]"
proof -
  have i: "rest (lexer_init None (print_quoted s @ r)) = print_quoted s @ r" for s r
    by (simp add: rest_def lexer_init_def)
  from print_quoted_lexes [OF i [of "[CHR ''a'', CHR 0x22, CHR 0x00]" "'';''"], of "\<lambda>_. 0"]
  have "tk_val (fst (lexer_next (\<lambda>_. 0) (lexer_init None (print_quoted [CHR ''a'', CHR 0x22, CHR 0x00] @ '';''))))
     = Str [CHR ''a'', CHR 0x22, CHR 0x00]" by (auto split: prod.splits)
  moreover have "print_quoted [CHR ''a'', CHR 0x22, CHR 0x00] = [CHR 0x22, CHR ''a'', CHR 0x5C, CHR 0x22, CHR 0x5C, CHR ''x'', CHR ''0'', CHR ''0'', CHR 0x22]"
    by code_simp
  ultimately show ?thesis by blast
qed

end
