(* ===== verification/Slop_IR.thy ===== *)
theory Slop_IR
  imports Slop_Support
begin

text \<open>
  \<open>src/ir/ir.h\<close> and the constructors and the builder of \<open>src/ir/ir.c\<close>. A module owns every object the C code
  allocates in its arena; an \<open>IrType*\<close>, \<open>IrValue*\<close>, \<open>IrFunction*\<close> or \<open>IrBlock*\<close> is the index of its object in
  the module's list of that kind, so that two references are equal exactly when the C pointers are, and
  an allocation appends. An instruction is reached only through its block. A double is its 64 bits.
  A function that would read through a NULL builder position answers \<open>None\<close>.
\<close>

section \<open>Opcodes and predicates\<close>

datatype (plugins only: code size) ir_opcode =
    IR_ALLOCA | IR_LOAD | IR_STORE | IR_GEP | IR_ADD | IR_SUB | IR_MUL | IR_SDIV | IR_UDIV | IR_SREM |
    IR_UREM | IR_AND | IR_OR | IR_XOR | IR_SHL | IR_LSHR | IR_ASHR | IR_FADD | IR_FSUB | IR_FMUL | IR_FDIV |
    IR_FREM | IR_ICMP | IR_FCMP | IR_TRUNC | IR_ZEXT | IR_SEXT | IR_FPTRUNC | IR_FPEXT | IR_FPTOSI |
    IR_FPTOUI | IR_SITOFP | IR_UITOFP | IR_PTRTOINT | IR_INTTOPTR | IR_CALL | IR_RET | IR_BR | IR_CONDBR |
    IR_UNREACHABLE

definition SLOP_IR_OPCODES :: "(ir_opcode \<times> string) list" where
  "SLOP_IR_OPCODES =
   [(IR_ALLOCA, ''alloca''), (IR_LOAD, ''load''), (IR_STORE, ''store''), (IR_GEP, ''getelementptr''),
    (IR_ADD, ''add''), (IR_SUB, ''sub''), (IR_MUL, ''mul''), (IR_SDIV, ''sdiv''), (IR_UDIV, ''udiv''),
    (IR_SREM, ''srem''), (IR_UREM, ''urem''), (IR_AND, ''and''), (IR_OR, ''or''), (IR_XOR, ''xor''),
    (IR_SHL, ''shl''), (IR_LSHR, ''lshr''), (IR_ASHR, ''ashr''), (IR_FADD, ''fadd''), (IR_FSUB, ''fsub''),
    (IR_FMUL, ''fmul''), (IR_FDIV, ''fdiv''), (IR_FREM, ''frem''), (IR_ICMP, ''icmp''), (IR_FCMP, ''fcmp''),
    (IR_TRUNC, ''trunc''), (IR_ZEXT, ''zext''), (IR_SEXT, ''sext''), (IR_FPTRUNC, ''fptrunc''),
    (IR_FPEXT, ''fpext''), (IR_FPTOSI, ''fptosi''), (IR_FPTOUI, ''fptoui''), (IR_SITOFP, ''sitofp''),
    (IR_UITOFP, ''uitofp''), (IR_PTRTOINT, ''ptrtoint''), (IR_INTTOPTR, ''inttoptr''), (IR_CALL, ''call''),
    (IR_RET, ''ret''), (IR_BR, ''br''), (IR_CONDBR, ''br''), (IR_UNREACHABLE, ''unreachable'')]"

datatype (plugins only: code size) ir_pred =
    IR_ICMP_EQ | IR_ICMP_NE | IR_ICMP_SLT | IR_ICMP_SLE | IR_ICMP_SGT | IR_ICMP_SGE | IR_ICMP_ULT |
    IR_ICMP_ULE | IR_ICMP_UGT | IR_ICMP_UGE | IR_FCMP_OEQ | IR_FCMP_ONE | IR_FCMP_OLT | IR_FCMP_OLE |
    IR_FCMP_OGT | IR_FCMP_OGE

definition SLOP_IR_PREDS :: "(ir_pred \<times> string) list" where
  "SLOP_IR_PREDS =
   [(IR_ICMP_EQ, ''eq''), (IR_ICMP_NE, ''ne''), (IR_ICMP_SLT, ''slt''), (IR_ICMP_SLE, ''sle''),
    (IR_ICMP_SGT, ''sgt''), (IR_ICMP_SGE, ''sge''), (IR_ICMP_ULT, ''ult''), (IR_ICMP_ULE, ''ule''),
    (IR_ICMP_UGT, ''ugt''), (IR_ICMP_UGE, ''uge''), (IR_FCMP_OEQ, ''oeq''), (IR_FCMP_ONE, ''one''),
    (IR_FCMP_OLT, ''olt''), (IR_FCMP_OLE, ''ole''), (IR_FCMP_OGT, ''ogt''), (IR_FCMP_OGE, ''oge'')]"

definition ir_opcode_name :: "ir_opcode \<Rightarrow> string" where
  "ir_opcode_name op = (case map_of SLOP_IR_OPCODES op of Some s \<Rightarrow> s | None \<Rightarrow> ''<bad-op>'')"

definition ir_pred_name :: "ir_pred \<Rightarrow> string" where
  "ir_pred_name p = (case map_of SLOP_IR_PREDS p of Some s \<Rightarrow> s | None \<Rightarrow> ''<bad-pred>'')"

section \<open>The objects\<close>

type_synonym typeref = nat
type_synonym valref = nat
type_synonym fnref = nat
type_synonym blockref = nat

datatype (plugins only: code size) ir_type_kind =
    IR_TY_VOID | IR_TY_INT | IR_TY_FLOAT | IR_TY_PTR | IR_TY_ARRAY | IR_TY_STRUCT

record ir_type =
  it_kind :: ir_type_kind
  it_bits :: u32
  it_elem :: "typeref option"
  it_length :: u64
  it_name :: string
  it_fields :: "typeref list"

datatype (plugins only: code size) ir_value_kind =
    IRV_CONST_INT | IRV_CONST_FP | IRV_CONST_NULL | IRV_UNDEF | IRV_LOCAL | IRV_GLOBAL | IRV_FUNC

record ir_value =
  iv_kind :: ir_value_kind
  iv_type :: typeref
  iv_ival :: u64
  iv_fval :: u64
  iv_name :: string

datatype (plugins only: code size) ir_gep_kind = IR_GEP_INDEX | IR_GEP_FIELD

record ir_instr =
  in_op :: ir_opcode
  in_result :: "valref option"
  in_args :: "valref list"
  in_type_arg :: "typeref option"
  in_pred :: ir_pred
  in_gep :: ir_gep_kind
  in_dest :: "blockref option"
  in_dest2 :: "blockref option"
  in_fn :: "fnref option"
  in_is_vararg_call :: bool

record ir_block =
  bl_name :: string
  bl_instrs :: "ir_instr list"
  bl_parent :: fnref

record ir_function =
  if_name :: string
  if_ret :: typeref
  if_params :: "valref list"
  if_is_vararg :: bool
  if_is_declaration :: bool
  if_blocks :: "blockref list"
  if_next_temp :: u32

record ir_global =
  ig_name :: string
  ig_type :: typeref
  ig_init :: "valref option"
  ig_str :: "string option"
  ig_strlen :: u32
  ig_is_const :: bool
  ig_is_private :: bool
  ig_is_external :: bool

record ir_module =
  im_name :: string
  im_globals :: "ir_global list"
  im_functions :: "ir_function list"
  im_structs :: "typeref list"
  im_next_string :: u32
  im_types :: "ir_type list"
  im_values :: "ir_value list"
  im_blocks :: "ir_block list"
  im_ty_void :: typeref
  im_ty_i1 :: typeref
  im_ty_i8 :: typeref
  im_ty_i32 :: typeref
  im_ty_i64 :: typeref
  im_ty_f32 :: typeref
  im_ty_f64 :: typeref
  im_ty_ptr :: typeref

lemma div_digit_less: "v div 10 \<noteq> 0 \<Longrightarrow> unat (v div 10) < unat (v :: u32)"
proof -
  assume "v div 10 \<noteq> 0"
  then have "unat v \<noteq> 0" by (auto simp: unat_eq_0)
  then show ?thesis by (simp add: unat_div_distrib)
qed

text \<open>The digit loop of \<open>fmt_name\<close>: the last digit first into \<open>digits\<close>, then copied out backwards.\<close>

function fmt_digits :: "u32 \<Rightarrow> string \<Rightarrow> string" where
  "fmt_digits v digits =
     (let digits = digit_char (unat (v mod 10)) # digits; v = v div 10 in
      if v \<noteq> 0 then fmt_digits v digits else digits)"
  by pat_completeness auto
termination
  by (relation "measure (\<lambda>(v, _). unat v)") (simp_all add: div_digit_less)

declare fmt_digits.simps [simp del]

definition fmt_name :: "string \<Rightarrow> u32 \<Rightarrow> string" where
  "fmt_name prefix n = prefix @ fmt_digits n []"

section \<open>Types\<close>

definition ty_obj :: "ir_module \<Rightarrow> typeref \<Rightarrow> ir_type" where
  "ty_obj m t = im_types m ! t"

text \<open>\<open>arena_alloc\<close> zeroes the object.\<close>

definition ir_type_zero :: "ir_type_kind \<Rightarrow> ir_type" where
  "ir_type_zero k = \<lparr>it_kind = k, it_bits = 0, it_elem = None, it_length = 0, it_name = [], it_fields = []\<rparr>"

definition type_new :: "ir_module \<Rightarrow> ir_type \<Rightarrow> typeref \<times> ir_module" where
  "type_new m t = (length (im_types m), m\<lparr>im_types := im_types m @ [t]\<rparr>)"

definition ir_type_void :: "ir_module \<Rightarrow> typeref" where
  "ir_type_void m = im_ty_void m"

definition ir_type_int :: "ir_module \<Rightarrow> u32 \<Rightarrow> typeref \<times> ir_module" where
  "ir_type_int m bits =
     (if bits = 1 then (im_ty_i1 m, m)
      else if bits = 8 then (im_ty_i8 m, m)
      else if bits = 32 then (im_ty_i32 m, m)
      else if bits = 64 then (im_ty_i64 m, m)
      else type_new m ((ir_type_zero IR_TY_INT)\<lparr>it_bits := bits\<rparr>))"

definition ir_type_float :: "ir_module \<Rightarrow> u32 \<Rightarrow> typeref" where
  "ir_type_float m bits = (if bits = 32 then im_ty_f32 m else im_ty_f64 m)"

definition ir_type_ptr :: "ir_module \<Rightarrow> typeref" where
  "ir_type_ptr m = im_ty_ptr m"

definition ir_type_array :: "ir_module \<Rightarrow> typeref \<Rightarrow> u64 \<Rightarrow> typeref \<times> ir_module" where
  "ir_type_array m elem len =
     type_new m ((ir_type_zero IR_TY_ARRAY)\<lparr>it_elem := Some elem, it_length := len\<rparr>)"

definition ir_type_struct :: "ir_module \<Rightarrow> string \<Rightarrow> typeref \<times> ir_module" where
  "ir_type_struct m name =
     (let (t, m) = type_new m ((ir_type_zero IR_TY_STRUCT)\<lparr>it_name := name\<rparr>) in
      (t, m\<lparr>im_structs := im_structs m @ [t]\<rparr>))"

definition ir_struct_set_body :: "ir_module \<Rightarrow> typeref \<Rightarrow> typeref list \<Rightarrow> ir_module" where
  "ir_struct_set_body m st fs =
     m\<lparr>im_types := (im_types m)[st := (ty_obj m st)\<lparr>it_fields := fs\<rparr>]\<rparr>"

definition align_up32 :: "u32 \<Rightarrow> u32 \<Rightarrow> u32" where
  "align_up32 n align = (n + align - 1) AND NOT (align - 1)"

text \<open>
  \<open>ir_type_align\<close> and \<open>ir_type_size\<close> recurse through arrays and structs. \<open>Inl t\<close> is a call on the type \<open>t\<close>, \<open>Inr\<close> the
  field loop of a struct with the fields still to come and the running maximum or offset.
\<close>

partial_function (option) align_run :: "ir_type list \<Rightarrow> typeref + typeref list \<times> u32 \<Rightarrow> u32 option" where
  "align_run h x = (case x of
     Inl t \<Rightarrow> (case it_kind (h ! t) of
         IR_TY_VOID \<Rightarrow> Some 1
       | IR_TY_INT \<Rightarrow> Some (if it_bits (h ! t) \<le> 8 then 1 else it_bits (h ! t) div 8)
       | IR_TY_FLOAT \<Rightarrow> Some (it_bits (h ! t) div 8)
       | IR_TY_PTR \<Rightarrow> Some 8
       | IR_TY_ARRAY \<Rightarrow> (case it_elem (h ! t) of None \<Rightarrow> None | Some e \<Rightarrow> align_run h (Inl e))
       | IR_TY_STRUCT \<Rightarrow> align_run h (Inr (it_fields (h ! t), 1)))
   | Inr (ts, a) \<Rightarrow> (case ts of
         [] \<Rightarrow> Some a
       | t # ts \<Rightarrow> do { fa \<leftarrow> align_run h (Inl t); align_run h (Inr (ts, if fa > a then fa else a)) }))"

declare align_run.simps [code]

definition ir_type_align :: "ir_type list \<Rightarrow> typeref \<Rightarrow> u32 option" where
  "ir_type_align h t = align_run h (Inl t)"

partial_function (option) size_run :: "ir_type list \<Rightarrow> typeref + typeref list \<times> u32 \<Rightarrow> u32 option" where
  "size_run h x = (case x of
     Inl t \<Rightarrow> (case it_kind (h ! t) of
         IR_TY_VOID \<Rightarrow> Some 0
       | IR_TY_INT \<Rightarrow> Some (if it_bits (h ! t) \<le> 8 then 1 else it_bits (h ! t) div 8)
       | IR_TY_FLOAT \<Rightarrow> Some (it_bits (h ! t) div 8)
       | IR_TY_PTR \<Rightarrow> Some 8
       | IR_TY_ARRAY \<Rightarrow> (case it_elem (h ! t) of
             None \<Rightarrow> None
           | Some e \<Rightarrow> do { s \<leftarrow> size_run h (Inl e); Some (ucast (it_length (h ! t)) * s) })
       | IR_TY_STRUCT \<Rightarrow>
           do { off \<leftarrow> size_run h (Inr (it_fields (h ! t), 0)); a \<leftarrow> ir_type_align h t; Some (align_up32 off a) })
   | Inr (ts, off) \<Rightarrow> (case ts of
         [] \<Rightarrow> Some off
       | t # ts \<Rightarrow> do { a \<leftarrow> ir_type_align h t; s \<leftarrow> size_run h (Inl t);
                       size_run h (Inr (ts, align_up32 off a + s)) }))"

declare size_run.simps [code]

definition ir_type_size :: "ir_type list \<Rightarrow> typeref \<Rightarrow> u32 option" where
  "ir_type_size h t = size_run h (Inl t)"

section \<open>Values\<close>

definition val_obj :: "ir_module \<Rightarrow> valref \<Rightarrow> ir_value" where
  "val_obj m v = im_values m ! v"

definition value_new :: "ir_module \<Rightarrow> ir_value_kind \<Rightarrow> typeref \<Rightarrow> valref \<times> ir_module" where
  "value_new m k t = (length (im_values m),
     m\<lparr>im_values := im_values m @ [\<lparr>iv_kind = k, iv_type = t, iv_ival = 0, iv_fval = 0, iv_name = []\<rparr>]\<rparr>)"

text \<open>An assignment to a member of a value that exists.\<close>

definition value_set :: "valref \<Rightarrow> (ir_value \<Rightarrow> ir_value) \<Rightarrow> ir_module \<Rightarrow> ir_module" where
  "value_set v f m = m\<lparr>im_values := (im_values m)[v := f (val_obj m v)]\<rparr>"

definition ir_const_int :: "ir_module \<Rightarrow> typeref \<Rightarrow> u64 \<Rightarrow> valref \<times> ir_module" where
  "ir_const_int m t v =
     (let (r, m) = value_new m IRV_CONST_INT t in (r, value_set r (\<lambda>x. x\<lparr>iv_ival := v\<rparr>) m))"

definition ir_const_bool :: "ir_module \<Rightarrow> bool \<Rightarrow> valref \<times> ir_module" where
  "ir_const_bool m b = ir_const_int m (im_ty_i1 m) (if b then 1 else 0)"

definition ir_const_fp :: "ir_module \<Rightarrow> typeref \<Rightarrow> u64 \<Rightarrow> valref \<times> ir_module" where
  "ir_const_fp m t v =
     (let (r, m) = value_new m IRV_CONST_FP t in (r, value_set r (\<lambda>x. x\<lparr>iv_fval := v\<rparr>) m))"

definition ir_const_null :: "ir_module \<Rightarrow> valref \<times> ir_module" where
  "ir_const_null m = value_new m IRV_CONST_NULL (im_ty_ptr m)"

definition ir_undef :: "ir_module \<Rightarrow> typeref \<Rightarrow> valref \<times> ir_module" where
  "ir_undef m t = value_new m IRV_UNDEF t"

text \<open>The result is the bit pattern of the \<open>int64_t\<close>.\<close>

definition ir_const_signed :: "ir_type list \<Rightarrow> ir_value \<Rightarrow> u64" where
  "ir_const_signed h v =
     (let ty = h ! iv_type v;
          bits = (if it_kind ty = IR_TY_INT then it_bits ty else 64);
          raw = iv_ival v in
      if bits \<ge> 64 then raw
      else let sign = push_bit (unat (bits - 1)) 1;
               raw = raw AND (push_bit 1 sign - 1) in
           if raw AND sign \<noteq> 0 then raw OR NOT (push_bit 1 sign - 1) else raw)"

section \<open>Modules, functions, globals and blocks\<close>

definition ir_module_new :: "string \<Rightarrow> ir_module" where
  "ir_module_new name =
     \<lparr>im_name = name, im_globals = [], im_functions = [], im_structs = [], im_next_string = 0,
      im_types = [ir_type_zero IR_TY_VOID, ir_type_zero IR_TY_PTR,
        (ir_type_zero IR_TY_INT)\<lparr>it_bits := 1\<rparr>, (ir_type_zero IR_TY_INT)\<lparr>it_bits := 8\<rparr>,
        (ir_type_zero IR_TY_INT)\<lparr>it_bits := 32\<rparr>, (ir_type_zero IR_TY_INT)\<lparr>it_bits := 64\<rparr>,
        (ir_type_zero IR_TY_FLOAT)\<lparr>it_bits := 32\<rparr>, (ir_type_zero IR_TY_FLOAT)\<lparr>it_bits := 64\<rparr>],
      im_values = [], im_blocks = [],
      im_ty_void = 0, im_ty_i1 = 2, im_ty_i8 = 3, im_ty_i32 = 4, im_ty_i64 = 5, im_ty_f32 = 6, im_ty_f64 = 7,
      im_ty_ptr = 1\<rparr>"

text \<open>The parameter loop of \<open>ir_function_new\<close>, from parameter \<open>i\<close> on.\<close>

fun new_params :: "ir_module \<Rightarrow> u32 \<Rightarrow> typeref list \<Rightarrow> valref list \<times> ir_module" where
  "new_params m i [] = ([], m)"
| "new_params m i (t # ts) =
     (let (p, m) = value_new m IRV_LOCAL t;
          m = value_set p (\<lambda>x. x\<lparr>iv_name := fmt_name ''arg'' i\<rparr>) m;
          (ps, m) = new_params m (i + 1) ts in
      (p # ps, m))"

definition ir_function_new ::
    "ir_module \<Rightarrow> string \<Rightarrow> typeref \<Rightarrow> typeref list \<Rightarrow> bool \<Rightarrow> bool \<Rightarrow> fnref \<times> ir_module" where
  "ir_function_new m name ret param_types is_vararg is_declaration =
     (let (ps, m) = new_params m 0 param_types in
      (length (im_functions m),
       m\<lparr>im_functions := im_functions m @ [\<lparr>if_name = name, if_ret = ret, if_params = ps,
          if_is_vararg = is_vararg, if_is_declaration = is_declaration, if_blocks = [], if_next_temp = 0\<rparr>]\<rparr>))"

definition fn_obj :: "ir_module \<Rightarrow> fnref \<Rightarrow> ir_function" where
  "fn_obj m f = im_functions m ! f"

definition ir_param_set_name :: "ir_module \<Rightarrow> fnref \<Rightarrow> nat \<Rightarrow> string \<Rightarrow> ir_module" where
  "ir_param_set_name m f i name =
     (if i < length (if_params (fn_obj m f))
      then value_set (if_params (fn_obj m f) ! i) (\<lambda>x. x\<lparr>iv_name := name\<rparr>) m else m)"

definition ir_global_zero :: ir_global where
  "ir_global_zero = \<lparr>ig_name = [], ig_type = 0, ig_init = None, ig_str = None, ig_strlen = 0,
     ig_is_const = False, ig_is_private = False, ig_is_external = False\<rparr>"

text \<open>\<open>global_append\<close>; a global is known by its position in the module's list.\<close>

definition global_append :: "ir_module \<Rightarrow> ir_global \<Rightarrow> nat \<times> ir_module" where
  "global_append m g = (length (im_globals m), m\<lparr>im_globals := im_globals m @ [g]\<rparr>)"

definition ir_global_new :: "ir_module \<Rightarrow> string \<Rightarrow> typeref \<Rightarrow> valref option \<Rightarrow> nat \<times> ir_module" where
  "ir_global_new m name t init =
     global_append m (ir_global_zero\<lparr>ig_name := name, ig_type := t, ig_init := init\<rparr>)"

definition ir_global_extern :: "ir_module \<Rightarrow> string \<Rightarrow> typeref \<Rightarrow> nat \<times> ir_module" where
  "ir_global_extern m name t =
     (let (g, m) = ir_global_new m name t None in
      (g, m\<lparr>im_globals := (im_globals m)[g := (im_globals m ! g)\<lparr>ig_is_external := True\<rparr>]\<rparr>))"

definition ir_string :: "ir_module \<Rightarrow> string \<Rightarrow> valref \<times> ir_module" where
  "ir_string m bytes =
     (let len = of_nat (length bytes) :: u32;
          name = fmt_name ''.str.'' (im_next_string m);
          m = m\<lparr>im_next_string := im_next_string m + 1\<rparr>;
          (t, m) = ir_type_array m (im_ty_i8 m) (ucast len + 1);
          (g, m) = global_append m (ir_global_zero\<lparr>ig_name := name, ig_type := t, ig_str := Some bytes,
              ig_strlen := len, ig_is_const := True, ig_is_private := True\<rparr>);
          (v, m) = value_new m IRV_GLOBAL (im_ty_ptr m) in
      (v, value_set v (\<lambda>x. x\<lparr>iv_name := name\<rparr>) m))"

definition blk_obj :: "ir_module \<Rightarrow> blockref \<Rightarrow> ir_block" where
  "blk_obj m b = im_blocks m ! b"

definition fn_set :: "fnref \<Rightarrow> (ir_function \<Rightarrow> ir_function) \<Rightarrow> ir_module \<Rightarrow> ir_module" where
  "fn_set f g m = m\<lparr>im_functions := (im_functions m)[f := g (fn_obj m f)]\<rparr>"

definition blk_set :: "blockref \<Rightarrow> (ir_block \<Rightarrow> ir_block) \<Rightarrow> ir_module \<Rightarrow> ir_module" where
  "blk_set b g m = m\<lparr>im_blocks := (im_blocks m)[b := g (blk_obj m b)]\<rparr>"

definition ir_block_new :: "ir_module \<Rightarrow> fnref \<Rightarrow> string \<Rightarrow> blockref \<times> ir_module" where
  "ir_block_new m f name =
     (let b = length (im_blocks m);
          m = m\<lparr>im_blocks := im_blocks m @ [\<lparr>bl_name = name, bl_instrs = [], bl_parent = f\<rparr>]\<rparr> in
      (b, fn_set f (\<lambda>x. x\<lparr>if_blocks := if_blocks x @ [b]\<rparr>) m))"

definition is_terminator :: "ir_opcode \<Rightarrow> bool" where
  "is_terminator op \<longleftrightarrow> op = IR_RET \<or> op = IR_BR \<or> op = IR_CONDBR \<or> op = IR_UNREACHABLE"

definition ir_block_is_terminated :: "ir_block \<Rightarrow> bool" where
  "ir_block_is_terminated b \<longleftrightarrow> bl_instrs b \<noteq> [] \<and> is_terminator (in_op (last (bl_instrs b)))"

section \<open>The builder\<close>

record ir_builder =
  ib_module :: ir_module
  ib_fn :: "fnref option"
  ib_block :: "blockref option"

definition ir_builder_init :: "ir_module \<Rightarrow> ir_builder" where
  "ir_builder_init m = \<lparr>ib_module = m, ib_fn = None, ib_block = None\<rparr>"

definition ir_builder_position :: "ir_builder \<Rightarrow> blockref option \<Rightarrow> ir_builder" where
  "ir_builder_position b block =
     b\<lparr>ib_block := block,
       ib_fn := (case block of Some x \<Rightarrow> Some (bl_parent (blk_obj (ib_module b) x)) | None \<Rightarrow> None)\<rparr>"

definition ir_instr_zero :: "ir_opcode \<Rightarrow> valref list \<Rightarrow> ir_instr" where
  "ir_instr_zero op args = \<lparr>in_op = op, in_result = None, in_args = args, in_type_arg = None, in_pred = IR_ICMP_EQ,
     in_gep = IR_GEP_INDEX, in_dest = None, in_dest2 = None, in_fn = None, in_is_vararg_call = False\<rparr>"

text \<open>The result an instruction gets: none for no type or \<open>void\<close>, else a fresh local named after the counter.\<close>

definition emit_result :: "ir_builder \<Rightarrow> typeref option \<Rightarrow> (valref option \<times> ir_module) option" where
  "emit_result b result_type =
     (case result_type of
        None \<Rightarrow> Some (None, ib_module b)
      | Some t \<Rightarrow>
          if it_kind (ty_obj (ib_module b) t) = IR_TY_VOID then Some (None, ib_module b)
          else case ib_fn b of
            None \<Rightarrow> None
          | Some f \<Rightarrow>
              (let (v, m) = value_new (ib_module b) IRV_LOCAL t;
                   n = if_next_temp (fn_obj m f);
                   m = fn_set f (\<lambda>x. x\<lparr>if_next_temp := n + 1\<rparr>) m in
               Some (Some v, value_set v (\<lambda>x. x\<lparr>iv_name := fmt_name ''t'' n\<rparr>) m)))"

text \<open>\<open>emit\<close> appends the instruction; the members its callers assign afterwards come as \<open>fill\<close>.\<close>

definition emit :: "ir_builder \<Rightarrow> ir_opcode \<Rightarrow> typeref option \<Rightarrow> valref list \<Rightarrow> (ir_instr \<Rightarrow> ir_instr) \<Rightarrow>
    (valref option \<times> ir_builder) option" where
  "emit b op result_type args fill =
     (case ib_block b of
        None \<Rightarrow> None
      | Some bk \<Rightarrow>
          do { (r, m) \<leftarrow> emit_result b result_type;
               let ins = fill ((ir_instr_zero op args)\<lparr>in_result := r\<rparr>);
               Some (r, b\<lparr>ib_module := blk_set bk (\<lambda>x. x\<lparr>bl_instrs := bl_instrs x @ [ins]\<rparr>) m\<rparr>) })"

definition ir_build_alloca :: "ir_builder \<Rightarrow> typeref \<Rightarrow> string option \<Rightarrow> (valref option \<times> ir_builder) option" where
  "ir_build_alloca b t name =
     do { (r, b) \<leftarrow> emit b IR_ALLOCA (Some (im_ty_ptr (ib_module b))) [] (\<lambda>x. x\<lparr>in_type_arg := Some t\<rparr>);
          case name of
            None \<Rightarrow> Some (r, b)
          | Some n \<Rightarrow> (case r of
                None \<Rightarrow> None
              | Some v \<Rightarrow> Some (r, b\<lparr>ib_module := value_set v (\<lambda>x. x\<lparr>iv_name := n\<rparr>) (ib_module b)\<rparr>)) }"

definition ir_build_load :: "ir_builder \<Rightarrow> typeref \<Rightarrow> valref \<Rightarrow> (valref option \<times> ir_builder) option" where
  "ir_build_load b t ptr = emit b IR_LOAD (Some t) [ptr] (\<lambda>x. x\<lparr>in_type_arg := Some t\<rparr>)"

definition type_of :: "ir_builder \<Rightarrow> valref \<Rightarrow> typeref" where
  "type_of b v = iv_type (val_obj (ib_module b) v)"

definition ir_build_store :: "ir_builder \<Rightarrow> valref \<Rightarrow> valref \<Rightarrow> (valref option \<times> ir_builder) option" where
  "ir_build_store b val ptr = emit b IR_STORE None [val, ptr] (\<lambda>x. x\<lparr>in_type_arg := Some (type_of b val)\<rparr>)"

definition ir_build_gep_index :: "ir_builder \<Rightarrow> typeref \<Rightarrow> valref \<Rightarrow> valref \<Rightarrow> (valref option \<times> ir_builder) option" where
  "ir_build_gep_index b elem base index =
     emit b IR_GEP (Some (im_ty_ptr (ib_module b))) [base, index]
       (\<lambda>x. x\<lparr>in_type_arg := Some elem, in_gep := IR_GEP_INDEX\<rparr>)"

definition ir_build_gep_field :: "ir_builder \<Rightarrow> typeref \<Rightarrow> valref \<Rightarrow> u32 \<Rightarrow> (valref option \<times> ir_builder) option" where
  "ir_build_gep_field b st base fld =
     (let (c, m) = ir_const_int (ib_module b) (im_ty_i32 (ib_module b)) (ucast fld); b = b\<lparr>ib_module := m\<rparr> in
      emit b IR_GEP (Some (im_ty_ptr (ib_module b))) [base, c]
        (\<lambda>x. x\<lparr>in_type_arg := Some st, in_gep := IR_GEP_FIELD\<rparr>))"

definition ir_build_binary :: "ir_builder \<Rightarrow> ir_opcode \<Rightarrow> valref \<Rightarrow> valref \<Rightarrow> (valref option \<times> ir_builder) option" where
  "ir_build_binary b op lhs rhs = emit b op (Some (type_of b lhs)) [lhs, rhs] (\<lambda>x. x)"

definition build_cmp :: "ir_builder \<Rightarrow> ir_opcode \<Rightarrow> ir_pred \<Rightarrow> valref \<Rightarrow> valref \<Rightarrow> (valref option \<times> ir_builder) option" where
  "build_cmp b op p lhs rhs =
     emit b op (Some (im_ty_i1 (ib_module b))) [lhs, rhs]
       (\<lambda>x. x\<lparr>in_pred := p, in_type_arg := Some (type_of b lhs)\<rparr>)"

definition ir_build_icmp :: "ir_builder \<Rightarrow> ir_pred \<Rightarrow> valref \<Rightarrow> valref \<Rightarrow> (valref option \<times> ir_builder) option" where
  "ir_build_icmp b p lhs rhs = build_cmp b IR_ICMP p lhs rhs"

definition ir_build_fcmp :: "ir_builder \<Rightarrow> ir_pred \<Rightarrow> valref \<Rightarrow> valref \<Rightarrow> (valref option \<times> ir_builder) option" where
  "ir_build_fcmp b p lhs rhs = build_cmp b IR_FCMP p lhs rhs"

definition ir_build_cast :: "ir_builder \<Rightarrow> ir_opcode \<Rightarrow> valref \<Rightarrow> typeref \<Rightarrow> (valref option \<times> ir_builder) option" where
  "ir_build_cast b op v to = emit b op (Some to) [v] (\<lambda>x. x\<lparr>in_type_arg := Some (type_of b v)\<rparr>)"

definition ir_build_call :: "ir_builder \<Rightarrow> fnref \<Rightarrow> valref list \<Rightarrow> (valref option \<times> ir_builder) option" where
  "ir_build_call b callee args =
     (let f = fn_obj (ib_module b) callee in
      emit b IR_CALL (Some (if_ret f)) args
        (\<lambda>x. x\<lparr>in_fn := Some callee, in_type_arg := Some (if_ret f), in_is_vararg_call := if_is_vararg f\<rparr>))"

definition ir_build_ret :: "ir_builder \<Rightarrow> valref option \<Rightarrow> (valref option \<times> ir_builder) option" where
  "ir_build_ret b v = (case v of
     None \<Rightarrow> emit b IR_RET None [] (\<lambda>x. x\<lparr>in_type_arg := Some (im_ty_void (ib_module b))\<rparr>)
   | Some v \<Rightarrow> emit b IR_RET None [v] (\<lambda>x. x\<lparr>in_type_arg := Some (type_of b v)\<rparr>))"

definition ir_build_br :: "ir_builder \<Rightarrow> blockref \<Rightarrow> (valref option \<times> ir_builder) option" where
  "ir_build_br b dest = emit b IR_BR None [] (\<lambda>x. x\<lparr>in_dest := Some dest\<rparr>)"

definition ir_build_condbr :: "ir_builder \<Rightarrow> valref \<Rightarrow> blockref \<Rightarrow> blockref \<Rightarrow> (valref option \<times> ir_builder) option" where
  "ir_build_condbr b cond t f = emit b IR_CONDBR None [cond] (\<lambda>x. x\<lparr>in_dest := Some t, in_dest2 := Some f\<rparr>)"

definition ir_build_unreachable :: "ir_builder \<Rightarrow> (valref option \<times> ir_builder) option" where
  "ir_build_unreachable b = emit b IR_UNREACHABLE None [] (\<lambda>x. x)"

end
