(* ===== verification/Slop_Lowering.thy ===== *)
theory Slop_Lowering
  imports Slop_IR Slop_Types Slop_Ast
begin

text \<open>
  \<open>src/backend/lowering.c\<close>, first part: the environment, types, names and expressions. The lowering reads a
  checked tree: \<open>lw_tt\<close> is the table the \<open>sem_type\<close> pointers point into. The module under construction is
  the one of the builder. A function that would read through a NULL pointer answers \<open>None\<close>, and a NULL that would
  be stored as an operand answers \<open>None\<close> there. stderr is the list of the lines written.
\<close>

section \<open>The environment\<close>

record binding =
  bd_name :: string
  bd_addr :: valref
  bd_type :: typeref
  bd_ty :: "tyref option"

record named_type =
  nt_name :: string
  nt_type :: typeref
  nt_decl :: "nat \<times> nat"

record func_sym =
  fu_name :: string
  fu_fn :: fnref

record loop_targets =
  lp_continue_to :: blockref
  lp_break_to :: blockref

record lower =
  lw_tt :: type_table
  lw_b :: ir_builder
  lw_globals :: "binding list"
  lw_locals :: "binding list"
  lw_named :: "named_type list"
  lw_funcs :: "func_sym list"
  lw_loops :: "loop_targets list"
  lw_cur :: "fnref option"
  lw_used :: "string list"
  lw_memcpy :: "fnref option"
  lw_memset :: "fnref option"
  lw_next_label :: u32
  lw_errors :: nat
  lw_stderr :: "string list"

abbreviation lw_m :: "lower \<Rightarrow> ir_module" where
  "lw_m L \<equiv> ib_module (lw_b L)"

text \<open>An operation of the module that allocates an object, and one of the builder.\<close>

definition in_module :: "(ir_module \<Rightarrow> 'a \<times> ir_module) \<Rightarrow> lower \<Rightarrow> 'a \<times> lower" where
  "in_module f L = (let (r, m) = f (lw_m L) in (r, L\<lparr>lw_b := (lw_b L)\<lparr>ib_module := m\<rparr>\<rparr>))"

definition build :: "(ir_builder \<Rightarrow> (valref option \<times> ir_builder) option) \<Rightarrow> lower \<Rightarrow> (valref option \<times> lower) option" where
  "build f L = do { (r, b) \<leftarrow> f (lw_b L); Some (r, L\<lparr>lw_b := b\<rparr>) }"

text \<open>The same where the result is used as a value.\<close>

definition build_value :: "(ir_builder \<Rightarrow> (valref option \<times> ir_builder) option) \<Rightarrow> lower \<Rightarrow> (valref \<times> lower) option" where
  "build_value f L = do { (r, L) \<leftarrow> build f L; v \<leftarrow> r; Some (v, L) }"

definition fail :: "srcpos \<Rightarrow> string \<Rightarrow> lower \<Rightarrow> lower" where
  "fail pos what L = L\<lparr>lw_stderr := lw_stderr L @ [(case sp_file pos of Some f \<Rightarrow> f | None \<Rightarrow> ''<input>'') @ '':''
       @ dec_of_nat (sp_line pos) @ '':'' @ dec_of_nat (sp_col pos) @ '': lowering: '' @ what],
     lw_errors := lw_errors L + 1\<rparr>"

text \<open>An empty name has no data.\<close>

definition view_eq :: "string \<Rightarrow> string \<Rightarrow> bool" where
  "view_eq a b \<longleftrightarrow> length a = length b \<and> a \<noteq> [] \<and> b \<noteq> [] \<and> a = b"

text \<open>\<open>unique_name\<close>'s loop; \<open>snprintf\<close> keeps the first 159 bytes.\<close>

partial_function (option) free_name :: "string list \<Rightarrow> string \<Rightarrow> string \<Rightarrow> u32 \<Rightarrow> string option" where
  "free_name used base buf n =
     (if buf \<notin> set used then Some buf
      else free_name used base (take 159 (base @ ''.'' @ dec_of_nat (unat (n + 1)))) (n + 1))"

declare free_name.simps [code]

definition unique_name :: "string \<Rightarrow> lower \<Rightarrow> (string \<times> lower) option" where
  "unique_name base L =
     do { buf \<leftarrow> free_name (lw_used L) base (take 159 base) 0;
          Some (buf, L\<lparr>lw_used := lw_used L @ [buf]\<rparr>) }"

definition label_name :: "string \<Rightarrow> lower \<Rightarrow> string \<times> lower" where
  "label_name stem L =
     (take 31 (stem @ dec_of_nat (unat (lw_next_label L))), L\<lparr>lw_next_label := lw_next_label L + 1\<rparr>)"

section \<open>Types\<close>

definition find_named :: "lower \<Rightarrow> string \<Rightarrow> named_type option" where
  "find_named L name = find (\<lambda>n. view_eq (nt_name n) name) (lw_named L)"

definition ir_of_core :: "token_kind \<Rightarrow> lower \<Rightarrow> typeref \<times> lower" where
  "ir_of_core k = (case k of
     Keyword TOK_KW_I8 \<Rightarrow> in_module (\<lambda>m. ir_type_int m 8)
   | Keyword TOK_KW_U8 \<Rightarrow> in_module (\<lambda>m. ir_type_int m 8)
   | Keyword TOK_KW_B8 \<Rightarrow> in_module (\<lambda>m. ir_type_int m 8)
   | Keyword TOK_KW_I32 \<Rightarrow> in_module (\<lambda>m. ir_type_int m 32)
   | Keyword TOK_KW_U32 \<Rightarrow> in_module (\<lambda>m. ir_type_int m 32)
   | Keyword TOK_KW_B32 \<Rightarrow> in_module (\<lambda>m. ir_type_int m 32)
   | Keyword TOK_KW_I64 \<Rightarrow> in_module (\<lambda>m. ir_type_int m 64)
   | Keyword TOK_KW_U64 \<Rightarrow> in_module (\<lambda>m. ir_type_int m 64)
   | Keyword TOK_KW_B64 \<Rightarrow> in_module (\<lambda>m. ir_type_int m 64)
   | Keyword TOK_KW_F32 \<Rightarrow> in_module (\<lambda>m. (ir_type_float m 32, m))
   | Keyword TOK_KW_F64 \<Rightarrow> in_module (\<lambda>m. (ir_type_float m 64, m))
   | _ \<Rightarrow> in_module (\<lambda>m. (ir_type_void m, m)))"

definition ir_of_name :: "lower \<Rightarrow> string \<Rightarrow> typeref" where
  "ir_of_name L name = (case find_named L name of Some nt \<Rightarrow> nt_type nt | None \<Rightarrow> ir_type_void (lw_m L))"

fun ir_of_ast_type :: "ast_type \<Rightarrow> lower \<Rightarrow> typeref \<times> lower" where
  "ir_of_ast_type (TYPE_CORE pos k) L = ir_of_core k L"
| "ir_of_ast_type (TYPE_POINTER pos t) L = (ir_type_ptr (lw_m L), L)"
| "ir_of_ast_type (TYPE_ARRAY pos t len) L =
     (let (e, L) = ir_of_ast_type t L in in_module (\<lambda>m. ir_type_array m e len) L)"
| "ir_of_ast_type (TYPE_NAME pos name) L = (ir_of_name L name, L)"

definition lty :: "lower \<Rightarrow> tyref \<Rightarrow> ty" where
  "lty L t = ty_at (lw_tt L) t"

text \<open>The type of an object; enums and arrays lead to another type of the table.\<close>

partial_function (option) ir_of_ty :: "tyref option \<Rightarrow> lower \<Rightarrow> (typeref \<times> lower) option" where
  "ir_of_ty t L = (case t of
     None \<Rightarrow> Some (ir_type_void (lw_m L), L)
   | Some t \<Rightarrow> (case t_kind (lty L t) of
       TY_VOID \<Rightarrow> Some (ir_type_void (lw_m L), L)
     | TY_I8 \<Rightarrow> Some (in_module (\<lambda>m. ir_type_int m 8) L)
     | TY_U8 \<Rightarrow> Some (in_module (\<lambda>m. ir_type_int m 8) L)
     | TY_B8 \<Rightarrow> Some (in_module (\<lambda>m. ir_type_int m 8) L)
     | TY_I32 \<Rightarrow> Some (in_module (\<lambda>m. ir_type_int m 32) L)
     | TY_U32 \<Rightarrow> Some (in_module (\<lambda>m. ir_type_int m 32) L)
     | TY_B32 \<Rightarrow> Some (in_module (\<lambda>m. ir_type_int m 32) L)
     | TY_UNTYPED_BOOL \<Rightarrow> Some (in_module (\<lambda>m. ir_type_int m 32) L)
     | TY_I64 \<Rightarrow> Some (in_module (\<lambda>m. ir_type_int m 64) L)
     | TY_U64 \<Rightarrow> Some (in_module (\<lambda>m. ir_type_int m 64) L)
     | TY_B64 \<Rightarrow> Some (in_module (\<lambda>m. ir_type_int m 64) L)
     | TY_UNTYPED_INT \<Rightarrow> Some (in_module (\<lambda>m. ir_type_int m 64) L)
     | TY_F32 \<Rightarrow> Some (ir_type_float (lw_m L) 32, L)
     | TY_F64 \<Rightarrow> Some (ir_type_float (lw_m L) 64, L)
     | TY_UNTYPED_FLOAT \<Rightarrow> Some (ir_type_float (lw_m L) 64, L)
     | TY_PTR \<Rightarrow> Some (ir_type_ptr (lw_m L), L)
     | TY_NULL \<Rightarrow> Some (ir_type_ptr (lw_m L), L)
     | TY_ARRAY \<Rightarrow> do { (e, L) \<leftarrow> ir_of_ty (t_elem (lty L t)) L;
                       Some (in_module (\<lambda>m. ir_type_array m e (t_length (lty L t))) L) }
     | TY_ENUM \<Rightarrow> ir_of_ty (t_base (lty L t)) L
     | TY_STRUCT \<Rightarrow> Some (ir_of_name L (t_name (lty L t)), L)
     | TY_POISON \<Rightarrow> Some (ir_type_void (lw_m L), L)))"

declare ir_of_ty.simps [code]

definition ty_is_aggregate :: "lower \<Rightarrow> tyref option \<Rightarrow> bool" where
  "ty_is_aggregate L t = (case t of
     None \<Rightarrow> False | Some t \<Rightarrow> t_kind (lty L t) = TY_STRUCT \<or> t_kind (lty L t) = TY_ARRAY)"

section \<open>Lookups\<close>

text \<open>The innermost local is the last one.\<close>

definition find_local :: "lower \<Rightarrow> string \<Rightarrow> binding option" where
  "find_local L name = find (\<lambda>b. view_eq (bd_name b) name) (rev (lw_locals L))"

definition find_global :: "lower \<Rightarrow> string \<Rightarrow> binding option" where
  "find_global L name = find (\<lambda>b. view_eq (bd_name b) name) (lw_globals L)"

definition find_func :: "lower \<Rightarrow> string \<Rightarrow> fnref option" where
  "find_func L name = map_option fu_fn (find (\<lambda>f. view_eq (fu_name f) name) (lw_funcs L))"

text \<open>What \<open>lower_expr\<close> and \<open>lower_addr\<close> look for: a local, else a global.\<close>

definition find_storage :: "lower \<Rightarrow> string \<Rightarrow> binding option" where
  "find_storage L name = (case find_local L name of None \<Rightarrow> find_global L name | Some b \<Rightarrow> Some b)"

definition enum_member_value :: "lower \<Rightarrow> tyref option \<Rightarrow> string \<Rightarrow> u64 option" where
  "enum_member_value L t name = (case t of
     None \<Rightarrow> None
   | Some t \<Rightarrow> if t_kind (lty L t) \<noteq> TY_ENUM then None
               else map_option es_value (find (\<lambda>e. view_eq (es_name e) name) (t_members (lty L t))))"

definition push_local :: "string \<Rightarrow> valref \<Rightarrow> typeref \<Rightarrow> tyref option \<Rightarrow> lower \<Rightarrow> lower" where
  "push_local name addr t ty L =
     L\<lparr>lw_locals := lw_locals L @ [\<lparr>bd_name = name, bd_addr = addr, bd_type = t, bd_ty = ty\<rparr>]\<rparr>"

section \<open>Runtime functions\<close>

definition runtime_memcpy :: "lower \<Rightarrow> fnref \<times> lower" where
  "runtime_memcpy L = (case lw_memcpy L of
     Some f \<Rightarrow> (f, L)
   | None \<Rightarrow>
       (let p = ir_type_ptr (lw_m L);
            (i64, L) = in_module (\<lambda>m. ir_type_int m 64) L;
            (f, L) = in_module (\<lambda>m. ir_function_new m ''memcpy'' (ir_type_ptr m) [p, p, i64] False True) L in
        (f, L\<lparr>lw_memcpy := Some f\<rparr>)))"

definition runtime_memset :: "lower \<Rightarrow> fnref \<times> lower" where
  "runtime_memset L = (case lw_memset L of
     Some f \<Rightarrow> (f, L)
   | None \<Rightarrow>
       (let p = ir_type_ptr (lw_m L);
            (i32, L) = in_module (\<lambda>m. ir_type_int m 32) L;
            (i64, L) = in_module (\<lambda>m. ir_type_int m 64) L;
            (f, L) = in_module (\<lambda>m. ir_function_new m ''memset'' (ir_type_ptr m) [p, i32, i64] False True) L in
        (f, L\<lparr>lw_memset := Some f\<rparr>)))"

definition const_int :: "u32 \<Rightarrow> u64 \<Rightarrow> lower \<Rightarrow> valref \<times> lower" where
  "const_int bits v L =
     (let (t, L) = in_module (\<lambda>m. ir_type_int m bits) L in in_module (\<lambda>m. ir_const_int m t v) L)"

definition emit_memcpy :: "valref \<Rightarrow> valref \<Rightarrow> u32 \<Rightarrow> lower \<Rightarrow> lower option" where
  "emit_memcpy dst src sz L =
     do { let (n, L) = const_int 64 (ucast sz) L;
          let (f, L) = runtime_memcpy L;
          (_, L) \<leftarrow> build (\<lambda>b. ir_build_call b f [dst, src, n]) L;
          Some L }"

definition emit_zero :: "valref \<Rightarrow> u32 \<Rightarrow> lower \<Rightarrow> lower option" where
  "emit_zero dst sz L =
     do { let (z, L) = const_int 32 0 L;
          let (n, L) = const_int 64 (ucast sz) L;
          let (f, L) = runtime_memset L;
          (_, L) \<leftarrow> build (\<lambda>b. ir_build_call b f [dst, z, n]) L;
          Some L }"

end
