(* ===== verification/Slop_Lower_Expr.thy ===== *)
theory Slop_Lower_Expr
  imports Slop_Lowering
begin

text \<open>
  \<open>src/backend/lowering.c\<close>: expressions. The mutually recursive \<open>lower_expr\<close> and \<open>lower_addr\<close> are \<open>lower_expr_n\<close> and
  \<open>lower_addr_n\<close>, with the depth of the calls as fuel; the functions they call take the two as arguments. A value
  is \<open>None\<close> when the C pointer is NULL, as the result of a call to a \<open>void\<close> function is.
\<close>

section \<open>Values\<close>

definition val_ty :: "lower \<Rightarrow> valref \<Rightarrow> typeref" where
  "val_ty L v = iv_type (val_obj (lw_m L) v)"

definition ir_ty :: "lower \<Rightarrow> typeref \<Rightarrow> ir_type" where
  "ir_ty L t = ty_obj (lw_m L) t"

definition new_const :: "typeref \<Rightarrow> u64 \<Rightarrow> lower \<Rightarrow> valref \<times> lower" where
  "new_const t v = in_module (\<lambda>m. ir_const_int m t v)"

definition to_i1 :: "valref option \<Rightarrow> lower \<Rightarrow> (valref \<times> lower) option" where
  "to_i1 v L =
     do { v \<leftarrow> v;
          if it_kind (ir_ty L (val_ty L v)) = IR_TY_INT \<and> it_bits (ir_ty L (val_ty L v)) = 1 then Some (v, L)
          else do { let (z, L) = new_const (val_ty L v) 0 L;
                    build_value (\<lambda>b. ir_build_icmp b IR_ICMP_NE v z) L } }"

definition from_i1 :: "valref \<Rightarrow> typeref \<Rightarrow> lower \<Rightarrow> (valref \<times> lower) option" where
  "from_i1 v want L =
     (if it_kind (ir_ty L want) \<noteq> IR_TY_INT \<or> it_bits (ir_ty L want) = 1 then Some (v, L)
      else build_value (\<lambda>b. ir_build_cast b IR_ZEXT v want) L)"

definition zero_of :: "typeref \<Rightarrow> lower \<Rightarrow> valref \<times> lower" where
  "zero_of t L =
     (if it_kind (ir_ty L t) = IR_TY_FLOAT then in_module (\<lambda>m. ir_const_fp m t 0) L
      else if it_kind (ir_ty L t) = IR_TY_PTR then in_module (\<lambda>m. ir_const_null m) L
      else new_const t 0 L)"

definition is_signed_ty :: "lower \<Rightarrow> tyref option \<Rightarrow> bool" where
  "is_signed_ty L t = (case t of Some t \<Rightarrow> ty_is_signed (lty L t) | None \<Rightarrow> False)"

definition is_float_ty :: "lower \<Rightarrow> tyref option \<Rightarrow> bool" where
  "is_float_ty L t = (case t of Some t \<Rightarrow> ty_is_float (lty L t) | None \<Rightarrow> False)"

definition is_ptr_ty :: "lower \<Rightarrow> tyref option \<Rightarrow> bool" where
  "is_ptr_ty L t = (case t of Some t \<Rightarrow> t_kind (lty L t) = TY_PTR | None \<Rightarrow> False)"

definition coerce_to :: "valref option \<Rightarrow> typeref \<Rightarrow> tyref option \<Rightarrow> lower \<Rightarrow> (valref \<times> lower) option" where
  "coerce_to v want from L =
     do { v \<leftarrow> v;
          let vt = ir_ty L (val_ty L v);
          let wt = ir_ty L want;
          if val_ty L v = want then Some (v, L)
          else if it_kind vt = IR_TY_INT \<and> it_kind wt = IR_TY_INT then
            (if it_bits vt = it_bits wt then Some (v, L)
             else if it_bits vt > it_bits wt then build_value (\<lambda>b. ir_build_cast b IR_TRUNC v want) L
             else build_value (\<lambda>b. ir_build_cast b (if is_signed_ty L from then IR_SEXT else IR_ZEXT) v want) L)
          else if it_kind vt = IR_TY_FLOAT \<and> it_kind wt = IR_TY_FLOAT \<and> it_bits vt \<noteq> it_bits wt then
            build_value (\<lambda>b. ir_build_cast b (if it_bits vt > it_bits wt then IR_FPTRUNC else IR_FPEXT) v want) L
          else Some (v, L) }"

definition lower_conversion :: "valref option \<Rightarrow> tyref option \<Rightarrow> tyref option \<Rightarrow> srcpos \<Rightarrow> lower \<Rightarrow>
    (valref option \<times> lower) option" where
  "lower_conversion v from to pos L =
     do { (dst, L) \<leftarrow> ir_of_ty to L;
          v \<leftarrow> v;
          let src = val_ty L v;
          let st = ir_ty L src;
          let dt = ir_ty L dst;
          case (from, to) of
            (Some f, Some t) \<Rightarrow>
              (let cast = (\<lambda>op. build (\<lambda>b. ir_build_cast b op v dst) L) in
               if t_kind (lty L t) = TY_PTR \<or> t_kind (lty L t) = TY_NULL then
                 (if it_kind st = IR_TY_PTR then Some (Some v, L) else cast IR_INTTOPTR)
               else if it_kind st = IR_TY_PTR \<and> it_kind dt = IR_TY_INT then cast IR_PTRTOINT
               else if it_kind st = IR_TY_INT \<and> it_kind dt = IR_TY_INT then
                 (if it_bits st = it_bits dt then Some (Some v, L)
                  else if it_bits st > it_bits dt then cast IR_TRUNC
                  else cast (if ty_is_signed (lty L f) then IR_SEXT else IR_ZEXT))
               else if it_kind st = IR_TY_INT \<and> it_kind dt = IR_TY_FLOAT then
                 cast (if ty_is_signed (lty L f) then IR_SITOFP else IR_UITOFP)
               else if it_kind st = IR_TY_FLOAT \<and> it_kind dt = IR_TY_INT then
                 cast (if ty_is_signed (lty L t) then IR_FPTOSI else IR_FPTOUI)
               else if it_kind st = IR_TY_FLOAT \<and> it_kind dt = IR_TY_FLOAT then
                 (if it_bits st = it_bits dt then Some (Some v, L)
                  else cast (if it_bits st > it_bits dt then IR_FPTRUNC else IR_FPEXT))
               else if src = dst then Some (Some v, L)
               else Some (Some v, fail pos ''unsupported conversion'' L))
          | _ \<Rightarrow> Some (Some v, L) }"

text \<open>The conversion of a 64-bit integer to \<open>double\<close>, to nearest with ties to even.\<close>

fun top_bit :: "nat \<Rightarrow> nat" where
  "top_bit n = (if n < 2 then 0 else Suc (top_bit (n div 2)))"

declare top_bit.simps [simp del]

definition double_of_u64 :: "u64 \<Rightarrow> u64" where
  "double_of_u64 v =
     (if v = 0 then 0
      else
        let n = unat v; e = top_bit n;
            q = (if e \<le> 52 then n * 2 ^ (52 - e)
                 else let d = 2 ^ (e - 52) in
                      if n mod d > d div 2 \<or> n mod d = d div 2 \<and> odd (n div d) then n div d + 1 else n div d) in
        of_nat ((1023 + e) * 2 ^ 52 + (q - 2 ^ 52)))"

section \<open>Operators\<close>

definition int_binop :: "token_kind \<Rightarrow> bool \<Rightarrow> ir_opcode" where
  "int_binop op is_signed = (case op of
     Punct TOK_PLUS \<Rightarrow> IR_ADD
   | Punct TOK_MINUS \<Rightarrow> IR_SUB
   | Punct TOK_STAR \<Rightarrow> IR_MUL
   | Punct TOK_SLASH \<Rightarrow> (if is_signed then IR_SDIV else IR_UDIV)
   | Punct TOK_PERCENT \<Rightarrow> (if is_signed then IR_SREM else IR_UREM)
   | Punct TOK_AMP \<Rightarrow> IR_AND
   | Punct TOK_PIPE \<Rightarrow> IR_OR
   | Punct TOK_CARET \<Rightarrow> IR_XOR
   | Punct TOK_SHL \<Rightarrow> IR_SHL
   | Punct TOK_SHR \<Rightarrow> (if is_signed then IR_ASHR else IR_LSHR)
   | _ \<Rightarrow> IR_ADD)"

definition float_binop :: "token_kind \<Rightarrow> ir_opcode" where
  "float_binop op = (case op of
     Punct TOK_PLUS \<Rightarrow> IR_FADD | Punct TOK_MINUS \<Rightarrow> IR_FSUB | Punct TOK_STAR \<Rightarrow> IR_FMUL | Punct TOK_SLASH \<Rightarrow> IR_FDIV
   | _ \<Rightarrow> IR_FREM)"

definition int_pred :: "token_kind \<Rightarrow> bool \<Rightarrow> ir_pred" where
  "int_pred op is_signed = (case op of
     Punct TOK_EQ_EQ \<Rightarrow> IR_ICMP_EQ
   | Punct TOK_BANG_EQ \<Rightarrow> IR_ICMP_NE
   | Punct TOK_LT \<Rightarrow> (if is_signed then IR_ICMP_SLT else IR_ICMP_ULT)
   | Punct TOK_LE \<Rightarrow> (if is_signed then IR_ICMP_SLE else IR_ICMP_ULE)
   | Punct TOK_GT \<Rightarrow> (if is_signed then IR_ICMP_SGT else IR_ICMP_UGT)
   | _ \<Rightarrow> (if is_signed then IR_ICMP_SGE else IR_ICMP_UGE))"

definition float_pred :: "token_kind \<Rightarrow> ir_pred" where
  "float_pred op = (case op of
     Punct TOK_EQ_EQ \<Rightarrow> IR_FCMP_OEQ | Punct TOK_BANG_EQ \<Rightarrow> IR_FCMP_ONE | Punct TOK_LT \<Rightarrow> IR_FCMP_OLT
   | Punct TOK_LE \<Rightarrow> IR_FCMP_OLE | Punct TOK_GT \<Rightarrow> IR_FCMP_OGT | _ \<Rightarrow> IR_FCMP_OGE)"

definition is_comparison :: "token_kind \<Rightarrow> bool" where
  "is_comparison op \<longleftrightarrow> op = Punct TOK_EQ_EQ \<or> op = Punct TOK_BANG_EQ \<or> op = Punct TOK_LT \<or> op = Punct TOK_LE
     \<or> op = Punct TOK_GT \<or> op = Punct TOK_GE"

section \<open>Expressions\<close>

text \<open>What \<open>lower_expr\<close> is to the functions it calls, and \<open>lower_addr\<close> likewise.\<close>

type_synonym lowerer = "expr option \<Rightarrow> lower \<Rightarrow> (valref option \<times> lower) option"

text \<open>Reading \<open>e->sem_type\<close>.\<close>

definition sem_of :: "expr option \<Rightarrow> tyref option option" where
  "sem_of e = map_option ex_sem e"

definition lower_ptr_arith :: "token_kind \<Rightarrow> tyref \<Rightarrow> valref \<Rightarrow> valref \<Rightarrow> lower \<Rightarrow> (valref option \<times> lower) option" where
  "lower_ptr_arith op pt base idx L =
     do { (elem, L) \<leftarrow> ir_of_ty (t_elem (lty L pt)) L;
          let (i64, L) = in_module (\<lambda>m. ir_type_int m 64) L;
          (idx, L) \<leftarrow> (if val_ty L idx \<noteq> i64
             then build_value (\<lambda>b. ir_build_cast b (if it_bits (ir_ty L (val_ty L idx)) > 64 then IR_TRUNC else IR_SEXT) idx i64) L
             else Some (idx, L));
          (idx, L) \<leftarrow> (if op = Punct TOK_MINUS
             then do { let (z, L) = new_const i64 0 L; build_value (\<lambda>b. ir_build_binary b IR_SUB z idx) L }
             else Some (idx, L));
          build (\<lambda>b. ir_build_gep_index b elem base idx) L }"

definition new_block :: "string \<Rightarrow> lower \<Rightarrow> (blockref \<times> lower) option" where
  "new_block stem L =
     do { let (name, L) = label_name stem L;
          f \<leftarrow> lw_cur L;
          Some (in_module (\<lambda>m. ir_block_new m f name) L) }"

definition position :: "blockref \<Rightarrow> lower \<Rightarrow> lower" where
  "position bb L = L\<lparr>lw_b := ir_builder_position (lw_b L) (Some bb)\<rparr>"

definition br :: "blockref \<Rightarrow> lower \<Rightarrow> lower option" where
  "br bb L = map_option snd (build (\<lambda>b. ir_build_br b bb) L)"

definition condbr :: "valref \<Rightarrow> blockref \<Rightarrow> blockref \<Rightarrow> lower \<Rightarrow> lower option" where
  "condbr c t f L = map_option snd (build (\<lambda>b. ir_build_condbr b c t f) L)"

definition store :: "valref \<Rightarrow> valref \<Rightarrow> lower \<Rightarrow> lower option" where
  "store v ptr L = map_option snd (build (\<lambda>b. ir_build_store b v ptr) L)"

definition lower_short_circuit :: "lowerer \<Rightarrow> tyref option \<Rightarrow> token_kind \<Rightarrow> expr option \<Rightarrow> expr option \<Rightarrow> lower \<Rightarrow>
    (valref option \<times> lower) option" where
  "lower_short_circuit le sem op a b L =
     do { (rt, L) \<leftarrow> ir_of_ty sem L;
          let (name, L) = label_name ''sc'' L;
          (slot, L) \<leftarrow> build_value (\<lambda>b. ir_build_alloca b rt (Some name)) L;
          (rhs_bb, L) \<leftarrow> new_block ''sc.rhs'' L;
          (end_bb, L) \<leftarrow> new_block ''sc.end'' L;
          (lhs, L) \<leftarrow> le a L;
          asem \<leftarrow> sem_of a;
          (v, L) \<leftarrow> coerce_to lhs rt asem L;
          L \<leftarrow> store v slot L;
          (c, L) \<leftarrow> to_i1 lhs L;
          L \<leftarrow> (if op = Punct TOK_AMP_AMP then condbr c rhs_bb end_bb L else condbr c end_bb rhs_bb L);
          (rhs, L) \<leftarrow> le b (position rhs_bb L);
          bsem \<leftarrow> sem_of b;
          (v, L) \<leftarrow> coerce_to rhs rt bsem L;
          L \<leftarrow> store v slot L;
          L \<leftarrow> br end_bb L;
          build (\<lambda>b. ir_build_load b rt slot) (position end_bb L) }"

text \<open>The two sides agree on a type: an untyped one takes the other's width.\<close>

definition agree :: "valref option \<Rightarrow> valref option \<Rightarrow> tyref option \<Rightarrow> tyref option \<Rightarrow> lower \<Rightarrow> ((valref \<times> valref) \<times> lower) option" where
  "agree lhs rhs lt rt L =
     do { l \<leftarrow> lhs;
          r \<leftarrow> rhs;
          if val_ty L l \<noteq> val_ty L r \<and> (case lt of None \<Rightarrow> True | Some t \<Rightarrow> \<not> ty_is_untyped (lty L t)) then
            do { (r, L) \<leftarrow> coerce_to (Some r) (val_ty L l) rt L; Some ((l, r), L) }
          else if val_ty L l \<noteq> val_ty L r then
            do { (l, L) \<leftarrow> coerce_to (Some l) (val_ty L r) lt L; Some ((l, r), L) }
          else Some ((l, r), L) }"

definition lower_ptr_diff :: "tyref \<Rightarrow> valref \<Rightarrow> valref \<Rightarrow> lower \<Rightarrow> (valref option \<times> lower) option" where
  "lower_ptr_diff lt l r L =
     do { let (i64, L) = in_module (\<lambda>m. ir_type_int m 64) L;
          (a, L) \<leftarrow> build_value (\<lambda>b. ir_build_cast b IR_PTRTOINT l i64) L;
          (b2, L) \<leftarrow> build_value (\<lambda>b. ir_build_cast b IR_PTRTOINT r i64) L;
          (diff, L) \<leftarrow> build_value (\<lambda>b. ir_build_binary b IR_SUB a b2) L;
          (elem, L) \<leftarrow> ir_of_ty (t_elem (lty L lt)) L;
          sz \<leftarrow> ir_type_size (im_types (lw_m L)) elem;
          let (n, L) = new_const i64 (ucast (if sz \<noteq> 0 then sz else 1)) L;
          build (\<lambda>b. ir_build_binary b IR_SDIV diff n) L }"

definition lower_binary :: "lowerer \<Rightarrow> tyref option \<Rightarrow> token_kind \<Rightarrow> expr option \<Rightarrow> expr option \<Rightarrow> lower \<Rightarrow>
    (valref option \<times> lower) option" where
  "lower_binary le sem op a b L =
     do { lt \<leftarrow> sem_of a;
          rt \<leftarrow> sem_of b;
          if op = Punct TOK_AMP_AMP \<or> op = Punct TOK_PIPE_PIPE then lower_short_circuit le sem op a b L
          else do {
            (lhs, L) \<leftarrow> le a L;
            (rhs, L) \<leftarrow> le b L;
            ((l, r), L) \<leftarrow> agree lhs rhs lt rt L;
            if is_comparison op then do {
              (cmp, L) \<leftarrow> (if is_float_ty L lt then build_value (\<lambda>b. ir_build_fcmp b (float_pred op) l r) L
                 else build_value (\<lambda>b. ir_build_icmp b (int_pred op (is_signed_ty L lt)) l r) L);
              (want, L) \<leftarrow> ir_of_ty sem L;
              (v, L) \<leftarrow> from_i1 cmp want L;
              Some (Some v, L) }
            else case lt of
              Some t \<Rightarrow>
                if t_kind (lty L t) = TY_PTR
                then (if is_ptr_ty L rt then lower_ptr_diff t l r L else lower_ptr_arith op t l r L)
                else if ty_is_float (lty L t) then build (\<lambda>b. ir_build_binary b (float_binop op) l r) L
                else build (\<lambda>b. ir_build_binary b (int_binop op (ty_is_signed (lty L t))) l r) L
            | None \<Rightarrow> build (\<lambda>b. ir_build_binary b (int_binop op False) l r) L } }"

definition lower_unary :: "lowerer \<Rightarrow> lowerer \<Rightarrow> srcpos \<Rightarrow> tyref option \<Rightarrow> token_kind \<Rightarrow> expr option \<Rightarrow> lower \<Rightarrow>
    (valref option \<times> lower) option" where
  "lower_unary le la pos sem op a L =
     do { (rt, L) \<leftarrow> ir_of_ty sem L;
          if op = Punct TOK_AMP then la a L
          else if op = Punct TOK_STAR then
            do { (p, L) \<leftarrow> le a L; p \<leftarrow> p; build (\<lambda>b. ir_build_load b rt p) L }
          else do {
            (v, L) \<leftarrow> le a L;
            case op of
              Punct TOK_MINUS \<Rightarrow>
                do { asem \<leftarrow> sem_of a;
                     t \<leftarrow> asem;
                     v \<leftarrow> v;
                     if ty_is_float (lty L t)
                     then do { let (z, L) = in_module (\<lambda>m. ir_const_fp m (val_ty L v) 0) L;
                               build (\<lambda>b. ir_build_binary b IR_FSUB z v) L }
                     else do { let (z, L) = new_const (val_ty L v) 0 L;
                               build (\<lambda>b. ir_build_binary b IR_SUB z v) L } }
            | Punct TOK_TILDE \<Rightarrow>
                do { v \<leftarrow> v;
                     let (ones, L) = new_const (val_ty L v) (- 1) L;
                     build (\<lambda>b. ir_build_binary b IR_XOR v ones) L }
            | Punct TOK_BANG \<Rightarrow>
                do { v \<leftarrow> v;
                     let (z, L) = zero_of (val_ty L v) L;
                     (c, L) \<leftarrow> build_value (\<lambda>b. ir_build_icmp b IR_ICMP_EQ v z) L;
                     (w, L) \<leftarrow> from_i1 c rt L;
                     Some (Some w, L) }
            | _ \<Rightarrow> Some (v, fail pos ''unsupported unary operator'' L) } }"

definition undef :: "typeref \<Rightarrow> lower \<Rightarrow> valref option \<times> lower" where
  "undef t L = (let (v, L) = in_module (\<lambda>m. ir_undef m t) L in (Some v, L))"

text \<open>\<open>fail\<close> and an undefined address.\<close>

definition no_addr :: "srcpos \<Rightarrow> string \<Rightarrow> lower \<Rightarrow> valref option \<times> lower" where
  "no_addr pos what L = (let L = fail pos what L in undef (ir_type_ptr (lw_m L)) L)"

definition addr_index :: "lowerer \<Rightarrow> lowerer \<Rightarrow> srcpos \<Rightarrow> expr option \<Rightarrow> expr option \<Rightarrow> lower \<Rightarrow> (valref option \<times> lower) option" where
  "addr_index le la pos base i L =
     do { bt \<leftarrow> sem_of base;
          (idx, L) \<leftarrow> le i L;
          let (i64, L) = in_module (\<lambda>m. ir_type_int m 64) L;
          case bt of
            None \<Rightarrow> Some (no_addr pos ''indexing something that is neither array nor pointer'' L)
          | Some t \<Rightarrow>
              if t_kind (lty L t) \<noteq> TY_PTR \<and> t_kind (lty L t) \<noteq> TY_ARRAY
              then Some (no_addr pos ''indexing something that is neither array nor pointer'' L)
              else do {
                (ptr, L) \<leftarrow> (if t_kind (lty L t) = TY_PTR then le base L else la base L);
                (elem, L) \<leftarrow> ir_of_ty (t_elem (lty L t)) L;
                idx \<leftarrow> idx;
                ptr \<leftarrow> ptr;
                (idx, L) \<leftarrow> (if val_ty L idx \<noteq> i64
                   then do { isem \<leftarrow> sem_of i;
                             it \<leftarrow> isem;
                             build_value (\<lambda>b. ir_build_cast b (if ty_is_signed (lty L it) then IR_SEXT else IR_ZEXT) idx i64) L }
                   else Some (idx, L));
                build (\<lambda>b. ir_build_gep_index b elem ptr idx) L } }"

text \<open>The index of the field \<open>ty_field\<close> finds.\<close>

fun field_index :: "field_sym list \<Rightarrow> string \<Rightarrow> u32 option" where
  "field_index [] name = None"
| "field_index (f # fs) name =
     (if strview_eq_view (fs_name f) name then Some 0 else map_option (\<lambda>i. i + 1) (field_index fs name))"

definition addr_field :: "lowerer \<Rightarrow> lowerer \<Rightarrow> srcpos \<Rightarrow> expr option \<Rightarrow> string \<Rightarrow> lower \<Rightarrow> (valref option \<times> lower) option" where
  "addr_field le la pos base name L =
     do { bt \<leftarrow> sem_of base;
          (ptr, L) \<leftarrow> (if is_ptr_ty L bt then le base L else la base L);
          let st = (case bt of Some t \<Rightarrow> if t_kind (lty L t) = TY_PTR then t_elem (lty L t) else Some t | None \<Rightarrow> None);
          case (st, ty_field (lw_tt L) st name) of
            (Some s, Some f) \<Rightarrow>
              do { ptr \<leftarrow> ptr;
                   i \<leftarrow> field_index (t_fields (lty L s)) name;
                   (t, L) \<leftarrow> ir_of_ty st L;
                   build (\<lambda>b. ir_build_gep_field b t ptr i) L }
          | _ \<Rightarrow> Some (no_addr pos ''no such field'' L) }"

definition lower_addr_node :: "lowerer \<Rightarrow> lowerer \<Rightarrow> srcpos \<Rightarrow> expr_node \<Rightarrow> lower \<Rightarrow> (valref option \<times> lower) option" where
  "lower_addr_node le la pos u L = (case u of
     EXPR_NAME n \<Rightarrow> (case find_storage L n of
         Some b \<Rightarrow> Some (Some (bd_addr b), L)
       | None \<Rightarrow> Some (no_addr pos ''no storage for this name'' L))
   | EXPR_UNARY op a \<Rightarrow>
       if op = Punct TOK_STAR then le a L else Some (no_addr pos ''not an lvalue'' L)
   | EXPR_INDEX a i \<Rightarrow> addr_index le la pos a i L
   | EXPR_FIELD a n \<Rightarrow> addr_field le la pos a n L
   | EXPR_CONV a \<Rightarrow> la a L
   | _ \<Rightarrow> Some (no_addr pos ''not an lvalue'' L))"

text \<open>The argument loop; \<open>ps\<close> are the parameters still to come.\<close>

fun lower_args :: "lowerer \<Rightarrow> valref list \<Rightarrow> expr option list \<Rightarrow> lower \<Rightarrow> (valref list \<times> lower) option" where
  "lower_args le ps [] L = Some ([], L)"
| "lower_args le ps (a # as) L =
     do { (v, L) \<leftarrow> le a L;
          (v, L) \<leftarrow> (case ps of
             p # _ \<Rightarrow> do { asem \<leftarrow> sem_of a; coerce_to v (val_ty L p) asem L }
           | [] \<Rightarrow> do { v \<leftarrow> v; Some (v, L) });
          (vs, L) \<leftarrow> lower_args le (drop 1 ps) as L;
          Some (v # vs, L) }"

definition lower_call :: "lowerer \<Rightarrow> srcpos \<Rightarrow> tyref option \<Rightarrow> expr option \<Rightarrow> expr option list \<Rightarrow> lower \<Rightarrow>
    (valref option \<times> lower) option" where
  "lower_call le pos sem callee args L =
     do { c \<leftarrow> callee;
          case ex_u c of
            EXPR_NAME n \<Rightarrow>
              (case find_func L n of
                 None \<Rightarrow> do { (t, L) \<leftarrow> ir_of_ty sem (fail pos ''call to an unknown function'' L); Some (undef t L) }
               | Some f \<Rightarrow>
                   do { (vs, L) \<leftarrow> lower_args le (if_params (fn_obj (lw_m L) f)) args L;
                        build (\<lambda>b. ir_build_call b f vs) L })
          | _ \<Rightarrow> do { (t, L) \<leftarrow> ir_of_ty sem (fail pos ''only direct calls exist in v0'' L); Some (undef t L) } }"

definition load_or_addr :: "tyref option \<Rightarrow> typeref \<Rightarrow> valref \<Rightarrow> lower \<Rightarrow> (valref option \<times> lower) option" where
  "load_or_addr sem t addr L =
     (if ty_is_aggregate L sem then Some (Some addr, L) else build (\<lambda>b. ir_build_load b t addr) L)"

definition some_value :: "valref \<times> lower \<Rightarrow> (valref option \<times> lower) option" where
  "some_value r = Some (Some (fst r), snd r)"

definition lower_node :: "lowerer \<Rightarrow> lowerer \<Rightarrow> srcpos \<Rightarrow> tyref option \<Rightarrow> expr_node \<Rightarrow> lower \<Rightarrow> (valref option \<times> lower) option" where
  "lower_node le la pos sem u L =
     do { (rt, L) \<leftarrow> ir_of_ty sem L;
          let int = (\<lambda>v. if it_kind (ir_ty L rt) = IR_TY_FLOAT
                         then some_value (in_module (\<lambda>m. ir_const_fp m rt (double_of_u64 v)) L)
                         else some_value (new_const rt v L));
          case u of
            EXPR_INT v \<Rightarrow> int v
          | EXPR_CHAR v \<Rightarrow> int v
          | EXPR_BOOL b \<Rightarrow> some_value (new_const rt (if b then 1 else 0) L)
          | EXPR_FLOAT v \<Rightarrow> some_value (in_module (\<lambda>m. ir_const_fp m rt v) L)
          | EXPR_NULL \<Rightarrow> some_value (in_module ir_const_null L)
          | EXPR_STRING str \<Rightarrow> some_value (in_module (\<lambda>m. ir_string m str) L)
          | EXPR_SIZEOF ty \<Rightarrow>
              do { let (t, L) = (case ty of Some ty \<Rightarrow> ir_of_ast_type ty L | None \<Rightarrow> (ir_type_void (lw_m L), L));
                   sz \<leftarrow> ir_type_size (im_types (lw_m L)) t;
                   some_value (new_const rt (ucast sz) L) }
          | EXPR_NAME n \<Rightarrow>
              (case find_storage L n of
                 Some b \<Rightarrow> load_or_addr sem (bd_type b) (bd_addr b) L
               | None \<Rightarrow> (case enum_member_value L sem n of
                     Some v \<Rightarrow> some_value (new_const rt v L)
                   | None \<Rightarrow> Some (undef rt (fail pos ''unresolved name'' L))))
          | EXPR_UNARY op a \<Rightarrow> lower_unary le la pos sem op a L
          | EXPR_BINARY op a b \<Rightarrow> lower_binary le sem op a b L
          | EXPR_CALL f args \<Rightarrow> lower_call le pos sem f args L
          | EXPR_INDEX a i \<Rightarrow> do { (p, L) \<leftarrow> addr_index le la pos a i L; p \<leftarrow> p; load_or_addr sem rt p L }
          | EXPR_FIELD a n \<Rightarrow> do { (p, L) \<leftarrow> addr_field le la pos a n L; p \<leftarrow> p; load_or_addr sem rt p L }
          | EXPR_CAST a ty \<Rightarrow> do { (v, L) \<leftarrow> le a L; asem \<leftarrow> sem_of a; lower_conversion v asem sem pos L }
          | EXPR_CONV a \<Rightarrow> do { (v, L) \<leftarrow> le a L; asem \<leftarrow> sem_of a; lower_conversion v asem sem pos L } }"

fun lower_expr_n :: "nat \<Rightarrow> lowerer" and lower_addr_n :: "nat \<Rightarrow> lowerer" where
  "lower_expr_n n None L = Some (undef (ir_type_void (lw_m L)) L)"
| "lower_expr_n 0 (Some e) L = None"
| "lower_expr_n (Suc n) (Some (Expr pos sem u)) L = lower_node (lower_expr_n n) (lower_addr_n n) pos sem u L"
| "lower_addr_n n None L = None"
| "lower_addr_n 0 (Some e) L = None"
| "lower_addr_n (Suc n) (Some (Expr pos sem u)) L = lower_addr_node (lower_expr_n n) (lower_addr_n n) pos u L"

text \<open>Every call goes to a smaller tree, so the tree's size bounds the depth.\<close>

definition lower_expr :: lowerer where
  "lower_expr e L = lower_expr_n (size_option size e) e L"

definition lower_addr :: lowerer where
  "lower_addr e L = lower_addr_n (size_option size e) e L"

end
