(* ===== verification/Slop_Lower_Stmt.thy ===== *)
theory Slop_Lower_Stmt
  imports Slop_Lower_Expr
begin

text \<open>
  \<open>src/backend/lowering.c\<close>: statements, items and \<open>lower_programs\<close>. Programs are read only; an item is known by the
  numbers of its program and of the item in it.
\<close>

section \<open>Statements\<close>

definition cur_block :: "lower \<Rightarrow> ir_block option" where
  "cur_block L = map_option (blk_obj (lw_m L)) (ib_block (lw_b L))"

text \<open>\<open>ir_block_is_terminated(L->b.block)\<close>.\<close>

definition is_closed :: "lower \<Rightarrow> bool option" where
  "is_closed L = map_option ir_block_is_terminated (cur_block L)"

definition ensure_open :: "lower \<Rightarrow> lower option" where
  "ensure_open L =
     do { c \<leftarrow> is_closed L;
          if c then do { (bb, L) \<leftarrow> new_block ''dead'' L; Some (position bb L) } else Some L }"

definition br_unless_closed :: "blockref \<Rightarrow> lower \<Rightarrow> lower option" where
  "br_unless_closed bb L = do { c \<leftarrow> is_closed L; if \<not> c then br bb L else Some L }"

definition store_value :: "valref \<Rightarrow> expr option \<Rightarrow> tyref option \<Rightarrow> lower \<Rightarrow> lower option" where
  "store_value addr value t L =
     (if ty_is_aggregate L t then
        do { (v, L) \<leftarrow> lower_expr value L; v \<leftarrow> v; r \<leftarrow> t; emit_memcpy addr v (t_size (lty L r)) L }
      else
        do { (v, L) \<leftarrow> lower_expr value L;
             (want, L) \<leftarrow> ir_of_ty t L;
             vsem \<leftarrow> sem_of value;
             (v, L) \<leftarrow> coerce_to v want vsem L;
             store v addr L })"

definition lower_var :: "ast_type \<Rightarrow> string \<Rightarrow> expr option \<Rightarrow> lower \<Rightarrow> lower option" where
  "lower_var type name init L =
     do { let (t, L) = ir_of_ast_type type L;
          (nm, L) \<leftarrow> unique_name name L;
          (slot, L) \<leftarrow> build_value (\<lambda>b. ir_build_alloca b t (Some nm)) L;
          let ty = (case init of Some e \<Rightarrow> ex_sem e | None \<Rightarrow> None);
          L \<leftarrow> (if init \<noteq> None then
                 (if ty_is_aggregate L ty then
                    do { (v, L) \<leftarrow> lower_expr init L; v \<leftarrow> v; r \<leftarrow> ty; emit_memcpy slot v (t_size (lty L r)) L }
                  else do { (v, L) \<leftarrow> lower_expr init L; (v, L) \<leftarrow> coerce_to v t ty L; store v slot L })
               else if it_kind (ir_ty L t) = IR_TY_ARRAY \<or> it_kind (ir_ty L t) = IR_TY_STRUCT then
                 do { sz \<leftarrow> ir_type_size (im_types (lw_m L)) t; emit_zero slot sz L }
               else (let (z, L) = zero_of t L in store z slot L));
          Some (push_local name slot t ty L) }"

definition compound_op :: "token_kind \<Rightarrow> token_kind" where
  "compound_op op = (case op of
     Punct TOK_PLUS_EQ \<Rightarrow> Punct TOK_PLUS | Punct TOK_MINUS_EQ \<Rightarrow> Punct TOK_MINUS | Punct TOK_STAR_EQ \<Rightarrow> Punct TOK_STAR
   | Punct TOK_SLASH_EQ \<Rightarrow> Punct TOK_SLASH | Punct TOK_PERCENT_EQ \<Rightarrow> Punct TOK_PERCENT | Punct TOK_AMP_EQ \<Rightarrow> Punct TOK_AMP
   | Punct TOK_PIPE_EQ \<Rightarrow> Punct TOK_PIPE | Punct TOK_CARET_EQ \<Rightarrow> Punct TOK_CARET | Punct TOK_SHL_EQ \<Rightarrow> Punct TOK_SHL
   | _ \<Rightarrow> Punct TOK_SHR)"

definition lower_assign :: "expr option \<Rightarrow> token_kind \<Rightarrow> expr option \<Rightarrow> lower \<Rightarrow> lower option" where
  "lower_assign target op value L =
     do { (addr, L) \<leftarrow> lower_addr target L;
          tt \<leftarrow> sem_of target;
          (t, L) \<leftarrow> ir_of_ty tt L;
          addr \<leftarrow> addr;
          if op = Punct TOK_EQ then store_value addr value tt L
          else do {
            (cur, L) \<leftarrow> build_value (\<lambda>b. ir_build_load b t addr) L;
            (rhs, L) \<leftarrow> lower_expr value L;
            vsem \<leftarrow> sem_of value;
            (rhs, L) \<leftarrow> (if \<not> is_ptr_ty L tt then coerce_to rhs t vsem L else do { r \<leftarrow> rhs; Some (r, L) });
            (result, L) \<leftarrow> (case tt of
                Some r \<Rightarrow>
                  if t_kind (lty L r) = TY_PTR then
                    do { let (i64, L) = in_module (\<lambda>m. ir_type_int m 64) L;
                         (elem, L) \<leftarrow> ir_of_ty (t_elem (lty L r)) L;
                         (rhs, L) \<leftarrow> (if val_ty L rhs \<noteq> i64 then build_value (\<lambda>b. ir_build_cast b IR_SEXT rhs i64) L else Some (rhs, L));
                         (rhs, L) \<leftarrow> (if op = Punct TOK_MINUS_EQ
                            then do { let (z, L) = new_const i64 0 L; build_value (\<lambda>b. ir_build_binary b IR_SUB z rhs) L }
                            else Some (rhs, L));
                         build_value (\<lambda>b. ir_build_gep_index b elem cur rhs) L }
                  else if ty_is_float (lty L r) then build_value (\<lambda>b. ir_build_binary b (float_binop (compound_op op)) cur rhs) L
                  else build_value (\<lambda>b. ir_build_binary b (int_binop (compound_op op) (ty_is_signed (lty L r))) cur rhs) L
              | None \<Rightarrow> build_value (\<lambda>b. ir_build_binary b (int_binop (compound_op op) False) cur rhs) L);
            store result addr L } }"

text \<open>The tests of one arm: each label falls through to a new block.\<close>

fun lower_labels :: "valref option \<Rightarrow> blockref \<Rightarrow> match_label list \<Rightarrow> lower \<Rightarrow> lower option" where
  "lower_labels scrutinee body_bb [] L = Some L"
| "lower_labels scrutinee body_bb (l # ls) L =
     do { (next_bb, L) \<leftarrow> new_block ''match.test'' L;
          (v, L) \<leftarrow> lower_expr (ml_value l) L;
          s \<leftarrow> scrutinee;
          v \<leftarrow> v;
          (c, L) \<leftarrow> build_value (\<lambda>b. ir_build_icmp b IR_ICMP_EQ s v) L;
          L \<leftarrow> condbr c body_bb next_bb L;
          lower_labels scrutinee body_bb ls (position next_bb L) }"

definition drop_locals :: "nat \<Rightarrow> lower \<Rightarrow> lower" where
  "drop_locals mark L = L\<lparr>lw_locals := take mark (lw_locals L)\<rparr>"

definition enter_loop :: "blockref \<Rightarrow> blockref \<Rightarrow> lower \<Rightarrow> lower" where
  "enter_loop c b L = L\<lparr>lw_loops := lw_loops L @ [\<lparr>lp_continue_to = c, lp_break_to = b\<rparr>]\<rparr>"

definition leave_loop :: "lower \<Rightarrow> lower" where
  "leave_loop L = L\<lparr>lw_loops := butlast (lw_loops L)\<rparr>"

definition lower_return :: "expr option \<Rightarrow> lower \<Rightarrow> lower option" where
  "lower_return value L = (case value of
     None \<Rightarrow> map_option snd (build (\<lambda>b. ir_build_ret b None) L)
   | Some e \<Rightarrow>
       do { (v, L) \<leftarrow> lower_expr value L;
            f \<leftarrow> lw_cur L;
            (v, L) \<leftarrow> coerce_to v (if_ret (fn_obj (lw_m L) f)) (ex_sem e) L;
            map_option snd (build (\<lambda>b. ir_build_ret b (Some v)) L) })"

definition lower_jump :: "srcpos \<Rightarrow> string \<Rightarrow> (loop_targets \<Rightarrow> blockref) \<Rightarrow> lower \<Rightarrow> lower option" where
  "lower_jump pos what tgt L =
     (if lw_loops L = [] then Some (fail pos (what @ '' outside a loop'') L) else br (tgt (last (lw_loops L))) L)"

text \<open>\<open>lower_stmt\<close> is never called on NULL here: the optional branch is looked at by its caller.\<close>

fun lower_stmt :: "stmt \<Rightarrow> lower \<Rightarrow> lower option"
  and lower_block :: "block \<Rightarrow> lower \<Rightarrow> lower option"
  and lower_stmts :: "stmt list \<Rightarrow> lower \<Rightarrow> lower option"
  and lower_arms :: "valref option \<Rightarrow> blockref \<Rightarrow> blockref option \<Rightarrow> match_arm list \<Rightarrow> lower \<Rightarrow> (blockref option \<times> lower) option"
  where
  "lower_stmt (STMT_BLOCK pos b) L =
     do { L \<leftarrow> ensure_open L; let mark = length (lw_locals L); L \<leftarrow> lower_block b L; Some (drop_locals mark L) }"
| "lower_stmt (STMT_VAR pos m t n i) L = do { L \<leftarrow> ensure_open L; lower_var t n i L }"
| "lower_stmt (STMT_IF pos c b None) L =
     do { L \<leftarrow> ensure_open L;
          (then_bb, L) \<leftarrow> new_block ''if.then'' L;
          (end_bb, L) \<leftarrow> new_block ''if.end'' L;
          (v, L) \<leftarrow> lower_expr c L;
          (cond, L) \<leftarrow> to_i1 v L;
          L \<leftarrow> condbr cond then_bb end_bb L;
          L \<leftarrow> lower_block b (position then_bb L);
          L \<leftarrow> br_unless_closed end_bb L;
          Some (position end_bb L) }"
| "lower_stmt (STMT_IF pos c b (Some e)) L =
     do { L \<leftarrow> ensure_open L;
          (then_bb, L) \<leftarrow> new_block ''if.then'' L;
          (else_bb, L) \<leftarrow> new_block ''if.else'' L;
          (end_bb, L) \<leftarrow> new_block ''if.end'' L;
          (v, L) \<leftarrow> lower_expr c L;
          (cond, L) \<leftarrow> to_i1 v L;
          L \<leftarrow> condbr cond then_bb else_bb L;
          L \<leftarrow> lower_block b (position then_bb L);
          L \<leftarrow> br_unless_closed end_bb L;
          L \<leftarrow> lower_stmt e (position else_bb L);
          L \<leftarrow> br_unless_closed end_bb L;
          Some (position end_bb L) }"
| "lower_stmt (STMT_WHILE pos c b) L =
     do { L \<leftarrow> ensure_open L;
          (cond_bb, L) \<leftarrow> new_block ''while.cond'' L;
          (body_bb, L) \<leftarrow> new_block ''while.body'' L;
          (end_bb, L) \<leftarrow> new_block ''while.end'' L;
          L \<leftarrow> br cond_bb L;
          (v, L) \<leftarrow> lower_expr c (position cond_bb L);
          (cond, L) \<leftarrow> to_i1 v L;
          L \<leftarrow> condbr cond body_bb end_bb L;
          L \<leftarrow> lower_block b (position body_bb (enter_loop cond_bb end_bb L));
          L \<leftarrow> br_unless_closed cond_bb L;
          Some (position end_bb (leave_loop L)) }"
| "lower_stmt (STMT_MATCH pos e arms) L =
     do { L \<leftarrow> ensure_open L;
          (scrutinee, L) \<leftarrow> lower_expr e L;
          (end_bb, L) \<leftarrow> new_block ''match.end'' L;
          (wildcard_bb, L) \<leftarrow> lower_arms scrutinee end_bb None arms L;
          L \<leftarrow> br (case wildcard_bb of Some bb \<Rightarrow> bb | None \<Rightarrow> end_bb) L;
          Some (position end_bb L) }"
| "lower_stmt (STMT_ASSIGN pos e op v) L = do { L \<leftarrow> ensure_open L; lower_assign (Some e) op v L }"
| "lower_stmt (STMT_EXPR pos e) L = do { L \<leftarrow> ensure_open L; (_, L) \<leftarrow> lower_expr (Some e) L; Some L }"
| "lower_stmt (STMT_EMPTY pos) L = ensure_open L"
| "lower_stmt (STMT_RETURN pos v) L = do { L \<leftarrow> ensure_open L; lower_return v L }"
| "lower_stmt (STMT_BREAK pos) L = do { L \<leftarrow> ensure_open L; lower_jump pos ''break'' lp_break_to L }"
| "lower_stmt (STMT_CONTINUE pos) L = do { L \<leftarrow> ensure_open L; lower_jump pos ''continue'' lp_continue_to L }"
| "lower_block (Block ss pos) L =
     (let mark = length (lw_locals L) in do { L \<leftarrow> lower_stmts ss L; Some (drop_locals mark L) })"
| "lower_stmts [] L = Some L"
| "lower_stmts (st # ss) L = do { L \<leftarrow> lower_stmt st L; lower_stmts ss L }"
| "lower_arms scrutinee end_bb wildcard_bb [] L = Some (wildcard_bb, L)"
| "lower_arms scrutinee end_bb wildcard_bb (MatchArm pos ls body # arms) L =
     do { (body_bb, L) \<leftarrow> new_block ''match.arm'' L;
          let is_wildcard = list_ex ml_is_wildcard ls;
          L \<leftarrow> (if is_wildcard then Some L else lower_labels scrutinee body_bb ls L);
          resume \<leftarrow> ib_block (lw_b L);
          let mark = length (lw_locals L);
          L \<leftarrow> lower_stmt body (position body_bb L);
          L \<leftarrow> br_unless_closed end_bb L;
          lower_arms scrutinee end_bb (if is_wildcard then Some body_bb else wildcard_bb) arms
            (position resume (drop_locals mark L)) }"

section \<open>Functions\<close>

fun ir_of_params :: "param list \<Rightarrow> lower \<Rightarrow> typeref list \<times> lower" where
  "ir_of_params [] L = ([], L)"
| "ir_of_params (p # ps) L =
     (let (t, L) = ir_of_ast_type (pr_type p) L; (ts, L) = ir_of_params ps L in (t # ts, L))"

fun name_params :: "fnref \<Rightarrow> nat \<Rightarrow> param list \<Rightarrow> lower \<Rightarrow> lower" where
  "name_params f i [] L = L"
| "name_params f i (p # ps) L =
     name_params f (i + 1) ps (snd (in_module (\<lambda>m. ((), ir_param_set_name m f i (pr_name p))) L))"

definition declare_function :: "fn_decl \<Rightarrow> lower \<Rightarrow> lower" where
  "declare_function fn L =
     (let (ts, L) = ir_of_params (fn_params fn) L;
          (rt, L) = ir_of_ast_type (fn_ret fn) L;
          (f, L) = in_module (\<lambda>m. ir_function_new m (fn_name fn) rt ts (fn_is_variadic fn) (\<not> fn_has_body fn)) L;
          L = name_params f 0 (fn_params fn) L in
      L\<lparr>lw_funcs := lw_funcs L @ [\<lparr>fu_name = fn_name fn, fu_fn = f\<rparr>]\<rparr>)"

text \<open>The slots of the parameters from \<open>i\<close> on.\<close>

fun lower_params :: "fnref \<Rightarrow> nat \<Rightarrow> param list \<Rightarrow> lower \<Rightarrow> lower option" where
  "lower_params f i [] L = Some L"
| "lower_params f i (p # ps) L =
     do { let (t, L) = ir_of_ast_type (pr_type p) L;
          (nm, L) \<leftarrow> unique_name (take 127 (pr_name p @ ''.addr'')) L;
          (slot, L) \<leftarrow> build_value (\<lambda>b. ir_build_alloca b t (Some nm)) L;
          L \<leftarrow> store (if_params (fn_obj (lw_m L) f) ! i) slot L;
          lower_params f (i + 1) ps (push_local (pr_name p) slot t None L) }"

definition lower_function :: "fn_decl \<Rightarrow> fnref \<Rightarrow> lower \<Rightarrow> lower option" where
  "lower_function fn f L =
     do { let L = L\<lparr>lw_cur := Some f, lw_locals := [], lw_loops := [], lw_used := []\<rparr>;
          let (bb, L) = in_module (\<lambda>m. ir_block_new m f ''entry'') L;
          L \<leftarrow> lower_params f 0 (fn_params fn) (position bb L);
          L \<leftarrow> lower_block (fn_body fn) L;
          c \<leftarrow> is_closed L;
          if \<not> c then
            (if it_kind (ir_ty L (if_ret (fn_obj (lw_m L) f))) = IR_TY_VOID
             then map_option snd (build (\<lambda>b. ir_build_ret b None) L)
             else map_option snd (build ir_build_unreachable L))
          else Some L }"

section \<open>Items\<close>

fun constant_of :: "expr option \<Rightarrow> typeref \<Rightarrow> lower \<Rightarrow> valref option \<times> lower" where
  "constant_of None t L = (None, L)"
| "constant_of (Some (Expr pos sem u)) t L =
     (let value = (\<lambda>r. (Some (fst r), snd r));
          int = (\<lambda>v. if it_kind (ir_ty L t) = IR_TY_FLOAT then value (in_module (\<lambda>m. ir_const_fp m t (double_of_u64 v)) L)
                     else value (new_const t v L)) in
      case u of
        EXPR_INT v \<Rightarrow> int v
      | EXPR_CHAR v \<Rightarrow> int v
      | EXPR_BOOL b \<Rightarrow> value (new_const t (if b then 1 else 0) L)
      | EXPR_FLOAT v \<Rightarrow> value (in_module (\<lambda>m. ir_const_fp m t v) L)
      | EXPR_NULL \<Rightarrow> value (in_module ir_const_null L)
      | EXPR_STRING str \<Rightarrow> value (in_module (\<lambda>m. ir_string m str) L)
      | EXPR_CONV a \<Rightarrow> constant_of a t L
      | _ \<Rightarrow> (None, fail pos ''global initializers are literals in v0'' L))"

fun collect_types :: "nat \<Rightarrow> nat \<Rightarrow> item list \<Rightarrow> lower \<Rightarrow> lower" where
  "collect_types p i [] L = L"
| "collect_types p i (it # its) L =
     collect_types p (i + 1) its (case it of
       ITEM_STRUCT pos name fs \<Rightarrow>
         (let (t, L) = in_module (\<lambda>m. ir_type_struct m name) L in
          L\<lparr>lw_named := lw_named L @ [\<lparr>nt_name = name, nt_type = t, nt_decl = (p, i)\<rparr>]\<rparr>)
     | ITEM_ENUM pos name base ms \<Rightarrow>
         (let (t, L) = ir_of_core base L in
          L\<lparr>lw_named := lw_named L @ [\<lparr>nt_name = name, nt_type = t, nt_decl = (p, i)\<rparr>]\<rparr>)
     | _ \<Rightarrow> L)"

fun ir_of_fields :: "field list \<Rightarrow> lower \<Rightarrow> typeref list \<times> lower" where
  "ir_of_fields [] L = ([], L)"
| "ir_of_fields (f # fs) L =
     (let (t, L) = ir_of_ast_type (fd_type f) L; (ts, L) = ir_of_fields fs L in (t # ts, L))"

fun fill_struct_bodies :: "nat \<Rightarrow> nat \<Rightarrow> item list \<Rightarrow> lower \<Rightarrow> lower" where
  "fill_struct_bodies p i [] L = L"
| "fill_struct_bodies p i (it # its) L =
     fill_struct_bodies p (i + 1) its (case it of
       ITEM_STRUCT pos name fs \<Rightarrow>
         (case find_named L name of
            Some nt \<Rightarrow>
              if nt_decl nt \<noteq> (p, i) then L
              else (let (ts, L) = ir_of_fields fs L in
                    snd (in_module (\<lambda>m. ((), ir_struct_set_body m (nt_type nt) ts)) L))
          | None \<Rightarrow> L)
     | _ \<Rightarrow> L)"

definition lower_global :: "ast_type \<Rightarrow> string \<Rightarrow> expr option \<Rightarrow> lower \<Rightarrow> lower" where
  "lower_global type name init L =
     (let (t, L) = ir_of_ast_type type L;
          (v, L) = constant_of init t L;
          (_, L) = in_module (\<lambda>m. ir_global_new m name t v) L;
          (addr, L) = in_module (\<lambda>m. let (a, m) = value_new m IRV_GLOBAL (ir_type_ptr m) in
                                     (a, value_set a (\<lambda>x. x\<lparr>iv_name := name\<rparr>) m)) L in
      L\<lparr>lw_globals := lw_globals L @ [\<lparr>bd_name = name, bd_addr = addr, bd_type = t, bd_ty = None\<rparr>]\<rparr>)"

fun lower_globals :: "item list \<Rightarrow> lower \<Rightarrow> lower" where
  "lower_globals [] L = L"
| "lower_globals (it # its) L =
     lower_globals its (case it of ITEM_GLOBAL pos m t name init \<Rightarrow> lower_global t name init L | _ \<Rightarrow> L)"

fun declare_functions :: "item list \<Rightarrow> lower \<Rightarrow> lower" where
  "declare_functions [] L = L"
| "declare_functions (it # its) L =
     declare_functions its (case it of
       ITEM_FN pos fn \<Rightarrow> declare_function fn L
     | ITEM_EXTERN pos abi fns \<Rightarrow> fold declare_function fns L
     | _ \<Rightarrow> L)"

text \<open>The bodies; \<open>cursor\<close> is \<open>fn_cursor\<close>.\<close>

fun lower_bodies :: "nat \<Rightarrow> item list \<Rightarrow> lower \<Rightarrow> (nat \<times> lower) option" where
  "lower_bodies cursor [] L = Some (cursor, L)"
| "lower_bodies cursor (it # its) L = (case it of
     ITEM_FN pos fn \<Rightarrow>
       do { L \<leftarrow> lower_function fn (fu_fn (lw_funcs L ! cursor)) L; lower_bodies (cursor + 1) its L }
   | ITEM_EXTERN pos abi fns \<Rightarrow> lower_bodies (cursor + length fns) its L
   | _ \<Rightarrow> lower_bodies cursor its L)"

fun over_programs :: "(nat \<Rightarrow> item list \<Rightarrow> lower \<Rightarrow> lower) \<Rightarrow> nat \<Rightarrow> program list \<Rightarrow> lower \<Rightarrow> lower" where
  "over_programs f p [] L = L"
| "over_programs f p (pg # pgs) L = over_programs f (p + 1) pgs (f p (pg_items pg) L)"

definition lower_init :: "type_table \<Rightarrow> program list \<Rightarrow> lower" where
  "lower_init tt programs =
     \<lparr>lw_tt = tt, lw_b = ir_builder_init (ir_module_new (if programs \<noteq> [] then pg_file (programs ! 0) else ''module'')),
      lw_globals = [], lw_locals = [], lw_named = [], lw_funcs = [], lw_loops = [], lw_cur = None, lw_used = [],
      lw_memcpy = None, lw_memset = None, lw_next_label = 0, lw_errors = 0, lw_stderr = []\<rparr>"

text \<open>Everything before the bodies.\<close>

definition lower_declarations :: "program list \<Rightarrow> lower \<Rightarrow> lower" where
  "lower_declarations programs L =
     (let L = over_programs (\<lambda>p. collect_types p 0) 0 programs L;
          L = over_programs (\<lambda>p. fill_struct_bodies p 0) 0 programs L;
          L = over_programs (\<lambda>_. lower_globals) 0 programs L in
      over_programs (\<lambda>_. declare_functions) 0 programs L)"

text \<open>The result is the module, or NULL after a failure, with what has been written to stderr.\<close>

definition lower_programs :: "type_table \<Rightarrow> program list \<Rightarrow> (ir_module option \<times> string list) option" where
  "lower_programs tt programs =
     do { (_, L) \<leftarrow> lower_bodies 0 (concat (map pg_items programs)) (lower_declarations programs (lower_init tt programs));
          Some (if lw_errors L \<noteq> 0 then None else Some (lw_m L), lw_stderr L) }"

end
