(* ===== verification/Slop_IR_Layout.thy ===== *)
theory Slop_IR_Layout
  imports Slop_IR
begin

text \<open>
  C's layout rules over the types of a module, in unbounded numbers, and the proof that \<open>ir_type_align\<close> and
  \<open>ir_type_size\<close> compute them; constants read as signed numbers of their own width; the names the module makes.
\<close>

section \<open>The layout rules\<close>

text \<open>
  \<open>c_layout h t s a\<close>: type \<open>t\<close> has size \<open>s\<close> and alignment \<open>a\<close>. \<open>c_fields h ts off al offs e al'\<close>: fields \<open>ts\<close> placed
  from offset \<open>off\<close> on start at \<open>offs\<close> and end at \<open>e\<close>, each at the least multiple of its alignment after
  the one before; \<open>al'\<close> is the strictest alignment of them and \<open>al\<close>.
\<close>

inductive c_layout :: "ir_type list \<Rightarrow> typeref \<Rightarrow> nat \<Rightarrow> nat \<Rightarrow> bool"
  and c_fields :: "ir_type list \<Rightarrow> typeref list \<Rightarrow> nat \<Rightarrow> nat \<Rightarrow> nat list \<Rightarrow> nat \<Rightarrow> nat \<Rightarrow> bool"
  for h :: "ir_type list" where
  c_void: "it_kind (h ! t) = IR_TY_VOID \<Longrightarrow> c_layout h t 0 1"
| c_int: "it_kind (h ! t) = IR_TY_INT \<Longrightarrow> it_bits (h ! t) \<in> {1, 8} \<Longrightarrow> c_layout h t 1 1"
| c_wide: "it_kind (h ! t) \<in> {IR_TY_INT, IR_TY_FLOAT} \<Longrightarrow> it_bits (h ! t) = of_nat (8 * n) \<Longrightarrow> n \<in> {4, 8} \<Longrightarrow> c_layout h t n n"
| c_ptr: "it_kind (h ! t) = IR_TY_PTR \<Longrightarrow> c_layout h t 8 8"
| c_array: "it_kind (h ! t) = IR_TY_ARRAY \<Longrightarrow> it_elem (h ! t) = Some e \<Longrightarrow> c_layout h e s a
    \<Longrightarrow> c_layout h t (unat (it_length (h ! t)) * s) a"
| c_struct: "it_kind (h ! t) = IR_TY_STRUCT \<Longrightarrow> c_fields h (it_fields (h ! t)) 0 1 offs e a
    \<Longrightarrow> c_layout h t (pad_to e a) a"
| c_nil: "c_fields h [] off al [] off al"
| c_cons: "c_layout h t s a \<Longrightarrow> c_fields h ts (pad_to off a + s) (max al a) offs e al'
    \<Longrightarrow> c_fields h (t # ts) off al (pad_to off a # offs) e al'"

lemmas c_layout_induct = c_layout_c_fields.inducts [consumes 1]

definition ALIGNS :: "nat set" where "ALIGNS = {1, 4, 8}"

lemma layout_aligned:
  "c_layout h t s a \<Longrightarrow> a \<in> ALIGNS \<and> a dvd s"
  "c_fields h ts off al offs e al' \<Longrightarrow> al \<in> ALIGNS \<Longrightarrow> al' \<in> ALIGNS \<and> al dvd al'"
proof (induction rule: c_layout_c_fields.inducts)
  case (c_struct t offs e a)
  then show ?case by (auto simp: ALIGNS_def pad_to_dvd)
next
  case (c_cons t s a ts off al offs e al')
  then have "max al a \<in> ALIGNS" "al dvd max al a" by (auto simp: ALIGNS_def max_def)
  with c_cons show ?case by (metis dvd_trans)
qed (auto simp: ALIGNS_def)

text \<open>Fields are aligned, follow each other without overlap and stay inside the struct.\<close>

inductive_cases c_consE: "c_fields h (t # ts) off al offs e al'"
inductive_cases c_nilE: "c_fields h [] off al offs e al'"

lemma fields_ordered:
  "c_layout h t s a \<Longrightarrow> True"
  "c_fields h ts off al offs e al' \<Longrightarrow> length offs = length ts \<and> off \<le> e
     \<and> (\<forall>i < length ts. \<exists>s a. c_layout h (ts ! i) s a \<and> a dvd offs ! i \<and> off \<le> offs ! i
          \<and> offs ! i + s \<le> (if Suc i < length ts then offs ! Suc i else e))"
proof (induction rule: c_layout_c_fields.inducts)
  case (c_cons t s a ts off al offs e al')
  have a: "0 < a" using layout_aligned(1) [OF c_cons(1)] by (auto simp: ALIGNS_def)
  have first: "off \<le> pad_to off a" using a by (rule pad_to_ge)
  have next_ok: "pad_to off a + s \<le> (if ts = [] then e else hd offs)"
  proof (cases ts)
    case Nil
    with c_cons(3) show ?thesis by (auto elim: c_nilE)
  next
    case (Cons t' ts')
    with c_cons(4) have "pad_to off a + s \<le> offs ! 0" "offs \<noteq> []" by auto
    then show ?thesis using Cons by (simp add: hd_conv_nth)
  qed
  show ?case
  proof (intro conjI allI impI)
    show "length (pad_to off a # offs) = length (t # ts)" using c_cons by simp
    show "off \<le> e" using first c_cons by simp
    fix i assume i: "i < length (t # ts)"
    show "\<exists>s' a'. c_layout h ((t # ts) ! i) s' a' \<and> a' dvd (pad_to off a # offs) ! i \<and> off \<le> (pad_to off a # offs) ! i
        \<and> (pad_to off a # offs) ! i + s' \<le> (if Suc i < length (t # ts) then (pad_to off a # offs) ! Suc i else e)"
    proof (cases i)
      case 0
      then show ?thesis
        using c_cons(1,4) first next_ok pad_to_dvd [of a off]
        by (intro exI [of _ s] exI [of _ a]) (auto simp: hd_conv_nth)
    next
      case (Suc j)
      with i c_cons(4) obtain s' a' where "c_layout h (ts ! j) s' a'" "a' dvd offs ! j" "pad_to off a + s \<le> offs ! j"
        "offs ! j + s' \<le> (if Suc j < length ts then offs ! Suc j else e)" by auto
      with Suc first show ?thesis by (intro exI [of _ s'] exI [of _ a']) auto
    qed
  qed
qed auto

section \<open>The code computes them\<close>

lemma and_not_mask: "(w :: 'a :: len word) AND NOT (mask k) = w - take_bit k w"
proof -
  have "w - take_bit k w = w AND NOT (take_bit k w)"
    by (rule disjunctive_diff) (simp add: bit_take_bit_iff)
  also have "\<dots> = w AND NOT (mask k)" by (rule bit_eqI) (auto simp: bit_simps)
  finally show ?thesis by simp
qed

lemma align_up32_pad_to:
  assumes "a \<in> ALIGNS"
  shows "align_up32 (of_nat n) (of_nat a) = of_nat (pad_to n a)"
proof -
  obtain k where k: "a = 2 ^ k" "k \<le> 3"
    using assms by (auto simp: ALIGNS_def intro: that [of 0] that [of 2] that [of 3])
  let ?m = "n + 2 ^ k - 1"
  have "of_nat ?m = (of_nat (n + 2 ^ k) :: u32) - of_nat 1" by (intro of_nat_diff) (simp add: add_increasing)
  then have "of_nat n + of_nat a - (1 :: u32) = of_nat ?m" by (simp add: k)
  moreover have "of_nat a - (1 :: u32) = mask k" by (simp add: k mask_eq_exp_minus_1)
  ultimately have "align_up32 (of_nat n) (of_nat a) = of_nat ?m - take_bit k (of_nat ?m)"
    by (simp add: align_up32_def and_not_mask)
  also have "\<dots> = of_nat ?m - of_nat (?m mod 2 ^ k)"
    by (simp only: take_bit_of_nat take_bit_eq_mod [where 'a = nat])
  also have "\<dots> = of_nat (?m - ?m mod 2 ^ k)" by (rule of_nat_diff [symmetric]) (rule mod_less_eq_dividend)
  also have "?m - ?m mod 2 ^ k = pad_to n a" by (simp add: pad_to_def k minus_mod_eq_div_mult)
  finally show ?thesis .
qed

lemma of_nat_max_aligns:
  "al \<in> ALIGNS \<Longrightarrow> a \<in> ALIGNS \<Longrightarrow> (if of_nat a > (of_nat al :: u32) then of_nat a else of_nat al) = (of_nat (max al a) :: u32)"
  by (auto simp: ALIGNS_def)

lemma align_code:
  "c_layout h t s a \<Longrightarrow> align_run h (Inl t) = Some (of_nat a)"
  "c_fields h ts off al offs e al' \<Longrightarrow> al \<in> ALIGNS \<Longrightarrow> align_run h (Inr (ts, of_nat al)) = Some (of_nat al')"
proof (induction rule: c_layout_c_fields.inducts)
  case (c_int t)
  then show ?case by (subst align_run.simps) auto
next
  case (c_wide t n)
  then show ?case by (subst align_run.simps) auto
next
  case (c_struct t offs e a)
  then have "align_run h (Inr (it_fields (h ! t), of_nat 1)) = Some (of_nat a)" by (simp add: ALIGNS_def)
  with c_struct show ?case by (subst align_run.simps) simp
next
  case (c_cons t s a ts off al offs e al')
  have a: "a \<in> ALIGNS" using layout_aligned(1) [OF c_cons(1)] by simp
  with c_cons.prems have "max al a \<in> ALIGNS" by (auto simp: ALIGNS_def max_def)
  with c_cons have "align_run h (Inr (ts, of_nat (max al a))) = Some (of_nat al')" by simp
  with c_cons(2) show ?case
    by (subst align_run.simps) (simp add: of_nat_max_aligns [OF c_cons.prems a])
qed (subst align_run.simps; simp)+

lemma size_code:
  "c_layout h t s a \<Longrightarrow> size_run h (Inl t) = Some (of_nat s)"
  "c_fields h ts off al offs e al' \<Longrightarrow> size_run h (Inr (ts, of_nat off)) = Some (of_nat e)"
proof (induction rule: c_layout_c_fields.inducts)
  case (c_int t)
  then show ?case by (subst size_run.simps) auto
next
  case (c_wide t n)
  then show ?case by (subst size_run.simps) auto
next
  case (c_array t e s a)
  have "(ucast (it_length (h ! t)) :: u32) = of_nat (unat (it_length (h ! t)))" by simp
  with c_array show ?case by (subst size_run.simps) simp
next
  case (c_struct t offs e a)
  then have l: "c_layout h t (pad_to e a) a" by (intro c_layout_c_fields.c_struct)
  have "size_run h (Inr (it_fields (h ! t), of_nat 0)) = Some (of_nat e)" using c_struct by simp
  moreover have "ir_type_align h t = Some (of_nat a)" using align_code(1) [OF l] by (simp add: ir_type_align_def)
  ultimately show ?case
    using c_struct layout_aligned(1) [OF l] by (subst size_run.simps) (simp add: align_up32_pad_to)
next
  case (c_cons t s a ts off al offs e al')
  have a: "a \<in> ALIGNS" using layout_aligned(1) [OF c_cons(1)] by simp
  have "ir_type_align h t = Some (of_nat a)" using align_code(1) [OF c_cons(1)] by (simp add: ir_type_align_def)
  with c_cons show ?case by (subst size_run.simps) (simp add: align_up32_pad_to [OF a])
qed (subst size_run.simps; simp)+

text \<open>
  C20. \<open>ir_type_size\<close> and \<open>ir_type_align\<close> return C's layout of every type that has one: its size and alignment
  modulo \<open>2^32\<close>, so exactly when the size fits; the alignment is 1, 4 or 8 and divides the size, and the
  fields of a struct lie in order, aligned, without overlap and inside the struct.
\<close>
theorem ir_layout_is_c_layout:
  assumes "c_layout h t s a"
  shows "ir_type_size h t = Some (of_nat s) \<and> ir_type_align h t = Some (of_nat a)
    \<and> (s < 2 ^ 32 \<longrightarrow> unat (of_nat s :: u32) = s)
    \<and> a \<in> {1, 4, 8} \<and> a dvd s
    \<and> (it_kind (h ! t) = IR_TY_STRUCT \<longrightarrow> (\<exists>offs. length offs = length (it_fields (h ! t))
         \<and> (\<forall>i < length offs. \<exists>fs fa. c_layout h (it_fields (h ! t) ! i) fs fa \<and> fa dvd offs ! i
              \<and> offs ! i + fs \<le> (if Suc i < length offs then offs ! Suc i else s))))"
proof -
  have "\<exists>offs. length offs = length (it_fields (h ! t))
      \<and> (\<forall>i < length offs. \<exists>fs fa. c_layout h (it_fields (h ! t) ! i) fs fa \<and> fa dvd offs ! i
           \<and> offs ! i + fs \<le> (if Suc i < length offs then offs ! Suc i else s))" if k: "it_kind (h ! t) = IR_TY_STRUCT"
    using assms
  proof (cases rule: c_layout.cases)
    case (c_struct offs e)
    have "0 < a" using layout_aligned(1) [OF assms] by (auto simp: ALIGNS_def)
    then have "e \<le> s" using c_struct pad_to_ge by simp
    with fields_ordered(2) [OF c_struct(3)] show ?thesis
      by (intro exI [of _ offs]) (force intro: order_trans)
  qed (use k in auto)
  with size_code(1) [OF assms] align_code(1) [OF assms] layout_aligned(1) [OF assms] show ?thesis
    by (auto simp: ir_type_size_def ir_type_align_def ALIGNS_def unat_of_nat)
qed

theorem ir_layout_is_c_layout_witness:
  "ir_type_size (im_types (snd (ir_type_array (ir_module_new ''m'') 4 10))) 8 = Some 40"
proof -
  let ?h = "im_types (snd (ir_type_array (ir_module_new ''m'') 4 10))"
  have h: "?h ! 8 = (ir_type_zero IR_TY_ARRAY)\<lparr>it_elem := Some 4, it_length := 10\<rparr>"
    "?h ! 4 = (ir_type_zero IR_TY_INT)\<lparr>it_bits := 32\<rparr>"
    by (simp_all add: ir_type_array_def type_new_def ir_module_new_def nth_append)
  have "c_layout ?h 4 4 4" by (rule c_wide) (simp_all add: h ir_type_zero_def)
  then have "c_layout ?h 8 (unat (it_length (?h ! 8)) * 4) 4" by (intro c_array [where e = 4]) (simp_all add: h ir_type_zero_def)
  from ir_layout_is_c_layout [OF this] show ?thesis by (simp add: h)
qed

section \<open>Constants as signed numbers\<close>

lemma sign_extend:
  fixes w :: u64
  assumes "0 < n" "n < 64"
  shows "(let sign = push_bit (n - 1) 1; raw = w AND (push_bit 1 sign - 1) in
     if raw AND sign \<noteq> 0 then raw OR NOT (push_bit 1 sign - 1) else raw) = signed_take_bit (n - 1) w"
proof -
  obtain k where n: "n = Suc k" using assms(1) by (cases n) auto
  have m: "push_bit 1 (push_bit k 1) - 1 = (mask (Suc k) :: u64)"
    by (simp add: mask_eq_exp_minus_1 push_bit_eq_mult)
  have b: "(w AND mask (Suc k)) AND push_bit k 1 \<noteq> 0 \<longleftrightarrow> bit w k"
  proof -
    have "(w AND mask (Suc k)) AND push_bit k 1 = (if bit w k then push_bit k 1 else 0)"
      by (rule bit_eqI) (auto simp: bit_simps)
    moreover have "bit (push_bit k (1 :: u64)) k" using assms n by (simp add: bit_simps)
    then have "push_bit k (1 :: u64) \<noteq> 0" by (metis bit_0_eq bot_apply bot_bool_def)
    ultimately show ?thesis by simp
  qed
  show ?thesis
    unfolding Let_def n diff_Suc_1 m b
    by (rule bit_eqI) (auto simp: bit_simps less_Suc_eq min_def)
qed

text \<open>
  C21. \<open>ir_const_signed\<close> reads a constant at its own width: for an integer type of \<open>n < 64\<close> bits it is the
  signed number of \<open>n\<close> bits that agrees with the constant on its low \<open>n\<close> bits, whatever the other bits
  are; for every other type it is the 64-bit pattern itself.
\<close>
theorem ir_const_signed_value:
  assumes "0 < it_bits (h ! iv_type v)"
  shows "if it_kind (h ! iv_type v) = IR_TY_INT \<and> it_bits (h ! iv_type v) < 64
    then (let n = unat (it_bits (h ! iv_type v)); r = sint (ir_const_signed h v) in
           - (2 ^ (n - 1)) \<le> r \<and> r < 2 ^ (n - 1) \<and> r mod 2 ^ n = uint (iv_ival v) mod 2 ^ n)
    else ir_const_signed h v = iv_ival v"
proof (cases "it_kind (h ! iv_type v) = IR_TY_INT \<and> it_bits (h ! iv_type v) < 64")
  case True
  define n where "n = unat (it_bits (h ! iv_type v))"
  have n: "0 < n" "n < 64"
    using True assms by (simp_all add: n_def word_less_nat_alt unat_gt_0)
  have "unat (it_bits (h ! iv_type v) - 1) = n - 1"
    using assms by (simp add: n_def unat_minus_one word_gt_0)
  moreover have "\<not> 64 \<le> it_bits (h ! iv_type v)" using True by (simp add: not_le)
  ultimately have r: "ir_const_signed h v = signed_take_bit (n - 1) (iv_ival v)"
    using True sign_extend [OF n, of "iv_ival v"] by (simp only: ir_const_signed_def Let_def if_True if_False simp_thms)
  have s: "sint (ir_const_signed h v) = signed_take_bit (n - 1) (uint (iv_ival v))"
    using n unfolding r by (intro bit_eqI) (auto simp: bit_simps min_def)
  have "signed_take_bit (n - 1) (uint (iv_ival v)) mod 2 ^ n = uint (iv_ival v) mod 2 ^ n"
    using n by (simp flip: take_bit_eq_mod) (simp add: take_bit_signed_take_bit)
  with True s show ?thesis
    using signed_take_bit_int_greater_eq_minus_exp [of "n - 1" "uint (iv_ival v)"]
      signed_take_bit_int_less_exp [of "n - 1" "uint (iv_ival v)"]
    by (simp add: Let_def flip: n_def)
next
  case False
  then show ?thesis by (auto simp: ir_const_signed_def Let_def not_less)
qed

theorem ir_const_signed_value_witness:
  "(let v = \<lparr>iv_kind = IRV_CONST_INT, iv_type = 3, iv_ival = 255, iv_fval = 0, iv_name = []\<rparr> in
      - (2 ^ 7) \<le> sint (ir_const_signed (im_types (ir_module_new ''m'')) v)
        \<and> sint (ir_const_signed (im_types (ir_module_new ''m'')) v) < 2 ^ 7
        \<and> sint (ir_const_signed (im_types (ir_module_new ''m'')) v) mod 2 ^ 8 = 255)"
proof -
  let ?v = "\<lparr>iv_kind = IRV_CONST_INT, iv_type = 3, iv_ival = 255, iv_fval = 0, iv_name = []\<rparr>"
  have h: "im_types (ir_module_new ''m'') ! iv_type ?v = (ir_type_zero IR_TY_INT)\<lparr>it_bits := 8\<rparr>"
    by (simp add: ir_module_new_def)
  then have "0 < it_bits (im_types (ir_module_new ''m'') ! iv_type ?v)" by simp
  from ir_const_signed_value [OF this] show ?thesis
    unfolding h by (simp add: ir_type_zero_def Let_def)
qed

section \<open>Names\<close>

lemma fmt_digits_dec: "fmt_digits v ds = dec_of_nat (unat v) @ ds"
proof (induction v ds rule: fmt_digits.induct)
  case (1 v ds)
  have d: "unat (v div 10) = unat v div 10" "unat (v mod 10) = unat v mod 10"
    by (simp_all add: unat_div_distrib unat_mod_distrib)
  have z: "v div 10 = 0 \<longleftrightarrow> unat v < 10" using d(1) by (metis div_eq_0_iff unat_eq_0 zero_neq_numeral)
  show ?case
    using 1 z d by (subst fmt_digits.simps, subst dec_of_nat.simps) (auto simp: Let_def)
qed

lemma fmt_name_dec: "fmt_name pre n = pre @ dec_of_nat (unat n)"
  by (simp add: fmt_name_def fmt_digits_dec)

lemma fmt_name_inject [simp]: "fmt_name pre n = fmt_name pre k \<longleftrightarrow> n = k"
  by (simp add: fmt_name_dec word_unat_eq_iff)

text \<open>A run of string constants added to a module, with the references \<open>ir_string\<close> gave.\<close>

fun ir_strings :: "ir_module \<Rightarrow> string list \<Rightarrow> valref list \<times> ir_module" where
  "ir_strings m [] = ([], m)"
| "ir_strings m (s # ss) =
     (let (v, m) = ir_string m s; (vs, m) = ir_strings m ss in (v # vs, m))"

text \<open>What one constant adds to the module.\<close>

lemma ir_string_effect:
  "ir_string m s = (v, m') \<Longrightarrow> v = length (im_values m)
    \<and> im_values m' = im_values m @ [\<lparr>iv_kind = IRV_GLOBAL, iv_type = im_ty_ptr m, iv_ival = 0, iv_fval = 0,
         iv_name = fmt_name ''.str.'' (im_next_string m)\<rparr>]
    \<and> im_globals m' = im_globals m @ [\<lparr>ig_name = fmt_name ''.str.'' (im_next_string m), ig_type = length (im_types m),
         ig_init = None, ig_str = Some s, ig_strlen = of_nat (length s), ig_is_const = True, ig_is_private = True,
         ig_is_external = False\<rparr>]
    \<and> im_next_string m' = im_next_string m + 1 \<and> im_ty_i8 m' = im_ty_i8 m \<and> im_ty_ptr m' = im_ty_ptr m
    \<and> im_types m' = im_types m @ [(ir_type_zero IR_TY_ARRAY)\<lparr>it_elem := Some (im_ty_i8 m),
         it_length := ucast (of_nat (length s) :: u32) + 1\<rparr>]"
  by (auto simp: ir_string_def ir_type_array_def type_new_def global_append_def value_new_def value_set_def
      ir_global_zero_def val_obj_def Let_def nth_append list_update_append)

text \<open>
  The constant number \<open>k\<close> of a run: its value is named after the global that holds its bytes, and the array
  has room for the terminating NUL.
\<close>

definition holds_string :: "ir_module \<Rightarrow> valref \<Rightarrow> string \<Rightarrow> bool" where
  "holds_string m v s \<longleftrightarrow> v < length (im_values m) \<and> iv_kind (val_obj m v) = IRV_GLOBAL
     \<and> (\<exists>g \<in> set (im_globals m). ig_name g = iv_name (val_obj m v) \<and> ig_str g = Some s \<and> ig_is_const g
          \<and> ig_type g < length (im_types m)
          \<and> it_length (ty_obj m (ig_type g)) = ucast (of_nat (length s) :: u32) + 1)"

lemma holds_string_mono:
  "holds_string m v s \<Longrightarrow> ir_string m s' = (v', m') \<Longrightarrow> holds_string m' v s"
  using ir_string_effect [of m s' v' m'] by (fastforce simp: holds_string_def val_obj_def ty_obj_def nth_append)

lemma ir_string_holds: "ir_string m s = (v, m') \<Longrightarrow> holds_string m' v s"
  using ir_string_effect [of m s v m'] by (auto simp: holds_string_def val_obj_def ty_obj_def)

lemma ir_strings_mono: "holds_string m v s \<Longrightarrow> ir_strings m ss = (vs, m') \<Longrightarrow> holds_string m' v s"
  by (induction ss arbitrary: m vs) (auto split: prod.splits intro: holds_string_mono)

lemma ir_strings_run:
  "ir_strings m ss = (vs, m') \<Longrightarrow> length vs = length ss
     \<and> map ig_name (im_globals m') = map ig_name (im_globals m)
         @ map (\<lambda>i. fmt_name ''.str.'' (im_next_string m + of_nat i)) [0..<length ss]
     \<and> (\<forall>i < length ss. holds_string m' (vs ! i) (ss ! i))"
proof (induction ss arbitrary: m vs)
  case Nil
  then show ?case by simp
next
  case (Cons s ss)
  obtain v m1 where 1: "ir_string m s = (v, m1)" by fastforce
  obtain us where 2: "ir_strings m1 ss = (us, m')" and vs: "vs = v # us"
    using Cons.prems 1 by (auto split: prod.splits)
  note ih = Cons.IH [OF 2]
  have h: "holds_string m' v s" by (rule ir_strings_mono [OF ir_string_holds [OF 1] 2])
  have "map (\<lambda>i. fmt_name ''.str.'' (im_next_string m + of_nat i)) [0..<length (s # ss)]
      = fmt_name ''.str.'' (im_next_string m) # map (\<lambda>i. fmt_name ''.str.'' (im_next_string m1 + of_nat i)) [0..<length ss]"
    using ir_string_effect [OF 1] by (simp add: upt_conv_Cons map_Suc_upt [symmetric] add.assoc del: upt_Suc)
  with ih h ir_string_effect [OF 1] show ?case
    by (auto simp: vs nth_Cons split: nat.splits)
qed

text \<open>
  C22. String constants are kept apart: in a module with up to \<open>2^32\<close> of them no two have the same name, and the
  reference each \<open>ir_string\<close> gave names, still at the end, a constant array that holds exactly its bytes
  with one more byte for the terminating NUL.
\<close>
theorem ir_string_constants:
  assumes "length ss \<le> 2 ^ 32" and "ir_strings (ir_module_new name) ss = (vs, m)"
  shows "length vs = length ss \<and> distinct (map ig_name (im_globals m))
    \<and> (\<forall>i < length ss. holds_string m (vs ! i) (ss ! i))"
proof -
  have "map ig_name (im_globals m) = map (\<lambda>i. fmt_name ''.str.'' (of_nat i)) [0..<length ss]"
    using ir_strings_run [OF assms(2)] by (simp add: ir_module_new_def)
  moreover have "inj_on (\<lambda>i. fmt_name ''.str.'' (of_nat i :: u32)) {0..<length ss}"
  proof (intro inj_onI)
    fix i j assume ij: "i \<in> {0..<length ss}" "j \<in> {0..<length ss}"
      and "fmt_name ''.str.'' (of_nat i :: u32) = fmt_name ''.str.'' (of_nat j)"
    then have "unat (of_nat i :: u32) = unat (of_nat j :: u32)" by simp
    moreover have "i < 2 ^ 32" "j < 2 ^ 32" using ij assms(1) by simp_all
    ultimately show "i = j" by (simp add: unat_of_nat)
  qed
  ultimately show ?thesis
    using ir_strings_run [OF assms(2)] by (simp add: distinct_map)
qed

theorem ir_string_constants_witness:
  "map ig_name (im_globals (snd (ir_strings (ir_module_new ''m'') [''a'', ''a'']))) = [''.str.0'', ''.str.1'']
   \<and> holds_string (snd (ir_strings (ir_module_new ''m'') [''a'', ''a''])) (fst (ir_strings (ir_module_new ''m'') [''a'', ''a'']) ! 1) ''a''"
proof -
  obtain vs m where r: "ir_strings (ir_module_new ''m'') [''a'', ''a''] = (vs, m)" by fastforce
  have "length [''a'', ''a''] \<le> 2 ^ 32" by simp
  moreover have "char_of (48 :: nat) = CHR ''0''" "char_of (49 :: nat) = CHR ''1''" by code_simp+
  ultimately show ?thesis using r ir_string_constants [OF _ r] ir_strings_run [OF r]
    by (auto simp: ir_module_new_def fmt_name_dec dec_of_nat.simps digit_char_def less_Suc_eq)
qed

end
