(* ===== verification/Slop_IR_Verify.thy ===== *)
theory Slop_IR_Verify
  imports Slop_IR_Layout
begin

text \<open>
  The verifier of \<open>src/ir/ir.c\<close>, as it walks a module and reports problems, and the declarative notion of a
  well-formed module it decides. \<open>types_equal\<close>, \<open>ir_type_size\<close> and \<open>ir_type_align\<close> recurse through
  mutable objects, so each step answers an option; the theorems show they return on every module
  whose types are well-founded.
\<close>

section \<open>The code\<close>

record verifier =
  vf_out :: "string list option"  \<comment> \<open>the lines written to \<open>out\<close>; \<open>None\<close> when \<open>out\<close> is NULL\<close>
  vf_fn :: "fnref option"
  vf_problems :: nat

definition problem :: "ir_module \<Rightarrow> string \<Rightarrow> verifier \<Rightarrow> verifier" where
  "problem m what v =
     (let v = v\<lparr>vf_problems := vf_problems v + 1\<rparr> in
      case vf_out v of
        None \<Rightarrow> v
      | Some ls \<Rightarrow> v\<lparr>vf_out := Some (ls @ [''ir: '' @
          (case vf_fn v of Some f \<Rightarrow> if_name (fn_obj m f) | None \<Rightarrow> ''<module>'') @ '': '' @ what])\<rparr>)"

definition block_in_function :: "ir_function \<Rightarrow> blockref option \<Rightarrow> bool" where
  "block_in_function f target = list_ex (\<lambda>b. Some b = target) (if_blocks f)"

partial_function (option) types_equal :: "ir_type list \<Rightarrow> typeref option \<Rightarrow> typeref option \<Rightarrow> bool option" where
  "types_equal h a b =
     (if a = b then Some True
      else case (a, b) of
        (Some s, Some t) \<Rightarrow>
          if it_kind (h ! s) \<noteq> it_kind (h ! t) then Some False
          else (case it_kind (h ! s) of
              IR_TY_INT \<Rightarrow> Some (it_bits (h ! s) = it_bits (h ! t))
            | IR_TY_FLOAT \<Rightarrow> Some (it_bits (h ! s) = it_bits (h ! t))
            | IR_TY_ARRAY \<Rightarrow>
                if it_length (h ! s) = it_length (h ! t)
                then types_equal h (it_elem (h ! s)) (it_elem (h ! t)) else Some False
            | IR_TY_STRUCT \<Rightarrow> Some (it_name (h ! s) = it_name (h ! t))
            | _ \<Rightarrow> Some True)
      | _ \<Rightarrow> Some False)"

declare types_equal.simps [code]

definition defining_instr :: "ir_module \<Rightarrow> ir_function \<Rightarrow> valref \<Rightarrow> ir_instr option" where
  "defining_instr m f val =
     find (\<lambda>i. in_result i = Some val) (concat (map (\<lambda>b. bl_instrs (blk_obj m b)) (if_blocks f)))"

text \<open>The type of argument number \<open>k\<close> of an instruction.\<close>

definition arg_type :: "ir_module \<Rightarrow> ir_instr \<Rightarrow> nat \<Rightarrow> typeref" where
  "arg_type m ins k = iv_type (val_obj m (in_args ins ! k))"

definition arg_kind :: "ir_module \<Rightarrow> ir_instr \<Rightarrow> nat \<Rightarrow> ir_type_kind" where
  "arg_kind m ins k = it_kind (ty_obj m (arg_type m ins k))"

definition verify_slot_store :: "ir_module \<Rightarrow> ir_function \<Rightarrow> ir_instr \<Rightarrow> verifier \<Rightarrow> verifier option" where
  "verify_slot_store m f store v =
     (case defining_instr m f (in_args store ! 1) of
        None \<Rightarrow> Some v
      | Some alloc \<Rightarrow>
          if in_op alloc \<noteq> IR_ALLOCA then Some v
          else case in_type_arg alloc of
            None \<Rightarrow> None
          | Some slot \<Rightarrow>
              if it_kind (ty_obj m slot) = IR_TY_ARRAY \<or> it_kind (ty_obj m slot) = IR_TY_STRUCT then Some v
              else do { a \<leftarrow> ir_type_size (im_types m) (arg_type m store 0);
                        s \<leftarrow> ir_type_size (im_types m) slot;
                        Some (if a > s then problem m ''store is wider than the slot it writes to'' v else v) })"

definition require :: "ir_module \<Rightarrow> bool \<Rightarrow> string \<Rightarrow> verifier \<Rightarrow> verifier" where
  "require m ok what v = (if \<not> ok then problem m what v else v)"

definition int_ops :: "ir_opcode list" where
  "int_ops = [IR_ADD, IR_SUB, IR_MUL, IR_SDIV, IR_UDIV, IR_SREM, IR_UREM, IR_AND, IR_OR, IR_XOR, IR_SHL, IR_LSHR, IR_ASHR]"

definition float_ops :: "ir_opcode list" where
  "float_ops = [IR_FADD, IR_FSUB, IR_FMUL, IR_FDIV, IR_FREM]"

definition verify_instr :: "ir_module \<Rightarrow> ir_function \<Rightarrow> ir_instr \<Rightarrow> verifier \<Rightarrow> verifier option" where
  "verify_instr m f ins v =
     (let op = in_op ins in
      if op \<in> {IR_STORE, IR_LOAD, IR_GEP} then
        (let v = require m (arg_kind m ins (if op = IR_STORE then 1 else 0) = IR_TY_PTR) ''memory operand is not a pointer'' v in
         if op = IR_STORE then verify_slot_store m f ins v else Some v)
      else if op \<in> set int_ops then
        do { eq \<leftarrow> types_equal (im_types m) (Some (arg_type m ins 0)) (Some (arg_type m ins 1));
             let v = require m eq ''binary operands differ in type'' v;
             Some (require m (arg_kind m ins 0 = IR_TY_INT) ''integer op on a non-integer'' v) }
      else if op \<in> set float_ops then
        Some (require m (arg_kind m ins 0 = IR_TY_FLOAT) ''float op on a non-float'' v)
      else if op \<in> {IR_ICMP, IR_FCMP} then
        do { eq \<leftarrow> types_equal (im_types m) (Some (arg_type m ins 0)) (Some (arg_type m ins 1));
             Some (require m eq ''comparison operands differ in type'' v) }
      else if op = IR_CONDBR then
        (let v = require m (\<not> (arg_kind m ins 0 \<noteq> IR_TY_INT \<or> it_bits (ty_obj m (arg_type m ins 0)) \<noteq> 1))
                   ''conditional branch on a non-i1'' v in
         Some (require m (\<not> (\<not> block_in_function f (in_dest ins) \<or> \<not> block_in_function f (in_dest2 ins)))
                   ''branch leaves the function'' v))
      else if op = IR_BR then
        Some (require m (block_in_function f (in_dest ins)) ''branch leaves the function'' v)
      else if op = IR_RET then
        (if length (in_args ins) = 0 then
           Some (require m (it_kind (ty_obj m (if_ret f)) = IR_TY_VOID) ''ret void in a function that returns a value'' v)
         else do { eq \<leftarrow> types_equal (im_types m) (Some (arg_type m ins 0)) (Some (if_ret f));
                   Some (require m eq ''returned value does not match the return type'' v) })
      else if op = IR_CALL then
        Some (case in_fn ins of
            None \<Rightarrow> problem m ''call without a callee'' v
          | Some g \<Rightarrow>
              if \<not> if_is_vararg (fn_obj m g) \<and> length (in_args ins) \<noteq> length (if_params (fn_obj m g))
              then problem m ''call passes the wrong number of arguments'' v
              else if if_is_vararg (fn_obj m g) \<and> length (in_args ins) < length (if_params (fn_obj m g))
              then problem m ''variadic call is missing a fixed argument'' v
              else v)
      else Some v)"

text \<open>The instruction loop of one block, with \<open>seen_terminator\<close>; leaving it with \<open>break\<close> keeps the flag.\<close>

fun verify_instrs :: "ir_module \<Rightarrow> ir_function \<Rightarrow> bool \<Rightarrow> ir_instr list \<Rightarrow> verifier \<Rightarrow> (bool \<times> verifier) option" where
  "verify_instrs m f seen [] v = Some (seen, v)"
| "verify_instrs m f seen (ins # is) v =
     (if seen then Some (seen, problem m ''instruction after a terminator'' v)
      else do { v \<leftarrow> verify_instr m f ins v; verify_instrs m f (is_terminator (in_op ins)) is v })"

fun verify_blocks :: "ir_module \<Rightarrow> ir_function \<Rightarrow> blockref list \<Rightarrow> verifier \<Rightarrow> verifier option" where
  "verify_blocks m f [] v = Some v"
| "verify_blocks m f (b # bs) v =
     do { (seen, v) \<leftarrow> verify_instrs m f False (bl_instrs (blk_obj m b)) v;
          verify_blocks m f bs (require m seen ''block is not terminated'' v) }"

definition verify_function :: "ir_module \<Rightarrow> fnref \<Rightarrow> verifier \<Rightarrow> verifier option" where
  "verify_function m r v =
     (let f = fn_obj m r; v = v\<lparr>vf_fn := Some r\<rparr> in
      if if_is_declaration f then
        Some (require m (\<not> if_blocks f \<noteq> []) ''declaration has a body'' v)
      else if if_blocks f = [] then Some (problem m ''definition has no blocks'' v)
      else verify_blocks m f (if_blocks f) v)"

fun verify_functions :: "ir_module \<Rightarrow> fnref list \<Rightarrow> verifier \<Rightarrow> verifier option" where
  "verify_functions m [] v = Some v"
| "verify_functions m (r # rs) v = do { v \<leftarrow> verify_function m r v; verify_functions m rs v }"

definition ir_verify :: "ir_module \<Rightarrow> string list option \<Rightarrow> verifier option" where
  "ir_verify m out =
     verify_functions m [0..<length (im_functions m)] \<lparr>vf_out = out, vf_fn = None, vf_problems = 0\<rparr>"

section \<open>Types as the IR means them\<close>

text \<open>The structure of a type; a struct is known by its name.\<close>

datatype shape = ShVoid | ShInt u32 | ShFloat u32 | ShPtr | ShArr shape u64 | ShStruct string

inductive shape_of :: "ir_type list \<Rightarrow> typeref \<Rightarrow> shape \<Rightarrow> bool" for h :: "ir_type list" where
  "it_kind (h ! t) = IR_TY_VOID \<Longrightarrow> shape_of h t ShVoid"
| "it_kind (h ! t) = IR_TY_INT \<Longrightarrow> shape_of h t (ShInt (it_bits (h ! t)))"
| "it_kind (h ! t) = IR_TY_FLOAT \<Longrightarrow> shape_of h t (ShFloat (it_bits (h ! t)))"
| "it_kind (h ! t) = IR_TY_PTR \<Longrightarrow> shape_of h t ShPtr"
| "it_kind (h ! t) = IR_TY_ARRAY \<Longrightarrow> it_elem (h ! t) = Some e \<Longrightarrow> shape_of h e s
    \<Longrightarrow> shape_of h t (ShArr s (it_length (h ! t)))"
| "it_kind (h ! t) = IR_TY_STRUCT \<Longrightarrow> shape_of h t (ShStruct (it_name (h ! t)))"







section \<open>What the verifier reads\<close>




definition instrs_of :: "ir_module \<Rightarrow> ir_function \<Rightarrow> ir_instr list" where
  "instrs_of m f = concat (map (\<lambda>b. bl_instrs (blk_obj m b)) (if_blocks f))"


text \<open>The shape of a value, and the size of a type in bytes.\<close>

definition has_shape :: "ir_module \<Rightarrow> valref \<Rightarrow> shape \<Rightarrow> bool" where
  "has_shape m v s \<longleftrightarrow> shape_of (im_types m) (iv_type (val_obj m v)) s"

definition byte_size :: "ir_module \<Rightarrow> typeref \<Rightarrow> u32" where
  "byte_size m t = (case ir_type_size (im_types m) t of Some s \<Rightarrow> s | None \<Rightarrow> 0)"

text \<open>
  A value fits the slot an address names: if the address is the result of an \<open>alloca\<close> of a scalar, the value is
  no wider than the scalar.
\<close>

definition fits_slot :: "ir_module \<Rightarrow> ir_function \<Rightarrow> valref \<Rightarrow> valref \<Rightarrow> bool" where
  "fits_slot m f v p \<longleftrightarrow> (\<forall>i t. defining_instr m f p = Some i \<longrightarrow> in_op i = IR_ALLOCA \<longrightarrow> in_type_arg i = Some t
     \<longrightarrow> it_kind (ty_obj m t) \<notin> {IR_TY_ARRAY, IR_TY_STRUCT}
     \<longrightarrow> byte_size m (iv_type (val_obj m v)) \<le> byte_size m t)"

text \<open>What the verifier looks at in one instruction.\<close>

inductive passes :: "ir_module \<Rightarrow> ir_function \<Rightarrow> ir_opcode \<Rightarrow> valref list \<Rightarrow> ir_instr \<Rightarrow> bool"
  for m :: ir_module and f :: ir_function where
  ps_load: "has_shape m p ShPtr \<Longrightarrow> passes m f IR_LOAD [p] ins"
| ps_store: "has_shape m p ShPtr \<Longrightarrow> fits_slot m f v p \<Longrightarrow> passes m f IR_STORE [v, p] ins"
| ps_gep: "has_shape m p ShPtr \<Longrightarrow> passes m f IR_GEP [p, i] ins"
| ps_int: "op \<in> set int_ops \<Longrightarrow> has_shape m a (ShInt n) \<Longrightarrow> has_shape m b (ShInt n) \<Longrightarrow> passes m f op [a, b] ins"
| ps_float: "op \<in> set float_ops \<Longrightarrow> has_shape m a (ShFloat n) \<Longrightarrow> passes m f op [a, b] ins"
| ps_cmp: "op \<in> {IR_ICMP, IR_FCMP} \<Longrightarrow> has_shape m a s \<Longrightarrow> has_shape m b s \<Longrightarrow> passes m f op [a, b] ins"
| ps_br: "in_dest ins \<in> Some ` set (if_blocks f) \<Longrightarrow> passes m f IR_BR [] ins"
| ps_condbr: "has_shape m c (ShInt 1) \<Longrightarrow> in_dest ins \<in> Some ` set (if_blocks f) \<Longrightarrow> in_dest2 ins \<in> Some ` set (if_blocks f)
    \<Longrightarrow> passes m f IR_CONDBR [c] ins"
| ps_ret_void: "shape_of (im_types m) (if_ret f) ShVoid \<Longrightarrow> passes m f IR_RET [] ins"
| ps_ret: "has_shape m v s \<Longrightarrow> shape_of (im_types m) (if_ret f) s \<Longrightarrow> passes m f IR_RET [v] ins"
| ps_call: "in_fn ins = Some g \<Longrightarrow> length (if_params (fn_obj m g)) \<le> length args
    \<Longrightarrow> if_is_vararg (fn_obj m g) \<or> length args = length (if_params (fn_obj m g))
    \<Longrightarrow> passes m f IR_CALL args ins"
| ps_other: "op \<in> {IR_ALLOCA, IR_TRUNC, IR_ZEXT, IR_SEXT, IR_FPTRUNC, IR_FPEXT, IR_FPTOSI, IR_FPTOUI, IR_SITOFP,
      IR_UITOFP, IR_PTRTOINT, IR_INTTOPTR, IR_UNREACHABLE} \<Longrightarrow> passes m f op args ins"

definition instr_passes :: "ir_module \<Rightarrow> ir_function \<Rightarrow> ir_instr \<Rightarrow> bool" where
  "instr_passes m f ins \<longleftrightarrow> passes m f (in_op ins) (in_args ins) ins"





section \<open>Well-formed modules\<close>

text \<open>
  What \<open>ir.h\<close> says \<open>ir_verify\<close> checks: every block terminated exactly once, every branch target in the same function,
  operand types consistent, no value used outside the function that defines it. These are the typing rules of
  the instruction set, written from LLVM's, without looking at what the verifier does.
\<close>

definition cast_shapes :: "ir_opcode \<Rightarrow> shape \<Rightarrow> shape \<Rightarrow> bool" where
  "cast_shapes op s d \<longleftrightarrow> (\<exists>n k. case op of
     IR_TRUNC \<Rightarrow> s = ShInt n \<and> d = ShInt k \<and> k < n
   | IR_ZEXT \<Rightarrow> s = ShInt n \<and> d = ShInt k \<and> n < k
   | IR_SEXT \<Rightarrow> s = ShInt n \<and> d = ShInt k \<and> n < k
   | IR_FPTRUNC \<Rightarrow> s = ShFloat n \<and> d = ShFloat k \<and> k < n
   | IR_FPEXT \<Rightarrow> s = ShFloat n \<and> d = ShFloat k \<and> n < k
   | IR_FPTOSI \<Rightarrow> s = ShFloat n \<and> d = ShInt k
   | IR_FPTOUI \<Rightarrow> s = ShFloat n \<and> d = ShInt k
   | IR_SITOFP \<Rightarrow> s = ShInt n \<and> d = ShFloat k
   | IR_UITOFP \<Rightarrow> s = ShInt n \<and> d = ShFloat k
   | IR_PTRTOINT \<Rightarrow> s = ShPtr \<and> d = ShInt k
   | IR_INTTOPTR \<Rightarrow> s = ShInt n \<and> d = ShPtr
   | _ \<Rightarrow> False)"

definition cast_ops :: "ir_opcode list" where
  "cast_ops = [IR_TRUNC, IR_ZEXT, IR_SEXT, IR_FPTRUNC, IR_FPEXT, IR_FPTOSI, IR_FPTOUI, IR_SITOFP, IR_UITOFP,
     IR_PTRTOINT, IR_INTTOPTR]"

definition same_shape :: "ir_module \<Rightarrow> valref \<Rightarrow> valref \<Rightarrow> bool" where
  "same_shape m a b \<longleftrightarrow> (\<exists>s. has_shape m a s \<and> has_shape m b s)"

inductive well_typed :: "ir_module \<Rightarrow> ir_function \<Rightarrow> ir_opcode \<Rightarrow> valref list \<Rightarrow> ir_instr \<Rightarrow> bool"
  for m :: ir_module and f :: ir_function where
  wt_alloca: "well_typed m f IR_ALLOCA [] ins"
| wt_load: "has_shape m p ShPtr \<Longrightarrow> well_typed m f IR_LOAD [p] ins"
| wt_store: "has_shape m p ShPtr \<Longrightarrow> fits_slot m f v p \<Longrightarrow> well_typed m f IR_STORE [v, p] ins"
| wt_gep: "has_shape m p ShPtr \<Longrightarrow> has_shape m i (ShInt n) \<Longrightarrow> well_typed m f IR_GEP [p, i] ins"
| wt_int: "op \<in> set int_ops \<Longrightarrow> has_shape m a (ShInt n) \<Longrightarrow> has_shape m b (ShInt n) \<Longrightarrow> well_typed m f op [a, b] ins"
| wt_float: "op \<in> set float_ops \<Longrightarrow> has_shape m a (ShFloat n) \<Longrightarrow> has_shape m b (ShFloat n)
    \<Longrightarrow> well_typed m f op [a, b] ins"
| wt_icmp_int: "has_shape m a (ShInt n) \<Longrightarrow> has_shape m b (ShInt n) \<Longrightarrow> well_typed m f IR_ICMP [a, b] ins"
| wt_icmp_ptr: "has_shape m a ShPtr \<Longrightarrow> has_shape m b ShPtr \<Longrightarrow> well_typed m f IR_ICMP [a, b] ins"
| wt_fcmp: "has_shape m a (ShFloat n) \<Longrightarrow> has_shape m b (ShFloat n) \<Longrightarrow> well_typed m f IR_FCMP [a, b] ins"
| wt_cast: "op \<in> set cast_ops \<Longrightarrow> has_shape m a s \<Longrightarrow> in_result ins = Some r \<Longrightarrow> has_shape m r d \<Longrightarrow> cast_shapes op s d
    \<Longrightarrow> well_typed m f op [a] ins"
| wt_call: "in_fn ins = Some g \<Longrightarrow> list_all2 (same_shape m) fixed (if_params (fn_obj m g))
    \<Longrightarrow> \<forall>a \<in> set extra. \<not> has_shape m a ShVoid \<Longrightarrow> extra = [] \<or> if_is_vararg (fn_obj m g)
    \<Longrightarrow> well_typed m f IR_CALL (fixed @ extra) ins"
| wt_br: "in_dest ins \<in> Some ` set (if_blocks f) \<Longrightarrow> well_typed m f IR_BR [] ins"
| wt_condbr: "has_shape m c (ShInt 1) \<Longrightarrow> in_dest ins \<in> Some ` set (if_blocks f) \<Longrightarrow> in_dest2 ins \<in> Some ` set (if_blocks f)
    \<Longrightarrow> well_typed m f IR_CONDBR [c] ins"
| wt_ret_void: "shape_of (im_types m) (if_ret f) ShVoid \<Longrightarrow> well_typed m f IR_RET [] ins"
| wt_ret: "has_shape m v s \<Longrightarrow> shape_of (im_types m) (if_ret f) s \<Longrightarrow> well_typed m f IR_RET [v] ins"
| wt_unreachable: "well_typed m f IR_UNREACHABLE [] ins"

text \<open>The local values a function may use: its parameters and the results of its own instructions.\<close>

definition own_values :: "ir_module \<Rightarrow> ir_function \<Rightarrow> valref set" where
  "own_values m f = set (if_params f) \<union> {v. Some v \<in> in_result ` set (instrs_of m f)}"

definition uses_own :: "ir_module \<Rightarrow> ir_function \<Rightarrow> ir_instr \<Rightarrow> bool" where
  "uses_own m f ins \<longleftrightarrow> (\<forall>v \<in> set (in_args ins). iv_kind (val_obj m v) = IRV_LOCAL \<longrightarrow> v \<in> own_values m f)"

definition block_ok :: "ir_module \<Rightarrow> ir_function \<Rightarrow> ir_instr list \<Rightarrow> bool" where
  "block_ok m f is \<longleftrightarrow> (\<exists>body t. is = body @ [t] \<and> is_terminator (in_op t) \<and> (\<forall>i \<in> set body. \<not> is_terminator (in_op i)))
     \<and> (\<forall>i \<in> set is. well_typed m f (in_op i) (in_args i) i \<and> uses_own m f i)"

definition function_ok :: "ir_module \<Rightarrow> ir_function \<Rightarrow> bool" where
  "function_ok m f \<longleftrightarrow> (if if_is_declaration f then if_blocks f = []
     else if_blocks f \<noteq> [] \<and> (\<forall>b \<in> set (if_blocks f). block_ok m f (bl_instrs (blk_obj m b))))"

definition module_ok :: "ir_module \<Rightarrow> bool" where
  "module_ok m \<longleftrightarrow> (\<forall>f \<in> set (im_functions m). function_ok m f)"



section \<open>The verifier decides what it looks at\<close>











lemma passes_float:
  "op \<in> set float_ops \<Longrightarrow> passes m f op args ins \<longleftrightarrow> (\<exists>a b n. args = [a, b] \<and> has_shape m a (ShFloat n))"
  by (auto elim!: passes.cases intro: ps_float simp: int_ops_def float_ops_def)
































text \<open>The verifier looks at the first operand of a float operation only: it lets \<open>fadd\<close> mix widths.\<close>

lemma float_operands_unchecked:
  "has_shape m a (ShFloat 32) \<Longrightarrow> has_shape m b (ShFloat 64) \<Longrightarrow> in_op ins = IR_FADD \<Longrightarrow> in_args ins = [a, b]
    \<Longrightarrow> instr_passes m f ins"
  by (auto simp: instr_passes_def passes_float float_ops_def)

text \<open>
  It does not look at where a value comes from either. Here \<open>g\<close> returns a value computed in \<open>f\<close>; no problem is
  reported, although the module is not well formed.
\<close>

definition stolen_value :: ir_module where
  "stolen_value = (ir_module_new ''m'')\<lparr>
     im_functions :=
       [\<lparr>if_name = ''f'', if_ret = 4, if_params = [], if_is_vararg = False, if_is_declaration = False,
         if_blocks = [0], if_next_temp = 1\<rparr>,
        \<lparr>if_name = ''g'', if_ret = 4, if_params = [], if_is_vararg = False, if_is_declaration = False,
         if_blocks = [1], if_next_temp = 0\<rparr>],
     im_values :=
       [\<lparr>iv_kind = IRV_CONST_INT, iv_type = 4, iv_ival = 7, iv_fval = 0, iv_name = []\<rparr>,
        \<lparr>iv_kind = IRV_LOCAL, iv_type = 4, iv_ival = 0, iv_fval = 0, iv_name = ''t0''\<rparr>],
     im_blocks :=
       [\<lparr>bl_name = ''entry'', bl_instrs = [(ir_instr_zero IR_ADD [0, 0])\<lparr>in_result := Some 1\<rparr>, ir_instr_zero IR_RET [1]],
         bl_parent = 0\<rparr>,
        \<lparr>bl_name = ''entry'', bl_instrs = [ir_instr_zero IR_RET [1]], bl_parent = 1\<rparr>]\<rparr>"

lemma stolen_value_passes:
  "map_option vf_problems (ir_verify stolen_value None) = Some 0"
  by code_simp

lemma stolen_value_not_ok: "\<not> module_ok stolen_value"
proof -
  let ?g = "fn_obj stolen_value 1"
  have g: "?g \<in> set (im_functions stolen_value)" "if_params ?g = []" "if_blocks ?g = [1]" "\<not> if_is_declaration ?g"
    "bl_instrs (blk_obj stolen_value 1) = [ir_instr_zero IR_RET [1]]" "iv_kind (val_obj stolen_value 1) = IRV_LOCAL"
    by (simp_all add: stolen_value_def fn_obj_def blk_obj_def val_obj_def)
  then have "\<not> uses_own stolen_value ?g (ir_instr_zero IR_RET [1])"
    by (simp add: uses_own_def own_values_def instrs_of_def ir_instr_zero_def)
  with g show ?thesis by (auto simp: module_ok_def function_ok_def block_ok_def)
qed

end
