(* ===== verification/Slop_Emit_LLVM.thy ===== *)
theory Slop_Emit_LLVM
  imports Slop_IR
begin

text \<open>
  \<open>src/backend/backend_llvm.c\<close>: the module as textual LLVM IR, the text it writes to \<open>out\<close>. A printer that reads
  through a NULL pointer or beyond an array answers \<open>None\<close>. What both backends share comes first.
\<close>

section \<open>Text\<close>

fun cat :: "string option list \<Rightarrow> string option" where
  "cat [] = Some []"
| "cat (x # xs) = do { a \<leftarrow> x; b \<leftarrow> cat xs; Some (a @ b) }"

text \<open>The loops that print \<open>sep\<close> before every element but the first.\<close>

fun sep_list :: "string \<Rightarrow> ('a \<Rightarrow> string option) \<Rightarrow> 'a list \<Rightarrow> string option" where
  "sep_list sep f [] = Some []"
| "sep_list sep f [x] = f x"
| "sep_list sep f (x # y # xs) = cat [f x, Some sep, sep_list sep f (y # xs)]"

definition dec_of_int :: "int \<Rightarrow> string" where
  "dec_of_int i = (if i < 0 then ''-'' @ dec_of_nat (nat (- i)) else dec_of_nat (nat i))"

text \<open>\<open>%u\<close> and \<open>%PRIu64\<close>, and \<open>%PRId64\<close> of the bit pattern of an \<open>int64_t\<close>.\<close>

definition dec_word :: "'a::len word \<Rightarrow> string" where
  "dec_word w = dec_of_nat (unat w)"

definition dec_signed :: "u64 \<Rightarrow> string" where
  "dec_signed w = dec_of_int (sint w)"

text \<open>\<open>%016PRIX64\<close>.\<close>

fun hex_digits :: "nat \<Rightarrow> nat \<Rightarrow> string" where
  "hex_digits 0 n = []"
| "hex_digits (Suc k) n = hex_digits k (n div 16) @ [hex_digit_upper (n mod 16)]"

definition arg :: "ir_instr \<Rightarrow> nat \<Rightarrow> valref option" where
  "arg i k = (if k < length (in_args i) then Some (in_args i ! k) else None)"

section \<open>Types and values\<close>

partial_function (option) llvm_print_type :: "ir_type list \<Rightarrow> typeref \<Rightarrow> string option" where
  "llvm_print_type h t = (case it_kind (h ! t) of
     IR_TY_VOID \<Rightarrow> Some ''void''
   | IR_TY_INT \<Rightarrow> Some (''i'' @ dec_word (it_bits (h ! t)))
   | IR_TY_FLOAT \<Rightarrow> Some (if it_bits (h ! t) = 32 then ''float'' else ''double'')
   | IR_TY_PTR \<Rightarrow> Some ''ptr''
   | IR_TY_ARRAY \<Rightarrow> (case it_elem (h ! t) of
         None \<Rightarrow> None
       | Some e \<Rightarrow> do { s \<leftarrow> llvm_print_type h e; Some (''['' @ dec_word (it_length (h ! t)) @ '' x '' @ s @ '']'') })
   | IR_TY_STRUCT \<Rightarrow> Some (''%'' @ it_name (h ! t)))"

declare llvm_print_type.simps [code]

definition print_fp :: "ir_value \<Rightarrow> string" where
  "print_fp v = ''0x'' @ hex_digits 16 (unat (iv_fval v))"

definition llvm_print_value :: "ir_module \<Rightarrow> valref \<Rightarrow> string" where
  "llvm_print_value m r =
     (let v = val_obj m r; t = ty_obj m (iv_type v) in
      case iv_kind v of
        IRV_CONST_INT \<Rightarrow>
          if it_kind t = IR_TY_INT \<and> it_bits t = 1 then (if iv_ival v \<noteq> 0 then ''true'' else ''false'')
          else dec_signed (ir_const_signed (im_types m) v)
      | IRV_CONST_FP \<Rightarrow> print_fp v
      | IRV_CONST_NULL \<Rightarrow> ''null''
      | IRV_UNDEF \<Rightarrow> ''undef''
      | IRV_LOCAL \<Rightarrow> ''%'' @ iv_name v
      | IRV_GLOBAL \<Rightarrow> ''@'' @ iv_name v
      | IRV_FUNC \<Rightarrow> ''@'' @ iv_name v)"

definition print_typed :: "ir_module \<Rightarrow> valref \<Rightarrow> string option" where
  "print_typed m v = cat [llvm_print_type (im_types m) (iv_type (val_obj m v)), Some '' '', Some (llvm_print_value m v)]"

definition string_byte :: "char \<Rightarrow> string" where
  "string_byte c =
     (if c = CHR 0x22 \<or> c = CHR 0x5C \<or> of_char c < (0x20::nat) \<or> of_char c \<ge> (0x7F::nat)
      then CHR 0x5C # hex2_of_nat (of_char c) else [c])"

definition print_string_bytes :: "string \<Rightarrow> string" where
  "print_string_bytes s = [CHR 0x22] @ concat (map string_byte s) @ [CHR 0x5C] @ ''00'' @ [CHR 0x22]"

section \<open>Instructions\<close>

definition is_cast_op :: "ir_opcode \<Rightarrow> bool" where
  "is_cast_op op \<longleftrightarrow> op \<in> {IR_TRUNC, IR_ZEXT, IR_SEXT, IR_FPTRUNC, IR_FPEXT, IR_FPTOSI, IR_FPTOUI, IR_SITOFP,
     IR_UITOFP, IR_PTRTOINT, IR_INTTOPTR}"

definition aligned :: "ir_module \<Rightarrow> typeref option \<Rightarrow> string option" where
  "aligned m t = do { t \<leftarrow> t; a \<leftarrow> ir_type_align (im_types m) t; Some ('', align '' @ dec_word a) }"

definition label_of :: "ir_module \<Rightarrow> blockref option \<Rightarrow> string option" where
  "label_of m b = map_option (\<lambda>b. ''label %'' @ bl_name (blk_obj m b)) b"

definition llvm_instr_text :: "ir_module \<Rightarrow> ir_instr \<Rightarrow> string option" where
  "llvm_instr_text m i =
     (let ty = (\<lambda>t. do { t \<leftarrow> t; llvm_print_type (im_types m) t });
          typed = (\<lambda>k. do { v \<leftarrow> arg i k; print_typed m v });
          value = (\<lambda>k. map_option (llvm_print_value m) (arg i k)) in
      case in_op i of
        IR_ALLOCA \<Rightarrow> cat [Some ''alloca '', ty (in_type_arg i), aligned m (in_type_arg i)]
      | IR_LOAD \<Rightarrow> cat [Some ''load '', ty (in_type_arg i), Some '', '', typed 0, aligned m (in_type_arg i)]
      | IR_STORE \<Rightarrow> cat [Some ''store '', typed 0, Some '', '', typed 1, aligned m (in_type_arg i)]
      | IR_GEP \<Rightarrow> cat [Some ''getelementptr inbounds '', ty (in_type_arg i), Some '', '', typed 0,
                     Some (if in_gep i = IR_GEP_FIELD then '', i32 0, '' else '', ''), typed 1]
      | IR_CALL \<Rightarrow>
          do { f \<leftarrow> in_fn i;
               let f = fn_obj m f;
               cat [Some ''call '', llvm_print_type (im_types m) (if_ret f),
                    (if if_is_vararg f then
                       cat [Some '' ('', sep_list '', '' (\<lambda>p. llvm_print_type (im_types m) (iv_type (val_obj m p))) (if_params f),
                            Some (if if_params f \<noteq> [] then '', ...)'' else ''...)'')]
                     else Some []),
                    Some ('' @'' @ if_name f @ ''(''), sep_list '', '' (print_typed m) (in_args i), Some '')''] }
      | IR_RET \<Rightarrow> if in_args i = [] then Some ''ret void'' else cat [Some ''ret '', typed 0]
      | IR_BR \<Rightarrow> cat [Some ''br '', label_of m (in_dest i)]
      | IR_CONDBR \<Rightarrow> cat [Some ''br '', typed 0, Some '', '', label_of m (in_dest i), Some '', '', label_of m (in_dest2 i)]
      | IR_UNREACHABLE \<Rightarrow> Some ''unreachable''
      | op \<Rightarrow>
          if op = IR_ICMP \<or> op = IR_FCMP then
            cat [Some (ir_opcode_name op @ '' '' @ ir_pred_name (in_pred i) @ '' ''), typed 0, Some '', '', value 1]
          else if is_cast_op op then
            cat [Some (ir_opcode_name op @ '' ''), typed 0, Some '' to '',
                 do { r \<leftarrow> in_result i; llvm_print_type (im_types m) (iv_type (val_obj m r)) }]
          else cat [Some (ir_opcode_name op @ '' ''), typed 0, Some '', '', value 1])"

definition llvm_print_instr :: "ir_module \<Rightarrow> ir_instr \<Rightarrow> string option" where
  "llvm_print_instr m i =
     cat [Some ''  '', Some (case in_result i of Some r \<Rightarrow> ''%'' @ iv_name (val_obj m r) @ '' = '' | None \<Rightarrow> []),
          llvm_instr_text m i, Some [CHR 0x0A]]"

section \<open>The module\<close>

definition llvm_print_signature :: "ir_module \<Rightarrow> ir_function \<Rightarrow> string option" where
  "llvm_print_signature m f =
     cat [llvm_print_type (im_types m) (if_ret f), Some ('' @'' @ if_name f @ ''(''),
          sep_list '', '' (\<lambda>p. cat [llvm_print_type (im_types m) (iv_type (val_obj m p)),
              Some (if \<not> if_is_declaration f then '' %'' @ iv_name (val_obj m p) else [])]) (if_params f),
          Some (if if_is_vararg f then (if if_params f \<noteq> [] then '', ...'' else ''...'') else []), Some '')'']"

definition llvm_struct :: "ir_module \<Rightarrow> typeref \<Rightarrow> string option" where
  "llvm_struct m t =
     (let st = ty_obj m t in
      cat [Some (''%'' @ it_name st @ '' = type { ''), sep_list '', '' (llvm_print_type (im_types m)) (it_fields st),
           Some ((if it_fields st \<noteq> [] then '' }'' else ''}'') @ [CHR 0x0A])])"

definition llvm_global :: "ir_module \<Rightarrow> ir_global \<Rightarrow> string option" where
  "llvm_global m g =
     (if ig_is_external g then
        cat [Some (''@'' @ ig_name g @ '' = external global ''), llvm_print_type (im_types m) (ig_type g), Some [CHR 0x0A]]
      else
        cat [Some (''@'' @ ig_name g @ '' = '' @ (if ig_is_private g then ''private unnamed_addr '' else [])
                @ (if ig_is_const g then ''constant '' else ''global '')),
             llvm_print_type (im_types m) (ig_type g), Some '' '',
             Some (case ig_str g of
                 Some str \<Rightarrow> ''c'' @ print_string_bytes (take (unat (ig_strlen g)) str)
               | None \<Rightarrow> (case ig_init g of Some v \<Rightarrow> llvm_print_value m v | None \<Rightarrow> ''zeroinitializer'')),
             aligned m (Some (ig_type g)), Some [CHR 0x0A]])"

definition llvm_block :: "ir_module \<Rightarrow> blockref \<Rightarrow> string option" where
  "llvm_block m b =
     cat [Some (bl_name (blk_obj m b) @ '':'' @ [CHR 0x0A]), cat (map (llvm_print_instr m) (bl_instrs (blk_obj m b)))]"

definition llvm_declare :: "ir_module \<Rightarrow> ir_function \<Rightarrow> string option" where
  "llvm_declare m f =
     (if \<not> if_is_declaration f then Some []
      else cat [Some ([CHR 0x0A] @ ''declare ''), llvm_print_signature m f, Some [CHR 0x0A]])"

definition llvm_define :: "ir_module \<Rightarrow> ir_function \<Rightarrow> string option" where
  "llvm_define m f =
     (if if_is_declaration f then Some []
      else cat [Some ([CHR 0x0A] @ ''define ''), llvm_print_signature m f, Some ('' {'' @ [CHR 0x0A]),
                cat (map (llvm_block m) (if_blocks f)), Some (''}'' @ [CHR 0x0A])])"

definition llvm_emit :: "ir_module \<Rightarrow> (nat \<times> string) option" where
  "llvm_emit m =
     do { s \<leftarrow> cat [
            Some (''; ModuleID = '' @ [CHR 0x27] @ im_name m @ [CHR 0x27, CHR 0x0A]),
            Some (''source_filename = '' @ [CHR 0x22] @ im_name m @ [CHR 0x22, CHR 0x0A]),
            (if im_structs m \<noteq> [] then cat (Some [CHR 0x0A] # map (llvm_struct m) (im_structs m)) else Some []),
            Some (if im_globals m \<noteq> [] then [CHR 0x0A] else []),
            cat (map (llvm_global m) (im_globals m)),
            cat (map (llvm_declare m) (im_functions m)),
            cat (map (llvm_define m) (im_functions m))];
          Some (0, s) }"

end
