(* ===== verification/Slop_Emit_C.thy ===== *)
theory Slop_Emit_C
  imports Slop_Emit_LLVM
begin

text \<open>
  \<open>src/backend/backend_c.c\<close>: the module as C99, as the text written to \<open>out\<close> and the number of problems.
  How \<open>printf\<close> writes a double with \<open>%.17g\<close> is the parameter \<open>fmt17\<close>. NULL for \<open>%s\<close> is undefined in C, and \<open>None\<close> here.
\<close>

section \<open>Names and types\<close>

definition global_needs_addressof :: "ir_module \<Rightarrow> string \<Rightarrow> bool" where
  "global_needs_addressof m name = (case find (\<lambda>g. ig_name g = name) (im_globals m) of
     Some g \<Rightarrow> ig_str g = None \<and> it_kind (ty_obj m (ig_type g)) \<noteq> IR_TY_ARRAY \<and> it_kind (ty_obj m (ig_type g)) \<noteq> IR_TY_STRUCT
   | None \<Rightarrow> False)"

definition ident_char :: "char \<Rightarrow> char" where
  "ident_char c =
     (let n = of_char c :: nat in
      if (97 \<le> n \<and> n \<le> 122) \<or> (65 \<le> n \<and> n \<le> 90) \<or> (48 \<le> n \<and> n \<le> 57) \<or> c = CHR ''_'' then c else CHR ''_'')"

definition print_ident :: "string \<Rightarrow> string" where
  "print_ident name = map ident_char name"

definition scalar_type :: "ir_type \<Rightarrow> string option" where
  "scalar_type t = (case it_kind t of
     IR_TY_VOID \<Rightarrow> Some ''void''
   | IR_TY_PTR \<Rightarrow> Some ''void *''
   | IR_TY_FLOAT \<Rightarrow> Some (if it_bits t = 32 then ''float'' else ''double'')
   | IR_TY_INT \<Rightarrow> Some (if it_bits t = 1 then ''_Bool'' else if it_bits t = 8 then ''int8_t''
                      else if it_bits t = 32 then ''int32_t'' else ''int64_t'')
   | _ \<Rightarrow> None)"

definition unsigned_type :: "ir_type \<Rightarrow> string" where
  "unsigned_type t =
     (if it_kind t \<noteq> IR_TY_INT then ''uint64_t''
      else if it_bits t = 1 then ''_Bool'' else if it_bits t = 8 then ''uint8_t''
      else if it_bits t = 32 then ''uint32_t'' else ''uint64_t'')"

definition print_value_m :: "(u64 \<Rightarrow> string) \<Rightarrow> ir_module \<Rightarrow> valref \<Rightarrow> string" where
  "print_value_m fmt17 m r =
     (let v = val_obj m r; t = ty_obj m (iv_type v) in
      case iv_kind v of
        IRV_CONST_INT \<Rightarrow>
          if it_kind t = IR_TY_INT \<and> it_bits t = 64
          then ''INT64_C('' @ dec_signed (ir_const_signed (im_types m) v) @ '')''
          else dec_signed (ir_const_signed (im_types m) v)
      | IRV_CONST_FP \<Rightarrow> fmt17 (iv_fval v)
      | IRV_CONST_NULL \<Rightarrow> ''NULL''
      | IRV_UNDEF \<Rightarrow> ''0''
      | IRV_GLOBAL \<Rightarrow> (if global_needs_addressof m (iv_name v) then ''&'' else []) @ print_ident (iv_name v)
      | IRV_LOCAL \<Rightarrow> print_ident (iv_name v)
      | IRV_FUNC \<Rightarrow> print_ident (iv_name v))"

text \<open>The loop of \<open>field_offset\<close> over the fields before \<open>n\<close>, then the alignment of field \<open>n\<close>.\<close>

fun field_offset_from :: "ir_type list \<Rightarrow> typeref list \<Rightarrow> nat \<Rightarrow> u32 \<Rightarrow> u32 option" where
  "field_offset_from h [] n off = Some off"
| "field_offset_from h (t # ts) 0 off = do { a \<leftarrow> ir_type_align h t; Some ((off + a - 1) AND NOT (a - 1)) }"
| "field_offset_from h (t # ts) (Suc n) off =
     do { a \<leftarrow> ir_type_align h t;
          s \<leftarrow> ir_type_size h t;
          field_offset_from h ts n (((off + a - 1) AND NOT (a - 1)) + s) }"

definition field_offset :: "ir_type list \<Rightarrow> typeref \<Rightarrow> u32 \<Rightarrow> u32 option" where
  "field_offset h st fld = field_offset_from h (it_fields (h ! st)) (unat fld) 0"

section \<open>Operators\<close>

definition is_unsigned_op :: "ir_opcode \<Rightarrow> bool" where
  "is_unsigned_op op \<longleftrightarrow> op = IR_UDIV \<or> op = IR_UREM \<or> op = IR_LSHR"

definition is_unsigned_pred :: "ir_pred \<Rightarrow> bool" where
  "is_unsigned_pred p \<longleftrightarrow> p = IR_ICMP_ULT \<or> p = IR_ICMP_ULE \<or> p = IR_ICMP_UGT \<or> p = IR_ICMP_UGE"

definition binary_operator :: "ir_opcode \<Rightarrow> string option" where
  "binary_operator op = (case op of
     IR_ADD \<Rightarrow> Some ''+'' | IR_FADD \<Rightarrow> Some ''+'' | IR_SUB \<Rightarrow> Some ''-'' | IR_FSUB \<Rightarrow> Some ''-''
   | IR_MUL \<Rightarrow> Some ''*'' | IR_FMUL \<Rightarrow> Some ''*''
   | IR_SDIV \<Rightarrow> Some ''/'' | IR_UDIV \<Rightarrow> Some ''/'' | IR_FDIV \<Rightarrow> Some ''/''
   | IR_SREM \<Rightarrow> Some ''%'' | IR_UREM \<Rightarrow> Some ''%'' | IR_FREM \<Rightarrow> Some ''%''
   | IR_AND \<Rightarrow> Some ''&'' | IR_OR \<Rightarrow> Some ''|'' | IR_XOR \<Rightarrow> Some ''^'' | IR_SHL \<Rightarrow> Some ''<<''
   | IR_LSHR \<Rightarrow> Some ''>>'' | IR_ASHR \<Rightarrow> Some ''>>'' | _ \<Rightarrow> None)"

definition pred_operator :: "ir_pred \<Rightarrow> string" where
  "pred_operator p = (case p of
     IR_ICMP_EQ \<Rightarrow> ''=='' | IR_FCMP_OEQ \<Rightarrow> ''=='' | IR_ICMP_NE \<Rightarrow> ''!='' | IR_FCMP_ONE \<Rightarrow> ''!=''
   | IR_ICMP_SLT \<Rightarrow> ''<'' | IR_ICMP_ULT \<Rightarrow> ''<'' | IR_FCMP_OLT \<Rightarrow> ''<''
   | IR_ICMP_SLE \<Rightarrow> ''<='' | IR_ICMP_ULE \<Rightarrow> ''<='' | IR_FCMP_OLE \<Rightarrow> ''<=''
   | IR_ICMP_SGT \<Rightarrow> ''>'' | IR_ICMP_UGT \<Rightarrow> ''>'' | IR_FCMP_OGT \<Rightarrow> ''>''
   | IR_ICMP_SGE \<Rightarrow> ''>='' | IR_ICMP_UGE \<Rightarrow> ''>='' | IR_FCMP_OGE \<Rightarrow> ''>='')"

section \<open>Instructions\<close>

text \<open>A text with the number of problems.\<close>

definition unsupported :: "string \<Rightarrow> (nat \<times> string) option" where
  "unsupported what = Some (1, ''#error slop C backend: '' @ what @ [CHR 0x0A])"

definition fine :: "string option list \<Rightarrow> (nat \<times> string) option" where
  "fine xs = map_option (Pair 0) (cat xs)"

fun cat_all :: "(nat \<times> string) option list \<Rightarrow> (nat \<times> string) option" where
  "cat_all [] = Some (0, [])"
| "cat_all (x # xs) = do { (n, a) \<leftarrow> x; (k, b) \<leftarrow> cat_all xs; Some (n + k, a @ b) }"

definition nl :: string where "nl = '';'' @ [CHR 0x0A]"

text \<open>An operand, the result's name, its C type, and the cast that makes an operand unsigned.\<close>

definition c_arg :: "(u64 \<Rightarrow> string) \<Rightarrow> ir_module \<Rightarrow> ir_instr \<Rightarrow> nat \<Rightarrow> string option" where
  "c_arg fmt17 m i k = map_option (print_value_m fmt17 m) (arg i k)"

definition c_result :: "ir_module \<Rightarrow> ir_instr \<Rightarrow> string option" where
  "c_result m i = map_option (\<lambda>r. print_ident (iv_name (val_obj m r))) (in_result i)"

definition c_result_ty :: "ir_module \<Rightarrow> ir_instr \<Rightarrow> string option" where
  "c_result_ty m i = do { r \<leftarrow> in_result i; scalar_type (ty_obj m (iv_type (val_obj m r))) }"

definition c_unsigned :: "ir_module \<Rightarrow> ir_instr \<Rightarrow> nat \<Rightarrow> string option" where
  "c_unsigned m i k = map_option (\<lambda>v. ''('' @ unsigned_type (ty_obj m (iv_type (val_obj m v))) @ '')'') (arg i k)"

definition c_block_name :: "ir_module \<Rightarrow> blockref option \<Rightarrow> string option" where
  "c_block_name m b = map_option (\<lambda>b. print_ident (bl_name (blk_obj m b))) b"

definition c_compare_text :: "(u64 \<Rightarrow> string) \<Rightarrow> ir_module \<Rightarrow> ir_instr \<Rightarrow> (nat \<times> string) option" where
  "c_compare_text fmt17 m i =
     (let cast = (\<lambda>k. if in_op i = IR_ICMP \<and> is_unsigned_pred (in_pred i) then c_unsigned m i k else Some []) in
      fine [c_result m i, Some '' = ('', cast 0, c_arg fmt17 m i 0, Some ('' '' @ pred_operator (in_pred i) @ '' ''), cast 1,
            c_arg fmt17 m i 1, Some ('')'' @ nl)])"

text \<open>A conversion, or None for an operation that is not one.\<close>

definition c_cast_text :: "(u64 \<Rightarrow> string) \<Rightarrow> ir_module \<Rightarrow> ir_instr \<Rightarrow> (nat \<times> string) option option" where
  "c_cast_text fmt17 m i =
     (if in_op i \<in> {IR_TRUNC, IR_SEXT, IR_FPTRUNC, IR_FPEXT, IR_FPTOSI, IR_SITOFP} then
        Some (fine [c_result m i, Some '' = ('', c_result_ty m i, Some '')'', c_arg fmt17 m i 0, Some nl])
      else if in_op i \<in> {IR_ZEXT, IR_FPTOUI, IR_UITOFP} then
        Some (fine [c_result m i, Some '' = ('', c_result_ty m i, Some '')'', c_unsigned m i 0, c_arg fmt17 m i 0, Some nl])
      else if in_op i = IR_PTRTOINT then
        Some (fine [c_result m i, Some '' = ('', c_result_ty m i, Some '')(uintptr_t)'', c_arg fmt17 m i 0, Some nl])
      else if in_op i = IR_INTTOPTR then
        Some (fine [c_result m i, Some '' = (void *)(uintptr_t)'', c_arg fmt17 m i 0, Some nl])
      else None)"

definition c_binary_text :: "(u64 \<Rightarrow> string) \<Rightarrow> ir_module \<Rightarrow> ir_instr \<Rightarrow> (nat \<times> string) option" where
  "c_binary_text fmt17 m i = (case binary_operator (in_op i) of
     None \<Rightarrow> unsupported ''unhandled opcode''
   | Some cop \<Rightarrow>
       if is_unsigned_op (in_op i) then
         fine [c_result m i, Some '' = ('', c_result_ty m i, Some '')('', c_unsigned m i 0, c_arg fmt17 m i 0,
               Some ('' '' @ cop @ '' ''), c_unsigned m i 1, c_arg fmt17 m i 1, Some ('')'' @ nl)]
       else fine [c_result m i, Some '' = '', c_arg fmt17 m i 0, Some ('' '' @ cop @ '' ''), c_arg fmt17 m i 1, Some nl])"

definition c_instr_text :: "(u64 \<Rightarrow> string) \<Rightarrow> ir_module \<Rightarrow> ir_instr \<Rightarrow> (nat \<times> string) option" where
  "c_instr_text fmt17 m i =
     (let value = c_arg fmt17 m i; result = c_result m i in
      case in_op i of
        IR_ALLOCA \<Rightarrow> fine [result, Some '' = &storage_'', result, Some nl]
      | IR_LOAD \<Rightarrow>
          do { t \<leftarrow> in_type_arg i;
               case scalar_type (ty_obj m t) of
                 None \<Rightarrow> unsupported ''load of an aggregate; lowering should emit a memcpy''
               | Some ct \<Rightarrow> fine [result, Some ('' = *('' @ ct @ '' *)''), value 0, Some nl] }
      | IR_STORE \<Rightarrow>
          do { t \<leftarrow> in_type_arg i;
               case scalar_type (ty_obj m t) of
                 None \<Rightarrow> unsupported ''store of an aggregate; lowering should emit a memcpy''
               | Some ct \<Rightarrow> fine [Some (''*('' @ ct @ '' *)''), value 1, Some '' = '', value 0, Some nl] }
      | IR_GEP \<Rightarrow>
          (if in_gep i = IR_GEP_FIELD then
             fine [result, Some '' = (char *)'', value 0,
               do { t \<leftarrow> in_type_arg i; v \<leftarrow> arg i 1; off \<leftarrow> field_offset (im_types m) t (ucast (iv_ival (val_obj m v)));
                    Some ('' + '' @ dec_word off @ nl) }]
           else
             fine [result, Some '' = (char *)'', value 0,
               do { t \<leftarrow> in_type_arg i; s \<leftarrow> ir_type_size (im_types m) t; Some ('' + ('' @ dec_word s @ '' * (int64_t)'') },
               value 1, Some ('')'' @ nl)])
      | IR_CALL \<Rightarrow>
          do { f \<leftarrow> in_fn i;
               fine [(if in_result i \<noteq> None then cat [result, Some '' = ''] else Some []),
                     Some (print_ident (if_name (fn_obj m f)) @ ''(''),
                     sep_list '', '' (\<lambda>v. Some (print_value_m fmt17 m v)) (in_args i), Some ('')'' @ nl)] }
      | IR_RET \<Rightarrow> if in_args i = [] then fine [Some (''return'' @ nl)] else fine [Some ''return '', value 0, Some nl]
      | IR_BR \<Rightarrow> fine [Some ''goto '', c_block_name m (in_dest i), Some nl]
      | IR_CONDBR \<Rightarrow>
          fine [Some ''if ('', value 0, Some '') goto '', c_block_name m (in_dest i), Some ''; else goto '',
                c_block_name m (in_dest2 i), Some nl]
      | IR_UNREACHABLE \<Rightarrow> fine [Some (''/* unreachable */'' @ nl)]
      | op \<Rightarrow>
          if op = IR_ICMP \<or> op = IR_FCMP then c_compare_text fmt17 m i
          else (case c_cast_text fmt17 m i of Some r \<Rightarrow> r | None \<Rightarrow> c_binary_text fmt17 m i))"

definition c_print_instr :: "(u64 \<Rightarrow> string) \<Rightarrow> ir_module \<Rightarrow> ir_instr \<Rightarrow> (nat \<times> string) option" where
  "c_print_instr fmt17 m i = cat_all [Some (0, ''    ''), c_instr_text fmt17 m i]"

section \<open>Functions\<close>

definition type_text :: "ir_module \<Rightarrow> typeref \<Rightarrow> string option" where
  "type_text m t = scalar_type (ty_obj m t)"

definition c_print_signature :: "ir_module \<Rightarrow> ir_function \<Rightarrow> string option" where
  "c_print_signature m f =
     cat [type_text m (if_ret f), Some ('' '' @ print_ident (if_name f) @ ''(''),
          Some (if if_params f = [] \<and> \<not> if_is_vararg f then ''void'' else []),
          sep_list '', '' (\<lambda>p. cat [type_text m (iv_type (val_obj m p)), Some ('' '' @ print_ident (iv_name (val_obj m p)))])
            (if_params f),
          Some (if if_is_vararg f then (if if_params f \<noteq> [] then '', ...'' else ''...'') else []), Some '')'']"

definition fn_instrs :: "ir_module \<Rightarrow> ir_function \<Rightarrow> ir_instr list" where
  "fn_instrs m f = concat (map (\<lambda>b. bl_instrs (blk_obj m b)) (if_blocks f))"

definition value_is_used :: "ir_module \<Rightarrow> ir_function \<Rightarrow> valref \<Rightarrow> bool" where
  "value_is_used m f v = list_ex (\<lambda>i. v \<in> set (in_args i)) (fn_instrs m f)"

definition block_is_target :: "ir_module \<Rightarrow> ir_function \<Rightarrow> blockref \<Rightarrow> bool" where
  "block_is_target m f b = list_ex (\<lambda>i. in_dest i = Some b \<or> in_dest2 i = Some b) (fn_instrs m f)"

definition or_void_ptr :: "string option \<Rightarrow> string" where
  "or_void_ptr ct = (case ct of Some s \<Rightarrow> s | None \<Rightarrow> ''void *'')"

text \<open>The declarations for one instruction.\<close>

definition c_declare :: "ir_module \<Rightarrow> ir_instr \<Rightarrow> string option" where
  "c_declare m i =
     cat [(if in_op i = IR_ALLOCA then
             do { t \<leftarrow> in_type_arg i;
                  sz \<leftarrow> ir_type_size (im_types m) t;
                  r \<leftarrow> in_result i;
                  let slots = (sz + 7) div 8;
                  Some (''    uint64_t storage_'' @ print_ident (iv_name (val_obj m r)) @ ''[''
                    @ dec_word (if slots \<noteq> 0 then slots else 1) @ '']'' @ nl) }
           else Some []),
          Some (case in_result i of
              Some r \<Rightarrow> ''    '' @ or_void_ptr (type_text m (iv_type (val_obj m r))) @ '' '' @ print_ident (iv_name (val_obj m r)) @ nl
            | None \<Rightarrow> [])]"

definition c_body_instr :: "(u64 \<Rightarrow> string) \<Rightarrow> ir_module \<Rightarrow> ir_function \<Rightarrow> ir_instr \<Rightarrow> (nat \<times> string) option" where
  "c_body_instr fmt17 m f i =
     cat_all [c_print_instr fmt17 m i,
       Some (0, case in_result i of
           Some r \<Rightarrow> if \<not> value_is_used m f r then ''    (void)'' @ print_ident (iv_name (val_obj m r)) @ nl else []
         | None \<Rightarrow> [])]"

definition c_block :: "(u64 \<Rightarrow> string) \<Rightarrow> ir_module \<Rightarrow> ir_function \<Rightarrow> blockref \<Rightarrow> (nat \<times> string) option" where
  "c_block fmt17 m f b =
     cat_all (Some (0, if block_is_target m f b then print_ident (bl_name (blk_obj m b)) @ '':'' @ nl else [])
       # map (c_body_instr fmt17 m f) (bl_instrs (blk_obj m b)))"

definition print_body :: "(u64 \<Rightarrow> string) \<Rightarrow> ir_module \<Rightarrow> ir_function \<Rightarrow> (nat \<times> string) option" where
  "print_body fmt17 m f =
     cat_all (fine (map (c_declare m) (fn_instrs m f)) # map (c_block fmt17 m f) (if_blocks f))"

section \<open>The module\<close>

fun c_fields :: "ir_module \<Rightarrow> nat \<Rightarrow> typeref list \<Rightarrow> string" where
  "c_fields m j [] = []"
| "c_fields m j (t # ts) = '' '' @ or_void_ptr (type_text m t) @ '' f'' @ dec_of_nat j @ '';'' @ c_fields m (j + 1) ts"

definition c_struct :: "ir_module \<Rightarrow> typeref \<Rightarrow> string" where
  "c_struct m t = ''struct '' @ print_ident (it_name (ty_obj m t)) @ '' {'' @ c_fields m 0 (it_fields (ty_obj m t)) @ '' }'' @ nl"

definition c_string_byte :: "char \<Rightarrow> string" where
  "c_string_byte c =
     (if c = CHR 0x22 \<or> c = CHR 0x5C then [CHR 0x5C, c]
      else if (0x20::nat) \<le> of_char c \<and> of_char c < (0x7F::nat) then [c]
      else CHR 0x5C # CHR ''x'' # hex2_of_nat (of_char c))"

definition c_global :: "(u64 \<Rightarrow> string) \<Rightarrow> ir_module \<Rightarrow> ir_global \<Rightarrow> string option" where
  "c_global fmt17 m g = (case ig_str g of
     Some str \<Rightarrow>
       Some (''static char '' @ print_ident (ig_name g) @ ''[] = '' @ [CHR 0x22]
         @ concat (map c_string_byte (take (unat (ig_strlen g)) str)) @ [CHR 0x22] @ nl)
   | None \<Rightarrow>
       cat [Some (if ig_is_external g then ''extern '' else []),
            (case type_text m (ig_type g) of
               Some ct \<Rightarrow> Some (ct @ '' '' @ print_ident (ig_name g))
             | None \<Rightarrow> do { sz \<leftarrow> ir_type_size (im_types m) (ig_type g);
                           Some (''uint64_t '' @ print_ident (ig_name g) @ ''['' @ dec_word ((sz + 7) div 8) @ '']'') }),
            Some (case ig_init g of
                Some v \<Rightarrow> if \<not> ig_is_external g \<and> type_text m (ig_type g) \<noteq> None
                         then '' = '' @ print_value_m fmt17 m v else []
              | None \<Rightarrow> []),
            Some nl])"

definition c_define :: "(u64 \<Rightarrow> string) \<Rightarrow> ir_module \<Rightarrow> ir_function \<Rightarrow> (nat \<times> string) option" where
  "c_define fmt17 m f =
     (if if_is_declaration f then Some (0, [])
      else cat_all [fine [Some [CHR 0x0A], c_print_signature m f, Some ('' {'' @ [CHR 0x0A])],
                    print_body fmt17 m f, Some (0, ''}'' @ [CHR 0x0A])])"

definition c_emit :: "(u64 \<Rightarrow> string) \<Rightarrow> ir_module \<Rightarrow> (nat \<times> string) option" where
  "c_emit fmt17 m =
     cat_all
      ([fine [Some (''/* generated from '' @ im_name m @ '' by the slop C backend */'' @ [CHR 0x0A]
                 @ ''#include <stdint.h>'' @ [CHR 0x0A] @ ''#include <stddef.h>'' @ [CHR 0x0A, CHR 0x0A]),
              Some (concat (map (c_struct m) (im_structs m))),
              Some (if im_structs m \<noteq> [] then [CHR 0x0A] else []),
              cat (map (c_global fmt17 m) (im_globals m)),
              Some (if im_globals m \<noteq> [] then [CHR 0x0A] else []),
              cat (map (\<lambda>f. cat [c_print_signature m f, Some nl]) (im_functions m))]]
       @ map (c_define fmt17 m) (im_functions m))"

end
