(* ===== verification/Slop_Driver.thy ===== *)
theory Slop_Driver
  imports Slop_Front_End Slop_Ast_Dump Slop_Sema_Stmt Slop_Lower_Stmt Slop_IR_Verify Slop_Emit_C
begin

text \<open>
  \<open>src/driver/\<close> and \<open>src/backend/backend.c\<close>: the token listing, the table of backends, and the two ways
  the command line runs the passes. What a run does outside is its exit status, the bytes on stdout and
  the lines on stderr. Parameters, bundled in the record \<open>host\<close>: the file system (the bytes of a path, or
  None when it cannot be opened), strtod, and how printf writes a double with \<open>%g\<close> and with \<open>%.17g\<close>.
  That an opened file cannot be sized or memory runs out is left out, as is \<open>calloc\<close> of no bytes giving NULL.
\<close>

section \<open>\<open>backend.c\<close>\<close>

text \<open>A backend's \<open>emit\<close> gives its return value and the text it writes.\<close>

record backend =
  be_name :: string
  be_description :: string
  be_extension :: string
  be_emit :: "ir_module \<Rightarrow> (nat \<times> string) option"

definition backend_llvm :: backend where
  "backend_llvm = \<lparr>be_name = ''llvm'', be_description = ''textual LLVM IR, for llc/clang/opt/lli'',
     be_extension = ''.ll'', be_emit = llvm_emit\<rparr>"

definition backend_c :: "(u64 \<Rightarrow> string) \<Rightarrow> backend" where
  "backend_c fmt17 = \<lparr>be_name = ''c'', be_description = ''C99 source, for bootstrapping without LLVM'',
     be_extension = ''.c'', be_emit = c_emit fmt17\<rparr>"

definition backends :: "(u64 \<Rightarrow> string) \<Rightarrow> backend list" where
  "backends fmt17 = [backend_llvm, backend_c fmt17]"

text \<open>The loop of \<open>backend_find\<close> over the entries from an index on.\<close>

fun find_from :: "string \<Rightarrow> backend list \<Rightarrow> backend option" where
  "find_from name [] = None"
| "find_from name (b # bs) = (if be_name b = name then Some b else find_from name bs)"

definition backend_find :: "(u64 \<Rightarrow> string) \<Rightarrow> string \<Rightarrow> backend option" where
  "backend_find fmt17 name = find_from name (backends fmt17)"

definition backend_default :: "(u64 \<Rightarrow> string) \<Rightarrow> backend" where
  "backend_default fmt17 = backends fmt17 ! 0"

definition backend_count :: "(u64 \<Rightarrow> string) \<Rightarrow> nat" where
  "backend_count fmt17 = length (backends fmt17)"

definition backend_at :: "(u64 \<Rightarrow> string) \<Rightarrow> nat \<Rightarrow> backend option" where
  "backend_at fmt17 i = (if i < backend_count fmt17 then Some (backends fmt17 ! i) else None)"

text \<open>\<open>%-ns\<close> and \<open>%nd\<close>: padding on the right and on the left.\<close>

definition pad_right :: "nat \<Rightarrow> string \<Rightarrow> string" where
  "pad_right n s = s @ replicate (n - length s) (CHR '' '')"

definition pad_left :: "nat \<Rightarrow> string \<Rightarrow> string" where
  "pad_left n s = replicate (n - length s) (CHR '' '') @ s"

fun backend_line :: "nat \<times> backend \<Rightarrow> string" where
  "backend_line (i, b) = ''  '' @ pad_right 6 (be_name b) @ '' '' @ pad_right 10 (be_extension b) @ '' ''
     @ be_description b @ (if i = 0 then '' (default)'' else [])"

definition backend_list :: "(u64 \<Rightarrow> string) \<Rightarrow> string list" where
  "backend_list fmt17 = map backend_line (enumerate 0 (backends fmt17))"

section \<open>\<open>token_dump.c\<close>\<close>

definition print_escaped :: "string \<Rightarrow> string" where
  "print_escaped s = concat (map (\<lambda>c.
     (if c = newline then [CHR 0x5C, CHR ''n'']
      else if c = CHR 0x0D then [CHR 0x5C, CHR ''r'']
      else if c = CHR 0x09 then [CHR 0x5C, CHR ''t'']
      else if c = CHR 0x00 then [CHR 0x5C, CHR ''0'']
      else if c = CHR 0x5C then [CHR 0x5C, CHR 0x5C]
      else if c = CHR 0x22 then [CHR 0x5C, CHR 0x22]
      else if 0x20 \<le> code c \<and> code c < 0x7F then [c]
      else [CHR 0x5C, CHR ''x''] @ hex2_of_nat (code c))) s)"

text \<open>A \<open>%s\<close> or \<open>%.*s\<close> stops at a NUL.\<close>

definition c_str :: "string \<Rightarrow> string" where
  "c_str s = takeWhile (\<lambda>c. c \<noteq> CHR 0x00) s"

text \<open>The listing line of one token: what goes to stdout and what goes to stderr.\<close>

definition token_dump :: "(u64 \<Rightarrow> string) \<Rightarrow> string \<Rightarrow> token \<Rightarrow> string \<times> string list" where
  "token_dump fmt_g name t =
     (let at = dec_of_nat (tk_line t); col = dec_of_nat (tk_col t); spelled = c_str (tk_text t) in
      case (tk_kind t, tk_val t) of
        (Special TOK_ERROR, Err e) \<Rightarrow> ([], [name @ '':'' @ at @ '':'' @ col @ '': error: '' @ c_str e])
      | (k, v) \<Rightarrow>
          (pad_left 4 at @ '':'' @ pad_right 3 col @ '' '' @ pad_right 16 (token_kind_name k) @ '' ''
             @ (case (k, v) of
                  (Special TOK_EOF, _) \<Rightarrow> []
                | (Special TOK_INT, Ival n) \<Rightarrow> spelled @ ''  = '' @ dec_of_nat (unat n)
                | (Special TOK_FLOAT, Fval f) \<Rightarrow> spelled @ ''  = '' @ fmt_g f
                | (Special TOK_CHAR, Ival n) \<Rightarrow> spelled @ ''  = '' @ dec_of_nat (unat n)
                | (Special TOK_STRING, Str b) \<Rightarrow> spelled @ ''  = '' @ [CHR 0x22] @ print_escaped b @ [CHR 0x22]
                    @ '' ('' @ dec_of_nat (length b) @ '' bytes)''
                | _ \<Rightarrow> spelled)
             @ [newline], []))"

section \<open>\<open>main.c\<close>\<close>

record host =
  ho_files :: "string \<Rightarrow> string option"
  ho_strtod :: "string \<Rightarrow> u64"
  ho_g :: "u64 \<Rightarrow> string"
  ho_g17 :: "u64 \<Rightarrow> string"

record outcome =
  oc_status :: nat
  oc_out :: string
  oc_err :: "string list"

definition source_file_read :: "host \<Rightarrow> string \<Rightarrow> string option \<times> string list" where
  "source_file_read h path = (case ho_files h path of
     None \<Rightarrow> (None, [''slop: cannot open '' @ path])
   | Some src \<Rightarrow> (Some src, []))"

definition lex_file :: "host \<Rightarrow> string \<Rightarrow> outcome option" where
  "lex_file h path = (case source_file_read h path of
     (None, err) \<Rightarrow> Some \<lparr>oc_status = 1, oc_out = [], oc_err = err\<rparr>
   | (Some src, err) \<Rightarrow>
       do { (tokens, errors, lx) \<leftarrow> lexer_lex_all (ho_strtod h) (lexer_init (Some path) src);
            let dumps = map (token_dump (ho_g h) path) tokens;
            Some \<lparr>oc_status = (if errors \<noteq> 0 then 1 else 0),
              oc_out = concat (map fst dumps) @ path @ '': '' @ dec_of_nat (length tokens) @ '' tokens, ''
                @ dec_of_nat errors @ '' error(s)'' @ [newline],
              oc_err = err @ concat (map snd dumps)\<rparr> })"

text \<open>The first loop of \<open>compile\<close>: the trees of the files that could be read, the errors, stderr.\<close>

fun parse_units :: "host \<Rightarrow> string list \<Rightarrow> (program list \<times> nat \<times> string list) option" where
  "parse_units h [] = Some ([], 0, [])"
| "parse_units h (path # paths) = (case source_file_read h path of
     (None, err) \<Rightarrow> do { (progs, n, err') \<leftarrow> parse_units h paths; Some (progs, Suc n, err @ err') }
   | (Some src, err) \<Rightarrow>
       do { (tokens, _, _) \<leftarrow> lexer_lex_all (ho_strtod h) (lexer_init (Some path) src);
            (prog, m, perr) \<leftarrow> parse_program tokens path;
            (progs, n, err') \<leftarrow> parse_units h paths;
            Some (prog # progs, m + n, err @ perr @ err') })"

text \<open>The dump of the checked trees; \<open>sema_print_type\<close> returns on every type of sema's table.\<close>

definition typed_dumper :: "host \<Rightarrow> type_table \<Rightarrow> dumper" where
  "typed_dumper h tt = \<lparr>du_type = Some (\<lambda>t. the (sema_print_type tt t)), du_g = ho_g h\<rparr>"

definition untyped_dumper :: "host \<Rightarrow> dumper" where
  "untyped_dumper h = \<lparr>du_type = None, du_g = ho_g h\<rparr>"

text \<open>Pass 5: errors, stdout and stderr. The verifier writes to stderr.\<close>

definition generate :: "backend \<Rightarrow> type_table \<Rightarrow> program list \<Rightarrow> (nat \<times> string \<times> string list) option" where
  "generate b tt progs =
     do { (m, err) \<leftarrow> lower_programs tt progs;
          case m of
            None \<Rightarrow> Some (1, [], err)
          | Some m \<Rightarrow>
              do { v \<leftarrow> ir_verify m (Some []);
                   let err = err @ (case vf_out v of None \<Rightarrow> [] | Some ls \<Rightarrow> ls);
                   if vf_problems v \<noteq> 0 then
                     Some (1, [], err @ [''slop: internal error: lowering produced an invalid module''])
                   else do { (bad, out) \<leftarrow> be_emit b m; Some (if bad \<noteq> 0 then 1 else 0, out, err) } } }"

definition analyse :: "host \<Rightarrow> backend option \<Rightarrow> program list \<Rightarrow> (nat \<times> string \<times> string list) option" where
  "analyse h backend progs =
     do { (errors, s) \<leftarrow> sema_check progs;
          let err = dg_stderr (se_diag s);
          if errors \<noteq> 0 then Some (errors, [], err)
          else case backend of
            Some b \<Rightarrow> do { (n, out, err') \<leftarrow> generate b (se_types s) (se_programs s); Some (n, out, err @ err') }
          | None \<Rightarrow> Some (0, concat (map (\<lambda>p. ast_dump (typed_dumper h (se_types s)) (Some p)) (se_programs s)), err) }"

definition compile :: "host \<Rightarrow> string list \<Rightarrow> bool \<Rightarrow> backend option \<Rightarrow> outcome option" where
  "compile h paths parse_only backend =
     do { (progs, errors, err) \<leftarrow> parse_units h paths;
          (errors, out, err) \<leftarrow>
            (if errors = 0 \<and> parse_only then
               Some (0, concat (map (\<lambda>p. ast_dump (untyped_dumper h) (Some p)) progs), err)
             else if errors = 0 then
               do { (n, out, err') \<leftarrow> analyse h backend progs; Some (n, out, err @ err') }
             else Some (errors, [], err));
          Some \<lparr>oc_status = (if errors \<noteq> 0 then 1 else 0), oc_out = out,
            oc_err = err @ (if errors \<noteq> 0 then [dec_of_nat errors @ '' error(s)''] else [])\<rparr> }"

text \<open>The options: the loop over the arguments, which may end the run.\<close>

record options =
  op_tokens :: bool
  op_parse_only :: bool
  op_backend :: "backend option"
  op_files :: nat

fun parse_options :: "(u64 \<Rightarrow> string) \<Rightarrow> string list \<Rightarrow> options \<Rightarrow> outcome + options" where
  "parse_options fmt17 [] o' = Inr o'"
| "parse_options fmt17 (a # as) o' =
     (if a = ''--tokens'' then parse_options fmt17 as (o'\<lparr>op_tokens := True\<rparr>)
      else if a = ''--parse-only'' then parse_options fmt17 as (o'\<lparr>op_parse_only := True\<rparr>)
      else if take 10 a = ''--backend='' then
        (case backend_find fmt17 (drop 10 a) of
           None \<Rightarrow> Inl \<lparr>oc_status = 2, oc_out = [],
             oc_err = (''slop: no backend named '' @ [CHR 0x27] @ drop 10 a @ [CHR 0x27] @ ''. Available:'') # backend_list fmt17\<rparr>
         | Some b \<Rightarrow> parse_options fmt17 as (o'\<lparr>op_backend := Some b\<rparr>))
      else if a = ''--emit'' then parse_options fmt17 as (o'\<lparr>op_backend := Some (backend_default fmt17)\<rparr>)
      else if a = ''--list-backends'' then
        Inl \<lparr>oc_status = 0, oc_out = concat (map (\<lambda>l. l @ [newline]) (backend_list fmt17)), oc_err = []\<rparr>
      else parse_options fmt17 as (o'\<lparr>op_files := op_files o' + 1\<rparr>))"

definition is_path :: "string \<Rightarrow> bool" where
  "is_path a \<longleftrightarrow> take 2 a \<noteq> ''--''"

definition usage :: outcome where
  "usage = \<lparr>oc_status = 2, oc_out = [],
     oc_err = [''usage: slop [--tokens | --parse-only | --emit | --backend=NAME] <file.slop>...'',
               ''       slop --list-backends'']\<rparr>"

text \<open>\<open>failed |= lex_file(argv[i])\<close> over the files in order.\<close>

fun lex_files :: "host \<Rightarrow> string list \<Rightarrow> outcome option" where
  "lex_files h [] = Some \<lparr>oc_status = 0, oc_out = [], oc_err = []\<rparr>"
| "lex_files h (p # ps) =
     do { x \<leftarrow> lex_file h p; y \<leftarrow> lex_files h ps;
          Some \<lparr>oc_status = (if oc_status x \<noteq> 0 \<or> oc_status y \<noteq> 0 then 1 else 0),
            oc_out = oc_out x @ oc_out y, oc_err = oc_err x @ oc_err y\<rparr> }"

text \<open>The arguments after the program's name.\<close>

definition slop_main :: "host \<Rightarrow> string list \<Rightarrow> outcome option" where
  "slop_main h args =
     (case parse_options (ho_g17 h) args \<lparr>op_tokens = False, op_parse_only = False, op_backend = None, op_files = 0\<rparr> of
        Inl oc \<Rightarrow> Some oc
      | Inr opts \<Rightarrow>
          if op_files opts = 0 then Some usage
          else if op_tokens opts then lex_files h (filter is_path args)
          else compile h (filter is_path args) (op_parse_only opts) (op_backend opts))"

end
