(* ===== verification/Slop_Lower_Inv.thy ===== *)
theory Slop_Lower_Inv
  imports Slop_Lower_Stmt Slop_IR_Layout
begin

text \<open>
  What every step of the lowering keeps: the module's types have a layout, values have types, and the blocks of the
  function being lowered are well formed. A block is closed when it ends in its only terminator; the ones still
  open are pending, and a step of an expression leaves the same blocks pending, but for the current one.
\<close>

section \<open>Modules\<close>

definition has_ty :: "ir_module \<Rightarrow> typeref \<Rightarrow> bool" where
  "has_ty m t \<longleftrightarrow> t < length (im_types m)"

definition nonvoid :: "ir_module \<Rightarrow> typeref \<Rightarrow> bool" where
  "nonvoid m t \<longleftrightarrow> has_ty m t \<and> it_kind (ty_obj m t) \<noteq> IR_TY_VOID"

definition is_val :: "ir_module \<Rightarrow> valref \<Rightarrow> bool" where
  "is_val m v \<longleftrightarrow> v < length (im_values m) \<and> nonvoid m (iv_type (val_obj m v))"

definition basic_types :: "ir_module \<Rightarrow> typeref list" where
  "basic_types m = [im_ty_i1 m, im_ty_i8 m, im_ty_i32 m, im_ty_i64 m, im_ty_f32 m, im_ty_f64 m, im_ty_ptr m]"

definition types_closed :: "ir_type list \<Rightarrow> bool" where
  "types_closed h \<longleftrightarrow> (\<forall>t < length h. (\<forall>e. it_elem (h ! t) = Some e \<longrightarrow> e < length h) \<and> (\<forall>x \<in> set (it_fields (h ! t)). x < length h))"

definition sized_types :: "ir_type list \<Rightarrow> bool" where
  "sized_types h \<longleftrightarrow> (\<forall>t < length h. \<exists>s a. c_layout h t s a)"

definition sig_ok :: "ir_module \<Rightarrow> fnref \<Rightarrow> bool" where
  "sig_ok m g \<longleftrightarrow> has_ty m (if_ret (fn_obj m g)) \<and> (\<forall>p \<in> set (if_params (fn_obj m g)). p < length (im_values m))"

definition module_typed :: "ir_module \<Rightarrow> bool" where
  "module_typed m \<longleftrightarrow> types_closed (im_types m) \<and> sized_types (im_types m) \<and> has_ty m (im_ty_void m)
     \<and> list_all (nonvoid m) (basic_types m) \<and> (\<forall>v < length (im_values m). has_ty m (iv_type (val_obj m v)))
     \<and> (\<forall>g < length (im_functions m). sig_ok m g)"

text \<open>What a function's blocks, and the other functions', may become.\<close>

definition fblocks :: "ir_module \<Rightarrow> fnref \<Rightarrow> blockref set" where
  "fblocks m f = set (if_blocks (fn_obj m f))"

definition same_sig :: "ir_function \<Rightarrow> ir_function \<Rightarrow> bool" where
  "same_sig x y \<longleftrightarrow> if_name x = if_name y \<and> if_ret x = if_ret y \<and> if_params x = if_params y
     \<and> if_is_vararg x = if_is_vararg y \<and> if_is_declaration x = if_is_declaration y"

definition grows :: "fnref \<Rightarrow> ir_module \<Rightarrow> ir_module \<Rightarrow> bool" where
  "grows f m m' \<longleftrightarrow> (\<exists>ts. im_types m' = im_types m @ ts) \<and> im_ty_void m' = im_ty_void m \<and> basic_types m' = basic_types m
     \<and> length (im_values m) \<le> length (im_values m')
     \<and> (\<forall>v < length (im_values m). iv_type (val_obj m' v) = iv_type (val_obj m v))
     \<and> length (im_functions m) \<le> length (im_functions m')
     \<and> (\<forall>g < length (im_functions m). same_sig (fn_obj m' g) (fn_obj m g) \<and> (g \<noteq> f \<longrightarrow> if_blocks (fn_obj m' g) = if_blocks (fn_obj m g)))
     \<and> (\<forall>g < length (im_functions m'). length (im_functions m) \<le> g \<longrightarrow> g \<noteq> f \<longrightarrow> if_is_declaration (fn_obj m' g) \<and> if_blocks (fn_obj m' g) = [])
     \<and> length (im_blocks m) \<le> length (im_blocks m')
     \<and> (\<forall>b < length (im_blocks m). bl_parent (blk_obj m' b) = bl_parent (blk_obj m b)
          \<and> (bl_parent (blk_obj m b) \<noteq> f \<longrightarrow> blk_obj m' b = blk_obj m b))"

lemma grows_refl [simp]: "grows f m m"
  by (simp add: grows_def same_sig_def)

lemma grows_trans:
  assumes "grows f a b" and "grows f b c"
  shows "grows f a c"
proof -
  have g: "same_sig (fn_obj c g) (fn_obj a g) \<and> (g \<noteq> f \<longrightarrow> if_blocks (fn_obj c g) = if_blocks (fn_obj a g))"
    if "g < length (im_functions a)" for g
  proof -
    have "g < length (im_functions b)" using that assms(1) by (simp add: grows_def)
    then show ?thesis using that assms by (simp add: grows_def same_sig_def)
  qed
  have n: "if_is_declaration (fn_obj c g) \<and> if_blocks (fn_obj c g) = []"
    if "g < length (im_functions c)" "length (im_functions a) \<le> g" "g \<noteq> f" for g
    using that assms by (cases "g < length (im_functions b)") (auto simp: grows_def same_sig_def)
  have v: "iv_type (val_obj c v) = iv_type (val_obj a v)" if "v < length (im_values a)" for v
    using that assms by (simp add: grows_def)
  have b: "bl_parent (blk_obj c k) = bl_parent (blk_obj a k) \<and> (bl_parent (blk_obj a k) \<noteq> f \<longrightarrow> blk_obj c k = blk_obj a k)"
    if "k < length (im_blocks a)" for k
    using that assms by (simp add: grows_def)
  show ?thesis
    using assms g n v b unfolding grows_def by (auto intro: order_trans)
qed

text \<open>The facts that only look at what there was before.\<close>

lemma grows_ty:
  assumes "grows f m m'" and "has_ty m t"
  shows "has_ty m' t" and "ty_obj m' t = ty_obj m t" and "nonvoid m' t = nonvoid m t"
  using assms by (auto simp: grows_def has_ty_def ty_obj_def nonvoid_def nth_append)

lemma grows_nonvoid: "grows f m m' \<Longrightarrow> nonvoid m t \<Longrightarrow> nonvoid m' t"
  using grows_ty by (simp add: nonvoid_def)

lemma grows_val:
  assumes "grows f m m'" and "is_val m v"
  shows "is_val m' v" and "iv_type (val_obj m' v) = iv_type (val_obj m v)"
proof -
  have v: "v < length (im_values m)" "nonvoid m (iv_type (val_obj m v))" using assms(2) by (auto simp: is_val_def)
  then show "iv_type (val_obj m' v) = iv_type (val_obj m v)" using assms(1) by (simp add: grows_def)
  then show "is_val m' v" using v assms(1) grows_nonvoid [OF assms(1)] by (auto simp: is_val_def grows_def)
qed

section \<open>Blocks\<close>

definition plain :: "ir_instr list \<Rightarrow> bool" where
  "plain is \<longleftrightarrow> list_all (\<lambda>i. \<not> is_terminator (in_op i)) is"

definition targets :: "ir_instr \<Rightarrow> blockref set" where
  "targets i = set_option (in_dest i) \<union> set_option (in_dest2 i)"

definition body_block :: "ir_module \<Rightarrow> fnref \<Rightarrow> blockref \<Rightarrow> bool" where
  "body_block m f b \<longleftrightarrow> b < length (im_blocks m) \<and> bl_parent (blk_obj m b) = f \<and> plain (butlast (bl_instrs (blk_obj m b)))
     \<and> (\<forall>i \<in> set (bl_instrs (blk_obj m b)). targets i \<subseteq> fblocks m f)"

definition body_ok :: "ir_module \<Rightarrow> fnref \<Rightarrow> bool" where
  "body_ok m f \<longleftrightarrow> f < length (im_functions m) \<and> (\<forall>b \<in> fblocks m f. body_block m f b)"

definition closed :: "ir_module \<Rightarrow> blockref \<Rightarrow> bool" where
  "closed m b \<longleftrightarrow> ir_block_is_terminated (blk_obj m b)"

definition pending :: "ir_module \<Rightarrow> fnref \<Rightarrow> blockref set" where
  "pending m f = {b \<in> fblocks m f. \<not> closed m b}"

lemma open_plain: "plain (butlast is) \<Longrightarrow> \<not> (is \<noteq> [] \<and> is_terminator (in_op (last is))) \<Longrightarrow> plain is"
  by (cases "is" rule: rev_cases) (auto simp: plain_def)

section \<open>The state of a function's lowering\<close>

text \<open>What the tree's names mean, which no step changes: the type table, the type names, the functions that return a value.\<close>

record meaning =
  mn_tt :: type_table
  mn_types :: "string set"
  mn_value_fn :: "string \<Rightarrow> bool"

definition binding_ok :: "ir_module \<Rightarrow> binding \<Rightarrow> bool" where
  "binding_ok m b \<longleftrightarrow> is_val m (bd_addr b) \<and> nonvoid m (bd_type b)"

definition runtime_ok :: "ir_module \<Rightarrow> fnref option \<Rightarrow> bool" where
  "runtime_ok m g \<longleftrightarrow> (case g of None \<Rightarrow> True | Some g \<Rightarrow> g < length (im_functions m) \<and> nonvoid m (if_ret (fn_obj m g)))"

definition env_ok :: "meaning \<Rightarrow> lower \<Rightarrow> bool" where
  "env_ok C L \<longleftrightarrow> lw_tt L = mn_tt C \<and> (\<forall>n \<in> mn_types C. find_named L n \<noteq> None) \<and> (\<forall>n \<in> set (lw_named L). nonvoid (lw_m L) (nt_type n))
     \<and> (\<forall>x \<in> set (lw_funcs L). fu_fn x < length (im_functions (lw_m L)))
     \<and> (\<forall>n g. mn_value_fn C n \<longrightarrow> find_func L n = Some g \<longrightarrow> nonvoid (lw_m L) (if_ret (fn_obj (lw_m L) g)))
     \<and> list_all (binding_ok (lw_m L)) (lw_globals L) \<and> list_all (binding_ok (lw_m L)) (lw_locals L)
     \<and> runtime_ok (lw_m L) (lw_memcpy L) \<and> runtime_ok (lw_m L) (lw_memset L)"

definition lower_ok :: "meaning \<Rightarrow> fnref \<Rightarrow> lower \<Rightarrow> bool" where
  "lower_ok C f L \<longleftrightarrow> module_typed (lw_m L) \<and> body_ok (lw_m L) f \<and> env_ok C L \<and> lw_cur L = Some f \<and> ib_fn (lw_b L) = Some f
     \<and> (\<exists>b \<in> fblocks (lw_m L) f. ib_block (lw_b L) = Some b)
     \<and> (\<forall>l \<in> set (lw_loops L). lp_continue_to l \<in> fblocks (lw_m L) f \<and> lp_break_to l \<in> fblocks (lw_m L) f)"

definition cur_bb :: "lower \<Rightarrow> blockref" where
  "cur_bb L = the (ib_block (lw_b L))"

definition is_open :: "lower \<Rightarrow> bool" where
  "is_open L \<longleftrightarrow> \<not> closed (lw_m L) (cur_bb L)"

definition others :: "fnref \<Rightarrow> lower \<Rightarrow> blockref set" where
  "others f L = pending (lw_m L) f - {cur_bb L}"

text \<open>A step: it keeps the environment, and the locals are the same or more.\<close>

definition steps :: "meaning \<Rightarrow> fnref \<Rightarrow> lower \<Rightarrow> lower \<Rightarrow> bool" where
  "steps C f L L' \<longleftrightarrow> lower_ok C f L' \<and> grows f (lw_m L) (lw_m L') \<and> fblocks (lw_m L) f \<subseteq> fblocks (lw_m L') f
     \<and> lw_named L' = lw_named L \<and> lw_funcs L' = lw_funcs L \<and> lw_globals L' = lw_globals L \<and> lw_loops L' = lw_loops L"

definition same_scope :: "lower \<Rightarrow> lower \<Rightarrow> bool" where
  "same_scope L L' \<longleftrightarrow> lw_locals L' = lw_locals L \<and> lw_used L' = lw_used L"

lemma steps_refl: "lower_ok C f L \<Longrightarrow> steps C f L L"
  by (simp add: steps_def)

lemma steps_trans: "steps C f a b \<Longrightarrow> steps C f b c \<Longrightarrow> steps C f a c"
  using grows_trans by (auto simp: steps_def)

lemma steps_val: "steps C f a b \<Longrightarrow> is_val (lw_m a) v \<Longrightarrow> is_val (lw_m b) v"
  using grows_val by (auto simp: steps_def)

lemma steps_nonvoid: "steps C f a b \<Longrightarrow> nonvoid (lw_m a) t \<Longrightarrow> nonvoid (lw_m b) t"
  using grows_nonvoid by (auto simp: steps_def)

lemma steps_ok: "steps C f a b \<Longrightarrow> lower_ok C f b"
  by (simp add: steps_def)

text \<open>A step of an expression leaves an open block to go on in, and the same others pending.\<close>

definition goes :: "meaning \<Rightarrow> fnref \<Rightarrow> lower \<Rightarrow> lower \<Rightarrow> bool" where
  "goes C f L L' \<longleftrightarrow> steps C f L L' \<and> same_scope L L' \<and> is_open L' \<and> others f L' = others f L"

definition ready :: "meaning \<Rightarrow> fnref \<Rightarrow> lower \<Rightarrow> bool" where
  "ready C f L \<longleftrightarrow> lower_ok C f L \<and> is_open L"

lemma goes_refl: "ready C f L \<Longrightarrow> goes C f L L"
  by (simp add: goes_def ready_def steps_refl same_scope_def)

lemma goes_trans: "goes C f a b \<Longrightarrow> goes C f b c \<Longrightarrow> goes C f a c"
  using steps_trans by (auto simp: goes_def same_scope_def)

lemma goes_ready: "goes C f a b \<Longrightarrow> ready C f b"
  using steps_ok by (auto simp: goes_def ready_def)

lemma goes_val: "goes C f a b \<Longrightarrow> is_val (lw_m a) v \<Longrightarrow> is_val (lw_m b) v"
  by (auto simp: goes_def intro: steps_val)

lemma goes_nonvoid: "goes C f a b \<Longrightarrow> nonvoid (lw_m a) t \<Longrightarrow> nonvoid (lw_m b) t"
  by (auto simp: goes_def intro: steps_nonvoid)

definition yields :: "meaning \<Rightarrow> fnref \<Rightarrow> lower \<Rightarrow> ('a \<times> lower) option \<Rightarrow> ('a \<Rightarrow> lower \<Rightarrow> bool) \<Rightarrow> bool" where
  "yields C f L m Q \<longleftrightarrow> wp m (\<lambda>r L'. goes C f L L' \<and> Q r L')"

lemma yields_iff: "yields C f L m Q \<longleftrightarrow> (\<exists>r L'. m = Some (r, L') \<and> goes C f L L' \<and> Q r L')"
  by (simp add: yields_def wp_iff)

lemma yields_bind:
  assumes "yields C f L m Q" and "\<And>r L'. goes C f L L' \<Longrightarrow> ready C f L' \<Longrightarrow> Q r L' \<Longrightarrow> yields C f L' (k r L') R"
  shows "yields C f L (Option.bind m (\<lambda>(r, L). k r L)) R"
proof -
  obtain r L' where m: "m = Some (r, L')" and g: "goes C f L L'" and q: "Q r L'" using assms(1) by (auto simp: yields_iff)
  then have "yields C f L' (k r L') R" using assms(2) goes_ready by blast
  with g show ?thesis by (auto simp: m yields_iff intro: goes_trans)
qed

lemma yields_Some: "ready C f L \<Longrightarrow> Q r L \<Longrightarrow> yields C f L (Some (r, L)) Q"
  by (simp add: yields_def goes_refl)

lemma yields_let:
  assumes "goes C f L (snd p)" and "Q (fst p) (snd p)"
    and "\<And>r L'. goes C f L L' \<Longrightarrow> ready C f L' \<Longrightarrow> Q r L' \<Longrightarrow> yields C f L' (k r L') R"
  shows "yields C f L (let (r, L) = p in k r L) R"
proof -
  obtain r L' where p: "p = (r, L')" by (cases p)
  then have g: "goes C f L L'" "yields C f L' (k r L') R" using assms goes_ready by auto
  then show ?thesis by (auto simp: p yields_iff intro: goes_trans)
qed

lemma yields_mono: "yields C f L m Q \<Longrightarrow> (\<And>r L'. goes C f L L' \<Longrightarrow> Q r L' \<Longrightarrow> R r L') \<Longrightarrow> yields C f L m R"
  by (auto simp: yields_def intro: wp_mono)

section \<open>Steps that only add objects\<close>

lemma c_layout_append:
  assumes "types_closed h"
  shows "c_layout h t s a \<Longrightarrow> t < length h \<Longrightarrow> c_layout (h @ ts) t s a"
    and "c_fields h fs off al offs e al' \<Longrightarrow> \<forall>x \<in> set fs. x < length h \<Longrightarrow> c_fields (h @ ts) fs off al offs e al'"
proof (induction rule: c_layout_c_fields.inducts)
  case (c_array t e s a)
  have "e < length h" using assms c_array(2,5) unfolding types_closed_def by blast
  with c_array have "c_layout (h @ ts) t (unat (it_length ((h @ ts) ! t)) * s) a"
    by (intro c_layout_c_fields.c_array) (auto simp: nth_append)
  with c_array show ?case by (simp add: nth_append)
next
  case (c_struct t offs e a)
  have "\<forall>x \<in> set (it_fields (h ! t)). x < length h" using assms c_struct(4) unfolding types_closed_def by blast
  with c_struct show ?case by (intro c_layout_c_fields.c_struct) (auto simp: nth_append)
next
  case (c_wide t n)
  then show ?case by (intro c_layout_c_fields.c_wide) (auto simp: nth_append)
qed (auto intro: c_layout_c_fields.intros simp: nth_append simp del: One_nat_def)

lemma closed_append:
  assumes h: "types_closed h" and "\<forall>e. it_elem x = Some e \<longrightarrow> e < length h" "\<forall>y \<in> set (it_fields x). y < length h"
  shows "types_closed (h @ [x])"
  unfolding types_closed_def
proof (intro allI impI)
  fix t assume t: "t < length (h @ [x])"
  show "(\<forall>e. it_elem ((h @ [x]) ! t) = Some e \<longrightarrow> e < length (h @ [x])) \<and> (\<forall>y \<in> set (it_fields ((h @ [x]) ! t)). y < length (h @ [x]))"
  proof (cases "t < length h")
    case True
    then have "(\<forall>e. it_elem (h ! t) = Some e \<longrightarrow> e < length h) \<and> (\<forall>y \<in> set (it_fields (h ! t)). y < length h)"
      using h unfolding types_closed_def by blast
    then show ?thesis using True by (simp add: nth_append less_SucI)
  next
    case False
    then have "t = length h" using t by simp
    then show ?thesis using assms(2,3) by (simp add: less_SucI)
  qed
qed

lemma sized_append:
  assumes "types_closed h" "sized_types h" and "\<exists>s a. c_layout (h @ [x]) (length h) s a"
  shows "sized_types (h @ [x])"
  unfolding sized_types_def
proof (intro allI impI)
  fix t assume t: "t < length (h @ [x])"
  show "\<exists>s a. c_layout (h @ [x]) t s a"
  proof (cases "t < length h")
    case True
    then show ?thesis using assms(2) c_layout_append(1) [OF assms(1)] unfolding sized_types_def by blast
  next
    case False
    then show ?thesis using t assms(3) by (simp add: less_Suc_eq)
  qed
qed

lemma has_layout: "module_typed m \<Longrightarrow> has_ty m t \<Longrightarrow> \<exists>s. ir_type_size (im_types m) t = Some s"
  using size_code(1) by (force simp: module_typed_def sized_types_def has_ty_def ir_type_size_def)

lemma grows_sig:
  assumes "grows f m m'" and "g < length (im_functions m)" and "sig_ok m g"
  shows "sig_ok m' g"
proof -
  have "same_sig (fn_obj m' g) (fn_obj m g)" "length (im_values m) \<le> length (im_values m')"
    using assms(1,2) by (simp_all add: grows_def)
  then show ?thesis using assms(3) grows_ty(1) [OF assms(1)] by (fastforce simp: sig_ok_def same_sig_def)
qed

text \<open>What has to be looked at is what is new.\<close>

lemma module_typed_grows:
  assumes ok: "module_typed m" and g: "grows f m m'" and h: "types_closed (im_types m')" "sized_types (im_types m')"
    and v: "\<And>v. length (im_values m) \<le> v \<Longrightarrow> v < length (im_values m') \<Longrightarrow> has_ty m' (iv_type (val_obj m' v))"
    and f: "\<And>g. length (im_functions m) \<le> g \<Longrightarrow> g < length (im_functions m') \<Longrightarrow> sig_ok m' g"
  shows "module_typed m'"
proof -
  have "has_ty m' (im_ty_void m')" using ok g grows_ty(1) [OF g] by (simp add: module_typed_def grows_def)
  moreover have "list_all (nonvoid m') (basic_types m')"
    using ok g grows_nonvoid [OF g] by (auto simp: module_typed_def grows_def list_all_iff)
  moreover have "has_ty m' (iv_type (val_obj m' w))" if "w < length (im_values m')" for w
  proof (cases "w < length (im_values m)")
    case True
    then have "iv_type (val_obj m' w) = iv_type (val_obj m w)" "has_ty m (iv_type (val_obj m w))"
      using g ok by (auto simp: grows_def module_typed_def)
    then show ?thesis using grows_ty(1) [OF g] by simp
  qed (use v that in simp)
  moreover have "sig_ok m' k" if "k < length (im_functions m')" for k
  proof (cases "k < length (im_functions m)")
    case True
    then show ?thesis using grows_sig [OF g] ok by (simp add: module_typed_def)
  qed (use f that in simp)
  ultimately show ?thesis using h by (simp add: module_typed_def)
qed

lemma module_types: "module_typed m \<Longrightarrow> types_closed (im_types m) \<and> sized_types (im_types m)"
  by (simp add: module_typed_def)

text \<open>Adding an array type, a value, a declaration.\<close>

lemma add_array:
  assumes ok: "module_typed m" and e: "has_ty m e"
  shows "module_typed (snd (ir_type_array m e n))" and "grows f m (snd (ir_type_array m e n))"
    and "nonvoid (snd (ir_type_array m e n)) (fst (ir_type_array m e n))"
    and "im_blocks (snd (ir_type_array m e n)) = im_blocks m" and "im_functions (snd (ir_type_array m e n)) = im_functions m"
proof -
  let ?t = "(ir_type_zero IR_TY_ARRAY)\<lparr>it_elem := Some e, it_length := n\<rparr>"
  let ?m = "m\<lparr>im_types := im_types m @ [?t]\<rparr>"
  have m: "ir_type_array m e n = (length (im_types m), ?m)" by (simp add: ir_type_array_def type_new_def)
  have h: "types_closed (im_types m)" "sized_types (im_types m)" using ok by (auto simp: module_typed_def)
  obtain s a where "c_layout (im_types m) e s a" using h e by (auto simp: sized_types_def has_ty_def)
  then have "c_layout (im_types m @ [?t]) (length (im_types m)) (unat n * s) a"
    using c_layout_append(1) [OF h(1)] e c_array [of "im_types m @ [?t]" "length (im_types m)" e s a]
    by (simp add: has_ty_def ir_type_zero_def)
  then have "sized_types (im_types ?m)" using sized_append [OF h] by auto
  moreover have "types_closed (im_types ?m)"
    using closed_append [OF h(1), of ?t] e by (simp add: has_ty_def ir_type_zero_def)
  moreover have g: "grows f m ?m" by (simp add: grows_def basic_types_def val_obj_def fn_obj_def blk_obj_def same_sig_def)
  ultimately have ok': "module_typed ?m" using module_typed_grows [OF ok g] by simp
  show "module_typed (snd (ir_type_array m e n))" "grows f m (snd (ir_type_array m e n))"
    "im_blocks (snd (ir_type_array m e n)) = im_blocks m" "im_functions (snd (ir_type_array m e n)) = im_functions m"
    using ok' g by (simp_all add: m)
  show "nonvoid (snd (ir_type_array m e n)) (fst (ir_type_array m e n))"
    by (simp add: m nonvoid_def has_ty_def ty_obj_def ir_type_zero_def)
qed

lemma add_value:
  assumes ok: "module_typed m" and t: "has_ty m (iv_type x)"
  shows "grows f m (m\<lparr>im_values := im_values m @ [x]\<rparr>)" and "module_typed (m\<lparr>im_values := im_values m @ [x]\<rparr>)"
    and "nonvoid m (iv_type x) \<Longrightarrow> is_val (m\<lparr>im_values := im_values m @ [x]\<rparr>) (length (im_values m))"
proof -
  let ?m = "m\<lparr>im_values := im_values m @ [x]\<rparr>"
  show g: "grows f m ?m"
    by (simp add: grows_def basic_types_def val_obj_def fn_obj_def blk_obj_def same_sig_def nth_append)
  have h: "has_ty ?m y = has_ty m y" "nonvoid ?m y = nonvoid m y" for y by (simp_all add: has_ty_def nonvoid_def ty_obj_def)
  show "module_typed ?m"
    by (rule module_typed_grows [OF ok g]) (use module_types [OF ok] t h in \<open>auto simp: val_obj_def nth_append less_Suc_eq\<close>)
  show "is_val ?m (length (im_values m))" if "nonvoid m (iv_type x)"
    using that h by (simp add: is_val_def val_obj_def)
qed

text \<open>Setting members of a value, but for its type.\<close>

lemma set_value:
  assumes ok: "module_typed m" and k: "\<And>x. iv_type (g x) = iv_type x"
  shows "grows f m (value_set v g m)" and "module_typed (value_set v g m)" and "is_val (value_set v g m) w = is_val m w"
proof -
  have t: "iv_type (val_obj (value_set v g m) w) = iv_type (val_obj m w)" if "w < length (im_values m)" for w
    using that k by (cases "v = w") (simp_all add: value_set_def val_obj_def)
  have l: "length (im_values (value_set v g m)) = length (im_values m)" "im_types (value_set v g m) = im_types m"
    "im_functions (value_set v g m) = im_functions m"
    by (simp_all add: value_set_def)
  have h: "has_ty (value_set v g m) = has_ty m" "nonvoid (value_set v g m) = nonvoid m"
    by (simp_all add: fun_eq_iff has_ty_def nonvoid_def ty_obj_def value_set_def)
  show gr: "grows f m (value_set v g m)"
    using t l by (simp add: grows_def basic_types_def fn_obj_def blk_obj_def same_sig_def) (simp add: value_set_def)
  show "is_val (value_set v g m) w = is_val m w" using t l h by (auto simp: is_val_def)
  show "module_typed (value_set v g m)"
    by (rule module_typed_grows [OF ok gr]) (use module_types [OF ok] l in auto)
qed

lemma env_ok_grows:
  assumes e: "env_ok C L" and g: "grows f (lw_m L) (lw_m L')" and
    same: "lw_tt L' = lw_tt L" "lw_named L' = lw_named L" "lw_funcs L' = lw_funcs L" "lw_globals L' = lw_globals L"
    "lw_locals L' = lw_locals L" and
    rt: "runtime_ok (lw_m L') (lw_memcpy L')" "runtime_ok (lw_m L') (lw_memset L')"
    and ok: "module_typed (lw_m L)"
  shows "env_ok C L'"
proof -
  have b: "binding_ok (lw_m L) x \<Longrightarrow> binding_ok (lw_m L') x" for x
    using g grows_val(1) grows_nonvoid by (auto simp: binding_ok_def)
  have r: "nonvoid (lw_m L') (if_ret (fn_obj (lw_m L') h))" if "h < length (im_functions (lw_m L))" "nonvoid (lw_m L) (if_ret (fn_obj (lw_m L) h))" for h
    using g that grows_nonvoid [OF g] by (auto simp: grows_def same_sig_def)
  have fu: "h < length (im_functions (lw_m L))" if "find_func L n = Some h" for n h
    using e that find_SomeD by (fastforce simp: env_ok_def find_func_def)
  have l: "length (im_functions (lw_m L)) \<le> length (im_functions (lw_m L'))" using g by (simp add: grows_def)
  have f: "find_func L' = find_func L" "find_named L' = find_named L" by (simp_all add: fun_eq_iff find_func_def find_named_def same)
  have "nonvoid (lw_m L') (nt_type n)" if "n \<in> set (lw_named L')" for n
    using e that same grows_nonvoid [OF g] by (simp add: env_ok_def)
  moreover have "fu_fn x < length (im_functions (lw_m L'))" if "x \<in> set (lw_funcs L')" for x
    using e that same l by (fastforce simp: env_ok_def)
  moreover have "nonvoid (lw_m L') (if_ret (fn_obj (lw_m L') k))" if "mn_value_fn C n" "find_func L' n = Some k" for n k
    using e that f(1) r fu by (simp add: env_ok_def)
  moreover have "list_all (binding_ok (lw_m L')) (lw_globals L')" "list_all (binding_ok (lw_m L')) (lw_locals L')"
    using e same b by (auto simp: env_ok_def list_all_iff)
  ultimately show ?thesis using e same f(2) rt by (simp add: env_ok_def)
qed

lemma grows_ret:
  assumes "grows f m m'" and "g < length (im_functions m)" and "nonvoid m (if_ret (fn_obj m g))"
  shows "g < length (im_functions m')" and "nonvoid m' (if_ret (fn_obj m' g))"
proof -
  have "same_sig (fn_obj m' g) (fn_obj m g)" using assms by (simp add: grows_def)
  then show "nonvoid m' (if_ret (fn_obj m' g))" using grows_nonvoid [OF assms(1,3)] by (simp add: same_sig_def)
  show "g < length (im_functions m')" using assms by (simp add: grows_def)
qed

lemma runtime_ok_grows: "grows f m m' \<Longrightarrow> runtime_ok m g \<Longrightarrow> runtime_ok m' g"
  using grows_ret by (auto simp: runtime_ok_def split: option.splits)

text \<open>Steps of the module that leave the blocks alone.\<close>

lemma module_step:
  assumes r: "ready C f L" and g: "grows f (lw_m L) m" and ok: "module_typed m" and b: "im_blocks m = im_blocks (lw_m L)"
    and f: "fn_obj m f = fn_obj (lw_m L) f"
  shows "goes C f L (L\<lparr>lw_b := (lw_b L)\<lparr>ib_module := m\<rparr>\<rparr>)"
proof -
  let ?L = "L\<lparr>lw_b := (lw_b L)\<lparr>ib_module := m\<rparr>\<rparr>"
  have l: "lower_ok C f L" using r by (simp add: ready_def)
  have fb: "fblocks m f = fblocks (lw_m L) f" using f by (simp add: fblocks_def)
  have k: "blk_obj m x = blk_obj (lw_m L) x" for x using b by (simp add: blk_obj_def)
  have c: "closed m = closed (lw_m L)" by (simp add: fun_eq_iff closed_def k)
  have "f < length (im_functions m)" using l g by (auto simp: lower_ok_def body_ok_def grows_def)
  then have "body_ok m f" using l by (simp add: lower_ok_def body_ok_def fb body_block_def k b)
  moreover have "env_ok C ?L"
  proof (rule env_ok_grows)
    show "env_ok C L" using l by (simp add: lower_ok_def)
    then show "runtime_ok (lw_m ?L) (lw_memcpy ?L)" "runtime_ok (lw_m ?L) (lw_memset ?L)"
      using runtime_ok_grows [OF g] by (auto simp: env_ok_def)
    show "module_typed (lw_m L)" using l by (simp add: lower_ok_def)
  qed (use g in simp_all)
  ultimately have "lower_ok C f ?L" using l ok fb by (simp add: lower_ok_def)
  moreover have "others f ?L = others f L" by (simp add: others_def pending_def fb c cur_bb_def)
  moreover have "is_open ?L" using r by (simp add: ready_def is_open_def c cur_bb_def)
  ultimately show ?thesis using g fb by (simp add: goes_def steps_def same_scope_def)
qed

lemma readyD:
  assumes "ready C f L"
  shows "module_typed (lw_m L)" and "env_ok C L" and "lw_cur L = Some f" and "f < length (im_functions (lw_m L))"
    and "ib_fn (lw_b L) = Some f" and "ib_block (lw_b L) = Some (cur_bb L)" and "cur_bb L \<in> fblocks (lw_m L) f"
  using assms by (auto simp: ready_def lower_ok_def body_ok_def cur_bb_def)

text \<open>Values the module makes.\<close>

lemma in_module_eq: "in_module g L = (fst (g (lw_m L)), L\<lparr>lw_b := (lw_b L)\<lparr>ib_module := snd (g (lw_m L))\<rparr>\<rparr>)"
  by (simp add: in_module_def split_def Let_def)

definition makes_value :: "(ir_module \<Rightarrow> valref \<times> ir_module) \<Rightarrow> ir_module \<Rightarrow> bool" where
  "makes_value g m \<longleftrightarrow> (\<forall>f. grows f m (snd (g m))) \<and> module_typed (snd (g m)) \<and> im_blocks (snd (g m)) = im_blocks m
     \<and> im_functions (snd (g m)) = im_functions m \<and> is_val (snd (g m)) (fst (g m))"

lemma module_value:
  assumes r: "ready C f L" and g: "makes_value g (lw_m L)"
  shows "goes C f L (snd (in_module g L))" and "is_val (lw_m (snd (in_module g L))) (fst (in_module g L))"
proof -
  have "fn_obj (snd (g (lw_m L))) f = fn_obj (lw_m L) f" using g by (simp add: makes_value_def fn_obj_def)
  then show "goes C f L (snd (in_module g L))"
    using module_step [OF r, of "snd (g (lw_m L))"] g by (simp add: makes_value_def in_module_eq)
  show "is_val (lw_m (snd (in_module g L))) (fst (in_module g L))" using g by (simp add: makes_value_def in_module_eq)
qed

lemma makes_new_value:
  assumes ok: "module_typed m" and t: "nonvoid m t"
  shows "makes_value (\<lambda>m. value_new m k t) m"
    and "(\<And>x. iv_type (g x) = iv_type x) \<Longrightarrow> makes_value (\<lambda>m. let (r, m) = value_new m k t in (r, value_set r g m)) m"
proof -
  let ?x = "\<lparr>iv_kind = k, iv_type = t, iv_ival = 0, iv_fval = 0, iv_name = []\<rparr>"
  let ?m = "m\<lparr>im_values := im_values m @ [?x]\<rparr>"
  have x: "has_ty m (iv_type ?x)" "nonvoid m (iv_type ?x)" using t by (auto simp: nonvoid_def)
  have v: "value_new m k t = (length (im_values m), ?m)" by (simp add: value_new_def)
  show "makes_value (\<lambda>m. value_new m k t) m"
    using add_value [OF ok x(1)] x(2) by (simp add: makes_value_def v)
  assume g: "\<And>x. iv_type (g x) = iv_type x"
  have "im_blocks (value_set w g m') = im_blocks m'" "im_functions (value_set w g m') = im_functions m'" for w m'
    by (simp_all add: value_set_def)
  moreover have "grows f m (value_set w g ?m)" for f w
    by (rule grows_trans [OF add_value(1) [OF ok x(1)] set_value(1) [OF add_value(2) [OF ok x(1)] g]])
  ultimately show "makes_value (\<lambda>m. let (r, m) = value_new m k t in (r, value_set r g m)) m"
    using add_value(3) [OF ok x(1)] x(2) set_value(2,3) [OF add_value(2) [OF ok x(1)] g] by (simp add: makes_value_def v)
qed

lemma basic_nonvoid:
  assumes "module_typed m"
  shows "nonvoid m (im_ty_i1 m)" "nonvoid m (im_ty_i8 m)" "nonvoid m (im_ty_i32 m)" "nonvoid m (im_ty_i64 m)"
    "nonvoid m (im_ty_f32 m)" "nonvoid m (im_ty_f64 m)" "nonvoid m (im_ty_ptr m)"
  using assms by (auto simp: module_typed_def basic_types_def)

lemma makes_const:
  assumes ok: "module_typed m"
  shows "nonvoid m t \<Longrightarrow> makes_value (\<lambda>m. ir_const_int m t v) m" and "nonvoid m t \<Longrightarrow> makes_value (\<lambda>m. ir_const_fp m t v) m"
    and "nonvoid m t \<Longrightarrow> makes_value (\<lambda>m. ir_undef m t) m" and "makes_value ir_const_null m"
proof -
  show "nonvoid m t \<Longrightarrow> makes_value (\<lambda>m. ir_const_int m t v) m" "nonvoid m t \<Longrightarrow> makes_value (\<lambda>m. ir_const_fp m t v) m"
    unfolding ir_const_int_def ir_const_fp_def by (rule makes_new_value(2) [OF ok]; simp)+
  show "nonvoid m t \<Longrightarrow> makes_value (\<lambda>m. ir_undef m t) m" unfolding ir_undef_def by (rule makes_new_value(1) [OF ok])
  have "makes_value (\<lambda>m'. value_new m' IRV_CONST_NULL (im_ty_ptr m)) m"
    by (rule makes_new_value(1) [OF ok basic_nonvoid(7) [OF ok]])
  then show "makes_value ir_const_null m" by (simp add: ir_const_null_def makes_value_def)
qed

text \<open>A string literal: an array type, a global and the value that names it.\<close>

lemma same_module:
  assumes "im_types m' = im_types m" "im_values m' = im_values m" "im_functions m' = im_functions m" "im_blocks m' = im_blocks m"
    "im_ty_void m' = im_ty_void m" "basic_types m' = basic_types m"
  shows "grows f m m'" and "module_typed m' = module_typed m" and "is_val m' v = is_val m v"
proof -
  show "grows f m m'" using assms by (simp add: grows_def same_sig_def val_obj_def fn_obj_def blk_obj_def)
  have h: "has_ty m' = has_ty m" "nonvoid m' = nonvoid m" using assms by (simp_all add: fun_eq_iff has_ty_def nonvoid_def ty_obj_def)
  show "module_typed m' = module_typed m" "is_val m' v = is_val m v"
    using assms h by (simp_all add: module_typed_def is_val_def val_obj_def sig_ok_def fn_obj_def)
qed

lemma makes_string:
  assumes ok: "module_typed m"
  shows "makes_value (\<lambda>m. ir_string m bytes) m"
proof -
  let ?m1 = "m\<lparr>im_next_string := im_next_string m + 1\<rparr>"
  let ?a = "ir_type_array ?m1 (im_ty_i8 ?m1) (ucast (of_nat (length bytes) :: u32) + 1)"
  have b1: "basic_types ?m1 = basic_types m" by (simp add: basic_types_def)
  have ok1: "module_typed ?m1" and g1: "grows f m ?m1" for f using same_module [of ?m1 m] ok b1 by simp_all
  have i8: "has_ty ?m1 (im_ty_i8 ?m1)" using basic_nonvoid [OF ok1] by (simp add: nonvoid_def)
  note a = add_array [OF ok1 i8, where n = "ucast (of_nat (length bytes) :: u32) + 1"]
  define m2 where "m2 = snd ?a"
  define g where "g = ir_global_zero\<lparr>ig_name := fmt_name ''.str.'' (im_next_string m), ig_type := fst ?a, ig_str := Some bytes,
              ig_strlen := of_nat (length bytes), ig_is_const := True, ig_is_private := True\<rparr>"
  let ?m3 = "m2\<lparr>im_globals := im_globals m2 @ [g]\<rparr>"
  have b3: "basic_types ?m3 = basic_types m2" by (simp add: basic_types_def)
  have ok3: "module_typed ?m3" and g3: "grows f m2 ?m3" for f
    using same_module [of ?m3 m2] a(1) b3 by (simp_all add: m2_def)
  have "im_ty_ptr m2 = im_ty_ptr ?m3" by simp
  then have v: "makes_value (\<lambda>m. let (r, m) = value_new m IRV_GLOBAL (im_ty_ptr m2) in
       (r, value_set r (\<lambda>x. x\<lparr>iv_name := fmt_name ''.str.'' (im_next_string m')\<rparr>) m)) ?m3" for m'
    using makes_new_value(2) [OF ok3 basic_nonvoid(7) [OF ok3]] by simp
  have e: "ir_string m bytes = (let (r, m'') = value_new ?m3 IRV_GLOBAL (im_ty_ptr m2) in
       (r, value_set r (\<lambda>x. x\<lparr>iv_name := fmt_name ''.str.'' (im_next_string m)\<rparr>) m''))"
    by (simp add: ir_string_def Let_def split_def global_append_def m2_def g_def)
  have "grows f m ?m3" for f using g1 a(2) g3 grows_trans unfolding m2_def by blast
  then show ?thesis
    using v [of m] a(4,5) unfolding makes_value_def e by (auto simp: m2_def intro: grows_trans)
qed

section \<open>Emitting\<close>

lemma fn_step:
  assumes ok: "module_typed m" and f: "f < length (im_functions m)" and s: "\<And>x. same_sig (g x) x"
  shows "grows f m (fn_set f g m)" and "module_typed (fn_set f g m)"
proof -
  have sg: "same_sig (fn_obj (fn_set f g m) k) (fn_obj m k) \<and> (k \<noteq> f \<longrightarrow> fn_obj (fn_set f g m) k = fn_obj m k)"
    if "k < length (im_functions m)" for k
    using that s by (cases "k = f") (auto simp: fn_set_def fn_obj_def same_sig_def)
  have l: "im_types (fn_set f g m) = im_types m" "im_values (fn_set f g m) = im_values m" "im_blocks (fn_set f g m) = im_blocks m"
    "length (im_functions (fn_set f g m)) = length (im_functions m)" "im_ty_void (fn_set f g m) = im_ty_void m"
    "basic_types (fn_set f g m) = basic_types m"
    by (simp_all add: fn_set_def basic_types_def)
  show gr: "grows f m (fn_set f g m)" using sg l by (simp add: grows_def val_obj_def blk_obj_def)
  show "module_typed (fn_set f g m)" by (rule module_typed_grows [OF ok gr]) (use module_types [OF ok] l in auto)
qed

definition result_ok :: "ir_module \<Rightarrow> typeref option \<Rightarrow> valref option \<Rightarrow> ir_module \<Rightarrow> bool" where
  "result_ok m rt r m' \<longleftrightarrow> (case rt of None \<Rightarrow> r = None
     | Some t \<Rightarrow> if nonvoid m t then (\<exists>v. r = Some v \<and> is_val m' v) else r = None)"

lemma emit_result_ok:
  assumes r: "ready C f L" and t: "\<And>t. rt = Some t \<Longrightarrow> has_ty (lw_m L) t"
  shows "\<exists>x m. emit_result (lw_b L) rt = Some (x, m) \<and> grows f (lw_m L) m \<and> module_typed m \<and> im_blocks m = im_blocks (lw_m L)
    \<and> fblocks m f = fblocks (lw_m L) f \<and> result_ok (lw_m L) rt x m"
proof (cases "\<exists>t. rt = Some t \<and> nonvoid (lw_m L) t")
  case False
  then show ?thesis using readyD(1) [OF r] t
    by (auto simp: emit_result_def nonvoid_def result_ok_def split: option.splits)
next
  case True
  then obtain t where rt: "rt = Some t" and nv: "nonvoid (lw_m L) t" by blast
  let ?x = "\<lparr>iv_kind = IRV_LOCAL, iv_type = t, iv_ival = 0, iv_fval = 0, iv_name = []\<rparr>"
  let ?m1 = "(lw_m L)\<lparr>im_values := im_values (lw_m L) @ [?x]\<rparr>"
  let ?g = "\<lambda>x. x\<lparr>if_next_temp := if_next_temp (fn_obj ?m1 f) + 1\<rparr>"
  let ?m2 = "fn_set f ?g ?m1"
  let ?k = "\<lambda>x. x\<lparr>iv_name := fmt_name ''t'' (if_next_temp (fn_obj ?m1 f))\<rparr>"
  let ?v = "length (im_values (lw_m L))"
  let ?m3 = "value_set ?v ?k ?m2"
  have x: "has_ty (lw_m L) (iv_type ?x)" "nonvoid (lw_m L) (iv_type ?x)" using nv by (auto simp: nonvoid_def)
  note v = add_value [OF readyD(1) [OF r] x(1)]
  have f: "f < length (im_functions ?m1)" using readyD(4) [OF r] by simp
  note fs = fn_step [OF v(2) f, of ?g]
  have s: "same_sig (?g y) y" for y by (simp add: same_sig_def)
  have k: "iv_type (?k y) = iv_type y" for y by simp
  note vs = set_value [OF fs(2) [OF s], where g = ?k and v = ?v, OF k]
  have "emit_result (lw_b L) rt = Some (Some ?v, ?m3)"
    using nv rt readyD(5) [OF r] by (simp add: emit_result_def nonvoid_def value_new_def Let_def)
  moreover have "grows f (lw_m L) ?m3" by (rule grows_trans [OF v(1) grows_trans [OF fs(1) [OF s] vs(1)]])
  moreover have "module_typed ?m3" by (rule vs(2))
  moreover have "im_blocks ?m3 = im_blocks (lw_m L)" by (simp add: value_set_def fn_set_def)
  moreover have "fblocks ?m3 f = fblocks (lw_m L) f"
    using f by (simp add: fblocks_def value_set_def fn_set_def fn_obj_def)
  moreover have "is_val ?m2 ?v" using grows_val(1) [OF fs(1) [OF s] v(3) [OF x(2)]] .
  then have "result_ok (lw_m L) rt (Some ?v) ?m3" using nv rt vs(3) by (simp add: result_ok_def)
  ultimately show ?thesis by blast
qed

lemma append_step:
  fixes i :: ir_instr
  assumes ok: "module_typed m" and b: "b < length (im_blocks m)" "bl_parent (blk_obj m b) = f"
  defines "m' \<equiv> blk_set b (\<lambda>x. x\<lparr>bl_instrs := bl_instrs x @ [i]\<rparr>) m"
  shows "grows f m m'" and "module_typed m'" and "fblocks m' f = fblocks m f" and "is_val m' = is_val m"
    and "blk_obj m' b = (blk_obj m b)\<lparr>bl_instrs := bl_instrs (blk_obj m b) @ [i]\<rparr>" and "k \<noteq> b \<Longrightarrow> blk_obj m' k = blk_obj m k"
    and "length (im_blocks m') = length (im_blocks m)"
proof -
  show bo: "blk_obj m' b = (blk_obj m b)\<lparr>bl_instrs := bl_instrs (blk_obj m b) @ [i]\<rparr>" "\<And>k. k \<noteq> b \<Longrightarrow> blk_obj m' k = blk_obj m k"
    using b by (simp_all add: m'_def blk_set_def blk_obj_def)
  have l: "im_types m' = im_types m" "im_values m' = im_values m" "im_functions m' = im_functions m"
    "im_ty_void m' = im_ty_void m" "basic_types m' = basic_types m"
    by (simp_all add: m'_def blk_set_def basic_types_def)
  show lb: "length (im_blocks m') = length (im_blocks m)" by (simp add: m'_def blk_set_def)
  have "bl_parent (blk_obj m' k) = bl_parent (blk_obj m k) \<and> (bl_parent (blk_obj m k) \<noteq> f \<longrightarrow> blk_obj m' k = blk_obj m k)" for k
    using bo b by (cases "k = b") auto
  then show gr: "grows f m m'" using l lb by (simp add: grows_def val_obj_def fn_obj_def same_sig_def)
  show "module_typed m'" by (rule module_typed_grows [OF ok gr]) (use module_types [OF ok] l in auto)
  show "fblocks m' f = fblocks m f" by (simp add: fblocks_def fn_obj_def l)
  show "is_val m' = is_val m" by (simp add: fun_eq_iff is_val_def val_obj_def nonvoid_def has_ty_def ty_obj_def l)
qed

text \<open>Every instruction, its targets in the function: a terminator closes the current block.\<close>

definition emitted :: "meaning \<Rightarrow> fnref \<Rightarrow> lower \<Rightarrow> bool \<Rightarrow> lower \<Rightarrow> bool" where
  "emitted C f L term L' \<longleftrightarrow> steps C f L L' \<and> same_scope L L' \<and> cur_bb L' = cur_bb L \<and> others f L' = others f L \<and> is_open L' = (\<not> term)
     \<and> lw_next_label L' = lw_next_label L"

lemma plain_snoc: "plain (is @ [i]) \<longleftrightarrow> plain is \<and> \<not> is_terminator (in_op i)"
  by (auto simp: plain_def)

lemma emit_step:
  assumes r: "ready C f L" and t: "\<And>t. rt = Some t \<Longrightarrow> has_ty (lw_m L) t"
    and op: "\<And>x. in_op (fill ((ir_instr_zero op args)\<lparr>in_result := x\<rparr>)) = op"
    and tg: "\<And>x. targets (fill ((ir_instr_zero op args)\<lparr>in_result := x\<rparr>)) \<subseteq> fblocks (lw_m L) f"
  shows "\<exists>x b. emit (lw_b L) op rt args fill = Some (x, b) \<and> emitted C f L (is_terminator op) (L\<lparr>lw_b := b\<rparr>)
    \<and> result_ok (lw_m L) rt x (ib_module b)"
proof -
  obtain x m where e: "emit_result (lw_b L) rt = Some (x, m)" and g: "grows f (lw_m L) m" and ok: "module_typed m"
    and bl: "im_blocks m = im_blocks (lw_m L)" and fb: "fblocks m f = fblocks (lw_m L) f" and res: "result_ok (lw_m L) rt x m"
    using emit_result_ok [OF r t] by blast
  let ?c = "cur_bb L"
  let ?i = "fill ((ir_instr_zero op args)\<lparr>in_result := x\<rparr>)"
  define m' where "m' = blk_set ?c (\<lambda>x. x\<lparr>bl_instrs := bl_instrs x @ [?i]\<rparr>) m"
  let ?L = "L\<lparr>lw_b := (lw_b L)\<lparr>ib_module := m'\<rparr>\<rparr>"
  have lo: "lower_ok C f L" using r by (simp add: ready_def)
  have bo: "body_block (lw_m L) f k" if "k \<in> fblocks (lw_m L) f" for k using lo that by (simp add: lower_ok_def body_ok_def)
  have ko: "blk_obj m k = blk_obj (lw_m L) k" for k by (simp add: blk_obj_def bl)
  have c: "?c < length (im_blocks m)" "bl_parent (blk_obj m ?c) = f"
    using bo [OF readyD(7) [OF r]] by (simp_all add: body_block_def bl ko)
  note a = append_step [OF ok c, where i = ?i, folded m'_def]
  have pl: "plain (bl_instrs (blk_obj m ?c))"
    using r bo [OF readyD(7) [OF r]] open_plain
    by (simp add: ready_def is_open_def closed_def ir_block_is_terminated_def body_block_def ko)
  have "body_block m' f k" if "k \<in> fblocks m' f" for k
    using bo [of k] that pl tg a fb by (cases "k = ?c") (auto simp: body_block_def ko bl)
  moreover have "f < length (im_functions m')"
    using readyD(4) [OF r] g a(1) by (auto simp: grows_def)
  ultimately have body: "body_ok m' f" by (simp add: body_ok_def)
  have gr: "grows f (lw_m L) m'" using g a(1) grows_trans by blast
  have "env_ok C ?L"
  proof (rule env_ok_grows)
    show env: "env_ok C L" using lo by (simp add: lower_ok_def)
    show "runtime_ok (lw_m ?L) (lw_memcpy ?L)" "runtime_ok (lw_m ?L) (lw_memset ?L)"
      using runtime_ok_grows [OF gr] env by (auto simp: env_ok_def)
    show "module_typed (lw_m L)" using lo by (simp add: lower_ok_def)
  qed (use gr in simp_all)
  then have lo': "lower_ok C f ?L" using lo a(2) body a(3) fb by (simp add: lower_ok_def)
  have cl: "closed m' k = (if k = ?c then is_terminator op else closed (lw_m L) k)" for k
    using a(5,6) op [of x] by (simp add: closed_def ir_block_is_terminated_def ko)
  have "others f ?L = others f L" by (auto simp: others_def pending_def cur_bb_def a(3) fb cl)
  moreover have "is_open ?L = (\<not> is_terminator op)" by (simp add: is_open_def cl cur_bb_def)
  moreover have "steps C f L ?L" using lo' gr a(3) fb by (simp add: steps_def)
  ultimately have em: "emitted C f L (is_terminator op) ?L" by (simp add: emitted_def same_scope_def cur_bb_def)
  have "result_ok (lw_m L) rt x m'" using res a(4) by (simp add: result_ok_def split: option.splits)
  moreover have "emit (lw_b L) op rt args fill = Some (x, (lw_b L)\<lparr>ib_module := m'\<rparr>)"
    using readyD(6) [OF r] e by (simp add: emit_def m'_def)
  ultimately show ?thesis using em by auto
qed

end
