(* ===== verification/Slop_Lower_Steps.thy ===== *)
theory Slop_Lower_Steps
  imports Slop_Lower_Inv
begin

text \<open>
  The instructions, blocks and types the lowering of expressions and statements is made of, each as a step that keeps
  the invariant of \<open>Slop_Lower_Inv\<close>, with the value it gives.
\<close>

section \<open>Instructions\<close>

definition some_val :: "valref option \<Rightarrow> lower \<Rightarrow> bool" where
  "some_val r L \<longleftrightarrow> (\<exists>v. r = Some v \<and> is_val (lw_m L) v)"

definition maybe_val :: "valref option \<Rightarrow> lower \<Rightarrow> bool" where
  "maybe_val r L \<longleftrightarrow> (\<forall>v. r = Some v \<longrightarrow> is_val (lw_m L) v)"

lemma some_maybe: "some_val r L \<Longrightarrow> maybe_val r L"
  by (auto simp: some_val_def maybe_val_def)

lemma some_val_Some [simp]: "some_val (Some v) L \<longleftrightarrow> is_val (lw_m L) v"
  by (simp add: some_val_def)

lemma goes_some_val: "goes C f a b \<Longrightarrow> some_val r a \<Longrightarrow> some_val r b"
  using goes_val by (auto simp: some_val_def)

lemma steps_some_val: "steps C f a b \<Longrightarrow> some_val r a \<Longrightarrow> some_val r b"
  using steps_val by (auto simp: some_val_def)

lemma emitted_goes: "emitted C f L False L' \<Longrightarrow> goes C f L L'"
  by (simp add: emitted_def goes_def)

lemma yields_emit:
  assumes "ready C f L" and "g (lw_b L) = emit (lw_b L) op rt args fill" and "\<And>t. rt = Some t \<Longrightarrow> has_ty (lw_m L) t"
    and "\<not> is_terminator op" and "\<And>x. in_op (fill ((ir_instr_zero op args)\<lparr>in_result := x\<rparr>)) = op"
    and "\<And>x. targets (fill ((ir_instr_zero op args)\<lparr>in_result := x\<rparr>)) = {}"
  shows "yields C f L (build g L) (\<lambda>r L'. result_ok (lw_m L) rt r (lw_m L'))"
proof -
  obtain x b where "emit (lw_b L) op rt args fill = Some (x, b)" "emitted C f L (is_terminator op) (L\<lparr>lw_b := b\<rparr>)"
    "result_ok (lw_m L) rt x (ib_module b)"
    using emit_step [where rt = rt and fill = fill and op = op and args = args, OF assms(1,3,5)] assms(6) by auto
  then show ?thesis using assms(2,4) by (auto simp: yields_iff build_def intro: emitted_goes)
qed

lemma result_some: "result_ok m (Some t) r (lw_m L') \<Longrightarrow> nonvoid m t \<Longrightarrow> some_val r L'"
  by (simp add: result_ok_def some_val_def)

lemma result_maybe: "result_ok m (Some t) r (lw_m L') \<Longrightarrow> maybe_val r L'"
  by (auto simp: result_ok_def maybe_val_def split: if_splits)

lemma yields_build_value:
  assumes "yields C f L (build g L) some_val"
  shows "yields C f L (build_value g L) (\<lambda>v L'. is_val (lw_m L') v)"
  using assms by (auto simp: yields_iff build_value_def some_val_def)

lemma no_targets: "targets ((ir_instr_zero op args)\<lparr>in_result := x\<rparr>) = {}"
  by (simp add: targets_def ir_instr_zero_def)

lemma val_type: "ready C f L \<Longrightarrow> is_val (lw_m L) v \<Longrightarrow> nonvoid (lw_m L) (type_of (lw_b L) v)"
  by (simp add: is_val_def type_of_def)

lemma nonvoid_ty: "nonvoid m t \<Longrightarrow> has_ty m t"
  by (simp add: nonvoid_def)

lemma ready_basic:
  assumes "ready C f L"
  shows "nonvoid (lw_m L) (im_ty_i1 (lw_m L))" "nonvoid (lw_m L) (im_ty_i8 (lw_m L))" "nonvoid (lw_m L) (im_ty_i32 (lw_m L))"
    "nonvoid (lw_m L) (im_ty_i64 (lw_m L))" "nonvoid (lw_m L) (im_ty_f32 (lw_m L))" "nonvoid (lw_m L) (im_ty_f64 (lw_m L))"
    "nonvoid (lw_m L) (im_ty_ptr (lw_m L))"
  using basic_nonvoid [OF readyD(1) [OF assms]] by auto

lemma build_cast:
  assumes r: "ready C f L" and t: "nonvoid (lw_m L) t" and op: "\<not> is_terminator op"
  shows "yields C f L (build (\<lambda>b. ir_build_cast b op v t) L) some_val"
  by (rule yields_mono, rule yields_emit [OF r])
    (use t op result_some in \<open>auto simp: ir_build_cast_def targets_def ir_instr_zero_def nonvoid_ty\<close>)

lemma build_binary:
  assumes r: "ready C f L" and v: "is_val (lw_m L) v" and op: "\<not> is_terminator op"
  shows "yields C f L (build (\<lambda>b. ir_build_binary b op v w) L) some_val"
  by (rule yields_mono, rule yields_emit [OF r])
    (use val_type [OF r v] op result_some in \<open>auto simp: ir_build_binary_def targets_def ir_instr_zero_def nonvoid_ty\<close>)

lemma build_icmp:
  assumes r: "ready C f L"
  shows "yields C f L (build (\<lambda>b. ir_build_icmp b p v w) L) some_val"
    and "yields C f L (build (\<lambda>b. ir_build_fcmp b p v w) L) some_val"
  by (rule yields_mono, rule yields_emit [OF r],
      use ready_basic [OF r] result_some in \<open>auto simp: ir_build_icmp_def ir_build_fcmp_def build_cmp_def targets_def
        ir_instr_zero_def nonvoid_ty is_terminator_def\<close>)+

lemma build_load:
  assumes r: "ready C f L" and t: "nonvoid (lw_m L) t"
  shows "yields C f L (build (\<lambda>b. ir_build_load b t p) L) some_val"
  by (rule yields_mono, rule yields_emit [OF r])
    (use t result_some in \<open>auto simp: ir_build_load_def targets_def ir_instr_zero_def nonvoid_ty is_terminator_def\<close>)

lemma build_index:
  assumes r: "ready C f L"
  shows "yields C f L (build (\<lambda>b. ir_build_gep_index b t p i) L) some_val"
  by (rule yields_mono, rule yields_emit [OF r])
    (use ready_basic [OF r] result_some in \<open>auto simp: ir_build_gep_index_def targets_def ir_instr_zero_def nonvoid_ty is_terminator_def\<close>)

lemma build_call:
  assumes r: "ready C f L" and g: "g < length (im_functions (lw_m L))"
  shows "yields C f L (build (\<lambda>b. ir_build_call b g args) L)
    (\<lambda>v L'. maybe_val v L' \<and> (nonvoid (lw_m L) (if_ret (fn_obj (lw_m L) g)) \<longrightarrow> some_val v L'))"
proof -
  have "has_ty (lw_m L) (if_ret (fn_obj (lw_m L) g))" using readyD(1) [OF r] g by (simp add: module_typed_def sig_ok_def)
  then show ?thesis
    by (intro yields_mono [OF yields_emit [OF r]])
      (use result_some result_maybe in \<open>auto simp: ir_build_call_def Let_def targets_def ir_instr_zero_def is_terminator_def\<close>)
qed

lemma store_goes:
  assumes r: "ready C f L"
  shows "\<exists>L'. store v p L = Some L' \<and> goes C f L L'"
proof -
  have "yields C f L (build (\<lambda>b. ir_build_store b v p) L) (\<lambda>_ _. True)"
    by (rule yields_mono, rule yields_emit [OF r])
      (auto simp: ir_build_store_def targets_def ir_instr_zero_def is_terminator_def)
  then show ?thesis by (auto simp: yields_iff store_def)
qed

text \<open>\<open>alloca\<close> names its result, \<open>gep\<close> on a field makes a constant first.\<close>

lemma rename_goes:
  assumes r: "ready C f L" and k: "\<And>x. iv_type (g x) = iv_type x"
  shows "goes C f L (L\<lparr>lw_b := (lw_b L)\<lparr>ib_module := value_set v g (lw_m L)\<rparr>\<rparr>)"
  by (rule module_step [OF r]) (use set_value [OF readyD(1) [OF r] k] in \<open>auto simp: value_set_def fn_obj_def\<close>)

lemma build_alloca:
  assumes r: "ready C f L"
  shows "yields C f L (build_value (\<lambda>b. ir_build_alloca b t (Some n)) L) (\<lambda>v L'. is_val (lw_m L') v)"
proof -
  let ?fill = "\<lambda>x. x\<lparr>in_type_arg := Some t\<rparr>"
  have "yields C f L (build (\<lambda>b. emit b IR_ALLOCA (Some (im_ty_ptr (ib_module b))) [] ?fill) L) some_val"
    by (rule yields_mono, rule yields_emit [OF r])
      (use ready_basic [OF r] result_some in \<open>auto simp: targets_def ir_instr_zero_def nonvoid_ty is_terminator_def\<close>)
  then obtain v L' where b: "build (\<lambda>b. emit b IR_ALLOCA (Some (im_ty_ptr (ib_module b))) [] ?fill) L = Some (Some v, L')"
    and g: "goes C f L L'" and v: "is_val (lw_m L') v"
    by (auto simp: yields_iff some_val_def)
  let ?g = "\<lambda>x. x\<lparr>iv_name := n\<rparr>"
  let ?L = "L'\<lparr>lw_b := (lw_b L')\<lparr>ib_module := value_set v ?g (lw_m L')\<rparr>\<rparr>"
  have "goes C f L' ?L" by (rule rename_goes [OF goes_ready [OF g]]) simp
  moreover have "build_value (\<lambda>b. ir_build_alloca b t (Some n)) L = Some (v, ?L)"
    using b by (auto simp: build_value_def build_def ir_build_alloca_def split: bind_splits)
  moreover have "is_val (lw_m ?L) v" using set_value(3) [OF readyD(1) [OF goes_ready [OF g]], of ?g] v by simp
  ultimately show ?thesis using goes_trans [OF g] by (auto simp: yields_iff)
qed

lemma build_field:
  assumes r: "ready C f L"
  shows "yields C f L (build (\<lambda>b. ir_build_gep_field b st p i) L) some_val"
proof -
  let ?c = "in_module (\<lambda>m. ir_const_int m (im_ty_i32 m) (ucast i)) L"
  have mv: "makes_value (\<lambda>m. ir_const_int m (im_ty_i32 m) (ucast i)) (lw_m L)"
    using makes_const(1) [OF readyD(1) [OF r] ready_basic(3) [OF r]] by (simp add: makes_value_def)
  note g = module_value(1) [OF r mv]
  let ?fill = "\<lambda>x. x\<lparr>in_type_arg := Some st, in_gep := IR_GEP_FIELD\<rparr>"
  have "yields C f (snd ?c) (build (\<lambda>b. emit b IR_GEP (Some (im_ty_ptr (ib_module b))) [p, fst ?c] ?fill) (snd ?c)) some_val"
    by (rule yields_mono, rule yields_emit [OF goes_ready [OF g]])
      (use ready_basic [OF goes_ready [OF g]] result_some in \<open>auto simp: targets_def ir_instr_zero_def nonvoid_ty is_terminator_def\<close>)
  moreover have "build (\<lambda>b. ir_build_gep_field b st p i) L
      = build (\<lambda>b. emit b IR_GEP (Some (im_ty_ptr (ib_module b))) [p, fst ?c] ?fill) (snd ?c)"
    by (simp add: build_def ir_build_gep_field_def in_module_def Let_def split_def)
  ultimately show ?thesis using goes_trans [OF g] by (auto simp: yields_iff)
qed

section \<open>Blocks and branches\<close>

text \<open>After a terminator the current block is no longer pending.\<close>

definition closes :: "meaning \<Rightarrow> fnref \<Rightarrow> lower \<Rightarrow> lower \<Rightarrow> bool" where
  "closes C f L L' \<longleftrightarrow> steps C f L L' \<and> same_scope L L' \<and> \<not> is_open L' \<and> others f L' = others f L"

lemma emitted_closes: "emitted C f L True L' \<Longrightarrow> closes C f L L'"
  by (simp add: emitted_def closes_def)

lemma close_step:
  assumes r: "ready C f L" and g: "g (lw_b L) = emit (lw_b L) op None args fill" and op: "is_terminator op"
    "\<And>x. in_op (fill ((ir_instr_zero op args)\<lparr>in_result := x\<rparr>)) = op"
    and tg: "\<And>x. targets (fill ((ir_instr_zero op args)\<lparr>in_result := x\<rparr>)) \<subseteq> fblocks (lw_m L) f"
  shows "\<exists>L'. map_option snd (build g L) = Some L' \<and> closes C f L L'"
proof -
  obtain x b where "emit (lw_b L) op None args fill = Some (x, b)" "emitted C f L (is_terminator op) (L\<lparr>lw_b := b\<rparr>)"
    using emit_step [where rt = None and fill = fill and op = op and args = args, OF r _ op(2) tg] by auto
  then show ?thesis using g op by (auto simp: build_def intro: emitted_closes)
qed

lemma br_step: "ready C f L \<Longrightarrow> bb \<in> fblocks (lw_m L) f \<Longrightarrow> \<exists>L'. br bb L = Some L' \<and> closes C f L L'"
  unfolding br_def
  by (rule close_step) (auto simp: ir_build_br_def targets_def ir_instr_zero_def is_terminator_def)

lemma condbr_step: "ready C f L \<Longrightarrow> t \<in> fblocks (lw_m L) f \<Longrightarrow> e \<in> fblocks (lw_m L) f \<Longrightarrow> \<exists>L'. condbr c t e L = Some L' \<and> closes C f L L'"
  unfolding condbr_def
  by (rule close_step) (auto simp: ir_build_condbr_def targets_def ir_instr_zero_def is_terminator_def)

lemma ret_step: "ready C f L \<Longrightarrow> \<exists>L'. map_option snd (build (\<lambda>b. ir_build_ret b v) L) = Some L' \<and> closes C f L L'"
  by (cases v; rule close_step) (auto simp: ir_build_ret_def targets_def ir_instr_zero_def is_terminator_def)

lemma unreachable_step: "ready C f L \<Longrightarrow> \<exists>L'. map_option snd (build ir_build_unreachable L) = Some L' \<and> closes C f L L'"
  by (rule close_step) (auto simp: ir_build_unreachable_def targets_def ir_instr_zero_def is_terminator_def)

text \<open>Going on in another block, once the current one is closed.\<close>

lemma lower_okD:
  assumes "lower_ok C f L"
  shows "module_typed (lw_m L)" and "env_ok C L" and "body_ok (lw_m L) f" and "lw_cur L = Some f" and "f < length (im_functions (lw_m L))"
    and "ib_block (lw_b L) = Some (cur_bb L)" and "cur_bb L \<in> fblocks (lw_m L) f" and "ib_fn (lw_b L) = Some f"
  using assms by (auto simp: lower_ok_def body_ok_def cur_bb_def)

lemma closed_pending: "\<not> is_open L \<Longrightarrow> pending (lw_m L) f = others f L"
  by (auto simp: others_def pending_def is_open_def)

lemma others_block: "bb \<in> others f L \<Longrightarrow> bb \<in> fblocks (lw_m L) f \<and> \<not> closed (lw_m L) bb"
  by (simp add: others_def pending_def)

lemma position_step:
  assumes lo: "lower_ok C f L" and b: "bb \<in> pending (lw_m L) f"
  shows "ready C f (position bb L)" and "steps C f L (position bb L)" and "same_scope L (position bb L)"
    and "cur_bb (position bb L) = bb" and "others f (position bb L) = pending (lw_m L) f - {bb}"
    and "lw_m (position bb L) = lw_m L"
proof -
  have m: "lw_m (position bb L) = lw_m L" by (simp add: position_def ir_builder_position_def)
  have fb: "bb \<in> fblocks (lw_m L) f" "\<not> closed (lw_m L) bb" using b by (auto simp: pending_def)
  then have par: "bl_parent (blk_obj (lw_m L) bb) = f" using lower_okD(3) [OF lo] by (simp add: body_ok_def body_block_def)
  show c: "cur_bb (position bb L) = bb" by (simp add: cur_bb_def position_def ir_builder_position_def)
  have "env_ok C (position bb L)"
    using lower_okD(2) [OF lo] unfolding env_ok_def m by (simp add: position_def find_named_def find_func_def)
  then have "lower_ok C f (position bb L)"
    using lo fb par unfolding lower_ok_def m by (simp add: position_def ir_builder_position_def)
  then show "steps C f L (position bb L)" "ready C f (position bb L)"
    using fb c unfolding steps_def ready_def is_open_def m by (simp_all add: position_def)
  show "same_scope L (position bb L)" by (simp add: same_scope_def position_def)
  show "others f (position bb L) = pending (lw_m L) f - {bb}" by (simp add: others_def c m)
  show "lw_m (position bb L) = lw_m L" by (rule m)
qed

text \<open>A new block is empty, and pending besides the others.\<close>

lemma label_ok: "lower_ok C f L \<Longrightarrow> lower_ok C f (snd (label_name stem L))"
  by (simp add: label_name_def lower_ok_def env_ok_def find_named_def find_func_def)

lemma new_block_step:
  assumes lo: "lower_ok C f L"
  shows "\<exists>bb L'. new_block stem L = Some (bb, L') \<and> steps C f L L' \<and> same_scope L L' \<and> cur_bb L' = cur_bb L \<and> is_open L' = is_open L
    \<and> bb \<notin> fblocks (lw_m L) f \<and> bb \<noteq> cur_bb L \<and> others f L' = insert bb (others f L)"
proof -
  let ?L = "snd (label_name stem L)"
  let ?n = "fst (label_name stem L)"
  let ?bb = "length (im_blocks (lw_m L))"
  let ?B = "\<lparr>bl_name = ?n, bl_instrs = [], bl_parent = f\<rparr>"
  let ?m1 = "(lw_m L)\<lparr>im_blocks := im_blocks (lw_m L) @ [?B]\<rparr>"
  let ?m = "fn_set f (\<lambda>x. x\<lparr>if_blocks := if_blocks x @ [?bb]\<rparr>) ?m1"
  let ?L' = "?L\<lparr>lw_b := (lw_b ?L)\<lparr>ib_module := ?m\<rparr>\<rparr>"
  have lm: "lw_m ?L = lw_m L" by (simp add: label_name_def)
  have eq: "new_block stem L = Some (?bb, ?L')"
    using lower_okD(4) [OF lo] by (simp add: new_block_def label_name_def in_module_eq ir_block_new_def Let_def)
  have f: "f < length (im_functions (lw_m L))" using lower_okD(5) [OF lo] .
  have ok: "module_typed (lw_m L)" using lower_okD(1) [OF lo] .
  have fo: "fn_obj ?m g = (if g = f then (fn_obj (lw_m L) f)\<lparr>if_blocks := if_blocks (fn_obj (lw_m L) f) @ [?bb]\<rparr> else fn_obj (lw_m L) g)"
    for g using f by (simp add: fn_set_def fn_obj_def)
  have fb: "fblocks ?m f = insert ?bb (fblocks (lw_m L) f)" by (auto simp: fblocks_def fo)
  have bo: "blk_obj ?m k = (if k = ?bb then ?B else blk_obj (lw_m L) k)" if "k \<le> ?bb" for k
    using that by (simp add: fn_set_def blk_obj_def nth_append)
  have lt: "k < ?bb" if "k \<in> fblocks (lw_m L) f" for k
    using lower_okD(3) [OF lo] that by (simp add: body_ok_def body_block_def)
  have l: "im_types ?m = im_types (lw_m L)" "im_values ?m = im_values (lw_m L)" "length (im_functions ?m) = length (im_functions (lw_m L))"
    "im_ty_void ?m = im_ty_void (lw_m L)" "basic_types ?m = basic_types (lw_m L)" "length (im_blocks ?m) = Suc ?bb"
    by (simp_all add: fn_set_def basic_types_def)
  have gr: "grows f (lw_m L) ?m"
    using l bo fo by (simp add: grows_def val_obj_def same_sig_def)
  have mok: "module_typed ?m" by (rule module_typed_grows [OF ok gr]) (use module_types [OF ok] l in auto)
  have "body_block ?m f k" if "k \<in> fblocks ?m f" for k
  proof (cases "k = ?bb")
    case True
    then show ?thesis by (simp add: body_block_def bo l plain_def)
  next
    case False
    then have k: "k \<in> fblocks (lw_m L) f" using that fb by simp
    then have "body_block (lw_m L) f k" using lower_okD(3) [OF lo] by (simp add: body_ok_def)
    moreover have "blk_obj ?m k = blk_obj (lw_m L) k" using bo [of k] lt [OF k] by simp
    ultimately show ?thesis using fb l(6) by (auto simp: body_block_def)
  qed
  then have body: "body_ok ?m f" using f l(3) by (simp add: body_ok_def)
  have env: "env_ok C ?L'"
  proof (rule env_ok_grows [where L = ?L])
    show e: "env_ok C ?L" using lower_okD(2) [OF label_ok [OF lo]] .
    show "grows f (lw_m ?L) (lw_m ?L')" using gr lm by simp
    then show "runtime_ok (lw_m ?L') (lw_memcpy ?L')" "runtime_ok (lw_m ?L') (lw_memset ?L')"
      using runtime_ok_grows e by (auto simp: env_ok_def)
    show "module_typed (lw_m ?L)" using ok lm by simp
  qed simp_all
  have bl: "lw_b ?L = lw_b L" "lw_cur ?L = lw_cur L" "lw_loops ?L = lw_loops L" by (simp_all add: label_name_def)
  have lo': "lower_ok C f ?L'"
    using lo mok body env fb by (auto simp: lower_ok_def bl)
  have cu: "cur_bb ?L' = cur_bb L" by (simp add: cur_bb_def bl)
  have cl: "closed ?m k = (if k = ?bb then False else closed (lw_m L) k)" if "k \<le> ?bb" for k
    using bo [OF that] by (simp add: closed_def ir_block_is_terminated_def)
  have old: "closed ?m k = closed (lw_m L) k" if "k \<in> fblocks (lw_m L) f" for k
    using cl [of k] lt [OF that] by simp
  have ne: "?bb \<noteq> cur_bb L" using lt [OF lower_okD(7) [OF lo]] by simp
  have op: "is_open ?L' = is_open L"
    using cl [of "cur_bb L"] ne lt [OF lower_okD(7) [OF lo]] unfolding is_open_def cu by simp
  have "others f ?L' = insert ?bb (others f L)"
  proof -
    have "pending ?m f = insert ?bb (pending (lw_m L) f)"
      using old cl [of ?bb] by (auto simp: pending_def fb)
    then show ?thesis unfolding others_def cu using ne by auto
  qed
  moreover have "steps C f L ?L'" using lo' gr fb by (auto simp: steps_def label_name_def)
  moreover have "?bb \<notin> fblocks (lw_m L) f" using lt by blast
  ultimately show ?thesis using eq cu op ne by (auto simp: same_scope_def label_name_def)
qed

end
