(* ===== verification/Slop_Lower_Total.thy ===== *)
theory Slop_Lower_Total
  imports Slop_Lower_Steps
begin

text \<open>
  Lowering an expression ends. The trees it is shown for are those of a checked program: every child is there and
  has a type that is not \<open>void\<close>, unless its value is not looked at. Then \<open>lower_expr\<close> gives a value, in a block that
  is open, and all blocks it made on the way are closed.
\<close>

section \<open>Types\<close>

definition adds :: "lower \<Rightarrow> lower \<Rightarrow> bool" where
  "adds L L' \<longleftrightarrow> (\<exists>m. L' = L\<lparr>lw_b := (lw_b L)\<lparr>ib_module := m\<rparr>\<rparr> \<and> (\<forall>f. grows f (lw_m L) m) \<and> module_typed m
     \<and> im_blocks m = im_blocks (lw_m L) \<and> im_functions m = im_functions (lw_m L))"

lemma adds_refl: "module_typed (lw_m L) \<Longrightarrow> adds L L"
  by (auto simp: adds_def intro!: exI [of _ "lw_m L"])

lemma adds_trans:
  assumes "adds a b" and "adds b c"
  shows "adds a c"
proof -
  obtain m where m: "b = a\<lparr>lw_b := (lw_b a)\<lparr>ib_module := m\<rparr>\<rparr>" "\<forall>f. grows f (lw_m a) m"
    "im_blocks m = im_blocks (lw_m a)" "im_functions m = im_functions (lw_m a)"
    using assms(1) by (auto simp: adds_def)
  obtain m' where m': "c = b\<lparr>lw_b := (lw_b b)\<lparr>ib_module := m'\<rparr>\<rparr>" "\<forall>f. grows f (lw_m b) m'" "module_typed m'"
    "im_blocks m' = im_blocks (lw_m b)" "im_functions m' = im_functions (lw_m b)"
    using assms(2) by (auto simp: adds_def)
  have "grows f (lw_m a) m'" for f using m(1,2) m'(2) grows_trans [of f "lw_m a" m m'] by simp
  then show ?thesis using m m' by (auto simp: adds_def)
qed

lemma adds_goes:
  assumes "ready C f L" and "adds L L'"
  shows "goes C f L L'"
proof -
  obtain m where "L' = L\<lparr>lw_b := (lw_b L)\<lparr>ib_module := m\<rparr>\<rparr>" "grows f (lw_m L) m" "module_typed m"
    "im_blocks m = im_blocks (lw_m L)" "im_functions m = im_functions (lw_m L)"
    using assms(2) by (auto simp: adds_def)
  then show ?thesis using module_step [OF assms(1), of m] by (simp add: fn_obj_def)
qed

lemma adds_ok: "adds L L' \<Longrightarrow> module_typed (lw_m L')"
  by (auto simp: adds_def)

lemma adds_same: "adds L L' \<Longrightarrow> lw_tt L' = lw_tt L \<and> lw_named L' = lw_named L"
  by (auto simp: adds_def)

lemma adds_nonvoid: "adds L L' \<Longrightarrow> nonvoid (lw_m L) t \<Longrightarrow> nonvoid (lw_m L') t"
  using grows_nonvoid by (fastforce simp: adds_def)

lemma adds_has_ty: "adds L L' \<Longrightarrow> has_ty (lw_m L) t \<Longrightarrow> has_ty (lw_m L') t"
  using grows_ty(1) by (fastforce simp: adds_def)

text \<open>The names of structs and enums.\<close>

definition names_ok :: "string set \<Rightarrow> lower \<Rightarrow> bool" where
  "names_ok N L \<longleftrightarrow> (\<forall>n \<in> N. find_named L n \<noteq> None) \<and> (\<forall>n \<in> set (lw_named L). nonvoid (lw_m L) (nt_type n))"

lemma names_adds: "names_ok N L \<Longrightarrow> adds L L' \<Longrightarrow> names_ok N L'"
  using adds_nonvoid adds_same by (auto simp: names_ok_def find_named_def)

lemma names_ready: "ready C f L \<Longrightarrow> names_ok (mn_types C) L"
  by (auto simp: ready_def lower_ok_def env_ok_def names_ok_def)

lemma ir_of_name_ok:
  assumes ok: "module_typed (lw_m L)" and n: "names_ok N L"
  shows "has_ty (lw_m L) (ir_of_name L name)" and "name \<in> N \<Longrightarrow> nonvoid (lw_m L) (ir_of_name L name)"
proof -
  have nv: "nonvoid (lw_m L) (nt_type nt)" if "find_named L name = Some nt" for nt
    using n that find_SomeD by (fastforce simp: names_ok_def find_named_def)
  then show "has_ty (lw_m L) (ir_of_name L name)"
    using ok by (auto simp: ir_of_name_def ir_type_void_def module_typed_def nonvoid_def split: option.splits)
  show "nonvoid (lw_m L) (ir_of_name L name)" if "name \<in> N"
    using n that nv by (auto simp: ir_of_name_def names_ok_def split: option.splits)
qed

text \<open>A declared type that is not \<open>void\<close>.\<close>

definition core_values :: "token_kind set" where
  "core_values = Keyword ` {TOK_KW_I8, TOK_KW_U8, TOK_KW_B8, TOK_KW_I32, TOK_KW_U32, TOK_KW_B32, TOK_KW_I64, TOK_KW_U64,
     TOK_KW_B64, TOK_KW_F32, TOK_KW_F64}"

fun value_type :: "string set \<Rightarrow> ast_type \<Rightarrow> bool" where
  "value_type N (TYPE_CORE pos k) \<longleftrightarrow> k \<in> core_values"
| "value_type N (TYPE_NAME pos n) \<longleftrightarrow> n \<in> N"
| "value_type N (TYPE_POINTER pos t) \<longleftrightarrow> True"
| "value_type N (TYPE_ARRAY pos t n) \<longleftrightarrow> True"

lemma in_module_same: "fst (g (lw_m L)) = r \<Longrightarrow> snd (g (lw_m L)) = lw_m L \<Longrightarrow> in_module g L = (r, L)"
  by (simp add: in_module_eq)

lemma int_type_eq: "in_module (\<lambda>m. ir_type_int m 8) L = (im_ty_i8 (lw_m L), L)"
  "in_module (\<lambda>m. ir_type_int m 32) L = (im_ty_i32 (lw_m L), L)" "in_module (\<lambda>m. ir_type_int m 64) L = (im_ty_i64 (lw_m L), L)"
  by (auto intro!: in_module_same simp: ir_type_int_def)

lemma plain_type_eq: "in_module (\<lambda>m. (ir_type_float m b, m)) L = (ir_type_float (lw_m L) b, L)"
  "in_module (\<lambda>m. (ir_type_void m, m)) L = (ir_type_void (lw_m L), L)"
  by (auto intro!: in_module_same)

lemma float_nonvoid: "module_typed m \<Longrightarrow> nonvoid m (ir_type_float m b)"
  using basic_nonvoid by (simp add: ir_type_float_def)

lemma ir_of_core_ok:
  assumes ok: "module_typed (lw_m L)"
  shows "snd (ir_of_core k L) = L \<and> has_ty (lw_m L) (fst (ir_of_core k L)) \<and> (k \<in> core_values \<longrightarrow> nonvoid (lw_m L) (fst (ir_of_core k L)))"
proof -
  have v: "has_ty (lw_m L) (ir_type_void (lw_m L))" using ok by (simp add: module_typed_def ir_type_void_def)
  note nv = basic_nonvoid [OF ok] float_nonvoid [OF ok]
  show ?thesis
    using v nv nv [THEN nonvoid_ty]
    by (auto simp: ir_of_core_def int_type_eq plain_type_eq core_values_def split: token_kind.split keyword.split)
qed

lemma array_adds:
  assumes ok: "module_typed (lw_m L)" and e: "has_ty (lw_m L) e"
  shows "adds L (snd (in_module (\<lambda>m. ir_type_array m e n) L))"
    and "nonvoid (lw_m (snd (in_module (\<lambda>m. ir_type_array m e n) L))) (fst (in_module (\<lambda>m. ir_type_array m e n) L))"
  using add_array [OF ok e, where n = n] by (auto simp: in_module_eq adds_def intro!: exI [of _ "snd (ir_type_array (lw_m L) e n)"])

lemma ir_of_ast_type_ok:
  "module_typed (lw_m L) \<Longrightarrow> names_ok N L \<Longrightarrow> adds L (snd (ir_of_ast_type t L)) \<and> has_ty (lw_m (snd (ir_of_ast_type t L))) (fst (ir_of_ast_type t L))
     \<and> (value_type N t \<longrightarrow> nonvoid (lw_m (snd (ir_of_ast_type t L))) (fst (ir_of_ast_type t L)))"
proof (induction t arbitrary: L)
  case (TYPE_CORE pos k)
  then show ?case using ir_of_core_ok [OF TYPE_CORE(1), of k] by (simp add: adds_refl)
next
  case (TYPE_NAME pos n)
  then show ?case using ir_of_name_ok by (simp add: adds_refl)
next
  case (TYPE_POINTER pos t)
  then show ?case using basic_nonvoid(7) [OF TYPE_POINTER(2)] by (simp add: adds_refl ir_type_ptr_def nonvoid_ty)
next
  case (TYPE_ARRAY pos t n)
  obtain e L' where e: "ir_of_ast_type t L = (e, L')" by fastforce
  then have "adds L L'" "has_ty (lw_m L') e" using TYPE_ARRAY.IH [OF TYPE_ARRAY.prems] by auto
  then show ?case
    using array_adds [OF adds_ok, of L L' e n] by (auto simp: e intro: adds_trans nonvoid_ty)
qed

text \<open>A resolved type of the table is lowered without a loop.\<close>

inductive lowered_ty :: "type_table \<Rightarrow> string set \<Rightarrow> tyref \<Rightarrow> bool" for tt :: type_table and N :: "string set" where
  "t_kind (ty_at tt t) \<in> {TY_VOID, TY_POISON, TY_I8, TY_U8, TY_B8, TY_I32, TY_U32, TY_B32, TY_UNTYPED_BOOL, TY_I64, TY_U64, TY_B64,
     TY_UNTYPED_INT, TY_F32, TY_F64, TY_UNTYPED_FLOAT, TY_PTR, TY_NULL} \<Longrightarrow> lowered_ty tt N t"
| "t_kind (ty_at tt t) = TY_ARRAY \<Longrightarrow> t_elem (ty_at tt t) = Some e \<Longrightarrow> lowered_ty tt N e \<Longrightarrow> lowered_ty tt N t"
| "t_kind (ty_at tt t) = TY_ENUM \<Longrightarrow> t_base (ty_at tt t) = Some e \<Longrightarrow> lowered_ty tt N e
    \<Longrightarrow> t_kind (ty_at tt e) \<notin> {TY_VOID, TY_POISON} \<Longrightarrow> lowered_ty tt N t"
| "t_kind (ty_at tt t) = TY_STRUCT \<Longrightarrow> t_name (ty_at tt t) \<in> N \<Longrightarrow> lowered_ty tt N t"

definition void_ty :: "type_table \<Rightarrow> tyref \<Rightarrow> bool" where
  "void_ty tt t \<longleftrightarrow> t_kind (ty_at tt t) \<in> {TY_VOID, TY_POISON}"

lemma ir_of_ty_ok:
  "lowered_ty tt N t \<Longrightarrow> lw_tt L = tt \<Longrightarrow> module_typed (lw_m L) \<Longrightarrow> names_ok N L
   \<Longrightarrow> \<exists>r L'. ir_of_ty (Some t) L = Some (r, L') \<and> adds L L' \<and> has_ty (lw_m L') r \<and> (\<not> void_ty tt t \<longrightarrow> nonvoid (lw_m L') r)"
proof (induction arbitrary: L rule: lowered_ty.induct)
  case (1 t)
  note nv = basic_nonvoid [OF 1(3)] float_nonvoid [OF 1(3)]
  have "has_ty (lw_m L) (ir_type_void (lw_m L))" using 1(3) by (simp add: module_typed_def ir_type_void_def)
  then show ?case using 1 nv nv [THEN nonvoid_ty] adds_refl [OF 1(3)]
    by (subst ir_of_ty.simps) (auto simp: lty_def int_type_eq ir_type_ptr_def void_ty_def)
next
  case (2 t e)
  obtain r L' where e: "ir_of_ty (Some e) L = Some (r, L')" "adds L L'" "has_ty (lw_m L') r" using 2 by blast
  obtain r2 L2 where x: "in_module (\<lambda>m. ir_type_array m r (t_length (lty L' t))) L' = (r2, L2)" by fastforce
  have "adds L L2" "nonvoid (lw_m L2) r2"
    using array_adds [OF adds_ok [OF e(2)] e(3), of "t_length (lty L' t)"] adds_trans [OF e(2)] by (simp_all add: x)
  then show ?case using 2 e x by (subst ir_of_ty.simps) (simp add: lty_def nonvoid_ty)
next
  case (3 t e)
  then show ?case by (subst ir_of_ty.simps) (auto simp: lty_def void_ty_def)
next
  case (4 t)
  then show ?case using ir_of_name_ok(2) [OF 4(4,5)] adds_refl [OF 4(4)] by (subst ir_of_ty.simps) (auto simp: lty_def nonvoid_ty)
qed

lemma yields_adds: "ready C f L \<Longrightarrow> m = Some (r, L') \<Longrightarrow> adds L L' \<Longrightarrow> Q r L' \<Longrightarrow> yields C f L m Q"
  using adds_goes by (auto simp: yields_iff)

lemma lower_tt: "ready C f L \<Longrightarrow> lw_tt L = mn_tt C"
  by (simp add: ready_def lower_ok_def env_ok_def)

text \<open>A type sema gives a value: known with its element type, and not \<open>void\<close>.\<close>

definition known_ty :: "meaning \<Rightarrow> tyref \<Rightarrow> bool" where
  "known_ty C t \<longleftrightarrow> lowered_ty (mn_tt C) (mn_types C) t
     \<and> (\<forall>e. t_elem (ty_at (mn_tt C) t) = Some e \<longrightarrow> lowered_ty (mn_tt C) (mn_types C) e)"

definition value_ty :: "meaning \<Rightarrow> tyref option \<Rightarrow> bool" where
  "value_ty C t \<longleftrightarrow> (\<exists>r. t = Some r \<and> known_ty C r \<and> \<not> void_ty (mn_tt C) r)"

lemma yields_any_ty:
  assumes "ready C f L" and "\<forall>r. t = Some r \<longrightarrow> lowered_ty (mn_tt C) (mn_types C) r"
  shows "yields C f L (ir_of_ty t L) (\<lambda>r L'. has_ty (lw_m L') r)"
proof (cases t)
  case None
  have "has_ty (lw_m L) (ir_type_void (lw_m L))" using readyD(1) [OF assms(1)] by (simp add: module_typed_def ir_type_void_def)
  then show ?thesis using None assms(1) by (subst ir_of_ty.simps) (simp add: yields_Some)
next
  case (Some r)
  with ir_of_ty_ok [OF _ lower_tt [OF assms(1)] readyD(1) [OF assms(1)] names_ready [OF assms(1)]] assms(2) show ?thesis
    using adds_goes [OF assms(1)] by (fastforce simp: yields_iff)
qed

lemma yields_ir_of_ty:
  assumes "ready C f L" and "value_ty C t"
  shows "yields C f L (ir_of_ty t L) (\<lambda>r L'. nonvoid (lw_m L') r)"
proof -
  obtain x where x: "t = Some x" "lowered_ty (mn_tt C) (mn_types C) x" "\<not> void_ty (mn_tt C) x"
    using assms(2) by (auto simp: value_ty_def known_ty_def)
  then obtain r L' where "ir_of_ty t L = Some (r, L')" "adds L L'" "nonvoid (lw_m L') r"
    using ir_of_ty_ok [OF x(2) lower_tt [OF assms(1)] readyD(1) [OF assms(1)] names_ready [OF assms(1)]] by blast
  then show ?thesis using adds_goes [OF assms(1)] by (auto simp: yields_iff)
qed

section \<open>Values\<close>

lemma yields_if: "(b \<Longrightarrow> yields C f L m Q) \<Longrightarrow> (\<not> b \<Longrightarrow> yields C f L m' Q) \<Longrightarrow> yields C f L (if b then m else m') Q"
  by simp

lemma yields_module:
  assumes "ready C f L" and "makes_value g (lw_m L)"
    and "\<And>v L'. goes C f L L' \<Longrightarrow> ready C f L' \<Longrightarrow> is_val (lw_m L') v \<Longrightarrow> yields C f L' (k v L') R"
  shows "yields C f L (let (v, L) = in_module g L in k v L) R"
  by (rule yields_let [where Q = "\<lambda>v L'. is_val (lw_m L') v"]) (use assms module_value [OF assms(1,2)] in auto)

lemma yields_const:
  assumes "ready C f L" and "nonvoid (lw_m L) t"
    and "\<And>v L'. goes C f L L' \<Longrightarrow> ready C f L' \<Longrightarrow> is_val (lw_m L') v \<Longrightarrow> yields C f L' (k v L') R"
  shows "yields C f L (let (v, L) = new_const t n L in k v L) R"
  unfolding new_const_def by (rule yields_module) (use assms makes_const(1) [OF readyD(1)] in auto)

lemma val_nonvoid: "is_val (lw_m L) v \<Longrightarrow> nonvoid (lw_m L) (val_ty L v)"
  by (simp add: is_val_def val_ty_def)

lemma yields_store:
  assumes "ready C f L" and "\<And>L'. goes C f L L' \<Longrightarrow> ready C f L' \<Longrightarrow> yields C f L' (k L') R"
  shows "yields C f L (Option.bind (store v p L) k) R"
proof -
  obtain L' where s: "store v p L = Some L'" "goes C f L L'" using store_goes [OF assms(1)] by blast
  with assms(2) goes_ready have "yields C f L' (k L') R" by blast
  with s show ?thesis by (auto simp: yields_iff intro: goes_trans)
qed

lemma to_i1_yields:
  assumes "ready C f L" and "some_val v L"
  shows "yields C f L (to_i1 v L) (\<lambda>v L'. is_val (lw_m L') v)"
proof -
  obtain x where x: "v = Some x" "is_val (lw_m L) x" using assms(2) by (auto simp: some_val_def)
  have "yields C f L (do { let (z, L) = new_const (val_ty L x) 0 L; build_value (\<lambda>b. ir_build_icmp b IR_ICMP_NE x z) L }) (\<lambda>v L'. is_val (lw_m L') v)"
    by (rule yields_const [OF assms(1) val_nonvoid [OF x(2)]]) (rule yields_build_value [OF build_icmp(1)])
  then show ?thesis using x assms by (simp add: to_i1_def yields_Some)
qed

lemma from_i1_yields:
  assumes "ready C f L" and "is_val (lw_m L) v" and "nonvoid (lw_m L) t"
  shows "yields C f L (from_i1 v t L) (\<lambda>v L'. is_val (lw_m L') v)"
  using assms by (auto simp: from_i1_def is_terminator_def intro!: yields_Some yields_build_value build_cast)

lemma int_or_float: "it_kind (ir_ty L t) = IR_TY_INT \<or> it_kind (ir_ty L t) = IR_TY_FLOAT \<Longrightarrow> has_ty (lw_m L) t \<Longrightarrow> nonvoid (lw_m L) t"
  by (auto simp: nonvoid_def ir_ty_def)

lemma coerce_to_yields:
  assumes "ready C f L" and "some_val v L" and "has_ty (lw_m L) t"
  shows "yields C f L (coerce_to v t src L) (\<lambda>v L'. is_val (lw_m L') v)"
  using assms int_or_float [of L t]
  by (auto simp: coerce_to_def some_val_def Let_def is_terminator_def intro!: yields_Some yields_build_value build_cast)

lemma fail_ready: "ready C f L \<Longrightarrow> ready C f (fail pos what L) \<and> goes C f L (fail pos what L) \<and> lw_m (fail pos what L) = lw_m L"
proof -
  assume r: "ready C f L"
  have m: "lw_b (fail pos what L) = lw_b L" by (simp add: fail_def)
  have "lower_ok C f (fail pos what L)"
    using r by (simp add: ready_def lower_ok_def env_ok_def m) (simp add: fail_def find_named_def find_func_def)
  then show ?thesis
    using r by (simp add: ready_def goes_def steps_def same_scope_def is_open_def cur_bb_def others_def m) (simp add: fail_def)
qed

lemma lower_conversion_yields:
  assumes r: "ready C f L" and v: "some_val v L" and t: "value_ty C to"
  shows "yields C f L (lower_conversion v from to pos L) some_val"
  unfolding lower_conversion_def
proof (rule yields_bind [OF yields_ir_of_ty [OF r t]], goal_cases)
  case (1 dst L')
  then have r': "ready C f L'" and d: "nonvoid (lw_m L') dst" by auto
  obtain x where x: "v = Some x" "is_val (lw_m L') x" using goes_some_val [OF 1(1) v] by (auto simp: some_val_def)
  have c: "yields C f L' (build (\<lambda>b. ir_build_cast b op x dst) L') some_val" if "\<not> is_terminator op" for op
    by (rule build_cast [OF r' d that])
  have e: "yields C f L' (Some (Some x, fail pos w L')) some_val" for w
    using fail_ready [OF r', of pos w] x by (auto simp: yields_iff)
  have s: "yields C f L' (Some (Some x, L')) some_val" using r' x(2) by (simp add: yields_Some)
  show ?case
    unfolding x(1) by (cases "from"; cases to) (simp_all only: bind.bind_lunit option.case prod.case Let_def, (intro yields_if c e s; simp add: is_terminator_def)+)
qed

section \<open>Operators\<close>

definition lowers :: "meaning \<Rightarrow> fnref \<Rightarrow> lowerer \<Rightarrow> expr option \<Rightarrow> bool" where
  "lowers C f le e \<longleftrightarrow> (\<forall>L. ready C f L \<longrightarrow> yields C f L (le e L) some_val)"

lemma lowersD: "lowers C f le e \<Longrightarrow> ready C f L \<Longrightarrow> yields C f L (le e L) some_val"
  by (simp add: lowers_def)

lemma yields_skip: "ready C f L \<Longrightarrow> Q r L \<Longrightarrow> yields C f L (Some (r, L)) Q"
  by (rule yields_Some)

text \<open>A value widened to 64 bits for an address.\<close>

lemma int64_eq: "(let (i64, L) = in_module (\<lambda>m. ir_type_int m 64) L in k i64 L) = k (im_ty_i64 (lw_m L)) L"
  by (simp add: int_type_eq)

lemma build_value_cast:
  "ready C f L \<Longrightarrow> nonvoid (lw_m L) t \<Longrightarrow> \<not> is_terminator op \<Longrightarrow>
    yields C f L (build_value (\<lambda>b. ir_build_cast b op v t) L) (\<lambda>v L'. is_val (lw_m L') v)"
  by (rule yields_build_value [OF build_cast])

lemma build_value_binary:
  "ready C f L \<Longrightarrow> is_val (lw_m L) v \<Longrightarrow> \<not> is_terminator op \<Longrightarrow>
    yields C f L (build_value (\<lambda>b. ir_build_binary b op v w) L) (\<lambda>v L'. is_val (lw_m L') v)"
  by (rule yields_build_value [OF build_binary])

lemma lower_ptr_arith_yields:
  assumes r: "ready C f L" and t: "known_ty C t" and i: "is_val (lw_m L) idx"
  shows "yields C f L (lower_ptr_arith op t base idx L) some_val"
  unfolding lower_ptr_arith_def int64_eq
proof (rule yields_bind [OF yields_any_ty [OF r]], goal_cases)
  case 1
  then show ?case using t lower_tt [OF r] by (simp add: lty_def known_ty_def)
next
  case (2 elem L1)
  note r1 = 2(2) and i64 = ready_basic(4) [OF 2(2)] and i1 = goes_val [OF 2(1) i]
  show ?case
  proof (rule yields_bind [where Q = "\<lambda>v L'. is_val (lw_m L') v"], goal_cases)
    case 1
    then show ?case using i1 r1 by (intro yields_if build_value_cast i64 yields_Some) (simp_all add: is_terminator_def)
  next
    case (2 idx L2)
    note r2 = 2(2) and i2 = 2(3)
    have t2: "nonvoid (lw_m L2) (im_ty_i64 (lw_m L1))" using goes_nonvoid [OF 2(1) i64] .
    show ?case
    proof (rule yields_bind [where Q = "\<lambda>v L'. is_val (lw_m L') v"], goal_cases)
      case 1
      then show ?case
        by (intro yields_if yields_const [OF r2 t2] yields_Some r2 i2 build_value_binary) (simp_all add: is_terminator_def)
    next
      case (2 idx L3)
      then show ?case by (intro build_index)
    qed
  qed
qed

lemma label_goes: "ready C f L \<Longrightarrow> goes C f L (snd (label_name stem L))"
proof -
  assume r: "ready C f L"
  have m: "lw_b (snd (label_name stem L)) = lw_b L" by (simp add: label_name_def)
  have "lower_ok C f (snd (label_name stem L))" using label_ok r by (simp add: ready_def)
  then show ?thesis
    using r by (simp add: ready_def goes_def steps_def same_scope_def is_open_def cur_bb_def others_def m) (simp add: label_name_def)
qed

text \<open>A new block while the current one stays open, and the two ways to leave the current one.\<close>

lemma new_block_ready:
  assumes r: "ready C f L"
  obtains bb L' where "new_block stem L = Some (bb, L')" "ready C f L'" "steps C f L L'" "same_scope L L'"
    "bb \<notin> fblocks (lw_m L) f" "others f L' = insert bb (others f L)"
  using new_block_step [of C f L stem] r by (auto simp: ready_def intro: steps_ok)

lemma closes_then:
  assumes c: "closes C f L L'" and b: "bb \<in> others f L"
  shows "ready C f (position bb L')" and "steps C f L (position bb L')" and "same_scope L (position bb L')"
    and "others f (position bb L') = others f L - {bb}"
proof -
  have p: "pending (lw_m L') f = others f L" using c closed_pending by (auto simp: closes_def)
  have lo: "lower_ok C f L'" using c by (auto simp: closes_def intro: steps_ok)
  note ps = position_step [OF lo, of bb, unfolded p, OF b]
  show "ready C f (position bb L')" "others f (position bb L') = others f L - {bb}" using ps(1,5) by simp_all
  show "steps C f L (position bb L')" using c ps(2) by (auto simp: closes_def intro: steps_trans)
  show "same_scope L (position bb L')" using c ps(3) by (auto simp: closes_def same_scope_def)
qed

lemma lower_short_circuit_yields:
  assumes r: "ready C f L" and t: "value_ty C sem" and a: "lowers C f le (Some ea)" and b: "lowers C f le (Some eb)"
  shows "yields C f L (lower_short_circuit le sem op (Some ea) (Some eb) L) some_val"
proof -
  obtain rt L1 where s1: "ir_of_ty sem L = Some (rt, L1)" "goes C f L L1" "nonvoid (lw_m L1) rt"
    using yields_ir_of_ty [OF r t] by (auto simp: yields_iff)
  obtain name L2 where s2: "label_name ''sc'' L1 = (name, L2)" "goes C f L1 L2"
    using label_goes [OF goes_ready [OF s1(2)], of "''sc''"] by (metis prod.collapse)
  obtain slot L3 where s3: "build_value (\<lambda>b. ir_build_alloca b rt (Some name)) L2 = Some (slot, L3)" "goes C f L2 L3"
    using build_alloca [OF goes_ready [OF s2(2)], of rt name] by (auto simp: yields_iff)
  have g3: "goes C f L L3" using s1(2) s2(2) s3(2) goes_trans by blast
  have t3: "nonvoid (lw_m L3) rt" using s1(3) s2(2) s3(2) goes_nonvoid by blast
  obtain rhs_bb L4 where s4: "new_block ''sc.rhs'' L3 = Some (rhs_bb, L4)" "ready C f L4" "steps C f L3 L4" "same_scope L3 L4"
    "rhs_bb \<notin> fblocks (lw_m L3) f" "others f L4 = insert rhs_bb (others f L3)"
    by (rule new_block_ready [OF goes_ready [OF g3]])
  obtain end_bb L5 where s5: "new_block ''sc.end'' L4 = Some (end_bb, L5)" "ready C f L5" "steps C f L4 L5" "same_scope L4 L5"
    "end_bb \<notin> fblocks (lw_m L4) f" "others f L5 = insert end_bb (others f L4)"
    by (rule new_block_ready [OF s4(2)])
  have t5: "nonvoid (lw_m L5) rt" using t3 s4(3) s5(3) steps_nonvoid by blast
  obtain lhs L6 where s6: "le (Some ea) L5 = Some (lhs, L6)" "goes C f L5 L6" "some_val lhs L6"
    using lowersD [OF a s5(2)] by (auto simp: yields_iff)
  obtain v L7 where s7: "coerce_to lhs rt (ex_sem ea) L6 = Some (v, L7)" "goes C f L6 L7"
    using coerce_to_yields [OF goes_ready [OF s6(2)] s6(3) nonvoid_ty [OF goes_nonvoid [OF s6(2) t5]], of "ex_sem ea"] by (auto simp: yields_iff)
  obtain L8 where s8: "store v slot L7 = Some L8" "goes C f L7 L8" using store_goes [OF goes_ready [OF s7(2)]] by blast
  have v8: "some_val lhs L8" using s6(3) s7(2) s8(2) goes_some_val by blast
  obtain c L9 where s9: "to_i1 lhs L8 = Some (c, L9)" "goes C f L8 L9"
    using to_i1_yields [OF goes_ready [OF s8(2)] v8] by (auto simp: yields_iff)
  have g9: "goes C f L5 L9" using s6(2) s7(2) s8(2) s9(2) goes_trans by blast
  have o9: "others f L9 = insert end_bb (insert rhs_bb (others f L))" using g9 g3 s4(6) s5(6) by (simp add: goes_def)
  have in9: "rhs_bb \<in> others f L9" "end_bb \<in> others f L9" using o9 by auto
  have fb9: "rhs_bb \<in> fblocks (lw_m L9) f" "end_bb \<in> fblocks (lw_m L9) f" using others_block in9 by auto
  obtain L10 where s10: "(if op = Punct TOK_AMP_AMP then condbr c rhs_bb end_bb L9 else condbr c end_bb rhs_bb L9) = Some L10"
    "closes C f L9 L10"
    using condbr_step [OF goes_ready [OF s9(2)] fb9, of c] condbr_step [OF goes_ready [OF s9(2)] fb9(2) fb9(1), of c]
    by (cases "op = Punct TOK_AMP_AMP") auto
  note s11 = closes_then [OF s10(2) in9(1)]
  have t11: "nonvoid (lw_m (position rhs_bb L10)) rt"
    using steps_nonvoid [OF s11(2) goes_nonvoid [OF g9 t5]] .
  obtain rhs L12 where s12: "le (Some eb) (position rhs_bb L10) = Some (rhs, L12)" "goes C f (position rhs_bb L10) L12" "some_val rhs L12"
    using lowersD [OF b s11(1)] by (auto simp: yields_iff)
  obtain w L13 where s13: "coerce_to rhs rt (ex_sem eb) L12 = Some (w, L13)" "goes C f L12 L13"
    using coerce_to_yields [OF goes_ready [OF s12(2)] s12(3) nonvoid_ty [OF goes_nonvoid [OF s12(2) t11]], of "ex_sem eb"] by (auto simp: yields_iff)
  obtain L14 where s14: "store w slot L13 = Some L14" "goes C f L13 L14" using store_goes [OF goes_ready [OF s13(2)]] by blast
  have g14: "goes C f (position rhs_bb L10) L14" using s12(2) s13(2) s14(2) goes_trans by blast
  have fresh: "rhs_bb \<notin> others f L" "end_bb \<notin> others f L" "rhs_bb \<noteq> end_bb"
  proof -
    have o: "others f L3 = others f L" using g3 by (simp add: goes_def)
    show "rhs_bb \<notin> others f L" using s4(5) others_block [of rhs_bb f L3] o by auto
    show "end_bb \<notin> others f L" "rhs_bb \<noteq> end_bb" using s5(5) others_block [of _ f L4] o s4(6) by auto
  qed
  have o14: "others f L14 = insert end_bb (others f L)" using g14 s11(4) o9 fresh by (auto simp: goes_def)
  then have in14: "end_bb \<in> others f L14" by simp
  then obtain L15 where s15: "br end_bb L14 = Some L15" "closes C f L14 L15"
    using br_step [OF goes_ready [OF g14]] others_block by blast
  note s16 = closes_then [OF s15(2) in14]
  have t16: "nonvoid (lw_m (position end_bb L15)) rt" using steps_nonvoid [OF s16(2) goes_nonvoid [OF g14 t11]] .
  obtain r' L17 where s17: "build (\<lambda>b. ir_build_load b rt slot) (position end_bb L15) = Some (r', L17)"
    "goes C f (position end_bb L15) L17" "some_val r' L17"
    using build_load [OF s16(1) t16, of slot] by (auto simp: yields_iff)
  have "lower_short_circuit le sem op (Some ea) (Some eb) L = Some (r', L17)"
    using s1(1) s2(1) s3(1) s4(1) s5(1) s6(1) s7(1) s8(1) s9(1) s10(1) s12(1) s13(1) s14(1) s15(1) s17(1)
    by (simp add: lower_short_circuit_def sem_of_def)
  moreover have "goes C f L L17"
  proof -
    have st: "steps C f L L17"
      using g3 s4(3) s5(3) g9 s11(2) g14 s16(2) s17(2) by (meson goes_def steps_trans)
    have "same_scope L L17" using g3 s4(4) s5(4) g9 s11(3) g14 s16(3) s17(2) by (simp add: goes_def same_scope_def)
    moreover have "others f L17 = others f L" using s17(2) s16(4) o14 fresh by (auto simp: goes_def)
    ultimately show ?thesis using st s17(2) by (simp add: goes_def)
  qed
  ultimately show ?thesis using s17(3) by (auto simp: yields_iff)
qed

end
