(* ===== verification/Slop_Lower_Ops.thy ===== *)
theory Slop_Lower_Ops
  imports Slop_Lower_Total
begin

text \<open>
  The operators, addresses and calls of an expression give a value when what they are called on does. The functions
  they call are parameters, so each lemma is about the function alone.
\<close>

section \<open>Binary operators\<close>

lemma lowers_bind:
  assumes "lowers C f le e" and "ready C f L"
    and "\<And>v L'. goes C f L L' \<Longrightarrow> ready C f L' \<Longrightarrow> some_val v L' \<Longrightarrow> yields C f L' (k v L') R"
  shows "yields C f L (Option.bind (le e L) (\<lambda>(v, L). k v L)) R"
  by (rule yields_bind [OF lowersD [OF assms(1,2)]]) (rule assms(3))

lemma yields_bind_pair:
  assumes "yields C f L m (\<lambda>(a, b). Q a b)"
    and "\<And>a b L'. goes C f L L' \<Longrightarrow> ready C f L' \<Longrightarrow> Q a b L' \<Longrightarrow> yields C f L' (k a b L') R"
  shows "yields C f L (Option.bind m (\<lambda>((a, b), L). k a b L)) R"
proof -
  have "yields C f L (Option.bind m (\<lambda>(p, L). k (fst p) (snd p) L)) R"
    by (rule yields_bind [OF assms(1)]) (use assms(2) in \<open>auto simp: split_def\<close>)
  then show ?thesis by (simp add: split_def)
qed

lemma some_valE: "some_val v L \<Longrightarrow> (\<And>x. v = Some x \<Longrightarrow> is_val (lw_m L) x \<Longrightarrow> thesis) \<Longrightarrow> thesis"
  by (auto simp: some_val_def)

lemma agree_yields:
  assumes r: "ready C f L" and l: "some_val lhs L" and r': "some_val rhs L"
  shows "yields C f L (agree lhs rhs lt rt L) (\<lambda>(l, r) L'. is_val (lw_m L') l \<and> is_val (lw_m L') r)"
proof -
  obtain x y where v: "lhs = Some x" "is_val (lw_m L) x" "rhs = Some y" "is_val (lw_m L) y"
    using l r' by (auto simp: some_val_def)
  have ty: "has_ty (lw_m L) (val_ty L z)" if "is_val (lw_m L) z" for z using nonvoid_ty [OF val_nonvoid [OF that]] .
  have "yields C f L (do { (r, L) \<leftarrow> coerce_to (Some y) (val_ty L x) rt L; Some ((x, r), L) })
      (\<lambda>(l, r) L'. is_val (lw_m L') l \<and> is_val (lw_m L') r)"
    by (rule yields_bind [OF coerce_to_yields [OF r _ ty [OF v(2)]]])
      (use v in \<open>auto intro: yields_Some goes_val\<close>)
  moreover have "yields C f L (do { (l, L) \<leftarrow> coerce_to (Some x) (val_ty L y) lt L; Some ((l, y), L) })
      (\<lambda>(l, r) L'. is_val (lw_m L') l \<and> is_val (lw_m L') r)"
    by (rule yields_bind [OF coerce_to_yields [OF r _ ty [OF v(4)]]])
      (use v in \<open>auto intro: yields_Some goes_val\<close>)
  ultimately show ?thesis
    using r v by (simp add: agree_def yields_Some)
qed

lemma yields_size:
  assumes "ready C f L" and "has_ty (lw_m L) t" and "\<And>sz. yields C f L (k sz) R"
  shows "yields C f L (do { sz \<leftarrow> ir_type_size (im_types (lw_m L)) t; k sz }) R"
proof -
  obtain s where "ir_type_size (im_types (lw_m L)) t = Some s" using has_layout [OF readyD(1) [OF assms(1)] assms(2)] by blast
  then show ?thesis using assms(3) by simp
qed

lemma lower_ptr_diff_yields:
  assumes r: "ready C f L" and t: "known_ty C lt" and v: "is_val (lw_m L) x" "is_val (lw_m L) y"
  shows "yields C f L (lower_ptr_diff lt x y L) some_val"
  unfolding lower_ptr_diff_def int64_eq
proof (rule yields_bind [OF build_value_cast [OF r ready_basic(4) [OF r]]], goal_cases)
  case 1
  show ?case by (simp add: is_terminator_def)
next
  case (2 a L1)
  note i1 = goes_nonvoid [OF 2(1) ready_basic(4) [OF r]]
  show ?case
  proof (rule yields_bind [OF build_value_cast [OF 2(2) i1]], goal_cases)
    case 1
    show ?case by (simp add: is_terminator_def)
  next
    case (2 b L2)
    note i2 = goes_nonvoid [OF 2(1) i1]
    have a: "is_val (lw_m L2) a" using goes_val [OF 2(1)] \<open>is_val (lw_m L1) a\<close> .
    show ?case
    proof (rule yields_bind [OF build_value_binary [OF 2(2) a]], goal_cases)
      case 1
      show ?case by (simp add: is_terminator_def)
    next
      case (2 d L3)
      note d = 2(3) and i3 = goes_nonvoid [OF 2(1) i2]
      show ?case
      proof (rule yields_bind [OF yields_any_ty [OF 2(2)]], goal_cases)
        case 1
        then show ?case using t lower_tt [OF 2(2)] by (simp add: lty_def known_ty_def)
      next
        case (2 elem L4)
        note i4 = goes_nonvoid [OF 2(1) i3] and d4 = goes_val [OF 2(1) d]
        show ?case
        proof (rule yields_size [OF 2(2,3)], rule yields_const [OF 2(2) i4])
          fix n L5 assume "goes C f L4 L5" "ready C f L5"
          then show "yields C f L5 (build (\<lambda>b. ir_build_binary b IR_SDIV d n) L5) some_val"
            using goes_val [OF _ d4] by (intro build_binary) (auto simp: is_terminator_def)
        qed
      qed
    qed
  qed
qed

definition ty_ok :: "meaning \<Rightarrow> tyref option \<Rightarrow> bool" where
  "ty_ok C t \<longleftrightarrow> (\<forall>r. t = Some r \<longrightarrow> known_ty C r)"

lemma value_ty_ok: "value_ty C t \<Longrightarrow> ty_ok C t"
  by (auto simp: value_ty_def ty_ok_def)

lemma not_terminator [simp]: "\<not> is_terminator (int_binop op s)" "\<not> is_terminator (float_binop op)"
  by (auto simp: int_binop_def float_binop_def is_terminator_def split: token_kind.split punct.split)

lemma lower_binary_yields:
  assumes r: "ready C f L" and s: "value_ty C sem" and a: "lowers C f le (Some ea)" "ty_ok C (ex_sem ea)"
    and b: "lowers C f le (Some eb)"
  shows "yields C f L (lower_binary le sem op (Some ea) (Some eb) L) some_val"
proof (cases "op = Punct TOK_AMP_AMP \<or> op = Punct TOK_PIPE_PIPE")
  case True
  then show ?thesis using lower_short_circuit_yields [OF r s a(1) b] by (simp add: lower_binary_def sem_of_def)
next
  case False
  let ?after = "\<lambda>x y L. if is_comparison op then do {
              (cmp, L) \<leftarrow> (if is_float_ty L (ex_sem ea) then build_value (\<lambda>b. ir_build_fcmp b (float_pred op) x y) L
                 else build_value (\<lambda>b. ir_build_icmp b (int_pred op (is_signed_ty L (ex_sem ea))) x y) L);
              (want, L) \<leftarrow> ir_of_ty sem L;
              (v, L) \<leftarrow> from_i1 cmp want L;
              Some (Some v, L) }
            else case ex_sem ea of
              Some t \<Rightarrow>
                if t_kind (lty L t) = TY_PTR
                then (if is_ptr_ty L (ex_sem eb) then lower_ptr_diff t x y L else lower_ptr_arith op t x y L)
                else if ty_is_float (lty L t) then build (\<lambda>b. ir_build_binary b (float_binop op) x y) L
                else build (\<lambda>b. ir_build_binary b (int_binop op (ty_is_signed (lty L t))) x y) L
            | None \<Rightarrow> build (\<lambda>b. ir_build_binary b (int_binop op False) x y) L"
  have cmp: "yields C f L (do { (cmp, L) \<leftarrow> m; (want, L) \<leftarrow> ir_of_ty sem L; (v, L) \<leftarrow> from_i1 cmp want L; Some (Some v, L) }) some_val"
    if m: "yields C f L m (\<lambda>v L'. is_val (lw_m L') v)" for m L
  proof (rule yields_bind [OF m], rule yields_bind [OF yields_ir_of_ty [OF _ s]], assumption)
    fix c L1 w L2 assume "is_val (lw_m L1) c" "goes C f L1 L2" "ready C f L2" "nonvoid (lw_m L2) w"
    then show "yields C f L2 (do { (v, L) \<leftarrow> from_i1 c w L2; Some (Some v, L) }) some_val"
      by (intro yields_bind [OF from_i1_yields]) (auto intro: goes_val yields_Some)
  qed
  have after: "yields C f L (?after x y L) some_val" if r: "ready C f L" and v: "is_val (lw_m L) x" "is_val (lw_m L) y" for x y L
  proof -
    have k: "known_ty C t" if "ex_sem ea = Some t" for t using a(2) that by (simp add: ty_ok_def)
    show ?thesis
      using lower_ptr_diff_yields [OF r k v] lower_ptr_arith_yields [OF r k v(2)] build_binary [OF r v(1)]
      by (auto intro!: cmp yields_build_value [OF build_icmp(1) [OF r]] yields_build_value [OF build_icmp(2) [OF r]] split: option.split)
  qed
  have "yields C f L (do { (lhs, L) \<leftarrow> le (Some ea) L; (rhs, L) \<leftarrow> le (Some eb) L;
      ((l, r), L) \<leftarrow> agree lhs rhs (ex_sem ea) (ex_sem eb) L; ?after l r L }) some_val"
  proof (rule lowers_bind [OF a(1) r], rule lowers_bind [OF b], assumption)
    fix x L1 y L2 assume x: "some_val x L1" "goes C f L1 L2" "ready C f L2" "some_val y L2"
    note ag = agree_yields [OF x(3) goes_some_val [OF x(2,1)] x(4), of "ex_sem ea" "ex_sem eb"]
    show "yields C f L2 (do { ((l, r), L) \<leftarrow> agree x y (ex_sem ea) (ex_sem eb) L2; ?after l r L }) some_val"
      by (rule yields_bind_pair [OF ag]) (use after in auto)
  qed
  then show ?thesis using False by (simp add: lower_binary_def sem_of_def)
qed

section \<open>Unary operators\<close>

lemma yields_zero:
  assumes "ready C f L" and "nonvoid (lw_m L) t"
    and "\<And>v L'. goes C f L L' \<Longrightarrow> ready C f L' \<Longrightarrow> is_val (lw_m L') v \<Longrightarrow> yields C f L' (k v L') R"
  shows "yields C f L (let (v, L) = zero_of t L in k v L) R"
  using yields_module [OF assms(1) makes_const(2) [OF readyD(1) [OF assms(1)] assms(2)] assms(3)]
    yields_module [OF assms(1) makes_const(4) [OF readyD(1) [OF assms(1)]] assms(3)] yields_const [OF assms]
  by (simp add: zero_of_def)

lemma lower_unary_yields:
  assumes r: "ready C f L" and s: "value_ty C sem" and op: "op \<noteq> Punct TOK_AMP" and a: "lowers C f le (Some ea)" and sa: "ex_sem ea \<noteq> None"
  shows "yields C f L (lower_unary le la pos sem op (Some ea) L) some_val"
  unfolding lower_unary_def
proof (rule yields_bind [OF yields_ir_of_ty [OF r s]], goal_cases)
  case (1 rt L1)
  note r1 = 1(2) and t1 = 1(3)
  show ?case
  proof (cases "op = Punct TOK_STAR")
    case True
    have "yields C f L1 (do { (p, L) \<leftarrow> le (Some ea) L1; p \<leftarrow> p; build (\<lambda>b. ir_build_load b rt p) L }) some_val"
      by (rule lowers_bind [OF a r1]) (auto elim!: some_valE intro!: build_load goes_nonvoid [OF _ t1])
    with True show ?thesis by simp
  next
    case False
    have "yields C f L1 (do { (v, L) \<leftarrow> le (Some ea) L1;
            case op of
              Punct TOK_MINUS \<Rightarrow>
                do { asem \<leftarrow> sem_of (Some ea);
                     t \<leftarrow> asem;
                     v \<leftarrow> v;
                     if ty_is_float (lty L t)
                     then do { let (z, L) = in_module (\<lambda>m. ir_const_fp m (val_ty L v) 0) L;
                               build (\<lambda>b. ir_build_binary b IR_FSUB z v) L }
                     else do { let (z, L) = new_const (val_ty L v) 0 L;
                               build (\<lambda>b. ir_build_binary b IR_SUB z v) L } }
            | Punct TOK_TILDE \<Rightarrow>
                do { v \<leftarrow> v;
                     let (ones, L) = new_const (val_ty L v) (- 1) L;
                     build (\<lambda>b. ir_build_binary b IR_XOR v ones) L }
            | Punct TOK_BANG \<Rightarrow>
                do { v \<leftarrow> v;
                     let (z, L) = zero_of (val_ty L v) L;
                     (c, L) \<leftarrow> build_value (\<lambda>b. ir_build_icmp b IR_ICMP_EQ v z) L;
                     (w, L) \<leftarrow> from_i1 c rt L;
                     Some (Some w, L) }
            | _ \<Rightarrow> Some (v, fail pos ''unsupported unary operator'' L) }) some_val"
    proof (rule lowers_bind [OF a r1], goal_cases)
      case (1 w L2)
      then obtain v where v: "w = Some v" "is_val (lw_m L2) v" by (auto elim: some_valE)
      obtain t where t: "ex_sem ea = Some t" using sa by auto
      note r2 = 1(2) and t2 = goes_nonvoid [OF 1(1) t1]
      have neg: "yields C f L2 (let (z, L) = in_module (\<lambda>m. ir_const_fp m (val_ty L2 v) 0) L2 in build (\<lambda>b. ir_build_binary b IR_FSUB z v) L) some_val"
        by (rule yields_module [OF r2 makes_const(2) [OF readyD(1) [OF r2] val_nonvoid [OF v(2)]]])
          (auto simp: is_terminator_def intro: build_binary)
      have int: "yields C f L2 (let (z, L) = new_const (val_ty L2 v) n L2 in build (\<lambda>b. ir_build_binary b IR_SUB z v) L) some_val"
        "yields C f L2 (let (z, L) = new_const (val_ty L2 v) n L2 in build (\<lambda>b. ir_build_binary b IR_XOR v z) L) some_val" for n
        by (rule yields_const [OF r2 val_nonvoid [OF v(2)]]; auto simp: is_terminator_def intro: build_binary goes_val [OF _ v(2)])+
      have bang: "yields C f L2 (do { let (z, L) = zero_of (val_ty L2 v) L2; (c, L) \<leftarrow> build_value (\<lambda>b. ir_build_icmp b IR_ICMP_EQ v z) L;
            (w, L) \<leftarrow> from_i1 c rt L; Some (Some w, L) }) some_val"
      proof (rule yields_zero [OF r2 val_nonvoid [OF v(2)]], rule yields_bind [OF yields_build_value [OF build_icmp(1)]], assumption)
        fix z L3 c L4 assume "goes C f L2 L3" "goes C f L3 L4" "ready C f L4" "is_val (lw_m L4) c"
        then show "yields C f L4 (do { (w, L) \<leftarrow> from_i1 c rt L4; Some (Some w, L) }) some_val"
          using goes_nonvoid t2 by (intro yields_bind [OF from_i1_yields]) (auto intro: yields_Some)
      qed
      have other: "yields C f L2 (Some (Some v, fail pos ''unsupported unary operator'' L2)) some_val"
        using fail_ready [OF r2, of pos "''unsupported unary operator''"] v(2) by (auto simp: yields_iff)
      show ?case
        using neg int [of 0] int(2) [of "- 1"] bang other by (simp add: v(1) t sem_of_def split: token_kind.split punct.split)
    qed
    with False op show ?thesis by simp
  qed
qed

section \<open>Addresses\<close>

lemma yields_goes: "goes C f L L' \<Longrightarrow> yields C f L' m Q \<Longrightarrow> yields C f L m Q"
  by (auto simp: yields_iff intro: goes_trans)

lemma undef_yields:
  assumes r: "ready C f L" and t: "nonvoid (lw_m L) t"
  shows "yields C f L (Some (undef t L)) some_val"
proof -
  have "yields C f L (let (v, L) = in_module (\<lambda>m. ir_undef m t) L in Some (Some v, L)) some_val"
    by (rule yields_module [OF r makes_const(3) [OF readyD(1) [OF r] t]]) (simp add: yields_Some)
  then show ?thesis by (simp add: undef_def split_def Let_def)
qed

lemma no_addr_yields: "ready C f L \<Longrightarrow> yields C f L (Some (no_addr pos what L)) some_val"
  using fail_ready [of C f L pos what]
  by (simp add: no_addr_def Let_def ir_type_ptr_def) (metis undef_yields ready_basic(7) yields_goes)

definition ptr_ty :: "meaning \<Rightarrow> tyref option \<Rightarrow> bool" where
  "ptr_ty C t \<longleftrightarrow> (\<exists>r. t = Some r \<and> t_kind (ty_at (mn_tt C) r) = TY_PTR)"

lemma is_ptr_ready: "ready C f L \<Longrightarrow> is_ptr_ty L t = ptr_ty C t"
  by (auto simp: is_ptr_ty_def ptr_ty_def lty_def lower_tt split: option.split)

text \<open>The base of an index or a field: a pointer's value, or the address of the object itself.\<close>

definition based :: "meaning \<Rightarrow> fnref \<Rightarrow> lowerer \<Rightarrow> lowerer \<Rightarrow> expr \<Rightarrow> bool" where
  "based C f le la e \<longleftrightarrow> (if ptr_ty C (ex_sem e) then lowers C f le (Some e) else lowers C f la (Some e)) \<and> ty_ok C (ex_sem e)"

lemma based_yields:
  assumes "based C f le la e" and "ready C f L"
    and "\<And>v L'. goes C f L L' \<Longrightarrow> ready C f L' \<Longrightarrow> some_val v L' \<Longrightarrow> yields C f L' (k v L') R"
  shows "yields C f L (do { (v, L) \<leftarrow> (if ptr_ty C (ex_sem e) then le (Some e) L else la (Some e) L); k v L }) R"
proof (cases "ptr_ty C (ex_sem e)")
  case True
  then have "lowers C f le (Some e)" using assms(1) by (simp add: based_def)
  with True show ?thesis using lowers_bind [OF _ assms(2,3)] by simp
next
  case False
  then have "lowers C f la (Some e)" using assms(1) by (simp add: based_def)
  with False show ?thesis using lowers_bind [OF _ assms(2,3)] by simp
qed

lemma addr_index_yields:
  assumes r: "ready C f L" and b: "based C f le la base" and i: "lowers C f le (Some i)" and si: "ex_sem i \<noteq> None"
  shows "yields C f L (addr_index le la pos (Some base) (Some i) L) some_val"
proof -
  obtain st where st: "ex_sem i = Some st" using si by auto
  let ?bad = "\<lambda>L. Some (no_addr pos ''indexing something that is neither array nor pointer'' L)"
  have last: "yields C f L (do { (idx, L) \<leftarrow> (if val_ty L idx \<noteq> i64
        then build_value (\<lambda>b. ir_build_cast b (if ty_is_signed (lty L st) then IR_SEXT else IR_ZEXT) idx i64) L else Some (idx, L));
        build (\<lambda>b. ir_build_gep_index b elem ptr idx) L }) some_val"
    if r: "ready C f L" and "is_val (lw_m L) idx" "nonvoid (lw_m L) i64" for L idx i64 elem ptr
    by (rule yields_bind [where Q = "\<lambda>_ _. True"], rule yields_if)
      (use that in \<open>auto simp: is_terminator_def intro: yields_Some build_index yields_mono [OF build_value_cast]\<close>)
  show ?thesis
    unfolding addr_index_def sem_of_def option.map st bind.bind_lunit
  proof (rule lowers_bind [OF i r], unfold int64_eq, goal_cases)
    case (1 v L1)
    then obtain idx where idx: "v = Some idx" "is_val (lw_m L1) idx" by (auto elim: some_valE)
    note r1 = 1(2) and i1 = ready_basic(4) [OF 1(2)]
    show ?case
    proof (cases "ex_sem base")
      case None
      then show ?thesis using no_addr_yields [OF r1] by simp
    next
      case (Some t)
      have k: "known_ty C t" using b Some by (simp add: based_def ty_ok_def)
      have p: "(t_kind (lty L1 t) = TY_PTR) = ptr_ty C (Some t)" using lower_tt [OF r1] by (simp add: ptr_ty_def lty_def)
      have "yields C f L1 (do { (ptr, L) \<leftarrow> (if ptr_ty C (ex_sem base) then le (Some base) L1 else la (Some base) L1);
          (elem, L) \<leftarrow> ir_of_ty (t_elem (lty L t)) L;
          idx \<leftarrow> v;
          ptr \<leftarrow> ptr;
          (idx, L) \<leftarrow> (if val_ty L idx \<noteq> im_ty_i64 (lw_m L1)
             then build_value (\<lambda>b. ir_build_cast b (if ty_is_signed (lty L st) then IR_SEXT else IR_ZEXT) idx (im_ty_i64 (lw_m L1))) L
             else Some (idx, L));
          build (\<lambda>b. ir_build_gep_index b elem ptr idx) L }) some_val"
      proof (rule based_yields [OF b r1], rule yields_bind [OF yields_any_ty], assumption, goal_cases)
        case (1 p L2)
        then show ?case using k lower_tt [OF 1(2)] by (simp add: lty_def known_ty_def)
      next
        case (2 p L2 elem L3)
        then obtain ptr where "p = Some ptr" by (auto elim: some_valE)
        then show ?case
          using last [OF 2(5) goes_val [OF goes_trans [OF 2(1,4)] idx(2)] goes_nonvoid [OF goes_trans [OF 2(1,4)] i1]] by (simp add: idx(1))
      qed
      then show ?thesis using no_addr_yields [OF r1] by (auto simp: Some st p)
    qed
  qed
qed

lemma field_index_finds: "find (\<lambda>f. strview_eq_view (fs_name f) name) fs = Some x \<Longrightarrow> \<exists>i. field_index fs name = Some i"
  by (induction fs) (auto split: if_splits)

lemma addr_field_yields:
  assumes r: "ready C f L" and b: "based C f le la base"
  shows "yields C f L (addr_field le la pos (Some base) name L) some_val"
  unfolding addr_field_def sem_of_def option.map bind.bind_lunit is_ptr_ready [OF r]
proof (rule based_yields [OF b r], goal_cases)
  case (1 v L1)
  note r1 = 1(2)
  obtain ptr where ptr: "v = Some ptr" using 1(3) by (auto elim: some_valE)
  have found: "yields C f L1 (case (st, ty_field (lw_tt L1) st name) of
      (Some s, Some f) \<Rightarrow>
        do { ptr \<leftarrow> v;
             i \<leftarrow> field_index (t_fields (lty L1 s)) name;
             (t, L) \<leftarrow> ir_of_ty st L1;
             build (\<lambda>b. ir_build_gep_field b t ptr i) L }
    | _ \<Rightarrow> Some (no_addr pos ''no such field'' L1)) some_val"
    if st: "\<forall>s. st = Some s \<longrightarrow> lowered_ty (mn_tt C) (mn_types C) s" for st
  proof (cases "ty_field (lw_tt L1) st name")
    case None
    then show ?thesis using no_addr_yields [OF r1] by (simp split: option.split)
  next
    case (Some x)
    then obtain s where s: "st = Some s" by (auto simp: ty_field_def split: option.splits)
    then obtain i where i: "field_index (t_fields (lty L1 s)) name = Some i"
      using Some field_index_finds by (fastforce simp: ty_field_def lty_def split: if_splits)
    have "yields C f L1 (do { (t, L) \<leftarrow> ir_of_ty st L1; build (\<lambda>b. ir_build_gep_field b t ptr i) L }) some_val"
      by (rule yields_bind [OF yields_any_ty [OF r1 st]]) (rule build_field)
    then show ?thesis using Some i ptr by (simp add: s)
  qed
  show ?case
    unfolding Let_def
    by (rule found) (use b lower_tt [OF r1] in \<open>auto simp: based_def ty_ok_def known_ty_def lty_def split: option.splits if_splits\<close>)
qed

section \<open>Calls\<close>

lemma lower_args_yields:
  assumes "\<And>a. a \<in> set as \<Longrightarrow> lowers C f le a \<and> a \<noteq> None"
  shows "ready C f L \<Longrightarrow> \<forall>p \<in> set ps. p < length (im_values (lw_m L)) \<Longrightarrow> yields C f L (lower_args le ps as L) (\<lambda>_ _. True)"
  using assms
proof (induction as arbitrary: L ps)
  case Nil
  then show ?case by (simp add: yields_Some)
next
  case (Cons a as)
  have a: "lowers C f le a" "a \<noteq> None" using Cons.prems(3) by auto
  have lt: "\<forall>p \<in> set ps. p < length (im_values (lw_m L2))" if "goes C f L L2" for L2
    using that Cons.prems(2) by (force simp: goes_def steps_def grows_def)
  show ?case
    unfolding lower_args.simps
  proof (rule lowers_bind [OF a(1) Cons.prems(1)], rule yields_bind [where Q = "\<lambda>_ _. True"], goal_cases)
    case (1 v L1)
    have t: "has_ty (lw_m L1) (val_ty L1 p)" if "p \<in> set ps" for p
      using lt [OF 1(1)] readyD(1) [OF 1(2)] that by (simp add: module_typed_def val_ty_def)
    show ?case
    proof (cases ps)
      case Nil
      then show ?thesis using 1 by (auto elim!: some_valE intro: yields_Some)
    next
      case (Cons p ps')
      then show ?thesis
        using a(2) 1 t yields_mono [OF coerce_to_yields [OF 1(2,3) t]] by (auto simp: sem_of_def)
    qed
  next
    case (2 v L1 w L2)
    have "\<forall>p \<in> set (drop 1 ps). p < length (im_values (lw_m L2))"
      using lt [OF goes_trans [OF 2(1,4)]] by (auto dest: in_set_dropD)
    then have "yields C f L2 (lower_args le (drop 1 ps) as L2) (\<lambda>_ _. True)"
      using 2(5) Cons.IH Cons.prems(3) by simp
    then show ?case by (rule yields_bind) (simp add: yields_Some)
  qed
qed

text \<open>A call: what it gives is a value when the function it names returns one.\<close>

lemma find_func_ready:
  assumes "ready C f L" and "find_func L n = Some g"
  shows "g < length (im_functions (lw_m L))" and "mn_value_fn C n \<Longrightarrow> nonvoid (lw_m L) (if_ret (fn_obj (lw_m L) g))"
proof -
  have e: "env_ok C L" using readyD(2) [OF assms(1)] .
  obtain x where "x \<in> set (lw_funcs L)" "g = fu_fn x" using assms(2) find_SomeD by (fastforce simp: find_func_def)
  then show "g < length (im_functions (lw_m L))" using e by (simp add: env_ok_def)
  show "nonvoid (lw_m L) (if_ret (fn_obj (lw_m L) g))" if "mn_value_fn C n" using e that assms(2) by (simp add: env_ok_def)
qed

definition calls_value :: "meaning \<Rightarrow> expr \<Rightarrow> bool" where
  "calls_value C c \<longleftrightarrow> (\<forall>n. ex_u c = EXPR_NAME n \<longrightarrow> mn_value_fn C n)"

lemma failed_call:
  assumes r: "ready C f L" and s: "value_ty C sem"
  shows "yields C f L (do { (t, L) \<leftarrow> ir_of_ty sem (fail pos what L); Some (undef t L) }) some_val"
proof -
  have r': "ready C f (fail pos what L)" "goes C f L (fail pos what L)" using fail_ready [OF r] by simp_all
  show ?thesis
    by (rule yields_goes [OF r'(2)], rule yields_bind [OF yields_ir_of_ty [OF r'(1) s]]) (rule undef_yields)
qed

lemma lower_call_yields:
  assumes r: "ready C f L" and a: "\<And>a. a \<in> set args \<Longrightarrow> lowers C f le a \<and> a \<noteq> None"
  shows "value_ty C sem \<Longrightarrow> calls_value C c \<Longrightarrow> yields C f L (lower_call le pos sem (Some c) args L) some_val"
    and "find_func L n = Some g \<Longrightarrow> ex_u c = EXPR_NAME n \<Longrightarrow> yields C f L (lower_call le pos sem (Some c) args L) maybe_val"
proof -
  have call: "yields C f L (do { (vs, L) \<leftarrow> lower_args le (if_params (fn_obj (lw_m L) g)) args L; build (\<lambda>b. ir_build_call b g vs) L })
      (\<lambda>v L'. maybe_val v L' \<and> (nonvoid (lw_m L) (if_ret (fn_obj (lw_m L) g)) \<longrightarrow> some_val v L'))"
    if g: "find_func L n = Some g" for n g
  proof -
    have l: "g < length (im_functions (lw_m L))" using find_func_ready(1) [OF r g] .
    then have ps: "\<forall>p \<in> set (if_params (fn_obj (lw_m L) g)). p < length (im_values (lw_m L))"
      using readyD(1) [OF r] by (simp add: module_typed_def sig_ok_def)
    show ?thesis
    proof (rule yields_bind [OF lower_args_yields [OF a r ps]], assumption)
      fix vs L' assume gr: "goes C f L L'" "ready C f L'"
      then have gg: "grows f (lw_m L) (lw_m L')" by (simp add: goes_def steps_def)
      then have l': "g < length (im_functions (lw_m L'))" using l by (simp add: grows_def)
      have "if_ret (fn_obj (lw_m L') g) = if_ret (fn_obj (lw_m L) g)" using gg l by (simp add: grows_def same_sig_def)
      with goes_nonvoid [OF gr(1)] show "yields C f L' (build (\<lambda>b. ir_build_call b g vs) L')
          (\<lambda>v L'. maybe_val v L' \<and> (nonvoid (lw_m L) (if_ret (fn_obj (lw_m L) g)) \<longrightarrow> some_val v L'))"
        by (intro yields_mono [OF build_call [OF gr(2) l']]) auto
    qed
  qed
  show "yields C f L (lower_call le pos sem (Some c) args L) some_val" if s: "value_ty C sem" and c: "calls_value C c"
  proof (cases "\<exists>n g. ex_u c = EXPR_NAME n \<and> find_func L n = Some g")
    case True
    then obtain n g where n: "ex_u c = EXPR_NAME n" "find_func L n = Some g" by blast
    then have "nonvoid (lw_m L) (if_ret (fn_obj (lw_m L) g))" using find_func_ready(2) [OF r n(2)] c by (simp add: calls_value_def)
    then show ?thesis using yields_mono [OF call [OF n(2)]] n by (simp add: lower_call_def)
  next
    case False
    then show ?thesis
      using failed_call [OF r s] by (auto simp: lower_call_def split: expr_node.split option.split)
  qed
  show "yields C f L (lower_call le pos sem (Some c) args L) maybe_val" if "find_func L n = Some g" "ex_u c = EXPR_NAME n"
    using yields_mono [OF call [OF that(1)]] that by (simp add: lower_call_def)
qed

end
