(* ===== verification/Slop_Lower_Exprs.thy ===== *)
theory Slop_Lower_Exprs
  imports Slop_Lower_Ops
begin

text \<open>
  \<open>lower_expr\<close> and \<open>lower_addr\<close> on whole trees. \<open>lowerable\<close> describes the trees the lowering is given: checked by sema,
  with no child missing.
\<close>

section \<open>The trees\<close>

fun is_leaf :: "expr_node \<Rightarrow> bool" where
  "is_leaf (EXPR_INT v) = True"
| "is_leaf (EXPR_FLOAT v) = True"
| "is_leaf (EXPR_CHAR v) = True"
| "is_leaf (EXPR_STRING s) = True"
| "is_leaf (EXPR_BOOL b) = True"
| "is_leaf EXPR_NULL = True"
| "is_leaf (EXPR_NAME n) = True"
| "is_leaf (EXPR_SIZEOF t) = True"
| "is_leaf u = False"

text \<open>A node that is no place: \<open>lower_addr\<close> reports it and goes on with an undefined address.\<close>

fun no_place :: "expr_node \<Rightarrow> bool" where
  "no_place (EXPR_NAME n) = False"
| "no_place (EXPR_UNARY op a) = (op \<noteq> Punct TOK_STAR)"
| "no_place (EXPR_INDEX a i) = False"
| "no_place (EXPR_FIELD a n) = False"
| "no_place (EXPR_CONV a) = False"
| "no_place u = True"

inductive lowerable :: "meaning \<Rightarrow> expr \<Rightarrow> bool" and addressable :: "meaning \<Rightarrow> expr \<Rightarrow> bool" for C :: meaning where
  lo_leaf: "value_ty C sem \<Longrightarrow> is_leaf u \<Longrightarrow> lowerable C (Expr pos sem u)"
| lo_addr: "value_ty C sem \<Longrightarrow> addressable C a \<Longrightarrow> lowerable C (Expr pos sem (EXPR_UNARY (Punct TOK_AMP) (Some a)))"
| lo_unary: "value_ty C sem \<Longrightarrow> op \<noteq> Punct TOK_AMP \<Longrightarrow> lowerable C a \<Longrightarrow> lowerable C (Expr pos sem (EXPR_UNARY op (Some a)))"
| lo_binary: "value_ty C sem \<Longrightarrow> lowerable C a \<Longrightarrow> lowerable C b \<Longrightarrow> lowerable C (Expr pos sem (EXPR_BINARY op (Some a) (Some b)))"
| lo_call: "value_ty C sem \<Longrightarrow> calls_value C c \<Longrightarrow> \<forall>a \<in> set args. \<exists>x. a = Some x \<and> lowerable C x
    \<Longrightarrow> lowerable C (Expr pos sem (EXPR_CALL (Some c) args))"
| lo_index: "value_ty C sem \<Longrightarrow> addressable C (Expr pos sem (EXPR_INDEX a i)) \<Longrightarrow> lowerable C (Expr pos sem (EXPR_INDEX a i))"
| lo_field: "value_ty C sem \<Longrightarrow> addressable C (Expr pos sem (EXPR_FIELD a n)) \<Longrightarrow> lowerable C (Expr pos sem (EXPR_FIELD a n))"
| lo_cast: "value_ty C sem \<Longrightarrow> lowerable C a \<Longrightarrow> lowerable C (Expr pos sem (EXPR_CAST (Some a) ty))"
| lo_conv: "value_ty C sem \<Longrightarrow> lowerable C a \<Longrightarrow> lowerable C (Expr pos sem (EXPR_CONV (Some a)))"
| ad_name: "addressable C (Expr pos sem (EXPR_NAME n))"
| ad_deref: "lowerable C a \<Longrightarrow> addressable C (Expr pos sem (EXPR_UNARY (Punct TOK_STAR) (Some a)))"
| ad_index: "ty_ok C (ex_sem a) \<Longrightarrow> (ptr_ty C (ex_sem a) \<and> lowerable C a) \<or> (\<not> ptr_ty C (ex_sem a) \<and> addressable C a)
    \<Longrightarrow> lowerable C i \<Longrightarrow> addressable C (Expr pos sem (EXPR_INDEX (Some a) (Some i)))"
| ad_field: "ty_ok C (ex_sem a) \<Longrightarrow> (ptr_ty C (ex_sem a) \<and> lowerable C a) \<or> (\<not> ptr_ty C (ex_sem a) \<and> addressable C a)
    \<Longrightarrow> addressable C (Expr pos sem (EXPR_FIELD (Some a) n))"
| ad_conv: "addressable C a \<Longrightarrow> addressable C (Expr pos sem (EXPR_CONV (Some a)))"
| ad_none: "no_place u \<Longrightarrow> addressable C (Expr pos sem u)"

lemma lowerable_ty: "lowerable C e \<Longrightarrow> value_ty C (ex_sem e)"
  by (cases rule: lowerable.cases) auto

lemma value_some: "value_ty C t \<Longrightarrow> t \<noteq> None"
  by (auto simp: value_ty_def)

section \<open>Leaves and places\<close>

lemma yields_some_value:
  assumes "ready C f L" and "makes_value g (lw_m L)"
  shows "yields C f L (some_value (in_module g L)) some_val"
  using module_value [OF assms] by (auto simp: yields_iff some_value_def)

lemma some_value_yields:
  assumes r: "ready C f L"
  shows "nonvoid (lw_m L) t \<Longrightarrow> yields C f L (some_value (new_const t v L)) some_val"
    and "nonvoid (lw_m L) t \<Longrightarrow> yields C f L (some_value (in_module (\<lambda>m. ir_const_fp m t x) L)) some_val"
    and "yields C f L (some_value (in_module ir_const_null L)) some_val"
    and "yields C f L (some_value (in_module (\<lambda>m. ir_string m str) L)) some_val"
  unfolding new_const_def
  by (rule yields_some_value [OF r]; use makes_const [OF readyD(1) [OF r]] makes_string [OF readyD(1) [OF r]] in simp)+

lemma find_storage_ok: "ready C f L \<Longrightarrow> find_storage L n = Some b \<Longrightarrow> binding_ok (lw_m L) b"
  using readyD(2) [of C f L] find_SomeD
  by (fastforce simp: find_storage_def find_local_def find_global_def env_ok_def list_all_iff split: option.splits)

lemma load_or_addr_yields:
  assumes "ready C f L" and "nonvoid (lw_m L) t" and "is_val (lw_m L) a"
  shows "yields C f L (load_or_addr sem t a L) some_val"
  using assms build_load by (simp add: load_or_addr_def yields_Some)

lemma ast_type_goes:
  assumes r: "ready C f L"
  shows "goes C f L (snd (ir_of_ast_type t L))" and "has_ty (lw_m (snd (ir_of_ast_type t L))) (fst (ir_of_ast_type t L))"
    and "value_type (mn_types C) t \<Longrightarrow> nonvoid (lw_m (snd (ir_of_ast_type t L))) (fst (ir_of_ast_type t L))"
  using ir_of_ast_type_ok [OF readyD(1) [OF r] names_ready [OF r], of t] adds_goes [OF r] by auto

lemma sizeof_yields:
  assumes r: "ready C f L" and t: "nonvoid (lw_m L) rt"
  shows "yields C f L (do { let (t, L) = (case ty of Some ty \<Rightarrow> ir_of_ast_type ty L | None \<Rightarrow> (ir_type_void (lw_m L), L));
      sz \<leftarrow> ir_type_size (im_types (lw_m L)) t; some_value (new_const rt (ucast sz) L) }) some_val"
proof (rule yields_let [where Q = "\<lambda>t L. has_ty (lw_m L) t"], goal_cases)
  case 1
  then show ?case using ast_type_goes(1) [OF r] goes_refl [OF r] by (simp split: option.split)
next
  case 2
  then show ?case
    using ast_type_goes(2) [OF r] readyD(1) [OF r] by (simp add: module_typed_def ir_type_void_def split: option.split)
next
  case (3 t L')
  show ?case
    by (rule yields_size [OF 3(2,3)], rule some_value_yields(1) [OF 3(2) goes_nonvoid [OF 3(1) t]])
qed

lemma lower_leaf:
  assumes r: "ready C f L" and s: "value_ty C sem" and u: "is_leaf u"
  shows "yields C f L (lower_node le la pos sem u L) some_val"
  unfolding lower_node_def
proof (rule yields_bind [OF yields_ir_of_ty [OF r s]], goal_cases)
  case (1 rt L')
  note r' = 1(2) and t = 1(3)
  have name: "yields C f L' (case find_storage L' n of
                 Some b \<Rightarrow> load_or_addr sem (bd_type b) (bd_addr b) L'
               | None \<Rightarrow> (case enum_member_value L' sem n of
                     Some v \<Rightarrow> some_value (new_const rt v L')
                   | None \<Rightarrow> Some (undef rt (fail pos ''unresolved name'' L')))) some_val" for n
  proof (cases "find_storage L' n")
    case None
    have f: "ready C f (fail pos w L')" "goes C f L' (fail pos w L')" "lw_m (fail pos w L') = lw_m L'" for w
      using fail_ready [OF r'] by simp_all
    have "yields C f L' (Some (undef rt (fail pos w L'))) some_val" for w
      by (rule yields_goes [OF f(2) undef_yields [OF f(1)]]) (simp add: f(3) t)
    then show ?thesis using None some_value_yields(1) [OF r' t] by (simp split: option.split)
  next
    case (Some b)
    then show ?thesis using find_storage_ok [OF r' Some] load_or_addr_yields [OF r'] by (simp add: binding_ok_def)
  qed
  show ?case
    using u some_value_yields [OF r'] t name sizeof_yields [OF r' t] by (cases u) (auto simp: Let_def)
qed

text \<open>A node, once the value of its operands is known to be given.\<close>

lemma lower_inner:
  assumes r: "ready C f L" and s: "value_ty C sem"
    and k: "\<And>L'. ready C f L' \<Longrightarrow> yields C f L' (k L') some_val"
    and u: "lower_node le la pos sem u L = Option.bind (ir_of_ty sem L) (\<lambda>(rt, L). k L)"
  shows "yields C f L (lower_node le la pos sem u L) some_val"
  unfolding u by (rule yields_bind [OF yields_ir_of_ty [OF r s]]) (rule k)

lemma addr_value:
  assumes "ready C f L" and "value_ty C sem" and "\<And>L. ready C f L \<Longrightarrow> yields C f L (m L) some_val"
  shows "yields C f L (do { (rt, L) \<leftarrow> ir_of_ty sem L; (p, L) \<leftarrow> m L; p \<leftarrow> p; load_or_addr sem rt p L }) some_val"
proof (rule yields_bind [OF yields_ir_of_ty [OF assms(1,2)]], rule yields_bind [OF assms(3)], assumption, goal_cases)
  case (1 rt L1 p L2)
  then show ?case by (auto elim!: some_valE intro!: load_or_addr_yields goes_nonvoid [OF 1(4,3)])
qed

lemma converted:
  assumes a: "lowers C f le (Some a)" and r: "ready C f L" and s: "value_ty C sem"
  shows "yields C f L (do { (v, L) \<leftarrow> le (Some a) L; asem \<leftarrow> sem_of (Some a); lower_conversion v asem sem pos L }) some_val"
  by (rule lowers_bind [OF a r]) (simp add: sem_of_def lower_conversion_yields s)

lemma lower_address_of:
  assumes r: "ready C f L" and s: "value_ty C sem" and a: "lowers C f la (Some a)"
  shows "yields C f L (lower_unary le la pos sem (Punct TOK_AMP) (Some a) L) some_val"
  unfolding lower_unary_def by (rule yields_bind [OF yields_ir_of_ty [OF r s]]) (simp add: lowersD [OF a])

section \<open>Whole trees\<close>

text \<open>Deep enough for a tree: as deep as it is big.\<close>

definition lowers_n :: "meaning \<Rightarrow> fnref \<Rightarrow> nat \<Rightarrow> expr \<Rightarrow> bool" where
  "lowers_n C f k e \<longleftrightarrow> (\<forall>n \<ge> k. lowers C f (lower_expr_n n) (Some e))"

definition places_n :: "meaning \<Rightarrow> fnref \<Rightarrow> nat \<Rightarrow> expr \<Rightarrow> bool" where
  "places_n C f k e \<longleftrightarrow> (\<forall>n \<ge> k. lowers C f (lower_addr_n n) (Some e))"

lemma lowers_nD: "lowers_n C f k e \<Longrightarrow> k \<le> n \<Longrightarrow> lowers C f (lower_expr_n n) (Some e)"
  by (simp add: lowers_n_def)

lemma places_nD: "places_n C f k e \<Longrightarrow> k \<le> n \<Longrightarrow> lowers C f (lower_addr_n n) (Some e)"
  by (simp add: places_n_def)

lemma lowers_nI:
  assumes "\<And>n L. k \<le> n \<Longrightarrow> ready C f L \<Longrightarrow> yields C f L (lower_node (lower_expr_n n) (lower_addr_n n) pos sem u L) some_val" and "Suc k \<le> k'"
  shows "lowers_n C f k' (Expr pos sem u)"
  unfolding lowers_n_def lowers_def
proof (intro allI impI)
  fix n L assume n: "k' \<le> n" and r: "ready C f L"
  then obtain n' where "n = Suc n'" "k \<le> n'" using assms(2) by (cases n) auto
  then show "yields C f L (lower_expr_n n (Some (Expr pos sem u)) L) some_val" using assms(1) r by simp
qed

lemma places_nI:
  assumes "\<And>n L. k \<le> n \<Longrightarrow> ready C f L \<Longrightarrow> yields C f L (lower_addr_node (lower_expr_n n) (lower_addr_n n) pos u L) some_val" and "Suc k \<le> k'"
  shows "places_n C f k' (Expr pos sem u)"
  unfolding places_n_def lowers_def
proof (intro allI impI)
  fix n L assume n: "k' \<le> n" and r: "ready C f L"
  then obtain n' where "n = Suc n'" "k \<le> n'" using assms(2) by (cases n) auto
  then show "yields C f L (lower_addr_n n (Some (Expr pos sem u)) L) some_val" using assms(1) r by simp
qed

lemma lowered_tree:
  shows "lowerable C e \<Longrightarrow> lowers_n C f (size e) e" and "addressable C e \<Longrightarrow> places_n C f (size e) e"
proof (induction rule: lowerable_addressable.inducts)
  case (lo_leaf sem u pos)
  then show ?case by (auto intro!: lowers_nI [where k = 0] lower_leaf)
next
  case (lo_addr sem a pos)
  show ?case
    by (rule lowers_nI [where k = "size a"], rule lower_inner [OF _ lo_addr(1)], assumption,
        rule lower_address_of [OF _ lo_addr(1) places_nD [OF lo_addr(3)]]) (auto simp: lower_node_def)
next
  case (lo_unary sem op a pos)
  show ?case
    by (rule lowers_nI [where k = "size a"], rule lower_inner [OF _ lo_unary(1)], assumption,
        rule lower_unary_yields [OF _ lo_unary(1,4) lowers_nD [OF lo_unary(3)] value_some [OF lowerable_ty [OF lo_unary(2)]]])
      (auto simp: lower_node_def)
next
  case (lo_binary sem a b pos op)
  show ?case
    by (rule lowers_nI [where k = "size a + size b"], rule lower_inner [OF _ lo_binary(1)], assumption,
        rule lower_binary_yields [OF _ lo_binary(1) lowers_nD [OF lo_binary(3)] value_ty_ok [OF lowerable_ty [OF lo_binary(2)]] lowers_nD [OF lo_binary(5)]])
      (auto simp: lower_node_def)
next
  case (lo_call sem c args pos)
  have a: "lowers C f (lower_expr_n n) a \<and> a \<noteq> None" if aa: "a \<in> set args" and nn: "size_list (size_option size) args \<le> n" for a n
  proof -
    obtain x where x: "a = Some x" "lowers_n C f (size x) x" using bspec [OF lo_call(3) aa] by auto
    have "size x \<le> size_list (size_option size) args"
      using size_list_estimation' [OF aa, of "size x" "size_option size"] by (simp add: x(1))
    then show ?thesis using lowers_nD [OF x(2)] nn x(1) by simp
  qed
  show ?case
  proof (rule lowers_nI [where k = "size_list (size_option size) args"], goal_cases)
    case (1 n L)
    show ?case
    proof (rule lower_inner [OF 1(2) lo_call(1)])
      show "lower_node (lower_expr_n n) (lower_addr_n n) pos sem (EXPR_CALL (Some c) args) L
          = Option.bind (ir_of_ty sem L) (\<lambda>(rt, L). lower_call (lower_expr_n n) pos sem (Some c) args L)"
        by (simp add: lower_node_def)
      fix L' assume "ready C f L'"
      then show "yields C f L' (lower_call (lower_expr_n n) pos sem (Some c) args L') some_val"
        using lower_call_yields(1) [OF _ a lo_call(1,2)] 1(1) by blast
    qed
  qed simp
next
  case (lo_index sem pos a i)
  show ?case
  proof (rule lowers_nI [where k = "size (EXPR_INDEX a i)"], goal_cases)
    case (1 n L)
    have "yields C f L (addr_index (lower_expr_n n) (lower_addr_n n) pos a i L) some_val" if "ready C f L" for L
      using lowersD [OF places_nD [OF lo_index(3)] that, of "Suc n"] 1(1) by (simp add: lower_addr_node_def)
    then show ?case using addr_value [OF 1(2) lo_index(1)] by (simp add: lower_node_def)
  qed simp
next
  case (lo_field sem pos a m)
  show ?case
  proof (rule lowers_nI [where k = "size (EXPR_FIELD a m)"], goal_cases)
    case (1 n L)
    have "yields C f L (addr_field (lower_expr_n n) (lower_addr_n n) pos a m L) some_val" if "ready C f L" for L
      using lowersD [OF places_nD [OF lo_field(3)] that, of "Suc n"] 1(1) by (simp add: lower_addr_node_def)
    then show ?case using addr_value [OF 1(2) lo_field(1)] by (simp add: lower_node_def)
  qed simp
next
  case (lo_cast sem a pos ty)
  show ?case
    by (rule lowers_nI [where k = "size a"], rule lower_inner [OF _ lo_cast(1)], assumption,
        rule converted [OF lowers_nD [OF lo_cast(3)] _ lo_cast(1)]) (auto simp: lower_node_def)
next
  case (lo_conv sem a pos)
  show ?case
    by (rule lowers_nI [where k = "size a"], rule lower_inner [OF _ lo_conv(1)], assumption,
        rule converted [OF lowers_nD [OF lo_conv(3)] _ lo_conv(1)]) (auto simp: lower_node_def)
next
  case (ad_name pos sem m)
  show ?case
  proof (rule places_nI [where k = 0], goal_cases)
    case (1 n L)
    show ?case
      using no_addr_yields [OF 1(2)] find_storage_ok [OF 1(2)] 1(2)
      by (auto simp: lower_addr_node_def binding_ok_def yields_Some split: option.split)
  qed simp
next
  case (ad_deref a pos sem)
  show ?case
    by (rule places_nI [where k = "size a"]) (auto simp: lower_addr_node_def intro: lowersD lowers_nD [OF ad_deref(2)])
next
  case (ad_index a i pos sem)
  have b: "based C f (lower_expr_n n) (lower_addr_n n) a" if "size a \<le> n" for n
    using ad_index(1,2) lowers_nD [OF _ that] places_nD [OF _ that] by (auto simp: based_def)
  show ?case
    by (rule places_nI [where k = "size a + size i"])
      (auto simp: lower_addr_node_def value_some [OF lowerable_ty [OF ad_index(3)], simplified] intro!: addr_index_yields b lowers_nD [OF ad_index(4)])
next
  case (ad_field a pos sem m)
  have b: "based C f (lower_expr_n n) (lower_addr_n n) a" if "size a \<le> n" for n
    using ad_field(1,2) lowers_nD [OF _ that] places_nD [OF _ that] by (auto simp: based_def)
  show ?case
    by (rule places_nI [where k = "size a"]) (auto simp: lower_addr_node_def intro!: addr_field_yields b)
next
  case (ad_conv a pos sem)
  show ?case
    by (rule places_nI [where k = "size a"]) (auto simp: lower_addr_node_def intro: lowersD places_nD [OF ad_conv(2)])
next
  case (ad_none u pos sem)
  then show ?case
    by (auto intro!: places_nI [where k = 0] simp: lower_addr_node_def no_addr_yields split: expr_node.split)
qed

theorem lower_expr_yields: "lowerable C e \<Longrightarrow> ready C f L \<Longrightarrow> yields C f L (lower_expr (Some e) L) some_val"
  using lowersD [OF lowers_nD [OF lowered_tree(1)]] by (simp add: lower_expr_def)

theorem lower_addr_yields: "addressable C e \<Longrightarrow> ready C f L \<Longrightarrow> yields C f L (lower_addr (Some e) L) some_val"
  using lowersD [OF places_nD [OF lowered_tree(2)]] by (simp add: lower_addr_def)

end
