(* ===== verification/Slop_Lower_Store.thy ===== *)
theory Slop_Lower_Store
  imports Slop_Lower_Exprs Slop_Types_Props
begin

text \<open>
  The statements that are not control flow: names of stack slots, the runtime functions, declarations, assignments
  and returns.
\<close>

section \<open>Names of stack slots\<close>

definition slot_name :: "string \<Rightarrow> nat \<Rightarrow> string" where
  "slot_name base n = (if n = 0 then base else base @ ''.'' @ dec_of_nat n)"

text \<open>Short enough that no number cuts it.\<close>

definition short_name :: "string \<Rightarrow> bool" where
  "short_name base \<longleftrightarrow> length base \<le> 148"

lemma slot_name_inj: "slot_name base m = slot_name base n \<Longrightarrow> m = n"
  by (auto simp: slot_name_def split: if_splits)

lemma slot_name_short: "short_name base \<Longrightarrow> n < 2 ^ 32 \<Longrightarrow> take 159 (slot_name base n) = slot_name base n"
  using dec_of_nat_length [of n 10] by (simp add: slot_name_def short_name_def)

lemma free_name_finds:
  assumes s: "short_name base" and k: "n \<le> k" "k < 2 ^ 32" and f: "slot_name base k \<notin> set used"
    and u: "\<And>j. n \<le> j \<Longrightarrow> j < k \<Longrightarrow> slot_name base j \<in> set used"
  shows "free_name used base (slot_name base n) (of_nat n) = Some (slot_name base k)"
  using k(1) u
proof (induction "k - n" arbitrary: n)
  case 0
  then show ?case using f by (simp add: free_name.simps)
next
  case (Suc d)
  have "unat (of_nat (Suc n) :: u32) = Suc n"
    unfolding unat_of_nat using Suc.hyps(2) k(2) by (simp add: take_bit_nat_eq_self)
  then have c: "unat (1 + of_nat n :: u32) = Suc n" by simp
  have n: "take 159 (base @ ''.'' @ dec_of_nat (Suc n)) = slot_name base (Suc n)"
    using slot_name_short [OF s, of "Suc n"] Suc.hyps(2) k(2) by (simp add: slot_name_def)
  have "free_name used base (slot_name base (Suc n)) (of_nat (Suc n)) = Some (slot_name base k)"
    using Suc by (intro Suc.hyps(1)) auto
  moreover have "slot_name base n \<in> set used" using Suc by simp
  ultimately show ?case by (subst free_name.simps) (simp add: c n [unfolded append.simps] add.commute [of "of_nat n"] del: take_append)
qed

text \<open>
  Of the first \<open>length used + 1\<close> names one is free, so the loop ends there: the first free one is taken.
\<close>

lemma unique_name_finds:
  assumes s: "short_name base" and l: "length (lw_used L) < 2 ^ 32"
  obtains k where "k \<le> length (lw_used L)" "slot_name base k \<notin> set (lw_used L)" "\<forall>j < k. slot_name base j \<in> set (lw_used L)"
    "unique_name base L = Some (slot_name base k, L\<lparr>lw_used := lw_used L @ [slot_name base k]\<rparr>)"
proof -
  let ?U = "set (lw_used L)"
  have "\<exists>k \<le> length (lw_used L). slot_name base k \<notin> ?U"
  proof (rule ccontr)
    assume "\<not> ?thesis"
    then have "slot_name base ` {..length (lw_used L)} \<subseteq> ?U" by auto
    moreover have "inj_on (slot_name base) {..length (lw_used L)}" using slot_name_inj by (auto simp: inj_on_def)
    ultimately have "card {..length (lw_used L)} \<le> card ?U" by (metis List.finite_set card_image card_mono)
    then show False using card_length [of "lw_used L"] by simp
  qed
  then obtain k0 where k0: "k0 \<le> length (lw_used L)" "slot_name base k0 \<notin> ?U" by blast
  define k where "k = (LEAST k. slot_name base k \<notin> ?U)"
  have k: "slot_name base k \<notin> ?U" "\<forall>j < k. slot_name base j \<in> ?U" "k \<le> k0"
    unfolding k_def using LeastI [of "\<lambda>k. slot_name base k \<notin> ?U", OF k0(2)] Least_le [of "\<lambda>k. slot_name base k \<notin> ?U", OF k0(2)]
    by (auto dest: not_less_Least)
  have "take 159 base = base" using s by (simp add: short_name_def)
  moreover have "free_name (lw_used L) base (slot_name base 0) (of_nat 0) = Some (slot_name base k)"
    by (rule free_name_finds [OF s]) (use k k0 l in auto)
  ultimately have "unique_name base L = Some (slot_name base k, L\<lparr>lw_used := lw_used L @ [slot_name base k]\<rparr>)"
    by (simp add: unique_name_def slot_name_def)
  moreover have "k \<le> length (lw_used L)" using k(3) k0(1) by simp
  ultimately show thesis using that k by blast
qed

section \<open>What a statement does\<close>

text \<open>
  A statement leaves the same other blocks pending; it may close the current one. The locals it declares come after
  those there were, and it takes at most \<open>k\<close> names.
\<close>

definition flows :: "meaning \<Rightarrow> fnref \<Rightarrow> nat \<Rightarrow> lower \<Rightarrow> lower \<Rightarrow> bool" where
  "flows C f k L L' \<longleftrightarrow> steps C f L L' \<and> others f L' = others f L \<and> (\<exists>ls. lw_locals L' = lw_locals L @ ls)
     \<and> length (lw_used L') \<le> length (lw_used L) + k"

lemma goes_flows: "goes C f L L' \<Longrightarrow> flows C f 0 L L'"
  by (auto simp: goes_def flows_def same_scope_def)

lemma closes_flows: "closes C f L L' \<Longrightarrow> flows C f 0 L L'"
  by (auto simp: closes_def flows_def same_scope_def)

lemma flows_trans: "flows C f j a b \<Longrightarrow> flows C f k b c \<Longrightarrow> flows C f (j + k) a c"
  using steps_trans by (fastforce simp: flows_def)

lemma flows_le: "flows C f j a b \<Longrightarrow> j \<le> k \<Longrightarrow> flows C f k a b"
  by (fastforce simp: flows_def)

lemma flows_ok: "flows C f k a b \<Longrightarrow> lower_ok C f b"
  using steps_ok by (auto simp: flows_def)

section \<open>The runtime functions\<close>

lemma new_params_ok:
  "module_typed m \<Longrightarrow> \<forall>t \<in> set ts. has_ty m t \<Longrightarrow> (\<forall>f. grows f m (snd (new_params m i ts))) \<and> module_typed (snd (new_params m i ts))
     \<and> im_blocks (snd (new_params m i ts)) = im_blocks m \<and> im_functions (snd (new_params m i ts)) = im_functions m
     \<and> (\<forall>p \<in> set (fst (new_params m i ts)). p < length (im_values (snd (new_params m i ts))))"
proof (induction ts arbitrary: m i)
  case (Cons t ts)
  let ?x = "\<lparr>iv_kind = IRV_LOCAL, iv_type = t, iv_ival = 0, iv_fval = 0, iv_name = []\<rparr>"
  let ?m = "m\<lparr>im_values := im_values m @ [?x]\<rparr>"
  let ?p = "length (im_values m)"
  let ?m2 = "value_set ?p (\<lambda>x. x\<lparr>iv_name := fmt_name ''arg'' i\<rparr>) ?m"
  have a: "\<And>f. grows f m ?m" "module_typed ?m" using add_value(1,2) [OF Cons.prems(1), of ?x] Cons.prems(2) by simp_all
  have b: "\<And>f. grows f ?m ?m2" "module_typed ?m2"
    using set_value(1,2) [OF a(2), of "\<lambda>x. x\<lparr>iv_name := fmt_name ''arg'' i\<rparr>"] by simp_all
  have g: "grows f m ?m2" for f using grows_trans [OF a(1) b(1)] .
  have "\<forall>t \<in> set ts. has_ty ?m2 t" using Cons.prems(2) grows_ty(1) [OF g] by auto
  note ih = Cons.IH [OF b(2) this, of "i + 1"]
  have s: "im_blocks ?m2 = im_blocks m" "im_functions ?m2 = im_functions m" "length (im_values ?m2) = Suc ?p"
    by (simp_all add: value_set_def)
  have "grows 0 ?m2 (snd (new_params ?m2 (i + 1) ts))" using ih by blast
  then have "?p < length (im_values (snd (new_params ?m2 (i + 1) ts)))" using s(3) by (simp add: grows_def)
  then show ?case
    using ih s grows_trans [OF g] by (auto simp: value_new_def Let_def split_def)
qed simp

lemma new_function:
  fixes name :: string and va dc :: bool
  assumes ok: "module_typed m" and ts: "\<forall>t \<in> set ts. has_ty m t" and rt: "has_ty m rt"
  defines "m' \<equiv> snd (ir_function_new m name rt ts va dc)"
  shows "dc \<Longrightarrow> grows f m m'" and "module_typed m'" and "im_blocks m' = im_blocks m"
    and "fst (ir_function_new m name rt ts va dc) = length (im_functions m)" and "length (im_functions m') = Suc (length (im_functions m))"
    and "if_ret (fn_obj m' (length (im_functions m))) = rt" and "grows (length (im_functions m)) m m'"
    and "if_blocks (fn_obj m' (length (im_functions m))) = []" and "\<And>g. g < length (im_functions m) \<Longrightarrow> fn_obj m' g = fn_obj m g"
proof -
  let ?q = "snd (new_params m 0 ts)"
  let ?ps = "fst (new_params m 0 ts)"
  let ?F = "\<lparr>if_name = name, if_ret = rt, if_params = ?ps, if_is_vararg = va, if_is_declaration = dc, if_blocks = [], if_next_temp = 0\<rparr>"
  note q = new_params_ok [OF ok ts, of 0]
  have m': "m' = ?q\<lparr>im_functions := im_functions ?q @ [?F]\<rparr>" by (simp add: m'_def ir_function_new_def split_def Let_def)
  have fo: "fn_obj m' g = (if g = length (im_functions m) then ?F else fn_obj m g)" if "g \<le> length (im_functions m)" for g
    using that q by (auto simp: m' fn_obj_def nth_append)
  have gq: "grows g ?q m'" if "dc \<or> g = length (im_functions m)" for g
    using that q fo by (auto simp: grows_def m' val_obj_def blk_obj_def basic_types_def same_sig_def fn_obj_def nth_append less_Suc_eq)
  show gr: "dc \<Longrightarrow> grows f m m'" and gl: "grows (length (im_functions m)) m m'"
    using gq [of f] gq [of "length (im_functions m)"] q grows_trans [of _ m ?q m'] by auto
  have "has_ty m' rt" using grows_ty(1) [OF gl rt] .
  moreover have "im_values m' = im_values ?q" "im_types m' = im_types ?q" by (simp_all add: m')
  ultimately show "module_typed m'"
    by (intro module_typed_grows [OF _ gq [of "length (im_functions m)"]])
      (use q module_types [of ?q] fo [of "length (im_functions m)"] in \<open>auto simp: m' sig_ok_def less_Suc_eq\<close>)
  show "im_blocks m' = im_blocks m" "length (im_functions m') = Suc (length (im_functions m))" using q by (simp_all add: m')
  show "fst (ir_function_new m name rt ts va dc) = length (im_functions m)" using q by (simp add: ir_function_new_def split_def Let_def)
  show "if_ret (fn_obj m' (length (im_functions m))) = rt" "if_blocks (fn_obj m' (length (im_functions m))) = []" using fo by simp_all
  show "fn_obj m' g = fn_obj m g" if "g < length (im_functions m)" for g using fo [of g] that by simp
qed

text \<open>Declaring \<open>memcpy\<close> or \<open>memset\<close> while a function is lowered.\<close>

lemma function_step:
  fixes name :: string and va :: bool
  assumes r: "ready C f L" and ts: "\<forall>t \<in> set ts. has_ty (lw_m L) t" and rt: "nonvoid (lw_m L) rt"
  defines "F \<equiv> in_module (\<lambda>m. ir_function_new m name rt ts va True) L"
  shows "goes C f L (snd F)" and "fst F < length (im_functions (lw_m (snd F)))" and "nonvoid (lw_m (snd F)) (if_ret (fn_obj (lw_m (snd F)) (fst F)))"
proof -
  note nf = new_function [OF readyD(1) [OF r] ts nonvoid_ty [OF rt], where name = name and va = va and dc = True]
  have "fn_obj (snd (ir_function_new (lw_m L) name rt ts va True)) f = fn_obj (lw_m L) f" using nf(9) readyD(4) [OF r] by simp
  then show g: "goes C f L (snd F)"
    using module_step [OF r nf(1) nf(2,3)] by (simp add: F_def in_module_eq)
  show "fst F < length (im_functions (lw_m (snd F)))" using nf(4,5) by (simp add: F_def in_module_eq)
  show "nonvoid (lw_m (snd F)) (if_ret (fn_obj (lw_m (snd F)) (fst F)))"
    using nf(4,6) goes_nonvoid [OF g rt] by (simp add: F_def in_module_eq)
qed

lemma runtime_set:
  assumes r: "ready C f L" and g: "g < length (im_functions (lw_m L))" "nonvoid (lw_m L) (if_ret (fn_obj (lw_m L) g))"
  shows "goes C f L (L\<lparr>lw_memcpy := Some g\<rparr>)" and "goes C f L (L\<lparr>lw_memset := Some g\<rparr>)"
proof -
  have "lower_ok C f (L\<lparr>lw_memcpy := Some g\<rparr>)" "lower_ok C f (L\<lparr>lw_memset := Some g\<rparr>)"
    using r g by (simp_all add: ready_def lower_ok_def env_ok_def find_named_def find_func_def runtime_ok_def)
  then show "goes C f L (L\<lparr>lw_memcpy := Some g\<rparr>)" "goes C f L (L\<lparr>lw_memset := Some g\<rparr>)"
    using r by (auto simp: goes_def steps_def same_scope_def ready_def is_open_def cur_bb_def others_def)
qed

lemma runtime_yields:
  assumes r: "ready C f L"
  shows "goes C f L (snd (runtime_memcpy L))" and "fst (runtime_memcpy L) < length (im_functions (lw_m (snd (runtime_memcpy L))))"
    and "goes C f L (snd (runtime_memset L))" and "fst (runtime_memset L) < length (im_functions (lw_m (snd (runtime_memset L))))"
proof -
  note b = ready_basic [OF r] ready_basic [OF r, THEN nonvoid_ty]
  note ro = readyD(2) [OF r, unfolded env_ok_def runtime_ok_def]
  let ?c = "in_module (\<lambda>m. ir_function_new m ''memcpy'' (ir_type_ptr m) [im_ty_ptr (lw_m L), im_ty_ptr (lw_m L), im_ty_i64 (lw_m L)] False True) L"
  let ?s = "in_module (\<lambda>m. ir_function_new m ''memset'' (ir_type_ptr m) [im_ty_ptr (lw_m L), im_ty_i32 (lw_m L), im_ty_i64 (lw_m L)] False True) L"
  have fc: "goes C f L (snd ?c)" "fst ?c < length (im_functions (lw_m (snd ?c)))" "nonvoid (lw_m (snd ?c)) (if_ret (fn_obj (lw_m (snd ?c)) (fst ?c)))"
    using function_step [OF r _ b(7), of "[im_ty_ptr (lw_m L), im_ty_ptr (lw_m L), im_ty_i64 (lw_m L)]" "''memcpy''" False] b
    by (simp_all add: in_module_eq ir_type_ptr_def)
  have fs: "goes C f L (snd ?s)" "fst ?s < length (im_functions (lw_m (snd ?s)))" "nonvoid (lw_m (snd ?s)) (if_ret (fn_obj (lw_m (snd ?s)) (fst ?s)))"
    using function_step [OF r _ b(7), of "[im_ty_ptr (lw_m L), im_ty_i32 (lw_m L), im_ty_i64 (lw_m L)]" "''memset''" False] b
    by (simp_all add: in_module_eq ir_type_ptr_def)
  have mc: "runtime_memcpy L = (fst ?c, (snd ?c)\<lparr>lw_memcpy := Some (fst ?c)\<rparr>)" if "lw_memcpy L = None"
    using that by (simp add: runtime_memcpy_def int_type_eq split_def Let_def ir_type_ptr_def)
  have ms: "runtime_memset L = (fst ?s, (snd ?s)\<lparr>lw_memset := Some (fst ?s)\<rparr>)" if "lw_memset L = None"
    using that by (simp add: runtime_memset_def int_type_eq split_def Let_def ir_type_ptr_def)
  note sc = goes_trans [OF fc(1) runtime_set(1) [OF goes_ready [OF fc(1)] fc(2,3)]]
  note ss = goes_trans [OF fs(1) runtime_set(2) [OF goes_ready [OF fs(1)] fs(2,3)]]
  show "goes C f L (snd (runtime_memcpy L))" "fst (runtime_memcpy L) < length (im_functions (lw_m (snd (runtime_memcpy L))))"
    using sc mc fc(2) ro goes_refl [OF r] by (cases "lw_memcpy L"; simp add: runtime_memcpy_def [of L]; fail)+
  show "goes C f L (snd (runtime_memset L))" "fst (runtime_memset L) < length (im_functions (lw_m (snd (runtime_memset L))))"
    using ss ms fs(2) ro goes_refl [OF r] by (cases "lw_memset L"; simp add: runtime_memset_def [of L]; fail)+
qed

section \<open>Stores\<close>

definition completes :: "meaning \<Rightarrow> fnref \<Rightarrow> nat \<Rightarrow> lower \<Rightarrow> lower option \<Rightarrow> bool" where
  "completes C f k L m \<longleftrightarrow> (\<exists>L'. m = Some L' \<and> flows C f k L L')"

lemma completes_Some: "flows C f k L L' \<Longrightarrow> completes C f k L (Some L')"
  by (simp add: completes_def)

lemma goes_completes: "goes C f L L' \<Longrightarrow> completes C f k L' m \<Longrightarrow> completes C f k L m"
  using flows_trans [OF goes_flows] by (fastforce simp: completes_def)

lemma completes_le: "completes C f j L m \<Longrightarrow> j \<le> k \<Longrightarrow> completes C f k L m"
  using flows_le by (fastforce simp: completes_def)

lemma completes_bind:
  assumes "yields C f L m Q" and "\<And>r L'. goes C f L L' \<Longrightarrow> ready C f L' \<Longrightarrow> Q r L' \<Longrightarrow> completes C f k L' (c r L')"
  shows "completes C f k L (Option.bind m (\<lambda>(r, L). c r L))"
proof -
  obtain r L' where m: "m = Some (r, L')" "goes C f L L'" "Q r L'" using assms(1) by (auto simp: yields_iff)
  then show ?thesis using goes_completes [OF m(2) assms(2) [OF m(2) goes_ready [OF m(2)] m(3)]] by simp
qed

lemma completes_let:
  assumes "goes C f L (snd p)" and "\<And>L'. goes C f L L' \<Longrightarrow> ready C f L' \<Longrightarrow> L' = snd p \<Longrightarrow> completes C f k L' (c (fst p) L')"
  shows "completes C f k L (let (r, L) = p in c r L)"
  using goes_completes [OF assms(1) assms(2) [OF assms(1) goes_ready [OF assms(1)] refl]] by (simp add: split_def)

lemma completes_then:
  assumes "completes C f j L m" and "\<And>L'. flows C f j L L' \<Longrightarrow> completes C f k L' (c L')"
  shows "completes C f (j + k) L (Option.bind m c)"
proof -
  obtain L' where m: "m = Some L'" "flows C f j L L'" using assms(1) by (auto simp: completes_def)
  obtain L'' where "c L' = Some L''" "flows C f k L' L''" using assms(2) [OF m(2)] by (auto simp: completes_def)
  then show ?thesis using flows_trans [OF m(2)] by (simp add: completes_def m(1))
qed

lemma store_runs: "ready C f L \<Longrightarrow> completes C f 0 L (store v p L)"
  using store_goes goes_flows by (fastforce simp: completes_def)

text \<open>A step that leaves the current block open, without a value.\<close>

definition proceeds :: "meaning \<Rightarrow> fnref \<Rightarrow> lower \<Rightarrow> lower option \<Rightarrow> bool" where
  "proceeds C f L m \<longleftrightarrow> (\<exists>L'. m = Some L' \<and> goes C f L L')"

lemma proceeds_completes: "proceeds C f L m \<Longrightarrow> completes C f 0 L m"
  using goes_flows by (auto simp: proceeds_def completes_def)

lemma proceeds_goes: "goes C f L L' \<Longrightarrow> proceeds C f L' m \<Longrightarrow> proceeds C f L m"
  using goes_trans by (fastforce simp: proceeds_def)

lemma proceeds_bind:
  assumes "yields C f L m Q" and "\<And>r L'. goes C f L L' \<Longrightarrow> ready C f L' \<Longrightarrow> Q r L' \<Longrightarrow> proceeds C f L' (c r L')"
  shows "proceeds C f L (Option.bind m (\<lambda>(r, L). c r L))"
proof -
  obtain r L' where m: "m = Some (r, L')" "goes C f L L'" "Q r L'" using assms(1) by (auto simp: yields_iff)
  then show ?thesis using proceeds_goes [OF m(2) assms(2) [OF m(2) goes_ready [OF m(2)] m(3)]] by simp
qed

lemma proceeds_let:
  assumes "goes C f L (snd p)" and "\<And>L'. goes C f L L' \<Longrightarrow> ready C f L' \<Longrightarrow> L' = snd p \<Longrightarrow> proceeds C f L' (c (fst p) L')"
  shows "proceeds C f L (let (r, L) = p in c r L)"
  using proceeds_goes [OF assms(1) assms(2) [OF assms(1) goes_ready [OF assms(1)] refl]] by (simp add: split_def)

lemma store_proceeds: "ready C f L \<Longrightarrow> proceeds C f L (store v p L)"
  using store_goes by (fastforce simp: proceeds_def)

lemma const_int_goes:
  assumes r: "ready C f L"
  shows "goes C f L (snd (const_int 32 v L))" and "goes C f L (snd (const_int 64 v L))"
  using module_value(1) [OF r makes_const(1) [OF readyD(1) [OF r] ready_basic(3) [OF r], of v]]
    module_value(1) [OF r makes_const(1) [OF readyD(1) [OF r] ready_basic(4) [OF r], of v]]
  by (simp_all add: const_int_def int_type_eq)

lemma emit_runtime_proceeds:
  assumes r: "ready C f L"
  shows "proceeds C f L (emit_memcpy d s n L)" and "proceeds C f L (emit_zero d n L)"
proof -
  show "proceeds C f L (emit_memcpy d s n L)"
    unfolding emit_memcpy_def
  proof (rule proceeds_let [OF const_int_goes(2) [OF r]], rule proceeds_let [OF runtime_yields(1)], assumption, goal_cases)
    case (1 L1 L2)
    then show ?case using runtime_yields(2) [OF 1(2)]
      by (intro proceeds_bind [OF build_call]) (auto simp: proceeds_def goes_refl)
  qed
  show "proceeds C f L (emit_zero d n L)"
    unfolding emit_zero_def
  proof (rule proceeds_let [OF const_int_goes(1) [OF r]], rule proceeds_let [OF const_int_goes(2)], assumption,
      rule proceeds_let [OF runtime_yields(3)], assumption, goal_cases)
    case (1 L1 L2 L3)
    then show ?case using runtime_yields(4) [OF 1(5)]
      by (intro proceeds_bind [OF build_call]) (auto simp: proceeds_def goes_refl)
  qed
qed

lemma store_value_proceeds:
  assumes r: "ready C f L" and e: "lowerable C e" and t: "value_ty C t"
  shows "proceeds C f L (store_value addr (Some e) t L)"
proof -
  obtain s where s: "t = Some s" using value_some [OF t] by auto
  have "proceeds C f L (do { (v, L) \<leftarrow> lower_expr (Some e) L; v \<leftarrow> v; r \<leftarrow> t; emit_memcpy addr v (t_size (lty L r)) L })"
    by (rule proceeds_bind [OF lower_expr_yields [OF e r]]) (auto simp: s elim!: some_valE intro: emit_runtime_proceeds)
  moreover have "proceeds C f L (do { (v, L) \<leftarrow> lower_expr (Some e) L; (want, L) \<leftarrow> ir_of_ty t L; vsem \<leftarrow> sem_of (Some e);
      (v, L) \<leftarrow> coerce_to v want vsem L; store v addr L })"
  proof (rule proceeds_bind [OF lower_expr_yields [OF e r]], rule proceeds_bind [OF yields_ir_of_ty [OF _ t]], assumption, goal_cases)
    case (1 v L1 w L2)
    show ?case
      unfolding sem_of_def option.map bind.bind_lunit
      by (rule proceeds_bind [OF coerce_to_yields [OF 1(5) goes_some_val [OF 1(4,3)] nonvoid_ty [OF 1(6)]]]) (rule store_proceeds)
  qed
  ultimately show ?thesis by (simp add: store_value_def)
qed

section \<open>Declarations\<close>

lemma push_local_flows:
  assumes r: "ready C f L" and a: "is_val (lw_m L) a" and t: "nonvoid (lw_m L) t"
  shows "flows C f 0 L (push_local n a t ty L)"
proof -
  have "lower_ok C f (push_local n a t ty L)"
    using r a t by (simp add: ready_def lower_ok_def env_ok_def binding_ok_def find_named_def find_func_def push_local_def)
  then show ?thesis by (simp add: flows_def steps_def push_local_def others_def cur_bb_def)
qed

lemma used_flows:
  assumes "ready C f L"
  shows "flows C f 1 L (L\<lparr>lw_used := lw_used L @ [n]\<rparr>)" and "ready C f (L\<lparr>lw_used := lw_used L @ [n]\<rparr>)"
proof -
  have "lower_ok C f (L\<lparr>lw_used := lw_used L @ [n]\<rparr>)"
    using assms by (simp add: ready_def lower_ok_def env_ok_def find_named_def find_func_def)
  then show "flows C f 1 L (L\<lparr>lw_used := lw_used L @ [n]\<rparr>)" "ready C f (L\<lparr>lw_used := lw_used L @ [n]\<rparr>)"
    using assms by (simp_all add: flows_def steps_def others_def cur_bb_def ready_def is_open_def)
qed

text \<open>A slot: its name, its \<open>alloca\<close>.\<close>

lemma slot_runs:
  assumes r: "ready C f L" and s: "short_name name" and u: "length (lw_used L) < 2 ^ 32"
    and c: "\<And>v L2. flows C f 1 L L2 \<Longrightarrow> ready C f L2 \<Longrightarrow> is_val (lw_m L2) v \<Longrightarrow> completes C f k L2 (c v L2)"
  shows "completes C f (Suc k) L (do { (nm, L) \<leftarrow> unique_name name L; (slot, L) \<leftarrow> build_value (\<lambda>b. ir_build_alloca b t (Some nm)) L; c slot L })"
proof (rule unique_name_finds [OF s u], goal_cases)
  case (1 j)
  let ?n = "slot_name name j"
  note f1 = used_flows [OF r, of ?n]
  obtain v L2 where v: "build_value (\<lambda>b. ir_build_alloca b t (Some ?n)) (L\<lparr>lw_used := lw_used L @ [?n]\<rparr>) = Some (v, L2)"
    "goes C f (L\<lparr>lw_used := lw_used L @ [?n]\<rparr>) L2" "is_val (lw_m L2) v"
    using build_alloca [OF f1(2), of t ?n] by (auto simp: yields_iff)
  have f2: "flows C f 1 L L2" using flows_trans [OF f1(1) goes_flows [OF v(2)]] by simp
  obtain L3 where "c v L2 = Some L3" "flows C f k L2 L3"
    using c [OF f2 goes_ready [OF v(2)] v(3)] by (auto simp: completes_def)
  then show ?case using flows_trans [OF f2] by (simp add: completes_def 1(4) v(1))
qed

lemma flows_nonvoid: "flows C f k a b \<Longrightarrow> nonvoid (lw_m a) t \<Longrightarrow> nonvoid (lw_m b) t"
  using steps_nonvoid by (auto simp: flows_def)

definition var_ok :: "meaning \<Rightarrow> ast_type \<Rightarrow> string \<Rightarrow> expr option \<Rightarrow> bool" where
  "var_ok C t n i \<longleftrightarrow> value_type (mn_types C) t \<and> short_name n \<and> (\<forall>e. i = Some e \<longrightarrow> lowerable C e)"

text \<open>The first value of a slot.\<close>

lemma first_value:
  assumes r: "ready C f L" and t: "nonvoid (lw_m L) t" and i: "\<forall>e. i = Some e \<longrightarrow> lowerable C e"
    and ty: "ty = (case i of Some e \<Rightarrow> ex_sem e | None \<Rightarrow> None)"
  shows "proceeds C f L (if i \<noteq> None then
                 (if ty_is_aggregate L ty then
                    do { (v, L) \<leftarrow> lower_expr i L; v \<leftarrow> v; r \<leftarrow> ty; emit_memcpy slot v (t_size (lty L r)) L }
                  else do { (v, L) \<leftarrow> lower_expr i L; (v, L) \<leftarrow> coerce_to v t ty L; store v slot L })
               else if it_kind (ir_ty L t) = IR_TY_ARRAY \<or> it_kind (ir_ty L t) = IR_TY_STRUCT then
                 do { sz \<leftarrow> ir_type_size (im_types (lw_m L)) t; emit_zero slot sz L }
               else (let (z, L) = zero_of t L in store z slot L))"
proof (cases i)
  case None
  obtain s where s: "ir_type_size (im_types (lw_m L)) t = Some s" using has_layout [OF readyD(1) [OF r] nonvoid_ty [OF t]] by blast
  have z: "goes C f L (snd (zero_of t L))"
    using module_value(1) [OF r makes_const(1) [OF readyD(1) [OF r] t]] module_value(1) [OF r makes_const(2) [OF readyD(1) [OF r] t]]
      module_value(1) [OF r makes_const(4) [OF readyD(1) [OF r]]]
    by (simp add: zero_of_def new_const_def)
  have "proceeds C f L (let (z, L) = zero_of t L in store z slot L)"
    by (rule proceeds_let [OF z]) (rule store_proceeds)
  then show ?thesis using None s emit_runtime_proceeds(2) [OF r] by simp
next
  case (Some e)
  have e: "lowerable C e" using i Some by simp
  obtain x where x: "ex_sem e = Some x" using value_some [OF lowerable_ty [OF e]] by auto
  have "proceeds C f L (do { (v, L) \<leftarrow> lower_expr (Some e) L; v \<leftarrow> v; r \<leftarrow> ty; emit_memcpy slot v (t_size (lty L r)) L })"
    by (rule proceeds_bind [OF lower_expr_yields [OF e r]]) (auto simp: ty x Some elim!: some_valE intro: emit_runtime_proceeds)
  moreover have "proceeds C f L (do { (v, L) \<leftarrow> lower_expr (Some e) L; (v, L) \<leftarrow> coerce_to v t ty L; store v slot L })"
  proof (rule proceeds_bind [OF lower_expr_yields [OF e r]], goal_cases)
    case (1 v L1)
    show ?case
      by (rule proceeds_bind [OF coerce_to_yields [OF 1(2,3) nonvoid_ty [OF goes_nonvoid [OF 1(1) t]]]]) (rule store_proceeds)
  qed
  ultimately show ?thesis using Some by simp
qed

lemma proceeds_then:
  assumes "proceeds C f L m" and "\<And>L'. goes C f L L' \<Longrightarrow> ready C f L' \<Longrightarrow> completes C f k L' (c L')"
  shows "completes C f k L (Option.bind m c)"
proof -
  obtain L' where m: "m = Some L'" "goes C f L L'" using assms(1) by (auto simp: proceeds_def)
  then show ?thesis using goes_completes [OF m(2) assms(2) [OF m(2) goes_ready [OF m(2)]]] by simp
qed

lemma lower_var_runs:
  assumes r: "ready C f L" and v: "var_ok C t n i" and u: "length (lw_used L) < 2 ^ 32"
  shows "completes C f 1 L (lower_var t n i L)"
  unfolding lower_var_def
proof (rule completes_let [OF ast_type_goes(1) [OF r]], goal_cases)
  case (1 L1)
  have t1: "nonvoid (lw_m L1) (fst (ir_of_ast_type t L))" using ast_type_goes(3) [OF r, of t] v 1(3) by (simp add: var_ok_def)
  have u1: "length (lw_used L1) < 2 ^ 32" using 1(1) u by (simp add: goes_def same_scope_def)
  have s: "short_name n" and i: "\<forall>e. i = Some e \<longrightarrow> lowerable C e" using v by (auto simp: var_ok_def)
  show ?case
    unfolding Let_def One_nat_def
  proof (rule slot_runs [OF 1(2) s u1], goal_cases)
    case (1 a L2)
    note t2 = flows_nonvoid [OF 1(1) t1]
    show ?case
    proof (rule proceeds_then [OF first_value [unfolded Let_def, OF 1(2) t2 i refl]], goal_cases)
      case (1 L3)
      then show ?case
        using goes_val [OF 1(1) \<open>is_val (lw_m L2) a\<close>] goes_nonvoid [OF 1(1) t2] by (intro completes_Some push_local_flows)
    qed
  qed
qed

end
