(* ===== verification/Slop_Driver_Props.thy ===== *)
theory Slop_Driver_Props
  imports Slop_Driver Slop_Lower_Store
begin

text \<open>
  What the last stages guarantee of names, of the strings the backends write, of the table of backends and of a run of
  the driver; and, as closed examples, behaviours that a reader of the comments would not expect.
\<close>

section \<open>Names of stack slots\<close>



text \<open>A name of 159 bytes that is taken is looked for forever: the buffer has no room for the number.\<close>

lemma long_name_loops:
  assumes "length b = 159" "b \<in> set us"
  shows "free_name us b b n = None"
proof (rule ccontr)
  assume "free_name us b b n \<noteq> None"
  then obtain r where "free_name us b b n = Some r" by blast
  moreover have "free_name u c buf k = Some x \<Longrightarrow> \<not> (buf = c \<and> length c = 159 \<and> c \<in> set u)" for u c buf k x
  proof (erule free_name.raw_induct [rotated, where P = "\<lambda>u c buf k x. \<not> (buf = c \<and> length c = 159 \<and> c \<in> set u)"])
    fix f :: "string list \<Rightarrow> string \<Rightarrow> string \<Rightarrow> u32 \<Rightarrow> string option" and u c buf k x
    assume ih: "\<And>u c buf k x. f u c buf k = Some x \<Longrightarrow> \<not> (buf = c \<and> length c = 159 \<and> c \<in> set u)"
      and r: "(if buf \<notin> set u then Some buf
        else f u c (take 159 (c @ ''.'' @ dec_of_nat (unat (k + 1)))) (k + 1)) = Some x"
    show "\<not> (buf = c \<and> length c = 159 \<and> c \<in> set u)"
    proof
      assume a: "buf = c \<and> length c = 159 \<and> c \<in> set u"
      then have "f u c c (k + 1) = Some x" using r by simp
      from ih [OF this] a show False by blast
    qed
  qed
  ultimately show False using assms by blast
qed

section \<open>Strings in LLVM's syntax\<close>

text \<open>What LLVM reads between the quotes: a backslash and two hexadecimal digits are a byte.\<close>

fun llvm_bytes :: "string \<Rightarrow> string option" where
  "llvm_bytes [] = Some []"
| "llvm_bytes (c # cs) =
     (if c = CHR 0x22 then None
      else if c = CHR 0x5C then
        (case cs of
           a # b # ds \<Rightarrow> if is_hex_digit a \<and> is_hex_digit b
                       then map_option ((#) (char_of (hex_val a * 16 + hex_val b))) (llvm_bytes ds) else None
         | _ \<Rightarrow> None)
      else map_option ((#) c) (llvm_bytes cs))"

lemma hex2_back:
  "is_hex_digit (hex_digit_upper (of_char c div 16))" "is_hex_digit (hex_digit_upper (of_char c mod 16))"
  "char_of (hex_val (hex_digit_upper (of_char c div 16)) * 16 + hex_val (hex_digit_upper (of_char c mod 16))) = (c::char)"
proof -
  have lt: "(of_char c :: nat) < 256" by simp
  then have "(of_char c :: nat) div 16 < 16" by linarith
  then show "is_hex_digit (hex_digit_upper (of_char c div 16))" "is_hex_digit (hex_digit_upper (of_char c mod 16))"
    by (simp_all add: hex_digit_upper_val)
  show "char_of (hex_val (hex_digit_upper (of_char c div 16)) * 16 + hex_val (hex_digit_upper (of_char c mod 16))) = c"
    using lt \<open>(of_char c :: nat) div 16 < 16\<close> by (simp add: hex_digit_upper_val)
qed

lemma llvm_byte: "llvm_bytes (string_byte c @ cs) = map_option ((#) c) (llvm_bytes cs)"
  using hex2_back [of c] by (simp add: string_byte_def hex2_of_nat_def)

lemma llvm_bytes_append: "llvm_bytes (concat (map string_byte s) @ cs) = map_option ((@) s) (llvm_bytes cs)"
  by (induction s) (simp_all add: llvm_byte option.map_comp comp_def del: llvm_bytes.simps option.map_ident add: option.map_ident)

text \<open>
  C30. The text the LLVM backend writes for a string constant denotes its bytes: what LLVM reads between the quotes is
  the string and the NUL after it, whatever the bytes are.
\<close>
theorem llvm_string_reads_back:
  "\<exists>body. print_string_bytes s = [CHR 0x22] @ body @ [CHR 0x22] \<and> llvm_bytes body = Some (s @ [CHR 0x00])"
proof -
  have "llvm_bytes (CHR 0x5C # ''00'') = Some [CHR 0x00]" by code_simp
  then have "llvm_bytes (concat (map string_byte s) @ CHR 0x5C # ''00'') = Some (s @ [CHR 0x00])" by (simp add: llvm_bytes_append)
  then show ?thesis by (simp add: print_string_bytes_def)
qed

section \<open>Strings in C's syntax\<close>

lemma drop_less [termination_simp]: "length (dropWhile P xs) < Suc (Suc (length xs))"
  using length_dropWhile_le [of P xs] by simp

text \<open>
  What C reads between the quotes, of the escapes the backend writes: \<open>\x\<close> takes every hexadecimal digit that follows,
  and a value a byte cannot hold is no literal. Trigraphs are taken as switched off.
\<close>

fun c_bytes :: "string \<Rightarrow> string option" where
  "c_bytes [] = Some []"
| "c_bytes (c # cs) =
     (if c = CHR 0x22 then None
      else if c = CHR 0x5C then
        (case cs of
           [] \<Rightarrow> None
         | d # ds \<Rightarrow>
             if d = CHR 0x22 \<or> d = CHR 0x5C then map_option ((#) d) (c_bytes ds)
             else if d = CHR ''x'' then
               (let v = foldl (\<lambda>n h. n * 16 + hex_val h) 0 (takeWhile is_hex_digit ds) in
                if takeWhile is_hex_digit ds = [] \<or> 255 < v then None
                else map_option ((#) (char_of v)) (c_bytes (dropWhile is_hex_digit ds)))
             else None)
      else map_option ((#) c) (c_bytes cs))"

text \<open>No byte that is written in hexadecimal stands before a hexadecimal digit.\<close>

definition in_hex :: "char \<Rightarrow> bool" where
  "in_hex c \<longleftrightarrow> \<not> (0x20 \<le> (of_char c :: nat) \<and> (of_char c :: nat) < 0x7F)"

fun hex_apart :: "string \<Rightarrow> bool" where
  "hex_apart (c # d # s) = ((in_hex c \<longrightarrow> \<not> is_hex_digit d) \<and> hex_apart (d # s))"
| "hex_apart s = True"

lemma c_string_head: "\<not> is_hex_digit c \<Longrightarrow> \<exists>d ds. c_string_byte c = d # ds \<and> \<not> is_hex_digit d"
proof -
  have "\<not> is_hex_digit (CHR 0x5C)" by code_simp
  then show "\<not> is_hex_digit c \<Longrightarrow> ?thesis" by (simp add: c_string_byte_def)
qed

text \<open>
  C31. The text the C backend writes for a string constant denotes its bytes, as long as no byte outside the printable
  ones stands before a hexadecimal digit.
\<close>
theorem c_string_reads_back:
  assumes "hex_apart s"
  shows "c_bytes (concat (map c_string_byte s)) = Some s"
  using assms
proof (induction s)
  case (Cons c s)
  have ih: "c_bytes (concat (map c_string_byte s)) = Some s" using Cons by (cases s) auto
  show ?case
  proof (cases "in_hex c")
    case False
    then have "c_string_byte c = (if c = CHR 0x22 \<or> c = CHR 0x5C then [CHR 0x5C, c] else [c])"
      by (simp add: c_string_byte_def in_hex_def)
    then show ?thesis using ih by simp
  next
    case True
    let ?a = "hex_digit_upper (of_char c div 16)" and ?b = "hex_digit_upper (of_char c mod 16)"
    let ?t = "concat (map c_string_byte s)"
    have "c \<noteq> CHR 0x22" "c \<noteq> CHR 0x5C" using True by (auto simp: in_hex_def)
    then have w: "c_string_byte c = [CHR 0x5C, CHR ''x'', ?a, ?b]" using True by (auto simp: c_string_byte_def in_hex_def hex2_of_nat_def)
    have "?t = [] \<or> (\<exists>d ds. ?t = d # ds \<and> \<not> is_hex_digit d)"
      using Cons.prems True c_string_head by (cases s) fastforce+
    then have t: "takeWhile is_hex_digit ?t = []" "dropWhile is_hex_digit ?t = ?t" by (elim disjE exE conjE; simp only: takeWhile.simps dropWhile.simps if_False)+
    have n: "hex_val ?a * 16 + hex_val ?b < 256"
    proof -
      have "(of_char c :: nat) < 256" by simp
      then have "(of_char c :: nat) div 16 < 16" by linarith
      then show ?thesis by (simp add: hex_digit_upper_val)
    qed
    show ?thesis using ih t n hex2_back [of c] by (simp add: w)
  qed
qed simp

theorem c_string_reads_back_witness:
  "c_bytes (concat (map c_string_byte [CHR ''a'', CHR 0x0A, CHR 0x22, CHR ''z'']))
     = Some [CHR ''a'', CHR 0x0A, CHR 0x22, CHR ''z'']"
proof -
  have "hex_apart [CHR ''a'', CHR 0x0A, CHR 0x22, CHR ''z'']" by code_simp
  then show ?thesis by (rule c_string_reads_back)
qed

text \<open>The byte 1 and then \<open>A\<close> become the one byte \<open>0x1A\<close>.\<close>

lemma c_string_swallows: "c_bytes (concat (map c_string_byte [CHR 0x01, CHR ''A''])) = Some [CHR 0x1A]"
  by code_simp

lemma print_ident_merges: "print_ident ''x.1'' = print_ident ''x_1''"
  by code_simp

section \<open>A run of the driver\<close>

text \<open>\<open>accepted h p prog\<close>: the file can be read, and lexing and parsing it report no error and give this program.\<close>

definition accepted :: "host \<Rightarrow> string \<Rightarrow> program \<Rightarrow> bool" where
  "accepted h p prog \<longleftrightarrow>
     (\<exists>src out. ho_files h p = Some src \<and> front_end (ho_strtod h) p src = Some (prog, 0, out))"

lemma accepted_source: "accepted h p prog \<Longrightarrow> \<exists>src. ho_files h p = Some src \<and> is_source (ho_strtod h) p src prog"
  by (auto simp: accepted_def dest: front_end_source)

text \<open>The first loop of \<open>compile\<close> reports no error exactly if every file is accepted, and then gives their programs.\<close>

lemma parse_units_ok:
  "\<exists>progs n err. parse_units h paths = Some (progs, n, err)
     \<and> (n = 0 \<longrightarrow> list_all2 (accepted h) paths progs) \<and> (\<forall>ps. list_all2 (accepted h) paths ps \<longrightarrow> n = 0 \<and> ps = progs)"
proof (induction paths)
  case (Cons p ps)
  then obtain progs n err where r: "parse_units h ps = Some (progs, n, err)" "n = 0 \<longrightarrow> list_all2 (accepted h) ps progs"
    "\<forall>qs. list_all2 (accepted h) ps qs \<longrightarrow> n = 0 \<and> qs = progs" by blast
  show ?case
  proof (cases "ho_files h p")
    case None
    then show ?thesis using r(1) by (auto simp: source_file_read_def accepted_def list_all2_Cons1)
  next
    case (Some src)
    obtain prog k out where f: "front_end (ho_strtod h) p src = Some (prog, k, out)"
      by (rule front_end_ok [of "ho_strtod h" p src])
    then obtain toks e lx where l: "lexer_lex_all (ho_strtod h) (lexer_init (Some p) src) = Some (toks, e, lx)"
      "parse_program toks p = Some (prog, k, out)" by (auto simp: front_end_def split: option.splits)
    have u: "parse_units h (p # ps) = Some (prog # progs, k + n, out @ err)"
      using r(1) Some l by (simp add: source_file_read_def)
    have acc: "accepted h p q \<longleftrightarrow> k = 0 \<and> q = prog" for q using f Some by (auto simp: accepted_def)
    show ?thesis using u r(2,3) by (auto simp: list_all2_Cons1 acc)
  qed
qed simp

text \<open>
  C32. \<open>slop --parse-only\<close> ends on every list of files, whatever they hold, with status 0 or 1. The status is 0 exactly if
  every file can be read and is lexed and parsed without an error. Each file's bytes then are its program (tokens of the
  lexical grammar, with their values, that derive it), and what is printed is the dump of those programs in order.
\<close>
theorem parse_only_ends:
  "\<exists>oc. compile h paths True backend = Some oc \<and> oc_status oc \<le> 1
     \<and> (oc_status oc = 0 \<longleftrightarrow> (\<exists>ps. list_all2 (accepted h) paths ps))
     \<and> (\<forall>ps. list_all2 (accepted h) paths ps \<longrightarrow>
          list_all2 (\<lambda>p prog. \<exists>src. ho_files h p = Some src \<and> is_source (ho_strtod h) p src prog) paths ps
          \<and> oc_out oc = concat (map (\<lambda>prog. ast_dump (untyped_dumper h) (Some prog)) ps))"
proof -
  obtain progs n err where r: "parse_units h paths = Some (progs, n, err)" "n = 0 \<longrightarrow> list_all2 (accepted h) paths progs"
    "\<forall>ps. list_all2 (accepted h) paths ps \<longrightarrow> n = 0 \<and> ps = progs"
    using parse_units_ok by blast
  have "list_all2 (\<lambda>p prog. \<exists>src. ho_files h p = Some src \<and> is_source (ho_strtod h) p src prog) paths ps"
    if "list_all2 (accepted h) paths ps" for ps
    using that by (rule list_all2_mono) (rule accepted_source)
  moreover have "(\<exists>ps. list_all2 (accepted h) paths ps) \<longleftrightarrow> n = 0" using r(2,3) by blast
  ultimately show ?thesis using r by (auto simp: compile_def)
qed

definition one_file :: host where
  "one_file = \<lparr>ho_files = (\<lambda>p. if p = ''a.slop'' then Some ''let i32 x; # one'' else None), ho_strtod = (\<lambda>_. 0),
     ho_g = (\<lambda>_. ''0''), ho_g17 = (\<lambda>_. ''0'')\<rparr>"

theorem parse_only_ends_witness:
  "\<exists>oc src prog. compile one_file [''a.slop''] True None = Some oc \<and> oc_status oc = 0
     \<and> ho_files one_file ''a.slop'' = Some src \<and> is_source (ho_strtod one_file) ''a.slop'' src prog
     \<and> oc_out oc = ast_dump (untyped_dumper one_file) (Some prog)"
proof -
  have run: "(case compile one_file [''a.slop''] True None of Some oc \<Rightarrow> oc_status oc = 0 | None \<Rightarrow> False)" by code_simp
  obtain oc where c: "compile one_file [''a.slop''] True None = Some oc"
    and ok: "oc_status oc = 0 \<longleftrightarrow> (\<exists>ps. list_all2 (accepted one_file) [''a.slop''] ps)"
      "\<forall>ps. list_all2 (accepted one_file) [''a.slop''] ps \<longrightarrow>
        list_all2 (\<lambda>p prog. \<exists>src. ho_files one_file p = Some src \<and> is_source (ho_strtod one_file) p src prog) [''a.slop''] ps
        \<and> oc_out oc = concat (map (\<lambda>prog. ast_dump (untyped_dumper one_file) (Some prog)) ps)"
    using parse_only_ends [of one_file "[''a.slop'']" None] by (elim exE conjE) iprover
  have z: "oc_status oc = 0" using run c by simp
  with ok(1) obtain ps where ps: "list_all2 (accepted one_file) [''a.slop''] ps" by blast
  then obtain prog where p: "ps = [prog]" by (auto simp: list_all2_Cons1)
  with ok(2) [rule_format, OF ps] c z show ?thesis by auto
qed

text \<open>An option the driver does not know counts as a file that is then skipped: nothing is compiled, the status is 0.\<close>

lemma unknown_option_succeeds:
  assumes "take 2 a = ''--''" and "a \<notin> {''--tokens'', ''--parse-only'', ''--emit'', ''--list-backends''}" "take 10 a \<noteq> ''--backend=''"
  shows "slop_main h [a] = Some \<lparr>oc_status = 0, oc_out = [], oc_err = []\<rparr>"
  using assms
  by (simp add: slop_main_def compile_def analyse_def sema_check_def is_path_def sema_init_def diag_init_def diag_error_count_def)

end
