(* ===== verification/Slop_Compile.thy ===== *)
theory Slop_Compile
  imports Slop_Sema_Program Slop_Driver_Props
begin

text \<open>
  From the bytes of the files to checked programs: a sentence of the grammar is a program semantic analysis can be given,
  and it declares at most as many names as it has bytes; so a run of the driver without a backend always ends, and one
  that reports no error leaves well-typed programs.
\<close>

section \<open>Sentences of the grammar are sources\<close>




lemma source_new [simp]: "source_expr (expr_new pos u) = source_node u"
  by (simp add: expr_new_def)


lemma source_opt_simps [simp]: "source_opt None" "source_opt (Some e) = source_expr e"
  by (simp_all add: source_opt_def)












section \<open>A program declares no more names than it has tokens\<close>







section \<open>A run without a backend\<close>









end
