(* ===== verification/Slop_Arena.thy ===== *)
theory Slop_Arena
  imports Slop_Prelude
begin

text \<open>
  \<open>src/support/arena.c\<close> and \<open>src/support/vec.c\<close> on bytes. A pointer into the arena is a block, counted from the
  oldest, and an offset into its payload. \<open>malloc\<close> is a parameter: for a size it fails or gives memory, which
  holds the bytes it holds. A write outside of a block's memory is undefined in C and the error \<open>OutOfBounds\<close>
  here; a failed \<open>malloc\<close> ends the process. \<open>size_t\<close> has 64 bits.
\<close>

section \<open>Memory\<close>

datatype arena_error = OutOfMemory | OutOfBounds

type_synonym 'a run = "arena_error + 'a"

definition andThen :: "'a run \<Rightarrow> ('a \<Rightarrow> 'b run) \<Rightarrow> 'b run" where
  "andThen m f = (case m of Inl e \<Rightarrow> Inl e | Inr x \<Rightarrow> f x)"

type_synonym memory = "u64 \<Rightarrow> (nat \<Rightarrow> u8) option"

text \<open>\<open>memcpy\<close> and \<open>memset\<close> into an object's bytes.\<close>

definition write_bytes :: "nat \<Rightarrow> u8 list \<Rightarrow> u8 list \<Rightarrow> u8 list run" where
  "write_bytes off bs mem =
     (if off + length bs \<le> length mem then Inr (take off mem @ bs @ drop (off + length bs) mem) else Inl OutOfBounds)"

definition read_bytes :: "nat \<Rightarrow> nat \<Rightarrow> u8 list \<Rightarrow> u8 list" where
  "read_bytes off n mem = take n (drop off mem)"

section \<open>The arena\<close>

definition ARENA_DEFAULT_BLOCK :: u64 where "ARENA_DEFAULT_BLOCK = 64 * 1024"

definition ARENA_ALIGN :: u64 where "ARENA_ALIGN = 16"

text \<open>\<open>sizeof(Block)\<close>: a pointer and two \<open>size_t\<close>.\<close>

definition BLOCK_SIZE :: u64 where "BLOCK_SIZE = 24"

record arena_block =
  bk_used :: u64
  bk_cap :: u64
  bk_data :: "u8 list"

text \<open>The blocks from the head on.\<close>

record arena =
  ar_head :: arena_block
  ar_next :: "arena_block list"
  ar_block_size :: u64
  ar_used :: u64

definition align_up :: "u64 \<Rightarrow> u64 \<Rightarrow> u64" where
  "align_up n align = (n + align - 1) AND NOT (align - 1)"

text \<open>The memory behind the header; it is shorter than \<open>cap\<close> when the sum wraps.\<close>

definition block_new :: "memory \<Rightarrow> u64 \<Rightarrow> arena_block run" where
  "block_new malloc cap =
     (let header = align_up BLOCK_SIZE ARENA_ALIGN in
      case malloc (header + cap) of
        None \<Rightarrow> Inl OutOfMemory
      | Some bytes \<Rightarrow> Inr \<lparr>bk_used = 0, bk_cap = cap, bk_data = map bytes [unat header..<unat (header + cap)]\<rparr>)"

definition arena_new :: "memory \<Rightarrow> u64 \<Rightarrow> arena run" where
  "arena_new malloc block_size =
     (let size' = (if block_size \<noteq> 0 then block_size else ARENA_DEFAULT_BLOCK) in
      andThen (block_new malloc size') (\<lambda>b. Inr \<lparr>ar_head = b, ar_next = [], ar_block_size = size', ar_used = 0\<rparr>))"

type_synonym ptr = "nat \<times> nat"

definition arena_alloc :: "memory \<Rightarrow> arena \<Rightarrow> u64 \<Rightarrow> (ptr \<times> arena) run" where
  "arena_alloc malloc a n =
     (let need = align_up n ARENA_ALIGN;
          need = (if need = 0 then ARENA_ALIGN else need) in
      andThen
        (if bk_used (ar_head a) + need > bk_cap (ar_head a) then
           andThen (block_new malloc (if need > ar_block_size a then need else ar_block_size a))
             (\<lambda>b. Inr (a\<lparr>ar_head := b, ar_next := ar_head a # ar_next a\<rparr>))
         else Inr a)
        (\<lambda>a. let b = ar_head a; off = bk_used b in
             andThen (write_bytes (unat off) (replicate (unat n) 0) (bk_data b))
               (\<lambda>mem. Inr ((length (ar_next a), unat off),
                           a\<lparr>ar_head := b\<lparr>bk_used := off + need, bk_data := mem\<rparr>, ar_used := ar_used a + need\<rparr>))))"

text \<open>A block by its number, and an object's bytes.\<close>

definition block_at :: "arena \<Rightarrow> nat \<Rightarrow> arena_block" where
  "block_at a i = rev (ar_head a # ar_next a) ! i"

definition arena_read :: "arena \<Rightarrow> ptr \<Rightarrow> nat \<Rightarrow> u8 list" where
  "arena_read a p n = read_bytes (snd p) n (bk_data (block_at a (fst p)))"

text \<open>Writing through a pointer into the arena.\<close>

definition arena_write :: "arena \<Rightarrow> ptr \<Rightarrow> u8 list \<Rightarrow> arena run" where
  "arena_write a p bs =
     (let bks = rev (ar_head a # ar_next a); b = bks ! fst p in
      if fst p \<ge> length bks then Inl OutOfBounds
      else andThen (write_bytes (snd p) bs (bk_data b))
        (\<lambda>mem. let bks = rev (bks[fst p := b\<lparr>bk_data := mem\<rparr>]) in Inr (a\<lparr>ar_head := hd bks, ar_next := tl bks\<rparr>)))"

definition arena_dup :: "memory \<Rightarrow> arena \<Rightarrow> u8 list \<Rightarrow> u64 \<Rightarrow> (ptr option \<times> arena) run" where
  "arena_dup malloc a src n =
     (if n = 0 then Inr (None, a)
      else if length src < unat n then Inl OutOfBounds
      else andThen (arena_alloc malloc a n)
        (\<lambda>(p, a). andThen (arena_write a p (take (unat n) src)) (\<lambda>a. Inr (Some p, a))))"

definition arena_strndup :: "memory \<Rightarrow> arena \<Rightarrow> u8 list \<Rightarrow> u64 \<Rightarrow> (ptr \<times> arena) run" where
  "arena_strndup malloc a src len =
     andThen (arena_alloc malloc a (len + 1))
       (\<lambda>(p, a). andThen (if len \<noteq> 0 then if length src < unat len then Inl OutOfBounds else arena_write a p (take (unat len) src) else Inr a)
         (\<lambda>a. andThen (arena_write a (fst p, snd p + unat len) [0]) (\<lambda>a. Inr (p, a))))"

definition arena_used :: "arena \<Rightarrow> u64" where
  "arena_used a = ar_used a"

section \<open>Vectors\<close>

record vec =
  vc_data :: "u8 list"
  vc_len :: u32
  vc_cap :: u32
  vc_elem :: u64

definition vec_init :: "u64 \<Rightarrow> vec" where
  "vec_init elem = \<lparr>vc_data = [], vc_len = 0, vc_cap = 0, vc_elem = elem\<rparr>"

text \<open>\<open>realloc\<close> keeps the bytes both sizes have.\<close>

definition realloc :: "memory \<Rightarrow> u8 list \<Rightarrow> u64 \<Rightarrow> u8 list run" where
  "realloc malloc mem n = (case malloc n of
     None \<Rightarrow> Inl OutOfMemory
   | Some bytes \<Rightarrow> Inr (take (unat n) mem @ map bytes [length (take (unat n) mem)..<unat n]))"

text \<open>The slot is an offset into \<open>data\<close>.\<close>

definition vec_push :: "memory \<Rightarrow> vec \<Rightarrow> (nat \<times> vec) run" where
  "vec_push malloc v =
     andThen
       (if vc_len v = vc_cap v then
          (let cap = (if vc_cap v \<noteq> 0 then vc_cap v * 2 else 8) in
           andThen (realloc malloc (vc_data v) (ucast cap * vc_elem v)) (\<lambda>d. Inr (v\<lparr>vc_data := d, vc_cap := cap\<rparr>)))
        else Inr v)
       (\<lambda>v. let slot = unat (ucast (vc_len v) * vc_elem v) in
            andThen (write_bytes slot (replicate (unat (vc_elem v)) 0) (vc_data v))
              (\<lambda>d. Inr (slot, v\<lparr>vc_data := d, vc_len := vc_len v + 1\<rparr>)))"

text \<open>Storing through the slot pointer; \<open>vec_push_ptr\<close> stores the eight bytes of a pointer.\<close>

definition vec_store :: "nat \<Rightarrow> u8 list \<Rightarrow> vec \<Rightarrow> vec run" where
  "vec_store slot bs v = andThen (write_bytes slot bs (vc_data v)) (\<lambda>d. Inr (v\<lparr>vc_data := d\<rparr>))"

definition vec_push_ptr :: "memory \<Rightarrow> vec \<Rightarrow> u8 list \<Rightarrow> vec run" where
  "vec_push_ptr malloc v item = andThen (vec_push malloc v) (\<lambda>(slot, v). vec_store slot item v)"

definition vec_take :: "memory \<Rightarrow> arena \<Rightarrow> vec \<Rightarrow> (ptr option \<times> u32 \<times> vec \<times> arena) run" where
  "vec_take malloc a v =
     andThen (if vc_len v \<noteq> 0 then arena_dup malloc a (vc_data v) (ucast (vc_len v) * vc_elem v) else Inr (None, a))
       (\<lambda>(p, a). Inr (p, vc_len v, vec_init (vc_elem v), a))"

definition vec_drop :: "vec \<Rightarrow> vec" where
  "vec_drop v = vec_init (vc_elem v)"

section \<open>Alignment\<close>

lemma align_up_16:
  assumes "unat n + 15 < 2 ^ 64"
  shows "unat (align_up n 16) = (unat n + 15) div 16 * 16"
proof -
  have m: "n + 16 - 1 = n + 15" "(16 :: u64) - 1 = mask 4" by (simp_all add: mask_eq_exp_minus_1 algebra_simps)
  have u: "unat (n + 15) = unat n + 15" using assms by (subst unat_add_lem [THEN iffD1]) simp_all
  have "align_up n 16 = (n + 15) AND NOT (mask 4)" unfolding align_up_def m ..
  also have "\<dots> = push_bit 4 (drop_bit 4 (n + 15))" by (simp add: bit_eq_iff bit_simps) auto
  finally have "unat (align_up n 16) = take_bit 64 (push_bit 4 (drop_bit 4 (unat (n + 15))))"
    using u assms by (simp add: unsigned_push_bit_eq unsigned_drop_bit_eq take_bit_nat_eq_self)
  also have "\<dots> = (unat n + 15) div 16 * 16 mod 2 ^ 64" by (simp add: u push_bit_eq_mult drop_bit_eq_div take_bit_eq_mod)
  also have "\<dots> = (unat n + 15) div 16 * 16" using assms by (intro mod_less) (rule le_less_trans [OF div_times_less_eq_dividend])
  finally show ?thesis .
qed

text \<open>The bytes a request takes: the size rounded up to the alignment, and never none.\<close>

definition taken :: "u64 \<Rightarrow> nat" where
  "taken n = max 16 ((unat n + 15) div 16 * 16)"

lemma taken_bounds: "unat n \<le> taken n" "16 dvd taken n" "0 < taken n" "taken n \<le> unat n + 16"
  by (auto simp: taken_def max_def dvd_def)

lemma unat_need:
  assumes "unat n + 15 < 2 ^ 64"
  shows "unat (if align_up n ARENA_ALIGN = 0 then ARENA_ALIGN else align_up n ARENA_ALIGN) = taken n"
  using align_up_16 [OF assms] by (auto simp: ARENA_ALIGN_def taken_def unat_eq_0 [symmetric] max_def split: if_splits)

section \<open>What a run may do\<close>

text \<open>A run that ends with \<open>Q\<close>, or with the process killed because \<open>malloc\<close> refused a size.\<close>

definition runs :: "memory \<Rightarrow> 'a run \<Rightarrow> ('a \<Rightarrow> bool) \<Rightarrow> bool" where
  "runs malloc m Q \<longleftrightarrow> (case m of Inl e \<Rightarrow> e = OutOfMemory \<and> (\<exists>n. malloc n = None) | Inr x \<Rightarrow> Q x)"

lemma runs_Inr [simp]: "runs malloc (Inr x) Q = Q x"
  by (simp add: runs_def)

lemma runs_then: "runs malloc m (\<lambda>x. runs malloc (f x) Q) \<Longrightarrow> runs malloc (andThen m f) Q"
  by (auto simp: runs_def andThen_def split: sum.splits)

lemma runs_mono: "runs malloc m Q \<Longrightarrow> (\<And>x. Q x \<Longrightarrow> R x) \<Longrightarrow> runs malloc m R"
  by (auto simp: runs_def split: sum.splits)

lemma andThen_Inr [simp]: "andThen (Inr x) f = f x"
  by (simp add: andThen_def)

lemma write_bytes_ok: "off + length bs \<le> length mem \<Longrightarrow>
    write_bytes off bs mem = Inr (take off mem @ bs @ drop (off + length bs) mem)"
  by (simp add: write_bytes_def)

lemma read_same [simp]: "off + length bs \<le> length mem \<Longrightarrow>
    read_bytes off (length bs) (take off mem @ bs @ drop (off + length bs) mem) = bs"
  by (simp add: read_bytes_def)

lemma read_apart: "off + length bs \<le> length mem \<Longrightarrow> p + n \<le> off \<or> off + length bs \<le> p \<Longrightarrow>
    read_bytes p n (take off mem @ bs @ drop (off + length bs) mem) = read_bytes p n mem"
  unfolding read_bytes_def by (rule nth_equalityI) (auto simp: nth_append)

text \<open>A write inside of an object changes that part of it.\<close>

definition patch :: "nat \<Rightarrow> u8 list \<Rightarrow> u8 list \<Rightarrow> u8 list" where
  "patch off bs c = take off c @ bs @ drop (off + length bs) c"

lemma length_patch [simp]: "off + length bs \<le> length c \<Longrightarrow> length (patch off bs c) = length c"
  by (simp add: patch_def)

lemma read_patch:
  assumes "read_bytes p n mem = c" "p + n \<le> length mem" "off + length bs \<le> n"
  shows "read_bytes p n (take (p + off) mem @ bs @ drop (p + off + length bs) mem) = patch off bs c"
  using assms(2,3) unfolding assms(1) [symmetric] read_bytes_def patch_def
  by (intro nth_equalityI) (auto simp: nth_append add.assoc)

section \<open>Objects in blocks\<close>

text \<open>The bounds keep the arithmetic on sizes from wrapping.\<close>

definition good_block :: "arena_block \<Rightarrow> bool" where
  "good_block b \<longleftrightarrow> unat (bk_used b) \<le> unat (bk_cap b) \<and> unat (bk_cap b) \<le> 2 ^ 62 + 16
     \<and> length (bk_data b) = unat (bk_cap b) \<and> 16 dvd unat (bk_used b)"

definition in_place :: "arena_block list \<Rightarrow> ptr \<Rightarrow> u8 list \<Rightarrow> bool" where
  "in_place bs p c \<longleftrightarrow> fst p < length bs \<and> 16 dvd snd p \<and> snd p + length c \<le> unat (bk_used (bs ! fst p))
     \<and> read_bytes (snd p) (length c) (bk_data (bs ! fst p)) = c"

definition apart :: "ptr \<times> u8 list \<Rightarrow> ptr \<times> u8 list \<Rightarrow> bool" where
  "apart x y \<longleftrightarrow> fst (fst x) \<noteq> fst (fst y) \<or> snd (fst x) + length (snd x) \<le> snd (fst y)
     \<or> snd (fst y) + length (snd y) \<le> snd (fst x)"

lemma apart_sym: "apart x y \<Longrightarrow> apart y x"
  by (auto simp: apart_def)

definition holds :: "arena_block list \<Rightarrow> (ptr \<times> u8 list) list \<Rightarrow> bool" where
  "holds bs os \<longleftrightarrow> list_all good_block bs \<and> (\<forall>o' \<in> set os. in_place bs (fst o') (snd o'))
     \<and> (\<forall>i j. i < length os \<longrightarrow> j < length os \<longrightarrow> i \<noteq> j \<longrightarrow> apart (os ! i) (os ! j))"

definition blocks :: "arena \<Rightarrow> arena_block list" where
  "blocks a = rev (ar_next a) @ [ar_head a]"

text \<open>A new block, and bytes at the end of the used part of the last block.\<close>

lemma holds_new: "holds bs os \<Longrightarrow> good_block b \<Longrightarrow> holds (bs @ [b]) os"
  by (auto simp: holds_def in_place_def nth_append)

lemma holds_bump:
  assumes h: "holds (bs @ [b]) os" and room: "unat (bk_used b) + need \<le> unat (bk_cap b)" and need: "length c \<le> need" "16 dvd need"
    and b': "unat (bk_used b') = unat (bk_used b) + need" "bk_cap b' = bk_cap b"
      "bk_data b' = take (unat (bk_used b)) (bk_data b) @ c @ drop (unat (bk_used b) + length c) (bk_data b)"
  shows "holds (bs @ [b']) (os @ [((length bs, unat (bk_used b)), c)])"
proof -
  have g: "good_block b" "list_all good_block bs" using h by (auto simp: holds_def)
  then have g': "good_block b'" using room need b' by (auto simp: good_block_def)
  have len: "unat (bk_used b) + length c \<le> length (bk_data b)" using g room need by (simp add: good_block_def)
  have old: "in_place (bs @ [b']) (fst o') (snd o') \<and> apart o' ((length bs, unat (bk_used b)), c)" if "o' \<in> set os" for o'
  proof -
    have i: "in_place (bs @ [b]) (fst o') (snd o')" using h that by (auto simp: holds_def)
    show ?thesis
    proof (cases "fst (fst o') = length bs")
      case True
      then have "snd (fst o') + length (snd o') \<le> unat (bk_used b)" using i by (auto simp: in_place_def)
      with True i len b' show ?thesis by (auto simp: in_place_def apart_def read_apart)
    next
      case False
      with i show ?thesis by (auto simp: in_place_def apart_def nth_append)
    qed
  qed
  have new: "in_place (bs @ [b']) (length bs, unat (bk_used b)) c"
    using g len need b' by (auto simp: in_place_def good_block_def)
  have "apart (os ! j) ((length bs, unat (bk_used b)), c) \<and> apart ((length bs, unat (bk_used b)), c) (os ! j)"
    if "j < length os" for j
    using old [OF nth_mem [OF that]] apart_sym by blast
  then show ?thesis
    using h g g' old new unfolding holds_def by (auto simp: nth_append less_Suc_eq)
qed

lemma block_new_runs:
  assumes "unat cap \<le> 2 ^ 62 + 16"
  shows "runs malloc (block_new malloc cap) (\<lambda>b. good_block b \<and> bk_used b = 0 \<and> bk_cap b = cap)"
proof -
  have h: "align_up BLOCK_SIZE ARENA_ALIGN = 32" by (simp add: align_up_def BLOCK_SIZE_def ARENA_ALIGN_def)
  have "unat (32 + cap) = 32 + unat cap" using assms by (subst unat_add_lem [THEN iffD1]) simp_all
  with assms show ?thesis by (auto simp: block_new_def h runs_def good_block_def split: option.splits)
qed

definition arena_ok :: "arena \<Rightarrow> (ptr \<times> u8 list) list \<Rightarrow> bool" where
  "arena_ok a os \<longleftrightarrow> unat (ar_block_size a) \<le> 2 ^ 62 \<and> holds (blocks a) os"

lemma arena_new_runs:
  assumes "unat n \<le> 2 ^ 62"
  shows "runs malloc (arena_new malloc n) (\<lambda>a. arena_ok a [])"
proof -
  let ?n = "if n \<noteq> 0 then n else ARENA_DEFAULT_BLOCK"
  have n: "unat ?n \<le> 2 ^ 62" using assms by (simp add: ARENA_DEFAULT_BLOCK_def)
  have "runs malloc (block_new malloc ?n) (\<lambda>b. good_block b \<and> bk_used b = 0 \<and> bk_cap b = ?n)"
    by (rule block_new_runs) (use n in simp)
  then show ?thesis
    unfolding arena_new_def Let_def using n
    by (intro runs_then) (erule runs_mono, auto simp: arena_ok_def blocks_def holds_def)
qed

lemma arena_alloc_runs:
  assumes ok: "arena_ok a os" and n: "unat n \<le> 2 ^ 62"
  shows "runs malloc (arena_alloc malloc a n) (\<lambda>(p, a'). arena_ok a' (os @ [(p, replicate (unat n) 0)]))"
proof -
  define need where "need = (if align_up n ARENA_ALIGN = 0 then ARENA_ALIGN else align_up n ARENA_ALIGN)"
  have need: "unat need = taken n" "taken n \<le> 2 ^ 62 + 16"
    using n taken_bounds(4) [of n] unat_need [of n] by (simp_all add: need_def)
  let ?fits = "\<lambda>a'. arena_ok a' os \<and> unat (bk_used (ar_head a')) + taken n \<le> unat (bk_cap (ar_head a'))"
  have sum: "unat (bk_used b + need) = unat (bk_used b) + taken n" if "good_block b" for b
    using that need n by (subst unat_add_lem [THEN iffD1]) (auto simp: good_block_def)
  have head: "good_block (ar_head a)" using ok by (simp add: arena_ok_def holds_def blocks_def)
  have cap: "unat (if need > ar_block_size a then need else ar_block_size a) \<le> 2 ^ 62 + 16"
    "taken n \<le> unat (if need > ar_block_size a then need else ar_block_size a)"
    using ok need by (auto simp: arena_ok_def word_less_nat_alt)
  have new: "?fits (a\<lparr>ar_head := b, ar_next := ar_head a # ar_next a\<rparr>)"
    if "good_block b" "bk_used b = 0" "taken n \<le> unat (bk_cap b)" for b
    using ok that holds_new [of "blocks a" os b] by (simp add: arena_ok_def blocks_def)
  have fits: "runs malloc (if bk_used (ar_head a) + need > bk_cap (ar_head a) then
       andThen (block_new malloc (if need > ar_block_size a then need else ar_block_size a))
         (\<lambda>b. Inr (a\<lparr>ar_head := b, ar_next := ar_head a # ar_next a\<rparr>)) else Inr a) ?fits"
  proof (cases "bk_used (ar_head a) + need > bk_cap (ar_head a)")
    case True
    then show ?thesis using cap new
      by (simp only: if_True) (rule runs_then, rule runs_mono, rule block_new_runs, auto)
  next
    case False
    then show ?thesis using ok sum [OF head] by (simp only: if_False) (simp add: not_less word_le_nat_alt)
  qed
  have place: "runs malloc (let b = ar_head a'; off = bk_used b in
         andThen (write_bytes (unat off) (replicate (unat n) 0) (bk_data b))
           (\<lambda>mem. Inr ((length (ar_next a'), unat off),
                       a'\<lparr>ar_head := b\<lparr>bk_used := off + need, bk_data := mem\<rparr>, ar_used := ar_used a' + need\<rparr>)))
       (\<lambda>(p, a'). arena_ok a' (os @ [(p, replicate (unat n) 0)]))" if "?fits a'" for a'
  proof -
    let ?b = "ar_head a'"
    have g: "good_block ?b" and h: "holds (rev (ar_next a') @ [?b]) os"
      using that by (auto simp: arena_ok_def holds_def blocks_def)
    have room: "unat (bk_used ?b) + length (replicate (unat n) (0 :: u8)) \<le> length (bk_data ?b)"
      using that g taken_bounds(1) [of n] by (simp add: good_block_def)
    show ?thesis
      using that g holds_bump [OF h, of "taken n" "replicate (unat n) 0"] sum [OF g] taken_bounds(1,2) [of n]
      by (simp add: Let_def write_bytes_ok [OF room] arena_ok_def blocks_def)
  qed
  show ?thesis
    unfolding arena_alloc_def Let_def need_def [symmetric] by (rule runs_then, rule runs_mono [OF fits]) (use place in \<open>simp add: Let_def\<close>)
qed

lemma holds_patch:
  assumes h: "holds bs os" and i: "i < length os" "os ! i = (p, c)" and off: "off + length w \<le> length c"
  shows "write_bytes (snd p + off) w (bk_data (bs ! fst p)) = Inr (take (snd p + off) (bk_data (bs ! fst p)) @ w
      @ drop (snd p + off + length w) (bk_data (bs ! fst p)))"
    and "holds (bs[fst p := (bs ! fst p)\<lparr>bk_data := take (snd p + off) (bk_data (bs ! fst p)) @ w
      @ drop (snd p + off + length w) (bk_data (bs ! fst p))\<rparr>]) (os[i := (p, patch off w c)])"
proof -
  have pl: "in_place bs p c" using h i nth_mem [OF i(1)] by (auto simp: holds_def)
  then have k: "fst p < length bs" and g: "good_block (bs ! fst p)" using h by (auto simp: in_place_def holds_def list_all_length)
  have room: "snd p + length c \<le> length (bk_data (bs ! fst p))" using pl g by (simp add: in_place_def good_block_def)
  then show "write_bytes (snd p + off) w (bk_data (bs ! fst p)) = Inr (take (snd p + off) (bk_data (bs ! fst p)) @ w
      @ drop (snd p + off + length w) (bk_data (bs ! fst p)))" using off by (intro write_bytes_ok) simp
  let ?b = "(bs ! fst p)\<lparr>bk_data := take (snd p + off) (bk_data (bs ! fst p)) @ w
      @ drop (snd p + off + length w) (bk_data (bs ! fst p))\<rparr>"
  have g': "good_block ?b" using g room off by (simp add: good_block_def)
  have same: "in_place (bs[fst p := ?b]) p (patch off w c)"
    using pl k room off read_patch [of "snd p" "length c" "bk_data (bs ! fst p)" c off w] by (simp add: in_place_def)
  have other: "in_place (bs[fst p := ?b]) q d" if "in_place bs q d" "apart (p, c) (q, d)" for q d
    using that k room off by (cases "fst q = fst p") (auto simp: in_place_def apart_def read_apart)
  have ap: "apart (x, patch off w c) y = apart (x, c) y" for x y using off by (simp add: apart_def)
  have ap': "apart y (x, patch off w c) = apart y (x, c)" for x y using off by (simp add: apart_def)
  have "in_place (bs[fst p := ?b]) (fst (os[i := (p, patch off w c)] ! j)) (snd (os[i := (p, patch off w c)] ! j))"
    if "j < length os" for j
  proof (cases "j = i")
    case True
    then show ?thesis using same i by simp
  next
    case False
    then have "apart (p, c) (os ! j)" using h i that by (auto simp: holds_def)
    moreover have "in_place bs (fst (os ! j)) (snd (os ! j))" using h that by (auto simp: holds_def)
    ultimately show ?thesis using False other by simp
  qed
  moreover have "apart (os[i := (p, patch off w c)] ! j) (os[i := (p, patch off w c)] ! k')"
    if "j < length os" "k' < length os" "j \<noteq> k'" for j k'
  proof -
    have "apart (os ! j) (os ! k')" using h that by (simp add: holds_def)
    then show ?thesis using i that ap ap' by (auto simp: nth_list_update)
  qed
  ultimately show "holds (bs[fst p := ?b]) (os[i := (p, patch off w c)])"
    using h g' k by (auto simp: holds_def all_set_conv_all_nth list_all_length nth_list_update)
qed

lemma blocks_rebuild: "bs \<noteq> [] \<Longrightarrow> blocks (a\<lparr>ar_head := hd (rev bs), ar_next := tl (rev bs)\<rparr>) = bs"
  by (cases bs rule: rev_cases) (simp_all add: blocks_def)

lemma arena_write_runs:
  assumes ok: "arena_ok a os" and i: "i < length os" "os ! i = (p, c)" and off: "off + length w \<le> length c"
  shows "runs malloc (arena_write a (fst p, snd p + off) w) (\<lambda>a'. arena_ok a' (os[i := (p, patch off w c)]))"
proof -
  have h: "holds (blocks a) os" using ok by (simp add: arena_ok_def)
  have k: "fst p < length (blocks a)" using h nth_mem [OF i(1)] i(2) by (auto simp: holds_def in_place_def)
  have b: "rev (ar_head a # ar_next a) = blocks a" by (simp add: blocks_def)
  let ?b = "(blocks a ! fst p)\<lparr>bk_data := take (snd p + off) (bk_data (blocks a ! fst p)) @ w
      @ drop (snd p + off + length w) (bk_data (blocks a ! fst p))\<rparr>"
  have "arena_write a (fst p, snd p + off) w
      = Inr (a\<lparr>ar_head := hd (rev ((blocks a)[fst p := ?b])), ar_next := tl (rev ((blocks a)[fst p := ?b]))\<rparr>)"
    unfolding arena_write_def b using k holds_patch(1) [OF h i off] by (simp add: Let_def)
  moreover have "(blocks a)[fst p := ?b] \<noteq> []" by (simp add: blocks_def)
  ultimately show ?thesis
    using ok holds_patch(2) [OF h i off] by (simp add: arena_ok_def blocks_rebuild)
qed

lemma patch_whole [simp]: "length w = length c \<Longrightarrow> patch 0 w c = w"
  by (simp add: patch_def)

lemma arena_dup_runs:
  assumes ok: "arena_ok a os" and n: "0 < unat n" "unat n \<le> length src" "unat n \<le> 2 ^ 62"
  shows "runs malloc (arena_dup malloc a src n)
    (\<lambda>(p, a'). \<exists>q. p = Some q \<and> arena_ok a' (os @ [(q, take (unat n) src)]))"
proof -
  have "n \<noteq> 0" using n by auto
  then show ?thesis
    unfolding arena_dup_def using n
    by (auto intro!: runs_then runs_mono [OF arena_alloc_runs [OF ok]]
        dest: arena_write_runs [of _ _ "length os" _ _ 0 "take (unat n) src" malloc, THEN runs_mono] intro: runs_mono)
qed

lemma patch_nul: "patch 0 src (replicate (Suc (length src)) 0) = src @ [0]"
  by (simp only: patch_def drop_replicate) simp

lemma arena_strndup_runs:
  assumes ok: "arena_ok a os" and n: "length src < 2 ^ 62"
  shows "runs malloc (arena_strndup malloc a src (of_nat (length src))) (\<lambda>(p, a'). arena_ok a' (os @ [(p, src @ [0])]))"
proof -
  let ?n = "of_nat (length src) :: u64"
  have u: "unat ?n = length src" using n by (simp add: unat_of_nat take_bit_nat_eq_self)
  have u1: "unat (?n + 1) = Suc (length src)"
    using n u by (subst unat_add_lem [THEN iffD1]) simp_all
  have nul: "runs malloc (arena_write a' (fst p, snd p + length src) [0]) (\<lambda>a'. arena_ok a' (os @ [(p, src @ [0])]))"
    if "arena_ok a' (os @ [(p, src @ [0])])" for p a'
    by (rule runs_mono, rule arena_write_runs [OF that, of "length os" p "src @ [0]" "length src" "[0]"]) (auto simp: patch_def)
  have fill: "runs malloc (andThen (if ?n \<noteq> 0 then if length src < unat ?n then Inl OutOfBounds
        else arena_write a' p (take (unat ?n) src) else Inr a') (\<lambda>a. andThen (arena_write a (fst p, snd p + unat ?n) [0]) (\<lambda>a. Inr (p, a))))
      (\<lambda>(p, a'). arena_ok a' (os @ [(p, src @ [0])]))"
    if a': "arena_ok a' (os @ [(p, replicate (Suc (length src)) 0)])" for p a'
  proof (cases "src = []")
    case True
    then show ?thesis using nul [of a' p] a' u by (auto intro!: runs_then)
  next
    case False
    then have "?n \<noteq> 0" using u by (metis length_0_conv unat_0)
    moreover have "runs malloc (arena_write a' (fst p, snd p + 0) src) (\<lambda>a'. arena_ok a' (os @ [(p, src @ [0])]))"
      by (rule runs_mono, rule arena_write_runs [OF a', of "length os" p _ 0 src])
        (auto simp: patch_nul simp del: replicate.simps)
    ultimately show ?thesis using nul [of _ p] u by (auto intro!: runs_then elim!: runs_mono)
  qed
  show ?thesis
    unfolding arena_strndup_def
    by (rule runs_then, rule runs_mono, rule arena_alloc_runs [OF ok]) (use n u1 fill in auto)
qed

section \<open>Vectors hold what is pushed\<close>

text \<open>Pushing an element is \<open>vec_push\<close> and a store through the slot.\<close>

fun push_items :: "memory \<Rightarrow> u8 list list \<Rightarrow> vec \<Rightarrow> vec run" where
  "push_items malloc [] v = Inr v"
| "push_items malloc (x # xs) v =
     andThen (vec_push malloc v) (\<lambda>(slot, v). andThen (vec_store slot x v) (push_items malloc xs))"

lemma push_ptr_items: "vec_push_ptr malloc v x = push_items malloc [x] v"
  by (auto simp: vec_push_ptr_def andThen_def vec_store_def split: sum.splits prod.splits)

definition vec_ok :: "vec \<Rightarrow> nat \<Rightarrow> u8 list list \<Rightarrow> bool" where
  "vec_ok v e xs \<longleftrightarrow> unat (vc_elem v) = e \<and> 0 < e \<and> e \<le> 2 ^ 16 \<and> unat (vc_len v) = length xs
     \<and> length xs \<le> unat (vc_cap v) \<and> unat (vc_cap v) \<le> 8 + 2 * length xs \<and> length (vc_data v) = unat (vc_cap v) * e
     \<and> list_all (\<lambda>x. length x = e) xs \<and> take (length xs * e) (vc_data v) = concat xs"

lemma vec_init_ok: "0 < unat e \<Longrightarrow> unat e \<le> 2 ^ 16 \<Longrightarrow> vec_ok (vec_init e) (unat e) []"
  by (simp add: vec_ok_def vec_init_def)

lemma unat_bytes:
  assumes "n \<le> 2 ^ 32" "unat n' = n" "unat e \<le> 2 ^ 16"
  shows "unat (ucast (n' :: u32) * e :: u64) = n * unat e"
proof -
  have "n * unat e \<le> 2 ^ 32 * 2 ^ 16" using assms by (intro mult_le_mono) auto
  moreover have "unat (ucast n' :: u64) = n" using assms(1,2) by (simp add: unsigned_ucast_eq take_bit_nat_eq_self)
  ultimately show ?thesis by (subst unat_mult_lem [THEN iffD1]) simp_all
qed

lemma vec_write:
  assumes ok: "vec_ok v e xs" and room: "length xs < unat (vc_cap v)" and x: "length x = e"
  shows "runs malloc (andThen (let slot = unat (ucast (vc_len v) * vc_elem v) in
            andThen (write_bytes slot (replicate (unat (vc_elem v)) 0) (vc_data v))
              (\<lambda>d. Inr (slot, v\<lparr>vc_data := d, vc_len := vc_len v + 1\<rparr>)))
          (\<lambda>(slot, v). vec_store slot x v)) (\<lambda>v'. vec_ok v' e (xs @ [x]))"
proof -
  have small: "unat (vc_cap v) < 2 ^ 32" using unsigned_less [of "vc_cap v"] by simp
  have slot: "unat (ucast (vc_len v) * vc_elem v) = length xs * e"
    using ok room small unat_bytes [of "length xs" "vc_len v" "vc_elem v"] by (simp add: vec_ok_def)
  have "Suc (length xs) * e \<le> unat (vc_cap v) * e" using room by (intro mult_le_mono) auto
  then have fits: "length xs * e + e \<le> length (vc_data v)" using ok by (simp add: vec_ok_def)
  have len: "unat (vc_len v + 1) = Suc (length xs)"
    using ok room small by (subst unat_add_lem [THEN iffD1]) (auto simp: vec_ok_def)
  let ?d = "take (length xs * e) (vc_data v) @ x @ drop (length xs * e + e) (vc_data v)"
  have stored: "vec_store (length xs * e) x (v\<lparr>vc_data := take (length xs * e) (vc_data v) @ replicate e 0
      @ drop (length xs * e + e) (vc_data v), vc_len := vc_len v + 1\<rparr>) = Inr (v\<lparr>vc_data := ?d, vc_len := vc_len v + 1\<rparr>)"
    using fits x by (simp add: vec_store_def write_bytes_ok)
  have all: "take (length xs * e) (vc_data v) = concat xs" using ok by (simp add: vec_ok_def)
  then have cl: "length (concat xs) = length xs * e" using fits by (metis add_leD1 length_take min_absorb2)
  have "take (Suc (length xs) * e) ?d = concat xs @ x" by (simp add: all cl x)
  moreover have "length ?d = length (vc_data v)" using fits x by simp
  ultimately have done': "vec_ok (v\<lparr>vc_data := ?d, vc_len := vc_len v + 1\<rparr>) e (xs @ [x])"
    using ok room x len unfolding vec_ok_def by simp
  have elem: "unat (vc_elem v) = e" using ok by (simp add: vec_ok_def)
  show ?thesis
    unfolding Let_def slot elem using fits done'
    by (simp only: write_bytes_ok length_replicate andThen_Inr prod.case stored runs_Inr)
qed

lemma vec_grow:
  assumes ok: "vec_ok v e xs" and full: "vc_len v = vc_cap v" and n: "length xs < 2 ^ 30"
  defines "cap \<equiv> if vc_cap v \<noteq> 0 then vc_cap v * 2 else 8"
  shows "runs malloc (andThen (realloc malloc (vc_data v) (ucast cap * vc_elem v)) (\<lambda>d. Inr (v\<lparr>vc_data := d, vc_cap := cap\<rparr>)))
    (\<lambda>v'. vec_ok v' e xs \<and> length xs < unat (vc_cap v'))"
proof -
  have c: "unat (vc_cap v) = length xs" using ok full by (simp add: vec_ok_def)
  then have "unat (vc_cap v * 2) = 2 * length xs" using n by (subst unat_mult_lem [THEN iffD1]) simp_all
  moreover have "vc_cap v = 0 \<longleftrightarrow> xs = []" using c by (metis length_0_conv unat_eq_zero)
  ultimately have cap: "unat cap = (if xs = [] then 8 else 2 * length xs)" by (simp add: cap_def)
  then have u: "unat (ucast cap * vc_elem v) = unat cap * e"
    using ok n unat_bytes [of "unat cap" cap "vc_elem v"] by (simp add: vec_ok_def)
  have more: "length (vc_data v) \<le> unat cap * e" using ok c cap by (auto simp: vec_ok_def)
  show ?thesis
  proof (cases "malloc (ucast cap * vc_elem v)")
    case None
    then show ?thesis by (auto simp: realloc_def andThen_def runs_def)
  next
    case (Some bytes)
    let ?d = "vc_data v @ map bytes [length (vc_data v)..<unat cap * e]"
    have "take (length xs * e) ?d = concat xs" using ok c by (simp add: vec_ok_def)
    then have "vec_ok (v\<lparr>vc_data := ?d, vc_cap := cap\<rparr>) e xs" "length xs < unat cap"
      using ok cap more by (auto simp: vec_ok_def)
    with Some more show ?thesis by (simp add: realloc_def u)
  qed
qed

lemma vec_push_runs:
  assumes ok: "vec_ok v e xs" and x: "length x = e" and n: "length xs < 2 ^ 30"
  shows "runs malloc (andThen (vec_push malloc v) (\<lambda>(slot, v). vec_store slot x v)) (\<lambda>v'. vec_ok v' e (xs @ [x]))"
proof -
  have assoc: "andThen (andThen m f) g = andThen m (\<lambda>y. andThen (f y) g)" for m f g
    by (simp add: andThen_def split: sum.splits)
  have room: "runs malloc (if vc_len v = vc_cap v then
          (let cap = (if vc_cap v \<noteq> 0 then vc_cap v * 2 else 8) in
           andThen (realloc malloc (vc_data v) (ucast cap * vc_elem v)) (\<lambda>d. Inr (v\<lparr>vc_data := d, vc_cap := cap\<rparr>)))
        else Inr v) (\<lambda>v'. vec_ok v' e xs \<and> length xs < unat (vc_cap v'))"
  proof (cases "vc_len v = vc_cap v")
    case True
    then show ?thesis using vec_grow [OF ok True n, of malloc] by (simp only: Let_def refl if_True)
  next
    case False
    then have "length xs \<noteq> unat (vc_cap v)" using ok by (auto simp: vec_ok_def dest: unsigned_word_eqI)
    with False ok show ?thesis by (simp add: vec_ok_def)
  qed
  show ?thesis
    unfolding vec_push_def assoc
    by (rule runs_then, rule runs_mono [OF room], rule vec_write [OF _ _ x]) auto
qed

lemma push_items_runs:
  "vec_ok v e xs \<Longrightarrow> list_all (\<lambda>x. length x = e) ys \<Longrightarrow> length xs + length ys \<le> 2 ^ 30
   \<Longrightarrow> runs malloc (push_items malloc ys v) (\<lambda>v'. vec_ok v' e (xs @ ys))"
proof (induction ys arbitrary: v xs)
  case (Cons y ys)
  have "push_items malloc (y # ys) v
      = andThen (andThen (vec_push malloc v) (\<lambda>(slot, v). vec_store slot y v)) (push_items malloc ys)"
    by (simp add: andThen_def split: sum.splits prod.splits)
  moreover have "runs malloc (push_items malloc ys v') (\<lambda>v'. vec_ok v' e (xs @ y # ys))" if "vec_ok v' e (xs @ [y])" for v'
    using Cons.prems Cons.IH [OF that] by simp
  ultimately show ?case
    using Cons.prems by (auto simp only: list.pred_inject length_Cons intro!: runs_then [OF runs_mono [OF vec_push_runs [of v e xs y malloc]]])
qed simp

lemma vec_take_runs:
  assumes v: "vec_ok v e xs" and n: "length xs \<le> 2 ^ 30" and ok: "arena_ok a os"
  shows "runs malloc (vec_take malloc a v) (\<lambda>(p, len, v', a'). len = of_nat (length xs) \<and> v' = vec_init (vc_elem v) \<and>
    (if xs = [] then p = None \<and> a' = a else \<exists>q. p = Some q \<and> arena_ok a' (os @ [(q, concat xs)])))"
proof (cases "xs = []")
  case True
  then have "vc_len v = 0" using v by (simp add: vec_ok_def unat_eq_zero)
  with True show ?thesis by (simp add: vec_take_def)
next
  case False
  have len: "unat (vc_len v) = length xs" using v by (simp add: vec_ok_def)
  then have ne: "vc_len v \<noteq> 0" using False by auto
  have lw: "vc_len v = of_nat (length xs)" by (metis len word_unat_eq_iff of_nat_unat ucast_id)
  have e: "0 < e" "e \<le> 2 ^ 16" "length xs * e \<le> length (vc_data v)" "take (length xs * e) (vc_data v) = concat xs"
    using v by (auto simp: vec_ok_def)
  have b: "unat (ucast (vc_len v) * vc_elem v) = length xs * e"
    using v n unat_bytes [of "length xs" "vc_len v" "vc_elem v"] by (simp add: vec_ok_def)
  have "length xs * e \<le> 2 ^ 30 * 2 ^ 16" using n e by (intro mult_le_mono) auto
  then have "runs malloc (arena_dup malloc a (vc_data v) (ucast (vc_len v) * vc_elem v))
     (\<lambda>(p, a'). \<exists>q. p = Some q \<and> arena_ok a' (os @ [(q, concat xs)]))"
    using arena_dup_runs [OF ok, of "ucast (vc_len v) * vc_elem v" "vc_data v" malloc] b e False by simp
  then show ?thesis
    unfolding vec_take_def using ne False lw
    by (intro runs_then) (auto simp only: if_True not_False_eq_True elim!: runs_mono, auto)
qed

section \<open>A client of the arena\<close>

text \<open>
  What the passes ask for: zeroed memory, a copy, a terminated string, a vector filled and taken, and a write inside of
  an object handed out before, named by its number.
\<close>

datatype request =
    Alloc u64
  | Dup "u8 list"
  | Strndup "u8 list"
  | Build u64 "u8 list list"
  | Assign nat nat "u8 list"

fun serve :: "memory \<Rightarrow> request \<Rightarrow> ptr list \<times> arena \<Rightarrow> (ptr list \<times> arena) run" where
  "serve malloc (Alloc n) (ps, a) = andThen (arena_alloc malloc a n) (\<lambda>(p, a). Inr (ps @ [p], a))"
| "serve malloc (Dup bs) (ps, a) =
     andThen (arena_dup malloc a bs (of_nat (length bs)))
       (\<lambda>(p, a). Inr (case p of None \<Rightarrow> ps | Some p \<Rightarrow> ps @ [p], a))"
| "serve malloc (Strndup bs) (ps, a) =
     andThen (arena_strndup malloc a bs (of_nat (length bs))) (\<lambda>(p, a). Inr (ps @ [p], a))"
| "serve malloc (Build e xs) (ps, a) =
     andThen (push_items malloc xs (vec_init e)) (\<lambda>v. andThen (vec_take malloc a v)
       (\<lambda>(p, _, _, a). Inr (case p of None \<Rightarrow> ps | Some p \<Rightarrow> ps @ [p], a)))"
| "serve malloc (Assign i off bs) (ps, a) =
     andThen (arena_write a (fst (ps ! i), snd (ps ! i) + off) bs) (\<lambda>a. Inr (ps, a))"

fun serve_all :: "memory \<Rightarrow> request list \<Rightarrow> ptr list \<times> arena \<Rightarrow> (ptr list \<times> arena) run" where
  "serve_all malloc [] st = Inr st"
| "serve_all malloc (r # rs) st = andThen (serve malloc r st) (serve_all malloc rs)"

text \<open>The same on separate objects, each with its bytes.\<close>

fun objects :: "request \<Rightarrow> u8 list list \<Rightarrow> u8 list list" where
  "objects (Alloc n) cs = cs @ [replicate (unat n) 0]"
| "objects (Dup bs) cs = (if bs = [] then cs else cs @ [bs])"
| "objects (Strndup bs) cs = cs @ [bs @ [0]]"
| "objects (Build e xs) cs = (if xs = [] then cs else cs @ [concat xs])"
| "objects (Assign i off bs) cs = cs[i := patch off bs (cs ! i)]"

text \<open>Sizes that do not wrap, and writes inside of the object.\<close>

fun allowed :: "request \<Rightarrow> u8 list list \<Rightarrow> bool" where
  "allowed (Alloc n) cs \<longleftrightarrow> unat n \<le> 2 ^ 62"
| "allowed (Dup bs) cs \<longleftrightarrow> length bs \<le> 2 ^ 62"
| "allowed (Strndup bs) cs \<longleftrightarrow> length bs < 2 ^ 62"
| "allowed (Build e xs) cs \<longleftrightarrow> 0 < unat e \<and> unat e \<le> 2 ^ 16 \<and> list_all (\<lambda>x. length x = unat e) xs \<and> length xs \<le> 2 ^ 30"
| "allowed (Assign i off bs) cs \<longleftrightarrow> i < length cs \<and> off + length bs \<le> length (cs ! i)"

fun allowed_all :: "request list \<Rightarrow> u8 list list \<Rightarrow> bool" where
  "allowed_all [] cs \<longleftrightarrow> True"
| "allowed_all (r # rs) cs \<longleftrightarrow> allowed r cs \<and> allowed_all rs (objects r cs)"

definition mirrors :: "ptr list \<times> arena \<Rightarrow> u8 list list \<Rightarrow> bool" where
  "mirrors st cs \<longleftrightarrow> length (fst st) = length cs \<and> arena_ok (snd st) (zip (fst st) cs)"

lemma mirrors_add: "mirrors (ps, a) cs \<Longrightarrow> arena_ok a' (zip ps cs @ [(p, c)]) \<Longrightarrow> mirrors (ps @ [p], a') (cs @ [c])"
  by (simp add: mirrors_def)

lemma serve_mirrors:
  assumes m: "mirrors (ps, a) cs" and al: "allowed r cs"
  shows "runs malloc (serve malloc r (ps, a)) (\<lambda>st. mirrors st (objects r cs))"
proof -
  have ok: "arena_ok a (zip ps cs)" and len: "length ps = length cs" using m by (auto simp: mirrors_def)
  show ?thesis
  proof (cases r)
    case (Alloc n)
    then show ?thesis using al mirrors_add [OF m]
      by (auto intro!: runs_then runs_mono [OF arena_alloc_runs [OF ok]])
  next
    case (Dup bs)
    show ?thesis
    proof (cases "bs = []")
      case True
      with Dup m show ?thesis by (simp add: arena_dup_def)
    next
      case False
      have "unat (of_nat (length bs) :: u64) = length bs" using al Dup by (simp add: unat_of_nat take_bit_nat_eq_self)
      with Dup False al show ?thesis using mirrors_add [OF m]
        by (auto intro!: runs_then runs_mono [OF arena_dup_runs [OF ok]])
    qed
  next
    case (Strndup bs)
    then show ?thesis using al mirrors_add [OF m]
      by (auto intro!: runs_then runs_mono [OF arena_strndup_runs [OF ok]])
  next
    case (Build e xs)
    have build: "runs malloc (andThen (vec_take malloc a v) (\<lambda>(p, _, _, a). Inr (case p of None \<Rightarrow> ps | Some p \<Rightarrow> ps @ [p], a)))
        (\<lambda>st. mirrors st (objects r cs))" if "vec_ok v (unat e) xs" for v
      using al Build m mirrors_add [OF m]
      by (intro runs_then runs_mono [OF vec_take_runs [OF that _ ok]]) (auto split: if_splits option.splits)
    have "runs malloc (push_items malloc xs (vec_init e)) (\<lambda>v. vec_ok v (unat e) xs)"
      using push_items_runs [OF vec_init_ok [of e], of xs malloc] al Build by simp
    then show ?thesis
      using build unfolding Build serve.simps by (rule runs_then [OF runs_mono])
  next
    case (Assign i off bs)
    have "i < length (zip ps cs)" "zip ps cs ! i = (ps ! i, cs ! i)" using al Assign len by auto
    from arena_write_runs [OF ok this, of off bs malloc] show ?thesis
      using al Assign len by (auto intro!: runs_then elim!: runs_mono simp: mirrors_def zip_update [symmetric])
  qed
qed

lemma serve_all_mirrors:
  "mirrors st cs \<Longrightarrow> allowed_all rs cs \<Longrightarrow> runs malloc (serve_all malloc rs st) (\<lambda>st. mirrors st (fold objects rs cs))"
proof (induction rs arbitrary: st cs)
  case (Cons r rs)
  have "runs malloc (serve malloc r st) (\<lambda>st. mirrors st (objects r cs))"
    using serve_mirrors [of "fst st" "snd st" cs r malloc] Cons.prems by simp
  then show ?case using Cons by (auto intro!: runs_then elim!: runs_mono)
qed simp

text \<open>
  C27. An arena serves any sequence of allocations, copies, strings and finished vectors, with writes inside of the
  objects between them, without ever writing outside of a block's memory; it ends unless \<open>malloc\<close> refuses a size. At the
  end every object holds the bytes it would hold if objects were separate: zeroes when allocated, then what was
  copied or written, untouched by later allocations. Objects are aligned to 16 bytes and do not overlap.
\<close>
theorem arena_separates_objects:
  assumes "unat block_size \<le> 2 ^ 62" and "allowed_all rs []"
  shows "runs malloc (andThen (arena_new malloc block_size) (\<lambda>a. serve_all malloc rs ([], a)))
    (\<lambda>(ps, a). let cs = fold objects rs [] in length ps = length cs
       \<and> (\<forall>i < length ps. arena_read a (ps ! i) (length (cs ! i)) = cs ! i \<and> 16 dvd snd (ps ! i))
       \<and> (\<forall>i < length ps. \<forall>j < length ps. i \<noteq> j \<longrightarrow> apart (ps ! i, cs ! i) (ps ! j, cs ! j)))"
proof -
  have "runs malloc (serve_all malloc rs ([], a)) (\<lambda>st. mirrors st (fold objects rs []))" if "arena_ok a []" for a
    using serve_all_mirrors [of "([], a)" "[]" rs malloc] that assms by (simp add: mirrors_def)
  then have "runs malloc (andThen (arena_new malloc block_size) (\<lambda>a. serve_all malloc rs ([], a)))
      (\<lambda>st. mirrors st (fold objects rs []))"
    by (intro runs_then runs_mono [OF arena_new_runs [OF assms(1)]])
  then show ?thesis
  proof (rule runs_mono)
    fix st assume m: "mirrors st (fold objects rs [])"
    let ?cs = "fold objects rs []"
    have len: "length (fst st) = length ?cs" and h: "holds (blocks (snd st)) (zip (fst st) ?cs)"
      using m by (auto simp: mirrors_def arena_ok_def)
    have "arena_read (snd st) (fst st ! i) (length (?cs ! i)) = ?cs ! i \<and> 16 dvd snd (fst st ! i)" if "i < length (fst st)" for i
    proof -
      have "(fst st ! i, ?cs ! i) \<in> set (zip (fst st) ?cs)" using that len by (auto simp: set_zip)
      then have "in_place (blocks (snd st)) (fst st ! i) (?cs ! i)" using h by (force simp: holds_def)
      then show ?thesis by (simp add: in_place_def arena_read_def block_at_def blocks_def)
    qed
    moreover have "apart (fst st ! i, ?cs ! i) (fst st ! j, ?cs ! j)"
      if "i < length (fst st)" "j < length (fst st)" "i \<noteq> j" for i j
      using h that len by (simp add: holds_def)
    ultimately show "case st of (ps, a) \<Rightarrow> let cs = ?cs in length ps = length cs
       \<and> (\<forall>i < length ps. arena_read a (ps ! i) (length (cs ! i)) = cs ! i \<and> 16 dvd snd (ps ! i))
       \<and> (\<forall>i < length ps. \<forall>j < length ps. i \<noteq> j \<longrightarrow> apart (ps ! i, cs ! i) (ps ! j, cs ! j))"
      using len by (simp add: split_def Let_def)
  qed
qed

text \<open>Five requests in blocks of 32 bytes, on memory full of 0xAA.\<close>

definition arena_example :: "request list" where
  "arena_example = [Alloc 20, Dup [1, 2, 3], Assign 0 4 [7, 8], Strndup [65], Build 2 [[1, 2], [3, 4]]]"

theorem arena_separates_objects_witness:
  "\<exists>ps a. andThen (arena_new (\<lambda>_. Some (\<lambda>_. 0xAA)) 32) (\<lambda>a. serve_all (\<lambda>_. Some (\<lambda>_. 0xAA)) arena_example ([], a)) = Inr (ps, a)
     \<and> length ps = 4 \<and> arena_read a (ps ! 0) 8 = [0, 0, 0, 0, 7, 8, 0, 0] \<and> arena_read a (ps ! 1) 3 = [1, 2, 3]
     \<and> arena_read a (ps ! 2) 2 = [65, 0] \<and> arena_read a (ps ! 3) 4 = [1, 2, 3, 4]"
proof -
  let ?m = "\<lambda>_. Some (\<lambda>_. 0xAA)"
  have al: "allowed_all arena_example []" by (simp add: arena_example_def)
  have cs: "fold objects arena_example [] = [replicate 4 0 @ [7, 8] @ replicate 14 0, [1, 2, 3], [65, 0], [1, 2, 3, 4]]"
    by (simp add: arena_example_def patch_def)
  obtain ps a where run: "andThen (arena_new ?m 32) (\<lambda>a. serve_all ?m arena_example ([], a)) = Inr (ps, a)"
    and len: "length ps = 4" and rd: "\<And>i. i < 4 \<Longrightarrow> arena_read a (ps ! i) (length (fold objects arena_example [] ! i)) = fold objects arena_example [] ! i"
    using arena_separates_objects [of 32 arena_example ?m] al
    by (auto simp: runs_def cs Let_def split: sum.splits)
  have "take 8 (arena_read a (ps ! 0) 20) = arena_read a (ps ! 0) 8" by (simp add: arena_read_def read_bytes_def)
  with rd [of 0] rd [of 1] rd [of 2] rd [of 3] run len show ?thesis by (intro exI) (simp add: cs numeral_eq_Suc)
qed

end
