(* ===== verification/Slop_Lower_Stmts.thy ===== *)
theory Slop_Lower_Stmts
  imports Slop_Lower_Store
begin

text \<open>
  Statements and functions. Lowering a statement of a checked program ends, and leaves every block it made closed, but
  for the one it goes on in; so a lowered function is made of blocks that end in their only terminator.
\<close>

section \<open>Assignments\<close>

text \<open>The trees of an assignment.\<close>

definition assign_ok :: "meaning \<Rightarrow> expr \<Rightarrow> expr \<Rightarrow> bool" where
  "assign_ok C e v \<longleftrightarrow> addressable C e \<and> value_ty C (ex_sem e) \<and> lowerable C v"

lemma compound_pointer:
  assumes r: "ready C f L" and t: "known_ty C t" and v: "is_val (lw_m L) rhs"
  shows "yields C f L (do { let (i64, L) = in_module (\<lambda>m. ir_type_int m 64) L;
                         (elem, L) \<leftarrow> ir_of_ty (t_elem (lty L t)) L;
                         (rhs, L) \<leftarrow> (if val_ty L rhs \<noteq> i64 then build_value (\<lambda>b. ir_build_cast b IR_SEXT rhs i64) L else Some (rhs, L));
                         (rhs, L) \<leftarrow> (if op = Punct TOK_MINUS_EQ
                            then do { let (z, L) = new_const i64 0 L; build_value (\<lambda>b. ir_build_binary b IR_SUB z rhs) L }
                            else Some (rhs, L));
                         build_value (\<lambda>b. ir_build_gep_index b elem p rhs) L }) (\<lambda>v L'. is_val (lw_m L') v)"
  unfolding int64_eq
proof (rule yields_bind [OF yields_any_ty [OF r]], goal_cases)
  case 1
  then show ?case using t lower_tt [OF r] by (simp add: lty_def known_ty_def)
next
  case (2 elem L1)
  note r1 = 2(2) and i64 = goes_nonvoid [OF 2(1) ready_basic(4) [OF r]] and v1 = goes_val [OF 2(1) v]
  show ?case
  proof (rule yields_bind [where Q = "\<lambda>v L'. is_val (lw_m L') v"], goal_cases)
    case 1
    show ?case using r1 v1 by (intro yields_if build_value_cast i64 yields_Some) (simp_all add: is_terminator_def)
  next
    case (2 x L2)
    note r2 = 2(2) and x = 2(3) and t2 = goes_nonvoid [OF 2(1) i64]
    show ?case
    proof (rule yields_bind [where Q = "\<lambda>v L'. is_val (lw_m L') v"], goal_cases)
      case 1
      show ?case
        by (intro yields_if yields_const [OF r2 t2] yields_Some r2 x build_value_binary) (simp_all add: is_terminator_def)
    next
      case (2 y L3)
      then show ?case by (intro yields_build_value [OF build_index])
    qed
  qed
qed

lemma lower_assign_runs:
  assumes r: "ready C f L" and a: "assign_ok C e v"
  shows "proceeds C f L (lower_assign (Some e) op (Some v) L)"
proof -
  have e: "addressable C e" and t: "value_ty C (ex_sem e)" and v: "lowerable C v" using a by (auto simp: assign_ok_def)
  obtain s where s: "ex_sem e = Some s" "known_ty C s" using t by (auto simp: value_ty_def)
  obtain vs where vs: "ex_sem v = Some vs" using value_some [OF lowerable_ty [OF v]] by auto
  show ?thesis
    unfolding lower_assign_def sem_of_def option.map bind.bind_lunit
  proof (rule proceeds_bind [OF lower_addr_yields [OF e r]], rule proceeds_bind [OF yields_ir_of_ty [OF _ t]], assumption, goal_cases)
    case (1 w L1 ty L2)
    note r2 = 1(5) and nt = 1(6)
    obtain addr where addr: "w = Some addr" using 1(3) by (auto elim: some_valE)
    show ?case
    proof (cases "op = Punct TOK_EQ")
      case True
      then show ?thesis using store_value_proceeds [OF r2 v t] by (simp add: addr)
    next
      case False
      have "proceeds C f L2 (do {
            (cur, L) \<leftarrow> build_value (\<lambda>b. ir_build_load b ty addr) L2;
            (rhs, L) \<leftarrow> lower_expr (Some v) L;
            (rhs, L) \<leftarrow> (if \<not> is_ptr_ty L (Some s) then coerce_to rhs ty (ex_sem v) L else do { r \<leftarrow> rhs; Some (r, L) });
            (result, L) \<leftarrow> (if t_kind (lty L s) = TY_PTR then
                    do { let (i64, L) = in_module (\<lambda>m. ir_type_int m 64) L;
                         (elem, L) \<leftarrow> ir_of_ty (t_elem (lty L s)) L;
                         (rhs, L) \<leftarrow> (if val_ty L rhs \<noteq> i64 then build_value (\<lambda>b. ir_build_cast b IR_SEXT rhs i64) L else Some (rhs, L));
                         (rhs, L) \<leftarrow> (if op = Punct TOK_MINUS_EQ
                            then do { let (z, L) = new_const i64 0 L; build_value (\<lambda>b. ir_build_binary b IR_SUB z rhs) L }
                            else Some (rhs, L));
                         build_value (\<lambda>b. ir_build_gep_index b elem cur rhs) L }
                  else if ty_is_float (lty L s) then build_value (\<lambda>b. ir_build_binary b (float_binop (compound_op op)) cur rhs) L
                  else build_value (\<lambda>b. ir_build_binary b (int_binop (compound_op op) (ty_is_signed (lty L s))) cur rhs) L);
            store result addr L })"
      proof (rule proceeds_bind [OF yields_build_value [OF build_load [OF r2 nt]]], rule proceeds_bind [OF lower_expr_yields [OF v]],
          assumption, rule proceeds_bind [where Q = "\<lambda>v L. is_val (lw_m L) v"], goal_cases)
        case (1 c L3 x L4)
        have tt: "has_ty (lw_m L4) ty" using nonvoid_ty [OF goes_nonvoid [OF goes_trans [OF 1(1,4)] nt]] .
        then show ?case using 1 by (auto elim!: some_valE intro!: coerce_to_yields yields_Some)
      next
        case (2 c L3 x L4 y L5)
        note c5 = goes_val [OF goes_trans [OF 2(4,7)] 2(3)]
        show ?case
          by (rule proceeds_bind [where Q = "\<lambda>v L. is_val (lw_m L) v"], intro yields_if)
            (use compound_pointer [OF 2(8) s(2) 2(9)] build_value_binary [OF 2(8) c5] in \<open>auto intro: store_proceeds\<close>)
      qed
      then show ?thesis using False by (simp add: addr s vs)
    qed
  qed
qed

section \<open>Expressions for their effect\<close>

text \<open>A call whose value, if it has one, is not looked at.\<close>

inductive call_ok :: "meaning \<Rightarrow> expr \<Rightarrow> bool" where
  "\<forall>r. sem = Some r \<longrightarrow> lowered_ty (mn_tt C) (mn_types C) r \<Longrightarrow> \<forall>a \<in> set args. \<exists>x. a = Some x \<and> lowerable C x
    \<Longrightarrow> call_ok C (Expr pos sem (EXPR_CALL (Some c) args))"

definition effect_ok :: "meaning \<Rightarrow> expr \<Rightarrow> bool" where
  "effect_ok C e \<longleftrightarrow> lowerable C e \<or> call_ok C e"

lemma undef_goes:
  assumes r: "ready C f L" and t: "has_ty (lw_m L) t"
  shows "goes C f L (snd (undef t L))"
proof -
  let ?m = "(lw_m L)\<lparr>im_values := im_values (lw_m L) @ [\<lparr>iv_kind = IRV_UNDEF, iv_type = t, iv_ival = 0, iv_fval = 0, iv_name = []\<rparr>]\<rparr>"
  have "goes C f L (L\<lparr>lw_b := (lw_b L)\<lparr>ib_module := ?m\<rparr>\<rparr>)"
    using add_value(1,2) [OF readyD(1) [OF r]] t by (intro module_step [OF r]) (simp_all add: fn_obj_def)
  then show ?thesis by (simp add: undef_def in_module_eq ir_undef_def value_new_def)
qed

lemma call_yields:
  assumes r: "ready C f L" and s: "\<forall>r. sem = Some r \<longrightarrow> lowered_ty (mn_tt C) (mn_types C) r"
    and a: "\<And>a. a \<in> set args \<Longrightarrow> lowers C f le a \<and> a \<noteq> None"
  shows "yields C f L (lower_call le pos sem (Some c) args L) (\<lambda>_ _. True)"
proof (cases "\<exists>n g. ex_u c = EXPR_NAME n \<and> find_func L n = Some g")
  case True
  then obtain n g where "ex_u c = EXPR_NAME n" "find_func L n = Some g" by blast
  then have "yields C f L (lower_call le pos sem (Some c) args L) maybe_val" using lower_call_yields(2) [OF r a] by blast
  then show ?thesis by (rule yields_mono) simp
next
  case False
  have failed: "yields C f L (do { (t, L) \<leftarrow> ir_of_ty sem (fail pos what L); Some (undef t L) }) (\<lambda>_ _. True)" for what
  proof (rule yields_goes, rule conjunct1 [OF conjunct2 [OF fail_ready [OF r, of pos what]]], rule yields_bind [OF yields_any_ty], goal_cases)
    case 1
    then show ?case using fail_ready [OF r] by blast
  next
    case 2
    then show ?case using s by blast
  next
    case (3 t L')
    then show ?case using undef_goes [OF 3(2,3)] by (cases "undef t L'") (auto simp: yields_iff)
  qed
  show ?thesis
  proof (cases "\<exists>n. ex_u c = EXPR_NAME n")
    case True
    then obtain n where n: "ex_u c = EXPR_NAME n" by blast
    then have "find_func L n = None" using False by (cases "find_func L n") auto
    with n show ?thesis using failed by (simp add: lower_call_def)
  next
    case other: False
    then show ?thesis using failed by (cases "ex_u c") (simp_all add: lower_call_def)
  qed
qed

lemma effect_yields:
  assumes r: "ready C f L" and e: "effect_ok C e"
  shows "yields C f L (lower_expr (Some e) L) (\<lambda>_ _. True)"
proof (cases "lowerable C e")
  case True
  show ?thesis by (rule yields_mono [OF lower_expr_yields [OF True r]]) simp
next
  case False
  then have "call_ok C e" using e by (simp add: effect_ok_def)
  then obtain pos sem c args where x: "e = Expr pos sem (EXPR_CALL (Some c) args)"
    and s: "\<forall>r. sem = Some r \<longrightarrow> lowered_ty (mn_tt C) (mn_types C) r" and a: "\<forall>a \<in> set args. \<exists>x. a = Some x \<and> lowerable C x"
    by (auto elim: call_ok.cases)
  let ?n = "size (EXPR_CALL (Some c) args) + 1"
  have args: "lowers C f (lower_expr_n ?n) a \<and> a \<noteq> None" if aa: "a \<in> set args" for a
  proof -
    obtain y where y: "a = Some y" "lowerable C y" using bspec [OF a aa] by auto
    have "size y \<le> size_list (size_option size) args"
      using size_list_estimation' [OF aa, of "size y" "size_option size"] by (simp add: y(1))
    then show ?thesis unfolding y(1) by (intro conjI lowers_nD [OF lowered_tree(1) [OF y(2)]]) simp_all
  qed
  have "yields C f L (lower_node (lower_expr_n ?n) (lower_addr_n ?n) pos sem (EXPR_CALL (Some c) args) L) (\<lambda>_ _. True)"
    unfolding lower_node_def by (rule yields_bind [OF yields_any_ty [OF r s]]) (use call_yields [OF _ s args] in \<open>simp add: Let_def\<close>)
  then show ?thesis by (simp add: x lower_expr_def)
qed

section \<open>Jumps\<close>

lemma is_closed_eq: "lower_ok C f L \<Longrightarrow> is_closed L = Some (\<not> is_open L)"
  using lower_okD(6) by (simp add: is_closed_def cur_block_def is_open_def closed_def)

lemma ensure_open_flows:
  assumes lo: "lower_ok C f L"
  obtains L' where "ensure_open L = Some L'" "flows C f 0 L L'" "ready C f L'" "lw_locals L' = lw_locals L" "lw_used L' = lw_used L"
proof (cases "is_open L")
  case True
  then have "flows C f 0 L L" "ready C f L" using lo steps_refl by (simp_all add: flows_def ready_def)
  then show thesis using that True by (simp add: ensure_open_def is_closed_eq [OF lo])
next
  case False
  obtain bb L1 where b: "new_block ''dead'' L = Some (bb, L1)" "steps C f L L1" "same_scope L L1" "cur_bb L1 = cur_bb L" "is_open L1 = is_open L"
    "bb \<notin> fblocks (lw_m L) f" "others f L1 = insert bb (others f L)"
    using new_block_step [OF lo, of "''dead''"] by blast
  have p: "pending (lw_m L1) f = insert bb (others f L)" using closed_pending [of L1 f] b(5,7) False by simp
  have nb: "bb \<notin> others f L" using b(6) others_block by blast
  note ps = position_step [OF steps_ok [OF b(2)], of bb]
  have "steps C f L (position bb L1)" using steps_trans [OF b(2) ps(2)] p by simp
  moreover have "same_scope L (position bb L1)" using b(3) ps(3) p by (simp add: same_scope_def)
  moreover have "others f (position bb L1) = others f L" using ps(5) p nb by auto
  moreover have "ready C f (position bb L1)" using ps(1) p by simp
  ultimately have "flows C f 0 L (position bb L1)" "ready C f (position bb L1)" "same_scope L (position bb L1)"
    by (simp_all add: flows_def same_scope_def)
  then show thesis using that False b(1) by (simp add: ensure_open_def is_closed_eq [OF lo] same_scope_def)
qed

text \<open>A statement starts in an open block.\<close>

lemma completes_open:
  assumes lo: "lower_ok C f L"
    and c: "\<And>L'. flows C f 0 L L' \<Longrightarrow> ready C f L' \<Longrightarrow> lw_locals L' = lw_locals L \<Longrightarrow> lw_used L' = lw_used L \<Longrightarrow> completes C f k L' (c L')"
  shows "completes C f k L (Option.bind (ensure_open L) c)"
proof (rule ensure_open_flows [OF lo], goal_cases)
  case (1 L')
  obtain L'' where "c L' = Some L''" "flows C f k L' L''" using c [OF 1(2,3,4,5)] by (auto simp: completes_def)
  then show ?case using flows_trans [OF 1(2)] by (simp add: completes_def 1(1))
qed

lemma br_unless_closed_closes:
  assumes lo: "lower_ok C f L" and b: "bb \<in> fblocks (lw_m L) f"
  obtains L' where "br_unless_closed bb L = Some L'" "closes C f L L'"
proof (cases "is_open L")
  case True
  then have "ready C f L" using lo by (simp add: ready_def)
  then show thesis using that br_step [OF _ b] True by (auto simp: br_unless_closed_def is_closed_eq [OF lo])
next
  case False
  then have "closes C f L L" using steps_refl [OF lo] by (simp add: closes_def same_scope_def)
  then show thesis using that False by (simp add: br_unless_closed_def is_closed_eq [OF lo])
qed

lemma lower_return_runs:
  assumes r: "ready C f L" and v: "\<forall>e. v = Some e \<longrightarrow> lowerable C e"
  shows "completes C f 0 L (lower_return v L)"
proof (cases v)
  case None
  obtain L' where "map_option snd (build (\<lambda>b. ir_build_ret b None) L) = Some L'" "closes C f L L'" using ret_step [OF r] by blast
  then show ?thesis using closes_flows None by (auto simp: lower_return_def completes_def)
next
  case (Some e)
  then have e: "lowerable C e" using v by simp
  have "completes C f 0 L (do { (v, L) \<leftarrow> lower_expr (Some e) L; f \<leftarrow> lw_cur L;
      (v, L) \<leftarrow> coerce_to v (if_ret (fn_obj (lw_m L) f)) (ex_sem e) L; map_option snd (build (\<lambda>b. ir_build_ret b (Some v)) L) })"
  proof (rule completes_bind [OF lower_expr_yields [OF e r]], goal_cases)
    case (1 x L1)
    have t: "has_ty (lw_m L1) (if_ret (fn_obj (lw_m L1) f))"
      using readyD(1,4) [OF 1(2)] by (simp add: module_typed_def sig_ok_def)
    have "completes C f 0 L1 (do { (v, L) \<leftarrow> coerce_to x (if_ret (fn_obj (lw_m L1) f)) (ex_sem e) L1; map_option snd (build (\<lambda>b. ir_build_ret b (Some v)) L) })"
    proof (rule completes_bind [OF coerce_to_yields [OF 1(2,3) t]], goal_cases)
      case (1 y L2)
      obtain L' where "map_option snd (build (\<lambda>b. ir_build_ret b (Some y)) L2) = Some L'" "closes C f L2 L'" using ret_step [OF 1(2)] by blast
      then show ?case using closes_flows by (auto simp: completes_def)
    qed
    then show ?case using readyD(3) [OF 1(2)] by simp
  qed
  then show ?thesis by (simp add: lower_return_def Some)
qed

lemma lower_jump_runs:
  assumes r: "ready C f L" and t: "\<And>l. l \<in> set (lw_loops L) \<Longrightarrow> tgt l \<in> fblocks (lw_m L) f"
  shows "completes C f 0 L (lower_jump pos what tgt L)"
proof (cases "lw_loops L = []")
  case True
  then show ?thesis using fail_ready [OF r] goes_flows by (auto simp: lower_jump_def completes_def)
next
  case False
  then obtain L' where "br (tgt (last (lw_loops L))) L = Some L'" "closes C f L L'"
    using br_step [OF r t [OF last_in_set [OF False]]] by blast
  then show ?thesis using False closes_flows by (auto simp: lower_jump_def completes_def)
qed

section \<open>Branches\<close>

text \<open>Steps that leave the blocks \<open>A\<close> pending besides the current one.\<close>

definition via :: "meaning \<Rightarrow> fnref \<Rightarrow> nat \<Rightarrow> blockref set \<Rightarrow> lower \<Rightarrow> lower \<Rightarrow> bool" where
  "via C f k A L L' \<longleftrightarrow> steps C f L L' \<and> others f L' = A \<and> (\<exists>ls. lw_locals L' = lw_locals L @ ls)
     \<and> length (lw_used L') \<le> length (lw_used L) + k"

lemma via_flows: "flows C f k L L' \<longleftrightarrow> via C f k (others f L) L L'"
  by (simp add: flows_def via_def)

lemma via_trans: "via C f j A a b \<Longrightarrow> via C f k B b c \<Longrightarrow> via C f (j + k) B a c"
  using steps_trans by (fastforce simp: via_def)

lemma via_steps: "via C f k A L L' \<Longrightarrow> steps C f L L'"
  by (simp add: via_def)

lemma via_others: "via C f k A L L' \<Longrightarrow> others f L' = A"
  by (simp add: via_def)

lemma goes_via: "goes C f L L' \<Longrightarrow> via C f 0 (others f L) L L'"
  using goes_flows via_flows by blast

lemma same_via: "steps C f L L' \<Longrightarrow> same_scope L L' \<Longrightarrow> others f L' = A \<Longrightarrow> via C f 0 A L L'"
  by (auto simp: via_def same_scope_def)

text \<open>A new block, while the current one is open.\<close>

lemma fresh_block:
  assumes r: "ready C f L"
  obtains bb L' where "new_block stem L = Some (bb, L')" "ready C f L'" "via C f 0 (insert bb (others f L)) L L'"
    "bb \<notin> others f L" "same_scope L L'" "steps C f L L'"
proof (rule new_block_ready [OF r, of stem], goal_cases)
  case (1 bb L')
  then show ?case using that [of bb L'] same_via [OF 1(4,5,7)] others_block [of bb f L] by auto
qed

text \<open>
  One branch: after the current block is closed, \<open>c\<close> is lowered in block \<open>bb\<close>, and what is left open goes to block \<open>t\<close>.
\<close>

lemma branch:
  assumes cl: "closes C f L L'" and b: "bb \<in> others f L" and t: "t \<in> fblocks (lw_m L) f"
    and c: "\<And>X. ready C f X \<Longrightarrow> steps C f L X \<Longrightarrow> lw_locals X = lw_locals L \<Longrightarrow> lw_used X = lw_used L \<Longrightarrow> completes C f k X (c X)"
  obtains X Y where "c (position bb L') = Some X" "br_unless_closed t X = Some Y" "closes C f X Y" "via C f k (others f L - {bb}) L X"
proof -
  note p = closes_then [OF cl b]
  have sc: "lw_locals (position bb L') = lw_locals L" "lw_used (position bb L') = lw_used L"
    using p(3) by (simp_all add: same_scope_def)
  obtain X where X: "c (position bb L') = Some X" "flows C f k (position bb L') X"
    using c [OF p(1,2) sc] by (auto simp: completes_def)
  have v: "via C f k (others f L - {bb}) L X"
    using via_trans [OF same_via [OF p(2,3,4)] X(2) [unfolded via_flows]] p(4) by simp
  have "t \<in> fblocks (lw_m X) f" using t via_steps [OF v] by (auto simp: steps_def)
  then obtain Y where "br_unless_closed t X = Some Y" "closes C f X Y"
    by (rule br_unless_closed_closes [OF flows_ok [OF X(2)]])
  then show thesis using that X(1) v by blast
qed

lemma closes_via: "closes C f L L' \<Longrightarrow> via C f 0 (others f L) L L'"
  using closes_flows via_flows by blast

lemma then_via:
  assumes "closes C f L L'" and "bb \<in> others f L"
  shows "via C f 0 (others f L - {bb}) L (position bb L')" and "ready C f (position bb L')"
  using closes_then [OF assms] same_via by auto

text \<open>A condition: its value, tested.\<close>

lemma condition_goes:
  assumes r: "ready C f L" and e: "lowerable C e"
  obtains v L1 c L2 where "lower_expr (Some e) L = Some (v, L1)" "to_i1 v L1 = Some (c, L2)" "goes C f L L2"
proof -
  obtain v L1 where v: "lower_expr (Some e) L = Some (v, L1)" "goes C f L L1" "some_val v L1"
    using lower_expr_yields [OF e r] by (auto simp: yields_iff)
  obtain c L2 where "to_i1 v L1 = Some (c, L2)" "goes C f L1 L2"
    using to_i1_yields [OF goes_ready [OF v(2)] v(3)] by (auto simp: yields_iff)
  then show thesis using that v goes_trans by blast
qed

text \<open>Leaving a scope.\<close>

lemma drop_via:
  assumes v: "via C f k A L L'"
  shows "via C f k A L (drop_locals (length (lw_locals L)) L')" and "lw_locals (drop_locals (length (lw_locals L)) L') = lw_locals L"
    and "is_open (drop_locals n L') = is_open L'"
proof -
  obtain ls where ls: "lw_locals L' = lw_locals L @ ls" using v by (auto simp: via_def)
  then show l: "lw_locals (drop_locals (length (lw_locals L)) L') = lw_locals L" by (simp add: drop_locals_def)
  have "lower_ok C f L'" using v by (auto simp: via_def intro: steps_ok)
  then have "lower_ok C f (drop_locals (length (lw_locals L)) L')"
    using ls by (simp add: lower_ok_def env_ok_def drop_locals_def find_named_def find_func_def)
  then show "via C f k A L (drop_locals (length (lw_locals L)) L')"
    using v l by (simp add: via_def steps_def) (simp add: drop_locals_def others_def cur_bb_def)
  show "is_open (drop_locals n L') = is_open L'" by (simp add: drop_locals_def is_open_def cur_bb_def)
qed

section \<open>Loops\<close>

lemma enter_loop_ready:
  assumes r: "ready C f L" and b: "c \<in> fblocks (lw_m L) f" "b \<in> fblocks (lw_m L) f"
  shows "ready C f (enter_loop c b L)" and "others f (enter_loop c b L) = others f L"
  using r b by (auto simp: ready_def lower_ok_def env_ok_def enter_loop_def is_open_def cur_bb_def others_def find_named_def find_func_def)

lemma leave_loop_via:
  assumes v: "via C f k A (enter_loop c b L) L'"
  shows "via C f k A L (leave_loop L')"
proof -
  have l: "lw_loops L' = lw_loops L @ [\<lparr>lp_continue_to = c, lp_break_to = b\<rparr>]" using v by (simp add: via_def steps_def enter_loop_def)
  have "lower_ok C f L'" using v by (auto simp: via_def intro: steps_ok)
  then have "lower_ok C f (leave_loop L')"
    using l by (simp add: lower_ok_def env_ok_def leave_loop_def find_named_def find_func_def)
  then show ?thesis
    using v l by (simp add: via_def steps_def enter_loop_def) (simp add: leave_loop_def others_def cur_bb_def)
qed

lemma position_loop: "position bb (enter_loop c b L) = enter_loop c b (position bb L)" "position bb (leave_loop L) = leave_loop (position bb L)"
  by (simp_all add: position_def enter_loop_def leave_loop_def)

section \<open>Labels\<close>

definition labels_ok :: "meaning \<Rightarrow> match_label list \<Rightarrow> bool" where
  "labels_ok C ls \<longleftrightarrow> (\<forall>l \<in> set ls. \<exists>e. ml_value l = Some e \<and> lowerable C e)"

lemma lower_labels_goes:
  "ready C f L \<Longrightarrow> labels_ok C ls \<Longrightarrow> some_val s L \<Longrightarrow> b \<in> fblocks (lw_m L) f \<Longrightarrow> \<exists>L'. lower_labels s b ls L = Some L' \<and> goes C f L L'"
proof (induction ls arbitrary: L)
  case Nil
  then show ?case by (simp add: goes_refl)
next
  case (Cons l ls)
  obtain e where e: "ml_value l = Some e" "lowerable C e" using Cons.prems(2) by (auto simp: labels_ok_def)
  obtain sv where sv: "s = Some sv" using Cons.prems(3) by (auto elim: some_valE)
  obtain nb L1 where n: "new_block ''match.test'' L = Some (nb, L1)" "ready C f L1" "via C f 0 (insert nb (others f L)) L L1"
    "nb \<notin> others f L" "same_scope L L1" "steps C f L L1"
    by (rule fresh_block [OF Cons.prems(1)])
  obtain v L2 where v: "lower_expr (Some e) L1 = Some (v, L2)" "goes C f L1 L2" "some_val v L2"
    using lower_expr_yields [OF e(2) n(2)] by (auto simp: yields_iff)
  obtain x where x: "v = Some x" using v(3) by (auto elim: some_valE)
  obtain c L3 where c: "build_value (\<lambda>b. ir_build_icmp b IR_ICMP_EQ sv x) L2 = Some (c, L3)" "goes C f L2 L3"
    using yields_build_value [OF build_icmp(1) [OF goes_ready [OF v(2)]], of IR_ICMP_EQ sv x] by (auto simp: yields_iff)
  note g13 = goes_trans [OF v(2) c(2)]
  have st: "steps C f L L3" using steps_trans [OF n(6)] g13 by (auto simp: goes_def)
  have o3: "others f L3 = insert nb (others f L)" using g13 via_others [OF n(3)] by (simp add: goes_def)
  then have nb: "nb \<in> others f L3" by simp
  have b3: "b \<in> fblocks (lw_m L3) f" using Cons.prems(4) st by (auto simp: steps_def)
  obtain L4 where L4: "condbr c b nb L3 = Some L4" "closes C f L3 L4"
    using condbr_step [OF goes_ready [OF g13] b3] others_block [OF nb] by blast
  note p = closes_then [OF L4(2) nb]
  have sc: "same_scope L (position nb L4)" using n(5) g13 p(3) by (simp add: goes_def same_scope_def)
  have "others f (position nb L4) = others f L" using p(4) o3 n(4) by auto
  then have g: "goes C f L (position nb L4)" using steps_trans [OF st p(2)] sc p(1) by (simp add: goes_def ready_def)
  have "b \<in> fblocks (lw_m (position nb L4)) f" "some_val s (position nb L4)" "labels_ok C ls"
    using b3 p(2) goes_some_val [OF g Cons.prems(3)] Cons.prems(2) by (auto simp: steps_def labels_ok_def)
  then obtain L' where "lower_labels s b ls (position nb L4) = Some L'" "goes C f (position nb L4) L'"
    using Cons.IH [OF p(1)] by blast
  then show ?case using goes_trans [OF g] by (simp add: n(1) e(1) v(1) sv x c(1) L4(1))
qed

end
