(* ===== verification/Slop_Lower_Flow.thy ===== *)
theory Slop_Lower_Flow
  imports Slop_Lower_Stmts
begin

text \<open>
  Control flow: the blocks of a branch, a loop and a match, the statements of a tree, functions and programs.
\<close>

section \<open>Branches and loops\<close>

lemma if_runs:
  assumes r: "ready C f L" and e: "lowerable C e"
    and b: "\<And>X. ready C f X \<Longrightarrow> lw_used X = lw_used L \<Longrightarrow> completes C f k X (c X)"
  shows "completes C f k L (do { (then_bb, L) \<leftarrow> new_block ''if.then'' L;
          (end_bb, L) \<leftarrow> new_block ''if.end'' L;
          (v, L) \<leftarrow> lower_expr (Some e) L;
          (cond, L) \<leftarrow> to_i1 v L;
          L \<leftarrow> condbr cond then_bb end_bb L;
          L \<leftarrow> c (position then_bb L);
          L \<leftarrow> br_unless_closed end_bb L;
          Some (position end_bb L) })"
proof -
  obtain t L1 where n1: "new_block ''if.then'' L = Some (t, L1)" "ready C f L1" "via C f 0 (insert t (others f L)) L L1"
    "t \<notin> others f L" "same_scope L L1" "steps C f L L1"
    by (rule fresh_block [OF r])
  obtain n L2 where n2: "new_block ''if.end'' L1 = Some (n, L2)" "ready C f L2" "via C f 0 (insert n (others f L1)) L1 L2"
    "n \<notin> others f L1" "same_scope L1 L2" "steps C f L1 L2"
    by (rule fresh_block [OF n1(2)])
  obtain v L3 x L4 where g: "lower_expr (Some e) L2 = Some (v, L3)" "to_i1 v L3 = Some (x, L4)" "goes C f L2 L4"
    by (rule condition_goes [OF n2(2) e])
  have o4: "others f L4 = insert n (insert t (others f L))" using g(3) via_others [OF n2(3)] via_others [OF n1(3)] by (simp add: goes_def)
  have ne: "t \<noteq> n" "n \<notin> others f L" using n2(4) via_others [OF n1(3)] by auto
  have in4: "t \<in> others f L4" "n \<in> others f L4" using o4 by auto
  have fb: "t \<in> fblocks (lw_m L4) f" "n \<in> fblocks (lw_m L4) f" using others_block in4 by auto
  obtain L5 where c5: "condbr x t n L4 = Some L5" "closes C f L4 L5" using condbr_step [OF goes_ready [OF g(3)] fb] by blast
  have u4: "lw_used L4 = lw_used L" using n1(5) n2(5) g(3) by (simp add: goes_def same_scope_def)
  obtain X Y where b1: "c (position t L5) = Some X" "br_unless_closed n X = Some Y" "closes C f X Y" "via C f k (others f L4 - {t}) L4 X"
    by (rule branch [OF c5(2) in4(1) fb(2), where c = c and k = k]) (use b u4 in auto)
  have inX: "n \<in> others f X" using via_others [OF b1(4)] in4(2) ne by auto
  note e1 = then_via [OF b1(3) inX]
  have oe: "others f X - {n} = others f L" using via_others [OF b1(4)] o4 n1(4) ne by auto
  have "via C f (0 + 0 + 0 + k + 0) (others f L) L (position n Y)"
    using e1(1) unfolding oe by (rule via_trans [OF via_trans [OF via_trans [OF via_trans [OF n1(3) n2(3)] goes_via [OF g(3)]] b1(4)]])
  then show ?thesis by (simp add: n1(1) n2(1) g(1,2) c5(1) b1(1,2) completes_def via_flows)
qed

lemma if_else_runs:
  assumes r: "ready C f L" and e: "lowerable C e"
    and b: "\<And>X. ready C f X \<Longrightarrow> lw_used X = lw_used L \<Longrightarrow> completes C f j X (c X)"
    and d: "\<And>X. ready C f X \<Longrightarrow> length (lw_used X) \<le> length (lw_used L) + j \<Longrightarrow> completes C f k X (d X)"
  shows "completes C f (j + k) L (do { (then_bb, L) \<leftarrow> new_block ''if.then'' L;
          (else_bb, L) \<leftarrow> new_block ''if.else'' L;
          (end_bb, L) \<leftarrow> new_block ''if.end'' L;
          (v, L) \<leftarrow> lower_expr (Some e) L;
          (cond, L) \<leftarrow> to_i1 v L;
          L \<leftarrow> condbr cond then_bb else_bb L;
          L \<leftarrow> c (position then_bb L);
          L \<leftarrow> br_unless_closed end_bb L;
          L \<leftarrow> d (position else_bb L);
          L \<leftarrow> br_unless_closed end_bb L;
          Some (position end_bb L) })"
proof -
  obtain t L1 where n1: "new_block ''if.then'' L = Some (t, L1)" "ready C f L1" "via C f 0 (insert t (others f L)) L L1"
    "t \<notin> others f L" "same_scope L L1" "steps C f L L1"
    by (rule fresh_block [OF r])
  obtain s L1' where n1': "new_block ''if.else'' L1 = Some (s, L1')" "ready C f L1'" "via C f 0 (insert s (others f L1)) L1 L1'"
    "s \<notin> others f L1" "same_scope L1 L1'" "steps C f L1 L1'"
    by (rule fresh_block [OF n1(2)])
  obtain n L2 where n2: "new_block ''if.end'' L1' = Some (n, L2)" "ready C f L2" "via C f 0 (insert n (others f L1')) L1' L2"
    "n \<notin> others f L1'" "same_scope L1' L2" "steps C f L1' L2"
    by (rule fresh_block [OF n1'(2)])
  obtain v L3 x L4 where g: "lower_expr (Some e) L2 = Some (v, L3)" "to_i1 v L3 = Some (x, L4)" "goes C f L2 L4"
    by (rule condition_goes [OF n2(2) e])
  have o1: "others f L1 = insert t (others f L)" "others f L1' = insert s (insert t (others f L))"
    using via_others [OF n1(3)] via_others [OF n1'(3)] by simp_all
  have o4: "others f L4 = insert n (insert s (insert t (others f L)))" using g(3) via_others [OF n2(3)] o1 by (simp add: goes_def)
  have ne: "t \<noteq> n" "s \<noteq> n" "s \<noteq> t" "n \<notin> others f L" "s \<notin> others f L" "t \<notin> others f L" using n1(4) n1'(4) n2(4) o1 by auto
  have in4: "t \<in> others f L4" "s \<in> others f L4" "n \<in> others f L4" using o4 by auto
  have fb: "t \<in> fblocks (lw_m L4) f" "s \<in> fblocks (lw_m L4) f" "n \<in> fblocks (lw_m L4) f" using others_block in4 by auto
  obtain L5 where c5: "condbr x t s L4 = Some L5" "closes C f L4 L5" using condbr_step [OF goes_ready [OF g(3)] fb(1,2)] by blast
  have u4: "lw_used L4 = lw_used L" using n1(5) n1'(5) n2(5) g(3) by (simp add: goes_def same_scope_def)
  obtain X Y where b1: "c (position t L5) = Some X" "br_unless_closed n X = Some Y" "closes C f X Y" "via C f j (others f L4 - {t}) L4 X"
    by (rule branch [OF c5(2) in4(1) fb(3), where c = c and k = j]) (use b u4 in auto)
  have inX: "s \<in> others f X" "n \<in> others f X" using via_others [OF b1(4)] in4 ne by auto
  have uX: "length (lw_used X) \<le> length (lw_used L) + j" using b1(4) u4 by (simp add: via_def)
  obtain X' Y' where b2: "d (position s Y) = Some X'" "br_unless_closed n X' = Some Y'" "closes C f X' Y'"
    "via C f k (others f X - {s}) X X'"
    by (rule branch [OF b1(3) inX(1) conjunct1 [OF others_block [OF inX(2)]], where c = d and k = k]) (use d uX in auto)
  have inX': "n \<in> others f X'" using via_others [OF b2(4)] inX(2) ne by auto
  note e1 = then_via [OF b2(3) inX']
  have oe: "others f X' - {n} = others f L" using via_others [OF b2(4)] via_others [OF b1(4)] o4 ne by auto
  have "via C f (0 + 0 + 0 + 0 + j + k + 0) (others f L) L (position n Y')"
    using e1(1) unfolding oe
    by (rule via_trans [OF via_trans [OF via_trans [OF via_trans [OF via_trans [OF via_trans [OF n1(3) n1'(3)] n2(3)] goes_via [OF g(3)]] b1(4)] b2(4)]])
  then show ?thesis by (simp add: n1(1) n1'(1) n2(1) g(1,2) c5(1) b1(1,2) b2(1,2) completes_def via_flows)
qed

lemma while_runs:
  assumes r: "ready C f L" and e: "lowerable C e"
    and b: "\<And>X. ready C f X \<Longrightarrow> lw_used X = lw_used L \<Longrightarrow> completes C f k X (c X)"
  shows "completes C f k L (do { (cond_bb, L) \<leftarrow> new_block ''while.cond'' L;
          (body_bb, L) \<leftarrow> new_block ''while.body'' L;
          (end_bb, L) \<leftarrow> new_block ''while.end'' L;
          L \<leftarrow> br cond_bb L;
          (v, L) \<leftarrow> lower_expr (Some e) (position cond_bb L);
          (cond, L) \<leftarrow> to_i1 v L;
          L \<leftarrow> condbr cond body_bb end_bb L;
          L \<leftarrow> c (position body_bb (enter_loop cond_bb end_bb L));
          L \<leftarrow> br_unless_closed cond_bb L;
          Some (position end_bb (leave_loop L)) })"
proof -
  obtain t L1 where n1: "new_block ''while.cond'' L = Some (t, L1)" "ready C f L1" "via C f 0 (insert t (others f L)) L L1"
    "t \<notin> others f L" "same_scope L L1" "steps C f L L1"
    by (rule fresh_block [OF r])
  obtain s L1' where n1': "new_block ''while.body'' L1 = Some (s, L1')" "ready C f L1'" "via C f 0 (insert s (others f L1)) L1 L1'"
    "s \<notin> others f L1" "same_scope L1 L1'" "steps C f L1 L1'"
    by (rule fresh_block [OF n1(2)])
  obtain n L2 where n2: "new_block ''while.end'' L1' = Some (n, L2)" "ready C f L2" "via C f 0 (insert n (others f L1')) L1' L2"
    "n \<notin> others f L1'" "same_scope L1' L2" "steps C f L1' L2"
    by (rule fresh_block [OF n1'(2)])
  have o1: "others f L1 = insert t (others f L)" "others f L1' = insert s (insert t (others f L))"
    "others f L2 = insert n (insert s (insert t (others f L)))"
    using via_others [OF n1(3)] via_others [OF n1'(3)] via_others [OF n2(3)] by simp_all
  have ne: "t \<noteq> n" "s \<noteq> n" "s \<noteq> t" "n \<notin> others f L" "s \<notin> others f L" "t \<notin> others f L" using n1(4) n1'(4) n2(4) o1 by auto
  have in2: "t \<in> others f L2" using o1(3) by simp
  obtain L3 where b3: "br t L2 = Some L3" "closes C f L2 L3" using br_step [OF n2(2) conjunct1 [OF others_block [OF in2]]] by blast
  note p3 = then_via [OF b3(2) in2]
  obtain v L4 x L5 where g: "lower_expr (Some e) (position t L3) = Some (v, L4)" "to_i1 v L4 = Some (x, L5)" "goes C f (position t L3) L5"
    by (rule condition_goes [OF p3(2) e])
  have o5: "others f L5 = insert n (insert s (others f L))" using g(3) via_others [OF p3(1)] o1(3) ne by (auto simp: goes_def)
  have in5: "s \<in> others f L5" "n \<in> others f L5" using o5 by auto
  have fb: "s \<in> fblocks (lw_m L5) f" "n \<in> fblocks (lw_m L5) f" using others_block in5 by auto
  obtain L6 where c6: "condbr x s n L5 = Some L6" "closes C f L5 L6" using condbr_step [OF goes_ready [OF g(3)] fb] by blast
  note p6 = then_via [OF c6(2) in5(1)]
  have st: "steps C f L2 (position s L6)"
    using steps_trans [OF via_steps [OF p3(1)] steps_trans [OF _ via_steps [OF p6(1)]]] g(3) by (simp add: goes_def)
  have fb6: "t \<in> fblocks (lw_m (position s L6)) f" "n \<in> fblocks (lw_m (position s L6)) f"
    using others_block [OF in2] st fb(2) via_steps [OF p6(1)] by (auto simp: steps_def)
  let ?E = "enter_loop t n (position s L6)"
  note en = enter_loop_ready [OF p6(2) fb6]
  have u6: "lw_used ?E = lw_used L"
    using n1(5) n1'(5) n2(5) g(3) closes_then(3) [OF b3(2) in2] closes_then(3) [OF c6(2) in5(1)]
    by (simp add: goes_def same_scope_def enter_loop_def)
  obtain X where X: "c ?E = Some X" "via C f k (others f ?E) ?E X" using b [OF en(1) u6] by (auto simp: completes_def via_flows)
  have tX: "t \<in> fblocks (lw_m X) f" using fb6(1) via_steps [OF X(2)] by (auto simp: steps_def enter_loop_def)
  obtain Y where Y: "br_unless_closed t X = Some Y" "closes C f X Y"
    by (rule br_unless_closed_closes [OF steps_ok [OF via_steps [OF X(2)]] tX])
  have inX: "n \<in> others f X" using via_others [OF X(2)] en(2) via_others [OF p6(1)] in5(2) ne by auto
  note e1 = then_via [OF Y(2) inX]
  have oe: "others f X - {n} = others f L" using via_others [OF X(2)] en(2) via_others [OF p6(1)] o5 ne by auto
  have "via C f (k + 0) (others f L) ?E (position n Y)" using via_trans [OF X(2) e1(1)] oe by simp
  then have lv: "via C f k (others f L) (position s L6) (leave_loop (position n Y))" by (intro leave_loop_via) simp
  have "via C f (0 + 0 + 0 + 0 + 0 + 0 + k) (others f L) L (leave_loop (position n Y))"
    by (rule via_trans [OF via_trans [OF via_trans [OF via_trans [OF via_trans [OF via_trans [OF n1(3) n1'(3)] n2(3)] p3(1)] goes_via [OF g(3)]] p6(1)] lv])
  then show ?thesis
    by (simp add: n1(1) n1'(1) n2(1) b3(1) g(1,2) c6(1) position_loop(1) X(1) Y(1) position_loop(2) completes_def via_flows)
qed

section \<open>Match\<close>

lemma open_pending: "ready C f L \<Longrightarrow> pending (lw_m L) f = insert (cur_bb L) (others f L)"
  using readyD(7) by (auto simp: ready_def others_def pending_def is_open_def)

text \<open>One arm: its tests, its body, and back to where the tests left off.\<close>

lemma arm_step:
  assumes r: "ready C f L" and s: "some_val s L" and n: "n \<in> fblocks (lw_m L) f"
    and ls: "w \<or> labels_ok C ls" and b: "\<And>X. ready C f X \<Longrightarrow> lw_used X = lw_used L \<Longrightarrow> completes C f k X (c X)"
  obtains bb L1 L2 p X Y L3 where "new_block ''match.arm'' L = Some (bb, L1)" "(if w then Some L1 else lower_labels s bb ls L1) = Some L2"
    "ib_block (lw_b L2) = Some p" "c (position bb L2) = Some X" "br_unless_closed n X = Some Y"
    "position p (drop_locals (length (lw_locals L2)) Y) = L3" "ready C f L3" "via C f k (others f L) L L3" "lw_locals L3 = lw_locals L"
    "bb \<in> fblocks (lw_m L3) f"
proof -
  obtain bb L1 where n1: "new_block ''match.arm'' L = Some (bb, L1)" "ready C f L1" "via C f 0 (insert bb (others f L)) L L1"
    "bb \<notin> others f L" "same_scope L L1" "steps C f L L1"
    by (rule fresh_block [OF r])
  have bb1: "bb \<in> fblocks (lw_m L1) f" using others_block [of bb f L1] via_others [OF n1(3)] by auto
  obtain L2 where L2: "(if w then Some L1 else lower_labels s bb ls L1) = Some L2" "goes C f L1 L2"
  proof (cases w)
    case True
    then show thesis using that goes_refl [OF n1(2)] by auto
  next
    case False
    then show thesis using that lower_labels_goes [OF n1(2) _ steps_some_val [OF n1(6) s] bb1] ls by auto
  qed
  have r2: "ready C f L2" using goes_ready [OF L2(2)] .
  have o2: "others f L2 = insert bb (others f L)" using L2(2) via_others [OF n1(3)] by (simp add: goes_def)
  let ?p = "cur_bb L2"
  have np: "?p \<notin> others f L" "?p \<noteq> bb" using o2 by (auto simp: others_def)
  have pn: "pending (lw_m L2) f = insert ?p (insert bb (others f L))" using open_pending [OF r2] o2 by simp
  have lo2: "lower_ok C f L2" using r2 by (simp add: ready_def)
  have bp: "bb \<in> pending (lw_m L2) f" using pn by simp
  note ps = position_step [OF lo2 bp]
  have ob: "others f (position bb L2) = insert ?p (others f L)" using ps(5) pn n1(4) np by auto
  have sc: "same_scope L (position bb L2)" using n1(5) L2(2) ps(3) by (simp add: goes_def same_scope_def)
  obtain X where X: "c (position bb L2) = Some X" "via C f k (others f (position bb L2)) (position bb L2) X"
    using b [OF ps(1)] sc by (auto simp: completes_def via_flows same_scope_def)
  have st: "steps C f L X"
    using steps_trans [OF n1(6) steps_trans [OF _ steps_trans [OF ps(2) via_steps [OF X(2)]]]] L2(2) by (simp add: goes_def)
  have "n \<in> fblocks (lw_m X) f" using n st by (auto simp: steps_def)
  then obtain Y where Y: "br_unless_closed n X = Some Y" "closes C f X Y"
    by (rule br_unless_closed_closes [OF steps_ok [OF st]])
  have vY: "via C f k (insert ?p (others f L)) L2 Y"
    using via_trans [OF via_trans [OF same_via [OF ps(2,3) refl] X(2)] closes_via [OF Y(2)]] via_others [OF X(2)] ob by simp
  let ?D = "drop_locals (length (lw_locals L2)) Y"
  note d = drop_via [OF vY]
  have cl: "\<not> is_open ?D" using d(3) Y(2) by (simp add: closes_def)
  have pD: "pending (lw_m ?D) f = insert ?p (others f L)" using closed_pending [OF cl] via_others [OF d(1)] by simp
  have pin: "?p \<in> pending (lw_m ?D) f" using pD by simp
  note pr = position_step [OF steps_ok [OF via_steps [OF d(1)]] pin]
  have vL3: "via C f k (others f L) L2 (position ?p ?D)"
    using via_trans [OF d(1) same_via [OF pr(2,3) refl]] pr(5) pD np(1) by simp
  have v: "via C f k (others f L) L (position ?p ?D)"
    using via_trans [OF via_trans [OF n1(3) goes_via [OF L2(2)]] vL3] by simp
  have lc: "lw_locals (position ?p ?D) = lw_locals L" using pr(3) d(2) n1(5) L2(2) by (simp add: same_scope_def goes_def)
  have "bb \<in> fblocks (lw_m (position ?p ?D)) f" using bp via_steps [OF vL3] by (auto simp: pending_def steps_def)
  then show thesis using that [OF n1(1) L2(1) readyD(6) [OF r2] X(1) Y(1) refl pr(1) v lc] by blast
qed

section \<open>The statements of a checked program\<close>

fun ok_stmt :: "meaning \<Rightarrow> stmt \<Rightarrow> bool" and ok_block :: "meaning \<Rightarrow> block \<Rightarrow> bool"
  and ok_stmts :: "meaning \<Rightarrow> stmt list \<Rightarrow> bool" and ok_arms :: "meaning \<Rightarrow> match_arm list \<Rightarrow> bool" where
  "ok_stmt C (STMT_BLOCK pos b) = ok_block C b"
| "ok_stmt C (STMT_VAR pos m t n i) = var_ok C t n i"
| "ok_stmt C (STMT_IF pos c b None) = ((\<exists>e. c = Some e \<and> lowerable C e) \<and> ok_block C b)"
| "ok_stmt C (STMT_IF pos c b (Some s)) = ((\<exists>e. c = Some e \<and> lowerable C e) \<and> ok_block C b \<and> ok_stmt C s)"
| "ok_stmt C (STMT_WHILE pos c b) = ((\<exists>e. c = Some e \<and> lowerable C e) \<and> ok_block C b)"
| "ok_stmt C (STMT_MATCH pos x arms) = ((\<exists>e. x = Some e \<and> lowerable C e) \<and> ok_arms C arms)"
| "ok_stmt C (STMT_ASSIGN pos e op v) = (\<exists>x. v = Some x \<and> assign_ok C e x)"
| "ok_stmt C (STMT_EXPR pos e) = effect_ok C e"
| "ok_stmt C (STMT_EMPTY pos) = True"
| "ok_stmt C (STMT_RETURN pos v) = (\<forall>e. v = Some e \<longrightarrow> lowerable C e)"
| "ok_stmt C (STMT_BREAK pos) = True"
| "ok_stmt C (STMT_CONTINUE pos) = True"
| "ok_block C (Block ss pos) = ok_stmts C ss"
| "ok_stmts C [] = True"
| "ok_stmts C (s # ss) = (ok_stmt C s \<and> ok_stmts C ss)"
| "ok_arms C [] = True"
| "ok_arms C (MatchArm pos ls body # arms) = ((list_ex ml_is_wildcard ls \<or> labels_ok C ls) \<and> ok_stmt C body \<and> ok_arms C arms)"

text \<open>How many variables are declared: each takes a name.\<close>

fun vars_stmt :: "stmt \<Rightarrow> nat" and vars_block :: "block \<Rightarrow> nat" and vars_stmts :: "stmt list \<Rightarrow> nat" and vars_arms :: "match_arm list \<Rightarrow> nat" where
  "vars_stmt (STMT_BLOCK pos b) = vars_block b"
| "vars_stmt (STMT_VAR pos m t n i) = 1"
| "vars_stmt (STMT_IF pos c b None) = vars_block b"
| "vars_stmt (STMT_IF pos c b (Some s)) = vars_block b + vars_stmt s"
| "vars_stmt (STMT_WHILE pos c b) = vars_block b"
| "vars_stmt (STMT_MATCH pos x arms) = vars_arms arms"
| "vars_stmt s = 0"
| "vars_block (Block ss pos) = vars_stmts ss"
| "vars_stmts [] = 0"
| "vars_stmts (s # ss) = vars_stmt s + vars_stmts ss"
| "vars_arms [] = 0"
| "vars_arms (MatchArm pos ls body # arms) = vars_stmt body + vars_arms arms"

definition room :: "nat \<Rightarrow> lower \<Rightarrow> bool" where
  "room k L \<longleftrightarrow> length (lw_used L) + k < 2 ^ 32"

text \<open>What the arms leave: the same other blocks, a block to go to when no label matched.\<close>

definition arms_run :: "meaning \<Rightarrow> fnref \<Rightarrow> nat \<Rightarrow> lower \<Rightarrow> (blockref option \<times> lower) option \<Rightarrow> bool" where
  "arms_run C f k L m \<longleftrightarrow> (\<exists>w L'. m = Some (w, L') \<and> ready C f L' \<and> via C f k (others f L) L L' \<and> lw_locals L' = lw_locals L
     \<and> (\<forall>b. w = Some b \<longrightarrow> b \<in> fblocks (lw_m L') f))"

lemma arms_Cons:
  assumes r: "ready C f L" and s: "some_val s L" and n: "n \<in> fblocks (lw_m L) f" and w: "\<forall>b. w = Some b \<longrightarrow> b \<in> fblocks (lw_m L) f"
    and ls: "list_ex ml_is_wildcard ls \<or> labels_ok C ls"
    and b: "\<And>X. ready C f X \<Longrightarrow> lw_used X = lw_used L \<Longrightarrow> completes C f j X (lower_stmt body X)"
    and a: "\<And>X w. ready C f X \<Longrightarrow> some_val s X \<Longrightarrow> n \<in> fblocks (lw_m X) f \<Longrightarrow> \<forall>b. w = Some b \<longrightarrow> b \<in> fblocks (lw_m X) f
      \<Longrightarrow> length (lw_used X) \<le> length (lw_used L) + j \<Longrightarrow> arms_run C f k X (lower_arms s n w arms X)"
  shows "arms_run C f (j + k) L (lower_arms s n w (MatchArm pos ls body # arms) L)"
proof -
  let ?w = "list_ex ml_is_wildcard ls"
  obtain bb L1 L2 p X Y L3 where st: "new_block ''match.arm'' L = Some (bb, L1)" "(if ?w then Some L1 else lower_labels s bb ls L1) = Some L2"
    "ib_block (lw_b L2) = Some p" "lower_stmt body (position bb L2) = Some X" "br_unless_closed n X = Some Y"
    "position p (drop_locals (length (lw_locals L2)) Y) = L3" and r3: "ready C f L3" and v: "via C f j (others f L) L L3"
    and l3: "lw_locals L3 = lw_locals L" and bb: "bb \<in> fblocks (lw_m L3) f"
    by (rule arm_step [OF r s n ls, where c = "lower_stmt body" and k = j]) (use b in auto)
  have fb: "fblocks (lw_m L) f \<subseteq> fblocks (lw_m L3) f" using via_steps [OF v] by (simp add: steps_def)
  have "arms_run C f k L3 (lower_arms s n (if ?w then Some bb else w) arms L3)"
    by (rule a [OF r3 steps_some_val [OF via_steps [OF v] s]]) (use n w fb bb v in \<open>auto simp: via_def\<close>)
  then obtain w' L' where e: "lower_arms s n (if ?w then Some bb else w) arms L3 = Some (w', L')" "ready C f L'"
    "via C f k (others f L3) L3 L'" "lw_locals L' = lw_locals L3" "\<forall>b. w' = Some b \<longrightarrow> b \<in> fblocks (lw_m L') f"
    by (auto simp: arms_run_def)
  have "via C f (j + k) (others f L) L L'" using via_trans [OF v e(3)] via_others [OF v] by simp
  then show ?thesis using e l3 by (auto simp: arms_run_def st Let_def)
qed

lemma match_runs:
  assumes r: "ready C f L" and e: "lowerable C e"
    and a: "\<And>X s n. ready C f X \<Longrightarrow> some_val s X \<Longrightarrow> n \<in> fblocks (lw_m X) f \<Longrightarrow> lw_used X = lw_used L \<Longrightarrow> arms_run C f k X (lower_arms s n None arms X)"
  shows "completes C f k L (do { (scrutinee, L) \<leftarrow> lower_expr (Some e) L;
          (end_bb, L) \<leftarrow> new_block ''match.end'' L;
          (wildcard_bb, L) \<leftarrow> lower_arms scrutinee end_bb None arms L;
          L \<leftarrow> br (case wildcard_bb of Some bb \<Rightarrow> bb | None \<Rightarrow> end_bb) L;
          Some (position end_bb L) })"
proof -
  obtain s L1 where e1: "lower_expr (Some e) L = Some (s, L1)" "goes C f L L1" "some_val s L1"
    using lower_expr_yields [OF e r] by (auto simp: yields_iff)
  obtain n L2 where n2: "new_block ''match.end'' L1 = Some (n, L2)" "ready C f L2" "via C f 0 (insert n (others f L1)) L1 L2"
    "n \<notin> others f L1" "same_scope L1 L2" "steps C f L1 L2"
    by (rule fresh_block [OF goes_ready [OF e1(2)]])
  have in2: "n \<in> others f L2" using via_others [OF n2(3)] by simp
  have u2: "lw_used L2 = lw_used L" using e1(2) n2(5) by (simp add: goes_def same_scope_def)
  obtain w L3 where a3: "lower_arms s n None arms L2 = Some (w, L3)" "ready C f L3" "via C f k (others f L2) L2 L3"
    "\<forall>b. w = Some b \<longrightarrow> b \<in> fblocks (lw_m L3) f"
    using a [OF n2(2) steps_some_val [OF n2(6) e1(3)] conjunct1 [OF others_block [OF in2]] u2] by (auto simp: arms_run_def)
  have in3: "n \<in> others f L3" using via_others [OF a3(3)] in2 by simp
  have "(case w of Some bb \<Rightarrow> bb | None \<Rightarrow> n) \<in> fblocks (lw_m L3) f" using a3(4) others_block [OF in3] by (simp split: option.split)
  then obtain L4 where b4: "br (case w of Some bb \<Rightarrow> bb | None \<Rightarrow> n) L3 = Some L4" "closes C f L3 L4" using br_step [OF a3(2)] by blast
  note p = then_via [OF b4(2) in3]
  have oe: "others f L3 - {n} = others f L" using via_others [OF a3(3)] via_others [OF n2(3)] n2(4) e1(2) by (auto simp: goes_def)
  have "via C f (0 + 0 + k + 0) (others f L) L (position n L4)"
    using p(1) unfolding oe by (rule via_trans [OF via_trans [OF via_trans [OF goes_via [OF e1(2)] n2(3)] a3(3)]])
  then show ?thesis by (simp add: e1(1) n2(1) a3(1) b4(1) completes_def via_flows)
qed

lemma room_ready: "room k L \<Longrightarrow> lw_used X = lw_used L \<Longrightarrow> room k X"
  by (simp add: room_def)

lemma room_le: "room (j + k) L \<Longrightarrow> length (lw_used X) \<le> length (lw_used L) + j \<Longrightarrow> room k X"
  by (simp add: room_def)

lemma block_runs:
  assumes "\<And>X. lower_ok C f X \<Longrightarrow> lw_used X = lw_used L \<Longrightarrow> lw_locals X = lw_locals L \<Longrightarrow> X = L \<Longrightarrow> completes C f k X (c X)" and "lower_ok C f L"
  shows "completes C f k L (do { L' \<leftarrow> c L; Some (drop_locals (length (lw_locals L)) L') })"
  using assms(1) [of L] assms(2) drop_via(1) by (fastforce simp: completes_def via_flows)

lemma readyI: "ready C f L \<Longrightarrow> lower_ok C f L"
  by (simp add: ready_def)

lemma lowered_stmts:
  shows "\<And>L. lower_ok C f L \<Longrightarrow> ok_stmt C s \<Longrightarrow> room (vars_stmt s) L \<Longrightarrow> completes C f (vars_stmt s) L (lower_stmt s L)"
    and "\<And>L. lower_ok C f L \<Longrightarrow> ok_block C b \<Longrightarrow> room (vars_block b) L \<Longrightarrow> completes C f (vars_block b) L (lower_block b L)"
    and "\<And>L. lower_ok C f L \<Longrightarrow> ok_stmts C ss \<Longrightarrow> room (vars_stmts ss) L \<Longrightarrow> completes C f (vars_stmts ss) L (lower_stmts ss L)"
    and "\<And>L x n w. ready C f L \<Longrightarrow> some_val x L \<Longrightarrow> n \<in> fblocks (lw_m L) f \<Longrightarrow> \<forall>b. w = Some b \<longrightarrow> b \<in> fblocks (lw_m L) f
      \<Longrightarrow> ok_arms C as \<Longrightarrow> room (vars_arms as) L \<Longrightarrow> arms_run C f (vars_arms as) L (lower_arms x n w as L)"
proof (induction C s and C b and C ss and C as rule: ok_stmt_ok_block_ok_stmts_ok_arms.induct)
  case (1 C pos b)
  show ?case
    unfolding lower_stmt.simps Let_def
  proof (rule completes_open [OF 1(2)], rule block_runs)
    fix L' X assume "lower_ok C f X" "X = L'" "lw_used L' = lw_used L"
    then show "completes C f (vars_stmt (STMT_BLOCK pos b)) X (lower_block b X)" using 1 by (simp add: room_def)
  qed (rule readyI)
next
  case (2 C pos m t n i)
  show ?case
    unfolding lower_stmt.simps vars_stmt.simps
    by (rule completes_open [OF 2(1)], rule lower_var_runs) (use 2 in \<open>simp_all add: room_def\<close>)
next
  case (3 C pos c b)
  then obtain e where e: "c = Some e" "lowerable C e" by auto
  show ?case
    unfolding lower_stmt.simps e(1)
    by (rule completes_open [OF 3(2)], rule if_runs [OF _ e(2)], assumption) (use 3 in \<open>auto simp: room_def readyI\<close>)
next
  case (4 C pos c b s)
  then obtain e where e: "c = Some e" "lowerable C e" by auto
  show ?case
    unfolding lower_stmt.simps vars_stmt.simps e(1)
    by (rule completes_open [OF 4(3)], rule if_else_runs [OF _ e(2)], assumption) (use 4 in \<open>auto simp: room_def readyI\<close>)
next
  case (5 C pos c b)
  then obtain e where e: "c = Some e" "lowerable C e" by auto
  show ?case
    unfolding lower_stmt.simps e(1)
    by (rule completes_open [OF 5(2)], rule while_runs [OF _ e(2)], assumption) (use 5 in \<open>auto simp: room_def readyI\<close>)
next
  case (6 C pos x arms)
  then obtain e where e: "x = Some e" "lowerable C e" by auto
  show ?case
    unfolding lower_stmt.simps e(1)
    by (rule completes_open [OF 6(2)], rule match_runs [OF _ e(2)], assumption) (use 6 in \<open>auto simp: room_def readyI\<close>)
next
  case (7 C pos e op v)
  then obtain x where x: "v = Some x" "assign_ok C e x" by auto
  show ?case
    unfolding lower_stmt.simps x(1) vars_stmt.simps
    by (rule completes_open [OF 7(1)], rule proceeds_completes, rule lower_assign_runs [OF _ x(2)])
next
  case (8 C pos e)
  then have e: "effect_ok C e" by simp
  show ?case
    unfolding lower_stmt.simps vars_stmt.simps
    by (rule completes_open [OF 8(1)], rule completes_bind [OF effect_yields [OF _ e]], assumption) (simp add: completes_Some goes_flows goes_refl)
next
  case (9 C pos)
  show ?case
    using ensure_open_flows [OF 9(1)] by (auto simp: completes_def)
next
  case (10 C pos v)
  show ?case
    unfolding lower_stmt.simps vars_stmt.simps
    by (rule completes_open [OF 10(1)], rule lower_return_runs) (use 10 in simp_all)
next
  case (11 C pos)
  show ?case
    unfolding lower_stmt.simps vars_stmt.simps
    by (rule completes_open [OF 11(1)], rule lower_jump_runs) (auto simp: ready_def lower_ok_def)
next
  case (12 C pos)
  show ?case
    unfolding lower_stmt.simps vars_stmt.simps
    by (rule completes_open [OF 12(1)], rule lower_jump_runs) (auto simp: ready_def lower_ok_def)
next
  case (13 C ss pos)
  show ?case
    unfolding lower_block.simps Let_def by (rule block_runs) (use 13 in auto)
next
  case (14 C)
  then show ?case using steps_refl by (auto simp: completes_def flows_def)
next
  case (15 C s ss)
  show ?case
    unfolding lower_stmts.simps vars_stmts.simps
  proof (rule completes_then)
    show "completes C f (vars_stmt s) L (lower_stmt s L)" using 15 by (simp add: room_def)
    fix L' assume f: "flows C f (vars_stmt s) L L'"
    then have "length (lw_used L') \<le> length (lw_used L) + vars_stmt s" by (simp add: flows_def)
    then show "completes C f (vars_stmts ss) L' (lower_stmts ss L')" using 15 flows_ok [OF f] by (simp add: room_def)
  qed
next
  case (16 C)
  then show ?case using steps_refl [OF readyI [OF 16(1)]] by (auto simp: arms_run_def via_def)
next
  case (17 C pos ls body arms)
  show ?case
    unfolding vars_arms.simps
    by (rule arms_Cons [OF 17(3,4,5,6)]) (use 17 in \<open>auto simp: room_def readyI\<close>)
qed

end
