(* ===== verification/Slop_Lower_Program.thy ===== *)
theory Slop_Lower_Program
  imports Slop_Lower_Flow
begin

text \<open>
  Functions and programs: what \<open>lower_function\<close> makes of a checked function, and \<open>lower_programs\<close> of a checked
  program.
\<close>

section \<open>Functions that are made of closed blocks\<close>

text \<open>A block of function \<open>f\<close> that ends in its only terminator, and only branches inside \<open>f\<close>.\<close>

definition closed_block :: "ir_module \<Rightarrow> fnref \<Rightarrow> blockref \<Rightarrow> bool" where
  "closed_block m f b \<longleftrightarrow> b < length (im_blocks m) \<and> bl_parent (blk_obj m b) = f
     \<and> (\<exists>is t. bl_instrs (blk_obj m b) = is @ [t] \<and> plain is \<and> is_terminator (in_op t) \<and> targets t \<subseteq> fblocks m f)"

definition well_formed :: "ir_module \<Rightarrow> fnref \<Rightarrow> bool" where
  "well_formed m f \<longleftrightarrow> fblocks m f \<noteq> {} \<and> (\<forall>b \<in> fblocks m f. closed_block m f b)"

lemma well_formedI:
  assumes "body_ok m f" and "pending m f = {}" and "fblocks m f \<noteq> {}"
  shows "well_formed m f"
proof -
  have "closed_block m f b" if b: "b \<in> fblocks m f" for b
  proof -
    have k: "body_block m f b" using assms(1) b by (simp add: body_ok_def)
    have "ir_block_is_terminated (blk_obj m b)" using assms(2) b by (auto simp: pending_def closed_def)
    then obtain "is" t where "bl_instrs (blk_obj m b) = is @ [t]" "is_terminator (in_op t)"
      by (cases "bl_instrs (blk_obj m b)" rule: rev_cases) (auto simp: ir_block_is_terminated_def)
    then show ?thesis using k by (auto simp: closed_block_def body_block_def)
  qed
  then show ?thesis using assms(3) by (simp add: well_formed_def)
qed

lemma grows_other:
  assumes g: "grows f m m'" and h: "h < length (im_functions m)" "h \<noteq> f"
  shows "fblocks m' h = fblocks m h" and "well_formed m h \<Longrightarrow> well_formed m' h"
proof -
  show fb: "fblocks m' h = fblocks m h" using g h by (simp add: grows_def fblocks_def)
  show "well_formed m' h" if w: "well_formed m h"
  proof -
    have "closed_block m' h b" if b: "b \<in> fblocks m h" for b
    proof -
      have c: "closed_block m h b" using w b by (simp add: well_formed_def)
      then have "blk_obj m' b = blk_obj m b" "b < length (im_blocks m')" using g h(2) by (auto simp: grows_def closed_block_def)
      then show ?thesis using c fb by (simp add: closed_block_def)
    qed
    then show ?thesis using w fb by (simp add: well_formed_def)
  qed
qed

section \<open>One function\<close>

text \<open>Between two functions.\<close>

definition between :: "meaning \<Rightarrow> lower \<Rightarrow> bool" where
  "between C L \<longleftrightarrow> module_typed (lw_m L) \<and> env_ok C (L\<lparr>lw_locals := []\<rparr>)"

definition enter_function :: "fnref \<Rightarrow> lower \<Rightarrow> lower" where
  "enter_function f L =
     (let (bb, L) = in_module (\<lambda>m. ir_block_new m f ''entry'') (L\<lparr>lw_cur := Some f, lw_locals := [], lw_loops := [], lw_used := []\<rparr>) in
      position bb L)"

lemma enter_function_ready:
  assumes b: "between C L" and f: "f < length (im_functions (lw_m L))" and e: "if_blocks (fn_obj (lw_m L) f) = []"
  defines "X \<equiv> enter_function f L"
  shows "ready C f X" and "others f X = {}" and "grows f (lw_m L) (lw_m X)" and "lw_used X = []" and "lw_locals X = []"
    and "lw_funcs X = lw_funcs L" and "lw_errors X = lw_errors L" and "lw_stderr X = lw_stderr L"
proof -
  let ?bb = "length (im_blocks (lw_m L))"
  let ?B = "\<lparr>bl_name = ''entry'', bl_instrs = [], bl_parent = f\<rparr>"
  let ?m = "fn_set f (\<lambda>x. x\<lparr>if_blocks := if_blocks x @ [?bb]\<rparr>) ((lw_m L)\<lparr>im_blocks := im_blocks (lw_m L) @ [?B]\<rparr>)"
  let ?L = "L\<lparr>lw_cur := Some f, lw_locals := [], lw_loops := [], lw_used := []\<rparr>"
  have X: "X = position ?bb (?L\<lparr>lw_b := (lw_b L)\<lparr>ib_module := ?m\<rparr>\<rparr>)"
    by (simp add: X_def enter_function_def in_module_eq ir_block_new_def Let_def)
  have ok: "module_typed (lw_m L)" and env: "env_ok C (L\<lparr>lw_locals := []\<rparr>)" using b by (auto simp: between_def)
  have fo: "fn_obj ?m g = (if g = f then (fn_obj (lw_m L) f)\<lparr>if_blocks := [?bb]\<rparr> else fn_obj (lw_m L) g)" for g
    using f e by (simp add: fn_set_def fn_obj_def)
  have bo: "blk_obj ?m k = (if k = ?bb then ?B else blk_obj (lw_m L) k)" if "k \<le> ?bb" for k
    using that by (simp add: fn_set_def blk_obj_def nth_append)
  have l: "im_types ?m = im_types (lw_m L)" "im_values ?m = im_values (lw_m L)" "length (im_functions ?m) = length (im_functions (lw_m L))"
    "im_ty_void ?m = im_ty_void (lw_m L)" "basic_types ?m = basic_types (lw_m L)" "length (im_blocks ?m) = Suc ?bb"
    by (simp_all add: fn_set_def basic_types_def)
  have gr: "grows f (lw_m L) ?m" using l bo fo by (simp add: grows_def val_obj_def same_sig_def)
  have mok: "module_typed ?m" by (rule module_typed_grows [OF ok gr]) (use module_types [OF ok] l in auto)
  have m: "lw_m X = ?m" by (simp add: X position_def ir_builder_position_def)
  have fb: "fblocks ?m f = {?bb}" by (simp add: fblocks_def fo)
  have c: "cur_bb X = ?bb" by (simp add: cur_bb_def X position_def ir_builder_position_def)
  have body: "body_ok ?m f" using f l fb bo [of ?bb] by (simp add: body_ok_def body_block_def plain_def)
  have "env_ok C X"
  proof (rule env_ok_grows [OF env])
    show "grows f (lw_m (L\<lparr>lw_locals := []\<rparr>)) (lw_m X)" using gr m by simp
    then show "runtime_ok (lw_m X) (lw_memcpy X)" "runtime_ok (lw_m X) (lw_memset X)"
      using runtime_ok_grows [OF gr] env m by (simp_all add: env_ok_def X position_def)
    show "module_typed (lw_m (L\<lparr>lw_locals := []\<rparr>))" using ok by simp
  qed (simp_all add: X position_def)
  moreover have "ib_fn (lw_b X) = Some f" "lw_cur X = Some f" "lw_loops X = []" "ib_block (lw_b X) = Some ?bb"
    using bo [of ?bb] by (simp_all add: X position_def ir_builder_position_def)
  ultimately have "lower_ok C f X" using mok body fb m by (simp add: lower_ok_def)
  moreover have "is_open X" using bo [of ?bb] by (simp add: is_open_def closed_def m c ir_block_is_terminated_def)
  ultimately show "ready C f X" by (simp add: ready_def)
  show "others f X = {}" by (auto simp: others_def pending_def m fb c)
  show "grows f (lw_m L) (lw_m X)" using gr m by simp
  show "lw_used X = []" "lw_locals X = []" "lw_funcs X = lw_funcs L" "lw_errors X = lw_errors L" "lw_stderr X = lw_stderr L"
    by (simp_all add: X position_def)
qed

lemma lower_params_runs:
  "ready C f L \<Longrightarrow> \<forall>p \<in> set ps. value_type (mn_types C) (pr_type p) \<Longrightarrow> room (length ps) L \<Longrightarrow> completes C f (length ps) L (lower_params g i ps L)
     \<and> (\<forall>L'. lower_params g i ps L = Some L' \<longrightarrow> is_open L')"
proof (induction ps arbitrary: i L)
  case Nil
  then show ?case using goes_flows [OF goes_refl] by (auto simp: completes_def ready_def)
next
  case (Cons p ps)
  let ?t = "fst (ir_of_ast_type (pr_type p) L)"
  let ?L1 = "snd (ir_of_ast_type (pr_type p) L)"
  let ?n = "take 127 (pr_name p @ ''.addr'')"
  note r = Cons.prems(1)
  have g1: "goes C f L ?L1" using ast_type_goes(1) [OF r] .
  have t1: "nonvoid (lw_m ?L1) ?t" using ast_type_goes(3) [OF r] Cons.prems(2) by simp
  have s: "short_name ?n" by (simp add: short_name_def)
  have u1: "lw_used ?L1 = lw_used L" using g1 by (simp add: goes_def same_scope_def)
  have u: "length (lw_used ?L1) < 2 ^ 32" using Cons.prems(3) u1 by (simp add: room_def)
  obtain j where j: "unique_name ?n ?L1 = Some (slot_name ?n j, ?L1\<lparr>lw_used := lw_used ?L1 @ [slot_name ?n j]\<rparr>)"
    by (rule unique_name_finds [OF s u])
  let ?L2 = "?L1\<lparr>lw_used := lw_used ?L1 @ [slot_name ?n j]\<rparr>"
  note f2 = used_flows [OF goes_ready [OF g1], of "slot_name ?n j"]
  obtain a L3 where a: "build_value (\<lambda>b. ir_build_alloca b ?t (Some (slot_name ?n j))) ?L2 = Some (a, L3)" "goes C f ?L2 L3" "is_val (lw_m L3) a"
    using build_alloca [OF f2(2), of ?t "slot_name ?n j"] by (auto simp: yields_iff)
  obtain L4 where st: "store (if_params (fn_obj (lw_m L3) g) ! i) a L3 = Some L4" "goes C f L3 L4" using store_goes [OF goes_ready [OF a(2)]] by blast
  let ?L5 = "push_local (pr_name p) a ?t None L4"
  have f14: "flows C f 1 ?L1 L4" using flows_trans [OF f2(1) goes_flows [OF goes_trans [OF a(2) st(2)]]] by simp
  have f5: "flows C f 0 L4 ?L5"
    by (rule push_local_flows [OF goes_ready [OF st(2)] goes_val [OF st(2) a(3)] flows_nonvoid [OF f14 t1]])
  have fl: "flows C f 1 L ?L5" using flows_trans [OF goes_flows [OF g1] flows_trans [OF f14 f5]] by simp
  have "is_open ?L5" using goes_ready [OF st(2)] by (simp add: ready_def is_open_def cur_bb_def push_local_def)
  then have r5: "ready C f ?L5" using flows_ok [OF f5] by (simp add: ready_def)
  have "room (length ps) ?L5" using fl Cons.prems(3) by (simp add: room_def flows_def)
  then have ih: "completes C f (length ps) ?L5 (lower_params g (i + 1) ps ?L5) \<and> (\<forall>L'. lower_params g (i + 1) ps ?L5 = Some L' \<longrightarrow> is_open L')"
    using Cons.IH [OF r5] Cons.prems(2) by simp
  then obtain L6 where L6: "lower_params g (i + 1) ps ?L5 = Some L6" "flows C f (length ps) ?L5 L6" "is_open L6"
    by (auto simp: completes_def)
  have "lower_params g i (p # ps) L = Some L6" using j a(1) st(1) L6(1) by (simp add: split_def Let_def)
  then show ?case using flows_trans [OF fl L6(2)] L6(3) by (simp add: completes_def)
qed

definition ok_fn :: "meaning \<Rightarrow> fn_decl \<Rightarrow> bool" where
  "ok_fn C fn \<longleftrightarrow> (\<forall>p \<in> set (fn_params fn). value_type (mn_types C) (pr_type p)) \<and> ok_block C (fn_body fn)
     \<and> length (fn_params fn) + vars_block (fn_body fn) < 2 ^ 32"

lemma steps_between: "steps C f X L \<Longrightarrow> between C L"
proof -
  assume "steps C f X L"
  then have "lower_ok C f L" by (rule steps_ok)
  then show ?thesis by (simp add: lower_ok_def between_def env_ok_def find_named_def find_func_def)
qed

lemma lower_function_total:
  assumes b: "between C L" and f: "f < length (im_functions (lw_m L))" and e: "if_blocks (fn_obj (lw_m L) f) = []" and fn: "ok_fn C fn"
  obtains L' where "lower_function fn f L = Some L'" "between C L'" "grows f (lw_m L) (lw_m L')" "well_formed (lw_m L') f"
    "lw_funcs L' = lw_funcs L"
proof -
  let ?X = "enter_function f L"
  note x = enter_function_ready [OF b f e]
  have ps: "\<forall>p \<in> set (fn_params fn). value_type (mn_types C) (pr_type p)" and bd: "ok_block C (fn_body fn)" using fn by (auto simp: ok_fn_def)
  have rm: "room (length (fn_params fn)) ?X" using fn x(4) by (simp add: ok_fn_def room_def)
  obtain L1 where L1: "lower_params f 0 (fn_params fn) ?X = Some L1" "flows C f (length (fn_params fn)) ?X L1"
    using lower_params_runs [OF x(1) ps rm, of f 0] by (auto simp: completes_def)
  have "room (vars_block (fn_body fn)) L1" using L1(2) x(4) fn by (simp add: room_def flows_def ok_fn_def)
  then obtain L2 where L2: "lower_block (fn_body fn) L1 = Some L2" "flows C f (vars_block (fn_body fn)) L1 L2"
    using lowered_stmts(2) [OF flows_ok [OF L1(2)] bd] by (auto simp: completes_def)
  have lo2: "lower_ok C f L2" using flows_ok [OF L2(2)] .
  note fl = flows_trans [OF L1(2) L2(2)]
  let ?fin = "\<lambda>L. if it_kind (ir_ty L (if_ret (fn_obj (lw_m L) f))) = IR_TY_VOID
             then map_option snd (build (\<lambda>b. ir_build_ret b None) L) else map_option snd (build ir_build_unreachable L)"
  obtain L3 where L3: "(if is_open L2 then ?fin L2 else Some L2) = Some L3" "closes C f L2 L3"
  proof (cases "is_open L2")
    case True
    then have r2: "ready C f L2" using lo2 by (simp add: ready_def)
    show thesis
      using that True ret_step [OF r2, of None] unreachable_step [OF r2]
      by (cases "it_kind (ir_ty L2 (if_ret (fn_obj (lw_m L2) f))) = IR_TY_VOID") force+
  next
    case False
    then show thesis using that steps_refl [OF lo2] by (auto simp: closes_def same_scope_def)
  qed
  have all: "lower_function fn f L = Some L3"
    using L1(1) L2(1) L3(1) is_closed_eq [OF lo2] by (simp add: lower_function_def enter_function_def split_def Let_def split: if_splits)
  have st: "steps C f ?X L3" using steps_trans [of C f ?X L2 L3] fl L3(2) by (simp add: flows_def closes_def)
  have o3: "others f L3 = {}" using fl L3(2) x(2) by (simp add: flows_def closes_def)
  have "pending (lw_m L3) f = {}" using closed_pending [of L3 f] L3(2) o3 by (simp add: closes_def)
  moreover have lo3: "lower_ok C f L3" using st by (rule steps_ok)
  ultimately have "well_formed (lw_m L3) f" using lower_okD(3,7) [OF lo3] by (intro well_formedI) auto
  moreover have "grows f (lw_m L) (lw_m L3)" using x(3) st grows_trans by (auto simp: steps_def)
  ultimately show thesis using that all steps_between [OF st] st x(6) by (simp add: steps_def)
qed

section \<open>Declarations of functions\<close>

text \<open>All functions of a list of items, in the order they are declared, and the places of those with a body.\<close>

definition item_fns :: "item \<Rightarrow> fn_decl list" where
  "item_fns it = (case it of ITEM_FN pos fn \<Rightarrow> [fn] | ITEM_EXTERN pos abi fns \<Rightarrow> fns | _ \<Rightarrow> [])"

definition all_fns :: "item list \<Rightarrow> fn_decl list" where
  "all_fns its = concat (map item_fns its)"

fun body_slots :: "nat \<Rightarrow> item list \<Rightarrow> nat set" where
  "body_slots cursor [] = {}"
| "body_slots cursor (it # its) = (case it of ITEM_FN pos fn \<Rightarrow> {cursor} | _ \<Rightarrow> {}) \<union> body_slots (cursor + length (item_fns it)) its"

definition has_bodies :: "item list \<Rightarrow> bool" where
  "has_bodies its \<longleftrightarrow> (\<forall>it \<in> set its. case it of ITEM_FN pos fn \<Rightarrow> fn_has_body fn
     | ITEM_EXTERN pos abi fns \<Rightarrow> list_all (\<lambda>fn. \<not> fn_has_body fn) fns | _ \<Rightarrow> True)"

lemma body_slots_le: "i \<in> body_slots k its \<Longrightarrow> k \<le> i"
  by (induction its arbitrary: k) (force simp: item_fns_def split: item.splits)+

lemma body_slots_iff:
  "has_bodies its \<Longrightarrow> i \<in> body_slots k its \<longleftrightarrow> k \<le> i \<and> i < k + length (all_fns its) \<and> fn_has_body (all_fns its ! (i - k))"
proof (induction its arbitrary: k)
  case (Cons it its)
  have ih: "i \<in> body_slots (k + length (item_fns it)) its \<longleftrightarrow> k + length (item_fns it) \<le> i
      \<and> i < k + length (item_fns it) + length (all_fns its) \<and> fn_has_body (all_fns its ! (i - (k + length (item_fns it))))"
    using Cons by (simp add: has_bodies_def)
  have a: "all_fns (it # its) = item_fns it @ all_fns its" by (simp add: all_fns_def)
  have b: "(i \<in> (case it of ITEM_FN pos fn \<Rightarrow> {k} | _ \<Rightarrow> {})) \<longleftrightarrow> k \<le> i \<and> i < k + length (item_fns it) \<and> fn_has_body (item_fns it ! (i - k))"
    using Cons.prems by (auto simp: has_bodies_def item_fns_def list_all_length split: item.splits)
  show ?case
    unfolding body_slots.simps Un_iff ih a b by (auto simp: nth_append)
qed (simp add: all_fns_def)

lemma declare_functions_fold: "declare_functions its L = fold declare_function (all_fns its) L"
  by (induction its arbitrary: L) (simp_all add: all_fns_def item_fns_def split: item.split)

lemma over_programs_append:
  assumes "\<And>L. g [] L = L" and "\<And>xs ys L. g (xs @ ys) L = g ys (g xs L)"
  shows "over_programs (\<lambda>_. g) p pgs L = g (concat (map pg_items pgs)) L"
  using assms by (induction pgs arbitrary: p L) simp_all

text \<open>The functions of the module are those declared, in this order, and none has blocks.\<close>

definition declared :: "fn_decl list \<Rightarrow> lower \<Rightarrow> bool" where
  "declared fns L \<longleftrightarrow> map fu_fn (lw_funcs L) = [0..<length fns] \<and> length (im_functions (lw_m L)) = length fns
     \<and> (\<forall>i < length fns. if_is_declaration (fn_obj (lw_m L) i) = (\<not> fn_has_body (fns ! i)) \<and> if_blocks (fn_obj (lw_m L) i) = [])"

lemma in_module_same_fns:
  assumes "\<And>m. im_functions (snd (g m)) = im_functions m"
  shows "im_functions (lw_m (snd (in_module g L))) = im_functions (lw_m L)" and "lw_funcs (snd (in_module g L)) = lw_funcs L"
  using assms by (simp_all add: in_module_eq)

lemma ast_type_fns: "im_functions (lw_m (snd (ir_of_ast_type t L))) = im_functions (lw_m L) \<and> lw_funcs (snd (ir_of_ast_type t L)) = lw_funcs L"
proof (induction t arbitrary: L)
  case (TYPE_CORE pos k)
  then show ?case by (auto simp: ir_of_core_def int_type_eq plain_type_eq split: token_kind.split keyword.split)
next
  case (TYPE_ARRAY pos t n)
  then show ?case by (simp add: split_def Let_def in_module_eq ir_type_array_def type_new_def)
qed simp_all

lemma params_fns: "im_functions (lw_m (snd (ir_of_params ps L))) = im_functions (lw_m L) \<and> lw_funcs (snd (ir_of_params ps L)) = lw_funcs L"
  by (induction ps arbitrary: L) (simp_all add: split_def Let_def ast_type_fns)

lemma value_set_fns [simp]: "im_functions (value_set v g m) = im_functions m"
  by (simp add: value_set_def)

lemma name_params_fns: "im_functions (lw_m (name_params f i ps L)) = im_functions (lw_m L) \<and> lw_funcs (name_params f i ps L) = lw_funcs L"
  by (induction ps arbitrary: L i) (simp_all add: in_module_eq ir_param_set_name_def)

lemma new_params_fns: "im_functions (snd (new_params m i ts)) = im_functions m"
  by (induction ts arbitrary: m i) (simp_all add: split_def Let_def value_new_def)

lemma declare_function_declared:
  assumes d: "declared fns L"
  shows "declared (fns @ [fn]) (declare_function fn L)"
proof -
  define L1 where "L1 = snd (ir_of_params (fn_params fn) L)"
  define L2 where "L2 = snd (ir_of_ast_type (fn_ret fn) L1)"
  have s: "im_functions (lw_m L2) = im_functions (lw_m L)" "lw_funcs L2 = lw_funcs L"
    by (simp_all add: L2_def L1_def ast_type_fns params_fns)
  obtain ts rt where e: "declare_function fn L =
      (let L3 = snd (in_module (\<lambda>m. ir_function_new m (fn_name fn) rt ts (fn_is_variadic fn) (\<not> fn_has_body fn)) L2);
           f = fst (in_module (\<lambda>m. ir_function_new m (fn_name fn) rt ts (fn_is_variadic fn) (\<not> fn_has_body fn)) L2);
           L4 = name_params f 0 (fn_params fn) L3 in L4\<lparr>lw_funcs := lw_funcs L4 @ [\<lparr>fu_name = fn_name fn, fu_fn = f\<rparr>]\<rparr>)"
    by (simp add: declare_function_def split_def Let_def L1_def L2_def)
  show ?thesis
    using d unfolding e Let_def
    by (auto simp: declared_def name_params_fns fn_obj_def in_module_eq ir_function_new_def split_def Let_def new_params_fns s nth_append less_Suc_eq)
qed

lemma fold_declared: "declared fns L \<Longrightarrow> declared (fns @ xs) (fold declare_function xs L)"
proof (induction xs arbitrary: fns L)
  case (Cons x xs)
  then show ?case using Cons.IH [OF declare_function_declared [OF Cons.prems]] by simp
qed simp

text \<open>What comes before leaves the functions alone.\<close>

definition same_fns :: "lower \<Rightarrow> lower \<Rightarrow> bool" where
  "same_fns L L' \<longleftrightarrow> im_functions (lw_m L') = im_functions (lw_m L) \<and> lw_funcs L' = lw_funcs L"

lemma same_fns_trans: "same_fns a b \<Longrightarrow> same_fns b c \<Longrightarrow> same_fns a c"
  by (simp add: same_fns_def)

lemma same_fns_refl: "same_fns L L"
  by (simp add: same_fns_def)

lemma over_programs_same: "(\<And>p its L. same_fns L (g p its L)) \<Longrightarrow> same_fns L (over_programs g p pgs L)"
proof (induction pgs arbitrary: p L)
  case (Cons pg pgs)
  show ?case using same_fns_trans [OF Cons.prems Cons.IH [OF Cons.prems]] by simp
qed (simp add: same_fns_refl)

lemma collect_types_same: "same_fns L (collect_types p i its L)"
proof (induction its arbitrary: i L)
  case (Cons it its)
  have "im_functions (snd (ir_type_struct m n)) = im_functions m" for m n by (simp add: ir_type_struct_def type_new_def)
  moreover have "snd (ir_of_core b L) = L" for b
    by (simp add: ir_of_core_def int_type_eq plain_type_eq split: token_kind.split keyword.split)
  ultimately have "same_fns L (case it of
       ITEM_STRUCT pos name fs \<Rightarrow>
         (let (t, L) = in_module (\<lambda>m. ir_type_struct m name) L in
          L\<lparr>lw_named := lw_named L @ [\<lparr>nt_name = name, nt_type = t, nt_decl = (p, i)\<rparr>]\<rparr>)
     | ITEM_ENUM pos name base ms \<Rightarrow>
         (let (t, L) = ir_of_core base L in
          L\<lparr>lw_named := lw_named L @ [\<lparr>nt_name = name, nt_type = t, nt_decl = (p, i)\<rparr>]\<rparr>)
     | _ \<Rightarrow> L)"
    by (simp add: same_fns_def split_def Let_def in_module_eq split: item.split)
  then show ?case using Cons same_fns_trans by simp
qed (simp add: same_fns_refl)

lemma fields_fns: "same_fns L (snd (ir_of_fields fs L))"
  by (induction fs arbitrary: L) (simp_all add: split_def Let_def same_fns_def ast_type_fns)

lemma fill_same: "same_fns L (fill_struct_bodies p i its L)"
proof (induction its arbitrary: i L)
  case (Cons it its)
  have "im_functions (ir_struct_set_body m t ts) = im_functions m" for m t ts by (simp add: ir_struct_set_body_def)
  then have "same_fns L (case it of
       ITEM_STRUCT pos name fs \<Rightarrow>
         (case find_named L name of
            Some nt \<Rightarrow>
              if nt_decl nt \<noteq> (p, i) then L
              else (let (ts, L) = ir_of_fields fs L in
                    snd (in_module (\<lambda>m. ((), ir_struct_set_body m (nt_type nt) ts)) L))
          | None \<Rightarrow> L)
     | _ \<Rightarrow> L)"
    using fields_fns [of L] by (simp add: same_fns_def split_def Let_def in_module_eq split: item.split option.split)
  then show ?case using Cons same_fns_trans by simp
qed (simp add: same_fns_refl)

lemma string_fns: "im_functions (snd (ir_string m bytes)) = im_functions m"
  by (simp add: ir_string_def split_def Let_def value_new_def global_append_def ir_type_array_def type_new_def)

lemma const_fns: "im_functions (snd (ir_const_int m t v)) = im_functions m" "im_functions (snd (ir_const_fp m t v)) = im_functions m"
  "im_functions (snd (ir_const_null m)) = im_functions m"
  by (simp_all add: ir_const_int_def ir_const_fp_def ir_const_null_def value_new_def)

lemma constant_same: "same_fns L (snd (constant_of init t L))"
proof (induction init t L rule: constant_of.induct)
  case (2 pos sem u t L)
  then show ?case
    by (cases u) (simp_all add: Let_def same_fns_def in_module_eq const_fns string_fns new_const_def fail_def)
qed (simp add: same_fns_refl)

lemma globals_same: "same_fns L (lower_globals its L)"
proof (induction its arbitrary: L)
  case (Cons it its)
  have "same_fns L (lower_global t n i L)" for t n i
    using ast_type_fns [of t L] constant_same [of "snd (ir_of_ast_type t L)" i "fst (ir_of_ast_type t L)"]
    by (simp add: lower_global_def split_def Let_def same_fns_def in_module_eq ir_global_new_def global_append_def value_new_def)
  then have "same_fns L (case it of ITEM_GLOBAL pos m t name init \<Rightarrow> lower_global t name init L | _ \<Rightarrow> L)"
    by (simp add: same_fns_refl split: item.split)
  then show ?case using Cons same_fns_trans by simp
qed (simp add: same_fns_refl)

abbreviation program_items :: "program list \<Rightarrow> item list" where
  "program_items pgs \<equiv> concat (map pg_items pgs)"

lemma lower_declarations_declared: "declared (all_fns (program_items pgs)) (lower_declarations pgs (lower_init tt pgs))"
proof -
  let ?L1 = "over_programs (\<lambda>_. lower_globals) 0 pgs (over_programs (\<lambda>p. fill_struct_bodies p 0) 0 pgs
      (over_programs (\<lambda>p. collect_types p 0) 0 pgs (lower_init tt pgs)))"
  have "same_fns (lower_init tt pgs) ?L1"
    by (rule same_fns_trans [OF same_fns_trans]; rule over_programs_same) (rule collect_types_same fill_same globals_same)+
  then have "declared [] ?L1"
    by (simp add: same_fns_def declared_def lower_init_def ir_builder_init_def ir_module_new_def)
  moreover have "over_programs (\<lambda>_. declare_functions) 0 pgs ?L1 = fold declare_function (all_fns (program_items pgs)) ?L1"
    unfolding declare_functions_fold [symmetric]
    by (rule over_programs_append) (simp_all add: declare_functions_fold all_fns_def)
  ultimately show ?thesis using fold_declared [of "[]"] by (simp add: lower_declarations_def Let_def)
qed

section \<open>The bodies\<close>

definition ok_item :: "meaning \<Rightarrow> item \<Rightarrow> bool" where
  "ok_item C it \<longleftrightarrow> (case it of ITEM_FN pos fn \<Rightarrow> ok_fn C fn | _ \<Rightarrow> True)"

text \<open>The module while the bodies are lowered: a function of \<open>S\<close> has no blocks yet, any other is a declaration or done.\<close>

definition partly_lowered :: "fnref set \<Rightarrow> ir_module \<Rightarrow> bool" where
  "partly_lowered S m \<longleftrightarrow> (\<forall>g < length (im_functions m). if g \<in> S then if_blocks (fn_obj m g) = []
     else if if_is_declaration (fn_obj m g) then if_blocks (fn_obj m g) = [] else well_formed m g)"

lemma lower_bodies_total:
  "between C L \<Longrightarrow> list_all (ok_item C) its \<Longrightarrow> map fu_fn (lw_funcs L) = [0..<n] \<Longrightarrow> n \<le> length (im_functions (lw_m L))
   \<Longrightarrow> body_slots k its \<subseteq> {..<n} \<Longrightarrow> \<forall>i \<in> body_slots k its. \<not> if_is_declaration (fn_obj (lw_m L) i)
   \<Longrightarrow> partly_lowered (body_slots k its) (lw_m L)
   \<Longrightarrow> \<exists>k' L'. lower_bodies k its L = Some (k', L') \<and> between C L' \<and> partly_lowered {} (lw_m L')"
proof (induction its arbitrary: k L)
  case Nil
  then show ?case by simp
next
  case (Cons it its)
  show ?case
  proof (cases "\<exists>pos fn. it = ITEM_FN pos fn")
    case False
    then have bs: "body_slots k (it # its) = body_slots (k + length (item_fns it)) its"
      and e: "lower_bodies k (it # its) L = lower_bodies (k + length (item_fns it)) its L"
      by (cases it; simp add: item_fns_def)+
    show ?thesis
      unfolding e
      by (rule Cons.IH [OF Cons.prems(1) _ Cons.prems(3,4) Cons.prems(5,6,7) [unfolded bs]]) (use Cons.prems(2) in simp)
  next
    case True
    then obtain pos fn where it: "it = ITEM_FN pos fn" by blast
    have bs: "body_slots k (it # its) = insert k (body_slots (Suc k) its)" by (simp add: it item_fns_def)
    have nk: "k \<notin> body_slots (Suc k) its" using body_slots_le by fastforce
    note q = Cons.prems(5,6,7) [unfolded bs]
    have kn: "k < n" using q(1) by simp
    then have f: "fu_fn (lw_funcs L ! k) = k"
      using Cons.prems(3) by (metis add_0 length_map length_upt minus_nat.diff_0 nth_map nth_upt)
    have kl: "k < length (im_functions (lw_m L))" using kn Cons.prems(4) by simp
    have em: "if_blocks (fn_obj (lw_m L) k) = []" using q(3) kl by (simp add: partly_lowered_def)
    have okf: "ok_fn C fn" using Cons.prems(2) by (simp add: it ok_item_def)
    obtain L1 where L1: "lower_function fn k L = Some L1" "between C L1" "grows k (lw_m L) (lw_m L1)" "well_formed (lw_m L1) k"
      "lw_funcs L1 = lw_funcs L"
      by (rule lower_function_total [OF Cons.prems(1) kl em okf])
    have sg: "same_sig (fn_obj (lw_m L1) g) (fn_obj (lw_m L) g)" if "g < length (im_functions (lw_m L))" for g
      using L1(3) that by (simp add: grows_def)
    have dc: "\<not> if_is_declaration (fn_obj (lw_m L1) i)" if "i \<in> insert k (body_slots (Suc k) its)" for i
    proof -
      have "i < length (im_functions (lw_m L))" using Cons.prems(4) q(1) that by auto
      moreover have "\<not> if_is_declaration (fn_obj (lw_m L) i)" using q(2) that by auto
      ultimately show ?thesis using sg by (simp add: same_sig_def)
    qed
    have "partly_lowered (body_slots (Suc k) its) (lw_m L1)"
      unfolding partly_lowered_def
    proof (intro allI impI)
      fix g assume g: "g < length (im_functions (lw_m L1))"
      show "if g \<in> body_slots (Suc k) its then if_blocks (fn_obj (lw_m L1) g) = []
        else if if_is_declaration (fn_obj (lw_m L1) g) then if_blocks (fn_obj (lw_m L1) g) = [] else well_formed (lw_m L1) g"
      proof (cases "g = k")
        case True
        then show ?thesis using nk L1(4) dc by simp
      next
        case gk: False
        show ?thesis
        proof (cases "g < length (im_functions (lw_m L))")
          case True
          then have old: "if g \<in> insert k (body_slots (Suc k) its) then if_blocks (fn_obj (lw_m L) g) = []
              else if if_is_declaration (fn_obj (lw_m L) g) then if_blocks (fn_obj (lw_m L) g) = [] else well_formed (lw_m L) g"
            using q(3) by (simp add: partly_lowered_def)
          have "if_blocks (fn_obj (lw_m L1) g) = if_blocks (fn_obj (lw_m L) g)" using L1(3) True gk by (simp add: grows_def)
          then show ?thesis
            using old gk sg [OF True] grows_other(2) [OF L1(3) True gk] by (simp add: same_sig_def split: if_splits)
        next
          case False
          then have "if_is_declaration (fn_obj (lw_m L1) g) \<and> if_blocks (fn_obj (lw_m L1) g) = []" using L1(3) g gk by (simp add: grows_def)
          then show ?thesis by simp
        qed
      qed
    qed
    moreover have "n \<le> length (im_functions (lw_m L1))" using Cons.prems(4) L1(3) by (simp add: grows_def)
    ultimately have "\<exists>k' L'. lower_bodies (Suc k) its L1 = Some (k', L') \<and> between C L' \<and> partly_lowered {} (lw_m L')"
      using Cons.IH [OF L1(2), of "Suc k"] Cons.prems(2,3) q(1) L1(5) dc by simp
    then show ?thesis using L1(1) by (simp add: it f)
  qed
qed

section \<open>Programs\<close>

text \<open>A checked program: the declarations leave a well-formed environment, and every body is made of checked trees.\<close>

definition checked_program :: "meaning \<Rightarrow> type_table \<Rightarrow> program list \<Rightarrow> bool" where
  "checked_program C tt pgs \<longleftrightarrow> between C (lower_declarations pgs (lower_init tt pgs)) \<and> list_all (ok_item C) (program_items pgs)
     \<and> has_bodies (program_items pgs)"

lemma lower_programs_runs:
  assumes "checked_program C tt pgs"
  shows "\<exists>m err. lower_programs tt pgs = Some (m, err) \<and> (\<forall>m'. m = Some m' \<longrightarrow> module_typed m' \<and> partly_lowered {} m')"
proof -
  let ?its = "program_items pgs"
  let ?L = "lower_declarations pgs (lower_init tt pgs)"
  have d: "declared (all_fns ?its) ?L" by (rule lower_declarations_declared)
  have hb: "has_bodies ?its" and b: "between C ?L" and ok: "list_all (ok_item C) ?its" using assms by (auto simp: checked_program_def)
  have sl: "i \<in> body_slots 0 ?its \<longleftrightarrow> i < length (all_fns ?its) \<and> fn_has_body (all_fns ?its ! i)" for i
    using body_slots_iff [OF hb, of i 0] by simp
  have "partly_lowered (body_slots 0 ?its) (lw_m ?L)" using d by (simp add: partly_lowered_def declared_def sl)
  moreover have "\<forall>i \<in> body_slots 0 ?its. \<not> if_is_declaration (fn_obj (lw_m ?L) i)" using d by (simp add: declared_def sl)
  ultimately obtain k' L' where "lower_bodies 0 ?its ?L = Some (k', L')" "between C L'" "partly_lowered {} (lw_m L')"
    using lower_bodies_total [OF b ok, of "length (all_fns ?its)" 0] d sl by (auto simp: declared_def)
  then show ?thesis by (simp add: lower_programs_def between_def)
qed

end
