(* ===== verification/Slop_Lower_Decls.thy ===== *)
theory Slop_Lower_Decls
  imports Slop_Lower_Program Slop_Scope
begin

text \<open>
  The declarations of a program: what \<open>lower_programs\<close> does before the bodies gives the environment the bodies need,
  once the structs have a layout.
\<close>

section \<open>The new module\<close>




section \<open>Steps between functions\<close>






section \<open>Functions\<close>








section \<open>Globals\<close>







section \<open>Structs and enums\<close>


























section \<open>Checked programs\<close>


















end
