(* ===== verification/Spec2Isabelle.thy ===== *)
theory Spec2Isabelle
  imports Slop_Types_Props Slop_Scope Slop_Sema_Flow Slop_Compile Slop_Arena Slop_Lower_Decls
begin

text \<open>
  A verification library for the slop compiler: the C sources under \<open>src/\<close>, from the bytes of the source files to
  the text the backends write.

  \<^bold>\<open>The program\<close>

  \<open>driver/main.c\<close> reads each file named on the command line (\<open>driver/source_file.c\<close>), lexes it (\<open>lexer/lexer.c\<close>) and
  parses it (\<open>parser/parser.c\<close>) into the tree of \<open>ast/ast.h\<close>. If no file had an error, semantic analysis
  (\<open>sema/sema.c\<close>) collects the global names of all files, resolves types and lays structs out, and checks the bodies; it
  writes types and conversions into the trees. It uses the interning type table of \<open>sema/types.c\<close> and the scopes of
  \<open>sema/scope.c\<close>, whose global namespaces are the hash map of \<open>support/map.c\<close>. Without a backend the checked trees are
  dumped (\<open>ast/ast_dump.c\<close>); with one, \<open>backend/lowering.c\<close> translates them with the builder of \<open>ir/ir.c\<close> into an IR
  module, \<open>ir_verify\<close> checks it, and \<open>backend/backend_llvm.c\<close> or \<open>backend/backend_c.c\<close> prints it. All objects live in
  the arena of \<open>support/arena.c\<close>; lists under construction are vectors of \<open>support/vec.c\<close>; errors go through
  \<open>support/diag.c\<close>.

  \<^bold>\<open>How the code is modelled\<close>

  A C function is a function of the state it uses, which it returns updated; \<open>None\<close> means that the C code does not
  return, or reads through NULL. Machine integers are words of their width (\<open>u32\<close>, \<open>u64\<close>) wherever they can wrap, and
  doubles are their 64 bits. A pointer to an object the code keeps and compares is an index into the list of the objects
  of its kind (\<open>tyref\<close>, \<open>symref\<close>, \<open>typeref\<close>, \<open>valref\<close>, \<open>blockref\<close>, \<open>fnref\<close>), so that identity is what it is in C;
  the theorem on the arena is what justifies reading objects as separate. A tree that sema rewrites is taken and given
  back. Errors are the messages they print.

    \<^item> \<open>Slop_Prelude\<close>: the types, how printf writes unsigned numbers, the calculus of functions on a state.
    \<^item> \<open>Slop_Support\<close>, \<open>Slop_Map\<close>, \<open>Slop_Arena\<close>: \<open>support/\<close>. Positions, string views and diagnostics; the
      open-addressing map with its growth; arena and vectors on bytes.
    \<^item> \<open>Slop_Tokens\<close>, \<open>Slop_Lexer\<close>: \<open>lexer/\<close>. The kinds and spellings; the lexer on offsets into the source.
    \<^item> \<open>Slop_Ast\<close>, \<open>Slop_Parser\<close>, \<open>Slop_Parser_Decl\<close>, \<open>Slop_Ast_Dump\<close>: \<open>ast/\<close> and \<open>parser/\<close>, with error
      recovery; expressions and types, then statements and items; the rendering of a tree.
    \<^item> \<open>Slop_Types\<close>, \<open>Slop_Scope\<close>: \<open>sema/types.c\<close>, \<open>sema/scope.c\<close>.
    \<^item> \<open>Slop_Sema\<close>, \<open>Slop_Sema_Expr\<close>, \<open>Slop_Sema_Stmt\<close>: \<open>sema/sema.c\<close>. State, global names, types and layout;
      expressions; statements, functions, globals and the passes.
    \<^item> \<open>Slop_IR\<close>, \<open>Slop_IR_Verify\<close>: \<open>ir/\<close>. Objects, constructors and builder; the verifier.
    \<^item> \<open>Slop_Lowering\<close>, \<open>Slop_Lower_Expr\<close>, \<open>Slop_Lower_Stmt\<close>: \<open>backend/lowering.c\<close>. The environment, types and
      names; expressions; statements, functions and programs.
    \<^item> \<open>Slop_Emit_LLVM\<close>, \<open>Slop_Emit_C\<close>, \<open>Slop_Driver\<close>: the backends as the text they write; the table of
      backends, the token listing, the options and the sequence of passes.

  \<^bold>\<open>What is proved\<close>

    \<^item> Front end. \<open>Slop_Lexer_Props\<close>: the tokens tile the source, longest match, exact values of literals.
      \<open>Slop_Grammar\<close> states the grammar of GRAMMAR.md as derivations; \<open>Slop_Parser_Logic\<close> is the contract every
      parser routine keeps (it returns, moves forward, and without an error it read a sentence of its production), proved
      in \<open>Slop_Parser_Sound\<close> and \<open>Slop_Parser_Stmt_Sound\<close> against the locales \<open>nested_expr\<close> and \<open>nested_stmt\<close>, which are
      interpreted by the recursive entry points; \<open>Slop_Parser_Props\<close> and \<open>Slop_Front_End\<close> draw the conclusions.
    \<^item> Tables. \<open>Slop_Map\<close> refines a finite map (locale \<open>name_table\<close>), \<open>Slop_Scope\<close> a stack of frames (locale
      \<open>scope_stack\<close>), \<open>Slop_Types_Props\<close> shows interning sound and complete, \<open>Slop_Arena\<close> that objects are separate.
    \<^item> Semantic analysis. \<open>Slop_Sema_Inv\<close> is the invariant and what steps keep; \<open>Slop_Sema_Layout\<close> resolves and
      lays out; \<open>Slop_Sema_Typing\<close> is the type system as a judgement on checked trees; \<open>Slop_Sema_Retype\<close>,
      \<open>Slop_Sema_Check\<close> and \<open>Slop_Sema_Tree\<close> prove \<open>check_expr\<close> total and sound for it; \<open>Slop_Sema_Flow\<close> relates
      divergence to a flow semantics. \<open>Slop_Sema_Body\<close> and \<open>Slop_Sema_Stmt_Sound\<close> are the judgement for statements and
      its soundness. \<open>Slop_Sema_Collect\<close>, \<open>Slop_Sema_Resolve\<close> and \<open>Slop_Sema_Program\<close> take whole programs through the
      passes, one file a pass: \<open>sema_check\<close> ends, and programs without an error are typed (\<open>program_typed\<close>).
    \<^item> IR. \<open>Slop_IR_Layout\<close>: sizes and alignments are C's. \<open>Slop_IR_Verify\<close>: the verifier decides well-formedness.
    \<^item> Lowering. \<open>Slop_Lower_Inv\<close> is what every step keeps (types with a layout, values with types, blocks that are
      closed or pending); \<open>Slop_Lower_Steps\<close>, \<open>Slop_Lower_Total\<close>, \<open>Slop_Lower_Ops\<close> and \<open>Slop_Lower_Exprs\<close> take it
      through instructions, operators and expressions, \<open>Slop_Lower_Store\<close>, \<open>Slop_Lower_Stmts\<close> and \<open>Slop_Lower_Flow\<close>
      through statements and control flow, \<open>Slop_Lower_Program\<close> and \<open>Slop_Lower_Decls\<close> through functions and programs:
      lowering ends and every function it makes is well formed.
    \<^item> \<open>Slop_Driver_Props\<close>: names of stack slots, the strings the backends write, runs of the driver.
      \<open>Slop_Compile\<close>: a sentence of the grammar is a source of semantic analysis that declares at most as many names as it
      has bytes, so a run without a backend ends, and one without errors leaves typed programs.

  \<^bold>\<open>Bounds and fuel\<close>

  \<open>check_expr_n\<close> has the height of the tree as fuel and \<open>lower_expr_n\<close> its size; both recurse on children only.
  \<open>layout_struct_n\<close> has the length of the type table: each level opens another struct. The parser's recursion has the
  number of tokens. That the fuel is enough is part of the theorems that these functions return. The hash map holds at
  most \<open>MAP_ROOM\<close> names, beyond which its 32-bit capacity would wrap. Stack slots get unique names when source names have
  at most 148 bytes and a function has fewer than 2^32 variables (\<open>short_name\<close>); from 159 bytes on the loop of
  \<open>unique_name\<close> does not end (\<open>long_name_loops\<close>).

  \<^bold>\<open>Choices and parameters\<close>

  Where C leaves the order of evaluation of arguments open, the arguments are evaluated from left to right.
  Failures of malloc, fseek and ftell, which end the program or report an unreadable file, are left out. Parameters of
  the model, without assumptions: strtod, how printf writes a double with \<open>%g\<close> and \<open>%.17g\<close>, the bytes of the files, and
  where malloc puts blocks. The theorem on lowering is about the programs \<open>sound_program\<close> describes:
  trees with types that have a layout, with the bounds above. It is stated beside \<open>program_typed\<close>, not derived from it:
  semantic analysis also accepts a \<open>void\<close> call as a variadic argument, which lowering has no value for.

  \<^bold>\<open>Not modelled\<close>

  The self-hosted stage 1 sources, tests and examples are programs in the slop language. \<open>arena_free\<close>, \<open>lexer_free\<close> and
  the lexer's pool only manage memory that is not read again.
\<close>

end
